(* ===== verification/Prelude.thy ===== *)
theory Prelude
  imports Main "HOL-Library.Word"
begin

text \<open>
  The vocabulary every component of the development shares: the outcome of a partial
  computation (\<open>fault + 'a\<close>), its sequencing operator, bounded reads of a byte image,
  counted loops, and the weakest-precondition predicate \<open>wp\<close> in which the safety and the
  functional facts about the code are stated together.

  A computation of the source ends in one of four ways: it returns a value (\<open>Inr x\<close>), it
  rejects its input with a reason (\<open>Inl (Reject m)\<close>, the source's \<open>return Fail(m)\<close>), it
  throws (\<open>Inl (Throw m)\<close>, the slicer's \<open>SLICER_CHECK\<close>), or it reads a byte that is not
  in the image (\<open>Inl (Oob p)\<close>). The last one is what the C++ program must never do.
\<close>

unbundle bit_operations_syntax

named_theorems wp_rules \<open>weakest-precondition equations used by simp\<close>
named_theorems wp_intros \<open>weakest-precondition introduction rules\<close>
named_theorems layout \<open>sizes and offsets of on-disk structures\<close>

section \<open>Outcomes\<close>

datatype fault = Reject string | Throw string | Oob nat

type_synonym 'a result = "fault + 'a"

definition fail :: "string \<Rightarrow> 'a result" where
  "fail m = Inl (Reject m)"

definition throw :: "string \<Rightarrow> 'a result" where
  "throw m = Inl (Throw m)"

definition bind :: "'e + 'a \<Rightarrow> ('a \<Rightarrow> 'e + 'b) \<Rightarrow> 'e + 'b" where
  "bind m f = (case m of Inl e \<Rightarrow> Inl e | Inr x \<Rightarrow> f x)"

lemma bind_Inr [simp]: "bind (Inr x) f = f x"
  by (simp add: bind_def)

lemma bind_Inl [simp]: "bind (Inl e) f = Inl e"
  by (simp add: bind_def)

lemma bind_fail [simp]: "bind (fail m) f = fail m"
  by (simp add: fail_def)

lemma bind_throw [simp]: "bind (throw m) f = throw m"
  by (simp add: throw_def)

lemma bind_cong [fundef_cong]:
  assumes "m = m'" and "\<And>x. m' = Inr x \<Longrightarrow> f x = f' x"
  shows "bind m f = bind m' f'"
  using assms by (cases m') (auto simp: bind_def)

lemma bind_eq_Inr: "bind m f = Inr y \<longleftrightarrow> (\<exists>x. m = Inr x \<and> f x = Inr y)"
  by (cases m) auto

lemma bind_assoc: "bind (bind m f) g = bind m (\<lambda>x. bind (f x) g)"
  by (cases m) auto

lemma fail_neq_Inr [simp]: "fail m \<noteq> Inr x" "Inr x \<noteq> fail m"
  by (simp_all add: fail_def)

lemma throw_neq_Inr [simp]: "throw m \<noteq> Inr x" "Inr x \<noteq> throw m"
  by (simp_all add: throw_def)

section \<open>Weakest preconditions\<close>

text \<open>
  \<open>wp r Q\<close>: the outcome \<open>r\<close> is not an out-of-image read, and if it is a value then the
  value satisfies \<open>Q\<close>. Rejections and throws satisfy every \<open>wp\<close>.
\<close>

definition wp :: "'a result \<Rightarrow> ('a \<Rightarrow> bool) \<Rightarrow> bool" where
  "wp r Q = (case r of Inl (Oob p) \<Rightarrow> False | Inl _ \<Rightarrow> True | Inr x \<Rightarrow> Q x)"

lemma wp_Inr [wp_rules]: "wp (Inr x) Q = Q x"
  by (simp add: wp_def)

lemma wp_fail [wp_rules]: "wp (fail m) Q"
  by (simp add: wp_def fail_def)

lemma wp_throw [wp_rules]: "wp (throw m) Q"
  by (simp add: wp_def throw_def)

lemma wp_Oob [wp_rules]: "\<not> wp (Inl (Oob p)) Q"
  by (simp add: wp_def)

lemma wp_bind [wp_rules]: "wp (bind m f) Q = wp m (\<lambda>x. wp (f x) Q)"
  by (cases m) (auto simp: wp_def split: fault.splits)

lemma wp_if [wp_rules]:
  "wp (if b then m else m') Q = ((b \<longrightarrow> wp m Q) \<and> (\<not> b \<longrightarrow> wp m' Q))"
  by simp

lemma wp_conseq: "wp r P \<Longrightarrow> (\<And>x. P x \<Longrightarrow> Q x) \<Longrightarrow> wp r Q"
  by (auto simp: wp_def split: sum.splits fault.splits)

lemma wp_conseq_eq: "wp r P \<Longrightarrow> (\<And>x. r = Inr x \<Longrightarrow> P x \<Longrightarrow> Q x) \<Longrightarrow> wp r Q"
  by (auto simp: wp_def split: sum.splits fault.splits)

lemma wp_conj: "wp r P \<Longrightarrow> wp r Q \<Longrightarrow> wp r (\<lambda>x. P x \<and> Q x)"
  by (auto simp: wp_def split: sum.splits fault.splits)

lemma wp_InrD: "wp r Q \<Longrightarrow> r = Inr x \<Longrightarrow> Q x"
  by (simp add: wp_def)

lemma wp_not_Oob: "wp r Q \<Longrightarrow> r \<noteq> Inl (Oob p)"
  by (auto simp: wp_def)

lemma wp_cases:
  assumes "wp r Q"
  obtains (returned) x where "r = Inr x" "Q x"
    | (rejected) m where "r = Inl (Reject m)"
    | (thrown) m where "r = Inl (Throw m)"
  using assms by (cases r) (auto simp: wp_def split: fault.splits)

text \<open>The two shapes a checker is made of: a guard, and a check made only when it applies.\<close>

lemma wp_guardI: "(\<not> b \<Longrightarrow> wp m Q) \<Longrightarrow> wp (if b then fail e else m) Q"
  by (simp add: wp_fail)

lemma wp_whenI: "(b \<Longrightarrow> wp m (\<lambda>_. P)) \<Longrightarrow> ((b \<longrightarrow> P) \<Longrightarrow> Q ()) \<Longrightarrow> wp (if b then m else Inr ()) Q"
  by (auto simp: wp_Inr intro: wp_conseq)

section \<open>Outcomes that keep a state\<close>

text \<open>
  Where the source mutates a state that its caller sees even after a failure, the failure
  carries that state: \<open>'s kept + 'a\<close>. \<open>wps\<close> is \<open>wp\<close> for these.
\<close>

type_synonym 's kept = "fault \<times> 's"

definition keep :: "'s \<Rightarrow> 'a result \<Rightarrow> 's kept + 'a" where
  "keep s r = (case r of Inl e \<Rightarrow> Inl (e, s) | Inr x \<Rightarrow> Inr x)"

definition forget :: "'s kept + 'a \<Rightarrow> 'a result" where
  "forget r = (case r of Inl e \<Rightarrow> Inl (fst e) | Inr x \<Rightarrow> Inr x)"

lemma keep_simps [simp]: "keep s (Inr x) = Inr x" "keep s (Inl e) = Inl (e, s)"
  by (simp_all add: keep_def)

lemma forget_simps [simp]:
  "forget (Inr x) = Inr x" "forget (Inl e) = Inl (fst e)" "forget (keep s r) = r"
  by (auto simp: forget_def keep_def split: sum.splits)

lemma forget_bind: "forget (bind m f) = bind (forget m) (\<lambda>x. forget (f x))"
  by (cases m) auto

lemma forget_eq_Inr: "forget r = Inr x \<longleftrightarrow> r = Inr x"
  by (cases r) auto

definition wps :: "'s kept + 'a \<Rightarrow> ('a \<Rightarrow> bool) \<Rightarrow> bool" where
  "wps r Q = wp (forget r) Q"

lemma wps_simps [wp_rules]:
  "wps (Inr x) Q = Q x"
  "wps (keep s r') Q = wp r' Q"
  "wps (bind m f) P = wps m (\<lambda>x. wps (f x) P)"
  by (simp_all add: wps_def wp_Inr forget_bind wp_bind)

lemma wps_conseq: "wps r P \<Longrightarrow> (\<And>x. P x \<Longrightarrow> Q x) \<Longrightarrow> wps r Q"
  unfolding wps_def by (rule wp_conseq)

lemma wps_conseq_eq: "wps r P \<Longrightarrow> (\<And>x. r = Inr x \<Longrightarrow> P x \<Longrightarrow> Q x) \<Longrightarrow> wps r Q"
  unfolding wps_def by (erule wp_conseq_eq) (simp add: forget_eq_Inr)

lemma wps_InrD: "wps r Q \<Longrightarrow> r = Inr x \<Longrightarrow> Q x"
  by (simp add: wps_def wp_Inr)

section \<open>Counted loops\<close>

text \<open>
  \<open>for_range i n body s\<close> is the source's \<open>for (; i < n; ++i)\<close> loop: \<open>body\<close> gets the
  counter and the loop-carried state, and the first fault leaves the loop.
\<close>

function for_range :: "nat \<Rightarrow> nat \<Rightarrow> (nat \<Rightarrow> 's \<Rightarrow> 'e + 's) \<Rightarrow> 's \<Rightarrow> 'e + 's" where
  "for_range i n body s =
     (if i < n then bind (body i s) (\<lambda>s'. for_range (Suc i) n body s') else Inr s)"
  by pat_completeness auto
termination
  by (relation "measure (\<lambda>(i, n, body, s). n - i)") auto

declare for_range.simps [simp del]

lemma for_range_done [simp]: "n \<le> i \<Longrightarrow> for_range i n body s = Inr s"
  by (simp add: for_range.simps)

lemma for_range_step:
  "i < n \<Longrightarrow> for_range i n body s = bind (body i s) (for_range (Suc i) n body)"
  by (subst for_range.simps) simp

lemma wp_for_range:
  assumes "Inv i s" and "i \<le> n"
    and "\<And>j s. i \<le> j \<Longrightarrow> j < n \<Longrightarrow> Inv j s \<Longrightarrow> wp (body j s) (Inv (Suc j))"
  shows "wp (for_range i n body s) (Inv n)"
  using assms
proof (induction i n body s rule: for_range.induct)
  case (1 i n body s)
  show ?case
  proof (cases "i < n")
    case True
    then have "wp (body i s) (Inv (Suc i))"
      using 1 by auto
    then have "wp (body i s) (\<lambda>s'. wp (for_range (Suc i) n body s') (Inv n))"
      by (rule wp_conseq_eq) (use 1 True in auto)
    with True show ?thesis
      by (simp add: for_range_step wp_bind)
  next
    case False
    with 1 show ?thesis by (simp add: wp_Inr)
  qed
qed

lemma forget_for_range:
  "forget (for_range i n body s) = for_range i n (\<lambda>j t. forget (body j t)) s"
proof (induction "n - i" arbitrary: i s)
  case (Suc k)
  then show ?case by (simp add: for_range_step forget_bind)
qed simp

lemma wps_for_range:
  assumes "Inv i s" and "i \<le> n"
    and "\<And>j s. i \<le> j \<Longrightarrow> j < n \<Longrightarrow> Inv j s \<Longrightarrow> wps (body j s) (Inv (Suc j))"
  shows "wps (for_range i n body s) (Inv n)"
  using assms unfolding wps_def forget_for_range by (rule wp_for_range)

text \<open>A loop without carried state that only checks.\<close>

definition for_each :: "nat \<Rightarrow> nat \<Rightarrow> (nat \<Rightarrow> 'e + unit) \<Rightarrow> 'e + unit" where
  "for_each i n body = for_range i n (\<lambda>j _. body j) ()"

lemma wp_for_each:
  assumes "\<And>j. i \<le> j \<Longrightarrow> j < n \<Longrightarrow> wp (body j) (\<lambda>_. P j)"
  shows "wp (for_each i n body) (\<lambda>_. \<forall>j. i \<le> j \<and> j < n \<longrightarrow> P j)"
proof (cases "i \<le> n")
  case True
  have "wp (for_range i n (\<lambda>j _. body j) ()) (\<lambda>_. \<forall>j. i \<le> j \<and> j < n \<longrightarrow> P j)"
    by (rule wp_for_range [where Inv = "\<lambda>k _. \<forall>j. i \<le> j \<and> j < k \<longrightarrow> P j"])
      (use True assms in \<open>auto intro: wp_conseq simp: less_Suc_eq\<close>)
  then show ?thesis by (simp add: for_each_def)
next
  case False
  then show ?thesis by (auto simp: for_each_def wp_Inr)
qed

lemma for_each_Inr_iff:
  "for_each i n body = Inr u \<longleftrightarrow> (\<forall>j. i \<le> j \<and> j < n \<longrightarrow> body j = Inr ())"
proof -
  have "for_range i n (\<lambda>j _. body j) v = Inr u \<longleftrightarrow> (\<forall>j. i \<le> j \<and> j < n \<longrightarrow> body j = Inr ())" for v
  proof (induction "n - i" arbitrary: i v)
    case 0
    then show ?case by auto
  next
    case (Suc k)
    then have "i < n" and IH: "for_range (Suc i) n (\<lambda>j _. body j) () = Inr u
        \<longleftrightarrow> (\<forall>j. Suc i \<le> j \<and> j < n \<longrightarrow> body j = Inr ())"
      by auto
    then show ?case
      by (auto simp: for_range_step bind_eq_Inr Suc_le_eq) (metis le_less)
  qed
  then show ?thesis by (simp add: for_each_def)
qed

section \<open>Byte images\<close>

text \<open>
  An image is the list of bytes the caller hands over; a position is an index into it. The
  source's pointers are \<open>image + p\<close>. A \<open>u2\<close> or \<open>u4\<close> load is a little-endian read of two or
  four bytes; it faults unless every byte it touches is in the image.
\<close>

type_synonym image = "8 word list"

definition rd_u1 :: "image \<Rightarrow> nat \<Rightarrow> (8 word) result" where
  "rd_u1 im p = (if p < length im then Inr (im ! p) else Inl (Oob p))"

definition byte_at :: "image \<Rightarrow> nat \<Rightarrow> nat" where
  "byte_at im p = unat (im ! p)"

definition u2_at :: "image \<Rightarrow> nat \<Rightarrow> nat" where
  "u2_at im p = byte_at im p + 256 * byte_at im (p + 1)"

definition u4_at :: "image \<Rightarrow> nat \<Rightarrow> nat" where
  "u4_at im p = byte_at im p + 256 * byte_at im (p + 1) + 65536 * byte_at im (p + 2)
     + 16777216 * byte_at im (p + 3)"

definition rd_u2 :: "image \<Rightarrow> nat \<Rightarrow> nat result" where
  "rd_u2 im p = (if p + 2 \<le> length im then Inr (u2_at im p) else Inl (Oob p))"

definition rd_u4 :: "image \<Rightarrow> nat \<Rightarrow> nat result" where
  "rd_u4 im p = (if p + 4 \<le> length im then Inr (u4_at im p) else Inl (Oob p))"

lemma byte_at_less: "byte_at im p < 256"
  using unsigned_less [of "im ! p"] by (simp add: byte_at_def)

lemma u2_at_less: "u2_at im p < 65536"
  using byte_at_less [of im p] byte_at_less [of im "p + 1"] by (simp add: u2_at_def)

lemma u4_at_less: "u4_at im p < 4294967296"
  using byte_at_less [of im p] byte_at_less [of im "p + 1"] byte_at_less [of im "p + 2"]
    byte_at_less [of im "p + 3"]
  by (simp add: u4_at_def)

lemma wp_rd_u1 [wp_rules]: "wp (rd_u1 im p) Q = (p < length im \<and> Q (im ! p))"
  by (simp add: rd_u1_def wp_def)

lemma wp_rd_u2 [wp_rules]: "wp (rd_u2 im p) Q = (p + 2 \<le> length im \<and> Q (u2_at im p))"
  by (simp add: rd_u2_def wp_def)

lemma wp_rd_u4 [wp_rules]: "wp (rd_u4 im p) Q = (p + 4 \<le> length im \<and> Q (u4_at im p))"
  by (simp add: rd_u4_def wp_def)

lemma rd_u1_eq_Inr: "rd_u1 im p = Inr b \<longleftrightarrow> p < length im \<and> b = im ! p"
  by (auto simp: rd_u1_def)

lemma rd_u2_eq_Inr: "rd_u2 im p = Inr v \<longleftrightarrow> p + 2 \<le> length im \<and> v = u2_at im p"
  by (auto simp: rd_u2_def)

lemma rd_u4_eq_Inr: "rd_u4 im p = Inr v \<longleftrightarrow> p + 4 \<le> length im \<and> v = u4_at im p"
  by (auto simp: rd_u4_def)

text \<open>An unsigned 32-bit counter wraps: \<open>u32 x\<close> is the value the code keeps of \<open>x\<close>.\<close>

definition u32 :: "nat \<Rightarrow> nat" where
  "u32 x = x mod 4294967296"

lemma u32_less: "u32 x < 4294967296"
  by (simp add: u32_def)

lemma u32_id [simp]: "x < 4294967296 \<Longrightarrow> u32 x = x"
  by (simp add: u32_def)

section \<open>Words\<close>

text \<open>Masks that keep low bits, single-bit tests, and bytes by enumeration.\<close>

lemma and_masks:
  fixes x :: "'a::len word"
  shows "x AND 0x03 = take_bit 2 x" "x AND 0x07 = take_bit 3 x" "x AND 0x0f = take_bit 4 x"
    "x AND 0x1f = take_bit 5 x" "x AND 0x3f = take_bit 6 x" "x AND 0x7f = take_bit 7 x"
    "x AND 0xff = take_bit 8 x" "x AND 0x3ff = take_bit 10 x" "x AND 0xffff = take_bit 16 x"
  by (simp_all add: take_bit_eq_mask mask_eq_exp_minus_1)

lemma bit_unat: "bit b n \<longleftrightarrow> odd (unat b div 2 ^ n)" for b :: "'a::len word"
  by (metis bit_iff_odd bit_unsigned_iff possible_bit_nat)

lemma and_bit_eq_0:
  fixes b :: "'a::len word"
  shows "b AND 0x80 = 0 \<longleftrightarrow> even (unat b div 128)"
    "b AND 0x40 = 0 \<longleftrightarrow> even (unat b div 64)"
    "b AND 0x20 = 0 \<longleftrightarrow> even (unat b div 32)"
    "b AND 0x10 = 0 \<longleftrightarrow> even (unat b div 16)"
  using and_exp_eq_0_iff_not_bit [of b 7] and_exp_eq_0_iff_not_bit [of b 6]
    and_exp_eq_0_iff_not_bit [of b 5] and_exp_eq_0_iff_not_bit [of b 4]
  by (simp_all add: bit_unat)

lemma div_eqI: "k * n \<le> (m::nat) \<Longrightarrow> m < Suc k * n \<Longrightarrow> m div n = k"
  by (simp add: div_nat_eqI mult.commute)

lemma and_push_bit_1: "(w AND push_bit k 1 \<noteq> (0 :: 32 word)) = bit w k"
  using and_exp_eq_0_iff_not_bit [of w k] by (simp add: push_bit_eq_mult)

text \<open>Accumulating a value from the low end: the new digit lands above the old bits.\<close>

lemma unat_or_push_bit:
  fixes w x :: "32 word"
  assumes "unat w < 2 ^ k"
  shows "unat (w OR push_bit k x) = (unat w + 2 ^ k * unat x) mod 4294967296"
proof -
  have "w = take_bit k w"
    using assms by (metis take_bit_nat_eq_self unsigned_take_bit_eq word_unat_eq_iff)
  then have "\<not> bit w n" if "k \<le> n" for n
    using that by (metis bit_take_bit_iff not_le)
  then have "w OR push_bit k x = w + push_bit k x"
    by (intro disjunctive_add [symmetric]) (auto simp: bit_simps)
  moreover have "unat (push_bit k x) = take_bit 32 (push_bit k (unat x))"
    by (simp only: unsigned_push_bit_eq) simp
  ultimately show ?thesis
    by (simp add: unat_word_ariths take_bit_eq_mod push_bit_eq_mult mult.commute mod_simps)
qed

definition bytes_at :: "image \<Rightarrow> nat \<Rightarrow> nat \<Rightarrow> 8 word list" where
  "bytes_at im p n = take n (drop p im)"

lemma bytes_at_0 [simp]: "bytes_at im p 0 = []"
  by (simp add: bytes_at_def)

lemma bytes_at_Suc: "p + n < length im \<Longrightarrow> bytes_at im p (Suc n) = bytes_at im p n @ [im ! (p + n)]"
  by (simp add: bytes_at_def take_Suc_conv_app_nth)

lemma bytes_at_Cons: "p < length im \<Longrightarrow> bytes_at im p (Suc n) = im ! p # bytes_at im (Suc p) n"
  by (simp add: bytes_at_def Cons_nth_drop_Suc [symmetric])

lemma length_bytes_at: "p + n \<le> length im \<Longrightarrow> length (bytes_at im p n) = n"
  by (simp add: bytes_at_def)

lemma byte_all:
  assumes "\<forall>n \<in> set [0..<256]. P (word_of_nat n :: 8 word)"
  shows "P b"
proof -
  have "unat b \<in> set [0..<256]"
    using unsigned_less [where ?'a = nat, of b] by simp
  then have "P (word_of_nat (unat b))" using assms by blast
  then show ?thesis by simp
qed

lemma unat_byte_less: "unat (b :: 8 word) < 256"
  using unsigned_less [where ?'a = nat, of b] by simp

end
