(* ===== verification/Dex_Format.thy ===== *)
theory Dex_Format
  imports Prelude
begin

text \<open>
  The on-disk structures of a dex file, as \<open>slicer/dex_format.h\<close> declares them: one record
  per struct, its size, and the load of the whole struct from a position of the image. A load
  faults unless every byte of the struct is in the image, so a component that reads one field
  of a struct is held to the struct's full extent.
\<close>

section \<open>Sizes\<close>

definition kV40Size :: nat where [layout]: "kV40Size = 0x70"
definition kV41Size :: nat where [layout]: "kV41Size = 0x78"
definition kV41 :: nat where [layout]: "kV41 = 41"
definition kMinVersion :: nat where [layout]: "kMinVersion = 35"
definition kMaxVersion :: nat where [layout]: "kMaxVersion = 41"
definition kEndianConstant :: nat where [layout]: "kEndianConstant = 0x12345678"
definition kNoIndex :: nat where [layout]: "kNoIndex = 0xffffffff"
definition sizeof_MapList :: nat where [layout]: "sizeof_MapList = 4"
definition sizeof_MapItem :: nat where [layout]: "sizeof_MapItem = 12"
definition sizeof_StringId :: nat where [layout]: "sizeof_StringId = 4"
definition sizeof_TypeId :: nat where [layout]: "sizeof_TypeId = 4"
definition sizeof_FieldId :: nat where [layout]: "sizeof_FieldId = 8"
definition sizeof_MethodId :: nat where [layout]: "sizeof_MethodId = 8"
definition sizeof_ProtoId :: nat where [layout]: "sizeof_ProtoId = 12"
definition sizeof_ClassDef :: nat where [layout]: "sizeof_ClassDef = 32"
definition sizeof_MethodHandle :: nat where [layout]: "sizeof_MethodHandle = 8"
definition sizeof_TypeList :: nat where [layout]: "sizeof_TypeList = 4"
definition sizeof_TypeItem :: nat where [layout]: "sizeof_TypeItem = 2"
definition sizeof_Code :: nat where [layout]: "sizeof_Code = 16"
definition sizeof_TryBlock :: nat where [layout]: "sizeof_TryBlock = 8"
definition sizeof_AnnotationsDirectoryItem :: nat where [layout]:
  "sizeof_AnnotationsDirectoryItem = 16"
definition sizeof_MemberAnnotationsItem :: nat where [layout]:
  "sizeof_MemberAnnotationsItem = 8"
definition sizeof_AnnotationSetItem :: nat where [layout]: "sizeof_AnnotationSetItem = 4"
definition sizeof_AnnotationSetRefList :: nat where [layout]: "sizeof_AnnotationSetRefList = 4"
definition sizeof_AnnotationSetRefItem :: nat where [layout]: "sizeof_AnnotationSetRefItem = 4"

section \<open>The header\<close>

record dex_header =
  hdr_off :: nat
  magic :: "8 word list"
  checksum :: nat
  file_size :: nat
  header_size :: nat
  endian_tag :: nat
  link_size :: nat
  link_off :: nat
  map_off :: nat
  string_ids_size :: nat
  string_ids_off :: nat
  type_ids_size :: nat
  type_ids_off :: nat
  proto_ids_size :: nat
  proto_ids_off :: nat
  field_ids_size :: nat
  field_ids_off :: nat
  method_ids_size :: nat
  method_ids_off :: nat
  class_defs_size :: nat
  class_defs_off :: nat
  data_size :: nat
  data_off :: nat

definition header_at :: "image \<Rightarrow> nat \<Rightarrow> dex_header" where
  "header_at im off = \<lparr>hdr_off = off,
     magic = take 8 (drop off im),
     checksum = u4_at im (off + 8),
     file_size = u4_at im (off + 32),
     header_size = u4_at im (off + 36),
     endian_tag = u4_at im (off + 40),
     link_size = u4_at im (off + 44),
     link_off = u4_at im (off + 48),
     map_off = u4_at im (off + 52),
     string_ids_size = u4_at im (off + 56),
     string_ids_off = u4_at im (off + 60),
     type_ids_size = u4_at im (off + 64),
     type_ids_off = u4_at im (off + 68),
     proto_ids_size = u4_at im (off + 72),
     proto_ids_off = u4_at im (off + 76),
     field_ids_size = u4_at im (off + 80),
     field_ids_off = u4_at im (off + 84),
     method_ids_size = u4_at im (off + 88),
     method_ids_off = u4_at im (off + 92),
     class_defs_size = u4_at im (off + 96),
     class_defs_off = u4_at im (off + 100),
     data_size = u4_at im (off + 104),
     data_off = u4_at im (off + 108)\<rparr>"

definition rd_header :: "image \<Rightarrow> nat \<Rightarrow> dex_header result" where
  "rd_header im off =
     (if off + kV40Size \<le> length im then Inr (header_at im off) else Inl (Oob off))"

lemma wp_rd_header [wp_rules]:
  "wp (rd_header im off) Q = (off + kV40Size \<le> length im \<and> Q (header_at im off))"
  by (simp add: rd_header_def wp_def)

text \<open>
  The two container fields sit past the 0x70 bytes of a version 35 to 40 header and are read
  only when \<open>header_size\<close> says they exist.
\<close>

definition ContainerSize :: "image \<Rightarrow> dex_header \<Rightarrow> nat result" where
  "ContainerSize im h =
     (if header_size h \<ge> kV41Size then rd_u4 im (hdr_off h + 0x70) else Inr (file_size h))"

definition ContainerOff :: "image \<Rightarrow> dex_header \<Rightarrow> nat result" where
  "ContainerOff im h =
     (if header_size h \<ge> kV41Size then rd_u4 im (hdr_off h + 0x74) else Inr 0)"

section \<open>The version number\<close>

text \<open>
  \<open>strtol(s, nullptr, 10)\<close> on the three characters after the magic (a NUL follows them):
  leading white space, one optional sign, then decimal digits.
\<close>

definition is_space :: "8 word \<Rightarrow> bool" where
  "is_space c \<longleftrightarrow> c = 32 \<or> (9 \<le> c \<and> c \<le> 13)"

definition is_digit :: "8 word \<Rightarrow> bool" where
  "is_digit c \<longleftrightarrow> 48 \<le> c \<and> c \<le> 57"

fun strtol_digits :: "int \<Rightarrow> 8 word list \<Rightarrow> int" where
  "strtol_digits acc [] = acc"
| "strtol_digits acc (c # cs) =
     (if is_digit c then strtol_digits (10 * acc + (uint c - 48)) cs else acc)"

definition strtol10 :: "8 word list \<Rightarrow> int" where
  "strtol10 s =
     (case dropWhile is_space s of
        [] \<Rightarrow> 0
      | c # cs \<Rightarrow>
          if c = 45 then - strtol_digits 0 cs
          else if c = 43 then strtol_digits 0 cs
          else strtol_digits 0 (c # cs))"

definition GetVersion :: "8 word list \<Rightarrow> nat" where
  "GetVersion mg =
     (if mg ! 7 = 0 then nat (strtol10 [mg ! 4, mg ! 5, mg ! 6] mod 4294967296) else 0)"

lemma GetVersion_035: "GetVersion [0x64, 0x65, 0x78, 0x0a, 0x30, 0x33, 0x35, 0] = 35"
  by (simp add: GetVersion_def strtol10_def is_space_def is_digit_def)

section \<open>The table entries\<close>

record map_item = mi_type :: nat  mi_size :: nat  mi_offset :: nat

definition rd_map_item :: "image \<Rightarrow> nat \<Rightarrow> map_item result" where
  "rd_map_item im p =
     (if p + sizeof_MapItem \<le> length im
      then Inr \<lparr>mi_type = u2_at im p, mi_size = u4_at im (p + 4), mi_offset = u4_at im (p + 8)\<rparr>
      else Inl (Oob p))"

record proto_id = shorty_idx :: nat  return_type_idx :: nat  parameters_off :: nat

definition proto_id_at :: "image \<Rightarrow> nat \<Rightarrow> proto_id" where
  "proto_id_at im p = \<lparr>shorty_idx = u4_at im p, return_type_idx = u4_at im (p + 4),
     parameters_off = u4_at im (p + 8)\<rparr>"

definition rd_proto_id :: "image \<Rightarrow> nat \<Rightarrow> proto_id result" where
  "rd_proto_id im p =
     (if p + sizeof_ProtoId \<le> length im then Inr (proto_id_at im p) else Inl (Oob p))"

text \<open>A \<open>field_id\<close> and a \<open>method_id\<close> have the same shape: the middle half is the field's
  type or the method's proto.\<close>

record member_id = m_class_idx :: nat  m_mid_idx :: nat  m_name_idx :: nat

definition member_id_at :: "image \<Rightarrow> nat \<Rightarrow> member_id" where
  "member_id_at im p = \<lparr>m_class_idx = u2_at im p, m_mid_idx = u2_at im (p + 2),
     m_name_idx = u4_at im (p + 4)\<rparr>"

definition rd_field_id :: "image \<Rightarrow> nat \<Rightarrow> member_id result" where
  "rd_field_id im p =
     (if p + sizeof_FieldId \<le> length im then Inr (member_id_at im p) else Inl (Oob p))"

definition rd_method_id :: "image \<Rightarrow> nat \<Rightarrow> member_id result" where
  "rd_method_id im p =
     (if p + sizeof_MethodId \<le> length im then Inr (member_id_at im p) else Inl (Oob p))"

record class_def =
  cd_class_idx :: nat
  cd_access_flags :: nat
  cd_superclass_idx :: nat
  cd_interfaces_off :: nat
  cd_source_file_idx :: nat
  cd_annotations_off :: nat
  cd_class_data_off :: nat
  cd_static_values_off :: nat

definition class_def_at :: "image \<Rightarrow> nat \<Rightarrow> class_def" where
  "class_def_at im p = \<lparr>cd_class_idx = u4_at im p, cd_access_flags = u4_at im (p + 4),
     cd_superclass_idx = u4_at im (p + 8), cd_interfaces_off = u4_at im (p + 12),
     cd_source_file_idx = u4_at im (p + 16), cd_annotations_off = u4_at im (p + 20),
     cd_class_data_off = u4_at im (p + 24), cd_static_values_off = u4_at im (p + 28)\<rparr>"

definition rd_class_def :: "image \<Rightarrow> nat \<Rightarrow> class_def result" where
  "rd_class_def im p =
     (if p + sizeof_ClassDef \<le> length im then Inr (class_def_at im p) else Inl (Oob p))"

record method_handle = mh_type :: nat  mh_id :: nat

definition rd_method_handle :: "image \<Rightarrow> nat \<Rightarrow> method_handle result" where
  "rd_method_handle im p =
     (if p + sizeof_MethodHandle \<le> length im
      then Inr \<lparr>mh_type = u2_at im p, mh_id = u2_at im (p + 4)\<rparr> else Inl (Oob p))"

record code_hdr =
  registers_size :: nat
  ins_size :: nat
  outs_size :: nat
  tries_size :: nat
  debug_info_off :: nat
  insns_size :: nat

definition rd_code :: "image \<Rightarrow> nat \<Rightarrow> code_hdr result" where
  "rd_code im p =
     (if p + sizeof_Code \<le> length im
      then Inr \<lparr>registers_size = u2_at im p, ins_size = u2_at im (p + 2),
        outs_size = u2_at im (p + 4), tries_size = u2_at im (p + 6),
        debug_info_off = u4_at im (p + 8), insns_size = u4_at im (p + 12)\<rparr>
      else Inl (Oob p))"

record try_block = start_addr :: nat  insn_count :: nat  handler_off :: nat

definition rd_try_block :: "image \<Rightarrow> nat \<Rightarrow> try_block result" where
  "rd_try_block im p =
     (if p + sizeof_TryBlock \<le> length im
      then Inr \<lparr>start_addr = u4_at im p, insn_count = u2_at im (p + 4),
        handler_off = u2_at im (p + 6)\<rparr>
      else Inl (Oob p))"

record annotations_directory =
  class_annotations_off :: nat
  fields_size :: nat
  methods_size :: nat
  parameters_size :: nat

definition rd_annotations_directory :: "image \<Rightarrow> nat \<Rightarrow> annotations_directory result" where
  "rd_annotations_directory im p =
     (if p + sizeof_AnnotationsDirectoryItem \<le> length im
      then Inr \<lparr>class_annotations_off = u4_at im p, fields_size = u4_at im (p + 4),
        methods_size = u4_at im (p + 8), parameters_size = u4_at im (p + 12)\<rparr>
      else Inl (Oob p))"

text \<open>The three per-member annotation entries have one shape: a member index and an offset.\<close>

record member_annotations = ma_idx :: nat  ma_annotations_off :: nat

definition rd_member_annotations :: "image \<Rightarrow> nat \<Rightarrow> member_annotations result" where
  "rd_member_annotations im p =
     (if p + sizeof_MemberAnnotationsItem \<le> length im
      then Inr \<lparr>ma_idx = u4_at im p, ma_annotations_off = u4_at im (p + 4)\<rparr>
      else Inl (Oob p))"

lemma wp_rd_structs [wp_rules]:
  "wp (rd_map_item im p) Q1 = (p + sizeof_MapItem \<le> length im \<and>
     Q1 \<lparr>mi_type = u2_at im p, mi_size = u4_at im (p + 4), mi_offset = u4_at im (p + 8)\<rparr>)"
  "wp (rd_proto_id im p) Q2 = (p + sizeof_ProtoId \<le> length im \<and> Q2 (proto_id_at im p))"
  "wp (rd_field_id im p) Q3 = (p + sizeof_FieldId \<le> length im \<and> Q3 (member_id_at im p))"
  "wp (rd_method_id im p) Q3 = (p + sizeof_MethodId \<le> length im \<and> Q3 (member_id_at im p))"
  "wp (rd_class_def im p) Q4 = (p + sizeof_ClassDef \<le> length im \<and> Q4 (class_def_at im p))"
  "wp (rd_method_handle im p) Q5 = (p + sizeof_MethodHandle \<le> length im \<and>
     Q5 \<lparr>mh_type = u2_at im p, mh_id = u2_at im (p + 4)\<rparr>)"
  "wp (rd_code im p) Q6 = (p + sizeof_Code \<le> length im \<and>
     Q6 \<lparr>registers_size = u2_at im p, ins_size = u2_at im (p + 2),
        outs_size = u2_at im (p + 4), tries_size = u2_at im (p + 6),
        debug_info_off = u4_at im (p + 8), insns_size = u4_at im (p + 12)\<rparr>)"
  "wp (rd_try_block im p) Q7 = (p + sizeof_TryBlock \<le> length im \<and>
     Q7 \<lparr>start_addr = u4_at im p, insn_count = u2_at im (p + 4), handler_off = u2_at im (p + 6)\<rparr>)"
  "wp (rd_annotations_directory im p) Q8 =
     (p + sizeof_AnnotationsDirectoryItem \<le> length im \<and>
      Q8 \<lparr>class_annotations_off = u4_at im p, fields_size = u4_at im (p + 4),
        methods_size = u4_at im (p + 8), parameters_size = u4_at im (p + 12)\<rparr>)"
  "wp (rd_member_annotations im p) Q9 = (p + sizeof_MemberAnnotationsItem \<le> length im \<and>
     Q9 \<lparr>ma_idx = u4_at im p, ma_annotations_off = u4_at im (p + 4)\<rparr>)"
  by (simp_all add: wp_def rd_map_item_def rd_proto_id_def rd_field_id_def rd_method_id_def
      rd_class_def_def rd_method_handle_def rd_code_def rd_try_block_def
      rd_annotations_directory_def rd_member_annotations_def)

end
