(* ===== verification/Verifier_Base.thy ===== *)
theory Verifier_Base
  imports Dex_Format
begin

text \<open>
  The state a \<open>DexVerifier\<close> reads while it runs and its bounded primitives
  (\<open>native/core_ext/dex_verifier.cpp\<close>, the helpers at the head of the class): the section
  bound checks and the two LEB128 readers. The fields that the verifier only reads after
  \<open>ComputeDataRange\<close> are one record; what it writes (the annotation memo, the image state, the
  deviations) is passed explicitly by the operations that write it.
\<close>

section \<open>The verifier's context\<close>

record vctx =
  v_img :: image        \<comment> \<open>\<open>image_\<close>, whose length is \<open>image_size_\<close>\<close>
  v_hdr :: dex_header   \<comment> \<open>\<open>*header_\<close>\<close>
  v_begin :: nat        \<comment> \<open>\<open>begin_ - image_\<close>\<close>
  v_size :: nat         \<comment> \<open>\<open>size_\<close>\<close>
  v_insns :: bool       \<comment> \<open>\<open>check_insns_\<close>\<close>
  v_mh_count :: nat     \<comment> \<open>\<open>method_handle_count_\<close>\<close>

definition end_of_file :: "vctx \<Rightarrow> nat" where
  "end_of_file c = v_begin c + v_size c"

definition offset_to_ptr :: "vctx \<Rightarrow> nat \<Rightarrow> nat" where
  "offset_to_ptr c off = v_begin c + off"

text \<open>What \<open>ComputeDataRange\<close> establishes: the data range lies inside the image, and a
  header's sizes are 32-bit values.\<close>

definition vctx_ok :: "vctx \<Rightarrow> bool" where
  "vctx_ok c \<longleftrightarrow> end_of_file c \<le> length (v_img c) \<and> v_size c < 4294967296"

lemma vctx_okD: "vctx_ok c \<Longrightarrow> end_of_file c \<le> length (v_img c)"
  by (simp add: vctx_ok_def)

section \<open>Bound checks\<close>

definition is_aligned :: "nat \<Rightarrow> nat \<Rightarrow> bool" where
  "is_aligned off align \<longleftrightarrow> align = 0 \<or> off AND (align - 1) = 0"

lemma is_aligned_0 [simp]: "is_aligned off 0"
  by (simp add: is_aligned_def)

lemma is_aligned_1 [simp]: "is_aligned off 1" "is_aligned off (Suc 0)"
  by (simp_all add: is_aligned_def)

lemma and_3_mod: "(off::nat) AND 3 = off mod 4"
  using take_bit_eq_mask [of 2 off] by (simp add: take_bit_eq_mod mask_eq_exp_minus_1)

lemma is_aligned_4 [simp]: "is_aligned off 4 \<longleftrightarrow> off mod 4 = 0"
  by (simp add: is_aligned_def and_3_mod)

definition check_list_size :: "vctx \<Rightarrow> nat \<Rightarrow> nat \<Rightarrow> nat \<Rightarrow> string \<Rightarrow> unit result" where
  "check_list_size c p count elem label =
     (if p < v_begin c \<or> p > end_of_file c then fail (''List out of file: '' @ label)
      else let off = p - v_begin c; max_elements = (v_size c - off) div elem
           in if max_elements < count then fail (''List too large: '' @ label) else Inr ())"

definition check_valid_offset_and_size ::
    "vctx \<Rightarrow> nat \<Rightarrow> nat \<Rightarrow> nat \<Rightarrow> string \<Rightarrow> unit result" where
  "check_valid_offset_and_size c offset sz align label =
     (if sz = 0 then
        (if offset \<noteq> 0 then fail (''Offset nonzero for empty '' @ label) else Inr ())
      else if v_size c \<le> offset then fail (''Offset past file for '' @ label)
      else if v_size c - offset < sz then fail (''Section past file for '' @ label)
      else if \<not> is_aligned offset align then fail (''Misaligned offset for '' @ label)
      else Inr ())"

definition check_size_limit :: "nat \<Rightarrow> nat \<Rightarrow> string \<Rightarrow> unit result" where
  "check_size_limit sz limit label =
     (if sz > limit then fail (''Too many '' @ label) else Inr ())"

definition check_index :: "nat \<Rightarrow> nat \<Rightarrow> string \<Rightarrow> unit result" where
  "check_index idx limit label =
     (if idx \<ge> limit then fail (''Bad index: '' @ label) else Inr ())"

lemma check_list_size_Inr_iff:
  assumes "0 < elem"
  shows "check_list_size c p count elem label = Inr u
    \<longleftrightarrow> v_begin c \<le> p \<and> p + count * elem \<le> end_of_file c"
proof -
  have div_iff: "count \<le> n div elem \<longleftrightarrow> count * elem \<le> n" for n
    using assms by (simp add: less_eq_div_iff_mult_less_eq)
  show ?thesis
    using div_iff [of "v_size c - (p - v_begin c)"]
    by (auto simp: check_list_size_def Let_def end_of_file_def not_less)
qed

lemma check_list_size_not_Oob: "wp (check_list_size c p count elem label) (\<lambda>_. True)"
  by (simp add: check_list_size_def Let_def wp_rules)

lemma wp_check_list_size:
  "0 < elem \<Longrightarrow> wp (check_list_size c p count elem label)
     (\<lambda>_. v_begin c \<le> p \<and> p + count * elem \<le> end_of_file c)"
  using check_list_size_not_Oob
  by (rule wp_conseq_eq) (simp add: check_list_size_Inr_iff)

lemma wp_check_list_sizeI [wp_intros]:
  "0 < elem \<Longrightarrow> (v_begin c \<le> p \<Longrightarrow> p + count * elem \<le> end_of_file c \<Longrightarrow> Q ()) \<Longrightarrow>
   wp (check_list_size c p count elem label) Q"
  by (rule wp_conseq [OF wp_check_list_size]) auto

lemma check_valid_offset_and_size_Inr_iff:
  "check_valid_offset_and_size c offset sz align label = Inr u \<longleftrightarrow>
     (if sz = 0 then offset = 0
      else offset < v_size c \<and> offset + sz \<le> v_size c \<and> is_aligned offset align)"
  by (auto simp: check_valid_offset_and_size_def)

lemma wp_check_valid_offset_and_size:
  "wp (check_valid_offset_and_size c offset sz align label)
     (\<lambda>_. if sz = 0 then offset = 0
          else offset < v_size c \<and> offset + sz \<le> v_size c \<and> is_aligned offset align)"
  by (auto simp: check_valid_offset_and_size_def wp_rules)

lemma wp_check_size_limit [wp_rules]:
  "wp (check_size_limit sz limit label) Q = (sz \<le> limit \<longrightarrow> Q ())"
  by (auto simp: check_size_limit_def wp_rules)

lemma wp_check_index [wp_rules]:
  "wp (check_index idx limit label) Q = (idx < limit \<longrightarrow> Q ())"
  by (auto simp: check_index_def wp_rules)

section \<open>LEB128\<close>

text \<open>
  \<open>ReadUleb\<close> and \<open>ReadSleb\<close> return false without moving the cursor when the value runs past
  the data range or past five bytes: \<open>None\<close>. Their callers turn that into a rejection with
  a message of their own (\<open>uleb\<close>, \<open>sleb\<close>).
\<close>

function uleb_from :: "vctx \<Rightarrow> nat \<Rightarrow> nat \<Rightarrow> 32 word \<Rightarrow> ((nat \<times> nat) option) result" where
  "uleb_from c i p res =
     (if i < 5 then
        (if p \<ge> end_of_file c then Inr None
         else bind (rd_u1 (v_img c) p) (\<lambda>b.
           let res' = res OR push_bit (7 * i) (ucast (b AND 0x7f))
           in if b AND 0x80 = 0 then Inr (Some (unat res', Suc p))
              else uleb_from c (Suc i) (Suc p) res'))
      else Inr None)"
  by pat_completeness auto
termination
  by (relation "measure (\<lambda>(c, i, p, res). 5 - i)") auto

declare uleb_from.simps [simp del]

definition read_uleb :: "vctx \<Rightarrow> nat \<Rightarrow> ((nat \<times> nat) option) result" where
  "read_uleb c p = uleb_from c 0 p 0"

function sleb_from :: "vctx \<Rightarrow> nat \<Rightarrow> nat \<Rightarrow> 32 word \<Rightarrow> ((int \<times> nat) option) result" where
  "sleb_from c i p res =
     (if i \<ge> 5 \<or> p \<ge> end_of_file c then Inr None
      else bind (rd_u1 (v_img c) p) (\<lambda>b.
        let res' = res OR push_bit (7 * i) (ucast (b AND 0x7f))
        in if b AND 0x80 \<noteq> 0 then sleb_from c (Suc i) (Suc p) res'
           else let shift = 7 * Suc i;
                    res'' = (if shift < 32 \<and> b AND 0x40 \<noteq> 0
                             then res' OR - push_bit shift 1 else res')
                in Inr (Some (sint res'', Suc p))))"
  by pat_completeness auto
termination
  by (relation "measure (\<lambda>(c, i, p, res). 5 - i)") auto

declare sleb_from.simps [simp del]

definition read_sleb :: "vctx \<Rightarrow> nat \<Rightarrow> ((int \<times> nat) option) result" where
  "read_sleb c p = sleb_from c 0 p 0"

definition or_reject :: "string \<Rightarrow> ('a option) result \<Rightarrow> 'a result" where
  "or_reject m r = bind r (\<lambda>x. case x of None \<Rightarrow> fail m | Some y \<Rightarrow> Inr y)"

definition uleb :: "vctx \<Rightarrow> nat \<Rightarrow> string \<Rightarrow> (nat \<times> nat) result" where
  "uleb c p m = or_reject m (read_uleb c p)"

definition sleb :: "vctx \<Rightarrow> nat \<Rightarrow> string \<Rightarrow> (int \<times> nat) result" where
  "sleb c p m = or_reject m (read_sleb c p)"

text \<open>
  The bytes of one LEB128 value at \<open>p\<close>, ending just before \<open>p'\<close>: continuation bytes with
  the top bit set, then one byte without it.
\<close>

definition leb_span :: "image \<Rightarrow> nat \<Rightarrow> nat \<Rightarrow> bool" where
  "leb_span im p p' \<longleftrightarrow> p < p' \<and> p' \<le> length im \<and>
     (\<forall>j. p \<le> j \<and> Suc j < p' \<longrightarrow> im ! j AND 0x80 \<noteq> 0) \<and> im ! (p' - 1) AND 0x80 = 0"

lemma leb_span_step:
  assumes "im ! p AND 0x80 \<noteq> 0" and "leb_span im (Suc p) p'"
  shows "leb_span im p p'"
  using assms unfolding leb_span_def by (metis Suc_leI Suc_lessD le_less)

lemma leb_span_one: "p < length im \<Longrightarrow> im ! p AND 0x80 = 0 \<Longrightarrow> leb_span im p (Suc p)"
  by (auto simp: leb_span_def)

text \<open>The number an unsigned LEB128 sequence spells, before it is cut to 32 bits.\<close>

definition uleb_num :: "8 word list \<Rightarrow> nat" where
  "uleb_num bs = foldr (\<lambda>b acc. unat b mod 128 + 128 * acc) bs 0"

lemma uleb_num_simps [simp]:
  "uleb_num [] = 0" "uleb_num (b # bs) = unat b mod 128 + 128 * uleb_num bs"
  by (simp_all add: uleb_num_def)

definition uleb_at :: "image \<Rightarrow> nat \<Rightarrow> nat \<Rightarrow> nat \<Rightarrow> bool" where
  "uleb_at im p v p' \<longleftrightarrow> leb_span im p p' \<and> p' \<le> p + 5 \<and> v = u32 (uleb_num (bytes_at im p (p' - p)))"

definition uleb_post :: "vctx \<Rightarrow> nat \<Rightarrow> (nat \<times> nat) \<Rightarrow> bool" where
  "uleb_post c p r \<longleftrightarrow> (case r of (v, p') \<Rightarrow>
     v < 4294967296 \<and> p < p' \<and> p' \<le> p + 5 \<and> p' \<le> end_of_file c \<and> leb_span (v_img c) p p' \<and>
     uleb_at (v_img c) p v p')"

lemma uleb_digit:
  assumes "unat res < 2 ^ (7 * i)" and "i < 5"
  shows "unat (res OR push_bit (7 * i) (ucast (b AND 0x7f) :: 32 word))
      = (unat res + 2 ^ (7 * i) * (unat (b :: 8 word) mod 128)) mod 4294967296"
    and "i < 4 \<Longrightarrow> unat (res OR push_bit (7 * i) (ucast (b AND 0x7f) :: 32 word)) < 2 ^ (7 * Suc i)"
proof -
  have "unat (b AND 0x7f) = unat b mod 128"
    by (simp only: and_masks unsigned_take_bit_eq) (simp add: take_bit_eq_mod)
  moreover have "unat (ucast (b AND 0x7f) :: 32 word) = unat (b AND 0x7f)"
    using unat_byte_less [of "b AND 0x7f"] by (simp add: unsigned_ucast_eq take_bit_nat_eq_self)
  ultimately show eq: "unat (res OR push_bit (7 * i) (ucast (b AND 0x7f) :: 32 word))
      = (unat res + 2 ^ (7 * i) * (unat b mod 128)) mod 4294967296"
    using unat_or_push_bit [OF assms(1)] by simp
  assume "i < 4"
  have "unat b mod 128 + 1 \<le> 2 ^ 7" by (simp add: Suc_leI)
  then have le: "2 ^ (7 * i) * (unat b mod 128 + 1) \<le> 2 ^ (7 * i) * 2 ^ 7" by (rule mult_le_mono2)
  have "unat res + 2 ^ (7 * i) * (unat b mod 128) < 2 ^ (7 * i) * (unat b mod 128 + 1)"
    using assms(1) by simp
  also note le
  also have "2 ^ (7 * i) * 2 ^ 7 = (2 :: nat) ^ (7 * Suc i)" by (simp add: power_add)
  finally have "unat res + 2 ^ (7 * i) * (unat b mod 128) < 2 ^ (7 * Suc i)" .
  then show "unat (res OR push_bit (7 * i) (ucast (b AND 0x7f) :: 32 word)) < 2 ^ (7 * Suc i)"
    unfolding eq using mod_less_eq_dividend le_less_trans by blast
qed

text \<open>The result of \<open>uleb_from\<close> after \<open>i\<close> digits have been accumulated in \<open>res\<close>.\<close>

definition uleb_from_post :: "vctx \<Rightarrow> nat \<Rightarrow> nat \<Rightarrow> 32 word \<Rightarrow> (nat \<times> nat) option \<Rightarrow> bool" where
  "uleb_from_post c i p res r \<longleftrightarrow> (case r of None \<Rightarrow> True | Some (v, p') \<Rightarrow>
     p < p' \<and> p' + i \<le> p + 5 \<and> p' \<le> end_of_file c \<and> leb_span (v_img c) p p' \<and>
     v = u32 (unat res + 2 ^ (7 * i) * uleb_num (bytes_at (v_img c) p (p' - p))))"

lemma uleb_from_post_step:
  assumes i: "i < 5" and res: "unat res < 2 ^ (7 * i)" and p: "p < length (v_img c)"
    and cont: "v_img c ! p AND 0x80 \<noteq> 0"
    and IH: "uleb_from_post c (Suc i) (Suc p) (res OR push_bit (7 * i) (ucast (v_img c ! p AND 0x7f))) r"
  shows "uleb_from_post c i p res r"
proof (cases r)
  case (Some vp)
  obtain v p' where vp: "vp = (v, p')" by force
  from IH have q: "Suc p < p'" "p' + Suc i \<le> Suc p + 5" "p' \<le> end_of_file c"
    "leb_span (v_img c) (Suc p) p'"
    and v: "v = u32 (unat (res OR push_bit (7 * i) (ucast (v_img c ! p AND 0x7f)))
      + 2 ^ (7 * Suc i) * uleb_num (bytes_at (v_img c) (Suc p) (p' - Suc p)))"
    by (auto simp: uleb_from_post_def Some vp)
  have "p' - p = Suc (p' - Suc p)" using q(1) by simp
  then have "bytes_at (v_img c) p (p' - p) = v_img c ! p # bytes_at (v_img c) (Suc p) (p' - Suc p)"
    using p by (simp add: bytes_at_Cons)
  then have "v = u32 (unat res + 2 ^ (7 * i) * uleb_num (bytes_at (v_img c) p (p' - p)))"
    unfolding v uleb_digit(1) [OF res i] u32_def
    by (simp add: mod_simps power_add algebra_simps)
  with q show ?thesis
    using leb_span_step [OF cont] by (simp add: uleb_from_post_def Some vp)
qed (simp add: uleb_from_post_def)

lemma wp_uleb_from:
  assumes "vctx_ok c" and "unat res < 2 ^ (7 * i)"
  shows "wp (uleb_from c i p res) (uleb_from_post c i p res)"
  using assms
proof (induction c i p res rule: uleb_from.induct)
  case (1 c i p res)
  let ?b = "v_img c ! p"
  let ?res = "res OR push_bit (7 * i) (ucast (?b AND 0x7f)) :: 32 word"
  show ?case
  proof (cases "i < 5 \<and> p < end_of_file c")
    case True
    then have p: "p < length (v_img c)"
      using "1.prems"(1) vctx_okD [of c] by simp
    have i: "i < 5" using True by simp
    show ?thesis
    proof (cases "?b AND 0x80 = 0")
      case stop: True
      have "unat ?res = u32 (unat res + 2 ^ (7 * i) * uleb_num [?b])"
        using uleb_digit(1) [OF "1.prems"(2) i] by (simp add: u32_def)
      moreover have "bytes_at (v_img c) p (Suc 0) = [?b]" using p by (simp add: bytes_at_Cons)
      ultimately show ?thesis
        using True p stop by (subst uleb_from.simps)
          (simp add: wp_rules leb_span_one uleb_from_post_def)
    next
      case cont: False
      have "wp (uleb_from c (Suc i) (Suc p) ?res) (uleb_from_post c i p res)"
      proof (cases "i < 4")
        case i4: True
        have "wp (uleb_from c (Suc i) (Suc p) ?res) (uleb_from_post c (Suc i) (Suc p) ?res)"
          by (rule "1.IH" [of "?b", OF i _ _ refl cont "1.prems"(1)])
            (use True p uleb_digit(2) [OF "1.prems"(2) i i4] in \<open>simp_all add: rd_u1_def\<close>)
        then show ?thesis
          by (rule wp_conseq) (rule uleb_from_post_step [OF i "1.prems"(2) p cont])
      next
        case False
        then have "Suc i = 5" using i by simp
        then show ?thesis by (subst uleb_from.simps) (simp add: wp_Inr uleb_from_post_def)
      qed
      with True cont p show ?thesis
        by (subst uleb_from.simps) (simp add: wp_rules)
    qed
  next
    case False
    then show ?thesis by (subst uleb_from.simps) (auto simp: wp_rules uleb_from_post_def)
  qed
qed

lemma wp_or_reject [wp_rules]:
  "wp (or_reject m r) Q = wp r (\<lambda>x. case x of None \<Rightarrow> True | Some y \<Rightarrow> Q y)"
  by (simp add: or_reject_def wp_rules option.case_distrib [where h = "\<lambda>z. wp z Q"] cong: option.case_cong)

lemma wp_uleb:
  assumes "vctx_ok c"
  shows "wp (uleb c p m) (uleb_post c p)"
  unfolding uleb_def wp_or_reject read_uleb_def
  by (rule wp_conseq [OF wp_uleb_from [OF assms]])
    (auto simp: uleb_post_def uleb_from_post_def uleb_at_def u32_less split: option.splits)

lemma wp_sleb_from:
  assumes "vctx_ok c"
  shows "wp (sleb_from c i p res) (\<lambda>r. case r of None \<Rightarrow> True | Some (v, p') \<Rightarrow>
     p < p' \<and> p' + i \<le> p + 5 \<and> p' \<le> end_of_file c)"
  using assms
proof (induction c i p res rule: sleb_from.induct)
  case (1 c i p res)
  show ?case
  proof (cases "i < 5 \<and> p < end_of_file c")
    case True
    then have p: "p < length (v_img c)"
      using "1.prems" vctx_okD [of c] by simp
    show ?thesis
    proof (cases "v_img c ! p AND 0x80 = 0")
      case stop: True
      with True p show ?thesis
        by (subst sleb_from.simps) (simp add: wp_rules Let_def)
    next
      case False
      let ?r = "sleb_from c (Suc i) (Suc p) (res OR push_bit (7 * i) (ucast (v_img c ! p AND 0x7f)))"
      have "wp ?r (\<lambda>r. case r of None \<Rightarrow> True | Some (v, p') \<Rightarrow> p < p' \<and>
          p' + i \<le> p + 5 \<and> p' \<le> end_of_file c)"
        by (rule wp_conseq [OF "1.IH" [of "v_img c ! p", OF _ _ refl]])
          (use True False p "1.prems" in \<open>auto simp: rd_u1_def split: option.splits\<close>)
      with True False p show ?thesis
        by (subst sleb_from.simps) (simp add: wp_rules)
    qed
  next
    case False
    then show ?thesis by (subst sleb_from.simps) (auto simp: wp_rules)
  qed
qed

lemma wp_sleb:
  "vctx_ok c \<Longrightarrow> wp (sleb c p m) (\<lambda>(v, p'). p < p' \<and> p' \<le> end_of_file c)"
  unfolding sleb_def wp_or_reject read_sleb_def
  by (rule wp_conseq [OF wp_sleb_from]) (auto split: option.splits)

lemma wp_lebI [wp_intros]:
  "vctx_ok c \<Longrightarrow> (\<And>v p'. uleb_post c p (v, p') \<Longrightarrow> Q (v, p')) \<Longrightarrow> wp (uleb c p m) Q"
  "vctx_ok c \<Longrightarrow> (\<And>x p'. p < p' \<Longrightarrow> p' \<le> end_of_file c \<Longrightarrow> R (x, p')) \<Longrightarrow> wp (sleb c p m) R"
  by (rule wp_conseq [OF wp_uleb], auto) (rule wp_conseq [OF wp_sleb], auto)

section \<open>Further results\<close>

text \<open>
  \<open>ReadUleb\<close> stays inside the data range; a value it returns is the number its bytes spell,
  cut to 32 bits, and the new cursor is just past the terminating byte, at most five bytes on.
\<close>

theorem uleb_value:
  assumes "vctx_ok c"
  shows "wp (read_uleb c p) (\<lambda>r. \<forall>v p'. r = Some (v, p') \<longrightarrow>
    p < p' \<and> p' \<le> p + 5 \<and> p' \<le> end_of_file c \<and> uleb_at (v_img c) p v p')"
  unfolding read_uleb_def
  by (rule wp_conseq [OF wp_uleb_from [OF assms]])
    (auto simp: uleb_from_post_def uleb_at_def)

end
