(* ===== verification/Verifier_Header.thy ===== *)
theory Verifier_Header
  imports Verifier_Base
begin

text \<open>
  The first two phases of \<open>DexVerifier::Verify\<close>: the data range every offset of the header
  is relative to (\<open>ComputeDataRange\<close>) and the header checks (\<open>CheckHeader\<close>). A context that
  passed both has every id table inside the data range (\<open>tables_ok\<close>), which is what the later
  phases rest on.
\<close>

section \<open>ComputeDataRange\<close>

definition ComputeDataRange :: "image \<Rightarrow> dex_header \<Rightarrow> bool \<Rightarrow> vctx result" where
  "ComputeDataRange im h check_insns =
     (let off = hdr_off h; avail = length im - off in
      if avail \<ge> kV41Size \<and> header_size h \<ge> kV41Size
      then bind (ContainerOff im h) (\<lambda>hoff.
        if hoff > off then fail ''Dex container starts before the image''
        else let base_off = off - hoff in
          bind (ContainerSize im h) (\<lambda>csize.
            if csize > length im - base_off then fail ''Dex container size is past the image''
            else Inr \<lparr>v_img = im, v_hdr = h, v_begin = base_off, v_size = csize,
              v_insns = check_insns, v_mh_count = 0\<rparr>))
      else Inr \<lparr>v_img = im, v_hdr = h, v_begin = off, v_size = min (file_size h) avail,
              v_insns = check_insns, v_mh_count = 0\<rparr>)"

text \<open>The span the range must be, given whether the header is a container's.\<close>

definition data_range_of :: "image \<Rightarrow> dex_header \<Rightarrow> vctx \<Rightarrow> bool" where
  "data_range_of im h c \<longleftrightarrow>
     (if length im - hdr_off h \<ge> kV41Size \<and> header_size h \<ge> kV41Size
      then v_begin c + u4_at im (hdr_off h + 0x74) = hdr_off h
         \<and> v_size c = u4_at im (hdr_off h + 0x70)
      else v_begin c = hdr_off h \<and> v_size c = min (file_size h) (length im - hdr_off h))"

lemma wp_ComputeDataRange:
  assumes "hdr_off h + kV40Size \<le> length im" and "file_size h < 4294967296"
  shows "wp (ComputeDataRange im h ci) (\<lambda>c. vctx_ok c \<and> v_img c = im \<and> v_hdr c = h
    \<and> v_insns c = ci \<and> v_mh_count c = 0 \<and> data_range_of im h c)"
  using assms u4_at_less
  by (auto simp: ComputeDataRange_def Let_def ContainerOff_def ContainerSize_def wp_rules layout
      vctx_ok_def end_of_file_def data_range_of_def min_def)

section \<open>CheckHeader\<close>

definition check_header_ident :: "vctx \<Rightarrow> unit result" where
  "check_header_ident c =
     (let h = v_hdr c; avail = length (v_img c) - hdr_off h in
      if take 4 (magic h) \<noteq> [0x64, 0x65, 0x78, 0x0a] then fail ''Bad file magic''
      else let version = GetVersion (magic h) in
      if version < kMinVersion \<or> version > kMaxVersion then fail ''Unknown dex version''
      else let hsize = (if version \<ge> kV41 then kV41Size else kV40Size) in
      if file_size h < hsize then fail ''Bad file size (too small)''
      else if file_size h > avail then fail ''Bad file size (past image)''
      else if header_size h \<noteq> hsize then fail ''Bad header size''
      else if endian_tag h \<noteq> kEndianConstant then fail ''Unexpected endian_tag''
      else if version \<ge> kV41 then
        bind (ContainerSize (v_img c) h) (\<lambda>container_size.
        bind (ContainerOff (v_img c) h) (\<lambda>container_off.
          if container_size \<le> container_off then fail ''Dex container is too small''
          else if file_size h > container_size - container_off
          then fail ''Header file_size is past multi-dex size''
          else Inr ()))
      else Inr ())"

text \<open>One id table: its offset is aligned and inside, and its byte span fits.\<close>

definition check_table :: "vctx \<Rightarrow> nat \<Rightarrow> nat \<Rightarrow> nat \<Rightarrow> string \<Rightarrow> unit result" where
  "check_table c off count elem label =
     bind (check_valid_offset_and_size c off count 4 label) (\<lambda>_.
       check_list_size c (offset_to_ptr c off) count elem (label @ '' span''))"

definition check_header_sections :: "vctx \<Rightarrow> unit result" where
  "check_header_sections c =
     (let h = v_hdr c in
      bind (check_valid_offset_and_size c (link_off h) (link_size h) 0 ''link'') (\<lambda>_.
      bind (check_valid_offset_and_size c (map_off h) sizeof_MapList 4 ''map'') (\<lambda>_.
      bind (check_table c (string_ids_off h) (string_ids_size h) sizeof_StringId ''string-ids'') (\<lambda>_.
      bind (check_table c (type_ids_off h) (type_ids_size h) sizeof_TypeId ''type-ids'') (\<lambda>_.
      bind (check_size_limit (type_ids_size h) (kNoIndex - 1) ''type-ids'') (\<lambda>_.
      bind (check_table c (proto_ids_off h) (proto_ids_size h) sizeof_ProtoId ''proto-ids'') (\<lambda>_.
      bind (check_size_limit (proto_ids_size h) (kNoIndex - 1) ''proto-ids'') (\<lambda>_.
      bind (check_table c (field_ids_off h) (field_ids_size h) sizeof_FieldId ''field-ids'') (\<lambda>_.
      bind (check_table c (method_ids_off h) (method_ids_size h) sizeof_MethodId ''method-ids'') (\<lambda>_.
      bind (check_table c (class_defs_off h) (class_defs_size h) sizeof_ClassDef ''class-defs'') (\<lambda>_.
        check_valid_offset_and_size c (data_off h) (data_size h) 0 ''data'')))))))))))"

definition CheckHeader :: "vctx \<Rightarrow> unit result" where
  "CheckHeader c = bind (check_header_ident c) (\<lambda>_. check_header_sections c)"

section \<open>What an accepted header gives\<close>

definition header_ident_ok :: "vctx \<Rightarrow> bool" where
  "header_ident_ok c \<longleftrightarrow>
     (let h = v_hdr c; v = GetVersion (magic h) in
      take 4 (magic h) = [0x64, 0x65, 0x78, 0x0a] \<and> 35 \<le> v \<and> v \<le> 41 \<and>
      header_size h = (if v = 41 then 0x78 else 0x70) \<and>
      header_size h \<le> file_size h \<and> hdr_off h + file_size h \<le> length (v_img c) \<and>
      endian_tag h = 0x12345678)"

definition table_ok :: "vctx \<Rightarrow> nat \<Rightarrow> nat \<Rightarrow> nat \<Rightarrow> bool" where
  "table_ok c off count elem \<longleftrightarrow> off + count * elem \<le> v_size c \<and> (count = 0 \<longrightarrow> off = 0) \<and>
     off mod 4 = 0"

definition tables_ok :: "vctx \<Rightarrow> bool" where
  "tables_ok c \<longleftrightarrow> (let h = v_hdr c in
     table_ok c (string_ids_off h) (string_ids_size h) 4 \<and>
     table_ok c (type_ids_off h) (type_ids_size h) 4 \<and>
     table_ok c (proto_ids_off h) (proto_ids_size h) 12 \<and>
     table_ok c (field_ids_off h) (field_ids_size h) 8 \<and>
     table_ok c (method_ids_off h) (method_ids_size h) 8 \<and>
     table_ok c (class_defs_off h) (class_defs_size h) 32 \<and>
     map_off h < v_size c)"

lemma wp_check_table:
  "0 < elem \<Longrightarrow> wp (check_table c off count elem label) (\<lambda>_. table_ok c off count elem)"
  unfolding check_table_def wp_bind
  by (rule wp_conseq [OF wp_check_valid_offset_and_size], rule wp_conseq [OF wp_check_list_size])
    (auto simp: table_ok_def offset_to_ptr_def end_of_file_def split: if_splits)

lemma wp_check_header_ident:
  assumes "vctx_ok c" and "hdr_off (v_hdr c) + kV40Size \<le> length (v_img c)"
  shows "wp (check_header_ident c) (\<lambda>_. header_ident_ok c)"
  using assms
  by (auto simp: check_header_ident_def Let_def wp_rules ContainerSize_def ContainerOff_def
      layout header_ident_ok_def split: if_splits)

lemma wp_check_header_sections: "wp (check_header_sections c) (\<lambda>_. tables_ok c)"
proof -
  note vos = wp_check_valid_offset_and_size [of c]
  note tab = wp_check_table [of _ c]
  show ?thesis
    unfolding check_header_sections_def Let_def wp_bind wp_check_size_limit
    apply (rule wp_conseq [OF vos])
    apply (rule wp_conseq [OF vos])
    apply (rule wp_conseq [OF tab], simp add: layout)
    apply (rule wp_conseq [OF tab], simp add: layout)
    apply (intro impI)
    apply (rule wp_conseq [OF tab], simp add: layout)
    apply (intro impI)
    apply (rule wp_conseq [OF tab], simp add: layout)+
    apply (rule wp_conseq [OF vos])
    apply (simp add: tables_ok_def Let_def layout)
    done
qed

lemma wp_CheckHeader:
  assumes "vctx_ok c" and "hdr_off (v_hdr c) + kV40Size \<le> length (v_img c)"
  shows "wp (CheckHeader c) (\<lambda>_. header_ident_ok c \<and> tables_ok c)"
  unfolding CheckHeader_def wp_bind
  by (rule wp_conseq [OF wp_check_header_ident [OF assms]],
      rule wp_conseq [OF wp_check_header_sections]) simp

text \<open>A row of a table is inside the image.\<close>

lemma table_row:
  assumes "vctx_ok c" and "table_ok c off count elem" and "i < count"
  shows "v_begin c + off + i * elem + elem \<le> end_of_file c"
    and "v_begin c + off + i * elem + elem \<le> length (v_img c)"
proof -
  have "Suc i * elem \<le> count * elem" using assms(3) by (intro mult_le_mono1) simp
  with assms(2) show 1: "v_begin c + off + i * elem + elem \<le> end_of_file c"
    by (simp add: table_ok_def end_of_file_def)
  with vctx_okD [OF assms(1)] show "v_begin c + off + i * elem + elem \<le> length (v_img c)"
    by simp
qed

section \<open>Properties\<close>

text \<open>
  C35. After \<open>ComputeDataRange\<close> and \<open>CheckHeader\<close> accept, the data range is the one the header
  describes and lies inside the image, the header's identity fields are valid, every id table lies
  inside the range and the map begins inside it; neither reads outside the image.
\<close>

theorem header_sound:
  assumes "off + kV40Size \<le> length im"
  shows "wp (bind (ComputeDataRange im (header_at im off) ci) (\<lambda>c. bind (CheckHeader c) (\<lambda>_. Inr c)))
    (\<lambda>c. vctx_ok c \<and> data_range_of im (header_at im off) c \<and> header_ident_ok c \<and> tables_ok c)"
proof -
  have off: "hdr_off (header_at im off) = off" "file_size (header_at im off) < 4294967296"
    by (simp_all add: header_at_def u4_at_less)
  have range: "wp (ComputeDataRange im (header_at im off) ci) (\<lambda>c. vctx_ok c \<and> v_img c = im \<and>
      v_hdr c = header_at im off \<and> v_insns c = ci \<and> v_mh_count c = 0 \<and> data_range_of im (header_at im off) c)"
    by (rule wp_ComputeDataRange) (use assms off in simp_all)
  show ?thesis
    unfolding wp_bind wp_Inr
    by (rule wp_conseq [OF range], rule wp_conseq [OF wp_CheckHeader]) (use assms off in auto)
qed

end
