(* ===== verification/Bytecode.thy ===== *)
theory Bytecode
  imports Dex_Format
begin

text \<open>
  The Dalvik instruction decoder the verifier and the renderers share
  (\<open>slicer/dex_bytecode.h\<close>, \<open>dex_instruction_list.h\<close>, \<open>dex_bytecode.cc\<close>): the 256-entry
  descriptor table, instruction widths, payload widths, and \<open>DecodeInstruction\<close>. Code units are
  16-bit words, decoded operands 32-bit words, so that shifts, masks and sign extensions are the
  ones the C++ performs. A pointer into the code is the image position of its first byte, and
  every code unit read is a checked read of the image.
\<close>

named_theorems vflag \<open>the values of the VerifyFlags and OpcodeFlags constants\<close>

section \<open>Enumerations\<close>

datatype instr_format =
    k10x | k12x | k11n | k11x | k10t | k20t | k20bc | k22x | k21t | k21s | k21h | k21c | k23x
  | k22b | k22t | k22s | k22c | k22cs | k30t | k32x | k31i | k31t | k31c | k35c | k35ms | k3rc
  | k3rms | k35mi | k3rmi | k45cc | k4rcc | k51l

datatype index_type =
    kIndexUnknown | kIndexNone | kIndexVaries | kIndexTypeRef | kIndexStringRef
  | kIndexMethodRef | kIndexFieldRef | kIndexInlineMethod | kIndexVtableOffset
  | kIndexFieldOffset | kIndexMethodAndProtoRef | kIndexCallSiteRef | kIndexMethodHandleRef
  | kIndexProtoRef

type_synonym verify_flags = "32 word"
type_synonym opcode_flags = "8 word"

definition kBranch :: opcode_flags where [vflag]: "kBranch = 0x1"
definition kContinue :: opcode_flags where [vflag]: "kContinue = 0x2"
definition kSwitch :: opcode_flags where [vflag]: "kSwitch = 0x4"
definition kThrow :: opcode_flags where [vflag]: "kThrow = 0x8"
definition kReturn :: opcode_flags where [vflag]: "kReturn = 0x10"
definition kInvoke :: opcode_flags where [vflag]: "kInvoke = 0x20"
definition kUnconditional :: opcode_flags where [vflag]: "kUnconditional = 0x40"
definition kExperimental :: opcode_flags where [vflag]: "kExperimental = 0x80"

definition kVerifyNothing :: verify_flags where [vflag]: "kVerifyNothing = 0x0"
definition kVerifyRegA :: verify_flags where [vflag]: "kVerifyRegA = 0x1"
definition kVerifyRegAWide :: verify_flags where [vflag]: "kVerifyRegAWide = 0x2"
definition kVerifyRegB :: verify_flags where [vflag]: "kVerifyRegB = 0x4"
definition kVerifyRegBField :: verify_flags where [vflag]: "kVerifyRegBField = 0x8"
definition kVerifyRegBMethod :: verify_flags where [vflag]: "kVerifyRegBMethod = 0x10"
definition kVerifyRegBNewInstance :: verify_flags where [vflag]: "kVerifyRegBNewInstance = 0x20"
definition kVerifyRegBString :: verify_flags where [vflag]: "kVerifyRegBString = 0x40"
definition kVerifyRegBType :: verify_flags where [vflag]: "kVerifyRegBType = 0x80"
definition kVerifyRegBWide :: verify_flags where [vflag]: "kVerifyRegBWide = 0x100"
definition kVerifyRegC :: verify_flags where [vflag]: "kVerifyRegC = 0x200"
definition kVerifyRegCField :: verify_flags where [vflag]: "kVerifyRegCField = 0x400"
definition kVerifyRegCNewArray :: verify_flags where [vflag]: "kVerifyRegCNewArray = 0x800"
definition kVerifyRegCType :: verify_flags where [vflag]: "kVerifyRegCType = 0x1000"
definition kVerifyRegCWide :: verify_flags where [vflag]: "kVerifyRegCWide = 0x2000"
definition kVerifyArrayData :: verify_flags where [vflag]: "kVerifyArrayData = 0x4000"
definition kVerifyBranchTarget :: verify_flags where [vflag]: "kVerifyBranchTarget = 0x8000"
definition kVerifySwitchTargets :: verify_flags where [vflag]: "kVerifySwitchTargets = 0x10000"
definition kVerifyVarArg :: verify_flags where [vflag]: "kVerifyVarArg = 0x20000"
definition kVerifyVarArgNonZero :: verify_flags where [vflag]: "kVerifyVarArgNonZero = 0x40000"
definition kVerifyVarArgRange :: verify_flags where [vflag]: "kVerifyVarArgRange = 0x80000"
definition kVerifyVarArgRangeNonZero :: verify_flags where [vflag]: "kVerifyVarArgRangeNonZero = 0x100000"
definition kVerifyRuntimeOnly :: verify_flags where [vflag]: "kVerifyRuntimeOnly = 0x200000"
definition kVerifyError :: verify_flags where [vflag]: "kVerifyError = 0x400000"
definition kVerifyRegHPrototype :: verify_flags where [vflag]: "kVerifyRegHPrototype = 0x800000"
definition kVerifyRegBCallSite :: verify_flags where [vflag]: "kVerifyRegBCallSite = 0x1000000"
definition kVerifyRegBMethodHandle :: verify_flags where [vflag]: "kVerifyRegBMethodHandle = 0x2000000"
definition kVerifyRegBPrototype :: verify_flags where [vflag]: "kVerifyRegBPrototype = 0x4000000"

section \<open>The descriptor table\<close>

datatype instr_descr = IDescr
  (verify_flags: verify_flags) (format: instr_format) (index_type: index_type)
  (op_flags: opcode_flags)

text \<open>One row per opcode, in opcode order, sixteen opcodes to a definition.\<close>

definition descr_0x :: "instr_descr list" where
  "descr_0x = [
    IDescr (kVerifyNothing) k10x kIndexNone (kContinue),
    IDescr (kVerifyRegA OR kVerifyRegB) k12x kIndexNone (kContinue),
    IDescr (kVerifyRegA OR kVerifyRegB) k22x kIndexNone (kContinue),
    IDescr (kVerifyRegA OR kVerifyRegB) k32x kIndexNone (kContinue),
    IDescr (kVerifyRegAWide OR kVerifyRegBWide) k12x kIndexNone (kContinue),
    IDescr (kVerifyRegAWide OR kVerifyRegBWide) k22x kIndexNone (kContinue),
    IDescr (kVerifyRegAWide OR kVerifyRegBWide) k32x kIndexNone (kContinue),
    IDescr (kVerifyRegA OR kVerifyRegB) k12x kIndexNone (kContinue),
    IDescr (kVerifyRegA OR kVerifyRegB) k22x kIndexNone (kContinue),
    IDescr (kVerifyRegA OR kVerifyRegB) k32x kIndexNone (kContinue),
    IDescr (kVerifyRegA) k11x kIndexNone (kContinue),
    IDescr (kVerifyRegAWide) k11x kIndexNone (kContinue),
    IDescr (kVerifyRegA) k11x kIndexNone (kContinue),
    IDescr (kVerifyRegA) k11x kIndexNone (kContinue),
    IDescr (kVerifyNothing) k10x kIndexNone (kReturn),
    IDescr (kVerifyRegA) k11x kIndexNone (kReturn)]"

definition descr_1x :: "instr_descr list" where
  "descr_1x = [
    IDescr (kVerifyRegAWide) k11x kIndexNone (kReturn),
    IDescr (kVerifyRegA) k11x kIndexNone (kReturn),
    IDescr (kVerifyRegA) k11n kIndexNone (kContinue),
    IDescr (kVerifyRegA) k21s kIndexNone (kContinue),
    IDescr (kVerifyRegA) k31i kIndexNone (kContinue),
    IDescr (kVerifyRegA) k21h kIndexNone (kContinue),
    IDescr (kVerifyRegAWide) k21s kIndexNone (kContinue),
    IDescr (kVerifyRegAWide) k31i kIndexNone (kContinue),
    IDescr (kVerifyRegAWide) k51l kIndexNone (kContinue),
    IDescr (kVerifyRegAWide) k21h kIndexNone (kContinue),
    IDescr (kVerifyRegA OR kVerifyRegBString) k21c kIndexStringRef (kContinue OR kThrow),
    IDescr (kVerifyRegA OR kVerifyRegBString) k31c kIndexStringRef (kContinue OR kThrow),
    IDescr (kVerifyRegA OR kVerifyRegBType) k21c kIndexTypeRef (kContinue OR kThrow),
    IDescr (kVerifyRegA) k11x kIndexNone (kContinue OR kThrow),
    IDescr (kVerifyRegA) k11x kIndexNone (kContinue OR kThrow),
    IDescr (kVerifyRegA OR kVerifyRegBType) k21c kIndexTypeRef (kContinue OR kThrow)]"

definition descr_2x :: "instr_descr list" where
  "descr_2x = [
    IDescr (kVerifyRegA OR kVerifyRegB OR kVerifyRegCType) k22c kIndexTypeRef (kContinue OR kThrow),
    IDescr (kVerifyRegA OR kVerifyRegB) k12x kIndexNone (kContinue OR kThrow),
    IDescr (kVerifyRegA OR kVerifyRegBNewInstance) k21c kIndexTypeRef (kContinue OR kThrow),
    IDescr (kVerifyRegA OR kVerifyRegB OR kVerifyRegCNewArray) k22c kIndexTypeRef (kContinue OR kThrow),
    IDescr (kVerifyRegBType OR kVerifyVarArg) k35c kIndexTypeRef (kContinue OR kThrow),
    IDescr (kVerifyRegBType OR kVerifyVarArgRange) k3rc kIndexTypeRef (kContinue OR kThrow),
    IDescr (kVerifyRegA OR kVerifyArrayData) k31t kIndexNone (kContinue OR kThrow),
    IDescr (kVerifyRegA) k11x kIndexNone (kThrow),
    IDescr (kVerifyBranchTarget) k10t kIndexNone (kBranch OR kUnconditional),
    IDescr (kVerifyBranchTarget) k20t kIndexNone (kBranch OR kUnconditional),
    IDescr (kVerifyBranchTarget) k30t kIndexNone (kBranch OR kUnconditional),
    IDescr (kVerifyRegA OR kVerifySwitchTargets) k31t kIndexNone (kContinue OR kSwitch),
    IDescr (kVerifyRegA OR kVerifySwitchTargets) k31t kIndexNone (kContinue OR kSwitch),
    IDescr (kVerifyRegA OR kVerifyRegB OR kVerifyRegC) k23x kIndexNone (kContinue),
    IDescr (kVerifyRegA OR kVerifyRegB OR kVerifyRegC) k23x kIndexNone (kContinue),
    IDescr (kVerifyRegA OR kVerifyRegBWide OR kVerifyRegCWide) k23x kIndexNone (kContinue)]"

definition descr_3x :: "instr_descr list" where
  "descr_3x = [
    IDescr (kVerifyRegA OR kVerifyRegBWide OR kVerifyRegCWide) k23x kIndexNone (kContinue),
    IDescr (kVerifyRegA OR kVerifyRegBWide OR kVerifyRegCWide) k23x kIndexNone (kContinue),
    IDescr (kVerifyRegA OR kVerifyRegB OR kVerifyBranchTarget) k22t kIndexNone (kContinue OR kBranch),
    IDescr (kVerifyRegA OR kVerifyRegB OR kVerifyBranchTarget) k22t kIndexNone (kContinue OR kBranch),
    IDescr (kVerifyRegA OR kVerifyRegB OR kVerifyBranchTarget) k22t kIndexNone (kContinue OR kBranch),
    IDescr (kVerifyRegA OR kVerifyRegB OR kVerifyBranchTarget) k22t kIndexNone (kContinue OR kBranch),
    IDescr (kVerifyRegA OR kVerifyRegB OR kVerifyBranchTarget) k22t kIndexNone (kContinue OR kBranch),
    IDescr (kVerifyRegA OR kVerifyRegB OR kVerifyBranchTarget) k22t kIndexNone (kContinue OR kBranch),
    IDescr (kVerifyRegA OR kVerifyBranchTarget) k21t kIndexNone (kContinue OR kBranch),
    IDescr (kVerifyRegA OR kVerifyBranchTarget) k21t kIndexNone (kContinue OR kBranch),
    IDescr (kVerifyRegA OR kVerifyBranchTarget) k21t kIndexNone (kContinue OR kBranch),
    IDescr (kVerifyRegA OR kVerifyBranchTarget) k21t kIndexNone (kContinue OR kBranch),
    IDescr (kVerifyRegA OR kVerifyBranchTarget) k21t kIndexNone (kContinue OR kBranch),
    IDescr (kVerifyRegA OR kVerifyBranchTarget) k21t kIndexNone (kContinue OR kBranch),
    IDescr (kVerifyError) k10x kIndexUnknown (0),
    IDescr (kVerifyError) k10x kIndexUnknown (0)]"

definition descr_4x :: "instr_descr list" where
  "descr_4x = [
    IDescr (kVerifyError) k10x kIndexUnknown (0),
    IDescr (kVerifyError) k10x kIndexUnknown (0),
    IDescr (kVerifyError) k10x kIndexUnknown (0),
    IDescr (kVerifyError) k10x kIndexUnknown (0),
    IDescr (kVerifyRegA OR kVerifyRegB OR kVerifyRegC) k23x kIndexNone (kContinue OR kThrow),
    IDescr (kVerifyRegAWide OR kVerifyRegB OR kVerifyRegC) k23x kIndexNone (kContinue OR kThrow),
    IDescr (kVerifyRegA OR kVerifyRegB OR kVerifyRegC) k23x kIndexNone (kContinue OR kThrow),
    IDescr (kVerifyRegA OR kVerifyRegB OR kVerifyRegC) k23x kIndexNone (kContinue OR kThrow),
    IDescr (kVerifyRegA OR kVerifyRegB OR kVerifyRegC) k23x kIndexNone (kContinue OR kThrow),
    IDescr (kVerifyRegA OR kVerifyRegB OR kVerifyRegC) k23x kIndexNone (kContinue OR kThrow),
    IDescr (kVerifyRegA OR kVerifyRegB OR kVerifyRegC) k23x kIndexNone (kContinue OR kThrow),
    IDescr (kVerifyRegA OR kVerifyRegB OR kVerifyRegC) k23x kIndexNone (kContinue OR kThrow),
    IDescr (kVerifyRegAWide OR kVerifyRegB OR kVerifyRegC) k23x kIndexNone (kContinue OR kThrow),
    IDescr (kVerifyRegA OR kVerifyRegB OR kVerifyRegC) k23x kIndexNone (kContinue OR kThrow),
    IDescr (kVerifyRegA OR kVerifyRegB OR kVerifyRegC) k23x kIndexNone (kContinue OR kThrow),
    IDescr (kVerifyRegA OR kVerifyRegB OR kVerifyRegC) k23x kIndexNone (kContinue OR kThrow)]"

definition descr_5x :: "instr_descr list" where
  "descr_5x = [
    IDescr (kVerifyRegA OR kVerifyRegB OR kVerifyRegC) k23x kIndexNone (kContinue OR kThrow),
    IDescr (kVerifyRegA OR kVerifyRegB OR kVerifyRegC) k23x kIndexNone (kContinue OR kThrow),
    IDescr (kVerifyRegA OR kVerifyRegB OR kVerifyRegCField) k22c kIndexFieldRef (kContinue OR kThrow),
    IDescr (kVerifyRegAWide OR kVerifyRegB OR kVerifyRegCField) k22c kIndexFieldRef (kContinue OR kThrow),
    IDescr (kVerifyRegA OR kVerifyRegB OR kVerifyRegCField) k22c kIndexFieldRef (kContinue OR kThrow),
    IDescr (kVerifyRegA OR kVerifyRegB OR kVerifyRegCField) k22c kIndexFieldRef (kContinue OR kThrow),
    IDescr (kVerifyRegA OR kVerifyRegB OR kVerifyRegCField) k22c kIndexFieldRef (kContinue OR kThrow),
    IDescr (kVerifyRegA OR kVerifyRegB OR kVerifyRegCField) k22c kIndexFieldRef (kContinue OR kThrow),
    IDescr (kVerifyRegA OR kVerifyRegB OR kVerifyRegCField) k22c kIndexFieldRef (kContinue OR kThrow),
    IDescr (kVerifyRegA OR kVerifyRegB OR kVerifyRegCField) k22c kIndexFieldRef (kContinue OR kThrow),
    IDescr (kVerifyRegAWide OR kVerifyRegB OR kVerifyRegCField) k22c kIndexFieldRef (kContinue OR kThrow),
    IDescr (kVerifyRegA OR kVerifyRegB OR kVerifyRegCField) k22c kIndexFieldRef (kContinue OR kThrow),
    IDescr (kVerifyRegA OR kVerifyRegB OR kVerifyRegCField) k22c kIndexFieldRef (kContinue OR kThrow),
    IDescr (kVerifyRegA OR kVerifyRegB OR kVerifyRegCField) k22c kIndexFieldRef (kContinue OR kThrow),
    IDescr (kVerifyRegA OR kVerifyRegB OR kVerifyRegCField) k22c kIndexFieldRef (kContinue OR kThrow),
    IDescr (kVerifyRegA OR kVerifyRegB OR kVerifyRegCField) k22c kIndexFieldRef (kContinue OR kThrow)]"

definition descr_6x :: "instr_descr list" where
  "descr_6x = [
    IDescr (kVerifyRegA OR kVerifyRegBField) k21c kIndexFieldRef (kContinue OR kThrow),
    IDescr (kVerifyRegAWide OR kVerifyRegBField) k21c kIndexFieldRef (kContinue OR kThrow),
    IDescr (kVerifyRegA OR kVerifyRegBField) k21c kIndexFieldRef (kContinue OR kThrow),
    IDescr (kVerifyRegA OR kVerifyRegBField) k21c kIndexFieldRef (kContinue OR kThrow),
    IDescr (kVerifyRegA OR kVerifyRegBField) k21c kIndexFieldRef (kContinue OR kThrow),
    IDescr (kVerifyRegA OR kVerifyRegBField) k21c kIndexFieldRef (kContinue OR kThrow),
    IDescr (kVerifyRegA OR kVerifyRegBField) k21c kIndexFieldRef (kContinue OR kThrow),
    IDescr (kVerifyRegA OR kVerifyRegBField) k21c kIndexFieldRef (kContinue OR kThrow),
    IDescr (kVerifyRegAWide OR kVerifyRegBField) k21c kIndexFieldRef (kContinue OR kThrow),
    IDescr (kVerifyRegA OR kVerifyRegBField) k21c kIndexFieldRef (kContinue OR kThrow),
    IDescr (kVerifyRegA OR kVerifyRegBField) k21c kIndexFieldRef (kContinue OR kThrow),
    IDescr (kVerifyRegA OR kVerifyRegBField) k21c kIndexFieldRef (kContinue OR kThrow),
    IDescr (kVerifyRegA OR kVerifyRegBField) k21c kIndexFieldRef (kContinue OR kThrow),
    IDescr (kVerifyRegA OR kVerifyRegBField) k21c kIndexFieldRef (kContinue OR kThrow),
    IDescr (kVerifyRegBMethod OR kVerifyVarArgNonZero) k35c kIndexMethodRef (kContinue OR kThrow OR kInvoke),
    IDescr (kVerifyRegBMethod OR kVerifyVarArgNonZero) k35c kIndexMethodRef (kContinue OR kThrow OR kInvoke)]"

definition descr_7x :: "instr_descr list" where
  "descr_7x = [
    IDescr (kVerifyRegBMethod OR kVerifyVarArgNonZero) k35c kIndexMethodRef (kContinue OR kThrow OR kInvoke),
    IDescr (kVerifyRegBMethod OR kVerifyVarArg) k35c kIndexMethodRef (kContinue OR kThrow OR kInvoke),
    IDescr (kVerifyRegBMethod OR kVerifyVarArgNonZero) k35c kIndexMethodRef (kContinue OR kThrow OR kInvoke),
    IDescr (kVerifyNothing) k10x kIndexNone (kReturn),
    IDescr (kVerifyRegBMethod OR kVerifyVarArgRangeNonZero) k3rc kIndexMethodRef (kContinue OR kThrow OR kInvoke),
    IDescr (kVerifyRegBMethod OR kVerifyVarArgRangeNonZero) k3rc kIndexMethodRef (kContinue OR kThrow OR kInvoke),
    IDescr (kVerifyRegBMethod OR kVerifyVarArgRangeNonZero) k3rc kIndexMethodRef (kContinue OR kThrow OR kInvoke),
    IDescr (kVerifyRegBMethod OR kVerifyVarArgRange) k3rc kIndexMethodRef (kContinue OR kThrow OR kInvoke),
    IDescr (kVerifyRegBMethod OR kVerifyVarArgRangeNonZero) k3rc kIndexMethodRef (kContinue OR kThrow OR kInvoke),
    IDescr (kVerifyError) k10x kIndexUnknown (0),
    IDescr (kVerifyError) k10x kIndexUnknown (0),
    IDescr (kVerifyRegA OR kVerifyRegB) k12x kIndexNone (kContinue),
    IDescr (kVerifyRegA OR kVerifyRegB) k12x kIndexNone (kContinue),
    IDescr (kVerifyRegAWide OR kVerifyRegBWide) k12x kIndexNone (kContinue),
    IDescr (kVerifyRegAWide OR kVerifyRegBWide) k12x kIndexNone (kContinue),
    IDescr (kVerifyRegA OR kVerifyRegB) k12x kIndexNone (kContinue)]"

definition descr_8x :: "instr_descr list" where
  "descr_8x = [
    IDescr (kVerifyRegAWide OR kVerifyRegBWide) k12x kIndexNone (kContinue),
    IDescr (kVerifyRegAWide OR kVerifyRegB) k12x kIndexNone (kContinue),
    IDescr (kVerifyRegA OR kVerifyRegB) k12x kIndexNone (kContinue),
    IDescr (kVerifyRegAWide OR kVerifyRegB) k12x kIndexNone (kContinue),
    IDescr (kVerifyRegA OR kVerifyRegBWide) k12x kIndexNone (kContinue),
    IDescr (kVerifyRegA OR kVerifyRegBWide) k12x kIndexNone (kContinue),
    IDescr (kVerifyRegAWide OR kVerifyRegBWide) k12x kIndexNone (kContinue),
    IDescr (kVerifyRegA OR kVerifyRegB) k12x kIndexNone (kContinue),
    IDescr (kVerifyRegAWide OR kVerifyRegB) k12x kIndexNone (kContinue),
    IDescr (kVerifyRegAWide OR kVerifyRegB) k12x kIndexNone (kContinue),
    IDescr (kVerifyRegA OR kVerifyRegBWide) k12x kIndexNone (kContinue),
    IDescr (kVerifyRegAWide OR kVerifyRegBWide) k12x kIndexNone (kContinue),
    IDescr (kVerifyRegA OR kVerifyRegBWide) k12x kIndexNone (kContinue),
    IDescr (kVerifyRegA OR kVerifyRegB) k12x kIndexNone (kContinue),
    IDescr (kVerifyRegA OR kVerifyRegB) k12x kIndexNone (kContinue),
    IDescr (kVerifyRegA OR kVerifyRegB) k12x kIndexNone (kContinue)]"

definition descr_9x :: "instr_descr list" where
  "descr_9x = [
    IDescr (kVerifyRegA OR kVerifyRegB OR kVerifyRegC) k23x kIndexNone (kContinue),
    IDescr (kVerifyRegA OR kVerifyRegB OR kVerifyRegC) k23x kIndexNone (kContinue),
    IDescr (kVerifyRegA OR kVerifyRegB OR kVerifyRegC) k23x kIndexNone (kContinue),
    IDescr (kVerifyRegA OR kVerifyRegB OR kVerifyRegC) k23x kIndexNone (kContinue OR kThrow),
    IDescr (kVerifyRegA OR kVerifyRegB OR kVerifyRegC) k23x kIndexNone (kContinue OR kThrow),
    IDescr (kVerifyRegA OR kVerifyRegB OR kVerifyRegC) k23x kIndexNone (kContinue),
    IDescr (kVerifyRegA OR kVerifyRegB OR kVerifyRegC) k23x kIndexNone (kContinue),
    IDescr (kVerifyRegA OR kVerifyRegB OR kVerifyRegC) k23x kIndexNone (kContinue),
    IDescr (kVerifyRegA OR kVerifyRegB OR kVerifyRegC) k23x kIndexNone (kContinue),
    IDescr (kVerifyRegA OR kVerifyRegB OR kVerifyRegC) k23x kIndexNone (kContinue),
    IDescr (kVerifyRegA OR kVerifyRegB OR kVerifyRegC) k23x kIndexNone (kContinue),
    IDescr (kVerifyRegAWide OR kVerifyRegBWide OR kVerifyRegCWide) k23x kIndexNone (kContinue),
    IDescr (kVerifyRegAWide OR kVerifyRegBWide OR kVerifyRegCWide) k23x kIndexNone (kContinue),
    IDescr (kVerifyRegAWide OR kVerifyRegBWide OR kVerifyRegCWide) k23x kIndexNone (kContinue),
    IDescr (kVerifyRegAWide OR kVerifyRegBWide OR kVerifyRegCWide) k23x kIndexNone (kContinue OR kThrow),
    IDescr (kVerifyRegAWide OR kVerifyRegBWide OR kVerifyRegCWide) k23x kIndexNone (kContinue OR kThrow)]"

definition descr_ax :: "instr_descr list" where
  "descr_ax = [
    IDescr (kVerifyRegAWide OR kVerifyRegBWide OR kVerifyRegCWide) k23x kIndexNone (kContinue),
    IDescr (kVerifyRegAWide OR kVerifyRegBWide OR kVerifyRegCWide) k23x kIndexNone (kContinue),
    IDescr (kVerifyRegAWide OR kVerifyRegBWide OR kVerifyRegCWide) k23x kIndexNone (kContinue),
    IDescr (kVerifyRegAWide OR kVerifyRegBWide OR kVerifyRegC) k23x kIndexNone (kContinue),
    IDescr (kVerifyRegAWide OR kVerifyRegBWide OR kVerifyRegC) k23x kIndexNone (kContinue),
    IDescr (kVerifyRegAWide OR kVerifyRegBWide OR kVerifyRegC) k23x kIndexNone (kContinue),
    IDescr (kVerifyRegA OR kVerifyRegB OR kVerifyRegC) k23x kIndexNone (kContinue),
    IDescr (kVerifyRegA OR kVerifyRegB OR kVerifyRegC) k23x kIndexNone (kContinue),
    IDescr (kVerifyRegA OR kVerifyRegB OR kVerifyRegC) k23x kIndexNone (kContinue),
    IDescr (kVerifyRegA OR kVerifyRegB OR kVerifyRegC) k23x kIndexNone (kContinue),
    IDescr (kVerifyRegA OR kVerifyRegB OR kVerifyRegC) k23x kIndexNone (kContinue),
    IDescr (kVerifyRegAWide OR kVerifyRegBWide OR kVerifyRegCWide) k23x kIndexNone (kContinue),
    IDescr (kVerifyRegAWide OR kVerifyRegBWide OR kVerifyRegCWide) k23x kIndexNone (kContinue),
    IDescr (kVerifyRegAWide OR kVerifyRegBWide OR kVerifyRegCWide) k23x kIndexNone (kContinue),
    IDescr (kVerifyRegAWide OR kVerifyRegBWide OR kVerifyRegCWide) k23x kIndexNone (kContinue),
    IDescr (kVerifyRegAWide OR kVerifyRegBWide OR kVerifyRegCWide) k23x kIndexNone (kContinue)]"

definition descr_bx :: "instr_descr list" where
  "descr_bx = [
    IDescr (kVerifyRegA OR kVerifyRegB) k12x kIndexNone (kContinue),
    IDescr (kVerifyRegA OR kVerifyRegB) k12x kIndexNone (kContinue),
    IDescr (kVerifyRegA OR kVerifyRegB) k12x kIndexNone (kContinue),
    IDescr (kVerifyRegA OR kVerifyRegB) k12x kIndexNone (kContinue OR kThrow),
    IDescr (kVerifyRegA OR kVerifyRegB) k12x kIndexNone (kContinue OR kThrow),
    IDescr (kVerifyRegA OR kVerifyRegB) k12x kIndexNone (kContinue),
    IDescr (kVerifyRegA OR kVerifyRegB) k12x kIndexNone (kContinue),
    IDescr (kVerifyRegA OR kVerifyRegB) k12x kIndexNone (kContinue),
    IDescr (kVerifyRegA OR kVerifyRegB) k12x kIndexNone (kContinue),
    IDescr (kVerifyRegA OR kVerifyRegB) k12x kIndexNone (kContinue),
    IDescr (kVerifyRegA OR kVerifyRegB) k12x kIndexNone (kContinue),
    IDescr (kVerifyRegAWide OR kVerifyRegBWide) k12x kIndexNone (kContinue),
    IDescr (kVerifyRegAWide OR kVerifyRegBWide) k12x kIndexNone (kContinue),
    IDescr (kVerifyRegAWide OR kVerifyRegBWide) k12x kIndexNone (kContinue),
    IDescr (kVerifyRegAWide OR kVerifyRegBWide) k12x kIndexNone (kContinue OR kThrow),
    IDescr (kVerifyRegAWide OR kVerifyRegBWide) k12x kIndexNone (kContinue OR kThrow)]"

definition descr_cx :: "instr_descr list" where
  "descr_cx = [
    IDescr (kVerifyRegAWide OR kVerifyRegBWide) k12x kIndexNone (kContinue),
    IDescr (kVerifyRegAWide OR kVerifyRegBWide) k12x kIndexNone (kContinue),
    IDescr (kVerifyRegAWide OR kVerifyRegBWide) k12x kIndexNone (kContinue),
    IDescr (kVerifyRegAWide OR kVerifyRegB) k12x kIndexNone (kContinue),
    IDescr (kVerifyRegAWide OR kVerifyRegB) k12x kIndexNone (kContinue),
    IDescr (kVerifyRegAWide OR kVerifyRegB) k12x kIndexNone (kContinue),
    IDescr (kVerifyRegA OR kVerifyRegB) k12x kIndexNone (kContinue),
    IDescr (kVerifyRegA OR kVerifyRegB) k12x kIndexNone (kContinue),
    IDescr (kVerifyRegA OR kVerifyRegB) k12x kIndexNone (kContinue),
    IDescr (kVerifyRegA OR kVerifyRegB) k12x kIndexNone (kContinue),
    IDescr (kVerifyRegA OR kVerifyRegB) k12x kIndexNone (kContinue),
    IDescr (kVerifyRegAWide OR kVerifyRegBWide) k12x kIndexNone (kContinue),
    IDescr (kVerifyRegAWide OR kVerifyRegBWide) k12x kIndexNone (kContinue),
    IDescr (kVerifyRegAWide OR kVerifyRegBWide) k12x kIndexNone (kContinue),
    IDescr (kVerifyRegAWide OR kVerifyRegBWide) k12x kIndexNone (kContinue),
    IDescr (kVerifyRegAWide OR kVerifyRegBWide) k12x kIndexNone (kContinue)]"

definition descr_dx :: "instr_descr list" where
  "descr_dx = [
    IDescr (kVerifyRegA OR kVerifyRegB) k22s kIndexNone (kContinue),
    IDescr (kVerifyRegA OR kVerifyRegB) k22s kIndexNone (kContinue),
    IDescr (kVerifyRegA OR kVerifyRegB) k22s kIndexNone (kContinue),
    IDescr (kVerifyRegA OR kVerifyRegB) k22s kIndexNone (kContinue OR kThrow),
    IDescr (kVerifyRegA OR kVerifyRegB) k22s kIndexNone (kContinue OR kThrow),
    IDescr (kVerifyRegA OR kVerifyRegB) k22s kIndexNone (kContinue),
    IDescr (kVerifyRegA OR kVerifyRegB) k22s kIndexNone (kContinue),
    IDescr (kVerifyRegA OR kVerifyRegB) k22s kIndexNone (kContinue),
    IDescr (kVerifyRegA OR kVerifyRegB) k22b kIndexNone (kContinue),
    IDescr (kVerifyRegA OR kVerifyRegB) k22b kIndexNone (kContinue),
    IDescr (kVerifyRegA OR kVerifyRegB) k22b kIndexNone (kContinue),
    IDescr (kVerifyRegA OR kVerifyRegB) k22b kIndexNone (kContinue OR kThrow),
    IDescr (kVerifyRegA OR kVerifyRegB) k22b kIndexNone (kContinue OR kThrow),
    IDescr (kVerifyRegA OR kVerifyRegB) k22b kIndexNone (kContinue),
    IDescr (kVerifyRegA OR kVerifyRegB) k22b kIndexNone (kContinue),
    IDescr (kVerifyRegA OR kVerifyRegB) k22b kIndexNone (kContinue)]"

definition descr_ex :: "instr_descr list" where
  "descr_ex = [
    IDescr (kVerifyRegA OR kVerifyRegB) k22b kIndexNone (kContinue),
    IDescr (kVerifyRegA OR kVerifyRegB) k22b kIndexNone (kContinue),
    IDescr (kVerifyRegA OR kVerifyRegB) k22b kIndexNone (kContinue),
    IDescr (kVerifyRegA OR kVerifyRegB OR kVerifyRuntimeOnly) k22c kIndexFieldOffset (kContinue OR kThrow),
    IDescr (kVerifyRegAWide OR kVerifyRegB OR kVerifyRuntimeOnly) k22c kIndexFieldOffset (kContinue OR kThrow),
    IDescr (kVerifyRegA OR kVerifyRegB OR kVerifyRuntimeOnly) k22c kIndexFieldOffset (kContinue OR kThrow),
    IDescr (kVerifyRegA OR kVerifyRegB OR kVerifyRuntimeOnly) k22c kIndexFieldOffset (kContinue OR kThrow),
    IDescr (kVerifyRegAWide OR kVerifyRegB OR kVerifyRuntimeOnly) k22c kIndexFieldOffset (kContinue OR kThrow),
    IDescr (kVerifyRegA OR kVerifyRegB OR kVerifyRuntimeOnly) k22c kIndexFieldOffset (kContinue OR kThrow),
    IDescr (kVerifyVarArgNonZero OR kVerifyRuntimeOnly) k35c kIndexVtableOffset (kContinue OR kThrow OR kInvoke),
    IDescr (kVerifyVarArgRangeNonZero OR kVerifyRuntimeOnly) k3rc kIndexVtableOffset (kContinue OR kThrow OR kInvoke),
    IDescr (kVerifyRegA OR kVerifyRegB OR kVerifyRuntimeOnly) k22c kIndexFieldOffset (kContinue OR kThrow),
    IDescr (kVerifyRegA OR kVerifyRegB OR kVerifyRuntimeOnly) k22c kIndexFieldOffset (kContinue OR kThrow),
    IDescr (kVerifyRegA OR kVerifyRegB OR kVerifyRuntimeOnly) k22c kIndexFieldOffset (kContinue OR kThrow),
    IDescr (kVerifyRegA OR kVerifyRegB OR kVerifyRuntimeOnly) k22c kIndexFieldOffset (kContinue OR kThrow),
    IDescr (kVerifyRegA OR kVerifyRegB OR kVerifyRuntimeOnly) k22c kIndexFieldOffset (kContinue OR kThrow)]"

definition descr_fx :: "instr_descr list" where
  "descr_fx = [
    IDescr (kVerifyRegA OR kVerifyRegB OR kVerifyRuntimeOnly) k22c kIndexFieldOffset (kContinue OR kThrow),
    IDescr (kVerifyRegA OR kVerifyRegB OR kVerifyRuntimeOnly) k22c kIndexFieldOffset (kContinue OR kThrow),
    IDescr (kVerifyRegA OR kVerifyRegB OR kVerifyRuntimeOnly) k22c kIndexFieldOffset (kContinue OR kThrow),
    IDescr (kVerifyError) k10x kIndexUnknown (0),
    IDescr (kVerifyError) k10x kIndexUnknown (0),
    IDescr (kVerifyError) k10x kIndexUnknown (0),
    IDescr (kVerifyError) k10x kIndexUnknown (0),
    IDescr (kVerifyError) k10x kIndexUnknown (0),
    IDescr (kVerifyError) k10x kIndexUnknown (0),
    IDescr (kVerifyError) k10x kIndexUnknown (0),
    IDescr (kVerifyRegBMethod OR kVerifyVarArgNonZero OR kVerifyRegHPrototype) k45cc kIndexMethodAndProtoRef (kContinue OR kThrow OR kInvoke),
    IDescr (kVerifyRegBMethod OR kVerifyVarArgRangeNonZero OR kVerifyRegHPrototype) k4rcc kIndexMethodAndProtoRef (kContinue OR kThrow OR kInvoke),
    IDescr (kVerifyRegBCallSite OR kVerifyVarArg) k35c kIndexCallSiteRef (kContinue OR kThrow),
    IDescr (kVerifyRegBCallSite OR kVerifyVarArgRange) k3rc kIndexCallSiteRef (kContinue OR kThrow),
    IDescr (kVerifyRegA OR kVerifyRegBMethodHandle) k21c kIndexMethodHandleRef (kContinue OR kThrow),
    IDescr (kVerifyRegA OR kVerifyRegBPrototype) k21c kIndexProtoRef (kContinue OR kThrow)]"

definition gInstructionDescriptors :: "instr_descr list" where
  "gInstructionDescriptors = descr_0x @ descr_1x @ descr_2x @ descr_3x @ descr_4x @ descr_5x @ descr_6x @ descr_7x @ descr_8x @ descr_9x @ descr_ax @ descr_bx @ descr_cx @ descr_dx @ descr_ex @ descr_fx"

lemmas descr_rows = descr_0x_def descr_1x_def descr_2x_def descr_3x_def descr_4x_def descr_5x_def
  descr_6x_def descr_7x_def descr_8x_def descr_9x_def descr_ax_def descr_bx_def descr_cx_def
  descr_dx_def descr_ex_def descr_fx_def

lemma length_descr_rows [simp]:
  "length descr_0x = 16" "length descr_1x = 16" "length descr_2x = 16" "length descr_3x = 16"
  "length descr_4x = 16" "length descr_5x = 16" "length descr_6x = 16" "length descr_7x = 16"
  "length descr_8x = 16" "length descr_9x = 16" "length descr_ax = 16" "length descr_bx = 16"
  "length descr_cx = 16" "length descr_dx = 16" "length descr_ex = 16" "length descr_fx = 16"
  by (simp_all add: descr_rows)

lemma length_gInstructionDescriptors: "length gInstructionDescriptors = 256"
  by (simp add: gInstructionDescriptors_def)

definition OpcodeFromBytecode :: "16 word \<Rightarrow> nat" where
  "OpcodeFromBytecode bytecode = unat (bytecode AND 0xff)"

lemma OpcodeFromBytecode_less: "OpcodeFromBytecode u < 256"
proof -
  have "u AND 0xff \<le> 0xff" by (rule word_and_le1)
  then show ?thesis by (simp add: OpcodeFromBytecode_def word_le_nat_alt)
qed

definition GetIndexTypeFromOpcode :: "nat \<Rightarrow> index_type" where
  "GetIndexTypeFromOpcode opcode = index_type (gInstructionDescriptors ! opcode)"

definition GetFormatFromOpcode :: "nat \<Rightarrow> instr_format" where
  "GetFormatFromOpcode opcode = format (gInstructionDescriptors ! opcode)"

definition GetFlagsFromOpcode :: "nat \<Rightarrow> opcode_flags" where
  "GetFlagsFromOpcode opcode = op_flags (gInstructionDescriptors ! opcode)"

definition GetVerifyFlagsFromOpcode :: "nat \<Rightarrow> verify_flags" where
  "GetVerifyFlagsFromOpcode opcode = verify_flags (gInstructionDescriptors ! opcode)"

section \<open>Widths\<close>

fun GetWidthFromFormat :: "instr_format \<Rightarrow> nat" where
  "GetWidthFromFormat f =
     (if f \<in> {k10x, k12x, k11n, k11x, k10t} then 1
      else if f \<in> {k20t, k20bc, k21c, k22x, k21s, k21t, k21h, k23x, k22b, k22s, k22t, k22c, k22cs}
      then 2
      else if f \<in> {k30t, k31t, k31c, k32x, k31i, k35c, k35ms, k35mi, k3rc, k3rms, k3rmi} then 3
      else if f \<in> {k45cc, k4rcc} then 4
      else 5)"

declare GetWidthFromFormat.simps [simp del]

definition kPackedSwitchSignature :: "16 word" where [vflag]: "kPackedSwitchSignature = 0x0100"
definition kSparseSwitchSignature :: "16 word" where [vflag]: "kSparseSwitchSignature = 0x0200"
definition kArrayDataSignature :: "16 word" where [vflag]: "kArrayDataSignature = 0x0300"

text \<open>Code unit \<open>k\<close> of the code at \<open>p\<close>, as the pointer expression \<open>bytecode[k]\<close> loads it.\<close>

definition rd_unit :: "image \<Rightarrow> nat \<Rightarrow> nat \<Rightarrow> (16 word) result" where
  "rd_unit im p k = bind (rd_u2 im (p + 2 * k)) (\<lambda>v. Inr (word_of_nat v))"

definition unit_at :: "image \<Rightarrow> nat \<Rightarrow> nat \<Rightarrow> 16 word" where
  "unit_at im p k = word_of_nat (u2_at im (p + 2 * k))"

lemma wp_rd_unit [wp_rules]:
  "wp (rd_unit im p k) Q = (p + 2 * k + 2 \<le> length im \<and> Q (unit_at im p k))"
  by (simp add: rd_unit_def wp_rules unit_at_def)

text \<open>
  \<open>elemWidth * len + 1\<close> is computed in 32 bits and wraps. The rest of the arithmetic cannot.
\<close>

definition GetWidthFromBytecode :: "image \<Rightarrow> nat \<Rightarrow> nat result" where
  "GetWidthFromBytecode im p =
     bind (rd_unit im p 0) (\<lambda>u0.
       if u0 = kPackedSwitchSignature then
         bind (rd_unit im p 1) (\<lambda>u1. Inr (4 + unat u1 * 2))
       else if u0 = kSparseSwitchSignature then
         bind (rd_unit im p 1) (\<lambda>u1. Inr (2 + unat u1 * 4))
       else if u0 = kArrayDataSignature then
         bind (rd_unit im p 1) (\<lambda>elemWidth.
         bind (rd_unit im p 2) (\<lambda>lo.
         bind (rd_unit im p 3) (\<lambda>hi.
           let len = unat lo + 65536 * unat hi
           in Inr (4 + u32 (unat elemWidth * len + 1) div 2))))
       else Inr (GetWidthFromFormat (GetFormatFromOpcode (OpcodeFromBytecode u0))))"

section \<open>Decoding\<close>

record instruction =
  vA :: "32 word"
  vB :: "32 word"
  vB_wide :: "64 word"
  vC :: "32 word"
  arg :: "32 word list"
  opcode :: nat

definition InstA :: "16 word \<Rightarrow> 32 word" where
  "InstA inst = ucast (drop_bit 8 inst) AND 0x0f"

definition InstB :: "16 word \<Rightarrow> 32 word" where
  "InstB inst = ucast (drop_bit 12 inst)"

definition InstAA :: "16 word \<Rightarrow> 32 word" where
  "InstAA inst = ucast (drop_bit 8 inst)"

definition FetchU4 :: "image \<Rightarrow> nat \<Rightarrow> nat \<Rightarrow> (32 word) result" where
  "FetchU4 im p k =
     bind (rd_unit im p k) (\<lambda>lo. bind (rd_unit im p (k + 1)) (\<lambda>hi.
       Inr (ucast lo OR push_bit 16 (ucast hi))))"

definition FetchU8 :: "image \<Rightarrow> nat \<Rightarrow> nat \<Rightarrow> (64 word) result" where
  "FetchU8 im p k =
     bind (FetchU4 im p k) (\<lambda>lo. bind (FetchU4 im p (k + 2)) (\<lambda>hi.
       Inr (ucast lo OR push_bit 32 (ucast hi))))"

text \<open>Sign extensions: \<open>s1(x)\<close>, \<open>s2(x)\<close> and \<open>s4(x << 28) >> 28\<close> of the source.\<close>

definition s1 :: "32 word \<Rightarrow> 32 word" where
  "s1 x = scast (ucast x :: 8 word)"

definition s2 :: "16 word \<Rightarrow> 32 word" where
  "s2 x = scast x"

definition sext4 :: "32 word \<Rightarrow> 32 word" where
  "sext4 x = signed_drop_bit 28 (push_bit 28 x)"

text \<open>
  The argument registers of a 35c instruction: the source fills \<open>arg[]\<close> from the highest
  index down, falling through the cases 5 to 1.
\<close>

definition nibble :: "16 word \<Rightarrow> nat \<Rightarrow> 32 word" where
  "nibble u k = ucast (drop_bit (4 * k) u) AND 0x0f"

definition decode_35c :: "instr_format \<Rightarrow> 16 word \<Rightarrow> 16 word \<Rightarrow> instruction \<Rightarrow> instruction result" where
  "decode_35c f inst regList dec =
     (let n = unat (vA dec) in
      if n > 5 then throw ''Invalid arg count in 35c/35ms/35mi''
      else if n = 5 \<and> f = k35mi then throw ''SLICER_CHECK_NE(format, k35mi)''
      else Inr (dec\<lparr>
        arg := [if n \<ge> 1 then nibble regList 0 else 0, if n \<ge> 2 then nibble regList 1 else 0,
                if n \<ge> 3 then nibble regList 2 else 0, if n \<ge> 4 then nibble regList 3 else 0,
                if n \<ge> 5 then InstA inst else 0],
        vC := (if n \<ge> 1 then nibble regList 0 else 0)\<rparr>))"

definition empty_instruction :: "nat \<Rightarrow> instruction" where
  "empty_instruction op =
     \<lparr>vA = 0, vB = 0, vB_wide = 0, vC = 0, arg = [0, 0, 0, 0, 0], opcode = op\<rparr>"

definition DecodeInstruction :: "image \<Rightarrow> nat \<Rightarrow> instruction result" where
  "DecodeInstruction im p =
     bind (rd_unit im p 0) (\<lambda>inst.
       let op = OpcodeFromBytecode inst;
           f = GetFormatFromOpcode op;
           dec = empty_instruction op
       in case f of
         k10x \<Rightarrow> Inr dec
       | k12x \<Rightarrow> Inr (dec\<lparr>vA := InstA inst, vB := InstB inst\<rparr>)
       | k11n \<Rightarrow> Inr (dec\<lparr>vA := InstA inst, vB := sext4 (InstB inst)\<rparr>)
       | k11x \<Rightarrow> Inr (dec\<lparr>vA := InstAA inst\<rparr>)
       | k10t \<Rightarrow> Inr (dec\<lparr>vA := s1 (InstAA inst)\<rparr>)
       | k20t \<Rightarrow> bind (rd_unit im p 1) (\<lambda>u1. Inr (dec\<lparr>vA := s2 u1\<rparr>))
       | k20bc \<Rightarrow> bind (rd_unit im p 1) (\<lambda>u1. Inr (dec\<lparr>vA := InstAA inst, vB := ucast u1\<rparr>))
       | k21c \<Rightarrow> bind (rd_unit im p 1) (\<lambda>u1. Inr (dec\<lparr>vA := InstAA inst, vB := ucast u1\<rparr>))
       | k22x \<Rightarrow> bind (rd_unit im p 1) (\<lambda>u1. Inr (dec\<lparr>vA := InstAA inst, vB := ucast u1\<rparr>))
       | k21s \<Rightarrow> bind (rd_unit im p 1) (\<lambda>u1. Inr (dec\<lparr>vA := InstAA inst, vB := s2 u1\<rparr>))
       | k21t \<Rightarrow> bind (rd_unit im p 1) (\<lambda>u1. Inr (dec\<lparr>vA := InstAA inst, vB := s2 u1\<rparr>))
       | k21h \<Rightarrow> bind (rd_unit im p 1) (\<lambda>u1. Inr (dec\<lparr>vA := InstAA inst, vB := ucast u1\<rparr>))
       | k23x \<Rightarrow> bind (rd_unit im p 1) (\<lambda>u1.
           Inr (dec\<lparr>vA := InstAA inst, vB := ucast (u1 AND 0xff), vC := ucast (drop_bit 8 u1)\<rparr>))
       | k22b \<Rightarrow> bind (rd_unit im p 1) (\<lambda>u1.
           Inr (dec\<lparr>vA := InstAA inst, vB := ucast (u1 AND 0xff), vC := s1 (ucast (drop_bit 8 u1))\<rparr>))
       | k22s \<Rightarrow> bind (rd_unit im p 1) (\<lambda>u1.
           Inr (dec\<lparr>vA := InstA inst, vB := InstB inst, vC := s2 u1\<rparr>))
       | k22t \<Rightarrow> bind (rd_unit im p 1) (\<lambda>u1.
           Inr (dec\<lparr>vA := InstA inst, vB := InstB inst, vC := s2 u1\<rparr>))
       | k22c \<Rightarrow> bind (rd_unit im p 1) (\<lambda>u1.
           Inr (dec\<lparr>vA := InstA inst, vB := InstB inst, vC := ucast u1\<rparr>))
       | k22cs \<Rightarrow> bind (rd_unit im p 1) (\<lambda>u1.
           Inr (dec\<lparr>vA := InstA inst, vB := InstB inst, vC := ucast u1\<rparr>))
       | k30t \<Rightarrow> bind (FetchU4 im p 1) (\<lambda>x. Inr (dec\<lparr>vA := x\<rparr>))
       | k31t \<Rightarrow> bind (FetchU4 im p 1) (\<lambda>x. Inr (dec\<lparr>vA := InstAA inst, vB := x\<rparr>))
       | k31c \<Rightarrow> bind (FetchU4 im p 1) (\<lambda>x. Inr (dec\<lparr>vA := InstAA inst, vB := x\<rparr>))
       | k32x \<Rightarrow> bind (rd_unit im p 1) (\<lambda>u1. bind (rd_unit im p 2) (\<lambda>u2.
           Inr (dec\<lparr>vA := ucast u1, vB := ucast u2\<rparr>)))
       | k31i \<Rightarrow> bind (FetchU4 im p 1) (\<lambda>x. Inr (dec\<lparr>vA := InstAA inst, vB := x\<rparr>))
       | k35c \<Rightarrow> bind (rd_unit im p 1) (\<lambda>u1. bind (rd_unit im p 2) (\<lambda>u2.
           decode_35c f inst u2 (dec\<lparr>vA := InstB inst, vB := ucast u1\<rparr>)))
       | k35ms \<Rightarrow> bind (rd_unit im p 1) (\<lambda>u1. bind (rd_unit im p 2) (\<lambda>u2.
           decode_35c f inst u2 (dec\<lparr>vA := InstB inst, vB := ucast u1\<rparr>)))
       | k35mi \<Rightarrow> bind (rd_unit im p 1) (\<lambda>u1. bind (rd_unit im p 2) (\<lambda>u2.
           decode_35c f inst u2 (dec\<lparr>vA := InstB inst, vB := ucast u1\<rparr>)))
       | k3rc \<Rightarrow> bind (rd_unit im p 1) (\<lambda>u1. bind (rd_unit im p 2) (\<lambda>u2.
           Inr (dec\<lparr>vA := InstAA inst, vB := ucast u1, vC := ucast u2\<rparr>)))
       | k3rms \<Rightarrow> bind (rd_unit im p 1) (\<lambda>u1. bind (rd_unit im p 2) (\<lambda>u2.
           Inr (dec\<lparr>vA := InstAA inst, vB := ucast u1, vC := ucast u2\<rparr>)))
       | k3rmi \<Rightarrow> bind (rd_unit im p 1) (\<lambda>u1. bind (rd_unit im p 2) (\<lambda>u2.
           Inr (dec\<lparr>vA := InstAA inst, vB := ucast u1, vC := ucast u2\<rparr>)))
       | k45cc \<Rightarrow> bind (rd_unit im p 1) (\<lambda>u1. bind (rd_unit im p 2) (\<lambda>regList.
           bind (rd_unit im p 3) (\<lambda>u3.
             Inr (dec\<lparr>vA := InstB inst, vB := ucast u1, vC := nibble regList 0,
               arg := [nibble regList 1, nibble regList 2, nibble regList 3, InstA inst,
                       ucast u3]\<rparr>))))
       | k4rcc \<Rightarrow> bind (rd_unit im p 1) (\<lambda>u1. bind (rd_unit im p 2) (\<lambda>u2.
           bind (rd_unit im p 3) (\<lambda>u3.
             Inr (dec\<lparr>vA := InstAA inst, vB := ucast u1, vC := ucast u2,
               arg := [0, 0, 0, 0, ucast u3]\<rparr>))))
       | k51l \<Rightarrow> bind (FetchU8 im p 1) (\<lambda>x. Inr (dec\<lparr>vA := InstAA inst, vB_wide := x\<rparr>)))"

lemma wp_FetchU4 [wp_rules]:
  "wp (FetchU4 im p k) Q = (p + 2 * k + 4 \<le> length im \<and>
     Q (ucast (unit_at im p k) OR push_bit 16 (ucast (unit_at im p (k + 1)))))"
  by (auto simp: FetchU4_def wp_rules)

lemma wp_FetchU8: "p + 2 * k + 8 \<le> length im \<Longrightarrow> wp (FetchU8 im p k) (\<lambda>_. True)"
  by (auto simp: FetchU8_def wp_rules)

lemma wp_decode_35c: "wp (decode_35c f inst regs dec) (\<lambda>d. length (arg d) = 5)"
  by (auto simp: decode_35c_def Let_def wp_rules)

text \<open>
  The decoder reads no code unit past the instruction's own width, so a caller that has bounded
  the width has bounded the decode.
\<close>

lemma wp_DecodeInstruction:
  assumes "p + 2 * GetWidthFromFormat (GetFormatFromOpcode (OpcodeFromBytecode (unit_at im p 0)))
    \<le> length im"
  shows "wp (DecodeInstruction im p) (\<lambda>d. length (arg d) = 5)"
  using assms
  by (cases "GetFormatFromOpcode (OpcodeFromBytecode (unit_at im p 0))")
    (auto simp: DecodeInstruction_def wp_rules Let_def empty_instruction_def
      GetWidthFromFormat.simps intro: wp_decode_35c wp_conseq [OF wp_FetchU8])

section \<open>Further results\<close>

text \<open>
  The decoder reads only the code units the width table gives the opcode: a caller that bounded
  the width has bounded the decode, for every opcode.
\<close>

theorem decode_within_width:
  assumes "p + 2 * GetWidthFromFormat (GetFormatFromOpcode (OpcodeFromBytecode (unit_at im p 0))) \<le> length im"
  shows "wp (DecodeInstruction im p) (\<lambda>d. length (arg d) = 5)"
  using assms by (rule wp_DecodeInstruction)

end
