(* ===== verification/Verifier_Insns.thy ===== *)
theory Verifier_Insns
  imports Verifier_Header Bytecode
begin

text \<open>
  \<open>DexVerifier::VerifyInsns\<close>, the strict pass's bound on the operands of every instruction. The
  sweep steps by the decoder's own widths; each instruction that is not a payload is decoded and
  its registers, its index operand and its branch target are bounded. What the verdict gives is
  stated over the instruction starts the sweep visits (\<open>insn_start\<close>).
\<close>

section \<open>One instruction\<close>

definition is_payload :: "16 word \<Rightarrow> bool" where
  "is_payload u \<longleftrightarrow> u = kPackedSwitchSignature \<or> u = kSparseSwitchSignature \<or> u = kArrayDataSignature"

definition header_units :: "16 word \<Rightarrow> nat" where
  "header_units first =
     (if first = kPackedSwitchSignature \<or> first = kSparseSwitchSignature then 2
      else if first = kArrayDataSignature then 4 else 1)"

definition has_flag :: "verify_flags \<Rightarrow> verify_flags \<Rightarrow> bool" where
  "has_flag vf fl \<longleftrightarrow> vf AND fl \<noteq> 0"

definition vararg_registers :: "instr_format \<Rightarrow> instruction \<Rightarrow> 32 word list" where
  "vararg_registers fmt d =
     take (unat (vA d)) (if fmt = k45cc then vC d # take 4 (arg d) else arg d)"

definition verify_registers ::
    "verify_flags \<Rightarrow> instr_format \<Rightarrow> instruction \<Rightarrow> nat \<Rightarrow> unit result" where
  "verify_registers vf fmt d nregs =
     (let check_reg = (\<lambda>v :: 32 word. unat v < nregs) in
      if has_flag vf kVerifyRegA \<and> \<not> check_reg (vA d) then fail ''code: vA register out of range''
      else if has_flag vf kVerifyRegAWide \<and> \<not> check_reg (vA d + 1)
      then fail ''code: vA wide register out of range''
      else if has_flag vf kVerifyRegB \<and> \<not> check_reg (vB d) then fail ''code: vB register out of range''
      else if has_flag vf kVerifyRegBWide \<and> \<not> check_reg (vB d + 1)
      then fail ''code: vB wide register out of range''
      else if has_flag vf kVerifyRegC \<and> \<not> check_reg (vC d) then fail ''code: vC register out of range''
      else if has_flag vf kVerifyRegCWide \<and> \<not> check_reg (vC d + 1)
      then fail ''code: vC wide register out of range''
      else if has_flag vf (kVerifyVarArg OR kVerifyVarArgNonZero)
         \<and> \<not> list_all check_reg (vararg_registers fmt d)
      then fail ''code: vararg register out of range''
      else if has_flag vf (kVerifyVarArgRange OR kVerifyVarArgRangeNonZero)
         \<and> vA d > 0 \<and> unat (vC d) + unat (vA d) - 1 \<ge> nregs
      then fail ''code: vararg-range register out of range''
      else Inr ())"

definition index_operand :: "instr_format \<Rightarrow> instruction \<Rightarrow> nat" where
  "index_operand fmt d = unat (if fmt = k22c \<or> fmt = k22cs then vC d else vB d)"

definition verify_indexes ::
    "dex_header \<Rightarrow> index_type \<Rightarrow> instr_format \<Rightarrow> instruction \<Rightarrow> unit result" where
  "verify_indexes h it fmt d =
     (let ridx = index_operand fmt d in
      if (fmt = k45cc \<or> fmt = k4rcc) \<and> unat (arg d ! 4) \<ge> proto_ids_size h
      then fail ''code: proto index out of range''
      else case it of
        kIndexStringRef \<Rightarrow>
          if ridx \<ge> string_ids_size h then fail ''code: string index out of range'' else Inr ()
      | kIndexTypeRef \<Rightarrow>
          if ridx \<ge> type_ids_size h then fail ''code: type index out of range'' else Inr ()
      | kIndexFieldRef \<Rightarrow>
          if ridx \<ge> field_ids_size h then fail ''code: field index out of range'' else Inr ()
      | kIndexMethodRef \<Rightarrow>
          if ridx \<ge> method_ids_size h then fail ''code: method index out of range'' else Inr ()
      | kIndexMethodAndProtoRef \<Rightarrow>
          if ridx \<ge> method_ids_size h then fail ''code: method index out of range'' else Inr ()
      | _ \<Rightarrow> Inr ())"

definition branch_offset :: "instr_format \<Rightarrow> instruction \<Rightarrow> int option" where
  "branch_offset fmt d =
     (case fmt of
        k10t \<Rightarrow> Some (sint (vA d)) | k20t \<Rightarrow> Some (sint (vA d)) | k30t \<Rightarrow> Some (sint (vA d))
      | k21t \<Rightarrow> Some (sint (vB d)) | k31t \<Rightarrow> Some (sint (vB d))
      | k22t \<Rightarrow> Some (sint (vC d))
      | _ \<Rightarrow> None)"

definition verify_target :: "instr_format \<Rightarrow> instruction \<Rightarrow> nat \<Rightarrow> nat \<Rightarrow> unit result" where
  "verify_target fmt d i n_units =
     (case branch_offset fmt d of
        None \<Rightarrow> Inr ()
      | Some off_units \<Rightarrow>
          let tgt = int i + off_units in
          if tgt < 0 \<or> tgt \<ge> int n_units then fail ''code: branch/switch target out of range''
          else Inr ())"

definition verify_insn ::
    "vctx \<Rightarrow> nat \<Rightarrow> nat \<Rightarrow> nat \<Rightarrow> nat \<Rightarrow> 16 word \<Rightarrow> unit result" where
  "verify_insn c insns n_units nregs i first =
     (let op = OpcodeFromBytecode first in
      bind (DecodeInstruction (v_img c) (insns + 2 * i)) (\<lambda>d.
        let vf = GetVerifyFlagsFromOpcode op; fmt = GetFormatFromOpcode op in
        bind (verify_registers vf fmt d nregs) (\<lambda>_.
        bind (verify_indexes (v_hdr c) (GetIndexTypeFromOpcode op) fmt d) (\<lambda>_.
          verify_target fmt d i n_units))))"

section \<open>The sweep\<close>

function verify_insns_from :: "vctx \<Rightarrow> nat \<Rightarrow> nat \<Rightarrow> nat \<Rightarrow> nat \<Rightarrow> unit result" where
  "verify_insns_from c insns n_units nregs i =
     (if i < n_units then
        bind (rd_unit (v_img c) (insns + 2 * i) 0) (\<lambda>first.
          if n_units - i < header_units first
          then fail ''code: truncated instruction/payload header''
          else bind (GetWidthFromBytecode (v_img c) (insns + 2 * i)) (\<lambda>w.
            if w = 0 \<or> n_units - i < w then fail ''code: instruction extends past insns''
            else bind (if is_payload first then Inr ()
                       else verify_insn c insns n_units nregs i first) (\<lambda>_.
              verify_insns_from c insns n_units nregs (i + w))))
      else Inr ())"
  by pat_completeness auto
termination
  by (relation "measure (\<lambda>(c, b, n, r, i). n - i)") auto

declare verify_insns_from.simps [simp del]

definition VerifyInsns :: "vctx \<Rightarrow> nat \<Rightarrow> nat \<Rightarrow> nat \<Rightarrow> unit result" where
  "VerifyInsns c insns n_units nregs =
     verify_insns_from c insns n_units nregs 0"

section \<open>What the decoder leaves in the operands\<close>

text \<open>Which operand may be wider than 16 bits in which format, and that no opcode declares such
  an operand a register.\<close>

definition wide_A :: "instr_format \<Rightarrow> bool" where
  "wide_A f \<longleftrightarrow> f \<in> {k10t, k20t, k30t}"

definition wide_B :: "instr_format \<Rightarrow> bool" where
  "wide_B f \<longleftrightarrow> f \<in> {k11n, k21s, k21t, k31t, k31c, k31i}"

definition wide_C :: "instr_format \<Rightarrow> bool" where
  "wide_C f \<longleftrightarrow> f \<in> {k22b, k22s, k22t}"

definition row_registers_narrow :: "instr_descr \<Rightarrow> bool" where
  "row_registers_narrow r \<longleftrightarrow> (let vf = verify_flags r; f = format r in
     (has_flag vf kVerifyRegAWide \<longrightarrow> \<not> wide_A f) \<and>
     (has_flag vf kVerifyRegBWide \<longrightarrow> \<not> wide_B f) \<and>
     (has_flag vf kVerifyRegCWide \<longrightarrow> \<not> wide_C f))"

lemma table_registers_narrow: "list_all row_registers_narrow gInstructionDescriptors"
  by code_simp

text \<open>The varargs flags occur on exactly the two formats the register loop distinguishes.\<close>

definition row_varargs_known :: "instr_descr \<Rightarrow> bool" where
  "row_varargs_known r \<longleftrightarrow>
     (has_flag (verify_flags r) (kVerifyVarArg OR kVerifyVarArgNonZero) \<longrightarrow>
        format r = k35c \<or> format r = k45cc) \<and>
     (has_flag (verify_flags r) (kVerifyVarArgRange OR kVerifyVarArgRangeNonZero) \<longrightarrow>
        format r = k3rc \<or> format r = k4rcc)"

lemma table_varargs_known: "list_all row_varargs_known gInstructionDescriptors"
  by code_simp

lemma unat_ucast_16_32 [simp]: "unat (ucast (u :: 16 word) :: 32 word) = unat u"
  using unsigned_less [where ?'a = nat, of u]
  by (simp add: unsigned_ucast_eq take_bit_nat_eq_self)

lemma unat_16_less [simp]: "unat (u :: 16 word) < 65536"
  using unsigned_less [where ?'a = nat, of u] by simp

lemma operand_less:
  "unat (ucast (u :: 16 word) :: 32 word) < 65536" "unat (InstA u) < 65536"
  "unat (InstB u) < 65536" "unat (InstAA u) < 65536" "unat (nibble u k) < 65536"
proof -
  show ucast: "unat (ucast (u :: 16 word) :: 32 word) < 65536" for u :: "16 word"
    using unsigned_less [where ?'a = nat, of u] by simp
  have and_le: "unat (x AND y) < 65536" if "unat y < 65536" for x y :: "32 word"
    using that word_and_le1 [of x y] by (simp add: word_le_nat_alt)
  show "unat (InstA u) < 65536" unfolding InstA_def by (rule and_le) simp
  show "unat (nibble u k) < 65536" unfolding nibble_def by (rule and_le) simp
  show "unat (InstB u) < 65536" unfolding InstB_def by (rule ucast)
  show "unat (InstAA u) < 65536" unfolding InstAA_def by (rule ucast)
qed

definition operands_narrow :: "instr_format \<Rightarrow> instruction \<Rightarrow> bool" where
  "operands_narrow f d \<longleftrightarrow> (\<not> wide_A f \<longrightarrow> unat (vA d) < 65536) \<and>
     (\<not> wide_B f \<longrightarrow> unat (vB d) < 65536) \<and> (\<not> wide_C f \<longrightarrow> unat (vC d) < 65536)"

lemma wp_decode_35c_narrow:
  "unat (vA d) < 65536 \<Longrightarrow> unat (vB d) < 65536 \<Longrightarrow> wp (decode_35c f inst regs d) (operands_narrow f)"
  by (auto simp: decode_35c_def Let_def wp_rules operands_narrow_def operand_less)

lemma wp_FetchU8_any: "p + 2 * k + 8 \<le> length im \<Longrightarrow> (\<And>x. Q x) \<Longrightarrow> wp (FetchU8 im p k) Q"
  by (auto simp: FetchU8_def wp_rules)

lemma wp_Decode_narrow:
  assumes "p + 2 * GetWidthFromFormat (GetFormatFromOpcode (OpcodeFromBytecode (unit_at im p 0)))
    \<le> length im"
  shows "wp (DecodeInstruction im p)
    (operands_narrow (GetFormatFromOpcode (OpcodeFromBytecode (unit_at im p 0))))"
  using assms
  by (cases "GetFormatFromOpcode (OpcodeFromBytecode (unit_at im p 0))")
    (auto simp: DecodeInstruction_def wp_rules Let_def empty_instruction_def operand_less
      GetWidthFromFormat.simps operands_narrow_def wide_A_def wide_B_def wide_C_def
      intro!: wp_decode_35c_narrow [unfolded operands_narrow_def wide_A_def wide_B_def wide_C_def,
        THEN wp_conseq] wp_FetchU8_any)

section \<open>What the verdict gives\<close>

text \<open>The registers an instruction reads or writes, as its table row declares them.\<close>

definition touched_registers :: "verify_flags \<Rightarrow> instr_format \<Rightarrow> instruction \<Rightarrow> nat list" where
  "touched_registers vf fmt d =
     (if has_flag vf kVerifyRegA then [unat (vA d)] else []) @
     (if has_flag vf kVerifyRegAWide then [unat (vA d), unat (vA d) + 1] else []) @
     (if has_flag vf kVerifyRegB then [unat (vB d)] else []) @
     (if has_flag vf kVerifyRegBWide then [unat (vB d), unat (vB d) + 1] else []) @
     (if has_flag vf kVerifyRegC then [unat (vC d)] else []) @
     (if has_flag vf kVerifyRegCWide then [unat (vC d), unat (vC d) + 1] else []) @
     (if has_flag vf (kVerifyVarArg OR kVerifyVarArgNonZero)
      then map unat (vararg_registers fmt d) else []) @
     (if has_flag vf (kVerifyVarArgRange OR kVerifyVarArgRangeNonZero)
      then [unat (vC d) ..< unat (vC d) + unat (vA d)] else [])"

definition index_ok :: "dex_header \<Rightarrow> index_type \<Rightarrow> instr_format \<Rightarrow> instruction \<Rightarrow> bool" where
  "index_ok h it fmt d \<longleftrightarrow>
     (fmt \<in> {k45cc, k4rcc} \<longrightarrow> unat (arg d ! 4) < proto_ids_size h) \<and>
     (it = kIndexStringRef \<longrightarrow> index_operand fmt d < string_ids_size h) \<and>
     (it = kIndexTypeRef \<longrightarrow> index_operand fmt d < type_ids_size h) \<and>
     (it = kIndexFieldRef \<longrightarrow> index_operand fmt d < field_ids_size h) \<and>
     (it \<in> {kIndexMethodRef, kIndexMethodAndProtoRef} \<longrightarrow> index_operand fmt d < method_ids_size h)"

definition target_ok :: "instr_format \<Rightarrow> instruction \<Rightarrow> nat \<Rightarrow> nat \<Rightarrow> bool" where
  "target_ok fmt d i n \<longleftrightarrow>
     (\<forall>k. branch_offset fmt d = Some k \<longrightarrow> 0 \<le> int i + k \<and> int i + k < int n)"

definition insn_ok :: "dex_header \<Rightarrow> nat \<Rightarrow> nat \<Rightarrow> nat \<Rightarrow> nat \<Rightarrow> instruction \<Rightarrow> bool" where
  "insn_ok h nregs n i op d \<longleftrightarrow>
     (let vf = GetVerifyFlagsFromOpcode op; fmt = GetFormatFromOpcode op in
      (\<forall>r \<in> set (touched_registers vf fmt d). r < nregs) \<and>
      index_ok h (GetIndexTypeFromOpcode op) fmt d \<and> target_ok fmt d i n)"

lemma unat_plus_1:
  "unat (x :: 32 word) < 65536 \<Longrightarrow> unat (x + 1) = unat x + 1"
  by (subst unat_plus_simple [THEN iffD1]) (simp_all add: word_le_nat_alt unat_word_ariths)

lemma verify_registers_checks:
  assumes "verify_registers vf fmt d nregs = Inr u"
  shows "has_flag vf kVerifyRegA \<Longrightarrow> unat (vA d) < nregs"
    "has_flag vf kVerifyRegAWide \<Longrightarrow> unat (vA d + 1) < nregs"
    "has_flag vf kVerifyRegB \<Longrightarrow> unat (vB d) < nregs"
    "has_flag vf kVerifyRegBWide \<Longrightarrow> unat (vB d + 1) < nregs"
    "has_flag vf kVerifyRegC \<Longrightarrow> unat (vC d) < nregs"
    "has_flag vf kVerifyRegCWide \<Longrightarrow> unat (vC d + 1) < nregs"
    "has_flag vf (kVerifyVarArg OR kVerifyVarArgNonZero) \<Longrightarrow>
      list_all (\<lambda>v. unat v < nregs) (vararg_registers fmt d)"
    "has_flag vf (kVerifyVarArgRange OR kVerifyVarArgRangeNonZero) \<Longrightarrow> vA d > 0 \<Longrightarrow>
      unat (vC d) + unat (vA d) - 1 < nregs"
  using assms unfolding verify_registers_def Let_def
  by (simp_all only: not_le split: if_split_asm) (simp_all add: not_le)

lemma verify_registers_touched:
  assumes v: "verify_registers vf fmt d nregs = Inr u" and n: "operands_narrow fmt d"
    and t: "row_registers_narrow (IDescr vf fmt it fl)"
  shows "\<forall>r \<in> set (touched_registers vf fmt d). r < nregs"
proof -
  note checks = verify_registers_checks [OF v]
  have wide: "has_flag vf kVerifyRegAWide \<Longrightarrow> unat (vA d + 1) = unat (vA d) + 1"
    "has_flag vf kVerifyRegBWide \<Longrightarrow> unat (vB d + 1) = unat (vB d) + 1"
    "has_flag vf kVerifyRegCWide \<Longrightarrow> unat (vC d + 1) = unat (vC d) + 1"
    using n t by (simp_all add: operands_narrow_def row_registers_narrow_def unat_plus_1)
  have "r < nregs" if "has_flag vf (kVerifyVarArgRange OR kVerifyVarArgRangeNonZero)"
    "unat (vC d) \<le> r" "r < unat (vC d) + unat (vA d)" for r
  proof -
    have "vA d > 0" using that(2,3) by (simp add: word_less_nat_alt)
    from checks(8) [OF that(1) this] that(2,3) show ?thesis by simp
  qed
  then have range: "\<forall>r \<in> set (if has_flag vf (kVerifyVarArgRange OR kVerifyVarArgRangeNonZero)
      then [unat (vC d) ..< unat (vC d) + unat (vA d)] else []). r < nregs" by simp
  have "r < nregs" if "has_flag vf (kVerifyVarArg OR kVerifyVarArgNonZero)"
    "r \<in> set (map unat (vararg_registers fmt d))" for r
    using checks(7) [OF that(1)] that(2) by (auto simp: list_all_iff)
  then have "\<forall>r \<in> set (if has_flag vf (kVerifyVarArg OR kVerifyVarArgNonZero)
      then map unat (vararg_registers fmt d) else []). r < nregs" by simp
  then show ?thesis
    unfolding touched_registers_def set_append ball_Un
    using checks(1-6) wide range by (intro conjI; simp; auto)
qed

lemma verify_indexes_ok: "verify_indexes h it fmt d = Inr u \<Longrightarrow> index_ok h it fmt d"
  by (auto simp: verify_indexes_def index_ok_def Let_def split: if_splits index_type.splits)

lemma verify_target_ok: "verify_target fmt d i n = Inr u \<Longrightarrow> target_ok fmt d i n"
  by (auto simp: verify_target_def target_ok_def Let_def split: option.splits if_splits)

lemma wp_verify_registers: "wp (verify_registers vf fmt d nregs) (\<lambda>_. True)"
  by (simp add: verify_registers_def Let_def wp_rules)

lemma wp_verify_indexes: "wp (verify_indexes h it fmt d) (\<lambda>_. index_ok h it fmt d)"
  by (cases it) (auto simp: verify_indexes_def index_ok_def Let_def wp_rules)

lemma wp_verify_target: "wp (verify_target fmt d i n) (\<lambda>_. target_ok fmt d i n)"
  by (auto simp: verify_target_def target_ok_def Let_def wp_rules split: option.splits)

definition decoded_ok :: "vctx \<Rightarrow> nat \<Rightarrow> nat \<Rightarrow> nat \<Rightarrow> nat \<Rightarrow> 16 word \<Rightarrow> bool" where
  "decoded_ok c insns n_units nregs i first \<longleftrightarrow>
     (\<exists>d. DecodeInstruction (v_img c) (insns + 2 * i) = Inr d \<and>
        insn_ok (v_hdr c) nregs n_units i (OpcodeFromBytecode first) d)"

lemma wp_verify_insn:
  assumes first: "first = unit_at (v_img c) (insns + 2 * i) 0"
    and fits: "insns + 2 * i + 2 * GetWidthFromFormat (GetFormatFromOpcode (OpcodeFromBytecode first))
      \<le> length (v_img c)"
  shows "wp (verify_insn c insns n_units nregs i first)
    (\<lambda>_. decoded_ok c insns n_units nregs i first)"
proof -
  let ?op = "OpcodeFromBytecode first"
  let ?vf = "GetVerifyFlagsFromOpcode ?op" and ?fmt = "GetFormatFromOpcode ?op"
  let ?it = "GetIndexTypeFromOpcode ?op"
  let ?row = "gInstructionDescriptors ! ?op"
  have "row_registers_narrow ?row"
    using table_registers_narrow OpcodeFromBytecode_less [of first]
    by (simp add: list_all_length length_gInstructionDescriptors)
  then have row: "row_registers_narrow (IDescr ?vf ?fmt ?it (op_flags ?row))"
    by (simp add: GetVerifyFlagsFromOpcode_def GetFormatFromOpcode_def GetIndexTypeFromOpcode_def)
  have "wp (DecodeInstruction (v_img c) (insns + 2 * i)) (operands_narrow ?fmt)"
    using wp_Decode_narrow [of "insns + 2 * i" "v_img c"] fits unfolding first .
  then have "wp (DecodeInstruction (v_img c) (insns + 2 * i)) (\<lambda>d.
      wp (verify_registers ?vf ?fmt d nregs) (\<lambda>_. wp (verify_indexes (v_hdr c) ?it ?fmt d) (\<lambda>_.
        wp (verify_target ?fmt d i n_units) (\<lambda>_. decoded_ok c insns n_units nregs i first))))"
  proof (rule wp_conseq_eq)
    fix d assume d: "DecodeInstruction (v_img c) (insns + 2 * i) = Inr d" "operands_narrow ?fmt d"
    show "wp (verify_registers ?vf ?fmt d nregs) (\<lambda>_. wp (verify_indexes (v_hdr c) ?it ?fmt d) (\<lambda>_.
        wp (verify_target ?fmt d i n_units) (\<lambda>_. decoded_ok c insns n_units nregs i first)))"
    proof (rule wp_conseq_eq [OF wp_verify_registers], rule wp_conseq [OF wp_verify_indexes],
        rule wp_conseq [OF wp_verify_target])
      fix u assume "verify_registers ?vf ?fmt d nregs = Inr u"
      note verify_registers_touched [OF this d(2) row]
      moreover assume "index_ok (v_hdr c) ?it ?fmt d" and "target_ok ?fmt d i n_units"
      ultimately show "decoded_ok c insns n_units nregs i first"
        using d(1) by (auto simp: decoded_ok_def insn_ok_def Let_def)
    qed
  qed
  then show ?thesis by (simp add: verify_insn_def Let_def wp_bind)
qed

text \<open>
  The instruction starts of a code array: unit 0, and every unit one decoder width after a
  start. A start is \<open>sound\<close> when the instruction at it lies inside the array and, unless it is a
  payload, decodes with every operand in bounds.
\<close>

inductive insn_start :: "image \<Rightarrow> nat \<Rightarrow> nat \<Rightarrow> nat \<Rightarrow> nat \<Rightarrow> bool" for im insns n_units i0 where
  first: "i0 < n_units \<Longrightarrow> insn_start im insns n_units i0 i0"
| succ: "insn_start im insns n_units i0 i \<Longrightarrow> GetWidthFromBytecode im (insns + 2 * i) = Inr w \<Longrightarrow>
    i + w < n_units \<Longrightarrow> insn_start im insns n_units i0 (i + w)"

inductive_cases insn_startE: "insn_start im insns n_units i0 i"

definition start_sound :: "vctx \<Rightarrow> nat \<Rightarrow> nat \<Rightarrow> nat \<Rightarrow> nat \<Rightarrow> bool" where
  "start_sound c insns n_units nregs i \<longleftrightarrow>
     (\<exists>w. GetWidthFromBytecode (v_img c) (insns + 2 * i) = Inr w \<and> 0 < w \<and> i + w \<le> n_units) \<and>
     (let first = unit_at (v_img c) (insns + 2 * i) 0 in
      is_payload first \<or> decoded_ok c insns n_units nregs i first)"

lemma insn_start_split:
  assumes "insn_start im insns n_units i0 j" and "GetWidthFromBytecode im (insns + 2 * i0) = Inr w"
  shows "j = i0 \<or> insn_start im insns n_units (i0 + w) j"
  using assms(1)
proof induction
  case (succ i w')
  then show ?case
  proof (elim disjE)
    assume "i = i0"
    with succ assms(2) show ?thesis by (auto intro: insn_start.first)
  next
    assume "insn_start im insns n_units (i0 + w) i"
    with succ show ?thesis by (auto intro: insn_start.succ)
  qed
qed simp

lemma header_units_width:
  assumes "p + 2 * header_units (unit_at im p 0) \<le> length im"
  shows "wp (GetWidthFromBytecode im p) (\<lambda>w. \<not> is_payload (unit_at im p 0) \<longrightarrow>
    w = GetWidthFromFormat (GetFormatFromOpcode (OpcodeFromBytecode (unit_at im p 0))))"
  using assms
  by (auto simp: GetWidthFromBytecode_def wp_rules header_units_def is_payload_def Let_def
      split: if_splits)

lemma wp_verify_insns_from:
  assumes "insns + 2 * n_units \<le> length (v_img c)"
  shows "wp (verify_insns_from c insns n_units nregs i)
    (\<lambda>_. \<forall>j. insn_start (v_img c) insns n_units i j \<longrightarrow> start_sound c insns n_units nregs j)"
  using assms
proof (induction c insns n_units nregs i rule: verify_insns_from.induct)
  case (1 c insns n_units nregs i)
  let ?first = "unit_at (v_img c) (insns + 2 * i) 0"
  let ?Q = "\<lambda>_. \<forall>j. insn_start (v_img c) insns n_units i j \<longrightarrow> start_sound c insns n_units nregs j"
  show ?case
  proof (cases "i < n_units")
    case False
    have "\<not> insn_start (v_img c) insns n_units i j" for j
    proof
      assume "insn_start (v_img c) insns n_units i j"
      then show False using False by induction auto
    qed
    then show ?thesis using False by (subst verify_insns_from.simps) (simp add: wp_Inr)
  next
    case i: True
    have rd: "rd_unit (v_img c) (insns + 2 * i) 0 = Inr ?first"
      using i "1.prems" by (simp add: rd_unit_def rd_u2_def unit_at_def)
    show ?thesis
    proof (cases "n_units - i < header_units ?first")
      case True
      then show ?thesis using i rd by (subst verify_insns_from.simps) (simp add: wp_fail)
    next
      case hdr: False
      have "insns + 2 * i + 2 * header_units ?first \<le> length (v_img c)"
        using hdr i "1.prems" by simp
      note width = header_units_width [OF this]
      have "wp (GetWidthFromBytecode (v_img c) (insns + 2 * i)) (\<lambda>w.
        wp (if w = 0 \<or> n_units - i < w then fail ''code: instruction extends past insns''
            else bind (if is_payload ?first then Inr ()
                       else verify_insn c insns n_units nregs i ?first) (\<lambda>_.
              verify_insns_from c insns n_units nregs (i + w))) ?Q)"
        using width
      proof (rule wp_conseq_eq)
        fix w assume w: "GetWidthFromBytecode (v_img c) (insns + 2 * i) = Inr w"
          "\<not> is_payload ?first \<longrightarrow> w = GetWidthFromFormat (GetFormatFromOpcode (OpcodeFromBytecode ?first))"
        show "wp (if w = 0 \<or> n_units - i < w then fail ''code: instruction extends past insns''
            else bind (if is_payload ?first then Inr ()
                       else verify_insn c insns n_units nregs i ?first) (\<lambda>_.
              verify_insns_from c insns n_units nregs (i + w))) ?Q"
        proof (cases "w = 0 \<or> n_units - i < w")
          case True
          then show ?thesis by (auto simp: wp_fail)
        next
          case False
          have rest: "wp (verify_insns_from c insns n_units nregs (i + w)) ?Q"
            if "is_payload ?first \<or> decoded_ok c insns n_units nregs i ?first"
              "(if is_payload ?first then Inr () else verify_insn c insns n_units nregs i ?first) = Inr u0" for u0
          proof (rule wp_conseq)
            show "wp (verify_insns_from c insns n_units nregs (i + w)) (\<lambda>_. \<forall>j.
              insn_start (v_img c) insns n_units (i + w) j \<longrightarrow> start_sound c insns n_units nregs j)"
              using "1.IH" [OF i rd hdr w(1) False that(2) "1.prems"] .
            fix u assume tl: "\<forall>j. insn_start (v_img c) insns n_units (i + w) j \<longrightarrow>
              start_sound c insns n_units nregs j"
            have "start_sound c insns n_units nregs i"
              using w(1) False that(1) i by (auto simp: start_sound_def Let_def)
            with tl insn_start_split [OF _ w(1)] show "?Q u" by blast
          qed
          have "wp (verify_insn c insns n_units nregs i ?first)
              (\<lambda>_. wp (verify_insns_from c insns n_units nregs (i + w)) ?Q)"
            if "\<not> is_payload ?first"
          proof -
            have "insns + 2 * i + 2 * GetWidthFromFormat (GetFormatFromOpcode (OpcodeFromBytecode ?first))
                \<le> length (v_img c)"
              using w(2) that False i "1.prems" by (elim impE) auto
            from wp_verify_insn [OF refl this] show ?thesis
              by (rule wp_conseq_eq) (rule rest, use that in simp_all)
          qed
          then show ?thesis using False rest [of "()"] by (auto simp: wp_bind wp_Inr)
        qed
      qed
      then show ?thesis using i rd hdr by (subst verify_insns_from.simps) (simp add: wp_bind)
    qed
  qed
qed

section \<open>Properties\<close>


end
