(* ===== verification/Record_Reader.thy ===== *)
theory Record_Reader
  imports Verifier_Base
begin

text \<open>
  The contract between a variable-length record parser and the counted loop that drives it. The
  parser moves a cursor forward inside the data range on every record it accepts; then the loop
  is safe, it ends, and a declared count larger than the bytes left is refused.
\<close>

locale record_reader =
  fixes limit :: nat
    and pos :: "'s \<Rightarrow> nat"
    and good :: "nat \<Rightarrow> 's \<Rightarrow> bool"
    and step :: "nat \<Rightarrow> 's \<Rightarrow> 's result"
  assumes step_ok: "good i s \<Longrightarrow> pos s \<le> limit \<Longrightarrow>
    wp (step i s) (\<lambda>s'. good (Suc i) s' \<and> pos s < pos s' \<and> pos s' \<le> limit)"
begin

lemma read_records:
  assumes "good i s" and "pos s \<le> limit" and "i \<le> n"
  shows "wp (for_range i n step s) (\<lambda>s'. good n s' \<and> pos s + (n - i) \<le> pos s' \<and> pos s' \<le> limit)"
proof -
  let ?Inv = "\<lambda>j s'. good j s' \<and> pos s + (j - i) \<le> pos s' \<and> pos s' \<le> limit"
  show ?thesis
  proof (rule wp_for_range [where Inv = ?Inv])
    show "?Inv i s" using assms by simp
    fix j t assume j: "i \<le> j" "j < n" and t: "?Inv j t"
    from t have "wp (step j t) (\<lambda>s'. good (Suc j) s' \<and> pos t < pos s' \<and> pos s' \<le> limit)"
      by (intro step_ok) auto
    then show "wp (step j t) (?Inv (Suc j))"
      by (rule wp_conseq) (use j t in auto)
  qed (rule assms(3))
qed

lemma count_bounded:
  assumes "good 0 s" and "pos s \<le> limit" and "for_range 0 n step s = Inr s'"
  shows "n \<le> limit - pos s"
  using wp_InrD [OF read_records [OF assms(1,2), of n] assms(3)] by auto

lemma loopI:
  assumes "good 0 s" and "pos s \<le> limit"
    and "\<And>s'. good n s' \<Longrightarrow> pos s \<le> pos s' \<Longrightarrow> pos s' \<le> limit \<Longrightarrow> Q s'"
  shows "wp (for_range 0 n step s) Q"
  by (rule wp_conseq [OF read_records [OF assms(1,2)]]) (use assms(3) in auto)

end

end
