(* ===== verification/Verifier_Code.thy ===== *)
theory Verifier_Code
  imports Verifier_Insns Record_Reader
begin

text \<open>
  \<open>DexVerifier::VerifyCodeItem\<close>: the fixed part of a code item, its instructions (in the
  strict pass), its try blocks and its encoded catch handler list.
\<close>

section \<open>Catch handlers\<close>

text \<open>One \<open>(type_idx, addr)\<close> pair; the state is the cursor.\<close>

definition handler_pair :: "vctx \<Rightarrow> nat \<Rightarrow> nat \<Rightarrow> nat \<Rightarrow> nat result" where
  "handler_pair c n_units i p =
     bind (uleb c p ''code: bad handler type_idx'') (\<lambda>(type_idx, p1).
       if type_idx \<ge> type_ids_size (v_hdr c) then fail ''code: handler type_idx out of range''
       else bind (uleb c p1 ''code: bad handler addr'') (\<lambda>(addr, p2).
         if addr \<ge> n_units then fail ''code: handler addr out of range'' else Inr p2))"

definition catch_all_addr :: "vctx \<Rightarrow> nat \<Rightarrow> nat \<Rightarrow> nat result" where
  "catch_all_addr c n_units p =
     bind (uleb c p ''code: bad catch_all addr'') (\<lambda>(addr, p1).
       if addr \<ge> n_units then fail ''code: catch_all addr out of range'' else Inr p1)"

text \<open>One encoded handler; the state is the cursor and the offsets recorded so far.\<close>

definition encoded_handler ::
    "vctx \<Rightarrow> nat \<Rightarrow> nat \<Rightarrow> nat \<Rightarrow> nat \<times> nat list \<Rightarrow> (nat \<times> nat list) result" where
  "encoded_handler c base n_units i s =
     (case s of (p, offsets) \<Rightarrow>
      let offset = u32 (p - base) in
      bind (sleb c p ''code: bad handler size'') (\<lambda>(size, p1).
        if size < -65536 \<or> size > 65536 then fail ''code: handler size out of range''
        else bind (for_range 0 (nat \<bar>size\<bar>) (handler_pair c n_units) p1) (\<lambda>p2.
          if size \<le> 0
          then bind (catch_all_addr c n_units p2) (\<lambda>p3. Inr (p3, offsets @ [offset]))
          else Inr (p2, offsets @ [offset]))))"

definition handler_list :: "vctx \<Rightarrow> nat \<Rightarrow> nat \<Rightarrow> (nat list) result" where
  "handler_list c base n_units =
     bind (uleb c base ''code: bad handlers_size'') (\<lambda>(handlers_size, p).
       if handlers_size = 0 \<or> handlers_size \<ge> 65536
       then fail ''code: handlers_size out of range''
       else bind (for_range 0 handlers_size (encoded_handler c base n_units) (p, []))
         (\<lambda>(p, offsets). Inr offsets))"

section \<open>Try blocks\<close>

definition check_try ::
    "vctx \<Rightarrow> nat \<Rightarrow> nat \<Rightarrow> nat list \<Rightarrow> nat \<Rightarrow> nat \<Rightarrow> nat result" where
  "check_try c try_items n_units offsets t last_addr =
     bind (rd_try_block (v_img c) (try_items + t * sizeof_TryBlock)) (\<lambda>ti.
       if start_addr ti < last_addr then fail ''code: out-of-order try_item''
       else if start_addr ti \<ge> n_units then fail ''code: try_item start out of range''
       else if handler_off ti \<notin> set offsets then fail ''code: bogus handler offset''
       else let last' = u32 (start_addr ti + insn_count ti) in
         if last' > n_units then fail ''code: try_item insn_count out of range''
         else Inr last')"

definition check_tries :: "vctx \<Rightarrow> nat \<Rightarrow> nat \<Rightarrow> nat \<Rightarrow> unit result" where
  "check_tries c insns_end n_units n_tries =
     bind (if n_units mod 2 = 1
           then bind (check_list_size c insns_end 1 2 ''try padding'') (\<lambda>_.
             bind (rd_u2 (v_img c) insns_end) (\<lambda>pad.
               if pad \<noteq> 0 then fail ''code: non-zero try padding'' else Inr (insns_end + 2)))
           else Inr insns_end) (\<lambda>try_items.
     bind (check_list_size c try_items n_tries sizeof_TryBlock ''try_items'') (\<lambda>_.
     bind (handler_list c (try_items + n_tries * sizeof_TryBlock) n_units) (\<lambda>offsets.
     bind (for_range 0 n_tries (check_try c try_items n_units offsets) 0) (\<lambda>_. Inr ()))))"

section \<open>The code item\<close>

definition VerifyCodeItem :: "vctx \<Rightarrow> nat \<Rightarrow> unit result" where
  "VerifyCodeItem c off =
     (let base = offset_to_ptr c off in
      bind (check_list_size c base 1 sizeof_Code ''code'') (\<lambda>_.
      bind (rd_code (v_img c) base) (\<lambda>code.
        if ins_size code > registers_size code then fail ''code: ins_size > registers_size''
        else if outs_size code > 5 \<and> outs_size code > registers_size code
        then fail ''code: outs_size > registers_size''
        else let insns = base + sizeof_Code in
          bind (check_list_size c insns (insns_size code) 2 ''insns'') (\<lambda>_.
          bind (if v_insns c then VerifyInsns c insns (insns_size code) (registers_size code)
                else Inr ()) (\<lambda>_.
            if tries_size code = 0 then Inr ()
            else check_tries c (insns + insns_size code * 2) (insns_size code) (tries_size code))))))"

section \<open>Handlers stay inside the data range\<close>

interpretation handler_pairs: record_reader "end_of_file c" "\<lambda>p. p" "\<lambda>_ _. vctx_ok c"
    "handler_pair c n" for c n
  by unfold_locales (auto simp: handler_pair_def wp_rules uleb_post_def intro!: wp_intros)

definition handler_state_good :: "vctx \<Rightarrow> nat \<Rightarrow> nat \<Rightarrow> nat \<times> nat list \<Rightarrow> bool" where
  "handler_state_good c base i s \<longleftrightarrow> vctx_ok c \<and> length (snd s) = i"

lemma wp_catch_all_addr [wp_intros]:
  "vctx_ok c \<Longrightarrow> (\<And>q'. q < q' \<Longrightarrow> q' \<le> end_of_file c \<Longrightarrow> Q q') \<Longrightarrow> wp (catch_all_addr c n q) Q"
  by (auto simp: catch_all_addr_def wp_rules uleb_post_def intro!: wp_intros)

lemma wp_encoded_handler:
  assumes "vctx_ok c" and "p \<le> end_of_file c"
  shows "wp (encoded_handler c base n i (p, offs))
    (\<lambda>(p', offs'). offs' = offs @ [u32 (p - base)] \<and> p < p' \<and> p' \<le> end_of_file c)"
  using assms
  by (auto simp: encoded_handler_def wp_rules Let_def intro!: wp_intros handler_pairs.loopI)

interpretation encoded_handlers: record_reader "end_of_file c" fst "handler_state_good c base"
    "encoded_handler c base n" for c base n
proof (unfold_locales, goal_cases)
  case (1 i s)
  then show ?case
    by (cases s) (auto simp: handler_state_good_def intro: wp_conseq [OF wp_encoded_handler])
qed

lemma wp_handler_list:
  assumes "vctx_ok c"
  shows "wp (handler_list c base n) (\<lambda>offs. offs \<noteq> [] \<and> length offs < 65536)"
  using assms
  by (auto simp: handler_list_def wp_rules uleb_post_def handler_state_good_def
      intro!: wp_intros encoded_handlers.loopI)

section \<open>What an accepted code item gives\<close>

definition try_at :: "vctx \<Rightarrow> nat \<Rightarrow> nat \<Rightarrow> try_block" where
  "try_at c try_items t = \<lparr>start_addr = u4_at (v_img c) (try_items + t * 8),
     insn_count = u2_at (v_img c) (try_items + t * 8 + 4),
     handler_off = u2_at (v_img c) (try_items + t * 8 + 6)\<rparr>"

definition try_end :: "try_block \<Rightarrow> nat" where
  "try_end ti = start_addr ti + insn_count ti"

text \<open>Try blocks cover disjoint, ascending ranges of the instructions and name real handlers.\<close>

definition tries_ok :: "vctx \<Rightarrow> nat \<Rightarrow> nat \<Rightarrow> nat \<Rightarrow> nat list \<Rightarrow> bool" where
  "tries_ok c try_items n_units k offsets \<longleftrightarrow>
     (\<forall>t < k. start_addr (try_at c try_items t) < n_units \<and> try_end (try_at c try_items t) \<le> n_units \<and>
        handler_off (try_at c try_items t) \<in> set offsets) \<and>
     (\<forall>t. Suc t < k \<longrightarrow>
        try_end (try_at c try_items t) \<le> start_addr (try_at c try_items (Suc t)))"

lemma wp_check_tries_loop:
  assumes "try_items + k * 8 \<le> length (v_img c)" and "n_units < 4294901760"
  shows "wp (for_range 0 k (check_try c try_items n_units offs) 0)
    (\<lambda>_. tries_ok c try_items n_units k offs)"
proof -
  let ?Inv = "\<lambda>j last. tries_ok c try_items n_units j offs \<and>
    (j \<noteq> 0 \<longrightarrow> last = try_end (try_at c try_items (j - 1)))"
  have "wp (for_range 0 k (check_try c try_items n_units offs) 0) (?Inv k)"
  proof (rule wp_for_range [where Inv = ?Inv])
    fix j last assume j: "j < k" and inv: "?Inv j last"
    have "Suc j * 8 \<le> k * 8" using j by (intro mult_le_mono1) simp
    then have rd: "rd_try_block (v_img c) (try_items + j * 8) = Inr (try_at c try_items j)"
      using assms(1) by (simp add: rd_try_block_def try_at_def layout)
    let ?t = "try_at c try_items j"
    have "insn_count ?t < 65536" by (simp add: try_at_def u2_at_less)
    then have "u32 (start_addr ?t + insn_count ?t) = try_end ?t" if "start_addr ?t < n_units"
      using that assms(2) by (simp add: try_end_def)
    then show "wp (check_try c try_items n_units offs j last) (?Inv (Suc j))"
      using inv by (auto simp: check_try_def rd layout wp_rules Let_def tries_ok_def less_Suc_eq)
  qed (auto simp: tries_ok_def)
  then show ?thesis by (rule wp_conseq) simp
qed

text \<open>
  The facts \<open>VerifyCodeItem\<close> establishes of the code item at \<open>off\<close>. \<open>insns_at\<close> is the position
  of its first instruction.
\<close>

definition code_at :: "vctx \<Rightarrow> nat \<Rightarrow> code_hdr" where
  "code_at c off = (let p = v_begin c + off in
     \<lparr>registers_size = u2_at (v_img c) p, ins_size = u2_at (v_img c) (p + 2),
      outs_size = u2_at (v_img c) (p + 4), tries_size = u2_at (v_img c) (p + 6),
      debug_info_off = u4_at (v_img c) (p + 8), insns_size = u4_at (v_img c) (p + 12)\<rparr>)"

definition insns_at :: "vctx \<Rightarrow> nat \<Rightarrow> nat" where
  "insns_at c off = v_begin c + off + 16"

definition code_tries_ok :: "vctx \<Rightarrow> nat \<Rightarrow> nat \<Rightarrow> nat \<Rightarrow> bool" where
  "code_tries_ok c insns_end n_units n_tries \<longleftrightarrow>
     (\<exists>offsets. let try_items = insns_end + (n_units mod 2) * 2 in
        try_items + n_tries * 8 \<le> end_of_file c \<and> tries_ok c try_items n_units n_tries offsets \<and>
        handler_list c (try_items + n_tries * 8) n_units = Inr offsets)"

definition code_item_ok :: "vctx \<Rightarrow> nat \<Rightarrow> bool" where
  "code_item_ok c off \<longleftrightarrow> (let code = code_at c off; n = insns_size code; b = insns_at c off in
     b + n * 2 \<le> end_of_file c \<and>
     ins_size code \<le> registers_size code \<and>
     (outs_size code \<le> 5 \<or> outs_size code \<le> registers_size code) \<and>
     (v_insns c \<longrightarrow> (\<forall>j. insn_start (v_img c) b n 0 j \<longrightarrow> start_sound c b n (registers_size code) j)) \<and>
     (tries_size code \<noteq> 0 \<longrightarrow> code_tries_ok c (b + n * 2) n (tries_size code)))"

lemma wp_check_tries:
  assumes ok: "vctx_ok c" and n: "n_units < 4294901760" and ie: "insns_end \<le> end_of_file c" "v_begin c \<le> insns_end"
  shows "wp (check_tries c insns_end n_units n_tries)
    (\<lambda>_. code_tries_ok c insns_end n_units n_tries)"
proof -
  have tail: "wp (check_list_size c try_items n_tries sizeof_TryBlock ''try_items'') (\<lambda>_.
      wp (handler_list c (try_items + n_tries * sizeof_TryBlock) n_units) (\<lambda>offsets.
        wp (for_range 0 n_tries (check_try c try_items n_units offsets) 0)
          (\<lambda>_. code_tries_ok c insns_end n_units n_tries)))"
    if ti: "try_items = insns_end + (n_units mod 2) * 2" for try_items
  proof (rule wp_check_list_sizeI)
    assume fits: "try_items + n_tries * sizeof_TryBlock \<le> end_of_file c"
    show "wp (handler_list c (try_items + n_tries * sizeof_TryBlock) n_units) (\<lambda>offsets.
        wp (for_range 0 n_tries (check_try c try_items n_units offsets) 0)
          (\<lambda>_. code_tries_ok c insns_end n_units n_tries))"
    proof (rule wp_conseq_eq [OF wp_handler_list [OF ok]])
      fix offs assume h: "handler_list c (try_items + n_tries * sizeof_TryBlock) n_units = Inr offs"
      have "wp (for_range 0 n_tries (check_try c try_items n_units offs) 0)
        (\<lambda>_. tries_ok c try_items n_units n_tries offs)"
        using fits vctx_okD [OF ok] n by (intro wp_check_tries_loop) (simp_all add: layout)
      then show "wp (for_range 0 n_tries (check_try c try_items n_units offs) 0)
          (\<lambda>_. code_tries_ok c insns_end n_units n_tries)"
        by (rule wp_conseq) (use h fits ti in \<open>auto simp: code_tries_ok_def Let_def layout\<close>)
    qed
  qed (simp add: layout)
  show ?thesis
  proof (cases "n_units mod 2 = 1")
    case True
    have "wp (check_list_size c insns_end 1 2 ''try padding'') (\<lambda>_. wp (rd_u2 (v_img c) insns_end)
      (\<lambda>pad. pad = 0 \<longrightarrow> wp (check_list_size c (insns_end + 2) n_tries sizeof_TryBlock ''try_items'')
        (\<lambda>_. wp (handler_list c (insns_end + 2 + n_tries * sizeof_TryBlock) n_units) (\<lambda>offsets.
          wp (for_range 0 n_tries (check_try c (insns_end + 2) n_units offsets) 0)
            (\<lambda>_. code_tries_ok c insns_end n_units n_tries)))))"
      by (rule wp_check_list_sizeI) (use tail [of "insns_end + 2"] True vctx_okD [OF ok] in
        \<open>simp_all add: wp_rd_u2\<close>)
    then show ?thesis
      using True by (simp add: check_tries_def wp_bind wp_if wp_fail wp_Inr)
  next
    case False
    then have "n_units mod 2 = 0" by simp
    with False tail [of insns_end] show ?thesis by (simp add: check_tries_def wp_bind wp_Inr)
  qed
qed

lemma wp_VerifyCodeItem:
  assumes ok: "vctx_ok c"
  shows "wp (VerifyCodeItem c off) (\<lambda>_. code_item_ok c off)"
proof -
  let ?code = "code_at c off" and ?b = "insns_at c off"
  have main: "wp (check_list_size c ?b (insns_size ?code) 2 ''insns'') (\<lambda>_.
      wp (if v_insns c then VerifyInsns c ?b (insns_size ?code) (registers_size ?code) else Inr ())
        (\<lambda>_. wp (if tries_size ?code = 0 then Inr ()
            else check_tries c (?b + insns_size ?code * 2) (insns_size ?code) (tries_size ?code))
          (\<lambda>_. code_item_ok c off)))"
    if hdr: "ins_size ?code \<le> registers_size ?code"
      "outs_size ?code \<le> 5 \<or> outs_size ?code \<le> registers_size ?code"
  proof (rule wp_check_list_sizeI)
    assume fits: "?b + insns_size ?code * 2 \<le> end_of_file c"
    have small: "insns_size ?code < 4294901760"
      using fits ok by (auto simp: vctx_ok_def end_of_file_def insns_at_def)
    have "wp (if v_insns c then VerifyInsns c ?b (insns_size ?code) (registers_size ?code) else Inr ())
      (\<lambda>_. v_insns c \<longrightarrow> (\<forall>j. insn_start (v_img c) ?b (insns_size ?code) 0 j \<longrightarrow>
        start_sound c ?b (insns_size ?code) (registers_size ?code) j))"
      using wp_verify_insns_from [of ?b "insns_size ?code" c "registers_size ?code" 0]
        fits vctx_okD [OF ok] by (simp add: VerifyInsns_def wp_Inr mult.commute)
    then show "wp (if v_insns c then VerifyInsns c ?b (insns_size ?code) (registers_size ?code)
        else Inr ()) (\<lambda>_. wp (if tries_size ?code = 0 then Inr ()
            else check_tries c (?b + insns_size ?code * 2) (insns_size ?code) (tries_size ?code))
          (\<lambda>_. code_item_ok c off))"
    proof (rule wp_conseq)
      fix u assume insns: "v_insns c \<longrightarrow> (\<forall>j. insn_start (v_img c) ?b (insns_size ?code) 0 j \<longrightarrow>
        start_sound c ?b (insns_size ?code) (registers_size ?code) j)"
      have "wp (if tries_size ?code = 0 then Inr ()
            else check_tries c (?b + insns_size ?code * 2) (insns_size ?code) (tries_size ?code))
          (\<lambda>_. tries_size ?code \<noteq> 0 \<longrightarrow>
            code_tries_ok c (?b + insns_size ?code * 2) (insns_size ?code) (tries_size ?code))"
        using wp_check_tries [OF ok small fits] by (auto simp: wp_Inr insns_at_def elim: wp_conseq)
      then show "wp (if tries_size ?code = 0 then Inr ()
            else check_tries c (?b + insns_size ?code * 2) (insns_size ?code) (tries_size ?code))
          (\<lambda>_. code_item_ok c off)"
        by (rule wp_conseq) (use hdr insns fits in \<open>simp add: code_item_ok_def Let_def\<close>)
    qed
  qed simp
  show ?thesis
    unfolding VerifyCodeItem_def Let_def wp_bind
  proof (rule wp_check_list_sizeI, goal_cases)
    case 2
    then have "rd_code (v_img c) (offset_to_ptr c off) = Inr ?code"
      using vctx_okD [OF ok] by (simp add: rd_code_def code_at_def offset_to_ptr_def layout Let_def)
    then show ?case
      using main
      by (auto simp: wp_Inr wp_if wp_fail wp_bind insns_at_def offset_to_ptr_def layout
          not_less simp del: One_nat_def)
  qed (simp add: layout)
qed

section \<open>Properties\<close>

text \<open>
  C15. \<open>VerifyCodeItem\<close> never reads outside the image, and an accepted code item has consistent
  register counts, instructions inside the data range (sound in the strict pass), and try blocks
  that are ascending, disjoint, inside the code, and name handlers of its handler list.
\<close>

theorem code_item_sound:
  assumes "vctx_ok c"
  shows "wp (VerifyCodeItem c off) (\<lambda>_. code_item_ok c off)"
  using assms by (rule wp_VerifyCodeItem)

end
