(* ===== verification/Mutf8_Spec.thy ===== *)
theory Mutf8_Spec
  imports Prelude
begin

text \<open>
  Modified UTF-8 as a set of byte strings and its meaning as UTF-16 code units, independent of
  any program: what \<open>VerifyMutf8\<close> is meant to accept (\<open>mutf8_ok\<close>) and what the decoders are
  meant to compute (\<open>mutf8_units\<close>). The second half reads a NUL-terminated string out of an
  image.
\<close>

section \<open>Sequences\<close>

definition is_cont :: "8 word \<Rightarrow> bool" where
  "is_cont b \<longleftrightarrow> b AND 0xC0 = 0x80"

definition unit2 :: "8 word \<Rightarrow> 8 word \<Rightarrow> 16 word" where
  "unit2 b b2 = push_bit 6 (ucast (b AND 0x1F)) OR ucast (b2 AND 0x3F)"

definition unit3 :: "8 word \<Rightarrow> 8 word \<Rightarrow> 8 word \<Rightarrow> 16 word" where
  "unit3 b b2 b3 =
     push_bit 12 (ucast (b AND 0x0F)) OR push_bit 6 (ucast (b2 AND 0x3F)) OR ucast (b3 AND 0x3F)"

text \<open>
  A string without NUL bytes: one-, two- and three-byte sequences, each the shortest form of
  its code unit, except that U+0000 is spelt \<open>C0 80\<close>.
\<close>

fun mutf8_ok :: "8 word list \<Rightarrow> bool" where
  "mutf8_ok [] \<longleftrightarrow> True"
| "mutf8_ok (b # bs) \<longleftrightarrow>
     (if b = 0 then False
      else if b < 0x80 then mutf8_ok bs
      else if b < 0xC0 then False
      else if b < 0xE0 then
        (case bs of
           b2 # r \<Rightarrow> is_cont b2 \<and> (unit2 b b2 = 0 \<or> 0x80 \<le> unit2 b b2) \<and> mutf8_ok r
         | _ \<Rightarrow> False)
      else if b < 0xF0 then
        (case bs of
           b2 # b3 # r \<Rightarrow> is_cont b2 \<and> is_cont b3 \<and> 0x800 \<le> unit3 b b2 b3 \<and> mutf8_ok r
         | _ \<Rightarrow> False)
      else False)"

fun mutf8_units :: "8 word list \<Rightarrow> 16 word list" where
  "mutf8_units [] = []"
| "mutf8_units (b # bs) =
     (if b < 0x80 then ucast b # mutf8_units bs
      else if b < 0xE0 then
        (case bs of b2 # r \<Rightarrow> unit2 b b2 # mutf8_units r | _ \<Rightarrow> [])
      else
        (case bs of b2 # b3 # r \<Rightarrow> unit3 b b2 b3 # mutf8_units r | _ \<Rightarrow> []))"

lemma mutf8_cases [consumes 1, case_names Nil one two three]:
  assumes "mutf8_ok s"
  obtains "s = []"
  | b r where "s = b # r" "b \<noteq> 0" "b < 0x80" "mutf8_ok r"
      "mutf8_units s = ucast b # mutf8_units r"
  | b b2 r where "s = b # b2 # r" "0xC0 \<le> b" "b < 0xE0" "is_cont b2"
      "unit2 b b2 = 0 \<or> 0x80 \<le> unit2 b b2" "mutf8_ok r"
      "mutf8_units s = unit2 b b2 # mutf8_units r"
  | b b2 b3 r where "s = b # b2 # b3 # r" "0xE0 \<le> b" "b < 0xF0" "is_cont b2" "is_cont b3"
      "0x800 \<le> unit3 b b2 b3" "mutf8_ok r" "mutf8_units s = unit3 b b2 b3 # mutf8_units r"
proof (cases s)
  case Nil
  then show ?thesis using that(1) by simp
next
  case (Cons b bs)
  consider "b < 0x80" | "0xC0 \<le> b \<and> b < 0xE0" | "0xE0 \<le> b \<and> b < 0xF0"
    using assms Cons by (fastforce split: if_splits simp: not_less)
  then show ?thesis
  proof cases
    case 1
    with assms Cons that(2) show ?thesis by (auto split: if_splits)
  next
    case 2
    then have "\<not> b < 0x80" by (auto simp: word_less_nat_alt word_le_nat_alt)
    with 2 assms Cons that(3) show ?thesis by (auto split: if_splits list.splits)
  next
    case 3
    then have "\<not> b < 0x80" "\<not> b < 0xC0" "\<not> b < 0xE0"
      by (auto simp: word_less_nat_alt word_le_nat_alt)
    with 3 assms Cons that(4) show ?thesis by (auto split: if_splits list.splits)
  qed
qed

lemma mutf8_induct [consumes 1, case_names Nil one two three]:
  assumes "mutf8_ok s"
    and "P []"
    and "\<And>b r. b \<noteq> 0 \<Longrightarrow> b < 0x80 \<Longrightarrow> mutf8_ok r \<Longrightarrow>
      mutf8_units (b # r) = ucast b # mutf8_units r \<Longrightarrow> P r \<Longrightarrow> P (b # r)"
    and "\<And>b b2 r. 0xC0 \<le> b \<Longrightarrow> b < 0xE0 \<Longrightarrow> is_cont b2 \<Longrightarrow>
      unit2 b b2 = 0 \<or> 0x80 \<le> unit2 b b2 \<Longrightarrow> mutf8_ok r \<Longrightarrow>
      mutf8_units (b # b2 # r) = unit2 b b2 # mutf8_units r \<Longrightarrow> P r \<Longrightarrow> P (b # b2 # r)"
    and "\<And>b b2 b3 r. 0xE0 \<le> b \<Longrightarrow> b < 0xF0 \<Longrightarrow> is_cont b2 \<Longrightarrow> is_cont b3 \<Longrightarrow>
      0x800 \<le> unit3 b b2 b3 \<Longrightarrow> mutf8_ok r \<Longrightarrow>
      mutf8_units (b # b2 # b3 # r) = unit3 b b2 b3 # mutf8_units r \<Longrightarrow> P r \<Longrightarrow>
      P (b # b2 # b3 # r)"
  shows "P s"
  using assms(1)
proof (induction "length s" arbitrary: s rule: less_induct)
  case less
  from less.prems show ?case
    by (cases rule: mutf8_cases)
      (use less.hyps assms(2-) in \<open>simp_all del: mutf8_units.simps(2)\<close>)
qed

lemma mutf8_ok_no_NUL: "mutf8_ok s \<Longrightarrow> 0 \<notin> set s"
  by (induction s rule: mutf8_induct) (auto simp: is_cont_def)

lemma length_mutf8_units: "mutf8_ok s \<Longrightarrow> length (mutf8_units s) \<le> length s"
  by (induction s rule: mutf8_induct) (simp_all del: mutf8_units.simps(2))

section \<open>Strings in an image\<close>

definition cstr :: "image \<Rightarrow> nat \<Rightarrow> 8 word list" where
  "cstr im p = takeWhile (\<lambda>b. b \<noteq> 0) (drop p im)"

definition zterm :: "image \<Rightarrow> nat \<Rightarrow> bool" where
  "zterm im p \<longleftrightarrow> 0 \<in> set (drop p im)"

definition str_ok :: "image \<Rightarrow> nat \<Rightarrow> bool" where
  "str_ok im p \<longleftrightarrow> zterm im p \<and> mutf8_ok (cstr im p)"

lemma zterm_less: "zterm im p \<Longrightarrow> p < length im"
  by (cases "p < length im") (auto simp: zterm_def)

lemma cstr_Cons: "p < length im \<Longrightarrow>
    cstr im p = (if im ! p = 0 then [] else im ! p # cstr im (Suc p))"
  by (simp add: cstr_def Cons_nth_drop_Suc [symmetric])

lemma zterm_Suc: "p < length im \<Longrightarrow> zterm im p \<longleftrightarrow> im ! p = 0 \<or> zterm im (Suc p)"
  by (auto simp: zterm_def Cons_nth_drop_Suc [symmetric])

lemma str_ok_less: "str_ok im p \<Longrightarrow> p < length im"
  by (simp add: str_ok_def zterm_less)

lemma cstr_Nil_iff: "zterm im p \<Longrightarrow> cstr im p = [] \<longleftrightarrow> im ! p = 0"
  using zterm_less [of im p] by (simp add: cstr_Cons)

text \<open>How a well-formed string starts, at the level of the image.\<close>

lemma cstr_ConsD:
  assumes "zterm im p" and "cstr im p = b # r"
  shows "im ! p = b" "b \<noteq> 0" "cstr im (Suc p) = r" "zterm im (Suc p)"
  using assms zterm_less [OF assms(1)] by (auto simp: cstr_Cons zterm_Suc split: if_splits)

lemma str_ok_cases [consumes 1, case_names nul one two three]:
  assumes "str_ok im p"
  obtains "im ! p = 0" "p < length im" "mutf8_units (cstr im p) = []"
  | "im ! p \<noteq> 0" "im ! p < 0x80" "str_ok im (Suc p)" "p < length im"
      "mutf8_units (cstr im p) = ucast (im ! p) # mutf8_units (cstr im (Suc p))"
  | "0xC0 \<le> im ! p" "im ! p < 0xE0" "is_cont (im ! Suc p)" "str_ok im (Suc (Suc p))"
      "Suc p < length im"
      "mutf8_units (cstr im p) = unit2 (im ! p) (im ! Suc p) # mutf8_units (cstr im (Suc (Suc p)))"
  | "0xE0 \<le> im ! p" "im ! p < 0xF0" "is_cont (im ! Suc p)" "is_cont (im ! Suc (Suc p))"
      "str_ok im (Suc (Suc (Suc p)))" "Suc (Suc p) < length im"
      "0x800 \<le> unit3 (im ! p) (im ! Suc p) (im ! Suc (Suc p))"
      "mutf8_units (cstr im p) = unit3 (im ! p) (im ! Suc p) (im ! Suc (Suc p))
         # mutf8_units (cstr im (Suc (Suc (Suc p))))"
proof -
  from assms have z: "zterm im p" and ok: "mutf8_ok (cstr im p)"
    by (auto simp: str_ok_def)
  from ok show ?thesis
  proof (cases rule: mutf8_cases)
    case Nil
    with z that(1) show ?thesis by (simp add: cstr_Nil_iff zterm_less)
  next
    case (one b r)
    with cstr_ConsD [OF z one(1)] that(2) z show ?thesis by (simp add: str_ok_def zterm_less)
  next
    case (two b b2 r)
    note 1 = cstr_ConsD [OF z two(1)]
    note 2 = cstr_ConsD [OF 1(4) 1(3)]
    from two 1 2 that(3) show ?thesis by (simp add: str_ok_def zterm_less)
  next
    case (three b b2 b3 r)
    note 1 = cstr_ConsD [OF z three(1)]
    note 2 = cstr_ConsD [OF 1(4) 1(3)]
    note 3 = cstr_ConsD [OF 2(4) 2(3)]
    from three 1 2 3 that(4) show ?thesis by (simp add: str_ok_def zterm_less)
  qed
qed

end
