(* ===== verification/Verifier_Items.thy ===== *)
theory Verifier_Items
  imports Verifier_Header Mutf8_Spec
begin

text \<open>
  The intra-section validators of strings and type lists (\<open>VerifyMutf8\<close>, \<open>VerifyStringData\<close>,
  \<open>VerifyTypeList\<close>) and the unchecked accessors that later phases use on what they validated
  (\<open>StringContent\<close>, \<open>ProtoParams\<close>). The string verifier accepts exactly the canonical
  modified UTF-8 strings of the declared length.
\<close>

section \<open>VerifyMutf8\<close>

function mutf8_loop :: "vctx \<Rightarrow> nat \<Rightarrow> nat \<Rightarrow> nat result" where
  "mutf8_loop c p units =
     (if p \<ge> end_of_file c then fail ''string_data not NUL-terminated within image''
      else bind (rd_u1 (v_img c) p) (\<lambda>b.
        if b = 0 then Inr units
        else if b < 0x80 then mutf8_loop c (Suc p) (u32 (units + 1))
        else if b < 0xC0 then fail ''string_data invalid MUTF-8 lead byte''
        else if b < 0xE0 then
          (if Suc p \<ge> end_of_file c then fail ''string_data bad MUTF-8 2-byte seq''
           else bind (rd_u1 (v_img c) (Suc p)) (\<lambda>b2.
             if b2 AND 0xC0 \<noteq> 0x80 then fail ''string_data bad MUTF-8 2-byte seq''
             else let v2 = unit2 b b2 in
               if v2 \<noteq> 0 \<and> v2 < 0x80 then fail ''string_data illegal MUTF-8 representation''
               else mutf8_loop c (Suc (Suc p)) (u32 (units + 1))))
        else if b < 0xF0 then
          (if Suc p \<ge> end_of_file c then fail ''string_data bad MUTF-8 3-byte seq''
           else bind (rd_u1 (v_img c) (Suc p)) (\<lambda>b2.
             if b2 AND 0xC0 \<noteq> 0x80 then fail ''string_data bad MUTF-8 3-byte seq''
             else if Suc (Suc p) \<ge> end_of_file c then fail ''string_data bad MUTF-8 3-byte seq''
             else bind (rd_u1 (v_img c) (Suc (Suc p))) (\<lambda>b3.
               if b3 AND 0xC0 \<noteq> 0x80 then fail ''string_data bad MUTF-8 3-byte seq''
               else let v3 = unit3 b b2 b3 in
                 if v3 < 0x800 then fail ''string_data illegal MUTF-8 representation''
                 else mutf8_loop c (Suc (Suc (Suc p))) (u32 (units + 1)))))
        else fail ''string_data invalid MUTF-8 lead byte''))"
  by pat_completeness auto
termination
  by (relation "measure (\<lambda>(c, p, units). end_of_file c - p)") auto

declare mutf8_loop.simps [simp del]

definition VerifyMutf8 :: "vctx \<Rightarrow> nat \<Rightarrow> nat \<Rightarrow> unit result" where
  "VerifyMutf8 c p utf16_len =
     bind (mutf8_loop c p 0) (\<lambda>units.
       if units \<noteq> utf16_len then fail ''string_data length mismatch'' else Inr ())"

text \<open>The bytes the data range lets a string occupy.\<close>

definition range_img :: "vctx \<Rightarrow> image" where
  "range_img c = take (end_of_file c) (v_img c)"

lemma length_range_img: "vctx_ok c \<Longrightarrow> length (range_img c) = end_of_file c"
  by (simp add: range_img_def vctx_okD)

lemma range_img_nth: "p < end_of_file c \<Longrightarrow> range_img c ! p = v_img c ! p"
  by (simp add: range_img_def)


lemma str_ok_heads:
  assumes "p < length im"
  shows "im ! p = 0 \<Longrightarrow> str_ok im p"
    and "im ! p \<noteq> 0 \<Longrightarrow> im ! p < 0x80 \<Longrightarrow> str_ok im p \<longleftrightarrow> str_ok im (Suc p)"
    and "0x80 \<le> im ! p \<Longrightarrow> im ! p < 0xC0 \<or> 0xF0 \<le> im ! p \<Longrightarrow> \<not> str_ok im p"
proof -
  note c = cstr_Cons [OF assms] and z = zterm_Suc [OF assms]
  show "im ! p = 0 \<Longrightarrow> str_ok im p" by (simp add: str_ok_def c z)
  show "im ! p \<noteq> 0 \<Longrightarrow> im ! p < 0x80 \<Longrightarrow> str_ok im p \<longleftrightarrow> str_ok im (Suc p)"
    by (simp add: str_ok_def c z)
  show "0x80 \<le> im ! p \<Longrightarrow> im ! p < 0xC0 \<or> 0xF0 \<le> im ! p \<Longrightarrow> \<not> str_ok im p"
    by (rule notI, erule str_ok_cases) (auto simp: word_less_nat_alt word_le_nat_alt)
qed

lemma str_ok_Suc:
  assumes "p < length im" and "im ! p \<noteq> 0"
  shows "cstr im p = im ! p # cstr im (Suc p)" "zterm im p \<longleftrightarrow> zterm im (Suc p)"
  using assms by (simp_all add: cstr_Cons [OF assms(1)] zterm_Suc [OF assms(1)])

lemma str_ok_two:
  assumes "0xC0 \<le> im ! p" "im ! p < 0xE0" "p < length im"
  shows "str_ok im p \<longleftrightarrow> Suc p < length im \<and> is_cont (im ! Suc p) \<and>
    (unit2 (im ! p) (im ! Suc p) = 0 \<or> 0x80 \<le> unit2 (im ! p) (im ! Suc p)) \<and> str_ok im (Suc (Suc p))"
proof -
  have b: "im ! p \<noteq> 0" "\<not> im ! p < 0x80" "\<not> im ! p < 0xC0" using assms
    by (auto simp: word_less_nat_alt word_le_nat_alt)
  note 1 = str_ok_Suc [OF assms(3) b(1)]
  show ?thesis
  proof (cases "Suc p < length im \<and> im ! Suc p \<noteq> 0")
    case True
    then show ?thesis
      using b assms str_ok_Suc [of "Suc p" im] by (auto simp: str_ok_def 1)
  next
    case False
    have "\<not> is_cont 0" by (simp add: is_cont_def)
    moreover have "\<not> str_ok im p"
    proof (cases "Suc p < length im")
      case len: True
      then have "cstr im (Suc p) = []" using False by (simp add: cstr_Cons [OF len])
      then show ?thesis using b assms by (simp add: str_ok_def 1)
    next
      case len: False
      then have "\<not> zterm im (Suc p)" using zterm_less by blast
      then show ?thesis by (simp add: str_ok_def 1)
    qed
    ultimately show ?thesis using False by metis
  qed
qed

lemma str_ok_three:
  assumes "0xE0 \<le> im ! p" "im ! p < 0xF0" "p < length im"
  shows "str_ok im p \<longleftrightarrow> Suc p < length im \<and> is_cont (im ! Suc p) \<and> Suc (Suc p) < length im \<and>
    is_cont (im ! Suc (Suc p)) \<and> 0x800 \<le> unit3 (im ! p) (im ! Suc p) (im ! Suc (Suc p)) \<and>
    str_ok im (Suc (Suc (Suc p)))"
proof -
  have b: "im ! p \<noteq> 0" "\<not> im ! p < 0x80" "\<not> im ! p < 0xC0" "\<not> im ! p < 0xE0" using assms
    by (auto simp: word_less_nat_alt word_le_nat_alt)
  note 1 = str_ok_Suc [OF assms(3) b(1)]
  show ?thesis
  proof (cases "Suc p < length im \<and> im ! Suc p \<noteq> 0")
    case two: True
    note 2 = str_ok_Suc [OF two [THEN conjunct1] two [THEN conjunct2]]
    show ?thesis
    proof (cases "Suc (Suc p) < length im \<and> im ! Suc (Suc p) \<noteq> 0")
      case True
      then show ?thesis
        using two b assms str_ok_Suc [of "Suc (Suc p)" im] by (auto simp: str_ok_def 1 2)
    next
      case False
      have "\<not> is_cont 0" by (simp add: is_cont_def)
      moreover have "\<not> str_ok im p"
      proof (cases "Suc (Suc p) < length im")
        case len: True
        then have "cstr im (Suc (Suc p)) = []" using False by (simp add: cstr_Cons [OF len])
        then show ?thesis using b assms by (simp add: str_ok_def 1 2)
      next
        case len: False
        then have "\<not> zterm im (Suc (Suc p))" using zterm_less by blast
        then show ?thesis by (simp add: str_ok_def 1 2)
      qed
      ultimately show ?thesis using False by metis
    qed
  next
    case False
    have "\<not> is_cont 0" by (simp add: is_cont_def)
    moreover have "\<not> str_ok im p"
    proof (cases "Suc p < length im")
      case len: True
      then have "cstr im (Suc p) = []" using False by (simp add: cstr_Cons [OF len])
      then show ?thesis using b assms by (simp add: str_ok_def 1)
    next
      case len: False
      then have "\<not> zterm im (Suc p)" using zterm_less by blast
      then show ?thesis by (simp add: str_ok_def 1)
    qed
    ultimately show ?thesis using False by metis
  qed
qed

lemma cont_mask: "b AND 0xC0 \<noteq> 0x80 \<longleftrightarrow> \<not> is_cont b"
  by (simp add: is_cont_def)

text \<open>The loop rejects what is not a string and counts the code units of what is.\<close>

definition mutf8_verdict :: "image \<Rightarrow> nat \<Rightarrow> nat \<Rightarrow> nat result \<Rightarrow> bool" where
  "mutf8_verdict im p units r \<longleftrightarrow>
     (if str_ok im p then r = Inr (units + length (mutf8_units (cstr im p)))
      else \<exists>m. r = fail m)"

lemma mutf8_verdict_step:
  assumes "mutf8_verdict im q (Suc units) r" and "str_ok im p \<longleftrightarrow> str_ok im q"
    and "str_ok im p \<Longrightarrow> length (mutf8_units (cstr im p)) = Suc (length (mutf8_units (cstr im q)))"
  shows "mutf8_verdict im p units r"
  using assms by (auto simp: mutf8_verdict_def split: if_splits)

lemma units_step:
  assumes "str_ok im p" and "im ! p \<noteq> 0"
  shows "im ! p < 0x80 \<Longrightarrow> length (mutf8_units (cstr im p)) = Suc (length (mutf8_units (cstr im (Suc p))))"
    and "0xC0 \<le> im ! p \<Longrightarrow> im ! p < 0xE0 \<Longrightarrow>
      length (mutf8_units (cstr im p)) = Suc (length (mutf8_units (cstr im (Suc (Suc p)))))"
    and "0xE0 \<le> im ! p \<Longrightarrow>
      length (mutf8_units (cstr im p)) = Suc (length (mutf8_units (cstr im (Suc (Suc (Suc p))))))"
  using assms(1) by (cases rule: str_ok_cases;
    use assms(2) in \<open>auto simp: word_less_nat_alt word_le_nat_alt\<close>)+

lemma mutf8_loop_verdict:
  assumes "vctx_ok c" and "p \<le> end_of_file c \<Longrightarrow> units + (end_of_file c - p) < 4294967296"
  shows "mutf8_verdict (range_img c) p units (mutf8_loop c p units)"
  using assms
proof (induction c p units rule: mutf8_loop.induct)
  case (1 c p units)
  let ?D = "range_img c"
  note len = length_range_img [OF "1.prems"(1)]
  show ?case
  proof (cases "p < end_of_file c")
    case False
    then have "\<not> str_ok ?D p" using len str_ok_less by fastforce
    then show ?thesis using False
      by (subst mutf8_loop.simps) (auto simp: mutf8_verdict_def)
  next
    case p: True
    have rd: "rd_u1 (v_img c) q = Inr (?D ! q)" if "q < end_of_file c" for q
      using that vctx_okD [OF "1.prems"(1)] by (simp add: rd_u1_def range_img_nth)
    have u: "u32 (units + 1) = Suc units" using "1.prems"(2) p by simp
    have room: "q \<le> end_of_file c \<Longrightarrow> Suc units + (end_of_file c - q) < 4294967296" if "p < q" for q
      using that "1.prems"(2) p by simp
    have pl: "p < length ?D" using p len by simp
    consider "?D ! p = 0" | "?D ! p \<noteq> 0" "?D ! p < 0x80"
      | "0x80 \<le> ?D ! p" "?D ! p < 0xC0 \<or> 0xF0 \<le> ?D ! p" | "0xC0 \<le> ?D ! p" "?D ! p < 0xE0"
      | "0xE0 \<le> ?D ! p" "?D ! p < 0xF0"
      by (auto simp: word_less_nat_alt word_le_nat_alt) linarith
    then show ?thesis
    proof cases
      case 1
      then have "str_ok ?D p" "cstr ?D p = []" using pl by (simp_all add: str_ok_heads cstr_Cons)
      then show ?thesis using p 1 rd
        by (subst mutf8_loop.simps) (simp add: mutf8_verdict_def)
    next
      case 2
      have "mutf8_loop c p units = mutf8_loop c (Suc p) (Suc units)"
        using p 2 rd u by (subst mutf8_loop.simps) simp
      moreover have "mutf8_verdict ?D (Suc p) (Suc units) (mutf8_loop c (Suc p) (Suc units))"
        using "1.IH"(1) [of "?D ! p"] p 2 rd u room [of "Suc p"] "1.prems"(1) by simp
      ultimately show ?thesis
        using 2 str_ok_heads(2) [OF pl] units_step(1) [of ?D p]
        by (auto intro!: mutf8_verdict_step [where q = "Suc p"])
    next
      case 3
      then have "\<not> ?D ! p < 0x80" "?D ! p \<noteq> 0" by (auto simp: word_less_nat_alt word_le_nat_alt)
      moreover have "\<not> ?D ! p < 0xE0" if "\<not> ?D ! p < 0xC0"
        using 3 that by (auto simp: word_less_nat_alt word_le_nat_alt)
      moreover have "\<not> ?D ! p < 0xF0" if "\<not> ?D ! p < 0xC0"
        using 3 that by (auto simp: word_less_nat_alt word_le_nat_alt)
      ultimately show ?thesis
        using p 3 rd str_ok_heads(3) [OF pl]
        by (subst mutf8_loop.simps) (auto simp: mutf8_verdict_def)
    next
      case 4
      then have b: "\<not> ?D ! p < 0x80" "\<not> ?D ! p < 0xC0" "?D ! p \<noteq> 0"
        by (auto simp: word_less_nat_alt word_le_nat_alt)
      note two = str_ok_two [OF 4 pl]
      show ?thesis
      proof (cases "Suc p < end_of_file c \<and> is_cont (?D ! Suc p) \<and>
          (unit2 (?D ! p) (?D ! Suc p) = 0 \<or> 0x80 \<le> unit2 (?D ! p) (?D ! Suc p))")
        case True
        have "mutf8_loop c p units = mutf8_loop c (Suc (Suc p)) (Suc units)"
          using p b 4 rd u True
          by (subst mutf8_loop.simps) (auto simp: cont_mask Let_def)
        moreover have "mutf8_verdict ?D (Suc (Suc p)) (Suc units) (mutf8_loop c (Suc (Suc p)) (Suc units))"
          using "1.IH"(2) [of "?D ! p" "?D ! Suc p" "unit2 (?D ! p) (?D ! Suc p)"] p b 4 rd u True
            room [of "Suc (Suc p)"] "1.prems"(1)
          by (auto simp: cont_mask not_less)
        ultimately show ?thesis
          using b 4 True two len units_step(2) [of ?D p]
          by (auto intro!: mutf8_verdict_step [where q = "Suc (Suc p)"])
      next
        case False
        have "\<exists>m. mutf8_loop c p units = fail m"
          using p b 4 rd u False by (subst mutf8_loop.simps) (auto simp: cont_mask Let_def)
        then show ?thesis using False two len by (auto simp: mutf8_verdict_def)
      qed
    next
      case 5
      then have b: "\<not> ?D ! p < 0x80" "\<not> ?D ! p < 0xC0" "\<not> ?D ! p < 0xE0" "?D ! p \<noteq> 0"
        by (auto simp: word_less_nat_alt word_le_nat_alt)
      note three = str_ok_three [OF 5 pl]
      show ?thesis
      proof (cases "Suc p < end_of_file c \<and> is_cont (?D ! Suc p) \<and> Suc (Suc p) < end_of_file c \<and>
          is_cont (?D ! Suc (Suc p)) \<and> 0x800 \<le> unit3 (?D ! p) (?D ! Suc p) (?D ! Suc (Suc p))")
        case True
        have "mutf8_loop c p units = mutf8_loop c (Suc (Suc (Suc p))) (Suc units)"
          using p b 5 rd u True
          by (subst mutf8_loop.simps) (auto simp: cont_mask Let_def)
        moreover have "mutf8_verdict ?D (Suc (Suc (Suc p))) (Suc units)
            (mutf8_loop c (Suc (Suc (Suc p))) (Suc units))"
          using "1.IH"(3) [of "?D ! p" "?D ! Suc p" "?D ! Suc (Suc p)"
              "unit3 (?D ! p) (?D ! Suc p) (?D ! Suc (Suc p))"] p b 5 rd u True
            room [of "Suc (Suc (Suc p))"] "1.prems"(1)
          by (auto simp: cont_mask)
        ultimately show ?thesis
          using b 5 True three len units_step(3) [of ?D p]
          by (auto intro!: mutf8_verdict_step [where q = "Suc (Suc (Suc p))"])
      next
        case False
        have "\<exists>m. mutf8_loop c p units = fail m"
          using p b 5 rd u False by (subst mutf8_loop.simps) (auto simp: cont_mask Let_def)
        then show ?thesis using False three len by (auto simp: mutf8_verdict_def)
      qed
    qed
  qed
qed

lemma VerifyMutf8_iff:
  assumes "vctx_ok c" and "v_begin c \<le> p"
  shows "VerifyMutf8 c p n = Inr () \<longleftrightarrow> str_ok (range_img c) p \<and>
      n = length (mutf8_units (cstr (range_img c) p))"
    and "wp (VerifyMutf8 c p n) (\<lambda>_. True)"
proof -
  have "end_of_file c - p < 4294967296"
    using assms by (auto simp: vctx_ok_def end_of_file_def)
  then have v: "mutf8_verdict (range_img c) p 0 (mutf8_loop c p 0)"
    using mutf8_loop_verdict [OF assms(1), of p 0] by simp
  then show "VerifyMutf8 c p n = Inr () \<longleftrightarrow> str_ok (range_img c) p \<and>
      n = length (mutf8_units (cstr (range_img c) p))"
    by (auto simp: VerifyMutf8_def mutf8_verdict_def split: if_splits)
  from v show "wp (VerifyMutf8 c p n) (\<lambda>_. True)"
    by (auto simp: VerifyMutf8_def mutf8_verdict_def wp_rules split: if_splits)
qed

section \<open>VerifyStringData and the string accessors\<close>

definition VerifyStringData :: "vctx \<Rightarrow> nat \<Rightarrow> unit result" where
  "VerifyStringData c off =
     (let p = offset_to_ptr c off in
      if off = 0 \<or> p < v_begin c \<or> p \<ge> end_of_file c then fail ''string_data offset out of range''
      else bind (uleb c p ''string_data bad length uleb'') (\<lambda>(utf16_len, p').
        VerifyMutf8 c p' utf16_len))"

function skip_uleb :: "image \<Rightarrow> nat \<Rightarrow> nat result" where
  "skip_uleb im p =
     bind (rd_u1 im p) (\<lambda>b. if b AND 0x80 \<noteq> 0 then skip_uleb im (Suc p) else Inr (Suc p))"
  by pat_completeness auto
termination
  by (relation "measure (\<lambda>(im, p). length im - p)") (auto simp: rd_u1_eq_Inr)

declare skip_uleb.simps [simp del]

definition string_data_off :: "vctx \<Rightarrow> nat \<Rightarrow> nat" where
  "string_data_off c i = u4_at (v_img c) (v_begin c + string_ids_off (v_hdr c) + i * 4)"

definition rd_string_id :: "vctx \<Rightarrow> nat \<Rightarrow> nat result" where
  "rd_string_id c idx =
     rd_u4 (v_img c) (offset_to_ptr c (string_ids_off (v_hdr c)) + idx * sizeof_StringId)"

definition StringContent :: "vctx \<Rightarrow> nat \<Rightarrow> nat result" where
  "StringContent c idx = bind (rd_string_id c idx) (\<lambda>off. skip_uleb (v_img c) (offset_to_ptr c off))"

text \<open>Where the content of string \<open>i\<close> starts, and what a validated string table gives.\<close>

definition leb_end :: "image \<Rightarrow> nat \<Rightarrow> nat" where
  "leb_end im p = Suc (p + length (takeWhile (\<lambda>b. b AND 0x80 \<noteq> 0) (drop p im)))"

definition str_at :: "vctx \<Rightarrow> nat \<Rightarrow> nat" where
  "str_at c i = leb_end (v_img c) (v_begin c + string_data_off c i)"

definition string_ok :: "vctx \<Rightarrow> nat \<Rightarrow> bool" where
  "string_ok c i \<longleftrightarrow> string_data_off c i \<noteq> 0 \<and> string_data_off c i < v_size c \<and>
     leb_span (v_img c) (v_begin c + string_data_off c i) (str_at c i) \<and>
     str_ok (range_img c) (str_at c i)"

definition strings_ok :: "vctx \<Rightarrow> bool" where
  "strings_ok c \<longleftrightarrow> (\<forall>i < string_ids_size (v_hdr c). string_ok c i)"

definition string_bytes :: "vctx \<Rightarrow> nat \<Rightarrow> 8 word list" where
  "string_bytes c i = cstr (v_img c) (str_at c i)"

definition string_units :: "vctx \<Rightarrow> nat \<Rightarrow> 16 word list" where
  "string_units c i = mutf8_units (string_bytes c i)"

lemma leb_span_end:
  assumes "leb_span im p p'"
  shows "leb_end im p = p'" and "skip_uleb im p = Inr p'"
proof -
  obtain n where n: "p' = Suc (p + n)" using assms by (auto simp: leb_span_def less_iff_Suc_add)
  have "leb_end im p = p' \<and> skip_uleb im p = Inr p'"
    using assms unfolding n
  proof (induction n arbitrary: p)
    case 0
    then have "p < length im" "im ! p AND 0x80 = 0" by (auto simp: leb_span_def)
    then show ?case
      by (simp add: leb_end_def Cons_nth_drop_Suc [symmetric] skip_uleb.simps [of im p] rd_u1_def)
  next
    case (Suc n)
    then have p: "p < length im" "im ! p AND 0x80 \<noteq> 0" by (auto simp: leb_span_def)
    have "leb_span im (Suc p) (Suc (Suc p + n))" using Suc.prems by (auto simp: leb_span_def)
    then have "leb_end im (Suc p) = Suc (Suc p + n) \<and> skip_uleb im (Suc p) = Inr (Suc (Suc p + n))"
      by (rule Suc.IH)
    then show ?case using p
      by (simp add: leb_end_def Cons_nth_drop_Suc [symmetric] skip_uleb.simps [of im p] rd_u1_def)
  qed
  then show "leb_end im p = p'" "skip_uleb im p = Inr p'" by simp_all
qed

lemma str_ok_range:
  assumes "str_ok (range_img c) p"
  shows "str_ok (v_img c) p" and "cstr (v_img c) p = cstr (range_img c) p"
proof -
  have z: "0 \<in> set (drop p (range_img c))" using assms by (simp add: str_ok_def zterm_def)
  have split: "drop p (v_img c) = drop p (range_img c)
      @ drop (p - length (range_img c)) (drop (end_of_file c) (v_img c))"
    unfolding range_img_def using drop_append append_take_drop_id by metis
  show eq: "cstr (v_img c) p = cstr (range_img c) p"
    using z by (simp add: cstr_def split takeWhile_append1)
  show "str_ok (v_img c) p"
    using assms z eq by (auto simp: str_ok_def zterm_def split)
qed

lemma wp_VerifyStringData:
  assumes "vctx_ok c" and off: "off = string_data_off c i"
  shows "wp (VerifyStringData c off) (\<lambda>_. string_ok c i)"
proof -
  have post: "wp (VerifyMutf8 c p' n) (\<lambda>_. string_ok c i)"
    if u: "uleb_post c (v_begin c + off) (n, p')" and "off \<noteq> 0" "off < v_size c" for n p'
  proof (rule wp_conseq_eq [OF VerifyMutf8_iff(2) [OF assms(1)]])
    show "v_begin c \<le> p'" using u by (simp add: uleb_post_def)
    fix x assume "VerifyMutf8 c p' n = Inr x"
    then have "str_ok (range_img c) p'"
      using VerifyMutf8_iff(1) [OF assms(1) \<open>v_begin c \<le> p'\<close>] by simp
    moreover have "leb_span (v_img c) (v_begin c + off) p'" using u by (simp add: uleb_post_def)
    moreover from this have "str_at c i = p'" by (simp add: str_at_def leb_span_end off)
    ultimately show "string_ok c i" using that(2,3) by (simp add: string_ok_def off)
  qed
  show ?thesis
    unfolding VerifyStringData_def Let_def wp_if wp_bind
    by (auto simp: wp_fail offset_to_ptr_def end_of_file_def
        intro!: wp_conseq [OF wp_uleb [OF assms(1)]] post)
qed

lemma StringContent_ok:
  assumes "vctx_ok c" and "tables_ok c" and "string_ok c i" and "i < string_ids_size (v_hdr c)"
  shows "StringContent c i = Inr (str_at c i)" and "str_ok (v_img c) (str_at c i)"
proof -
  have "table_ok c (string_ids_off (v_hdr c)) (string_ids_size (v_hdr c)) 4"
    using assms(2) by (simp add: tables_ok_def Let_def)
  from table_row(2) [OF assms(1) this assms(4)]
  have "rd_string_id c i = Inr (string_data_off c i)"
    by (simp add: rd_string_id_def rd_u4_def offset_to_ptr_def string_data_off_def layout)
  moreover have "skip_uleb (v_img c) (v_begin c + string_data_off c i) = Inr (str_at c i)"
    using assms(3) leb_span_end(2) by (simp add: string_ok_def)
  ultimately show "StringContent c i = Inr (str_at c i)"
    by (simp add: StringContent_def offset_to_ptr_def)
  show "str_ok (v_img c) (str_at c i)"
    using assms(3) str_ok_range(1) by (simp add: string_ok_def)
qed

section \<open>VerifyTypeList\<close>

definition VerifyTypeList :: "vctx \<Rightarrow> nat \<Rightarrow> string \<Rightarrow> unit result" where
  "VerifyTypeList c off who =
     (if off = 0 then Inr ()
      else let p = offset_to_ptr c off in
        bind (check_list_size c p 1 sizeof_TypeList who) (\<lambda>_.
        bind (rd_u4 (v_img c) p) (\<lambda>size.
        bind (check_list_size c (p + 4) size sizeof_TypeItem who) (\<lambda>_.
          for_each 0 size (\<lambda>i.
            bind (rd_u2 (v_img c) (p + 4 + i * sizeof_TypeItem)) (\<lambda>type_idx.
              if type_idx \<ge> type_ids_size (v_hdr c)
              then fail (who @ '': type_list type_idx out of range'') else Inr ()))))))"

definition type_list_len :: "vctx \<Rightarrow> nat \<Rightarrow> nat" where
  "type_list_len c off = u4_at (v_img c) (v_begin c + off)"

definition type_list_idx :: "vctx \<Rightarrow> nat \<Rightarrow> nat \<Rightarrow> nat" where
  "type_list_idx c off i = u2_at (v_img c) (v_begin c + off + 4 + i * 2)"

definition type_list_ok :: "vctx \<Rightarrow> nat \<Rightarrow> bool" where
  "type_list_ok c off \<longleftrightarrow> off = 0 \<or>
     (v_begin c + off + 4 + type_list_len c off * 2 \<le> end_of_file c \<and>
      (\<forall>i < type_list_len c off. type_list_idx c off i < type_ids_size (v_hdr c)))"

lemma wp_VerifyTypeList:
  assumes "vctx_ok c"
  shows "wp (VerifyTypeList c off who) (\<lambda>_. type_list_ok c off)"
proof -
  let ?n = "type_list_len c off" and ?p = "v_begin c + off"
  have loop: "wp (for_each 0 ?n (\<lambda>i. bind (rd_u2 (v_img c) (?p + 4 + i * 2)) (\<lambda>type_idx.
      if type_idx \<ge> type_ids_size (v_hdr c)
      then fail (who @ '': type_list type_idx out of range'') else Inr ())))
    (\<lambda>_. type_list_ok c off)"
    if fits: "?p + 4 + ?n * 2 \<le> end_of_file c"
  proof (rule wp_conseq)
    show "wp (for_each 0 ?n (\<lambda>i. bind (rd_u2 (v_img c) (?p + 4 + i * 2)) (\<lambda>type_idx.
        if type_idx \<ge> type_ids_size (v_hdr c)
        then fail (who @ '': type_list type_idx out of range'') else Inr ())))
      (\<lambda>_. \<forall>i. 0 \<le> i \<and> i < ?n \<longrightarrow> type_list_idx c off i < type_ids_size (v_hdr c))"
      by (rule wp_for_each) (use fits vctx_okD [OF assms] in \<open>auto simp: wp_rules type_list_idx_def\<close>)
  qed (use fits in \<open>simp add: type_list_ok_def\<close>)
  show ?thesis
    using vctx_okD [OF assms] loop
    by (auto simp: VerifyTypeList_def Let_def offset_to_ptr_def wp_rules layout
        type_list_len_def [symmetric] type_list_ok_def [of _ 0] intro!: wp_intros)
qed

section \<open>Further results\<close>

text \<open>
  \<open>VerifyMutf8\<close> is exact: it accepts a position and a length if and only if the bytes there
  are canonical modified UTF-8 terminated inside the data range with that many UTF-16 units, and
  otherwise rejects without reading outside the image.
\<close>

theorem string_data_verdict:
  assumes "vctx_ok c" and "v_begin c \<le> p"
  shows "(VerifyMutf8 c p n = Inr () \<longleftrightarrow>
      str_ok (range_img c) p \<and> n = length (mutf8_units (cstr (range_img c) p))) \<and>
    wp (VerifyMutf8 c p n) (\<lambda>_. True)"
  using VerifyMutf8_iff [OF assms] by blast

end
