(* ===== verification/Verifier_Class.thy ===== *)
theory Verifier_Class
  imports Verifier_Code Verifier_Items
begin

text \<open>
  \<open>VerifyClassData\<close> and \<open>CheckClassDataDefiners\<close>: the two walks over a class_data_item. The
  first bounds every member index and verifies the code of every method, the second requires
  every member to name the class as its definer. Both are stated over the members the bytes
  declare (\<open>class_data_at\<close>), so that what the two passes say is about the same members.
\<close>

section \<open>VerifyClassData\<close>

text \<open>The state of a member list is the cursor and the running index of the delta chain.\<close>

definition class_data_field :: "vctx \<Rightarrow> nat \<Rightarrow> nat \<times> nat \<Rightarrow> (nat \<times> nat) result" where
  "class_data_field c i s =
     bind (uleb c (fst s) ''class_data bad encoded_field'') (\<lambda>(diff, p1).
     bind (uleb c p1 ''class_data bad encoded_field'') (\<lambda>(access, p2).
       let idx = u32 (snd s + diff) in
       if idx \<ge> field_ids_size (v_hdr c) then fail ''class_data field idx out of range''
       else Inr (p2, idx)))"

definition class_data_method :: "vctx \<Rightarrow> nat \<Rightarrow> nat \<times> nat \<Rightarrow> (nat \<times> nat) result" where
  "class_data_method c i s =
     bind (uleb c (fst s) ''class_data bad encoded_method'') (\<lambda>(diff, p1).
     bind (uleb c p1 ''class_data bad encoded_method'') (\<lambda>(access, p2).
     bind (uleb c p2 ''class_data bad encoded_method'') (\<lambda>(code_off, p3).
       let idx = u32 (snd s + diff) in
       if idx \<ge> method_ids_size (v_hdr c) then fail ''class_data method idx out of range''
       else bind (if code_off \<noteq> 0 then VerifyCodeItem c code_off else Inr ()) (\<lambda>_. Inr (p3, idx)))))"

definition class_data_counts :: "vctx \<Rightarrow> nat \<Rightarrow> (nat \<times> nat \<times> nat \<times> nat \<times> nat) result" where
  "class_data_counts c p =
     bind (uleb c p ''class_data bad counts'') (\<lambda>(sf, p1).
     bind (uleb c p1 ''class_data bad counts'') (\<lambda>(inst, p2).
     bind (uleb c p2 ''class_data bad counts'') (\<lambda>(dm, p3).
     bind (uleb c p3 ''class_data bad counts'') (\<lambda>(vm, p4).
       Inr (sf, inst, dm, vm, p4)))))"

text \<open>The four lists of a class_data_item, each with its delta chain restarted at 0.\<close>

definition member_lists ::
    "(nat \<Rightarrow> nat \<times> nat \<Rightarrow> (nat \<times> nat) result) \<Rightarrow> (nat \<Rightarrow> nat \<times> nat \<Rightarrow> (nat \<times> nat) result) \<Rightarrow>
     nat \<times> nat \<times> nat \<times> nat \<times> nat \<Rightarrow> unit result" where
  "member_lists field method counts =
     (case counts of (sf, inst, dm, vm, p) \<Rightarrow>
      bind (for_range 0 sf field (p, 0)) (\<lambda>s1.
      bind (for_range 0 inst field (fst s1, 0)) (\<lambda>s2.
      bind (for_range 0 dm method (fst s2, 0)) (\<lambda>s3.
      bind (for_range 0 vm method (fst s3, 0)) (\<lambda>_. Inr ())))))"

definition VerifyClassData :: "vctx \<Rightarrow> nat \<Rightarrow> unit result" where
  "VerifyClassData c off =
     (let p = offset_to_ptr c off in
      if p < v_begin c \<or> p \<ge> end_of_file c then fail ''class_data offset out of range''
      else bind (class_data_counts c p) (member_lists (class_data_field c) (class_data_method c)))"

section \<open>CheckClassDataDefiners\<close>

definition field_id_pos :: "vctx \<Rightarrow> nat \<Rightarrow> nat" where
  "field_id_pos c i = offset_to_ptr c (field_ids_off (v_hdr c)) + i * sizeof_FieldId"

definition method_id_pos :: "vctx \<Rightarrow> nat \<Rightarrow> nat" where
  "method_id_pos c i = offset_to_ptr c (method_ids_off (v_hdr c)) + i * sizeof_MethodId"

definition definer_field :: "vctx \<Rightarrow> nat \<Rightarrow> nat \<Rightarrow> nat \<times> nat \<Rightarrow> (nat \<times> nat) result" where
  "definer_field c cls i s =
     bind (uleb c (fst s) ''class_data bad field'') (\<lambda>(diff, p1).
     bind (uleb c p1 ''class_data bad field'') (\<lambda>(access, p2).
       let idx = u32 (snd s + diff) in
       if idx \<ge> field_ids_size (v_hdr c) then fail ''class_data field idx out of range''
       else bind (rd_field_id (v_img c) (field_id_pos c idx)) (\<lambda>f.
         if m_class_idx f \<noteq> cls then fail ''Mismatched defining class for class_data_item field''
         else Inr (p2, idx))))"

definition definer_method :: "vctx \<Rightarrow> nat \<Rightarrow> nat \<Rightarrow> nat \<times> nat \<Rightarrow> (nat \<times> nat) result" where
  "definer_method c cls i s =
     bind (uleb c (fst s) ''class_data bad method'') (\<lambda>(diff, p1).
     bind (uleb c p1 ''class_data bad method'') (\<lambda>(access, p2).
     bind (uleb c p2 ''class_data bad method'') (\<lambda>(code_off, p3).
       let idx = u32 (snd s + diff) in
       if idx \<ge> method_ids_size (v_hdr c) then fail ''class_data method idx out of range''
       else bind (rd_method_id (v_img c) (method_id_pos c idx)) (\<lambda>m.
         if m_class_idx m \<noteq> cls then fail ''Mismatched defining class for class_data_item method''
         else Inr (p3, idx)))))"

definition CheckClassDataDefiners :: "vctx \<Rightarrow> nat \<Rightarrow> nat \<Rightarrow> unit result" where
  "CheckClassDataDefiners c off cls =
     bind (class_data_counts c (offset_to_ptr c off))
       (member_lists (definer_field c cls) (definer_method c cls))"

section \<open>The members the bytes declare\<close>

inductive fields_at :: "image \<Rightarrow> nat \<Rightarrow> nat \<Rightarrow> nat list \<Rightarrow> nat \<Rightarrow> bool" for im where
  no_field: "fields_at im p prev [] p"
| field: "uleb_at im p diff q1 \<Longrightarrow> uleb_at im q1 acc q2 \<Longrightarrow> i = u32 (prev + diff) \<Longrightarrow>
    fields_at im q2 i is p' \<Longrightarrow> fields_at im p prev (i # is) p'"

inductive methods_at :: "image \<Rightarrow> nat \<Rightarrow> nat \<Rightarrow> (nat \<times> nat) list \<Rightarrow> nat \<Rightarrow> bool" for im where
  no_method: "methods_at im p prev [] p"
| meth: "uleb_at im p diff q1 \<Longrightarrow> uleb_at im q1 acc q2 \<Longrightarrow> uleb_at im q2 code q3 \<Longrightarrow>
    i = u32 (prev + diff) \<Longrightarrow> methods_at im q3 i ms p' \<Longrightarrow> methods_at im p prev ((i, code) # ms) p'"

inductive_cases fields_at_NilE: "fields_at im p prev [] p'"
inductive_cases methods_at_NilE: "methods_at im p prev [] p'"

definition last_idx :: "nat \<Rightarrow> nat list \<Rightarrow> nat" where
  "last_idx prev is = (if is = [] then prev else last is)"

lemma fields_at_snoc:
  assumes "fields_at im p prev is q" and "uleb_at im q diff q1" and "uleb_at im q1 acc q2"
    and "i = u32 (last_idx prev is + diff)"
  shows "fields_at im p prev (is @ [i]) q2"
  using assms
proof (induction rule: fields_at.induct)
  case (no_field p prev)
  then show ?case by (auto simp: last_idx_def intro: fields_at.intros)
next
  case (field p d' r1 a' r2 i' prev is' q)
  have "last_idx prev (i' # is') = last_idx i' is'" by (simp add: last_idx_def)
  with field show ?case by (auto intro: fields_at.field)
qed

lemma methods_at_snoc:
  assumes "methods_at im p prev ms q" and "uleb_at im q diff q1" and "uleb_at im q1 acc q2"
    and "uleb_at im q2 code q3" and "i = u32 (last_idx prev (map fst ms) + diff)"
  shows "methods_at im p prev (ms @ [(i, code)]) q3"
  using assms
proof (induction rule: methods_at.induct)
  case (no_method p prev)
  then show ?case by (auto simp: last_idx_def intro: methods_at.intros)
next
  case (meth p d' r1 a' r2 c' r3 i' prev ms' q)
  have "last_idx prev (map fst ((i', c') # ms')) = last_idx i' (map fst ms')"
    by (simp add: last_idx_def)
  with meth show ?case by (auto intro: methods_at.meth)
qed

lemma last_idx_snoc [simp]: "last_idx prev (is @ [i]) = i"
  by (simp add: last_idx_def)

text \<open>The state of a list walk after \<open>j\<close> members, the members satisfying \<open>P\<close>.\<close>

definition fields_read :: "vctx \<Rightarrow> nat \<Rightarrow> (nat \<Rightarrow> bool) \<Rightarrow> nat \<Rightarrow> nat \<times> nat \<Rightarrow> bool" where
  "fields_read c p P j s \<longleftrightarrow> vctx_ok c \<and> (\<exists>is. length is = j \<and> fields_at (v_img c) p 0 is (fst s) \<and>
     snd s = last_idx 0 is \<and> (\<forall>i \<in> set is. P i))"

definition methods_read :: "vctx \<Rightarrow> nat \<Rightarrow> (nat \<times> nat \<Rightarrow> bool) \<Rightarrow> nat \<Rightarrow> nat \<times> nat \<Rightarrow> bool" where
  "methods_read c p P j s \<longleftrightarrow> vctx_ok c \<and> (\<exists>ms. length ms = j \<and> methods_at (v_img c) p 0 ms (fst s) \<and>
     snd s = last_idx 0 (map fst ms) \<and> (\<forall>m \<in> set ms. P m))"

lemma fields_read_step:
  assumes "fields_read c p P j s" and "uleb_at (v_img c) (fst s) diff q1" "uleb_at (v_img c) q1 acc q2"
    and "P (u32 (snd s + diff))"
  shows "fields_read c p P (Suc j) (q2, u32 (snd s + diff))"
proof -
  obtain "is" where i: "length is = j" "fields_at (v_img c) p 0 is (fst s)" "snd s = last_idx 0 is"
    "\<forall>i \<in> set is. P i" using assms(1) by (auto simp: fields_read_def)
  have "fields_at (v_img c) p 0 (is @ [u32 (snd s + diff)]) q2"
    using fields_at_snoc [OF i(2) assms(2,3)] i(3) by simp
  then show ?thesis
    using i assms(1,4) unfolding fields_read_def
    by (intro conjI exI [of _ "is @ [u32 (snd s + diff)]"]) auto
qed

lemma methods_read_step:
  assumes "methods_read c p P j s" and "uleb_at (v_img c) (fst s) diff q1" "uleb_at (v_img c) q1 acc q2"
    "uleb_at (v_img c) q2 code q3" and "P (u32 (snd s + diff), code)"
  shows "methods_read c p P (Suc j) (q3, u32 (snd s + diff))"
proof -
  obtain ms where i: "length ms = j" "methods_at (v_img c) p 0 ms (fst s)"
    "snd s = last_idx 0 (map fst ms)" "\<forall>m \<in> set ms. P m" using assms(1) by (auto simp: methods_read_def)
  have "methods_at (v_img c) p 0 (ms @ [(u32 (snd s + diff), code)]) q3"
    using methods_at_snoc [OF i(2) assms(2-4)] i(3) by simp
  then show ?thesis
    using i assms(1,5) unfolding methods_read_def
    by (intro conjI exI [of _ "ms @ [(u32 (snd s + diff), code)]"]) auto
qed

lemma fields_read_0: "vctx_ok c \<Longrightarrow> fields_read c p P 0 (p, 0)"
  by (auto simp: fields_read_def last_idx_def intro: fields_at.no_field)

lemma methods_read_0: "vctx_ok c \<Longrightarrow> methods_read c p P 0 (p, 0)"
  by (auto simp: methods_read_def last_idx_def intro: methods_at.no_method)

section \<open>The four walks keep the reader contract\<close>

definition field_in_range :: "vctx \<Rightarrow> nat \<Rightarrow> bool" where
  "field_in_range c i \<longleftrightarrow> i < field_ids_size (v_hdr c)"

definition method_verified :: "vctx \<Rightarrow> nat \<times> nat \<Rightarrow> bool" where
  "method_verified c m \<longleftrightarrow> fst m < method_ids_size (v_hdr c) \<and>
     (snd m \<noteq> 0 \<longrightarrow> code_item_ok c (snd m))"

definition field_id_at :: "vctx \<Rightarrow> nat \<Rightarrow> member_id" where
  "field_id_at c i = member_id_at (v_img c) (field_id_pos c i)"

definition method_id_at :: "vctx \<Rightarrow> nat \<Rightarrow> member_id" where
  "method_id_at c i = member_id_at (v_img c) (method_id_pos c i)"

definition field_defined_by :: "vctx \<Rightarrow> nat \<Rightarrow> nat \<Rightarrow> bool" where
  "field_defined_by c cls i \<longleftrightarrow> i < field_ids_size (v_hdr c) \<and> m_class_idx (field_id_at c i) = cls"

definition method_defined_by :: "vctx \<Rightarrow> nat \<Rightarrow> nat \<times> nat \<Rightarrow> bool" where
  "method_defined_by c cls m \<longleftrightarrow> fst m < method_ids_size (v_hdr c) \<and>
     m_class_idx (method_id_at c (fst m)) = cls"

lemma rd_member_ids:
  assumes "vctx_ok c" and "tables_ok c"
  shows "i < field_ids_size (v_hdr c) \<Longrightarrow> rd_field_id (v_img c) (field_id_pos c i) = Inr (field_id_at c i)"
    and "i < method_ids_size (v_hdr c) \<Longrightarrow> rd_method_id (v_img c) (method_id_pos c i) = Inr (method_id_at c i)"
  using table_row(2) [OF assms(1), of "field_ids_off (v_hdr c)" "field_ids_size (v_hdr c)" 8 i]
    table_row(2) [OF assms(1), of "method_ids_off (v_hdr c)" "method_ids_size (v_hdr c)" 8 i] assms(2)
  by (simp_all add: tables_ok_def Let_def rd_field_id_def rd_method_id_def field_id_at_def
      method_id_at_def field_id_pos_def method_id_pos_def layout offset_to_ptr_def)

interpretation verify_fields: record_reader "end_of_file c" fst "fields_read c p (field_in_range c)"
    "class_data_field c" for c p
proof (unfold_locales, goal_cases)
  case (1 i s)
  then have "vctx_ok c" by (simp add: fields_read_def)
  with 1 show ?case
    by (auto simp: class_data_field_def wp_rules Let_def uleb_post_def field_in_range_def not_le
        intro!: wp_lebI fields_read_step)
qed

interpretation verify_methods: record_reader "end_of_file c" fst "methods_read c p (method_verified c)"
    "class_data_method c" for c p
proof (unfold_locales, goal_cases)
  case (1 i s)
  then have "vctx_ok c" by (simp add: methods_read_def)
  with 1 show ?case
    unfolding class_data_method_def
    apply (auto simp: wp_rules Let_def uleb_post_def not_le
        intro!: wp_lebI wp_conseq [OF wp_VerifyCodeItem] methods_read_step)
    apply (auto simp: method_verified_def)
    done
qed

interpretation define_fields: record_reader "end_of_file c" fst
    "\<lambda>j s. tables_ok c \<and> fields_read c p (field_defined_by c cls) j s" "definer_field c cls" for c p cls
proof (unfold_locales, goal_cases)
  case (1 i s)
  then have "vctx_ok c" "tables_ok c" by (simp_all add: fields_read_def)
  with 1 show ?case
    by (auto simp: definer_field_def wp_bind wp_if wp_fail wp_Inr Let_def uleb_post_def field_defined_by_def
        not_le rd_member_ids intro!: wp_lebI fields_read_step)
qed

interpretation define_methods: record_reader "end_of_file c" fst
    "\<lambda>j s. tables_ok c \<and> methods_read c p (method_defined_by c cls) j s" "definer_method c cls" for c p cls
proof (unfold_locales, goal_cases)
  case (1 i s)
  then have "vctx_ok c" "tables_ok c" by (simp_all add: methods_read_def)
  with 1 show ?case
    by (auto simp: definer_method_def wp_bind wp_if wp_fail wp_Inr Let_def uleb_post_def method_defined_by_def
        not_le rd_member_ids intro!: wp_lebI methods_read_step)
qed

section \<open>Whole items\<close>

record class_members =
  static_fields :: "nat list"
  instance_fields :: "nat list"
  direct_methods :: "(nat \<times> nat) list"
  virtual_methods :: "(nat \<times> nat) list"

definition class_data_at :: "image \<Rightarrow> nat \<Rightarrow> class_members \<Rightarrow> bool" where
  "class_data_at im p m \<longleftrightarrow> (\<exists>p1 p2 p3 p4 q1 q2 q3 q4.
     uleb_at im p (length (static_fields m)) p1 \<and> uleb_at im p1 (length (instance_fields m)) p2 \<and>
     uleb_at im p2 (length (direct_methods m)) p3 \<and> uleb_at im p3 (length (virtual_methods m)) p4 \<and>
     fields_at im p4 0 (static_fields m) q1 \<and> fields_at im q1 0 (instance_fields m) q2 \<and>
     methods_at im q2 0 (direct_methods m) q3 \<and> methods_at im q3 0 (virtual_methods m) q4)"

definition all_members :: "(nat \<Rightarrow> bool) \<Rightarrow> (nat \<times> nat \<Rightarrow> bool) \<Rightarrow> class_members \<Rightarrow> bool" where
  "all_members P Q m \<longleftrightarrow> (\<forall>i \<in> set (static_fields m @ instance_fields m). P i) \<and>
     (\<forall>x \<in> set (direct_methods m @ virtual_methods m). Q x)"

text \<open>What the two passes establish of the item at \<open>off\<close>.\<close>

definition class_data_ok :: "vctx \<Rightarrow> nat \<Rightarrow> bool" where
  "class_data_ok c off \<longleftrightarrow> (\<exists>m. class_data_at (v_img c) (v_begin c + off) m \<and>
     all_members (field_in_range c) (method_verified c) m)"

definition class_data_defined_by :: "vctx \<Rightarrow> nat \<Rightarrow> nat \<Rightarrow> bool" where
  "class_data_defined_by c off cls \<longleftrightarrow> (\<exists>m. class_data_at (v_img c) (v_begin c + off) m \<and>
     all_members (field_defined_by c cls) (method_defined_by c cls) m)"

definition counts_at :: "vctx \<Rightarrow> nat \<Rightarrow> nat \<times> nat \<times> nat \<times> nat \<times> nat \<Rightarrow> bool" where
  "counts_at c p r \<longleftrightarrow> (case r of (sf, inst, dm, vm, p4) \<Rightarrow> p4 \<le> end_of_file c \<and>
     (\<exists>p1 p2 p3. uleb_at (v_img c) p sf p1 \<and> uleb_at (v_img c) p1 inst p2 \<and>
        uleb_at (v_img c) p2 dm p3 \<and> uleb_at (v_img c) p3 vm p4))"

lemma wp_class_data_counts:
  assumes "vctx_ok c"
  shows "wp (class_data_counts c p) (counts_at c p)"
  using assms
  by (auto simp: class_data_counts_def wp_rules uleb_post_def counts_at_def intro!: wp_lebI; blast)

lemma fields_readD:
  "fields_read c p P n s \<Longrightarrow> \<exists>is. length is = n \<and> fields_at (v_img c) p 0 is (fst s) \<and> (\<forall>i \<in> set is. P i)"
  by (auto simp: fields_read_def)

lemma methods_readD:
  "methods_read c p P n s \<Longrightarrow> \<exists>ms. length ms = n \<and> methods_at (v_img c) p 0 ms (fst s) \<and> (\<forall>m \<in> set ms. P m)"
  by (auto simp: methods_read_def)

lemma lists_read_members:
  assumes "counts_at c p (sf, inst, dm, vm, p4)"
    and "fields_read c p4 P sf t1" "fields_read c (fst t1) P inst t2"
      "methods_read c (fst t2) Q dm t3" "methods_read c (fst t3) Q vm t4"
  shows "\<exists>m. class_data_at (v_img c) p m \<and> all_members P Q m"
proof -
  obtain sfs where 1: "length sfs = sf" "fields_at (v_img c) p4 0 sfs (fst t1)" "\<forall>i \<in> set sfs. P i"
    using fields_readD [OF assms(2)] by blast
  obtain ins where 2: "length ins = inst" "fields_at (v_img c) (fst t1) 0 ins (fst t2)" "\<forall>i \<in> set ins. P i"
    using fields_readD [OF assms(3)] by blast
  obtain dms where 3: "length dms = dm" "methods_at (v_img c) (fst t2) 0 dms (fst t3)" "\<forall>i \<in> set dms. Q i"
    using methods_readD [OF assms(4)] by blast
  obtain vms where 4: "length vms = vm" "methods_at (v_img c) (fst t3) 0 vms (fst t4)" "\<forall>i \<in> set vms. Q i"
    using methods_readD [OF assms(5)] by blast
  let ?m = "\<lparr>static_fields = sfs, instance_fields = ins, direct_methods = dms, virtual_methods = vms\<rparr>"
  have "class_data_at (v_img c) p ?m"
    using assms(1) 1 2 3 4 unfolding counts_at_def class_data_at_def by auto blast
  moreover have "all_members P Q ?m" using 1 2 3 4 by (auto simp: all_members_def)
  ultimately show ?thesis by blast
qed

lemma wp_VerifyClassData:
  assumes ok: "vctx_ok c"
  shows "wp (VerifyClassData c off) (\<lambda>_. class_data_ok c off)"
proof -
  let ?p = "v_begin c + off"
  have "wp (member_lists (class_data_field c) (class_data_method c) r) (\<lambda>_. class_data_ok c off)"
    if r: "counts_at c ?p r" for r
  proof -
    obtain sf inst dm vm p4 where eq: "r = (sf, inst, dm, vm, p4)" by (metis prod_cases5)
    have "p4 \<le> end_of_file c" using r by (simp add: eq counts_at_def)
    note le [simp] = this
    show ?thesis
      unfolding member_lists_def eq prod.case wp_bind
      apply (rule verify_fields.loopI [OF fields_read_0 [OF ok]], simp)
      apply (rule verify_fields.loopI [OF fields_read_0 [OF ok]], simp)
      apply (rule verify_methods.loopI [OF methods_read_0 [OF ok]], simp)
      apply (rule verify_methods.loopI [OF methods_read_0 [OF ok]], simp)
      using lists_read_members [OF r [unfolded eq]]
      by (auto simp: wp_Inr class_data_ok_def)
  qed
  then show ?thesis
    unfolding VerifyClassData_def Let_def
    by (auto simp: wp_rules offset_to_ptr_def intro!: wp_conseq [OF wp_class_data_counts [OF ok]])
qed

lemma wp_CheckClassDataDefiners:
  assumes ok: "vctx_ok c" and t: "tables_ok c"
  shows "wp (CheckClassDataDefiners c off cls) (\<lambda>_. class_data_defined_by c off cls)"
proof -
  let ?p = "v_begin c + off"
  have "wp (member_lists (definer_field c cls) (definer_method c cls) r)
      (\<lambda>_. class_data_defined_by c off cls)"
    if r: "counts_at c ?p r" for r
  proof -
    obtain sf inst dm vm p4 where eq: "r = (sf, inst, dm, vm, p4)" by (metis prod_cases5)
    have "p4 \<le> end_of_file c" using r by (simp add: eq counts_at_def)
    note le [simp] = this
    show ?thesis
      unfolding member_lists_def eq prod.case wp_bind
      apply (rule define_fields.loopI [OF conjI [OF t fields_read_0 [OF ok]]], simp)
      apply (rule define_fields.loopI [OF conjI [OF t fields_read_0 [OF ok]]], simp)
      apply (rule define_methods.loopI [OF conjI [OF t methods_read_0 [OF ok]]], simp)
      apply (rule define_methods.loopI [OF conjI [OF t methods_read_0 [OF ok]]], simp)
      using lists_read_members [OF r [unfolded eq]]
      by (auto simp: wp_Inr class_data_defined_by_def)
  qed
  then show ?thesis
    unfolding CheckClassDataDefiners_def
    by (auto simp: wp_rules offset_to_ptr_def intro!: wp_conseq [OF wp_class_data_counts [OF ok]])
qed

text \<open>The bytes declare one set of members, so the two passes speak of the same ones.\<close>

lemma uleb_at_unique: "uleb_at im p v q \<Longrightarrow> uleb_at im p v' q' \<Longrightarrow> v = v' \<and> q = q'"
  unfolding uleb_at_def by (metis leb_span_end(1))

lemma fields_at_unique:
  "fields_at im p prev is q \<Longrightarrow> fields_at im p prev js r \<Longrightarrow> length is = length js \<Longrightarrow> is = js \<and> q = r"
proof (induction arbitrary: js rule: fields_at.induct)
  case (no_field p prev)
  then show ?case by (auto elim: fields_at_NilE)
next
  case (field p diff q1 acc q2 i prev "is" p')
  then obtain j js' where js: "js = j # js'" by (cases js) auto
  from field.prems(1) [unfolded js] obtain diff' r1 acc' r2 where
    d: "uleb_at im p diff' r1" "uleb_at im r1 acc' r2" "j = u32 (prev + diff')" "fields_at im r2 j js' r"
    by (cases rule: fields_at.cases) auto
  then have "diff = diff'" "q1 = r1" using uleb_at_unique field.hyps(1) by blast+
  moreover from this have "q2 = r2" using uleb_at_unique field.hyps(2) d(2) by blast
  ultimately show ?case
    using field.IH [of js'] field.hyps(3) field.prems(2) d by (simp add: js)
qed

lemma methods_at_unique:
  "methods_at im p prev ms q \<Longrightarrow> methods_at im p prev ns r \<Longrightarrow> length ms = length ns \<Longrightarrow> ms = ns \<and> q = r"
proof (induction arbitrary: ns rule: methods_at.induct)
  case (no_method p prev)
  then show ?case by (auto elim: methods_at_NilE)
next
  case (meth p diff q1 acc q2 code q3 i prev ms p')
  then obtain n ns' where ns: "ns = n # ns'" by (cases ns) auto
  from meth.prems(1) [unfolded ns] obtain diff' r1 acc' r2 code' r3 where
    d: "uleb_at im p diff' r1" "uleb_at im r1 acc' r2" "uleb_at im r2 code' r3"
      "n = (u32 (prev + diff'), code')" "methods_at im r3 (u32 (prev + diff')) ns' r"
    by (cases rule: methods_at.cases) auto
  then have "diff = diff'" "q1 = r1" using uleb_at_unique meth.hyps(1) by blast+
  moreover from this have "q2 = r2" using uleb_at_unique meth.hyps(2) d(2) by blast
  moreover from this have "code = code'" "q3 = r3" using uleb_at_unique meth.hyps(3) d(3) by blast+
  ultimately show ?case
    using meth.IH [of ns'] meth.hyps(4) meth.prems(2) d by (simp add: ns)
qed

lemma class_data_at_unique:
  assumes "class_data_at im p m" and "class_data_at im p n"
  shows "m = n"
proof -
  obtain p1 p2 p3 p4 q1 q2 q3 q4 where m:
    "uleb_at im p (length (static_fields m)) p1" "uleb_at im p1 (length (instance_fields m)) p2"
    "uleb_at im p2 (length (direct_methods m)) p3" "uleb_at im p3 (length (virtual_methods m)) p4"
    "fields_at im p4 0 (static_fields m) q1" "fields_at im q1 0 (instance_fields m) q2"
    "methods_at im q2 0 (direct_methods m) q3" "methods_at im q3 0 (virtual_methods m) q4"
    using assms(1) unfolding class_data_at_def by blast
  obtain r1 r2 r3 r4 s1 s2 s3 s4 where n:
    "uleb_at im p (length (static_fields n)) r1" "uleb_at im r1 (length (instance_fields n)) r2"
    "uleb_at im r2 (length (direct_methods n)) r3" "uleb_at im r3 (length (virtual_methods n)) r4"
    "fields_at im r4 0 (static_fields n) s1" "fields_at im s1 0 (instance_fields n) s2"
    "methods_at im s2 0 (direct_methods n) s3" "methods_at im s3 0 (virtual_methods n) s4"
    using assms(2) unfolding class_data_at_def by blast
  have 1: "length (static_fields m) = length (static_fields n)" "p1 = r1"
    using uleb_at_unique [OF m(1) n(1)] by simp_all
  have 2: "length (instance_fields m) = length (instance_fields n)" "p2 = r2"
    using uleb_at_unique [OF m(2) n(2) [folded 1(2)]] by simp_all
  have 3: "length (direct_methods m) = length (direct_methods n)" "p3 = r3"
    using uleb_at_unique [OF m(3) n(3) [folded 2(2)]] by simp_all
  have 4: "length (virtual_methods m) = length (virtual_methods n)" "p4 = r4"
    using uleb_at_unique [OF m(4) n(4) [folded 3(2)]] by simp_all
  have 5: "static_fields m = static_fields n" "q1 = s1"
    using fields_at_unique [OF m(5) n(5) [folded 4(2)] 1(1)] by simp_all
  have 6: "instance_fields m = instance_fields n" "q2 = s2"
    using fields_at_unique [OF m(6) n(6) [folded 5(2)] 2(1)] by simp_all
  have 7: "direct_methods m = direct_methods n" "q3 = s3"
    using methods_at_unique [OF m(7) n(7) [folded 6(2)] 3(1)] by simp_all
  have 8: "virtual_methods m = virtual_methods n"
    using methods_at_unique [OF m(8) n(8) [folded 7(2)] 4(1)] by simp_all
  from 5(1) 6(1) 7(1) 8 show ?thesis by simp
qed

lemma members_agree:
  assumes "class_data_ok c off" and "class_data_defined_by c off cls"
  shows "\<exists>!m. class_data_at (v_img c) (v_begin c + off) m \<and>
    all_members (\<lambda>i. field_in_range c i \<and> field_defined_by c cls i)
      (\<lambda>x. method_verified c x \<and> method_defined_by c cls x) m"
proof -
  obtain m where m: "class_data_at (v_img c) (v_begin c + off) m"
    "all_members (field_in_range c) (method_verified c) m"
    using assms(1) by (auto simp: class_data_ok_def)
  obtain n where n: "class_data_at (v_img c) (v_begin c + off) n"
    "all_members (field_defined_by c cls) (method_defined_by c cls) n"
    using assms(2) by (auto simp: class_data_defined_by_def)
  have "n = m" using class_data_at_unique [OF n(1) m(1)] .
  with m n show ?thesis
    by (intro ex1I [of _ m]) (auto simp: all_members_def dest: class_data_at_unique)
qed

section \<open>Properties\<close>

text \<open>
  C36. \<open>VerifyClassData\<close> never reads outside the image; what it accepts decodes to one list of
  members, each in its table and each with a valid code item, and \<open>CheckClassDataDefiners\<close> then
  accepts only when exactly those members name the class.
\<close>

theorem class_data_sound:
  assumes "vctx_ok c" and "tables_ok c"
  shows "wp (bind (VerifyClassData c off) (\<lambda>_. CheckClassDataDefiners c off cls))
    (\<lambda>_. \<exists>!m. class_data_at (v_img c) (v_begin c + off) m \<and>
       all_members (\<lambda>i. field_in_range c i \<and> field_defined_by c cls i)
         (\<lambda>x. method_verified c x \<and> method_defined_by c cls x) m)"
  unfolding wp_bind
  by (rule wp_conseq [OF wp_VerifyClassData [OF assms(1)]],
      rule wp_conseq [OF wp_CheckClassDataDefiners [OF assms]]) (rule members_agree)

end
