(* ===== verification/Verifier_Values.thy ===== *)
theory Verifier_Values
  imports Verifier_Items Record_Reader
begin

text \<open>
  \<open>VerifyEncodedValue\<close>, \<open>VerifyEncodedArrayAt\<close> and \<open>VerifyEncodedAnnotation\<close>: the recursive
  encoded_value grammar. The three are one mutual recursion on the nesting depth, which the cap
  bounds, and on the number of elements left. What the verdict means is stated over the value
  tree the bytes spell (\<open>evalue\<close>, \<open>ev_at\<close>): accepted bytes spell a tree all of whose references
  are in range.
\<close>

section \<open>Leaves\<close>

definition kMaxDepth :: nat where "kMaxDepth = 16"

definition skip_payload :: "vctx \<Rightarrow> nat \<Rightarrow> nat \<Rightarrow> nat result" where
  "skip_payload c p n =
     (if end_of_file c - p < n then fail ''encoded_value truncated payload'' else Inr (p + n))"

definition index_byte :: "vctx \<Rightarrow> nat \<Rightarrow> nat \<times> 32 word \<Rightarrow> (nat \<times> 32 word) result" where
  "index_byte c i s =
     (if fst s \<ge> end_of_file c then fail ''encoded_value truncated index''
      else bind (rd_u1 (v_img c) (fst s)) (\<lambda>b.
        Inr (Suc (fst s), snd s OR push_bit (8 * i) (ucast b))))"

definition encoded_index :: "vctx \<Rightarrow> nat \<Rightarrow> nat \<Rightarrow> nat \<Rightarrow> string \<Rightarrow> nat result" where
  "encoded_index c p arg limit what =
     (if arg > 3 then fail ''encoded_value bad index size''
      else bind (for_range 0 (arg + 1) (index_byte c) (p, 0)) (\<lambda>(p', v).
        if unat v \<ge> limit then fail what else Inr p'))"

definition encoded_leaf :: "vctx \<Rightarrow> nat \<Rightarrow> nat \<Rightarrow> nat \<Rightarrow> nat result" where
  "encoded_leaf c type arg p =
     (let h = v_hdr c in
      if type = 0x00 then (if arg = 0 then skip_payload c p 1 else fail ''encoded byte size'')
      else if type = 0x02 \<or> type = 0x03
      then (if arg \<le> 1 then skip_payload c p (arg + 1) else fail ''encoded short/char size'')
      else if type = 0x04 \<or> type = 0x10
      then (if arg \<le> 3 then skip_payload c p (arg + 1) else fail ''encoded int/float size'')
      else if type = 0x06 \<or> type = 0x11 then skip_payload c p (arg + 1)
      else if type = 0x15 then encoded_index c p arg (proto_ids_size h) ''encoded method_type idx''
      else if type = 0x16 then encoded_index c p arg (v_mh_count c) ''encoded method_handle idx''
      else if type = 0x17 then encoded_index c p arg (string_ids_size h) ''encoded string idx''
      else if type = 0x18 then encoded_index c p arg (type_ids_size h) ''encoded type idx''
      else if type = 0x19 \<or> type = 0x1b
      then encoded_index c p arg (field_ids_size h) ''encoded field/enum idx''
      else if type = 0x1a then encoded_index c p arg (method_ids_size h) ''encoded method idx''
      else if type = 0x1e then (if arg = 0 then Inr p else fail ''encoded null arg'')
      else if type = 0x1f then (if arg \<le> 1 then Inr p else fail ''encoded boolean size'')
      else fail ''encoded_value bad type code'')"

text \<open>The two numbers an encoded_annotation starts with; the result is its size and the cursor.\<close>

definition annotation_head :: "vctx \<Rightarrow> nat \<Rightarrow> (nat \<times> nat) result" where
  "annotation_head c p =
     bind (uleb c p ''encoded_annotation bad type'') (\<lambda>(type_idx, p1).
       if type_idx \<ge> type_ids_size (v_hdr c) then fail ''encoded_annotation type idx''
       else uleb c p1 ''encoded_annotation bad size'')"

definition element_name :: "vctx \<Rightarrow> nat \<Rightarrow> nat result" where
  "element_name c p =
     bind (uleb c p ''encoded_annotation bad name'') (\<lambda>(name_idx, p1).
       if name_idx \<ge> string_ids_size (v_hdr c) then fail ''encoded_annotation name idx''
       else Inr p1)"

section \<open>The recursion\<close>

function (sequential)
  VerifyEncodedValue :: "vctx \<Rightarrow> nat \<Rightarrow> nat \<Rightarrow> nat result" and
  encoded_values :: "vctx \<Rightarrow> nat \<Rightarrow> nat \<Rightarrow> nat \<Rightarrow> nat result" and
  encoded_elements :: "vctx \<Rightarrow> nat \<Rightarrow> nat \<Rightarrow> nat \<Rightarrow> nat result"
where
  "VerifyEncodedValue c depth p =
     (if depth > kMaxDepth then fail ''encoded_value nested too deep''
      else if p \<ge> end_of_file c then fail ''encoded_value truncated header''
      else bind (rd_u1 (v_img c) p) (\<lambda>header.
        let type = unat (header AND 0x1f); arg = unat (drop_bit 5 header) in
        if type = 0x1c then
          (if arg \<noteq> 0 then fail ''encoded array arg''
           else bind (uleb c (Suc p) ''encoded_array bad size'') (\<lambda>s.
             encoded_values c (Suc depth) (fst s) (snd s)))
        else if type = 0x1d then
          (if arg \<noteq> 0 then fail ''encoded annotation arg''
           else bind (annotation_head c (Suc p)) (\<lambda>s.
             encoded_elements c (Suc depth) (fst s) (snd s)))
        else encoded_leaf c type arg (Suc p)))"
| "encoded_values c depth 0 p = Inr p"
| "encoded_values c depth (Suc n) p =
     bind (VerifyEncodedValue c depth p) (\<lambda>p'. encoded_values c depth n p')"
| "encoded_elements c depth 0 p = Inr p"
| "encoded_elements c depth (Suc n) p =
     bind (element_name c p) (\<lambda>p1. bind (VerifyEncodedValue c depth p1) (\<lambda>p2.
       encoded_elements c depth n p2))"
  by pat_completeness auto
termination
  by (relation "(\<lambda>x. case x of Inl (c, d, p) \<Rightarrow> 18 - d
        | Inr (Inl (c, d, n, p)) \<Rightarrow> 18 - d | Inr (Inr (c, d, n, p)) \<Rightarrow> 18 - d)
      <*mlex*> measure (\<lambda>x. case x of Inl _ \<Rightarrow> 0
        | Inr (Inl (c, d, n, p)) \<Rightarrow> n | Inr (Inr (c, d, n, p)) \<Rightarrow> n)")
    (auto simp: mlex_prod_def kMaxDepth_def wf_mlex)

declare VerifyEncodedValue.simps [simp del]

definition VerifyEncodedAnnotation :: "vctx \<Rightarrow> nat \<Rightarrow> nat \<Rightarrow> nat result" where
  "VerifyEncodedAnnotation c depth p =
     bind (annotation_head c p) (\<lambda>s. encoded_elements c (Suc depth) (fst s) (snd s))"

definition VerifyEncodedArrayAt :: "vctx \<Rightarrow> nat \<Rightarrow> unit result" where
  "VerifyEncodedArrayAt c off =
     (let p = offset_to_ptr c off in
      if p < v_begin c \<or> p \<ge> end_of_file c then fail ''encoded_array offset out of range''
      else bind (uleb c p ''encoded_array bad size'') (\<lambda>(size, p1).
        bind (encoded_values c 0 size p1) (\<lambda>_. Inr ())))"

section \<open>The value tree\<close>

text \<open>
  What the bytes spell, read without any check: a scalar of a type with its payload, a
  reference of a type to an index, an array, an annotation.
\<close>

datatype evalue =
    EScalar nat "8 word list"
  | ERef nat nat
  | EConst nat nat
  | EArray "evalue list"
  | EAnnotation nat "(nat \<times> evalue) list"

definition scalar_types :: "nat list" where "scalar_types = [0x00, 0x02, 0x03, 0x04, 0x10, 0x06, 0x11]"
definition ref_types :: "nat list" where "ref_types = [0x15, 0x16, 0x17, 0x18, 0x19, 0x1b, 0x1a]"
definition const_types :: "nat list" where "const_types = [0x1e, 0x1f]"

text \<open>Little-endian value of the bytes from \<open>p\<close> on.\<close>

definition le_value :: "8 word list \<Rightarrow> nat" where
  "le_value bs = foldr (\<lambda>b acc. unat b + 256 * acc) bs 0"

lemma le_value_snoc: "le_value (bs @ [b]) = le_value bs + 256 ^ length bs * unat b"
proof -
  have "foldr (\<lambda>b acc. unat b + 256 * acc) bs x = le_value bs + 256 ^ length bs * x" for x
    by (induction bs) (simp_all add: le_value_def algebra_simps)
  from this [of "unat b"] show ?thesis by (simp add: le_value_def)
qed

lemma le_value_less: "le_value bs < 256 ^ length bs"
proof (induction bs rule: rev_induct)
  case (snoc b bs)
  have "unat b + 1 \<le> 256" using unat_byte_less [of b] by simp
  have "le_value (bs @ [b]) < 256 ^ length bs * (unat b + 1)"
    using snoc by (simp add: le_value_snoc)
  also have "\<dots> \<le> 256 ^ length bs * 256" using \<open>unat b + 1 \<le> 256\<close> by (rule mult_le_mono2)
  finally show ?case by (simp add: mult.commute)
qed (simp add: le_value_def)

lemma unat_or_shift:
  fixes w :: "32 word" and b :: "8 word"
  assumes "unat w < 2 ^ k" and "k \<le> 24"
  shows "unat (w OR push_bit k (ucast b)) = unat w + 2 ^ k * unat b"
proof -
  have "unat (ucast b :: 32 word) = unat b"
    using unat_byte_less [of b] by (simp add: unsigned_ucast_eq take_bit_nat_eq_self)
  moreover have "unat w + 2 ^ k * unat b < 4294967296"
  proof -
    have "unat b + 1 \<le> 2 ^ 8" using unat_byte_less [of b] by simp
    then have "2 ^ k * (unat b + 1) \<le> 2 ^ k * 2 ^ 8" by (rule mult_le_mono2)
    also have "\<dots> = (2 :: nat) ^ (k + 8)" by (simp add: power_add)
    also have "\<dots> \<le> 2 ^ 32" using assms(2) by (intro power_increasing) auto
    finally show ?thesis using assms(1) by (simp add: algebra_simps)
  qed
  ultimately show ?thesis using unat_or_push_bit [OF assms(1), of "ucast b"] by simp
qed

lemma wp_index_bytes:
  assumes "vctx_ok c" and "n \<le> 4" and "p \<le> end_of_file c"
  shows "wp (for_range 0 n (index_byte c) (p, 0)) (\<lambda>(p', v). p' = p + n \<and> p' \<le> end_of_file c \<and>
    unat v = le_value (bytes_at (v_img c) p n))"
proof -
  let ?Inv = "\<lambda>j (s :: nat \<times> 32 word). fst s = p + j \<and> fst s \<le> end_of_file c \<and> unat (snd s) = le_value (bytes_at (v_img c) p j)"
  have "wp (for_range 0 n (index_byte c) (p, 0)) (?Inv n)"
  proof (rule wp_for_range [where Inv = ?Inv])
    show "?Inv 0 (p, 0)" using assms by (simp add: bytes_at_def le_value_def)
    fix j s assume j: "j < n" and s: "?Inv j s"
    show "wp (index_byte c j s) (?Inv (Suc j))"
    proof (cases "p + j < end_of_file c")
      case True
      let ?b = "v_img c ! (p + j)"
      have len: "p + j < length (v_img c)" using True vctx_okD [OF assms(1)] by simp
      have "unat (snd s) < 2 ^ (8 * j)"
        using s le_value_less [of "bytes_at (v_img c) p j"] len
        by (simp add: length_bytes_at power_mult)
      then have "unat (snd s OR push_bit (8 * j) (ucast ?b)) = unat (snd s) + 256 ^ j * unat ?b"
        using unat_or_shift [of "snd s" "8 * j" ?b] j assms(2) by (simp add: power_mult)
      then show ?thesis
        using s True len by (simp add: index_byte_def wp_rules bytes_at_Suc le_value_snoc length_bytes_at)
    qed (use s in \<open>simp add: index_byte_def wp_rules\<close>)
  qed simp
  then show ?thesis by (rule wp_conseq) (auto split: prod.splits)
qed

section \<open>Bytes that spell a value\<close>

definition value_type :: "8 word \<Rightarrow> nat" where "value_type header = unat (header AND 0x1f)"
definition value_arg :: "8 word \<Rightarrow> nat" where "value_arg header = unat (drop_bit 5 header)"

inductive ev_at :: "image \<Rightarrow> nat \<Rightarrow> evalue \<Rightarrow> nat \<Rightarrow> bool"
  and evs_at :: "image \<Rightarrow> nat \<Rightarrow> evalue list \<Rightarrow> nat \<Rightarrow> bool"
  and els_at :: "image \<Rightarrow> nat \<Rightarrow> (nat \<times> evalue) list \<Rightarrow> nat \<Rightarrow> bool"
  for im
where
  scalar: "p < length im \<Longrightarrow> value_type (im ! p) = t \<Longrightarrow> t \<in> set scalar_types \<Longrightarrow>
    n = Suc (value_arg (im ! p)) \<Longrightarrow> ev_at im p (EScalar t (bytes_at im (Suc p) n)) (Suc p + n)"
| ref: "p < length im \<Longrightarrow> value_type (im ! p) = t \<Longrightarrow> t \<in> set ref_types \<Longrightarrow>
    n = Suc (value_arg (im ! p)) \<Longrightarrow>
    ev_at im p (ERef t (le_value (bytes_at im (Suc p) n))) (Suc p + n)"
| const: "p < length im \<Longrightarrow> value_type (im ! p) = t \<Longrightarrow> t \<in> set const_types \<Longrightarrow>
    ev_at im p (EConst t (value_arg (im ! p))) (Suc p)"
| array: "p < length im \<Longrightarrow> value_type (im ! p) = 0x1c \<Longrightarrow> uleb_at im (Suc p) (length vs) q \<Longrightarrow>
    evs_at im q vs p' \<Longrightarrow> ev_at im p (EArray vs) p'"
| annotation: "p < length im \<Longrightarrow> value_type (im ! p) = 0x1d \<Longrightarrow> uleb_at im (Suc p) ty q1 \<Longrightarrow>
    uleb_at im q1 (length els) q2 \<Longrightarrow> els_at im q2 els p' \<Longrightarrow> ev_at im p (EAnnotation ty els) p'"
| no_values: "evs_at im p [] p"
| value_cons: "ev_at im p v q \<Longrightarrow> evs_at im q vs p' \<Longrightarrow> evs_at im p (v # vs) p'"
| no_elements: "els_at im p [] p"
| element_cons: "uleb_at im p name q1 \<Longrightarrow> ev_at im q1 v q2 \<Longrightarrow> els_at im q2 els p' \<Longrightarrow>
    els_at im p ((name, v) # els) p'"

text \<open>The references of a value are in range; how deep a value nests.\<close>

definition ref_limit :: "vctx \<Rightarrow> nat \<Rightarrow> nat" where
  "ref_limit c t =
     (if t = 0x15 then proto_ids_size (v_hdr c) else if t = 0x16 then v_mh_count c
      else if t = 0x17 then string_ids_size (v_hdr c) else if t = 0x18 then type_ids_size (v_hdr c)
      else if t = 0x1a then method_ids_size (v_hdr c) else field_ids_size (v_hdr c))"

definition scalar_width :: "nat \<Rightarrow> nat" where
  "scalar_width t = (if t = 0x00 then 1 else if t \<in> {0x02, 0x03} then 2
     else if t \<in> {0x04, 0x10} then 4 else 8)"

fun ev_ok :: "vctx \<Rightarrow> evalue \<Rightarrow> bool" where
  "ev_ok c (EScalar t bs) \<longleftrightarrow> length bs \<le> scalar_width t"
| "ev_ok c (ERef t i) \<longleftrightarrow> i < ref_limit c t"
| "ev_ok c (EConst t a) \<longleftrightarrow> a \<le> (if t = 0x1f then 1 else 0)"
| "ev_ok c (EArray vs) \<longleftrightarrow> (\<forall>v \<in> set vs. ev_ok c v)"
| "ev_ok c (EAnnotation ty els) \<longleftrightarrow> ty < type_ids_size (v_hdr c) \<and>
     (\<forall>(n, v) \<in> set els. n < string_ids_size (v_hdr c) \<and> ev_ok c v)"

fun ev_depth :: "evalue \<Rightarrow> nat" where
  "ev_depth (EScalar t bs) = 0"
| "ev_depth (ERef t i) = 0"
| "ev_depth (EConst t a) = 0"
| "ev_depth (EArray vs) = fold max (map (\<lambda>v. Suc (ev_depth v)) vs) 0"
| "ev_depth (EAnnotation ty els) = fold max (map (\<lambda>(n, v). Suc (ev_depth v)) els) 0"

definition ev_accepted :: "vctx \<Rightarrow> nat \<Rightarrow> nat \<Rightarrow> nat \<Rightarrow> bool" where
  "ev_accepted c d p p' \<longleftrightarrow> p < p' \<and> p' \<le> end_of_file c \<and>
     (\<exists>v. ev_at (v_img c) p v p' \<and> ev_ok c v \<and> d + ev_depth v \<le> kMaxDepth)"

definition evs_accepted :: "vctx \<Rightarrow> nat \<Rightarrow> nat \<Rightarrow> nat \<Rightarrow> nat \<Rightarrow> bool" where
  "evs_accepted c d n p p' \<longleftrightarrow> p + n \<le> p' \<and> p' \<le> end_of_file c \<and>
     (\<exists>vs. length vs = n \<and> evs_at (v_img c) p vs p' \<and>
        (\<forall>v \<in> set vs. ev_ok c v \<and> d + ev_depth v \<le> kMaxDepth))"

definition els_accepted :: "vctx \<Rightarrow> nat \<Rightarrow> nat \<Rightarrow> nat \<Rightarrow> nat \<Rightarrow> bool" where
  "els_accepted c d n p p' \<longleftrightarrow> p + n \<le> p' \<and> p' \<le> end_of_file c \<and>
     (\<exists>els. length els = n \<and> els_at (v_img c) p els p' \<and>
        (\<forall>(i, v) \<in> set els. i < string_ids_size (v_hdr c) \<and> ev_ok c v \<and> d + ev_depth v \<le> kMaxDepth))"

lemma fold_max_le: "(\<forall>x \<in> set xs. x \<le> k) \<Longrightarrow> b \<le> k \<Longrightarrow> fold max xs b \<le> (k :: nat)"
  by (induction xs arbitrary: b) auto

lemma wp_skip_payload:
  "p \<le> end_of_file c \<Longrightarrow> wp (skip_payload c p n) (\<lambda>p'. p' = p + n \<and> p' \<le> end_of_file c)"
  by (auto simp: skip_payload_def wp_rules)

lemma wp_encoded_index:
  assumes "vctx_ok c" and "p \<le> end_of_file c"
  shows "wp (encoded_index c p arg limit what) (\<lambda>p'. p' = p + Suc arg \<and> p' \<le> end_of_file c \<and>
    le_value (bytes_at (v_img c) p (Suc arg)) < limit)"
  using wp_index_bytes [OF assms(1) _ assms(2), of "arg + 1"]
  by (auto simp: encoded_index_def wp_rules elim!: wp_conseq)

lemma wp_encoded_leaf:
  assumes "vctx_ok c" and p: "p < end_of_file c" and t: "value_type (v_img c ! p) = t"
    and a: "value_arg (v_img c ! p) = a" and d: "d \<le> kMaxDepth"
  shows "wp (encoded_leaf c t a (Suc p)) (ev_accepted c d p)"
proof -
  have len: "p < length (v_img c)" using p vctx_okD [OF assms(1)] by simp
  have scalar: "ev_accepted c d p (Suc p + Suc a)"
    if "t \<in> set scalar_types" "Suc a \<le> scalar_width t" "Suc p + Suc a \<le> end_of_file c"
    using ev_at_evs_at_els_at.scalar [OF len t that(1), of "Suc a"] that a d vctx_okD [OF assms(1)]
    by (auto simp: ev_accepted_def length_bytes_at intro!: exI [of _ "EScalar t (bytes_at (v_img c) (Suc p) (Suc a))"])
  have ref: "ev_accepted c d p (Suc p + Suc a)"
    if "t \<in> set ref_types" "Suc p + Suc a \<le> end_of_file c"
      "le_value (bytes_at (v_img c) (Suc p) (Suc a)) < ref_limit c t"
    using ev_at_evs_at_els_at.ref [OF len t that(1), of "Suc a"] that a d
    by (auto simp: ev_accepted_def intro!: exI [of _ "ERef t (le_value (bytes_at (v_img c) (Suc p) (Suc a)))"])
  have const: "ev_accepted c d p (Suc p)" if "t \<in> set const_types" "a \<le> (if t = 0x1f then 1 else 0)"
    using ev_at_evs_at_els_at.const [OF len t that(1)] that a d p
    by (auto simp: ev_accepted_def intro!: exI [of _ "EConst t a"])
  have skip: "wp (skip_payload c (Suc p) (Suc a)) (ev_accepted c d p)"
    if "t \<in> set scalar_types" "Suc a \<le> scalar_width t"
    by (rule wp_conseq [OF wp_skip_payload]) (use p scalar [OF that] in auto)
  have idx: "wp (encoded_index c (Suc p) a (ref_limit c t) m) (ev_accepted c d p)"
    if "t \<in> set ref_types" for m
    by (rule wp_conseq [OF wp_encoded_index [OF assms(1)]]) (use p ref [OF that] in auto)
  have "a < 8"
  proof -
    have "unat (drop_bit 5 (v_img c ! p)) = unat (v_img c ! p) div 32"
      by (simp only: unat_drop_bit_eq) (simp add: drop_bit_eq_div)
    then show ?thesis using unat_byte_less [of "v_img c ! p"] a by (simp add: value_arg_def)
  qed
  then show ?thesis
    using skip idx const
    unfolding encoded_leaf_def Let_def
    by (auto simp: wp_fail wp_Inr scalar_types_def ref_types_def const_types_def scalar_width_def
        ref_limit_def)
qed

lemma wp_annotation_head:
  assumes "vctx_ok c"
  shows "wp (annotation_head c p) (\<lambda>(n, p'). \<exists>ty q. ty < type_ids_size (v_hdr c) \<and>
    uleb_at (v_img c) p ty q \<and> uleb_at (v_img c) q n p' \<and> p < p' \<and> p' \<le> end_of_file c)"
  unfolding annotation_head_def wp_bind
proof (rule wp_conseq [OF wp_uleb [OF assms]], clarify)
  fix ty q assume ty: "uleb_post c p (ty, q)"
  show "wp (if type_ids_size (v_hdr c) \<le> ty then fail ''encoded_annotation type idx''
      else uleb c q ''encoded_annotation bad size'') (\<lambda>(n, p'). \<exists>ty q. ty < type_ids_size (v_hdr c) \<and>
        uleb_at (v_img c) p ty q \<and> uleb_at (v_img c) q n p' \<and> p < p' \<and> p' \<le> end_of_file c)"
  proof (cases "ty < type_ids_size (v_hdr c)")
    case True
    have "wp (uleb c q ''encoded_annotation bad size'') (\<lambda>(n, p'). \<exists>ty q. ty < type_ids_size (v_hdr c) \<and>
        uleb_at (v_img c) p ty q \<and> uleb_at (v_img c) q n p' \<and> p < p' \<and> p' \<le> end_of_file c)"
    proof (rule wp_conseq [OF wp_uleb [OF assms]], clarify)
      fix n r assume "uleb_post c q (n, r)"
      then show "\<exists>ty q. ty < type_ids_size (v_hdr c) \<and> uleb_at (v_img c) p ty q \<and>
          uleb_at (v_img c) q n r \<and> p < r \<and> r \<le> end_of_file c"
        by (intro exI [of _ ty] exI [of _ q]) (use True ty in \<open>auto simp: uleb_post_def\<close>)
    qed
    with True show ?thesis by simp
  qed (simp add: wp_fail)
qed

lemma wp_element_name:
  assumes "vctx_ok c"
  shows "wp (element_name c p) (\<lambda>p'. \<exists>n < string_ids_size (v_hdr c). uleb_at (v_img c) p n p' \<and>
    p < p' \<and> p' \<le> end_of_file c)"
  unfolding element_name_def wp_bind
proof (rule wp_conseq [OF wp_uleb [OF assms]], clarify)
  fix n q assume "uleb_post c p (n, q)"
  then show "wp (if string_ids_size (v_hdr c) \<le> n then fail ''encoded_annotation name idx''
      else Inr q) (\<lambda>p'. \<exists>n < string_ids_size (v_hdr c). uleb_at (v_img c) p n p' \<and>
    p < p' \<and> p' \<le> end_of_file c)"
    by (auto simp: wp_fail wp_Inr uleb_post_def not_le)
qed

lemma array_accepted:
  assumes "p < length (v_img c)" and "value_type (v_img c ! p) = 0x1c"
    and "uleb_at (v_img c) (Suc p) n q" and "Suc p < q" and "d \<le> kMaxDepth"
    and "evs_accepted c (Suc d) n q p'"
  shows "ev_accepted c d p p'"
proof -
  obtain vs where vs: "length vs = n" "evs_at (v_img c) q vs p'"
    "\<forall>v \<in> set vs. ev_ok c v \<and> Suc d + ev_depth v \<le> kMaxDepth"
    using assms(6) by (auto simp: evs_accepted_def)
  have "Suc (ev_depth v) \<le> kMaxDepth - d" if "v \<in> set vs" for v
    using vs(3) that by fastforce
  then have "ev_depth (EArray vs) \<le> kMaxDepth - d"
    by (auto intro!: fold_max_le simp del: fold_simps)
  then have "d + ev_depth (EArray vs) \<le> kMaxDepth" using assms(5) by simp
  moreover have "ev_at (v_img c) p (EArray vs) p'"
    using ev_at_evs_at_els_at.array [OF assms(1,2)] assms(3) vs(1,2) by blast
  moreover have "ev_ok c (EArray vs)" using vs(3) by simp
  ultimately show ?thesis
    using assms(4,6) unfolding ev_accepted_def evs_accepted_def
    by (auto intro!: exI [of _ "EArray vs"] simp del: ev_depth.simps ev_ok.simps)
qed

lemma annotation_accepted:
  assumes "p < length (v_img c)" and "value_type (v_img c ! p) = 0x1d" and "d \<le> kMaxDepth"
    and "ty < type_ids_size (v_hdr c)" "uleb_at (v_img c) (Suc p) ty q1" "uleb_at (v_img c) q1 n q"
      "Suc p < q"
    and "els_accepted c (Suc d) n q p'"
  shows "ev_accepted c d p p'"
proof -
  obtain els where els: "length els = n" "els_at (v_img c) q els p'"
    "\<forall>(i, v) \<in> set els. i < string_ids_size (v_hdr c) \<and> ev_ok c v \<and> Suc d + ev_depth v \<le> kMaxDepth"
    using assms(8) by (auto simp: els_accepted_def)
  have "Suc (ev_depth v) \<le> kMaxDepth - d" if "(i, v) \<in> set els" for i v
    using els(3) that by fastforce
  then have "ev_depth (EAnnotation ty els) \<le> kMaxDepth - d"
    by (auto intro!: fold_max_le simp del: fold_simps)
  then have "d + ev_depth (EAnnotation ty els) \<le> kMaxDepth" using assms(3) by simp
  moreover have "ev_at (v_img c) p (EAnnotation ty els) p'"
    using ev_at_evs_at_els_at.annotation [OF assms(1,2,5)] assms(6) els(1,2) by blast
  moreover have "ev_ok c (EAnnotation ty els)" using els(3) assms(4) by auto
  ultimately show ?thesis
    using assms(7,8) unfolding ev_accepted_def els_accepted_def
    by (auto intro!: exI [of _ "EAnnotation ty els"] simp del: ev_depth.simps ev_ok.simps)
qed

lemma evs_accepted_Cons:
  "ev_accepted c d p q \<Longrightarrow> evs_accepted c d n q p' \<Longrightarrow> evs_accepted c d (Suc n) p p'"
  unfolding ev_accepted_def evs_accepted_def
  by (elim conjE exE) (force intro: ev_at_evs_at_els_at.value_cons)

lemma els_accepted_Cons:
  assumes "i < string_ids_size (v_hdr c)" "uleb_at (v_img c) p i q1" "p < q1"
    "ev_accepted c d q1 q2" "els_accepted c d n q2 p'"
  shows "els_accepted c d (Suc n) p p'"
proof -
  obtain v where v: "ev_at (v_img c) q1 v q2" "ev_ok c v" "d + ev_depth v \<le> kMaxDepth"
    using assms(4) by (auto simp: ev_accepted_def)
  obtain els where els: "length els = n" "els_at (v_img c) q2 els p'"
    "\<forall>(i, v) \<in> set els. i < string_ids_size (v_hdr c) \<and> ev_ok c v \<and> d + ev_depth v \<le> kMaxDepth"
    using assms(5) by (auto simp: els_accepted_def)
  have "els_at (v_img c) p ((i, v) # els) p'"
    using assms(2) v(1) els(2) by (rule ev_at_evs_at_els_at.element_cons)
  then show ?thesis
    using assms v els unfolding els_accepted_def ev_accepted_def
    by (intro conjI exI [of _ "(i, v) # els"]) auto
qed

lemma wp_encoded:
  "vctx_ok c \<Longrightarrow> wp (VerifyEncodedValue c d p) (ev_accepted c d p)"
  "vctx_ok c \<Longrightarrow> q \<le> end_of_file c \<Longrightarrow> wp (encoded_values c d n q) (evs_accepted c d n q)"
  "vctx_ok c \<Longrightarrow> r \<le> end_of_file c \<Longrightarrow> wp (encoded_elements c d m r) (els_accepted c d m r)"
proof (induction c d p and c d n q and c d m r
    rule: VerifyEncodedValue_encoded_values_encoded_elements.induct)
  case (1 c d p)
  show ?case
  proof (cases "d \<le> kMaxDepth \<and> p < end_of_file c")
    case False
    then show ?thesis by (subst VerifyEncodedValue.simps) (auto simp: wp_rules)
  next
    case True
    then have len: "p < length (v_img c)" and d: "\<not> kMaxDepth < d" "d \<le> kMaxDepth"
      and p: "\<not> end_of_file c \<le> p" "p < end_of_file c"
      using vctx_okD [OF "1.prems"] by auto
    let ?b = "v_img c ! p"
    have rd: "rd_u1 (v_img c) p = Inr ?b" using len by (simp add: rd_u1_def)
    define t where "t = value_type ?b"
    define a where "a = value_arg ?b"
    have ta: "unat (?b AND 0x1f) = t" "unat (drop_bit 5 ?b) = a"
      by (simp_all add: t_def a_def value_type_def value_arg_def)
    have arr: "wp (uleb c (Suc p) ''encoded_array bad size'')
        (\<lambda>s. wp (encoded_values c (Suc d) (fst s) (snd s)) (ev_accepted c d p))"
      if t: "t = 0x1c" "a = 0"
    proof (rule wp_conseq_eq [OF wp_uleb [OF "1.prems"]])
      fix s assume s: "uleb c (Suc p) ''encoded_array bad size'' = Inr s" "uleb_post c (Suc p) s"
      then have u: "uleb_at (v_img c) (Suc p) (fst s) (snd s)" "Suc p < snd s" "snd s \<le> end_of_file c"
        by (auto simp: uleb_post_def split: prod.splits)
      have "wp (encoded_values c (Suc d) (fst s) (snd s)) (evs_accepted c (Suc d) (fst s) (snd s))"
        by (rule "1.IH"(1) [OF d(1) p(1) rd refl refl _ _ s(1) "1.prems" u(3)])
          (use ta t in simp_all)
      then show "wp (encoded_values c (Suc d) (fst s) (snd s)) (ev_accepted c d p)"
        by (rule wp_conseq) (rule array_accepted [OF len _ u(1,2) d(2)], use t in \<open>simp_all add: t_def\<close>)
    qed
    have ann: "wp (annotation_head c (Suc p))
        (\<lambda>s. wp (encoded_elements c (Suc d) (fst s) (snd s)) (ev_accepted c d p))"
      if t: "t = 0x1d" "a = 0"
    proof (rule wp_conseq_eq [OF wp_annotation_head [OF "1.prems"]])
      fix s assume s: "annotation_head c (Suc p) = Inr s" "case s of (n, p') \<Rightarrow>
        \<exists>ty q. ty < type_ids_size (v_hdr c) \<and> uleb_at (v_img c) (Suc p) ty q \<and>
          uleb_at (v_img c) q n p' \<and> Suc p < p' \<and> p' \<le> end_of_file c"
      then obtain ty q where u: "ty < type_ids_size (v_hdr c)" "uleb_at (v_img c) (Suc p) ty q"
          "uleb_at (v_img c) q (fst s) (snd s)" "Suc p < snd s" "snd s \<le> end_of_file c"
        by (auto split: prod.splits)
      have "wp (encoded_elements c (Suc d) (fst s) (snd s)) (els_accepted c (Suc d) (fst s) (snd s))"
        by (rule "1.IH"(2) [OF d(1) p(1) rd refl refl _ _ _ s(1) "1.prems" u(5)])
          (use ta t in simp_all)
      then show "wp (encoded_elements c (Suc d) (fst s) (snd s)) (ev_accepted c d p)"
        by (rule wp_conseq)
          (rule annotation_accepted [OF len _ d(2) u(1-4)], use t in \<open>simp_all add: t_def\<close>)
    qed
    have leaf: "wp (encoded_leaf c t a (Suc p)) (ev_accepted c d p)"
      by (rule wp_encoded_leaf [OF "1.prems" p(2) _ _ d(2)]) (simp_all add: t_def a_def)
    show ?thesis
      using d p rd ta arr ann leaf
      by (subst VerifyEncodedValue.simps) (auto simp: wp_bind wp_if wp_fail Let_def)
  qed
next
  case (2 c d p)
  then show ?case by (auto simp: wp_Inr evs_accepted_def intro: ev_at_evs_at_els_at.no_values)
next
  case (3 c d n p)
  have "wp (VerifyEncodedValue c d p) (\<lambda>p'. wp (encoded_values c d n p') (evs_accepted c d (Suc n) p))"
  proof (rule wp_conseq_eq [OF "3.IH"(1) [OF "3.prems"(1)]])
    fix q assume q: "VerifyEncodedValue c d p = Inr q" "ev_accepted c d p q"
    then have "q \<le> end_of_file c" by (simp add: ev_accepted_def)
    from "3.IH"(2) [OF q(1) "3.prems"(1) this]
    show "wp (encoded_values c d n q) (evs_accepted c d (Suc n) p)"
      by (rule wp_conseq) (rule evs_accepted_Cons [OF q(2)])
  qed
  then show ?case by (simp add: wp_bind)
next
  case (4 c d p)
  then show ?case by (auto simp: wp_Inr els_accepted_def intro: ev_at_evs_at_els_at.no_elements)
next
  case (5 c d n p)
  have "wp (element_name c p) (\<lambda>p1. wp (VerifyEncodedValue c d p1) (\<lambda>p2.
    wp (encoded_elements c d n p2) (els_accepted c d (Suc n) p)))"
  proof (rule wp_conseq_eq [OF wp_element_name [OF "5.prems"(1)]])
    fix q1 assume q1: "element_name c p = Inr q1" "\<exists>i < string_ids_size (v_hdr c).
      uleb_at (v_img c) p i q1 \<and> p < q1 \<and> q1 \<le> end_of_file c"
    then obtain i where i: "i < string_ids_size (v_hdr c)" "uleb_at (v_img c) p i q1" "p < q1" by blast
    show "wp (VerifyEncodedValue c d q1) (\<lambda>p2. wp (encoded_elements c d n p2) (els_accepted c d (Suc n) p))"
    proof (rule wp_conseq_eq [OF "5.IH"(1) [OF q1(1) "5.prems"(1)]])
      fix q2 assume q2: "VerifyEncodedValue c d q1 = Inr q2" "ev_accepted c d q1 q2"
      then have "q2 \<le> end_of_file c" by (simp add: ev_accepted_def)
      from "5.IH"(2) [OF q1(1) q2(1) "5.prems"(1) this]
      show "wp (encoded_elements c d n q2) (els_accepted c d (Suc n) p)"
        by (rule wp_conseq) (rule els_accepted_Cons [OF i q2(2)])
    qed
  qed
  then show ?case by (simp add: wp_bind)
qed

section \<open>What accepted arrays and annotations are\<close>

definition encoded_array_ok :: "vctx \<Rightarrow> nat \<Rightarrow> bool" where
  "encoded_array_ok c off \<longleftrightarrow> v_begin c + off < end_of_file c \<and>
     (\<exists>vs q p'. uleb_at (v_img c) (v_begin c + off) (length vs) q \<and> evs_at (v_img c) q vs p' \<and>
        p' \<le> end_of_file c \<and> (\<forall>v \<in> set vs. ev_ok c v))"

definition encoded_annotation_ok :: "vctx \<Rightarrow> nat \<Rightarrow> nat \<Rightarrow> bool" where
  "encoded_annotation_ok c p p' \<longleftrightarrow> p' \<le> end_of_file c \<and>
     (\<exists>ty els q1 q2. uleb_at (v_img c) p ty q1 \<and> uleb_at (v_img c) q1 (length els) q2 \<and>
        els_at (v_img c) q2 els p' \<and> ev_ok c (EAnnotation ty els))"

lemma wp_VerifyEncodedArrayAt:
  assumes "vctx_ok c"
  shows "wp (VerifyEncodedArrayAt c off) (\<lambda>_. encoded_array_ok c off)"
proof -
  have "wp (encoded_values c 0 n q) (\<lambda>_. encoded_array_ok c off)"
    if u: "uleb_post c (v_begin c + off) (n, q)" and "v_begin c + off < end_of_file c" for n q
  proof (rule wp_conseq [OF wp_encoded(2) [OF assms]])
    show "q \<le> end_of_file c" using u by (simp add: uleb_post_def)
    fix p' assume "evs_accepted c 0 n q p'"
    then show "encoded_array_ok c off"
      using u that(2) by (auto simp: evs_accepted_def encoded_array_ok_def uleb_post_def)
  qed
  then show ?thesis
    unfolding VerifyEncodedArrayAt_def Let_def
    by (auto simp: wp_rules offset_to_ptr_def intro!: wp_lebI [OF assms])
qed

lemma wp_VerifyEncodedAnnotation:
  assumes "vctx_ok c"
  shows "wp (VerifyEncodedAnnotation c d p) (encoded_annotation_ok c p)"
proof -
  have "wp (annotation_head c p) (\<lambda>s. wp (encoded_elements c (Suc d) (fst s) (snd s))
    (encoded_annotation_ok c p))"
  proof (rule wp_conseq [OF wp_annotation_head [OF assms]], clarify)
    fix n q ty q1 assume u: "ty < type_ids_size (v_hdr c)" "uleb_at (v_img c) p ty q1"
      "uleb_at (v_img c) q1 n q" "q \<le> end_of_file c"
    show "wp (encoded_elements c (Suc d) (fst (n, q)) (snd (n, q))) (encoded_annotation_ok c p)"
    proof (rule wp_conseq [OF wp_encoded(3) [OF assms]])
      show "snd (n, q) \<le> end_of_file c" using u by simp
      fix p' assume "els_accepted c (Suc d) (fst (n, q)) (snd (n, q)) p'"
      then obtain els where "length els = n" "els_at (v_img c) q els p'" "p' \<le> end_of_file c"
        "\<forall>(i, v) \<in> set els. i < string_ids_size (v_hdr c) \<and> ev_ok c v"
        by (auto simp: els_accepted_def)
      then show "encoded_annotation_ok c p p'"
        using u(1-3) unfolding encoded_annotation_ok_def
        by (intro conjI exI [of _ ty] exI [of _ els] exI [of _ q1] exI [of _ q]) auto
    qed
  qed
  then show ?thesis by (simp add: VerifyEncodedAnnotation_def wp_bind)
qed

section \<open>Properties\<close>

text \<open>
  C20. \<open>VerifyEncodedValue\<close> never reads outside the image; an accepted value is the encoding of a
  value tree whose scalars fit their types, whose references are in range, and whose nesting,
  counted from the caller's depth, is at most 16. The cursor moves past exactly its bytes.
\<close>

theorem encoded_value_sound:
  assumes "vctx_ok c"
  shows "wp (VerifyEncodedValue c depth p) (ev_accepted c depth p)"
  using assms by (rule wp_encoded(1))

end
