(* ===== verification/Verifier_Annotations.thy ===== *)
theory Verifier_Annotations
  imports Verifier_Values
begin

text \<open>
  The annotations subtree of a class: \<open>VerifyAnnotationsDirectory\<close>, \<open>VerifyAnnotationSet\<close>,
  \<open>VerifyAnnotationSetRefList\<close> and \<open>VerifyAnnotationItem\<close>. Each walks an offset once per
  verifier: the four sets of offsets already seen are the state, and the contract that a
  memoised walk keeps is the locale \<open>memo_walk\<close>.
\<close>

section \<open>Memoised walks\<close>

text \<open>
  \<open>walk off s\<close> returns at once when \<open>off\<close> is in the memo, and otherwise records it and runs
  \<open>body\<close>. If the body establishes \<open>ok off\<close> and leaves this memo alone, then every offset in the
  memo is \<open>ok\<close> after every successful walk, and a second walk of an offset changes nothing.
\<close>

locale memo_walk =
  fixes memo :: "'s \<Rightarrow> nat set"
    and record_off :: "nat \<Rightarrow> 's \<Rightarrow> 's"
    and base :: "'s \<Rightarrow> bool"
    and ok :: "nat \<Rightarrow> bool"
    and body :: "nat \<Rightarrow> 's \<Rightarrow> 's result"
    and walk :: "nat \<Rightarrow> 's \<Rightarrow> 's result"
  assumes walk_eq: "walk off s = (if off \<in> memo s then Inr s else body off (record_off off s))"
    and memo_record: "memo (record_off off s) = insert off (memo s)"
    and base_record: "base s \<Longrightarrow> base (record_off off s)"
    and body_ok: "base s \<Longrightarrow> wp (body off s) (\<lambda>s'. ok off \<and> base s' \<and> memo s' = memo s)"
begin

definition sound :: "'s \<Rightarrow> bool" where
  "sound s \<longleftrightarrow> base s \<and> (\<forall>off \<in> memo s. ok off)"

lemma walk_sound:
  assumes "sound s"
  shows "wp (walk off s) (\<lambda>s'. ok off \<and> sound s' \<and> memo s' = insert off (memo s))"
proof (cases "off \<in> memo s")
  case True
  then show ?thesis using assms by (auto simp: walk_eq wp_Inr sound_def)
next
  case False
  have "base (record_off off s)" using assms base_record by (simp add: sound_def)
  from wp_conseq [OF body_ok [OF this]] show ?thesis
    using False assms by (simp add: walk_eq sound_def memo_record)
qed

lemma walk_again: "off \<in> memo s \<Longrightarrow> walk off s = Inr s"
  by (simp add: walk_eq)

end

record ann_seen =
  seen_dir :: "nat set"    \<comment> \<open>\<open>seen_ann_dir_\<close>\<close>
  seen_set :: "nat set"    \<comment> \<open>\<open>seen_ann_set_\<close>\<close>
  seen_ref :: "nat set"    \<comment> \<open>\<open>seen_ann_ref_\<close>\<close>
  seen_item :: "nat set"   \<comment> \<open>\<open>seen_ann_item_\<close>\<close>

definition no_ann_seen :: ann_seen where
  "no_ann_seen = \<lparr>seen_dir = {}, seen_set = {}, seen_ref = {}, seen_item = {}\<rparr>"

section \<open>annotation_item\<close>

definition kVisibilityBuild :: "8 word" where "kVisibilityBuild = 0x00"
definition kVisibilityRuntime :: "8 word" where "kVisibilityRuntime = 0x01"
definition kVisibilitySystem :: "8 word" where "kVisibilitySystem = 0x02"

definition annotation_item_body :: "vctx \<Rightarrow> nat \<Rightarrow> ann_seen \<Rightarrow> ann_seen result" where
  "annotation_item_body c off s =
     (let p = offset_to_ptr c off in
      bind (check_list_size c p 1 1 ''annotation_item'') (\<lambda>_.
      bind (rd_u1 (v_img c) p) (\<lambda>vis.
        if vis \<noteq> kVisibilityBuild \<and> vis \<noteq> kVisibilityRuntime \<and> vis \<noteq> kVisibilitySystem
        then fail ''Bad annotation visibility''
        else bind (VerifyEncodedAnnotation c 0 (Suc p)) (\<lambda>_. Inr s))))"

definition VerifyAnnotationItem :: "vctx \<Rightarrow> nat \<Rightarrow> ann_seen \<Rightarrow> ann_seen result" where
  "VerifyAnnotationItem c off s =
     (if off \<in> seen_item s then Inr s
      else annotation_item_body c off (s\<lparr>seen_item := insert off (seen_item s)\<rparr>))"

section \<open>annotation_set_item\<close>

definition AnnotationStructAt :: "vctx \<Rightarrow> nat \<Rightarrow> nat \<Rightarrow> string \<Rightarrow> nat result" where
  "AnnotationStructAt c off sz who =
     (if off mod 4 \<noteq> 0 then fail (who @ '': misaligned offset'')
      else bind (check_list_size c (offset_to_ptr c off) 1 sz who) (\<lambda>_. Inr (offset_to_ptr c off)))"

definition set_entry :: "vctx \<Rightarrow> nat \<Rightarrow> nat \<Rightarrow> ann_seen \<Rightarrow> ann_seen result" where
  "set_entry c entries i s =
     bind (rd_u4 (v_img c) (entries + i * 4)) (\<lambda>e.
       if e = 0 then fail ''annotation_set entry offset is 0'' else VerifyAnnotationItem c e s)"

definition annotation_set_body :: "vctx \<Rightarrow> nat \<Rightarrow> ann_seen \<Rightarrow> ann_seen result" where
  "annotation_set_body c off s =
     bind (AnnotationStructAt c off sizeof_AnnotationSetItem ''annotation_set'') (\<lambda>p.
     bind (rd_u4 (v_img c) p) (\<lambda>size.
     bind (check_list_size c (p + 4) size 4 ''annotation_set entries'') (\<lambda>_.
       for_range 0 size (set_entry c (p + 4)) s)))"

definition VerifyAnnotationSet :: "vctx \<Rightarrow> nat \<Rightarrow> ann_seen \<Rightarrow> ann_seen result" where
  "VerifyAnnotationSet c off s =
     (if off \<in> seen_set s then Inr s
      else annotation_set_body c off (s\<lparr>seen_set := insert off (seen_set s)\<rparr>))"

section \<open>annotation_set_ref_list\<close>

definition ref_entry :: "vctx \<Rightarrow> nat \<Rightarrow> nat \<Rightarrow> ann_seen \<Rightarrow> ann_seen result" where
  "ref_entry c entries i s =
     bind (rd_u4 (v_img c) (entries + i * sizeof_AnnotationSetRefItem)) (\<lambda>e.
       if e \<noteq> 0 then VerifyAnnotationSet c e s else Inr s)"

definition annotation_ref_body :: "vctx \<Rightarrow> nat \<Rightarrow> ann_seen \<Rightarrow> ann_seen result" where
  "annotation_ref_body c off s =
     bind (AnnotationStructAt c off sizeof_AnnotationSetRefList ''annotation_set_ref_list'') (\<lambda>p.
     bind (rd_u4 (v_img c) p) (\<lambda>size.
     bind (check_list_size c (p + 4) size sizeof_AnnotationSetRefItem
             ''annotation_set_ref_list entries'') (\<lambda>_.
       for_range 0 size (ref_entry c (p + 4)) s)))"

definition VerifyAnnotationSetRefList :: "vctx \<Rightarrow> nat \<Rightarrow> ann_seen \<Rightarrow> ann_seen result" where
  "VerifyAnnotationSetRefList c off s =
     (if off \<in> seen_ref s then Inr s
      else annotation_ref_body c off (s\<lparr>seen_ref := insert off (seen_ref s)\<rparr>))"

section \<open>annotations_directory_item\<close>

text \<open>
  One entry of a per-member list: the member index in range and above the previous one, the
  offset present, and the structure at the offset walked. The state is the previous index and
  the memo.
\<close>

definition member_entry ::
    "vctx \<Rightarrow> nat \<Rightarrow> nat \<Rightarrow> string \<Rightarrow> string \<Rightarrow> string \<Rightarrow> (nat \<Rightarrow> ann_seen \<Rightarrow> ann_seen result) \<Rightarrow>
     nat \<Rightarrow> nat \<times> ann_seen \<Rightarrow> (nat \<times> ann_seen) result" where
  "member_entry c list limit label order_msg zero_msg walk i ls =
     (case ls of (prev, s) \<Rightarrow>
      bind (rd_member_annotations (v_img c) (list + i * sizeof_MemberAnnotationsItem)) (\<lambda>a.
      bind (check_index (ma_idx a) limit label) (\<lambda>_.
        if i \<noteq> 0 \<and> prev \<ge> ma_idx a then fail order_msg
        else if ma_annotations_off a = 0 then fail zero_msg
        else bind (walk (ma_annotations_off a) s) (\<lambda>s'. Inr (ma_idx a, s')))))"

definition member_list ::
    "vctx \<Rightarrow> nat \<Rightarrow> nat \<Rightarrow> nat \<Rightarrow> string \<Rightarrow> string \<Rightarrow> string \<Rightarrow> string \<Rightarrow>
     (nat \<Rightarrow> ann_seen \<Rightarrow> ann_seen result) \<Rightarrow> ann_seen \<Rightarrow> ann_seen result" where
  "member_list c list count limit list_label label order_msg zero_msg walk s =
     bind (check_list_size c list count sizeof_MemberAnnotationsItem list_label) (\<lambda>_.
     bind (for_range 0 count (member_entry c list limit label order_msg zero_msg walk) (0, s)) (\<lambda>ls.
       Inr (snd ls)))"

definition annotations_directory_body :: "vctx \<Rightarrow> nat \<Rightarrow> ann_seen \<Rightarrow> ann_seen result" where
  "annotations_directory_body c off s =
     (let h = v_hdr c in
      bind (AnnotationStructAt c off sizeof_AnnotationsDirectoryItem ''annotations_directory'') (\<lambda>p.
      bind (rd_annotations_directory (v_img c) p) (\<lambda>dir.
      bind (if class_annotations_off dir \<noteq> 0
            then VerifyAnnotationSet c (class_annotations_off dir) s else Inr s) (\<lambda>s1.
        let fa = p + sizeof_AnnotationsDirectoryItem;
            ma = fa + fields_size dir * sizeof_MemberAnnotationsItem;
            pa = ma + methods_size dir * sizeof_MemberAnnotationsItem in
        bind (member_list c fa (fields_size dir) (field_ids_size h) ''field_annotations list''
            ''field annotation'' ''Out-of-order field_idx for annotation''
            ''field_annotation annotations_off is 0'' (VerifyAnnotationSet c) s1) (\<lambda>s2.
        bind (member_list c ma (methods_size dir) (method_ids_size h) ''method_annotations list''
            ''method annotation'' ''Out-of-order method_idx for annotation''
            ''method_annotation annotations_off is 0'' (VerifyAnnotationSet c) s2) (\<lambda>s3.
          member_list c pa (parameters_size dir) (method_ids_size h) ''parameter_annotations list''
            ''parameter annotation method'' ''Out-of-order method_idx for annotation''
            ''parameter_annotation annotations_off is 0'' (VerifyAnnotationSetRefList c) s3))))))"

definition VerifyAnnotationsDirectory :: "vctx \<Rightarrow> nat \<Rightarrow> ann_seen \<Rightarrow> ann_seen result" where
  "VerifyAnnotationsDirectory c off s =
     (if off \<in> seen_dir s then Inr s
      else annotations_directory_body c off (s\<lparr>seen_dir := insert off (seen_dir s)\<rparr>))"

section \<open>What the walks establish\<close>

definition annotation_item_ok :: "vctx \<Rightarrow> nat \<Rightarrow> bool" where
  "annotation_item_ok c off \<longleftrightarrow> v_begin c + off < end_of_file c \<and>
     v_img c ! (v_begin c + off) \<in> {kVisibilityBuild, kVisibilityRuntime, kVisibilitySystem} \<and>
     (\<exists>p'. encoded_annotation_ok c (Suc (v_begin c + off)) p')"

text \<open>The \<open>u4\<close> at byte \<open>k\<close> of the structure at \<open>off\<close>.\<close>

definition field4 :: "vctx \<Rightarrow> nat \<Rightarrow> nat \<Rightarrow> nat" where
  "field4 c off k = u4_at (v_img c) (v_begin c + off + k)"

definition annotation_set_ok :: "vctx \<Rightarrow> nat \<Rightarrow> bool" where
  "annotation_set_ok c off \<longleftrightarrow> off mod 4 = 0 \<and>
     v_begin c + off + 4 + field4 c off 0 * 4 \<le> end_of_file c \<and>
     (\<forall>i < field4 c off 0. field4 c off (4 + i * 4) \<noteq> 0 \<and>
        annotation_item_ok c (field4 c off (4 + i * 4)))"

definition annotation_ref_ok :: "vctx \<Rightarrow> nat \<Rightarrow> bool" where
  "annotation_ref_ok c off \<longleftrightarrow> off mod 4 = 0 \<and>
     v_begin c + off + 4 + field4 c off 0 * 4 \<le> end_of_file c \<and>
     (\<forall>i < field4 c off 0. field4 c off (4 + i * 4) \<noteq> 0 \<longrightarrow>
        annotation_set_ok c (field4 c off (4 + i * 4)))"

text \<open>A per-member list at position \<open>lp\<close>.\<close>

definition member_idx :: "vctx \<Rightarrow> nat \<Rightarrow> nat \<Rightarrow> nat" where
  "member_idx c lp i = u4_at (v_img c) (lp + i * 8)"

definition member_off :: "vctx \<Rightarrow> nat \<Rightarrow> nat \<Rightarrow> nat" where
  "member_off c lp i = u4_at (v_img c) (lp + i * 8 + 4)"

definition member_list_ok :: "vctx \<Rightarrow> nat \<Rightarrow> nat \<Rightarrow> nat \<Rightarrow> (nat \<Rightarrow> bool) \<Rightarrow> bool" where
  "member_list_ok c lp n limit P \<longleftrightarrow> lp + n * 8 \<le> end_of_file c \<and>
     (\<forall>i < n. member_idx c lp i < limit \<and> member_off c lp i \<noteq> 0 \<and> P (member_off c lp i)) \<and>
     (\<forall>i. Suc i < n \<longrightarrow> member_idx c lp i < member_idx c lp (Suc i))"

definition annotations_directory_ok :: "vctx \<Rightarrow> nat \<Rightarrow> bool" where
  "annotations_directory_ok c off \<longleftrightarrow>
     (let fa = v_begin c + off + 16; ma = fa + field4 c off 4 * 8; pa = ma + field4 c off 8 * 8 in
      off mod 4 = 0 \<and> fa \<le> end_of_file c \<and>
      (field4 c off 0 \<noteq> 0 \<longrightarrow> annotation_set_ok c (field4 c off 0)) \<and>
      member_list_ok c fa (field4 c off 4) (field_ids_size (v_hdr c)) (annotation_set_ok c) \<and>
      member_list_ok c ma (field4 c off 8) (method_ids_size (v_hdr c)) (annotation_set_ok c) \<and>
      member_list_ok c pa (field4 c off 12) (method_ids_size (v_hdr c)) (annotation_ref_ok c))"

section \<open>The four interpretations\<close>

lemma wp_annotation_item_body:
  assumes "vctx_ok c"
  shows "wp (annotation_item_body c off s) (\<lambda>s'. annotation_item_ok c off \<and> s' = s)"
  using vctx_okD [OF assms]
  by (auto simp: annotation_item_body_def Let_def wp_rules offset_to_ptr_def annotation_item_ok_def
      intro!: wp_check_list_sizeI wp_conseq [OF wp_VerifyEncodedAnnotation [OF assms]])

interpretation item_walk: memo_walk seen_item "\<lambda>off s. s\<lparr>seen_item := insert off (seen_item s)\<rparr>"
    "\<lambda>_. vctx_ok c" "annotation_item_ok c" "annotation_item_body c" "VerifyAnnotationItem c" for c
  by unfold_locales (auto simp: VerifyAnnotationItem_def intro: wp_conseq [OF wp_annotation_item_body])

text \<open>The soundness of each memo, on top of the memos below it.\<close>

definition items_sound :: "vctx \<Rightarrow> ann_seen \<Rightarrow> bool" where
  "items_sound c s \<longleftrightarrow> vctx_ok c \<and> (\<forall>off \<in> seen_item s. annotation_item_ok c off)"

definition sets_sound :: "vctx \<Rightarrow> ann_seen \<Rightarrow> bool" where
  "sets_sound c s \<longleftrightarrow> items_sound c s \<and> (\<forall>off \<in> seen_set s. annotation_set_ok c off)"

definition refs_sound :: "vctx \<Rightarrow> ann_seen \<Rightarrow> bool" where
  "refs_sound c s \<longleftrightarrow> sets_sound c s \<and> (\<forall>off \<in> seen_ref s. annotation_ref_ok c off)"

definition dirs_sound :: "vctx \<Rightarrow> ann_seen \<Rightarrow> bool" where
  "dirs_sound c s \<longleftrightarrow> refs_sound c s \<and> (\<forall>off \<in> seen_dir s. annotations_directory_ok c off)"

lemma item_sound: "item_walk.sound c = items_sound c"
  by (rule ext) (simp only: item_walk.sound_def items_sound_def)

lemma sound_vctx_ok:
  "items_sound c s \<Longrightarrow> vctx_ok c" "sets_sound c s \<Longrightarrow> vctx_ok c" "refs_sound c s \<Longrightarrow> vctx_ok c"
  by (simp_all add: items_sound_def sets_sound_def refs_sound_def)

definition same_upper :: "ann_seen \<Rightarrow> ann_seen \<Rightarrow> bool" where
  "same_upper s s' \<longleftrightarrow> seen_set s' = seen_set s \<and> seen_ref s' = seen_ref s \<and> seen_dir s' = seen_dir s"

lemma wp_VerifyAnnotationItem:
  assumes "items_sound c s"
  shows "wp (VerifyAnnotationItem c off s)
    (\<lambda>s'. annotation_item_ok c off \<and> items_sound c s' \<and> same_upper s s')"
proof -
  have ok: "vctx_ok c" using assms by (rule sound_vctx_ok)
  have "wp (VerifyAnnotationItem c off s) (same_upper s)"
    using wp_annotation_item_body [OF ok, of off "s\<lparr>seen_item := insert off (seen_item s)\<rparr>"]
    by (auto simp: VerifyAnnotationItem_def wp_Inr same_upper_def elim!: wp_conseq)
  with item_walk.walk_sound [of c s off, unfolded item_sound, OF assms] show ?thesis
    by (rule wp_conj [THEN wp_conseq]) simp
qed

lemma wp_AnnotationStructAt:
  "0 < sz \<Longrightarrow> wp (AnnotationStructAt c off sz who)
     (\<lambda>p. off mod 4 = 0 \<and> p = v_begin c + off \<and> p + sz \<le> end_of_file c)"
  by (auto simp: AnnotationStructAt_def wp_rules offset_to_ptr_def intro!: wp_check_list_sizeI)

lemma wp_annotation_set_body:
  assumes s: "items_sound c s"
  shows "wp (annotation_set_body c off s)
    (\<lambda>s'. annotation_set_ok c off \<and> items_sound c s' \<and> same_upper s s')"
proof -
  have ok: "vctx_ok c" using assms by (rule sound_vctx_ok)
  let ?p = "v_begin c + off" and ?n = "field4 c off 0"
  let ?Inv = "\<lambda>j s'. items_sound c s' \<and> same_upper s s' \<and>
    (\<forall>i < j. field4 c off (4 + i * 4) \<noteq> 0 \<and> annotation_item_ok c (field4 c off (4 + i * 4)))"
  have loop: "wp (for_range 0 ?n (set_entry c (?p + 4)) s) (?Inv ?n)"
    if fits: "?p + 4 + ?n * 4 \<le> end_of_file c"
  proof (rule wp_for_range [where Inv = ?Inv])
    show "?Inv 0 s" using s by (simp add: same_upper_def)
    fix j t assume j: "j < ?n" and t: "?Inv j t"
    have "Suc j * 4 \<le> ?n * 4" using j by (intro mult_le_mono1) simp
    then have "?p + 4 + j * 4 + 4 \<le> length (v_img c)" using fits vctx_okD [OF ok] by simp
    moreover have e: "u4_at (v_img c) (?p + 4 + j * 4) = field4 c off (4 + j * 4)"
      by (simp add: field4_def add.assoc)
    ultimately show "wp (set_entry c (?p + 4) j t) (?Inv (Suc j))"
      using t by (auto simp: set_entry_def wp_rules e same_upper_def less_Suc_eq
          intro!: wp_conseq [OF wp_VerifyAnnotationItem])
  qed simp
  have n: "u4_at (v_img c) ?p = ?n" by (simp add: field4_def)
  show ?thesis
    unfolding annotation_set_body_def wp_bind
    by (rule wp_conseq [OF wp_AnnotationStructAt])
      (use vctx_okD [OF ok] in \<open>auto simp: layout wp_rules n annotation_set_ok_def
        intro!: wp_check_list_sizeI wp_conseq [OF loop]\<close>)
qed

interpretation set_walk: memo_walk seen_set "\<lambda>off s. s\<lparr>seen_set := insert off (seen_set s)\<rparr>"
    "items_sound c" "annotation_set_ok c" "annotation_set_body c" "VerifyAnnotationSet c" for c
  by unfold_locales (auto simp: VerifyAnnotationSet_def items_sound_def same_upper_def
      intro!: wp_conseq [OF wp_annotation_set_body [unfolded items_sound_def]])

lemma set_sound: "set_walk.sound c = sets_sound c"
  by (rule ext) (simp only: set_walk.sound_def sets_sound_def)

lemma wp_VerifyAnnotationSet:
  assumes "sets_sound c s"
  shows "wp (VerifyAnnotationSet c off s) (\<lambda>s'. annotation_set_ok c off \<and> sets_sound c s' \<and>
    seen_ref s' = seen_ref s \<and> seen_dir s' = seen_dir s)"
proof -
  have "items_sound c (s\<lparr>seen_set := insert off (seen_set s)\<rparr>)"
    using assms by (simp add: sets_sound_def items_sound_def)
  from wp_annotation_set_body [OF this, of off]
  have "wp (VerifyAnnotationSet c off s) (\<lambda>s'. seen_ref s' = seen_ref s \<and> seen_dir s' = seen_dir s)"
    by (auto simp: VerifyAnnotationSet_def wp_Inr same_upper_def elim!: wp_conseq)
  with set_walk.walk_sound [of c s off, unfolded set_sound, OF assms] show ?thesis
    by (rule wp_conj [THEN wp_conseq]) simp
qed

lemma wp_annotation_ref_body:
  assumes s: "sets_sound c s"
  shows "wp (annotation_ref_body c off s) (\<lambda>s'. annotation_ref_ok c off \<and> sets_sound c s' \<and>
    seen_ref s' = seen_ref s \<and> seen_dir s' = seen_dir s)"
proof -
  have ok: "vctx_ok c" using assms by (rule sound_vctx_ok)
  let ?p = "v_begin c + off" and ?n = "field4 c off 0"
  let ?Inv = "\<lambda>j s'. sets_sound c s' \<and> seen_ref s' = seen_ref s \<and> seen_dir s' = seen_dir s \<and>
    (\<forall>i < j. field4 c off (4 + i * 4) \<noteq> 0 \<longrightarrow> annotation_set_ok c (field4 c off (4 + i * 4)))"
  have loop: "wp (for_range 0 ?n (ref_entry c (?p + 4)) s) (?Inv ?n)"
    if fits: "?p + 4 + ?n * 4 \<le> end_of_file c"
  proof (rule wp_for_range [where Inv = ?Inv])
    show "?Inv 0 s" using s by simp
    fix j t assume j: "j < ?n" and t: "?Inv j t"
    have "Suc j * 4 \<le> ?n * 4" using j by (intro mult_le_mono1) simp
    then have "?p + 4 + j * 4 + 4 \<le> length (v_img c)" using fits vctx_okD [OF ok] by simp
    moreover have e: "u4_at (v_img c) (?p + 4 + j * 4) = field4 c off (4 + j * 4)"
      by (simp add: field4_def add.assoc)
    ultimately show "wp (ref_entry c (?p + 4) j t) (?Inv (Suc j))"
      using t by (auto simp: ref_entry_def layout wp_rules e less_Suc_eq
          intro!: wp_conseq [OF wp_VerifyAnnotationSet])
  qed simp
  have n: "u4_at (v_img c) ?p = ?n" by (simp add: field4_def)
  show ?thesis
    unfolding annotation_ref_body_def wp_bind
    by (rule wp_conseq [OF wp_AnnotationStructAt])
      (use vctx_okD [OF ok] in \<open>auto simp: layout wp_rules n annotation_ref_ok_def
        intro!: wp_check_list_sizeI wp_conseq [OF loop]\<close>)
qed

interpretation ref_walk: memo_walk seen_ref "\<lambda>off s. s\<lparr>seen_ref := insert off (seen_ref s)\<rparr>"
    "sets_sound c" "annotation_ref_ok c" "annotation_ref_body c" "VerifyAnnotationSetRefList c" for c
  by unfold_locales (auto simp: VerifyAnnotationSetRefList_def sets_sound_def items_sound_def
      intro!: wp_conseq [OF wp_annotation_ref_body [unfolded sets_sound_def items_sound_def]])

lemma ref_sound: "ref_walk.sound c = refs_sound c"
  by (rule ext) (simp only: ref_walk.sound_def refs_sound_def)

lemma wp_VerifyAnnotationSetRefList:
  assumes "refs_sound c s"
  shows "wp (VerifyAnnotationSetRefList c off s)
    (\<lambda>s'. annotation_ref_ok c off \<and> refs_sound c s' \<and> seen_dir s' = seen_dir s)"
proof -
  have "sets_sound c (s\<lparr>seen_ref := insert off (seen_ref s)\<rparr>)"
    using assms by (simp add: refs_sound_def sets_sound_def items_sound_def)
  from wp_annotation_ref_body [OF this, of off]
  have "wp (VerifyAnnotationSetRefList c off s) (\<lambda>s'. seen_dir s' = seen_dir s)"
    by (auto simp: VerifyAnnotationSetRefList_def wp_Inr elim!: wp_conseq)
  with ref_walk.walk_sound [of c s off, unfolded ref_sound, OF assms] show ?thesis
    by (rule wp_conj [THEN wp_conseq]) simp
qed

lemma wp_set_in_directory:
  assumes "refs_sound c s"
  shows "wp (VerifyAnnotationSet c off s)
    (\<lambda>s'. annotation_set_ok c off \<and> refs_sound c s' \<and> seen_dir s' = seen_dir s)"
  by (rule wp_conseq [OF wp_VerifyAnnotationSet]) (use assms in \<open>auto simp: refs_sound_def\<close>)

lemma wp_member_list:
  assumes ok: "vctx_ok c" and s: "good s"
    and walk: "\<And>off s. good s \<Longrightarrow> wp (walk off s) (\<lambda>s'. P off \<and> good s')"
  shows "wp (member_list c lp n limit l1 l2 m1 m2 walk s)
    (\<lambda>s'. member_list_ok c lp n limit P \<and> good s')"
proof -
  let ?Inv = "\<lambda>j ls. good (snd ls) \<and> (j \<noteq> 0 \<longrightarrow> fst ls = member_idx c lp (j - 1)) \<and>
     (\<forall>i < j. member_idx c lp i < limit \<and> member_off c lp i \<noteq> 0 \<and> P (member_off c lp i)) \<and>
     (\<forall>i. Suc i < j \<longrightarrow> member_idx c lp i < member_idx c lp (Suc i))"
  have loop: "wp (for_range 0 n (member_entry c lp limit l2 m1 m2 walk) (0, s)) (?Inv n)"
    if fits: "lp + n * 8 \<le> end_of_file c"
  proof (rule wp_for_range [where Inv = ?Inv])
    show "?Inv 0 (0, s)" using s by simp
    fix j ls assume j: "j < n" and t: "?Inv j ls"
    obtain prev t' where ls: "ls = (prev, t')" by force
    have "Suc j * 8 \<le> n * 8" using j by (intro mult_le_mono1) simp
    then have len: "lp + j * 8 + 8 \<le> length (v_img c)" using fits vctx_okD [OF ok] by simp
    let ?i = "member_idx c lp j" and ?o = "member_off c lp j"
    have "wp (walk ?o t') (\<lambda>s'. ?Inv (Suc j) (?i, s'))" if "?i < limit" "j \<noteq> 0 \<longrightarrow> prev < ?i" "?o \<noteq> 0"
    proof (rule wp_conseq [OF walk])
      show "good t'" using t by (simp add: ls)
      fix s' assume "P ?o \<and> good s'"
      then show "?Inv (Suc j) (?i, s')"
        using t that by (auto simp: ls less_Suc_eq)
    qed
    then show "wp (member_entry c lp limit l2 m1 m2 walk j ls) (?Inv (Suc j))"
      using len by (auto simp: member_entry_def ls layout wp_rules member_idx_def member_off_def not_le)
  qed simp
  show ?thesis
    unfolding member_list_def wp_bind
    by (rule wp_check_list_sizeI)
      (auto simp: layout wp_rules member_list_ok_def intro!: wp_conseq [OF loop])
qed

lemma wp_annotations_directory_body:
  assumes s: "refs_sound c s"
  shows "wp (annotations_directory_body c off s)
    (\<lambda>s'. annotations_directory_ok c off \<and> refs_sound c s' \<and> seen_dir s' = seen_dir s)"
proof -
  have ok: "vctx_ok c" using assms by (rule sound_vctx_ok)
  let ?good = "\<lambda>s'. refs_sound c s' \<and> seen_dir s' = seen_dir s"
  have set: "wp (VerifyAnnotationSet c o' t) (\<lambda>s'. annotation_set_ok c o' \<and> ?good s')" if "?good t" for o' t
    using wp_set_in_directory [of c t o'] that by simp
  have ref: "wp (VerifyAnnotationSetRefList c o' t) (\<lambda>s'. annotation_ref_ok c o' \<and> ?good s')"
    if "?good t" for o' t
    using wp_VerifyAnnotationSetRefList [of c t o'] that by simp
  note sets = wp_member_list [where good = ?good and P = "annotation_set_ok c", OF ok _ set]
  note refs = wp_member_list [where good = ?good and P = "annotation_ref_ok c", OF ok _ ref]
  have f: "u4_at (v_img c) (v_begin c + off) = field4 c off 0" by (simp add: field4_def)
  have k: "u4_at (v_img c) (v_begin c + off + k) = field4 c off k" for k by (simp add: field4_def)
  show ?thesis
    unfolding annotations_directory_body_def Let_def wp_bind
    apply (rule wp_conseq [OF wp_AnnotationStructAt], simp add: layout)
    apply (clarsimp simp: wp_rules layout f k)
    apply (intro conjI impI)
    subgoal using vctx_okD [OF ok] by simp
    subgoal premises prems
      apply (rule wp_conseq [OF set], simp add: s)
      apply (rule wp_conseq [OF sets], simp, simp)
      apply (rule wp_conseq [OF sets], simp, simp)
      apply (rule wp_conseq [OF refs], simp, simp)
      using prems by (simp add: annotations_directory_ok_def Let_def)
    subgoal premises prems
      apply (rule wp_conseq [OF sets], simp add: s, simp)
      apply (rule wp_conseq [OF sets], simp, simp)
      apply (rule wp_conseq [OF refs], simp, simp)
      using prems by (simp add: annotations_directory_ok_def Let_def)
    done
qed

interpretation dir_walk: memo_walk seen_dir "\<lambda>off s. s\<lparr>seen_dir := insert off (seen_dir s)\<rparr>"
    "refs_sound c" "annotations_directory_ok c" "annotations_directory_body c"
    "VerifyAnnotationsDirectory c" for c
  by unfold_locales (auto simp: VerifyAnnotationsDirectory_def refs_sound_def sets_sound_def items_sound_def
      intro!: wp_conseq [OF wp_annotations_directory_body
        [unfolded refs_sound_def sets_sound_def items_sound_def]])

lemma dir_sound: "dir_walk.sound c = dirs_sound c"
  by (rule ext) (simp only: dir_walk.sound_def dirs_sound_def)

lemma wp_VerifyAnnotationsDirectory:
  "dirs_sound c s \<Longrightarrow> wp (VerifyAnnotationsDirectory c off s)
     (\<lambda>s'. annotations_directory_ok c off \<and> dirs_sound c s')"
  by (rule wp_conseq [OF dir_walk.walk_sound [of c s off, unfolded dir_sound]]) auto

section \<open>Properties\<close>

text \<open>
  C37. Started from a memo that records only valid offsets, \<open>VerifyAnnotationsDirectory\<close> never
  reads outside the image, accepts only a valid directory (including the parts the memo lets it
  skip), and leaves such a memo.
\<close>

theorem annotations_sound:
  assumes "dirs_sound c s"
  shows "wp (VerifyAnnotationsDirectory c off s) (\<lambda>s'. annotations_directory_ok c off \<and> dirs_sound c s')"
  using assms by (rule wp_VerifyAnnotationsDirectory)

end
