(* ===== verification/Verifier_Intra.thy ===== *)
theory Verifier_Intra
  imports Verifier_Class Verifier_Annotations
begin

text \<open>
  \<open>DexVerifier::CheckIntraSection\<close>: every row of every id table names rows that exist, every
  string is a canonical modified UTF-8 string, and everything a class_def points at has been
  walked. The result, \<open>intra_ok\<close>, is the precondition of the cross-reference phase.
\<close>

section \<open>The loops\<close>

definition type_id_pos :: "vctx \<Rightarrow> nat \<Rightarrow> nat" where
  "type_id_pos c i = offset_to_ptr c (type_ids_off (v_hdr c)) + i * sizeof_TypeId"

definition proto_id_pos :: "vctx \<Rightarrow> nat \<Rightarrow> nat" where
  "proto_id_pos c i = offset_to_ptr c (proto_ids_off (v_hdr c)) + i * sizeof_ProtoId"

definition class_def_pos :: "vctx \<Rightarrow> nat \<Rightarrow> nat" where
  "class_def_pos c i = offset_to_ptr c (class_defs_off (v_hdr c)) + i * sizeof_ClassDef"

definition intra_string :: "vctx \<Rightarrow> nat \<Rightarrow> unit result" where
  "intra_string c i = bind (rd_string_id c i) (VerifyStringData c)"

definition intra_type :: "vctx \<Rightarrow> nat \<Rightarrow> unit result" where
  "intra_type c i =
     bind (rd_u4 (v_img c) (type_id_pos c i)) (\<lambda>descriptor_idx.
       if descriptor_idx \<ge> string_ids_size (v_hdr c) then fail ''type_id.descriptor_idx out of range''
       else Inr ())"

definition intra_proto :: "vctx \<Rightarrow> nat \<Rightarrow> unit result" where
  "intra_proto c i =
     bind (rd_proto_id (v_img c) (proto_id_pos c i)) (\<lambda>pr.
       if shorty_idx pr \<ge> string_ids_size (v_hdr c) then fail ''proto_id.shorty_idx out of range''
       else if return_type_idx pr \<ge> type_ids_size (v_hdr c)
       then fail ''proto_id.return_type_idx out of range''
       else VerifyTypeList c (parameters_off pr) ''proto_id'')"

definition intra_field :: "vctx \<Rightarrow> nat \<Rightarrow> unit result" where
  "intra_field c i =
     bind (rd_field_id (v_img c) (field_id_pos c i)) (\<lambda>f.
       if m_class_idx f \<ge> type_ids_size (v_hdr c) then fail ''field_id.class_idx out of range''
       else if m_mid_idx f \<ge> type_ids_size (v_hdr c) then fail ''field_id.type_idx out of range''
       else if m_name_idx f \<ge> string_ids_size (v_hdr c) then fail ''field_id.name_idx out of range''
       else Inr ())"

definition intra_method :: "vctx \<Rightarrow> nat \<Rightarrow> unit result" where
  "intra_method c i =
     bind (rd_method_id (v_img c) (method_id_pos c i)) (\<lambda>m.
       if m_class_idx m \<ge> type_ids_size (v_hdr c) then fail ''method_id.class_idx out of range''
       else if m_mid_idx m \<ge> proto_ids_size (v_hdr c) then fail ''method_id.proto_idx out of range''
       else if m_name_idx m \<ge> string_ids_size (v_hdr c) then fail ''method_id.name_idx out of range''
       else Inr ())"

definition intra_class_def :: "vctx \<Rightarrow> nat \<Rightarrow> ann_seen \<Rightarrow> ann_seen result" where
  "intra_class_def c k s =
     bind (rd_class_def (v_img c) (class_def_pos c k)) (\<lambda>cd.
       if cd_class_idx cd \<ge> type_ids_size (v_hdr c) then fail ''class_def.class_idx out of range''
       else if cd_superclass_idx cd \<noteq> kNoIndex \<and> cd_superclass_idx cd \<ge> type_ids_size (v_hdr c)
       then fail ''class_def.superclass_idx out of range''
       else if cd_source_file_idx cd \<noteq> kNoIndex \<and> cd_source_file_idx cd \<ge> string_ids_size (v_hdr c)
       then fail ''class_def.source_file_idx out of range''
       else bind (VerifyTypeList c (cd_interfaces_off cd) ''class_def.interfaces'') (\<lambda>_.
         bind (if cd_class_data_off cd \<noteq> 0 then VerifyClassData c (cd_class_data_off cd)
               else Inr ()) (\<lambda>_.
         bind (if cd_static_values_off cd \<noteq> 0 then VerifyEncodedArrayAt c (cd_static_values_off cd)
               else Inr ()) (\<lambda>_.
           if cd_annotations_off cd \<noteq> 0 then VerifyAnnotationsDirectory c (cd_annotations_off cd) s
           else Inr s))))"

definition CheckIntraSection :: "vctx \<Rightarrow> unit result" where
  "CheckIntraSection c =
     (let h = v_hdr c in
      bind (for_each 0 (string_ids_size h) (intra_string c)) (\<lambda>_.
      bind (for_each 0 (type_ids_size h) (intra_type c)) (\<lambda>_.
      bind (for_each 0 (proto_ids_size h) (intra_proto c)) (\<lambda>_.
      bind (for_each 0 (field_ids_size h) (intra_field c)) (\<lambda>_.
      bind (for_each 0 (method_ids_size h) (intra_method c)) (\<lambda>_.
      bind (for_range 0 (class_defs_size h) (intra_class_def c) no_ann_seen) (\<lambda>_. Inr ())))))))"

section \<open>What it establishes\<close>

definition type_desc_idx :: "vctx \<Rightarrow> nat \<Rightarrow> nat" where
  "type_desc_idx c i = u4_at (v_img c) (type_id_pos c i)"

definition proto_at :: "vctx \<Rightarrow> nat \<Rightarrow> proto_id" where
  "proto_at c i = proto_id_at (v_img c) (proto_id_pos c i)"

definition class_def_of :: "vctx \<Rightarrow> nat \<Rightarrow> class_def" where
  "class_def_of c k = class_def_at (v_img c) (class_def_pos c k)"

definition type_ok :: "vctx \<Rightarrow> nat \<Rightarrow> bool" where
  "type_ok c i \<longleftrightarrow> type_desc_idx c i < string_ids_size (v_hdr c)"

definition proto_ok :: "vctx \<Rightarrow> nat \<Rightarrow> bool" where
  "proto_ok c i \<longleftrightarrow> (let pr = proto_at c i in
     shorty_idx pr < string_ids_size (v_hdr c) \<and> return_type_idx pr < type_ids_size (v_hdr c) \<and>
     type_list_ok c (parameters_off pr))"

definition field_ok :: "vctx \<Rightarrow> nat \<Rightarrow> bool" where
  "field_ok c i \<longleftrightarrow> (let f = field_id_at c i in
     m_class_idx f < type_ids_size (v_hdr c) \<and> m_mid_idx f < type_ids_size (v_hdr c) \<and>
     m_name_idx f < string_ids_size (v_hdr c))"

definition method_ok :: "vctx \<Rightarrow> nat \<Rightarrow> bool" where
  "method_ok c i \<longleftrightarrow> (let m = method_id_at c i in
     m_class_idx m < type_ids_size (v_hdr c) \<and> m_mid_idx m < proto_ids_size (v_hdr c) \<and>
     m_name_idx m < string_ids_size (v_hdr c))"

definition class_def_ok :: "vctx \<Rightarrow> nat \<Rightarrow> bool" where
  "class_def_ok c k \<longleftrightarrow> (let cd = class_def_of c k in
     cd_class_idx cd < type_ids_size (v_hdr c) \<and>
     (cd_superclass_idx cd \<noteq> kNoIndex \<longrightarrow> cd_superclass_idx cd < type_ids_size (v_hdr c)) \<and>
     (cd_source_file_idx cd \<noteq> kNoIndex \<longrightarrow> cd_source_file_idx cd < string_ids_size (v_hdr c)) \<and>
     type_list_ok c (cd_interfaces_off cd) \<and>
     (cd_class_data_off cd \<noteq> 0 \<longrightarrow> class_data_ok c (cd_class_data_off cd)) \<and>
     (cd_static_values_off cd \<noteq> 0 \<longrightarrow> encoded_array_ok c (cd_static_values_off cd)) \<and>
     (cd_annotations_off cd \<noteq> 0 \<longrightarrow> annotations_directory_ok c (cd_annotations_off cd)))"

definition intra_ok :: "vctx \<Rightarrow> bool" where
  "intra_ok c \<longleftrightarrow> (let h = v_hdr c in
     strings_ok c \<and> (\<forall>i < type_ids_size h. type_ok c i) \<and> (\<forall>i < proto_ids_size h. proto_ok c i) \<and>
     (\<forall>i < field_ids_size h. field_ok c i) \<and> (\<forall>i < method_ids_size h. method_ok c i) \<and>
     (\<forall>k < class_defs_size h. class_def_ok c k))"

text \<open>Rows of the tables are in the image, so reading one yields it.\<close>

lemma rd_rows:
  assumes "vctx_ok c" and "tables_ok c"
  shows "i < string_ids_size (v_hdr c) \<Longrightarrow> rd_string_id c i = Inr (string_data_off c i)"
    and "i < type_ids_size (v_hdr c) \<Longrightarrow> rd_u4 (v_img c) (type_id_pos c i) = Inr (type_desc_idx c i)"
    and "i < proto_ids_size (v_hdr c) \<Longrightarrow> rd_proto_id (v_img c) (proto_id_pos c i) = Inr (proto_at c i)"
    and "i < class_defs_size (v_hdr c) \<Longrightarrow> rd_class_def (v_img c) (class_def_pos c i) = Inr (class_def_of c i)"
proof -
  note row = table_row(2) [OF assms(1)]
  have t: "table_ok c (string_ids_off (v_hdr c)) (string_ids_size (v_hdr c)) 4"
    "table_ok c (type_ids_off (v_hdr c)) (type_ids_size (v_hdr c)) 4"
    "table_ok c (proto_ids_off (v_hdr c)) (proto_ids_size (v_hdr c)) 12"
    "table_ok c (class_defs_off (v_hdr c)) (class_defs_size (v_hdr c)) 32"
    using assms(2) by (simp_all add: tables_ok_def Let_def)
  show "i < string_ids_size (v_hdr c) \<Longrightarrow> rd_string_id c i = Inr (string_data_off c i)"
    using row [OF t(1)] by (simp add: rd_string_id_def rd_u4_def offset_to_ptr_def string_data_off_def layout)
  show "i < type_ids_size (v_hdr c) \<Longrightarrow> rd_u4 (v_img c) (type_id_pos c i) = Inr (type_desc_idx c i)"
    using row [OF t(2)] by (simp add: rd_u4_def type_id_pos_def offset_to_ptr_def type_desc_idx_def layout)
  show "i < proto_ids_size (v_hdr c) \<Longrightarrow> rd_proto_id (v_img c) (proto_id_pos c i) = Inr (proto_at c i)"
    using row [OF t(3)] by (simp add: rd_proto_id_def proto_id_pos_def offset_to_ptr_def proto_at_def layout)
  show "i < class_defs_size (v_hdr c) \<Longrightarrow> rd_class_def (v_img c) (class_def_pos c i) = Inr (class_def_of c i)"
    using row [OF t(4)] by (simp add: rd_class_def_def class_def_pos_def offset_to_ptr_def class_def_of_def layout)
qed

lemma wp_intra_rows:
  assumes ok: "vctx_ok c" and t: "tables_ok c"
  shows "i < string_ids_size (v_hdr c) \<Longrightarrow> wp (intra_string c i) (\<lambda>_. string_ok c i)"
    and "i < type_ids_size (v_hdr c) \<Longrightarrow> wp (intra_type c i) (\<lambda>_. type_ok c i)"
    and "i < proto_ids_size (v_hdr c) \<Longrightarrow> wp (intra_proto c i) (\<lambda>_. proto_ok c i)"
    and "i < field_ids_size (v_hdr c) \<Longrightarrow> wp (intra_field c i) (\<lambda>_. field_ok c i)"
    and "i < method_ids_size (v_hdr c) \<Longrightarrow> wp (intra_method c i) (\<lambda>_. method_ok c i)"
  by (auto simp: intra_string_def intra_type_def intra_proto_def intra_field_def intra_method_def
      rd_rows [OF ok t] rd_member_ids [OF ok t] wp_bind wp_if wp_fail wp_Inr type_ok_def proto_ok_def
      field_ok_def method_ok_def Let_def
      intro!: wp_conseq [OF wp_VerifyTypeList [OF ok]] wp_VerifyStringData [OF ok refl])

lemma wp_intra_class_def:
  assumes t: "tables_ok c" and s: "dirs_sound c s" and k: "k < class_defs_size (v_hdr c)"
  shows "wp (intra_class_def c k s) (\<lambda>s'. class_def_ok c k \<and> dirs_sound c s')"
proof -
  have ok: "vctx_ok c" using s sound_vctx_ok(3) by (auto simp: dirs_sound_def)
  let ?cd = "class_def_of c k"
  have ann: "wp (if cd_annotations_off ?cd \<noteq> 0 then VerifyAnnotationsDirectory c (cd_annotations_off ?cd) s else Inr s)
      (\<lambda>s'. (cd_annotations_off ?cd \<noteq> 0 \<longrightarrow> annotations_directory_ok c (cd_annotations_off ?cd)) \<and> dirs_sound c s')"
    using wp_VerifyAnnotationsDirectory [OF s] s by (auto simp: wp_Inr elim: wp_conseq)
  show ?thesis
    unfolding intra_class_def_def rd_rows(4) [OF ok t k] bind_Inr
    apply (intro wp_guardI)
    unfolding wp_bind
    apply (rule wp_conseq [OF wp_VerifyTypeList [OF ok]])
    apply (rule wp_whenI [OF wp_VerifyClassData [OF ok]])
    apply (rule wp_whenI [OF wp_VerifyEncodedArrayAt [OF ok]])
    apply (rule wp_conseq [OF ann])
    apply (auto simp: class_def_ok_def Let_def)
    done
qed

lemma wp_for_eachI:
  "(\<And>j. i \<le> j \<Longrightarrow> j < n \<Longrightarrow> wp (body j) (\<lambda>_. P j)) \<Longrightarrow>
   ((\<And>j. i \<le> j \<Longrightarrow> j < n \<Longrightarrow> P j) \<Longrightarrow> Q ()) \<Longrightarrow> wp (for_each i n body) Q"
  by (rule wp_conseq [OF wp_for_each]) auto

lemma wp_CheckIntraSection:
  assumes ok: "vctx_ok c" and t: "tables_ok c"
  shows "wp (CheckIntraSection c) (\<lambda>_. intra_ok c)"
proof -
  let ?Inv = "\<lambda>j s. dirs_sound c s \<and> (\<forall>k < j. class_def_ok c k)"
  have classes: "wp (for_range 0 (class_defs_size (v_hdr c)) (intra_class_def c) no_ann_seen)
    (?Inv (class_defs_size (v_hdr c)))"
  proof (rule wp_for_range [where Inv = ?Inv])
    show "?Inv 0 no_ann_seen"
      using ok by (simp add: dirs_sound_def refs_sound_def sets_sound_def items_sound_def no_ann_seen_def)
    fix j s assume "j < class_defs_size (v_hdr c)" and "?Inv j s"
    then show "wp (intra_class_def c j s) (?Inv (Suc j))"
      by (intro wp_conseq [OF wp_intra_class_def [OF t]]) (auto simp: less_Suc_eq)
  qed simp
  note rows = wp_intra_rows [OF ok t]
  show ?thesis
    unfolding CheckIntraSection_def Let_def wp_bind wp_Inr
    apply (rule wp_for_eachI [OF rows(1)], assumption)
    apply (rule wp_for_eachI [OF rows(2)], assumption)
    apply (rule wp_for_eachI [OF rows(3)], assumption)
    apply (rule wp_for_eachI [OF rows(4)], assumption)
    apply (rule wp_for_eachI [OF rows(5)], assumption)
    apply (rule wp_conseq [OF classes])
    apply (simp add: intra_ok_def Let_def strings_ok_def)
    done
qed

section \<open>Properties\<close>

text \<open>
  C18. Given a data range inside the image and the id tables inside the data range,
  \<open>CheckIntraSection\<close> never reads outside the image, and accepts only a dex whose rows name
  existing rows and whose items are structurally valid.
\<close>

theorem intra_section_sound:
  assumes "vctx_ok c" and "tables_ok c"
  shows "wp (CheckIntraSection c) (\<lambda>_. intra_ok c)"
  using assms by (rule wp_CheckIntraSection)

end
