(* ===== verification/Verifier_Map.thy ===== *)
theory Verifier_Map
  imports Verifier_Header
begin

text \<open>
  \<open>DexVerifier::CheckMap\<close> and \<open>VerifyMethodHandleSection\<close>: the map list is ordered, inside
  the data range, names each section at most once and no required one is missing; the
  method_handle section it names has valid contents. The latter threads the per-image state
  (\<open>VerifyImageState\<close>): a memo of the sections already walked, and an entry budget.
\<close>

section \<open>Map types\<close>

named_theorems map_types \<open>the map item codes\<close>

definition kHeaderItem :: nat where [map_types]: "kHeaderItem = 0x0000"
definition kStringIdItem :: nat where [map_types]: "kStringIdItem = 0x0001"
definition kTypeIdItem :: nat where [map_types]: "kTypeIdItem = 0x0002"
definition kProtoIdItem :: nat where [map_types]: "kProtoIdItem = 0x0003"
definition kFieldIdItem :: nat where [map_types]: "kFieldIdItem = 0x0004"
definition kMethodIdItem :: nat where [map_types]: "kMethodIdItem = 0x0005"
definition kClassDefItem :: nat where [map_types]: "kClassDefItem = 0x0006"
definition kCallSiteIdItem :: nat where [map_types]: "kCallSiteIdItem = 0x0007"
definition kMethodHandleItem :: nat where [map_types]: "kMethodHandleItem = 0x0008"
definition kMapList :: nat where [map_types]: "kMapList = 0x1000"
definition kTypeListItem :: nat where [map_types]: "kTypeListItem = 0x1001"
definition kAnnotationSetRefList :: nat where [map_types]: "kAnnotationSetRefList = 0x1002"
definition kAnnotationSetItem :: nat where [map_types]: "kAnnotationSetItem = 0x1003"
definition kClassDataItem :: nat where [map_types]: "kClassDataItem = 0x2000"
definition kCodeItem :: nat where [map_types]: "kCodeItem = 0x2001"
definition kStringDataItem :: nat where [map_types]: "kStringDataItem = 0x2002"
definition kDebugInfoItem :: nat where [map_types]: "kDebugInfoItem = 0x2003"
definition kAnnotationItem :: nat where [map_types]: "kAnnotationItem = 0x2004"
definition kEncodedArrayItem :: nat where [map_types]: "kEncodedArrayItem = 0x2005"
definition kAnnotationsDirectoryItem :: nat where [map_types]: "kAnnotationsDirectoryItem = 0x2006"
definition kHiddenapiClassData :: nat where [map_types]: "kHiddenapiClassData = 0xF000"

definition MapTypes :: "nat list" where
  "MapTypes = [kHeaderItem, kStringIdItem, kTypeIdItem, kProtoIdItem, kFieldIdItem, kMethodIdItem,
     kClassDefItem, kCallSiteIdItem, kMethodHandleItem, kMapList, kTypeListItem,
     kAnnotationSetRefList, kAnnotationSetItem, kClassDataItem, kCodeItem, kStringDataItem,
     kDebugInfoItem, kAnnotationItem, kEncodedArrayItem, kAnnotationsDirectoryItem,
     kHiddenapiClassData]"

definition MapTypeToBitMask :: "nat \<Rightarrow> 32 word" where
  "MapTypeToBitMask t =
     (case find (\<lambda>i. MapTypes ! i = t) [0..<length MapTypes] of
        Some i \<Rightarrow> push_bit i 1
      | None \<Rightarrow> 0)"

definition IsDataSectionType :: "nat \<Rightarrow> bool" where
  "IsDataSectionType t \<longleftrightarrow> t \<notin> {kHeaderItem, kStringIdItem, kTypeIdItem, kProtoIdItem,
     kFieldIdItem, kMethodIdItem, kClassDefItem}"

section \<open>Method handles\<close>

definition METHOD_HANDLE_TYPE_INSTANCE_GET :: nat where "METHOD_HANDLE_TYPE_INSTANCE_GET = 3"
definition METHOD_HANDLE_TYPE_INVOKE_INTERFACE :: nat where
  "METHOD_HANDLE_TYPE_INVOKE_INTERFACE = 8"

text \<open>\<open>HandleSectionNeeds\<close> and \<open>VerifyImageState\<close>.\<close>

record handle_needs =
  need_fields :: nat
  need_methods :: nat

record img_state =
  walked :: "((nat \<times> nat) \<times> handle_needs) list"   \<comment> \<open>\<open>walked_method_handles\<close>\<close>
  entries_left :: nat

definition fresh_img_state :: img_state where
  "fresh_img_state = \<lparr>walked = [], entries_left = 0\<rparr>"

text \<open>The constructor of \<open>DexVerifier\<close> seeds the budget of a state that looks unused.\<close>

definition seed_img_state :: "image \<Rightarrow> img_state \<Rightarrow> img_state" where
  "seed_img_state im st =
     (if entries_left st = 0 \<and> walked st = []
      then st\<lparr>entries_left := length im div sizeof_MethodHandle + 1\<rparr> else st)"

definition method_handle_entry :: "vctx \<Rightarrow> nat \<Rightarrow> nat \<Rightarrow> handle_needs \<Rightarrow> handle_needs result" where
  "method_handle_entry c off i needs =
     bind (rd_method_handle (v_img c) (offset_to_ptr c off + i * sizeof_MethodHandle)) (\<lambda>mh.
       if mh_type mh > METHOD_HANDLE_TYPE_INVOKE_INTERFACE then fail ''Bad method handle type''
       else let is_field = mh_type mh \<le> METHOD_HANDLE_TYPE_INSTANCE_GET in
         bind (check_index (mh_id mh)
             (if is_field then field_ids_size (v_hdr c) else method_ids_size (v_hdr c))
             (if is_field then ''method_handle_item field_idx''
              else ''method_handle_item method_idx'')) (\<lambda>_.
           Inr (if is_field then needs\<lparr>need_fields := max (need_fields needs) (mh_id mh + 1)\<rparr>
                else needs\<lparr>need_methods := max (need_methods needs) (mh_id mh + 1)\<rparr>)))"

definition walk_method_handles :: "vctx \<Rightarrow> nat \<Rightarrow> nat \<Rightarrow> handle_needs result" where
  "walk_method_handles c off count =
     for_range 0 count (method_handle_entry c off) \<lparr>need_fields = 0, need_methods = 0\<rparr>"

definition VerifyMethodHandleSection ::
    "vctx \<Rightarrow> nat \<Rightarrow> nat \<Rightarrow> img_state \<Rightarrow> img_state kept + img_state" where
  "VerifyMethodHandleSection c off count st =
     (case map_of (walked st) (off, count) of
        Some needs \<Rightarrow>
          if need_fields needs > field_ids_size (v_hdr c)
          then keep st (fail ''Bad index: method_handle_item field_idx'')
          else if need_methods needs > method_ids_size (v_hdr c)
          then keep st (fail ''Bad index: method_handle_item method_idx'')
          else Inr st
      | None \<Rightarrow>
          if count > entries_left st
          then keep st (fail ''method_handle sections exceed the image's entry budget'')
          else let st1 = st\<lparr>entries_left := entries_left st - count\<rparr> in
            bind (keep st1 (walk_method_handles c off count)) (\<lambda>needs.
              Inr (st1\<lparr>walked := ((off, count), needs) # walked st1\<rparr>)))"

section \<open>CheckMap\<close>

record map_scan =
  ms_last :: nat          \<comment> \<open>\<open>last_offset\<close>\<close>
  ms_bits :: "32 word"    \<comment> \<open>\<open>used_bits\<close>\<close>
  ms_handles :: nat       \<comment> \<open>\<open>method_handle_count_\<close>\<close>
  ms_state :: img_state   \<comment> \<open>\<open>*img_state_\<close>\<close>

definition map_item_align :: "nat \<Rightarrow> nat" where
  "map_item_align t = (if t = kClassDataItem \<or> t = kStringDataItem \<or> t = kDebugInfoItem \<or>
     t = kAnnotationItem \<or> t = kEncodedArrayItem then 1 else 4)"

definition map_item_entry :: "nat \<Rightarrow> nat" where
  "map_item_entry t = (if t = kMethodHandleItem then sizeof_MethodHandle
     else if t = kCallSiteIdItem then 4 else 0)"

text \<open>The checks of one map item, before the method_handle walk.\<close>

definition check_map_item :: "vctx \<Rightarrow> nat \<Rightarrow> map_item \<Rightarrow> map_scan \<Rightarrow> unit result" where
  "check_map_item c i item s =
     (let t = mi_type item; bit = MapTypeToBitMask t in
      if i \<noteq> 0 \<and> ms_last s \<ge> mi_offset item then fail ''Out of order map item''
      else if mi_offset item \<ge> v_size c then fail ''Map item past end of file''
      else if IsDataSectionType t \<and> \<not> is_aligned (mi_offset item) (map_item_align t)
      then fail ''Misaligned map item''
      else if bit = 0 then fail ''Unknown map section type''
      else if ms_bits s AND bit \<noteq> 0 then fail ''Duplicate map section''
      else if map_item_entry t \<noteq> 0
      then check_list_size c (offset_to_ptr c (mi_offset item)) (mi_size item) (map_item_entry t)
             ''map section span''
      else Inr ())"

definition map_item_step ::
    "vctx \<Rightarrow> nat \<Rightarrow> nat \<Rightarrow> map_scan \<Rightarrow> img_state kept + map_scan" where
  "map_item_step c base i s =
     bind (keep (ms_state s) (rd_map_item (v_img c) (base + i * sizeof_MapItem))) (\<lambda>item.
     bind (keep (ms_state s) (check_map_item c i item s)) (\<lambda>_.
       let s1 = s\<lparr>ms_last := mi_offset item, ms_bits := ms_bits s OR MapTypeToBitMask (mi_type item)\<rparr>
       in if mi_type item = kMethodHandleItem
          then bind (VerifyMethodHandleSection c (mi_offset item) (mi_size item) (ms_state s))
            (\<lambda>st. Inr (s1\<lparr>ms_handles := mi_size item, ms_state := st\<rparr>))
          else Inr s1))"

definition require_section :: "32 word \<Rightarrow> nat \<Rightarrow> nat \<Rightarrow> nat \<Rightarrow> string \<Rightarrow> unit result" where
  "require_section used_bits t off sz name =
     (if used_bits AND MapTypeToBitMask t = 0 \<and> (off \<noteq> 0 \<or> sz \<noteq> 0)
      then fail (''Map missing '' @ name) else Inr ())"

definition require_sections :: "vctx \<Rightarrow> 32 word \<Rightarrow> unit result" where
  "require_sections c used =
     (let h = v_hdr c in
      if used AND MapTypeToBitMask kHeaderItem = 0 then fail ''Map missing header''
      else if used AND MapTypeToBitMask kMapList = 0 then fail ''Map missing map_list''
      else bind (require_section used kStringIdItem (string_ids_off h) (string_ids_size h) ''string_ids'') (\<lambda>_.
        bind (require_section used kTypeIdItem (type_ids_off h) (type_ids_size h) ''type_ids'') (\<lambda>_.
        bind (require_section used kProtoIdItem (proto_ids_off h) (proto_ids_size h) ''proto_ids'') (\<lambda>_.
        bind (require_section used kFieldIdItem (field_ids_off h) (field_ids_size h) ''field_ids'') (\<lambda>_.
        bind (require_section used kMethodIdItem (method_ids_off h) (method_ids_size h) ''method_ids'') (\<lambda>_.
          require_section used kClassDefItem (class_defs_off h) (class_defs_size h) ''class_defs''))))))"

text \<open>The result is the image state and the context with \<open>method_handle_count_\<close> set.\<close>

definition CheckMap :: "vctx \<Rightarrow> img_state \<Rightarrow> img_state kept + (vctx \<times> img_state)" where
  "CheckMap c st =
     (let map = offset_to_ptr c (map_off (v_hdr c)); base = map + sizeof_MapList in
      bind (keep st (check_list_size c map 1 sizeof_MapList ''maplist content'')) (\<lambda>_.
      bind (keep st (rd_u4 (v_img c) map)) (\<lambda>count.
      bind (keep st (check_list_size c base count sizeof_MapItem ''map size'')) (\<lambda>_.
      bind (for_range 0 count (map_item_step c base)
          \<lparr>ms_last = 0, ms_bits = 0, ms_handles = v_mh_count c, ms_state = st\<rparr>) (\<lambda>s.
      bind (keep (ms_state s) (require_sections c (ms_bits s))) (\<lambda>_.
        Inr (c\<lparr>v_mh_count := ms_handles s\<rparr>, ms_state s)))))))"

section \<open>Masks\<close>

definition map_type_index :: "nat \<Rightarrow> nat option" where
  "map_type_index t = find (\<lambda>i. MapTypes ! i = t) [0..<length MapTypes]"

lemma length_MapTypes: "length MapTypes = 21"
  by (simp add: MapTypes_def)

lemma map_type_index_SomeD: "map_type_index t = Some i \<Longrightarrow> i < 21 \<and> MapTypes ! i = t"
  by (auto simp: map_type_index_def find_Some_iff length_MapTypes)

lemma known_map_type: "map_type_index t \<noteq> None \<longleftrightarrow> t \<in> set MapTypes"
  by (auto simp: map_type_index_def find_None_iff in_set_conv_nth)

lemma mask_index:
  "MapTypeToBitMask t = (case map_type_index t of Some i \<Rightarrow> push_bit i 1 | None \<Rightarrow> 0)"
  by (simp add: MapTypeToBitMask_def map_type_index_def)

lemma mask_hit:
  "b AND MapTypeToBitMask t \<noteq> 0 \<longleftrightarrow> (\<exists>i. map_type_index t = Some i \<and> bit b i)"
  by (auto simp: mask_index and_exp_eq_0_iff_not_bit split: option.splits)

lemma bit_mask: "i < 32 \<Longrightarrow> bit (MapTypeToBitMask t) i \<longleftrightarrow> map_type_index t = Some i"
  by (auto simp: mask_index bit_simps split: option.splits)

lemma mask_known: "MapTypeToBitMask t \<noteq> 0 \<longleftrightarrow> t \<in> set MapTypes"
proof -
  have "MapTypeToBitMask t \<noteq> 0 \<longleftrightarrow> (\<exists>i < 32. bit (MapTypeToBitMask t) i)"
    using bit_eq_iff [of "MapTypeToBitMask t" 0] bit_imp_le_length [of "MapTypeToBitMask t"] by auto
  also have "\<dots> \<longleftrightarrow> map_type_index t \<noteq> None"
  proof (cases "map_type_index t")
    case (Some i)
    with map_type_index_SomeD [of t i] show ?thesis
      by (auto simp: bit_mask intro!: exI [of _ i])
  qed (auto simp: bit_mask)
  finally show ?thesis by (simp only: known_map_type)
qed

lemma mask_OR:
  "(b OR MapTypeToBitMask t) AND MapTypeToBitMask t' \<noteq> 0
    \<longleftrightarrow> b AND MapTypeToBitMask t' \<noteq> 0 \<or> (t = t' \<and> t \<in> set MapTypes)"
proof (cases "map_type_index t'")
  case None
  then show ?thesis using known_map_type [of t'] by (auto simp: mask_hit)
next
  case (Some i)
  then have "bit (MapTypeToBitMask t) i \<longleftrightarrow> map_type_index t = Some i"
    using map_type_index_SomeD [OF Some] by (simp add: bit_mask)
  also have "\<dots> \<longleftrightarrow> t = t' \<and> t \<in> set MapTypes"
    using Some map_type_index_SomeD [of t i] map_type_index_SomeD [of t' i] known_map_type [of t]
    by auto
  finally show ?thesis by (simp add: mask_hit bit_or_iff Some)
qed

section \<open>Method handle sections\<close>

definition handle_at :: "vctx \<Rightarrow> nat \<Rightarrow> nat \<Rightarrow> method_handle" where
  "handle_at c off i = \<lparr>mh_type = u2_at (v_img c) (v_begin c + off + i * 8),
     mh_id = u2_at (v_img c) (v_begin c + off + i * 8 + 4)\<rparr>"

definition handle_ok :: "vctx \<Rightarrow> nat \<Rightarrow> nat \<Rightarrow> bool" where
  "handle_ok c off i \<longleftrightarrow> (let mh = handle_at c off i in mh_type mh \<le> 8 \<and>
     mh_id mh < (if mh_type mh \<le> 3 then field_ids_size (v_hdr c) else method_ids_size (v_hdr c)))"

definition handles_in_range :: "vctx \<Rightarrow> nat \<Rightarrow> nat \<Rightarrow> bool" where
  "handles_in_range c off count \<longleftrightarrow> v_begin c + off + count * 8 \<le> length (v_img c)"

lemma method_handle_entry_eq:
  assumes "handles_in_range c off count" and "i < count"
  shows "\<exists>m. method_handle_entry c off i needs = (let mh = handle_at c off i in
    if \<not> handle_ok c off i then fail m
    else Inr (if mh_type mh \<le> 3 then needs\<lparr>need_fields := max (need_fields needs) (mh_id mh + 1)\<rparr>
              else needs\<lparr>need_methods := max (need_methods needs) (mh_id mh + 1)\<rparr>))"
proof -
  have "i * 8 + 8 \<le> count * 8" using assms(2) by simp
  then have "v_begin c + off + i * 8 + 8 \<le> length (v_img c)"
    using assms(1) by (simp add: handles_in_range_def)
  then show ?thesis
    by (auto simp: method_handle_entry_def rd_method_handle_def layout offset_to_ptr_def handle_ok_def
        handle_at_def Let_def check_index_def METHOD_HANDLE_TYPE_INVOKE_INTERFACE_def
        METHOD_HANDLE_TYPE_INSTANCE_GET_def)
qed

text \<open>The two maxima a walk records decide every other sibling's bounds.\<close>

definition needs_met :: "vctx \<Rightarrow> handle_needs \<Rightarrow> bool" where
  "needs_met c needs \<longleftrightarrow> need_fields needs \<le> field_ids_size (v_hdr c)
     \<and> need_methods needs \<le> method_ids_size (v_hdr c)"

definition needs_exact :: "image \<Rightarrow> nat \<Rightarrow> nat \<Rightarrow> nat \<Rightarrow> handle_needs \<Rightarrow> bool" where
  "needs_exact im b off n needs \<longleftrightarrow>
     (\<forall>c. v_img c = im \<and> v_begin c = b \<longrightarrow>
        ((\<forall>i < n. handle_ok c off i) \<longleftrightarrow> needs_met c needs))"

lemma walk_from:
  assumes "handles_in_range c off count" and "i \<le> count"
    and "needs_exact (v_img c) (v_begin c) off i needs"
  shows "(\<exists>r. for_range i count (method_handle_entry c off) needs = Inr r
            \<and> needs_exact (v_img c) (v_begin c) off count r \<and> (\<forall>j < count. i \<le> j \<longrightarrow> handle_ok c off j))
    \<or> (\<exists>m. for_range i count (method_handle_entry c off) needs = fail m
            \<and> \<not> (\<forall>j < count. i \<le> j \<longrightarrow> handle_ok c off j))"
  using assms(2,3)
proof (induction "count - i" arbitrary: i needs)
  case 0
  then show ?case by auto
next
  case (Suc k)
  then have i: "i < count" by simp
  obtain m where m: "method_handle_entry c off i needs = (let mh = handle_at c off i in
    if \<not> handle_ok c off i then fail m
    else Inr (if mh_type mh \<le> 3 then needs\<lparr>need_fields := max (need_fields needs) (mh_id mh + 1)\<rparr>
              else needs\<lparr>need_methods := max (need_methods needs) (mh_id mh + 1)\<rparr>))"
    using method_handle_entry_eq [OF assms(1) i] by blast
  show ?case
  proof (cases "handle_ok c off i")
    case False
    with m i show ?thesis by (auto simp: for_range_step Let_def)
  next
    case True
    define needs' where "needs' = (let mh = handle_at c off i in
      if mh_type mh \<le> 3 then needs\<lparr>need_fields := max (need_fields needs) (mh_id mh + 1)\<rparr>
      else needs\<lparr>need_methods := max (need_methods needs) (mh_id mh + 1)\<rparr>)"
    have step: "for_range i count (method_handle_entry c off) needs
        = for_range (Suc i) count (method_handle_entry c off) needs'"
      using m i True by (simp add: for_range_step needs'_def Let_def)
    have "needs_exact (v_img c) (v_begin c) off (Suc i) needs'"
      unfolding needs_exact_def
    proof (intro allI impI)
      fix d :: vctx assume d: "v_img d = v_img c \<and> v_begin d = v_begin c"
      then have same: "handle_at d off i = handle_at c off i" by (simp add: handle_at_def)
      have "(\<forall>j < Suc i. handle_ok d off j) \<longleftrightarrow> (\<forall>j < i. handle_ok d off j) \<and> handle_ok d off i"
        by (auto simp: less_Suc_eq)
      also have "\<dots> \<longleftrightarrow> needs_met d needs \<and> handle_ok d off i"
        using Suc.prems(2) d by (auto simp: needs_exact_def)
      also have "\<dots> \<longleftrightarrow> needs_met d needs'"
        using True same by (auto simp: handle_ok_def needs_met_def needs'_def Let_def)
      finally show "(\<forall>j < Suc i. handle_ok d off j) \<longleftrightarrow> needs_met d needs'" .
    qed
    then have IH: "(\<exists>r. for_range (Suc i) count (method_handle_entry c off) needs' = Inr r
            \<and> needs_exact (v_img c) (v_begin c) off count r
            \<and> (\<forall>j < count. Suc i \<le> j \<longrightarrow> handle_ok c off j))
      \<or> (\<exists>m. for_range (Suc i) count (method_handle_entry c off) needs' = fail m
            \<and> \<not> (\<forall>j < count. Suc i \<le> j \<longrightarrow> handle_ok c off j))"
      using Suc.hyps i by simp
    have split: "(\<forall>j < count. i \<le> j \<longrightarrow> handle_ok c off j)
        \<longleftrightarrow> (\<forall>j < count. Suc i \<le> j \<longrightarrow> handle_ok c off j)"
      using True by (auto simp: Suc_le_eq le_less)
    from IH show ?thesis unfolding step split .
  qed
qed

lemma walk_method_handles_cases:
  assumes "handles_in_range c off count"
  obtains (walked) needs where "walk_method_handles c off count = Inr needs"
      "needs_exact (v_img c) (v_begin c) off count needs" "\<forall>i < count. handle_ok c off i"
  | (bad) m where "walk_method_handles c off count = fail m" "\<not> (\<forall>i < count. handle_ok c off i)"
proof -
  have "needs_exact (v_img c) (v_begin c) off 0 \<lparr>need_fields = 0, need_methods = 0\<rparr>"
    by (simp add: needs_exact_def needs_met_def)
  from walk_from [OF assms le0 this] show ?thesis
    using that by (auto simp: walk_method_handles_def)
qed

text \<open>
  A memo is sound for the slices that share one data range: what it recorded decides the
  contents of the section it names.
\<close>

definition memo_sound :: "image \<Rightarrow> nat \<Rightarrow> img_state \<Rightarrow> bool" where
  "memo_sound im b st \<longleftrightarrow> (\<forall>((off, n), needs) \<in> set (walked st).
     b + off + n * 8 \<le> length im \<and> needs_exact im b off n needs)"

definition kept_state :: "img_state kept + img_state \<Rightarrow> img_state" where
  "kept_state r = (case r of Inl (f, st) \<Rightarrow> st | Inr st \<Rightarrow> st)"

lemma VerifyMethodHandleSection_cases:
  assumes "handles_in_range c off count"
  obtains (hit) needs where "map_of (walked st) (off, count) = Some needs" "needs_met c needs"
      "VerifyMethodHandleSection c off count st = Inr st"
  | (hit_bad) needs m where "map_of (walked st) (off, count) = Some needs" "\<not> needs_met c needs"
      "VerifyMethodHandleSection c off count st = Inl (Reject m, st)"
  | (budget) m where "map_of (walked st) (off, count) = None" "entries_left st < count"
      "VerifyMethodHandleSection c off count st = Inl (Reject m, st)"
  | (ok) needs where "map_of (walked st) (off, count) = None" "count \<le> entries_left st"
      "needs_exact (v_img c) (v_begin c) off count needs" "\<forall>i < count. handle_ok c off i"
      "VerifyMethodHandleSection c off count st = Inr (st\<lparr>entries_left := entries_left st - count,
         walked := ((off, count), needs) # walked st\<rparr>)"
  | (bad) m where "map_of (walked st) (off, count) = None" "count \<le> entries_left st"
      "\<not> (\<forall>i < count. handle_ok c off i)"
      "VerifyMethodHandleSection c off count st
         = Inl (Reject m, st\<lparr>entries_left := entries_left st - count\<rparr>)"
proof (cases "map_of (walked st) (off, count)")
  case (Some needs)
  show ?thesis
  proof (cases "needs_met c needs")
    case True
    with Some that(1) show ?thesis
      by (auto simp: VerifyMethodHandleSection_def needs_met_def)
  next
    case False
    show ?thesis
      by (rule that(2) [of needs "if need_fields needs > field_ids_size (v_hdr c)
          then ''Bad index: method_handle_item field_idx''
          else ''Bad index: method_handle_item method_idx''"])
        (use Some False in \<open>auto simp: VerifyMethodHandleSection_def needs_met_def fail_def\<close>)
  qed
next
  case None
  show ?thesis
  proof (cases "count \<le> entries_left st")
    case False
    then show ?thesis
      using None that(3) by (auto simp: VerifyMethodHandleSection_def fail_def)
  next
    case True
    from assms show ?thesis
      by (cases rule: walk_method_handles_cases)
        (use None True that(4,5) in \<open>auto simp: VerifyMethodHandleSection_def Let_def fail_def\<close>)
  qed
qed

lemma VerifyMethodHandleSection_sound:
  assumes "handles_in_range c off count" and "memo_sound (v_img c) (v_begin c) st"
  shows "VerifyMethodHandleSection c off count st = Inr st' \<Longrightarrow> \<forall>i < count. handle_ok c off i"
    and "memo_sound (v_img c) (v_begin c) (kept_state (VerifyMethodHandleSection c off count st))"
proof -
  assume inr: "VerifyMethodHandleSection c off count st = Inr st'"
  from assms(1) show "\<forall>i < count. handle_ok c off i"
  proof (cases rule: VerifyMethodHandleSection_cases [where st = st])
    case (hit needs)
    then have "needs_exact (v_img c) (v_begin c) off count needs"
      using assms(2) map_of_SomeD [OF hit(1)] by (auto simp: memo_sound_def)
    with hit(2) show ?thesis by (auto simp: needs_exact_def)
  qed (use inr in auto)
next
  from assms(1)
  show "memo_sound (v_img c) (v_begin c) (kept_state (VerifyMethodHandleSection c off count st))"
    by (cases rule: VerifyMethodHandleSection_cases [where st = st])
      (use assms in \<open>auto simp: kept_state_def memo_sound_def handles_in_range_def\<close>)
qed

lemma wps_VerifyMethodHandleSection:
  assumes "handles_in_range c off count"
  shows "wps (VerifyMethodHandleSection c off count st) (\<lambda>st'.
    memo_sound (v_img c) (v_begin c) st \<longrightarrow>
      memo_sound (v_img c) (v_begin c) st' \<and> (\<forall>i < count. handle_ok c off i))"
proof -
  have "wps (VerifyMethodHandleSection c off count st) (\<lambda>_. True)"
    using assms by (cases rule: VerifyMethodHandleSection_cases [where st = st])
      (simp_all add: wps_def wp_def)
  then show ?thesis
    by (rule wps_conseq_eq)
      (use VerifyMethodHandleSection_sound [OF assms, of st] in \<open>auto simp: kept_state_def\<close>)
qed

section \<open>What an accepted map gives\<close>

definition map_item_at :: "image \<Rightarrow> nat \<Rightarrow> map_item" where
  "map_item_at im p = \<lparr>mi_type = u2_at im p, mi_size = u4_at im (p + 4), mi_offset = u4_at im (p + 8)\<rparr>"

definition map_base :: "vctx \<Rightarrow> nat" where
  "map_base c = v_begin c + map_off (v_hdr c) + 4"

definition map_count :: "vctx \<Rightarrow> nat" where
  "map_count c = u4_at (v_img c) (v_begin c + map_off (v_hdr c))"

definition map_list :: "vctx \<Rightarrow> nat \<Rightarrow> map_item list" where
  "map_list c n = map (\<lambda>i. map_item_at (v_img c) (map_base c + i * 12)) [0..<n]"

lemma map_list_simps [simp]:
  "map_list c 0 = []" "length (map_list c n) = n"
  "map_list c (Suc n) = map_list c n @ [map_item_at (v_img c) (map_base c + n * 12)]"
  by (simp_all add: map_list_def)

definition map_item_ok :: "vctx \<Rightarrow> map_item \<Rightarrow> bool" where
  "map_item_ok c it \<longleftrightarrow> mi_type it \<in> set MapTypes \<and> mi_offset it < v_size c \<and>
     (IsDataSectionType (mi_type it) \<and> map_item_align (mi_type it) = 4 \<longrightarrow> mi_offset it mod 4 = 0) \<and>
     (mi_type it = kMethodHandleItem \<longrightarrow> mi_offset it + mi_size it * 8 \<le> v_size c) \<and>
     (mi_type it = kCallSiteIdItem \<longrightarrow> mi_offset it + mi_size it * 4 \<le> v_size c)"

definition map_list_ok :: "vctx \<Rightarrow> map_item list \<Rightarrow> bool" where
  "map_list_ok c its \<longleftrightarrow> sorted_wrt (<) (map mi_offset its) \<and> distinct (map mi_type its) \<and>
     (\<forall>it \<in> set its. map_item_ok c it)"

definition handle_count :: "nat \<Rightarrow> map_item list \<Rightarrow> nat" where
  "handle_count n0 its =
     (case find (\<lambda>it. mi_type it = kMethodHandleItem) its of Some it \<Rightarrow> mi_size it | None \<Rightarrow> n0)"

definition handle_section_ok :: "vctx \<Rightarrow> map_item list \<Rightarrow> bool" where
  "handle_section_ok c its \<longleftrightarrow> (\<forall>it \<in> set its. mi_type it = kMethodHandleItem \<longrightarrow>
     (\<forall>i < mi_size it. handle_ok c (mi_offset it) i))"

definition scan_inv :: "vctx \<Rightarrow> img_state \<Rightarrow> nat \<Rightarrow> map_scan \<Rightarrow> bool" where
  "scan_inv c st n s \<longleftrightarrow> (let its = map_list c n in
     map_list_ok c its \<and> (its \<noteq> [] \<longrightarrow> ms_last s = mi_offset (last its)) \<and>
     (\<forall>t. ms_bits s AND MapTypeToBitMask t \<noteq> 0 \<longleftrightarrow> t \<in> mi_type ` set its) \<and>
     ms_handles s = handle_count (v_mh_count c) its \<and>
     (memo_sound (v_img c) (v_begin c) st \<longrightarrow>
        memo_sound (v_img c) (v_begin c) (ms_state s) \<and> handle_section_ok c its))"

lemma check_map_item_ok:
  assumes "check_map_item c n it s = Inr u" and "scan_inv c st n s"
  shows "map_list_ok c (map_list c n @ [it])" and "map_item_ok c it"
    and "\<forall>x \<in> set (map_list c n). mi_type x \<noteq> mi_type it"
proof -
  let ?its = "map_list c n"
  have ent: "0 < map_item_entry (mi_type it)" if "map_item_entry (mi_type it) \<noteq> 0"
    using that by simp
  from assms(1) have 1: "n = 0 \<or> ms_last s < mi_offset it" "mi_offset it < v_size c"
    "IsDataSectionType (mi_type it) \<longrightarrow> is_aligned (mi_offset it) (map_item_align (mi_type it))"
    "MapTypeToBitMask (mi_type it) \<noteq> 0" "ms_bits s AND MapTypeToBitMask (mi_type it) = 0"
    by (auto simp: check_map_item_def Let_def split: if_splits)
  have span: "mi_offset it + mi_size it * map_item_entry (mi_type it) \<le> v_size c"
    if "map_item_entry (mi_type it) \<noteq> 0"
    using assms(1) that check_list_size_Inr_iff [OF ent [OF that]]
    by (auto simp: check_map_item_def Let_def offset_to_ptr_def end_of_file_def split: if_splits)
  show ok: "map_item_ok c it"
    using 1 span by (auto simp: map_item_ok_def mask_known map_item_entry_def layout map_types
        simp del: is_aligned_1)
  show new: "\<forall>x \<in> set ?its. mi_type x \<noteq> mi_type it"
    using assms(2) 1(5) by (metis (no_types, lifting) imageI scan_inv_def)
  have inc: "\<forall>x \<in> set ?its. mi_offset x < mi_offset it"
  proof (cases "n = 0")
    case False
    then have ne: "?its \<noteq> []" by (metis length_0_conv map_list_simps(2))
    then have "mi_offset (last ?its) < mi_offset it"
      using assms(2) 1(1) False by (auto simp: scan_inv_def Let_def)
    moreover have "sorted_wrt (<) (map mi_offset (butlast ?its @ [last ?its]))"
      using assms(2) ne by (simp add: scan_inv_def Let_def map_list_ok_def)
    ultimately have "\<forall>x \<in> set (butlast ?its @ [last ?its]). mi_offset x < mi_offset it"
      by (auto simp: sorted_wrt_append)
    with ne show ?thesis by simp
  qed simp
  show "map_list_ok c (?its @ [it])"
    using assms(2) inc new ok
    by (auto simp: scan_inv_def Let_def map_list_ok_def sorted_wrt_append)
qed

lemma find_append: "find P (xs @ ys) = (case find P xs of None \<Rightarrow> find P ys | Some x \<Rightarrow> Some x)"
  by (induction xs) simp_all

lemma check_map_item_not_Oob: "wp (check_map_item c n it s) (\<lambda>_. True)"
  by (simp add: check_map_item_def Let_def wp_rules check_list_size_not_Oob)

lemma scan_step:
  assumes "scan_inv c st n s" and "check_map_item c n it s = Inr u"
    and it: "it = map_item_at (v_img c) (map_base c + n * 12)"
    and s': "ms_last s' = mi_offset it" "ms_bits s' = ms_bits s OR MapTypeToBitMask (mi_type it)"
    "ms_handles s' = (if mi_type it = kMethodHandleItem then mi_size it else ms_handles s)"
    and st': "memo_sound (v_img c) (v_begin c) (ms_state s) \<Longrightarrow>
      memo_sound (v_img c) (v_begin c) (ms_state s') \<and>
      (mi_type it = kMethodHandleItem \<longrightarrow> (\<forall>i < mi_size it. handle_ok c (mi_offset it) i))"
  shows "scan_inv c st (Suc n) s'"
proof -
  note ok = check_map_item_ok [OF assms(2,1)]
  have "map_list c (Suc n) = map_list c n @ [it]" by (simp add: it)
  moreover have "ms_bits s' AND MapTypeToBitMask t \<noteq> 0 \<longleftrightarrow> t \<in> mi_type ` set (map_list c n @ [it])" for t
    using assms(1) ok(2) mask_OR [of "ms_bits s" "mi_type it" t]
    by (auto simp: s' scan_inv_def Let_def map_item_ok_def)
  moreover have "ms_handles s' = handle_count (v_mh_count c) (map_list c n @ [it])"
  proof (cases "mi_type it = kMethodHandleItem")
    case True
    then have "find (\<lambda>it. mi_type it = kMethodHandleItem) (map_list c n) = None"
      using ok(3) by (auto simp: find_None_iff)
    then show ?thesis using True s'(3) by (simp add: handle_count_def find_append)
  next
    case False
    then show ?thesis using s'(3) assms(1)
      by (simp add: handle_count_def find_append scan_inv_def Let_def split: option.splits)
  qed
  ultimately show ?thesis
    using assms(1) ok(1) s'(1) st'
    unfolding scan_inv_def Let_def by (auto simp: handle_section_ok_def)
qed

lemma wps_map_item_step:
  assumes "vctx_ok c" and "scan_inv c st n s" and "map_base c + n * 12 + 12 \<le> end_of_file c"
  shows "wps (map_item_step c (map_base c) n s) (scan_inv c st (Suc n))"
proof -
  let ?it = "map_item_at (v_img c) (map_base c + n * 12)"
  have len: "map_base c + n * 12 + 12 \<le> length (v_img c)"
    using assms(3) vctx_okD [OF assms(1)] by simp
  have rest: "wps (if mi_type ?it = kMethodHandleItem
         then bind (VerifyMethodHandleSection c (mi_offset ?it) (mi_size ?it) (ms_state s))
            (\<lambda>st. Inr (s\<lparr>ms_last := mi_offset ?it,
               ms_bits := ms_bits s OR MapTypeToBitMask (mi_type ?it),
               ms_handles := mi_size ?it, ms_state := st\<rparr>))
         else Inr (s\<lparr>ms_last := mi_offset ?it,
               ms_bits := ms_bits s OR MapTypeToBitMask (mi_type ?it)\<rparr>)) (scan_inv c st (Suc n))"
    if chk: "check_map_item c n ?it s = Inr u" for u
  proof (cases "mi_type ?it = kMethodHandleItem")
    case True
    have "map_item_ok c ?it" using check_map_item_ok [OF chk assms(2)] by simp
    then have "handles_in_range c (mi_offset ?it) (mi_size ?it)"
      using True vctx_okD [OF assms(1)]
      by (simp add: map_item_ok_def handles_in_range_def end_of_file_def)
    note wps_VerifyMethodHandleSection [OF this, of "ms_state s"]
    then have "wps (VerifyMethodHandleSection c (mi_offset ?it) (mi_size ?it) (ms_state s))
      (\<lambda>st'. scan_inv c st (Suc n) (s\<lparr>ms_last := mi_offset ?it,
               ms_bits := ms_bits s OR MapTypeToBitMask (mi_type ?it),
               ms_handles := mi_size ?it, ms_state := st'\<rparr>))"
      by (rule wps_conseq) (rule scan_step [OF assms(2) chk refl], use True in simp_all)
    then show ?thesis using True by (simp add: wps_simps)
  next
    case False
    have "scan_inv c st (Suc n) (s\<lparr>ms_last := mi_offset ?it,
               ms_bits := ms_bits s OR MapTypeToBitMask (mi_type ?it)\<rparr>)"
      by (rule scan_step [OF assms(2) chk refl]) (use False in simp_all)
    then show ?thesis using False by (simp add: wps_simps)
  qed
  have "wp (check_map_item c n ?it s) (\<lambda>_. wps (if mi_type ?it = kMethodHandleItem
         then bind (VerifyMethodHandleSection c (mi_offset ?it) (mi_size ?it) (ms_state s))
            (\<lambda>st. Inr (s\<lparr>ms_last := mi_offset ?it,
               ms_bits := ms_bits s OR MapTypeToBitMask (mi_type ?it),
               ms_handles := mi_size ?it, ms_state := st\<rparr>))
         else Inr (s\<lparr>ms_last := mi_offset ?it,
               ms_bits := ms_bits s OR MapTypeToBitMask (mi_type ?it)\<rparr>)) (scan_inv c st (Suc n)))"
    by (rule wp_conseq_eq [OF check_map_item_not_Oob]) (rule rest)
  then show ?thesis
    using len
    by (simp add: map_item_step_def wps_simps wp_rd_structs layout map_item_at_def Let_def
        cong: if_cong)
qed

definition section_required :: "nat \<Rightarrow> nat \<Rightarrow> nat \<Rightarrow> map_item list \<Rightarrow> bool" where
  "section_required t off sz its \<longleftrightarrow> (off \<noteq> 0 \<or> sz \<noteq> 0 \<longrightarrow> t \<in> mi_type ` set its)"

definition map_complete :: "vctx \<Rightarrow> map_item list \<Rightarrow> bool" where
  "map_complete c its \<longleftrightarrow> (let h = v_hdr c in
     kHeaderItem \<in> mi_type ` set its \<and> kMapList \<in> mi_type ` set its \<and>
     section_required kStringIdItem (string_ids_off h) (string_ids_size h) its \<and>
     section_required kTypeIdItem (type_ids_off h) (type_ids_size h) its \<and>
     section_required kProtoIdItem (proto_ids_off h) (proto_ids_size h) its \<and>
     section_required kFieldIdItem (field_ids_off h) (field_ids_size h) its \<and>
     section_required kMethodIdItem (method_ids_off h) (method_ids_size h) its \<and>
     section_required kClassDefItem (class_defs_off h) (class_defs_size h) its)"

lemma wp_require_sections:
  assumes "\<And>t. used AND MapTypeToBitMask t \<noteq> 0 \<longleftrightarrow> t \<in> mi_type ` set its"
  shows "wp (require_sections c used) (\<lambda>_. map_complete c its)"
proof -
  have eq: "used AND MapTypeToBitMask t = 0 \<longleftrightarrow> t \<notin> mi_type ` set its" for t
    using assms [of t] by blast
  have r: "wp (require_section used t off sz name) Q
      = (section_required t off sz its \<longrightarrow> Q ())" for t off sz name Q
    by (auto simp: require_section_def section_required_def eq wp_rules)
  show ?thesis
    by (simp add: require_sections_def Let_def wp_bind r eq wp_if wp_fail map_complete_def)
qed

definition map_ok :: "vctx \<Rightarrow> bool" where
  "map_ok c \<longleftrightarrow> map_base c + map_count c * 12 \<le> end_of_file c \<and>
     map_list_ok c (map_list c (map_count c)) \<and> map_complete c (map_list c (map_count c))"

text \<open>The result of \<open>CheckMap\<close>, and the state it leaves.\<close>

definition map_post :: "vctx \<Rightarrow> img_state \<Rightarrow> vctx \<times> img_state \<Rightarrow> bool" where
  "map_post c st r \<longleftrightarrow> map_ok c \<and>
     fst r = c\<lparr>v_mh_count := handle_count (v_mh_count c) (map_list c (map_count c))\<rparr> \<and>
     (memo_sound (v_img c) (v_begin c) st \<longrightarrow>
        memo_sound (v_img c) (v_begin c) (snd r) \<and> handle_section_ok c (map_list c (map_count c)))"

lemma wps_CheckMap:
  assumes "vctx_ok c"
  shows "wps (CheckMap c st) (map_post c st)"
proof -
  let ?map = "offset_to_ptr c (map_off (v_hdr c))"
  have base: "?map + sizeof_MapList = map_base c" "?map = v_begin c + map_off (v_hdr c)"
    by (simp_all add: offset_to_ptr_def map_base_def layout)
  have init: "scan_inv c st 0 \<lparr>ms_last = 0, ms_bits = 0, ms_handles = v_mh_count c, ms_state = st\<rparr>"
    by (simp add: scan_inv_def map_list_ok_def handle_count_def handle_section_ok_def)
  have loop: "wps (for_range 0 (map_count c) (map_item_step c (map_base c))
      \<lparr>ms_last = 0, ms_bits = 0, ms_handles = v_mh_count c, ms_state = st\<rparr>)
      (scan_inv c st (map_count c))"
    if le: "map_base c + map_count c * 12 \<le> end_of_file c"
  proof (rule wps_for_range [where Inv = "scan_inv c st", OF init])
    fix j s assume j: "j < map_count c" and "scan_inv c st j s"
    moreover have "Suc j * 12 \<le> map_count c * 12" using j by (intro mult_le_mono1) simp
    then have "map_base c + j * 12 + 12 \<le> end_of_file c" using le by simp
    ultimately show "wps (map_item_step c (map_base c) j s) (scan_inv c st (Suc j))"
      using wps_map_item_step [OF assms] by blast
  qed simp
  have fin: "wp (require_sections c (ms_bits s)) (\<lambda>_. map_post c st
      (c\<lparr>v_mh_count := ms_handles s\<rparr>, ms_state s))"
    if "scan_inv c st (map_count c) s" "map_base c + map_count c * 12 \<le> end_of_file c" for s
    by (rule wp_conseq [OF wp_require_sections [where its = "map_list c (map_count c)"]])
      (use that in \<open>auto simp: scan_inv_def Let_def map_post_def map_ok_def\<close>)
  show ?thesis
    unfolding CheckMap_def Let_def wps_simps base(1)
  proof (rule wp_conseq [OF wp_check_list_size])
    fix u assume fits: "v_begin c \<le> ?map \<and> ?map + 1 * sizeof_MapList \<le> end_of_file c"
    have "wp (check_list_size c (map_base c) (map_count c) sizeof_MapItem ''map size'')
      (\<lambda>_. wps (for_range 0 (map_count c) (map_item_step c (map_base c))
          \<lparr>ms_last = 0, ms_bits = 0, ms_handles = v_mh_count c, ms_state = st\<rparr>)
        (\<lambda>s. wp (require_sections c (ms_bits s)) (\<lambda>_. map_post c st
          (c\<lparr>v_mh_count := ms_handles s\<rparr>, ms_state s))))"
      by (rule wp_conseq [OF wp_check_list_size])
        (auto simp: layout intro!: wps_conseq [OF loop] fin)
    moreover have "rd_u4 (v_img c) ?map = Inr (map_count c)"
      using fits vctx_okD [OF assms] by (simp add: rd_u4_def map_count_def base(2) layout)
    ultimately show "wp (rd_u4 (v_img c) ?map) (\<lambda>x. wp (check_list_size c (map_base c) x
        sizeof_MapItem ''map size'') (\<lambda>_. wps (for_range 0 x (map_item_step c (map_base c))
          \<lparr>ms_last = 0, ms_bits = 0, ms_handles = v_mh_count c, ms_state = st\<rparr>)
        (\<lambda>s. wp (require_sections c (ms_bits s)) (\<lambda>_. map_post c st
          (c\<lparr>v_mh_count := ms_handles s\<rparr>, ms_state s)))))"
      by (simp add: wp_Inr)
  qed (simp add: layout)
qed

section \<open>Slices of one image\<close>

text \<open>
  The sections walked by the slices of one image, in order: each slice's verifier seeds the state
  it is handed (as the constructor does) and walks its section.
\<close>

type_synonym handle_section = "vctx \<times> nat \<times> nat"

fun walk_sections :: "image \<Rightarrow> handle_section list \<Rightarrow> img_state \<Rightarrow> img_state" where
  "walk_sections im [] st = st"
| "walk_sections im ((c, off, count) # secs) st =
     walk_sections im secs (kept_state (VerifyMethodHandleSection c off count (seed_img_state im st)))"

definition section_bytes :: "handle_section \<Rightarrow> nat set" where
  "section_bytes s = (case s of (c, off, count) \<Rightarrow> {v_begin c + off ..< v_begin c + off + count * 8})"

definition disjoint_sections :: "image \<Rightarrow> handle_section list \<Rightarrow> bool" where
  "disjoint_sections im secs \<longleftrightarrow>
     (\<forall>(c, off, count) \<in> set secs. v_img c = im \<and> handles_in_range c off count) \<and>
     sorted_wrt (\<lambda>s t. section_bytes s \<inter> section_bytes t = {}) secs"

lemma disjoint_bytes:
  assumes "disjoint_sections im secs"
  shows "card (\<Union> (section_bytes ` set secs)) = (\<Sum>(c, off, count) \<leftarrow> secs. count * 8)"
    and "\<Union> (section_bytes ` set secs) \<subseteq> {..< length im}"
proof -
  show "card (\<Union> (section_bytes ` set secs)) = (\<Sum>(c, off, count) \<leftarrow> secs. count * 8)"
    using assms
  proof (induction secs)
    case (Cons s secs)
    have "card (section_bytes s \<union> \<Union> (section_bytes ` set secs))
      = card (section_bytes s) + card (\<Union> (section_bytes ` set secs))"
      by (rule card_Un_disjoint) (use Cons.prems in \<open>auto simp: disjoint_sections_def section_bytes_def\<close>)
    then show ?case
      using Cons by (cases s) (auto simp: disjoint_sections_def section_bytes_def)
  qed simp
  show "\<Union> (section_bytes ` set secs) \<subseteq> {..< length im}"
    using assms by (fastforce simp: disjoint_sections_def section_bytes_def handles_in_range_def)
qed

lemma disjoint_sum:
  assumes "disjoint_sections im secs"
  shows "(\<Sum>(c, off, count) \<leftarrow> secs. count) * 8 \<le> length im"
proof -
  have "(\<Sum>(c, off, count) \<leftarrow> secs. count) * 8 = (\<Sum>(c, off, count) \<leftarrow> secs. count * 8)"
    by (induction secs) auto
  also have "\<dots> \<le> card {..< length im}"
    using disjoint_bytes [OF assms] by (metis card_mono finite_lessThan)
  finally show ?thesis by simp
qed

lemma entries_left_step:
  assumes "handles_in_range c off count"
  shows "entries_left st - count \<le> entries_left (kept_state (VerifyMethodHandleSection c off count st))"
  using assms by (cases rule: VerifyMethodHandleSection_cases [where st = st]) (simp_all add: kept_state_def)

lemma entries_left_seed: "entries_left st \<le> entries_left (seed_img_state im st)"
  by (simp add: seed_img_state_def)

lemma walk_sections_left:
  assumes "\<forall>(c, off, count) \<in> set secs. handles_in_range c off count"
  shows "entries_left st - (\<Sum>(c, off, count) \<leftarrow> secs. count) \<le> entries_left (walk_sections im secs st)"
  using assms
proof (induction im secs st rule: walk_sections.induct)
  case (2 im c off count secs st)
  have "entries_left st - count \<le> entries_left (seed_img_state im st) - count"
    using entries_left_seed by (rule diff_le_mono)
  also have "\<dots> \<le> entries_left (kept_state (VerifyMethodHandleSection c off count (seed_img_state im st)))"
    using entries_left_step 2 by simp
  finally show ?case using 2 by simp
qed simp

lemma budget_left:
  assumes "disjoint_sections im (secs @ [(c, off, count)])"
  shows "count \<le> entries_left (seed_img_state im (walk_sections im secs fresh_img_state))"
proof (cases secs)
  case Nil
  then show ?thesis
    using disjoint_sum [OF assms] by (simp add: seed_img_state_def fresh_img_state_def layout)
next
  case (Cons s secs')
  obtain c0 off0 n0 where s: "s = (c0, off0, n0)" by (cases s)
  let ?st = "seed_img_state im fresh_img_state"
  let ?n = "\<Sum>(c, off, count) \<leftarrow> secs. count"
  have "seed_img_state im ?st = ?st" by (simp add: seed_img_state_def fresh_img_state_def)
  then have walk: "walk_sections im secs fresh_img_state = walk_sections im secs ?st"
    by (simp add: Cons s)
  have "(?n + count) * 8 \<le> length im" using disjoint_sum [OF assms] by simp
  then have "count \<le> entries_left ?st - ?n"
    by (simp add: seed_img_state_def fresh_img_state_def layout)
  also have "\<dots> \<le> entries_left (walk_sections im secs ?st)"
    by (rule walk_sections_left) (use assms in \<open>auto simp: disjoint_sections_def\<close>)
  also have "\<dots> \<le> entries_left (seed_img_state im (walk_sections im secs ?st))"
    by (rule entries_left_seed)
  finally show ?thesis by (simp add: walk)
qed

text \<open>
  Two slices with different data ranges in a 16-byte image: a valid handle (the static put of
  field 0) at byte 0, and at byte 8 an entry of type \<open>0xffff\<close>. \<open>slice_bad\<close> claims both.
\<close>

definition two_slices :: image where
  "two_slices = [0, 0, 0, 0, 0, 0, 0, 0, 0xff, 0xff, 0, 0, 0, 0, 0, 0]"

definition slice_at :: "nat \<Rightarrow> vctx" where
  "slice_at b = \<lparr>v_img = two_slices,
     v_hdr = \<lparr>hdr_off = b, magic = [], checksum = 0, file_size = 0, header_size = 0, endian_tag = 0,
       link_size = 0, link_off = 0, map_off = 0, string_ids_size = 0, string_ids_off = 0,
       type_ids_size = 0, type_ids_off = 0, proto_ids_size = 0, proto_ids_off = 0,
       field_ids_size = 1, field_ids_off = 0, method_ids_size = 0, method_ids_off = 0,
       class_defs_size = 0, class_defs_off = 0, data_size = 0, data_off = 0\<rparr>,
     v_begin = b, v_size = 16 - b, v_insns = True, v_mh_count = 0\<rparr>"

definition slice_a :: vctx where "slice_a = slice_at 0"
definition slice_b :: vctx where "slice_b = slice_at 8"
definition slice_bad :: vctx where "slice_bad = slice_at 0"

lemmas slice_facts = slice_a_def slice_b_def slice_bad_def slice_at_def handles_in_range_def section_bytes_def
  handle_ok_def handle_at_def two_slices_def u2_at_def byte_at_def memo_sound_def end_of_file_def vctx_ok_def

lemmas slice_walk_simps = walk_method_handles_def for_range_step method_handle_entry_def rd_method_handle_def
  offset_to_ptr_def check_index_def METHOD_HANDLE_TYPE_INSTANCE_GET_def
  METHOD_HANDLE_TYPE_INVOKE_INTERFACE_def layout

text \<open>The states the walks of these slices leave.\<close>

definition seeded :: img_state where "seeded = \<lparr>walked = [], entries_left = 3\<rparr>"

lemma seed_two_slices:
  "seed_img_state two_slices fresh_img_state = seeded"
  "seed_img_state two_slices \<lparr>walked = [], entries_left = 0\<rparr> = seeded"
  "seed_img_state two_slices \<lparr>walked = [], entries_left = Suc 0\<rparr> = \<lparr>walked = [], entries_left = Suc 0\<rparr>"
  by (simp_all add: seed_img_state_def fresh_img_state_def seeded_def two_slices_def layout)

definition walked_a :: img_state where
  "walked_a = \<lparr>walked = [((0, 1), \<lparr>need_fields = 1, need_methods = 0\<rparr>)], entries_left = 2\<rparr>"

lemma slice_walks:
  "VerifyMethodHandleSection slice_a 0 1 seeded = Inr walked_a"
  "VerifyMethodHandleSection slice_b 0 1 walked_a = Inr walked_a"
  "VerifyMethodHandleSection slice_b 0 1 seeded =
     Inl (Reject ''Bad method handle type'', \<lparr>walked = [], entries_left = 2\<rparr>)"
  "VerifyMethodHandleSection slice_bad 0 2 seeded =
     Inl (Reject ''Bad method handle type'', \<lparr>walked = [], entries_left = Suc 0\<rparr>)"
  "VerifyMethodHandleSection slice_b 0 1 \<lparr>walked = [], entries_left = Suc 0\<rparr> =
     Inl (Reject ''Bad method handle type'', \<lparr>walked = [], entries_left = 0\<rparr>)"
  by (simp_all add: VerifyMethodHandleSection_def slice_walk_simps slice_facts seeded_def walked_a_def fail_def)

lemma slice_b_bad: "\<not> handle_ok slice_b 0 0"
  by (simp add: slice_facts)

lemma slice_a_good: "handles_in_range slice_a 0 1" "v_img slice_a = two_slices" "v_begin slice_a = 0"
  "handles_in_range slice_b 0 1" "v_img slice_b = two_slices" "v_begin slice_b = 8"
  by (simp_all add: slice_facts)

section \<open>Further results\<close>

text \<open>
  The memo is keyed by an offset relative to the data range, so slices with different ranges
  (standalone dexes concatenated in one image) share entries that describe different bytes: after
  the walk of the first slice, the second slice's section is accepted although its only handle
  has the undefined type \<open>0xffff\<close>, and although a walk would refuse it.
\<close>

theorem memo_confuses_slices:
  "VerifyMethodHandleSection slice_a 0 1 (seed_img_state two_slices fresh_img_state) = Inr walked_a \<and>
   VerifyMethodHandleSection slice_b 0 1 walked_a = Inr walked_a \<and>
   \<not> handle_ok slice_b 0 0 \<and>
   VerifyMethodHandleSection slice_b 0 1 (seed_img_state two_slices fresh_img_state) =
     Inl (Reject ''Bad method handle type'', \<lparr>walked = [], entries_left = 2\<rparr>)"
  by (simp only: seed_two_slices slice_walks slice_b_bad) simp

text \<open>
  A failed walk spends budget and records nothing. Two failing walks of 2 and 1 entries drain
  the budget of a 16-byte image with an empty memo, and seeding the next slice's verifier from
  that state gives the whole budget back: the budget is not seeded once per image.
\<close>

theorem budget_reseeded:
  "let st0 = seed_img_state two_slices fresh_img_state;
       st1 = kept_state (VerifyMethodHandleSection slice_bad 0 2 st0);
       st2 = kept_state (VerifyMethodHandleSection slice_b 0 1 (seed_img_state two_slices st1))
   in entries_left st0 = 3 \<and> st2 = \<lparr>walked = [], entries_left = 0\<rparr> \<and>
      seed_img_state two_slices st2 = st0"
  by (simp add: Let_def seed_two_slices slice_walks [simplified] kept_state_def) (simp add: seeded_def)

text \<open>
  Among slices of one image that share a data range, the memo of walked method_handle sections
  is sound: a section accepted through it satisfies this slice's bounds entry by entry, and every
  outcome, failures included, leaves a sound memo.
\<close>

theorem handle_memo_sound:
  assumes "handles_in_range c off count" and "memo_sound (v_img c) (v_begin c) st"
  shows "memo_sound (v_img c) (v_begin c) (kept_state (VerifyMethodHandleSection c off count st)) \<and>
    (VerifyMethodHandleSection c off count st = Inr st' \<longrightarrow> (\<forall>i < count. handle_ok c off i))"
  using VerifyMethodHandleSection_sound [OF assms] by blast

text \<open>
  A legitimate image never exhausts the entry budget: when the sections the slices name occupy
  pairwise disjoint bytes, no walk is refused for the budget, whatever the earlier walks did.
\<close>

theorem disjoint_sections_in_budget:
  assumes "disjoint_sections im (secs @ [(c, off, count)])"
  shows "count \<le> entries_left (seed_img_state im (walk_sections im secs fresh_img_state))"
  using budget_left [OF assms] .

section \<open>Properties\<close>


end
