(* ===== verification/Descriptors.thy ===== *)
theory Descriptors
  imports Mutf8_Spec "HOL-Library.List_Lexorder"
begin

text \<open>
  The pure leaves of the verifier (\<open>dex_verifier.cpp\<close>, before the class): the MUTF-8 character
  reader, the string comparator that decides the order of \<open>string_ids\<close>, and the member-name and
  type-descriptor validators. All of them walk NUL-terminated bytes with no bound of their own:
  on an image position that holds a verified string (\<open>str_ok\<close>) they stay inside it, and the
  comparator is the lexicographic order of the decoded UTF-16 units.
\<close>

section \<open>One character\<close>

definition GetTrailingUtf16Char :: "32 word \<Rightarrow> 16 word" where
  "GetTrailingUtf16Char maybe_pair = ucast (drop_bit 16 maybe_pair)"

definition GetLeadingUtf16Char :: "32 word \<Rightarrow> 16 word" where
  "GetLeadingUtf16Char maybe_pair = ucast (maybe_pair AND 0x0000FFFF)"

definition GetUtf16FromUtf8 :: "image \<Rightarrow> nat \<Rightarrow> (32 word \<times> nat) result" where
  "GetUtf16FromUtf8 im p =
     bind (rd_u1 im p) (\<lambda>one.
       if one AND 0x80 = 0 then Inr (ucast one, p + 1)
       else bind (rd_u1 im (p + 1)) (\<lambda>two.
         if one AND 0x20 = 0
         then Inr (push_bit 6 (ucast (one AND 0x1f)) OR ucast (two AND 0x3f), p + 2)
         else bind (rd_u1 im (p + 2)) (\<lambda>three.
           if one AND 0x10 = 0
           then Inr (push_bit 12 (ucast (one AND 0x0f)) OR push_bit 6 (ucast (two AND 0x3f))
                  OR ucast (three AND 0x3f), p + 3)
           else bind (rd_u1 im (p + 3)) (\<lambda>four.
             let code_point = push_bit 18 (ucast (one AND 0x0f)) OR push_bit 12 (ucast (two AND 0x3f))
                   OR push_bit 6 (ucast (three AND 0x3f)) OR (ucast (four AND 0x3f) :: 32 word);
                 lead = (drop_bit 10 code_point + 0xd7c0) AND 0xffff;
                 trail = push_bit 16 ((code_point AND 0x03ff) + 0xdc00)
             in Inr (lead OR trail, p + 4)))))"

lemma GetUtf16FromUtf8_advances: "GetUtf16FromUtf8 im p = Inr (c, p') \<Longrightarrow> p < p' \<and> p < length im"
  by (auto simp: GetUtf16FromUtf8_def bind_eq_Inr rd_u1_eq_Inr Let_def split: if_splits)

lemma byte_lead_bits:
  fixes b :: "8 word"
  shows "b AND 0x80 = 0 \<longleftrightarrow> b < 0x80"
    and "0xC0 \<le> b \<Longrightarrow> b < 0xE0 \<Longrightarrow> b AND 0x80 \<noteq> 0 \<and> b AND 0x20 = 0"
    and "0xE0 \<le> b \<Longrightarrow> b < 0xF0 \<Longrightarrow> b AND 0x80 \<noteq> 0 \<and> b AND 0x20 \<noteq> 0 \<and> b AND 0x10 = 0"
proof -
  show "b AND 0x80 = 0 \<longleftrightarrow> b < 0x80"
    using unat_byte_less [of b] div_eqI [of 0 128 "unat b"] div_eqI [of 1 128 "unat b"]
    by (cases "unat b < 128") (simp_all add: and_bit_eq_0 word_less_nat_alt)
next
  assume "0xC0 \<le> b" "b < 0xE0"
  then show "b AND 0x80 \<noteq> 0 \<and> b AND 0x20 = 0"
    using div_eqI [of 1 128 "unat b"] div_eqI [of 6 32 "unat b"]
    by (simp add: and_bit_eq_0 word_less_nat_alt word_le_nat_alt)
next
  assume "0xE0 \<le> b" "b < 0xF0"
  then show "b AND 0x80 \<noteq> 0 \<and> b AND 0x20 \<noteq> 0 \<and> b AND 0x10 = 0"
    using div_eqI [of 1 128 "unat b"] div_eqI [of 7 32 "unat b"] div_eqI [of 14 16 "unat b"]
    by (simp add: and_bit_eq_0 word_less_nat_alt word_le_nat_alt)
qed

lemma unit2_32: "push_bit 6 (ucast (b AND 0x1f)) OR ucast (b2 AND 0x3f)
    = (ucast (unit2 b b2) :: 32 word)"
  by (rule bit_word_eqI) (auto simp: unit2_def and_masks bit_simps)

lemma unit3_32: "push_bit 12 (ucast (b AND 0x0f)) OR push_bit 6 (ucast (b2 AND 0x3f))
    OR ucast (b3 AND 0x3f) = (ucast (unit3 b b2 b3) :: 32 word)"
  by (rule bit_word_eqI) (auto simp: unit3_def and_masks bit_simps)

lemma halves_of_unit [simp]:
  "GetTrailingUtf16Char (ucast (u :: 16 word)) = 0"
  "GetLeadingUtf16Char (ucast (u :: 16 word)) = u"
  unfolding GetTrailingUtf16Char_def GetLeadingUtf16Char_def
  by (rule bit_word_eqI, auto simp: and_masks bit_simps dest: bit_imp_le_length)+

lemma ucast_byte_16_32: "(ucast (ucast (b :: 8 word) :: 16 word) :: 32 word) = ucast b"
  by (rule bit_word_eqI) (auto simp: bit_simps dest: bit_imp_le_length)

text \<open>On a verified string the reader yields the next UTF-16 unit and stays inside it.\<close>

lemma GetUtf16_str_ok:
  assumes "str_ok im p" and "im ! p \<noteq> 0"
  obtains u p' where "GetUtf16FromUtf8 im p = Inr (ucast u, p')" "p < p'" "str_ok im p'"
    "mutf8_units (cstr im p) = u # mutf8_units (cstr im p')"
  using assms(1)
proof (cases rule: str_ok_cases)
  case nul
  with assms(2) show ?thesis by simp
next
  case two
  have "GetUtf16FromUtf8 im p = Inr (ucast (unit2 (im ! p) (im ! Suc p)), Suc (Suc p))"
    using two byte_lead_bits(2) [OF two(1,2)]
    by (simp add: GetUtf16FromUtf8_def rd_u1_def unit2_32)
  with two that show ?thesis by (metis lessI less_SucI)
next
  case three
  have "GetUtf16FromUtf8 im p =
      Inr (ucast (unit3 (im ! p) (im ! Suc p) (im ! Suc (Suc p))), Suc (Suc (Suc p)))"
    using three byte_lead_bits(3) [OF three(1,2)]
    by (simp add: GetUtf16FromUtf8_def rd_u1_def unit3_32 numeral_3_eq_3)
  with three that show ?thesis by (metis lessI less_SucI)
next
  case one
  have "GetUtf16FromUtf8 im p = Inr (ucast (ucast (im ! p) :: 16 word), Suc p)"
    using one byte_lead_bits(1) [of "im ! p"]
    by (simp add: GetUtf16FromUtf8_def rd_u1_def ucast_byte_16_32)
  with one that show ?thesis by blast
qed

section \<open>The string comparator\<close>

function CompareUtf16 :: "image \<Rightarrow> nat \<Rightarrow> nat \<Rightarrow> int result" where
  "CompareUtf16 im p1 p2 =
     bind (rd_u1 im p1) (\<lambda>b1. bind (rd_u1 im p2) (\<lambda>b2.
       if b1 = 0 then Inr (if b2 = 0 then 0 else - 1)
       else if b2 = 0 then Inr 1
       else bind (GetUtf16FromUtf8 im p1) (\<lambda>r1. bind (GetUtf16FromUtf8 im p2) (\<lambda>r2.
         let c1 = fst r1; c2 = fst r2 in
         if c1 = c2 then CompareUtf16 im (snd r1) (snd r2)
         else
           let leading = (ucast (GetLeadingUtf16Char c1) - ucast (GetLeadingUtf16Char c2) :: 32 word)
           in if leading \<noteq> 0 then Inr (sint leading)
              else Inr (uint (GetTrailingUtf16Char c1) - uint (GetTrailingUtf16Char c2))))))"
  by pat_completeness auto
termination
  by (relation "measure (\<lambda>(im, p1, p2). length im - p1)")
    (auto dest!: GetUtf16FromUtf8_advances)

declare CompareUtf16.simps [simp del]

lemma sint_word_of_int_small:
  "- 2147483648 \<le> x \<Longrightarrow> x < 2147483648 \<Longrightarrow> sint (word_of_int x :: 32 word) = x"
  by (simp add: signed_of_int signed_take_bit_int_eq_self)

lemma sint_sub_u16:
  "sint (ucast (a :: 16 word) - ucast (b :: 16 word) :: 32 word) = uint a - uint b"
proof -
  have "uint a < 65536" and "uint b < 65536" and "0 \<le> uint a" and "0 \<le> uint b"
    using unsigned_less [where ?'a = int, of a] unsigned_less [where ?'a = int, of b] by simp_all
  moreover have "ucast a - ucast b = (word_of_int (uint a - uint b) :: 32 word)"
    by simp
  ultimately show ?thesis
    by (simp only: sint_word_of_int_small)
qed

text \<open>
  The result's sign is the lexicographic order of the two strings' UTF-16 units, with the
  end of a string below every unit.
\<close>

definition cmp_sign :: "int \<Rightarrow> 16 word list \<Rightarrow> 16 word list \<Rightarrow> bool" where
  "cmp_sign r xs ys \<longleftrightarrow> (r < 0 \<longleftrightarrow> xs < ys) \<and> (r = 0 \<longleftrightarrow> xs = ys)"

lemma cmp_sign_ge: "cmp_sign r xs ys \<Longrightarrow> r \<ge> 0 \<longleftrightarrow> ys \<le> xs"
  by (auto simp: cmp_sign_def not_less [symmetric])

lemma CompareUtf16_units:
  assumes "str_ok im p1" and "str_ok im p2"
  shows "\<exists>r. CompareUtf16 im p1 p2 = Inr r
    \<and> cmp_sign r (mutf8_units (cstr im p1)) (mutf8_units (cstr im p2))"
  using assms
proof (induction im p1 p2 rule: CompareUtf16.induct)
  case (1 im p1 p2)
  note lens = str_ok_less [OF "1.prems"(1)] str_ok_less [OF "1.prems"(2)]
  consider "im ! p1 = 0" | "im ! p1 \<noteq> 0" "im ! p2 = 0" | "im ! p1 \<noteq> 0" "im ! p2 \<noteq> 0"
    by blast
  then show ?case
  proof cases
    case 1
    then have "cstr im p1 = []" using lens by (simp add: cstr_Cons)
    moreover have "mutf8_units (cstr im p2) = [] \<longleftrightarrow> im ! p2 = 0"
      using "1.prems"(2) by (cases rule: str_ok_cases) auto
    ultimately show ?thesis
      using 1 lens by (subst CompareUtf16.simps)
        (auto simp: rd_u1_def cmp_sign_def neq_Nil_conv)
  next
    case 2
    then have "cstr im p2 = []" using lens by (simp add: cstr_Cons)
    moreover have "mutf8_units (cstr im p1) \<noteq> []"
      using "1.prems"(1) 2 by (cases rule: str_ok_cases) auto
    ultimately show ?thesis
      using 2 lens by (subst CompareUtf16.simps) (auto simp: rd_u1_def cmp_sign_def)
  next
    case 3
    obtain u1 q1 where g1: "GetUtf16FromUtf8 im p1 = Inr (ucast u1, q1)" "str_ok im q1"
      "mutf8_units (cstr im p1) = u1 # mutf8_units (cstr im q1)"
      using GetUtf16_str_ok [OF "1.prems"(1) 3(1)] by metis
    obtain u2 q2 where g2: "GetUtf16FromUtf8 im p2 = Inr (ucast u2, q2)" "str_ok im q2"
      "mutf8_units (cstr im p2) = u2 # mutf8_units (cstr im q2)"
      using GetUtf16_str_ok [OF "1.prems"(2) 3(2)] by metis
    show ?thesis
    proof (cases "u1 = u2")
      case True
      then have "\<exists>r. CompareUtf16 im q1 q2 = Inr r
          \<and> cmp_sign r (mutf8_units (cstr im q1)) (mutf8_units (cstr im q2))"
        using "1.IH" [of "im ! p1" "im ! p2" "(ucast u1, q1)" "(ucast u2, q2)"] 3 lens g1 g2
        by (simp add: rd_u1_def)
      then show ?thesis
        using True 3 lens g1 g2
        by (subst CompareUtf16.simps) (auto simp: rd_u1_def cmp_sign_def)
    next
      case False
      have ne: "(ucast u1 :: 32 word) \<noteq> ucast u2"
        using False by (metis halves_of_unit(2))
      have "(ucast u1 - ucast u2 :: 32 word) \<noteq> 0" using ne by simp
      then have "CompareUtf16 im p1 p2 = Inr (uint u1 - uint u2)"
        using ne 3 lens g1 g2
        by (subst CompareUtf16.simps) (simp add: rd_u1_def sint_sub_u16)
      moreover have "uint u1 \<noteq> uint u2" using False by (simp add: word_uint_eq_iff)
      ultimately show ?thesis
        using False g1(3) g2(3) by (auto simp: cmp_sign_def word_less_def)
    qed
  qed
qed

section \<open>Member names and type descriptors\<close>

text \<open>The validators return the verdict and, where the source advances its cursor, the cursor.\<close>

definition kMemberValidLowAscii :: "32 word list" where
  "kMemberValidLowAscii = [0x00000000, 0x03ff2011, 0x87fffffe, 0x07fffffe]"

definition IsValidPartSlow :: "image \<Rightarrow> nat \<Rightarrow> (bool \<times> nat) result" where
  "IsValidPartSlow im p =
     bind (GetUtf16FromUtf8 im p) (\<lambda>(pair, p').
       let leading = GetLeadingUtf16Char pair; hi = drop_bit 8 leading in
       if GetTrailingUtf16Char pair \<noteq> 0 then Inr (True, p')
       else if hi = 0x00 then Inr (leading \<ge> 0x00a0, p')
       else if hi \<in> {0xd8, 0xd9, 0xda, 0xdb} then
         bind (GetUtf16FromUtf8 im p') (\<lambda>(pair2, p'').
           let trailing = GetLeadingUtf16Char pair2 in
           Inr (GetTrailingUtf16Char pair2 = 0 \<and> 0xdc00 \<le> trailing \<and> trailing \<le> 0xdfff, p''))
       else if hi \<in> {0xdc, 0xdd, 0xde, 0xdf} then Inr (False, p')
       else if hi \<in> {0x20, 0xff} then
         (let block = leading AND 0xfff8 in
          if block = 0x2008 then Inr (leading \<le> 0x200a, p')
          else if block = 0x2028 then Inr (leading = 0x202f, p')
          else if block \<in> {0xfff0, 0xfff8} then Inr (False, p')
          else Inr (True, p'))
       else Inr (True, p'))"

definition IsValidPart :: "image \<Rightarrow> nat \<Rightarrow> (bool \<times> nat) result" where
  "IsValidPart im p =
     bind (rd_u1 im p) (\<lambda>ch.
       if ch \<le> 0x7f
       then Inr ((kMemberValidLowAscii ! unat (drop_bit 5 ch))
                   AND push_bit (unat (ch AND 0x1f)) 1 \<noteq> 0, p + 1)
       else IsValidPartSlow im p)"

lemma IsValidPart_advances: "IsValidPart im p = Inr (v, p') \<Longrightarrow> p < p' \<and> p < length im"
  by (auto simp: IsValidPart_def IsValidPartSlow_def bind_eq_Inr rd_u1_eq_Inr Let_def
      split: if_splits dest!: GetUtf16FromUtf8_advances)

function member_name_from :: "image \<Rightarrow> bool \<Rightarrow> nat \<Rightarrow> bool result" where
  "member_name_from im angle s =
     bind (rd_u1 im s) (\<lambda>ch.
       if ch = 0 then Inr (\<not> angle)
       else if ch = 0x3e
       then (if angle then bind (rd_u1 im (s + 1)) (\<lambda>ch1. Inr (ch1 = 0)) else Inr False)
       else bind (IsValidPart im s) (\<lambda>r.
         if \<not> fst r then Inr False else member_name_from im angle (snd r)))"
  by pat_completeness auto
termination
  by (relation "measure (\<lambda>(im, angle, s). length im - s)") (auto dest!: IsValidPart_advances)

declare member_name_from.simps [simp del]

definition IsValidMemberName :: "image \<Rightarrow> nat \<Rightarrow> bool result" where
  "IsValidMemberName im s =
     bind (rd_u1 im s) (\<lambda>ch.
       if ch = 0 then Inr False
       else if ch = 0x3c then member_name_from im True (s + 1)
       else member_name_from im False s)"

function skip_brackets :: "image \<Rightarrow> nat \<Rightarrow> nat \<Rightarrow> (nat \<times> nat) result" where
  "skip_brackets im array s =
     bind (rd_u1 im s) (\<lambda>ch.
       if ch = 0x5b then skip_brackets im (array + 1) (s + 1) else Inr (array, s))"
  by pat_completeness auto
termination
  by (relation "measure (\<lambda>(im, array, s). length im - s)") (auto simp: rd_u1_eq_Inr)

declare skip_brackets.simps [simp del]

text \<open>The class name of an \<open>L...;\<close> descriptor. \<open>first\<close> is the source's \<open>sep_or_first\<close>.\<close>

function class_name_from :: "image \<Rightarrow> bool \<Rightarrow> nat \<Rightarrow> bool result" where
  "class_name_from im first s =
     bind (rd_u1 im s) (\<lambda>ch.
       if ch = 0 then Inr False
       else if ch = 0x3b
       then (if first then Inr False else bind (rd_u1 im (s + 1)) (\<lambda>ch1. Inr (ch1 = 0)))
       else if ch = 0x2f then (if first then Inr False else class_name_from im True (s + 1))
       else if ch = 0x2e then Inr False
       else bind (IsValidPart im s) (\<lambda>r.
         if \<not> fst r then Inr False else class_name_from im False (snd r)))"
  by pat_completeness auto
termination
  by (relation "measure (\<lambda>(im, first, s). length im - s)")
    (auto simp: rd_u1_eq_Inr dest!: IsValidPart_advances)

declare class_name_from.simps [simp del]

definition primitive_chars :: "8 word list" where
  "primitive_chars = [0x42, 0x43, 0x44, 0x46, 0x49, 0x4a, 0x53, 0x5a]"

definition IsValidDescriptor :: "image \<Rightarrow> nat \<Rightarrow> bool result" where
  "IsValidDescriptor im s =
     bind (skip_brackets im 0 s) (\<lambda>(array, s).
       if array > 255 then Inr False
       else bind (rd_u1 im s) (\<lambda>ch.
         if ch \<in> set primitive_chars then bind (rd_u1 im (s + 1)) (\<lambda>ch1. Inr (ch1 = 0))
         else if ch = 0x56
         then (if array = 0 then bind (rd_u1 im (s + 1)) (\<lambda>ch1. Inr (ch1 = 0)) else Inr False)
         else if ch = 0x4c then class_name_from im True (s + 1)
         else Inr False))"

section \<open>What the validators decide\<close>

text \<open>
  The same verdicts as predicates on UTF-16 units. \<open>part_len us\<close> is the number of units the
  name character at the head of \<open>us\<close> takes (two for a surrogate pair), if there is one.
\<close>

definition ascii_name_char :: "16 word \<Rightarrow> bool" where
  "ascii_name_char u \<longleftrightarrow> u \<in> {0x20, 0x24, 0x2d, 0x5f} \<or> (0x30 \<le> u \<and> u \<le> 0x39)
     \<or> (0x41 \<le> u \<and> u \<le> 0x5a) \<or> (0x61 \<le> u \<and> u \<le> 0x7a)"

definition high_surrogate :: "16 word \<Rightarrow> bool" where
  "high_surrogate u \<longleftrightarrow> 0xd800 \<le> u \<and> u \<le> 0xdbff"

definition low_surrogate :: "16 word \<Rightarrow> bool" where
  "low_surrogate u \<longleftrightarrow> 0xdc00 \<le> u \<and> u \<le> 0xdfff"

definition bmp_name_char :: "16 word \<Rightarrow> bool" where
  "bmp_name_char u \<longleftrightarrow> u \<ge> 0xa0 \<and> \<not> low_surrogate u \<and>
     (let block = u AND 0xfff8 in
      (block = 0x2008 \<longrightarrow> u \<le> 0x200a) \<and> (block = 0x2028 \<longrightarrow> u = 0x202f) \<and>
      block \<notin> {0xfff0, 0xfff8})"

definition part_len :: "16 word list \<Rightarrow> nat option" where
  "part_len us =
     (case us of
        [] \<Rightarrow> None
      | u # r \<Rightarrow>
          if u < 0x80 then (if ascii_name_char u then Some 1 else None)
          else if high_surrogate u
          then (case r of v # _ \<Rightarrow> if low_surrogate v then Some 2 else None | [] \<Rightarrow> None)
          else if bmp_name_char u then Some 1 else None)"

lemma part_len_bounds: "part_len us = Some k \<Longrightarrow> 0 < k \<and> k \<le> length us"
  by (auto simp: part_len_def split: list.splits if_splits)

function name_units :: "16 word list \<Rightarrow> bool" where
  "name_units us \<longleftrightarrow> us = [] \<or>
     (case part_len us of None \<Rightarrow> False | Some k \<Rightarrow> name_units (drop k us))"
  by pat_completeness auto
termination
  by (relation "measure length") (auto dest: part_len_bounds)

declare name_units.simps [simp del]

definition member_name_spec :: "16 word list \<Rightarrow> bool" where
  "member_name_spec us \<longleftrightarrow>
     (if us \<noteq> [] \<and> hd us = 0x3c
      then \<exists>body. us = 0x3c # body @ [0x3e] \<and> name_units body
      else us \<noteq> [] \<and> name_units us)"

function class_name_spec :: "bool \<Rightarrow> 16 word list \<Rightarrow> bool" where
  "class_name_spec first us \<longleftrightarrow>
     (case us of
        [] \<Rightarrow> False
      | u # r \<Rightarrow>
          if u = 0x3b then \<not> first \<and> r = []
          else if u = 0x2f then \<not> first \<and> class_name_spec True r
          else if u = 0x2e then False
          else (case part_len us of
                  None \<Rightarrow> False | Some k \<Rightarrow> class_name_spec False (drop k us)))"
  by pat_completeness auto
termination
  by (relation "measure (\<lambda>(first, us). length us)") (auto dest: part_len_bounds)

declare class_name_spec.simps [simp del]

definition descriptor_spec :: "16 word list \<Rightarrow> bool" where
  "descriptor_spec us \<longleftrightarrow>
     (let dims = length (takeWhile (\<lambda>u. u = 0x5b) us); base = dropWhile (\<lambda>u. u = 0x5b) us in
      dims \<le> 255 \<and>
      (case base of
         [] \<Rightarrow> False
       | u # r \<Rightarrow>
           if u \<in> set (map ucast primitive_chars) then r = []
           else if u = 0x56 then dims = 0 \<and> r = []
           else if u = 0x4c then class_name_spec True r
           else False))"


end
