(* ===== verification/Descriptors_Refine.thy ===== *)
theory Descriptors_Refine
  imports Descriptors
begin

text \<open>
  The validators of \<open>Descriptors\<close> decide exactly the predicates on UTF-16 units stated there:
  \<open>IsValidMemberName\<close> is \<open>member_name_spec\<close> and \<open>IsValidDescriptor\<close> is \<open>descriptor_spec\<close>, on
  every position that holds a verified string. What an accepted name then never contains (a
  lone surrogate, a control character, a quote, a path or descriptor delimiter) follows from
  the predicates alone.
\<close>

section \<open>Refinement of the validators\<close>

lemma drop_bit_8_eq:
  fixes u :: "16 word"
  assumes "k < 256"
  shows "drop_bit 8 u = word_of_nat k \<longleftrightarrow> 256 * k \<le> unat u \<and> unat u < 256 * k + 256"
proof -
  have "drop_bit 8 u = word_of_nat k \<longleftrightarrow> unat (drop_bit 8 u) = k"
    using assms by (simp add: word_unat_eq_iff unsigned_of_nat take_bit_nat_eq_self)
  also have "unat (drop_bit 8 u) = unat u div 256"
    by (subst unat_drop_bit_eq) (simp add: drop_bit_eq_div)
  finally show ?thesis by auto
qed

lemma drop_bit_8_cases:
  fixes u :: "16 word"
  shows "drop_bit 8 u = 0 \<longleftrightarrow> u < 0x100"
    "drop_bit 8 u \<in> {0xd8, 0xd9, 0xda, 0xdb} \<longleftrightarrow> high_surrogate u"
    "drop_bit 8 u \<in> {0xdc, 0xdd, 0xde, 0xdf} \<longleftrightarrow> low_surrogate u"
    "drop_bit 8 u \<in> {0x20, 0xff} \<longleftrightarrow> (0x2000 \<le> u \<and> u < 0x2100) \<or> 0xff00 \<le> u"
proof -
  note eq = drop_bit_8_eq [where u = u]
  note nat = word_less_nat_alt word_le_nat_alt
  have bound: "unat u < 65536" using unsigned_less [where ?'a = nat, of u] by simp
  show "drop_bit 8 u = 0 \<longleftrightarrow> u < 0x100"
    using eq [of "0"] by (simp add: nat)
  show "drop_bit 8 u \<in> {0xd8, 0xd9, 0xda, 0xdb} \<longleftrightarrow> high_surrogate u"
    using eq [of "0xd8"] eq [of "0xd9"] eq [of "0xda"] eq [of "0xdb"]
    by (simp add: nat high_surrogate_def) linarith
  show "drop_bit 8 u \<in> {0xdc, 0xdd, 0xde, 0xdf} \<longleftrightarrow> low_surrogate u"
    using eq [of "0xdc"] eq [of "0xdd"] eq [of "0xde"] eq [of "0xdf"]
    by (simp add: nat low_surrogate_def) linarith
  show "drop_bit 8 u \<in> {0x20, 0xff} \<longleftrightarrow> (0x2000 \<le> u \<and> u < 0x2100) \<or> 0xff00 \<le> u"
    using eq [of "0x20"] eq [of "0xff"] bound by (simp add: nat)
qed

lemma and_fff8:
  fixes u :: "16 word"
  assumes "u AND 0xfff8 = k"
  shows "k \<le> u" "unat u < unat k + 8"
proof -
  have m: "NOT (mask 3) = (0xfff8 :: 16 word)" "mask 3 = (7 :: 16 word)"
    by (simp_all add: mask_eq_exp_minus_1)
  have "u AND NOT (mask 3) OR u AND mask 3 = (u AND NOT (mask 3)) + (u AND mask 3)"
    by (rule disjunctive_add [symmetric]) (auto simp: bit_simps)
  moreover have "u AND NOT (mask 3) OR u AND mask 3 = u"
    by (rule bit_word_eqI) (auto simp: bit_simps)
  ultimately have sum: "u = k + take_bit 3 u"
    using assms by (simp add: m take_bit_eq_mask [symmetric] flip: m(2))
  show le: "k \<le> u" using assms word_and_le2 [of u] by metis
  have "unat (take_bit 3 u) < 8"
    by (simp only: unsigned_take_bit_eq) (simp add: take_bit_eq_mod)
  moreover have "unat u \<le> unat k + unat (take_bit 3 u)"
    by (subst sum) (simp add: unat_word_ariths)
  ultimately show "unat u < unat k + 8" by simp
qed



definition ascii_name_nat :: "nat \<Rightarrow> bool" where
  "ascii_name_nat n \<longleftrightarrow> n = 0x20 \<or> n = 0x24 \<or> n = 0x2d \<or> n = 0x5f \<or> (0x30 \<le> n \<and> n \<le> 0x39)
     \<or> (0x41 \<le> n \<and> n \<le> 0x5a) \<or> (0x61 \<le> n \<and> n \<le> 0x7a)"

lemma unat_ucast_8_16 [simp]: "unat (ucast (b :: 8 word) :: 16 word) = unat b"
  using unat_byte_less [of b] by (simp add: unsigned_ucast_eq take_bit_nat_eq_self)

lemma ucast_8_16_eq: "(ucast (b :: 8 word) :: 16 word) = ucast c \<longleftrightarrow> b = c"
  by (metis unat_ucast_8_16 word_unat_eq_iff)

lemma ascii_table_nat:
  "list_all (\<lambda>n. bit (kMemberValidLowAscii ! (n div 32)) (n mod 32) = ascii_name_nat n) [0..<128]"
  by code_simp

lemma ascii_table:
  fixes b :: "8 word"
  assumes "b \<le> 0x7f"
  shows "(kMemberValidLowAscii ! unat (drop_bit 5 b)) AND push_bit (unat (b AND 0x1f)) 1 \<noteq> 0
     \<longleftrightarrow> ascii_name_char (ucast b)"
proof -
  have n: "unat b < 128" using assms by (simp add: word_le_nat_alt)
  have "unat (b AND 0x1f) = unat b mod 32"
    by (simp only: and_masks unsigned_take_bit_eq) (simp add: take_bit_eq_mod)
  moreover have "unat (drop_bit 5 b) = unat b div 32"
    by (simp only: unat_drop_bit_eq) (simp add: drop_bit_eq_div)
  moreover have "bit (kMemberValidLowAscii ! (unat b div 32)) (unat b mod 32) = ascii_name_nat (unat b)"
    using ascii_table_nat n by (simp add: list_all_iff)
  moreover have "ascii_name_nat (unat b) = ascii_name_char (ucast b)"
    by (simp add: ascii_name_nat_def ascii_name_char_def word_le_nat_alt word_unat_eq_iff)
  ultimately show ?thesis by (simp only: and_push_bit_1)
qed

lemma block_bounds:
  fixes u :: "16 word"
  shows "u AND 0xfff8 = 0x2008 \<Longrightarrow> 0x2008 \<le> u \<and> u < 0x2010"
    "u AND 0xfff8 = 0x2028 \<Longrightarrow> 0x2028 \<le> u \<and> u < 0x2030"
    "u AND 0xfff8 = 0xfff0 \<Longrightarrow> 0xfff0 \<le> u"
    "u AND 0xfff8 = 0xfff8 \<Longrightarrow> 0xfff8 \<le> u"
  using and_fff8 [of u] by (auto simp: word_less_nat_alt word_le_nat_alt)

lemma IsValidPartSlow_unit:
  assumes "GetUtf16FromUtf8 im p = Inr (ucast u, p')" and "\<not> high_surrogate u"
  shows "IsValidPartSlow im p = Inr (bmp_name_char u, p')"
proof -
  note cases = drop_bit_8_cases [of u]
  note nat = word_less_nat_alt word_le_nat_alt
  consider "u < 0x100" | "low_surrogate u" | "(0x2000 \<le> u \<and> u < 0x2100) \<or> 0xff00 \<le> u"
    | "\<not> u < 0x100" "\<not> low_surrogate u" "\<not> ((0x2000 \<le> u \<and> u < 0x2100) \<or> 0xff00 \<le> u)"
    by blast
  then show ?thesis
  proof cases
    case 1
    then have "\<not> low_surrogate u" "u AND 0xfff8 \<notin> {0x2008, 0x2028, 0xfff0, 0xfff8}"
      using block_bounds [of u] by (auto simp: nat low_surrogate_def)
    with 1 show ?thesis
      using assms cases(1) by (simp add: IsValidPartSlow_def bmp_name_char_def Let_def)
  next
    case 2
    then have "drop_bit 8 u \<noteq> 0" "drop_bit 8 u \<notin> {0xd8, 0xd9, 0xda, 0xdb}"
      using assms(2) cases(1,2) by (auto simp: nat low_surrogate_def)
    with 2 show ?thesis
      using assms(1) cases(3) by (simp add: IsValidPartSlow_def bmp_name_char_def Let_def)
  next
    case 3
    then have l: "\<not> low_surrogate u" "drop_bit 8 u \<noteq> 0" "u \<ge> 0xa0"
      using cases(1) by (auto simp: nat low_surrogate_def)
    have "drop_bit 8 u \<notin> {0xd8, 0xd9, 0xda, 0xdb}" "drop_bit 8 u \<notin> {0xdc, 0xdd, 0xde, 0xdf}"
      "drop_bit 8 u \<in> {0x20, 0xff}"
      using cases(2-4) assms(2) l 3 by blast+
    then show ?thesis
      using assms(1) l 
      by (simp add: IsValidPartSlow_def bmp_name_char_def Let_def split del: if_split) auto
  next
    case 4
    then have "u AND 0xfff8 \<notin> {0x2008, 0x2028, 0xfff0, 0xfff8}" "u \<ge> 0xa0" "drop_bit 8 u \<noteq> 0"
      using block_bounds [of u] cases(1) by (auto simp: nat)
    moreover have "drop_bit 8 u \<notin> {0xd8, 0xd9, 0xda, 0xdb}" "drop_bit 8 u \<notin> {0xdc, 0xdd, 0xde, 0xdf}"
      "drop_bit 8 u \<notin> {0x20, 0xff}"
      using cases(2-4) assms(2) 4 by blast+
    ultimately show ?thesis
      using assms(1) 4 by (simp add: IsValidPartSlow_def bmp_name_char_def Let_def)
  qed
qed


lemma unit_ne_0_mutf8:
  assumes "str_ok im p" "0x80 \<le> im ! p" "mutf8_units (cstr im p) = u # r"
  shows "u = 0 \<or> 0x80 \<le> u"
  using assms(1)
proof (cases rule: str_ok_cases)
  case two
  from assms(1) have "mutf8_ok (cstr im p)" by (simp add: str_ok_def)
  moreover have "cstr im p = im ! p # cstr im (Suc p)"
    using two by (auto simp: cstr_Cons word_le_nat_alt)
  ultimately show ?thesis
    by (cases rule: mutf8_cases)
      (use two assms in \<open>auto simp: word_less_nat_alt word_le_nat_alt dest: arg_cong [of _ _ length]\<close>)
next
  case three
  then show ?thesis using assms by (auto simp: word_less_nat_alt word_le_nat_alt)
qed (use assms in \<open>auto simp: word_less_nat_alt word_le_nat_alt\<close>)

lemma IsValidPart_spec:
  assumes ok: "str_ok im p" and nz: "im ! p \<noteq> 0"
  defines "us \<equiv> mutf8_units (cstr im p)"
  obtains p' where "IsValidPart im p = Inr (part_len us \<noteq> None, p')"
    "\<And>k. part_len us = Some k \<Longrightarrow> p < p' \<and> str_ok im p' \<and> mutf8_units (cstr im p') = drop k us"
proof -
  obtain u p' where g: "GetUtf16FromUtf8 im p = Inr (ucast u, p')" "p < p'" "str_ok im p'"
    and us: "us = u # mutf8_units (cstr im p')"
    using GetUtf16_str_ok [OF ok nz] us_def by metis
  have len: "p < length im" using ok by (rule str_ok_less)
  show ?thesis
  proof (cases "im ! p \<le> 0x7f")
    case True
    then have 1: "im ! p < 0x80" by (simp add: word_less_nat_alt word_le_nat_alt)
    then have u: "p' = Suc p" "u = ucast (im ! p)"
      using g(1) len byte_lead_bits(1) [of "im ! p"]
      by (auto simp: GetUtf16FromUtf8_def rd_u1_def ucast_byte_16_32 [symmetric])
        (metis halves_of_unit(2))
    have "u < 0x80" using 1 u by (simp add: word_less_nat_alt unsigned_ucast_eq take_bit_nat_eq_self)
    then have "part_len us = (if ascii_name_char u then Some 1 else None)"
      by (simp add: part_len_def us)
    moreover have "IsValidPart im p = Inr (ascii_name_char u, p')"
      using True ascii_table [OF True] len u by (simp add: IsValidPart_def rd_u1_def)
    ultimately show ?thesis using g us that by (auto split: if_splits)
  next
    case False
    then have ge: "0x80 \<le> im ! p" by (simp add: word_less_nat_alt word_le_nat_alt)
    have u: "u = 0 \<or> 0x80 \<le> u" using unit_ne_0_mutf8 [OF ok ge] us us_def by metis
    have slow: "IsValidPart im p = IsValidPartSlow im p"
      using False len by (simp add: IsValidPart_def rd_u1_def)
    show ?thesis
    proof (cases "high_surrogate u")
      case False
      have ge80: "\<not> u < 0x80" if "u \<noteq> 0"
        using u that by (auto simp: word_less_nat_alt word_le_nat_alt)
      have not_bmp: "\<not> bmp_name_char 0" "\<not> ascii_name_char 0"
        by (simp_all add: bmp_name_char_def ascii_name_char_def)
      have "bmp_name_char u \<longleftrightarrow> part_len us \<noteq> None"
        and "part_len us \<noteq> None \<Longrightarrow> part_len us = Some 1"
        using False u not_bmp ge80 by (cases "u = 0"; simp add: part_len_def us split: if_splits)+
      with False slow IsValidPartSlow_unit [OF g(1)] g us that show ?thesis by auto
    next
      case True
      have hs: "\<not> u < 0x80" "\<not> low_surrogate u" "drop_bit 8 u \<noteq> 0"
        "drop_bit 8 u \<in> {0xd8, 0xd9, 0xda, 0xdb}"
        using True drop_bit_8_cases [of u]
        by (auto simp: high_surrogate_def low_surrogate_def word_less_nat_alt word_le_nat_alt)
      show ?thesis
      proof (cases "im ! p' = 0")
        case nul: True
        then have "cstr im p' = []" "p' < length im"
          using g(3) by (simp_all add: cstr_Cons str_ok_less)
        then have "part_len us = None"
          using hs True by (simp add: part_len_def us)
        moreover have "IsValidPartSlow im p = Inr (False, p' + 1)"
          using nul g(1) hs \<open>p' < length im\<close> halves_of_unit(2) [of 0]
          by (simp add: IsValidPartSlow_def Let_def GetUtf16FromUtf8_def [of im p'] rd_u1_def)
        ultimately show ?thesis using slow that by simp
      next
        case False
        obtain v p'' where h: "GetUtf16FromUtf8 im p' = Inr (ucast v, p'')" "p' < p''"
          "str_ok im p''" and vs: "mutf8_units (cstr im p') = v # mutf8_units (cstr im p'')"
          using GetUtf16_str_ok [OF g(3) False] by metis
        have "IsValidPartSlow im p = Inr (low_surrogate v, p'')"
          using g(1) h(1) hs
          by (simp add: IsValidPartSlow_def Let_def low_surrogate_def)
        moreover have "part_len us = (if low_surrogate v then Some 2 else None)"
          using hs True vs by (simp add: part_len_def us)
        ultimately show ?thesis using slow that us vs g h by (auto split: if_splits)
      qed
    qed
  qed
qed


lemma units_Nil_iff: "str_ok im p \<Longrightarrow> mutf8_units (cstr im p) = [] \<longleftrightarrow> im ! p = 0"
  by (erule str_ok_cases) auto

text \<open>An ASCII byte at the head of a string is its first unit, and the only spelling of it.\<close>

lemma units_ascii_head:
  assumes "str_ok im p" and "c < 0x80" and "c \<noteq> 0"
  shows "im ! p = c \<longleftrightarrow> (\<exists>r. mutf8_units (cstr im p) = ucast c # r)"
    and "im ! p = c \<Longrightarrow> str_ok im (Suc p) \<and>
      mutf8_units (cstr im p) = ucast c # mutf8_units (cstr im (Suc p))"
proof -
  show 2: "str_ok im (Suc p) \<and>
      mutf8_units (cstr im p) = ucast c # mutf8_units (cstr im (Suc p))" if "im ! p = c"
    using assms(1)
    by (cases rule: str_ok_cases)
      (use that assms(2,3) in \<open>auto simp: word_less_nat_alt word_le_nat_alt\<close>)
  have c: "ucast c < (0x80 :: 16 word)" "ucast c \<noteq> (0 :: 16 word)"
    using assms(2,3) by (auto simp: word_less_nat_alt word_unat_eq_iff)
  show "im ! p = c \<longleftrightarrow> (\<exists>r. mutf8_units (cstr im p) = ucast c # r)"
  proof
    assume "im ! p = c" with 2 show "\<exists>r. mutf8_units (cstr im p) = ucast c # r" by blast
  next
    assume "\<exists>r. mutf8_units (cstr im p) = ucast c # r"
    then obtain r where r: "mutf8_units (cstr im p) = ucast c # r" by blast
    show "im ! p = c"
    proof (cases "0x80 \<le> im ! p")
      case True
      from unit_ne_0_mutf8 [OF assms(1) True r] c show ?thesis by auto
    next
      case False
      from assms(1) r show ?thesis
        by (cases rule: str_ok_cases)
          (use False in \<open>auto simp: word_less_nat_alt word_le_nat_alt ucast_8_16_eq\<close>)
    qed
  qed
qed

lemma part_len_append: "part_len xs = Some k \<Longrightarrow> part_len (xs @ ys) = Some k"
  by (auto simp: part_len_def split: list.splits if_splits)

lemma part_len_take: "part_len us = Some k \<Longrightarrow> part_len (take k us @ r) = Some k"
  by (auto simp: part_len_def split: list.splits if_splits)

lemma name_units_rec:
  "name_units []"
  "part_len us = None \<Longrightarrow> name_units us \<longleftrightarrow> us = []"
  "part_len us = Some k \<Longrightarrow> name_units us \<longleftrightarrow> name_units (drop k us)"
  by (subst name_units.simps; auto)+

definition angle_spec :: "16 word list \<Rightarrow> bool" where
  "angle_spec us \<longleftrightarrow> (\<exists>body. us = body @ [0x3e] \<and> name_units body)"

lemma part_len_gt: "part_len (0x3e # r) = None"
  by (simp add: part_len_def ascii_name_char_def)

lemma angle_spec_gt: "angle_spec (0x3e # r) \<longleftrightarrow> r = []"
  using name_units_rec(1) name_units_rec(2) [OF part_len_gt]
  by (auto simp: angle_spec_def Cons_eq_append_conv)

lemma angle_spec_part:
  assumes "us = [] \<or> hd us \<noteq> 0x3e"
  shows "angle_spec us \<longleftrightarrow> (\<exists>k. part_len us = Some k \<and> angle_spec (drop k us))"
proof
  assume "angle_spec us"
  then obtain body where b: "us = body @ [0x3e]" "name_units body"
    by (auto simp: angle_spec_def)
  then have "body \<noteq> []" using assms by auto
  then obtain k where k: "part_len body = Some k"
    using b(2) name_units_rec(2) by (cases "part_len body") auto
  then have "drop k us = drop k body @ [0x3e]" "name_units (drop k body)"
    using b part_len_bounds [OF k] name_units_rec(3) by auto
  with k b(1) part_len_append show "\<exists>k. part_len us = Some k \<and> angle_spec (drop k us)"
    by (auto simp: angle_spec_def)
next
  assume "\<exists>k. part_len us = Some k \<and> angle_spec (drop k us)"
  then obtain k body where k: "part_len us = Some k" "drop k us = body @ [0x3e]" "name_units body"
    by (auto simp: angle_spec_def)
  then have "us = (take k us @ body) @ [0x3e]" by (metis append_assoc append_take_drop_id)
  moreover have "part_len (take k us @ body) = Some k" using part_len_take k(1) by blast
  then have "name_units (take k us @ body)"
    using k part_len_bounds [OF k(1)] name_units_rec(3) by auto
  ultimately show "angle_spec us" unfolding angle_spec_def by blast
qed

lemma member_name_from_spec:
  assumes "str_ok im s"
  shows "member_name_from im angle s = Inr
    ((if angle then angle_spec else name_units) (mutf8_units (cstr im s)))"
  using assms
proof (induction im angle s rule: member_name_from.induct)
  case (1 im angle s)
  let ?us = "mutf8_units (cstr im s)"
  note len = str_ok_less [OF "1.prems"]
  consider "im ! s = 0" | "im ! s = 0x3e" | "im ! s \<noteq> 0" "im ! s \<noteq> 0x3e" by blast
  then show ?case
  proof cases
    case 1
    then have "?us = []" using "1.prems" by (simp add: units_Nil_iff)
    then show ?thesis
      using 1 len by (subst member_name_from.simps)
        (simp add: rd_u1_def name_units_rec angle_spec_def)
  next
    case 2
    then have tl: "str_ok im (Suc s)" "?us = 0x3e # mutf8_units (cstr im (Suc s))"
      using units_ascii_head(2) [OF "1.prems", of "0x3e"] by simp_all
    have "\<not> name_units ?us" using name_units_rec(2) part_len_gt tl(2) by simp
    moreover have "angle_spec ?us \<longleftrightarrow> im ! Suc s = 0"
      using tl by (simp add: angle_spec_gt units_Nil_iff)
    ultimately show ?thesis
      using 2 len str_ok_less [OF tl(1)] by (subst member_name_from.simps) (simp add: rd_u1_def)
  next
    case 3
    obtain p' where p': "IsValidPart im s = Inr (part_len ?us \<noteq> None, p')"
      "\<And>k. part_len ?us = Some k \<Longrightarrow> s < p' \<and> str_ok im p' \<and> mutf8_units (cstr im p') = drop k ?us"
      using IsValidPart_spec [OF "1.prems" 3(1)] by blast
    have ne: "?us \<noteq> []" and "hd ?us \<noteq> 0x3e"
      using "1.prems" 3 units_Nil_iff units_ascii_head(1) [OF "1.prems", of "0x3e"]
      by (cases ?us; simp)+
    then have a: "angle_spec ?us \<longleftrightarrow> (\<exists>k. part_len ?us = Some k \<and> angle_spec (drop k ?us))"
      by (intro angle_spec_part) simp
    have step: "member_name_from im angle s =
        (if part_len ?us = None then Inr False else member_name_from im angle p')"
      using 3 len p'(1) by (subst member_name_from.simps) (simp add: rd_u1_def)
    show ?thesis
    proof (cases "part_len ?us")
      case None
      then show ?thesis using step a ne name_units_rec(2) by simp
    next
      case (Some k)
      have "member_name_from im angle p' = Inr
        ((if angle then angle_spec else name_units) (drop k ?us))"
        using "1.IH" [of "im ! s" "(True, p')"] 3 len p' Some by (simp add: rd_u1_def)
      then show ?thesis using step a Some name_units_rec(3) by simp
    qed
  qed
qed

theorem IsValidMemberName_spec:
  assumes "str_ok im s"
  shows "IsValidMemberName im s = Inr (member_name_spec (mutf8_units (cstr im s)))"
proof -
  let ?us = "mutf8_units (cstr im s)"
  note len = str_ok_less [OF assms]
  consider "im ! s = 0" | "im ! s = 0x3c" | "im ! s \<noteq> 0" "im ! s \<noteq> 0x3c" by blast
  then show ?thesis
  proof cases
    case 1
    then show ?thesis
      using len units_Nil_iff [OF assms]
      by (simp add: IsValidMemberName_def rd_u1_def member_name_spec_def)
  next
    case 2
    then have "str_ok im (Suc s)" "?us = 0x3c # mutf8_units (cstr im (Suc s))"
      using units_ascii_head(2) [OF assms, of "0x3c"] by simp_all
    then show ?thesis
      using 2 len member_name_from_spec [of im "Suc s" True]
      by (auto simp: IsValidMemberName_def rd_u1_def member_name_spec_def angle_spec_def)
  next
    case 3
    then have "?us \<noteq> []" "hd ?us \<noteq> 0x3c"
      using assms units_Nil_iff units_ascii_head(1) [OF assms, of "0x3c"]
      by (cases ?us; simp)+
    then show ?thesis
      using 3 len member_name_from_spec [OF assms, of False]
      by (simp add: IsValidMemberName_def rd_u1_def member_name_spec_def)
  qed
qed

lemma skip_brackets_spec:
  assumes "str_ok im s"
  shows "\<exists>s'. skip_brackets im n s = Inr (n + length (takeWhile (\<lambda>u. u = 0x5b) (mutf8_units (cstr im s))), s')
    \<and> str_ok im s' \<and> mutf8_units (cstr im s') = dropWhile (\<lambda>u. u = 0x5b) (mutf8_units (cstr im s))"
  using assms
proof (induction im n s rule: skip_brackets.induct)
  case (1 im n s)
  note len = str_ok_less [OF "1.prems"]
  show ?case
  proof (cases "im ! s = 0x5b")
    case True
    then have "str_ok im (Suc s)" "mutf8_units (cstr im s) = 0x5b # mutf8_units (cstr im (Suc s))"
      using units_ascii_head(2) [OF "1.prems", of "0x5b"] by simp_all
    then show ?thesis
      using True len "1.IH" [of "im ! s"] by (subst skip_brackets.simps) (simp add: rd_u1_def)
  next
    case False
    then have "mutf8_units (cstr im s) = [] \<or> hd (mutf8_units (cstr im s)) \<noteq> 0x5b"
      using units_ascii_head(1) [OF "1.prems", of "0x5b"] by (cases "mutf8_units (cstr im s)") auto
    then have "takeWhile (\<lambda>u. u = 0x5b) (mutf8_units (cstr im s)) = []"
      "dropWhile (\<lambda>u. u = 0x5b) (mutf8_units (cstr im s)) = mutf8_units (cstr im s)"
      by (cases "mutf8_units (cstr im s)"; simp)+
    then show ?thesis
      using False len "1.prems" by (subst skip_brackets.simps) (simp add: rd_u1_def)
  qed
qed

lemma class_name_spec_rec:
  "class_name_spec first []  \<longleftrightarrow> False"
  "class_name_spec first (0x3b # r) \<longleftrightarrow> \<not> first \<and> r = []"
  "class_name_spec first (0x2f # r) \<longleftrightarrow> \<not> first \<and> class_name_spec True r"
  "class_name_spec first (0x2e # r) \<longleftrightarrow> False"
  "us \<noteq> [] \<Longrightarrow> hd us \<notin> {0x3b, 0x2f, 0x2e} \<Longrightarrow> class_name_spec first us \<longleftrightarrow>
     (\<exists>k. part_len us = Some k \<and> class_name_spec False (drop k us))"
  by (subst class_name_spec.simps; auto split: list.splits option.splits)+

lemma class_name_from_spec:
  assumes "str_ok im s"
  shows "class_name_from im first s = Inr (class_name_spec first (mutf8_units (cstr im s)))"
  using assms
proof (induction im first s rule: class_name_from.induct)
  case (1 im first s)
  let ?us = "mutf8_units (cstr im s)"
  note len = str_ok_less [OF "1.prems"]
  note asc = units_ascii_head [OF "1.prems"]
  consider "im ! s = 0" | c where "im ! s = c" "c \<in> {0x3b, 0x2f, 0x2e}"
    | "im ! s \<notin> {0, 0x3b, 0x2f, 0x2e}" by blast
  then show ?case
  proof cases
    case 1
    then have "?us = []" using "1.prems" by (simp add: units_Nil_iff)
    then show ?thesis
      using 1 len by (subst class_name_from.simps) (simp add: rd_u1_def class_name_spec_rec)
  next
    case (2 c)
    then have "c < 0x80" "c \<noteq> 0" by auto
    then have tl: "str_ok im (Suc s)" "?us = ucast c # mutf8_units (cstr im (Suc s))"
      using asc(2) [of c] 2(1) by simp_all
    note tl' = str_ok_less [OF tl(1)] units_Nil_iff [OF tl(1)]
    from 2(2) consider "c = 0x3b" | "c = 0x2f" | "c = 0x2e" by blast
    then show ?thesis
    proof cases
      case c: 1
      then show ?thesis
        using 2 len tl tl' by (subst class_name_from.simps)
          (simp add: rd_u1_def class_name_spec_rec(2))
    next
      case c: 2
      then have "\<not> first \<Longrightarrow> class_name_from im True (Suc s) =
          Inr (class_name_spec True (mutf8_units (cstr im (Suc s))))"
        using "1.IH"(1) [of "im ! s"] 2 len tl by (simp add: rd_u1_def)
      then show ?thesis
        using 2 c len tl by (subst class_name_from.simps)
          (simp add: rd_u1_def class_name_spec_rec(3))
    next
      case c: 3
      then show ?thesis
        using 2 len tl by (subst class_name_from.simps)
          (simp add: rd_u1_def class_name_spec_rec(4))
    qed
  next
    case 3
    obtain p' where p': "IsValidPart im s = Inr (part_len ?us \<noteq> None, p')"
      "\<And>k. part_len ?us = Some k \<Longrightarrow> s < p' \<and> str_ok im p' \<and> mutf8_units (cstr im p') = drop k ?us"
      using IsValidPart_spec [OF "1.prems"] 3 by blast
    have ne: "?us \<noteq> []" and "hd ?us \<notin> {0x3b, 0x2f, 0x2e}"
      using "1.prems" 3 units_Nil_iff asc(1) [of "0x3b"] asc(1) [of "0x2f"] asc(1) [of "0x2e"]
      by (cases ?us; simp)+
    then have a: "class_name_spec first ?us \<longleftrightarrow>
        (\<exists>k. part_len ?us = Some k \<and> class_name_spec False (drop k ?us))"
      by (rule class_name_spec_rec(5))
    have step: "class_name_from im first s =
        (if part_len ?us = None then Inr False else class_name_from im False p')"
      using 3 len p'(1) by (subst class_name_from.simps) (simp add: rd_u1_def)
    show ?thesis
    proof (cases "part_len ?us")
      case None
      then show ?thesis using step a by simp
    next
      case (Some k)
      have "class_name_from im False p' = Inr (class_name_spec False (drop k ?us))"
        using "1.IH"(2) [of "im ! s" "(True, p')"] 3 len p' Some by (simp add: rd_u1_def)
      then show ?thesis using step a Some by simp
    qed
  qed
qed

theorem IsValidDescriptor_spec:
  assumes "str_ok im s"
  shows "IsValidDescriptor im s = Inr (descriptor_spec (mutf8_units (cstr im s)))"
proof -
  let ?us = "mutf8_units (cstr im s)"
  let ?n = "length (takeWhile (\<lambda>u. u = 0x5b) ?us)" and ?r = "dropWhile (\<lambda>u. u = 0x5b) ?us"
  obtain t where t: "skip_brackets im 0 s = Inr (?n, t)" "str_ok im t"
    "mutf8_units (cstr im t) = ?r"
    using skip_brackets_spec [OF assms, of 0] by auto
  note len = str_ok_less [OF t(2)]
  note asc = units_ascii_head [OF t(2)]
  have desc: "descriptor_spec ?us \<longleftrightarrow> ?n \<le> 255 \<and>
      (case mutf8_units (cstr im t) of [] \<Rightarrow> False
       | u # r \<Rightarrow> if u \<in> set (map ucast primitive_chars) then r = []
           else if u = 0x56 then ?n = 0 \<and> r = []
           else if u = 0x4c then class_name_spec True r else False)"
    by (simp add: descriptor_spec_def t(3) Let_def)
  show ?thesis
  proof (cases "im ! t \<in> set primitive_chars \<or> im ! t = 0x56 \<or> im ! t = 0x4c")
    case True
    then have "im ! t < 0x80" "im ! t \<noteq> 0" by (auto simp: primitive_chars_def)
    then have tl: "str_ok im (Suc t)"
      "mutf8_units (cstr im t) = ucast (im ! t) # mutf8_units (cstr im (Suc t))"
      using asc(2) by blast+
    have prim: "(ucast (im ! t) :: 16 word) \<in> set (map ucast primitive_chars)
        \<longleftrightarrow> im ! t \<in> set primitive_chars"
      by (auto simp: ucast_8_16_eq)
    have "ucast (im ! t) = (0x56 :: 16 word) \<longleftrightarrow> im ! t = 0x56"
      "ucast (im ! t) = (0x4c :: 16 word) \<longleftrightarrow> im ! t = 0x4c"
      using ucast_8_16_eq [of "im ! t" "0x56"] ucast_8_16_eq [of "im ! t" "0x4c"] by simp_all
    then show ?thesis
      using True t(1) len str_ok_less [OF tl(1)] units_Nil_iff [OF tl(1)]
        class_name_from_spec [OF tl(1), of True]
      by (auto simp: IsValidDescriptor_def desc tl(2) rd_u1_def prim simp del: set_map)
  next
    case False
    have "\<not> descriptor_spec ?us"
    proof (cases "mutf8_units (cstr im t)")
      case (Cons u r)
      have "im ! t = c" if "u = ucast c" "c < 0x80" "c \<noteq> 0" for c
        using asc(1) [OF that(2,3)] that(1) Cons by simp
      then have "u \<notin> set (map ucast primitive_chars)" "u \<noteq> 0x56" "u \<noteq> 0x4c"
        using False by (auto simp: primitive_chars_def)
      then show ?thesis by (simp add: desc Cons)
    qed (simp add: desc)
    then show ?thesis
      using False t(1) len by (simp add: IsValidDescriptor_def rd_u1_def)
  qed
qed

section \<open>What an accepted name contains\<close>

fun utf16_wf :: "16 word list \<Rightarrow> bool" where
  "utf16_wf [] \<longleftrightarrow> True"
| "utf16_wf (u # r) \<longleftrightarrow>
     (if high_surrogate u then (case r of v # r' \<Rightarrow> low_surrogate v \<and> utf16_wf r' | [] \<Rightarrow> False)
      else \<not> low_surrogate u \<and> utf16_wf r)"

definition name_safe :: "16 word \<Rightarrow> bool" where
  "name_safe u \<longleftrightarrow> 0x20 \<le> u \<and> u \<notin> {0x22, 0x27, 0x28, 0x29, 0x2e, 0x2f, 0x3a, 0x3b, 0x3c, 0x3e, 0x5b,
     0x5c, 0x7f, 0x2028, 0x2029}"

lemma ascii_name_safe: "ascii_name_char u \<Longrightarrow> name_safe u \<and> \<not> high_surrogate u \<and> \<not> low_surrogate u"
  by (auto simp: ascii_name_char_def name_safe_def high_surrogate_def low_surrogate_def
      word_le_nat_alt)

lemma ge_a0_safe: "u \<ge> 0xa0 \<Longrightarrow> u \<notin> {0x2028, 0x2029} \<Longrightarrow> name_safe u"
  by (auto simp: name_safe_def word_le_nat_alt)

lemma bmp_name_safe: "bmp_name_char u \<Longrightarrow> name_safe u"
  by (rule ge_a0_safe) (auto simp: bmp_name_char_def Let_def)

lemma surrogate_safe: "high_surrogate u \<or> low_surrogate u \<Longrightarrow> name_safe u"
  by (rule ge_a0_safe) (auto simp: high_surrogate_def low_surrogate_def word_le_nat_alt)

lemma part_len_cases:
  assumes "part_len us = Some k"
  obtains (one) u r where "us = u # r" "k = 1" "name_safe u" "\<not> high_surrogate u" "\<not> low_surrogate u"
  | (pair) u v r where "us = u # v # r" "k = 2" "high_surrogate u" "low_surrogate v"
      "name_safe u" "name_safe v"
  using assms ascii_name_safe bmp_name_safe surrogate_safe
  by (auto simp: part_len_def bmp_name_char_def split: list.splits if_splits)

lemma name_units_safe: "name_units us \<Longrightarrow> utf16_wf us \<and> list_all name_safe us"
proof (induction us rule: name_units.induct)
  case (1 us)
  show ?case
  proof (cases "part_len us")
    case None
    then show ?thesis using "1.prems" name_units_rec(2) by simp
  next
    case (Some k)
    then have IH: "utf16_wf (drop k us) \<and> list_all name_safe (drop k us)"
      using 1 name_units_rec(3) by (cases "us = []") (auto simp: name_units_rec(1))
    from Some show ?thesis
      by (cases rule: part_len_cases) (use IH in auto)
  qed
qed

section \<open>Properties\<close>

text \<open>
  C39. On a verified string the comparator terminates inside the image and its sign is the
  lexicographic order of the decoded UTF-16 code units, which is the order the DEX format
  prescribes for \<open>string_ids\<close>.
\<close>

theorem comparator_is_utf16_order:
  assumes "str_ok im p1" and "str_ok im p2"
  shows "\<exists>r. CompareUtf16 im p1 p2 = Inr r
    \<and> (r < 0 \<longleftrightarrow> mutf8_units (cstr im p1) < mutf8_units (cstr im p2))
    \<and> (r = 0 \<longleftrightarrow> mutf8_units (cstr im p1) = mutf8_units (cstr im p2))"
  using CompareUtf16_units [OF assms] by (auto simp: cmp_sign_def)

theorem comparator_is_utf16_order_witness:
  "\<exists>r. CompareUtf16 [0x61, 0, 0xC3, 0xA9, 0] 0 2 = Inr r \<and> r < 0"
  using comparator_is_utf16_order [of "[0x61, 0, 0xC3, 0xA9, 0]" 0 2]
  by (auto simp: str_ok_def zterm_def cstr_def is_cont_def unit2_def)

text \<open>
  On a verified string \<open>IsValidMemberName\<close> never leaves the image, and it accepts exactly
  the non-empty names of ART's grammar: name characters throughout, or \<open>\<langle>\<dots>\<rangle>\<close> around them.
  An accepted plain name is well-formed UTF-16 and has no control, quote or delimiter character.
\<close>

theorem member_name_verdict:
  assumes "str_ok im s"
  shows "IsValidMemberName im s = Inr (member_name_spec (mutf8_units (cstr im s)))
    \<and> (IsValidMemberName im s = Inr True \<and> im ! s \<noteq> 0x3c \<longrightarrow>
         utf16_wf (mutf8_units (cstr im s)) \<and> list_all name_safe (mutf8_units (cstr im s)))"
  using IsValidMemberName_spec [OF assms] units_ascii_head(1) [OF assms, of "0x3c"]
    name_units_safe [of "mutf8_units (cstr im s)"]
  by (cases "mutf8_units (cstr im s)") (auto simp: member_name_spec_def split: if_splits)

theorem member_name_verdict_witness:
  "IsValidMemberName [0x3c, 0x61, 0x3e, 0] 0 = Inr (member_name_spec [0x3c, 0x61, 0x3e])"
  using member_name_verdict [of "[0x3c, 0x61, 0x3e, 0]" 0]
  by (simp add: str_ok_def zterm_def cstr_def)

text \<open>
  C38. On a verified string \<open>IsValidDescriptor\<close> never leaves the image and accepts exactly the
  type descriptors: at most 255 \<open>[\<close>, then a primitive letter, \<open>V\<close> without \<open>[\<close>, or
  \<open>L\<close>, name parts separated by single slashes, and \<open>;\<close>, with nothing after it.
\<close>

theorem descriptor_verdict:
  assumes "str_ok im s"
  shows "IsValidDescriptor im s = Inr (descriptor_spec (mutf8_units (cstr im s)))"
  using assms by (rule IsValidDescriptor_spec)

theorem descriptor_verdict_witness:
  "IsValidDescriptor [0x5b, 0x49, 0] 0 = Inr (descriptor_spec [0x5b, 0x49])"
  using descriptor_verdict [of "[0x5b, 0x49, 0]" 0]
  by (simp add: str_ok_def zterm_def cstr_def)

end
