(* ===== verification/Verifier_Inter.thy ===== *)
theory Verifier_Inter
  imports Verifier_Intra Verifier_Map Descriptors_Refine
begin

text \<open>
  \<open>DexVerifier::CheckInterSection\<close>, \<open>AcceptUnsortedValueStrings\<close> and \<open>VerifyClassDefs\<close>: the
  order and uniqueness of the id tables, the syntax of descriptors and member names, and the
  semantics of class definitions. Everything read here was bounded by \<open>CheckIntraSection\<close>; the
  lemmas show that this precondition is enough, and \<open>inter_ok\<close> says what acceptance means.
\<close>

section \<open>Bounded vectors\<close>

text \<open>\<open>std::vector\<close> element access: an index past the end is the same fault as a bad read.\<close>

definition vec_set :: "'a list \<Rightarrow> nat \<Rightarrow> 'a \<Rightarrow> ('a list) result" where
  "vec_set xs i x = (if i < length xs then Inr (xs[i := x]) else Inl (Oob i))"

definition vec_get :: "'a list \<Rightarrow> nat \<Rightarrow> 'a result" where
  "vec_get xs i = (if i < length xs then Inr (xs ! i) else Inl (Oob i))"

lemma wp_vec [wp_rules]:
  "wp (vec_set xs i x) Q = (i < length xs \<and> Q (xs[i := x]))"
  "wp (vec_get xs i) R = (i < length xs \<and> R (xs ! i))"
  by (simp_all add: vec_set_def vec_get_def wp_def)

section \<open>The string order\<close>

datatype deviation = UnsortedValueStrings nat | ChecksumMismatch nat nat

definition compare_strings :: "vctx \<Rightarrow> nat \<Rightarrow> nat \<Rightarrow> int result" where
  "compare_strings c i j =
     bind (StringContent c i) (\<lambda>p. bind (StringContent c j) (\<lambda>q. CompareUtf16 (v_img c) p q))"

definition string_pair :: "vctx \<Rightarrow> nat \<Rightarrow> nat \<Rightarrow> nat result" where
  "string_pair c i out_of_order =
     bind (compare_strings c (i - 1) i) (\<lambda>r.
       if r \<ge> 0 then (if v_insns c then fail ''Out-of-order string_ids'' else Inr (u32 (out_of_order + 1)))
       else Inr out_of_order)"

text \<open>Marking the strings used as identifiers.\<close>

definition mark_identifiers :: "vctx \<Rightarrow> (bool list) result" where
  "mark_identifiers c =
     (let h = v_hdr c in
      bind (for_range 0 (type_ids_size h) (\<lambda>i ident.
        bind (rd_u4 (v_img c) (type_id_pos c i)) (\<lambda>d. vec_set ident d True))
        (replicate (string_ids_size h) False)) (\<lambda>ident.
      bind (for_range 0 (proto_ids_size h) (\<lambda>i ident.
        bind (rd_proto_id (v_img c) (proto_id_pos c i)) (\<lambda>pr. vec_set ident (shorty_idx pr) True)) ident) (\<lambda>ident.
      bind (for_range 0 (field_ids_size h) (\<lambda>i ident.
        bind (rd_field_id (v_img c) (field_id_pos c i)) (\<lambda>f. vec_set ident (m_name_idx f) True)) ident) (\<lambda>ident.
        for_range 0 (method_ids_size h) (\<lambda>i ident.
          bind (rd_method_id (v_img c) (method_id_pos c i)) (\<lambda>m. vec_set ident (m_name_idx m) True)) ident))))"

text \<open>The scan over all strings; \<open>prev\<close> is \<open>n\<close> while no identifier has been seen.\<close>

function identifiers_ordered :: "vctx \<Rightarrow> bool list \<Rightarrow> nat \<Rightarrow> nat \<Rightarrow> bool result" where
  "identifiers_ordered c ident i prev =
     (let n = string_ids_size (v_hdr c) in
      if i < n then
        bind (if i \<noteq> 0
              then bind (StringContent c i) (\<lambda>p. bind (rd_u1 (v_img c) p) (\<lambda>b. Inr (b = 0)))
              else Inr False) (\<lambda>is_empty.
          if is_empty then Inr False
          else bind (vec_get ident i) (\<lambda>is_ident.
            if \<not> is_ident then identifiers_ordered c ident (Suc i) prev
            else bind (if prev \<noteq> n then compare_strings c prev i else Inr (- 1)) (\<lambda>r.
              if r \<ge> 0 then Inr False else identifiers_ordered c ident (Suc i) i)))
      else Inr True)"
  by pat_completeness auto
termination
  by (relation "measure (\<lambda>(c, ident, i, prev). string_ids_size (v_hdr c) - i)") auto

declare identifiers_ordered.simps [simp del]

definition AcceptUnsortedValueStrings :: "vctx \<Rightarrow> nat \<Rightarrow> (deviation option) result" where
  "AcceptUnsortedValueStrings c out_of_order =
     bind (mark_identifiers c) (\<lambda>ident.
     bind (identifiers_ordered c ident 0 (string_ids_size (v_hdr c))) (\<lambda>ordered.
       Inr (if ordered then Some (UnsortedValueStrings out_of_order) else None)))"

definition check_string_order :: "vctx \<Rightarrow> (deviation list) result" where
  "check_string_order c =
     bind (for_range 1 (string_ids_size (v_hdr c)) (string_pair c) 0) (\<lambda>out_of_order.
       if out_of_order \<noteq> 0 then
         bind (AcceptUnsortedValueStrings c out_of_order) (\<lambda>dev.
           case dev of None \<Rightarrow> fail ''Out-of-order string_ids'' | Some d \<Rightarrow> Inr [d])
       else Inr [])"

section \<open>The other id tables\<close>

definition TypeDesc :: "vctx \<Rightarrow> nat \<Rightarrow> nat result" where
  "TypeDesc c type_idx = bind (rd_u4 (v_img c) (type_id_pos c type_idx)) (StringContent c)"

definition VerifyTypeDescriptor ::
    "vctx \<Rightarrow> nat \<Rightarrow> string \<Rightarrow> (8 word \<Rightarrow> bool) \<Rightarrow> unit result" where
  "VerifyTypeDescriptor c type_idx err pred =
     bind (TypeDesc c type_idx) (\<lambda>d.
     bind (IsValidDescriptor (v_img c) d) (\<lambda>valid.
       if \<not> valid then fail err
       else bind (rd_u1 (v_img c) d) (\<lambda>d0. if \<not> pred d0 then fail err else Inr ())))"

definition inter_type :: "vctx \<Rightarrow> nat \<Rightarrow> unit result" where
  "inter_type c i =
     bind (VerifyTypeDescriptor c i ''type_id: invalid type descriptor'' (\<lambda>_. True)) (\<lambda>_.
       if i = 0 then Inr ()
       else bind (rd_u4 (v_img c) (type_id_pos c (i - 1))) (\<lambda>p.
         bind (rd_u4 (v_img c) (type_id_pos c i)) (\<lambda>q.
           if p \<ge> q then fail ''Out-of-order type_ids'' else Inr ())))"

text \<open>\<open>ProtoParams\<close>: the parameter list's size (0 when absent), and its elements.\<close>

definition proto_params_size :: "vctx \<Rightarrow> nat \<Rightarrow> nat result" where
  "proto_params_size c off = (if off = 0 then Inr 0 else rd_u4 (v_img c) (offset_to_ptr c off))"

definition proto_param :: "vctx \<Rightarrow> nat \<Rightarrow> nat \<Rightarrow> nat result" where
  "proto_param c off k = rd_u2 (v_img c) (offset_to_ptr c off + 4 + k * sizeof_TypeItem)"

function proto_args_from :: "vctx \<Rightarrow> nat \<Rightarrow> nat \<Rightarrow> nat \<Rightarrow> nat \<Rightarrow> nat \<Rightarrow> unit result" where
  "proto_args_from c poff coff pn cn k =
     (if k < pn \<and> k < cn then
        bind (proto_param c poff k) (\<lambda>pidx. bind (proto_param c coff k) (\<lambda>cidx.
          if pidx < cidx then Inr ()
          else if pidx > cidx then fail ''Out-of-order proto_id arguments''
          else proto_args_from c poff coff pn cn (Suc k)))
      else if k \<ge> cn then fail ''Out-of-order proto_id arguments'' else Inr ())"
  by pat_completeness auto
termination
  by (relation "measure (\<lambda>(c, poff, coff, pn, cn, k). pn - k)") auto

declare proto_args_from.simps [simp del]

definition inter_proto :: "vctx \<Rightarrow> nat \<Rightarrow> unit result" where
  "inter_proto c i =
     bind (rd_proto_id (v_img c) (proto_id_pos c (i - 1))) (\<lambda>prev.
     bind (rd_proto_id (v_img c) (proto_id_pos c i)) (\<lambda>cur.
       if return_type_idx prev > return_type_idx cur then fail ''Out-of-order proto_ids''
       else if return_type_idx prev < return_type_idx cur then Inr ()
       else bind (proto_params_size c (parameters_off prev)) (\<lambda>pn.
         bind (proto_params_size c (parameters_off cur)) (\<lambda>cn.
           proto_args_from c (parameters_off prev) (parameters_off cur) pn cn 0))))"

text \<open>The member tables: the same three comparisons for fields and methods.\<close>

definition member_order :: "member_id \<Rightarrow> member_id \<Rightarrow> string \<Rightarrow> unit result" where
  "member_order p m msg =
     (if m_class_idx p > m_class_idx m then fail msg
      else if m_class_idx p < m_class_idx m then Inr ()
      else if m_name_idx p > m_name_idx m then fail msg
      else if m_name_idx p < m_name_idx m then Inr ()
      else if m_mid_idx p \<ge> m_mid_idx m then fail msg
      else Inr ())"

definition member_name_valid :: "vctx \<Rightarrow> nat \<Rightarrow> string \<Rightarrow> unit result" where
  "member_name_valid c name_idx err =
     bind (StringContent c name_idx) (\<lambda>s. bind (IsValidMemberName (v_img c) s) (\<lambda>valid.
       if valid then Inr () else fail err))"

definition inter_field :: "vctx \<Rightarrow> nat \<Rightarrow> unit result" where
  "inter_field c i =
     bind (rd_field_id (v_img c) (field_id_pos c i)) (\<lambda>f.
     bind (VerifyTypeDescriptor c (m_class_idx f) ''field_id: invalid class descriptor'' (\<lambda>d. d = 0x4c)) (\<lambda>_.
     bind (VerifyTypeDescriptor c (m_mid_idx f) ''field_id: invalid type descriptor'' (\<lambda>d. d \<noteq> 0x56)) (\<lambda>_.
     bind (member_name_valid c (m_name_idx f) ''field_id: invalid name'') (\<lambda>_.
       if i = 0 then Inr ()
       else bind (rd_field_id (v_img c) (field_id_pos c (i - 1))) (\<lambda>p.
         member_order p f ''Out-of-order field_ids'')))))"

definition inter_method :: "vctx \<Rightarrow> nat \<Rightarrow> unit result" where
  "inter_method c i =
     bind (rd_method_id (v_img c) (method_id_pos c i)) (\<lambda>m.
     bind (VerifyTypeDescriptor c (m_class_idx m) ''method_id: invalid class descriptor''
             (\<lambda>d. d = 0x4c \<or> d = 0x5b)) (\<lambda>_.
     bind (member_name_valid c (m_name_idx m) ''method_id: invalid name'') (\<lambda>_.
       if i = 0 then Inr ()
       else bind (rd_method_id (v_img c) (method_id_pos c (i - 1))) (\<lambda>p.
         member_order p m ''Out-of-order method_ids''))))"

section \<open>Class definitions\<close>

definition kNotDefined :: nat where "kNotDefined = 0xffffffff"

definition check_superclass :: "vctx \<Rightarrow> nat list \<Rightarrow> nat \<Rightarrow> class_def \<Rightarrow> unit result" where
  "check_superclass c defined_at k cd =
     (if cd_superclass_idx cd \<noteq> kNoIndex then
        if cd_superclass_idx cd = cd_class_idx cd then fail ''Class is its own superclass''
        else bind (VerifyTypeDescriptor c (cd_superclass_idx cd) ''class_def: invalid superclass''
            (\<lambda>d. d = 0x4c)) (\<lambda>_.
          bind (vec_get defined_at (cd_superclass_idx cd)) (\<lambda>at.
            if at \<noteq> kNotDefined \<and> at > k then fail ''Class defined before its superclass''
            else Inr ()))
      else Inr ())"

definition check_interface :: "vctx \<Rightarrow> nat \<Rightarrow> nat \<Rightarrow> nat \<Rightarrow> unit result" where
  "check_interface c off cls i =
     bind (proto_param c off i) (\<lambda>it.
       if it = cls then fail ''Class implements itself''
       else bind (VerifyTypeDescriptor c it ''class_def: invalid interface'' (\<lambda>d. d = 0x4c)) (\<lambda>_.
         for_each 0 i (\<lambda>j. bind (proto_param c off j) (\<lambda>jt.
           if jt = it then fail ''Duplicate interface'' else Inr ()))))"

definition check_interfaces :: "vctx \<Rightarrow> class_def \<Rightarrow> unit result" where
  "check_interfaces c cd =
     (if cd_interfaces_off cd \<noteq> 0
      then bind (rd_u4 (v_img c) (offset_to_ptr c (cd_interfaces_off cd))) (\<lambda>n.
        for_each 0 n (check_interface c (cd_interfaces_off cd) (cd_class_idx cd)))
      else Inr ())"

definition inter_class_def :: "vctx \<Rightarrow> nat \<Rightarrow> nat list \<Rightarrow> (nat list) result" where
  "inter_class_def c k defined_at =
     bind (rd_class_def (v_img c) (class_def_pos c k)) (\<lambda>cd.
       let cls = cd_class_idx cd in
       bind (VerifyTypeDescriptor c cls ''class_def: invalid class descriptor'' (\<lambda>d. d = 0x4c)) (\<lambda>_.
       bind (vec_get defined_at cls) (\<lambda>at.
         if at \<noteq> kNotDefined then fail ''Duplicate class definition''
         else bind (check_superclass c defined_at k cd) (\<lambda>_.
           bind (check_interfaces c cd) (\<lambda>_.
           bind (if cd_class_data_off cd \<noteq> 0
                 then CheckClassDataDefiners c (cd_class_data_off cd) cls else Inr ()) (\<lambda>_.
             vec_set defined_at cls k))))))"

definition VerifyClassDefs :: "vctx \<Rightarrow> unit result" where
  "VerifyClassDefs c =
     bind (for_range 0 (class_defs_size (v_hdr c)) (inter_class_def c)
       (replicate (type_ids_size (v_hdr c)) kNotDefined)) (\<lambda>_. Inr ())"

definition CheckInterSection :: "vctx \<Rightarrow> (deviation list) result" where
  "CheckInterSection c =
     (let h = v_hdr c in
      bind (check_string_order c) (\<lambda>devs.
      bind (for_each 0 (type_ids_size h) (inter_type c)) (\<lambda>_.
      bind (for_each 1 (proto_ids_size h) (inter_proto c)) (\<lambda>_.
      bind (for_each 0 (field_ids_size h) (inter_field c)) (\<lambda>_.
      bind (for_each 0 (method_ids_size h) (inter_method c)) (\<lambda>_.
      bind (VerifyClassDefs c) (\<lambda>_. Inr devs)))))))"

section \<open>Strings\<close>

definition inter_pre :: "vctx \<Rightarrow> bool" where
  "inter_pre c \<longleftrightarrow> vctx_ok c \<and> tables_ok c \<and> intra_ok c"

lemma inter_preD:
  assumes "inter_pre c"
  shows "vctx_ok c" "tables_ok c" "strings_ok c"
    "i < string_ids_size (v_hdr c) \<Longrightarrow> string_ok c i"
    "i < type_ids_size (v_hdr c) \<Longrightarrow> type_desc_idx c i < string_ids_size (v_hdr c)"
    "i < proto_ids_size (v_hdr c) \<Longrightarrow> proto_ok c i"
    "i < field_ids_size (v_hdr c) \<Longrightarrow> field_ok c i"
    "i < method_ids_size (v_hdr c) \<Longrightarrow> method_ok c i"
    "i < class_defs_size (v_hdr c) \<Longrightarrow> class_def_ok c i"
  using assms by (simp_all add: inter_pre_def intra_ok_def Let_def strings_ok_def type_ok_def)

lemma StringContent_pre:
  assumes "inter_pre c" and "i < string_ids_size (v_hdr c)"
  shows "StringContent c i = Inr (str_at c i)" and "str_ok (v_img c) (str_at c i)"
  using StringContent_ok [OF inter_preD(1,2) [OF assms(1)] inter_preD(4) [OF assms] assms(2)] assms
  by simp_all

lemma compare_strings_pre:
  assumes "inter_pre c" and "i < string_ids_size (v_hdr c)" and "j < string_ids_size (v_hdr c)"
  obtains r where "compare_strings c i j = Inr r" "r \<ge> 0 \<longleftrightarrow> \<not> string_units c i < string_units c j"
proof -
  note i = StringContent_pre [OF assms(1,2)] and j = StringContent_pre [OF assms(1,3)]
  obtain r where "CompareUtf16 (v_img c) (str_at c i) (str_at c j) = Inr r"
    "cmp_sign r (string_units c i) (string_units c j)"
    using CompareUtf16_units [OF i(2) j(2)] by (auto simp: string_units_def string_bytes_def)
  then show ?thesis
    using that i(1) j(1) by (auto simp: compare_strings_def cmp_sign_ge not_less)
qed

definition strings_sorted :: "vctx \<Rightarrow> bool" where
  "strings_sorted c \<longleftrightarrow>
     (\<forall>i. Suc i < string_ids_size (v_hdr c) \<longrightarrow> string_units c i < string_units c (Suc i))"

text \<open>The adjacent pairs before \<open>n\<close> that are not strictly increasing.\<close>

definition disorder :: "vctx \<Rightarrow> nat \<Rightarrow> nat" where
  "disorder c n = length (filter (\<lambda>i. \<not> string_units c (i - 1) < string_units c i) [1..<n])"

lemma disorder_Suc:
  "1 \<le> n \<Longrightarrow> disorder c (Suc n) = disorder c n + (if string_units c (n - 1) < string_units c n then 0 else 1)"
  by (simp add: disorder_def)

lemma disorder_le: "disorder c n \<le> n"
  unfolding disorder_def using length_filter_le [of _ "[1..<n]"] by (rule order_trans) simp

lemma disorder_0_iff: "disorder c (string_ids_size (v_hdr c)) = 0 \<longleftrightarrow> strings_sorted c"
proof -
  have "disorder c (string_ids_size (v_hdr c)) = 0 \<longleftrightarrow>
    (\<forall>i \<in> set [1..<string_ids_size (v_hdr c)]. string_units c (i - 1) < string_units c i)"
    by (simp add: disorder_def filter_empty_conv)
  also have "\<dots> \<longleftrightarrow> strings_sorted c"
  proof
    assume a: "\<forall>i \<in> set [1..<string_ids_size (v_hdr c)]. string_units c (i - 1) < string_units c i"
    then have "string_units c (Suc i - 1) < string_units c (Suc i)"
      if "Suc i < string_ids_size (v_hdr c)" for i
      using that by (intro bspec [OF a]) auto
    then show "strings_sorted c" by (simp add: strings_sorted_def)
  next
    assume s: "strings_sorted c"
    show "\<forall>i \<in> set [1..<string_ids_size (v_hdr c)]. string_units c (i - 1) < string_units c i"
    proof
      fix i assume "i \<in> set [1..<string_ids_size (v_hdr c)]"
      then have "1 \<le> i" "i < string_ids_size (v_hdr c)" by simp_all
      then obtain j where "i = Suc j" "Suc j < string_ids_size (v_hdr c)" by (cases i) auto
      with s show "string_units c (i - 1) < string_units c i" by (simp add: strings_sorted_def)
    qed
  qed
  finally show ?thesis .
qed

lemma string_table_small:
  "vctx_ok c \<Longrightarrow> tables_ok c \<Longrightarrow> string_ids_size (v_hdr c) < 4294967296"
  by (auto simp: vctx_ok_def tables_ok_def Let_def table_ok_def)

text \<open>The pair loop counts the disorder, or in the strict pass refuses any.\<close>

lemma string_pairs:
  assumes pre: "inter_pre c"
  defines "n \<equiv> string_ids_size (v_hdr c)"
  shows "if v_insns c \<and> \<not> strings_sorted c
    then for_range 1 n (string_pair c) 0 = fail ''Out-of-order string_ids''
    else for_range 1 n (string_pair c) 0 = Inr (disorder c n)"
proof -
  have small: "n < 4294967296" unfolding n_def by (rule string_table_small) (use inter_preD [OF pre] in auto)
  have loop: "for_range i n (string_pair c) (disorder c i) =
    (if v_insns c \<and> disorder c i \<noteq> disorder c n then fail ''Out-of-order string_ids''
     else Inr (disorder c n))" if "1 \<le> i" "i \<le> n" for i
    using that
  proof (induction "n - i" arbitrary: i)
    case 0
    then show ?case by simp
  next
    case (Suc k)
    then have i: "i < n" "i - 1 < n" by auto
    obtain r where r: "compare_strings c (i - 1) i = Inr r"
      "r \<ge> 0 \<longleftrightarrow> \<not> string_units c (i - 1) < string_units c i"
      using compare_strings_pre [OF pre, of "i - 1" i] i by (auto simp: n_def)
    have d: "disorder c (Suc i) = disorder c i + (if r \<ge> 0 then 1 else 0)"
      using disorder_Suc [of i c] Suc.prems r(2) by simp
    have u: "u32 (disorder c i + 1) = disorder c i + 1"
      using disorder_le [of c i] i small by simp
    have mono: "disorder c (Suc i) \<le> disorder c n"
    proof -
      have "[1..<n] = [1..<Suc i] @ [Suc i..<n]"
        using upt_add_eq_append [of 1 "Suc i" "n - Suc i"] i Suc.prems by simp
      then show ?thesis by (simp add: disorder_def)
    qed
    have IH: "for_range (Suc i) n (string_pair c) (disorder c (Suc i)) =
      (if v_insns c \<and> disorder c (Suc i) \<noteq> disorder c n then fail ''Out-of-order string_ids''
       else Inr (disorder c n))"
      using Suc by simp
    show ?case
    proof (cases "r \<ge> 0")
      case True
      then show ?thesis
        using i r d u IH mono by (simp add: for_range_step string_pair_def)
    next
      case False
      then show ?thesis
        using i r d IH by (simp add: for_range_step string_pair_def)
    qed
  qed
  show ?thesis
  proof (cases "1 \<le> n")
    case True
    have "disorder c 1 = 0" by (simp add: disorder_def)
    then show ?thesis
      using loop [of 1] True disorder_0_iff [of c] by (auto simp: n_def)
  next
    case False
    then have "n = 0" by simp
    then show ?thesis by (simp add: disorder_def strings_sorted_def n_def)
  qed
qed

section \<open>Checks that decide\<close>

text \<open>
  \<open>decides r P\<close>: the check \<open>r\<close> passes exactly when \<open>P\<close> holds, and otherwise rejects its
  input (it neither throws nor reads outside the image).
\<close>

definition decides :: "unit result \<Rightarrow> bool \<Rightarrow> bool" where
  "decides r P \<longleftrightarrow> (if P then r = Inr () else (\<exists>m. r = fail m))"

lemma decides_simps [simp]: "decides (Inr ()) P \<longleftrightarrow> P" "decides (fail m) P \<longleftrightarrow> \<not> P"
  by (auto simp: decides_def)

lemma decides_wp: "decides r P \<Longrightarrow> wp r (\<lambda>_. P)"
  by (auto simp: decides_def wp_rules split: if_splits)

lemma decides_iff: "decides r P \<Longrightarrow> (P \<longleftrightarrow> P') \<Longrightarrow> decides r P'"
  by simp

lemma decides_bind:
  "decides r P \<Longrightarrow> (P \<Longrightarrow> decides r' Q) \<Longrightarrow> decides (bind r (\<lambda>_. r')) (P \<and> Q)"
  by (auto simp: decides_def split: if_splits)

lemma decides_if:
  "(b \<Longrightarrow> decides r P) \<Longrightarrow> (\<not> b \<Longrightarrow> decides r' P) \<Longrightarrow> decides (if b then r else r') P"
  by simp

lemma decides_for_each:
  assumes "\<And>j. i \<le> j \<Longrightarrow> j < n \<Longrightarrow> decides (body j) (P j)"
  shows "decides (for_each i n body) (\<forall>j. i \<le> j \<and> j < n \<longrightarrow> P j)"
  using assms
proof (induction "n - i" arbitrary: i)
  case 0
  then show ?case by (auto simp: for_each_def)
next
  case (Suc k)
  then have i: "i < n" by simp
  have "decides (bind (body i) (\<lambda>_. for_each (Suc i) n body)) (P i \<and> (\<forall>j. Suc i \<le> j \<and> j < n \<longrightarrow> P j))"
    using Suc i by (intro decides_bind) auto
  moreover have "P i \<and> (\<forall>j. Suc i \<le> j \<and> j < n \<longrightarrow> P j) \<longleftrightarrow> (\<forall>j. i \<le> j \<and> j < n \<longrightarrow> P j)"
    using i by (metis Suc_leD Suc_leI le_antisym le_refl not_less_eq_eq)
  ultimately show ?case
    using i by (simp add: for_each_def for_range_step)
qed

section \<open>Types and protos\<close>

definition type_units :: "vctx \<Rightarrow> nat \<Rightarrow> 16 word list" where
  "type_units c t = string_units c (type_desc_idx c t)"

definition type_lead :: "vctx \<Rightarrow> nat \<Rightarrow> 8 word" where
  "type_lead c t = v_img c ! str_at c (type_desc_idx c t)"

lemma VerifyTypeDescriptor_decides:
  assumes pre: "inter_pre c" and t: "t < type_ids_size (v_hdr c)"
  shows "decides (VerifyTypeDescriptor c t err pred) (descriptor_spec (type_units c t) \<and> pred (type_lead c t))"
proof -
  note s = StringContent_pre [OF pre inter_preD(5) [OF pre t]]
  have "TypeDesc c t = Inr (str_at c (type_desc_idx c t))"
    using rd_rows(2) [OF inter_preD(1,2) [OF pre] t] s(1) by (simp add: TypeDesc_def)
  moreover have "rd_u1 (v_img c) (str_at c (type_desc_idx c t)) = Inr (type_lead c t)"
    using s(2) by (simp add: rd_u1_def type_lead_def str_ok_def zterm_less)
  ultimately show ?thesis
    using IsValidDescriptor_spec [OF s(2)]
    by (simp add: VerifyTypeDescriptor_def type_units_def string_units_def string_bytes_def)
qed

definition type_inter_ok :: "vctx \<Rightarrow> nat \<Rightarrow> bool" where
  "type_inter_ok c i \<longleftrightarrow> descriptor_spec (type_units c i) \<and>
     (i \<noteq> 0 \<longrightarrow> type_desc_idx c (i - 1) < type_desc_idx c i)"

lemma inter_type_decides:
  assumes pre: "inter_pre c" and i: "i < type_ids_size (v_hdr c)"
  shows "decides (inter_type c i) (type_inter_ok c i)"
proof -
  note rd = rd_rows(2) [OF inter_preD(1,2) [OF pre]]
  show ?thesis
    unfolding inter_type_def type_inter_ok_def
    by (intro decides_bind decides_iff [OF VerifyTypeDescriptor_decides [OF pre i]])
      (use i rd [OF i] rd [of "i - 1"] in auto)
qed

definition proto_params :: "vctx \<Rightarrow> nat \<Rightarrow> nat list" where
  "proto_params c i = (let off = parameters_off (proto_at c i) in
     if off = 0 then [] else map (type_list_idx c off) [0..<type_list_len c off])"

text \<open>Strict lexicographic order of two lists of indices.\<close>

fun lex_less :: "nat list \<Rightarrow> nat list \<Rightarrow> bool" where
  "lex_less _ [] = False"
| "lex_less [] (y # ys) = True"
| "lex_less (x # xs) (y # ys) = (x < y \<or> (x = y \<and> lex_less xs ys))"

lemma lex_less_iff: "lex_less xs ys \<longleftrightarrow> (xs, ys) \<in> lexord {(x, y). x < y}"
  by (induction xs ys rule: lex_less.induct) auto

definition proto_inter_ok :: "vctx \<Rightarrow> nat \<Rightarrow> bool" where
  "proto_inter_ok c i \<longleftrightarrow>
     (let r = return_type_idx (proto_at c (i - 1)); r' = return_type_idx (proto_at c i) in
      r < r' \<or> (r = r' \<and> lex_less (proto_params c (i - 1)) (proto_params c i)))"

lemma type_list_rd:
  assumes ok: "vctx_ok c" and tl: "type_list_ok c off" and off: "off \<noteq> 0"
  shows "rd_u4 (v_img c) (offset_to_ptr c off) = Inr (type_list_len c off)"
    and "k < type_list_len c off \<Longrightarrow> proto_param c off k = Inr (type_list_idx c off k)"
  using tl off vctx_okD [OF ok]
  by (auto simp: type_list_ok_def rd_u4_def offset_to_ptr_def type_list_len_def
      proto_param_def rd_u2_def type_list_idx_def layout)

lemma proto_args_decides:
  assumes ok: "vctx_ok c"
    and p: "type_list_ok c poff" "poff \<noteq> 0 \<or> pn = 0" "pn \<le> type_list_len c poff"
    and q: "type_list_ok c coff" "coff \<noteq> 0 \<or> cn = 0" "cn \<le> type_list_len c coff"
  shows "decides (proto_args_from c poff coff pn cn k)
    (lex_less (map (type_list_idx c poff) [k..<pn]) (map (type_list_idx c coff) [k..<cn]))"
proof (induction "pn - k" arbitrary: k)
  case 0
  then show ?case
    by (cases "k < cn") (auto simp: proto_args_from.simps [of _ _ _ _ _ k] upt_conv_Cons)
next
  case (Suc n)
  show ?case
  proof (cases "k < cn")
    case True
    have "k < pn" using Suc.hyps by simp
    then show ?thesis
      using True Suc.hyps(1) [of "Suc k"] Suc.hyps(2) p q type_list_rd(2) [OF ok]
      by (auto simp: proto_args_from.simps [of _ _ _ _ _ k] upt_conv_Cons)
  next
    case False
    then show ?thesis by (simp add: proto_args_from.simps [of _ _ _ _ _ k])
  qed
qed

lemma inter_proto_decides:
  assumes pre: "inter_pre c" and i: "1 \<le> i" "i < proto_ids_size (v_hdr c)"
  shows "decides (inter_proto c i) (proto_inter_ok c i)"
proof -
  note ok = inter_preD(1) [OF pre]
  note rd = rd_rows(3) [OF ok inter_preD(2) [OF pre]]
  have tl: "type_list_ok c (parameters_off (proto_at c j))" if "j < proto_ids_size (v_hdr c)" for j
    using inter_preD(6) [OF pre that] by (simp add: proto_ok_def Let_def)
  have sz: "proto_params_size c (parameters_off (proto_at c j)) = Inr (length (proto_params c j))"
    if "j < proto_ids_size (v_hdr c)" for j
    using type_list_rd(1) [OF ok tl [OF that]] by (simp add: proto_params_size_def proto_params_def Let_def)
  have "decides (proto_args_from c (parameters_off (proto_at c (i - 1))) (parameters_off (proto_at c i))
      (length (proto_params c (i - 1))) (length (proto_params c i)) 0)
    (lex_less (proto_params c (i - 1)) (proto_params c i))"
    by (rule decides_iff [OF proto_args_decides [OF ok tl _ _ tl]])
      (use i in \<open>auto simp: proto_params_def Let_def\<close>)
  then show ?thesis
    using i rd [of "i - 1"] rd [of i] sz [of "i - 1"] sz [of i]
    by (auto simp: inter_proto_def proto_inter_ok_def Let_def)
qed

section \<open>Fields and methods\<close>

definition member_less :: "member_id \<Rightarrow> member_id \<Rightarrow> bool" where
  "member_less p m \<longleftrightarrow> m_class_idx p < m_class_idx m \<or>
     (m_class_idx p = m_class_idx m \<and> (m_name_idx p < m_name_idx m \<or>
       (m_name_idx p = m_name_idx m \<and> m_mid_idx p < m_mid_idx m)))"

lemma member_order_decides: "decides (member_order p m msg) (member_less p m)"
  by (auto simp: member_order_def member_less_def)

lemma member_name_decides:
  assumes "inter_pre c" and "n < string_ids_size (v_hdr c)"
  shows "decides (member_name_valid c n err) (member_name_spec (string_units c n))"
  using StringContent_pre [OF assms] IsValidMemberName_spec [OF StringContent_pre(2) [OF assms]]
  by (simp add: member_name_valid_def string_units_def string_bytes_def)

definition field_inter_ok :: "vctx \<Rightarrow> nat \<Rightarrow> bool" where
  "field_inter_ok c i \<longleftrightarrow> (let f = field_id_at c i in
     (descriptor_spec (type_units c (m_class_idx f)) \<and> type_lead c (m_class_idx f) = 0x4c) \<and>
     (descriptor_spec (type_units c (m_mid_idx f)) \<and> type_lead c (m_mid_idx f) \<noteq> 0x56) \<and>
     member_name_spec (string_units c (m_name_idx f)) \<and>
     (i \<noteq> 0 \<longrightarrow> member_less (field_id_at c (i - 1)) f))"

definition method_inter_ok :: "vctx \<Rightarrow> nat \<Rightarrow> bool" where
  "method_inter_ok c i \<longleftrightarrow> (let m = method_id_at c i in
     (descriptor_spec (type_units c (m_class_idx m)) \<and>
       (type_lead c (m_class_idx m) = 0x4c \<or> type_lead c (m_class_idx m) = 0x5b)) \<and>
     member_name_spec (string_units c (m_name_idx m)) \<and>
     (i \<noteq> 0 \<longrightarrow> member_less (method_id_at c (i - 1)) m))"

lemma inter_field_decides:
  assumes pre: "inter_pre c" and i: "i < field_ids_size (v_hdr c)"
  shows "decides (inter_field c i) (field_inter_ok c i)"
proof -
  note rd = rd_member_ids(1) [OF inter_preD(1,2) [OF pre]]
  have f: "m_class_idx (field_id_at c i) < type_ids_size (v_hdr c)"
    "m_mid_idx (field_id_at c i) < type_ids_size (v_hdr c)"
    "m_name_idx (field_id_at c i) < string_ids_size (v_hdr c)"
    using inter_preD(7) [OF pre i] by (simp_all add: field_ok_def Let_def)
  show ?thesis
    unfolding inter_field_def field_inter_ok_def Let_def rd [OF i] bind_Inr
    by (intro decides_bind VerifyTypeDescriptor_decides [OF pre] member_name_decides [OF pre] f)
      (use i rd [of "i - 1"] member_order_decides in auto)
qed

lemma inter_method_decides:
  assumes pre: "inter_pre c" and i: "i < method_ids_size (v_hdr c)"
  shows "decides (inter_method c i) (method_inter_ok c i)"
proof -
  note rd = rd_member_ids(2) [OF inter_preD(1,2) [OF pre]]
  have m: "m_class_idx (method_id_at c i) < type_ids_size (v_hdr c)"
    "m_name_idx (method_id_at c i) < string_ids_size (v_hdr c)"
    using inter_preD(8) [OF pre i] by (simp_all add: method_ok_def Let_def)
  show ?thesis
    unfolding inter_method_def method_inter_ok_def Let_def rd [OF i] bind_Inr
    by (intro decides_bind VerifyTypeDescriptor_decides [OF pre] member_name_decides [OF pre] m)
      (use i rd [of "i - 1"] member_order_decides in auto)
qed

section \<open>Identifier strings\<close>

definition is_identifier :: "vctx \<Rightarrow> nat \<Rightarrow> bool" where
  "is_identifier c s \<longleftrightarrow> (\<exists>i < type_ids_size (v_hdr c). type_desc_idx c i = s) \<or>
     (\<exists>i < proto_ids_size (v_hdr c). shorty_idx (proto_at c i) = s) \<or>
     (\<exists>i < field_ids_size (v_hdr c). m_name_idx (field_id_at c i) = s) \<or>
     (\<exists>i < method_ids_size (v_hdr c). m_name_idx (method_id_at c i) = s)"

definition marked :: "(nat \<Rightarrow> bool) \<Rightarrow> nat \<Rightarrow> bool list" where
  "marked P n = map P [0..<n]"

text \<open>A loop that marks the element \<open>f i\<close> in its turn \<open>i\<close>.\<close>

lemma mark_loop:
  assumes body: "\<And>i xs. i < n \<Longrightarrow> body i xs = vec_set xs (f i) True"
    and f: "\<And>i. i < n \<Longrightarrow> f i < m"
  shows "for_range 0 n body (marked P m) = Inr (marked (\<lambda>s. P s \<or> (\<exists>i < n. f i = s)) m)"
proof -
  have "for_range i n body (marked (\<lambda>s. P s \<or> (\<exists>j < i. f j = s)) m)
    = Inr (marked (\<lambda>s. P s \<or> (\<exists>j < n. f j = s)) m)" if "i \<le> n" for i
    using that
  proof (induction "n - i" arbitrary: i)
    case (Suc k)
    then have i: "i < n" by simp
    have "(marked (\<lambda>s. P s \<or> (\<exists>j < i. f j = s)) m)[f i := True]
      = marked (\<lambda>s. P s \<or> (\<exists>j < Suc i. f j = s)) m"
      by (rule nth_equalityI) (use f [OF i] in \<open>auto simp: marked_def nth_list_update less_Suc_eq\<close>)
    then show ?case
      using Suc i f [OF i] by (simp add: for_range_step body vec_set_def) (simp add: marked_def)
  qed simp
  from this [of 0] show ?thesis by simp
qed

lemma mark_identifiers_eq:
  assumes pre: "inter_pre c"
  shows "mark_identifiers c = Inr (marked (is_identifier c) (string_ids_size (v_hdr c)))"
proof -
  let ?n = "string_ids_size (v_hdr c)"
  note ok = inter_preD(1,2) [OF pre]
  have init: "replicate ?n False = marked (\<lambda>_. False) ?n"
    by (simp add: marked_def map_replicate_const)
  have types: "\<And>i xs. i < type_ids_size (v_hdr c) \<Longrightarrow>
      bind (rd_u4 (v_img c) (type_id_pos c i)) (\<lambda>d. vec_set xs d True) = vec_set xs (type_desc_idx c i) True"
    by (simp add: rd_rows [OF ok])
  have protos: "\<And>i xs. i < proto_ids_size (v_hdr c) \<Longrightarrow>
      bind (rd_proto_id (v_img c) (proto_id_pos c i)) (\<lambda>pr. vec_set xs (shorty_idx pr) True)
      = vec_set xs (shorty_idx (proto_at c i)) True"
    by (simp add: rd_rows [OF ok])
  have fields: "\<And>i xs. i < field_ids_size (v_hdr c) \<Longrightarrow>
      bind (rd_field_id (v_img c) (field_id_pos c i)) (\<lambda>f. vec_set xs (m_name_idx f) True)
      = vec_set xs (m_name_idx (field_id_at c i)) True"
    by (simp add: rd_member_ids [OF ok])
  have methods: "\<And>i xs. i < method_ids_size (v_hdr c) \<Longrightarrow>
      bind (rd_method_id (v_img c) (method_id_pos c i)) (\<lambda>f. vec_set xs (m_name_idx f) True)
      = vec_set xs (m_name_idx (method_id_at c i)) True"
    by (simp add: rd_member_ids [OF ok])
  have small: "\<And>i. i < type_ids_size (v_hdr c) \<Longrightarrow> type_desc_idx c i < ?n"
    "\<And>i. i < proto_ids_size (v_hdr c) \<Longrightarrow> shorty_idx (proto_at c i) < ?n"
    "\<And>i. i < field_ids_size (v_hdr c) \<Longrightarrow> m_name_idx (field_id_at c i) < ?n"
    "\<And>i. i < method_ids_size (v_hdr c) \<Longrightarrow> m_name_idx (method_id_at c i) < ?n"
    using inter_preD(5-8) [OF pre] by (simp_all add: proto_ok_def field_ok_def method_ok_def Let_def)
  show ?thesis
    unfolding mark_identifiers_def Let_def init
    by (simp add: mark_loop [OF types small(1)] mark_loop [OF protos small(2)]
        mark_loop [OF fields small(3)] mark_loop [OF methods small(4)] is_identifier_def [abs_def])
qed

text \<open>What the scan answers: no empty string past the first, and the identifiers in order.\<close>

definition scan_ok :: "vctx \<Rightarrow> nat list \<Rightarrow> nat \<Rightarrow> bool" where
  "scan_ok c seen i \<longleftrightarrow> (let n = string_ids_size (v_hdr c) in
     list_all (\<lambda>s. s \<noteq> 0 \<longrightarrow> string_units c s \<noteq> []) [i..<n] \<and>
     sorted_wrt (\<lambda>s t. string_units c s < string_units c t) (seen @ filter (is_identifier c) [i..<n]))"

lemma units_less_trans: "transp (\<lambda>s t. string_units c s < string_units c t)"
  by (auto intro!: transpI)

lemma first_byte:
  assumes "inter_pre c" and "i < string_ids_size (v_hdr c)"
  shows "rd_u1 (v_img c) (str_at c i) = Inr (v_img c ! str_at c i)"
    and "v_img c ! str_at c i = 0 \<longleftrightarrow> string_units c i = []"
  using StringContent_pre(2) [OF assms]
  by (simp_all add: rd_u1_def str_ok_def zterm_less string_units_def string_bytes_def units_Nil_iff)

lemma identifiers_ordered_eq:
  assumes pre: "inter_pre c" and prev: "prev \<le> string_ids_size (v_hdr c)"
  shows "identifiers_ordered c (marked (is_identifier c) (string_ids_size (v_hdr c))) i prev
    = Inr (scan_ok c (if prev = string_ids_size (v_hdr c) then [] else [prev]) i)"
  using prev
proof (induction "string_ids_size (v_hdr c) - i" arbitrary: i prev)
  case 0
  then show ?case by (simp add: identifiers_ordered.simps [of c _ i] scan_ok_def)
next
  case (Suc k)
  let ?n = "string_ids_size (v_hdr c)" and ?m = "marked (is_identifier c) (string_ids_size (v_hdr c))"
  let ?seen = "\<lambda>p. if p = ?n then [] else [p]"
  from Suc.hyps(2) have i: "i < ?n" and k: "k = ?n - Suc i" by auto
  note IH = Suc.hyps(1) [OF k]
  have up: "[i..<?n] = i # [Suc i..<?n]" using i by (rule upt_conv_Cons)
  have get: "vec_get ?m i = Inr (is_identifier c i)" using i by (simp add: vec_get_def marked_def)
  note content = StringContent_pre(1) [OF pre i] and byte = first_byte [OF pre i]
  show ?case
  proof (cases "i \<noteq> 0 \<and> string_units c i = []")
    case True
    then have "\<not> scan_ok c (?seen prev) i" by (auto simp: scan_ok_def Let_def up)
    with True show ?thesis
      using i content byte by (simp add: identifiers_ordered.simps [of c _ i])
  next
    case ne: False
    show ?thesis
    proof (cases "is_identifier c i")
      case False
      have "scan_ok c (?seen prev) i = scan_ok c (?seen prev) (Suc i)"
        using ne False by (auto simp: scan_ok_def Let_def up)
      then show ?thesis
        using i ne False content byte get IH [OF Suc.prems]
        by (auto simp: identifiers_ordered.simps [of c _ i])
    next
      case True
      have scan: "scan_ok c (?seen prev) i \<longleftrightarrow>
        (prev \<noteq> ?n \<longrightarrow> string_units c prev < string_units c i) \<and> scan_ok c [i] (Suc i)"
        using ne True by (auto simp: scan_ok_def Let_def up sorted_wrt2 [OF units_less_trans])
      have ih: "identifiers_ordered c ?m (Suc i) i = Inr (scan_ok c [i] (Suc i))"
        using IH [of i] i by simp
      show ?thesis
      proof (cases "prev = ?n")
        case True
        then show ?thesis
          using i ne \<open>is_identifier c i\<close> content byte get ih scan
          by (auto simp: identifiers_ordered.simps [of c _ i])
      next
        case False
        with Suc.prems have "prev < ?n" by simp
        then obtain r where r: "compare_strings c prev i = Inr r"
          "r \<ge> 0 \<longleftrightarrow> \<not> string_units c prev < string_units c i"
          using compare_strings_pre [OF pre _ i] by blast
        then show ?thesis
          using False i ne \<open>is_identifier c i\<close> content byte get ih scan
          by (auto simp: identifiers_ordered.simps [of c _ i])
      qed
    qed
  qed
qed

definition identifiers_sorted :: "vctx \<Rightarrow> bool" where
  "identifiers_sorted c \<longleftrightarrow> (let n = string_ids_size (v_hdr c) in
     (\<forall>s < n. s \<noteq> 0 \<longrightarrow> string_units c s \<noteq> []) \<and>
     sorted_wrt (\<lambda>s t. string_units c s < string_units c t) (filter (is_identifier c) [0..<n]))"

lemma AcceptUnsortedValueStrings_eq:
  assumes "inter_pre c"
  shows "AcceptUnsortedValueStrings c k =
    Inr (if identifiers_sorted c then Some (UnsortedValueStrings k) else None)"
  by (simp add: AcceptUnsortedValueStrings_def mark_identifiers_eq [OF assms]
      identifiers_ordered_eq [OF assms] scan_ok_def identifiers_sorted_def Let_def list_all_iff Ball_def)

theorem check_string_order_eq:
  assumes pre: "inter_pre c"
  shows "check_string_order c =
    (if strings_sorted c then Inr []
     else if \<not> v_insns c \<and> identifiers_sorted c
     then Inr [UnsortedValueStrings (disorder c (string_ids_size (v_hdr c)))]
     else fail ''Out-of-order string_ids'')"
  using string_pairs [OF pre] disorder_0_iff [of c]
  by (auto simp: check_string_order_def AcceptUnsortedValueStrings_eq [OF pre] split: if_splits)

section \<open>Class definitions\<close>

definition class_type :: "vctx \<Rightarrow> nat \<Rightarrow> bool" where
  "class_type c t \<longleftrightarrow> descriptor_spec (type_units c t) \<and> type_lead c t = 0x4c"

definition class_interfaces :: "vctx \<Rightarrow> nat \<Rightarrow> nat list" where
  "class_interfaces c k = (let off = cd_interfaces_off (class_def_of c k) in
     if off = 0 then [] else map (type_list_idx c off) [0..<type_list_len c off])"

definition class_inter_ok :: "vctx \<Rightarrow> nat \<Rightarrow> bool" where
  "class_inter_ok c k \<longleftrightarrow> (let cd = class_def_of c k; cls = cd_class_idx cd; sup = cd_superclass_idx cd in
     class_type c cls \<and> (sup \<noteq> kNoIndex \<longrightarrow> sup \<noteq> cls \<and> class_type c sup) \<and>
     distinct (class_interfaces c k) \<and> (\<forall>t \<in> set (class_interfaces c k). t \<noteq> cls \<and> class_type c t) \<and>
     (cd_class_data_off cd \<noteq> 0 \<longrightarrow> class_data_defined_by c (cd_class_data_off cd) cls))"

lemma class_rows:
  assumes pre: "inter_pre c" and k: "k < class_defs_size (v_hdr c)"
  shows "rd_class_def (v_img c) (class_def_pos c k) = Inr (class_def_of c k)"
    "cd_class_idx (class_def_of c k) < type_ids_size (v_hdr c)"
    "cd_superclass_idx (class_def_of c k) \<noteq> kNoIndex \<Longrightarrow>
       cd_superclass_idx (class_def_of c k) < type_ids_size (v_hdr c)"
    "type_list_ok c (cd_interfaces_off (class_def_of c k))"
  using inter_preD(9) [OF pre k] rd_rows(4) [OF inter_preD(1,2) [OF pre] k]
  by (simp_all add: class_def_ok_def Let_def)

lemma distinct_map_upt: "distinct (map f [0..<n]) \<longleftrightarrow> (\<forall>i < n. \<forall>j < i. f j \<noteq> f i)"
proof
  assume r: "\<forall>i < n. \<forall>j < i. f j \<noteq> f i"
  have "f i \<noteq> f j" if "i < n" "j < n" "i \<noteq> j" for i j
    using that r by (cases i j rule: linorder_cases) (auto dest: not_sym)
  then show "distinct (map f [0..<n])" unfolding distinct_map inj_on_def by fastforce
qed (fastforce simp: distinct_map inj_on_def)

lemma check_interfaces_decides:
  assumes pre: "inter_pre c" and k: "k < class_defs_size (v_hdr c)"
  shows "decides (check_interfaces c (class_def_of c k))
    (distinct (class_interfaces c k) \<and>
     (\<forall>t \<in> set (class_interfaces c k). t \<noteq> cd_class_idx (class_def_of c k) \<and> class_type c t))"
proof (cases "cd_interfaces_off (class_def_of c k) = 0")
  case True
  then show ?thesis by (simp add: check_interfaces_def class_interfaces_def)
next
  case False
  let ?off = "cd_interfaces_off (class_def_of c k)" and ?cls = "cd_class_idx (class_def_of c k)"
  let ?idx = "type_list_idx c ?off" and ?len = "type_list_len c ?off"
  note tl = class_rows(4) [OF pre k]
  note rd = type_list_rd [OF inter_preD(1) [OF pre] tl False]
  have bound: "?idx i < type_ids_size (v_hdr c)" if "i < ?len" for i
    using tl that False by (simp add: type_list_ok_def)
  have one: "decides (check_interface c ?off ?cls i)
      (?idx i \<noteq> ?cls \<and> class_type c (?idx i) \<and> (\<forall>j. 0 \<le> j \<and> j < i \<longrightarrow> ?idx j \<noteq> ?idx i))"
    if i: "i < ?len" for i
  proof -
    have "decides (for_each 0 i (\<lambda>j. bind (proto_param c ?off j) (\<lambda>jt.
        if jt = ?idx i then fail ''Duplicate interface'' else Inr ())))
      (\<forall>j. 0 \<le> j \<and> j < i \<longrightarrow> ?idx j \<noteq> ?idx i)"
      by (rule decides_for_each) (use i rd in simp)
    then show ?thesis
      unfolding check_interface_def class_type_def rd(2) [OF i] bind_Inr
      using decides_bind [OF VerifyTypeDescriptor_decides [OF pre bound [OF i]], where pred1 = "\<lambda>d. d = 0x4c"]
      by (simp add: conj_assoc)
  qed
  have "decides (check_interfaces c (class_def_of c k))
    (\<forall>i. 0 \<le> i \<and> i < ?len \<longrightarrow> ?idx i \<noteq> ?cls \<and> class_type c (?idx i) \<and> (\<forall>j. 0 \<le> j \<and> j < i \<longrightarrow> ?idx j \<noteq> ?idx i))"
    unfolding check_interfaces_def rd(1) bind_Inr
    using decides_for_each [of 0 ?len, OF one] False by simp
  then show ?thesis
    by (rule decides_iff)
      (use False in \<open>auto simp: class_interfaces_def Let_def distinct_map_upt\<close>)
qed

lemma check_superclass_decides:
  assumes pre: "inter_pre c" and k: "k < class_defs_size (v_hdr c)"
    and len: "length d = type_ids_size (v_hdr c)"
    and past: "\<And>t. t < length d \<Longrightarrow> d ! t \<noteq> kNotDefined \<Longrightarrow> d ! t < k"
  defines "cd \<equiv> class_def_of c k"
  shows "decides (check_superclass c d k cd)
    (cd_superclass_idx cd \<noteq> kNoIndex \<longrightarrow>
       cd_superclass_idx cd \<noteq> cd_class_idx cd \<and> class_type c (cd_superclass_idx cd))"
proof (cases "cd_superclass_idx cd = kNoIndex")
  case True
  then show ?thesis by (simp add: check_superclass_def)
next
  case False
  let ?s = "cd_superclass_idx cd"
  have s: "?s < length d" using class_rows(3) [OF pre k] False by (simp add: len cd_def)
  have "\<not> (d ! ?s \<noteq> kNotDefined \<and> d ! ?s > k)" using past [OF s] by auto
  then have "bind (vec_get d ?s) (\<lambda>at. if at \<noteq> kNotDefined \<and> at > k
      then fail ''Class defined before its superclass'' else Inr ()) = Inr ()"
    using s by (auto simp: vec_get_def)
  then show ?thesis
    using False decides_bind [OF VerifyTypeDescriptor_decides [OF pre s [unfolded len], where pred = "\<lambda>d. d = 0x4c"], of "Inr ()" True]
    by (simp add: check_superclass_def class_type_def)
qed

text \<open>The loop invariant: \<open>d\<close> records, for each type, the class_def before \<open>k\<close> that defines it.\<close>

definition defined_by :: "vctx \<Rightarrow> nat \<Rightarrow> nat list \<Rightarrow> bool" where
  "defined_by c k d \<longleftrightarrow> length d = type_ids_size (v_hdr c) \<and>
     (\<forall>t < length d. d ! t \<noteq> kNotDefined \<longrightarrow> d ! t < k) \<and>
     (\<forall>j < k. d ! cd_class_idx (class_def_of c j) = j)"

definition classes_inter_ok :: "vctx \<Rightarrow> nat \<Rightarrow> bool" where
  "classes_inter_ok c n \<longleftrightarrow> (\<forall>k < n. class_inter_ok c k) \<and>
     distinct (map (\<lambda>k. cd_class_idx (class_def_of c k)) [0..<n])"

lemma class_table_small:
  "vctx_ok c \<Longrightarrow> tables_ok c \<Longrightarrow> class_defs_size (v_hdr c) < kNotDefined"
  by (auto simp: vctx_ok_def tables_ok_def Let_def table_ok_def kNotDefined_def)

lemma wp_inter_class_def:
  assumes pre: "inter_pre c" and k: "k < class_defs_size (v_hdr c)"
    and d: "defined_by c k d" and before: "classes_inter_ok c k"
  shows "wp (inter_class_def c k d) (\<lambda>d'. defined_by c (Suc k) d' \<and> classes_inter_ok c (Suc k))"
proof -
  let ?cd = "class_def_of c k"
  let ?cls = "cd_class_idx ?cd"
  note ok = inter_preD(1,2) [OF pre]
  note rows = class_rows [OF pre k]
  have len: "length d = type_ids_size (v_hdr c)" and past: "\<And>t. t < length d \<Longrightarrow> d ! t \<noteq> kNotDefined \<Longrightarrow> d ! t < k"
    using d by (auto simp: defined_by_def)
  have new: "\<forall>j < k. cd_class_idx (class_def_of c j) \<noteq> ?cls" if "d ! ?cls = kNotDefined"
  proof (intro allI impI notI)
    fix j assume j: "j < k" and "cd_class_idx (class_def_of c j) = ?cls"
    then have "j = kNotDefined" using d that by (auto simp: defined_by_def)
    then show False using j k class_table_small [OF ok] by simp
  qed
  have step: "defined_by c (Suc k) (d[?cls := k])" if "d ! ?cls = kNotDefined"
    using d new [OF that] rows(2)
    by (auto simp: defined_by_def nth_list_update less_Suc_eq)
  have all: "classes_inter_ok c (Suc k)" if "class_inter_ok c k" "d ! ?cls = kNotDefined"
    using before that new by (auto simp: classes_inter_ok_def less_Suc_eq distinct_map_upt)
  have cls: "wp (VerifyTypeDescriptor c ?cls m (\<lambda>d. d = 0x4c)) (\<lambda>_. class_type c ?cls)" for m
    using VerifyTypeDescriptor_decides [OF pre rows(2)] by (auto simp: class_type_def dest: decides_wp)
  note sup = decides_wp [OF check_superclass_decides [OF pre k len past]]
  note ifs = decides_wp [OF check_interfaces_decides [OF pre k]]
  note data = wp_CheckClassDataDefiners [OF ok]
  show ?thesis
    unfolding inter_class_def_def rows(1) bind_Inr Let_def wp_bind
    apply (rule wp_conseq [OF cls])
    apply (simp only: wp_vec len rows(2) simp_thms)
    apply (rule wp_guardI)
    unfolding wp_bind
    apply (rule wp_conseq [OF sup], assumption+)
    apply (rule wp_conseq [OF ifs])
    apply (rule wp_whenI [OF data])
    apply (simp only: wp_vec len rows(2) simp_thms)
    apply (auto simp: class_inter_ok_def Let_def intro!: step all)
    done
qed

lemma wp_VerifyClassDefs:
  assumes pre: "inter_pre c"
  shows "wp (VerifyClassDefs c) (\<lambda>_. classes_inter_ok c (class_defs_size (v_hdr c)))"
proof -
  let ?Inv = "\<lambda>k d. defined_by c k d \<and> classes_inter_ok c k"
  have "wp (for_range 0 (class_defs_size (v_hdr c)) (inter_class_def c)
      (replicate (type_ids_size (v_hdr c)) kNotDefined)) (?Inv (class_defs_size (v_hdr c)))"
    by (rule wp_for_range [where Inv = ?Inv])
      (auto simp: defined_by_def [of _ 0] classes_inter_ok_def [of _ 0] intro!: wp_inter_class_def [OF pre])
  then show ?thesis
    unfolding VerifyClassDefs_def wp_bind wp_Inr by (rule wp_conseq) simp
qed

section \<open>What the cross-reference phase establishes\<close>

definition string_order_ok :: "vctx \<Rightarrow> deviation list \<Rightarrow> bool" where
  "string_order_ok c devs \<longleftrightarrow>
     (strings_sorted c \<and> devs = []) \<or>
     (\<not> strings_sorted c \<and> \<not> v_insns c \<and> identifiers_sorted c \<and>
      devs = [UnsortedValueStrings (disorder c (string_ids_size (v_hdr c)))])"

definition inter_ok :: "vctx \<Rightarrow> bool" where
  "inter_ok c \<longleftrightarrow> (let h = v_hdr c in
     (\<forall>i < type_ids_size h. type_inter_ok c i) \<and>
     (\<forall>i. 1 \<le> i \<and> i < proto_ids_size h \<longrightarrow> proto_inter_ok c i) \<and>
     (\<forall>i < field_ids_size h. field_inter_ok c i) \<and>
     (\<forall>i < method_ids_size h. method_inter_ok c i) \<and>
     classes_inter_ok c (class_defs_size h))"

lemma wp_CheckInterSection:
  assumes pre: "inter_pre c"
  shows "wp (CheckInterSection c) (\<lambda>devs. string_order_ok c devs \<and> inter_ok c)"
proof -
  note rows = decides_wp [OF decides_for_each, OF inter_type_decides [OF pre]]
    decides_wp [OF decides_for_each, OF inter_proto_decides [OF pre]]
    decides_wp [OF decides_for_each, OF inter_field_decides [OF pre]]
    decides_wp [OF decides_for_each, OF inter_method_decides [OF pre]]
  have strings: "wp (check_string_order c) (string_order_ok c)"
    using check_string_order_eq [OF pre] by (auto simp: string_order_ok_def wp_rules)
  show ?thesis
    unfolding CheckInterSection_def Let_def wp_bind wp_Inr
    apply (rule wp_conseq [OF strings])
    apply (rule wp_conseq [OF rows(1)], assumption)
    apply (rule wp_conseq [OF rows(2)], assumption+)
    apply (rule wp_conseq [OF rows(3)], assumption)
    apply (rule wp_conseq [OF rows(4)], assumption)
    apply (rule wp_conseq [OF wp_VerifyClassDefs [OF pre]])
    apply (simp add: inter_ok_def Let_def)
    done
qed

section \<open>The recorded positions\<close>

lemma for_range_Inr_inv:
  assumes "for_range i n body s = Inr t" and "Inv i s" and "i \<le> n"
    and "\<And>j s s'. i \<le> j \<Longrightarrow> j < n \<Longrightarrow> Inv j s \<Longrightarrow> body j s = Inr s' \<Longrightarrow> Inv (Suc j) s'"
  shows "Inv n t"
  using assms
proof (induction "n - i" arbitrary: i s)
  case (Suc k)
  then have i: "i < n" by simp
  then obtain s' where s': "body i s = Inr s'" "for_range (Suc i) n body s' = Inr t"
    using Suc.prems(1) by (auto simp: for_range_step bind_eq_Inr)
  have "Inv (Suc i) s'" using Suc.prems(4) [OF _ i Suc.prems(2) s'(1)] by simp
  then show ?case using Suc.hyps(1) [of "Suc i" s'] Suc.hyps(2) Suc.prems(4) s'(2) i by simp
qed simp

lemma inter_class_def_update: "inter_class_def c k d = Inr d' \<Longrightarrow> \<exists>cls. d' = d[cls := k]"
  by (auto simp: inter_class_def_def Let_def bind_eq_Inr vec_set_def split: if_splits)

lemma recorded_positions_earlier:
  assumes "for_range 0 k (inter_class_def c) (replicate n kNotDefined) = Inr d"
  shows "\<forall>s < length d. d ! s \<noteq> kNotDefined \<longrightarrow> d ! s < k"
proof (rule for_range_Inr_inv [where Inv = "\<lambda>k d. \<forall>s < length d. d ! s \<noteq> kNotDefined \<longrightarrow> d ! s < k", OF assms])
  fix j d d'
  assume old: "\<forall>s < length d. d ! s \<noteq> kNotDefined \<longrightarrow> d ! s < j" and "inter_class_def c j d = Inr d'"
  then obtain cls where d': "d' = d[cls := j]" using inter_class_def_update by blast
  show "\<forall>s < length d'. d' ! s \<noteq> kNotDefined \<longrightarrow> d' ! s < Suc j"
  proof (intro allI impI)
    fix s assume "s < length d'" and "d' ! s \<noteq> kNotDefined"
    then show "d' ! s < Suc j" using old by (cases "cls = s") (auto simp: d' less_Suc_eq)
  qed
qed simp_all

section \<open>Further results\<close>

text \<open>
  The row checks of the four id tables decide their specifications: types have valid
  descriptors in descriptor order, protos are ordered by return type and then lexicographically
  by parameters, fields and methods have valid classes, types and names and are ordered by class,
  name and type or proto.
\<close>

theorem id_rows_verdict:
  assumes "inter_pre c"
  shows "(\<forall>i < type_ids_size (v_hdr c). decides (inter_type c i) (type_inter_ok c i)) \<and>
    (\<forall>i. 1 \<le> i \<and> i < proto_ids_size (v_hdr c) \<longrightarrow> decides (inter_proto c i) (proto_inter_ok c i)) \<and>
    (\<forall>i < field_ids_size (v_hdr c). decides (inter_field c i) (field_inter_ok c i)) \<and>
    (\<forall>i < method_ids_size (v_hdr c). decides (inter_method c i) (method_inter_ok c i))"
  using inter_type_decides [OF assms] inter_proto_decides [OF assms] inter_field_decides [OF assms]
    inter_method_decides [OF assms] by blast

text \<open>
  The guard behind \<open>Class defined before its superclass\<close> is false in every state the loop
  over class_defs reaches: a recorded position is always that of an earlier class_def. The check
  never fires, so the order of a class and its superclass is not enforced.
\<close>

theorem superclass_order_check_dead:
  assumes "for_range 0 k (inter_class_def c) (replicate n kNotDefined) = Inr d" and "s < length d"
  shows "\<not> (d ! s \<noteq> kNotDefined \<and> d ! s > k)"
  using recorded_positions_earlier [OF assms(1)] assms(2) by (auto simp: not_less)

section \<open>Properties\<close>

text \<open>
  C14. The string-order verdict is exact. A strictly ordered table passes with no deviation; a
  disordered one is refused in the strict pass, and in the lenient pass is accepted exactly when
  the identifier strings are in order and no string past the first is empty, reporting the number
  of adjacent pairs out of order.
\<close>

theorem string_order_verdict:
  assumes "inter_pre c"
  shows "check_string_order c =
    (if strings_sorted c then Inr []
     else if \<not> v_insns c \<and> identifiers_sorted c
     then Inr [UnsortedValueStrings (disorder c (string_ids_size (v_hdr c)))]
     else fail ''Out-of-order string_ids'')"
  using assms by (rule check_string_order_eq)

text \<open>
  C19. \<open>VerifyClassDefs\<close> reads only what the earlier phases bounded, and accepts only when the
  classes are distinct class types, no class is its own superclass or interface, no interface is
  listed twice, and every member a class declares names that class.
\<close>

theorem class_defs_sound:
  assumes "inter_pre c"
  shows "wp (VerifyClassDefs c) (\<lambda>_. classes_inter_ok c (class_defs_size (v_hdr c)))"
  using assms by (rule wp_VerifyClassDefs)

end
