(* ===== verification/Verify_Dex.thy ===== *)
theory Verify_Dex
  imports Verifier_Inter
begin

text \<open>
  \<open>DexVerifier::Verify\<close> and the gate \<open>VerifyDex\<close>: the phases in the order the code runs them, the
  shared image state they carry, and the theorem that every image gets a verdict and that an
  accepted one has the structure its consumers rely on.
\<close>

section \<open>The entry point\<close>

text \<open>\<open>DexVerifyResult\<close>.\<close>

record verify_result =
  vr_ok :: bool
  vr_reason :: string
  vr_deviations :: "deviation list"

definition Verify :: "image \<Rightarrow> nat \<Rightarrow> bool \<Rightarrow> img_state \<Rightarrow> img_state kept + (deviation list \<times> img_state)" where
  "Verify im header_off check_insns st =
     (if header_off > length im then keep st (fail ''Empty or truncated file'')
      else if length im - header_off < kV40Size then keep st (fail ''Empty or truncated file'')
      else bind (keep st (rd_header im header_off)) (\<lambda>h.
        bind (keep st (ComputeDataRange im h check_insns)) (\<lambda>c.
        bind (keep st (CheckHeader c)) (\<lambda>_.
        bind (CheckMap c st) (\<lambda>(c', st').
        bind (keep st' (CheckIntraSection c')) (\<lambda>_.
        bind (keep st' (CheckInterSection c')) (\<lambda>devs.
          Inr (devs, st'))))))))"

text \<open>
  \<open>VerifyDex\<close>: a rejection and a caught exception both become a result; what remains a fault
  of the whole call is a read outside the image.
\<close>

definition VerifyDex :: "image \<Rightarrow> bool \<Rightarrow> nat \<Rightarrow> img_state \<Rightarrow> (verify_result \<times> img_state) result" where
  "VerifyDex im check_insns header_off st =
     (case Verify im header_off check_insns (seed_img_state im st) of
        Inr (devs, st') \<Rightarrow> Inr (\<lparr>vr_ok = True, vr_reason = [], vr_deviations = devs\<rparr>, st')
      | Inl (Reject m, st') \<Rightarrow> Inr (\<lparr>vr_ok = False, vr_reason = m, vr_deviations = []\<rparr>, st')
      | Inl (Throw m, st') \<Rightarrow>
          Inr (\<lparr>vr_ok = False, vr_reason = ''malformed dex: '' @ m, vr_deviations = []\<rparr>, st')
      | Inl (Oob p, st') \<Rightarrow> Inl (Oob p))"

section \<open>What acceptance means\<close>

definition dex_valid :: "image \<Rightarrow> nat \<Rightarrow> bool \<Rightarrow> deviation list \<Rightarrow> vctx \<Rightarrow> bool" where
  "dex_valid im off ci devs c \<longleftrightarrow>
     vctx_ok c \<and> v_img c = im \<and> v_hdr c = header_at im off \<and> v_insns c = ci \<and>
     data_range_of im (header_at im off) c \<and>
     v_mh_count c = handle_count 0 (map_list c (map_count c)) \<and>
     header_ident_ok c \<and> tables_ok c \<and> map_ok c \<and> intra_ok c \<and>
     string_order_ok c devs \<and> inter_ok c"

lemma mh_count_irrelevant:
  "vctx_ok (c\<lparr>v_mh_count := n\<rparr>) = vctx_ok c"
  "header_ident_ok (c\<lparr>v_mh_count := n\<rparr>) = header_ident_ok c"
  "tables_ok (c\<lparr>v_mh_count := n\<rparr>) = tables_ok c"
  "data_range_of im h (c\<lparr>v_mh_count := n\<rparr>) = data_range_of im h c"
  "map_base (c\<lparr>v_mh_count := n\<rparr>) = map_base c"
  "map_count (c\<lparr>v_mh_count := n\<rparr>) = map_count c"
  "map_list (c\<lparr>v_mh_count := n\<rparr>) k = map_list c k"
  "map_ok (c\<lparr>v_mh_count := n\<rparr>) = map_ok c"
  "handle_section_ok (c\<lparr>v_mh_count := n\<rparr>) its = handle_section_ok c its"
  by (simp_all add: vctx_ok_def end_of_file_def header_ident_ok_def tables_ok_def table_ok_def
      data_range_of_def map_base_def map_count_def map_list_def map_ok_def map_list_ok_def
      map_item_ok_def map_complete_def section_required_def handle_section_ok_def handle_ok_def
      handle_at_def Let_def)

lemma header_at_simps [simp]:
  "hdr_off (header_at im off) = off" "file_size (header_at im off) < 4294967296"
  by (simp_all add: header_at_def u4_at_less)

lemma wps_Verify:
  "wps (Verify im off ci st) (\<lambda>(devs, st'). off + 112 \<le> length im \<and> (\<exists>c. dex_valid im off ci devs c \<and>
     (memo_sound im (v_begin c) st \<longrightarrow>
        memo_sound im (v_begin c) st' \<and> handle_section_ok c (map_list c (map_count c)))))"
proof (cases "off + 112 \<le> length im")
  case False
  then have "Verify im off ci st = keep st (fail ''Empty or truncated file'')"
    by (auto simp: Verify_def layout)
  then show ?thesis by (simp add: wps_simps wp_fail)
next
  case len: True
  let ?h = "header_at im off"
  let ?range = "\<lambda>c. vctx_ok c \<and> v_img c = im \<and> v_hdr c = ?h \<and> v_insns c = ci \<and> v_mh_count c = 0 \<and>
    data_range_of im ?h c"
  let ?Post = "\<lambda>(devs, st'). off + 112 \<le> length im \<and> (\<exists>c. dex_valid im off ci devs c \<and>
     (memo_sound im (v_begin c) st \<longrightarrow>
        memo_sound im (v_begin c) st' \<and> handle_section_ok c (map_list c (map_count c))))"
  have range: "wp (ComputeDataRange im ?h ci) ?range"
    by (rule wp_ComputeDataRange) (use len in \<open>simp_all add: layout\<close>)
  have rest: "wps (bind (keep st' (CheckIntraSection c')) (\<lambda>_.
      bind (keep st' (CheckInterSection c')) (\<lambda>devs. Inr (devs, st')))) ?Post"
    if c: "?range c" "header_ident_ok c" "tables_ok c" and map: "map_post c st (c', st')" for c c' st'
  proof -
    have c': "c' = c\<lparr>v_mh_count := handle_count 0 (map_list c (map_count c))\<rparr>"
      using map c(1) by (simp add: map_post_def)
    have ok: "vctx_ok c'" "tables_ok c'" using c by (simp_all add: c' mh_count_irrelevant)
    have fin: "?Post (devs, st')" if "intra_ok c'" "string_order_ok c' devs" "inter_ok c'" for devs
      using that c map len unfolding c'
      by (intro case_prodI conjI exI [of _ "c\<lparr>v_mh_count := handle_count 0 (map_list c (map_count c))\<rparr>"])
        (auto simp: dex_valid_def map_post_def mh_count_irrelevant)
    have "wp (CheckIntraSection c') (\<lambda>_. wp (CheckInterSection c') (\<lambda>devs. ?Post (devs, st')))"
    proof (rule wp_conseq [OF wp_CheckIntraSection [OF ok]])
      fix u assume intra: "intra_ok c'"
      have "inter_pre c'" using ok intra by (simp add: inter_pre_def)
      then show "wp (CheckInterSection c') (\<lambda>devs. ?Post (devs, st'))"
        by (rule wp_conseq [OF wp_CheckInterSection]) (use fin intra in blast)
    qed
    then show ?thesis by (simp only: wps_simps)
  qed
  let ?K = "\<lambda>r. wps (case r of (c', st') \<Rightarrow> bind (keep st' (CheckIntraSection c')) (\<lambda>_.
      bind (keep st' (CheckInterSection c')) (\<lambda>devs. Inr (devs, st')))) ?Post"
  have map: "wps (CheckMap c st) ?K" if c: "?range c" "header_ident_ok c" "tables_ok c" for c
  proof (rule wps_conseq [OF wps_CheckMap])
    show "?K r" if "map_post c st r" for r using rest [OF c] that by (cases r) simp
  qed (use c in simp)
  have header: "wp (CheckHeader c) (\<lambda>_. wps (CheckMap c st) ?K)" if c: "?range c" for c
  proof (rule wp_conseq [OF wp_CheckHeader])
    show "wps (CheckMap c st) ?K" if "header_ident_ok c \<and> tables_ok c"
      using map [OF c] that by blast
  qed (use c len in \<open>simp_all add: layout\<close>)
  have "wp (ComputeDataRange im ?h ci) (\<lambda>c. wp (CheckHeader c) (\<lambda>_. wps (CheckMap c st) ?K))"
    by (rule wp_conseq [OF range header])
  moreover have "rd_header im off = Inr ?h" using len by (simp add: rd_header_def layout)
  moreover have "\<not> off > length im" "\<not> length im - off < 112" using len by simp_all
  ultimately show ?thesis
    by (simp only: Verify_def layout if_False bind_Inr keep_simps wps_simps)
qed

lemma VerifyDex_cases:
  obtains (accepted) devs st' where
      "VerifyDex im ci off st = Inr (\<lparr>vr_ok = True, vr_reason = [], vr_deviations = devs\<rparr>, st')"
      "Verify im off ci (seed_img_state im st) = Inr (devs, st')"
  | (rejected) m st' where
      "VerifyDex im ci off st = Inr (\<lparr>vr_ok = False, vr_reason = m, vr_deviations = []\<rparr>, st')"
proof (cases "Verify im off ci (seed_img_state im st)")
  case (Inr r)
  then show ?thesis using that(1) by (cases r) (simp add: VerifyDex_def)
next
  case (Inl e)
  obtain f st' where e: "e = (f, st')" by force
  have "wp (Inl f :: (deviation list \<times> img_state) result) (\<lambda>_. True)"
    using wps_conseq [OF wps_Verify [of im off ci "seed_img_state im st"], of "\<lambda>_. True"] Inl e by (simp add: wps_def)
  then show ?thesis
    using that(2) Inl e by (cases f) (auto simp: VerifyDex_def wp_def)
qed

lemma verify_dex_valid:
  assumes "VerifyDex im ci off st = Inr (r, st')" and "vr_ok r"
  shows "\<exists>c. dex_valid im off ci (vr_deviations r) c"
proof (cases rule: VerifyDex_cases [of im ci off st])
  case (accepted devs st'')
  then have "vr_deviations r = devs" using assms(1) by auto
  with wps_InrD [OF wps_Verify accepted(2)] show ?thesis by auto
qed (use assms in auto)

section \<open>Further results\<close>

text \<open>
  With a state of its own (no other slice before it), an accepted dex has had the contents of
  its method_handle section checked: every handle names a real kind and an existing member.
\<close>

theorem fresh_handles_checked:
  assumes "VerifyDex im ci off fresh_img_state = Inr (r, st')" and "vr_ok r"
  shows "\<exists>c. dex_valid im off ci (vr_deviations r) c \<and> handle_section_ok c (map_list c (map_count c))"
proof (cases rule: VerifyDex_cases [of im ci off fresh_img_state])
  case (accepted devs st'')
  then have "vr_deviations r = devs" using assms(1) by auto
  moreover have "memo_sound im b (seed_img_state im fresh_img_state)" for b
    by (simp add: memo_sound_def seed_img_state_def fresh_img_state_def)
  ultimately show ?thesis using wps_InrD [OF wps_Verify accepted(2)] by auto
qed (use assms in auto)

section \<open>Properties\<close>

text \<open>
  C1. A dex that \<open>VerifyDex\<close> accepts satisfies the specification \<open>dex_valid\<close>: header and data
  range, id tables, map, per-item structure and cross references. A strict pass reports no
  deviation.
\<close>

theorem verify_dex_sound:
  assumes "VerifyDex im ci off st = Inr (r, st')" and "vr_ok r"
  shows "(\<exists>c. dex_valid im off ci (vr_deviations r) c) \<and> (ci \<longrightarrow> vr_deviations r = [])"
  using verify_dex_valid [OF assms] by (auto simp: dex_valid_def string_order_ok_def)

text \<open>
  C2. \<open>VerifyDex\<close> is total: for every image, header offset, mode and shared state it returns a
  result; it never reads outside the image, and no exception escapes it.
\<close>

theorem verify_dex_total: "\<exists>r st'. VerifyDex im ci off st = Inr (r, st')"
  by (cases rule: VerifyDex_cases [of im ci off st]) blast+

end
