(* ===== verification/Example_Dex.thy ===== *)
theory Example_Dex
  imports Verifier_Base
begin

text \<open>
  One small but complete dex image, on which the theorems about the verifier are applied: a
  class \<open>LA;\<close> with superclass \<open>LO;\<close>, a static field with a static value, a class annotation
  with one element, and a static method whose code has a branch, an indexed instruction and a
  try block. Version 035, 440 bytes, no method handles.
\<close>

definition example_dex :: image where
  "example_dex =
    [0x64, 0x65, 0x78, 0xa, 0x30, 0x33, 0x35, 0x0, 0x0, 0x0, 0x0, 0x0, 0x0, 0x0, 0x0, 0x0, 0x0, 0x0,
     0x0, 0x0, 0x0, 0x0, 0x0, 0x0, 0x0, 0x0, 0x0, 0x0, 0x0, 0x0, 0x0, 0x0, 0xb8, 0x1, 0x0, 0x0, 0x70,
     0x0, 0x0, 0x0, 0x78, 0x56, 0x34, 0x12, 0x0, 0x0, 0x0, 0x0, 0x0, 0x0, 0x0, 0x0, 0x54, 0x1, 0x0,
     0x0, 0x6, 0x0, 0x0, 0x0, 0x70, 0x0, 0x0, 0x0, 0x4, 0x0, 0x0, 0x0, 0x88, 0x0, 0x0, 0x0, 0x2, 0x0,
     0x0, 0x0, 0x98, 0x0, 0x0, 0x0, 0x1, 0x0, 0x0, 0x0, 0xb0, 0x0, 0x0, 0x0, 0x1, 0x0, 0x0, 0x0, 0xb8,
     0x0, 0x0, 0x0, 0x1, 0x0, 0x0, 0x0, 0xc0, 0x0, 0x0, 0x0, 0xd8, 0x0, 0x0, 0x0, 0xe0, 0x0, 0x0, 0x0,
     0x28, 0x1, 0x0, 0x0, 0x2b, 0x1, 0x0, 0x0, 0x30, 0x1, 0x0, 0x0, 0x35, 0x1, 0x0, 0x0, 0x38, 0x1,
     0x0, 0x0, 0x3b, 0x1, 0x0, 0x0, 0x0, 0x0, 0x0, 0x0, 0x1, 0x0, 0x0, 0x0, 0x2, 0x0, 0x0, 0x0, 0x3,
     0x0, 0x0, 0x0, 0x3, 0x0, 0x0, 0x0, 0x3, 0x0, 0x0, 0x0, 0x0, 0x0, 0x0, 0x0, 0x3, 0x0, 0x0, 0x0,
     0x3, 0x0, 0x0, 0x0, 0xe0, 0x0, 0x0, 0x0, 0x1, 0x0, 0x0, 0x0, 0x4, 0x0, 0x0, 0x0, 0x1, 0x0, 0x0,
     0x0, 0x5, 0x0, 0x0, 0x0, 0x1, 0x0, 0x0, 0x0, 0x1, 0x0, 0x0, 0x0, 0x2, 0x0, 0x0, 0x0, 0x0, 0x0,
     0x0, 0x0, 0xff, 0xff, 0xff, 0xff, 0xe8, 0x0, 0x0, 0x0, 0x47, 0x1, 0x0, 0x0, 0x44, 0x1, 0x0, 0x0,
     0x1, 0x0, 0x0, 0x0, 0x0, 0x0, 0x0, 0x0, 0xf8, 0x0, 0x0, 0x0, 0x0, 0x0, 0x0, 0x0, 0x0, 0x0, 0x0,
     0x0, 0x0, 0x0, 0x0, 0x0, 0x1, 0x0, 0x0, 0x0, 0x3e, 0x1, 0x0, 0x0, 0x1, 0x0, 0x0, 0x0, 0x0, 0x0,
     0x1, 0x0, 0x0, 0x0, 0x0, 0x0, 0x6, 0x0, 0x0, 0x0, 0x12, 0x10, 0x38, 0x0, 0x4, 0x0, 0x1a, 0x0, 0x4,
     0x0, 0xe, 0x0, 0x0, 0x0, 0x0, 0x0, 0x3, 0x0, 0x1, 0x0, 0x1, 0x1, 0x2, 0x5, 0x1, 0x49, 0x0, 0x3,
     0x4c, 0x41, 0x3b, 0x0, 0x3, 0x4c, 0x4f, 0x3b, 0x0, 0x1, 0x56, 0x0, 0x1, 0x66, 0x0, 0x1, 0x6d, 0x0,
     0x1, 0x2, 0x1, 0x4, 0x4, 0x7, 0x1, 0x4, 0x5, 0x1, 0x0, 0x1, 0x0, 0x0, 0x8, 0x0, 0x9, 0x80, 0x2,
     0x0, 0x0, 0x0, 0x8, 0x0, 0x0, 0x0, 0x0, 0x0, 0x0, 0x0, 0x1, 0x0, 0x0, 0x0, 0x0, 0x0, 0x0, 0x0,
     0x1, 0x0, 0x0, 0x0, 0x6, 0x0, 0x0, 0x0, 0x70, 0x0, 0x0, 0x0, 0x2, 0x0, 0x0, 0x0, 0x4, 0x0, 0x0,
     0x0, 0x88, 0x0, 0x0, 0x0, 0x3, 0x0, 0x0, 0x0, 0x2, 0x0, 0x0, 0x0, 0x98, 0x0, 0x0, 0x0, 0x4, 0x0,
     0x0, 0x0, 0x1, 0x0, 0x0, 0x0, 0xb0, 0x0, 0x0, 0x0, 0x5, 0x0, 0x0, 0x0, 0x1, 0x0, 0x0, 0x0, 0xb8,
     0x0, 0x0, 0x0, 0x6, 0x0, 0x0, 0x0, 0x1, 0x0, 0x0, 0x0, 0xc0, 0x0, 0x0, 0x0, 0x0, 0x10, 0x0, 0x0,
     0x1, 0x0, 0x0, 0x0, 0x54, 0x1, 0x0, 0x0]"

lemma length_example_dex: "length example_dex = 440"
  by (simp add: example_dex_def)

lemma example_nth:
  "example_dex ! 0 = 0x64" "example_dex ! 1 = 0x65" "example_dex ! 2 = 0x78" "example_dex ! 3 = 0x0a"
  "example_dex ! 4 = 0x30" "example_dex ! 5 = 0x33" "example_dex ! 6 = 0x35" "example_dex ! 7 = 0x00"
  "example_dex ! 8 = 0x00" "example_dex ! 9 = 0x00" "example_dex ! 10 = 0x00" "example_dex ! 11 = 0x00"
  "example_dex ! 12 = 0x00" "example_dex ! 13 = 0x00" "example_dex ! 14 = 0x00" "example_dex ! 15 = 0x00"
  "example_dex ! 16 = 0x00" "example_dex ! 17 = 0x00" "example_dex ! 18 = 0x00" "example_dex ! 19 = 0x00"
  "example_dex ! 20 = 0x00" "example_dex ! 21 = 0x00" "example_dex ! 22 = 0x00" "example_dex ! 23 = 0x00"
  "example_dex ! 24 = 0x00" "example_dex ! 25 = 0x00" "example_dex ! 26 = 0x00" "example_dex ! 27 = 0x00"
  "example_dex ! 28 = 0x00" "example_dex ! 29 = 0x00" "example_dex ! 30 = 0x00" "example_dex ! 31 = 0x00"
  "example_dex ! 32 = 0xb8" "example_dex ! 33 = 0x01" "example_dex ! 34 = 0x00" "example_dex ! 35 = 0x00"
  "example_dex ! 36 = 0x70" "example_dex ! 37 = 0x00" "example_dex ! 38 = 0x00" "example_dex ! 39 = 0x00"
  "example_dex ! 40 = 0x78" "example_dex ! 41 = 0x56" "example_dex ! 42 = 0x34" "example_dex ! 43 = 0x12"
  "example_dex ! 44 = 0x00" "example_dex ! 45 = 0x00" "example_dex ! 46 = 0x00" "example_dex ! 47 = 0x00"
  "example_dex ! 48 = 0x00" "example_dex ! 49 = 0x00" "example_dex ! 50 = 0x00" "example_dex ! 51 = 0x00"
  "example_dex ! 52 = 0x54" "example_dex ! 53 = 0x01" "example_dex ! 54 = 0x00" "example_dex ! 55 = 0x00"
  "example_dex ! 56 = 0x06" "example_dex ! 57 = 0x00" "example_dex ! 58 = 0x00" "example_dex ! 59 = 0x00"
  "example_dex ! 60 = 0x70" "example_dex ! 61 = 0x00" "example_dex ! 62 = 0x00" "example_dex ! 63 = 0x00"
  "example_dex ! 64 = 0x04" "example_dex ! 65 = 0x00" "example_dex ! 66 = 0x00" "example_dex ! 67 = 0x00"
  "example_dex ! 68 = 0x88" "example_dex ! 69 = 0x00" "example_dex ! 70 = 0x00" "example_dex ! 71 = 0x00"
  "example_dex ! 72 = 0x02" "example_dex ! 73 = 0x00" "example_dex ! 74 = 0x00" "example_dex ! 75 = 0x00"
  "example_dex ! 76 = 0x98" "example_dex ! 77 = 0x00" "example_dex ! 78 = 0x00" "example_dex ! 79 = 0x00"
  "example_dex ! 80 = 0x01" "example_dex ! 81 = 0x00" "example_dex ! 82 = 0x00" "example_dex ! 83 = 0x00"
  "example_dex ! 84 = 0xb0" "example_dex ! 85 = 0x00" "example_dex ! 86 = 0x00" "example_dex ! 87 = 0x00"
  "example_dex ! 88 = 0x01" "example_dex ! 89 = 0x00" "example_dex ! 90 = 0x00" "example_dex ! 91 = 0x00"
  "example_dex ! 92 = 0xb8" "example_dex ! 93 = 0x00" "example_dex ! 94 = 0x00" "example_dex ! 95 = 0x00"
  "example_dex ! 96 = 0x01" "example_dex ! 97 = 0x00" "example_dex ! 98 = 0x00" "example_dex ! 99 = 0x00"
  "example_dex ! 100 = 0xc0" "example_dex ! 101 = 0x00" "example_dex ! 102 = 0x00" "example_dex ! 103 = 0x00"
  "example_dex ! 104 = 0xd8" "example_dex ! 105 = 0x00" "example_dex ! 106 = 0x00" "example_dex ! 107 = 0x00"
  "example_dex ! 108 = 0xe0" "example_dex ! 109 = 0x00" "example_dex ! 110 = 0x00" "example_dex ! 111 = 0x00"
  "example_dex ! 112 = 0x28" "example_dex ! 113 = 0x01" "example_dex ! 114 = 0x00" "example_dex ! 115 = 0x00"
  "example_dex ! 116 = 0x2b" "example_dex ! 117 = 0x01" "example_dex ! 118 = 0x00" "example_dex ! 119 = 0x00"
  "example_dex ! 120 = 0x30" "example_dex ! 121 = 0x01" "example_dex ! 122 = 0x00" "example_dex ! 123 = 0x00"
  "example_dex ! 124 = 0x35" "example_dex ! 125 = 0x01" "example_dex ! 126 = 0x00" "example_dex ! 127 = 0x00"
  "example_dex ! 128 = 0x38" "example_dex ! 129 = 0x01" "example_dex ! 130 = 0x00" "example_dex ! 131 = 0x00"
  "example_dex ! 132 = 0x3b" "example_dex ! 133 = 0x01" "example_dex ! 134 = 0x00" "example_dex ! 135 = 0x00"
  "example_dex ! 136 = 0x00" "example_dex ! 137 = 0x00" "example_dex ! 138 = 0x00" "example_dex ! 139 = 0x00"
  "example_dex ! 140 = 0x01" "example_dex ! 141 = 0x00" "example_dex ! 142 = 0x00" "example_dex ! 143 = 0x00"
  "example_dex ! 144 = 0x02" "example_dex ! 145 = 0x00" "example_dex ! 146 = 0x00" "example_dex ! 147 = 0x00"
  "example_dex ! 148 = 0x03" "example_dex ! 149 = 0x00" "example_dex ! 150 = 0x00" "example_dex ! 151 = 0x00"
  "example_dex ! 152 = 0x03" "example_dex ! 153 = 0x00" "example_dex ! 154 = 0x00" "example_dex ! 155 = 0x00"
  "example_dex ! 156 = 0x03" "example_dex ! 157 = 0x00" "example_dex ! 158 = 0x00" "example_dex ! 159 = 0x00"
  "example_dex ! 160 = 0x00" "example_dex ! 161 = 0x00" "example_dex ! 162 = 0x00" "example_dex ! 163 = 0x00"
  "example_dex ! 164 = 0x03" "example_dex ! 165 = 0x00" "example_dex ! 166 = 0x00" "example_dex ! 167 = 0x00"
  "example_dex ! 168 = 0x03" "example_dex ! 169 = 0x00" "example_dex ! 170 = 0x00" "example_dex ! 171 = 0x00"
  "example_dex ! 172 = 0xe0" "example_dex ! 173 = 0x00" "example_dex ! 174 = 0x00" "example_dex ! 175 = 0x00"
  "example_dex ! 176 = 0x01" "example_dex ! 177 = 0x00" "example_dex ! 178 = 0x00" "example_dex ! 179 = 0x00"
  "example_dex ! 180 = 0x04" "example_dex ! 181 = 0x00" "example_dex ! 182 = 0x00" "example_dex ! 183 = 0x00"
  "example_dex ! 184 = 0x01" "example_dex ! 185 = 0x00" "example_dex ! 186 = 0x00" "example_dex ! 187 = 0x00"
  "example_dex ! 188 = 0x05" "example_dex ! 189 = 0x00" "example_dex ! 190 = 0x00" "example_dex ! 191 = 0x00"
  "example_dex ! 192 = 0x01" "example_dex ! 193 = 0x00" "example_dex ! 194 = 0x00" "example_dex ! 195 = 0x00"
  "example_dex ! 196 = 0x01" "example_dex ! 197 = 0x00" "example_dex ! 198 = 0x00" "example_dex ! 199 = 0x00"
  "example_dex ! 200 = 0x02" "example_dex ! 201 = 0x00" "example_dex ! 202 = 0x00" "example_dex ! 203 = 0x00"
  "example_dex ! 204 = 0x00" "example_dex ! 205 = 0x00" "example_dex ! 206 = 0x00" "example_dex ! 207 = 0x00"
  "example_dex ! 208 = 0xff" "example_dex ! 209 = 0xff" "example_dex ! 210 = 0xff" "example_dex ! 211 = 0xff"
  "example_dex ! 212 = 0xe8" "example_dex ! 213 = 0x00" "example_dex ! 214 = 0x00" "example_dex ! 215 = 0x00"
  "example_dex ! 216 = 0x47" "example_dex ! 217 = 0x01" "example_dex ! 218 = 0x00" "example_dex ! 219 = 0x00"
  "example_dex ! 220 = 0x44" "example_dex ! 221 = 0x01" "example_dex ! 222 = 0x00" "example_dex ! 223 = 0x00"
  "example_dex ! 224 = 0x01" "example_dex ! 225 = 0x00" "example_dex ! 226 = 0x00" "example_dex ! 227 = 0x00"
  "example_dex ! 228 = 0x00" "example_dex ! 229 = 0x00" "example_dex ! 230 = 0x00" "example_dex ! 231 = 0x00"
  "example_dex ! 232 = 0xf8" "example_dex ! 233 = 0x00" "example_dex ! 234 = 0x00" "example_dex ! 235 = 0x00"
  "example_dex ! 236 = 0x00" "example_dex ! 237 = 0x00" "example_dex ! 238 = 0x00" "example_dex ! 239 = 0x00"
  "example_dex ! 240 = 0x00" "example_dex ! 241 = 0x00" "example_dex ! 242 = 0x00" "example_dex ! 243 = 0x00"
  "example_dex ! 244 = 0x00" "example_dex ! 245 = 0x00" "example_dex ! 246 = 0x00" "example_dex ! 247 = 0x00"
  "example_dex ! 248 = 0x01" "example_dex ! 249 = 0x00" "example_dex ! 250 = 0x00" "example_dex ! 251 = 0x00"
  "example_dex ! 252 = 0x3e" "example_dex ! 253 = 0x01" "example_dex ! 254 = 0x00" "example_dex ! 255 = 0x00"
  "example_dex ! 256 = 0x01" "example_dex ! 257 = 0x00" "example_dex ! 258 = 0x00" "example_dex ! 259 = 0x00"
  "example_dex ! 260 = 0x00" "example_dex ! 261 = 0x00" "example_dex ! 262 = 0x01" "example_dex ! 263 = 0x00"
  "example_dex ! 264 = 0x00" "example_dex ! 265 = 0x00" "example_dex ! 266 = 0x00" "example_dex ! 267 = 0x00"
  "example_dex ! 268 = 0x06" "example_dex ! 269 = 0x00" "example_dex ! 270 = 0x00" "example_dex ! 271 = 0x00"
  "example_dex ! 272 = 0x12" "example_dex ! 273 = 0x10" "example_dex ! 274 = 0x38" "example_dex ! 275 = 0x00"
  "example_dex ! 276 = 0x04" "example_dex ! 277 = 0x00" "example_dex ! 278 = 0x1a" "example_dex ! 279 = 0x00"
  "example_dex ! 280 = 0x04" "example_dex ! 281 = 0x00" "example_dex ! 282 = 0x0e" "example_dex ! 283 = 0x00"
  "example_dex ! 284 = 0x00" "example_dex ! 285 = 0x00" "example_dex ! 286 = 0x00" "example_dex ! 287 = 0x00"
  "example_dex ! 288 = 0x03" "example_dex ! 289 = 0x00" "example_dex ! 290 = 0x01" "example_dex ! 291 = 0x00"
  "example_dex ! 292 = 0x01" "example_dex ! 293 = 0x01" "example_dex ! 294 = 0x02" "example_dex ! 295 = 0x05"
  "example_dex ! 296 = 0x01" "example_dex ! 297 = 0x49" "example_dex ! 298 = 0x00" "example_dex ! 299 = 0x03"
  "example_dex ! 300 = 0x4c" "example_dex ! 301 = 0x41" "example_dex ! 302 = 0x3b" "example_dex ! 303 = 0x00"
  "example_dex ! 304 = 0x03" "example_dex ! 305 = 0x4c" "example_dex ! 306 = 0x4f" "example_dex ! 307 = 0x3b"
  "example_dex ! 308 = 0x00" "example_dex ! 309 = 0x01" "example_dex ! 310 = 0x56" "example_dex ! 311 = 0x00"
  "example_dex ! 312 = 0x01" "example_dex ! 313 = 0x66" "example_dex ! 314 = 0x00" "example_dex ! 315 = 0x01"
  "example_dex ! 316 = 0x6d" "example_dex ! 317 = 0x00" "example_dex ! 318 = 0x01" "example_dex ! 319 = 0x02"
  "example_dex ! 320 = 0x01" "example_dex ! 321 = 0x04" "example_dex ! 322 = 0x04" "example_dex ! 323 = 0x07"
  "example_dex ! 324 = 0x01" "example_dex ! 325 = 0x04" "example_dex ! 326 = 0x05" "example_dex ! 327 = 0x01"
  "example_dex ! 328 = 0x00" "example_dex ! 329 = 0x01" "example_dex ! 330 = 0x00" "example_dex ! 331 = 0x00"
  "example_dex ! 332 = 0x08" "example_dex ! 333 = 0x00" "example_dex ! 334 = 0x09" "example_dex ! 335 = 0x80"
  "example_dex ! 336 = 0x02" "example_dex ! 337 = 0x00" "example_dex ! 338 = 0x00" "example_dex ! 339 = 0x00"
  "example_dex ! 340 = 0x08" "example_dex ! 341 = 0x00" "example_dex ! 342 = 0x00" "example_dex ! 343 = 0x00"
  "example_dex ! 344 = 0x00" "example_dex ! 345 = 0x00" "example_dex ! 346 = 0x00" "example_dex ! 347 = 0x00"
  "example_dex ! 348 = 0x01" "example_dex ! 349 = 0x00" "example_dex ! 350 = 0x00" "example_dex ! 351 = 0x00"
  "example_dex ! 352 = 0x00" "example_dex ! 353 = 0x00" "example_dex ! 354 = 0x00" "example_dex ! 355 = 0x00"
  "example_dex ! 356 = 0x01" "example_dex ! 357 = 0x00" "example_dex ! 358 = 0x00" "example_dex ! 359 = 0x00"
  "example_dex ! 360 = 0x06" "example_dex ! 361 = 0x00" "example_dex ! 362 = 0x00" "example_dex ! 363 = 0x00"
  "example_dex ! 364 = 0x70" "example_dex ! 365 = 0x00" "example_dex ! 366 = 0x00" "example_dex ! 367 = 0x00"
  "example_dex ! 368 = 0x02" "example_dex ! 369 = 0x00" "example_dex ! 370 = 0x00" "example_dex ! 371 = 0x00"
  "example_dex ! 372 = 0x04" "example_dex ! 373 = 0x00" "example_dex ! 374 = 0x00" "example_dex ! 375 = 0x00"
  "example_dex ! 376 = 0x88" "example_dex ! 377 = 0x00" "example_dex ! 378 = 0x00" "example_dex ! 379 = 0x00"
  "example_dex ! 380 = 0x03" "example_dex ! 381 = 0x00" "example_dex ! 382 = 0x00" "example_dex ! 383 = 0x00"
  "example_dex ! 384 = 0x02" "example_dex ! 385 = 0x00" "example_dex ! 386 = 0x00" "example_dex ! 387 = 0x00"
  "example_dex ! 388 = 0x98" "example_dex ! 389 = 0x00" "example_dex ! 390 = 0x00" "example_dex ! 391 = 0x00"
  "example_dex ! 392 = 0x04" "example_dex ! 393 = 0x00" "example_dex ! 394 = 0x00" "example_dex ! 395 = 0x00"
  "example_dex ! 396 = 0x01" "example_dex ! 397 = 0x00" "example_dex ! 398 = 0x00" "example_dex ! 399 = 0x00"
  "example_dex ! 400 = 0xb0" "example_dex ! 401 = 0x00" "example_dex ! 402 = 0x00" "example_dex ! 403 = 0x00"
  "example_dex ! 404 = 0x05" "example_dex ! 405 = 0x00" "example_dex ! 406 = 0x00" "example_dex ! 407 = 0x00"
  "example_dex ! 408 = 0x01" "example_dex ! 409 = 0x00" "example_dex ! 410 = 0x00" "example_dex ! 411 = 0x00"
  "example_dex ! 412 = 0xb8" "example_dex ! 413 = 0x00" "example_dex ! 414 = 0x00" "example_dex ! 415 = 0x00"
  "example_dex ! 416 = 0x06" "example_dex ! 417 = 0x00" "example_dex ! 418 = 0x00" "example_dex ! 419 = 0x00"
  "example_dex ! 420 = 0x01" "example_dex ! 421 = 0x00" "example_dex ! 422 = 0x00" "example_dex ! 423 = 0x00"
  "example_dex ! 424 = 0xc0" "example_dex ! 425 = 0x00" "example_dex ! 426 = 0x00" "example_dex ! 427 = 0x00"
  "example_dex ! 428 = 0x00" "example_dex ! 429 = 0x10" "example_dex ! 430 = 0x00" "example_dex ! 431 = 0x00"
  "example_dex ! 432 = 0x01" "example_dex ! 433 = 0x00" "example_dex ! 434 = 0x00" "example_dex ! 435 = 0x00"
  "example_dex ! 436 = 0x54" "example_dex ! 437 = 0x01" "example_dex ! 438 = 0x00" "example_dex ! 439 = 0x00"
  by (simp_all add: example_dex_def)

lemma example_magic: "take 8 example_dex = [0x64, 0x65, 0x78, 0x0a, 0x30, 0x33, 0x35, 0]"
  by (simp add: example_dex_def)

lemmas example_reads = rd_u1_def rd_u2_def rd_u4_def u2_at_def u4_at_def byte_at_def length_example_dex example_nth

definition example_hdr :: dex_header where
  "example_hdr = \<lparr>hdr_off = 0, magic = [0x64, 0x65, 0x78, 0x0a, 0x30, 0x33, 0x35, 0],
     checksum = 0, file_size = 440, header_size = 112, endian_tag = 305419896, link_size = 0, link_off
     = 0, map_off = 340, string_ids_size = 6, string_ids_off = 112, type_ids_size = 4, type_ids_off =
     136, proto_ids_size = 2, proto_ids_off = 152, field_ids_size = 1, field_ids_off = 176,
     method_ids_size = 1, method_ids_off = 184, class_defs_size = 1, class_defs_off = 192, data_size =
     216, data_off = 224\<rparr>"

lemma example_header: "header_at example_dex 0 = example_hdr"
  by (simp add: header_at_def example_hdr_def example_magic u4_at_def byte_at_def example_nth)

definition example_ctx :: vctx where
  "example_ctx = \<lparr>v_img = example_dex, v_hdr = example_hdr, v_begin = 0, v_size = 440, v_insns = True,
     v_mh_count = 0\<rparr>"

lemma example_ctx_simps [simp]:
  "v_img example_ctx = example_dex" "v_hdr example_ctx = example_hdr" "v_begin example_ctx = 0"
  "v_size example_ctx = 440" "v_insns example_ctx" "v_mh_count example_ctx = 0"
  "end_of_file example_ctx = 440" "offset_to_ptr example_ctx = (\<lambda>p. p)"
  by (simp_all add: example_ctx_def end_of_file_def offset_to_ptr_def fun_eq_iff)

lemma example_ctx_ok: "vctx_ok example_ctx"
  by (simp add: vctx_ok_def length_example_dex)

end
