(* ===== verification/Example_Run.thy ===== *)
theory Example_Run
  imports Verify_Dex Example_Dex
begin

text \<open>
  The verifier run on the example image, phase by phase, by rewriting with the definitions; and
  the theorems of the component theories applied to it.
\<close>

section \<open>Header and map\<close>

lemma example_range: "ComputeDataRange example_dex example_hdr True = Inr example_ctx"
  by (simp add: ComputeDataRange_def example_ctx_def example_hdr_def length_example_dex layout)

lemma example_CheckHeader: "CheckHeader example_ctx = Inr ()"
  by (simp add: CheckHeader_def check_header_ident_def check_header_sections_def check_table_def
     check_size_limit_def GetVersion_035 check_valid_offset_and_size_def check_list_size_def example_hdr_def length_example_dex layout)

lemma example_map_items:
  "rd_map_item example_dex 344 = Inr \<lparr>mi_type = 0, mi_size = 1, mi_offset = 0\<rparr>"
  "rd_map_item example_dex 356 = Inr \<lparr>mi_type = Suc 0, mi_size = 6, mi_offset = 112\<rparr>"
  "rd_map_item example_dex 368 = Inr \<lparr>mi_type = 2, mi_size = 4, mi_offset = 136\<rparr>"
  "rd_map_item example_dex 380 = Inr \<lparr>mi_type = 3, mi_size = 2, mi_offset = 152\<rparr>"
  "rd_map_item example_dex 392 = Inr \<lparr>mi_type = 4, mi_size = 1, mi_offset = 176\<rparr>"
  "rd_map_item example_dex 404 = Inr \<lparr>mi_type = 5, mi_size = 1, mi_offset = 184\<rparr>"
  "rd_map_item example_dex 416 = Inr \<lparr>mi_type = 6, mi_size = 1, mi_offset = 192\<rparr>"
  "rd_map_item example_dex 428 = Inr \<lparr>mi_type = 4096, mi_size = 1, mi_offset = 340\<rparr>"
  by (simp_all add: rd_map_item_def example_reads layout)

lemma example_masks:
  "MapTypeToBitMask 0 = 1" "MapTypeToBitMask (Suc 0) = 2" "MapTypeToBitMask 2 = 4" "MapTypeToBitMask 3 = 8"
  "MapTypeToBitMask 4 = 16" "MapTypeToBitMask 5 = 32" "MapTypeToBitMask 6 = 64" "MapTypeToBitMask 4096 = 512"
  by (simp_all add: MapTypeToBitMask_def map_types MapTypes_def)

lemma example_mh: "example_ctx\<lparr>v_mh_count := 0\<rparr> = example_ctx"
  by (simp add: example_ctx_def)

lemma example_CheckMap: "CheckMap example_ctx st = Inr (example_ctx, st)"
  by (simp add: CheckMap_def check_list_size_def example_hdr_def example_map_items example_masks
     for_range_step map_item_step_def check_map_item_def IsDataSectionType_def map_types map_item_align_def
     map_item_entry_def require_sections_def require_section_def layout rd_u4_def u4_at_def byte_at_def length_example_dex example_nth Let_def example_mh)

section \<open>Items\<close>

lemma example_uleb:
  "p < 440 \<Longrightarrow> example_dex ! p AND 0x80 = 0 \<Longrightarrow> uleb example_ctx p m = Inr (unat (ucast (example_dex ! p AND 0x7f) :: 32 word), Suc p)"
  by (simp add: uleb_def or_reject_def read_uleb_def uleb_from.simps [of _ 0] rd_u1_def length_example_dex)

lemma example_uleb2:
  "Suc p < 440 \<Longrightarrow> example_dex ! p AND 0x80 \<noteq> 0 \<Longrightarrow> example_dex ! Suc p AND 0x80 = 0 \<Longrightarrow> uleb example_ctx p m = Inr (unat (ucast (example_dex ! p AND 0x7f) OR push_bit 7 (ucast (example_dex ! Suc p AND 0x7f) :: 32 word)), Suc (Suc p))"
  by (simp add: uleb_def or_reject_def read_uleb_def uleb_from.simps [of _ 0] uleb_from.simps [of _ "Suc 0"] rd_u1_def length_example_dex)

lemma example_strings: "VerifyStringData example_ctx 296 = Inr ()"
  "VerifyStringData example_ctx 299 = Inr ()" "VerifyStringData example_ctx 304 = Inr ()"
  "VerifyStringData example_ctx 309 = Inr ()" "VerifyStringData example_ctx 312 = Inr ()"
  "VerifyStringData example_ctx 315 = Inr ()"
  by (simp_all add: VerifyStringData_def example_uleb example_nth VerifyMutf8_def mutf8_loop.simps [of example_ctx] rd_u1_def length_example_dex)

lemma example_tl: "VerifyTypeList example_ctx 224 who = Inr ()"
  by (simp add: VerifyTypeList_def check_list_size_def layout example_reads for_each_def for_range_step example_hdr_def)
lemma example_rows:
  "gInstructionDescriptors ! 14 = IDescr 0 k10x kIndexNone kReturn"
  "gInstructionDescriptors ! 18 = IDescr 1 k11n kIndexNone kContinue"
  "gInstructionDescriptors ! 26 = IDescr 0x41 k21c kIndexStringRef (kContinue OR kThrow)"
  "gInstructionDescriptors ! 56 = IDescr 0x8001 k21t kIndexNone (kContinue OR kBranch)"
  by (simp_all add: gInstructionDescriptors_def nth_append descr_0x_def descr_1x_def descr_3x_def descr_2x_def vflag)

lemma example_decode:
  "GetWidthFromBytecode example_dex 272 = Inr (Suc 0)"
  "GetWidthFromBytecode example_dex 274 = Inr 2"
  "GetWidthFromBytecode example_dex 278 = Inr 2"
  "GetWidthFromBytecode example_dex 282 = Inr (Suc 0)"
  by (simp_all add: GetWidthFromBytecode_def rd_unit_def unit_at_def example_reads OpcodeFromBytecode_def GetFormatFromOpcode_def example_rows
    GetWidthFromFormat.simps vflag)

lemma example_insns: "VerifyInsns example_ctx 272 6 1 = Inr ()"
  by (simp add: VerifyInsns_def verify_insns_from.simps [of example_ctx] rd_unit_def unit_at_def example_reads header_units_def vflag example_decode is_payload_def
     verify_insn_def DecodeInstruction_def OpcodeFromBytecode_def GetFormatFromOpcode_def GetVerifyFlagsFromOpcode_def GetIndexTypeFromOpcode_def example_rows
     verify_registers_def has_flag_def verify_indexes_def index_operand_def verify_target_def branch_offset_def empty_instruction_def InstA_def InstB_def InstAA_def sext4_def s2_def example_hdr_def Let_def)

lemma example_sleb:
  "sleb example_ctx 293 m = Inr (1, 294)"
  by (simp add: sleb_def or_reject_def read_sleb_def sleb_from.simps [of _ 0] rd_u1_def length_example_dex example_nth)

lemma example_code: "VerifyCodeItem example_ctx 256 = Inr ()"
  by (simp add: VerifyCodeItem_def check_list_size_def layout rd_code_def example_reads example_insns [simplified] check_tries_def
     handler_list_def example_uleb for_range_step encoded_handler_def example_sleb handler_pair_def example_hdr_def check_try_def rd_try_block_def)

lemma example_values: "VerifyEncodedArrayAt example_ctx 324 = Inr ()"
  by (simp add: VerifyEncodedArrayAt_def example_uleb example_nth VerifyEncodedValue.simps [of example_ctx] kMaxDepth_def rd_u1_def length_example_dex encoded_leaf_def skip_payload_def)

lemma example_item: "318 \<notin> seen_item s \<Longrightarrow> VerifyAnnotationItem example_ctx 318 s = Inr (s\<lparr>seen_item := insert 318 (seen_item s)\<rparr>)"
  by (simp add: VerifyAnnotationItem_def annotation_item_body_def check_list_size_def rd_u1_def length_example_dex example_nth kVisibilityRuntime_def
    VerifyEncodedAnnotation_def annotation_head_def example_uleb example_hdr_def numeral_eq_Suc [of "num.One"] element_name_def VerifyEncodedValue.simps [of example_ctx] kMaxDepth_def encoded_leaf_def skip_payload_def)

lemma example_dir: "VerifyAnnotationsDirectory example_ctx 232 no_ann_seen = Inr \<lparr>seen_dir = {232}, seen_set = {248}, seen_ref = {}, seen_item = {318}\<rparr>"
  by (simp add: VerifyAnnotationsDirectory_def annotations_directory_body_def AnnotationStructAt_def check_list_size_def no_ann_seen_def layout rd_annotations_directory_def
    example_reads VerifyAnnotationSet_def annotation_set_body_def for_range_step set_entry_def example_item [simplified] member_list_def)

lemma example_class: "VerifyClassData example_ctx 327 = Inr ()" "CheckClassDataDefiners example_ctx 327 (Suc 0) = Inr ()"
  by (simp_all add: VerifyClassData_def CheckClassDataDefiners_def class_data_counts_def example_uleb example_nth member_lists_def for_range_step
    class_data_field_def class_data_method_def example_uleb2 example_hdr_def example_code [simplified] definer_field_def definer_method_def
    rd_field_id_def rd_method_id_def field_id_pos_def method_id_pos_def member_id_at_def u2_at_def u4_at_def byte_at_def layout length_example_dex)

lemma example_intra: "CheckIntraSection example_ctx = Inr ()"
  by (simp add: CheckIntraSection_def for_each_def for_range_step example_hdr_def intra_string_def rd_string_id_def layout example_reads example_strings
    intra_type_def type_id_pos_def intra_proto_def proto_id_pos_def rd_proto_id_def proto_id_at_def example_tl VerifyTypeList_def [of _ 0]
    intra_field_def field_id_pos_def rd_field_id_def member_id_at_def intra_method_def method_id_pos_def rd_method_id_def
    intra_class_def_def class_def_pos_def rd_class_def_def class_def_at_def example_class example_values example_dir)

lemma example_content:
  "StringContent example_ctx 0 = Inr 297" "StringContent example_ctx (Suc 0) = Inr 300" "StringContent example_ctx 2 = Inr 305"
  "StringContent example_ctx 3 = Inr 310" "StringContent example_ctx 4 = Inr 313" "StringContent example_ctx 5 = Inr 316"
  by (simp_all add: StringContent_def rd_string_id_def layout example_hdr_def example_reads skip_uleb.simps [of example_dex])

lemma example_parts:
  "IsValidPart example_dex 301 = Inr (True, 302)" "IsValidPart example_dex 306 = Inr (True, 307)"
  "IsValidPart example_dex 313 = Inr (True, 314)" "IsValidPart example_dex 316 = Inr (True, 317)"
  by (simp_all add: IsValidPart_def example_reads kMemberValidLowAscii_def)

lemma example_descriptors:
  "IsValidDescriptor example_dex 297 = Inr True" "IsValidDescriptor example_dex 300 = Inr True"
  "IsValidDescriptor example_dex 305 = Inr True" "IsValidDescriptor example_dex 310 = Inr True"
  by (simp_all add: IsValidDescriptor_def skip_brackets.simps [of example_dex] primitive_chars_def example_reads class_name_from.simps [of example_dex] example_parts)

lemma example_names:
  "IsValidMemberName example_dex 313 = Inr True" "IsValidMemberName example_dex 316 = Inr True"
  by (simp_all add: IsValidMemberName_def example_reads member_name_from.simps [of example_dex] example_parts)

lemma example_order: "check_string_order example_ctx = Inr []"
  by (simp add: check_string_order_def example_hdr_def for_range_step string_pair_def compare_strings_def numeral_2_eq_2 [symmetric]
    example_content CompareUtf16.simps [of example_dex] GetUtf16FromUtf8_def GetLeadingUtf16Char_def Let_def example_reads)

lemma example_type:
  "VerifyTypeDescriptor example_ctx 0 e p = (if p 0x49 then Inr () else fail e)"
  "VerifyTypeDescriptor example_ctx (Suc 0) e p = (if p 0x4c then Inr () else fail e)"
  "VerifyTypeDescriptor example_ctx 2 e p = (if p 0x4c then Inr () else fail e)"
  "VerifyTypeDescriptor example_ctx 3 e p = (if p 0x56 then Inr () else fail e)"
  by (simp_all add: VerifyTypeDescriptor_def TypeDesc_def type_id_pos_def example_hdr_def layout example_reads example_content example_descriptors)

lemma example_inter_types: "for_each 0 4 (inter_type example_ctx) = Inr ()"
  by (simp add: for_each_def for_range_step inter_type_def example_type numeral_2_eq_2 [symmetric] numeral_3_eq_3 [symmetric] type_id_pos_def example_hdr_def layout example_reads)

lemma example_inter_rows: "for_each 1 2 (inter_proto example_ctx) = Inr ()"
  "inter_field example_ctx 0 = Inr ()" "inter_method example_ctx 0 = Inr ()"
  by (simp_all add: for_each_def for_range_step inter_proto_def proto_id_pos_def rd_proto_id_def proto_id_at_def
    example_hdr_def layout example_reads proto_params_size_def proto_args_from.simps [of example_ctx]
    inter_field_def inter_method_def field_id_pos_def method_id_pos_def rd_field_id_def rd_method_id_def member_id_at_def example_type member_name_valid_def example_content example_names)

lemma replicate_4: "replicate 4 x = [x, x, x, x]"
  by (simp add: numeral_eq_Suc)

lemma example_classes: "VerifyClassDefs example_ctx = Inr ()"
  by (simp add: VerifyClassDefs_def for_range_step inter_class_def_def class_def_pos_def rd_class_def_def class_def_at_def example_hdr_def layout example_reads
    example_type vec_get_def vec_set_def check_superclass_def check_interfaces_def example_class kNotDefined_def replicate_4)

lemma example_inter: "CheckInterSection example_ctx = Inr []"
  using example_inter_types example_inter_rows example_classes example_order
  by (simp add: CheckInterSection_def example_hdr_def for_each_def for_range_step)

lemma example_verify:
  "VerifyDex example_dex True 0 fresh_img_state =
     Inr (\<lparr>vr_ok = True, vr_reason = [], vr_deviations = []\<rparr>, \<lparr>walked = [], entries_left = 56\<rparr>)"
  using example_range example_CheckHeader example_CheckMap example_intra example_inter
  by (simp add: VerifyDex_def Verify_def rd_header_def length_example_dex example_header layout
      seed_img_state_def fresh_img_state_def)

section \<open>Facts for the witnesses\<close>

lemma example_tables_ok: "tables_ok example_ctx"
  by (simp add: tables_ok_def table_ok_def example_hdr_def)

lemma example_inter_pre: "inter_pre example_ctx"
  using wp_InrD [OF wp_CheckIntraSection [OF example_ctx_ok example_tables_ok] example_intra]
  by (simp add: inter_pre_def example_ctx_ok example_tables_ok)

lemma example_class_loop:
  "for_range 0 1 (inter_class_def example_ctx) (replicate 4 kNotDefined) = Inr [kNotDefined, 0, kNotDefined, kNotDefined]"
  by (simp add: for_range_step inter_class_def_def class_def_pos_def rd_class_def_def class_def_at_def
      example_hdr_def layout example_reads example_type vec_get_def vec_set_def check_superclass_def
      check_interfaces_def example_class kNotDefined_def replicate_4)

lemma example_proto: "inter_proto example_ctx 1 = Inr ()"
  using example_inter_rows(1) by (simp add: for_each_Inr_iff)

lemma example_value: "VerifyEncodedValue example_ctx 0 325 = Inr 327"
  by (simp add: example_nth VerifyEncodedValue.simps [of example_ctx] kMaxDepth_def rd_u1_def
      length_example_dex encoded_leaf_def skip_payload_def)

lemma example_dirs_sound: "dirs_sound example_ctx no_ann_seen"
  by (simp add: dirs_sound_def refs_sound_def sets_sound_def items_sound_def no_ann_seen_def example_ctx_ok)

lemma example_mutf8: "VerifyMutf8 example_ctx 300 3 = Inr ()"
  by (simp add: VerifyMutf8_def mutf8_loop.simps [of example_ctx] rd_u1_def length_example_dex example_nth)

lemma example_uleb_value: "read_uleb example_ctx 335 = Inr (Some (256, 337))"
  by (simp add: read_uleb_def uleb_from.simps [of _ 0] uleb_from.simps [of _ "Suc 0"] rd_u1_def
      length_example_dex example_nth)

section \<open>Witnesses\<close>

theorem verify_dex_sound_witness:
  "VerifyDex example_dex True 0 fresh_img_state =
     Inr (\<lparr>vr_ok = True, vr_reason = [], vr_deviations = []\<rparr>, \<lparr>walked = [], entries_left = 56\<rparr>) \<and>
   (\<exists>c. dex_valid example_dex 0 True [] c)"
  using verify_dex_sound [OF example_verify] example_verify by simp

theorem string_order_verdict_witness:
  "inter_pre example_ctx \<and> strings_sorted example_ctx"
  using string_order_verdict [OF example_inter_pre] example_order example_inter_pre
  by (auto simp: fail_def split: if_splits)

theorem code_item_sound_witness:
  "VerifyCodeItem example_ctx 256 = Inr () \<and> code_item_ok example_ctx 256"
  using wp_InrD [OF code_item_sound [OF example_ctx_ok] example_code] example_code by simp


theorem intra_section_sound_witness:
  "CheckIntraSection example_ctx = Inr () \<and> intra_ok example_ctx"
  using wp_InrD [OF intra_section_sound [OF example_ctx_ok example_tables_ok] example_intra] example_intra
  by simp

theorem class_defs_sound_witness:
  "VerifyClassDefs example_ctx = Inr () \<and> classes_inter_ok example_ctx 1"
  using wp_InrD [OF class_defs_sound [OF example_inter_pre] example_classes] example_classes
  by (simp add: example_hdr_def)

theorem encoded_value_sound_witness:
  "VerifyEncodedValue example_ctx 0 325 = Inr 327 \<and> ev_accepted example_ctx 0 325 327"
  using wp_InrD [OF encoded_value_sound [OF example_ctx_ok] example_value] example_value by simp


theorem header_sound_witness:
  "ComputeDataRange example_dex example_hdr True = Inr example_ctx \<and> tables_ok example_ctx"
  using wp_InrD [OF header_sound [of 0 example_dex True], of example_ctx] example_range example_CheckHeader
  by (simp add: example_header length_example_dex layout)

theorem class_data_sound_witness:
  "VerifyClassData example_ctx 327 = Inr () \<and> (\<exists>m. class_data_at example_dex 327 m)"
  using wp_InrD [OF class_data_sound [OF example_ctx_ok example_tables_ok, of 327 1], of "()"] example_class
  by auto

theorem annotations_sound_witness:
  "dirs_sound example_ctx no_ann_seen \<and> annotations_directory_ok example_ctx 232"
  using wp_InrD [OF annotations_sound [OF example_dirs_sound] example_dir] example_dirs_sound by simp

theorem id_rows_verdict_witness:
  "inter_pre example_ctx \<and> proto_inter_ok example_ctx 1 \<and> field_inter_ok example_ctx 0"
  using id_rows_verdict [OF example_inter_pre, THEN conjunct2, THEN conjunct1, rule_format, of 1]
    id_rows_verdict [OF example_inter_pre, THEN conjunct2, THEN conjunct2, THEN conjunct1, rule_format, of 0]
    example_inter_pre example_inter_rows(2) example_proto
  by (simp add: example_hdr_def decides_def fail_def split: if_splits)

theorem fresh_handles_checked_witness:
  "\<exists>c. dex_valid example_dex 0 True [] c \<and> handle_section_ok c (map_list c (map_count c))"
  using fresh_handles_checked [OF example_verify] by simp

theorem superclass_order_check_dead_witness:
  "\<not> ([kNotDefined, 0, kNotDefined, kNotDefined] ! 1 \<noteq> kNotDefined \<and>
      [kNotDefined, 0, kNotDefined, kNotDefined] ! 1 > (1 :: nat))"
  using superclass_order_check_dead [OF example_class_loop, of 1] by simp

theorem string_data_verdict_witness:
  "VerifyMutf8 example_ctx 300 3 = Inr () \<and> str_ok (range_img example_ctx) 300"
  using string_data_verdict [OF example_ctx_ok, of 300 3] example_mutf8 by simp

theorem uleb_value_witness:
  "read_uleb example_ctx 335 = Inr (Some (256, 337)) \<and> uleb_at example_dex 335 256 337"
  using wp_InrD [OF uleb_value [OF example_ctx_ok] example_uleb_value] example_uleb_value by simp

theorem handle_memo_sound_witness:
  "VerifyMethodHandleSection slice_a 0 1 seeded = Inr walked_a \<and> handle_ok slice_a 0 0"
  using handle_memo_sound [OF slice_a_good(1), of seeded walked_a] slice_walks(1)
  by (simp add: slice_a_good memo_sound_def [of _ _ seeded]) (simp add: seeded_def)

theorem disjoint_sections_in_budget_witness:
  "disjoint_sections two_slices [(slice_a, 0, 1), (slice_b, 0, 1)] \<and>
   1 \<le> entries_left (seed_img_state two_slices (walk_sections two_slices [(slice_a, 0, 1)] fresh_img_state))"
  using disjoint_sections_in_budget [of two_slices "[(slice_a, 0, 1)]" slice_b 0 1]
  by (simp add: disjoint_sections_def slice_a_good [simplified] section_bytes_def)

theorem decode_within_width_witness: "wp (DecodeInstruction example_dex 272) (\<lambda>d. length (arg d) = 5)"
  by (rule decode_within_width)
    (simp add: unit_at_def example_reads OpcodeFromBytecode_def GetFormatFromOpcode_def example_rows
      GetWidthFromFormat.simps)

end
