(* ===== verification/Mutf8_Codec.thy ===== *)
theory Mutf8_Codec
  imports Descriptors
begin

text \<open>
  The text codec of the decompiler (\<open>src/native/dad_cpp/mutf8.cpp\<close>): pool strings in modified
  UTF-8 are decoded to UTF-16 units, units are encoded as UTF-8, and query strings go back from
  UTF-8 to modified UTF-8. Unlike the verifier's reader, the reader here is length-delimited
  and total: every byte string has a decoding. The definitions follow the file's order; the
  facts about them are in \<open>Mutf8_Roundtrip\<close>.
\<close>

section \<open>One sequence\<close>

definition mutf8_trailing :: "32 word \<Rightarrow> 16 word" where
  "mutf8_trailing maybe_pair = ucast (drop_bit 16 maybe_pair)"

definition mutf8_leading :: "32 word \<Rightarrow> 16 word" where
  "mutf8_leading maybe_pair = ucast (maybe_pair AND 0x0000FFFF)"

text \<open>\<open>one\<close> is the byte already consumed; the second component is where the cursor ends.\<close>

definition mutf8_next :: "8 word \<Rightarrow> 8 word list \<Rightarrow> 32 word \<times> 8 word list" where
  "mutf8_next one r1 =
     (if one AND 0x80 = 0 then (ucast one, r1)
      else case r1 of
        [] \<Rightarrow> (ucast one, r1)
      | two # r2 \<Rightarrow>
        if \<not> is_cont two then (ucast one, r1)
        else if one AND 0x20 = 0
        then (push_bit 6 (ucast (one AND 0x1f)) OR ucast (two AND 0x3f), r2)
        else case r2 of
          [] \<Rightarrow> (ucast one, r2)
        | three # r3 \<Rightarrow>
          if \<not> is_cont three then (ucast one, r2)
          else if one AND 0x10 = 0
          then (push_bit 12 (ucast (one AND 0x0f)) OR push_bit 6 (ucast (two AND 0x3f))
                 OR ucast (three AND 0x3f), r3)
          else case r3 of
            [] \<Rightarrow> (ucast one, r3)
          | four # r4 \<Rightarrow>
            if \<not> is_cont four then (ucast one, r3)
            else
              let code_point = push_bit 18 (ucast (one AND 0x0f)) OR push_bit 12 (ucast (two AND 0x3f))
                    OR push_bit 6 (ucast (three AND 0x3f)) OR (ucast (four AND 0x3f) :: 32 word);
                  lead = (drop_bit 10 code_point + 0xd7c0) AND 0xffff;
                  trail = push_bit 16 ((code_point AND 0x03ff) + 0xdc00)
              in (lead OR trail, r4))"

lemma mutf8_next_shorter: "mutf8_next b r = (c, r') \<Longrightarrow> length r' \<le> length r"
  by (auto simp: mutf8_next_def Let_def split: if_splits list.splits)

function Mutf8ToUtf16 :: "8 word list \<Rightarrow> 16 word list" where
  "Mutf8ToUtf16 [] = []"
| "Mutf8ToUtf16 (b # bs) =
     (case mutf8_next b bs of (ch, rest) \<Rightarrow>
        mutf8_leading ch
          # (if mutf8_trailing ch \<noteq> 0 then mutf8_trailing ch # Mutf8ToUtf16 rest
             else Mutf8ToUtf16 rest))"
  by pat_completeness auto
termination
  by (relation "measure length") (auto dest!: mutf8_next_shorter [OF sym] simp: less_Suc_eq_le)

section \<open>UTF-8 output\<close>

definition AppendUtf8Bmp :: "32 word \<Rightarrow> 8 word list" where
  "AppendUtf8Bmp cp =
     (if cp < 0x80 then [ucast cp]
      else if cp < 0x800 then [ucast (0xC0 OR drop_bit 6 cp), ucast (0x80 OR (cp AND 0x3F))]
      else [ucast (0xE0 OR drop_bit 12 cp), ucast (0x80 OR (drop_bit 6 cp AND 0x3F)),
            ucast (0x80 OR (cp AND 0x3F))])"

definition AppendUtf8Astral :: "32 word \<Rightarrow> 8 word list" where
  "AppendUtf8Astral cp =
     [ucast (0xF0 OR drop_bit 18 cp), ucast (0x80 OR (drop_bit 12 cp AND 0x3F)),
      ucast (0x80 OR (drop_bit 6 cp AND 0x3F)), ucast (0x80 OR (cp AND 0x3F))]"

definition surrogate_pair :: "16 word \<Rightarrow> 16 word \<Rightarrow> bool" where
  "surrogate_pair u v \<longleftrightarrow> u \<ge> 0xD800 \<and> u \<le> 0xDBFF \<and> v \<ge> 0xDC00 \<and> v \<le> 0xDFFF"

definition pair_code_point :: "16 word \<Rightarrow> 16 word \<Rightarrow> 32 word" where
  "pair_code_point u v = 0x10000 + push_bit 10 (ucast u - 0xD800) + (ucast v - 0xDC00)"

fun Utf16ToUtf8 :: "16 word list \<Rightarrow> 8 word list" where
  "Utf16ToUtf8 [] = []"
| "Utf16ToUtf8 [u] = AppendUtf8Bmp (ucast u)"
| "Utf16ToUtf8 (u # v # us) =
     (if surrogate_pair u v then AppendUtf8Astral (pair_code_point u v) @ Utf16ToUtf8 us
      else AppendUtf8Bmp (ucast u) @ Utf16ToUtf8 (v # us))"

definition Mutf8ToUtf8 :: "8 word list \<Rightarrow> 8 word list" where
  "Mutf8ToUtf8 raw = Utf16ToUtf8 (Mutf8ToUtf16 raw)"

section \<open>The lossy decoder of the binding boundary\<close>

definition emit_cp :: "32 word \<Rightarrow> 8 word list" where
  "emit_cp cp0 =
     (let cp = (if (cp0 \<ge> 0xD800 \<and> cp0 \<le> 0xDFFF) \<or> cp0 > 0x10FFFF then 0xFFFD else cp0)
      in if cp < 0x10000 then AppendUtf8Bmp cp else AppendUtf8Astral cp)"

text \<open>The lead byte: its payload bits and how many bytes the sequence has.\<close>

definition lossy_lead :: "8 word \<Rightarrow> (32 word \<times> nat) option" where
  "lossy_lead c =
     (if c AND 0xE0 = 0xC0 then Some (ucast (c AND 0x1F), 2)
      else if c AND 0xF0 = 0xE0 then Some (ucast (c AND 0x0F), 3)
      else if c AND 0xF8 = 0xF0 then Some (ucast (c AND 0x07), 4)
      else None)"

text \<open>The loop over the continuation bytes; \<open>None\<close> is \<open>bad\<close>.\<close>

fun lossy_conts :: "nat \<Rightarrow> 32 word \<Rightarrow> 8 word list \<Rightarrow> (32 word \<times> 8 word list) option" where
  "lossy_conts 0 cp r = Some (cp, r)"
| "lossy_conts (Suc n) cp [] = None"
| "lossy_conts (Suc n) cp (b # r) =
     (if b AND 0xC0 \<noteq> 0x80 then None
      else lossy_conts n (push_bit 6 cp OR ucast (b AND 0x3F)) r)"

text \<open>A high half followed by a three-byte low half: the recombined code point.\<close>

definition lossy_low_half :: "32 word \<Rightarrow> 8 word list \<Rightarrow> (32 word \<times> 8 word list) option" where
  "lossy_low_half cp r =
     (if cp \<ge> 0xD800 \<and> cp \<le> 0xDBFF then
        case r of
          b1 # b2 # b3 # r' \<Rightarrow>
            if b1 AND 0xF0 = 0xE0 \<and> b2 AND 0xC0 = 0x80 \<and> b3 AND 0xC0 = 0x80 then
              let lo = push_bit 12 (ucast (b1 AND 0x0F)) OR push_bit 6 (ucast (b2 AND 0x3F))
                    OR ucast (b3 AND 0x3F)
              in if lo \<ge> 0xDC00 \<and> lo \<le> 0xDFFF
                 then Some (0x10000 + push_bit 10 (cp - 0xD800) + (lo - 0xDC00), r') else None
            else None
        | _ \<Rightarrow> None
      else None)"

definition lossy_seq :: "8 word \<Rightarrow> 8 word list \<Rightarrow> (32 word \<times> 8 word list) option" where
  "lossy_seq c r =
     (case lossy_lead c of
        None \<Rightarrow> None
      | Some (cp, n) \<Rightarrow>
        if Suc (length r) < n then None
        else case lossy_conts (n - 1) cp r of
          None \<Rightarrow> None
        | Some (cp', r') \<Rightarrow>
          (case lossy_low_half cp' r' of Some q \<Rightarrow> Some q | None \<Rightarrow> Some (cp', r')))"

lemma lossy_conts_shorter: "lossy_conts n cp r = Some (cp', r') \<Longrightarrow> length r' \<le> length r"
  by (induction n cp r rule: lossy_conts.induct) (auto split: if_splits)

lemma lossy_seq_shorter: "lossy_seq c r = Some (cp, r') \<Longrightarrow> length r' \<le> length r"
  by (auto simp: lossy_seq_def lossy_low_half_def Let_def dest!: lossy_conts_shorter
      split: option.splits if_splits list.splits)

function lossy_from :: "8 word list \<Rightarrow> 8 word list" where
  "lossy_from [] = []"
| "lossy_from (c # r) =
     (if c < 0x80 then c # lossy_from r
      else case lossy_seq c r of
        None \<Rightarrow> emit_cp 0xFFFD @ lossy_from r
      | Some (cp, r') \<Rightarrow> emit_cp cp @ lossy_from r')"
  by pat_completeness auto
termination
  by (relation "measure length") (auto dest!: lossy_seq_shorter simp: less_Suc_eq_le)

definition Mutf8ToUtf8Lossy :: "8 word list \<Rightarrow> 8 word list" where
  "Mutf8ToUtf8Lossy raw = (if list_all (\<lambda>c. c < 0x80) raw then raw else lossy_from raw)"

section \<open>Queries, from UTF-8 to modified UTF-8\<close>

definition supplementary :: "8 word \<Rightarrow> 8 word list \<Rightarrow> 32 word option" where
  "supplementary c r =
     (if c \<le> 0xF4 then
        case r of
          b1 # b2 # b3 # _ \<Rightarrow>
            let cp = push_bit 18 (ucast (c AND 0x07)) OR push_bit 12 (ucast (b1 AND 0x3F))
                  OR push_bit 6 (ucast (b2 AND 0x3F)) OR ucast (b3 AND 0x3F)
            in if b1 AND 0xC0 = 0x80 \<and> b2 AND 0xC0 = 0x80 \<and> b3 AND 0xC0 = 0x80 \<and> cp \<ge> 0x10000
               then Some cp else None
        | _ \<Rightarrow> None
      else None)"

function utf8_to_mutf8_from :: "8 word list \<Rightarrow> 8 word list" where
  "utf8_to_mutf8_from [] = []"
| "utf8_to_mutf8_from (c # r) =
     (if c = 0x00 then 0xC0 # 0x80 # utf8_to_mutf8_from r
      else if c < 0xF0 then c # utf8_to_mutf8_from r
      else case supplementary c r of
        Some cp0 \<Rightarrow>
          (let cp = cp0 - 0x10000 in
             AppendUtf8Bmp (ucast (ucast (0xD800 + drop_bit 10 cp) :: 16 word))
             @ AppendUtf8Bmp (ucast (ucast (0xDC00 + (cp AND 0x3FF)) :: 16 word))
             @ utf8_to_mutf8_from (drop 3 r))
      | None \<Rightarrow> c # utf8_to_mutf8_from r)"
  by pat_completeness auto
termination
  by (relation "measure length") auto

definition Utf8ToMutf8 :: "8 word list \<Rightarrow> 8 word list" where
  "Utf8ToMutf8 utf8 =
     (if list_ex (\<lambda>c. c = 0x00 \<or> c \<ge> 0xF0) utf8 then utf8_to_mutf8_from utf8 else utf8)"

section \<open>Escaped source text\<close>

definition hex_digit :: "16 word \<Rightarrow> 8 word" where
  "hex_digit d = (if d < 10 then 0x30 + ucast d else 0x57 + ucast d)"

definition AppendUtf16Escaped :: "16 word \<Rightarrow> 8 word list" where
  "AppendUtf16Escaped unit =
     (if unit < 0x20 \<or> (unit \<ge> 0xD800 \<and> unit \<le> 0xDFFF)
      then [0x5C, 0x75, hex_digit (drop_bit 12 unit), hex_digit (drop_bit 8 unit AND 0xF),
            hex_digit (drop_bit 4 unit AND 0xF), hex_digit (unit AND 0xF)]
      else AppendUtf8Bmp (ucast unit))"

fun AppendUtf16AsIdentifier :: "16 word list \<Rightarrow> 8 word list" where
  "AppendUtf16AsIdentifier [] = []"
| "AppendUtf16AsIdentifier [u] = AppendUtf16Escaped u"
| "AppendUtf16AsIdentifier (u # v # us) =
     (if surrogate_pair u v
      then AppendUtf8Astral (pair_code_point u v) @ AppendUtf16AsIdentifier us
      else AppendUtf16Escaped u @ AppendUtf16AsIdentifier (v # us))"

declare Mutf8ToUtf16.simps(2) [simp del] lossy_from.simps(2) [simp del]
  utf8_to_mutf8_from.simps(2) [simp del]

end
