(* ===== verification/Mutf8_Roundtrip.thy ===== *)
theory Mutf8_Roundtrip
  imports Mutf8_Codec
begin

text \<open>
  What the codec of \<open>Mutf8_Codec\<close> computes, against independent definitions of the three
  encodings: \<open>utf8_enc\<close> and \<open>utf16_enc\<close> are the standard's encodings of one code point,
  \<open>unit_enc\<close> is the modified UTF-8 form of one UTF-16 unit, \<open>utf8_ok\<close> is the standard's table of
  well-formed byte sequences. Each loop of the codec reads one such unit and goes on with the
  rest (locale \<open>seq_codec\<close>), so on a concatenation it is a map; the round trips follow.
\<close>

section \<open>The encodings\<close>

definition byte :: "nat \<Rightarrow> 8 word" where
  "byte n = word_of_nat n"

definition unit_of :: "nat \<Rightarrow> 16 word" where
  "unit_of n = word_of_nat n"

definition utf8_enc :: "nat \<Rightarrow> 8 word list" where
  "utf8_enc c =
     (if c < 0x80 then [byte c]
      else if c < 0x800 then [byte (192 + c div 64), byte (128 + c mod 64)]
      else if c < 0x10000
      then [byte (224 + c div 4096), byte (128 + c div 64 mod 64),
            byte (128 + c mod 64)]
      else [byte (240 + c div 262144), byte (128 + c div 4096 mod 64),
            byte (128 + c div 64 mod 64), byte (128 + c mod 64)])"

definition scalar :: "nat \<Rightarrow> bool" where
  "scalar c \<longleftrightarrow> c < 0xD800 \<or> (0xE000 \<le> c \<and> c < 0x110000)"

definition unit_enc :: "16 word \<Rightarrow> 8 word list" where
  "unit_enc u = (if u = 0 then [0xC0, 0x80] else utf8_enc (unat u))"

definition utf16_enc :: "nat \<Rightarrow> 16 word list" where
  "utf16_enc c =
     (if c < 0x10000 then [unit_of c]
      else [unit_of (0xD800 + (c - 0x10000) div 1024), unit_of (0xDC00 + c mod 1024)])"

definition mutf8_enc :: "nat \<Rightarrow> 8 word list" where
  "mutf8_enc c = concat (map unit_enc (utf16_enc c))"

text \<open>Well-formed UTF-8 as the standard tabulates it: the range of the second byte depends on
  the first, the others are continuation bytes.\<close>

definition second_ok :: "8 word \<Rightarrow> 8 word \<Rightarrow> bool" where
  "second_ok b b2 \<longleftrightarrow>
     (if b = 0xE0 then 0xA0 else if b = 0xF0 then 0x90 else 0x80) \<le> b2 \<and>
     b2 \<le> (if b = 0xED then 0x9F else if b = 0xF4 then 0x8F else 0xBF)"

fun utf8_ok :: "8 word list \<Rightarrow> bool" where
  "utf8_ok [] \<longleftrightarrow> True"
| "utf8_ok (b # bs) \<longleftrightarrow>
     (if b < 0x80 then utf8_ok bs
      else if b < 0xC2 then False
      else if b < 0xE0 then (case bs of b2 # r \<Rightarrow> second_ok b b2 \<and> utf8_ok r | _ \<Rightarrow> False)
      else if b < 0xF0 then
        (case bs of b2 # b3 # r \<Rightarrow> second_ok b b2 \<and> is_cont b3 \<and> utf8_ok r | _ \<Rightarrow> False)
      else if b < 0xF5 then
        (case bs of
           b2 # b3 # b4 # r \<Rightarrow> second_ok b b2 \<and> is_cont b3 \<and> is_cont b4 \<and> utf8_ok r
         | _ \<Rightarrow> False)
      else False)"

text \<open>The code points of a unit sequence; an unpaired surrogate is a code point of its own.\<close>

fun code_points :: "16 word list \<Rightarrow> nat list" where
  "code_points [] = []"
| "code_points [u] = [unat u]"
| "code_points (u # v # us) =
     (if surrogate_pair u v
      then (0x10000 + (unat u - 0xD800) * 1024 + (unat v - 0xDC00)) # code_points us
      else unat u # code_points (v # us))"

section \<open>Bytes as numbers\<close>

lemmas byte_less = unat_byte_less

lemma unat_u16_less: "unat (u :: 16 word) < 65536"
  using unsigned_less [where ?'a = nat, of u] by simp

lemma byte_eqI: "unat a = unat b \<Longrightarrow> a = (b :: 'a::len word)"
  by (simp add: word_unat_eq_iff)

lemma unat_byte [simp]: "n < 256 \<Longrightarrow> unat (byte n) = n"
  by (simp add: byte_def unsigned_of_nat take_bit_nat_eq_self)

lemma byte_digit [simp]: "unat (byte (128 + n mod 64)) = 128 + n mod 64"
  by (rule unat_byte) (use mod_less_divisor [of 64 n] in linarith)

lemma unat_u16 [simp]: "n < 65536 \<Longrightarrow> unat (unit_of n) = n"
  by (simp add: unit_of_def unsigned_of_nat take_bit_nat_eq_self)

lemma unat_byte_u32 [simp]: "unat (ucast (b :: 8 word) :: 32 word) = unat b"
  using unat_byte_less [of b] by (simp add: unsigned_ucast_eq take_bit_nat_eq_self)

lemma unat_byte_u16 [simp]: "unat (ucast (b :: 8 word) :: 16 word) = unat b"
  using unat_byte_less [of b] by (simp add: unsigned_ucast_eq take_bit_nat_eq_self)

lemma unat_u16_u32 [simp]: "unat (ucast (u :: 16 word) :: 32 word) = unat u"
  using unat_u16_less [of u] by (simp add: unsigned_ucast_eq take_bit_nat_eq_self)

lemma unat_to_byte: "unat x < 256 \<Longrightarrow> unat (ucast (x :: 32 word) :: 8 word) = unat x"
  by (simp add: unsigned_ucast_eq take_bit_nat_eq_self)

lemma unat_to_u16: "unat x < 65536 \<Longrightarrow> unat (ucast (x :: 32 word) :: 16 word) = unat x"
  by (simp add: unsigned_ucast_eq take_bit_nat_eq_self)

lemma unat_masks:
  fixes x :: "'a::len word"
  shows "unat (x AND 0x07) = unat x mod 8" "unat (x AND 0x0f) = unat x mod 16"
    "unat (x AND 0x1f) = unat x mod 32" "unat (x AND 0x3f) = unat x mod 64"
    "unat (x AND 0x3ff) = unat x mod 1024"
  unfolding and_masks unsigned_take_bit_eq by (simp_all add: take_bit_eq_mod)

lemma unat_drop:
  fixes x :: "'a::len word"
  shows "unat (drop_bit 6 x) = unat x div 64" "unat (drop_bit 12 x) = unat x div 4096"
    "unat (drop_bit 18 x) = unat x div 262144" "unat (drop_bit 10 x) = unat x div 1024"
  by (simp_all only: unat_drop_bit_eq) (simp_all add: drop_bit_eq_div)

text \<open>A marker above the payload bits, and payload digits above one another, add up.\<close>

lemma unat_or_marker:
  fixes x :: "32 word"
  shows "unat x < 64 \<Longrightarrow> unat (0x80 OR x) = 128 + unat x"
    "unat x < 32 \<Longrightarrow> unat (0xC0 OR x) = 192 + unat x"
    "unat x < 16 \<Longrightarrow> unat (0xE0 OR x) = 224 + unat x"
    "unat x < 8 \<Longrightarrow> unat (0xF0 OR x) = 240 + unat x"
  using unat_or_push_bit [of x 6 2] unat_or_push_bit [of x 5 6] unat_or_push_bit [of x 4 14]
    unat_or_push_bit [of x 3 30]
  by (simp_all add: push_bit_eq_mult or.commute)

lemma unat_or_digit:
  fixes x w :: "32 word"
  assumes "unat w < 2 ^ k" and "unat x * 2 ^ k + unat w < 2 ^ 32"
  shows "unat (push_bit k x OR w) = unat x * 2 ^ k + unat w"
  using unat_or_push_bit [OF assms(1), of x] assms(2) by (simp add: or.commute mult.commute add.commute)

lemma and_top:
  fixes c :: "8 word"
  shows "unat (c AND NOT (mask k)) = unat c div 2 ^ k * 2 ^ k"
proof -
  have "c AND NOT (mask k) = push_bit k (drop_bit k c)"
    by (rule bit_word_eqI) (auto simp: bit_simps)
  also have "unat \<dots> = take_bit 8 (unat c div 2 ^ k * 2 ^ k)"
    by (simp only: unsigned_push_bit_eq unat_drop_bit_eq) (simp add: push_bit_eq_mult drop_bit_eq_div)
  also have "\<dots> = unat c div 2 ^ k * 2 ^ k"
  proof -
    have "unat c div 2 ^ k * 2 ^ k < 256"
      using unat_byte_less [of c] div_times_less_eq_dividend [of "unat c" "2 ^ k"] by linarith
    then show ?thesis by (intro take_bit_nat_eq_self) simp
  qed
  finally show ?thesis .
qed

lemma div_floor_eq: "0 < k \<Longrightarrow> n div k * k = m * k \<longleftrightarrow> m * k \<le> n \<and> n < Suc m * (k :: nat)"
  by (auto simp: div_eqI dividend_less_times_div mult.commute [of _ k] dividend_less_div_times)

lemma lead_unat:
  fixes c :: "8 word"
  shows "c AND 0xC0 = 0x80 \<longleftrightarrow> 128 \<le> unat c \<and> unat c < 192"
    and "c AND 0xE0 = 0xC0 \<longleftrightarrow> 192 \<le> unat c \<and> unat c < 224"
    and "c AND 0xF0 = 0xE0 \<longleftrightarrow> 224 \<le> unat c \<and> unat c < 240"
    and "c AND 0xF8 = 0xF0 \<longleftrightarrow> 240 \<le> unat c \<and> unat c < 248"
proof -
  have m: "NOT (mask 6) = (0xC0 :: 8 word)" "NOT (mask 5) = (0xE0 :: 8 word)"
    "NOT (mask 4) = (0xF0 :: 8 word)" "NOT (mask 3) = (0xF8 :: 8 word)"
    by (simp_all add: mask_eq_exp_minus_1)
  note k = and_top [of c 6] and_top [of c 5] and_top [of c 4] and_top [of c 3]
  show "c AND 0xC0 = 0x80 \<longleftrightarrow> 128 \<le> unat c \<and> unat c < 192"
    using k(1) div_floor_eq [of 64 "unat c" 2] by (simp add: m word_unat_eq_iff)
  show "c AND 0xE0 = 0xC0 \<longleftrightarrow> 192 \<le> unat c \<and> unat c < 224"
    using k(2) div_floor_eq [of 32 "unat c" 6] by (simp add: m word_unat_eq_iff)
  show "c AND 0xF0 = 0xE0 \<longleftrightarrow> 224 \<le> unat c \<and> unat c < 240"
    using k(3) div_floor_eq [of 16 "unat c" 14] by (simp add: m word_unat_eq_iff)
  show "c AND 0xF8 = 0xF0 \<longleftrightarrow> 240 \<le> unat c \<and> unat c < 248"
    using k(4) div_floor_eq [of 8 "unat c" 30] by (simp add: m word_unat_eq_iff)
qed
lemma is_cont_unat: "is_cont b \<longleftrightarrow> 128 \<le> unat b \<and> unat b < 192"
  unfolding is_cont_def by (rule lead_unat)

section \<open>The encoders\<close>

lemma AppendUtf8Bmp_enc: "unat cp < 0x10000 \<Longrightarrow> AppendUtf8Bmp cp = utf8_enc (unat cp)"
  by (auto simp: AppendUtf8Bmp_def utf8_enc_def word_less_nat_alt unat_to_byte unat_masks unat_drop
      unat_or_marker less_mult_imp_div_less intro!: byte_eqI)

lemma AppendUtf8Astral_enc:
  "0x10000 \<le> unat cp \<Longrightarrow> unat cp < 0x200000 \<Longrightarrow> AppendUtf8Astral cp = utf8_enc (unat cp)"
  by (auto simp: AppendUtf8Astral_def utf8_enc_def unat_to_byte unat_masks unat_drop
      unat_or_marker less_mult_imp_div_less intro!: byte_eqI)

lemma surrogate_pair_unat: "surrogate_pair u v \<longleftrightarrow>
    0xD800 \<le> unat u \<and> unat u < 0xDC00 \<and> 0xDC00 \<le> unat v \<and> unat v < 0xE000"
  by (auto simp: surrogate_pair_def word_le_nat_alt)

lemma unat_pair_code_point:
  assumes "surrogate_pair u v"
  shows "unat (pair_code_point u v) = 0x10000 + (unat u - 0xD800) * 1024 + (unat v - 0xDC00)"
proof -
  note [simp] = assms [unfolded surrogate_pair_unat]
  have hi: "unat (ucast u - 0xD800 :: 32 word) = unat u - 0xD800"
    by (subst unat_sub) (simp_all add: word_le_nat_alt)
  have lo: "unat (ucast v - 0xDC00 :: 32 word) = unat v - 0xDC00"
    by (subst unat_sub) (simp_all add: word_le_nat_alt)
  have sh: "unat (push_bit 10 (ucast u - 0xD800) :: 32 word) = (unat u - 0xD800) * 1024"
  proof -
    have "(unat u - 0xD800) * 1024 < 4294967296"
      using assms surrogate_pair_unat [of u v] by linarith
    then show ?thesis
      by (simp only: unsigned_push_bit_eq hi) (simp add: push_bit_eq_mult take_bit_eq_mod)
  qed
  define x where "x = (unat u - 0xD800) * 1024"
  have x: "x < 0x100000" using assms unfolding surrogate_pair_unat x_def by linarith
  have "unat (0x10000 + push_bit 10 (ucast u - 0xD800) :: 32 word) = 0x10000 + x"
    using x by (simp only: unat_word_ariths sh x_def [symmetric]) simp
  with lo x assms show ?thesis
    by (simp only: pair_code_point_def unat_word_ariths x_def [symmetric])
      (use unat_u16_less [of v] in \<open>simp add: surrogate_pair_unat\<close>)
qed

lemma Utf16ToUtf8_concat: "Utf16ToUtf8 us = concat (map utf8_enc (code_points us))"
  by (induction us rule: Utf16ToUtf8.induct)
    (auto simp: AppendUtf8Bmp_enc unat_u16_less AppendUtf8Astral_enc unat_pair_code_point
      surrogate_pair_unat)

section \<open>Modified UTF-8, one unit at a time\<close>

lemma unat_unit2: "unat (unit2 b b2) = unat b mod 32 * 64 + unat b2 mod 64"
proof -
  have "unat (unit2 b b2) =
      unat (push_bit 6 (ucast (b AND 0x1f)) OR ucast (b2 AND 0x3f) :: 32 word)"
    by (simp only: unit2_32 unat_u16_u32)
  also have "\<dots> = unat b mod 32 * 64 + unat b2 mod 64"
    using mod_less_divisor [of 32 "unat b"] mod_less_divisor [of 64 "unat b2"]
    by (subst unat_or_digit) (simp_all add: unat_masks)
  finally show ?thesis .
qed

lemma unat_unit3:
  "unat (unit3 b b2 b3) = unat b mod 16 * 4096 + (unat b2 mod 64 * 64 + unat b3 mod 64)"
proof -
  have lo: "unat (push_bit 6 (ucast (b2 AND 0x3f)) OR ucast (b3 AND 0x3f) :: 32 word) =
      unat b2 mod 64 * 64 + unat b3 mod 64"
    using mod_less_divisor [of 64 "unat b2"] mod_less_divisor [of 64 "unat b3"]
    by (subst unat_or_digit) (simp_all add: unat_masks)
  have "unat (unit3 b b2 b3) =
      unat (push_bit 12 (ucast (b AND 0x0f)) OR
        (push_bit 6 (ucast (b2 AND 0x3f)) OR ucast (b3 AND 0x3f)) :: 32 word)"
    by (simp only: unit3_32 [unfolded or.assoc] unat_u16_u32)
  also have "\<dots> = unat b mod 16 * 4096 + (unat b2 mod 64 * 64 + unat b3 mod 64)"
    using mod_less_divisor [of 16 "unat b"] mod_less_divisor [of 64 "unat b2"]
      mod_less_divisor [of 64 "unat b3"]
    by (subst unat_or_digit) (simp_all add: unat_masks lo)
  finally show ?thesis .
qed

lemma div_lead: "192 \<le> n \<Longrightarrow> n < 224 \<Longrightarrow> n mod 32 = n - (192 :: nat)"
  "224 \<le> n \<Longrightarrow> n < 240 \<Longrightarrow> n mod 16 = n - (224 :: nat)"
  "128 \<le> n \<Longrightarrow> n < 192 \<Longrightarrow> n mod 64 = n - (128 :: nat)"
  by (simp_all add: mod_if)

lemma horner64: "z * 64 + y = y1 \<Longrightarrow> y1 * 64 + x = c \<Longrightarrow> z * 4096 + (y * 64 + x) = (c :: nat)"
  by simp

lemma scale64: "x = y * 64 + z \<Longrightarrow> x * 4096 = y * 262144 + z * (4096 :: nat)"
  by simp

lemma digits64:
  "c div 4096 * 4096 + (c div 64 mod 64 * 64 + c mod 64) = (c :: nat)"
  "c div 262144 * 262144 + (c div 4096 mod 64 * 4096 + (c div 64 mod 64 * 64 + c mod 64)) = c"
proof -
  show *: "c div 4096 * 4096 + (c div 64 mod 64 * 64 + c mod 64) = c"
    using horner64 [OF div_mult_mod_eq [of "c div 64" 64] div_mult_mod_eq [of c 64]]
    by (simp only: div_mult2_eq [of c 64 64, simplified])
  have "c div 4096 = c div 262144 * 64 + c div 4096 mod 64"
    using div_mult_mod_eq [of "c div 4096" 64] by (simp only: div_mult2_eq [of c 4096 64, simplified])
  then have "c div 4096 * 4096 = c div 262144 * 262144 + c div 4096 mod 64 * 4096"
    by (rule scale64)
  with * show "c div 262144 * 262144 +
      (c div 4096 mod 64 * 4096 + (c div 64 mod 64 * 64 + c mod 64)) = c"
    by (simp only: add.assoc)
qed

lemma unit_enc_cases [case_names one two three]:
  obtains b where "unit_enc u = [b]" "b \<noteq> 0" "b < 0x80" "u = ucast b"
  | b b2 where "unit_enc u = [b, b2]" "0xC0 \<le> b" "b < 0xE0" "is_cont b2" "u = unit2 b b2"
      "u = 0 \<or> 0x80 \<le> u"
  | b b2 b3 where "unit_enc u = [b, b2, b3]" "0xE0 \<le> b" "b < 0xF0" "is_cont b2" "is_cont b3"
      "u = unit3 b b2 b3" "0x800 \<le> u"
proof -
  let ?n = "unat u"
  have n: "?n < 65536" by (rule unat_u16_less)
  have nz: "0 < ?n" if "u \<noteq> 0" using that by (simp add: word_unat_eq_iff)
  consider "u = 0" | "u \<noteq> 0" "?n < 0x80" | "0x80 \<le> ?n" "?n < 0x800" | "0x800 \<le> ?n"
    by linarith
  then show ?thesis
  proof cases
    case 1
    have "u = unit2 0xC0 0x80" using 1 by (intro byte_eqI) (simp add: unat_unit2)
    with 1 that(2) [of "0xC0" "0x80"] show ?thesis
      by (simp add: unit_enc_def is_cont_def)
  next
    case 2
    with nz have "byte ?n \<noteq> 0" by (auto simp: word_unat_eq_iff)
    moreover have "u = ucast (byte ?n)"
      using 2 by (intro byte_eqI) (simp add: unsigned_ucast_eq take_bit_nat_eq_self)
    ultimately show ?thesis
      using 2 that(1) [of "byte ?n"] by (simp add: unit_enc_def utf8_enc_def word_less_nat_alt)
  next
    case 3
    then have "u \<noteq> 0" by auto
    moreover have "u = unit2 (byte (192 + ?n div 64)) (byte (128 + ?n mod 64))"
      using 3 by (intro byte_eqI) (simp add: unat_unit2 div_lead less_mult_imp_div_less)
    moreover have "is_cont (byte (128 + ?n mod 64))" by (simp add: is_cont_unat)
    ultimately show ?thesis
      using 3 that(2) [of "byte (192 + ?n div 64)" "byte (128 + ?n mod 64)"]
      by (simp add: unit_enc_def utf8_enc_def word_less_nat_alt word_le_nat_alt
          less_mult_imp_div_less)
  next
    case 4
    then have "u \<noteq> 0" by auto
    note split = digits64(1) [of ?n]
    have "u = unit3 (byte (224 + ?n div 4096)) (byte (128 + ?n div 64 mod 64)) (byte (128 + ?n mod 64))"
      using 4 n split by (intro byte_eqI) (simp add: unat_unit3 div_lead less_mult_imp_div_less)
    moreover have "is_cont (byte (128 + ?n mod 64))" "is_cont (byte (128 + ?n div 64 mod 64))"
      by (simp_all add: is_cont_unat)
    ultimately show ?thesis
      using 4 n \<open>u \<noteq> 0\<close>
        that(3) [of "byte (224 + ?n div 4096)" "byte (128 + ?n div 64 mod 64)" "byte (128 + ?n mod 64)"]
      by (simp add: unit_enc_def utf8_enc_def word_less_nat_alt word_le_nat_alt
          less_mult_imp_div_less)
  qed
qed

lemma digit64: "128 \<le> y \<Longrightarrow> y < 192 \<Longrightarrow> (x * 64 + (y - 128)) div 64 = (x :: nat)"
  "128 \<le> y \<Longrightarrow> y < 192 \<Longrightarrow> (x * 64 + (y - 128)) mod 64 = y - (128 :: nat)"
  by (simp_all add: mod_mult_self3 del: add_diff_assoc)

lemma mutf8_ok_unit [simp]:
  "mutf8_ok (unit_enc u @ r) = mutf8_ok r"
  "mutf8_units (unit_enc u @ r) = u # mutf8_units r"
proof -
  note le = word_less_nat_alt word_le_nat_alt
  have "mutf8_ok (unit_enc u @ r) = mutf8_ok r \<and>
      mutf8_units (unit_enc u @ r) = u # mutf8_units r"
  proof (cases u rule: unit_enc_cases)
    case (two b b2)
    then have "b \<noteq> 0" "\<not> b < 0x80" "\<not> b < 0xC0" by (auto simp: le)
    with two show ?thesis by simp
  next
    case (three b b2 b3)
    then have "b \<noteq> 0" "\<not> b < 0x80" "\<not> b < 0xC0" "\<not> b < 0xE0" by (auto simp: le)
    with three show ?thesis by simp
  qed simp
  then show "mutf8_ok (unit_enc u @ r) = mutf8_ok r"
    "mutf8_units (unit_enc u @ r) = u # mutf8_units r" by simp_all
qed

lemma mutf8_ok_concat [simp]:
  "mutf8_ok (concat (map unit_enc us))" "mutf8_units (concat (map unit_enc us)) = us"
  by (induction us) simp_all

lemma unit_enc_unit:
  "b \<noteq> 0 \<Longrightarrow> b < 0x80 \<Longrightarrow> unit_enc (ucast b) = [b]"
  "0xC0 \<le> b \<Longrightarrow> b < 0xE0 \<Longrightarrow> is_cont b2 \<Longrightarrow> unit2 b b2 = 0 \<or> 0x80 \<le> unit2 b b2 \<Longrightarrow>
     unit_enc (unit2 b b2) = [b, b2]"
  "0xE0 \<le> b \<Longrightarrow> b < 0xF0 \<Longrightarrow> is_cont b2 \<Longrightarrow> is_cont b3 \<Longrightarrow> 0x800 \<le> unit3 b b2 b3 \<Longrightarrow>
     unit_enc (unit3 b b2 b3) = [b, b2, b3]"
proof -
  note nat = word_less_nat_alt word_le_nat_alt is_cont_unat
  show "unit_enc (ucast b) = [b]" if "b \<noteq> 0" "b < 0x80"
  proof -
    have "unat (ucast b :: 16 word) = unat b" 
      using unat_byte_less [of b] by (simp add: unsigned_ucast_eq take_bit_nat_eq_self)
    moreover from this that have "(ucast b :: 16 word) \<noteq> 0" by (auto simp: word_unat_eq_iff)
    ultimately show ?thesis
      using that by (auto simp: unit_enc_def utf8_enc_def nat intro!: byte_eqI)
  qed
  show "unit_enc (unit2 b b2) = [b, b2]"
    if "0xC0 \<le> b" "b < 0xE0" "is_cont b2" "unit2 b b2 = 0 \<or> 0x80 \<le> unit2 b b2"
  proof -
    have n: "unat (unit2 b b2) = (unat b - 192) * 64 + (unat b2 - 128)"
      using that by (simp add: unat_unit2 div_lead nat)
    have div: "unat (unit2 b b2) div 64 = unat b - 192" "unat (unit2 b b2) mod 64 = unat b2 - 128"
      using that digit64 [of "unat b2" "unat b - 192"] by (simp_all only: n nat)
    from that(4) show ?thesis
    proof
      assume 0: "unit2 b b2 = 0"
      with n have "unat b = 192" "unat b2 = 128" using that by (auto simp: nat)
      then have "b = 0xC0" "b2 = 0x80" by (simp_all add: word_unat_eq_iff)
      with 0 show ?thesis by (simp add: unit_enc_def)
    next
      assume 1: "0x80 \<le> unit2 b b2"
      then have "unit2 b b2 \<noteq> 0" by auto
      moreover have "unat (unit2 b b2) < 0x800"
        using n that(2,3) unfolding nat by (simp del: diff_mult_distrib) linarith
      ultimately show ?thesis
        using 1 div that by (auto simp: unit_enc_def utf8_enc_def nat intro!: byte_eqI)
    qed
  qed
  show "unit_enc (unit3 b b2 b3) = [b, b2, b3]"
    if "0xE0 \<le> b" "b < 0xF0" "is_cont b2" "is_cont b3" "0x800 \<le> unit3 b b2 b3"
  proof -
    have n: "unat (unit3 b b2 b3) = ((unat b - 224) * 64 + (unat b2 - 128)) * 64 + (unat b3 - 128)"
    proof -
      have "unat b mod 16 = unat b - 224" "unat b2 mod 64 = unat b2 - 128"
        "unat b3 mod 64 = unat b3 - 128"
        using that by (simp_all add: div_lead nat)
      with unat_unit3 [of b b2 b3] show ?thesis
        by (simp only: add_mult_distrib)
    qed
    have div: "unat (unit3 b b2 b3) div 64 = (unat b - 224) * 64 + (unat b2 - 128)"
      "unat (unit3 b b2 b3) mod 64 = unat b3 - 128"
      using that digit64 [of "unat b3"] by (simp_all only: n nat)
    have div2: "unat (unit3 b b2 b3) div 4096 = unat b - 224"
      "unat (unit3 b b2 b3) div 64 mod 64 = unat b2 - 128"
      using that digit64 [of "unat b2" "unat b - 224"] div(1)
      by (simp_all only: nat div_mult2_eq [of "unat (unit3 b b2 b3)" 64 64, simplified])
    have "unit3 b b2 b3 \<noteq> 0" using that(5) by auto
    with that div div2 unat_u16_less [of "unit3 b b2 b3"] show ?thesis
      by (auto simp: unit_enc_def utf8_enc_def nat intro!: byte_eqI)
  qed
qed

lemma mutf8_ok_enc: "mutf8_ok m \<Longrightarrow> concat (map unit_enc (mutf8_units m)) = m"
  by (induction m rule: mutf8_induct) (simp_all add: unit_enc_unit del: mutf8_units.simps(2))

section \<open>Reading a sequence of encoded units\<close>

text \<open>
  A loop that consumes one encoded unit and goes on with the rest is, on a concatenation of
  encoded units, a map. Every loop of the codec is one of these, for its own notion of unit.
\<close>

locale seq_codec =
  fixes ok :: "'a \<Rightarrow> bool" and enc :: "'a \<Rightarrow> 'b list"
    and run :: "'b list \<Rightarrow> 'c list" and out :: "'a \<Rightarrow> 'c list"
  assumes run_Nil: "run [] = []"
    and run_enc: "ok a \<Longrightarrow> run (enc a @ r) = out a @ run r"
begin

lemma run_concat: "list_all ok as \<Longrightarrow> run (concat (map enc as)) = concat (map out as)"
  by (induction as) (simp_all add: run_Nil run_enc)

lemma run_concat_append:
  "list_all ok as \<Longrightarrow> run (concat (map enc as) @ r) = concat (map out as) @ run r"
  by (induction as) (simp_all add: run_enc)

end

lemma mutf8_halves [simp]:
  "mutf8_trailing (ucast (u :: 16 word)) = 0" "mutf8_leading (ucast (u :: 16 word)) = u"
  using halves_of_unit [of u]
  by (simp_all add: mutf8_trailing_def mutf8_leading_def GetTrailingUtf16Char_def
      GetLeadingUtf16Char_def)

lemma mutf8_next_unit: "\<exists>b t. unit_enc u = b # t \<and> mutf8_next b (t @ r) = (ucast u, r)"
proof (cases u rule: unit_enc_cases)
  case (one b)
  then show ?thesis by (simp add: mutf8_next_def byte_lead_bits(1) ucast_byte_16_32)
next
  case (two b b2)
  then show ?thesis using byte_lead_bits(2) [OF two(2,3)] by (simp add: mutf8_next_def unit2_32)
next
  case (three b b2 b3)
  then show ?thesis using byte_lead_bits(3) [OF three(2,3)] by (simp add: mutf8_next_def unit3_32)
qed

lemma Mutf8ToUtf16_unit: "Mutf8ToUtf16 (unit_enc u @ r) = u # Mutf8ToUtf16 r"
proof -
  obtain b t where "unit_enc u = b # t" "mutf8_next b (t @ r) = (ucast u, r)"
    using mutf8_next_unit by blast
  then show ?thesis by (simp add: Mutf8ToUtf16.simps(2))
qed

interpretation decode: seq_codec "\<lambda>_. True" unit_enc Mutf8ToUtf16 "\<lambda>u. [u]"
  by unfold_locales (simp_all add: Mutf8ToUtf16_unit)

lemma Mutf8ToUtf16_units: "mutf8_ok m \<Longrightarrow> Mutf8ToUtf16 m = mutf8_units m"
  using decode.run_concat [of "mutf8_units m"] by (simp add: mutf8_ok_enc list_all_iff)

section \<open>Code points\<close>

lemma code_points_less: "c \<in> set (code_points us) \<Longrightarrow> c < 0x110000"
proof (induction us rule: code_points.induct)
  case (2 u)
  then show ?case using unat_u16_less [of u] by simp
next
  case (3 u v us)
  then show ?case
    using unat_u16_less [of u] by (auto simp: surrogate_pair_unat split: if_splits)
qed simp

lemma utf16_enc_unit: "utf16_enc (unat u) = [u]"
  by (simp add: utf16_enc_def unat_u16_less unit_of_def)

lemma utf16_enc_pair:
  assumes "surrogate_pair u v"
  shows "utf16_enc (0x10000 + (unat u - 0xD800) * 1024 + (unat v - 0xDC00)) = [u, v]"
proof -
  define a b where "a = unat u - 0xD800" and "b = unat v - 0xDC00"
  have ab: "a < 1024" "b < 1024" "unat u = 0xD800 + a" "unat v = 0xDC00 + b"
    using assms unfolding surrogate_pair_unat a_def b_def by auto
  have "(0x10000 + a * 1024 + b) mod 1024 = (64 * 1024 + a * 1024 + b) mod 1024" by simp
  also have "\<dots> = b" using ab(2) by (simp only: mod_mult_self3 add.assoc) simp
  finally have "(0x10000 + a * 1024 + b) mod 1024 = b" .
  then show ?thesis
    using ab by (auto simp: utf16_enc_def a_def [symmetric] b_def [symmetric] intro!: byte_eqI)
qed

lemma utf16_enc_code_points: "concat (map utf16_enc (code_points us)) = us"
  by (induction us rule: code_points.induct) (simp_all add: utf16_enc_unit utf16_enc_pair)

lemma utf16_enc_scalar:
  assumes "scalar c"
  shows "code_points (utf16_enc c @ us) = c # code_points us"
proof (cases "c < 0x10000")
  case True
  then have "\<not> surrogate_pair (unit_of c) v" for v
    using assms by (auto simp: surrogate_pair_unat scalar_def)
  with True show ?thesis by (cases us) (simp_all add: utf16_enc_def)
next
  case False
  define d where "d = c - 0x10000"
  have d: "c = 0x10000 + d" "d < 0x100000" using False assms by (auto simp: d_def scalar_def)
  then have q: "d div 1024 < 1024" by (simp add: less_mult_imp_div_less)
  have m: "c mod 1024 = d mod 1024"
    using mod_mult_self3 [of 64 1024 d] by (simp only: d(1)) simp
  have "surrogate_pair (unit_of (0xD800 + d div 1024)) (unit_of (0xDC00 + c mod 1024))"
    using q by (simp add: surrogate_pair_unat)
  moreover have "0x10000 + d div 1024 * 1024 + d mod 1024 = c"
    using div_mult_mod_eq [of d 1024] d(1) by linarith
  ultimately show ?thesis
    using False q m by (simp add: utf16_enc_def d_def [symmetric])
qed

interpretation points: seq_codec scalar utf16_enc code_points "\<lambda>c. [c]"
  by unfold_locales (simp_all add: utf16_enc_scalar)

lemma code_points_utf16: "list_all scalar cps \<Longrightarrow> code_points (concat (map utf16_enc cps)) = cps"
  using points.run_concat by simp

lemma concat_mutf8_enc: "concat (map mutf8_enc cps) = concat (map unit_enc (concat (map utf16_enc cps)))"
  by (induction cps) (simp_all add: mutf8_enc_def)

section \<open>From UTF-8 to modified UTF-8\<close>

lemma utf8_to_mutf8_plain:
  "(\<forall>b \<in> set s. b \<noteq> 0 \<and> b < 0xF0) \<Longrightarrow> utf8_to_mutf8_from (s @ r) = s @ utf8_to_mutf8_from r"
  by (induction s) (simp_all add: utf8_to_mutf8_from.simps(2))

text \<open>The fast path is the slow path.\<close>

lemma Utf8ToMutf8_from: "Utf8ToMutf8 s = utf8_to_mutf8_from s"
  using utf8_to_mutf8_plain [of s "[]"] by (auto simp: Utf8ToMutf8_def list_ex_iff not_le)

lemma unit_enc_plain: "b \<in> set (unit_enc u) \<Longrightarrow> b \<noteq> 0 \<and> b < 0xF0"
  by (cases u rule: unit_enc_cases) (auto simp: is_cont_unat word_less_nat_alt word_le_nat_alt)

lemma unat_payload4:
  fixes b b1 b2 b3 :: "8 word"
  shows "unat (push_bit 18 (ucast (b AND 0x07)) OR push_bit 12 (ucast (b1 AND 0x3F))
      OR push_bit 6 (ucast (b2 AND 0x3F)) OR ucast (b3 AND 0x3F) :: 32 word) =
    unat b mod 8 * 262144 + (unat b1 mod 64 * 4096 + (unat b2 mod 64 * 64 + unat b3 mod 64))"
  unfolding or.assoc
  using mod_less_divisor [of 8 "unat b"] mod_less_divisor [of 64 "unat b1"]
    mod_less_divisor [of 64 "unat b2"] mod_less_divisor [of 64 "unat b3"]
  by (simp add: unat_or_digit unat_masks)

lemma mod8: "n \<le> 4 \<Longrightarrow> (240 + n) mod 8 = (n :: nat)"
  using mod_mult_self3 [of 30 8 n] by simp

lemma astral_bytes:
  assumes "0x10000 \<le> c" "c < 0x110000"
  obtains b b1 b2 b3 where "utf8_enc c = [b, b1, b2, b3]" "0xF0 \<le> b" "b \<le> 0xF4"
    "is_cont b1" "is_cont b2" "is_cont b3"
    "unat b mod 8 * 262144 + (unat b1 mod 64 * 4096 + (unat b2 mod 64 * 64 + unat b3 mod 64)) = c"
    "unat b = 240 + c div 262144" "unat b1 = 128 + c div 4096 mod 64"
proof
  have q: "c div 262144 \<le> 4" using assms(2) by (simp add: less_Suc_eq_le [symmetric] less_mult_imp_div_less)
  show "utf8_enc c = [byte (240 + c div 262144), byte (128 + c div 4096 mod 64),
      byte (128 + c div 64 mod 64), byte (128 + c mod 64)]"
    using assms by (simp add: utf8_enc_def)
  show "0xF0 \<le> byte (240 + c div 262144)" "byte (240 + c div 262144) \<le> 0xF4"
    using q by (simp_all add: word_le_nat_alt)
  show "is_cont (byte (128 + c div 4096 mod 64))" "is_cont (byte (128 + c div 64 mod 64))"
    "is_cont (byte (128 + c mod 64))"
    by (simp_all add: is_cont_unat)
  have "(240 + c div 262144) mod 8 = c div 262144" using q by (intro mod8)
  moreover have "(128 + n) mod 64 = n mod (64 :: nat)" for n
    using mod_mult_self3 [of 2 64 n] by simp
  ultimately show "unat (byte (240 + c div 262144)) mod 8 * 262144 +
      (unat (byte (128 + c div 4096 mod 64)) mod 64 * 4096 +
       (unat (byte (128 + c div 64 mod 64)) mod 64 * 64 + unat (byte (128 + c mod 64)) mod 64)) = c"
    using digits64(2) [of c] q byte_digit by simp
qed (use assms in \<open>simp_all add: less_mult_imp_div_less\<close>)

lemma mutf8_enc_astral:
  fixes cp :: "32 word"
  assumes "0x10000 \<le> unat cp" "unat cp < 0x110000"
  shows "AppendUtf8Bmp (ucast (ucast (0xD800 + drop_bit 10 (cp - 0x10000)) :: 16 word))
      @ AppendUtf8Bmp (ucast (ucast (0xDC00 + ((cp - 0x10000) AND 0x3FF)) :: 16 word))
    = mutf8_enc (unat cp)"
proof -
  let ?d = "unat cp - 0x10000"
  have d: "unat (cp - 0x10000) = ?d" using assms by (subst unat_sub) (simp_all add: word_le_nat_alt)
  have q: "?d div 1024 < 1024" using assms by (simp add: less_mult_imp_div_less)
  have m: "?d mod 1024 = unat cp mod 1024"
    using assms mod_mult_self3 [of 64 1024 ?d] by simp
  have hi: "unat (0xD800 + drop_bit 10 (cp - 0x10000)) = 0xD800 + ?d div 1024"
    using q by (simp add: unat_word_ariths unat_drop d)
  have lo: "unat (0xDC00 + ((cp - 0x10000) AND 0x3FF)) = 0xDC00 + ?d mod 1024"
    using mod_less_divisor [of 1024 ?d] by (simp add: unat_word_ariths unat_masks d)
  have unit: "AppendUtf8Bmp (ucast (ucast x :: 16 word)) = unit_enc (unit_of (unat x))"
    if "unat x < 65536" "unat x \<noteq> 0" for x :: "32 word"
    using that by (subst AppendUtf8Bmp_enc)
      (auto simp: unat_u16_less unit_enc_def unat_to_u16 word_unat_eq_iff)
  show ?thesis
    using q assms mod_less_divisor [of 1024 ?d] by (simp add: unit hi lo mutf8_enc_def utf16_enc_def m)
qed

lemma supplementary_astral:
  assumes "0x10000 \<le> c" "c < 0x110000"
  obtains b t cp where "utf8_enc c = b # t" "length t = 3" "0xF0 \<le> b"
    "supplementary b (t @ r) = Some cp" "unat cp = c"
proof -
  obtain b b1 b2 b3 where b: "utf8_enc c = [b, b1, b2, b3]" "0xF0 \<le> b" "b \<le> 0xF4"
    "is_cont b1" "is_cont b2" "is_cont b3"
    "unat b mod 8 * 262144 + (unat b1 mod 64 * 4096 + (unat b2 mod 64 * 64 + unat b3 mod 64)) = c"
    using astral_bytes [OF assms] by metis
  let ?cp = "push_bit 18 (ucast (b AND 0x07)) OR push_bit 12 (ucast (b1 AND 0x3F))
      OR push_bit 6 (ucast (b2 AND 0x3F)) OR ucast (b3 AND 0x3F) :: 32 word"
  have "unat ?cp = c" using unat_payload4 [of b b1 b2 b3] b(7) by simp
  moreover from this have "supplementary b ([b1, b2, b3] @ r) = Some ?cp"
    using b assms by (simp add: supplementary_def Let_def is_cont_def word_le_nat_alt)
  ultimately show ?thesis using b that [of b "[b1, b2, b3]" ?cp] by simp
qed

lemma utf8_to_mutf8_enc:
  assumes "c < 0x110000"
  shows "utf8_to_mutf8_from (utf8_enc c @ r) = mutf8_enc c @ utf8_to_mutf8_from r"
proof (cases "c < 0x10000")
  case True
  have bmp: "mutf8_enc c = unit_enc (unit_of c)" using True by (simp add: mutf8_enc_def utf16_enc_def)
  show ?thesis
  proof (cases "c = 0")
    case True
    with bmp show ?thesis
      by (simp add: utf8_enc_def utf8_to_mutf8_from.simps(2) unit_enc_def byte_def unit_of_def)
  next
    case False
    with True have "unit_of c \<noteq> 0" by (auto simp: word_unat_eq_iff)
    with True bmp have "mutf8_enc c = utf8_enc c" by (simp add: unit_enc_def)
    with bmp unit_enc_plain [of _ "unit_of c"] show ?thesis
      by (metis utf8_to_mutf8_plain)
  qed
next
  case False
  then obtain b t cp where b: "utf8_enc c = b # t" "length t = 3" "0xF0 \<le> b"
    "supplementary b (t @ r) = Some cp" "unat cp = c"
    using supplementary_astral [of c r] assms by (metis not_less)
  then have "b \<noteq> 0" "\<not> b < 0xF0" by (auto simp: word_le_nat_alt word_less_nat_alt)
  moreover have "mutf8_enc c = mutf8_enc (unat cp)" using b by simp
  ultimately show ?thesis
    using b False assms mutf8_enc_astral [of cp]
    by (simp add: utf8_to_mutf8_from.simps(2) Let_def del: append_assoc flip: append_assoc)
qed

interpretation query: seq_codec "\<lambda>c. c < 0x110000" utf8_enc utf8_to_mutf8_from mutf8_enc
  by unfold_locales (simp_all add: utf8_to_mutf8_enc)

text \<open>Decoding and encoding again gives the pool string back, unpaired surrogates included.\<close>

lemma mutf8_utf8_mutf8:
  assumes "mutf8_ok m"
  shows "Utf8ToMutf8 (Mutf8ToUtf8 m) = m"
proof -
  let ?cps = "code_points (mutf8_units m)"
  have "Utf8ToMutf8 (Mutf8ToUtf8 m) = concat (map mutf8_enc ?cps)"
    using assms query.run_concat [of ?cps]
    by (simp add: Utf8ToMutf8_from Mutf8ToUtf8_def Mutf8ToUtf16_units Utf16ToUtf8_concat
        list_all_iff code_points_less)
  also have "\<dots> = m"
    using assms by (simp add: concat_mutf8_enc utf16_enc_code_points mutf8_ok_enc)
  finally show ?thesis .
qed

lemma Utf8ToMutf8_scalars:
  assumes "list_all scalar cps"
  shows "Utf8ToMutf8 (concat (map utf8_enc cps)) = concat (map mutf8_enc cps)"
proof -
  have "list_all (\<lambda>c. c < 0x110000) cps" using assms by (auto simp: list_all_iff scalar_def)
  then show ?thesis by (simp add: Utf8ToMutf8_from query.run_concat)
qed

lemma utf8_mutf8_utf8:
  assumes "list_all scalar cps"
  shows "Mutf8ToUtf8 (Utf8ToMutf8 (concat (map utf8_enc cps))) = concat (map utf8_enc cps)"
  using assms by (simp add: Utf8ToMutf8_scalars concat_mutf8_enc Mutf8ToUtf8_def
      Mutf8ToUtf16_units Utf16ToUtf8_concat code_points_utf16)

section \<open>Well-formed UTF-8\<close>

lemma utf8_enc_nonempty [simp]: "utf8_enc c \<noteq> []"
  by (simp add: utf8_enc_def)

lemma second_ok_unat: "second_ok b b2 \<longleftrightarrow>
    (if unat b = 0xE0 then 0xA0 else if unat b = 0xF0 then 0x90 else 0x80) \<le> unat b2 \<and>
    unat b2 \<le> (if unat b = 0xED then 0x9F else if unat b = 0xF4 then 0x8F else 0xBF)"
  by (auto simp: second_ok_def word_le_nat_alt word_unat_eq_iff)

lemma utf8_ok_enc:
  assumes "scalar c"
  shows "utf8_ok (utf8_enc c @ r) = utf8_ok r"
proof -
  note nat = word_less_nat_alt second_ok_unat is_cont_unat scalar_def
  have c: "c < 0x110000" using assms by (auto simp: scalar_def)
  consider "c < 0x80" | "0x80 \<le> c" "c < 0x800" | "0x800 \<le> c" "c < 0x10000" | "0x10000 \<le> c"
    by linarith
  then show ?thesis
  proof cases
    case 1
    then show ?thesis by (simp add: utf8_enc_def nat)
  next
    case 2
    then have "2 \<le> c div 64" "c div 64 < 32"
      by (simp_all add: less_eq_div_iff_mult_less_eq less_mult_imp_div_less)
    with 2 mod_less_divisor [of 64 c] show ?thesis
      by (simp add: utf8_enc_def nat) linarith
  next
    case 3
    obtain x y z where xyz: "utf8_enc c = [byte (224 + x), byte (128 + y), byte (128 + z)]"
      "x * 4096 + (y * 64 + z) = c" "y < 64" "z < 64"
      using 3 digits64(1) [of c] by (simp add: utf8_enc_def)
    then have "x < 16" "x = 0 \<Longrightarrow> 0x20 \<le> y" "x = 13 \<Longrightarrow> y \<le> 0x1F"
      using 3 assms unfolding scalar_def by linarith+
    with xyz show ?thesis by (cases "x = 13") (simp_all add: nat)
  next
    case 4
    obtain w x y z where wxyz: "utf8_enc c =
        [byte (240 + w), byte (128 + x), byte (128 + y), byte (128 + z)]"
      "w * 262144 + (x * 4096 + (y * 64 + z)) = c" "x < 64" "y < 64" "z < 64"
      using 4 digits64(2) [of c] by (simp add: utf8_enc_def)
    then have "w \<le> 4" "w = 0 \<Longrightarrow> 0x10 \<le> x" "w = 4 \<Longrightarrow> x \<le> 0xF"
      using 4 c by linarith+
    with wxyz show ?thesis by (cases "w = 4") (simp_all add: nat)
  qed
qed

lemma utf8_ok_concat: "list_all scalar cps \<Longrightarrow> utf8_ok (concat (map utf8_enc cps))"
  by (induction cps) (simp_all add: utf8_ok_enc)

lemma digit: "y < 64 \<Longrightarrow> (x * 64 + y) div 64 = (x :: nat)" "y < 64 \<Longrightarrow> (x * 64 + y) mod 64 = (y :: nat)"
  by simp_all

lemma horner:
  "x * 4096 + (y * 64 + z) = (x * 64 + y) * 64 + (z :: nat)"
  "w * 262144 + (x * 4096 + (y * 64 + z)) = ((w * 64 + x) * 64 + y) * 64 + (z :: nat)"
  by simp_all

lemma utf8_enc_digits:
  "x < 32 \<Longrightarrow> y < 64 \<Longrightarrow> 0x80 \<le> x * 64 + y \<Longrightarrow>
     utf8_enc (x * 64 + y) = [byte (192 + x), byte (128 + y)]"
  "x < 16 \<Longrightarrow> y < 64 \<Longrightarrow> z < 64 \<Longrightarrow> 0x800 \<le> x * 4096 + (y * 64 + z) \<Longrightarrow>
     utf8_enc (x * 4096 + (y * 64 + z)) = [byte (224 + x), byte (128 + y), byte (128 + z)]"
  "w < 8 \<Longrightarrow> x < 64 \<Longrightarrow> y < 64 \<Longrightarrow> z < 64 \<Longrightarrow> 0x10000 \<le> w * 262144 + (x * 4096 + (y * 64 + z)) \<Longrightarrow>
     utf8_enc (w * 262144 + (x * 4096 + (y * 64 + z))) =
       [byte (240 + w), byte (128 + x), byte (128 + y), byte (128 + z)]"
proof -
  have d: "n div 4096 = n div 64 div 64" "n div 262144 = n div 64 div 64 div 64" for n :: nat
    by (simp_all add: div_mult2_eq [symmetric])
  show "utf8_enc (x * 64 + y) = [byte (192 + x), byte (128 + y)]"
    if "x < 32" "y < 64" "0x80 \<le> x * 64 + y"
  proof -
    have "x * 64 + y < 0x800" using that by linarith
    with that show ?thesis unfolding utf8_enc_def digit [OF that(2)] by simp
  qed
  show "utf8_enc (x * 4096 + (y * 64 + z)) = [byte (224 + x), byte (128 + y), byte (128 + z)]"
    if "x < 16" "y < 64" "z < 64" "0x800 \<le> x * 4096 + (y * 64 + z)"
  proof -
    have "x * 4096 + (y * 64 + z) < 0x10000" using that by linarith
    with that show ?thesis
      unfolding utf8_enc_def horner(1) d digit [OF that(3)] digit [OF that(2)] by simp
  qed
  show "utf8_enc (w * 262144 + (x * 4096 + (y * 64 + z))) =
      [byte (240 + w), byte (128 + x), byte (128 + y), byte (128 + z)]"
    if "w < 8" "x < 64" "y < 64" "z < 64" "0x10000 \<le> w * 262144 + (x * 4096 + (y * 64 + z))"
    using that
    unfolding utf8_enc_def horner(2) d digit [OF that(4)] digit [OF that(3)] digit [OF that(2)]
    by simp
qed

lemma byte_marker: "k \<le> unat b \<Longrightarrow> byte (k + (unat b - k)) = b"
  by (intro byte_eqI) (simp add: unat_byte_less)

lemma byte_unat: "byte (unat b) = b"
  by (simp add: byte_def)

lemma utf8_ok_split:
  assumes "utf8_ok s" "s \<noteq> []"
  shows "\<exists>c r. scalar c \<and> s = utf8_enc c @ r \<and> utf8_ok r"
proof -
  note nat = word_less_nat_alt second_ok_unat is_cont_unat
  obtain b bs where s: "s = b # bs" using assms(2) by (cases s) auto
  consider "unat b < 0x80" | "0xC2 \<le> unat b" "unat b < 0xE0" | "0xE0 \<le> unat b" "unat b < 0xF0"
    | "0xF0 \<le> unat b" "unat b < 0xF5"
    using assms(1) s by (auto simp: nat split: if_splits)
  then show ?thesis
  proof cases
    case 1
    then have "utf8_enc (unat b) = [b]" by (simp add: utf8_enc_def byte_def)
    moreover have "utf8_ok bs" using 1 assms(1) s by (simp add: nat)
    ultimately show ?thesis using 1 s by (intro exI [of _ "unat b"]) (simp add: scalar_def)
  next
    case 2
    then obtain b2 r where bs: "bs = b2 # r" "second_ok b b2" "utf8_ok r"
      using assms(1) s by (auto simp: nat split: list.splits)
    then have b2: "0x80 \<le> unat b2" "unat b2 < 0xC0" using 2 by (auto simp: second_ok_unat)
    define c where "c = (unat b - 192) * 64 + (unat b2 - 128)"
    have "utf8_enc c = [b, b2]"
      unfolding c_def using 2 b2 by (subst utf8_enc_digits) (auto simp: byte_unat)
    moreover have "scalar c" unfolding scalar_def c_def using 2 b2 by linarith
    ultimately show ?thesis using s bs by (intro exI [of _ c]) simp
  next
    case 3
    then obtain b2 b3 r where bs: "bs = b2 # b3 # r" "second_ok b b2" "is_cont b3" "utf8_ok r"
      using assms(1) s by (auto simp: nat split: list.splits)
    then have b2: "0x80 \<le> unat b2" "unat b2 < 0xC0" "unat b \<noteq> 0xE0 \<or> 0xA0 \<le> unat b2"
      "unat b \<noteq> 0xED \<or> unat b2 < 0xA0" and b3: "0x80 \<le> unat b3" "unat b3 < 0xC0"
      using 3 by (auto simp: second_ok_unat is_cont_unat split: if_splits)
    define c where "c = (unat b - 224) * 4096 + ((unat b2 - 128) * 64 + (unat b3 - 128))"
    have "0x800 \<le> c"
      unfolding c_def using 3 b2(1,2) b3
      by (cases rule: disjE [OF b2(3)]) linarith+
    then have "utf8_enc c = [b, b2, b3]"
      unfolding c_def using 3 b2 b3 by (subst utf8_enc_digits) (auto simp: byte_unat)
    moreover have "c < 0xD800 \<or> 0xE000 \<le> c"
    proof (cases "unat b < 0xED")
      case True
      then have "c < 0xD800" unfolding c_def using b2 b3 by linarith
      then show ?thesis ..
    next
      case False
      then consider "unat b = 0xED" "unat b2 < 0xA0" | "0xED < unat b" using b2(4) by linarith
      then show ?thesis unfolding c_def using b2(1,2) b3 by cases (linarith, linarith)
    qed
    moreover have "c < 0x110000" unfolding c_def using 3 b2 b3 by linarith
    ultimately have "scalar c" "utf8_enc c = [b, b2, b3]" by (auto simp: scalar_def)
    then show ?thesis using s bs by (intro exI [of _ c]) simp
  next
    case 4
    then obtain b2 b3 b4 r where bs: "bs = b2 # b3 # b4 # r" "second_ok b b2" "is_cont b3"
      "is_cont b4" "utf8_ok r"
      using assms(1) s by (auto simp: nat split: list.splits)
    then have b2: "0x80 \<le> unat b2" "unat b2 < 0xC0" "unat b \<noteq> 0xF0 \<or> 0x90 \<le> unat b2"
      "unat b \<noteq> 0xF4 \<or> unat b2 < 0x90" and b3: "0x80 \<le> unat b3" "unat b3 < 0xC0"
      and b4: "0x80 \<le> unat b4" "unat b4 < 0xC0"
      using 4 by (auto simp: second_ok_unat is_cont_unat split: if_splits)
    define c where "c = (unat b - 240) * 262144 + ((unat b2 - 128) * 4096 +
      ((unat b3 - 128) * 64 + (unat b4 - 128)))"
    have c: "0x10000 \<le> c"
      unfolding c_def using 4 b2(1,2) b3 b4
      by (cases rule: disjE [OF b2(3)]) linarith+
    have c': "c < 0x110000"
      unfolding c_def using 4 b2(1,2) b3 b4
      by (cases rule: disjE [OF b2(4)]) linarith+
    then have "utf8_enc c = [b, b2, b3, b4]"
      unfolding c_def using 4 b2 b3 b4 by (subst utf8_enc_digits) (auto simp: byte_unat)
    with c c' show ?thesis using s bs by (intro exI [of _ c]) (simp add: scalar_def)
  qed
qed

lemma utf8_ok_iff: "utf8_ok s \<longleftrightarrow> (\<exists>cps. list_all scalar cps \<and> s = concat (map utf8_enc cps))"
proof
  show "\<exists>cps. list_all scalar cps \<and> s = concat (map utf8_enc cps)" if "utf8_ok s"
    using that
  proof (induction "length s" arbitrary: s rule: less_induct)
    case less
    show ?case
    proof (cases "s = []")
      case True
      then show ?thesis by (intro exI [of _ "[]"]) simp
    next
      case False
      then obtain c r where c: "scalar c" "s = utf8_enc c @ r" "utf8_ok r"
        using utf8_ok_split less.prems by blast
      then have "length r < length s" by (simp add: utf8_enc_def)
      with less.hyps c obtain cps where "list_all scalar cps" "r = concat (map utf8_enc cps)"
        by blast
      with c show ?thesis by (intro exI [of _ "c # cps"]) simp
    qed
  qed
qed (auto simp: utf8_ok_concat)

section \<open>The lossy decoder\<close>

text \<open>Whatever value the loop assembled, what is written is the encoding of a scalar value.\<close>

lemma emit_cp_scalar: "\<exists>c. scalar c \<and> emit_cp cp = utf8_enc c"
proof -
  define v where "v = (if (cp \<ge> 0xD800 \<and> cp \<le> 0xDFFF) \<or> cp > 0x10FFFF then 0xFFFD else cp)"
  have "scalar (unat v)"
    by (auto simp: v_def scalar_def word_le_nat_alt word_less_nat_alt not_le not_less)
  moreover from this have "emit_cp cp = utf8_enc (unat v)"
    by (simp only: emit_cp_def Let_def v_def [symmetric])
      (auto simp: AppendUtf8Bmp_enc AppendUtf8Astral_enc word_less_nat_alt scalar_def)
  ultimately show ?thesis by blast
qed

lemma emit_cp_enc: "scalar (unat cp) \<Longrightarrow> emit_cp cp = utf8_enc (unat cp)"
  by (auto simp: emit_cp_def Let_def AppendUtf8Bmp_enc AppendUtf8Astral_enc
      word_less_nat_alt word_le_nat_alt scalar_def)

lemma utf8_ok_emit [simp]: "utf8_ok (emit_cp cp @ r) = utf8_ok r"
  using emit_cp_scalar [of cp] utf8_ok_enc by metis

lemma utf8_ok_ascii: "list_all (\<lambda>b. b < 0x80) s \<Longrightarrow> utf8_ok s"
  by (induction s) simp_all

lemma utf8_ok_lossy_from: "utf8_ok (lossy_from raw)"
  by (induction raw rule: lossy_from.induct)
    (auto simp: lossy_from.simps(2) split: option.splits)

lemma lossy_from_ascii: "list_all (\<lambda>b. b < 0x80) s \<Longrightarrow> lossy_from s = s"
  by (induction s) (simp_all add: lossy_from.simps(2))

text \<open>Again the fast path is the slow path.\<close>

lemma Mutf8ToUtf8Lossy_from: "Mutf8ToUtf8Lossy raw = lossy_from raw"
  by (simp add: Mutf8ToUtf8Lossy_def lossy_from_ascii)

lemma lossy_lead_unat: "lossy_lead c =
    (if 192 \<le> unat c \<and> unat c < 224 then Some (ucast (c AND 0x1F), 2)
     else if 224 \<le> unat c \<and> unat c < 240 then Some (ucast (c AND 0x0F), 3)
     else if 240 \<le> unat c \<and> unat c < 248 then Some (ucast (c AND 0x07), 4) else None)"
  by (auto simp: lossy_lead_def lead_unat)

lemma shift_in: "push_bit 6 (push_bit 6 x OR y) OR z = push_bit 12 x OR push_bit 6 y OR (z :: 32 word)"
  by (rule bit_word_eqI) (auto simp: bit_simps)

lemma lossy_unit:
  assumes "\<not> u < 0x80 \<or> u = 0"
  obtains b t where "unit_enc u = b # t" "\<not> b < 0x80"
    "lossy_seq b (t @ r) =
      (case lossy_low_half (ucast u) r of Some q \<Rightarrow> Some q | None \<Rightarrow> Some (ucast u, r))"
proof (cases u rule: unit_enc_cases)
  case (one b)
  with assms show ?thesis by (auto simp: word_less_nat_alt word_unat_eq_iff)
next
  case (two b b2)
  then have b: "192 \<le> unat b" "unat b < 224" "\<not> b < 0x80" "b2 AND 0xC0 = 0x80"
    by (auto simp: word_less_nat_alt word_le_nat_alt is_cont_def)
  moreover have "push_bit 6 (ucast (b AND 0x1F)) OR ucast (b2 AND 0x3F) = (ucast u :: 32 word)"
    using two(5) by (simp only: unit2_32)
  ultimately show ?thesis
    using two(1) that [of b "[b2]"] by (simp add: lossy_seq_def lossy_lead_unat numeral_2_eq_2)
next
  case (three b b2 b3)
  then have b: "224 \<le> unat b" "unat b < 240" "\<not> b < 0x80" "b2 AND 0xC0 = 0x80" "b3 AND 0xC0 = 0x80"
    by (auto simp: word_less_nat_alt word_le_nat_alt is_cont_def)
  moreover have "push_bit 6 (push_bit 6 (ucast (b AND 0x0F)) OR ucast (b2 AND 0x3F)) OR ucast (b3 AND 0x3F)
      = (ucast u :: 32 word)"
    using three(6) by (simp only: shift_in unit3_32)
  ultimately show ?thesis
    using three(1) that [of b "[b2, b3]"]
    by (simp add: lossy_seq_def lossy_lead_unat numeral_3_eq_3)
qed

lemma lossy_low_half_none: "\<not> (0xD800 \<le> unat u \<and> unat u \<le> 0xDBFF) \<Longrightarrow> lossy_low_half (ucast (u :: 16 word)) r = None"
  by (auto simp: lossy_low_half_def word_le_nat_alt)

lemma lossy_low_half_pair:
  assumes "surrogate_pair u v"
  shows "lossy_low_half (ucast u) (unit_enc v @ r) = Some (pair_code_point u v, r)"
proof -
  note uv = assms [unfolded surrogate_pair_unat]
  show ?thesis
  proof (cases v rule: unit_enc_cases)
    case (one b)
    with uv have False by (auto simp: word_less_nat_alt)
    then show ?thesis ..
  next
    case (two b b2)
    have "unat b mod 32 < 32" "unat b2 mod 64 < 64" by simp_all
    moreover have "unat v = unat b mod 32 * 64 + unat b2 mod 64" using two(5) unat_unit2 by simp
    ultimately have False using uv by linarith
    then show ?thesis ..
  next
    case (three b b2 b3)
    have "push_bit 12 (ucast (b AND 0x0F)) OR push_bit 6 (ucast (b2 AND 0x3F)) OR ucast (b3 AND 0x3F)
        = (ucast v :: 32 word)"
      using three(6) by (simp only: unit3_32)
    moreover have "b AND 0xF0 = 0xE0" using three(2,3) by (simp add: lead_unat word_le_nat_alt word_less_nat_alt)
    ultimately show ?thesis
      using three uv by (simp add: lossy_low_half_def Let_def is_cont_def word_le_nat_alt
          pair_code_point_def)
  qed
qed

lemma lossy_from_unit:
  assumes "scalar (unat u)"
  shows "lossy_from (unit_enc u @ r) = utf8_enc (unat u) @ lossy_from r"
proof (cases "u < 0x80 \<and> u \<noteq> 0")
  case True
  then have "unit_enc u = [byte (unat u)]" by (simp add: unit_enc_def utf8_enc_def word_less_nat_alt)
  moreover have "byte (unat u) < 0x80" using True by (simp add: word_less_nat_alt)
  ultimately show ?thesis
    using True by (simp add: lossy_from.simps(2) utf8_enc_def word_less_nat_alt)
next
  case False
  have "lossy_low_half (ucast u) r = None"
    using assms by (intro lossy_low_half_none) (auto simp: scalar_def)
  moreover obtain b t where "unit_enc u = b # t" "\<not> b < 0x80"
    "lossy_seq b (t @ r) =
      (case lossy_low_half (ucast u) r of Some q \<Rightarrow> Some q | None \<Rightarrow> Some (ucast u, r))"
    using False by - (rule lossy_unit [of u r], blast+)
  ultimately show ?thesis
    using assms by (simp add: lossy_from.simps(2) emit_cp_enc)
qed

lemma lossy_from_enc:
  assumes "scalar c"
  shows "lossy_from (mutf8_enc c @ r) = utf8_enc c @ lossy_from r"
proof (cases "c < 0x10000")
  case True
  then have "mutf8_enc c = unit_enc (unit_of c)" by (simp add: mutf8_enc_def utf16_enc_def)
  then show ?thesis using lossy_from_unit [of "unit_of c"] assms True by simp
next
  case False
  then obtain u v where uv: "utf16_enc c = [u, v]" by (simp add: utf16_enc_def)
  have cp: "code_points [u, v] = [c]" using utf16_enc_scalar [OF assms, of "[]"] uv by simp
  then have pair: "surrogate_pair u v" by (simp split: if_splits)
  with cp have c: "unat (pair_code_point u v) = c" by (simp add: unat_pair_code_point)
  from pair have "\<not> u < 0x80" by (auto simp: surrogate_pair_unat word_less_nat_alt)
  then obtain b t where "unit_enc u = b # t" "\<not> b < 0x80"
    "lossy_seq b (t @ unit_enc v @ r) = (case lossy_low_half (ucast u) (unit_enc v @ r) of
        Some q \<Rightarrow> Some q | None \<Rightarrow> Some (ucast u, unit_enc v @ r))"
    by - (rule lossy_unit [of u "unit_enc v @ r"], blast+)
  then show ?thesis
    using assms c lossy_low_half_pair [OF pair, of r] by (simp add: mutf8_enc_def uv lossy_from.simps(2) emit_cp_enc)
qed

interpretation lossy: seq_codec scalar mutf8_enc lossy_from utf8_enc
  by unfold_locales (simp_all add: lossy_from_enc)

lemma lossy_mutf8:
  assumes "mutf8_ok m" "list_all scalar (code_points (mutf8_units m))"
  shows "Mutf8ToUtf8Lossy m = Mutf8ToUtf8 m"
proof -
  let ?cps = "code_points (mutf8_units m)"
  have "m = concat (map mutf8_enc ?cps)"
    using assms(1) by (simp add: concat_mutf8_enc utf16_enc_code_points mutf8_ok_enc)
  then have "Mutf8ToUtf8Lossy m = concat (map utf8_enc ?cps)"
    using lossy.run_concat [OF assms(2)] by (metis Mutf8ToUtf8Lossy_from)
  with assms(1) show ?thesis
    by (simp add: Mutf8ToUtf8_def Mutf8ToUtf16_units Utf16ToUtf8_concat)
qed

section \<open>Source text\<close>

lemma utf8_enc_printable:
  assumes "0x20 \<le> c" "c < 0x110000"
  shows "list_all (\<lambda>b. 0x20 \<le> unat b) (utf8_enc c)"
proof -
  have "c div 262144 < 16" using assms(2) by (simp add: less_mult_imp_div_less)
  then show ?thesis using assms(1) by (auto simp: utf8_enc_def less_mult_imp_div_less)
qed

lemma utf8_ok_ascii_append:
  "list_all (\<lambda>b. b < 0x80) s \<Longrightarrow> utf8_ok (s @ r) = utf8_ok r"
  by (induction s) simp_all

lemma hex_digit_ascii:
  assumes "unat d < 16"
  shows "hex_digit d < 0x80" "0x20 \<le> unat (hex_digit d)"
proof -
  have b: "unat (ucast d :: 8 word) = unat d"
    using assms by (simp add: unsigned_ucast_eq take_bit_nat_eq_self)
  have "unat (hex_digit d) = (if unat d < 10 then 0x30 + unat d else 0x57 + unat d)"
    using assms by (auto simp: hex_digit_def word_less_nat_alt unat_word_ariths b)
  then show "hex_digit d < 0x80" "0x20 \<le> unat (hex_digit d)"
    using assms by (auto simp: word_less_nat_alt)
qed

lemma unit_nibbles:
  fixes u :: "16 word"
  shows "unat (drop_bit 12 u) < 16" "unat (x AND 0xF :: 16 word) < 16"
  using unat_u16_less [of u] by (simp_all add: unat_drop unat_masks less_mult_imp_div_less)

lemma escaped_text:
  "utf8_ok (AppendUtf16Escaped u @ r) = utf8_ok r"
  "list_all (\<lambda>b. 0x20 \<le> unat b) (AppendUtf16Escaped u)"
proof -
  let ?e = "[0x5C, 0x75, hex_digit (drop_bit 12 u), hex_digit (drop_bit 8 u AND 0xF),
    hex_digit (drop_bit 4 u AND 0xF), hex_digit (u AND 0xF)]"
  have e: "list_all (\<lambda>b. b < 0x80) ?e" "list_all (\<lambda>b. 0x20 \<le> unat b) ?e"
    by (simp_all add: hex_digit_ascii unit_nibbles)
  show "utf8_ok (AppendUtf16Escaped u @ r) = utf8_ok r"
    "list_all (\<lambda>b. 0x20 \<le> unat b) (AppendUtf16Escaped u)"
    using e utf8_ok_ascii_append [OF e(1), of r] unat_u16_less [of u]
    by (auto simp: AppendUtf16Escaped_def AppendUtf8Bmp_enc utf8_ok_enc utf8_enc_printable
        scalar_def word_less_nat_alt word_le_nat_alt)
qed

lemma identifier_text:
  "utf8_ok (AppendUtf16AsIdentifier us) \<and> list_all (\<lambda>b. 0x20 \<le> unat b) (AppendUtf16AsIdentifier us)"
proof (induction us rule: AppendUtf16AsIdentifier.induct)
  case (2 u)
  then show ?case using escaped_text(1) [of u "[]"] escaped_text(2) [of u] by simp
next
  case (3 u v us)
  show ?case
  proof (cases "surrogate_pair u v")
    case True
    let ?c = "unat (pair_code_point u v)"
    have "0x10000 \<le> ?c" "?c < 0x110000"
      using True unfolding unat_pair_code_point [OF True] surrogate_pair_unat by linarith+
    with 3 True show ?thesis
      by (simp add: AppendUtf8Astral_enc utf8_ok_enc scalar_def utf8_enc_printable)
  next
    case False
    with 3 show ?thesis by (simp add: escaped_text)
  qed
qed simp

section \<open>Further results\<close>

text \<open>
  An identifier renders as well-formed UTF-8 without control characters, whatever units it has.
\<close>

theorem identifier_text_valid:
  "utf8_ok (AppendUtf16AsIdentifier us) \<and> list_all (\<lambda>b. 0x20 \<le> unat b) (AppendUtf16AsIdentifier us)"
  by (rule identifier_text)

section \<open>Properties\<close>

text \<open>
  C32. A well-formed UTF-8 query becomes canonical modified UTF-8 and comes back unchanged through the
  exact and through the lossy decoder.
\<close>

theorem query_roundtrip:
  assumes "utf8_ok s"
  shows "mutf8_ok (Utf8ToMutf8 s) \<and> Mutf8ToUtf8 (Utf8ToMutf8 s) = s \<and> Mutf8ToUtf8Lossy (Utf8ToMutf8 s) = s"
proof -
  obtain cps where cps: "list_all scalar cps" "s = concat (map utf8_enc cps)"
    using assms utf8_ok_iff by blast
  then have m: "Utf8ToMutf8 s = concat (map mutf8_enc cps)" by (simp add: Utf8ToMutf8_scalars)
  have "Mutf8ToUtf8Lossy (Utf8ToMutf8 s) = s"
    unfolding m Mutf8ToUtf8Lossy_from using lossy.run_concat [OF cps(1)] cps(2) by simp
  moreover have "Mutf8ToUtf8 (Utf8ToMutf8 s) = s" using utf8_mutf8_utf8 [OF cps(1)] cps(2) by simp
  moreover have "mutf8_ok (Utf8ToMutf8 s)" unfolding m concat_mutf8_enc by (rule mutf8_ok_concat)
  ultimately show ?thesis by blast
qed

text \<open>
  C33. The lossy decoder always returns well-formed UTF-8, for malformed and truncated input too.
\<close>

theorem lossy_always_utf8: "utf8_ok (Mutf8ToUtf8Lossy raw)"
  by (simp add: Mutf8ToUtf8Lossy_from utf8_ok_lossy_from)

end
