(* ===== verification/Cfg_Node.thy ===== *)
theory Cfg_Node
  imports Prelude "HOL-Library.AList"
begin

text \<open>
  The control-flow graph nodes of the decompiler (\<open>src/native/dad_cpp/include/node.h\<close>,
  \<open>node.cpp\<close>, \<open>include/basic_blocks.h\<close>, \<open>basic_blocks.cpp\<close>). Nodes are shared mutable objects
  reached through pointers: a \<open>store\<close> maps addresses to node objects, a null pointer is
  \<open>None\<close>, and every function that writes a node returns the new store. The C++ class hierarchy
  is one record whose \<open>n_class\<close> is the dynamic type; the instruction objects a block holds are a
  type parameter, compared by identity as the source compares \<open>IRFormPtr\<close>.

  \<open>std::unordered_map\<close> is an association list. Where the source iterates over one, the order of
  the list stands for the unspecified iteration order.
\<close>

section \<open>Flags\<close>

text \<open>The two flag classes keep at most one flag set: every setter clears all of them first.\<close>

datatype loop_type = NoLoop | Pretest | Posttest | Endless

definition set_is_pretest :: "bool \<Rightarrow> loop_type \<Rightarrow> loop_type" where
  "set_is_pretest v t = (if v then Pretest else NoLoop)"

definition set_is_posttest :: "bool \<Rightarrow> loop_type \<Rightarrow> loop_type" where
  "set_is_posttest v t = (if v then Posttest else NoLoop)"

definition set_is_endless :: "bool \<Rightarrow> loop_type \<Rightarrow> loop_type" where
  "set_is_endless v t = (if v then Endless else NoLoop)"

datatype node_type = NoType | TypeCond | TypeSwitch | TypeStmt | TypeReturn | TypeThrow

definition set_is_stmt :: "bool \<Rightarrow> node_type \<Rightarrow> node_type" where
  "set_is_stmt v t = (if v then TypeStmt else NoType)"

section \<open>Objects\<close>

datatype node_class =
  StatementBlock | ReturnBlock | ThrowBlock | SwitchBlock | CondBlock | ShortCircuitBlock
  | LoopBlock | TryBlock | CatchBlock | IntervalNode | DummyNode

text \<open>\<open>dynamic_cast<CondBlock*>\<close> and the others.\<close>

definition is_CondBlock :: "node_class \<Rightarrow> bool" where
  "is_CondBlock c \<longleftrightarrow> c = CondBlock \<or> c = ShortCircuitBlock \<or> c = LoopBlock"

definition is_BasicBlock :: "node_class \<Rightarrow> bool" where
  "is_BasicBlock c \<longleftrightarrow> c \<noteq> IntervalNode \<and> c \<noteq> DummyNode"

datatype condition = Condition (cond1: operand) (cond2: operand) (isand: bool) (isnot: bool)
  and operand = CondBlockOperand nat | ConditionOperand condition

record 'i node =
  n_class :: node_class
  n_name :: string
  n_num :: int
  n_po :: int
  n_in_catch :: bool
  n_interval :: "nat option"
  n_follow_if :: "nat option"
  n_follow_loop :: "nat option"
  n_follow_switch :: "nat option"
  n_looptype :: loop_type
  n_type :: node_type
  n_startloop :: bool
  n_latch :: "nat option"
  n_loop_nodes :: "nat list"
  n_ins :: "'i list"
  n_ins_range :: "(int \<times> int) option"
  n_loc_ins :: "(int \<times> 'i) list option"
  n_var_to_declare :: "'i list"
  n_catch_type :: string
  n_cases :: "nat list"
  n_default_case :: "nat option"
  n_node_to_case :: "(nat \<times> int list) list"
  n_true_branch :: "nat option"
  n_false_branch :: "nat option"
  n_cond :: "condition option"
  n_cond_node :: "nat option"
  n_try_start :: "nat option"
  n_catch_nodes :: "nat list"
  n_try_follow :: "nat option"
  n_exception_ins :: "'i option"
  n_catch_start :: "nat option"
  n_head :: "nat option"
  n_end :: "nat option"
  n_content :: "nat list"

record 'i store =
  heap :: "nat \<Rightarrow> 'i node"
  fresh :: nat

definition modify :: "nat \<Rightarrow> ('i node \<Rightarrow> 'i node) \<Rightarrow> 'i store \<Rightarrow> 'i store" where
  "modify n f s = s\<lparr>heap := (heap s)(n := f (heap s n))\<rparr>"

definition alloc :: "'i node \<Rightarrow> 'i store \<Rightarrow> nat \<times> 'i store" where
  "alloc x s = (fresh s, s\<lparr>heap := (heap s)(fresh s := x), fresh := Suc (fresh s)\<rparr>)"

lemma heap_modify [simp]: "heap (modify n f s) = (heap s)(n := f (heap s n))"
  by (simp add: modify_def)

lemma fresh_modify [simp]: "fresh (modify n f s) = fresh s"
  by (simp add: modify_def)

section \<open>Constructors\<close>

text \<open>\<open>Node::Node\<close> under \<open>BasicBlock::BasicBlock\<close>: every other field has its default.\<close>

definition new_block :: "node_class \<Rightarrow> node_type \<Rightarrow> string \<Rightarrow> 'i list \<Rightarrow> 'i node" where
  "new_block c t nm is =
     \<lparr>n_class = c, n_name = nm, n_num = 0, n_po = 0, n_in_catch = False, n_interval = None,
      n_follow_if = None, n_follow_loop = None, n_follow_switch = None, n_looptype = NoLoop,
      n_type = t, n_startloop = False, n_latch = None, n_loop_nodes = [], n_ins = is,
      n_ins_range = None, n_loc_ins = None, n_var_to_declare = [], n_catch_type = [],
      n_cases = [], n_default_case = None, n_node_to_case = [], n_true_branch = None,
      n_false_branch = None, n_cond = None, n_cond_node = None, n_try_start = None,
      n_catch_nodes = [], n_try_follow = None, n_exception_ins = None, n_catch_start = None,
      n_head = None, n_end = None, n_content = []\<rparr>"

definition new_StatementBlock :: "string \<Rightarrow> 'i list \<Rightarrow> 'i node" where
  "new_StatementBlock nm is = new_block StatementBlock TypeStmt nm is"

definition new_CondBlock :: "string \<Rightarrow> 'i list \<Rightarrow> 'i node" where
  "new_CondBlock nm is = new_block CondBlock TypeCond nm is"

definition new_ReturnBlock :: "string \<Rightarrow> 'i list \<Rightarrow> 'i node" where
  "new_ReturnBlock nm is = new_block ReturnBlock TypeReturn nm is"

definition new_ThrowBlock :: "string \<Rightarrow> 'i list \<Rightarrow> 'i node" where
  "new_ThrowBlock nm is = new_block ThrowBlock TypeThrow nm is"

definition new_SwitchBlock :: "string \<Rightarrow> 'i list \<Rightarrow> 'i node" where
  "new_SwitchBlock nm is = new_block SwitchBlock TypeSwitch nm is"

definition new_ShortCircuitBlock :: "string \<Rightarrow> condition \<Rightarrow> 'i node" where
  "new_ShortCircuitBlock nm c = (new_block ShortCircuitBlock TypeCond nm [])\<lparr>n_cond := Some c\<rparr>"

definition new_LoopBlock :: "string \<Rightarrow> nat \<Rightarrow> 'i node" where
  "new_LoopBlock nm n = (new_block LoopBlock TypeCond nm [])\<lparr>n_cond_node := Some n\<rparr>"

definition new_TryBlock :: "nat \<Rightarrow> 'i store \<Rightarrow> 'i node" where
  "new_TryBlock n s =
     (new_block TryBlock NoType (''Try-'' @ n_name (heap s n)) [])
       \<lparr>n_try_start := Some n, n_num := n_num (heap s n)\<rparr>"

text \<open>
  \<open>CatchBlock::PrepareInit\<close>: when the block starts with a move-exception, that instruction is
  popped from the block itself and kept apart. \<open>is_mex\<close> is the dynamic cast of an instruction.
\<close>

definition new_CatchBlock :: "('i \<Rightarrow> bool) \<Rightarrow> nat \<Rightarrow> 'i store \<Rightarrow> 'i node \<times> 'i store" where
  "new_CatchBlock is_mex n s =
     (let b = heap s n;
          popped = (case n_ins b of i # is \<Rightarrow> is_mex i | [] \<Rightarrow> False);
          exc = (if popped then Some (hd (n_ins b)) else None);
          rest = (if popped then tl (n_ins b) else n_ins b);
          s' = modify n (\<lambda>b. b\<lparr>n_ins := rest\<rparr>) s
      in ((new_block CatchBlock NoType (''Catch-'' @ n_name b) rest)
            \<lparr>n_exception_ins := exc, n_catch_start := Some n, n_catch_type := n_catch_type b\<rparr>, s'))"

text \<open>\<open>Interval::Interval\<close> also points the head at the new interval.\<close>

definition new_Interval :: "nat \<Rightarrow> 'i store \<Rightarrow> nat \<times> 'i store" where
  "new_Interval h s =
     (let (iv, s') = alloc ((new_block IntervalNode NoType (''Interval-'' @ n_name (heap s h)) [])
            \<lparr>n_head := Some h, n_in_catch := n_in_catch (heap s h), n_content := [h]\<rparr>) s
      in (iv, modify h (\<lambda>x. x\<lparr>n_interval := Some iv\<rparr>) s'))"

section \<open>Copying and renaming references\<close>

text \<open>\<open>Node::CopyFrom\<close>.\<close>

definition CopyFrom :: "'i node \<Rightarrow> 'i node \<Rightarrow> 'i node" where
  "CopyFrom other x =
     x\<lparr>n_num := n_num other, n_looptype := n_looptype other, n_interval := n_interval other,
       n_startloop := n_startloop other, n_type := n_type other,
       n_follow_if := n_follow_if other, n_follow_loop := n_follow_loop other,
       n_follow_switch := n_follow_switch other, n_latch := n_latch other,
       n_loop_nodes := n_loop_nodes other, n_in_catch := n_in_catch other\<rparr>"

definition MapGet :: "(nat \<times> nat) list \<Rightarrow> nat \<Rightarrow> nat" where
  "MapGet m k = (case map_of m k of Some v \<Rightarrow> v | None \<Rightarrow> k)"

definition remap :: "(nat \<times> nat) list \<Rightarrow> nat option \<Rightarrow> nat option" where
  "remap m = map_option (MapGet m)"

text \<open>\<open>Node::UpdateAttributeWith\<close>; the loop nodes lose duplicates and are ordered by number.\<close>

definition update_node :: "(nat \<times> nat) list \<Rightarrow> (nat \<Rightarrow> int) \<Rightarrow> 'i node \<Rightarrow> 'i node" where
  "update_node m num x =
     x\<lparr>n_latch := remap m (n_latch x), n_follow_if := remap m (n_follow_if x),
       n_follow_loop := remap m (n_follow_loop x), n_follow_switch := remap m (n_follow_switch x),
       n_loop_nodes := sort_key num (remdups (map (MapGet m) (n_loop_nodes x)))\<rparr>"

text \<open>\<open>SwitchBlock::UpdateAttributeWith\<close> moves the case keys of every renamed node.\<close>

fun move_case_keys :: "(nat \<times> nat) list \<Rightarrow> (nat \<times> int list) list \<Rightarrow> (nat \<times> int list) list" where
  "move_case_keys [] c = c"
| "move_case_keys ((n1, n2) # m) c =
     (case map_of c n1 of
        None \<Rightarrow> move_case_keys m c
      | Some v \<Rightarrow> move_case_keys m (AList.update n2 v (AList.delete n1 c)))"

definition update_switch :: "(nat \<times> nat) list \<Rightarrow> 'i node \<Rightarrow> 'i node" where
  "update_switch m x =
     x\<lparr>n_cases := map (MapGet m) (n_cases x), n_default_case := remap m (n_default_case x),
       n_node_to_case := move_case_keys m (n_node_to_case x)\<rparr>"

definition update_cond :: "(nat \<times> nat) list \<Rightarrow> 'i node \<Rightarrow> 'i node" where
  "update_cond m x =
     x\<lparr>n_true_branch := remap m (n_true_branch x), n_false_branch := remap m (n_false_branch x)\<rparr>"

definition UpdateAttributeWith :: "(nat \<times> nat) list \<Rightarrow> nat \<Rightarrow> 'i store \<Rightarrow> 'i store" where
  "UpdateAttributeWith m n s =
     (let num = (\<lambda>k. n_num (heap s k)); c = n_class (heap s n) in
      if c = IntervalNode then s
      else if c = SwitchBlock then modify n (\<lambda>x. update_switch m (update_node m num x)) s
      else if is_CondBlock c then modify n (\<lambda>x. update_cond m (update_node m num x)) s
      else modify n (update_node m num) s)"

section \<open>Instructions of a block\<close>

definition get_loc_with_ins :: "'i node \<Rightarrow> (int \<times> 'i) list" where
  "get_loc_with_ins x =
     (case n_loc_ins x of
        Some l \<Rightarrow> l
      | None \<Rightarrow>
        (case n_ins_range x of
           None \<Rightarrow> []
         | Some (lo, hi) \<Rightarrow> zip (map (\<lambda>k. lo + int k) [0..<nat (hi - lo)]) (n_ins x)))"

text \<open>The lazy list is materialised by the read.\<close>

definition build_loc_ins :: "'i node \<Rightarrow> 'i node" where
  "build_loc_ins x = x\<lparr>n_loc_ins := Some (get_loc_with_ins x)\<rparr>"

definition block_remove_ins :: "int \<Rightarrow> 'i option \<Rightarrow> 'i node \<Rightarrow> 'i node" where
  "block_remove_ins loc i x =
     (case i of
        None \<Rightarrow> x
      | Some i \<Rightarrow>
        x\<lparr>n_ins := remove1 i (n_ins x),
          n_loc_ins := map_option (remove1 (loc, i)) (n_loc_ins x)\<rparr>)"

definition add_ins :: "'i list \<Rightarrow> 'i node \<Rightarrow> 'i node" where
  "add_ins new x = x\<lparr>n_ins := n_ins x @ new\<rparr>"

definition add_variable_declaration :: "'i \<Rightarrow> 'i node \<Rightarrow> 'i node" where
  "add_variable_declaration v x =
     (if v \<in> set (n_var_to_declare x) then x
      else x\<lparr>n_var_to_declare := n_var_to_declare x @ [v]\<rparr>)"

definition block_number_ins :: "int \<Rightarrow> 'i node \<Rightarrow> int \<times> 'i node" where
  "block_number_ins num x =
     (let hi = num + int (length (n_ins x))
      in (hi, x\<lparr>n_ins_range := Some (num, hi), n_loc_ins := None\<rparr>))"

definition set_catch_type :: "string \<Rightarrow> 'i node \<Rightarrow> 'i node" where
  "set_catch_type t x = x\<lparr>n_catch_type := t\<rparr>"

section \<open>Intervals\<close>

text \<open>
  \<open>Interval::Contains\<close> looks into nested intervals. An interval is allocated after its members,
  so the depth of the recursion is below its own address.
\<close>

fun contains_to :: "nat \<Rightarrow> 'i store \<Rightarrow> nat \<Rightarrow> nat \<Rightarrow> bool" where
  "contains_to 0 s iv x = False"
| "contains_to (Suc d) s iv x =
     (x \<in> set (n_content (heap s iv)) \<or>
      (\<exists>n \<in> set (n_content (heap s iv)).
         n_class (heap s n) = IntervalNode \<and> contains_to d s n x))"

definition Contains :: "'i store \<Rightarrow> nat \<Rightarrow> nat \<Rightarrow> bool" where
  "Contains s iv x = contains_to (Suc iv) s iv x"

definition AddNode :: "nat \<Rightarrow> nat \<Rightarrow> 'i store \<Rightarrow> bool \<times> 'i store" where
  "AddNode iv n s =
     (if n \<in> set (n_content (heap s iv)) then (False, s)
      else (True, modify n (\<lambda>x. x\<lparr>n_interval := Some iv\<rparr>)
                    (modify iv (\<lambda>x. x\<lparr>n_content := n_content x @ [n]\<rparr>) s)))"

text \<open>\<open>GetHead\<close> and \<open>GetEnd\<close> go down nested intervals to a basic block.\<close>

fun head_to :: "nat \<Rightarrow> 'i store \<Rightarrow> nat \<Rightarrow> nat option" where
  "head_to 0 s n = None"
| "head_to (Suc d) s n =
     (if n_class (heap s n) = IntervalNode
      then (case n_head (heap s n) of None \<Rightarrow> None | Some h \<Rightarrow> head_to d s h)
      else Some n)"

definition GetHead :: "'i store \<Rightarrow> nat \<Rightarrow> nat option" where
  "GetHead s n = head_to (Suc n) s n"

fun end_to :: "nat \<Rightarrow> 'i store \<Rightarrow> nat \<Rightarrow> nat option" where
  "end_to 0 s n = None"
| "end_to (Suc d) s n =
     (if n_class (heap s n) = IntervalNode
      then (case n_end (heap s n) of None \<Rightarrow> None | Some h \<Rightarrow> end_to d s h)
      else Some n)"

definition GetEnd :: "'i store \<Rightarrow> nat \<Rightarrow> nat option" where
  "GetEnd s n = end_to (Suc n) s n"

lemma block_head_end:
  assumes "n_class (heap s n) \<noteq> IntervalNode"
  shows "GetHead s n = Some n" "GetEnd s n = Some n"
  using assms by (simp_all add: GetHead_def GetEnd_def)

end
