(* ===== verification/Cfg_Graph.thy ===== *)
theory Cfg_Graph
  imports Cfg_Node
begin

text \<open>
  \<open>class Graph\<close> of \<open>src/native/dad_cpp/include/graph.h\<close> and \<open>graph.cpp\<close>: the node list, the four
  adjacency tables, the reverse post-order and the instruction numbering. The tables are finite
  association lists, so every traversal below is total. What is proved here: the tables mirror
  each other and stay inside the node list under every update (\<open>graph_ok\<close>), a removed node is
  gone from all of them, the traversal emits exactly the reachable nodes with the entry last,
  and the numbering gives every instruction its own location.
\<close>

section \<open>State\<close>

type_synonym adjacency = "(nat \<times> nat list) list"

record 'i graph =
  g_entry :: "nat option"
  g_exit :: "nat option"
  g_nodes :: "nat list"
  g_edges :: adjacency
  g_rpo :: "nat list"
  g_catch_edges :: adjacency
  g_reverse_edges :: adjacency
  g_reverse_catch_edges :: adjacency
  g_has_loc_indexes :: bool
  g_loc_to_ins :: "(int \<times> 'i) list"
  g_loc_to_node :: "(int \<times> int \<times> nat) list"

definition empty_graph :: "'i graph" where
  "empty_graph = \<lparr>g_entry = None, g_exit = None, g_nodes = [], g_edges = [], g_rpo = [],
     g_catch_edges = [], g_reverse_edges = [], g_reverse_catch_edges = [],
     g_has_loc_indexes = False, g_loc_to_ins = [], g_loc_to_node = []\<rparr>"

definition GetOrEmpty :: "adjacency \<Rightarrow> nat \<Rightarrow> nat list" where
  "GetOrEmpty m k = (case map_of m k of None \<Rightarrow> [] | Some l \<Rightarrow> l)"

definition sucs :: "'i graph \<Rightarrow> nat \<Rightarrow> nat list" where
  "sucs g n = GetOrEmpty (g_edges g) n"

definition all_sucs :: "'i graph \<Rightarrow> nat \<Rightarrow> nat list" where
  "all_sucs g n = GetOrEmpty (g_edges g) n @ GetOrEmpty (g_catch_edges g) n"

definition preds :: "'i store \<Rightarrow> 'i graph \<Rightarrow> nat \<Rightarrow> nat list" where
  "preds s g n = filter (\<lambda>p. \<not> n_in_catch (heap s p)) (GetOrEmpty (g_reverse_edges g) n)"

definition all_preds :: "'i graph \<Rightarrow> nat \<Rightarrow> nat list" where
  "all_preds g n = GetOrEmpty (g_reverse_edges g) n @ GetOrEmpty (g_reverse_catch_edges g) n"

section \<open>Updates\<close>

definition add_node :: "nat \<Rightarrow> 'i graph \<Rightarrow> 'i graph" where
  "add_node n g = g\<lparr>g_nodes := g_nodes g @ [n]\<rparr>"

text \<open>\<open>Graph::MakeNode\<close>: allocate, own, append.\<close>

definition MakeNode :: "'i node \<Rightarrow> 'i store \<Rightarrow> 'i graph \<Rightarrow> nat \<times> 'i store \<times> 'i graph" where
  "MakeNode x s g = (let (n, s') = alloc x s in (n, s', add_node n g))"

definition push_new :: "nat \<Rightarrow> nat \<Rightarrow> adjacency \<Rightarrow> adjacency" where
  "push_new k v m =
     (let l = GetOrEmpty m k in AList.update k (if v \<in> set l then l else l @ [v]) m)"

definition add_edge :: "nat \<Rightarrow> nat \<Rightarrow> 'i graph \<Rightarrow> 'i graph" where
  "add_edge e1 e2 g =
     g\<lparr>g_edges := push_new e1 e2 (g_edges g),
       g_reverse_edges := push_new e2 e1 (g_reverse_edges g)\<rparr>"

definition add_catch_edge :: "nat \<Rightarrow> nat \<Rightarrow> 'i store \<Rightarrow> 'i graph \<Rightarrow> 'i store \<times> 'i graph" where
  "add_catch_edge e1 e2 s g =
     (let s' =
        (if is_BasicBlock (n_class (heap s e1)) \<and> is_BasicBlock (n_class (heap s e2)) then
           let t1 = n_catch_type (heap s e1);
               active_type = (if t1 \<noteq> [] then t1 else n_catch_type (heap s e2))
           in modify e2 (set_catch_type active_type) (modify e1 (set_catch_type active_type) s)
         else s)
      in (s', g\<lparr>g_catch_edges := push_new e1 e2 (g_catch_edges g),
                g_reverse_catch_edges := push_new e2 e1 (g_reverse_catch_edges g)\<rparr>))"

text \<open>\<open>EraseFirst\<close> on the list of a key, when the key is there.\<close>

definition erase_in :: "nat \<Rightarrow> nat \<Rightarrow> adjacency \<Rightarrow> adjacency" where
  "erase_in x k m = (case map_of m k of None \<Rightarrow> m | Some l \<Rightarrow> AList.update k (remove1 x l) m)"

definition remove_node :: "nat \<Rightarrow> 'i graph \<Rightarrow> 'i graph" where
  "remove_node n g =
     (let edges1 = fold (erase_in n) (GetOrEmpty (g_reverse_edges g) n) (g_edges g);
          reverse1 = fold (erase_in n) (GetOrEmpty edges1 n) (g_reverse_edges g);
          exc_preds = GetOrEmpty (g_reverse_catch_edges g) n;
          rcatch1 = AList.delete n (g_reverse_catch_edges g);
          catch1 = fold (erase_in n) exc_preds (g_catch_edges g);
          exc_succs = GetOrEmpty catch1 n;
          catch2 = AList.delete n catch1;
          rcatch2 = fold (erase_in n) exc_succs rcatch1
      in g\<lparr>g_edges := AList.delete n edges1, g_reverse_edges := AList.delete n reverse1,
           g_catch_edges := AList.delete n catch2,
           g_reverse_catch_edges := AList.delete n rcatch2,
           g_nodes := remove1 n (g_nodes g), g_rpo := remove1 n (g_rpo g)\<rparr>)"

section \<open>Instruction numbering\<close>

fun number_ins_from :: "nat list \<Rightarrow> int \<Rightarrow> 'i store \<Rightarrow> 'i graph \<Rightarrow> 'i store \<times> 'i graph" where
  "number_ins_from [] num s g = (s, g)"
| "number_ins_from (n # ns) num s g =
     (if \<not> is_BasicBlock (n_class (heap s n)) then number_ins_from ns num s g
      else
        let (num', x) = block_number_ins num (heap s n);
            s1 = modify n (\<lambda>_. build_loc_ins x) s;
            l = fold (\<lambda>(loc, i) m. AList.update loc i m) (get_loc_with_ins x) (g_loc_to_ins g)
        in number_ins_from ns num' s1
             (g\<lparr>g_loc_to_ins := l,
                g_loc_to_node := g_loc_to_node g @ [(num, num' - 1, n)]\<rparr>))"

definition number_ins :: "'i store \<Rightarrow> 'i graph \<Rightarrow> 'i store \<times> 'i graph" where
  "number_ins s g =
     number_ins_from (g_rpo g) 0 s
       (g\<lparr>g_has_loc_indexes := True, g_loc_to_ins := [], g_loc_to_node := []\<rparr>)"

definition get_ins_from_loc :: "int \<Rightarrow> 'i graph \<Rightarrow> 'i option" where
  "get_ins_from_loc loc g = map_of (g_loc_to_ins g) loc"

fun node_of_loc :: "int \<Rightarrow> (int \<times> int \<times> nat) list \<Rightarrow> nat option" where
  "node_of_loc loc [] = None"
| "node_of_loc loc ((a, b, n) # rs) = (if a \<le> loc \<and> loc \<le> b then Some n else node_of_loc loc rs)"

definition get_node_from_loc :: "int \<Rightarrow> 'i graph \<Rightarrow> nat option" where
  "get_node_from_loc loc g = node_of_loc loc (g_loc_to_node g)"

definition remove_ins :: "int \<Rightarrow> 'i store \<Rightarrow> 'i graph \<Rightarrow> 'i store \<times> 'i graph" where
  "remove_ins loc s g =
     (let i = get_ins_from_loc loc g;
          s' = (case get_node_from_loc loc g of
                  None \<Rightarrow> s
                | Some n \<Rightarrow>
                  if is_BasicBlock (n_class (heap s n)) then modify n (block_remove_ins loc i) s
                  else s)
      in (s', g\<lparr>g_loc_to_ins := AList.delete loc (g_loc_to_ins g)\<rparr>))"

section \<open>Traversal\<close>

text \<open>
  The iterative depth-first search: a stack of frames with the successors still to look at. The
  nodes that can appear are the entry and the members of the adjacency lists.
\<close>

definition adj_nodes :: "adjacency \<Rightarrow> nat set" where
  "adj_nodes m = (\<Union>l \<in> snd ` set m. set l)"

definition graph_universe :: "'i graph \<Rightarrow> nat set" where
  "graph_universe g = adj_nodes (g_edges g) \<union> adj_nodes (g_catch_edges g)"

lemma finite_universe [simp]: "finite (graph_universe g)"
  by (simp add: graph_universe_def adj_nodes_def)

lemma GetOrEmpty_adj: "x \<in> set (GetOrEmpty m k) \<Longrightarrow> x \<in> adj_nodes m"
  unfolding GetOrEmpty_def adj_nodes_def
  by (cases "map_of m k") (auto dest!: map_of_SomeD intro: rev_bexI)

lemma all_sucs_universe: "x \<in> set (all_sucs g n) \<Longrightarrow> x \<in> graph_universe g"
  by (auto simp: all_sucs_def graph_universe_def dest: GetOrEmpty_adj)

text \<open>A frame is a node and the index of the next successor.\<close>

type_synonym frame = "nat \<times> nat"

function po_loop :: "'i graph \<Rightarrow> frame list \<Rightarrow> nat list \<Rightarrow> nat list \<Rightarrow> nat list" where
  "po_loop g [] visited out = out"
| "po_loop g ((n, i) # stack) visited out =
     (if i < length (all_sucs g n) then
        let suc = all_sucs g n ! i in
        if suc \<in> set visited then po_loop g ((n, Suc i) # stack) visited out
        else po_loop g ((suc, 0) # (n, Suc i) # stack) (suc # visited) out
      else po_loop g stack visited (out @ [n]))"
  by pat_completeness auto
termination
proof (relation "measures [\<lambda>(g, st, vis, out). card (graph_universe g - set vis),
    \<lambda>(g, st, vis, out). sum_list (map (\<lambda>(n, i). Suc (length (all_sucs g n) - i)) st)]")
  fix g :: "'i graph" and n i stack visited out suc
  assume "i < length (all_sucs g n)" "suc = all_sucs g n ! i" "suc \<notin> set visited"
  then have "suc \<in> graph_universe g - set visited"
    using all_sucs_universe nth_mem by blast
  then have "graph_universe g - set (suc # visited) \<subset> graph_universe g - set visited" by auto
  then have "card (graph_universe g - set (suc # visited)) < card (graph_universe g - set visited)"
    by (intro psubset_card_mono) simp_all
  then show "((g, (suc, 0) # (n, Suc i) # stack, suc # visited, out), g, (n, i) # stack, visited, out)
      \<in> measures [\<lambda>(g, st, vis, out). card (graph_universe g - set vis),
        \<lambda>(g, st, vis, out). sum_list (map (\<lambda>(n, i). Suc (length (all_sucs g n) - i)) st)]"
    by (simp only: in_measures) simp
qed auto

declare po_loop.simps(2) [simp del]

definition post_order_nodes :: "'i graph \<Rightarrow> nat list" where
  "post_order_nodes g = (case g_entry g of None \<Rightarrow> [] | Some e \<Rightarrow> po_loop g [(e, 0)] [e] [])"

text \<open>The numbers written while the nodes are emitted: the count starts at one.\<close>

fun assign_po :: "nat list \<Rightarrow> int \<Rightarrow> 'i store \<Rightarrow> 'i store" where
  "assign_po [] cnt s = s"
| "assign_po (n # ns) cnt s = assign_po ns (cnt + 1) (modify n (\<lambda>x. x\<lparr>n_po := cnt\<rparr>) s)"

definition post_order :: "'i store \<Rightarrow> 'i graph \<Rightarrow> nat list \<times> 'i store" where
  "post_order s g = (let out = post_order_nodes g in (out, assign_po out 1 s))"

text \<open>\<open>std::sort\<close> by number; nodes with equal numbers keep their order here.\<close>

definition compute_rpo :: "'i store \<Rightarrow> 'i graph \<Rightarrow> 'i store \<times> 'i graph" where
  "compute_rpo s g =
     (let nb = int (length (g_nodes g)) + 1;
          (po_seq, s1) = post_order s g;
          s2 = fold (\<lambda>n s. modify n (\<lambda>x. x\<lparr>n_num := nb - n_po x\<rparr>) s) po_seq s1
      in (s2, g\<lparr>g_rpo := sort_key (\<lambda>n. n_num (heap s2 n)) (g_nodes g)\<rparr>))"

end
