(* ===== verification/Cfg_Graph_Laws.thy ===== *)
theory Cfg_Graph_Laws
  imports Cfg_Graph
begin

text \<open>
  The invariant of \<open>Graph\<close> and what its operations do to it. Two adjacency tables are
  \<open>mirrored\<close> when one is the converse of the other and neither holds a duplicate; a graph is
  \<open>graph_ok\<close> when both pairs of tables are, and every edge joins two listed nodes. The tables
  are only ever reached through \<open>GetOrEmpty\<close>, so each operation is described by what
  \<open>GetOrEmpty\<close> returns after it.
\<close>

named_theorems graph_simps \<open>fields and tables of an updated graph\<close>

section \<open>Tables\<close>

lemma GetOrEmpty_Nil [simp]: "GetOrEmpty [] k = []"
  by (simp add: GetOrEmpty_def)

lemma GetOrEmpty_update [simp]:
  "GetOrEmpty (AList.update k l m) j = (if j = k then l else GetOrEmpty m j)"
  by (simp add: GetOrEmpty_def update_conv)

lemma GetOrEmpty_delete [simp]:
  "GetOrEmpty (AList.delete k m) j = (if j = k then [] else GetOrEmpty m j)"
  by (simp add: GetOrEmpty_def delete_conv)

lemma GetOrEmpty_erase_in [simp]:
  "GetOrEmpty (erase_in x k m) j = (if j = k then remove1 x (GetOrEmpty m k) else GetOrEmpty m j)"
  by (cases "map_of m k") (simp_all add: erase_in_def GetOrEmpty_def update_conv)

lemma GetOrEmpty_push_new [simp]:
  "GetOrEmpty (push_new k v m) j =
     (if j = k then (if v \<in> set (GetOrEmpty m k) then GetOrEmpty m k else GetOrEmpty m k @ [v])
      else GetOrEmpty m j)"
  by (simp add: push_new_def Let_def)

lemma GetOrEmpty_fold_erase:
  "distinct ks \<Longrightarrow> GetOrEmpty (fold (erase_in x) ks m) j =
     (if j \<in> set ks then remove1 x (GetOrEmpty m j) else GetOrEmpty m j)"
  by (induction ks arbitrary: m) auto

section \<open>The invariant\<close>

definition mirrored :: "adjacency \<Rightarrow> adjacency \<Rightarrow> bool" where
  "mirrored m r \<longleftrightarrow>
     (\<forall>u v. v \<in> set (GetOrEmpty m u) \<longleftrightarrow> u \<in> set (GetOrEmpty r v)) \<and>
     (\<forall>u. distinct (GetOrEmpty m u)) \<and> (\<forall>u. distinct (GetOrEmpty r u))"

definition inside :: "nat set \<Rightarrow> adjacency \<Rightarrow> bool" where
  "inside V m \<longleftrightarrow> (\<forall>u v. v \<in> set (GetOrEmpty m u) \<longrightarrow> u \<in> V \<and> v \<in> V)"

definition graph_ok :: "'i graph \<Rightarrow> bool" where
  "graph_ok g \<longleftrightarrow>
     mirrored (g_edges g) (g_reverse_edges g) \<and>
     mirrored (g_catch_edges g) (g_reverse_catch_edges g) \<and>
     inside (set (g_nodes g)) (g_edges g) \<and> inside (set (g_nodes g)) (g_catch_edges g) \<and>
     distinct (g_nodes g)"

lemma mirrored_Nil [simp]: "mirrored [] []"
  by (simp add: mirrored_def)

lemma mirrored_push: "mirrored m r \<Longrightarrow> mirrored (push_new u v m) (push_new v u r)"
  unfolding mirrored_def by (auto simp del: not_None_eq)

lemma inside_push: "inside V m \<Longrightarrow> u \<in> V \<Longrightarrow> v \<in> V \<Longrightarrow> inside V (push_new u v m)"
  by (auto simp: inside_def)

lemma inside_mono: "inside V m \<Longrightarrow> V \<subseteq> W \<Longrightarrow> inside W m"
  by (auto simp: inside_def)

lemma graph_ok_empty [simp]: "graph_ok empty_graph"
  by (simp add: graph_ok_def empty_graph_def inside_def)

lemma graph_ok_add_node: "graph_ok g \<Longrightarrow> n \<notin> set (g_nodes g) \<Longrightarrow> graph_ok (add_node n g)"
  by (auto simp: graph_ok_def add_node_def elim: inside_mono)

lemma graph_ok_add_edge:
  "graph_ok g \<Longrightarrow> u \<in> set (g_nodes g) \<Longrightarrow> v \<in> set (g_nodes g) \<Longrightarrow> graph_ok (add_edge u v g)"
  by (simp add: graph_ok_def add_edge_def mirrored_push inside_push)

lemma graph_ok_add_catch_edge:
  "graph_ok g \<Longrightarrow> u \<in> set (g_nodes g) \<Longrightarrow> v \<in> set (g_nodes g) \<Longrightarrow>
     graph_ok (snd (add_catch_edge u v s g))"
  by (simp add: graph_ok_def add_catch_edge_def Let_def mirrored_push inside_push)

section \<open>Removal\<close>

text \<open>After a removal every table is the old one without the node, on either side.\<close>

definition without :: "nat \<Rightarrow> adjacency \<Rightarrow> nat \<Rightarrow> nat list" where
  "without n m k = (if k = n then [] else filter (\<lambda>x. x \<noteq> n) (GetOrEmpty m k))"

lemma remove1_filter: "distinct l \<Longrightarrow> remove1 n l = filter (\<lambda>x. x \<noteq> n) l"
  by (simp add: distinct_remove1_removeAll removeAll_filter_not_eq) (metis)

lemma purge_forward:
  assumes "mirrored m r"
  shows "GetOrEmpty (AList.delete n (fold (erase_in n) (GetOrEmpty r n) m)) k = without n m k"
proof -
  have d: "distinct (GetOrEmpty r n)" "distinct (GetOrEmpty m k)" using assms by (auto simp: mirrored_def)
  have "filter (\<lambda>x. x \<noteq> n) (GetOrEmpty m k) = GetOrEmpty m k" if "k \<notin> set (GetOrEmpty r n)"
    using that assms by (auto simp: mirrored_def filter_id_conv)
  then show ?thesis
    using d by (simp add: GetOrEmpty_fold_erase remove1_filter without_def)
qed

lemma purge_backward:
  assumes "mirrored m r" and "distinct ks" and "\<And>x. x \<noteq> n \<Longrightarrow> x \<in> set ks \<longleftrightarrow> x \<in> set (GetOrEmpty m n)"
  shows "GetOrEmpty (AList.delete n (fold (erase_in n) ks r)) k = without n r k"
proof -
  have d: "distinct (GetOrEmpty r k)" using assms by (auto simp: mirrored_def)
  have "filter (\<lambda>x. x \<noteq> n) (GetOrEmpty r k) = GetOrEmpty r k" if "k \<notin> set ks" "k \<noteq> n"
    using that assms by (auto simp: mirrored_def filter_id_conv)
  then show ?thesis
    using d assms(2) by (simp add: GetOrEmpty_fold_erase remove1_filter without_def)
qed

lemma mirrored_converse: "mirrored m r \<Longrightarrow> mirrored r m"
  by (auto simp: mirrored_def)

lemma mirrored_without:
  assumes "mirrored m r"
    and "\<And>k. GetOrEmpty m' k = without n m k" and "\<And>k. GetOrEmpty r' k = without n r k"
  shows "mirrored m' r'"
  using assms by (auto simp: mirrored_def without_def)

lemma remove_node_tables:
  assumes "graph_ok g"
  shows "GetOrEmpty (g_edges (remove_node n g)) k = without n (g_edges g) k"
    and "GetOrEmpty (g_reverse_edges (remove_node n g)) k = without n (g_reverse_edges g) k"
    and "GetOrEmpty (g_catch_edges (remove_node n g)) k = without n (g_catch_edges g) k"
    and "GetOrEmpty (g_reverse_catch_edges (remove_node n g)) k =
      without n (g_reverse_catch_edges g) k"
proof -
  let ?E = "g_edges g" and ?R = "g_reverse_edges g"
    and ?C = "g_catch_edges g" and ?S = "g_reverse_catch_edges g"
  have m: "mirrored ?E ?R" "mirrored ?C ?S" using assms by (auto simp: graph_ok_def)
  note d = m [unfolded mirrored_def]
  show "GetOrEmpty (g_edges (remove_node n g)) k = without n ?E k"
    using purge_forward [OF m(1)] by (simp add: remove_node_def Let_def del: GetOrEmpty_delete)
  let ?e1 = "fold (erase_in n) (GetOrEmpty ?R n) ?E"
  have "distinct (GetOrEmpty ?e1 n)" using d by (simp add: GetOrEmpty_fold_erase)
  moreover have "x \<in> set (GetOrEmpty ?e1 n) \<longleftrightarrow> x \<in> set (GetOrEmpty ?E n)" if "x \<noteq> n" for x
    using d that by (simp add: GetOrEmpty_fold_erase)
  ultimately show "GetOrEmpty (g_reverse_edges (remove_node n g)) k = without n ?R k"
    using purge_backward [OF m(1)] by (simp add: remove_node_def Let_def del: GetOrEmpty_delete)
  let ?c1 = "fold (erase_in n) (GetOrEmpty ?S n) ?C"
  have c1: "GetOrEmpty (AList.delete n ?c1) k = without n ?C k" for k
    by (rule purge_forward [OF m(2)])
  show "GetOrEmpty (g_catch_edges (remove_node n g)) k = without n ?C k"
    using c1 [of k] by (cases "k = n") (simp_all add: remove_node_def Let_def)
  have "distinct (GetOrEmpty ?c1 n)" using d by (simp add: GetOrEmpty_fold_erase)
  moreover have "x \<in> set (GetOrEmpty ?c1 n) \<longleftrightarrow> x \<in> set (GetOrEmpty ?C n)" if "x \<noteq> n" for x
    using d that by (simp add: GetOrEmpty_fold_erase)
  ultimately have b: "GetOrEmpty (AList.delete n (fold (erase_in n) (GetOrEmpty ?c1 n) ?S)) k =
      without n ?S k"
    by (rule purge_backward [OF m(2)])
  have "distinct (GetOrEmpty ?c1 n)" by fact
  then show "GetOrEmpty (g_reverse_catch_edges (remove_node n g)) k = without n ?S k"
    using b by (auto simp: remove_node_def Let_def GetOrEmpty_fold_erase split: if_splits)
qed

lemma remove_node_nodes [simp]: "g_nodes (remove_node n g) = remove1 n (g_nodes g)"
  by (simp add: remove_node_def Let_def)

lemma graph_ok_remove_node:
  assumes "graph_ok g"
  shows "graph_ok (remove_node n g)"
proof -
  note t = remove_node_tables [OF assms]
  have m: "mirrored (g_edges g) (g_reverse_edges g)"
    "mirrored (g_catch_edges g) (g_reverse_catch_edges g)"
    "distinct (g_nodes g)" using assms by (auto simp: graph_ok_def)
  have i: "inside (set (g_nodes g)) (g_edges g)" "inside (set (g_nodes g)) (g_catch_edges g)"
    using assms by (auto simp: graph_ok_def)
  show ?thesis
    unfolding graph_ok_def
  proof (intro conjI)
    show "mirrored (g_edges (remove_node n g)) (g_reverse_edges (remove_node n g))"
      by (rule mirrored_without [OF m(1) t(1,2)])
    show "mirrored (g_catch_edges (remove_node n g)) (g_reverse_catch_edges (remove_node n g))"
      by (rule mirrored_without [OF m(2) t(3,4)])
    show "inside (set (g_nodes (remove_node n g))) (g_edges (remove_node n g))"
      using i(1) m(3) by (auto simp: inside_def t without_def split: if_splits)
    show "inside (set (g_nodes (remove_node n g))) (g_catch_edges (remove_node n g))"
      using i(2) m(3) by (auto simp: inside_def t without_def split: if_splits)
    show "distinct (g_nodes (remove_node n g))" using m(3) by simp
  qed
qed

lemma remove_node_gone:
  assumes "graph_ok g"
  shows "all_sucs (remove_node n g) n = []" "all_preds (remove_node n g) n = []"
    "n \<notin> set (all_sucs (remove_node n g) k)" "n \<notin> set (all_preds (remove_node n g) k)"
    "n \<notin> set (g_nodes (remove_node n g))"
  using assms by (auto simp: all_sucs_def all_preds_def remove_node_tables without_def graph_ok_def)

lemma remove_node_others:
  assumes "graph_ok g" and "k \<noteq> n"
  shows "all_sucs (remove_node n g) k = filter (\<lambda>x. x \<noteq> n) (all_sucs g k)"
    "all_preds (remove_node n g) k = filter (\<lambda>x. x \<noteq> n) (all_preds g k)"
  using assms by (simp_all add: all_sucs_def all_preds_def remove_node_tables without_def)

lemma graph_ok_preds: "graph_ok g \<Longrightarrow> u \<in> set (all_preds g v) \<longleftrightarrow> v \<in> set (all_sucs g u)"
  by (auto simp: graph_ok_def mirrored_def all_preds_def all_sucs_def)

lemma graph_ok_nodes: "graph_ok g \<Longrightarrow> v \<in> set (all_sucs g u) \<Longrightarrow>
    u \<in> set (g_nodes g) \<and> v \<in> set (g_nodes g)"
  by (auto simp: graph_ok_def inside_def all_sucs_def)

section \<open>Properties\<close>

text \<open>
  C21. Adding nodes and edges and removing nodes keeps the tables mirrored, duplicate free and inside
  the node list; removal takes exactly the node's edges away.
\<close>

theorem graph_updates:
  assumes "graph_ok g" and "u \<in> set (g_nodes g)" "v \<in> set (g_nodes g)" and "n \<notin> set (g_nodes g)"
  shows "graph_ok (add_node n g) \<and> graph_ok (add_edge u v g) \<and> graph_ok (snd (add_catch_edge u v s g)) \<and>
    graph_ok (remove_node u g) \<and> u \<notin> set (g_nodes (remove_node u g)) \<and>
    all_sucs (remove_node u g) k = (if k = u then [] else filter (\<lambda>x. x \<noteq> u) (all_sucs g k)) \<and>
    all_preds (remove_node u g) k = (if k = u then [] else filter (\<lambda>x. x \<noteq> u) (all_preds g k))"
  using assms remove_node_gone [OF assms(1)] remove_node_others [OF assms(1)]
  by (simp_all add: graph_ok_add_node graph_ok_add_edge graph_ok_add_catch_edge graph_ok_remove_node)

end
