(* ===== verification/Cfg_Numbering.thy ===== *)
theory Cfg_Numbering
  imports Cfg_Graph_Laws
begin

text \<open>
  Instruction numbering of \<open>Graph\<close>: \<open>number_ins\<close> walks the reverse post-order and gives the
  instructions consecutive locations. Shown here: a location leads back to its instruction and to
  the block that holds it, and every other number leads nowhere.
\<close>

definition ins_count :: "'i store \<Rightarrow> nat \<Rightarrow> nat" where
  "ins_count s n = length (n_ins (heap s n))"

text \<open>Where instruction \<open>i\<close> of the \<open>k\<close>-th block of \<open>ns\<close> is numbered, counting from \<open>num\<close>.\<close>

definition location :: "'i store \<Rightarrow> nat list \<Rightarrow> int \<Rightarrow> nat \<Rightarrow> nat \<Rightarrow> int" where
  "location s ns num k i = num + int (sum_list (map (ins_count s) (take k ns)) + i)"

lemma numbered_block:
  assumes "block_number_ins num y = (num', x)"
  shows "num' = num + int (length (n_ins y))" "n_ins (build_loc_ins x) = n_ins y"
    "get_loc_with_ins x = map (\<lambda>k. (num + int k, n_ins y ! k)) [0..<length (n_ins y)]"
proof -
  have x: "num' = num + int (length (n_ins y))"
    "x = y\<lparr>n_ins_range := Some (num, num + int (length (n_ins y))), n_loc_ins := None\<rparr>"
    using assms by (auto simp: block_number_ins_def Let_def)
  then show "num' = num + int (length (n_ins y))" "n_ins (build_loc_ins x) = n_ins y"
    by (simp_all add: build_loc_ins_def)
  show "get_loc_with_ins x = map (\<lambda>k. (num + int k, n_ins y ! k)) [0..<length (n_ins y)]"
    by (simp add: get_loc_with_ins_def x(2)) (rule nth_equalityI; simp)
qed

lemma map_of_locations:
  "map_of (fold (\<lambda>(loc, i). AList.update loc i) (map (\<lambda>k. (num + int k, l ! k)) [0..<n]) m) loc =
     (if num \<le> loc \<and> loc < num + int n then Some (l ! nat (loc - num)) else map_of m loc)"
proof (induction n)
  case 0
  then show ?case by auto
next
  case (Suc n)
  have "nat (loc - num) = n" if "loc = num + int n" using that by simp
  then show ?case using Suc by (auto simp: update_conv')
qed

lemma node_of_loc_append:
  "node_of_loc loc (xs @ ys) = (case node_of_loc loc xs of None \<Rightarrow> node_of_loc loc ys | Some n \<Rightarrow> Some n)"
  by (induction loc xs rule: node_of_loc.induct) auto

lemma location_Cons:
  "location s (n # ns) num 0 i = num + int i"
  "location s (n # ns) num (Suc k) i = location s ns (num + int (ins_count s n)) k i"
  by (simp_all add: location_def)

lemma location_ge: "num \<le> location s ns num k i"
  by (simp add: location_def)

text \<open>The walk, from any state of the tables that holds no location from \<open>num\<close> on.\<close>

lemma number_ins_from_facts:
  assumes "\<forall>n \<in> set ns. is_BasicBlock (n_class (heap s n))" "distinct ns"
    and "number_ins_from ns num s g = (s', g')" and "\<forall>loc \<ge> num. get_node_from_loc loc g = None"
  shows "(\<forall>k < length ns. \<forall>i < ins_count s (ns ! k).
      get_ins_from_loc (location s ns num k i) g' = Some (n_ins (heap s (ns ! k)) ! i) \<and>
      get_node_from_loc (location s ns num k i) g' = Some (ns ! k)) \<and>
    (\<forall>loc < num. get_ins_from_loc loc g' = get_ins_from_loc loc g \<and>
      get_node_from_loc loc g' = get_node_from_loc loc g) \<and>
    (\<forall>loc \<ge> num + int (sum_list (map (ins_count s) ns)).
      get_ins_from_loc loc g' = get_ins_from_loc loc g \<and> get_node_from_loc loc g' = None)"
  using assms
proof (induction ns arbitrary: num s g)
  case Nil
  then show ?case by auto
next
  case (Cons n ns)
  obtain num' x where b: "block_number_ins num (heap s n) = (num', x)" by fastforce
  note N = numbered_block [OF b]
  define s1 where "s1 = modify n (\<lambda>_. build_loc_ins x) s"
  define g1 where "g1 = g\<lparr>g_loc_to_ins := fold (\<lambda>(loc, i) m. AList.update loc i m) (get_loc_with_ins x) (g_loc_to_ins g),
      g_loc_to_node := g_loc_to_node g @ [(num, num' - 1, n)]\<rparr>"
  have basic: "is_BasicBlock (n_class (heap s n))" using Cons.prems(1) by simp
  have rec: "number_ins_from ns num' s1 g1 = (s', g')"
    using Cons.prems(3) basic b by (simp add: s1_def g1_def Let_def)
  have same: "heap s1 m = heap s m" if "m \<in> set ns" for m using that Cons.prems(2) by (auto simp: s1_def)
  have cnt: "ins_count s1 = ins_count s" using N(2) by (simp add: ins_count_def s1_def fun_eq_iff)
  have num': "num' = num + int (ins_count s n)" using N(1) by (simp add: ins_count_def)
  have ins: "get_ins_from_loc loc g1 =
      (if num \<le> loc \<and> loc < num' then Some (n_ins (heap s n) ! nat (loc - num)) else get_ins_from_loc loc g)" for loc
    unfolding get_ins_from_loc_def g1_def N(1,3) using map_of_locations [of num "n_ins (heap s n)"] by simp
  have nd: "get_node_from_loc loc g1 =
      (if num \<le> loc \<and> loc < num' then Some n else get_node_from_loc loc g)" for loc
    using Cons.prems(4) by (auto simp: get_node_from_loc_def g1_def node_of_loc_append split: option.split)
  have none: "\<forall>loc \<ge> num'. get_node_from_loc loc g1 = None" using Cons.prems(4) num' by (simp add: nd)
  have basics: "\<forall>m \<in> set ns. is_BasicBlock (n_class (heap s1 m))" "distinct ns"
    using Cons.prems(1,2) same by simp_all
  note IH = Cons.IH [OF basics rec none]
  have locs: "location s1 ns a k i = location s ns a k i" for a k i by (simp add: location_def cnt)
  have first: "get_ins_from_loc (location s (n # ns) num k i) g' = Some (n_ins (heap s ((n # ns) ! k)) ! i) \<and>
      get_node_from_loc (location s (n # ns) num k i) g' = Some ((n # ns) ! k)"
    if k: "k < length (n # ns)" "i < ins_count s ((n # ns) ! k)" for k i
  proof (cases k)
    case 0
    then have "num \<le> num + int i" "num + int i < num'" using k num' by simp_all
    with IH 0 show ?thesis by (simp add: location_Cons ins nd)
  next
    case (Suc j)
    then have j: "j < length ns" "ns ! j \<in> set ns" using k by simp_all
    with IH k Suc show ?thesis by (simp add: location_Cons locs cnt num' [symmetric] same)
  qed
  have "get_ins_from_loc loc g' = get_ins_from_loc loc g \<and> get_node_from_loc loc g' = get_node_from_loc loc g"
    if "loc < num" for loc
    using IH that num' by (simp add: ins nd)
  moreover have "get_ins_from_loc loc g' = get_ins_from_loc loc g \<and> get_node_from_loc loc g' = None"
    if "num + int (sum_list (map (ins_count s) (n # ns))) \<le> loc" for loc
    using IH that num' by (simp add: ins nd cnt)
  ultimately show ?case using first by blast
qed

section \<open>Properties\<close>

text \<open>
  C25. Numbering and lookup are inverse: the location of an instruction leads to it and to its block,
  and no other number leads anywhere.
\<close>

theorem instruction_locations:
  assumes "\<forall>n \<in> set (g_rpo g). is_BasicBlock (n_class (heap s n))" and "distinct (g_rpo g)"
    and "number_ins s g = (s', g')"
  shows "(\<forall>k < length (g_rpo g). \<forall>i < ins_count s (g_rpo g ! k).
      get_ins_from_loc (location s (g_rpo g) 0 k i) g' = Some (n_ins (heap s (g_rpo g ! k)) ! i) \<and>
      get_node_from_loc (location s (g_rpo g) 0 k i) g' = Some (g_rpo g ! k)) \<and>
    (\<forall>loc. loc < 0 \<or> int (sum_list (map (ins_count s) (g_rpo g))) \<le> loc \<longrightarrow>
      get_ins_from_loc loc g' = None \<and> get_node_from_loc loc g' = None)"
proof -
  let ?g = "g\<lparr>g_has_loc_indexes := True, g_loc_to_ins := [], g_loc_to_node := []\<rparr>"
  have e: "get_ins_from_loc loc ?g = None" "get_node_from_loc loc ?g = None" for loc
    by (simp_all add: get_ins_from_loc_def get_node_from_loc_def)
  have r: "number_ins_from (g_rpo g) 0 s ?g = (s', g')" using assms(3) by (simp add: number_ins_def)
  note F = number_ins_from_facts [OF assms(1,2) r] 
  show ?thesis using F unfolding e add_0 by blast
qed

end
