(* ===== verification/Cfg_Intervals.thy ===== *)
theory Cfg_Intervals
  imports Cfg_Graph
begin

text \<open>
  \<open>Intervals\<close> and \<open>DerivedSequenceOf\<close> of \<open>src/native/dad_cpp/control_flow.cpp\<close>, with
  \<open>Interval::ComputeEnd\<close> of \<open>graph.cpp\<close>: the partition of a flow graph into intervals, the graph
  of the intervals, and its iteration until one node is left. Nothing in the source bounds that
  iteration, so it is a \<open>partial_function\<close>; that it returns is proved in \<open>Interval_Termination\<close>.
\<close>

section \<open>One interval\<close>

text \<open>\<open>Interval::ComputeEnd\<close>: the member with the largest number that has a successor outside.\<close>

definition ComputeEnd :: "nat \<Rightarrow> 'i graph \<Rightarrow> 'i store \<Rightarrow> 'i store" where
  "ComputeEnd iv g s =
     (let content = n_content (heap s iv);
          visit = (\<lambda>member (e, n_max).
            if (\<exists>suc \<in> set (sucs g member). suc \<notin> set content) \<and> n_num (heap s member) > n_max
            then (Some member, n_num (heap s member)) else (e, n_max));
          e = fst (fold visit content (None, - 2147483648))
      in modify iv (\<lambda>x. x\<lparr>n_end := (case e of None \<Rightarrow> n_head x | Some m \<Rightarrow> Some m)\<rparr>) s)"

text \<open>One sweep over \<open>rpo[1:]\<close>; the flag says whether a node was added.\<close>

fun grow_pass :: "'i graph \<Rightarrow> nat \<Rightarrow> nat list \<Rightarrow> bool \<Rightarrow> 'i store \<Rightarrow> bool \<times> 'i store" where
  "grow_pass g iv [] change s = (change, s)"
| "grow_pass g iv (n # ns) change s =
     (if Contains s iv n then grow_pass g iv ns change s
      else if \<forall>p \<in> set (all_preds g n). Contains s iv p then
        (let (added, s') = AddNode iv n s in grow_pass g iv ns (change \<or> added) s')
      else grow_pass g iv ns change s)"

lemma Contains_content: "x \<in> set (n_content (heap s iv)) \<Longrightarrow> Contains s iv x"
  by (simp add: Contains_def)

lemma AddNode_content:
  "AddNode iv n s = (b, s') \<Longrightarrow> set (n_content (heap s' iv)) = insert n (set (n_content (heap s iv)))"
  by (auto simp: AddNode_def split: if_splits)

lemma grow_pass_content:
  assumes "grow_pass g iv ns c s = (c', s')"
  shows "set (n_content (heap s iv)) \<subseteq> set (n_content (heap s' iv))"
    and "c' \<Longrightarrow> c \<or> (\<exists>x \<in> set ns. x \<in> set (n_content (heap s' iv)) - set (n_content (heap s iv)))"
  using assms
proof (induction ns arbitrary: c s)
  case Nil
  { case 1 then show ?case by simp }
  { case 2 then show ?case by simp }
next
  case (Cons n ns)
  { case 1
    then show ?case
      using Cons.IH(1) AddNode_content by (fastforce split: if_splits prod.splits) }
  { case 2
    show ?case
    proof (cases "\<not> Contains s iv n \<and> (\<forall>p \<in> set (all_preds g n). Contains s iv p)")
      case True
      obtain b s1 where a: "AddNode iv n s = (b, s1)" by fastforce
      with True 2(2) have g: "grow_pass g iv ns (c \<or> b) s1 = (c', s')" by simp
      have "n \<in> set (n_content (heap s' iv))" using Cons.IH(1) [OF g] AddNode_content [OF a] by auto
      moreover have "n \<notin> set (n_content (heap s iv))" using True Contains_content by blast
      ultimately show ?thesis by auto
    next
      case False
      with 2 have "grow_pass g iv ns c s = (c', s')" by (auto split: if_splits)
      with Cons.IH(2) 2(1) show ?thesis by auto
    qed }
qed

function grow :: "'i graph \<Rightarrow> nat \<Rightarrow> 'i store \<Rightarrow> 'i store" where
  "grow g iv s =
     (case grow_pass g iv (drop 1 (g_rpo g)) False s of
        (change, s') \<Rightarrow> if change then grow g iv s' else s')"
  by pat_completeness auto
termination
proof (relation "measure (\<lambda>(g, iv, s). card (set (drop 1 (g_rpo g)) - set (n_content (heap s iv))))")
  fix g :: "'i graph" and iv s change s'
  assume "(change, s') = grow_pass g iv (drop 1 (g_rpo g)) False s" "change"
  with grow_pass_content [of g iv "drop 1 (g_rpo g)" False s change s']
  have "set (drop 1 (g_rpo g)) - set (n_content (heap s' iv))
      \<subset> set (drop 1 (g_rpo g)) - set (n_content (heap s iv))" by auto
  then show "((g, iv, s'), g, iv, s) \<in>
      measure (\<lambda>(g, iv, s). card (set (drop 1 (g_rpo g)) - set (n_content (heap s iv))))"
    by (simp add: psubset_card_mono)
qed simp

declare grow.simps [simp del]

section \<open>All intervals\<close>

text \<open>
  The nodes outside the interval with a predecessor in it become heads, unless they are waiting
  already.
\<close>

fun new_heads :: "'i graph \<Rightarrow> nat \<Rightarrow> 'i store \<Rightarrow> nat list \<Rightarrow> nat list \<Rightarrow> nat list \<Rightarrow> nat list \<times> nat list" where
  "new_heads g iv s [] heads es = (heads, es)"
| "new_heads g iv s (n # ns) heads es =
     (if Contains s iv n then new_heads g iv s ns heads es
      else if n \<in> set heads then new_heads g iv s ns heads es
      else if \<exists>p \<in> set (all_preds g n). Contains s iv p
      then new_heads g iv s ns (heads @ [n]) (es @ [n])
      else new_heads g iv s ns heads es)"

lemma new_heads_set:
  "new_heads g iv s ns heads es = (heads', es') \<Longrightarrow> set heads' \<subseteq> set heads \<union> set ns"
  by (induction ns arbitrary: heads es) (fastforce split: if_splits)+

text \<open>What the loop has built: the store, the interval graph, the heads' intervals in order, and
  the edges found from each interval.\<close>

type_synonym 'i intervals_state =
  "'i store \<times> 'i graph \<times> (nat \<times> nat) list \<times> (nat \<times> nat list) list"

function intervals_loop ::
  "'i graph \<Rightarrow> nat list \<Rightarrow> nat list \<Rightarrow> 'i intervals_state \<Rightarrow> 'i intervals_state" where
  "intervals_loop g [] processed st = st"
| "intervals_loop g (head # heads) processed (s, ig, interv_heads, edges) =
     (if head \<in> set processed then intervals_loop g heads processed (s, ig, interv_heads, edges)
      else
        let (iv, s1) = new_Interval head s;
            s2 = grow g iv s1;
            (heads', es) = new_heads g iv s2 (g_nodes g) heads []
        in intervals_loop g heads' (head # processed)
             (ComputeEnd iv g s2, add_node iv ig, AList.update head iv interv_heads,
              edges @ [(iv, es)]))"
  by pat_completeness auto
termination
proof (relation "measures
    [\<lambda>(g, heads, processed, st). card (set (g_nodes g) \<union> set heads - set processed),
     \<lambda>(g, heads, processed, st). length heads]")
  fix g :: "'i graph" and head :: nat and heads processed :: "nat list"
    and s :: "'i store" and ig :: "'i graph" and ih :: "(nat \<times> nat) list"
    and edges :: "(nat \<times> nat list) list"
  assume "head \<in> set processed"
  then have "set (g_nodes g) \<union> set heads - set processed
      = set (g_nodes g) \<union> set (head # heads) - set processed" by auto
  then show "((g, heads, processed, s, ig, ih, edges), g, head # heads, processed, s, ig, ih, edges)
      \<in> measures [\<lambda>(g, heads, processed, st). card (set (g_nodes g) \<union> set heads - set processed),
        \<lambda>(g, heads, processed, st). length heads]"
    by simp
next
  fix g :: "'i graph" and head :: nat and heads processed :: "nat list"
    and s :: "'i store" and ig :: "'i graph" and ih :: "(nat \<times> nat) list"
    and edges :: "(nat \<times> nat list) list"
    and x :: "nat \<times> 'i store" and iv :: nat and s1 s2 :: "'i store"
    and y :: "nat list \<times> nat list" and heads' es :: "nat list"
  assume h: "head \<notin> set processed"
    "y = new_heads g iv s2 (g_nodes g) heads []" "(heads', es) = y"
  then have "set heads' \<subseteq> set heads \<union> set (g_nodes g)" using new_heads_set by metis
  with h(1) have "set (g_nodes g) \<union> set heads' - set (head # processed)
      \<subset> set (g_nodes g) \<union> set (head # heads) - set processed" by auto
  then have "card (set (g_nodes g) \<union> set heads' - set (head # processed))
      < card (set (g_nodes g) \<union> set (head # heads) - set processed)"
    by (intro psubset_card_mono) simp_all
  then show "((g, heads', head # processed, ComputeEnd iv g s2, add_node iv ig,
        AList.update head iv ih, edges @ [(iv, es)]), g, head # heads, processed, s, ig, ih, edges)
      \<in> measures [\<lambda>(g, heads, processed, st). card (set (g_nodes g) \<union> set heads - set processed),
        \<lambda>(g, heads, processed, st). length heads]"
    by (simp only: in_measures) simp
qed auto

declare intervals_loop.simps(2) [simp del]

definition link_heads :: "(nat \<times> nat) list \<Rightarrow> nat \<times> nat list \<Rightarrow> 'i graph \<Rightarrow> 'i graph" where
  "link_heads interv_heads e ig =
     fold (\<lambda>h ig. case map_of interv_heads h of None \<Rightarrow> ig | Some t \<Rightarrow> add_edge (fst e) t ig) (snd e) ig"

definition Intervals :: "'i store \<Rightarrow> 'i graph \<Rightarrow> 'i store \<times> 'i graph \<times> (nat \<times> nat) list" where
  "Intervals s g =
     (let heads = (case g_entry g of None \<Rightarrow> [] | Some e \<Rightarrow> [e]);
          (s', ig, interv_heads, edges) = intervals_loop g heads [] (s, empty_graph, [], []);
          ig' = fold (link_heads interv_heads) edges ig;
          interval_of = (\<lambda>n. case n of None \<Rightarrow> None | Some n \<Rightarrow> n_interval (heap s' n))
      in (s', ig'\<lparr>g_entry := interval_of (g_entry g), g_exit := interval_of (g_exit g)\<rparr>,
          interv_heads))"

section \<open>The derived sequence\<close>

type_synonym 'i derived = "'i store \<times> 'i graph list \<times> ('i graph \<times> (nat \<times> nat) list) list"

partial_function (option) derived_loop ::
  "'i store \<Rightarrow> 'i graph \<Rightarrow> 'i graph list \<Rightarrow> ('i graph \<times> (nat \<times> nat) list) list \<Rightarrow> 'i derived option"
where
  "derived_loop s current graphs results =
     (let (s1, ig, interv_heads) = Intervals s current;
          single_node = (length (g_nodes ig) = 1);
          (s2, ig') = compute_rpo s1 ig;
          graphs' = (if single_node then graphs else graphs @ [ig']);
          results' = results @ [(ig', interv_heads)]
      in if single_node then Some (s2, graphs', results')
         else derived_loop s2 ig' graphs' results')"

definition DerivedSequenceOf :: "'i store \<Rightarrow> 'i graph \<Rightarrow> 'i derived option" where
  "DerivedSequenceOf s g = derived_loop s g [g] []"

end
