(* ===== verification/Cfg_Traversal.thy ===== *)
theory Cfg_Traversal
  imports Cfg_Graph_Laws "HOL-Library.Multiset"
begin

text \<open>
  What the traversal of \<open>Graph\<close> computes: \<open>post_order\<close> emits every node reachable from the entry
  once, the entry last, and \<open>compute_rpo\<close> turns the emission order into numbers that grow along
  every edge which does not lie on a cycle.
\<close>

section \<open>Reachability\<close>

definition step :: "'i graph \<Rightarrow> nat \<Rightarrow> nat \<Rightarrow> bool" where
  "step g u v \<longleftrightarrow> v \<in> set (all_sucs g u)"

abbreviation reach :: "'i graph \<Rightarrow> nat \<Rightarrow> nat \<Rightarrow> bool" where
  "reach g \<equiv> (step g)\<^sup>*\<^sup>*"

lemma step_nth: "i < length (all_sucs g n) \<Longrightarrow> step g n (all_sucs g n ! i)"
  by (simp add: step_def)

lemma reach_closed:
  assumes "reach g e x" and "e \<in> S" and "\<And>u v. u \<in> S \<Longrightarrow> step g u v \<Longrightarrow> v \<in> S"
  shows "x \<in> S"
  using assms by (induction rule: rtranclp_induct) auto

section \<open>The loop\<close>

text \<open>
  The nodes in the order they are or will be emitted: those out already, then the stack from the
  top down. Every node but the root has a parent later in it, and an edge that points later goes
  to an ancestor.
\<close>

definition later :: "nat list \<Rightarrow> nat \<Rightarrow> nat \<Rightarrow> bool" where
  "later l x y \<longleftrightarrow> (\<exists>xs ys. l = xs @ x # ys \<and> y \<in> set ys)"

lemma later_insert:
  assumes "later (xs @ ys) a b"
  shows "later (xs @ z # ys) a b"
proof -
  obtain us vs where l: "xs @ ys = us @ a # vs" "b \<in> set vs" using assms by (auto simp: later_def)
  from l(1) consider ws where "xs = us @ a # ws" "vs = ws @ ys" | ws where "us = xs @ ws" "ys = ws @ a # vs"
    by (auto simp: append_eq_append_conv2 append_eq_Cons_conv)
  then show ?thesis
  proof cases
    case 1
    then have "xs @ z # ys = us @ a # (ws @ z # ys)" "b \<in> set (ws @ z # ys)" using l(2) by auto
    then show ?thesis unfolding later_def by blast
  next
    case 2
    then have "xs @ z # ys = (xs @ z # ws) @ a # vs" by simp
    then show ?thesis using l(2) unfolding later_def by blast
  qed
qed

lemma later_remove:
  assumes "later (xs @ z # ys) a b" "a \<noteq> z" "b \<noteq> z"
  shows "later (xs @ ys) a b"
proof -
  obtain us vs where l: "xs @ z # ys = us @ a # vs" "b \<in> set vs" using assms by (auto simp: later_def)
  from l(1) assms(2) consider ws where "xs = us @ a # ws" "vs = ws @ z # ys"
    | ws where "us = xs @ z # ws" "ys = ws @ a # vs"
    by (auto simp: append_eq_append_conv2 append_eq_Cons_conv Cons_eq_append_conv)
  then show ?thesis
  proof cases
    case 1
    then have "xs @ ys = us @ a # (ws @ ys)" "b \<in> set (ws @ ys)" using l(2) assms(3) by auto
    then show ?thesis unfolding later_def by blast
  next
    case 2
    then have "xs @ ys = (xs @ ws) @ a # vs" by simp
    then show ?thesis using l(2) unfolding later_def by blast
  qed
qed

lemma later_Cons [simp]: "later (a # l) x y \<longleftrightarrow> (x = a \<and> y \<in> set l) \<or> later l x y"
  unfolding later_def by (auto simp: Cons_eq_append_conv)

lemma later_mem: "later l x y \<Longrightarrow> x \<in> set l \<and> y \<in> set l"
  by (auto simp: later_def)

definition scanned :: "'i graph \<Rightarrow> nat list \<Rightarrow> frame \<Rightarrow> bool" where
  "scanned g vis f \<longleftrightarrow> (\<forall>j < snd f. j < length (all_sucs g (fst f)) \<longrightarrow> all_sucs g (fst f) ! j \<in> set vis)"

definition po_inv :: "'i graph \<Rightarrow> nat \<Rightarrow> frame list \<Rightarrow> nat list \<Rightarrow> nat list \<Rightarrow> bool" where
  "po_inv g e st vis out \<longleftrightarrow>
     set vis = set (out @ map fst st) \<and> distinct (out @ map fst st) \<and> out @ map fst st \<noteq> [] \<and>
     last (out @ map fst st) = e \<and> (\<forall>x. x \<in> set (out @ map fst st) \<longrightarrow> reach g e x) \<and>
     (\<forall>f. f \<in> set st \<longrightarrow> scanned g vis f) \<and>
     (\<forall>x v. x \<in> set out \<longrightarrow> step g x v \<longrightarrow> v \<in> set vis) \<and>
     (\<forall>x y. later (map fst st) x y \<longrightarrow> reach g y x) \<and>
     (\<forall>x. x \<in> set (out @ map fst st) \<longrightarrow> x \<noteq> e \<longrightarrow> (\<exists>p. later (out @ map fst st) x p \<and> step g p x)) \<and>
     (\<forall>u v. u \<in> set out \<longrightarrow> step g u v \<longrightarrow> later (out @ map fst st) u v \<longrightarrow> reach g v u)"

lemma po_invI:
  assumes "nodes = map fst st" and "l = out @ nodes" and "set vis = set l" and "distinct l"
    and "l \<noteq> []" and "last l = e" and "\<And>x. x \<in> set l \<Longrightarrow> reach g e x"
    and "\<And>f. f \<in> set st \<Longrightarrow> scanned g vis f"
    and "\<And>x v. x \<in> set out \<Longrightarrow> step g x v \<Longrightarrow> v \<in> set vis"
    and "\<And>x y. later nodes x y \<Longrightarrow> reach g y x"
    and "\<And>x. x \<in> set l \<Longrightarrow> x \<noteq> e \<Longrightarrow> \<exists>p. later l x p \<and> step g p x"
    and "\<And>u v. u \<in> set out \<Longrightarrow> step g u v \<Longrightarrow> later l u v \<Longrightarrow> reach g v u"
  shows "po_inv g e st vis out"
  using assms(3-) unfolding po_inv_def assms(1,2) by (intro conjI allI impI) blast+

lemma po_invD:
  assumes "po_inv g e st vis out"
  shows "set vis = set (out @ map fst st)" and "distinct (out @ map fst st)"
    and "out @ map fst st \<noteq> []" and "last (out @ map fst st) = e"
    and "x \<in> set (out @ map fst st) \<Longrightarrow> reach g e x"
    and "f \<in> set st \<Longrightarrow> scanned g vis f"
    and "x \<in> set out \<Longrightarrow> step g x v \<Longrightarrow> v \<in> set vis"
    and "later (map fst st) x y \<Longrightarrow> reach g y x"
    and "x \<in> set (out @ map fst st) \<Longrightarrow> x \<noteq> e \<Longrightarrow> \<exists>p. later (out @ map fst st) x p \<and> step g p x"
    and "u \<in> set out \<Longrightarrow> step g u v \<Longrightarrow> later (out @ map fst st) u v \<Longrightarrow> reach g v u"
  using assms unfolding po_inv_def by blast+

lemma po_inv_next:
  assumes inv: "po_inv g e ((n, i) # st) vis out" and i: "i < length (all_sucs g n)"
    and s: "all_sucs g n ! i \<in> set vis"
  shows "po_inv g e ((n, Suc i) # st) vis out"
proof -
  note D = po_invD [OF inv]
  have eq: "map fst ((n, Suc i) # st) = map fst ((n, i) # st)" by simp
  show ?thesis
  proof (rule po_invI [OF refl refl], unfold eq)
    show "scanned g vis f" if "f \<in> set ((n, Suc i) # st)" for f
      using that D(6) [of "(n, i)"] D(6) [of f] i s by (auto simp: scanned_def less_Suc_eq)
  qed (fact D)+
qed

lemma po_inv_push:
  assumes inv: "po_inv g e ((n, i) # st) vis out" and i: "i < length (all_sucs g n)"
    and s: "s = all_sucs g n ! i" and new: "s \<notin> set vis"
  shows "po_inv g e ((s, 0) # (n, Suc i) # st) (s # vis) out"
proof -
  define nodes where "nodes = map fst st"
  note D = po_invD [OF inv, simplified list.map fst_conv nodes_def [symmetric]]
  have sn: "step g n s" using step_nth [OF i] s by simp
  have n: "reach g e n" using D(5) by simp
  have below: "reach g y n" if "y \<in> set nodes" for y using D(8) [of n y] that by simp
  show ?thesis
  proof (rule po_invI [OF refl refl])
    show "set (s # vis) = set (out @ map fst ((s, 0) # (n, Suc i) # st))"
      using D(1) by (auto simp: nodes_def)
    show "distinct (out @ map fst ((s, 0) # (n, Suc i) # st))"
      using D(1,2) new by (auto simp: nodes_def)
    show "last (out @ map fst ((s, 0) # (n, Suc i) # st)) = e"
      using D(4) by (auto simp: nodes_def split: if_splits)
    show "reach g e x" if "x \<in> set (out @ map fst ((s, 0) # (n, Suc i) # st))" for x
      using that D(5) [of x] n sn by (auto simp: nodes_def)
    show "scanned g (s # vis) f" if "f \<in> set ((s, 0) # (n, Suc i) # st)" for f
      using that D(6) [of "(n, i)"] D(6) [of f] s by (auto simp: scanned_def less_Suc_eq)
    show "v \<in> set (s # vis)" if "x \<in> set out" "step g x v" for x v using D(7) [OF that] by simp
    show "reach g y x" if "later (map fst ((s, 0) # (n, Suc i) # st)) x y" for x y
      using that D(8) [of x y] sn below
      by (auto simp: nodes_def intro: rtranclp.rtrancl_into_rtrancl)
    show "\<exists>p. later (out @ map fst ((s, 0) # (n, Suc i) # st)) x p \<and> step g p x"
      if "x \<in> set (out @ map fst ((s, 0) # (n, Suc i) # st))" "x \<noteq> e" for x
    proof (cases "x = s")
      case True
      have "later (out @ s # n # nodes) s n" unfolding later_def by force
      with True sn show ?thesis by (auto simp: nodes_def)
    next
      case False
      with that have "x \<in> set (out @ n # nodes)" by (auto simp: nodes_def)
      then obtain p where "later (out @ n # nodes) x p" "step g p x" using D(9) \<open>x \<noteq> e\<close> by blast
      with later_insert [of out "n # nodes" x p s] show ?thesis by (auto simp: nodes_def)
    qed
    show "reach g v u"
      if "u \<in> set out" "step g u v" "later (out @ map fst ((s, 0) # (n, Suc i) # st)) u v" for u v
    proof -
      have "v \<in> set vis" using D(7) that(1,2) by blast
      moreover have "u \<in> set vis" using D(1) that(1) by simp
      ultimately have "v \<noteq> s" "u \<noteq> s" using new by auto
      with later_remove [of out s "n # nodes" u v] that(3) have "later (out @ n # nodes) u v"
        by (simp add: nodes_def)
      with D(10) that(1,2) show ?thesis by blast
    qed
  qed simp
qed

lemma po_inv_pop:
  assumes inv: "po_inv g e ((n, i) # st) vis out" and i: "\<not> i < length (all_sucs g n)"
  shows "po_inv g e st vis (out @ [n])"
proof -
  define nodes where "nodes = map fst st"
  note D = po_invD [OF inv, simplified list.map fst_conv nodes_def [symmetric]]
  have sucs: "v \<in> set vis" if v: "step g n v" for v
  proof -
    obtain j where "j < length (all_sucs g n)" "v = all_sucs g n ! j"
      using v unfolding step_def in_set_conv_nth by auto
    with D(6) [of "(n, i)"] i show ?thesis by (auto simp: scanned_def)
  qed
  have anc: "reach g v n" if lat: "later (out @ n # nodes) n v" for v
  proof -
    obtain xs ys where l: "out @ n # nodes = xs @ n # ys" "v \<in> set ys"
      using lat by (auto simp: later_def)
    have "n \<notin> set out" "n \<notin> set nodes" using D(2) by auto
    with l(1) have "nodes = ys" by (metis append_Cons_eq_iff)
    with D(8) [of n v] l(2) show ?thesis by simp
  qed
  show ?thesis
  proof (rule po_invI [OF refl refl])
    show "v \<in> set vis" if "x \<in> set (out @ [n])" "step g x v" for x v
      using that D(7) [of x v] sucs by auto
    show "reach g y x" if "later (map fst st) x y" for x y
      using that D(8) [of x y] by (simp add: nodes_def)
    show "reach g v u"
      if "u \<in> set (out @ [n])" "step g u v" "later ((out @ [n]) @ map fst st) u v" for u v
      using that D(10) [of u v] anc by (auto simp: nodes_def)
    show "\<exists>p. later ((out @ [n]) @ map fst st) x p \<and> step g p x"
      if "x \<in> set ((out @ [n]) @ map fst st)" "x \<noteq> e" for x
      using that D(9) [of x] by (auto simp: nodes_def)
  qed (use D in \<open>auto simp: nodes_def\<close>)
qed

lemma po_loop_inv: "po_inv g e st vis out \<Longrightarrow> \<exists>vis'. po_inv g e [] vis' (po_loop g st vis out)"
proof (induction g st vis out rule: po_loop.induct)
  case (1 g vis out)
  then show ?case by (intro exI [of _ vis]) simp
next
  case (2 g n i st vis out)
  let ?s = "all_sucs g n ! i"
  consider (seen) "i < length (all_sucs g n)" "?s \<in> set vis"
    | (push) "i < length (all_sucs g n)" "?s \<notin> set vis" | (pop) "\<not> i < length (all_sucs g n)"
    by blast
  then show ?case
  proof cases
    case seen
    then show ?thesis
      using 2(1) [OF _ refl] po_inv_next [OF 2(4)]
      by (subst po_loop.simps(2)) (simp add: Let_def)
  next
    case push
    then show ?thesis
      using 2(2) [OF _ refl] po_inv_push [OF 2(4) _ refl]
      by (subst po_loop.simps(2)) (simp add: Let_def)
  next
    case pop
    then show ?thesis
      using 2(3) po_inv_pop [OF 2(4)]
      by (subst po_loop.simps(2)) (simp add: Let_def)
  qed
qed

text \<open>The loop started on the entry.\<close>

lemma po_inv_start: "po_inv g e [(e, 0)] [e] []"
  by (rule po_invI [OF refl refl]) (auto simp: scanned_def later_def Cons_eq_append_conv)

lemma post_order_inv:
  assumes "g_entry g = Some e"
  obtains vis where "po_inv g e [] vis (post_order_nodes g)"
  using po_loop_inv [OF po_inv_start, of g e] assms by (auto simp: post_order_nodes_def)

lemma post_order_facts:
  assumes "g_entry g = Some e"
  shows "distinct (post_order_nodes g)" and "post_order_nodes g \<noteq> []"
    and "last (post_order_nodes g) = e" and "set (post_order_nodes g) = {x. reach g e x}"
    and "reach g e x \<Longrightarrow> x \<noteq> e \<Longrightarrow> \<exists>p. later (post_order_nodes g) x p \<and> step g p x"
    and "reach g e u \<Longrightarrow> step g u v \<Longrightarrow> later (post_order_nodes g) u v \<Longrightarrow> reach g v u"
proof -
  obtain vis where inv: "po_inv g e [] vis (post_order_nodes g)"
    using post_order_inv [OF assms] .
  note D = po_invD [OF inv, simplified]
  show "distinct (post_order_nodes g)" "post_order_nodes g \<noteq> []" "last (post_order_nodes g) = e"
    using D(2-4) by simp_all
  have "e \<in> set (post_order_nodes g)" using D(3,4) by (metis last_in_set)
  then have "x \<in> set (post_order_nodes g)" if "reach g e x" for x
    using reach_closed [OF that, of "set (post_order_nodes g)"] D(1,7) by blast
  with D(5) show eq: "set (post_order_nodes g) = {x. reach g e x}" by blast
  show "\<exists>p. later (post_order_nodes g) x p \<and> step g p x" if "reach g e x" "x \<noteq> e"
    using that eq D(9) by blast
  show "reach g v u" if "reach g e u" "step g u v" "later (post_order_nodes g) u v"
    using that eq D(10) by blast
qed

section \<open>Numbers\<close>

lemma assign_po_heap:
  "distinct ns \<Longrightarrow> heap (assign_po ns c s) x =
     (if x \<in> set ns then (heap s x)\<lparr>n_po := c + int (length (takeWhile (\<lambda>y. y \<noteq> x) ns))\<rparr>
      else heap s x)"
  by (induction ns c s rule: assign_po.induct) (auto simp: fun_eq_iff)

lemma fold_modify_heap:
  "distinct ns \<Longrightarrow> heap (fold (\<lambda>n s. modify n f s) ns s) x =
     (if x \<in> set ns then f (heap s x) else heap s x)"
  by (induction ns arbitrary: s) auto

definition index_of :: "nat list \<Rightarrow> nat \<Rightarrow> nat" where
  "index_of l x = length (takeWhile (\<lambda>y. y \<noteq> x) l)"

lemma index_of_less: "x \<in> set l \<Longrightarrow> index_of l x < length l"
  by (induction l) (auto simp: index_of_def)

lemma nth_index_of: "x \<in> set l \<Longrightarrow> l ! index_of l x = x"
  by (induction l) (auto simp: index_of_def)

lemma index_of_nth: "distinct l \<Longrightarrow> i < length l \<Longrightarrow> index_of l (l ! i) = i"
  by (metis index_of_less nth_index_of nth_eq_iff_index_eq nth_mem)

lemma later_index: "distinct l \<Longrightarrow> later l x y \<longleftrightarrow> x \<in> set l \<and> y \<in> set l \<and> index_of l x < index_of l y"
proof (induction l)
  case (Cons a l)
  then show ?case by (auto simp: index_of_def dest: later_mem)
qed (simp add: later_def)

lemma compute_rpo_num:
  assumes "g_entry g = Some e" and "compute_rpo s g = (s', g')"
  shows "n_num (heap s' x) =
    (if reach g e x
     then int (length (g_nodes g)) - int (index_of (post_order_nodes g) x) else n_num (heap s x))"
proof -
  let ?out = "post_order_nodes g" and ?nb = "int (length (g_nodes g)) + 1"
  have d: "distinct ?out" and mem: "x \<in> set ?out \<longleftrightarrow> reach g e x"
    using post_order_facts(1,4) [OF assms(1)] by auto
  have "s' = fold (\<lambda>n s. modify n (\<lambda>x. x\<lparr>n_num := ?nb - n_po x\<rparr>) s) ?out (assign_po ?out 1 s)"
    using assms(2) by (simp add: compute_rpo_def post_order_def Let_def)
  then show ?thesis
    by (simp only: fold_modify_heap [OF d] assign_po_heap [OF d] mem) (simp add: index_of_def)
qed

lemma compute_rpo_graph:
  "compute_rpo s g = (s', g') \<Longrightarrow> g' = g\<lparr>g_rpo := sort_key (\<lambda>n. n_num (heap s' n)) (g_nodes g)\<rparr>"
  by (auto simp: compute_rpo_def Let_def split: prod.splits)

lemma sort_key_eqI:
  assumes "distinct xs" "distinct ys" "set xs = set ys" "sorted (map f ys)" "inj_on f (set ys)"
  shows "sort_key f xs = ys"
proof (rule properties_for_sort_key)
  show "mset ys = mset xs" using assms(1-3) by (simp add: set_eq_iff_mset_eq_distinct)
  show "filter (\<lambda>x. f k = f x) ys = filter (\<lambda>x. f k = f x) xs" if "k \<in> set ys" for k
  proof -
    have "filter (\<lambda>x. f k = f x) zs = [k]" if "distinct zs" "set zs = set ys" for zs
    proof -
      have eq: "filter (\<lambda>x. f k = f x) zs = filter (\<lambda>x. x = k) zs"
        using that \<open>k \<in> set ys\<close> inj_on_eq_iff [OF assms(5)] by (intro filter_cong refl) metis
      have "filter (\<lambda>x. x = k) zs = [k]" if "k \<in> set zs" "distinct zs" for zs
        using that by (induction zs) (auto simp: filter_empty_conv)
      then show ?thesis using eq that \<open>k \<in> set ys\<close> by simp
    qed
    with assms(1-3) show ?thesis by metis
  qed
qed (rule assms)

text \<open>On a graph whose nodes are all reachable, the order is the reversed emission order.\<close>

lemma compute_rpo_rev:
  assumes "g_entry g = Some e" and "distinct (g_nodes g)" and "set (g_nodes g) = {x. reach g e x}"
    and "compute_rpo s g = (s', g')"
  shows "g_rpo g' = rev (post_order_nodes g)"
    and "i < length (g_nodes g) \<Longrightarrow> n_num (heap s' (g_rpo g' ! i)) = int i + 1"
proof -
  let ?po = "post_order_nodes g"
  note po = post_order_facts [OF assms(1)]
  have len: "length ?po = length (g_nodes g)"
    using po(1,4) assms(2,3) by (metis distinct_card)
  have num: "n_num (heap s' (rev ?po ! i)) = int i + 1" if i: "i < length (g_nodes g)" for i
  proof -
    have r: "rev ?po ! i = ?po ! (length ?po - Suc i)" using i len by (simp add: rev_nth)
    have "reach g e (rev ?po ! i)" using i len po(4) by (metis mem_Collect_eq length_rev nth_mem set_rev)
    then show ?thesis
      using i len po(1) by (simp add: compute_rpo_num [OF assms(1,4)] r index_of_nth of_nat_diff)
  qed
  have map: "map (\<lambda>n. n_num (heap s' n)) (rev ?po) = map (\<lambda>i. int i + 1) [0..<length (g_nodes g)]"
    using num len by (intro nth_equalityI) (simp_all del: rev_map)
  have dis: "distinct (map (\<lambda>n. n_num (heap s' n)) (rev ?po))"
    unfolding map by (simp add: distinct_map inj_on_def)
  have "sort_key (\<lambda>n. n_num (heap s' n)) (g_nodes g) = rev ?po"
  proof (rule sort_key_eqI)
    show "sorted (map (\<lambda>n. n_num (heap s' n)) (rev ?po))"
      unfolding map by (simp add: sorted_iff_nth_mono)
    show "inj_on (\<lambda>n. n_num (heap s' n)) (set (rev ?po))"
      using dis by (simp only: distinct_map)
  qed (use assms(2,3) po(1,4) in simp_all)
  then show rpo: "g_rpo g' = rev ?po" using compute_rpo_graph [OF assms(4)] by simp
  show "i < length (g_nodes g) \<Longrightarrow> n_num (heap s' (g_rpo g' ! i)) = int i + 1"
    unfolding rpo by (rule num)
qed

text \<open>Numbers grow along edges that are on no cycle, and every node has a smaller predecessor.\<close>

lemma compute_rpo_order:
  assumes "g_entry g = Some e" and "compute_rpo s g = (s', g')"
  shows "reach g e u \<Longrightarrow> step g u v \<Longrightarrow> \<not> reach g v u \<Longrightarrow> n_num (heap s' u) < n_num (heap s' v)"
    and "reach g e x \<Longrightarrow> x \<noteq> e \<Longrightarrow> \<exists>p. step g p x \<and> n_num (heap s' p) < n_num (heap s' x)"
proof -
  note po = post_order_facts [OF assms(1)]
  note num = compute_rpo_num [OF assms]
  show "n_num (heap s' u) < n_num (heap s' v)" if "reach g e u" "step g u v" "\<not> reach g v u"
  proof -
    have v: "reach g e v" using that(1,2) by auto
    have "u \<noteq> v" using that(3) by auto
    moreover have "\<not> later (post_order_nodes g) u v" using po(6) that by blast
    ultimately have "index_of (post_order_nodes g) v < index_of (post_order_nodes g) u"
      using that(1) v po(1,4) nth_index_of by (simp add: later_index) (metis linorder_neqE_nat mem_Collect_eq)
    with that(1) v show ?thesis by (simp add: num)
  qed
  show "\<exists>p. step g p x \<and> n_num (heap s' p) < n_num (heap s' x)" if x: "reach g e x" "x \<noteq> e"
  proof -
    obtain p where p: "later (post_order_nodes g) x p" "step g p x" using po(5) x by blast
    then have "reach g e p" "index_of (post_order_nodes g) x < index_of (post_order_nodes g) p"
      using po(1,4) by (auto simp: later_index)
    with p x show ?thesis by (intro exI [of _ p]) (simp add: num)
  qed
qed

section \<open>Properties\<close>

text \<open>
  C22. The traversal emits the reachable nodes once, entry last, and the reverse post-order numbers grow
  along every edge that is on no cycle.
\<close>

theorem traversal_order:
  assumes "g_entry g = Some e" and "compute_rpo s g = (s', g')"
  shows "distinct (fst (post_order s g)) \<and> last (fst (post_order s g)) = e \<and>
      set (fst (post_order s g)) = {x. reach g e x} \<and>
      (\<forall>u v. reach g e u \<longrightarrow> step g u v \<longrightarrow> \<not> reach g v u \<longrightarrow> n_num (heap s' u) < n_num (heap s' v)) \<and>
      (\<forall>x. reach g e x \<longrightarrow> x \<noteq> e \<longrightarrow> (\<exists>p. step g p x \<and> n_num (heap s' p) < n_num (heap s' x)))"
proof -
  have po: "fst (post_order s g) = post_order_nodes g" by (simp add: post_order_def Let_def)
  show ?thesis
    unfolding po using post_order_facts [OF assms(1)] compute_rpo_order [OF assms] by blast
qed

end
