(* ===== verification/Interval_Spec.thy ===== *)
theory Interval_Spec
  imports Main
begin

text \<open>
  Interval partitioning as a state machine over plain lists, independent of the program: a queue
  of heads and the trace of what was done. An entry of the trace is a head, its interval and the
  queue at that moment. Shown here by rule induction: intervals are pairwise disjoint, every head
  but the entry has a predecessor in an earlier interval, and if no interval absorbed anything
  then at least one edge of the flow graph is lost in the graph of the intervals. The last fact
  is what makes the derived sequence finite on irreducible graphs too.
\<close>

section \<open>The machine\<close>

text \<open>An interval: the head first, every other member after all its predecessors, and maximal.\<close>

definition is_interval :: "nat set \<Rightarrow> (nat \<Rightarrow> nat set) \<Rightarrow> nat \<Rightarrow> nat list \<Rightarrow> bool" where
  "is_interval cand pr h I \<longleftrightarrow>
     I \<noteq> [] \<and> hd I = h \<and> distinct I \<and>
     (\<forall>xs x ys. I = xs @ x # ys \<longrightarrow> xs \<noteq> [] \<longrightarrow> x \<in> cand \<and> pr x \<subseteq> set xs) \<and>
     (\<forall>x \<in> cand. pr x \<subseteq> set I \<longrightarrow> x \<in> set I)"

type_synonym entry = "nat \<times> nat list \<times> nat list"

definition heads_of :: "entry list \<Rightarrow> nat set" where
  "heads_of tr = fst ` set tr"

definition found :: "nat list \<Rightarrow> (nat \<Rightarrow> nat set) \<Rightarrow> nat list \<Rightarrow> nat list \<Rightarrow> nat list" where
  "found V pr I q = filter (\<lambda>x. x \<notin> set I \<and> x \<notin> set q \<and> pr x \<inter> set I \<noteq> {}) V"

inductive run :: "nat list \<Rightarrow> (nat \<Rightarrow> nat set) \<Rightarrow> nat \<Rightarrow> nat list \<Rightarrow> entry list \<Rightarrow> bool"
  for V pr e where
  init: "run V pr e [e] []"
| skip: "run V pr e (h # q) tr \<Longrightarrow> h \<in> heads_of tr \<Longrightarrow> run V pr e q tr"
| step: "run V pr e (h # q) tr \<Longrightarrow> h \<notin> heads_of tr \<Longrightarrow> is_interval (set V - {e}) pr h I \<Longrightarrow>
    run V pr e (q @ found V pr I q) (tr @ [(h, I, q)])"

text \<open>A flow graph: every node is listed once and reachable from the entry.\<close>

definition flow_ok :: "nat list \<Rightarrow> (nat \<Rightarrow> nat set) \<Rightarrow> nat \<Rightarrow> bool" where
  "flow_ok V pr e \<longleftrightarrow>
     distinct V \<and> e \<in> set V \<and> (\<forall>x \<in> set V. pr x \<subseteq> set V) \<and>
     (\<forall>x \<in> set V. (\<lambda>a b. a \<in> pr b)\<^sup>*\<^sup>* e x)"

lemma flow_preds: "flow_ok V pr e \<Longrightarrow> x \<in> set V \<Longrightarrow> x \<noteq> e \<Longrightarrow> pr x \<noteq> {}"
  unfolding flow_ok_def by (metis empty_iff rtranclp.cases)

section \<open>Invariants\<close>

lemma heads_of_simps [simp]:
  "heads_of [] = {}" "heads_of (a # tr) = insert (fst a) (heads_of tr)" "heads_of (tr @ [(h, I, q)]) = insert h (heads_of tr)"
  by (auto simp: heads_of_def)

lemma is_interval_head: "is_interval cand pr h I \<Longrightarrow> h \<in> set I"
  by (auto simp: is_interval_def)

lemma is_interval_list: "is_interval cand pr h I \<Longrightarrow> I \<noteq> [] \<and> hd I = h \<and> distinct I"
  unfolding is_interval_def by (elim conjE) simp

lemma is_interval_member:
  assumes "is_interval cand pr h I" "x \<in> set I" "x \<noteq> h"
  shows "x \<in> cand" "pr x \<subseteq> set I"
proof -
  obtain xs ys where I: "I = xs @ x # ys" using assms(2) by (meson split_list)
  with assms(1,3) have "xs \<noteq> []" by (cases xs) (auto simp: is_interval_def)
  with I assms(1) show "x \<in> cand" "pr x \<subseteq> set I" unfolding is_interval_def by auto
qed

text \<open>Two intervals neither of which contains the head of the other are disjoint.\<close>

lemma intervals_disjoint:
  assumes g: "is_interval cand pr g J" and h: "is_interval cand pr h I"
    and "g \<notin> set I" "h \<notin> set J" and ne: "\<And>x. x \<in> cand \<Longrightarrow> pr x \<noteq> {}"
  shows "set I \<inter> set J = {}"
proof -
  have "x \<notin> set I" if "I = xs @ zs" "set J \<inter> set xs = {}" "x \<in> set J" for xs zs x
    using that
  proof (induction zs arbitrary: xs x)
    case Nil
    then show ?case by auto
  next
    case (Cons z zs)
    have "z \<notin> set J"
    proof
      assume z: "z \<in> set J"
      then have "z \<noteq> g" "z \<noteq> h" using assms Cons.prems(1) by auto
      then have "xs \<noteq> []" using h Cons.prems(1) by (cases xs) (auto simp: is_interval_def)
      then have "z \<in> cand" "pr z \<subseteq> set xs"
        using h Cons.prems(1) unfolding is_interval_def by blast+
      moreover have "pr z \<subseteq> set J" using is_interval_member(2) [OF g z \<open>z \<noteq> g\<close>] .
      ultimately show False using ne Cons.prems(2) by blast
    qed
    with Cons.IH [of "xs @ [z]" x] Cons.prems show ?case by auto
  qed
  from this [of "[]" I] show ?thesis by auto
qed

text \<open>A node that became a head: some interval done earlier holds a predecessor but not the node.\<close>

definition pushed :: "(nat \<Rightarrow> nat set) \<Rightarrow> entry list \<Rightarrow> nat \<Rightarrow> bool" where
  "pushed pr tr x \<longleftrightarrow> (\<exists>(h, I, q) \<in> set tr. pr x \<inter> set I \<noteq> {} \<and> x \<notin> set I)"

lemma pushed_append: "pushed pr tr x \<Longrightarrow> pushed pr (tr @ tr') x"
  by (auto simp: pushed_def)

definition trace_ok :: "nat list \<Rightarrow> (nat \<Rightarrow> nat set) \<Rightarrow> nat \<Rightarrow> entry list \<Rightarrow> bool" where
  "trace_ok V pr e tr \<longleftrightarrow>
     distinct (map fst tr) \<and> heads_of tr \<subseteq> set V \<and> (tr \<noteq> [] \<longrightarrow> fst (hd tr) = e) \<and>
     (\<forall>(h, I, q) \<in> set tr. is_interval (set V - {e}) pr h I) \<and>
     (\<forall>xs h I q ys. tr = xs @ (h, I, q) # ys \<longrightarrow> h = e \<or> pushed pr xs h) \<and>
     (\<forall>h I q h' I' q'. (h, I, q) \<in> set tr \<longrightarrow> (h', I', q') \<in> set tr \<longrightarrow> h \<noteq> h' \<longrightarrow>
        set I \<inter> set I' = {})"

lemma trace_disjoint:
  assumes "trace_ok V pr e tr" "(h, I, q) \<in> set tr" "(h', I', q') \<in> set tr" "h \<noteq> h'"
  shows "set I \<inter> set I' = {}"
proof -
  have "\<forall>h I q h' I' q'. (h, I, q) \<in> set tr \<longrightarrow> (h', I', q') \<in> set tr \<longrightarrow> h \<noteq> h' \<longrightarrow>
      set I \<inter> set I' = {}"
    using assms(1) unfolding trace_ok_def by (elim conjE)
  from this [rule_format, OF assms(2-4)] show ?thesis .
qed

lemma distinct_heads:
  "distinct (map fst tr) \<Longrightarrow> a \<in> set tr \<Longrightarrow> b \<in> set tr \<Longrightarrow> fst a = fst b \<Longrightarrow> a = b"
  by (auto simp: distinct_map dest: inj_onD)

text \<open>The interval of a new head meets no earlier one: by induction along the trace.\<close>

lemma new_disjoint:
  assumes flow: "flow_ok V pr e" and tr: "trace_ok V pr e tr"
    and h: "is_interval (set V - {e}) pr h I" and new: "h \<notin> heads_of tr"
    and push: "h \<noteq> e \<Longrightarrow> pushed pr tr h" and first: "tr \<noteq> [] \<Longrightarrow> h \<noteq> e"
    and outside: "\<And>J. \<exists>g q. (g, J, q) \<in> set tr \<Longrightarrow> h \<notin> set J"
  shows "\<forall>(g, J, q) \<in> set tr. set I \<inter> set J = {}"
proof -
  have ne: "pr x \<noteq> {}" if "x \<in> set V - {e}" for x using flow_preds [OF flow] that by blast
  have "\<forall>(g, J, q) \<in> set xs. set I \<inter> set J = {}" if "tr = xs @ ys" for xs ys
    using that
  proof (induction xs arbitrary: ys rule: rev_induct)
    case (snoc a xs)
    obtain g J q where a: "a = (g, J, q)" by (cases a)
    with snoc.prems have tr_eq: "tr = xs @ (g, J, q) # ys" by simp
    have IH: "\<forall>(g, J, q) \<in> set xs. set I \<inter> set J = {}" using snoc.IH tr_eq by blast
    have J: "is_interval (set V - {e}) pr g J" using tr tr_eq by (auto simp: trace_ok_def)
    have "h \<notin> set J" using outside tr_eq by (metis in_set_conv_decomp)
    have gh: "g \<noteq> h" using new tr_eq by (auto simp: heads_of_def image_iff)
    have "g \<notin> set I"
    proof
      assume g: "g \<in> set I"
      with is_interval_member [OF h] gh have gm: "g \<in> set V - {e}" "pr g \<subseteq> set I" by auto
      with tr tr_eq have "pushed pr xs g" unfolding trace_ok_def by blast
      then obtain k K r where "(k, K, r) \<in> set xs" "pr g \<inter> set K \<noteq> {}" by (auto simp: pushed_def)
      with IH gm(2) show False by fast
    qed
    with intervals_disjoint [OF J h _ \<open>h \<notin> set J\<close> ne] have "set I \<inter> set J = {}" by blast
    with IH a show ?case by simp
  qed simp
  from this [of tr "[]"] show ?thesis by simp
qed

text \<open>A node that was pushed lies in no interval but its own.\<close>

lemma pushed_outside:
  assumes "trace_ok V pr e tr" "pushed pr tr x" "(g, J, q) \<in> set tr" "g \<noteq> x"
  shows "x \<notin> set J"
proof
  assume x: "x \<in> set J"
  have "is_interval (set V - {e}) pr g J" using assms(1,3) by (auto simp: trace_ok_def)
  with x assms(4) have pr: "pr x \<subseteq> set J" using is_interval_member(2) by blast
  obtain k K r where k: "(k, K, r) \<in> set tr" "pr x \<inter> set K \<noteq> {}" "x \<notin> set K"
    using assms(2) by (auto simp: pushed_def)
  have "k \<noteq> g"
  proof
    assume "k = g"
    with distinct_heads [OF _ k(1) assms(3)] assms(1) have "K = J" by (simp add: trace_ok_def)
    with x k(3) show False by simp
  qed
  from trace_disjoint [OF assms(1) k(1) assms(3) this] have "set K \<inter> set J = {}" .
  with pr k(2) show False by blast
qed

definition links :: "nat list \<Rightarrow> (nat \<Rightarrow> nat set) \<Rightarrow> entry list \<Rightarrow> nat \<Rightarrow> nat \<Rightarrow> bool" where
  "links V pr tr a b \<longleftrightarrow> (\<exists>I q. (a, I, q) \<in> set tr \<and> b \<in> set (found V pr I q))"

lemma links_append: "links V pr (tr @ tr') a b \<longleftrightarrow> links V pr tr a b \<or> links V pr tr' a b"
  by (auto simp: links_def)

lemma links_mono: "(links V pr tr)\<^sup>*\<^sup>* a b \<Longrightarrow> (links V pr (tr @ tr'))\<^sup>*\<^sup>* a b"
proof (induction rule: rtranclp_induct)
  case (step b c)
  then have "links V pr (tr @ tr') b c" by (simp add: links_append)
  with step(3) show ?case by (rule rtranclp.rtrancl_into_rtrancl)
qed simp

definition queue_ok :: "nat list \<Rightarrow> (nat \<Rightarrow> nat set) \<Rightarrow> nat \<Rightarrow> nat list \<Rightarrow> entry list \<Rightarrow> bool" where
  "queue_ok V pr e q tr \<longleftrightarrow>
     (tr = [] \<longrightarrow> q = [e]) \<and> set q \<subseteq> set V \<and>
     (\<forall>x \<in> set q. tr \<noteq> [] \<longrightarrow> pushed pr tr x) \<and>
     (\<forall>x \<in> set q \<union> heads_of tr. (links V pr tr)\<^sup>*\<^sup>* e x) \<and>
     (\<forall>h I r x. (h, I, r) \<in> set tr \<longrightarrow> x \<in> set V \<longrightarrow> pr x \<inter> set I \<noteq> {} \<longrightarrow> x \<notin> set I \<longrightarrow>
        x \<in> set q \<union> heads_of tr)"

lemma queue_closed:
  assumes "queue_ok V pr e q tr" "(h, I, r) \<in> set tr" "x \<in> set V" "pr x \<inter> set I \<noteq> {}" "x \<notin> set I"
  shows "x \<in> set q \<union> heads_of tr"
proof -
  have "\<forall>h I r x. (h, I, r) \<in> set tr \<longrightarrow> x \<in> set V \<longrightarrow> pr x \<inter> set I \<noteq> {} \<longrightarrow> x \<notin> set I \<longrightarrow>
      x \<in> set q \<union> heads_of tr"
    using assms(1) unfolding queue_ok_def by (elim conjE)
  from this [rule_format, OF assms(2-5)] show ?thesis .
qed

text \<open>
  An edge from an earlier interval to a node that is still to come puts the node in the queue of
  every interval in between.
\<close>

definition waiting :: "nat list \<Rightarrow> (nat \<Rightarrow> nat set) \<Rightarrow> entry list \<Rightarrow> bool" where
  "waiting V pr tr \<longleftrightarrow>
     (\<forall>xs h I r ys. tr = xs @ (h, I, r) # ys \<longrightarrow>
        (\<forall>k K r' x. (k, K, r') \<in> set xs \<longrightarrow> x \<in> set V \<longrightarrow> pr x \<inter> set K \<noteq> {} \<longrightarrow> x \<notin> set K \<longrightarrow>
           x \<in> set r \<or> x = h \<or> x \<in> heads_of xs))"

lemma snoc_split:
  "tr @ [a] = xs @ b # ys \<longleftrightarrow> (ys = [] \<and> xs = tr \<and> b = a) \<or> (\<exists>zs. ys = zs @ [a] \<and> tr = xs @ b # zs)"
  by (cases ys rule: rev_cases) auto

lemma run_ok:
  assumes "run V pr e q tr" and flow: "flow_ok V pr e"
  shows "trace_ok V pr e tr \<and> queue_ok V pr e q tr \<and> waiting V pr tr"
  using assms(1)
proof (induction rule: run.induct)
  case init
  show ?case
    using flow by (auto simp: trace_ok_def queue_ok_def waiting_def flow_ok_def)
next
  case (skip h q tr)
  then have Q: "queue_ok V pr e (h # q) tr" by blast
  have "queue_ok V pr e q tr"
    using Q skip(2) unfolding queue_ok_def by (auto simp: insert_absorb)
  with skip show ?case by blast
next
  case (step h q tr I)
  then have T: "trace_ok V pr e tr" and Q: "queue_ok V pr e (h # q) tr" and W: "waiting V pr tr"
    by auto
  note h = \<open>is_interval (set V - {e}) pr h I\<close> and new = \<open>h \<notin> heads_of tr\<close>
  let ?a = "(h, I, q)" and ?q = "q @ found V pr I q"
  have eh: "tr \<noteq> [] \<Longrightarrow> e \<in> heads_of tr"
    using T unfolding trace_ok_def heads_of_def by (metis image_eqI list.set_sel(1))
  have he: "tr \<noteq> [] \<Longrightarrow> h \<noteq> e" "tr = [] \<Longrightarrow> h = e" using eh new Q by (auto simp: queue_ok_def)
  have push: "tr \<noteq> [] \<Longrightarrow> pushed pr tr h" using Q by (auto simp: queue_ok_def)
  have outside: "h \<notin> set J" if J: "\<exists>g r. (g, J, r) \<in> set tr" for J
  proof -
    obtain g r where g: "(g, J, r) \<in> set tr" using J by blast
    then have "g \<noteq> h" "tr \<noteq> []" using new by (auto simp: heads_of_def image_iff)
    with pushed_outside [OF T push g] show ?thesis by simp
  qed
  have disj: "\<forall>(g, J, r) \<in> set tr. set I \<inter> set J = {}"
    using new_disjoint [OF flow T h new _ he(1) outside] push he(2) by blast
  have hV: "h \<in> set V" using Q by (auto simp: queue_ok_def)
  have "trace_ok V pr e (tr @ [?a])"
  proof -
    have "distinct (map fst (tr @ [?a]))" using T new by (auto simp: trace_ok_def heads_of_def)
    moreover have "set J \<inter> set J' = {}"
      if "(g, J, r) \<in> set (tr @ [?a])" "(g', J', r') \<in> set (tr @ [?a])" "g \<noteq> g'" for g J r g' J' r'
    proof -
      from that consider "(g, J, r) \<in> set tr" "(g', J', r') \<in> set tr"
        | "(g, J, r) \<in> set tr" "J' = I" | "(g', J', r') \<in> set tr" "J = I" by auto
      then show ?thesis
      proof cases
        case 1
        then show ?thesis by (rule trace_disjoint [OF T _ _ that(3)])
      next
        case 2
        with disj show ?thesis by fast
      next
        case 3
        with disj show ?thesis by fast
      qed
    qed
    moreover have "g = e \<or> pushed pr xs g" if "tr @ [?a] = xs @ (g, J, r) # ys" for xs g J r ys
    proof -
      from that consider "xs = tr" "g = h" | zs where "tr = xs @ (g, J, r) # zs"
        by (auto simp: snoc_split)
      then show ?thesis
      proof cases
        case 1
        with push he(2) show ?thesis by (cases "tr = []") auto
      next
        case 2
        with T show ?thesis unfolding trace_ok_def by blast
      qed
    qed
    ultimately show ?thesis
      using T h hV he(2) by (cases "tr = []") (auto simp: trace_ok_def)
  qed
  moreover have "queue_ok V pr e ?q (tr @ [?a])"
  proof -
    have pq: "pushed pr (tr @ [?a]) x" if x: "x \<in> set ?q" for x
    proof (cases "x \<in> set (found V pr I q)")
      case True
      then show ?thesis by (auto simp: found_def pushed_def)
    next
      case False
      with x have "x \<in> set q" by auto
      then have "tr \<noteq> []" using Q by (auto simp: queue_ok_def)
      with Q \<open>x \<in> set q\<close> show ?thesis by (auto simp: queue_ok_def intro: pushed_append)
    qed
    have old: "(links V pr (tr @ [?a]))\<^sup>*\<^sup>* e x" if "x \<in> insert h (set q) \<union> heads_of tr" for x
      using Q that by (auto simp: queue_ok_def intro: links_mono)
    have rq: "(links V pr (tr @ [?a]))\<^sup>*\<^sup>* e x" if x: "x \<in> set (found V pr I q)" for x
    proof -
      have "links V pr (tr @ [?a]) h x" using x by (auto simp: links_def)
      with old [of h] show ?thesis by (auto intro: rtranclp.rtrancl_into_rtrancl)
    qed
    have cl: "x \<in> set ?q \<union> heads_of (tr @ [?a])"
      if "(g, J, r) \<in> set (tr @ [?a])" "x \<in> set V" "pr x \<inter> set J \<noteq> {}" "x \<notin> set J" for g J r x
    proof (cases "(g, J, r) = ?a")
      case True
      with that show ?thesis by (auto simp: found_def)
    next
      case False
      with that queue_closed [OF Q, of g J r x] have "x \<in> set (h # q) \<union> heads_of tr" by auto
      then show ?thesis by auto
    qed
    have "set ?q \<subseteq> set V" using Q by (auto simp: queue_ok_def found_def)
    then show ?thesis
      unfolding queue_ok_def using pq old rq cl by auto
  qed
  moreover have "waiting V pr (tr @ [?a])"
    unfolding waiting_def
  proof (intro allI impI)
    fix xs g J r ys
    assume "tr @ [?a] = xs @ (g, J, r) # ys"
    then consider "xs = tr" "g = h" "r = q" | zs where "tr = xs @ (g, J, r) # zs"
      by (auto simp: snoc_split)
    then show "x \<in> set r \<or> x = g \<or> x \<in> heads_of xs"
      if "(k, K, r') \<in> set xs" "x \<in> set V" "pr x \<inter> set K \<noteq> {}" "x \<notin> set K" for k K r' x
    proof cases
      case 1
      with queue_closed [OF Q, of k K r' x] that show ?thesis by auto
    next
      case 2
      with W that show ?thesis unfolding waiting_def by blast
    qed
  qed
  ultimately show ?case by blast
qed

section \<open>A finished run\<close>

lemma run_count:
  assumes "run V pr e [] tr" "flow_ok V pr e"
  shows "length tr \<le> length V" and "tr \<noteq> []" and "length tr = length V \<Longrightarrow> heads_of tr = set V"
proof -
  have T: "trace_ok V pr e tr" and Q: "queue_ok V pr e [] tr" using run_ok assms by blast+
  have c: "card (heads_of tr) = length tr"
    using T unfolding trace_ok_def heads_of_def by (metis distinct_card length_map list.set_map)
  have sub: "heads_of tr \<subseteq> set V" using T by (simp add: trace_ok_def)
  have V: "card (set V) = length V" using assms(2) by (simp add: flow_ok_def distinct_card)
  show "length tr \<le> length V" using c V sub by (metis List.finite_set card_mono)
  show "tr \<noteq> []" using Q by (auto simp: queue_ok_def)
  show "heads_of tr = set V" if "length tr = length V"
    using that c V sub by (simp add: card_subset_eq)
qed

lemma run_singletons:
  assumes "run V pr e [] tr" "flow_ok V pr e" "length tr = length V" "(h, I, q) \<in> set tr"
  shows "I = [h]"
proof -
  have T: "trace_ok V pr e tr" using run_ok assms by blast
  have I: "is_interval (set V - {e}) pr h I" using T assms(4) by (auto simp: trace_ok_def)
  have mem: "x = h" if x: "x \<in> set I" for x
  proof (rule ccontr)
    assume "x \<noteq> h"
    then have "x \<in> heads_of tr" using is_interval_member(1) [OF I x] run_count(3) assms by auto
    then obtain J r where J: "(x, J, r) \<in> set tr" by (auto simp: heads_of_def)
    then have "x \<in> set J" using T is_interval_head by (fastforce simp: trace_ok_def)
    moreover have "set J \<inter> set I = {}"
      by (rule trace_disjoint [OF T J assms(4) \<open>x \<noteq> h\<close>])
    ultimately show False using x by blast
  qed
  have "I \<noteq> []" "hd I = h" "distinct I" using is_interval_list [OF I] by simp_all
  then obtain t where t: "I = h # t" "h \<notin> set t" by (cases I) simp_all
  have "t = []"
  proof (cases t)
    case (Cons a t')
    then have "a = h" using mem [of a] t(1) by simp
    with Cons t(2) show ?thesis by simp
  qed
  with t(1) show ?thesis by simp
qed

text \<open>The edges a finished run keeps, as pairs of heads.\<close>

definition kept :: "nat list \<Rightarrow> (nat \<Rightarrow> nat set) \<Rightarrow> entry list \<Rightarrow> (nat \<times> nat) set" where
  "kept V pr tr = {(a, b). links V pr tr a b}"

definition edges_of :: "nat list \<Rightarrow> (nat \<Rightarrow> nat set) \<Rightarrow> (nat \<times> nat) set" where
  "edges_of V pr = {(a, b). b \<in> set V \<and> a \<in> pr b}"

text \<open>
  When no interval absorbed a node, the last head has two incoming edges: two because a single
  predecessor would have absorbed it. The source of the second one was processed while the head
  was waiting in the queue, so that edge is dropped.
\<close>

lemma run_loses_edge:
  assumes run: "run V pr e [] tr" and flow: "flow_ok V pr e"
    and len: "length tr = length V" and big: "1 < length V"
  shows "kept V pr tr \<subset> edges_of V pr"
proof -
  have T: "trace_ok V pr e tr" and W: "waiting V pr tr" using run_ok run flow by blast+
  have single: "I = [h]" if "(h, I, q) \<in> set tr" for h I q
    using run_singletons [OF run flow len that] .
  have heads: "heads_of tr = set V" using run_count(3) [OF run flow len] .
  have entry: "\<exists>q. (x, [x], q) \<in> set tr" if "x \<in> set V" for x
  proof -
    have "x \<in> fst ` set tr" using that heads by (simp add: heads_of_def)
    then obtain I q where "(x, I, q) \<in> set tr" by (metis imageE prod.collapse)
    with single show ?thesis by blast
  qed
  have sub: "kept V pr tr \<subseteq> edges_of V pr"
    using single by (fastforce simp: kept_def edges_of_def links_def found_def)
  obtain z I r xs where tr: "tr = xs @ [(z, I, r)]"
    using len big by (cases tr rule: rev_cases) auto
  have z: "(z, [z], r) \<in> set tr" using single [of z I r] tr by simp
  have zV: "z \<in> set V" using heads tr by auto
  have "xs \<noteq> []" using tr len big by auto
  have dis: "distinct (map fst tr)" "fst (hd tr) = e" using T tr by (auto simp: trace_ok_def)
  then have "z \<noteq> e" using tr \<open>xs \<noteq> []\<close> by (cases xs) auto
  have zx: "z \<notin> heads_of xs" using dis(1) tr by (auto simp: heads_of_def)
  obtain p where p: "p \<in> pr z" "p \<noteq> z"
  proof -
    have "\<not> pr z \<subseteq> {z}"
    proof
      assume sub: "pr z \<subseteq> {z}"
      have "a = z \<Longrightarrow> False" if "(\<lambda>a b. a \<in> pr b)\<^sup>*\<^sup>* e a" for a
        using that sub \<open>z \<noteq> e\<close> by (induction rule: rtranclp_induct) auto
      with flow zV show False unfolding flow_ok_def by blast
    qed
    with that show ?thesis by blast
  qed
  have "\<not> pr z \<subseteq> {p}"
  proof
    assume "pr z \<subseteq> {p}"
    moreover have "p \<in> set V" using p(1) zV flow by (auto simp: flow_ok_def)
    then obtain q where "(p, [p], q) \<in> set tr" using entry by blast
    then have "is_interval (set V - {e}) pr p [p]" using T by (auto simp: trace_ok_def)
    ultimately have "z \<in> set [p]" using zV \<open>z \<noteq> e\<close> unfolding is_interval_def by simp
    with p show False by simp
  qed
  then obtain p' where p': "p' \<in> pr z" "p' \<noteq> p" by blast
  have "\<exists>a. (a, z) \<in> edges_of V pr - kept V pr tr"
  proof (cases "p' = z")
    case True
    have "(z, z) \<notin> kept V pr tr" using single by (fastforce simp: kept_def links_def found_def)
    then show ?thesis using True p' zV by (auto simp: edges_of_def)
  next
    case False
    have pV: "p \<in> set V" "p' \<in> set V" using p p' zV flow by (auto simp: flow_ok_def)
    have inx: "\<exists>q. (y, [y], q) \<in> set xs" if y: "y \<in> set V" "y \<noteq> z" for y
    proof -
      obtain q where "(y, [y], q) \<in> set tr" using entry y(1) by blast
      with y(2) tr show ?thesis by auto
    qed
    obtain q q' where q: "(p, [p], q) \<in> set xs" "(p', [p'], q') \<in> set xs"
      using inx pV p(2) False by blast
    have later: "(b, z) \<notin> kept V pr tr"
      if "xs = us @ (b, [b], s) # vs" "(a, [a], t) \<in> set us" "a \<in> pr z" for a b s t us vs
    proof
      assume "(b, z) \<in> kept V pr tr"
      then obtain J u where J: "(b, J, u) \<in> set tr" "z \<in> set (found V pr J u)"
        by (auto simp: kept_def links_def)
      have "(b, [b], s) \<in> set tr" using that(1) tr by simp
      with distinct_heads [OF dis(1) J(1)] have "u = s" by fastforce
      with J(2) have zs: "z \<notin> set s" by (simp add: found_def)
      have tr': "tr = us @ (b, [b], s) # (vs @ [(z, I, r)])" using that(1) tr by simp
      have "a \<noteq> z" using zx that(1,2) by (force simp: heads_of_def)
      with W tr' that(2,3) zV have "z \<in> set s \<or> z = b \<or> z \<in> heads_of us"
        unfolding waiting_def by (metis Int_iff empty_iff list.set_intros(1) empty_set singletonD list.simps(15))
      with zs zx that(1) show False by (auto simp: heads_of_def)
    qed
    from q(2) obtain us vs where xs: "xs = us @ (p', [p'], q') # vs" by (meson split_list)
    with q(1) p'(2) consider "(p, [p], q) \<in> set us" | "(p, [p], q) \<in> set vs" by auto
    then show ?thesis
    proof cases
      case 1
      then have "(p', z) \<notin> kept V pr tr" using later [OF xs 1 p(1)] by simp
      then show ?thesis using p'(1) zV by (auto simp: edges_of_def)
    next
      case 2
      then obtain as bs where "vs = as @ (p, [p], q) # bs" by (meson split_list)
      with xs have "xs = (us @ (p', [p'], q') # as) @ (p, [p], q) # bs" by simp
      with later [OF this, of p' q'] p'(1) have "(p, z) \<notin> kept V pr tr" by simp
      then show ?thesis using p(1) zV by (auto simp: edges_of_def)
    qed
  qed
  with sub show ?thesis by blast
qed

lemma finite_edges_of: "flow_ok V pr e \<Longrightarrow> finite (edges_of V pr)"
  by (rule finite_subset [of _ "set V \<times> set V"]) (auto simp: edges_of_def flow_ok_def)

end
