(* ===== verification/Interval_Termination.thy ===== *)
theory Interval_Termination
  imports Cfg_Intervals Cfg_Traversal Interval_Spec
begin

text \<open>
  \<open>Intervals\<close> carries out the machine of \<open>Interval_Spec\<close>: the invariant \<open>sim\<close> relates the store,
  the interval graph and the tables of the loop to a trace. Hence the interval graph is again a
  flow graph in which every node is reachable, it never has more nodes, and if it has as many it
  has fewer edges; \<open>DerivedSequenceOf\<close> therefore returns.
\<close>

section \<open>The store while intervals are built\<close>

text \<open>Membership only goes down to older objects.\<close>

definition closed_store :: "'i store \<Rightarrow> bool" where
  "closed_store s \<longleftrightarrow> (\<forall>n < fresh s. set (n_content (heap s n)) \<subseteq> {..<fresh s})"

text \<open>No listed node contains another listed node.\<close>

definition flat :: "'i store \<Rightarrow> nat set \<Rightarrow> bool" where
  "flat s V \<longleftrightarrow> (\<forall>n \<in> V. \<forall>x \<in> V. n_class (heap s n) = IntervalNode \<longrightarrow> (\<forall>d. \<not> contains_to d s n x))"

definition pred_set :: "'i graph \<Rightarrow> nat \<Rightarrow> nat set" where
  "pred_set g x = set (all_preds g x)"

definition flow_graph :: "'i store \<Rightarrow> 'i graph \<Rightarrow> nat \<Rightarrow> bool" where
  "flow_graph s g e \<longleftrightarrow>
     g_entry g = Some e \<and> flow_ok (g_nodes g) (pred_set g) e \<and>
     set (drop 1 (g_rpo g)) = set (g_nodes g) - {e} \<and> set (g_nodes g) \<subseteq> {..<fresh s} \<and>
     closed_store s \<and> flat s (set (g_nodes g))"

text \<open>What a store built from \<open>s0\<close> keeps: the old objects' members and classes.\<close>

definition extends :: "'i store \<Rightarrow> nat set \<Rightarrow> 'i store \<Rightarrow> bool" where
  "extends s0 V s \<longleftrightarrow>
     fresh s0 \<le> fresh s \<and>
     (\<forall>n < fresh s0. n_content (heap s n) = n_content (heap s0 n) \<and>
        n_class (heap s n) = n_class (heap s0 n)) \<and>
     (\<forall>n. fresh s0 \<le> n \<and> n < fresh s \<longrightarrow>
        set (n_content (heap s n)) \<subseteq> V \<and> n_class (heap s n) = IntervalNode)"

lemma contains_old:
  assumes "closed_store s0" "extends s0 V s" "n < fresh s0"
  shows "contains_to d s n x = contains_to d s0 n x"
  using assms(3)
proof (induction d arbitrary: n)
  case (Suc d)
  have "n_content (heap s n) = n_content (heap s0 n)" using assms(2) Suc.prems by (simp add: extends_def)
  moreover have "m < fresh s0" if "m \<in> set (n_content (heap s0 n))" for m
    using assms(1) Suc.prems that by (auto simp: closed_store_def)
  ultimately show ?case
    using Suc.IH assms(2) by (auto simp: extends_def)
qed simp

lemma Contains_flat:
  assumes "closed_store s0" "extends s0 V s" "flat s0 V" "V \<subseteq> {..<fresh s0}"
    and "fresh s0 \<le> iv" "iv < fresh s" "x \<in> V"
  shows "Contains s iv x \<longleftrightarrow> x \<in> set (n_content (heap s iv))"
proof -
  have "\<not> contains_to iv s n x"
    if "n \<in> set (n_content (heap s iv))" "n_class (heap s n) = IntervalNode" for n
  proof -
    have "n \<in> V" using assms(2,5,6) that(1) by (auto simp: extends_def)
    then have n: "n < fresh s0" using assms(4) by auto
    then have "n_class (heap s0 n) = IntervalNode" using assms(2) that(2) by (simp add: extends_def)
    then show ?thesis
      using contains_old [OF assms(1,2) n] assms(3,7) \<open>n \<in> V\<close> by (simp add: flat_def)
  qed
  then show ?thesis by (auto simp: Contains_def)
qed

lemma contains_less:
  assumes "closed_store s0" "extends s0 V s" "V \<subseteq> {..<fresh s0}" "n < fresh s"
    and "contains_to d s n x"
  shows "x < fresh s0"
  using assms(4,5)
proof (induction d arbitrary: n)
  case (Suc d)
  have sub: "set (n_content (heap s n)) \<subseteq> {..<fresh s0}"
  proof (cases "n < fresh s0")
    case True
    with assms(1,2) show ?thesis by (simp add: extends_def closed_store_def)
  next
    case False
    with assms(2) Suc.prems(1) have "set (n_content (heap s n)) \<subseteq> V" by (simp add: extends_def)
    with assms(3) show ?thesis by blast
  qed
  have le: "fresh s0 \<le> fresh s" using assms(2) by (simp add: extends_def)
  from Suc.prems(2) consider "x \<in> set (n_content (heap s n))"
    | m where "m \<in> set (n_content (heap s n))" "contains_to d s m x" by auto
  then show ?case
  proof cases
    case 1
    with sub show ?thesis by blast
  next
    case 2
    with sub le have "m < fresh s" by force
    with Suc.IH 2(2) show ?thesis by blast
  qed
qed simp

section \<open>Growing one interval\<close>

text \<open>A list that is an interval except for maximality.\<close>

definition is_prefix_interval :: "nat set \<Rightarrow> (nat \<Rightarrow> nat set) \<Rightarrow> nat \<Rightarrow> nat list \<Rightarrow> bool" where
  "is_prefix_interval cand pr h I \<longleftrightarrow>
     I \<noteq> [] \<and> hd I = h \<and> distinct I \<and>
     (\<forall>xs x ys. I = xs @ x # ys \<longrightarrow> xs \<noteq> [] \<longrightarrow> x \<in> cand \<and> pr x \<subseteq> set xs)"

lemma is_prefix_interval_start: "is_prefix_interval cand pr h [h]"
  by (auto simp: is_prefix_interval_def Cons_eq_append_conv)

lemma is_prefix_interval_snoc:
  assumes "is_prefix_interval cand pr h I" "x \<in> cand" "pr x \<subseteq> set I" "x \<notin> set I"
  shows "is_prefix_interval cand pr h (I @ [x])"
proof -
  have "y \<in> cand \<and> pr y \<subseteq> set xs" if "I @ [x] = xs @ y # ys" "xs \<noteq> []" for xs y ys
    using that assms unfolding is_prefix_interval_def
    by (cases ys rule: rev_cases) (simp, metis append.assoc append_Cons butlast_snoc)
  with assms show ?thesis by (auto simp: is_prefix_interval_def)
qed

text \<open>Nothing but the interval's members and the members' back pointers is written.\<close>

definition only_members :: "nat \<Rightarrow> nat set \<Rightarrow> 'i store \<Rightarrow> 'i store \<Rightarrow> bool" where
  "only_members iv C s s' \<longleftrightarrow>
     fresh s' = fresh s \<and>
     (\<forall>n. n \<noteq> iv \<longrightarrow> n_content (heap s' n) = n_content (heap s n)) \<and>
     (\<forall>n. n_class (heap s' n) = n_class (heap s n)) \<and>
     (\<forall>n. n \<notin> C \<longrightarrow> n_interval (heap s' n) = n_interval (heap s n))"

lemma only_members_refl [simp]: "only_members iv C s s"
  by (simp add: only_members_def)

lemma only_members_trans:
  "only_members iv C s s' \<Longrightarrow> only_members iv C s' s'' \<Longrightarrow> only_members iv C s s''"
  by (simp add: only_members_def)

lemma only_members_extends:
  assumes "extends s0 V s" "only_members iv C s s'" "fresh s0 \<le> iv" "set (n_content (heap s' iv)) \<subseteq> V"
  shows "extends s0 V s'"
  using assms unfolding extends_def only_members_def by (metis not_less)

lemma AddNode_members:
  assumes "AddNode iv n s = (b, s')" "n \<notin> set (n_content (heap s iv))" "n \<in> C"
  shows "b" "n_content (heap s' iv) = n_content (heap s iv) @ [n]" "only_members iv C s s'"
  using assms by (auto simp: AddNode_def only_members_def)

lemma flow_graphD:
  assumes "flow_graph s0 g e"
  shows "closed_store s0" "flat s0 (set (g_nodes g))" "set (g_nodes g) \<subseteq> {..<fresh s0}"
    "flow_ok (g_nodes g) (pred_set g) e" "g_entry g = Some e"
    "set (drop 1 (g_rpo g)) = set (g_nodes g) - {e}"
    "\<And>x. x \<in> set (g_nodes g) \<Longrightarrow> pred_set g x \<subseteq> set (g_nodes g)"
    "distinct (g_nodes g)" "e \<in> set (g_nodes g)"
  using assms by (auto simp: flow_graph_def flow_ok_def)

lemma Contains_pred_set:
  assumes "flow_graph s0 g e" "extends s0 (set (g_nodes g)) s" "fresh s0 \<le> iv" "iv < fresh s"
    and "x \<in> set (g_nodes g)"
  shows "Contains s iv x \<longleftrightarrow> x \<in> set (n_content (heap s iv))"
    and "(\<forall>p \<in> set (all_preds g x). Contains s iv p) \<longleftrightarrow> pred_set g x \<subseteq> set (n_content (heap s iv))"
    and "(\<exists>p \<in> set (all_preds g x). Contains s iv p) \<longleftrightarrow> pred_set g x \<inter> set (n_content (heap s iv)) \<noteq> {}"
proof -
  note f = flow_graphD [OF assms(1)]
  have c: "Contains s iv y \<longleftrightarrow> y \<in> set (n_content (heap s iv))" if "y \<in> set (g_nodes g)" for y
    by (rule Contains_flat [OF f(1) assms(2) f(2,3) assms(3,4) that])
  show "Contains s iv x \<longleftrightarrow> x \<in> set (n_content (heap s iv))" by (rule c [OF assms(5)])
  have "Contains s iv p \<longleftrightarrow> p \<in> set (n_content (heap s iv))" if "p \<in> set (all_preds g x)" for p
    using c f(7) [OF assms(5)] that by (auto simp: pred_set_def)
  then show "(\<forall>p \<in> set (all_preds g x). Contains s iv p) \<longleftrightarrow> pred_set g x \<subseteq> set (n_content (heap s iv))"
    and "(\<exists>p \<in> set (all_preds g x). Contains s iv p) \<longleftrightarrow> pred_set g x \<inter> set (n_content (heap s iv)) \<noteq> {}"
    by (auto simp: pred_set_def)
qed

text \<open>One sweep: the content stays a prefix of an interval; a sweep that adds nothing shows it
  is maximal.\<close>

lemma grow_pass_interval:
  assumes flow: "flow_graph s0 g e" and "extends s0 (set (g_nodes g)) s"
    and "fresh s0 \<le> iv" "iv < fresh s"
    and "is_prefix_interval (set (g_nodes g) - {e}) (pred_set g) h (n_content (heap s iv))"
    and "set (n_content (heap s iv)) \<subseteq> set (g_nodes g)"
    and "set ns \<subseteq> set (g_nodes g) - {e}" and "grow_pass g iv ns c s = (c', s')"
  shows "extends s0 (set (g_nodes g)) s' \<and> only_members iv (set (g_nodes g) - {e}) s s' \<and>
    is_prefix_interval (set (g_nodes g) - {e}) (pred_set g) h (n_content (heap s' iv)) \<and>
    set (n_content (heap s' iv)) \<subseteq> set (g_nodes g) \<and>
    (\<not> c' \<longrightarrow> \<not> c \<and> s' = s \<and>
      (\<forall>x \<in> set ns. pred_set g x \<subseteq> set (n_content (heap s iv)) \<longrightarrow> x \<in> set (n_content (heap s iv))))"
  using assms(2,4-)
proof (induction ns arbitrary: c s)
  case Nil
  then show ?case by auto
next
  case (Cons n ns)
  note ext = Cons.prems(1) and iv = \<open>fresh s0 \<le> iv\<close> Cons.prems(2)
  have n: "n \<in> set (g_nodes g)" "n \<in> set (g_nodes g) - {e}" using Cons.prems(5) by auto
  note C = Contains_pred_set [OF flow ext iv n(1)]
  consider (keep) "n \<in> set (n_content (heap s iv)) \<or> \<not> pred_set g n \<subseteq> set (n_content (heap s iv))"
    | (add) "n \<notin> set (n_content (heap s iv))" "pred_set g n \<subseteq> set (n_content (heap s iv))" by blast
  then show ?case
  proof cases
    case keep
    then have "grow_pass g iv ns c s = (c', s')" using Cons.prems(6) C by (auto split: if_splits)
    with Cons.IH [OF ext Cons.prems(2-4) _ this] Cons.prems(5) keep show ?thesis by auto
  next
    case add
    obtain b s1 where a: "AddNode iv n s = (b, s1)" by fastforce
    note A = AddNode_members [OF a add(1) n(2)]
    have g1: "grow_pass g iv ns True s1 = (c', s')"
      using Cons.prems(6) C add a A(1) by (simp add: Let_def)
    have sub: "set (n_content (heap s1 iv)) \<subseteq> set (g_nodes g)" using A(2) n Cons.prems(4) by auto
    have ext1: "extends s0 (set (g_nodes g)) s1"
      by (rule only_members_extends [OF ext A(3) iv(1) sub])
    have pre: "is_prefix_interval (set (g_nodes g) - {e}) (pred_set g) h (n_content (heap s1 iv))"
      unfolding A(2) by (rule is_prefix_interval_snoc [OF Cons.prems(3) n(2) add(2,1)])
    have "iv < fresh s1" using A(3) iv(2) by (simp add: only_members_def)
    from Cons.IH [OF ext1 this pre sub _ g1] Cons.prems(5) A(3) show ?thesis
      by (auto intro: only_members_trans)
  qed
qed

lemma grow_interval:
  assumes flow: "flow_graph s0 g e" and "extends s0 (set (g_nodes g)) s"
    and "fresh s0 \<le> iv" "iv < fresh s"
    and "is_prefix_interval (set (g_nodes g) - {e}) (pred_set g) h (n_content (heap s iv))"
    and "set (n_content (heap s iv)) \<subseteq> set (g_nodes g)"
  shows "extends s0 (set (g_nodes g)) (grow g iv s) \<and>
    only_members iv (set (g_nodes g) - {e}) s (grow g iv s) \<and>
    is_interval (set (g_nodes g) - {e}) (pred_set g) h (n_content (heap (grow g iv s) iv)) \<and>
    set (n_content (heap (grow g iv s) iv)) \<subseteq> set (g_nodes g)"
  using assms
proof (induction g iv s rule: grow.induct)
  case (1 g iv s)
  obtain c s' where p: "grow_pass g iv (drop 1 (g_rpo g)) False s = (c, s')" by fastforce
  have cand: "set (drop 1 (g_rpo g)) = set (g_nodes g) - {e}" by (rule flow_graphD(6) [OF 1(2)])
  note P = grow_pass_interval [OF 1(2-7) _ p, unfolded cand, OF subset_refl]
  have iv: "iv < fresh s'" using P 1(5) by (simp add: only_members_def)
  show ?case
  proof (cases c)
    case True
    then have eq: "grow g iv s = grow g iv s'" by (subst grow.simps) (simp add: p [simplified])
    have "extends s0 (set (g_nodes g)) (grow g iv s') \<and>
      only_members iv (set (g_nodes g) - {e}) s' (grow g iv s') \<and>
      is_interval (set (g_nodes g) - {e}) (pred_set g) h (n_content (heap (grow g iv s') iv)) \<and>
      set (n_content (heap (grow g iv s') iv)) \<subseteq> set (g_nodes g)"
      using 1(1) [OF p [symmetric] True 1(2) _ 1(4) iv] P by blast
    with P eq show ?thesis by (auto intro: only_members_trans)
  next
    case False
    then have eq: "grow g iv s = s" using P by (subst grow.simps) (simp add: p [simplified])
    have max: "\<forall>x \<in> set (g_nodes g) - {e}. pred_set g x \<subseteq> set (n_content (heap s iv)) \<longrightarrow>
        x \<in> set (n_content (heap s iv))"
      using P False by blast
    have "is_interval (set (g_nodes g) - {e}) (pred_set g) h (n_content (heap s iv))"
      using 1(6) max unfolding is_interval_def is_prefix_interval_def by blast
    with 1 eq show ?thesis by simp
  qed
qed

section \<open>The loop\<close>

lemma new_heads_found:
  assumes flow: "flow_graph s0 g e" and ext: "extends s0 (set (g_nodes g)) s"
    and iv: "fresh s0 \<le> iv" "iv < fresh s" and "set ns \<subseteq> set (g_nodes g)" "distinct ns"
  shows "new_heads g iv s ns hs es =
    (hs @ found ns (pred_set g) (n_content (heap s iv)) hs,
     es @ found ns (pred_set g) (n_content (heap s iv)) hs)"
  using assms(5,6)
proof (induction ns arbitrary: hs es)
  case Nil
  then show ?case by (simp add: found_def)
next
  case (Cons n ns)
  let ?I = "n_content (heap s iv)"
  have C: "Contains s iv n \<longleftrightarrow> n \<in> set ?I"
      "(\<exists>p \<in> set (all_preds g n). Contains s iv p) \<longleftrightarrow> pred_set g n \<inter> set ?I \<noteq> {}"
    using Contains_pred_set [OF flow ext iv, of n] Cons.prems(1) by auto
  have "filter (\<lambda>x. x \<notin> set ?I \<and> x \<notin> set (hs @ [n]) \<and> pred_set g x \<inter> set ?I \<noteq> {}) ns
      = filter (\<lambda>x. x \<notin> set ?I \<and> x \<notin> set hs \<and> pred_set g x \<inter> set ?I \<noteq> {}) ns"
    using Cons.prems(2) by (intro filter_cong) auto
  with Cons.IH [of "hs @ [n]"] Cons.IH [of hs] Cons.prems C show ?case
    by (auto simp: found_def)
qed

definition kept_edges :: "nat \<Rightarrow> nat list \<Rightarrow> (nat \<Rightarrow> nat set) \<Rightarrow> entry list \<Rightarrow> (nat \<times> nat list) list" where
  "kept_edges F V pr tr =
     map2 (\<lambda>i (h, I, q). (i, found V pr I q)) [F..<F + length tr] tr"

definition sim :: "'i store \<Rightarrow> 'i graph \<Rightarrow> nat \<Rightarrow> 'i intervals_state \<Rightarrow> entry list \<Rightarrow> bool" where
  "sim s0 g e st tr \<longleftrightarrow>
     (case st of (s, ig, ih, edges) \<Rightarrow>
        extends s0 (set (g_nodes g)) s \<and> fresh s = fresh s0 + length tr \<and>
        (\<forall>k < length tr. n_content (heap s (fresh s0 + k)) = fst (snd (tr ! k))) \<and>
        ig = empty_graph\<lparr>g_nodes := [fresh s0..<fresh s0 + length tr]\<rparr> \<and>
        map_of ih = map_of (zip (map fst tr) [fresh s0..<fresh s0 + length tr]) \<and>
        edges = kept_edges (fresh s0) (g_nodes g) (pred_set g) tr \<and>
        (tr \<noteq> [] \<longrightarrow> n_interval (heap s e) = Some (fresh s0)))"

lemma simD:
  assumes "sim s0 g e (s, ig, ih, edges) tr"
  shows "extends s0 (set (g_nodes g)) s" "fresh s = fresh s0 + length tr"
    "k < length tr \<Longrightarrow> n_content (heap s (fresh s0 + k)) = fst (snd (tr ! k))"
    "ig = empty_graph\<lparr>g_nodes := [fresh s0..<fresh s0 + length tr]\<rparr>"
    "map_of ih = map_of (zip (map fst tr) [fresh s0..<fresh s0 + length tr])"
    "edges = kept_edges (fresh s0) (g_nodes g) (pred_set g) tr"
    "tr \<noteq> [] \<Longrightarrow> n_interval (heap s e) = Some (fresh s0)"
  using assms by (auto simp: sim_def)

lemma new_Interval_facts:
  assumes "new_Interval h s = (iv, s1)" "h < fresh s"
  shows "iv = fresh s" "fresh s1 = Suc (fresh s)"
    "n_content (heap s1 n) = (if n = fresh s then [h] else n_content (heap s n))"
    "n_class (heap s1 n) = (if n = fresh s then IntervalNode else n_class (heap s n))"
    "n < fresh s \<Longrightarrow> n_interval (heap s1 n) = (if n = h then Some iv else n_interval (heap s n))"
  using assms by (auto simp: new_Interval_def alloc_def new_block_def)

lemma ComputeEnd_heap:
  "fresh (ComputeEnd iv g s) = fresh s" "n_content (heap (ComputeEnd iv g s) n) = n_content (heap s n)"
  "n_class (heap (ComputeEnd iv g s) n) = n_class (heap s n)"
  "n_interval (heap (ComputeEnd iv g s) n) = n_interval (heap s n)"
  by (auto simp: ComputeEnd_def Let_def)

lemma map_of_zip_snoc:
  assumes "h \<notin> set ks" "length ks = length vs"
  shows "map_of (zip (ks @ [h]) (vs @ [v])) = (map_of (zip ks vs))(h \<mapsto> v)"
proof -
  have "map_of (zip ks vs) h = None" using assms by (simp add: map_of_zip_is_None)
  then show ?thesis
    by (simp only: zip_append [OF assms(2)] map_of_append) (auto simp: map_add_def split: option.split)
qed

lemma sim_step:
  assumes flow: "flow_graph s0 g e" and sim: "sim s0 g e (s, ig, ih, edges) tr"
    and run: "run (g_nodes g) (pred_set g) e (h # q) tr" and new: "h \<notin> heads_of tr"
    and iv: "new_Interval h s = (iv, s1)" and nh: "new_heads g iv (grow g iv s1) (g_nodes g) q [] = (q', es)"
  shows "\<exists>I. is_interval (set (g_nodes g) - {e}) (pred_set g) h I \<and>
    q' = q @ found (g_nodes g) (pred_set g) I q \<and>
    sim s0 g e (ComputeEnd iv g (grow g iv s1), add_node iv ig, AList.update h iv ih,
      edges @ [(iv, es)]) (tr @ [(h, I, q)])"
proof -
  let ?V = "g_nodes g" and ?pr = "pred_set g" and ?F = "fresh s0"
  note D = simD [OF sim] and f = flow_graphD [OF flow]
  have R: "trace_ok ?V ?pr e tr" "queue_ok ?V ?pr e (h # q) tr" using run_ok [OF run f(4)] by auto
  then have h: "h \<in> set ?V" by (auto simp: queue_ok_def)
  then have hF: "h < ?F" "e < ?F" using f(3,9) by auto
  have le: "?F \<le> fresh s" using D(2) by simp
  have hs: "h < fresh s" using hF(1) le by simp
  note N = new_Interval_facts [OF iv hs]
  have ext1: "extends s0 (set ?V) s1"
    unfolding extends_def
  proof (intro conjI allI impI)
    show "?F \<le> fresh s1" using le N(2) by simp
    fix n assume "n < ?F"
    with le D(1) show "n_content (heap s1 n) = n_content (heap s0 n)"
      "n_class (heap s1 n) = n_class (heap s0 n)"
      by (auto simp: N(3,4) extends_def)
  next
    fix n assume "?F \<le> n \<and> n < fresh s1"
    with D(1) h show "set (n_content (heap s1 n)) \<subseteq> set ?V" "n_class (heap s1 n) = IntervalNode"
      by (auto simp: N(2,3,4) extends_def less_Suc_eq)
  qed
  have ivb: "?F \<le> iv" "iv < fresh s1" "iv = ?F + length tr" using N(1,2) D(2) le by auto
  have c1: "n_content (heap s1 iv) = [h]" using N(1,3) by simp
  define s2 where "s2 = grow g iv s1"
  define I where "I = n_content (heap s2 iv)"
  have G: "extends s0 (set ?V) s2" "only_members iv (set ?V - {e}) s1 s2"
    "is_interval (set ?V - {e}) ?pr h I" "set I \<subseteq> set ?V"
    using grow_interval [OF flow ext1 ivb(1,2), of h] h
    by (auto simp: s2_def I_def c1 is_prefix_interval_start)
  have fr2: "fresh s2 = fresh s1" and co2: "\<And>n. n \<noteq> iv \<Longrightarrow> n_content (heap s2 n) = n_content (heap s1 n)"
    and in2: "\<And>n. n \<notin> set ?V - {e} \<Longrightarrow> n_interval (heap s2 n) = n_interval (heap s1 n)"
    using G(2) by (auto simp: only_members_def)
  have nh': "q' = q @ found ?V ?pr I q" "es = found ?V ?pr I q"
    using nh new_heads_found [OF flow G(1) ivb(1), of ?V q "[]"] ivb(2) fr2 f(8)
    by (auto simp: s2_def [symmetric] I_def)
  let ?tr = "tr @ [(h, I, q)]"
  let ?s3 = "ComputeEnd iv g s2"
  have len: "[?F..<?F + length ?tr] = [?F..<?F + length tr] @ [iv]" using ivb(3) by simp
  have "extends s0 (set ?V) ?s3" using G(1) by (simp add: extends_def ComputeEnd_heap)
  moreover have "fresh ?s3 = ?F + length ?tr" using fr2 N(2) D(2) by (simp add: ComputeEnd_heap)
  moreover have "n_content (heap ?s3 (?F + k)) = fst (snd (?tr ! k))" if "k < length ?tr" for k
  proof (cases "k = length tr")
    case True
    then show ?thesis using ivb(3) by (simp add: ComputeEnd_heap I_def)
  next
    case False
    with that have k: "k < length tr" by simp
    then have "?F + k \<noteq> iv" "?F + k \<noteq> fresh s" using ivb(3) D(2) by auto
    with k co2 D(3) [OF k] show ?thesis by (simp add: ComputeEnd_heap N(3) nth_append)
  qed
  moreover have "add_node iv ig = empty_graph\<lparr>g_nodes := [?F..<?F + length ?tr]\<rparr>"
    unfolding len D(4) by (simp add: add_node_def)
  moreover have "map_of (AList.update h iv ih) = map_of (zip (map fst ?tr) [?F..<?F + length ?tr])"
    using new unfolding len
    by (simp add: update_conv' D(5) map_of_zip_snoc heads_of_def del: zip_append upt_Suc)
  moreover have "edges @ [(iv, es)] = kept_edges ?F ?V ?pr ?tr"
    using nh'(2) D(6) unfolding kept_edges_def len by simp
  moreover have "n_interval (heap ?s3 e) = Some ?F"
  proof (cases "tr = []")
    case True
    then have "h = e" "iv = ?F" using R(2) ivb(3) by (auto simp: queue_ok_def)
    then show ?thesis using N(5) hs in2 [of e] by (simp add: ComputeEnd_heap)
  next
    case False
    then have "e \<in> heads_of tr"
      using R(1) unfolding trace_ok_def heads_of_def by (metis image_eqI list.set_sel(1))
    then have "e \<noteq> h" using new by auto
    then show ?thesis
      using N(5) [of e] hF(2) le in2 [of e] D(7) False by (simp add: ComputeEnd_heap)
  qed
  ultimately have "sim s0 g e (?s3, add_node iv ig, AList.update h iv ih, edges @ [(iv, es)]) ?tr"
    unfolding sim_def by simp
  with G(3) nh'(1) show ?thesis unfolding s2_def by blast
qed

lemma sim_loop:
  assumes "flow_graph s0 g e" and "sim s0 g e st tr" and "run (g_nodes g) (pred_set g) e heads tr"
    and "set processed = heads_of tr"
  shows "\<exists>tr'. run (g_nodes g) (pred_set g) e [] tr' \<and> sim s0 g e (intervals_loop g heads processed st) tr'"
  using assms
proof (induction g heads processed st arbitrary: tr rule: intervals_loop.induct)
  case (1 g processed st)
  then show ?case by auto
next
  case (2 g h q processed s ig ih edges)
  show ?case
  proof (cases "h \<in> set processed")
    case True
    with 2(1) [OF True 2(3,4)] 2(5,6) show ?thesis
      by (simp add: intervals_loop.simps(2) run.skip)
  next
    case False
    then have new: "h \<notin> heads_of tr" using 2(6) by simp
    obtain iv s1 where iv: "new_Interval h s = (iv, s1)" by fastforce
    obtain q' es where nh: "new_heads g iv (grow g iv s1) (g_nodes g) q [] = (q', es)" by fastforce
    obtain I where I: "is_interval (set (g_nodes g) - {e}) (pred_set g) h I"
      "q' = q @ found (g_nodes g) (pred_set g) I q"
      "sim s0 g e (ComputeEnd iv g (grow g iv s1), add_node iv ig, AList.update h iv ih,
        edges @ [(iv, es)]) (tr @ [(h, I, q)])"
      using sim_step [OF 2(3,4,5) new iv nh] by blast
    have "run (g_nodes g) (pred_set g) e q' (tr @ [(h, I, q)])"
      unfolding I(2) by (rule run.step [OF 2(5) new I(1)])
    from 2(2) [OF False iv [symmetric] refl refl nh [symmetric] refl 2(3) I(3) this] 2(6)
    have "\<exists>tr'. run (g_nodes g) (pred_set g) e [] tr' \<and>
        sim s0 g e (intervals_loop g q' (h # processed)
          (ComputeEnd iv g (grow g iv s1), add_node iv ig, AList.update h iv ih, edges @ [(iv, es)])) tr'"
      by simp
    then show ?thesis using False iv nh by (simp add: intervals_loop.simps(2) Let_def)
  qed
qed

section \<open>The graph of the intervals\<close>

lemma step_add_edge: "step (add_edge a b g) u v \<longleftrightarrow> step g u v \<or> (u = a \<and> v = b)"
  by (auto simp: step_def all_sucs_def add_edge_def)

lemma link_heads_Cons:
  "link_heads ih (a, x # xs) ig =
     link_heads ih (a, xs) (case map_of ih x of None \<Rightarrow> ig | Some t \<Rightarrow> add_edge a t ig)"
  unfolding link_heads_def fst_conv snd_conv by simp

lemma link_heads_step:
  "step (link_heads ih (a, xs) ig) u v \<longleftrightarrow> step ig u v \<or> (u = a \<and> (\<exists>x \<in> set xs. map_of ih x = Some v))"
proof (induction xs arbitrary: ig)
  case (Cons x xs)
  show ?case by (cases "map_of ih x") (auto simp: link_heads_Cons Cons.IH step_add_edge)
qed (simp add: link_heads_def)

lemma links_step:
  "step (fold (link_heads ih) es ig) u v \<longleftrightarrow>
     step ig u v \<or> (\<exists>xs x. (u, xs) \<in> set es \<and> x \<in> set xs \<and> map_of ih x = Some v)"
proof (induction es arbitrary: ig)
  case (Cons e es)
  show ?case by (cases e) (auto simp: Cons.IH link_heads_step)
qed simp

lemma link_heads_ok:
  assumes "graph_ok ig" "a \<in> set (g_nodes ig)" "ran (map_of ih) \<subseteq> set (g_nodes ig)"
  shows "graph_ok (link_heads ih (a, xs) ig) \<and> g_nodes (link_heads ih (a, xs) ig) = g_nodes ig"
  using assms
proof (induction xs arbitrary: ig)
  case (Cons x xs)
  show ?case
  proof (cases "map_of ih x")
    case None
    then show ?thesis using Cons by (simp add: link_heads_Cons)
  next
    case (Some t)
    then have t: "t \<in> set (g_nodes ig)" using Cons.prems(3) by (auto simp: ran_def)
    have "g_nodes (add_edge a t ig) = g_nodes ig" by (simp add: add_edge_def)
    with Cons.IH [OF graph_ok_add_edge [OF Cons.prems(1,2) t]] Cons.prems Some show ?thesis
      by (simp add: link_heads_Cons)
  qed
qed (simp add: link_heads_def)

lemma links_ok:
  assumes "graph_ok ig" "fst ` set es \<subseteq> set (g_nodes ig)" "ran (map_of ih) \<subseteq> set (g_nodes ig)"
  shows "graph_ok (fold (link_heads ih) es ig) \<and> g_nodes (fold (link_heads ih) es ig) = g_nodes ig"
  using assms
proof (induction es arbitrary: ig)
  case (Cons e es)
  obtain a xs where e: "e = (a, xs)" by fastforce
  have "graph_ok (link_heads ih e ig) \<and> g_nodes (link_heads ih e ig) = g_nodes ig"
    unfolding e by (rule link_heads_ok) (use Cons.prems e in auto)
  with Cons.IH [of "link_heads ih e ig"] Cons.prems show ?case by simp
qed simp

text \<open>Nodes of the interval graph and heads of the trace, by position.\<close>

lemma kept_edges_nth:
  "length (kept_edges F V pr tr) = length tr"
  "i < length tr \<Longrightarrow> kept_edges F V pr tr ! i =
     (F + i, found V pr (fst (snd (tr ! i))) (snd (snd (tr ! i))))"
  by (simp_all add: kept_edges_def split: prod.split)

lemma kept_edges_mem:
  "(u, xs) \<in> set (kept_edges F V pr tr) \<longleftrightarrow>
     (\<exists>i < length tr. u = F + i \<and> xs = found V pr (fst (snd (tr ! i))) (snd (snd (tr ! i))))"
proof -
  have "(u, xs) \<in> set (kept_edges F V pr tr) \<longleftrightarrow>
      (\<exists>i < length tr. kept_edges F V pr tr ! i = (u, xs))"
    by (simp add: in_set_conv_nth kept_edges_nth(1))
  then show ?thesis using kept_edges_nth(2) by fastforce
qed

lemma map_of_heads:
  assumes "distinct (map fst tr)"
  shows "map_of (zip (map fst tr) [F..<F + length tr]) x = Some v \<longleftrightarrow>
    (\<exists>j < length tr. x = fst (tr ! j) \<and> v = F + j)"
proof -
  have "map fst (zip (map fst tr) [F..<F + length tr]) = map fst tr" by simp
  then have "map_of (zip (map fst tr) [F..<F + length tr]) x = Some v \<longleftrightarrow>
      (x, v) \<in> set (zip (map fst tr) [F..<F + length tr])"
    using assms by (intro map_of_eq_Some_iff) simp
  also have "\<dots> \<longleftrightarrow> (\<exists>j < length tr. x = fst (tr ! j) \<and> v = F + j)"
    by (auto simp: in_set_zip cong: rev_conj_cong)
  finally show ?thesis .
qed

lemma links_nth:
  assumes "distinct (map fst tr)" "i < length tr"
  shows "links V pr tr (fst (tr ! i)) b \<longleftrightarrow> b \<in> set (found V pr (fst (snd (tr ! i))) (snd (snd (tr ! i))))"
proof
  assume "links V pr tr (fst (tr ! i)) b"
  then obtain h I q where h: "h = fst (tr ! i)" "(h, I, q) \<in> set tr" "b \<in> set (found V pr I q)"
    by (auto simp: links_def)
  then obtain k where k: "k < length tr" "tr ! k = (h, I, q)" by (auto simp: in_set_conv_nth)
  then have "map fst tr ! k = map fst tr ! i" using assms(2) h(1) by simp
  then have "k = i" using nth_eq_iff_index_eq [OF assms(1)] k(1) assms(2) by simp
  with k(2) \<open>b \<in> set (found V pr I q)\<close> show "b \<in> set (found V pr (fst (snd (tr ! i))) (snd (snd (tr ! i))))"
    by simp
next
  assume "b \<in> set (found V pr (fst (snd (tr ! i))) (snd (snd (tr ! i))))"
  moreover have "(fst (tr ! i), fst (snd (tr ! i)), snd (snd (tr ! i))) \<in> set tr"
    using assms(2) by simp
  ultimately show "links V pr tr (fst (tr ! i)) b" unfolding links_def by blast
qed

text \<open>
  What \<open>Intervals\<close> returns on a flow graph, in terms of a finished run: one node per head, an edge
  per link, every node reachable from the entry's interval.
\<close>

lemma Intervals_run:
  assumes flow: "flow_graph s0 g e" and I: "Intervals s0 g = (s, ig, ih)"
  obtains tr where "run (g_nodes g) (pred_set g) e [] tr" and "extends s0 (set (g_nodes g)) s"
    and "fresh s = fresh s0 + length tr" and "graph_ok ig"
    and "g_nodes ig = [fresh s0..<fresh s0 + length tr]" and "g_entry ig = Some (fresh s0)"
    and "\<And>u v. step ig u v \<longleftrightarrow> (\<exists>i < length tr. \<exists>j < length tr. u = fresh s0 + i \<and> v = fresh s0 + j \<and>
        links (g_nodes g) (pred_set g) tr (fst (tr ! i)) (fst (tr ! j)))"
proof -
  let ?V = "g_nodes g" and ?pr = "pred_set g" and ?F = "fresh s0"
  note f = flow_graphD [OF flow]
  obtain s' ig0 ih' edges where L: "intervals_loop g [e] [] (s0, empty_graph, [], []) = (s', ig0, ih', edges)"
    by (metis prod_cases4)
  have "sim s0 g e (s0, empty_graph, [], []) []"
    by (auto simp: sim_def extends_def kept_edges_def empty_graph_def)
  from sim_loop [OF flow this run.init, of "[]"] L obtain tr
    where tr: "run ?V ?pr e [] tr" and S: "sim s0 g e (s', ig0, ih', edges) tr" by auto
  note D = simD [OF S]
  define ig1 where "ig1 = fold (link_heads ih') edges ig0"
  have eq: "s = s'" "ih = ih'" "g_entry ig = n_interval (heap s' e)"
    "g_nodes ig = g_nodes ig1" "all_sucs ig = all_sucs ig1" "graph_ok ig = graph_ok ig1"
    using I f(5) L by (auto simp: Intervals_def Let_def ig1_def all_sucs_def graph_ok_def fun_eq_iff)
  have T: "trace_ok ?V ?pr e tr" using run_ok [OF tr f(4)] by blast
  then have dist: "distinct (map fst tr)" by (simp add: trace_ok_def)
  note m = map_of_heads [OF dist, of ?F]
  have ig0: "graph_ok ig0" "g_nodes ig0 = [?F..<?F + length tr]" "\<not> step ig0 u v" for u v
    by (simp_all add: D(4) empty_graph_def graph_ok_def inside_def step_def all_sucs_def)
  have "ran (map_of ih') \<subseteq> set (g_nodes ig0)" unfolding D(5) ig0(2) by (auto simp: ran_def m)
  moreover have "fst ` set edges \<subseteq> set (g_nodes ig0)"
    unfolding D(6) ig0(2) by (auto simp: kept_edges_mem)
  ultimately have ok: "graph_ok ig1 \<and> g_nodes ig1 = g_nodes ig0"
    unfolding ig1_def by (intro links_ok ig0(1))
  have steps: "step ig u v \<longleftrightarrow> (\<exists>i < length tr. \<exists>j < length tr. u = ?F + i \<and> v = ?F + j \<and>
      links ?V ?pr tr (fst (tr ! i)) (fst (tr ! j)))" for u v
  proof -
    have "step ig u v \<longleftrightarrow> step ig1 u v" by (simp add: step_def eq(5))
    also have "\<dots> \<longleftrightarrow> (\<exists>xs x. (u, xs) \<in> set edges \<and> x \<in> set xs \<and> map_of ih' x = Some v)"
      unfolding ig1_def links_step using ig0(3) by simp
    also have "\<dots> \<longleftrightarrow> (\<exists>i < length tr. \<exists>j < length tr. u = ?F + i \<and> v = ?F + j \<and>
        links ?V ?pr tr (fst (tr ! i)) (fst (tr ! j)))"
      unfolding D(5,6) m kept_edges_mem using links_nth [OF dist, of _ ?V ?pr] by blast
    finally show ?thesis .
  qed
  show ?thesis
  proof (rule that [OF tr])
    have "tr \<noteq> []" by (rule run_count(2) [OF tr f(4)])
    then show "g_entry ig = Some ?F" using D(7) eq(3) by simp
    show "extends s0 (set ?V) s" "fresh s = ?F + length tr" using D(1,2) eq(1) by simp_all
    show "graph_ok ig" "g_nodes ig = [?F..<?F + length tr]" using ok eq(4,6) ig0(2) by simp_all
  qed (rule steps)
qed

lemma Intervals_reach:
  assumes tr: "run V pr e [] tr" and flow: "flow_ok V pr e"
    and steps: "\<And>u v. step ig u v \<longleftrightarrow> (\<exists>i < length tr. \<exists>j < length tr. u = F + i \<and> v = F + j \<and>
        links V pr tr (fst (tr ! i)) (fst (tr ! j)))"
    and "k < length tr"
  shows "reach ig F (F + k)"
proof -
  have T: "trace_ok V pr e tr" and Q: "queue_ok V pr e [] tr" using run_ok [OF tr flow] by auto
  have d: "distinct (map fst tr)" and e0: "tr \<noteq> [] \<Longrightarrow> fst (tr ! 0) = e"
    using T by (auto simp: trace_ok_def hd_conv_nth)
  have pos: "\<exists>j < length tr. fst (tr ! j) = x" if "x \<in> heads_of tr" for x
    using that by (force simp: heads_of_def in_set_conv_nth)
  have all: "\<exists>j < length tr. fst (tr ! j) = x \<and> reach ig F (F + j)" if "(links V pr tr)\<^sup>*\<^sup>* e x" for x
    using that
  proof (induction rule: rtranclp_induct)
    case base
    have "tr \<noteq> []" by (rule run_count(2) [OF tr flow])
    then show ?case using e0 by (intro exI [of _ 0]) simp
  next
    case (step a b)
    then obtain i where i: "i < length tr" "fst (tr ! i) = a" "reach ig F (F + i)" by blast
    from step(2) obtain I q where l: "(a, I, q) \<in> set tr" "b \<in> set (found V pr I q)"
      by (auto simp: links_def)
    then have "b \<in> heads_of tr"
      using queue_closed [OF Q l(1), of b] by (auto simp: found_def)
    then obtain j where j: "j < length tr" "fst (tr ! j) = b" using pos by blast
    have "Cfg_Traversal.step ig (F + i) (F + j)" unfolding steps using i(1,2) j step(2) by blast
    with i(3) have "reach ig F (F + j)" by (rule rtranclp.rtrancl_into_rtrancl)
    with j show ?case by blast
  qed
  have "fst (tr ! k) \<in> heads_of tr" using assms(4) by (simp add: heads_of_def)
  then have "(links V pr tr)\<^sup>*\<^sup>* e (fst (tr ! k))" using Q by (simp add: queue_ok_def)
  then obtain j where j: "j < length tr" "fst (tr ! j) = fst (tr ! k)" "reach ig F (F + j)"
    using all by blast
  then have "map fst tr ! j = map fst tr ! k" using assms(4) by simp
  then have "j = k" using nth_eq_iff_index_eq [OF d] j(1) assms(4) by simp
  with j(3) show ?thesis by simp
qed

lemma Intervals_edges:
  assumes tr: "run V pr e [] tr" and flow: "flow_ok V pr e" and len: "length tr = length V"
    and big: "1 < length V" and "graph_ok ig"
    and steps: "\<And>u v. step ig u v \<longleftrightarrow> (\<exists>i < length tr. \<exists>j < length tr. u = F + i \<and> v = F + j \<and>
        links V pr tr (fst (tr ! i)) (fst (tr ! j)))"
  shows "card (edges_of (g_nodes ig) (pred_set ig)) < card (edges_of V pr)"
proof -
  let ?f = "\<lambda>(u, v). (fst (tr ! (u - F)), fst (tr ! (v - F)))"
  have T: "trace_ok V pr e tr" using run_ok [OF tr flow] by blast
  then have d: "distinct (map fst tr)" by (simp add: trace_ok_def)
  have E: "edges_of (g_nodes ig) (pred_set ig) = {(u, v). step ig u v}"
    using assms(5) graph_ok_preds graph_ok_nodes
    by (fastforce simp: edges_of_def pred_set_def step_def)
  have sub: "kept V pr tr \<subset> edges_of V pr" by (rule run_loses_edge [OF tr flow len big])
  have fin: "finite (kept V pr tr)" "finite (edges_of V pr)"
    using sub finite_edges_of [OF flow] finite_subset by auto
  have heads: "i = j" if "i < length tr" "j < length tr" "fst (tr ! i) = fst (tr ! j)" for i j
  proof -
    have "map fst tr ! i = map fst tr ! j" using that by simp
    then show ?thesis using nth_eq_iff_index_eq [OF d] that by simp
  qed
  have "card {(u, v). step ig u v} \<le> card (kept V pr tr)"
  proof (rule card_inj_on_le [of ?f, OF _ _ fin(1)])
    show "inj_on ?f {(u, v). step ig u v}"
      unfolding inj_on_def steps using heads by auto
    show "?f ` {(u, v). step ig u v} \<subseteq> kept V pr tr"
      unfolding steps by (auto simp: kept_def)
  qed
  also have "\<dots> < card (edges_of V pr)" using sub fin(2) by (rule psubset_card_mono [rotated])
  finally show ?thesis using E by simp
qed

section \<open>The derived sequence\<close>

lemma compute_rpo_keeps:
  assumes "compute_rpo s g = (s', g')"
  shows "fresh s' = fresh s" "n_content (heap s' n) = n_content (heap s n)"
    "n_class (heap s' n) = n_class (heap s n)"
proof -
  have a: "fresh (assign_po ns c t) = fresh t" "n_content (heap (assign_po ns c t) n) = n_content (heap t n)"
    "n_class (heap (assign_po ns c t) n) = n_class (heap t n)" for ns c t
    by (induction ns c t rule: assign_po.induct) auto
  have b: "fresh (fold (\<lambda>n s. modify n (\<lambda>x. x\<lparr>n_num := f x\<rparr>) s) ns t) = fresh t \<and>
      n_content (heap (fold (\<lambda>n s. modify n (\<lambda>x. x\<lparr>n_num := f x\<rparr>) s) ns t) n) = n_content (heap t n) \<and>
      n_class (heap (fold (\<lambda>n s. modify n (\<lambda>x. x\<lparr>n_num := f x\<rparr>) s) ns t) n) = n_class (heap t n)"
    for ns t f
    by (induction ns arbitrary: t) auto
  show "fresh s' = fresh s" "n_content (heap s' n) = n_content (heap s n)"
    "n_class (heap s' n) = n_class (heap s n)"
    using assms by (auto simp: compute_rpo_def post_order_def Let_def a b)
qed

lemma contains_to_cong:
  "(\<And>n. n_content (heap s' n) = n_content (heap s n)) \<Longrightarrow>
     (\<And>n. n_class (heap s' n) = n_class (heap s n)) \<Longrightarrow> contains_to d s' n x = contains_to d s n x"
  by (induction d arbitrary: n) auto

lemma numbered_flow_graph:
  assumes "graph_ok g" and "g_entry g = Some e" and "set (g_nodes g) = {x. reach g e x}"
    and "set (g_nodes g) \<subseteq> {..<fresh s}" and "closed_store s" and "flat s (set (g_nodes g))"
    and rpo: "compute_rpo s g = (s', g')"
  shows "flow_graph s' g' e" "g_nodes g' = g_nodes g" "pred_set g' = pred_set g"
proof -
  note K = compute_rpo_keeps [OF rpo]
  have g': "g' = g\<lparr>g_rpo := sort_key (\<lambda>n. n_num (heap s' n)) (g_nodes g)\<rparr>"
    by (rule compute_rpo_graph [OF rpo])
  then show nodes: "g_nodes g' = g_nodes g" and pr: "pred_set g' = pred_set g"
    by (auto simp: pred_set_def all_preds_def fun_eq_iff)
  have d: "distinct (g_nodes g)" using assms(1) by (simp add: graph_ok_def)
  have p: "a \<in> pred_set g b \<longleftrightarrow> step g a b" for a b
    using graph_ok_preds [OF assms(1)] by (simp add: pred_set_def step_def)
  have rel: "(\<lambda>a b. a \<in> pred_set g b) = step g" by (simp add: fun_eq_iff p)
  have "flow_ok (g_nodes g) (pred_set g) e"
    unfolding flow_ok_def rel
    using d assms(3) graph_ok_nodes [OF assms(1)] by (auto simp: p step_def)
  moreover have "set (drop 1 (g_rpo g')) = set (g_nodes g) - {e}"
  proof -
    note po = post_order_facts [OF assms(2)]
    obtain l where l: "post_order_nodes g = l @ [e]" using po(2,3) by (metis append_butlast_last_id)
    have "g_rpo g' = e # rev l" using compute_rpo_rev(1) [OF assms(2) d assms(3) rpo] l by simp
    then show ?thesis using po(1,4) l assms(3) by auto
  qed
  moreover have "closed_store s'" using assms(5) K by (simp add: closed_store_def)
  moreover have "flat s' (set (g_nodes g))"
    using assms(6) contains_to_cong [of s' s] K by (simp add: flat_def)
  ultimately show "flow_graph s' g' e"
    unfolding flow_graph_def nodes pr using assms(2,4) g' K(1) by simp
qed

definition graph_size :: "'i graph \<Rightarrow> nat \<times> nat" where
  "graph_size g = (length (g_nodes g), card (edges_of (g_nodes g) (pred_set g)))"

lemma Intervals_smaller:
  assumes flow: "flow_graph s0 g e" and I: "Intervals s0 g = (s, ig, ih)" and rpo: "compute_rpo s ig = (s', ig')"
  shows "flow_graph s' ig' (fresh s0)" "length (g_nodes ig') = length (g_nodes ig)"
    and "length (g_nodes ig) \<noteq> 1 \<Longrightarrow> (graph_size ig', graph_size g) \<in> less_than <*lex*> less_than"
proof -
  note f = flow_graphD [OF flow]
  obtain tr where tr: "run (g_nodes g) (pred_set g) e [] tr" and ext: "extends s0 (set (g_nodes g)) s"
    and fr: "fresh s = fresh s0 + length tr" and ok: "graph_ok ig"
    and nodes: "g_nodes ig = [fresh s0..<fresh s0 + length tr]" and entry: "g_entry ig = Some (fresh s0)"
    and steps: "\<And>u v. step ig u v \<longleftrightarrow> (\<exists>i < length tr. \<exists>j < length tr. u = fresh s0 + i \<and> v = fresh s0 + j \<and>
        links (g_nodes g) (pred_set g) tr (fst (tr ! i)) (fst (tr ! j)))"
    using Intervals_run [OF flow I] by blast
  note cnt = run_count [OF tr f(4)]
  have all: "set (g_nodes ig) = {x. reach ig (fresh s0) x}"
  proof (rule equalityI; rule subsetI)
    fix x assume "x \<in> set (g_nodes ig)"
    then obtain k where "k < length tr" "x = fresh s0 + k" unfolding nodes by (auto dest: less_eqE)
    with Intervals_reach [OF tr f(4) steps, of k] show "x \<in> {x. reach ig (fresh s0) x}" by simp
  next
    fix x assume "x \<in> {x. reach ig (fresh s0) x}"
    then have "reach ig (fresh s0) x" by simp
    then show "x \<in> set (g_nodes ig)"
      by (rule reach_closed) (use cnt(2) nodes graph_ok_nodes [OF ok] in \<open>auto simp: step_def\<close>)
  qed
  have cl: "closed_store s"
    using ext f(1,3) fr unfolding closed_store_def extends_def by (metis lessThan_subset_iff not_le subset_trans)
  have fl: "flat s (set (g_nodes ig))"
    using contains_less [OF f(1) ext f(3)] fr by (fastforce simp: flat_def nodes)
  have sub: "set (g_nodes ig) \<subseteq> {..<fresh s}" using fr nodes by auto
  note N = numbered_flow_graph [OF ok entry all sub cl fl rpo]
  show "flow_graph s' ig' (fresh s0)" "length (g_nodes ig') = length (g_nodes ig)" using N by simp_all
  assume "length (g_nodes ig) \<noteq> 1"
  then have len: "length tr \<noteq> 1" using nodes by simp
  show "(graph_size ig', graph_size g) \<in> less_than <*lex*> less_than"
  proof (cases "length tr = length (g_nodes g)")
    case True
    have "length tr \<noteq> 0" using cnt(2) by simp
    then have big: "1 < length (g_nodes g)" using len True by linarith
    show ?thesis
      using Intervals_edges [OF tr f(4) True big ok steps] N(2,3) True nodes
      by (simp add: graph_size_def)
  next
    case False
    then show ?thesis using cnt(1) N(2) nodes by (simp add: graph_size_def)
  qed
qed

lemma derived_loop_returns:
  assumes "flow_graph s g e"
  shows "\<exists>s' gs rs. derived_loop s g gs0 rs0 = Some (s', gs0 @ gs, rs0 @ rs) \<and>
    length rs = Suc (length gs) \<and> length (g_nodes (fst (last rs))) = 1"
  using assms
proof (induction "graph_size g" arbitrary: s g e gs0 rs0 rule: wf_induct [OF wf_lex_prod [OF wf_less_than wf_less_than]])
  case 1
  note IH = 1(1) [rule_format, OF _ refl] and flow = 1(2)
  obtain s1 ig ih where I: "Intervals s g = (s1, ig, ih)" by (metis prod_cases3)
  obtain s2 ig' where rpo: "compute_rpo s1 ig = (s2, ig')" by fastforce
  note S = Intervals_smaller [OF flow I rpo]
  show ?case
  proof (cases "length (g_nodes ig) = 1")
    case True
    then have "derived_loop s g gs0 rs0 = Some (s2, gs0 @ [], rs0 @ [(ig', ih)])"
      by (subst derived_loop.simps) (simp add: I rpo Let_def)
    with S(2) True show ?thesis by (metis fst_conv last_ConsL length_Cons list.size(3))
  next
    case False
    have step: "derived_loop s g gs0 rs0 = derived_loop s2 ig' (gs0 @ [ig']) (rs0 @ [(ig', ih)])"
      using False by (subst derived_loop.simps) (simp add: I rpo Let_def)
    obtain s' gs rs where "derived_loop s2 ig' (gs0 @ [ig']) (rs0 @ [(ig', ih)]) =
        Some (s', (gs0 @ [ig']) @ gs, (rs0 @ [(ig', ih)]) @ rs)"
      "length rs = Suc (length gs)" "length (g_nodes (fst (last rs))) = 1"
      using IH [OF S(3) [OF False] S(1), of "gs0 @ [ig']" "rs0 @ [(ig', ih)]"] by blast
    then show ?thesis
      unfolding step by (intro exI [of _ s'] exI [of _ "ig' # gs"] exI [of _ "(ig', ih) # rs"]) auto
  qed
qed

text \<open>Nodes that are not intervals contain nothing, so they are flat.\<close>

lemma flat_blocks: "\<forall>n \<in> V. n_class (heap s n) \<noteq> IntervalNode \<Longrightarrow> flat s V"
  by (simp add: flat_def)

section \<open>Properties\<close>

text \<open>
  C5. The derived sequence is finite: the loop returns with one result per graph, the last of which has
  a single node. An irreducible graph is no exception, because an edge to a head that is already
  waiting is dropped.
\<close>

theorem derived_sequence_returns:
  assumes "graph_ok g" and "g_entry g = Some e" and "set (g_nodes g) = {x. reach g e x}"
    and "set (g_nodes g) \<subseteq> {..<fresh s}" and "closed_store s"
    and "\<forall>n \<in> set (g_nodes g). n_class (heap s n) \<noteq> IntervalNode" and "compute_rpo s g = (s', g')"
  shows "\<exists>s'' gs rs. DerivedSequenceOf s' g' = Some (s'', g' # gs, rs) \<and>
    length rs = length (g' # gs) \<and> length (g_nodes (fst (last rs))) = 1"
proof -
  have "flow_graph s' g' e"
    by (rule numbered_flow_graph(1) [OF assms(1-5) flat_blocks [OF assms(6)] assms(7)])
  from derived_loop_returns [OF this, of "[g']" "[]"] show ?thesis
    by (auto simp: DerivedSequenceOf_def)
qed

end
