(* ===== verification/Cfg_Passes.thy ===== *)
theory Cfg_Passes
  imports Cfg_Graph
begin

text \<open>
  The graph clean-ups of \<open>src/native/dad_cpp/graph.cpp\<close> that run before structuring:
  \<open>SplitIfNodes\<close> cuts a conditional block into its straight-line part and its test, \<open>Simplify\<close>
  removes empty blocks and joins chains. Both rewrite the graph while walking a snapshot of its
  nodes. \<open>Simplify\<close> repeats until a pass changes nothing; the source does not bound it, so it is
  a \<open>partial_function\<close> here, and \<open>Cfg_Passes_Laws\<close> shows it returns on every well-formed graph.
\<close>

section \<open>Splitting conditional blocks\<close>

type_synonym node_map = "(nat \<times> nat) list"

text \<open>A conditional predecessor's branch that pointed to the block now points to its first half.\<close>

definition retarget :: "nat \<Rightarrow> nat \<Rightarrow> nat \<Rightarrow> nat \<Rightarrow> 'i store \<Rightarrow> 'i store" where
  "retarget pred pred_node nd pre s =
     (let p = heap s pred in
      if is_CondBlock (n_class p) \<and> n_type p = TypeCond \<and> is_CondBlock (n_class (heap s pred_node)) then
        let s1 = (if n_true_branch p = Some nd
                  then modify pred_node (\<lambda>x. x\<lparr>n_true_branch := Some pre\<rparr>) s else s)
        in (if n_false_branch (heap s1 pred) = Some nd
            then modify pred_node (\<lambda>x. x\<lparr>n_false_branch := Some pre\<rparr>) s1 else s1)
      else s)"

fun split_preds ::
  "nat list \<Rightarrow> nat \<Rightarrow> nat \<Rightarrow> nat \<Rightarrow> node_map \<Rightarrow> 'i store \<Rightarrow> 'i graph \<Rightarrow> 'i store \<times> 'i graph" where
  "split_preds [] nd pre cn m s g = (s, g)"
| "split_preds (pred # ps) nd pre cn m s g =
     (let pred_node = MapGet m pred in
      if nd \<notin> set (sucs g pred) then
        let (s', g') = add_catch_edge pred_node pre s g in split_preds ps nd pre cn m s' g'
      else
        let pred_node = (if pred = nd then cn else pred_node);
            s' = retarget pred pred_node nd pre s
        in split_preds ps nd pre cn m s' (add_edge pred_node pre g))"

fun copy_catch_edges :: "nat list \<Rightarrow> nat \<Rightarrow> node_map \<Rightarrow> 'i store \<Rightarrow> 'i graph \<Rightarrow> 'i store \<times> 'i graph" where
  "copy_catch_edges [] pre m s g = (s, g)"
| "copy_catch_edges (suc # ss) pre m s g =
     (let (s', g') = add_catch_edge pre (MapGet m suc) s g in copy_catch_edges ss pre m s' g')"

text \<open>The two halves: fresh blocks with the attributes and branches of the old one.\<close>

definition make_halves :: "nat \<Rightarrow> 'i store \<Rightarrow> 'i graph \<Rightarrow> nat \<times> nat \<times> 'i store \<times> 'i graph" where
  "make_halves nd s g =
     (let cb = heap s nd;
          (pre, s1, g1) = MakeNode (new_StatementBlock (n_name cb @ ''-pre'') (butlast (n_ins cb))) s g;
          (cn, s2, g2) = MakeNode (new_CondBlock (n_name cb @ ''-cond'') [last (n_ins cb)]) s1 g1;
          s3 = modify pre (CopyFrom cb) s2;
          s4 = modify cn (CopyFrom cb) s3;
          s5 = modify pre (\<lambda>x. fold add_variable_declaration (n_var_to_declare cb) x) s4;
          s6 = modify pre (\<lambda>x. x\<lparr>n_type := set_is_stmt True (n_type x)\<rparr>) s5;
          s7 = modify cn (\<lambda>x. x\<lparr>n_true_branch := n_true_branch cb, n_false_branch := n_false_branch cb\<rparr>) s6
      in (pre, cn, s7, g2))"

definition split_node :: "nat \<Rightarrow> node_map \<Rightarrow> 'i store \<Rightarrow> 'i graph \<Rightarrow> node_map \<times> 'i store \<times> 'i graph" where
  "split_node nd m s g =
     (let (pre, cn, s1, g1) = make_halves nd s g;
          m' = AList.update cn cn (AList.update pre pre (AList.update nd pre m));
          (s2, g2) = split_preds (all_preds g1 nd) nd pre cn m' s1 g1;
          g3 = fold (\<lambda>suc g. add_edge cn (MapGet m' suc) g) (sucs g2 nd) g2;
          (s4, g4) = copy_catch_edges (GetOrEmpty (g_catch_edges g3) nd) pre m' s2 g3;
          g5 = (if g_entry g4 = Some nd then g4\<lparr>g_entry := Some pre\<rparr> else g4);
          g6 = add_edge pre cn g5;
          s5 = UpdateAttributeWith m' cn (UpdateAttributeWith m' pre s4)
      in (m', s5, remove_node nd g6))"

fun split_nodes ::
  "nat list \<Rightarrow> node_map \<Rightarrow> nat list \<Rightarrow> 'i store \<Rightarrow> 'i graph \<Rightarrow> node_map \<times> nat list \<times> 'i store \<times> 'i graph"
where
  "split_nodes [] m upd s g = (m, upd, s, g)"
| "split_nodes (nd # nds) m upd s g =
     (if \<not> (is_CondBlock (n_class (heap s nd)) \<and> n_type (heap s nd) = TypeCond) then
        split_nodes nds m (List.insert nd upd) s g
      else if length (n_ins (heap s nd)) \<le> 1 then split_nodes nds m upd s g
      else
        let (m', s', g') = split_node nd m s g in split_nodes nds m' upd s' g')"

definition SplitIfNodes :: "'i store \<Rightarrow> 'i graph \<Rightarrow> 'i store \<times> 'i graph" where
  "SplitIfNodes s g =
     (let (m, upd, s', g') = split_nodes (g_nodes g) (map (\<lambda>n. (n, n)) (g_nodes g)) [] s g
      in (fold (UpdateAttributeWith m) upd s', g'))"

section \<open>Simplification\<close>

text \<open>The state of one pass.\<close>

record 'i simplify =
  sm_store :: "'i store"
  sm_graph :: "'i graph"
  sm_map :: node_map
  sm_update :: "nat list"
  sm_redo :: bool

fun bypass_preds :: "nat list \<Rightarrow> nat \<Rightarrow> nat \<Rightarrow> node_map \<Rightarrow> 'i store \<Rightarrow> 'i graph \<Rightarrow> 'i store \<times> 'i graph" where
  "bypass_preds [] nd suc m s g = (s, g)"
| "bypass_preds (pred # ps) nd suc m s g =
     (let s1 = UpdateAttributeWith m pred s in
      if nd \<notin> set (sucs g pred) then
        let (s2, g') = add_catch_edge pred suc s1 g in bypass_preds ps nd suc m s2 g'
      else bypass_preds ps nd suc m s1 (add_edge pred suc g))"

text \<open>An empty block is dropped and its predecessors are sent to its successor.\<close>

definition drop_empty :: "nat \<Rightarrow> nat \<Rightarrow> 'i simplify \<Rightarrow> 'i simplify" where
  "drop_empty nd suc st =
     (let s = sm_store st; g = sm_graph st in
      if (\<exists>p \<in> set (all_preds g nd). is_BasicBlock (n_class (heap s p)) \<and> n_type (heap s p) = TypeSwitch)
         \<or> nd = suc
      then st
      else
        let m = AList.update nd suc (sm_map st);
            (s', g1) = bypass_preds (all_preds g nd) nd suc m s g;
            g2 = (if g_entry g1 = Some nd then g1\<lparr>g_entry := Some suc\<rparr> else g1)
        in st\<lparr>sm_store := s', sm_graph := remove_node nd g2, sm_map := m, sm_redo := True\<rparr>)"

text \<open>A block takes over the instructions and successors of the only block that follows it.\<close>

definition can_merge :: "nat \<Rightarrow> nat \<Rightarrow> 'i store \<Rightarrow> 'i graph \<Rightarrow> bool" where
  "can_merge nd suc s g \<longleftrightarrow>
     is_BasicBlock (n_class (heap s suc)) \<and> n_type (heap s suc) = TypeStmt \<and>
     length (all_preds g suc) = 1 \<and> map_of (g_catch_edges g) suc = None \<and>
     nd \<noteq> suc \<and> g_entry g \<noteq> Some suc"

definition join_next :: "nat \<Rightarrow> nat \<Rightarrow> 'i simplify \<Rightarrow> 'i simplify" where
  "join_next nd suc st =
     (let s = sm_store st; g = sm_graph st in
      if can_merge nd suc s g then
        let s1 = modify nd (add_ins (n_ins (heap s suc))) s;
            s2 = modify nd (\<lambda>x. fold add_variable_declaration (n_var_to_declare (heap s suc)) x) s1;
            g1 = (case sucs g suc of [] \<Rightarrow> g | n # _ \<Rightarrow> add_edge nd n g);
            (s3, g2) = (case map_of (g_catch_edges g1) suc of
                          None \<Rightarrow> (s2, g1)
                        | Some es \<Rightarrow> fold (\<lambda>e (s, g). add_catch_edge nd e s g) es (s2, g1))
        in st\<lparr>sm_store := s3, sm_graph := remove_node suc g2, sm_redo := True\<rparr>
      else st)"

definition simplify_node :: "nat \<Rightarrow> 'i simplify \<Rightarrow> 'i simplify" where
  "simplify_node nd st =
     (let s = sm_store st; g = sm_graph st in
      if is_BasicBlock (n_class (heap s nd)) \<and> n_type (heap s nd) = TypeStmt \<and> nd \<in> set (g_nodes g) then
        (case all_sucs g nd of
           [suc] \<Rightarrow> if n_ins (heap s nd) = [] then drop_empty nd suc st else join_next nd suc st
         | _ \<Rightarrow> st)
      else st\<lparr>sm_update := List.insert nd (sm_update st)\<rparr>)"

definition simplify_pass :: "'i store \<Rightarrow> 'i graph \<Rightarrow> 'i store \<times> 'i graph \<times> bool" where
  "simplify_pass s g =
     (let st = fold simplify_node (g_nodes g)
                 \<lparr>sm_store = s, sm_graph = g, sm_map = [], sm_update = [], sm_redo = False\<rparr>
      in (fold (UpdateAttributeWith (sm_map st)) (sm_update st) (sm_store st), sm_graph st, sm_redo st))"

partial_function (option) Simplify :: "'i store \<Rightarrow> 'i graph \<Rightarrow> ('i store \<times> 'i graph) option" where
  "Simplify s g =
     (let (s', g', redo) = simplify_pass s g in if redo then Simplify s' g' else Some (s', g'))"

section \<open>Paths\<close>

text \<open>
  \<open>BuildPath\<close>: the nodes met going backwards from \<open>node2\<close> without passing \<open>node1\<close>. The source
  recurses through the predecessors with one shared path; here the pending predecessors are an
  explicit worklist, in the same order.
\<close>

definition pred_universe :: "'i graph \<Rightarrow> nat set" where
  "pred_universe g = adj_nodes (g_reverse_edges g) \<union> adj_nodes (g_reverse_catch_edges g)"

lemma finite_pred_universe [simp]: "finite (pred_universe g)"
  by (simp add: pred_universe_def adj_nodes_def)

lemma all_preds_universe: "x \<in> set (all_preds g n) \<Longrightarrow> x \<in> pred_universe g"
  by (auto simp: all_preds_def pred_universe_def dest: GetOrEmpty_adj)

function build_path :: "'i graph \<Rightarrow> nat \<Rightarrow> nat list \<Rightarrow> nat list \<Rightarrow> nat list" where
  "build_path g node1 [] path = path"
| "build_path g node1 (n # ns) path =
     (if n \<in> set path \<or> n = node1 then build_path g node1 ns path
      else build_path g node1 (all_preds g n @ ns) (path @ [n]))"
  by pat_completeness auto
termination
proof (relation "measures
    [\<lambda>(g, node1, ns, path). card ((pred_universe g \<union> set ns) - set path),
     \<lambda>(g, node1, ns, path). length ns]")
  fix g :: "'i graph" and node1 n :: nat and ns path :: "nat list"
  assume n: "n \<in> set path \<or> n = node1"
  have "card ((pred_universe g \<union> set ns) - set path) \<le> card ((pred_universe g \<union> set (n # ns)) - set path)"
    by (rule card_mono) auto
  then show "((g, node1, ns, path), g, node1, n # ns, path) \<in> measures
    [\<lambda>(g, node1, ns, path). card ((pred_universe g \<union> set ns) - set path),
     \<lambda>(g, node1, ns, path). length ns]"
    by (simp only: in_measures) (simp add: le_less)
next
  fix g :: "'i graph" and node1 n :: nat and ns path :: "nat list"
  assume "\<not> (n \<in> set path \<or> n = node1)"
  then have "(pred_universe g \<union> set (all_preds g n @ ns)) - set (path @ [n])
      \<subset> (pred_universe g \<union> set (n # ns)) - set path"
    using all_preds_universe by fastforce
  then have "card ((pred_universe g \<union> set (all_preds g n @ ns)) - set (path @ [n]))
      < card ((pred_universe g \<union> set (n # ns)) - set path)"
    by (intro psubset_card_mono) simp_all
  then show "((g, node1, all_preds g n @ ns, path @ [n]), g, node1, n # ns, path) \<in> measures
    [\<lambda>(g, node1, ns, path). card ((pred_universe g \<union> set ns) - set path),
     \<lambda>(g, node1, ns, path). length ns]"
    by (simp only: in_measures) simp
qed auto

definition BuildPath :: "'i graph \<Rightarrow> nat \<Rightarrow> nat \<Rightarrow> nat list" where
  "BuildPath g node1 node2 = build_path g node1 [node2] []"

end
