(* ===== verification/Cfg_Structure.thy ===== *)
theory Cfg_Structure
  imports Cfg_Intervals Cfg_Passes "HOL-Library.Product_Lexorder" "HOL-Library.List_Lexorder" "HOL-Library.Char_ord"
begin

text \<open>
  The structuring passes of \<open>src/native/dad_cpp/control_flow.cpp\<close>: loops (\<open>MarkLoop\<close>,
  \<open>LoopType\<close>, \<open>LoopFollow\<close>, \<open>LoopStruct\<close>), conditionals (\<open>IfStruct\<close>, \<open>SwitchStruct\<close>,
  \<open>ShortCircuitStruct\<close>), the wrapping of loop headers and exception ranges
  (\<open>WhileBlockStruct\<close>, \<open>CatchStruct\<close>) and their driver \<open>IdentifyStructures\<close>. Pointer-keyed sets
  and maps are lists; where the source sorts before it iterates so is the list here. Whether a
  read through a failed cast happens is not modelled: the flags and the class agree on the blocks
  the constructors build.
\<close>

section \<open>Loops\<close>

text \<open>
  \<open>MarkLoopRec\<close> as a worklist of the predecessors still to visit, depth first: a node is taken
  when its number lies above the head's, at most the latch's, and the interval contains it.
\<close>

definition in_range :: "'i store \<Rightarrow> int \<Rightarrow> int \<Rightarrow> nat option \<Rightarrow> nat \<Rightarrow> bool" where
  "in_range s lo hi iv p \<longleftrightarrow>
     lo < n_num (heap s p) \<and> n_num (heap s p) \<le> hi \<and>
     (case iv of None \<Rightarrow> False | Some i \<Rightarrow> Contains s i p)"

function MarkLoopRec ::
  "'i store \<Rightarrow> 'i graph \<Rightarrow> int \<Rightarrow> int \<Rightarrow> nat option \<Rightarrow> nat list \<Rightarrow> nat list \<Rightarrow> nat list" where
  "MarkLoopRec s g lo hi iv [] nodes_in_loop = nodes_in_loop"
| "MarkLoopRec s g lo hi iv (n # ns) nodes_in_loop =
     (if n \<in> set nodes_in_loop then MarkLoopRec s g lo hi iv ns nodes_in_loop
      else MarkLoopRec s g lo hi iv (filter (in_range s lo hi iv) (all_preds g n) @ ns)
             (nodes_in_loop @ [n]))"
  by pat_completeness auto
termination
proof (relation "measures
    [\<lambda>(s, g, lo, hi, iv, ns, acc). card ((pred_universe g \<union> set ns) - set acc),
     \<lambda>(s, g, lo, hi, iv, ns, acc). length ns]")
  fix s :: "'i store" and g :: "'i graph" and lo hi :: int and iv and n :: nat and ns acc :: "nat list"
  assume n: "n \<in> set acc"
  have "card ((pred_universe g \<union> set ns) - set acc) \<le> card ((pred_universe g \<union> set (n # ns)) - set acc)"
    by (rule card_mono) auto
  then show "((s, g, lo, hi, iv, ns, acc), s, g, lo, hi, iv, n # ns, acc) \<in> measures
    [\<lambda>(s, g, lo, hi, iv, ns, acc). card ((pred_universe g \<union> set ns) - set acc),
     \<lambda>(s, g, lo, hi, iv, ns, acc). length ns]"
    by (simp only: in_measures) (simp add: le_less)
next
  fix s :: "'i store" and g :: "'i graph" and lo hi :: int and iv and n :: nat and ns acc :: "nat list"
  assume "n \<notin> set acc"
  then have "(pred_universe g \<union> set (filter (in_range s lo hi iv) (all_preds g n) @ ns)) - set (acc @ [n])
      \<subset> (pred_universe g \<union> set (n # ns)) - set acc"
    using all_preds_universe by fastforce
  then have "card ((pred_universe g \<union> set (filter (in_range s lo hi iv) (all_preds g n) @ ns)) - set (acc @ [n]))
      < card ((pred_universe g \<union> set (n # ns)) - set acc)"
    by (intro psubset_card_mono) simp_all
  then show "((s, g, lo, hi, iv, filter (in_range s lo hi iv) (all_preds g n) @ ns, acc @ [n]),
      s, g, lo, hi, iv, n # ns, acc) \<in> measures
    [\<lambda>(s, g, lo, hi, iv, ns, acc). card ((pred_universe g \<union> set ns) - set acc),
     \<lambda>(s, g, lo, hi, iv, ns, acc). length ns]"
    by (simp only: in_measures) simp
qed auto

definition MarkLoop ::
  "'i graph \<Rightarrow> nat \<Rightarrow> nat \<Rightarrow> nat option \<Rightarrow> 'i store \<Rightarrow> nat list \<times> 'i store" where
  "MarkLoop g start last_node iv s =
     (let latch = GetEnd s last_node in
      case GetHead s start of
        None \<Rightarrow> ([], s)
      | Some h \<Rightarrow>
        (let nodes = (case latch of
                        None \<Rightarrow> [h]
                      | Some l \<Rightarrow> MarkLoopRec s g (n_num (heap s h)) (n_num (heap s l)) iv [l] [h])
         in (nodes,
             if n_class (heap s h) = IntervalNode then s
             else modify h (\<lambda>x. x\<lparr>n_startloop := True, n_latch := latch\<rparr>) s)))"

definition in_loop :: "nat list \<Rightarrow> nat option \<Rightarrow> bool" where
  "in_loop nodes n \<longleftrightarrow> (case n of None \<Rightarrow> False | Some n \<Rightarrow> n \<in> set nodes)"

definition flag_cond :: "'i store \<Rightarrow> nat option \<Rightarrow> bool" where
  "flag_cond s n \<longleftrightarrow>
     (case n of None \<Rightarrow> False | Some n \<Rightarrow> n_class (heap s n) \<noteq> IntervalNode \<and> n_type (heap s n) = TypeCond)"

definition LoopType :: "nat \<Rightarrow> nat option \<Rightarrow> nat list \<Rightarrow> 'i store \<Rightarrow> 'i store" where
  "LoopType start latch nodes s =
     (if n_class (heap s start) = IntervalNode then s
      else
        let b = heap s start;
            both = (in_loop nodes (n_true_branch b) \<and> in_loop nodes (n_false_branch b));
            set_type = (if flag_cond s latch
                        then (if flag_cond s (Some start) then (if both then set_is_posttest True else set_is_pretest True)
                              else set_is_posttest True)
                        else (if flag_cond s (Some start) then (if both then set_is_endless True else set_is_pretest True)
                              else set_is_endless True))
        in modify start (\<lambda>x. x\<lparr>n_looptype := set_type (n_looptype x)\<rparr>) s)"

definition as_cond :: "'i store \<Rightarrow> nat option \<Rightarrow> 'i node option" where
  "as_cond s n =
     (case n of None \<Rightarrow> None | Some n \<Rightarrow> if is_CondBlock (n_class (heap s n)) then Some (heap s n) else None)"

text \<open>The branch that leaves the loop, for a loop tested at one end.\<close>

definition exit_branch :: "nat list \<Rightarrow> 'i node option \<Rightarrow> nat option" where
  "exit_branch nodes c =
     (case c of
        None \<Rightarrow> None
      | Some b \<Rightarrow> if in_loop nodes (n_true_branch b) then n_false_branch b else n_true_branch b)"

text \<open>For an endless loop: the outside branch target with the smallest number, first seen wins.\<close>

fun endless_follow :: "'i store \<Rightarrow> nat list \<Rightarrow> nat list \<Rightarrow> nat option \<times> int \<Rightarrow> nat option" where
  "endless_follow s nodes [] (follow, num_next) = follow"
| "endless_follow s nodes (n # ns) (follow, num_next) =
     (let candidate = (\<lambda>t. case t of None \<Rightarrow> False
                        | Some t \<Rightarrow> n_num (heap s t) < num_next \<and> t \<notin> set nodes);
          take_branch = (\<lambda>t. (t, n_num (heap s (the t))));
          b = heap s n
      in if \<not> is_CondBlock (n_class b) then endless_follow s nodes ns (follow, num_next)
         else if candidate (n_true_branch b) then endless_follow s nodes ns (take_branch (n_true_branch b))
         else if candidate (n_false_branch b) then endless_follow s nodes ns (take_branch (n_false_branch b))
         else endless_follow s nodes ns (follow, num_next))"

definition set_follow_loop :: "nat option \<Rightarrow> nat \<Rightarrow> 'i store \<Rightarrow> 'i store" where
  "set_follow_loop f n s =
     (if n_class (heap s n) = IntervalNode then s else modify n (\<lambda>x. x\<lparr>n_follow_loop := f\<rparr>) s)"

definition LoopFollow :: "nat \<Rightarrow> nat option \<Rightarrow> nat list \<Rightarrow> 'i store \<Rightarrow> 'i store" where
  "LoopFollow start latch nodes s =
     (if n_class (heap s start) = IntervalNode then s
      else
        let follow =
              (case n_looptype (heap s start) of
                 Pretest \<Rightarrow> exit_branch nodes (as_cond s (Some start))
               | Posttest \<Rightarrow> exit_branch nodes (as_cond s latch)
               | _ \<Rightarrow> endless_follow s nodes nodes (None, 2147483647))
        in fold (set_follow_loop follow) nodes (set_follow_loop follow start s))"

fun mark_loops :: "'i graph \<Rightarrow> nat \<Rightarrow> nat list \<Rightarrow> nat list \<Rightarrow> 'i store \<Rightarrow> nat list \<times> 'i store" where
  "mark_loops first head [] loop_nodes s = (loop_nodes, s)"
| "mark_loops first head (p # ps) loop_nodes s =
     (if n_interval (heap s p) = n_interval (heap s head) then
        let (lnodes, s') = MarkLoop first head p (n_interval (heap s head)) s
        in mark_loops first head ps (fold (\<lambda>ln acc. if ln \<in> set acc then acc else acc @ [ln]) lnodes loop_nodes) s'
      else mark_loops first head ps loop_nodes s)"

definition struct_head :: "'i graph \<Rightarrow> 'i graph \<Rightarrow> nat \<Rightarrow> 'i store \<Rightarrow> 'i store" where
  "struct_head first gr head s =
     (let (loop_nodes, s') = mark_loops first head (all_preds gr head) [] s in
      case GetHead s' head of
        None \<Rightarrow> s'
      | Some h \<Rightarrow>
        if n_class (heap s' h) = IntervalNode then s'
        else modify h (\<lambda>x. x\<lparr>n_loop_nodes := loop_nodes\<rparr>) s')"

fun loop_struct_from ::
  "'i graph \<Rightarrow> 'i graph list \<Rightarrow> ('i graph \<times> (nat \<times> nat) list) list \<Rightarrow> 'i store \<Rightarrow> 'i store" where
  "loop_struct_from first (gr # grs) ((ig, heads) # ivs) s =
     (let sorted_heads = sort_key (\<lambda>n. n_num (heap s n)) (map fst heads)
      in loop_struct_from first grs ivs (fold (struct_head first gr) sorted_heads s))"
| "loop_struct_from first _ _ s = s"

definition LoopStruct ::
  "'i graph list \<Rightarrow> ('i graph \<times> (nat \<times> nat) list) list \<Rightarrow> 'i store \<Rightarrow> 'i store" where
  "LoopStruct graphs_list intervals_list s =
     (case graphs_list of [] \<Rightarrow> s | first # _ \<Rightarrow> loop_struct_from first graphs_list intervals_list s)"

section \<open>Conditionals\<close>

text \<open>The immediate dominators: a null dominator is \<open>None\<close>.\<close>

type_synonym idoms = "(nat \<times> nat option) list"

text \<open>\<open>std::max_element\<close> and \<open>std::min_element\<close> by number: the first of the best.\<close>

definition max_by_num :: "'i store \<Rightarrow> nat list \<Rightarrow> nat" where
  "max_by_num s xs = fold (\<lambda>x m. if n_num (heap s m) < n_num (heap s x) then x else m) (tl xs) (hd xs)"

definition min_by_num :: "'i store \<Rightarrow> nat list \<Rightarrow> nat" where
  "min_by_num s xs = fold (\<lambda>x m. if n_num (heap s x) < n_num (heap s m) then x else m) (tl xs) (hd xs)"

text \<open>
  \<open>CommonDom\<close> climbs the dominator tree from the node with the larger number. The source guards
  against a null and against equal numbers, not against a map that does not descend.
\<close>

partial_function (option) common_dom ::
  "'i store \<Rightarrow> idoms \<Rightarrow> nat option \<Rightarrow> nat option \<Rightarrow> nat option option" where
  "common_dom s idom a b =
     (case (a, b) of
        (None, _) \<Rightarrow> Some b
      | (_, None) \<Rightarrow> Some a
      | (Some x, Some y) \<Rightarrow>
        if x = y then Some a
        else if n_num (heap s x) < n_num (heap s y) then common_dom s idom a (Option.bind (map_of idom y) id)
        else if n_num (heap s x) > n_num (heap s y) then common_dom s idom (Option.bind (map_of idom x) id) b
        else Some a)"

definition CommonDom :: "'i store \<Rightarrow> idoms \<Rightarrow> nat option \<Rightarrow> nat option \<Rightarrow> nat option option" where
  "CommonDom s idom cur pred = common_dom s idom cur pred"

definition set_follow_if :: "nat \<Rightarrow> nat \<Rightarrow> 'i store \<Rightarrow> 'i store" where
  "set_follow_if f n s =
     (if n_class (heap s n) = IntervalNode then s else modify n (\<lambda>x. x\<lparr>n_follow_if := Some f\<rparr>) s)"

definition if_ldominates :: "'i store \<Rightarrow> 'i graph \<Rightarrow> idoms \<Rightarrow> nat \<Rightarrow> nat list" where
  "if_ldominates s g idoms nd =
     map fst (filter (\<lambda>(n, idom).
       idom = Some nd \<and> length (GetOrEmpty (g_reverse_edges g) n) > 1 \<and>
       \<not> (n_class (heap s n) \<noteq> IntervalNode \<and> n_in_catch (heap s n) \<and> \<not> n_in_catch (heap s nd))) idoms)"

definition if_struct_node :: "'i graph \<Rightarrow> idoms \<Rightarrow> nat \<Rightarrow> nat list \<times> 'i store \<Rightarrow> nat list \<times> 'i store" where
  "if_struct_node g idoms nd = (\<lambda>(unresolved, s).
     if \<not> (is_CondBlock (n_class (heap s nd)) \<and> n_type (heap s nd) = TypeCond) then (unresolved, s)
     else
       let ldominates = if_ldominates s g idoms nd in
       if ldominates = [] then (List.insert nd unresolved, s)
       else
         let n = max_by_num s ldominates;
             s1 = modify nd (\<lambda>x. x\<lparr>n_follow_if := Some n\<rparr>) s;
             between = (\<lambda>x. n_num (heap s nd) < n_num (heap s x) \<and> n_num (heap s x) < n_num (heap s n))
         in (filter (\<lambda>x. \<not> between x) unresolved, fold (set_follow_if n) (filter between unresolved) s1))"

definition IfStruct :: "'i graph \<Rightarrow> idoms \<Rightarrow> 'i store \<Rightarrow> nat list \<times> 'i store" where
  "IfStruct g idoms s =
     (let (po, s1) = post_order s g in fold (if_struct_node g idoms) po ([], s1))"

fun switch_dom :: "'i store \<Rightarrow> idoms \<Rightarrow> nat \<Rightarrow> nat list \<Rightarrow> nat option \<Rightarrow> nat option option" where
  "switch_dom s idoms nd [] m = Some m"
| "switch_dom s idoms nd (n # ns) m =
     (if map_of idoms n = Some (Some nd) then switch_dom s idoms nd ns m
      else Option.bind (CommonDom s idoms (Some nd) (Some n)) (switch_dom s idoms nd ns))"

definition set_follow_switch :: "nat \<Rightarrow> nat \<Rightarrow> 'i store \<Rightarrow> 'i store" where
  "set_follow_switch f n s =
     (if n_class (heap s n) = IntervalNode then s else modify n (\<lambda>x. x\<lparr>n_follow_switch := Some f\<rparr>) s)"

fun switch_struct_from ::
  "'i graph \<Rightarrow> idoms \<Rightarrow> nat list \<Rightarrow> nat list \<Rightarrow> 'i store \<Rightarrow> 'i store option" where
  "switch_struct_from g idoms [] unresolved s = Some s"
| "switch_struct_from g idoms (nd # nds) unresolved s =
     (if \<not> (n_class (heap s nd) = SwitchBlock \<and> n_type (heap s nd) = TypeSwitch)
      then switch_struct_from g idoms nds unresolved s
      else
        (case switch_dom s idoms nd (sucs g nd) (Some nd) of
           None \<Rightarrow> None
         | Some m \<Rightarrow>
           (let ldominates = map fst (filter (\<lambda>(n, dom). m = dom \<and> length (all_preds g n) > 1) idoms) in
            if ldominates = [] then switch_struct_from g idoms nds (List.insert nd unresolved) s
            else
              let n = max_by_num s ldominates;
                  s1 = modify nd (\<lambda>x. x\<lparr>n_follow_switch := Some n\<rparr>) s
              in switch_struct_from g idoms nds [] (fold (set_follow_switch n) unresolved s1))))"

definition SwitchStruct :: "'i graph \<Rightarrow> idoms \<Rightarrow> 'i store \<Rightarrow> 'i store option" where
  "SwitchStruct g idoms s = (let (po, s1) = post_order s g in switch_struct_from g idoms po [] s1)"

definition UpdateDom :: "(nat \<times> nat) list \<Rightarrow> idoms \<Rightarrow> idoms" where
  "UpdateDom m idoms = map (\<lambda>(n, dom). (n, remap m dom)) idoms"

section \<open>Short circuits\<close>

text \<open>The state of a pass: the store, the graph, dominators, renamed nodes, visited nodes.\<close>

record 'i merging =
  mg_store :: "'i store"
  mg_graph :: "'i graph"
  mg_idom :: idoms
  mg_map :: "(nat \<times> nat) list"
  mg_done :: "nat list"

text \<open>The neighbours of both nodes, collected while the nodes are taken out of the graph.\<close>

definition take_out :: "nat \<Rightarrow> nat list \<times> nat list \<times> 'i merging \<Rightarrow> nat list \<times> nat list \<times> 'i merging" where
  "take_out nd = (\<lambda>(lpreds, ldests, st).
     let g = mg_graph st in
     (fold List.insert (preds (mg_store st) g nd) lpreds, fold List.insert (sucs g nd) ldests,
      st\<lparr>mg_graph := remove_node nd g, mg_done := List.insert nd (mg_done st)\<rparr>))"

text \<open>\<open>MergeNodes\<close>: one block for both conditions, wired to the neighbours in number order.\<close>

definition MergeShortCircuit ::
  "nat \<Rightarrow> nat \<Rightarrow> bool \<Rightarrow> bool \<Rightarrow> 'i merging \<Rightarrow> nat \<times> 'i merging" where
  "MergeShortCircuit node1 node2 is_and is_not st =
     (let (lpreds, ldests, st1) = take_out node2 (take_out node1 ([], [], st));
          lpreds = filter (\<lambda>x. x \<noteq> node1 \<and> x \<noteq> node2) lpreds;
          ldests = filter (\<lambda>x. x \<noteq> node1 \<and> x \<noteq> node2) ldests;
          s = mg_store st1; g = mg_graph st1;
          entry = (g_entry g = Some node1 \<or> g_entry g = Some node2);
          nm = n_name (heap s node1) @ ''+'' @ n_name (heap s node2);
          (new_node, s1, g1) =
            MakeNode (new_ShortCircuitBlock nm
              (Condition (CondBlockOperand node1) (CondBlockOperand node2) is_and is_not)) s g;
          m1 = map (\<lambda>(old, n). (old, if n = node1 \<or> n = node2 then new_node else n)) (mg_map st1);
          m2 = AList.update node2 new_node (AList.update node1 new_node m1);
          idom1 = AList.update new_node (Option.bind (map_of (mg_idom st1) node1) id) (mg_idom st1);
          idom2 = AList.delete node2 (AList.delete node1 idom1);
          s2 = modify new_node (CopyFrom (heap s1 node1)) s1;
          by_num = (\<lambda>n. (n_num (heap s2 n), n_name (heap s2 n)));
          (s3, g2) = fold (\<lambda>p (s, g). (UpdateAttributeWith m2 p s, add_edge (MapGet m2 p) new_node g))
                       (sort_key by_num lpreds) (s2, g1);
          g3 = fold (\<lambda>d g. add_edge new_node (MapGet m2 d) g) (sort_key by_num ldests) g2;
          g4 = (if entry then g3\<lparr>g_entry := Some new_node\<rparr> else g3)
      in (new_node, st1\<lparr>mg_store := s3, mg_graph := g4, mg_idom := idom2, mg_map := m2\<rparr>))"

definition merged :: "nat \<Rightarrow> nat \<Rightarrow> bool \<Rightarrow> bool \<Rightarrow> nat option \<Rightarrow> nat option \<Rightarrow> 'i merging \<Rightarrow> 'i merging" where
  "merged node1 node2 is_and is_not t f st =
     (let (n, st') = MergeShortCircuit node1 node2 is_and is_not st
      in st'\<lparr>mg_store := modify n (\<lambda>x. x\<lparr>n_true_branch := t, n_false_branch := f\<rparr>) (mg_store st')\<rparr>)"

definition only_pred :: "nat option \<Rightarrow> 'i merging \<Rightarrow> bool" where
  "only_pred n st \<longleftrightarrow>
     (case n of
        None \<Rightarrow> False
      | Some n \<Rightarrow> is_CondBlock (n_class (heap (mg_store st) n)) \<and>
          length (preds (mg_store st) (mg_graph st) n) = 1)"

text \<open>One node of the walk; the flag says whether two nodes were merged.\<close>

definition short_circuit_node :: "nat \<Rightarrow> bool \<times> 'i merging \<Rightarrow> bool \<times> 'i merging" where
  "short_circuit_node nd = (\<lambda>(change, st).
     let h = heap (mg_store st);
         visited = (\<lambda>st. st\<lparr>mg_done := List.insert nd (mg_done st)\<rparr>);
         then_n = n_true_branch (h nd); els_n = n_false_branch (h nd);
         t = h (the then_n); e = h (the els_n)
     in
     if \<not> (is_CondBlock (n_class (h nd)) \<and> n_type (h nd) = TypeCond) \<or> nd \<in> set (mg_done st)
     then (change, st)
     else if then_n = Some nd \<or> els_n = Some nd then (change, st)
     else if only_pred then_n st then
       (if n_true_branch t = Some nd \<or> n_false_branch t = Some nd then (change, st)
        else if n_false_branch t = els_n then
          (True, visited (merged nd (the then_n) True False (n_true_branch t) els_n st))
        else if n_true_branch t = els_n then
          (True, visited (merged nd (the then_n) False True els_n (n_false_branch t) st))
        else (change, visited st))
     else if only_pred els_n st then
       (if n_false_branch e = Some nd \<or> n_true_branch e = Some nd then (change, st)
        else if n_false_branch e = then_n then
          (True, visited (merged nd (the els_n) True True (n_true_branch e) then_n st))
        else if n_true_branch e = then_n then
          (True, visited (merged nd (the els_n) False False then_n (n_false_branch e) st))
        else (change, visited st))
     else (change, visited st))"

definition short_circuit_pass :: "'i merging \<Rightarrow> bool \<times> 'i merging" where
  "short_circuit_pass st =
     (let (po, s1) = post_order (mg_store st) (mg_graph st);
          (change, st1) = fold short_circuit_node po (False, st\<lparr>mg_store := s1, mg_done := []\<rparr>);
          (s2, g2) = (if change then compute_rpo (mg_store st1) (mg_graph st1)
                      else (mg_store st1, mg_graph st1))
      in (change, st1\<lparr>mg_store := s2, mg_graph := g2\<rparr>))"

text \<open>The loop under its cap; the flag says that the cap was hit.\<close>

fun short_circuit_loop :: "nat \<Rightarrow> 'i merging \<Rightarrow> bool \<times> 'i merging" where
  "short_circuit_loop 0 st = (True, st)"
| "short_circuit_loop (Suc k) st =
     (let (change, st') = short_circuit_pass st
      in if change then short_circuit_loop k st' else (False, st'))"

definition kMaxIters :: "'i graph \<Rightarrow> nat" where
  "kMaxIters g = max (length (g_nodes g) * 10) 1000"

definition ShortCircuitStruct ::
  "'i store \<Rightarrow> 'i graph \<Rightarrow> idoms \<Rightarrow> (nat \<times> nat) list \<Rightarrow> bool \<times> 'i merging" where
  "ShortCircuitStruct s g idom m =
     short_circuit_loop (kMaxIters g)
       \<lparr>mg_store = s, mg_graph = g, mg_idom = idom, mg_map = m, mg_done = []\<rparr>"

section \<open>Loop headers and exception ranges\<close>

text \<open>
  A header is replaced by a \<open>LoopBlock\<close> that wraps it; the header keeps its forward edges only.
\<close>

definition restore_edge :: "(nat \<times> nat) list \<Rightarrow> nat \<Rightarrow> nat \<Rightarrow> 'i graph \<Rightarrow> 'i graph" where
  "restore_edge m n x g =
     (let es = GetOrEmpty (g_edges g) n
      in g\<lparr>g_edges := AList.update n (if MapGet m x \<in> set es then es else es @ [MapGet m x]) (g_edges g)\<rparr>)"

definition wrap_loop ::
  "nat \<Rightarrow> bool \<times> 'i store \<times> 'i graph \<times> (nat \<times> nat) list \<Rightarrow> bool \<times> 'i store \<times> 'i graph \<times> (nat \<times> nat) list"
where
  "wrap_loop n = (\<lambda>(change, s, g, m).
     if n_class (heap s n) = IntervalNode \<or> \<not> n_startloop (heap s n) then (change, s, g, m)
     else
       let (new_node, s1, g1) = MakeNode (new_LoopBlock (n_name (heap s n)) n) s g;
           m1 = AList.update n new_node m;
           s2 = modify new_node (CopyFrom (heap s1 n)) s1;
           lpreds = preds s2 g1 n; lsuccs = sucs g1 n;
           g2 = fold (\<lambda>p g. add_edge (MapGet m1 p) new_node g) lpreds g1;
           g3 = fold (\<lambda>d g. add_edge new_node (MapGet m1 d) g) lsuccs g2;
           g4 = (if g_entry g1 = Some n then g3\<lparr>g_entry := Some new_node\<rparr> else g3);
           s3 = (if is_CondBlock (n_class (heap s2 n)) \<and> n_type (heap s2 n) = TypeCond
                 then modify new_node (\<lambda>x. x\<lparr>n_true_branch := n_true_branch (heap s2 n),
                        n_false_branch := n_false_branch (heap s2 n)\<rparr>) s2
                 else s2);
           g5 = fold (restore_edge m1 n) lsuccs (remove_node n g4)
       in (True, s3, g5, m1))"

definition WhileBlockStruct ::
  "'i store \<Rightarrow> 'i graph \<Rightarrow> (nat \<times> nat) list \<Rightarrow> 'i store \<times> 'i graph \<times> (nat \<times> nat) list" where
  "WhileBlockStruct s g m =
     (let (change, s1, g1, m1) = fold wrap_loop (g_rpo g) (False, s, g, m);
          (s2, g2) = (if change then compute_rpo s1 g1 else (s1, g1))
      in (s2, g2, m1))"

text \<open>The state of \<open>CatchStruct\<close>: blocks that have a try node, and the renaming.\<close>

record 'i catching =
  ct_store :: "'i store"
  ct_graph :: "'i graph"
  ct_try :: "(nat \<times> nat) list"
  ct_map :: "(nat \<times> nat) list"

definition redirect_pred :: "nat \<Rightarrow> nat \<Rightarrow> (nat \<times> nat) list \<Rightarrow> nat \<Rightarrow> 'i store \<times> 'i graph \<Rightarrow> 'i store \<times> 'i graph" where
  "redirect_pred try_block try_node m p = (\<lambda>(s, g).
     let g1 = (if try_block \<in> set (sucs g p)
               then g\<lparr>g_edges := AList.update p (removeAll try_block (sucs g p)) (g_edges g)\<rparr> else g)
     in (UpdateAttributeWith m p s, add_edge p try_node g1))"

definition try_follow_of :: "'i store \<Rightarrow> 'i graph \<Rightarrow> nat \<Rightarrow> nat option" where
  "try_follow_of s g try_block =
     (let b = heap s try_block in
      if n_class b = IntervalNode then None
      else
        (case n_type b of
           TypeStmt \<Rightarrow> (case sucs g try_block of [] \<Rightarrow> None | f # _ \<Rightarrow> Some f)
         | TypeCond \<Rightarrow> (if n_follow_loop b \<noteq> None then n_follow_loop b else n_follow_if b)
         | TypeSwitch \<Rightarrow> n_follow_switch b
         | _ \<Rightarrow> None))"

definition make_try :: "nat \<Rightarrow> 'i catching \<Rightarrow> nat \<times> 'i catching" where
  "make_try try_block st =
     (case map_of (ct_try st) try_block of
        Some t \<Rightarrow> (t, st)
      | None \<Rightarrow>
        (let (t, s1, g1) = MakeNode (new_TryBlock try_block (ct_store st)) (ct_store st) (ct_graph st);
             m = AList.update try_block t (ct_map st);
             (s2, g2) = fold (redirect_pred try_block t m) (all_preds g1 try_block) (s1, g1);
             s3 = modify t (\<lambda>x. x\<lparr>n_try_follow := try_follow_of s2 g2 try_block\<rparr>) s2
         in (t, st\<lparr>ct_store := s3, ct_graph := g2, ct_map := m,
                   ct_try := AList.update try_block t (ct_try st)\<rparr>)))"

definition catch_struct_node :: "('i \<Rightarrow> bool) \<Rightarrow> idoms \<Rightarrow> nat \<Rightarrow> 'i catching \<Rightarrow> 'i catching" where
  "catch_struct_node is_mex idoms catch_block st =
     (if map_of (g_catch_edges (ct_graph st)) catch_block \<noteq> None
         \<or> \<not> is_BasicBlock (n_class (heap (ct_store st) catch_block))
      then st
      else
        let (x, s1) = new_CatchBlock is_mex catch_block (ct_store st);
            (catch_node, s2, g2) = MakeNode x s1 (ct_graph st);
            st2 = st\<lparr>ct_store := s2, ct_graph := g2\<rparr>
        in (case Option.bind (map_of idoms catch_block) id of
              None \<Rightarrow> st2
            | Some try_block \<Rightarrow>
              (let (t, st3) = make_try try_block st2
               in st3\<lparr>ct_store := modify t (\<lambda>x. x\<lparr>n_catch_nodes := n_catch_nodes x @ [catch_node]\<rparr>)
                         (ct_store st3)\<rparr>)))"

definition CatchStruct :: "('i \<Rightarrow> bool) \<Rightarrow> idoms \<Rightarrow> 'i store \<Rightarrow> 'i graph \<Rightarrow> 'i store \<times> 'i graph" where
  "CatchStruct is_mex idoms s g =
     (let catch_keys = sort_key (\<lambda>n. n_num (heap s n)) (map fst (g_reverse_catch_edges g));
          st = fold (catch_struct_node is_mex idoms) catch_keys
                 \<lparr>ct_store = s, ct_graph = g, ct_try = [], ct_map = []\<rparr>;
          s' = fold (UpdateAttributeWith (ct_map st)) (g_nodes (ct_graph st)) (ct_store st);
          g' = ct_graph st
      in (s', case Option.bind (g_entry g') (map_of (ct_map st)) of
                None \<Rightarrow> g' | Some t \<Rightarrow> g'\<lparr>g_entry := Some t\<rparr>))"

section \<open>The driver\<close>

definition resolve_if :: "nat \<Rightarrow> 'i store \<Rightarrow> 'i store" where
  "resolve_if n s =
     (let b = heap s n;
          follows = (case n_follow_loop b of None \<Rightarrow> [] | Some f \<Rightarrow> [f]) @
                    (case n_follow_switch b of None \<Rightarrow> [] | Some f \<Rightarrow> [f])
      in if n_class b = IntervalNode \<or> follows = [] then s
         else modify n (\<lambda>x. x\<lparr>n_follow_if := Some (min_by_num s follows)\<rparr>) s)"

definition rename_and_collect :: "(nat \<times> nat) list \<Rightarrow> nat \<Rightarrow> nat list \<times> 'i store \<Rightarrow> nat list \<times> 'i store" where
  "rename_and_collect m n = (\<lambda>(loop_starts, s).
     let s1 = UpdateAttributeWith m n s;
         x = heap s1 n
     in (if n_class x \<noteq> IntervalNode \<and> n_startloop x then loop_starts @ [n] else loop_starts, s1))"

definition struct_loop_start :: "nat \<Rightarrow> 'i store \<Rightarrow> 'i store" where
  "struct_loop_start n s =
     (let s1 = LoopType n (n_latch (heap s n)) (n_loop_nodes (heap s n)) s
      in LoopFollow n (n_latch (heap s1 n)) (n_loop_nodes (heap s1 n)) s1)"

definition IdentifyStructures ::
  "('i \<Rightarrow> bool) \<Rightarrow> 'i store \<Rightarrow> 'i graph \<Rightarrow> idoms \<Rightarrow> ('i store \<times> 'i graph \<times> idoms) option" where
  "IdentifyStructures is_mex s g idoms =
     (case DerivedSequenceOf s g of
        None \<Rightarrow> None
      | Some (s1, graphs, results) \<Rightarrow>
        (case SwitchStruct g idoms s1 of
           None \<Rightarrow> None
         | Some s2 \<Rightarrow>
           (let s3 = LoopStruct graphs results s2;
                st = snd (ShortCircuitStruct s3 g idoms []);
                idoms1 = UpdateDom (mg_map st) (mg_idom st);
                (if_unresolved, s4) = IfStruct (mg_graph st) idoms1 (mg_store st);
                (s5, g5, m) = WhileBlockStruct s4 (mg_graph st) (mg_map st);
                idoms2 = UpdateDom m idoms1;
                (loop_starts, s6) = fold (rename_and_collect m) (g_rpo g5) ([], s5);
                s7 = fold struct_loop_start loop_starts s6;
                s8 = fold resolve_if if_unresolved s7;
                (s9, g9) = CatchStruct is_mex idoms2 s8 g5
            in Some (s9, g9, idoms2))))"

end
