(* ===== verification/Cfg_Passes_Laws.thy ===== *)
theory Cfg_Passes_Laws
  imports Cfg_Passes Cfg_Graph_Laws
begin

text \<open>
  \<open>SplitIfNodes\<close> and \<open>Simplify\<close> keep the graph well formed. \<open>Simplify\<close> returns, because a pass that
  asks for another one has removed a node, and leaves no block it could still drop or join;
  \<open>SplitIfNodes\<close> leaves every conditional block with at most one instruction, which is what the
  writer renders as the test.
\<close>

section \<open>What renaming references keeps\<close>

text \<open>The fields the passes branch on.\<close>

definition same_shape :: "'i store \<Rightarrow> 'i store \<Rightarrow> bool" where
  "same_shape s s' \<longleftrightarrow>
     fresh s' = fresh s \<and>
     (\<forall>n. n_class (heap s' n) = n_class (heap s n) \<and> n_type (heap s' n) = n_type (heap s n) \<and>
        n_ins (heap s' n) = n_ins (heap s n))"

lemma same_shape_refl [simp]: "same_shape s s"
  by (simp add: same_shape_def)

lemma same_shape_trans: "same_shape s s' \<Longrightarrow> same_shape s' s'' \<Longrightarrow> same_shape s s''"
  by (simp add: same_shape_def)

lemma same_shapeD:
  assumes "same_shape s s'"
  shows "fresh s' = fresh s" "n_class (heap s' n) = n_class (heap s n)"
    "n_type (heap s' n) = n_type (heap s n)" "n_ins (heap s' n) = n_ins (heap s n)"
  using assms by (simp_all add: same_shape_def)

lemma same_shape_modify:
  "(\<And>x. n_class (f x) = n_class x \<and> n_type (f x) = n_type x \<and> n_ins (f x) = n_ins x) \<Longrightarrow>
     same_shape s (modify n f s)"
  by (simp add: same_shape_def)

lemma same_shape_Update [simp]: "same_shape s (UpdateAttributeWith m n s)"
  by (auto simp: UpdateAttributeWith_def Let_def update_node_def update_switch_def update_cond_def
      intro!: same_shape_modify)

lemma same_shape_fold_Update [simp]: "same_shape s (fold (UpdateAttributeWith m) ns s)"
  by (induction ns arbitrary: s) (auto intro: same_shape_trans [OF same_shape_Update])

lemma same_shape_catch_edge [simp]: "same_shape s (fst (add_catch_edge a b s g))"
  by (auto simp: add_catch_edge_def Let_def same_shape_def set_catch_type_def)

lemma add_catch_edge_nodes [simp]:
  "g_nodes (snd (add_catch_edge a b s g)) = g_nodes g"
  "g_entry (snd (add_catch_edge a b s g)) = g_entry g"
  by (simp_all add: add_catch_edge_def Let_def)

lemma add_edge_nodes [simp]: "g_nodes (add_edge a b g) = g_nodes g" "g_entry (add_edge a b g) = g_entry g"
  by (simp_all add: add_edge_def)

lemma remove_node_entry [simp]: "g_entry (remove_node n g) = g_entry g"
  by (simp add: remove_node_def Let_def)

lemma graph_ok_entry [simp]: "graph_ok (g\<lparr>g_entry := x\<rparr>) = graph_ok g"
  by (simp add: graph_ok_def)

section \<open>One step of Simplify\<close>

lemma bypass_preds_ok:
  assumes "graph_ok g" "set ps \<subseteq> set (g_nodes g)" "suc \<in> set (g_nodes g)"
    and "bypass_preds ps nd suc m s g = (s', g')"
  shows "graph_ok g' \<and> g_nodes g' = g_nodes g \<and> g_entry g' = g_entry g"
  using assms
proof (induction ps nd suc m s g rule: bypass_preds.induct)
  case (2 pred ps nd suc m s g)
  obtain s2 g2 where c: "add_catch_edge pred suc (UpdateAttributeWith m pred s) g = (s2, g2)" by fastforce
  have g2: "graph_ok g2" "g_nodes g2 = g_nodes g" "g_entry g2 = g_entry g"
    using graph_ok_add_catch_edge [OF 2(3), of pred suc] 2(4,5) c
      add_catch_edge_nodes [of pred suc "UpdateAttributeWith m pred s" g]
    by (metis list.set_intros(1) snd_conv subset_iff)+
  show ?case
  proof (cases "nd \<in> set (sucs g pred)")
    case True
    then show ?thesis using 2 graph_ok_add_edge [OF 2(3), of pred suc] by (auto simp: Let_def)
  next
    case False
    with 2(1) [OF refl False c [symmetric] refl] g2 2(4-6) c show ?thesis by (simp add: Let_def)
  qed
qed simp

definition reducible :: "'i store \<Rightarrow> 'i graph \<Rightarrow> nat \<Rightarrow> bool" where
  "reducible s g nd \<longleftrightarrow>
     is_BasicBlock (n_class (heap s nd)) \<and> n_type (heap s nd) = TypeStmt \<and> nd \<in> set (g_nodes g) \<and>
     (\<exists>suc. all_sucs g nd = [suc] \<and>
        (if n_ins (heap s nd) = []
         then nd \<noteq> suc \<and> (\<forall>p \<in> set (all_preds g nd).
           \<not> (is_BasicBlock (n_class (heap s p)) \<and> n_type (heap s p) = TypeSwitch))
         else can_merge nd suc s g))"

definition entry_ok :: "'i graph \<Rightarrow> bool" where
  "entry_ok g \<longleftrightarrow> (\<forall>e. g_entry g = Some e \<longrightarrow> e \<in> set (g_nodes g))"

lemma entry_ok_add [simp]: "entry_ok (add_edge a b g) = entry_ok g"
  "entry_ok (snd (add_catch_edge a b s g)) = entry_ok g"
  by (simp_all add: entry_ok_def)

definition shrinks :: "'i simplify \<Rightarrow> 'i simplify \<Rightarrow> bool" where
  "shrinks st st' \<longleftrightarrow>
     graph_ok (sm_graph st') \<and> entry_ok (sm_graph st') \<and>
     set (g_nodes (sm_graph st')) \<subset> set (g_nodes (sm_graph st)) \<and> sm_redo st' \<and>
     length (g_nodes (sm_graph st')) < length (g_nodes (sm_graph st))"

lemma shrinks_remove:
  assumes "graph_ok g" "n \<in> set (g_nodes g)" "entry_ok g" "g_entry g \<noteq> Some n"
    "g_nodes g = g_nodes (sm_graph st)"
    and "sm_graph st' = remove_node n g" "sm_redo st'"
  shows "shrinks st st'"
proof -
  have "distinct (g_nodes g)" using assms(1) by (simp add: graph_ok_def)
  then have "set (remove1 n (g_nodes g)) = set (g_nodes g) - {n}" by simp
  moreover have "length (remove1 n (g_nodes g)) < length (g_nodes g)"
    using assms(2) length_pos_if_in_set [OF assms(2)] by (simp add: length_remove1)
  ultimately show ?thesis
    using assms graph_ok_remove_node [OF assms(1)] unfolding shrinks_def entry_ok_def by auto
qed

lemma drop_empty_shrinks:
  assumes ok: "graph_ok (sm_graph st)" "entry_ok (sm_graph st)" and suc: "all_sucs (sm_graph st) nd = [suc]"
    and red: "nd \<noteq> suc" "\<forall>p \<in> set (all_preds (sm_graph st) nd).
      \<not> (is_BasicBlock (n_class (heap (sm_store st) p)) \<and> n_type (heap (sm_store st) p) = TypeSwitch)"
  shows "shrinks st (drop_empty nd suc st)"
proof -
  let ?g = "sm_graph st"
  have V: "nd \<in> set (g_nodes ?g)" "suc \<in> set (g_nodes ?g)"
    using graph_ok_nodes [OF ok(1), of suc nd] suc by simp_all
  obtain s1 g1 where b: "bypass_preds (all_preds ?g nd) nd suc (AList.update nd suc (sm_map st))
      (sm_store st) ?g = (s1, g1)" by fastforce
  have sub: "set (all_preds ?g nd) \<subseteq> set (g_nodes ?g)"
    using graph_ok_preds [OF ok(1)] graph_ok_nodes [OF ok(1)] by blast
  note B = bypass_preds_ok [OF ok(1) sub V(2) b]
  let ?g2 = "if g_entry g1 = Some nd then g1\<lparr>g_entry := Some suc\<rparr> else g1"
  have eq: "drop_empty nd suc st = st\<lparr>sm_store := s1, sm_graph := remove_node nd ?g2,
      sm_map := AList.update nd suc (sm_map st), sm_redo := True\<rparr>"
    using red b unfolding drop_empty_def Let_def by auto
  show ?thesis
    unfolding eq
    by (rule shrinks_remove [where n = nd and g = ?g2]) (use B V ok red(1) in \<open>auto simp: entry_ok_def\<close>)
qed

lemma fold_catch_edges_ok:
  assumes "graph_ok g" "nd \<in> set (g_nodes g)" "set es \<subseteq> set (g_nodes g)"
    and "fold (\<lambda>e (s, g). add_catch_edge nd e s g) es (s, g) = (s', g')"
  shows "graph_ok g' \<and> g_nodes g' = g_nodes g \<and> g_entry g' = g_entry g"
  using assms
proof (induction es arbitrary: s g)
  case (Cons e es)
  obtain s1 g1 where c: "add_catch_edge nd e s g = (s1, g1)" by fastforce
  have "graph_ok g1" "g_nodes g1 = g_nodes g" "g_entry g1 = g_entry g"
    using graph_ok_add_catch_edge [OF Cons.prems(1,2), of e s] add_catch_edge_nodes [of nd e s g] Cons.prems(3) c
    by simp_all
  with Cons.IH [of g1 s1] Cons.prems c show ?case by simp
qed simp

lemma join_next_shrinks:
  assumes ok: "graph_ok (sm_graph st)" "entry_ok (sm_graph st)" and suc: "all_sucs (sm_graph st) nd = [suc]"
    and m: "can_merge nd suc (sm_store st) (sm_graph st)"
  shows "shrinks st (join_next nd suc st)"
proof -
  let ?g = "sm_graph st" and ?s = "sm_store st"
  have V: "nd \<in> set (g_nodes ?g)" "suc \<in> set (g_nodes ?g)"
    using graph_ok_nodes [OF ok(1), of suc nd] suc by simp_all
  define g1 where "g1 = (case sucs ?g suc of [] \<Rightarrow> ?g | n # _ \<Rightarrow> add_edge nd n ?g)"
  have g1: "graph_ok g1" "g_nodes g1 = g_nodes ?g" "g_entry g1 = g_entry ?g" "g_catch_edges g1 = g_catch_edges ?g"
  proof -
    have "n \<in> set (g_nodes ?g)" if "sucs ?g suc = n # ns" for n ns
      using graph_ok_nodes [OF ok(1), of n suc] that by (simp add: all_sucs_def sucs_def)
    then show "graph_ok g1" "g_nodes g1 = g_nodes ?g" "g_entry g1 = g_entry ?g"
      "g_catch_edges g1 = g_catch_edges ?g"
      using ok V graph_ok_add_edge [OF ok(1)] unfolding g1_def
      by (auto split: list.splits simp: add_edge_def)
  qed
  have none: "map_of (g_catch_edges g1) suc = None" using m g1(4) by (simp add: can_merge_def)
  show ?thesis
  proof (rule shrinks_remove [where n = suc and g = g1])
    show "sm_graph (join_next nd suc st) = remove_node suc g1" "sm_redo (join_next nd suc st)"
      using m none by (simp_all add: join_next_def Let_def g1_def [symmetric])
    show "g_entry g1 \<noteq> Some suc" using m g1(3) by (simp add: can_merge_def)
  qed (use g1 V ok in \<open>auto simp: entry_ok_def\<close>)
qed

text \<open>A step either reduces a node or leaves store and graph as they are.\<close>

lemma simplify_node_cases:
  assumes "graph_ok (sm_graph st)" "entry_ok (sm_graph st)"
  shows "(reducible (sm_store st) (sm_graph st) nd \<longrightarrow> shrinks st (simplify_node nd st)) \<and>
    (\<not> reducible (sm_store st) (sm_graph st) nd \<longrightarrow> sm_store (simplify_node nd st) = sm_store st \<and>
      sm_graph (simplify_node nd st) = sm_graph st \<and> sm_redo (simplify_node nd st) = sm_redo st)"
proof (cases "\<exists>suc. all_sucs (sm_graph st) nd = [suc]")
  case True
  then obtain suc where suc: "all_sucs (sm_graph st) nd = [suc]" by blast
  show ?thesis
    using drop_empty_shrinks [OF assms suc] join_next_shrinks [OF assms suc]
    by (auto simp: simplify_node_def Let_def reducible_def suc drop_empty_def join_next_def)
next
  case False
  then have "\<not> reducible (sm_store st) (sm_graph st) nd" by (auto simp: reducible_def)
  moreover have "simplify_node nd st = st \<or> simplify_node nd st = st\<lparr>sm_update := List.insert nd (sm_update st)\<rparr>"
    using False by (auto simp: simplify_node_def Let_def split: list.split)
  ultimately show ?thesis by auto
qed

text \<open>A whole pass.\<close>

lemma simplify_fold:
  assumes "graph_ok (sm_graph st)" "entry_ok (sm_graph st)" and st': "st' = fold simplify_node nds st"
  shows "graph_ok (sm_graph st') \<and> entry_ok (sm_graph st') \<and> (sm_redo st \<longrightarrow> sm_redo st') \<and>
    set (g_nodes (sm_graph st')) \<subseteq> set (g_nodes (sm_graph st)) \<and>
    length (g_nodes (sm_graph st')) \<le> length (g_nodes (sm_graph st)) \<and>
    (sm_redo st' \<longrightarrow> sm_redo st \<or> length (g_nodes (sm_graph st')) < length (g_nodes (sm_graph st))) \<and>
    (\<not> sm_redo st' \<longrightarrow> sm_store st' = sm_store st \<and> sm_graph st' = sm_graph st \<and>
      (\<forall>nd \<in> set nds. \<not> reducible (sm_store st) (sm_graph st) nd))"
  using assms
proof (induction nds arbitrary: st)
  case (Cons nd nds)
  define st1 where "st1 = simplify_node nd st"
  note S = simplify_node_cases [OF Cons.prems(1,2), of nd, folded st1_def]
  have st': "st' = fold simplify_node nds st1" using Cons.prems(3) by (simp add: st1_def)
  show ?case
  proof (cases "reducible (sm_store st) (sm_graph st) nd")
    case True
    then have sh: "shrinks st st1" using S by blast
    then have ok: "graph_ok (sm_graph st1)" "entry_ok (sm_graph st1)" by (simp_all add: shrinks_def)
    from Cons.IH [OF this st'] sh show ?thesis by (auto simp: shrinks_def)
  next
    case False
    then have eq: "sm_store st1 = sm_store st" "sm_graph st1 = sm_graph st" "sm_redo st1 = sm_redo st"
      using S by blast+
    from Cons.IH [of st1] Cons.prems(1,2) st' eq False show ?thesis by auto
  qed
qed simp

section \<open>Simplify returns\<close>

lemma reducible_cong:
  assumes "same_shape s s'"
  shows "reducible s' g nd = reducible s g nd"
  using same_shapeD [OF assms] by (simp add: reducible_def can_merge_def)

lemma simplify_pass_facts:
  assumes "graph_ok g" "entry_ok g" "simplify_pass s g = (s', g', redo)"
  shows "graph_ok g'" "entry_ok g'" "set (g_nodes g') \<subseteq> set (g_nodes g)"
    "redo \<Longrightarrow> length (g_nodes g') < length (g_nodes g)"
    "\<not> redo \<Longrightarrow> nd \<in> set (g_nodes g') \<Longrightarrow> \<not> reducible s' g' nd"
proof -
  define st where "st = \<lparr>sm_store = s, sm_graph = g, sm_map = [], sm_update = [], sm_redo = False\<rparr>"
  define st' where "st' = fold simplify_node (g_nodes g) st"
  have eq: "s' = fold (UpdateAttributeWith (sm_map st')) (sm_update st') (sm_store st')"
    "g' = sm_graph st'" "redo = sm_redo st'"
    using assms(3) by (simp_all add: simplify_pass_def Let_def st'_def st_def)
  have "graph_ok (sm_graph st)" "entry_ok (sm_graph st)" using assms(1,2) by (simp_all add: st_def)
  note F = simplify_fold [OF this st'_def]
  show "graph_ok g'" "entry_ok g'" "set (g_nodes g') \<subseteq> set (g_nodes g)"
    "redo \<Longrightarrow> length (g_nodes g') < length (g_nodes g)"
    using F eq by (auto simp: st_def)
  show "\<not> reducible s' g' nd" if "\<not> redo" "nd \<in> set (g_nodes g')"
  proof -
    have "\<not> reducible (sm_store st) (sm_graph st) nd" using F that eq by (auto simp: st_def)
    with F that(1) eq show ?thesis by (simp add: reducible_cong [OF same_shape_fold_Update])
  qed
qed

lemma Simplify_facts:
  assumes "graph_ok g" "entry_ok g"
  shows "\<exists>s' g'. Simplify s g = Some (s', g') \<and> graph_ok g' \<and> entry_ok g' \<and>
    set (g_nodes g') \<subseteq> set (g_nodes g) \<and> (\<forall>nd \<in> set (g_nodes g'). \<not> reducible s' g' nd)"
  using assms
proof (induction "length (g_nodes g)" arbitrary: s g rule: less_induct)
  case less
  obtain s1 g1 redo where p: "simplify_pass s g = (s1, g1, redo)" by (metis prod_cases3)
  note P = simplify_pass_facts [OF less(2,3) p]
  show ?case
  proof (cases redo)
    case True
    with p have "Simplify s g = Simplify s1 g1" by (subst Simplify.simps) simp
    with less(1) [OF P(4) [OF True] P(1,2), of s1] P(3) show ?thesis by fastforce
  next
    case False
    with p have "Simplify s g = Some (s1, g1)" by (subst Simplify.simps) simp
    with P(1-3) P(5) [OF False] show ?thesis by blast
  qed
qed

section \<open>Splitting\<close>

lemma same_shape_retarget [simp]: "same_shape s (retarget pred q nd pre s)"
  by (auto simp: retarget_def Let_def same_shape_def)

lemma split_preds_ok:
  assumes "graph_ok g" "pre \<in> set (g_nodes g)" "cn \<in> set (g_nodes g)"
    and "\<forall>p \<in> set ps. MapGet m p \<in> set (g_nodes g)" and "split_preds ps nd pre cn m s g = (s', g')"
  shows "graph_ok g' \<and> g_nodes g' = g_nodes g \<and> g_entry g' = g_entry g \<and> same_shape s s'"
  using assms
proof (induction ps nd pre cn m s g rule: split_preds.induct)
  case (2 pred ps nd pre cn m s g)
  show ?case
  proof (cases "nd \<in> set (sucs g pred)")
    case True
    define q where "q = (if pred = nd then cn else MapGet m pred)"
    have "q \<in> set (g_nodes g)" using 2(5,6) by (simp add: q_def)
    then have ok: "graph_ok (add_edge q pre g)" using graph_ok_add_edge 2(3,4) by blast
    have "split_preds ps nd pre cn m (retarget pred q nd pre s) (add_edge q pre g) = (s', g')"
      using 2(7) True by (simp add: Let_def q_def)
    with 2(2) [OF refl _ q_def refl] True ok 2(4-6) show ?thesis
      by (auto intro: same_shape_trans [OF same_shape_retarget])
  next
    case False
    obtain s1 g1 where c: "add_catch_edge (MapGet m pred) pre s g = (s1, g1)" by fastforce
    have g1: "graph_ok g1" "g_nodes g1 = g_nodes g" "g_entry g1 = g_entry g" "same_shape s s1"
      using graph_ok_add_catch_edge [OF 2(3), of "MapGet m pred" pre s] 2(4,6) c
        add_catch_edge_nodes [of "MapGet m pred" pre s g] same_shape_catch_edge [of s "MapGet m pred" pre g]
      by auto
    with 2(1) [OF refl False c [symmetric] refl] 2(4-7) False c show ?thesis
      by (auto simp: Let_def intro: same_shape_trans)
  qed
qed simp

lemma copy_catch_edges_ok:
  assumes "graph_ok g" "pre \<in> set (g_nodes g)" "\<forall>x \<in> set ss. MapGet m x \<in> set (g_nodes g)"
    and "copy_catch_edges ss pre m s g = (s', g')"
  shows "graph_ok g' \<and> g_nodes g' = g_nodes g \<and> g_entry g' = g_entry g \<and> same_shape s s'"
  using assms
proof (induction ss pre m s g rule: copy_catch_edges.induct)
  case (2 x ss pre m s g)
  obtain s1 g1 where c: "add_catch_edge pre (MapGet m x) s g = (s1, g1)" by fastforce
  have g1: "graph_ok g1" "g_nodes g1 = g_nodes g" "g_entry g1 = g_entry g" "same_shape s s1"
    using graph_ok_add_catch_edge [OF 2(2,3), of "MapGet m x" s] 2(4) c
      add_catch_edge_nodes [of pre "MapGet m x" s g] same_shape_catch_edge [of s pre "MapGet m x" g]
    by auto
  with 2(1) [OF c [symmetric] refl] 2(3-5) c show ?case by (auto intro: same_shape_trans)
qed simp

lemma fold_add_edge_ok:
  assumes "graph_ok g" "cn \<in> set (g_nodes g)" "\<forall>x \<in> set ss. f x \<in> set (g_nodes g)"
  shows "graph_ok (fold (\<lambda>x g. add_edge cn (f x) g) ss g) \<and>
    g_nodes (fold (\<lambda>x g. add_edge cn (f x) g) ss g) = g_nodes g \<and>
    g_entry (fold (\<lambda>x g. add_edge cn (f x) g) ss g) = g_entry g"
  using assms by (induction ss arbitrary: g) (simp_all add: graph_ok_add_edge)

text \<open>The conditional blocks that still carry more than their test.\<close>

definition unsplit :: "'i store \<Rightarrow> nat \<Rightarrow> bool" where
  "unsplit s n \<longleftrightarrow> is_CondBlock (n_class (heap s n)) \<and> n_type (heap s n) = TypeCond \<and> 1 < length (n_ins (heap s n))"

lemma unsplit_cong: "same_shape s s' \<Longrightarrow> unsplit s' n = unsplit s n"
  by (simp add: unsplit_def same_shapeD)

lemma fold_add_variable_declaration [simp]:
  "n_class (fold add_variable_declaration vs x) = n_class x"
  "n_type (fold add_variable_declaration vs x) = n_type x"
  "n_ins (fold add_variable_declaration vs x) = n_ins x"
  by (induction vs arbitrary: x) (simp_all add: add_variable_declaration_def)

lemma block_shape:
  "n_class (new_block c t nm is) = c" "n_type (new_block c t nm is) = t" "n_ins (new_block c t nm is) = is"
  "n_class (CopyFrom y x) = n_class x" "n_type (CopyFrom y x) = n_type y" "n_ins (CopyFrom y x) = n_ins x"
  by (simp_all add: new_block_def CopyFrom_def)

lemma make_halves_facts:
  assumes "make_halves nd s g = (pre, cn, s', g')"
  shows "pre = fresh s" "cn = Suc (fresh s)" "fresh s' = Suc (Suc (fresh s))"
    "g' = add_node cn (add_node pre g)" "\<not> unsplit s' pre" "\<not> unsplit s' cn"
    "n < fresh s \<Longrightarrow> unsplit s' n = unsplit s n"
proof -
  note d = assms [unfolded make_halves_def MakeNode_def alloc_def Let_def prod.case, symmetric]
  show "pre = fresh s" "cn = Suc (fresh s)" "fresh s' = Suc (Suc (fresh s))"
    "g' = add_node cn (add_node pre g)"
    using d by simp_all
  show "\<not> unsplit s' pre" "\<not> unsplit s' cn" "n < fresh s \<Longrightarrow> unsplit s' n = unsplit s n"
    using d by (simp_all add: unsplit_def block_shape new_StatementBlock_def new_CondBlock_def is_CondBlock_def)
qed

lemma MapGet_update: "MapGet (AList.update k v m) n = (if n = k then v else MapGet m n)"
  by (simp add: MapGet_def update_conv)

text \<open>What holds between two steps: the map is the identity on the nodes of the graph.\<close>

definition split_ok :: "node_map \<Rightarrow> 'i store \<Rightarrow> 'i graph \<Rightarrow> bool" where
  "split_ok m s g \<longleftrightarrow>
     graph_ok g \<and> entry_ok g \<and> set (g_nodes g) \<subseteq> {..<fresh s} \<and> (\<forall>n \<in> set (g_nodes g). MapGet m n = n)"

lemma split_node_ok:
  assumes ok: "split_ok m s g" and nd: "nd \<in> set (g_nodes g)" and r: "split_node nd m s g = (m', s', g')"
  shows "split_ok m' s' g'" "set (g_nodes g') = set (g_nodes g) - {nd} \<union> {fresh s, Suc (fresh s)}"
    "n \<in> set (g_nodes g) \<Longrightarrow> unsplit s' n = unsplit s n"
    "\<not> unsplit s' (fresh s)" "\<not> unsplit s' (Suc (fresh s))" "fresh s' = Suc (Suc (fresh s))"
proof -
  obtain pre cn s1 g1 where h: "make_halves nd s g = (pre, cn, s1, g1)" by (metis prod_cases4)
  note H = make_halves_facts [OF h]
  define m1 where "m1 = AList.update cn cn (AList.update pre pre (AList.update nd pre m))"
  obtain s2 g2 where p: "split_preds (all_preds g1 nd) nd pre cn m1 s1 g1 = (s2, g2)" by fastforce
  define g3 where "g3 = fold (\<lambda>x g. add_edge cn (MapGet m1 x) g) (sucs g2 nd) g2"
  obtain s4 g4 where c: "copy_catch_edges (GetOrEmpty (g_catch_edges g3) nd) pre m1 s2 g3 = (s4, g4)"
    by fastforce
  define g5 where "g5 = (if g_entry g4 = Some nd then g4\<lparr>g_entry := Some pre\<rparr> else g4)"
  have res: "m' = m1" "s' = UpdateAttributeWith m1 cn (UpdateAttributeWith m1 pre s4)"
    "g' = remove_node nd (add_edge pre cn g5)"
    using r unfolding split_node_def h
    by (auto simp: Let_def m1_def [symmetric] p g3_def [symmetric] c g5_def [symmetric])
  have V: "graph_ok g" "entry_ok g" "set (g_nodes g) \<subseteq> {..<fresh s}" "\<forall>n \<in> set (g_nodes g). MapGet m n = n"
    using ok by (simp_all add: split_ok_def)
  have new: "pre \<notin> set (g_nodes g)" "cn \<notin> set (g_nodes g)" "pre \<noteq> cn" "nd \<noteq> pre" "nd \<noteq> cn"
    using V(3) nd H(1,2) by auto
  have nodes1: "set (g_nodes g1) = insert pre (insert cn (set (g_nodes g)))" "g_entry g1 = g_entry g"
    using H(4) by (auto simp: add_node_def)
  have ok1: "graph_ok g1" unfolding H(4)
    using new by (intro graph_ok_add_node V(1)) (simp_all add: add_node_def)
  have map: "MapGet m1 x \<in> set (g_nodes g1)" if "x \<in> set (g_nodes g1)" for x
    using that V(4) nodes1 by (auto simp: m1_def MapGet_update)
  have preds: "\<forall>x \<in> set (all_preds g1 nd). MapGet m1 x \<in> set (g_nodes g1)"
    using map graph_ok_preds [OF ok1] graph_ok_nodes [OF ok1] by blast
  have "pre \<in> set (g_nodes g1)" "cn \<in> set (g_nodes g1)" using nodes1 by simp_all
  note P = split_preds_ok [OF ok1 this preds p]
  have in2: "x \<in> set (g_nodes g2)" if "x \<in> set (all_sucs g2 nd)" for x
    using graph_ok_nodes that P by blast
  have ss: "\<forall>x \<in> set (sucs g2 nd). MapGet m1 x \<in> set (g_nodes g2)"
    using map in2 P by (auto simp: all_sucs_def sucs_def)
  have ok3: "graph_ok g3 \<and> g_nodes g3 = g_nodes g1 \<and> g_entry g3 = g_entry g1"
    unfolding g3_def using fold_add_edge_ok [of g2 cn, OF _ _ ss] P nodes1 by simp
  have "x \<in> set (g_nodes g3)" if "x \<in> set (GetOrEmpty (g_catch_edges g3) nd)" for x
    using graph_ok_nodes [of g3 x nd] ok3 that by (simp add: all_sucs_def)
  then have es: "\<forall>x \<in> set (GetOrEmpty (g_catch_edges g3) nd). MapGet m1 x \<in> set (g_nodes g3)"
    using map ok3 by simp
  have C: "graph_ok g4 \<and> g_nodes g4 = g_nodes g3 \<and> g_entry g4 = g_entry g3 \<and> same_shape s2 s4"
    by (rule copy_catch_edges_ok [OF _ _ es c]) (use ok3 nodes1 in auto)
  have g5: "graph_ok g5" "g_nodes g5 = g_nodes g1"
    "g_entry g5 = (if g_entry g = Some nd then Some pre else g_entry g)"
    using C ok3 nodes1(2) by (auto simp: g5_def)
  have "graph_ok (add_edge pre cn g5)" by (rule graph_ok_add_edge) (use g5(1,2) nodes1 in auto)
  then have ok': "graph_ok g'" unfolding res(3) by (rule graph_ok_remove_node)
  have "distinct (g_nodes g1)" using ok1 by (simp add: graph_ok_def)
  then show nodes': "set (g_nodes g') = set (g_nodes g) - {nd} \<union> {fresh s, Suc (fresh s)}"
    using new nodes1 g5(2) H(1,2) by (auto simp: res(3))
  have sh: "same_shape s1 s'"
    unfolding res(2) using P C by (meson same_shape_Update same_shape_trans)
  show fr: "fresh s' = Suc (Suc (fresh s))" using H(3) same_shapeD(1) [OF sh] by simp
  have "entry_ok g'"
    using V(2) nodes' g5(3) H(1) unfolding entry_ok_def by (auto simp: res(3))
  moreover have "set (g_nodes g') \<subseteq> {..<fresh s'}" using V(3) nodes' fr by auto
  moreover have "MapGet m' n = n" if "n \<in> set (g_nodes g')" for n
    using that V(4) nodes' H(1,2) by (auto simp: res(1) m1_def MapGet_update)
  ultimately show "split_ok m' s' g'" using ok' by (simp add: split_ok_def)
  show "n \<in> set (g_nodes g) \<Longrightarrow> unsplit s' n = unsplit s n"
    using V(3) H(7) unsplit_cong [OF sh] by auto
  show "\<not> unsplit s' (fresh s)" "\<not> unsplit s' (Suc (fresh s))"
    using H(1,2,5,6) unsplit_cong [OF sh] by auto
qed

lemma split_nodes_ok:
  assumes "split_ok m s g" "set nds \<subseteq> set (g_nodes g)" "distinct nds"
    and "\<forall>n \<in> set (g_nodes g) - set nds. \<not> unsplit s n" and "split_nodes nds m upd s g = (m', upd', s', g')"
  shows "split_ok m' s' g' \<and> (\<forall>n \<in> set (g_nodes g'). \<not> unsplit s' n) \<and> fresh s \<le> fresh s'"
  using assms
proof (induction nds m upd s g rule: split_nodes.induct)
  case (2 nd nds m upd s g)
  show ?case
  proof (cases "unsplit s nd")
    case False
    have rest: "set nds \<subseteq> set (g_nodes g)" "distinct nds" "\<forall>n \<in> set (g_nodes g) - set nds. \<not> unsplit s n"
      using 2(5-7) False by auto
    consider (other) "\<not> (is_CondBlock (n_class (heap s nd)) \<and> n_type (heap s nd) = TypeCond)"
      | (small) "is_CondBlock (n_class (heap s nd)) \<and> n_type (heap s nd) = TypeCond" "length (n_ins (heap s nd)) \<le> 1"
      using False unfolding unsplit_def by linarith
    then show ?thesis
    proof cases
      case other
      then have "split_nodes nds m (List.insert nd upd) s g = (m', upd', s', g')" using 2(8) by simp
      with 2(1) [OF other 2(4) rest] show ?thesis by blast
    next
      case small
      then have "split_nodes nds m upd s g = (m', upd', s', g')" using 2(8) by simp
      with 2(2) [OF _ _ 2(4) rest] small show ?thesis by blast
    qed
  next
    case True
    obtain m1 s1 g1 where n: "split_node nd m s g = (m1, s1, g1)" by (metis prod_cases3)
    have nd: "nd \<in> set (g_nodes g)" using 2(5) by simp
    note N = split_node_ok [OF 2(4) nd n]
    have "split_nodes nds m1 upd s1 g1 = (m', upd', s', g')" using 2(8) True n by (simp add: unsplit_def)
    moreover have "set nds \<subseteq> set (g_nodes g1)" using 2(5,6) N(2) by auto
    moreover have "\<forall>x \<in> set (g_nodes g1) - set nds. \<not> unsplit s1 x"
      using N(2-5) 2(7) by (metis DiffD1 DiffD2 Diff_iff Un_iff empty_iff insertE list.simps(15) insert_iff)
    ultimately show ?thesis
      using 2(3) [OF _ _ n [symmetric] refl refl N(1)] True 2(6) N(6) by (fastforce simp: unsplit_def)
  qed
qed simp

lemma SplitIfNodes_facts:
  assumes "graph_ok g" "entry_ok g" "set (g_nodes g) \<subseteq> {..<fresh s}" "SplitIfNodes s g = (s', g')"
  shows "graph_ok g' \<and> entry_ok g' \<and> set (g_nodes g') \<subseteq> {..<fresh s'} \<and>
    (\<forall>n \<in> set (g_nodes g'). \<not> unsplit s' n)"
proof -
  let ?m = "map (\<lambda>n. (n, n)) (g_nodes g)"
  obtain m upd s1 g1 where r: "split_nodes (g_nodes g) ?m [] s g = (m, upd, s1, g1)" by (metis prod_cases4)
  have "map_of ?m n = (if n \<in> set (g_nodes g) then Some n else None)" for n
    by (simp add: map_of_map_restrict restrict_map_def)
  then have "split_ok ?m s g" using assms(1-3) by (simp add: split_ok_def MapGet_def)
  moreover have "distinct (g_nodes g)" using assms(1) by (simp add: graph_ok_def)
  ultimately have R: "split_ok m s1 g1 \<and> (\<forall>n \<in> set (g_nodes g1). \<not> unsplit s1 n)"
    using split_nodes_ok [OF _ _ _ _ r] by auto
  have "s' = fold (UpdateAttributeWith m) upd s1" "g' = g1"
    using assms(4) r by (auto simp: SplitIfNodes_def)
  with R show ?thesis
    using same_shapeD(1) [OF same_shape_fold_Update, of m upd s1]
    by (auto simp: split_ok_def unsplit_cong [OF same_shape_fold_Update])
qed

section \<open>Properties\<close>

text \<open>
  C17. \<open>Simplify\<close> returns, keeps the graph well formed with its entry in it, and leaves nothing that
  another pass would reduce.
\<close>

theorem simplify_returns:
  assumes "graph_ok g" and "entry_ok g"
  shows "\<exists>s' g'. Simplify s g = Some (s', g') \<and> graph_ok g' \<and> entry_ok g' \<and>
    set (g_nodes g') \<subseteq> set (g_nodes g) \<and> (\<forall>nd \<in> set (g_nodes g'). \<not> reducible s' g' nd)"
  by (rule Simplify_facts [OF assms])

text \<open>
  C26. After \<open>SplitIfNodes\<close> no conditional block carries more than its test; the graph stays well formed
  and its addresses allocated.
\<close>

theorem split_if_tests:
  assumes "graph_ok g" and "entry_ok g" and "set (g_nodes g) \<subseteq> {..<fresh s}"
    and "SplitIfNodes s g = (s', g')"
  shows "graph_ok g' \<and> entry_ok g' \<and> set (g_nodes g') \<subseteq> {..<fresh s'} \<and>
    (\<forall>n \<in> set (g_nodes g'). is_CondBlock (n_class (heap s' n)) \<and> n_type (heap s' n) = TypeCond
       \<longrightarrow> length (n_ins (heap s' n)) \<le> 1)"
  using SplitIfNodes_facts [OF assms] by (simp add: unsplit_def) (metis not_le One_nat_def)

end
