(* ===== verification/Cfg_Structure_Laws.thy ===== *)
theory Cfg_Structure_Laws
  imports Cfg_Structure Cfg_Passes_Laws Cfg_Traversal
begin

text \<open>
  Properties of the structuring passes. \<open>MarkLoop\<close> collects the head and what reaches the latch
  backwards inside the interval; \<open>CommonDom\<close> finds the nearest common ancestor in a dominator
  tree; every merge of \<open>ShortCircuitStruct\<close> shrinks the graph by one node, so its safety cap is
  never reached and what it leaves has nothing left to merge.
\<close>

section \<open>Loops\<close>

definition back_step :: "'i store \<Rightarrow> 'i graph \<Rightarrow> int \<Rightarrow> int \<Rightarrow> nat option \<Rightarrow> nat \<Rightarrow> nat \<Rightarrow> bool" where
  "back_step s g lo hi iv a b \<longleftrightarrow> b \<in> set (all_preds g a) \<and> in_range s lo hi iv b"

text \<open>
  The worklist: everything pending is collected, nothing is collected that cannot be reached, and
  what was expanded is closed under the step.
\<close>

lemma MarkLoopRec_facts:
  assumes "r = MarkLoopRec s g lo hi iv ns acc"
  shows "(set acc \<union> set ns \<subseteq> set r) \<and> (distinct acc \<longrightarrow> distinct r) \<and> (\<exists>zs. r = acc @ zs) \<and>
    (\<forall>x \<in> set r. x \<in> set acc \<or> (\<exists>n \<in> set ns. (back_step s g lo hi iv)\<^sup>*\<^sup>* n x)) \<and>
    (\<forall>A. (\<forall>a \<in> set acc - A. \<forall>b. back_step s g lo hi iv a b \<longrightarrow> b \<in> set acc \<union> set ns) \<longrightarrow>
      (\<forall>a \<in> set r - A. \<forall>b. back_step s g lo hi iv a b \<longrightarrow> b \<in> set r))"
  using assms
proof (induction s g lo hi iv ns acc rule: MarkLoopRec.induct)
  case (1 s g lo hi iv acc)
  then show ?case by auto
next
  case (2 s g lo hi iv n ns acc)
  let ?R = "back_step s g lo hi iv"
  show ?case
  proof (cases "n \<in> set acc")
    case True
    then have "r = MarkLoopRec s g lo hi iv ns acc" using 2(3) by simp
    note IH = 2(1) [OF True this]
    have "set acc \<union> set (n # ns) = set acc \<union> set ns" using True by auto
    with IH show ?thesis by auto
  next
    case False
    define ps where "ps = filter (in_range s lo hi iv) (all_preds g n)"
    have ps: "b \<in> set ps \<longleftrightarrow> ?R n b" for b by (auto simp: ps_def back_step_def)
    have "r = MarkLoopRec s g lo hi iv (ps @ ns) (acc @ [n])" using 2(3) False by (simp add: ps_def)
    note IH = 2(2) [OF False this [unfolded ps_def], folded ps_def]
    have "x \<in> set acc \<or> (\<exists>m \<in> set (n # ns). ?R\<^sup>*\<^sup>* m x)" if "x \<in> set r" for x
    proof -
      have "x \<in> set (acc @ [n]) \<or> (\<exists>m \<in> set (ps @ ns). ?R\<^sup>*\<^sup>* m x)" using IH that by blast
      then show ?thesis using ps by (auto intro: converse_rtranclp_into_rtranclp)
    qed
    moreover have "\<forall>a \<in> set r - A. \<forall>b. ?R a b \<longrightarrow> b \<in> set r"
      if "\<forall>a \<in> set acc - A. \<forall>b. ?R a b \<longrightarrow> b \<in> set acc \<union> set (n # ns)" for A
    proof -
      have "\<forall>a \<in> set (acc @ [n]) - A. \<forall>b. ?R a b \<longrightarrow> b \<in> set (acc @ [n]) \<union> set (ps @ ns)"
        using that ps by auto
      with IH show ?thesis by blast
    qed
    ultimately show ?thesis using IH False by auto
  qed
qed

lemma MarkLoop_facts:
  assumes "GetHead s start = Some h" and "GetEnd s last_node = Some l"
    and "MarkLoop g start last_node iv s = (nodes, s')"
  shows "distinct nodes" "hd nodes = h" "nodes \<noteq> []"
    "set nodes = insert h {x. l \<noteq> h \<and> (back_step s g (n_num (heap s h)) (n_num (heap s l)) iv)\<^sup>*\<^sup>* l x}"
    "n_class (heap s h) \<noteq> IntervalNode \<Longrightarrow> n_startloop (heap s' h) \<and> n_latch (heap s' h) = Some l"
proof -
  let ?R = "back_step s g (n_num (heap s h)) (n_num (heap s l)) iv"
  have nodes: "nodes = MarkLoopRec s g (n_num (heap s h)) (n_num (heap s l)) iv [l] [h]"
    using assms by (simp add: MarkLoop_def)
  note F = MarkLoopRec_facts [OF nodes]
  show "distinct nodes" using F by simp
  show "hd nodes = h" "nodes \<noteq> []" using F by (metis append_Cons append_Nil hd_append2 list.sel(1) list.discI)+
  have noh: "\<not> ?R a h" for a by (simp add: back_step_def in_range_def)
  have "\<forall>A. (\<forall>a \<in> set [h] - A. \<forall>b. ?R a b \<longrightarrow> b \<in> set [h] \<union> set [l]) \<longrightarrow>
      (\<forall>a \<in> set nodes - A. \<forall>b. ?R a b \<longrightarrow> b \<in> set nodes)"
    using F by (elim conjE)
  from this [THEN spec, of "{h}"]
  have closed: "\<forall>a \<in> set nodes - {h}. \<forall>b. ?R a b \<longrightarrow> b \<in> set nodes" by (rule mp) simp
  have "x \<in> set nodes" if "l \<noteq> h" "?R\<^sup>*\<^sup>* l x" for x
    using that(2)
  proof (induction rule: rtranclp_induct)
    case base
    then show ?case using F by simp
  next
    case (step y z)
    have "y \<noteq> h" using step(1) that(1) noh by (metis rtranclp.cases)
    with step closed show ?case by blast
  qed
  moreover have "x = h \<or> (l \<noteq> h \<and> ?R\<^sup>*\<^sup>* l x)" if "x \<in> set nodes" for x
  proof (cases "l = h")
    case True
    then show ?thesis using that nodes by simp
  next
    case False
    with F that show ?thesis by auto
  qed
  moreover have "h \<in> set nodes" using F by simp
  ultimately show "set nodes = insert h {x. l \<noteq> h \<and> ?R\<^sup>*\<^sup>* l x}" by auto
  show "n_class (heap s h) \<noteq> IntervalNode \<Longrightarrow> n_startloop (heap s' h) \<and> n_latch (heap s' h) = Some l"
    using assms by (auto simp: MarkLoop_def Let_def)
qed

section \<open>Common dominators\<close>

text \<open>
  A map that descends: a non-root has a dominator with a smaller number, and numbers tell the
  nodes of a set closed under the map apart. \<open>ancestor\<close> is the reflexive chain.
\<close>

definition parent_of :: "idoms \<Rightarrow> nat \<Rightarrow> nat option" where
  "parent_of idom x = Option.bind (map_of idom x) id"

definition ancestor :: "idoms \<Rightarrow> nat \<Rightarrow> nat \<Rightarrow> bool" where
  "ancestor idom = (\<lambda>a x. (\<lambda>x p. parent_of idom x = Some p)\<^sup>*\<^sup>* x a)"

definition dom_tree :: "'i store \<Rightarrow> idoms \<Rightarrow> nat set \<Rightarrow> nat \<Rightarrow> bool" where
  "dom_tree s idom V e \<longleftrightarrow>
     finite V \<and> e \<in> V \<and> inj_on (\<lambda>n. n_num (heap s n)) V \<and>
     (\<forall>x \<in> V. x \<noteq> e \<longrightarrow> (\<exists>p \<in> V. parent_of idom x = Some p \<and> n_num (heap s p) < n_num (heap s x))) \<and>
     parent_of idom e = None"

lemma ancestor_less:
  assumes t: "dom_tree s idom V e" and "x \<in> V" "ancestor idom a x"
  shows "a \<in> V \<and> n_num (heap s a) \<le> n_num (heap s x)"
  using assms(3,2) unfolding ancestor_def
proof (induction rule: rtranclp_induct)
  case (step y z)
  then have y: "y \<in> V" "n_num (heap s y) \<le> n_num (heap s x)" by auto
  have "y \<noteq> e" using step(2) t by (auto simp: dom_tree_def)
  with y(1) t obtain p where "p \<in> V" "parent_of idom y = Some p" "n_num (heap s p) < n_num (heap s y)"
    unfolding dom_tree_def by blast
  with step(2) y(2) show ?case by simp
qed simp

lemma ancestor_parent:
  "parent_of idom x = Some p \<Longrightarrow> ancestor idom a x \<longleftrightarrow> a = x \<or> ancestor idom a p"
  unfolding ancestor_def
  by (auto elim: converse_rtranclpE intro: converse_rtranclp_into_rtranclp)

lemma dom_tree_root:
  assumes "dom_tree s idom V e" "z \<in> V"
  shows "n_num (heap s e) \<le> n_num (heap s z)"
proof -
  define m where "m = arg_min_on (\<lambda>n. n_num (heap s n)) V"
  have m: "m \<in> V" "\<And>v. v \<in> V \<Longrightarrow> n_num (heap s m) \<le> n_num (heap s v)"
    using assms arg_min_least [of V _ "\<lambda>n. n_num (heap s n)"] arg_min_if_finite(1) [of V "\<lambda>n. n_num (heap s n)"]
    unfolding m_def dom_tree_def by blast+
  then have "m = e" using assms(1) unfolding dom_tree_def by (metis leD)
  with m(2) [OF assms(2)] show ?thesis by simp
qed

lemma common_dom_nearest:
  assumes t: "dom_tree s idom V e" and "x \<in> V" "y \<in> V"
  shows "\<exists>c \<in> V. common_dom s idom (Some x) (Some y) = Some (Some c) \<and>
    (\<forall>a. ancestor idom a x \<and> ancestor idom a y \<longleftrightarrow> ancestor idom a c)"
  using assms(2,3)
proof (induction "card {v \<in> V. n_num (heap s v) < n_num (heap s x)} + card {v \<in> V. n_num (heap s v) < n_num (heap s y)}"
    arbitrary: x y rule: less_induct)
  case less
  let ?num = "\<lambda>n. n_num (heap s n)"
  have fin: "finite V" and inj: "inj_on ?num V" using t by (simp_all add: dom_tree_def)
  have up: "\<exists>p \<in> V. parent_of idom z = Some p \<and> card {v \<in> V. ?num v < ?num p} < card {v \<in> V. ?num v < ?num z}"
    if z: "z \<in> V" and w: "w \<in> V" "?num w < ?num z" for z w
  proof -
    have "z \<noteq> e" using dom_tree_root [OF t w(1)] w(2) by auto
    then obtain p where p: "p \<in> V" "parent_of idom z = Some p" "?num p < ?num z"
      using t z unfolding dom_tree_def by blast
    then have "{v \<in> V. ?num v < ?num p} \<subset> {v \<in> V. ?num v < ?num z}" by auto
    with p fin show ?thesis by (intro bexI [of _ p]) (simp_all add: psubset_card_mono)
  qed
  consider (same) "x = y" | (right) "x \<noteq> y" "?num x < ?num y" | (left) "x \<noteq> y" "?num y < ?num x"
    using inj less.prems by (metis inj_on_def linorder_neqE)
  then show ?case
  proof cases
    case same
    have "common_dom s idom (Some x) (Some y) = Some (Some x)"
      by (subst common_dom.simps) (simp add: same)
    with same less.prems show ?thesis by auto
  next
    case right
    obtain p where p: "p \<in> V" "parent_of idom y = Some p"
      "card {v \<in> V. ?num v < ?num p} < card {v \<in> V. ?num v < ?num y}"
      using up [OF less.prems(2,1) right(2)] by blast
    have "common_dom s idom (Some x) (Some y) = common_dom s idom (Some x) (Some p)"
      using right p(2) by (subst common_dom.simps) (simp add: parent_of_def)
    moreover have "\<not> ancestor idom y x" using ancestor_less [OF t less.prems(1), of y] right(2) by auto
    ultimately show ?thesis
      using less.hyps [of x p] p(1,3) less.prems(1) ancestor_parent [OF p(2)] by fastforce
  next
    case left
    obtain p where p: "p \<in> V" "parent_of idom x = Some p"
      "card {v \<in> V. ?num v < ?num p} < card {v \<in> V. ?num v < ?num x}"
      using up [OF less.prems left(2)] by blast
    have "common_dom s idom (Some x) (Some y) = common_dom s idom (Some p) (Some y)"
      using left p(2) by (subst common_dom.simps) (simp add: parent_of_def)
    moreover have "\<not> ancestor idom x y" using ancestor_less [OF t less.prems(2), of x] left(2) by auto
    ultimately show ?thesis
      using less.hyps [of p y] p(1,3) less.prems(2) ancestor_parent [OF p(2)] by fastforce
  qed
qed

section \<open>Short circuits\<close>

text \<open>
  What every step of a pass keeps: the graph is well formed, nothing in it is a key of the
  renaming, and addresses are below the allocator.
\<close>

definition merging_ok :: "'i merging \<Rightarrow> bool" where
  "merging_ok st \<longleftrightarrow>
     graph_ok (mg_graph st) \<and> entry_ok (mg_graph st) \<and>
     set (g_nodes (mg_graph st)) \<subseteq> {..<fresh (mg_store st)} \<and>
     dom (map_of (mg_map st)) \<subseteq> {..<fresh (mg_store st)} - set (g_nodes (mg_graph st))"

lemma fold_pair:
  "fold (\<lambda>p (a, b). (f p a, g p b)) ps (a, b) = (fold f ps a, fold g ps b)"
  by (induction ps arbitrary: a b) auto

lemma fold_add_edge_to_ok:
  assumes "graph_ok g" "n \<in> set (g_nodes g)" "\<forall>x \<in> set ss. f x \<in> set (g_nodes g)"
  shows "graph_ok (fold (\<lambda>x g. add_edge (f x) n g) ss g) \<and>
    g_nodes (fold (\<lambda>x g. add_edge (f x) n g) ss g) = g_nodes g \<and>
    g_entry (fold (\<lambda>x g. add_edge (f x) n g) ss g) = g_entry g"
  using assms by (induction ss arbitrary: g) (simp_all add: graph_ok_add_edge)

lemma preds_nodes:
  assumes "graph_ok g"
  shows "set (preds s g n) \<subseteq> set (g_nodes g)" "set (sucs g n) \<subseteq> set (g_nodes g)"
proof -
  have "set (preds s g n) \<subseteq> set (all_preds g n)" by (auto simp: preds_def all_preds_def)
  then show "set (preds s g n) \<subseteq> set (g_nodes g)"
    using graph_ok_preds [OF assms] graph_ok_nodes [OF assms] by blast
  show "set (sucs g n) \<subseteq> set (g_nodes g)"
    using graph_ok_nodes [OF assms, of _ n] by (auto simp: sucs_def all_sucs_def)
qed

lemma take_out_facts:
  assumes "graph_ok (mg_graph st)" "n1 \<in> set (g_nodes (mg_graph st))" "n2 \<in> set (g_nodes (mg_graph st))" "n1 \<noteq> n2"
    and "take_out n2 (take_out n1 ([], [], st)) = (lp, ld, st1)"
  shows "graph_ok (mg_graph st1)"
    "set (g_nodes (mg_graph st1)) = set (g_nodes (mg_graph st)) - {n1, n2}"
    "length (g_nodes (mg_graph st)) = Suc (Suc (length (g_nodes (mg_graph st1))))"
    "set lp \<subseteq> set (g_nodes (mg_graph st))" "set ld \<subseteq> set (g_nodes (mg_graph st))"
    "g_entry (mg_graph st1) = g_entry (mg_graph st)" "mg_store st1 = mg_store st"
    "mg_idom st1 = mg_idom st" "mg_map st1 = mg_map st" "set (mg_done st1) = set (mg_done st) \<union> {n1, n2}"
proof -
  let ?g = "mg_graph st" and ?g1 = "remove_node n1 (mg_graph st)"
  have ok1: "graph_ok ?g1" by (rule graph_ok_remove_node [OF assms(1)])
  have d: "distinct (g_nodes ?g)" using assms(1) by (simp add: graph_ok_def)
  have g1: "mg_graph st1 = remove_node n2 ?g1" and
    lp: "lp = fold List.insert (preds (mg_store st) ?g1 n2) (fold List.insert (preds (mg_store st) ?g n1) [])" and
    ld: "ld = fold List.insert (sucs ?g1 n2) (fold List.insert (sucs ?g n1) [])" and
    vis: "mg_done st1 = List.insert n2 (List.insert n1 (mg_done st))"
    using assms(5) by (auto simp: take_out_def Let_def)
  have ins: "set (fold List.insert xs ys) = set xs \<union> set ys" for xs ys :: "nat list"
    by (induction xs arbitrary: ys) auto
  show "graph_ok (mg_graph st1)" unfolding g1 by (rule graph_ok_remove_node [OF ok1])
  show n: "set (g_nodes (mg_graph st1)) = set (g_nodes ?g) - {n1, n2}" unfolding g1 using d by auto
  have len: "length (g_nodes ?g) = card (set (g_nodes ?g))"
    "length (g_nodes (mg_graph st1)) = card (set (g_nodes (mg_graph st1)))"
    using d distinct_card [of "g_nodes ?g"] distinct_card [of "remove1 n2 (remove1 n1 (g_nodes ?g))"]
    by (simp_all add: g1 del: set_remove1_eq)
  have two: "card {n1, n2} = 2" "{n1, n2} \<subseteq> set (g_nodes ?g)" using assms(2-4) by simp_all
  then have "2 \<le> card (set (g_nodes ?g))" using card_mono [of "set (g_nodes ?g)" "{n1, n2}"] by simp
  moreover have "card (set (g_nodes ?g) - {n1, n2}) = card (set (g_nodes ?g)) - 2"
    using two card_Diff_subset [of "{n1, n2}" "set (g_nodes ?g)"] by simp
  ultimately show "length (g_nodes ?g) = Suc (Suc (length (g_nodes (mg_graph st1))))"
    unfolding len n by simp
  have sub: "set (g_nodes ?g1) \<subseteq> set (g_nodes ?g)" using d by auto
  show "set lp \<subseteq> set (g_nodes ?g)" "set ld \<subseteq> set (g_nodes ?g)"
    unfolding lp ld ins
    using preds_nodes [OF assms(1)] order.trans [OF preds_nodes(1) [OF ok1] sub]
      order.trans [OF preds_nodes(2) [OF ok1] sub] by simp_all
  show "g_entry (mg_graph st1) = g_entry (mg_graph st)" unfolding g1 by simp
  show "mg_store st1 = mg_store st" "mg_idom st1 = mg_idom st" "mg_map st1 = mg_map st"
    using assms(5) by (auto simp: take_out_def Let_def)
  show "set (mg_done st1) = set (mg_done st) \<union> {n1, n2}" unfolding vis by auto
qed

text \<open>A merge: two nodes out, one fresh node in, no reference renamed in the graph itself.\<close>

lemma MergeShortCircuit_facts:
  fixes st :: "'i merging"
  assumes ok: "merging_ok st" and n: "n1 \<in> set (g_nodes (mg_graph st))" "n2 \<in> set (g_nodes (mg_graph st))" "n1 \<noteq> n2"
    and r: "MergeShortCircuit n1 n2 is_and is_not st = (new, st')"
  shows "merging_ok st'" "length (g_nodes (mg_graph st)) = Suc (length (g_nodes (mg_graph st')))"
    "set (g_nodes (mg_graph st')) = insert new (set (g_nodes (mg_graph st)) - {n1, n2})"
    "new = fresh (mg_store st)" "set (mg_done st') = set (mg_done st) \<union> {n1, n2}"
    "fresh (mg_store st') = Suc (fresh (mg_store st))"
proof -
  obtain lp ld st1 where t: "take_out n2 (take_out n1 ([], [], st)) = (lp, ld, st1)" by (metis prod_cases3)
  have V: "graph_ok (mg_graph st)" "entry_ok (mg_graph st)"
    "set (g_nodes (mg_graph st)) \<subseteq> {..<fresh (mg_store st)}"
    "dom (map_of (mg_map st)) \<subseteq> {..<fresh (mg_store st)} - set (g_nodes (mg_graph st))"
    using ok by (simp_all add: merging_ok_def)
  note T = take_out_facts [OF V(1) n t]
  note V = V [folded T(7,9)]
  let ?s = "mg_store st1" and ?g = "mg_graph st1"
  define x :: "'i node" where "x = new_ShortCircuitBlock (n_name (heap ?s n1) @ ''+'' @ n_name (heap ?s n2))
      (Condition (CondBlockOperand n1) (CondBlockOperand n2) is_and is_not)"
  define s1 where "s1 = snd (alloc x ?s)"
  define g1 where "g1 = add_node (fresh ?s) ?g"
  define m2 where "m2 = AList.update n2 (fresh ?s) (AList.update n1 (fresh ?s)
      (map (\<lambda>(old, n). (old, if n = n1 \<or> n = n2 then fresh ?s else n)) (mg_map st1)))"
  define s2 where "s2 = modify (fresh ?s) (CopyFrom (heap s1 n1)) s1"
  define num where "num = (\<lambda>n. (n_num (heap s2 n), n_name (heap s2 n)))"
  define lpv where "lpv = sort_key num (filter (\<lambda>x. x \<noteq> n1 \<and> x \<noteq> n2) lp)"
  define ldv where "ldv = sort_key num (filter (\<lambda>x. x \<noteq> n1 \<and> x \<noteq> n2) ld)"
  define s3 where "s3 = fold (UpdateAttributeWith m2) lpv s2"
  define g2 where "g2 = fold (\<lambda>p. add_edge (MapGet m2 p) (fresh ?s)) lpv g1"
  define g3 where "g3 = fold (\<lambda>d. add_edge (fresh ?s) (MapGet m2 d)) ldv g2"
  define g4 where "g4 = (if g_entry ?g = Some n1 \<or> g_entry ?g = Some n2
      then g3\<lparr>g_entry := Some (fresh ?s)\<rparr> else g3)"
  define idm where "idm = AList.delete n2 (AList.delete n1
      (AList.update (fresh ?s) (Option.bind (map_of (mg_idom st1) n1) id) (mg_idom st1)))"
  have "MergeShortCircuit n1 n2 is_and is_not st =
      (fresh ?s, st1\<lparr>mg_store := s3, mg_graph := g4, mg_idom := idm, mg_map := m2\<rparr>)"
    by (simp only: MergeShortCircuit_def t Let_def prod.case MakeNode_def alloc_def fold_pair snd_conv
        x_def [symmetric] s1_def g1_def m2_def s2_def num_def lpv_def ldv_def s3_def g2_def g3_def g4_def idm_def)
  then have res: "new = fresh ?s" "mg_store st' = s3" "mg_graph st' = g4" "mg_map st' = m2" "mg_done st' = mg_done st1"
    using r by auto
  have fr: "fresh s3 = Suc (fresh ?s)"
    using same_shapeD(1) [OF same_shape_fold_Update, of m2 lpv s2] by (simp add: s3_def s2_def s1_def alloc_def)
  have new: "fresh ?s \<notin> set (g_nodes ?g)" using V(3) T(2) by auto
  have g1: "graph_ok g1" "set (g_nodes g1) = insert (fresh ?s) (set (g_nodes (mg_graph st)) - {n1, n2})"
    "length (g_nodes g1) = Suc (length (g_nodes ?g))" "g_entry g1 = g_entry (mg_graph st)"
    using graph_ok_add_node [OF T(1) new] T(2,6) by (auto simp: g1_def add_node_def)
  have keys: "dom (map_of m2) = dom (map_of (mg_map st1)) \<union> {n1, n2}"
    by (auto simp: m2_def update_conv' dom_map_of_conv_image_fst image_image case_prod_beta)
  have id: "MapGet m2 y = y" if "y \<in> set (g_nodes (mg_graph st)) - {n1, n2}" for y
  proof -
    have "y \<notin> dom (map_of m2)" using keys that V(4) by auto
    then show ?thesis by (simp add: MapGet_def domIff)
  qed
  have lpv: "\<forall>y \<in> set lpv. MapGet m2 y \<in> set (g_nodes g1)" and ldv: "\<forall>y \<in> set ldv. MapGet m2 y \<in> set (g_nodes g1)"
    using T(4,5) id g1(2) by (auto simp: lpv_def ldv_def subset_iff)
  have in1: "fresh ?s \<in> set (g_nodes g1)" using g1(2) by simp
  have g2: "graph_ok g2 \<and> g_nodes g2 = g_nodes g1 \<and> g_entry g2 = g_entry g1"
    unfolding g2_def by (rule fold_add_edge_to_ok [OF g1(1) in1 lpv])
  have g3: "graph_ok g3 \<and> g_nodes g3 = g_nodes g1 \<and> g_entry g3 = g_entry g1"
    using fold_add_edge_ok [of g2 "fresh ?s" ldv "MapGet m2"] g2 in1 ldv unfolding g3_def by simp
  have g4: "graph_ok g4" "g_nodes g4 = g_nodes g1" using g3 by (auto simp: g4_def)
  have "entry_ok g4"
    using g3 g1(2,4) V(2) T(6) by (auto simp: entry_ok_def g4_def)
  moreover have "set (g_nodes g4) \<subseteq> {..<fresh s3}" using g4(2) g1(2) V(3) fr by auto
  moreover have "dom (map_of m2) \<subseteq> {..<fresh s3} - set (g_nodes g4)"
    using keys V(3,4) n fr g4(2) g1(2) by auto
  ultimately show "merging_ok st'" using g4(1) by (simp add: merging_ok_def res)
  show "length (g_nodes (mg_graph st)) = Suc (length (g_nodes (mg_graph st')))"
    using T(3) g1(3) g4(2) by (simp add: res(3))
  show "set (g_nodes (mg_graph st')) = insert new (set (g_nodes (mg_graph st)) - {n1, n2})"
    using g1(2) g4(2) by (simp add: res)
  show "new = fresh (mg_store st)" "fresh (mg_store st') = Suc (fresh (mg_store st))"
    using res fr T(7) by simp_all
  show "set (mg_done st') = set (mg_done st) \<union> {n1, n2}" using T(10) by (simp add: res)
qed

text \<open>The pairs a pass looks for.\<close>

definition collapsible :: "'i merging \<Rightarrow> nat \<Rightarrow> bool" where
  "collapsible st nd \<longleftrightarrow>
     (let b = heap (mg_store st) nd; t = n_true_branch b; f = n_false_branch b;
          T = heap (mg_store st) (the t); F = heap (mg_store st) (the f)
      in is_CondBlock (n_class b) \<and> n_type b = TypeCond \<and> t \<noteq> Some nd \<and> f \<noteq> Some nd \<and>
         (if only_pred t st
          then Some nd \<notin> {n_true_branch T, n_false_branch T} \<and> f \<in> {n_true_branch T, n_false_branch T}
          else only_pred f st \<and>
            Some nd \<notin> {n_true_branch F, n_false_branch F} \<and> t \<in> {n_true_branch F, n_false_branch F}))"

lemma short_circuit_node_cases:
  assumes "nd \<notin> set (mg_done st)"
  shows "\<not> collapsible st nd \<Longrightarrow>
      \<exists>ds. short_circuit_node nd (c, st) = (c, st\<lparr>mg_done := ds\<rparr>) \<and> set ds \<subseteq> insert nd (set (mg_done st))"
    and "collapsible st nd \<Longrightarrow> \<exists>n2 a b t f. n2 \<noteq> nd \<and> only_pred (Some n2) st \<and>
      short_circuit_node nd (c, st) =
        (True, (merged nd n2 a b t f st)\<lparr>mg_done := List.insert nd (mg_done (merged nd n2 a b t f st))\<rparr>)"
proof -
  have e: "only_pred x st \<Longrightarrow> x = Some (the x)" for x by (cases x) (simp_all add: only_pred_def)
  show "\<exists>ds. short_circuit_node nd (c, st) = (c, st\<lparr>mg_done := ds\<rparr>) \<and> set ds \<subseteq> insert nd (set (mg_done st))"
    if "\<not> collapsible st nd"
  proof -
    have "short_circuit_node nd (c, st) = (c, st) \<or>
        short_circuit_node nd (c, st) = (c, st\<lparr>mg_done := List.insert nd (mg_done st)\<rparr>)"
      using that assms unfolding collapsible_def short_circuit_node_def by (auto simp: Let_def)
    then show ?thesis
    proof
      assume "short_circuit_node nd (c, st) = (c, st)"
      then show ?thesis by (intro exI [of _ "mg_done st"]) auto
    qed auto
  qed
  show "\<exists>n2 a b t f. n2 \<noteq> nd \<and> only_pred (Some n2) st \<and>
      short_circuit_node nd (c, st) =
        (True, (merged nd n2 a b t f st)\<lparr>mg_done := List.insert nd (mg_done (merged nd n2 a b t f st))\<rparr>)"
    if "collapsible st nd"
  proof (cases "only_pred (n_true_branch (heap (mg_store st) nd)) st")
    case True
    then obtain n2 where n2: "n_true_branch (heap (mg_store st) nd) = Some n2" using e by metis
    with True that have p: "only_pred (Some n2) st" "n2 \<noteq> nd" by (auto simp: collapsible_def Let_def)
    let ?f = "n_false_branch (heap (mg_store st) nd)" and ?T = "heap (mg_store st) n2"
    have "short_circuit_node nd (c, st) = (True, let st' =
        (if n_false_branch ?T = ?f then merged nd n2 True False (n_true_branch ?T) ?f st
         else merged nd n2 False True ?f (n_false_branch ?T) st)
        in st'\<lparr>mg_done := List.insert nd (mg_done st')\<rparr>)"
      using that p assms n2 by (simp add: short_circuit_node_def collapsible_def Let_def) metis
    with p show ?thesis by (cases "n_false_branch ?T = ?f") (simp_all add: Let_def, blast+)
  next
    case False
    with that have p': "only_pred (n_false_branch (heap (mg_store st) nd)) st"
      by (simp add: collapsible_def Let_def)
    then obtain n2 where n2: "n_false_branch (heap (mg_store st) nd) = Some n2" using e by metis
    with p' that have p: "only_pred (Some n2) st" "n2 \<noteq> nd" by (auto simp: collapsible_def Let_def)
    let ?t = "n_true_branch (heap (mg_store st) nd)" and ?F = "heap (mg_store st) n2"
    have "short_circuit_node nd (c, st) = (True, let st' =
        (if n_false_branch ?F = ?t then merged nd n2 True True (n_true_branch ?F) ?t st
         else merged nd n2 False False ?t (n_false_branch ?F) st)
        in st'\<lparr>mg_done := List.insert nd (mg_done st')\<rparr>)"
      using that p assms n2 False by (simp add: short_circuit_node_def collapsible_def Let_def) metis
    with p show ?thesis by (cases "n_false_branch ?F = ?t") (simp_all add: Let_def, blast+)
  qed
qed

lemma merging_ok_cong:
  "mg_graph st' = mg_graph st \<Longrightarrow> mg_map st' = mg_map st \<Longrightarrow>
     fresh (mg_store st') = fresh (mg_store st) \<Longrightarrow> merging_ok st' = merging_ok st"
  by (simp add: merging_ok_def)

lemma only_pred_done [simp]: "only_pred n (st\<lparr>mg_done := ds\<rparr>) = only_pred n st"
  by (cases n) (simp_all add: only_pred_def)

lemma collapsible_done [simp]: "collapsible (st\<lparr>mg_done := ds\<rparr>) nd = collapsible st nd"
  by (simp add: collapsible_def Let_def)

lemma only_pred_node: "graph_ok (mg_graph st) \<Longrightarrow> only_pred (Some n) st \<Longrightarrow> n \<in> set (g_nodes (mg_graph st))"
proof -
  assume ok: "graph_ok (mg_graph st)" and "only_pred (Some n) st"
  then obtain p where "p \<in> set (preds (mg_store st) (mg_graph st) n)"
    by (auto simp: only_pred_def length_Suc_conv)
  then have "p \<in> set (all_preds (mg_graph st) n)" by (auto simp: preds_def all_preds_def)
  then show ?thesis using graph_ok_preds [OF ok] graph_ok_nodes [OF ok] by blast
qed

lemma short_circuit_node_step:
  assumes ok: "merging_ok st" and N: "nd \<in> N" "N \<subseteq> set (g_nodes (mg_graph st)) \<union> set (mg_done st)"
    and r: "short_circuit_node nd (c, st) = (c', st')"
  shows "merging_ok st'" "N \<subseteq> set (g_nodes (mg_graph st')) \<union> set (mg_done st')"
    "c \<Longrightarrow> c'" "length (g_nodes (mg_graph st')) \<le> length (g_nodes (mg_graph st))"
    "c' \<Longrightarrow> \<not> c \<Longrightarrow> length (g_nodes (mg_graph st')) < length (g_nodes (mg_graph st))"
    "\<not> c' \<Longrightarrow> \<exists>ds. st' = st\<lparr>mg_done := ds\<rparr> \<and> set ds \<subseteq> insert nd (set (mg_done st))"
    "\<not> c' \<Longrightarrow> nd \<notin> set (mg_done st) \<Longrightarrow> \<not> collapsible st nd"
proof -
  consider (skip) ds where "c' = c" "st' = st\<lparr>mg_done := ds\<rparr>" "set (mg_done st) \<subseteq> set ds"
      "set ds \<subseteq> insert nd (set (mg_done st))" "nd \<in> set (mg_done st) \<or> \<not> collapsible st nd"
    | (merge) n2 a b t f where "nd \<notin> set (mg_done st)" "n2 \<noteq> nd" "only_pred (Some n2) st" "c'"
      "st' = (merged nd n2 a b t f st)\<lparr>mg_done := List.insert nd (mg_done (merged nd n2 a b t f st))\<rparr>"
  proof (cases "nd \<in> set (mg_done st) \<or> \<not> collapsible st nd")
    case True
    have "st' = st \<and> c' = c \<or> st' = st\<lparr>mg_done := List.insert nd (mg_done st)\<rparr> \<and> c' = c"
    proof (cases "nd \<in> set (mg_done st)")
      case True
      then show ?thesis using r by (simp add: short_circuit_node_def Let_def)
    next
      case False
      with True r show ?thesis
        unfolding collapsible_def short_circuit_node_def by (auto simp: Let_def split: if_splits)
    qed
    then show ?thesis
    proof
      assume "st' = st \<and> c' = c"
      with True show ?thesis by (intro skip [of "mg_done st"]) auto
    next
      assume "st' = st\<lparr>mg_done := List.insert nd (mg_done st)\<rparr> \<and> c' = c"
      with True show ?thesis by (intro skip [of "List.insert nd (mg_done st)"]) auto
    qed
  next
    case False
    then have n: "nd \<notin> set (mg_done st)" and c: "collapsible st nd" by auto
    from short_circuit_node_cases(2) [OF n c, of c] r show ?thesis using n merge by auto
  qed
  then have "merging_ok st' \<and> N \<subseteq> set (g_nodes (mg_graph st')) \<union> set (mg_done st') \<and> (c \<longrightarrow> c') \<and>
    length (g_nodes (mg_graph st')) \<le> length (g_nodes (mg_graph st)) \<and>
    (c' \<longrightarrow> \<not> c \<longrightarrow> length (g_nodes (mg_graph st')) < length (g_nodes (mg_graph st))) \<and>
    (\<not> c' \<longrightarrow> (\<exists>ds. st' = st\<lparr>mg_done := ds\<rparr> \<and> set ds \<subseteq> insert nd (set (mg_done st)))) \<and>
    (\<not> c' \<longrightarrow> nd \<notin> set (mg_done st) \<longrightarrow> \<not> collapsible st nd)"
  proof cases
    case skip
    moreover have "merging_ok st'" using ok skip(2) merging_ok_cong [of st' st] by simp
    ultimately show ?thesis using N by auto
  next
    case merge
    have V: "nd \<in> set (g_nodes (mg_graph st))" "n2 \<in> set (g_nodes (mg_graph st))"
      using N merge(1) only_pred_node [of st n2] merge(3) ok by (auto simp: merging_ok_def)
    obtain new st1 where m: "MergeShortCircuit nd n2 a b st = (new, st1)" by fastforce
    note M = MergeShortCircuit_facts [OF ok V merge(2) [symmetric] m]
    have eq: "mg_graph st' = mg_graph st1" "mg_map st' = mg_map st1"
      "fresh (mg_store st') = fresh (mg_store st1)" "set (mg_done st') = insert nd (set (mg_done st1))"
      using merge(5) m by (simp_all add: merged_def)
    have "merging_ok st'" using M(1) merging_ok_cong [OF eq(1-3)] by simp
    moreover have "N \<subseteq> set (g_nodes (mg_graph st')) \<union> set (mg_done st')"
      using N(2) M(3,5) eq(1,4) by auto
    ultimately show ?thesis using merge(4) M(2) eq(1) by simp
  qed
  then show "merging_ok st'" "N \<subseteq> set (g_nodes (mg_graph st')) \<union> set (mg_done st')"
    "c \<Longrightarrow> c'" "length (g_nodes (mg_graph st')) \<le> length (g_nodes (mg_graph st))"
    "c' \<Longrightarrow> \<not> c \<Longrightarrow> length (g_nodes (mg_graph st')) < length (g_nodes (mg_graph st))"
    "\<not> c' \<Longrightarrow> \<exists>ds. st' = st\<lparr>mg_done := ds\<rparr> \<and> set ds \<subseteq> insert nd (set (mg_done st))"
    "\<not> c' \<Longrightarrow> nd \<notin> set (mg_done st) \<Longrightarrow> \<not> collapsible st nd"
    by blast+
qed

lemma short_circuit_fold:
  assumes "merging_ok st" and "set nds \<subseteq> N" "N \<subseteq> set (g_nodes (mg_graph st)) \<union> set (mg_done st)"
    and "fold short_circuit_node nds (c, st) = (c', st')"
  shows "merging_ok st' \<and> (c \<longrightarrow> c') \<and> length (g_nodes (mg_graph st')) \<le> length (g_nodes (mg_graph st)) \<and>
    (c' \<longrightarrow> \<not> c \<longrightarrow> length (g_nodes (mg_graph st')) < length (g_nodes (mg_graph st))) \<and>
    (\<not> c' \<longrightarrow> (\<exists>ds. st' = st\<lparr>mg_done := ds\<rparr>) \<and>
      (distinct nds \<longrightarrow> set nds \<inter> set (mg_done st) = {} \<longrightarrow> (\<forall>nd \<in> set nds. \<not> collapsible st nd)))"
  using assms
proof (induction nds arbitrary: c st)
  case Nil
  then show ?case by (auto intro: exI [of _ "mg_done st"])
next
  case (Cons nd nds)
  obtain c1 st1 where s: "short_circuit_node nd (c, st) = (c1, st1)" by fastforce
  have nd: "nd \<in> N" using Cons.prems(2) by simp
  note S = short_circuit_node_step [OF Cons.prems(1) nd Cons.prems(3) s]
  have "fold short_circuit_node nds (c1, st1) = (c', st')" using Cons.prems(4) s by simp
  note IH = Cons.IH [OF S(1) _ S(2) this]
  have sub: "set nds \<subseteq> N" using Cons.prems(2) by simp
  note IH = IH [OF sub]
  have "(\<exists>ds. st' = st\<lparr>mg_done := ds\<rparr>) \<and>
      (distinct (nd # nds) \<longrightarrow> set (nd # nds) \<inter> set (mg_done st) = {} \<longrightarrow> (\<forall>x \<in> set (nd # nds). \<not> collapsible st x))"
    if "\<not> c'"
  proof -
    have c1: "\<not> c1" using IH that by blast
    obtain ds where ds: "st1 = st\<lparr>mg_done := ds\<rparr>" "set ds \<subseteq> insert nd (set (mg_done st))" using S(6) [OF c1] by blast
    then have "\<exists>ds'. st' = st\<lparr>mg_done := ds'\<rparr>" using IH that by auto
    moreover have "\<forall>x \<in> set (nd # nds). \<not> collapsible st x"
      if "distinct (nd # nds)" "set (nd # nds) \<inter> set (mg_done st) = {}"
    proof -
      have "set nds \<inter> set (mg_done st1) = {}" "distinct nds" using that ds by auto
      then have "\<forall>x \<in> set nds. \<not> collapsible st x" using IH \<open>\<not> c'\<close> ds(1) by simp
      with S(7) [OF c1] that(2) show ?thesis by simp
    qed
    ultimately show ?thesis by blast
  qed
  with IH S(3-5) show ?case by (cases c1) auto
qed

section \<open>The cap is never reached\<close>

lemma compute_rpo_frame:
  assumes "compute_rpo s g = (s', g')"
  shows "g_nodes g' = g_nodes g" "g_entry g' = g_entry g" "graph_ok g' = graph_ok g" "fresh s' = fresh s"
    "all_sucs g' = all_sucs g"
proof -
  have "g' = g\<lparr>g_rpo := sort_key (\<lambda>n. n_num (heap s' n)) (g_nodes g)\<rparr>"
    by (rule compute_rpo_graph [OF assms])
  then show "g_nodes g' = g_nodes g" "g_entry g' = g_entry g" "graph_ok g' = graph_ok g" "all_sucs g' = all_sucs g"
    by (simp_all add: graph_ok_def all_sucs_def fun_eq_iff)
  have a: "fresh (assign_po ns c t) = fresh t" for ns c and t :: "'a store"
    by (induction ns c t rule: assign_po.induct) auto
  have b: "fresh (fold (\<lambda>n s. modify n (f n) s) ns t) = fresh t" for f ns and t :: "'a store"
    by (induction ns arbitrary: t) auto
  show "fresh s' = fresh s"
    using assms by (auto simp: compute_rpo_def post_order_def Let_def a b)
qed

lemma post_order_frame:
  assumes "post_order s g = (po, s')" "graph_ok g" "entry_ok g"
  shows "distinct po" "set po \<subseteq> set (g_nodes g)" "fresh s' = fresh s"
proof -
  have a: "fresh (assign_po ns c t) = fresh t" for ns c and t :: "'a store"
    by (induction ns c t rule: assign_po.induct) auto
  have po: "po = post_order_nodes g" "fresh s' = fresh s" using assms(1) by (auto simp: post_order_def Let_def a)
  have "distinct (post_order_nodes g) \<and> set (post_order_nodes g) \<subseteq> set (g_nodes g)"
  proof (cases "g_entry g")
    case None
    then show ?thesis by (simp add: post_order_nodes_def)
  next
    case (Some e)
    have "x \<in> set (g_nodes g)" if "reach g e x" for x
      using that by (rule reach_closed)
        (use Some assms(3) graph_ok_nodes [OF assms(2)] in \<open>auto simp: entry_ok_def step_def\<close>)
    with post_order_facts(1,4) [OF Some] show ?thesis by auto
  qed
  with po show "distinct po" "set po \<subseteq> set (g_nodes g)" "fresh s' = fresh s" by simp_all
qed

lemma short_circuit_pass_facts:
  assumes ok: "merging_ok st" and r: "short_circuit_pass st = (change, st')"
  shows "merging_ok st'" "length (g_nodes (mg_graph st')) \<le> length (g_nodes (mg_graph st))"
    "change \<Longrightarrow> length (g_nodes (mg_graph st')) < length (g_nodes (mg_graph st))"
    "\<not> change \<Longrightarrow> nd \<in> set (post_order_nodes (mg_graph st')) \<Longrightarrow> \<not> collapsible st' nd"
proof -
  obtain po s1 where p: "post_order (mg_store st) (mg_graph st) = (po, s1)" by fastforce
  have g: "graph_ok (mg_graph st)" "entry_ok (mg_graph st)" using ok by (simp_all add: merging_ok_def)
  note P = post_order_frame [OF p g]
  define st0 where "st0 = st\<lparr>mg_store := s1, mg_done := []\<rparr>"
  have ok0: "merging_ok st0" using ok P(3) merging_ok_cong [of st0 st] by (simp add: st0_def)
  obtain c st1 where f: "fold short_circuit_node po (False, st0) = (c, st1)" by fastforce
  have F: "merging_ok st1 \<and> length (g_nodes (mg_graph st1)) \<le> length (g_nodes (mg_graph st0)) \<and>
    (c \<longrightarrow> length (g_nodes (mg_graph st1)) < length (g_nodes (mg_graph st0))) \<and>
    (\<not> c \<longrightarrow> (\<exists>ds. st1 = st0\<lparr>mg_done := ds\<rparr>) \<and> (\<forall>nd \<in> set po. \<not> collapsible st0 nd))"
    using short_circuit_fold [OF ok0 subset_refl _ f] P(1,2) by (auto simp: st0_def)
  obtain s2 g2 where c2: "(if c then compute_rpo (mg_store st1) (mg_graph st1) else (mg_store st1, mg_graph st1)) = (s2, g2)"
    by fastforce
  have res: "change = c" "st' = st1\<lparr>mg_store := s2, mg_graph := g2\<rparr>"
    using r p f c2 by (auto simp: short_circuit_pass_def st0_def)
  have G: "g_nodes g2 = g_nodes (mg_graph st1)" "g_entry g2 = g_entry (mg_graph st1)"
    "graph_ok g2 = graph_ok (mg_graph st1)" "fresh s2 = fresh (mg_store st1)"
    using c2 compute_rpo_frame [of "mg_store st1" "mg_graph st1" s2 g2] by (auto split: if_splits)
  then show "merging_ok st'" using F by (simp add: merging_ok_def entry_ok_def res(2))
  show "length (g_nodes (mg_graph st')) \<le> length (g_nodes (mg_graph st))"
    "change \<Longrightarrow> length (g_nodes (mg_graph st')) < length (g_nodes (mg_graph st))"
    using F G(1) by (simp_all add: res st0_def)
  show "\<not> collapsible st' nd" if "\<not> change" "nd \<in> set (post_order_nodes (mg_graph st'))"
  proof -
    have c: "\<not> c" "s2 = mg_store st1" "g2 = mg_graph st1" using that(1) res(1) c2 by auto
    then obtain ds where "st1 = st0\<lparr>mg_done := ds\<rparr>" using F by blast
    then have eq: "st' = st0\<lparr>mg_done := ds\<rparr>" using res(2) c(2,3) by simp
    have "po = post_order_nodes (mg_graph st)" using p by (auto simp: post_order_def Let_def)
    then have "nd \<in> set po" using that(2) eq by (simp add: st0_def)
    then show ?thesis using F c(1) eq by simp
  qed
qed

lemma short_circuit_loop_facts:
  assumes "merging_ok st" "length (g_nodes (mg_graph st)) < k"
  shows "\<exists>st'. short_circuit_loop k st = (False, st') \<and> merging_ok st' \<and>
    length (g_nodes (mg_graph st')) \<le> length (g_nodes (mg_graph st)) \<and>
    (\<forall>nd \<in> set (post_order_nodes (mg_graph st')). \<not> collapsible st' nd)"
  using assms
proof (induction k st rule: short_circuit_loop.induct)
  case (2 k st)
  obtain change st1 where p: "short_circuit_pass st = (change, st1)" by fastforce
  note P = short_circuit_pass_facts [OF 2(2) p]
  show ?case
  proof (cases change)
    case True
    with 2(1) [OF p [symmetric] refl True P(1)] P(3) [OF True] 2(3) p show ?thesis by fastforce
  next
    case False
    with P p show ?thesis by auto
  qed
qed simp

lemma kMaxIters_enough: "length (g_nodes g) < kMaxIters g"
  by (simp add: kMaxIters_def)

section \<open>Properties\<close>

text \<open>
  C4. On a well-formed graph the short-circuit pass stops before its cap, with nothing left to merge:
  each merge takes two nodes out and puts one in.
\<close>

theorem short_circuit_never_bails:
  assumes "graph_ok g" and "entry_ok g" and "set (g_nodes g) \<subseteq> {..<fresh s}"
  shows "\<exists>st. ShortCircuitStruct s g idom [] = (False, st) \<and> graph_ok (mg_graph st) \<and>
    length (g_nodes (mg_graph st)) \<le> length (g_nodes g) \<and>
    (\<forall>nd \<in> set (post_order_nodes (mg_graph st)). \<not> collapsible st nd)"
  using short_circuit_loop_facts [of "\<lparr>mg_store = s, mg_graph = g, mg_idom = idom, mg_map = [], mg_done = []\<rparr>"
      "kMaxIters g"] assms kMaxIters_enough [of g]
  unfolding ShortCircuitStruct_def by (auto simp: merging_ok_def)

text \<open>
  C23. In a dominator tree \<open>CommonDom\<close> returns the nearest common ancestor of its arguments.
\<close>

theorem common_dom_correct:
  assumes "dom_tree s idom V e" and "x \<in> V" and "y \<in> V"
  shows "\<exists>c \<in> V. CommonDom s idom (Some x) (Some y) = Some (Some c) \<and>
    (\<forall>a. ancestor idom a x \<and> ancestor idom a y \<longleftrightarrow> ancestor idom a c)"
  unfolding CommonDom_def by (rule common_dom_nearest [OF assms])

text \<open>
  C24. The loop of a back edge: the head, and what reaches the latch backwards inside the interval with
  a number above the head's and at most the latch's.
\<close>

theorem mark_loop_members:
  assumes "GetHead s start = Some h" and "GetEnd s last_node = Some l"
    and "MarkLoop g start last_node iv s = (nodes, s')"
  shows "distinct nodes \<and> hd nodes = h \<and>
      set nodes = insert h {x. l \<noteq> h \<and> (back_step s g (n_num (heap s h)) (n_num (heap s l)) iv)\<^sup>*\<^sup>* l x} \<and>
      (n_class (heap s h) \<noteq> IntervalNode \<longrightarrow> n_startloop (heap s' h) \<and> n_latch (heap s' h) = Some l)"
  using MarkLoop_facts [OF assms] by blast+

end
