(* ===== verification/Example_Cfg.thy ===== *)
theory Example_Cfg
  imports Mutf8_Roundtrip Cfg_Numbering Interval_Termination Cfg_Structure_Laws
begin

text \<open>
  A small flow graph on which the theorems of the decompiler's graph passes are applied: the
  irreducible triangle, a test that branches to two blocks which jump to each other.
\<close>

definition example_graph :: "nat graph" where
  "example_graph =
     (add_edge 2 1 (add_edge 1 2 (add_edge 0 2 (add_edge 0 1
       (add_node 2 (add_node 1 (add_node 0 empty_graph)))))))\<lparr>g_entry := Some 0\<rparr>"

definition example_store :: "nat store" where
  "example_store =
     \<lparr>heap = (\<lambda>n.
        (if n = 0 then (new_CondBlock ''a'' [10, 11])\<lparr>n_true_branch := Some 1, n_false_branch := Some 2\<rparr>
         else if n = 1 then new_StatementBlock ''b'' [] else new_StatementBlock ''c'' [12])\<lparr>n_num := int n\<rparr>),
      fresh = 3\<rparr>"

lemma example_graph_nodes: "g_nodes example_graph = [0, 1, 2]"
  by (simp add: example_graph_def add_edge_def add_node_def empty_graph_def)

lemma example_graph_entry: "g_entry example_graph = Some 0"
  by (simp add: example_graph_def)

lemma example_graph_edges:
  "all_sucs example_graph n = (if n = 0 then [1, 2] else if n = 1 then [2] else if n = 2 then [1] else [])"
  "all_preds example_graph n = (if n = 1 then [0, 2] else if n = 2 then [0, 1] else [])"
  by (simp_all add: example_graph_def all_sucs_def all_preds_def add_edge_def add_node_def empty_graph_def)

lemma example_graph_ok: "graph_ok example_graph"
  unfolding example_graph_def graph_ok_entry
  by (intro graph_ok_add_edge graph_ok_add_node graph_ok_empty) (simp_all add: add_edge_def add_node_def empty_graph_def)

lemma example_entry_ok: "entry_ok example_graph"
  by (simp add: entry_ok_def example_graph_entry example_graph_nodes)

lemma example_blocks:
  "n_class (heap example_store n) = (if n = 0 then CondBlock else StatementBlock)"
  "n_type (heap example_store n) = (if n = 0 then TypeCond else TypeStmt)"
  "n_ins (heap example_store n) = (if n = 0 then [10, 11] else if n = 1 then [] else [12])"
  "n_num (heap example_store n) = int n" "n_content (heap example_store n) = []" "fresh example_store = 3"
  by (simp_all add: example_store_def new_CondBlock_def new_StatementBlock_def new_block_def)

lemma example_reach: "x \<in> {0, 1, 2} \<Longrightarrow> reach example_graph 0 x"
  by (auto simp: step_def example_graph_edges)

lemma example_reachable: "set (g_nodes example_graph) = {x. reach example_graph 0 x}"
proof -
  have "x \<in> {0, 1, 2}" if "reach example_graph 0 x" for x
    using that by (rule reach_closed) (auto simp: step_def example_graph_edges split: if_splits)
  then show ?thesis using example_reach by (auto simp: example_graph_nodes)
qed

lemma example_closed: "closed_store example_store"
  by (simp add: closed_store_def example_blocks)

section \<open>Witnesses\<close>

theorem short_circuit_never_bails_witness:
  "\<exists>st. ShortCircuitStruct example_store example_graph [] [] = (False, st) \<and>
    (\<forall>nd \<in> set (post_order_nodes (mg_graph st)). \<not> collapsible st nd)"
proof -
  have "set (g_nodes example_graph) \<subseteq> {..<fresh example_store}"
    by (auto simp: example_graph_nodes example_blocks)
  from short_circuit_never_bails [OF example_graph_ok example_entry_ok this, of "[]"] show ?thesis by blast
qed

theorem derived_sequence_returns_witness:
  "\<exists>s gs rs. DerivedSequenceOf (fst (compute_rpo example_store example_graph)) (snd (compute_rpo example_store example_graph))
      = Some (s, gs, rs) \<and> length (g_nodes (fst (last rs))) = 1"
proof -
  have r: "compute_rpo example_store example_graph =
      (fst (compute_rpo example_store example_graph), snd (compute_rpo example_store example_graph))" by simp
  have "set (g_nodes example_graph) \<subseteq> {..<fresh example_store}"
    by (auto simp: example_graph_nodes example_blocks)
  moreover have "\<forall>n \<in> set (g_nodes example_graph). n_class (heap example_store n) \<noteq> IntervalNode"
    by (simp add: example_graph_nodes example_blocks)
  ultimately show ?thesis
    using derived_sequence_returns [OF example_graph_ok example_graph_entry example_reachable _ example_closed _ r] by blast
qed

theorem simplify_returns_witness:
  "\<exists>s' g'. Simplify example_store example_graph = Some (s', g') \<and> graph_ok g' \<and>
    (\<forall>nd \<in> set (g_nodes g'). \<not> reducible s' g' nd)"
  using simplify_returns [OF example_graph_ok example_entry_ok, of example_store] by blast

theorem graph_updates_witness:
  "graph_ok (remove_node 1 example_graph) \<and> all_sucs (remove_node 1 example_graph) 0 = [2] \<and>
   all_preds (remove_node 1 example_graph) 2 = [0]"
  using graph_updates [OF example_graph_ok, of 1 2 3 _ 0] graph_updates [OF example_graph_ok, of 1 2 3 _ 2]
  by (simp add: example_graph_nodes example_graph_edges)

theorem traversal_order_witness:
  "set (fst (post_order example_store example_graph)) = {x. reach example_graph 0 x} \<and>
   (\<exists>p. step example_graph p 2 \<and>
     n_num (heap (fst (compute_rpo example_store example_graph)) p) <
     n_num (heap (fst (compute_rpo example_store example_graph)) 2))"
proof -
  have r: "compute_rpo example_store example_graph =
      (fst (compute_rpo example_store example_graph), snd (compute_rpo example_store example_graph))" by simp
  note T = traversal_order [OF example_graph_entry r]
  have "reach example_graph 0 2" by (rule example_reach) simp
  with T show ?thesis by simp
qed

theorem common_dom_correct_witness:
  "\<exists>c. CommonDom example_store [(0, None), (1, Some 0), (2, Some 0)] (Some 1) (Some 2) = Some (Some c) \<and>
     c \<in> {0, 1, 2}"
proof -
  have "dom_tree example_store [(0, None), (1, Some 0), (2, Some 0)] {0, 1, 2} 0"
    by (auto simp: dom_tree_def parent_of_def inj_on_def example_blocks)
  from common_dom_correct [OF this, of 1 2] show ?thesis by auto
qed

theorem mark_loop_members_witness:
  "n_latch (heap (snd (MarkLoop example_graph 1 2 None example_store)) 1) = Some 2"
proof -
  have r: "MarkLoop example_graph 1 2 None example_store =
      (fst (MarkLoop example_graph 1 2 None example_store), snd (MarkLoop example_graph 1 2 None example_store))"
    by simp
  have h: "GetHead example_store 1 = Some 1" "GetEnd example_store 2 = Some 2"
    by (simp_all add: block_head_end example_blocks)
  show ?thesis using mark_loop_members [OF h r] by (simp add: example_blocks)
qed

theorem instruction_locations_witness:
  "get_ins_from_loc 1 (snd (number_ins example_store (example_graph\<lparr>g_rpo := [0, 1, 2]\<rparr>))) = Some 11 \<and>
   get_node_from_loc 2 (snd (number_ins example_store (example_graph\<lparr>g_rpo := [0, 1, 2]\<rparr>))) = Some 2 \<and>
   get_ins_from_loc 3 (snd (number_ins example_store (example_graph\<lparr>g_rpo := [0, 1, 2]\<rparr>))) = None"
proof -
  let ?g = "example_graph\<lparr>g_rpo := [0, 1, 2]\<rparr>"
  have r: "number_ins example_store ?g = (fst (number_ins example_store ?g), snd (number_ins example_store ?g))"
    by simp
  have b: "\<forall>n \<in> set (g_rpo ?g). is_BasicBlock (n_class (heap example_store n))" "distinct (g_rpo ?g)"
    by (simp_all add: example_blocks is_BasicBlock_def)
  note T = instruction_locations [OF b r]
  show ?thesis
    using T [THEN conjunct1, rule_format, of 0 1] T [THEN conjunct1, rule_format, of 2 0]
      T [THEN conjunct2, rule_format, of 3]
    by (simp add: example_blocks ins_count_def location_def)
qed

theorem split_if_tests_witness:
  "length (n_ins (heap example_store 0)) = 2 \<and>
   graph_ok (snd (SplitIfNodes example_store example_graph)) \<and> entry_ok (snd (SplitIfNodes example_store example_graph))"
proof -
  have r: "SplitIfNodes example_store example_graph =
      (fst (SplitIfNodes example_store example_graph), snd (SplitIfNodes example_store example_graph))" by simp
  have "set (g_nodes example_graph) \<subseteq> {..<fresh example_store}"
    by (auto simp: example_graph_nodes example_blocks)
  from split_if_tests [OF example_graph_ok example_entry_ok this r] show ?thesis
    by (simp add: example_blocks)
qed

theorem query_roundtrip_witness:
  "utf8_ok [0x4C, 0xF0, 0x90, 0x80, 0x80] \<and>
   Mutf8ToUtf8 (Utf8ToMutf8 [0x4C, 0xF0, 0x90, 0x80, 0x80]) = [0x4C, 0xF0, 0x90, 0x80, 0x80]"
proof -
  have ok: "utf8_ok [0x4C, 0xF0, 0x90, 0x80, 0x80]" by code_simp
  show ?thesis using query_roundtrip [OF ok] ok by blast
qed

end
