(* ===== verification/Dad_Util.thy ===== *)
theory Dad_Util
  imports Mutf8_Roundtrip Descriptors_Refine "HOL-Library.AList"
begin

text \<open>
  The vocabulary of the decompiler's output (\<open>src/native/dad_cpp/util.cpp\<close>): access-flag
  keywords, type names, the parser of method prototypes, and the spelling of class literals and
  method handles. Strings are byte lists, as the pool's modified UTF-8 reaches these functions.
\<close>

section \<open>Text\<close>

type_synonym bytes = "8 word list"

definition lit :: "string \<Rightarrow> bytes" where
  "lit s = map of_char s"

lemma lit_simps [simp]: "lit [] = []" "lit (c # s) = of_char c # lit s" "lit (s @ t) = lit s @ lit t"
  by (simp_all add: lit_def)

text \<open>\<open>std::to_string\<close>.\<close>

fun to_string :: "nat \<Rightarrow> bytes" where
  "to_string n = (if n < 10 then [byte (0x30 + n)] else to_string (n div 10) @ [byte (0x30 + n mod 10)])"

declare to_string.simps [simp del]

definition slash_to_dot :: "bytes \<Rightarrow> bytes" where
  "slash_to_dot s = map (\<lambda>c. if c = 0x2F then 0x2E else c) s"

section \<open>Tables\<close>

definition TypeDescriptorTable :: "(8 word \<times> bytes) list" where
  "TypeDescriptorTable =
     [(0x56, lit ''void''), (0x5A, lit ''boolean''), (0x42, lit ''byte''), (0x53, lit ''short''),
      (0x43, lit ''char''), (0x49, lit ''int''), (0x4A, lit ''long''), (0x46, lit ''float''),
      (0x44, lit ''double'')]"

definition AccessFlagsClassesTable :: "(32 word \<times> bytes) list" where
  "AccessFlagsClassesTable =
     [(0x1, lit ''public''), (0x2, lit ''private''), (0x4, lit ''protected''), (0x8, lit ''static''),
      (0x10, lit ''final''), (0x200, lit ''interface''), (0x400, lit ''abstract''),
      (0x1000, lit ''synthetic''), (0x2000, lit ''annotation''), (0x4000, lit ''enum'')]"

definition AccessFlagsFieldsTable :: "(32 word \<times> bytes) list" where
  "AccessFlagsFieldsTable =
     [(0x1, lit ''public''), (0x2, lit ''private''), (0x4, lit ''protected''), (0x8, lit ''static''),
      (0x10, lit ''final''), (0x40, lit ''volatile''), (0x80, lit ''transient''),
      (0x1000, lit ''synthetic''), (0x4000, lit ''enum'')]"

definition AccessFlagsMethodsTable :: "(32 word \<times> bytes) list" where
  "AccessFlagsMethodsTable =
     [(0x1, lit ''public''), (0x2, lit ''private''), (0x4, lit ''protected''), (0x8, lit ''static''),
      (0x10, lit ''final''), (0x20, lit ''synchronized''), (0x40, lit ''bridge''),
      (0x80, lit ''varargs''), (0x100, lit ''native''), (0x400, lit ''abstract''),
      (0x800, lit ''strictfp''), (0x1000, lit ''synthetic''), (0x10000, lit ''constructor''),
      (0x20000, lit ''declared_synchronized'')]"

definition kAccessOrder :: "32 word list" where
  "kAccessOrder =
     [0x1, 0x4, 0x2, 0x400, 0x8, 0x10, 0x80, 0x40, 0x20, 0x100, 0x800, 0x200, 0x1000, 0x2000,
      0x4000, 0x10000, 0x20000]"

definition TypeLenTable :: "(8 word \<times> nat) list" where
  "TypeLenTable = [(0x4A, 2), (0x44, 2)]"

definition access_word :: "(32 word \<times> bytes) list \<Rightarrow> 32 word \<Rightarrow> bytes" where
  "access_word table flag =
     (case map_of table flag of Some w \<Rightarrow> w | None \<Rightarrow> lit ''unkn_'' @ to_string (unat flag))"

definition GetAccessImpl :: "32 word \<Rightarrow> (32 word \<times> bytes) list \<Rightarrow> bytes list" where
  "GetAccessImpl access table =
     map (access_word table) (filter (\<lambda>flag. flag AND access \<noteq> 0) kAccessOrder)"

definition LookupTypeDescriptor :: "8 word \<Rightarrow> bytes" where
  "LookupTypeDescriptor primitive =
     (case map_of TypeDescriptorTable primitive of Some w \<Rightarrow> w | None \<Rightarrow> [])"

definition LookupTypeLen :: "8 word \<Rightarrow> nat" where
  "LookupTypeLen primitive = (case map_of TypeLenTable primitive of Some n \<Rightarrow> n | None \<Rightarrow> 1)"

definition GetAccessClass :: "32 word \<Rightarrow> bytes list" where
  "GetAccessClass access = GetAccessImpl access AccessFlagsClassesTable"

definition GetAccessMethod :: "32 word \<Rightarrow> bytes list" where
  "GetAccessMethod access = GetAccessImpl access AccessFlagsMethodsTable"

definition GetAccessField :: "32 word \<Rightarrow> bytes list" where
  "GetAccessField access = GetAccessImpl access AccessFlagsFieldsTable"

definition GetTypeSize :: "bytes \<Rightarrow> nat" where
  "GetTypeSize param = (case param of [] \<Rightarrow> 1 | c # _ \<Rightarrow> LookupTypeLen c)"

section \<open>Type names\<close>

text \<open>\<open>UINT32_MAX\<close> as the size asks for \<open>T[]\<close>.\<close>

definition dims :: "32 word \<Rightarrow> bytes" where
  "dims n = (if n = - 1 then lit ''[]'' else lit ''['' @ to_string (unat n) @ lit '']'')"

definition strip_java_lang :: "bytes \<Rightarrow> bytes" where
  "strip_java_lang body =
     (if take 10 body = lit ''java/lang/'' then drop 10 body else body)"

fun GetType :: "bytes \<Rightarrow> 32 word \<Rightarrow> bytes" where
  "GetType [] n = []"
| "GetType (head # rest) n =
     (if rest = [] \<and> LookupTypeDescriptor head \<noteq> [] then LookupTypeDescriptor head
      else if head = 0x4C then
        (if rest = [] \<or> last rest \<noteq> 0x3B then head # rest
         else slash_to_dot (strip_java_lang (butlast rest)))
      else if head = 0x5B then GetType rest (- 1) @ dims n
      else head # rest)"

definition kStripSet :: "bytes" where
  "kStripSet = lit ''java/lng''"

fun GetTypeDADFaithful :: "bytes \<Rightarrow> 32 word \<Rightarrow> bytes" where
  "GetTypeDADFaithful [] n = []"
| "GetTypeDADFaithful (head # rest) n =
     (if rest = [] \<and> LookupTypeDescriptor head \<noteq> [] then LookupTypeDescriptor head
      else if head = 0x4C then
        (if rest = [] \<or> last rest \<noteq> 0x3B then head # rest
         else if take 9 rest = lit ''java/lang''
         then slash_to_dot (dropWhile (\<lambda>c. c \<in> set kStripSet) (butlast rest))
         else slash_to_dot (butlast rest))
      else if head = 0x5B then GetTypeDADFaithful rest (- 1) @ dims n
      else head # rest)"

section \<open>Prototypes\<close>

definition GetParamsType :: "bytes \<Rightarrow> bytes list" where
  "GetParamsType descriptor =
     (if 0x29 \<in> set descriptor
      then let params = tl (takeWhile (\<lambda>c. c \<noteq> 0x29) descriptor)
           in if params = [] then [] else [params]
      else [])"

lemma dropWhile_Cons_length: "dropWhile P s = c # r \<Longrightarrow> length r < length s"
  by (metis length_Cons length_dropWhile_le less_eq_Suc_le)

function params_from :: "bytes \<Rightarrow> bytes list" where
  "params_from s =
     (case dropWhile (\<lambda>c. c = 0x5B) s of
        [] \<Rightarrow> []
      | c # r \<Rightarrow>
        if c = 0x4C then
          (if 0x3B \<in> set r
           then (takeWhile (\<lambda>c. c = 0x5B) s @ c # takeWhile (\<lambda>c. c \<noteq> 0x3B) r @ [0x3B])
                  # params_from (tl (dropWhile (\<lambda>c. c \<noteq> 0x3B) r))
           else [])
        else (takeWhile (\<lambda>c. c = 0x5B) s @ [c]) # params_from r)"
  by pat_completeness auto
termination
proof (relation "measure length", goal_cases)
  case (2 s c r)
  have "length (tl (dropWhile (\<lambda>c. c \<noteq> 0x3B) r)) \<le> length r"
    using length_dropWhile_le [of _ r] by (simp add: le_diff_conv le_SucI)
  with dropWhile_Cons_length [OF 2(1)] show ?case by simp
qed (auto dest: dropWhile_Cons_length)

declare params_from.simps [simp del]

definition ParseParamsType :: "bytes \<Rightarrow> bytes list" where
  "ParseParamsType proto =
     (if 0x29 \<in> set proto
      then let rparen = length (takeWhile (\<lambda>c. c \<noteq> 0x29) proto)
           in if rparen \<le> 1 then [] else params_from (take (rparen - 1) (drop 1 proto))
      else [])"

section \<open>Class literals and method handles\<close>

definition PrimitiveClassLiteral :: "8 word \<Rightarrow> bytes option" where
  "PrimitiveClassLiteral desc =
     map_of [(0x5A, lit ''Boolean.TYPE''), (0x42, lit ''Byte.TYPE''), (0x53, lit ''Short.TYPE''),
             (0x43, lit ''Character.TYPE''), (0x49, lit ''Integer.TYPE''), (0x4A, lit ''Long.TYPE''),
             (0x46, lit ''Float.TYPE''), (0x44, lit ''Double.TYPE''), (0x56, lit ''Void.TYPE'')] desc"

definition ClassLiteralText :: "bytes \<Rightarrow> bytes" where
  "ClassLiteralText descriptor =
     (case descriptor of
        [c] \<Rightarrow> (case PrimitiveClassLiteral c of
                  Some prim \<Rightarrow> prim | None \<Rightarrow> GetType descriptor (- 1) @ lit ''.class'')
      | _ \<Rightarrow> GetType descriptor (- 1) @ lit ''.class'')"

text \<open>\<open>proto.rfind(')')\<close>: the return type, \<open>V\<close> where there is no parenthesis.\<close>

definition return_type :: "bytes \<Rightarrow> bytes" where
  "return_type proto =
     (if 0x29 \<in> set proto then rev (takeWhile (\<lambda>c. c \<noteq> 0x29) (rev proto)) else lit ''V'')"

definition MethodTypeText :: "bytes \<Rightarrow> bytes" where
  "MethodTypeText proto =
     GetType (lit ''Ljava/lang/invoke/MethodType;'') (- 1) @ lit ''.methodType(''
     @ ClassLiteralText (return_type proto)
     @ concat (map (\<lambda>pd. lit '', '' @ ClassLiteralText pd) (ParseParamsType proto))
     @ lit '')''"

definition MethodHandleText :: "bytes \<Rightarrow> bytes \<Rightarrow> 32 word \<Rightarrow> bytes" where
  "MethodHandleText class_descriptor memb handle_type =
     GetType class_descriptor (- 1) @ (if handle_type \<le> 0x03 then lit ''.'' else lit ''::'')
     @ (if handle_type = 0x06 then lit ''new'' else memb)"

definition MethodRefText :: "bytes \<Rightarrow> bytes \<Rightarrow> bytes" where
  "MethodRefText class_descriptor memb =
     GetType class_descriptor (- 1) @ lit ''::''
     @ (if memb = lit ''<init>'' then lit ''new'' else memb)"

end
