(* ===== verification/Dad_Util_Laws.thy ===== *)
theory Dad_Util_Laws
  imports Dad_Util
begin

text \<open>
  Facts about the text vocabulary of \<open>Dad_Util\<close>: the prototype parser recovers exactly the
  descriptors a prototype was put together from, for every descriptor the verifier accepts; the
  keyword lists determine the access flags; the two type-name functions differ exactly where
  \<open>util.h\<close> says they do.
\<close>

section \<open>Parsing a prototype\<close>

text \<open>A type descriptor as the parser delimits it: any brackets, then one character that is not
  \<open>L\<close>, or \<open>L\<close> up to the next semicolon.\<close>

definition base_desc :: "bytes \<Rightarrow> bool" where
  "base_desc d \<longleftrightarrow>
     (\<exists>c. d = [c] \<and> c \<notin> {0x4C, 0x5B, 0x29})
     \<or> (\<exists>name. d = 0x4C # name @ [0x3B] \<and> 0x3B \<notin> set name \<and> 0x29 \<notin> set name)"

definition field_desc :: "bytes \<Rightarrow> bool" where
  "field_desc d \<longleftrightarrow> (\<exists>n b. d = replicate n 0x5B @ b \<and> base_desc b)"

lemma brackets_then [simp]:
  assumes "c \<noteq> x"
  shows "takeWhile (\<lambda>y. y = x) (replicate n x @ c # r) = replicate n x"
    and "dropWhile (\<lambda>y. y = x) (replicate n x @ c # r) = c # r"
  using assms by (induction n) auto

lemma upto_first [simp]:
  assumes "x \<notin> set s"
  shows "takeWhile (\<lambda>y. y \<noteq> x) (s @ x # r) = s" and "dropWhile (\<lambda>y. y \<noteq> x) (s @ x # r) = x # r"
  using assms by (induction s) auto

lemma params_from_desc:
  assumes "field_desc d"
  shows "params_from (d @ r) = d # params_from r"
proof -
  obtain n b where d: "d = replicate n 0x5B @ b" and b: "base_desc b"
    using assms by (auto simp: field_desc_def)
  from b consider c where "b = [c]" "c \<noteq> 0x4C" "c \<noteq> 0x5B"
    | name where "b = 0x4C # name @ [0x3B]" "0x3B \<notin> set name"
    by (auto simp: base_desc_def)
  then show ?thesis
  proof cases
    case 1
    then show ?thesis by (subst params_from.simps) (simp add: d)
  next
    case 2
    then show ?thesis by (subst params_from.simps) (simp add: d)
  qed
qed

lemma params_from_concat: "list_all field_desc ds \<Longrightarrow> params_from (concat ds) = ds"
proof (induction ds)
  case Nil
  show ?case by (subst params_from.simps) simp
qed (simp add: params_from_desc)

lemma field_desc_no_paren: "field_desc d \<Longrightarrow> 0x29 \<notin> set d"
  by (auto simp: field_desc_def base_desc_def)

lemma field_desc_nonempty: "field_desc d \<Longrightarrow> d \<noteq> []"
  by (auto simp: field_desc_def base_desc_def)

lemma ParseParamsType_proto:
  assumes "list_all field_desc ds"
  shows "ParseParamsType (0x28 # concat ds @ 0x29 # ret) = ds"
proof -
  have "0x29 \<notin> set (concat ds)" using assms by (auto simp: list_all_iff dest: field_desc_no_paren)
  moreover have "ds = []" if "concat ds = []"
    using that assms by (cases ds) (auto dest: field_desc_nonempty)
  ultimately show ?thesis
    using params_from_concat [OF assms] by (auto simp: ParseParamsType_def Let_def)
qed

lemma return_type_proto:
  assumes "0x29 \<notin> set ret"
  shows "return_type (0x28 # ps @ 0x29 # ret) = ret"
proof -
  have "rev (0x28 # ps @ 0x29 # ret) = rev ret @ 0x29 # (rev ps @ [0x28])" by simp
  with assms show ?thesis by (simp add: return_type_def del: rev.simps)
qed

section \<open>Descriptors the verifier accepts\<close>

lemma class_name_shape:
  "class_name_spec first us \<Longrightarrow>
     \<exists>name. us = name @ [0x3b] \<and> 0x3b \<notin> set name \<and> 0x29 \<notin> set name"
proof (induction first us rule: class_name_spec.induct)
  case (1 first us)
  from "1.prems" obtain u r where us: "us = u # r"
    by (cases us) (simp_all add: class_name_spec.simps)
  show ?case
  proof (cases "u = 0x3b")
    case True
    with "1.prems" us show ?thesis by (simp add: class_name_spec.simps)
  next
    case semi: False
    show ?thesis
    proof (cases "u = 0x2f")
      case True
      with "1.prems" us have "class_name_spec True r" "\<not> first"
        by (simp_all add: class_name_spec.simps [of first])
      with "1.IH"(1) [OF us] True obtain name
        where "r = name @ [0x3b]" "0x3b \<notin> set name" "0x29 \<notin> set name" by auto
      with us True show ?thesis by (intro exI [of _ "u # name"]) simp
    next
      case False
      with "1.prems" us semi obtain k where k: "u \<noteq> 0x2e" "part_len us = Some k"
          "class_name_spec False (drop k us)"
        by (subst (asm) class_name_spec.simps) (auto split: if_splits option.splits)
      with "1.IH"(2) [OF us] us semi False obtain name
        where name: "drop k us = name @ [0x3b]" "0x3b \<notin> set name" "0x29 \<notin> set name" by auto
      have "0x3b \<notin> set (take k us)" "0x29 \<notin> set (take k us)"
        using k(2) us by (auto simp: part_len_def ascii_name_char_def low_surrogate_def
            split: if_splits list.splits)
      with name show ?thesis
        by (intro exI [of _ "take k us @ name"]) (simp flip: append_assoc, metis append_assoc append_take_drop_id)
    qed
  qed
qed

lemma unit_enc_low:
  assumes "b \<in> set (unit_enc u)" "b < 0x80"
  shows "u = ucast b"
  using assms by (cases u rule: unit_enc_cases) (auto simp: is_cont_unat word_less_nat_alt word_le_nat_alt)

lemma concat_replicates: "concat (replicate n [x]) = replicate n x"
  by (induction n) simp_all

lemma unit_enc_ascii: "c \<noteq> 0 \<Longrightarrow> c < 0x80 \<Longrightarrow> unit_enc (ucast c) = [c]"
  using ucast_8_16_eq [of c 0] by (simp add: unit_enc_def utf8_enc_def word_less_nat_alt byte_unat)

text \<open>Every descriptor the verifier accepts is one the parser delimits.\<close>

lemma descriptor_field_desc:
  assumes "mutf8_ok s" "descriptor_spec (mutf8_units s)"
  shows "field_desc s"
proof -
  let ?us = "mutf8_units s" and ?P = "\<lambda>u. u = (0x5b :: 16 word)"
  have "takeWhile ?P ?us = replicate (length (takeWhile ?P ?us)) 0x5b"
    by (rule replicate_eqI) (auto dest: set_takeWhileD)
  then obtain n where brs: "takeWhile ?P ?us = replicate n 0x5b" by blast
  obtain u r where base: "dropWhile ?P ?us = u # r"
    using assms(2) by (auto simp: descriptor_spec_def Let_def split: list.splits)
  have "s = concat (map unit_enc (takeWhile ?P ?us @ dropWhile ?P ?us))"
    by (simp add: mutf8_ok_enc [OF assms(1)])
  also have "\<dots> = replicate n 0x5b @ unit_enc u @ concat (map unit_enc r)"
    unfolding map_append concat_append brs base
    using unit_enc_ascii [of "0x5b"] by (simp add: concat_replicates)
  finally have s: "s = replicate n 0x5b @ unit_enc u @ concat (map unit_enc r)" .
  have "base_desc (unit_enc u @ concat (map unit_enc r))"
  proof (cases "u = 0x4c")
    case True
    with assms(2) base have "class_name_spec True r"
      by (simp add: descriptor_spec_def Let_def primitive_chars_def)
    then obtain name where name: "r = name @ [0x3b]" "0x3b \<notin> set name" "0x29 \<notin> set name"
      using class_name_shape by blast
    have "b \<notin> set (concat (map unit_enc name))" if "b < 0x80" "ucast b \<notin> set name" for b
      using unit_enc_low [OF _ that(1)] that(2) by auto
    from this [of "0x3b"] this [of "0x29"] name True show ?thesis
      using unit_enc_ascii [of "0x4c"] unit_enc_ascii [of "0x3b"] by (auto simp: base_desc_def)
  next
    case False
    with assms(2) base have "u \<in> ucast ` (set primitive_chars \<union> {0x56 :: 8 word}) \<and> r = []"
      by (auto simp: descriptor_spec_def Let_def split: if_splits)
    then obtain c where "u = ucast c" "c \<in> set primitive_chars \<union> {0x56}" "r = []" by blast
    then show ?thesis using unit_enc_ascii [of c] by (auto simp: base_desc_def primitive_chars_def)
  qed
  with s show ?thesis unfolding field_desc_def by blast
qed

section \<open>Access flags\<close>

lemma map_filter_inj:
  assumes "distinct xs" "inj_on f (set xs)"
  shows "map f (filter P xs) = map f (filter Q xs) \<longleftrightarrow> (\<forall>x \<in> set xs. P x = Q x)"
proof
  assume "map f (filter P xs) = map f (filter Q xs)"
  then have "f ` set (filter P xs) = f ` set (filter Q xs)" by (metis set_map)
  then have "set (filter P xs) = set (filter Q xs)"
    using assms(2) by (subst (asm) inj_on_image_eq_iff) auto
  then show "\<forall>x \<in> set xs. P x = Q x" by auto
qed (auto intro: arg_cong [of _ _ "map f"] filter_cong)

lemma access_words_distinct:
  "distinct (map (access_word AccessFlagsClassesTable) kAccessOrder)"
  "distinct (map (access_word AccessFlagsFieldsTable) kAccessOrder)"
  "distinct (map (access_word AccessFlagsMethodsTable) kAccessOrder)"
  by (simp_all add: kAccessOrder_def access_word_def AccessFlagsClassesTable_def
      AccessFlagsFieldsTable_def AccessFlagsMethodsTable_def to_string.simps byte_def)

lemma access_words:
  assumes "distinct (map (access_word table) kAccessOrder)"
  shows "GetAccessImpl a table = GetAccessImpl b table
    \<longleftrightarrow> (\<forall>flag \<in> set kAccessOrder. (flag AND a = 0) = (flag AND b = 0))"
  using assms by (simp add: GetAccessImpl_def distinct_map map_filter_inj)

lemma no_shared_flags:
  "(\<forall>flag \<in> set kAccessOrder. (flag AND a = 0) = (flag AND b = 0)) \<longleftrightarrow> a AND 0x37FFF = b AND 0x37FFF"
proof -
  let ?K = "{..<15} \<union> {16, 17 :: nat}"
  have flags: "kAccessOrder = map (\<lambda>k. push_bit k 1) [0, 2, 1, 10, 3, 4, 7, 6, 5, 8, 11, 9, 12, 13, 14, 16, 17]"
    by (simp add: kAccessOrder_def)
  have k: "set [0, 2, 1, 10, 3, 4, 7, 6, 5, 8, 11, 9, 12, 13, 14, 16, 17] = ?K"
    by (auto simp: numeral_eq_Suc less_Suc_eq)
  have m: "(0x37FFF :: 32 word) = mask 15 OR push_bit 16 (mask 2)" by (simp add: mask_eq_exp_minus_1)
  have masked: "a AND w = b AND w \<longleftrightarrow> (\<forall>n. bit w n \<longrightarrow> bit a n = bit b n)" for w
  proof -
    have "n < 32" if "bit w n" for n using bit_imp_le_length [OF that] by simp
    then show ?thesis by (auto simp: bit_eq_iff [of "a AND w"] bit_and_iff)
  qed
  have "bit (0x37FFF :: 32 word) n \<longleftrightarrow> n \<in> ?K" for n
    unfolding m by (auto simp: bit_simps)
  then have "a AND 0x37FFF = b AND 0x37FFF \<longleftrightarrow> (\<forall>n \<in> ?K. bit a n = bit b n)"
    unfolding masked by (simp only:) blast
  then show ?thesis unfolding flags set_map k
    by (simp only: ball_simps and.commute [of "push_bit _ 1"] and_push_bit_1 [symmetric]) blast
qed

section \<open>Type names\<close>

lemma take_butlast_eq: "n < length xs \<Longrightarrow> take n (butlast xs) = take n xs"
  by (simp add: butlast_conv_take)

text \<open>Away from \<open>java/lang\<close> the two functions agree.\<close>

lemma GetType_agrees:
  assumes "\<not> (\<exists>k r. atype = replicate k 0x5B @ lit ''Ljava/lang'' @ r)"
  shows "GetTypeDADFaithful atype n = GetType atype n"
  using assms
proof (induction atype n rule: GetType.induct)
  case (2 head rest n)
  have "\<not> (\<exists>k r. rest = replicate k 0x5B @ lit ''Ljava/lang'' @ r)" if "head = 0x5B"
  proof
    assume "\<exists>k r. rest = replicate k 0x5B @ lit ''Ljava/lang'' @ r"
    then obtain k r where "rest = replicate k 0x5B @ lit ''Ljava/lang'' @ r" by blast
    then have "head # rest = replicate (Suc k) 0x5B @ lit ''Ljava/lang'' @ r"
      using that by simp
    with "2.prems" show False by blast
  qed
  moreover have "take 9 rest \<noteq> lit ''java/lang''" if "head = 0x4C"
  proof
    assume "take 9 rest = lit ''java/lang''"
    then have "head # rest = replicate 0 0x5B @ lit ''Ljava/lang'' @ drop 9 rest"
      using that append_take_drop_id [of 9 rest] by simp
    with "2.prems" show False by blast
  qed
  moreover have "take 9 rest = lit ''java/lang''"
    if "take 10 (butlast rest) = lit ''java/lang/''"
  proof -
    have "length (take 10 (butlast rest)) = 10" using that by simp
    then have "10 \<le> length (butlast rest)" by simp
    then have "take 10 (butlast rest) = take 10 rest" by (simp add: take_butlast_eq)
    then have "take 9 (take 10 rest) = take 9 (lit ''java/lang/'')" using that by simp
    then show ?thesis by simp
  qed
  ultimately show ?case using "2.IH" by (auto simp: strip_java_lang_def)
qed simp

text \<open>Below \<open>java/lang/\<close> the faithful variant also eats the letters of the prefix's alphabet.\<close>

lemma GetType_java_lang:
  assumes "0x3B \<notin> set name" "0x2F \<notin> set name"
  shows "GetType (lit ''Ljava/lang/'' @ name @ [0x3B]) n = name"
    and "GetTypeDADFaithful (lit ''Ljava/lang/'' @ name @ [0x3B]) n
      = dropWhile (\<lambda>c. c \<in> set kStripSet) name"
proof -
  have dots: "slash_to_dot s = s" if "0x2F \<notin> set s" for s
    using that by (auto simp: slash_to_dot_def intro: map_idI)
  show "GetType (lit ''Ljava/lang/'' @ name @ [0x3B]) n = name"
    using dots [OF assms(2)] by (simp add: strip_java_lang_def butlast_append)
  have "0x2F \<notin> set (dropWhile (\<lambda>c. c \<in> set kStripSet) name)"
    using assms(2) by (auto dest: set_dropWhileD)
  from dots [OF this] show "GetTypeDADFaithful (lit ''Ljava/lang/'' @ name @ [0x3B]) n
      = dropWhile (\<lambda>c. c \<in> set kStripSet) name"
    by (simp add: kStripSet_def butlast_append)
qed

section \<open>Further results\<close>

text \<open>
  The keyword list of an access mask determines every flag the printer knows.
\<close>

theorem access_words_injective:
  "(GetAccessClass a = GetAccessClass b \<longleftrightarrow> a AND 0x37FFF = b AND 0x37FFF) \<and>
   (GetAccessField a = GetAccessField b \<longleftrightarrow> a AND 0x37FFF = b AND 0x37FFF) \<and>
   (GetAccessMethod a = GetAccessMethod b \<longleftrightarrow> a AND 0x37FFF = b AND 0x37FFF)"
  using access_words_distinct
  by (simp add: GetAccessClass_def GetAccessField_def GetAccessMethod_def access_words no_shared_flags)

section \<open>Properties\<close>

text \<open>
  C30. Splitting a prototype gives back the parameter descriptors it was built from and its return
  type, whenever every one of them is a string the verifier accepts as a descriptor.
\<close>

theorem params_roundtrip:
  assumes "\<forall>d \<in> set (ret # ds). \<exists>im p. str_ok im p \<and> d = cstr im p \<and> IsValidDescriptor im p = Inr True"
  shows "ParseParamsType (0x28 # concat ds @ 0x29 # ret) = ds \<and>
    return_type (0x28 # concat ds @ 0x29 # ret) = ret"
proof -
  have "field_desc d" if "d \<in> set (ret # ds)" for d
    using assms that IsValidDescriptor_spec descriptor_field_desc by (fastforce simp: str_ok_def)
  then have "list_all field_desc ds" "0x29 \<notin> set ret" by (auto simp: list_all_iff dest: field_desc_no_paren)
  then show ?thesis using ParseParamsType_proto return_type_proto by blast
qed

text \<open>
  C40. Away from \<open>java/lang\<close> the two type-name functions agree, arrays included.
\<close>

theorem type_names_agree:
  assumes "\<not> (\<exists>k r. atype = replicate k 0x5B @ lit ''Ljava/lang'' @ r)"
  shows "GetTypeDADFaithful atype n = GetType atype n"
  using assms by (rule GetType_agrees)

end
