(* ===== verification/Decompiler_Facade.thy ===== *)
theory Decompiler_Facade
  imports Dad_Util
begin

text \<open>
  The decompiler's facade (\<open>src/native/dad_cpp/decompiler.cpp\<close>, \<open>include/decompiler.h\<close>): the text
  passes every output goes through, the bounded cache of method texts with its two critical
  sections, and the assembly of a class. The data source (\<open>IDexCodeSource\<close>) and the pipeline from
  a snapshot to text are parameters: a record of functions, a thrown \<open>std::exception\<close> being the
  left injection with its \<open>what()\<close>.
\<close>

section \<open>Text passes\<close>

function SanitizeUtf8 :: "bytes \<Rightarrow> bytes" where
  "SanitizeUtf8 [] = []"
| "SanitizeUtf8 (c # r) =
     (if c < 0x80 then c # SanitizeUtf8 r
      else AppendUtf16AsIdentifier (Mutf8ToUtf16 (takeWhile (\<lambda>b. b \<ge> 0x80) (c # r)))
             @ SanitizeUtf8 (dropWhile (\<lambda>b. b \<ge> 0x80) (c # r)))"
  by pat_completeness auto
termination
  by (relation "measure length") (auto simp: le_imp_less_Suc length_dropWhile_le)

declare SanitizeUtf8.simps(2) [simp del]

definition hex_upper :: "nat \<Rightarrow> 8 word" where
  "hex_upper d = byte (if d < 10 then 0x30 + d else 0x37 + d)"

text \<open>\<open>"<U+%04X>"\<close>, for the code points below \<open>0x10000\<close> it is used on.\<close>

definition escape :: "nat \<Rightarrow> bytes" where
  "escape cp =
     lit ''<U+'' @ map hex_upper [cp div 4096 mod 16, cp div 256 mod 16, cp div 16 mod 16, cp mod 16]
       @ lit ''>''"

function CommentSafe :: "bytes \<Rightarrow> bytes" where
  "CommentSafe [] = []"
| "CommentSafe (c # r) =
     (if c < 0x20 \<or> c = 0x7F \<or> c = 0x5C then escape (unat c) @ CommentSafe r
      else if c = 0xC2 \<and> r \<noteq> [] \<and> hd r \<le> 0x9F then escape (unat (hd r)) @ CommentSafe (tl r)
      else if c = 0xE2 \<and> 2 \<le> length r \<and> r ! 0 = 0x80 \<and> (r ! 1 = 0xA8 \<or> r ! 1 = 0xA9)
      then escape (if r ! 1 = 0xA8 then 0x2028 else 0x2029) @ CommentSafe (drop 2 r)
      else c # CommentSafe r)"
  by pat_completeness auto
termination
  by (relation "measure length") auto

declare CommentSafe.simps(2) [simp del]

section \<open>The data source\<close>

record locator =
  l_dex_id :: nat
  l_method_idx :: nat

record field_info =
  fi_name :: bytes
  fi_type :: bytes
  fi_access_flags :: "32 word"
  fi_init_text :: bytes

record class_info =
  ci_dex_id :: nat
  ci_access_flags :: "32 word"
  ci_superclass :: bytes
  ci_interfaces :: "bytes list"
  ci_field_ids :: "nat list"
  ci_field_init_texts :: "bytes list"
  ci_field_init_comments :: "bytes list"

record method_meta =
  mm_cls_name :: bytes
  mm_name :: bytes
  mm_proto :: bytes
  mm_ret_type :: bytes
  mm_params_type :: "bytes list"
  mm_access :: "bytes list"

type_synonym pc_map = "(nat \<times> nat) list"

text \<open>
  What the facade calls. \<open>build\<close> is \<open>MethodSnapshotBuilder::BuildShared\<close>, \<open>process\<close> is
  \<open>DvMethod::Process\<close> with \<open>GetSource\<close> and \<open>GetPcMap\<close>, \<open>process_ast\<close> is \<open>ProcessAst\<close> with
  \<open>GetPcMap\<close>.
\<close>

record ('snap, 'ast) source =
  locate :: "bytes \<Rightarrow> bytes + locator option"
  class_methods :: "bytes \<Rightarrow> locator list"
  class_of :: "locator \<Rightarrow> bytes"
  name_of :: "locator \<Rightarrow> bytes"
  proto_of :: "locator \<Rightarrow> bytes"
  class_info :: "bytes \<Rightarrow> class_info option"
  field_info :: "nat \<Rightarrow> nat \<Rightarrow> field_info"
  build :: "locator \<Rightarrow> bytes + 'snap"
  meta :: "'snap \<Rightarrow> method_meta"
  process :: "'snap \<Rightarrow> bytes + bytes \<times> pc_map"
  process_ast :: "'snap \<Rightarrow> bytes + 'ast \<times> pc_map"

section \<open>One method\<close>

definition RunPipeline :: "('snap, 'ast) source \<Rightarrow> locator \<Rightarrow> bytes \<times> pc_map" where
  "RunPipeline src loc =
     (case bind (build src loc) (process src) of
        Inl what \<Rightarrow> (SanitizeUtf8 (lit ''// DECOMPILE ERROR: '' @ what @ [0x0A]), [])
      | Inr (result, pcs) \<Rightarrow> (SanitizeUtf8 result, pcs))"

text \<open>
  The cache: a list of entries, most recently used first, each with the identity of its list
  node (the \<open>std::list\<close> iterator), and the index from keys to those nodes.
\<close>

record cache =
  c_list :: "(nat \<times> bytes \<times> bytes) list"
  c_index :: "(bytes \<times> nat) list"
  c_next :: nat
  c_capacity :: nat

definition kDefaultCacheCapacity :: nat where
  "kDefaultCacheCapacity = 4096"

definition new_cache :: cache where
  "new_cache = \<lparr>c_list = [], c_index = [], c_next = 0, c_capacity = kDefaultCacheCapacity\<rparr>"

text \<open>\<open>splice(begin(), list, it)\<close>: the node moves to the front, its entry is returned.\<close>

definition splice_front :: "nat \<Rightarrow> (nat \<times> 'e) list \<Rightarrow> ('e \<times> (nat \<times> 'e) list) option" where
  "splice_front it l =
     (case map_of l it of
        None \<Rightarrow> None | Some e \<Rightarrow> Some (e, (it, e) # filter (\<lambda>n. fst n \<noteq> it) l))"

definition cache_hit :: "bytes \<Rightarrow> cache \<Rightarrow> (bytes \<times> cache) option" where
  "cache_hit key c =
     (case map_of (c_index c) key of
        None \<Rightarrow> None
      | Some it \<Rightarrow>
        (case splice_front it (c_list c) of
           None \<Rightarrow> None | Some (e, l) \<Rightarrow> Some (snd e, c\<lparr>c_list := l\<rparr>)))"

function evict :: "cache \<Rightarrow> cache" where
  "evict c =
     (if c_capacity c \<noteq> 0 \<and> length (c_list c) > c_capacity c
      then evict (c\<lparr>c_index := AList.delete (fst (snd (last (c_list c)))) (c_index c),
                    c_list := butlast (c_list c)\<rparr>)
      else c)"
  by pat_completeness auto
termination
  by (relation "measure (\<lambda>c. length (c_list c))") auto

declare evict.simps [simp del]

definition cache_store :: "bytes \<Rightarrow> bytes \<Rightarrow> cache \<Rightarrow> bytes \<times> cache" where
  "cache_store key result c =
     (case cache_hit key c of
        Some (v, c') \<Rightarrow> (v, c')
      | None \<Rightarrow>
        (result,
         evict (c\<lparr>c_list := (c_next c, key, result) # c_list c,
                  c_index := (key, c_next c) # c_index c, c_next := Suc (c_next c)\<rparr>)))"

definition DecompileMethod :: "('snap, 'ast) source \<Rightarrow> bytes \<Rightarrow> cache \<Rightarrow> (bytes + bytes) \<times> cache" where
  "DecompileMethod src descriptor c =
     (case cache_hit descriptor c of
        Some (v, c') \<Rightarrow> (Inr v, c')
      | None \<Rightarrow>
        (case locate src descriptor of
           Inl what \<Rightarrow> (Inl what, c)
         | Inr None \<Rightarrow> (Inr [], c)
         | Inr (Some loc) \<Rightarrow>
           (case cache_store descriptor (fst (RunPipeline src loc)) c of (v, c') \<Rightarrow> (Inr v, c'))))"

definition DecompileMethodWithPcMap :: "('snap, 'ast) source \<Rightarrow> bytes \<Rightarrow> bytes + bytes \<times> pc_map" where
  "DecompileMethodWithPcMap src descriptor =
     (case locate src descriptor of
        Inl what \<Rightarrow> Inl what
      | Inr None \<Rightarrow> Inr ([], [])
      | Inr (Some loc) \<Rightarrow> Inr (RunPipeline src loc))"

record 'ast method_ast =
  ma_meta :: "method_meta option"
  ma_source :: bytes
  ma_found :: bool
  ma_ast :: "'ast option"
  ma_pc_map :: pc_map

definition DecompileMethodAst ::
    "('snap, 'ast) source \<Rightarrow> bytes \<Rightarrow> bool \<Rightarrow> cache \<Rightarrow> (bytes + 'ast method_ast) \<times> cache" where
  "DecompileMethodAst src descriptor include_source c =
     (case locate src descriptor of
        Inl what \<Rightarrow> (Inl what, c)
      | Inr None \<Rightarrow>
        (Inr \<lparr>ma_meta = None, ma_source = [], ma_found = False, ma_ast = None, ma_pc_map = []\<rparr>, c)
      | Inr (Some loc) \<Rightarrow>
        (let (m, a, pcs) =
           (case build src loc of
              Inl _ \<Rightarrow> (None, None, [])
            | Inr snap \<Rightarrow>
              (case process_ast src snap of
                 Inl _ \<Rightarrow> (Some (meta src snap), None, [])
               | Inr (ast, pcs) \<Rightarrow> (Some (meta src snap), Some ast, pcs)))
         in if include_source
            then (case DecompileMethod src descriptor c of
                    (Inl what, c') \<Rightarrow> (Inl what, c')
                  | (Inr text, c') \<Rightarrow>
                    (Inr \<lparr>ma_meta = m, ma_source = text, ma_found = True, ma_ast = a,
                          ma_pc_map = pcs\<rparr>, c'))
            else (Inr \<lparr>ma_meta = m, ma_source = [], ma_found = True, ma_ast = a,
                       ma_pc_map = pcs\<rparr>, c)))"

definition ClearCache :: "cache \<Rightarrow> cache" where
  "ClearCache c = c\<lparr>c_index := [], c_list := []\<rparr>"

definition CacheSize :: "cache \<Rightarrow> nat" where
  "CacheSize c = length (c_list c)"

definition SetCacheCapacity :: "nat \<Rightarrow> cache \<Rightarrow> cache" where
  "SetCacheCapacity cap c = evict (c\<lparr>c_capacity := cap\<rparr>)"

definition CacheCapacity :: "cache \<Rightarrow> nat" where
  "CacheCapacity c = c_capacity c"

section \<open>A class\<close>

text \<open>\<open>s.substr(1, s.size() - 2)\<close>: \<open>std::out_of_range\<close> on an empty string, everything after the
  first character where the count wraps.\<close>

definition inner :: "bytes \<Rightarrow> bytes + bytes" where
  "inner s =
     (if s = [] then Inl (lit ''basic_string_view::substr'')
      else if length s = 1 then Inr [] else Inr (butlast (tl s)))"

definition body_of :: "bytes \<Rightarrow> bytes" where
  "body_of d =
     (if length d \<ge> 2 \<and> hd d = 0x4C \<and> last d = 0x3B then butlast (tl d) else d)"

text \<open>Package and name: the parts before and after the last slash.\<close>

definition package_of :: "bytes \<Rightarrow> bytes" where
  "package_of body =
     (if 0x2F \<in> set body
      then SanitizeUtf8 (slash_to_dot (rev (tl (dropWhile (\<lambda>c. c \<noteq> 0x2F) (rev body)))))
      else [])"

definition simple_name_of :: "bytes \<Rightarrow> bytes" where
  "simple_name_of body = SanitizeUtf8 (rev (takeWhile (\<lambda>c. c \<noteq> 0x2F) (rev body)))"

fun join :: "bytes \<Rightarrow> bytes list \<Rightarrow> bytes" where
  "join sep [] = []"
| "join sep [x] = x"
| "join sep (x # y # xs) = x @ sep @ join sep (y # xs)"

fun inner_all :: "bytes list \<Rightarrow> bytes + bytes list" where
  "inner_all [] = Inr []"
| "inner_all (s # ss) =
     bind (inner s) (\<lambda>x. bind (inner_all ss) (\<lambda>xs. Inr (SanitizeUtf8 (slash_to_dot x) # xs)))"

definition prototype :: "class_info \<Rightarrow> bytes \<Rightarrow> bytes + bytes" where
  "prototype info name =
     (let is_interface = ci_access_flags info AND 0x200 \<noteq> 0;
          access = (if is_interface then ci_access_flags info AND NOT 0x400 else ci_access_flags info);
          head = join (lit '' '') (GetAccessClass access) @ lit '' ''
                   @ (if is_interface then [] else lit ''class '') @ name
      in bind (if ci_superclass info \<noteq> [] \<and> ci_superclass info \<noteq> lit ''Ljava/lang/Object;''
               then bind (inner (ci_superclass info))
                      (\<lambda>sc. Inr (lit '' extends '' @ SanitizeUtf8 (slash_to_dot sc)))
               else Inr [])
           (\<lambda>ext. bind (inner_all (ci_interfaces info))
             (\<lambda>ivs. Inr (head @ ext
               @ (if ivs \<noteq> [] then lit '' implements '' @ join (lit '', '') ivs else [])))))"

definition field_line :: "('snap, 'ast) source \<Rightarrow> class_info \<Rightarrow> nat \<Rightarrow> bytes" where
  "field_line src info i =
     (let finfo = field_info src (ci_dex_id info) (ci_field_ids info ! i);
          init = (if i < length (ci_field_init_texts info) \<and> ci_field_init_texts info ! i \<noteq> []
                  then ci_field_init_texts info ! i else fi_init_text finfo)
      in lit ''    '' @ concat (map (\<lambda>a. a @ lit '' '') (GetAccessField (fi_access_flags finfo)))
         @ SanitizeUtf8 (GetType (fi_type finfo) (- 1)) @ lit '' '' @ SanitizeUtf8 (fi_name finfo)
         @ (if init \<noteq> [] then lit '' = '' @ SanitizeUtf8 init else []) @ lit '';''
         @ (if i < length (ci_field_init_comments info) \<and> ci_field_init_comments info ! i \<noteq> []
            then lit ''  // = '' @ CommentSafe (SanitizeUtf8 (ci_field_init_comments info ! i))
            else [])
         @ [0x0A])"

definition method_descriptor :: "('snap, 'ast) source \<Rightarrow> locator \<Rightarrow> bytes" where
  "method_descriptor src loc = class_of src loc @ lit ''->'' @ name_of src loc @ proto_of src loc"

fun methods_text :: "('snap, 'ast) source \<Rightarrow> locator list \<Rightarrow> cache \<Rightarrow> bytes \<times> cache" where
  "methods_text src [] c = ([], c)"
| "methods_text src (loc # locs) c =
     (let d = method_descriptor src loc;
          (r, c') = DecompileMethod src d c;
          text = (case r of
                    Inr t \<Rightarrow> t
                  | Inl what \<Rightarrow> lit ''// METHOD ERROR ('' @ SanitizeUtf8 d @ lit ''): '' @ what @ [0x0A]);
          (rest, c'') = methods_text src locs c'
      in (text @ rest, c''))"

definition DecompileClass :: "('snap, 'ast) source \<Rightarrow> bytes \<Rightarrow> cache \<Rightarrow> (bytes + bytes) \<times> cache" where
  "DecompileClass src class_descriptor c =
     (case class_info src class_descriptor of
        None \<Rightarrow> (Inr [], c)
      | Some info \<Rightarrow>
        (let body = body_of class_descriptor; package = package_of body; name = simple_name_of body
         in case prototype info name of
              Inl what \<Rightarrow> (Inl what, c)
            | Inr proto \<Rightarrow>
              (let (ms, c') = methods_text src (class_methods src class_descriptor) c
               in (Inr ((if package \<noteq> [] then lit ''package '' @ package @ lit '';'' @ [0x0A] else [])
                        @ proto @ lit '' {'' @ [0x0A]
                        @ concat (map (field_line src info) [0..<length (ci_field_ids info)])
                        @ ms @ lit ''}'' @ [0x0A]), c'))))"

end
