(* ===== verification/Decompiler_Facade_Laws.thy ===== *)
theory Decompiler_Facade_Laws
  imports Decompiler_Facade
begin

text \<open>
  What the facade guarantees: every text it returns is well-formed UTF-8, a comment stays on its
  line, and the cache gives the answers of the pipeline under every interleaving of its two
  critical sections with those of other callers.
\<close>

section \<open>Well-formed text\<close>

lemma utf8_ok_append: "utf8_ok s \<Longrightarrow> utf8_ok (s @ r) = utf8_ok r"
proof -
  assume "utf8_ok s"
  then obtain cps where "list_all scalar cps" "s = concat (map utf8_enc cps)"
    using utf8_ok_iff by blast
  then show ?thesis by (induction cps arbitrary: s) (simp_all add: utf8_ok_enc)
qed

lemma utf8_ok_concat_all: "list_all utf8_ok ss \<Longrightarrow> utf8_ok (concat ss)"
  by (induction ss) (simp_all add: utf8_ok_append)

lemma sanitized_ok [simp]: "utf8_ok (SanitizeUtf8 s)"
proof (induction s rule: SanitizeUtf8.induct)
  case (2 c r)
  then show ?case
    using identifier_text by (auto simp: SanitizeUtf8.simps(2) utf8_ok_append)
qed simp

text \<open>A line feed of the input is a line feed of the output and there are no others.\<close>

lemma sanitized_lines: "filter (\<lambda>b. b = 0x0A) (SanitizeUtf8 s) = filter (\<lambda>b. b = 0x0A) s"
proof (induction s rule: SanitizeUtf8.induct)
  case (2 c r)
  show ?case
  proof (cases "c < 0x80")
    case True
    with 2 show ?thesis by (simp add: SanitizeUtf8.simps(2))
  next
    case False
    let ?run = "takeWhile (\<lambda>b. b \<ge> 0x80) (c # r)" and ?rest = "dropWhile (\<lambda>b. b \<ge> 0x80) (c # r)"
    let ?t = "AppendUtf16AsIdentifier (Mutf8ToUtf16 ?run)"
    have "filter (\<lambda>b. b = 0x0A) ?t = []"
      using identifier_text [of "Mutf8ToUtf16 ?run"] by (auto simp: filter_empty_conv list_all_iff dest!: bspec [where x = "0x0A"])
    moreover have "filter (\<lambda>b. b = 0x0A) ?run = []"
      by (auto simp: filter_empty_conv dest!: set_takeWhileD)
    moreover have "SanitizeUtf8 (c # r) = ?t @ SanitizeUtf8 ?rest"
      using False by (simp only: SanitizeUtf8.simps(2) if_False)
    moreover have "filter (\<lambda>b. b = 0x0A) (c # r) = filter (\<lambda>b. b = 0x0A) (?run @ ?rest)"
      by (simp only: takeWhile_dropWhile_id)
    ultimately show ?thesis using 2(2) [OF False] by (simp only: filter_append append_Nil)
  qed
qed simp

section \<open>Well-formed text is left alone\<close>

lemma unat_low_half: "unat (x AND 0xFFFF) = unat x mod 65536" for x :: "32 word"
proof -
  have "(0xFFFF :: 32 word) = mask 16" by (simp add: mask_eq_exp_minus_1)
  then show ?thesis by (simp only: take_bit_eq_mask [symmetric] unsigned_take_bit_eq) (simp add: take_bit_eq_mod)
qed

lemma mutf8_next_astral:
  assumes "0x10000 \<le> c" "c < 0x110000"
  shows "\<exists>b t. utf8_enc c = b # t \<and> (\<exists>ch. mutf8_next b (t @ r) = (ch, r) \<and>
    mutf8_leading ch = unit_of (0xD800 + (c - 0x10000) div 1024) \<and>
    mutf8_trailing ch = unit_of (0xDC00 + c mod 1024))"
proof -
  obtain b b1 b2 b3 where b: "utf8_enc c = [b, b1, b2, b3]" "0xF0 \<le> b" "b \<le> 0xF4"
    "is_cont b1" "is_cont b2" "is_cont b3"
    "unat b mod 8 * 262144 + (unat b1 mod 64 * 4096 + (unat b2 mod 64 * 64 + unat b3 mod 64)) = c"
    "unat b = 240 + c div 262144"
    using astral_bytes [OF assms] by metis
  define cp :: "32 word" where "cp = push_bit 18 (ucast (b AND 0x0f)) OR push_bit 12 (ucast (b1 AND 0x3F))
      OR push_bit 6 (ucast (b2 AND 0x3F)) OR ucast (b3 AND 0x3F)"
  let ?lead = "(drop_bit 10 cp + 0xd7c0) AND 0xffff" and ?low = "(cp AND 0x03ff) + 0xdc00"
  have q: "c div 262144 \<le> 4" using b(3,8) by (simp add: word_le_nat_alt)
  have "unat (b AND 0x0f) = unat (b AND 0x07)"
    using q mod8 [OF q] mod_mult_self3 [of 15 16 "c div 262144"] by (simp add: unat_masks b(8))
  then have "b AND 0x0f = b AND 0x07" by (rule byte_eqI)
  then have cp: "unat cp = c" using unat_payload4 [of b b1 b2 b3] b(7) by (simp add: cp_def)
  have "c div 262144 \<in> {0, 1, 2, 3, 4}" using q by auto
  then have "b AND 0x80 \<noteq> 0" "b AND 0x20 \<noteq> 0" "b AND 0x10 \<noteq> 0"
    by (auto simp: and_bit_eq_0 b(8))
  then have nx: "mutf8_next b ([b1, b2, b3] @ r) = (?lead OR push_bit 16 ?low, r)"
    using b(4-6) unfolding cp_def by (simp add: mutf8_next_def Let_def or.commute or.left_commute)
  have "c div 1024 < 1088" using assms(2) by (simp add: less_mult_imp_div_less)
  then have lead: "unat ?lead = 0xD7C0 + c div 1024"
    by (simp add: unat_low_half unat_word_ariths unat_drop cp)
  have low: "unat ?low = 0xDC00 + c mod 1024"
    using mod_less_divisor [of 1024 c] by (simp add: unat_masks unat_word_ariths cp)
  define x y where "x = 0xD7C0 + c div 1024" and "y = 0xDC00 + c mod 1024"
  have xy: "x < 65536" "y < 65536"
    using \<open>c div 1024 < 1088\<close> mod_less_divisor [of 1024 c] by (simp_all add: x_def y_def)
  then have ch: "unat (?lead OR push_bit 16 ?low) = x + 65536 * y"
    using unat_or_push_bit [of ?lead 16 ?low] lead low by (simp add: x_def [symmetric] y_def [symmetric])
  have hi: "x = 0xD800 + (c - 0x10000) div 1024"
    using assms(1) div_mult_self3 [of 1024 64 "c - 0x10000"] by (simp add: x_def)
  have "mutf8_leading (?lead OR push_bit 16 ?low) = unit_of x"
    using xy by (intro byte_eqI) (simp add: mutf8_leading_def unat_to_u16 unat_low_half ch)
  moreover have "mutf8_trailing (?lead OR push_bit 16 ?low) = unit_of y"
  proof -
    have "unat (drop_bit 16 (?lead OR push_bit 16 ?low)) = y"
      using xy by (simp only: unat_drop_bit_eq ch) (simp add: drop_bit_eq_div)
    then show ?thesis using xy by (intro byte_eqI) (simp only: mutf8_trailing_def unat_to_u16 unat_u16)
  qed
  moreover note hi y_def
  ultimately show ?thesis using nx b(1) by auto
qed

lemma Mutf8ToUtf16_enc:
  assumes "scalar c" "0x80 \<le> c"
  shows "Mutf8ToUtf16 (utf8_enc c @ r) = utf16_enc c @ Mutf8ToUtf16 r"
proof (cases "c < 0x10000")
  case True
  then have "utf8_enc c = unit_enc (unit_of c)" using assms(2)
    by (auto simp: unit_enc_def word_unat_eq_iff)
  with True show ?thesis by (simp add: Mutf8ToUtf16_unit utf16_enc_def)
next
  case False
  then have c: "0x10000 \<le> c" "c < 0x110000" using assms(1) by (auto simp: scalar_def)
  from mutf8_next_astral [OF c, of r] obtain b t ch where
    "utf8_enc c = b # t" "mutf8_next b (t @ r) = (ch, r)"
    "mutf8_leading ch = unit_of (0xD800 + (c - 0x10000) div 1024)"
    "mutf8_trailing ch = unit_of (0xDC00 + c mod 1024)" by blast
  moreover have "unit_of (0xDC00 + c mod 1024) \<noteq> 0"
    by (simp add: word_unat_eq_iff)
  ultimately show ?thesis using False by (simp add: Mutf8ToUtf16.simps utf16_enc_def)
qed

lemma Mutf8ToUtf16_scalars:
  "list_all (\<lambda>c. scalar c \<and> 0x80 \<le> c) cps \<Longrightarrow>
     Mutf8ToUtf16 (concat (map utf8_enc cps)) = concat (map utf16_enc cps)"
  by (induction cps) (simp_all add: Mutf8ToUtf16_enc)

lemma identifier_enc:
  assumes "scalar c" "0x80 \<le> c"
  shows "AppendUtf16AsIdentifier (utf16_enc c @ us) = utf8_enc c @ AppendUtf16AsIdentifier us"
proof (cases "c < 0x10000")
  case True
  have "\<not> surrogate_pair (unit_of c) v" for v
    using assms(1) True by (auto simp: surrogate_pair_unat scalar_def)
  moreover have "AppendUtf16Escaped (unit_of c) = utf8_enc c"
    using assms True
    by (auto simp: AppendUtf16Escaped_def AppendUtf8Bmp_enc scalar_def word_less_nat_alt word_le_nat_alt)
  ultimately show ?thesis using True by (cases us) (simp_all add: utf16_enc_def)
next
  case False
  define d where "d = c - 0x10000"
  have d: "c = 0x10000 + d" "d < 0x100000" using False assms by (auto simp: d_def scalar_def)
  then have q: "d div 1024 < 1024" by (simp add: less_mult_imp_div_less)
  have m: "c mod 1024 = d mod 1024"
    using mod_mult_self3 [of 64 1024 d] by (simp only: d(1)) simp
  let ?u = "unit_of (0xD800 + d div 1024)" and ?v = "unit_of (0xDC00 + d mod 1024)"
  have pair: "surrogate_pair ?u ?v" using q by (simp add: surrogate_pair_unat)
  have "unat (pair_code_point ?u ?v) = c"
    using q div_mult_mod_eq [of d 1024] d(1) by (simp add: unat_pair_code_point [OF pair])
  then have "AppendUtf8Astral (pair_code_point ?u ?v) = utf8_enc c"
    using False assms(1) AppendUtf8Astral_enc [of "pair_code_point ?u ?v"] by (auto simp: scalar_def)
  moreover have "utf16_enc c = [?u, ?v]" using False m by (simp add: utf16_enc_def d_def [symmetric])
  ultimately show ?thesis using pair by simp
qed

lemma identifier_scalars:
  "list_all (\<lambda>c. scalar c \<and> 0x80 \<le> c) cps \<Longrightarrow>
     AppendUtf16AsIdentifier (concat (map utf16_enc cps)) = concat (map utf8_enc cps)"
  by (induction cps) (simp_all add: identifier_enc)

lemma utf8_enc_high: "0x80 \<le> c \<Longrightarrow> c < 0x110000 \<Longrightarrow> b \<in> set (utf8_enc c) \<Longrightarrow> 0x80 \<le> b"
  using less_mult_imp_div_less [of c 4096 16] less_mult_imp_div_less [of c 262144 16]
    less_mult_imp_div_less [of c 64 32]
  by (auto simp: utf8_enc_def word_le_nat_alt split: if_splits)

lemma SanitizeUtf8_scalars:
  "list_all scalar cps \<Longrightarrow> SanitizeUtf8 (concat (map utf8_enc cps)) = concat (map utf8_enc cps)"
proof (induction "length cps" arbitrary: cps rule: less_induct)
  case less
  show ?case
  proof (cases cps)
    case (Cons c cs)
    show ?thesis
    proof (cases "c < 0x80")
      case True
      then have "utf8_enc c = [byte c]" "byte c < 0x80"
        by (simp_all add: utf8_enc_def word_less_nat_alt)
      with less Cons show ?thesis by (simp add: SanitizeUtf8.simps(2))
    next
      case False
      let ?hi = "takeWhile (\<lambda>c. 0x80 \<le> c) cps" and ?lo = "dropWhile (\<lambda>c. 0x80 \<le> c) cps"
      let ?P = "\<lambda>b :: 8 word. b \<ge> 0x80"
      have scalars: "list_all (\<lambda>c. scalar c \<and> 0x80 \<le> c) ?hi" "list_all scalar ?lo"
        using less.prems by (auto simp: list_all_iff dest: set_takeWhileD set_dropWhileD)
      have high: "\<forall>b \<in> set (concat (map utf8_enc ?hi)). ?P b"
        using scalars(1) by (auto simp: list_all_iff scalar_def intro!: utf8_enc_high [rotated 2])
      have low: "takeWhile ?P (concat (map utf8_enc ?lo)) = []"
      proof (cases ?lo)
        case (Cons d ds)
        then have "d < 0x80" by (metis hd_dropWhile list.distinct(1) list.sel(1) not_le)
        with Cons show ?thesis by (simp add: utf8_enc_def word_le_nat_alt)
      next
        case Nil
        show ?thesis unfolding Nil by simp
      qed
      have whole: "concat (map utf8_enc cps) = concat (map utf8_enc ?hi) @ concat (map utf8_enc ?lo)"
        by (metis concat_append map_append takeWhile_dropWhile_id)
      have split: "takeWhile ?P (concat (map utf8_enc cps)) = concat (map utf8_enc ?hi)"
        "dropWhile ?P (concat (map utf8_enc cps)) = concat (map utf8_enc ?lo)"
        unfolding whole using high low
        by (simp_all add: takeWhile_append2 dropWhile_append2 del: set_concat set_map)
           (metis append_Nil takeWhile_dropWhile_id)
      obtain b t where bt: "concat (map utf8_enc cps) = b # t" "?P b"
        using Cons False utf8_enc_high [of c] less.prems
        by (cases "utf8_enc c") (auto simp: scalar_def)
      have "length ?lo < length cps" using Cons False by (simp add: length_dropWhile_le less_Suc_eq_le)
      then have "SanitizeUtf8 (concat (map utf8_enc ?lo)) = concat (map utf8_enc ?lo)"
        using less.hyps scalars(2) by blast
      moreover have "SanitizeUtf8 (b # t) =
          AppendUtf16AsIdentifier (Mutf8ToUtf16 (takeWhile ?P (b # t))) @ SanitizeUtf8 (dropWhile ?P (b # t))"
      proof -
        have "\<not> b < 0x80" using bt(2) by (simp add: not_less)
        then show ?thesis by (simp only: SanitizeUtf8.simps(2) if_False)
      qed
      ultimately show ?thesis
        using Mutf8ToUtf16_scalars [OF scalars(1)] identifier_scalars [OF scalars(1)] split bt(1) whole
        by simp
    qed
  qed simp
qed

lemma sanitized_fixed: "utf8_ok s \<Longrightarrow> SanitizeUtf8 s = s"
  using SanitizeUtf8_scalars utf8_ok_iff by metis

section \<open>Comments\<close>

text \<open>What may stand in a \<open>//\<close> comment: no control character, no line separator, no backslash.\<close>

definition comment_char :: "nat \<Rightarrow> bool" where
  "comment_char c \<longleftrightarrow> 0x20 \<le> c \<and> c \<noteq> 0x5C \<and> \<not> (0x7F \<le> c \<and> c \<le> 0x9F) \<and> c \<noteq> 0x2028 \<and> c \<noteq> 0x2029"

definition comment_out :: "nat \<Rightarrow> bytes" where
  "comment_out c = (if comment_char c then utf8_enc c else escape c)"

lemma CommentSafe_plain:
  "0x20 \<le> unat c \<Longrightarrow> c \<noteq> 0x7F \<Longrightarrow> c \<noteq> 0x5C \<Longrightarrow> c \<noteq> 0xC2 \<Longrightarrow> c \<noteq> 0xE2 \<Longrightarrow>
     CommentSafe (c # r) = c # CommentSafe r"
  by (simp add: CommentSafe.simps(2) word_less_nat_alt)

lemma byte_eq_iff: "n < 256 \<Longrightarrow> m < 256 \<Longrightarrow> byte n = byte m \<longleftrightarrow> n = m"
  by (metis unat_byte)

lemma byte_ne: "n < 256 \<Longrightarrow> n \<noteq> unat b \<Longrightarrow> byte n \<noteq> b"
  by auto

lemma CommentSafe_cont:
  "128 \<le> n \<Longrightarrow> n < 192 \<Longrightarrow> CommentSafe (byte n # r) = byte n # CommentSafe r"
  by (rule CommentSafe_plain) (auto simp: byte_ne)

lemma CommentSafe_enc:
  assumes "scalar c"
  shows "CommentSafe (utf8_enc c @ r) = comment_out c @ CommentSafe r"
proof -
  consider "c < 0x80" | "0x80 \<le> c" "c < 0x800" | "0x800 \<le> c" "c < 0x10000"
    | "0x10000 \<le> c" "c < 0x110000" using assms unfolding scalar_def by linarith
  then show ?thesis
  proof cases
    case 1
    have "byte c < 0x20 \<longleftrightarrow> c < 0x20" "byte c = 0x7F \<longleftrightarrow> c = 0x7F" "byte c = 0x5C \<longleftrightarrow> c = 0x5C"
      "byte c \<noteq> 0xC2" "byte c \<noteq> 0xE2"
      using 1 by (auto simp: word_less_nat_alt word_unat_eq_iff)
    with 1 show ?thesis
      by (auto simp: utf8_enc_def comment_out_def comment_char_def CommentSafe.simps(2))
  next
    case 2
    obtain q m where c: "c = 64 * q + m" "c div 64 = q" "c mod 64 = m" "m < 64"
    proof
      show "c = 64 * (c div 64) + c mod 64" by simp
    qed simp_all
    with 2 have q: "2 \<le> q" "q < 32" by linarith+
    have enc: "utf8_enc c = [byte (192 + q), byte (128 + m)]" using 2 c by (simp add: utf8_enc_def)
    show ?thesis
    proof (cases "q = 2 \<and> m < 32")
      case True
      then have "CommentSafe (byte (192 + q) # byte (128 + m) # r) = escape (128 + m) @ CommentSafe r"
        by (simp add: CommentSafe.simps(2) word_less_nat_alt word_le_nat_alt word_unat_eq_iff)
      with True c(1) enc show ?thesis by (simp add: comment_out_def comment_char_def)
    next
      case False
      then have "comment_char c" using 2 c(1) q by (auto simp: comment_char_def)
      moreover have "CommentSafe (byte (192 + q) # byte (128 + m) # r) = byte (192 + q) # CommentSafe (byte (128 + m) # r)"
        using False q c(4) by (auto simp: CommentSafe.simps(2) [of "byte (192 + q)"] word_less_nat_alt
            word_le_nat_alt word_unat_eq_iff)
      ultimately show ?thesis using c(4) by (simp add: enc comment_out_def CommentSafe_cont)
    qed
  next
    case 3
    obtain p q m where c: "c = 4096 * p + 64 * q + m" "c div 4096 = p" "c div 64 mod 64 = q"
        "c mod 64 = m" "q < 64" "m < 64"
    proof
      show "c = 4096 * (c div 4096) + 64 * (c div 64 mod 64) + c mod 64"
        using digits64(1) [of c] by (simp add: mult.commute add.assoc)
    qed simp_all
    with 3 have p: "p < 16" by linarith
    have enc: "utf8_enc c = [byte (224 + p), byte (128 + q), byte (128 + m)]"
      using 3 c by (simp add: utf8_enc_def)
    show ?thesis
    proof (cases "p = 2 \<and> q = 0 \<and> (m = 40 \<or> m = 41)")
      case True
      then have "CommentSafe (byte (224 + p) # byte (128 + q) # byte (128 + m) # r)
          = escape (8192 + m) @ CommentSafe r"
        by (auto simp: CommentSafe.simps(2) [of "byte _"] word_less_nat_alt word_le_nat_alt word_unat_eq_iff)
      with True c(1) enc show ?thesis by (auto simp: comment_out_def comment_char_def)
    next
      case False
      then have "comment_char c" using 3 c by (auto simp: comment_char_def)
      moreover have "CommentSafe (byte (224 + p) # byte (128 + q) # byte (128 + m) # r)
          = byte (224 + p) # CommentSafe (byte (128 + q) # byte (128 + m) # r)"
        using False p c(5,6) by (auto simp: CommentSafe.simps(2) [of "byte (224 + p)"] word_less_nat_alt
            word_le_nat_alt word_unat_eq_iff)
      ultimately show ?thesis using c(5,6) by (simp add: enc comment_out_def CommentSafe_cont)
    qed
  next
    case 4
    then have "c div 262144 < 5" by (simp add: less_mult_imp_div_less)
    with 4 show ?thesis
      by (simp add: utf8_enc_def comment_out_def comment_char_def CommentSafe_cont CommentSafe_plain byte_ne)
  qed
qed

lemma hex_upper_char: "d < 16 \<Longrightarrow> 0x30 \<le> unat (hex_upper d) \<and> unat (hex_upper d) < 0x5B"
  by (auto simp: hex_upper_def)

lemma ascii_enc: "b < 0x80 \<Longrightarrow> utf8_enc (unat b) = [b]"
  by (simp add: utf8_enc_def word_less_nat_alt byte_unat)

lemma ascii_text: "list_all (\<lambda>b. b < 0x80) s \<Longrightarrow> concat (map utf8_enc (map unat s)) = s"
  by (induction s) (simp_all add: ascii_enc)

lemma escape_text:
  "\<exists>cps. list_all (\<lambda>c. scalar c \<and> comment_char c) cps \<and> escape n = concat (map utf8_enc cps)"
proof -
  have "hex_upper d < 0x80 \<and> comment_char (unat (hex_upper d)) \<and> scalar (unat (hex_upper d))" if "d < 16" for d
    using hex_upper_char [OF that] by (auto simp: comment_char_def scalar_def word_less_nat_alt)
  then have "list_all (\<lambda>b. b < 0x80 \<and> comment_char (unat b) \<and> scalar (unat b)) (escape n)"
    by (simp add: escape_def comment_char_def scalar_def)
  then show ?thesis
    using ascii_text [of "escape n"]
    by (intro exI [of _ "map unat (escape n)"]) (auto simp: list_all_iff)
qed

lemma CommentSafe_text:
  assumes "list_all scalar cps"
  shows "\<exists>out. list_all (\<lambda>c. scalar c \<and> comment_char c) out
    \<and> CommentSafe (concat (map utf8_enc cps)) = concat (map utf8_enc out)"
  using assms
proof (induction cps)
  case Nil
  show ?case by (intro exI [of _ "[]"]) simp
next
  case (Cons c cps)
  then obtain out where out: "list_all (\<lambda>c. scalar c \<and> comment_char c) out"
      "CommentSafe (concat (map utf8_enc cps)) = concat (map utf8_enc out)" by auto
  obtain one where "list_all (\<lambda>c. scalar c \<and> comment_char c) one" "comment_out c = concat (map utf8_enc one)"
  proof (cases "comment_char c")
    case True
    with Cons.prems that [of "[c]"] show ?thesis by (simp add: comment_out_def)
  next
    case False
    with that escape_text [of c] show ?thesis by (auto simp: comment_out_def)
  qed
  with out Cons.prems show ?case
    by (intro exI [of _ "one @ out"]) (simp add: CommentSafe_enc)
qed

lemma comment_line:
  "\<exists>cps. list_all (\<lambda>c. scalar c \<and> comment_char c) cps \<and> CommentSafe (SanitizeUtf8 s) = concat (map utf8_enc cps)"
proof -
  obtain cps where "list_all scalar cps" "SanitizeUtf8 s = concat (map utf8_enc cps)"
    using sanitized_ok utf8_ok_iff by blast
  then show ?thesis using CommentSafe_text by simp
qed

lemma comment_ok: "utf8_ok (CommentSafe (SanitizeUtf8 s))"
  using comment_line [of s] by (auto simp: list_all_iff intro!: utf8_ok_concat)

section \<open>The cache\<close>

text \<open>The index and the list describe the same set of entries, within the capacity.\<close>

definition cache_ok :: "cache \<Rightarrow> bool" where
  "cache_ok c \<longleftrightarrow>
     distinct (map fst (c_list c)) \<and> distinct (map (fst \<circ> snd) (c_list c)) \<and>
     list_all (\<lambda>n. fst n < c_next c) (c_list c) \<and>
     (\<forall>key it. map_of (c_index c) key = Some it \<longleftrightarrow> (\<exists>v. (it, key, v) \<in> set (c_list c))) \<and>
     (c_capacity c = 0 \<or> length (c_list c) \<le> c_capacity c)"

text \<open>The same cache without node identities: a list of keys and texts, most recent first.\<close>

definition entries :: "cache \<Rightarrow> (bytes \<times> bytes) list" where
  "entries c = map snd (c_list c)"

definition lru_hit :: "'k \<Rightarrow> ('k \<times> 'v) list \<Rightarrow> ('v \<times> ('k \<times> 'v) list) option" where
  "lru_hit key l =
     map_option (\<lambda>v. (v, (key, v) # filter (\<lambda>e. fst e \<noteq> key) l)) (map_of l key)"

definition lru_trim :: "nat \<Rightarrow> ('k \<times> 'v) list \<Rightarrow> ('k \<times> 'v) list" where
  "lru_trim cap l = (if cap = 0 then l else take cap l)"

definition lru_store :: "nat \<Rightarrow> 'k \<Rightarrow> 'v \<Rightarrow> ('k \<times> 'v) list \<Rightarrow> 'v \<times> ('k \<times> 'v) list" where
  "lru_store cap key r l =
     (case lru_hit key l of Some h \<Rightarrow> h | None \<Rightarrow> (r, lru_trim cap ((key, r) # l)))"

lemma entries_map_of:
  assumes "cache_ok c"
  shows "map_of (entries c) key = Some v \<longleftrightarrow> (\<exists>it. (it, key, v) \<in> set (c_list c))"
proof -
  have "distinct (map fst (entries c))" using assms by (simp add: cache_ok_def entries_def)
  then show ?thesis by (auto simp: entries_def image_iff Bex_def)
qed

lemma cache_index_iff:
  "cache_ok c \<Longrightarrow> map_of (c_index c) key = Some it \<longleftrightarrow> (\<exists>v. (it, key, v) \<in> set (c_list c))"
  by (simp add: cache_ok_def)

lemma cache_node:
  assumes "cache_ok c" "(it, key, v) \<in> set (c_list c)" "n \<in> set (c_list c)"
  shows "fst n = it \<longleftrightarrow> fst (snd n) = key"
proof -
  have inj: "inj_on fst (set (c_list c))" "inj_on (fst \<circ> snd) (set (c_list c))"
    using assms(1) by (auto simp: cache_ok_def distinct_map)
  show ?thesis
    using inj_onD [OF inj(1) _ assms(3,2)] inj_onD [OF inj(2) _ assms(3,2)] by (cases n) auto
qed

lemma front_facts:
  assumes ok: "cache_ok c" and e: "(it, key, v) \<in> set (c_list c)"
  defines "l \<equiv> (it, key, v) # filter (\<lambda>n. fst n \<noteq> it) (c_list c)"
  shows "cache_ok (c\<lparr>c_list := l\<rparr>)"
    and "map snd l = (key, v) # filter (\<lambda>e. fst e \<noteq> key) (entries c)"
proof -
  note node = cache_node [OF ok e]
  have dist: "distinct (map fst (c_list c))" "distinct (map (fst \<circ> snd) (c_list c))"
    using ok by (auto simp: cache_ok_def)
  have same: "set l = set (c_list c)"
    using e by (auto simp: l_def dest: eq_key_imp_eq_value [OF dist(1)])
  have d1: "distinct (map fst l)" using dist(1) by (auto simp: l_def distinct_map_filter)
  have d2: "distinct (map (fst \<circ> snd) l)" using dist(2) node by (auto simp: l_def distinct_map_filter)
  have "length l = length (c_list c)"
    using d1 dist(1) same by (metis distinct_card distinct_map)
  with d1 d2 same ok show "cache_ok (c\<lparr>c_list := l\<rparr>)"
    by (simp add: cache_ok_def list_all_iff)
  have "map snd (filter (\<lambda>n. fst n \<noteq> it) (c_list c)) = filter (\<lambda>e. fst e \<noteq> key) (map snd (c_list c))"
    unfolding filter_map by (rule arg_cong [of _ _ "map snd"], rule filter_cong) (simp_all add: node)
  then show "map snd l = (key, v) # filter (\<lambda>e. fst e \<noteq> key) (entries c)"
    by (simp add: l_def entries_def)
qed

lemma cache_hit_cases:
  assumes ok: "cache_ok c"
  obtains (miss) "cache_hit key c = None" "map_of (entries c) key = None"
      "\<And>it v. (it, key, v) \<notin> set (c_list c)" "map_of (c_index c) key = None"
  | (hit) v c' where "cache_hit key c = Some (v, c')" "map_of (entries c) key = Some v" "cache_ok c'"
      "entries c' = (key, v) # filter (\<lambda>e. fst e \<noteq> key) (entries c)" "c_capacity c' = c_capacity c"
proof (cases "map_of (c_index c) key")
  case None
  then have "(it, key, v) \<notin> set (c_list c)" for it v
    using cache_index_iff [OF ok, of key it] by auto
  moreover from this have "map_of (entries c) key = None"
    using entries_map_of [OF ok] by (cases "map_of (entries c) key") auto
  ultimately show ?thesis using None by (intro miss) (simp_all add: cache_hit_def)
next
  case (Some it)
  then obtain v where e: "(it, key, v) \<in> set (c_list c)" using cache_index_iff [OF ok] by auto
  then have "map_of (c_list c) it = Some (key, v)" using ok by (simp add: cache_ok_def)
  then have "cache_hit key c = Some (v, c\<lparr>c_list := (it, key, v) # filter (\<lambda>n. fst n \<noteq> it) (c_list c)\<rparr>)"
    using Some by (simp add: cache_hit_def splice_front_def)
  then show ?thesis
    by (rule hit) (use e entries_map_of [OF ok] front_facts [OF ok e] in \<open>auto simp: entries_def\<close>)
qed

lemma cache_hit_refines:
  assumes "cache_ok c"
  shows "map_option (\<lambda>(v, c'). (v, entries c')) (cache_hit key c) = lru_hit key (entries c)"
  using assms by (cases rule: cache_hit_cases [of c key]) (simp_all add: lru_hit_def)

text \<open>Eviction keeps everything but the bound, which it restores.\<close>

definition cache_pre :: "cache \<Rightarrow> bool" where
  "cache_pre c \<longleftrightarrow> cache_ok (c\<lparr>c_capacity := 0\<rparr>)"

lemma cache_pre_pop:
  assumes "cache_pre c" "c_list c \<noteq> []"
  shows "cache_pre (c\<lparr>c_index := AList.delete (fst (snd (last (c_list c)))) (c_index c),
    c_list := butlast (c_list c)\<rparr>)"
proof -
  obtain l e where l: "c_list c = l @ [e]" using assms(2) by (cases "c_list c" rule: rev_cases) auto
  obtain it key v where e: "e = (it, key, v)" by (cases e)
  have "map_of (AList.delete key (c_index c)) k = Some i \<longleftrightarrow> (\<exists>v. (i, k, v) \<in> set l)" for k i
    using assms(1) l e by (cases "k = key") (force simp: cache_pre_def cache_ok_def delete_conv' image_iff)+
  with assms(1) l e show ?thesis by (simp add: cache_pre_def cache_ok_def)
qed

lemma evict_facts:
  assumes "cache_pre c"
  shows "cache_ok (evict c) \<and> entries (evict c) = lru_trim (c_capacity c) (entries c) \<and>
    c_capacity (evict c) = c_capacity c"
  using assms
proof (induction c rule: evict.induct)
  case (1 c)
  show ?case
  proof (cases "c_capacity c \<noteq> 0 \<and> length (c_list c) > c_capacity c")
    case True
    then have "c_list c \<noteq> []" by auto
    from True 1(1) [OF True cache_pre_pop [OF 1(2) this]] show ?thesis
      by (simp add: evict.simps [of c] lru_trim_def entries_def take_butlast take_map)
  next
    case False
    with 1(2) show ?thesis
      by (auto simp: evict.simps [of c] lru_trim_def entries_def cache_pre_def cache_ok_def)
  qed
qed

lemma cache_store_refines:
  assumes ok: "cache_ok c" and store: "cache_store key r c = (v, c')"
  shows "cache_ok c' \<and> (v, entries c') = lru_store (c_capacity c) key r (entries c)
    \<and> c_capacity c' = c_capacity c"
  using ok
proof (cases rule: cache_hit_cases [of c key])
  case miss
  let ?c = "c\<lparr>c_list := (c_next c, key, r) # c_list c, c_index := (key, c_next c) # c_index c,
    c_next := Suc (c_next c)\<rparr>"
  have "cache_pre ?c"
    unfolding cache_pre_def cache_ok_def
  proof (intro conjI allI)
    have fresh: "fst n < c_next c" if "n \<in> set (c_list c)" for n
      using ok that by (simp add: cache_ok_def list_all_iff)
    show "distinct (map fst (c_list (?c\<lparr>c_capacity := 0\<rparr>)))"
      using ok fresh [of "(c_next c, _)"] by (fastforce simp: cache_ok_def)
    show "distinct (map (fst \<circ> snd) (c_list (?c\<lparr>c_capacity := 0\<rparr>)))"
      using ok miss(3) by (auto simp: cache_ok_def)
    show "list_all (\<lambda>n. fst n < c_next (?c\<lparr>c_capacity := 0\<rparr>)) (c_list (?c\<lparr>c_capacity := 0\<rparr>))"
      using fresh by (auto simp: list_all_iff less_Suc_eq)
    show "map_of (c_index (?c\<lparr>c_capacity := 0\<rparr>)) k = Some i
        \<longleftrightarrow> (\<exists>v. (i, k, v) \<in> set (c_list (?c\<lparr>c_capacity := 0\<rparr>)))" for k i
      using cache_index_iff [OF ok, of k i] miss(3) by auto
  qed simp
  from evict_facts [OF this] store miss show ?thesis
    by (auto simp: cache_store_def lru_store_def lru_hit_def entries_def)
next
  case (hit v' d)
  with store show ?thesis by (simp add: cache_store_def lru_store_def lru_hit_def)
qed

section \<open>Concurrent callers\<close>

text \<open>
  A caller of \<open>DecompileMethod\<close> holds the lock twice, for the lookup and for the store, and runs
  the pipeline in between without it. The system state is the cache, the result each thread has
  computed and not yet stored, and the answers given so far.
\<close>

record facade =
  f_cache :: cache
  f_pending :: "nat \<Rightarrow> (bytes \<times> bytes) option"
  f_answers :: "(bytes \<times> bytes) list"

inductive facade_step :: "('snap, 'ast) source \<Rightarrow> facade \<Rightarrow> facade \<Rightarrow> bool"
  for src :: "('snap, 'ast) source" where
  hit: "f_pending f t = None \<Longrightarrow> cache_hit key (f_cache f) = Some (v, c') \<Longrightarrow>
    facade_step src f (f\<lparr>f_cache := c', f_answers := (key, v) # f_answers f\<rparr>)"
| run: "f_pending f t = None \<Longrightarrow> cache_hit key (f_cache f) = None \<Longrightarrow>
    locate src key = Inr (Some loc) \<Longrightarrow>
    facade_step src f (f\<lparr>f_pending := (f_pending f)(t \<mapsto> (key, fst (RunPipeline src loc)))\<rparr>)"
| store: "f_pending f t = Some (key, r) \<Longrightarrow> cache_store key r (f_cache f) = (v, c') \<Longrightarrow>
    facade_step src f (f\<lparr>f_cache := c', f_pending := (f_pending f)(t := None),
      f_answers := (key, v) # f_answers f\<rparr>)"
| clear: "facade_step src f (f\<lparr>f_cache := ClearCache (f_cache f)\<rparr>)"
| resize: "facade_step src f (f\<lparr>f_cache := SetCacheCapacity cap (f_cache f)\<rparr>)"

definition facade_init :: facade where
  "facade_init = \<lparr>f_cache = new_cache, f_pending = \<lambda>_. None, f_answers = []\<rparr>"

text \<open>The text of a method, without a cache.\<close>

definition answer :: "('snap, 'ast) source \<Rightarrow> bytes \<Rightarrow> bytes option" where
  "answer src key =
     (case locate src key of
        Inr (Some loc) \<Rightarrow> Some (fst (RunPipeline src loc)) | _ \<Rightarrow> None)"

definition holds_answers :: "('snap, 'ast) source \<Rightarrow> cache \<Rightarrow> bool" where
  "holds_answers src c \<longleftrightarrow> cache_ok c \<and> (\<forall>key v. (key, v) \<in> set (entries c) \<longrightarrow> answer src key = Some v)"

lemma holds_new: "holds_answers src new_cache"
  by (simp add: holds_answers_def new_cache_def cache_ok_def entries_def)

lemma holds_hit:
  assumes "holds_answers src c" "cache_hit key c = Some (v, c')"
  shows "holds_answers src c' \<and> answer src key = Some v"
proof -
  have ok: "cache_ok c" using assms(1) by (simp add: holds_answers_def)
  from ok show ?thesis
  proof (cases rule: cache_hit_cases [of c key])
    case (hit v' d)
    from hit(2) have "(key, v') \<in> set (entries c)" by (rule map_of_SomeD)
    with assms hit show ?thesis by (auto simp: holds_answers_def)
  qed (use assms(2) in simp)
qed

lemma set_lru_trim: "set (lru_trim cap l) \<subseteq> set l"
  by (simp add: lru_trim_def set_take_subset)

lemma holds_store:
  assumes "holds_answers src c" "answer src key = Some r" "cache_store key r c = (v, c')"
  shows "holds_answers src c' \<and> v = r"
proof -
  have ok: "cache_ok c" using assms(1) by (simp add: holds_answers_def)
  note refines = cache_store_refines [OF ok assms(3)]
  from ok show ?thesis
  proof (cases rule: cache_hit_cases [of c key])
    case miss
    then have "v = r" "entries c' = lru_trim (c_capacity c) ((key, r) # entries c)"
      using refines by (simp_all add: lru_store_def lru_hit_def)
    with assms(1,2) refines set_lru_trim [of "c_capacity c" "(key, r) # entries c"]
    show ?thesis by (auto simp: holds_answers_def)
  next
    case (hit v' d)
    then have "cache_store key r c = (v', d)" by (simp add: cache_store_def)
    with holds_hit [OF assms(1) hit(1)] assms show ?thesis by simp
  qed
qed

lemma holds_clear: "holds_answers src c \<Longrightarrow> holds_answers src (ClearCache c)"
  by (simp add: holds_answers_def ClearCache_def cache_ok_def entries_def)

lemma holds_resize:
  assumes "holds_answers src c"
  shows "holds_answers src (SetCacheCapacity cap c)"
proof -
  have "cache_pre (c\<lparr>c_capacity := cap\<rparr>)"
    using assms by (simp add: holds_answers_def cache_pre_def cache_ok_def)
  from evict_facts [OF this] assms set_lru_trim [of cap "entries c"] show ?thesis
    by (auto simp: holds_answers_def SetCacheCapacity_def entries_def)
qed

definition facade_inv :: "('snap, 'ast) source \<Rightarrow> facade \<Rightarrow> bool" where
  "facade_inv src f \<longleftrightarrow> holds_answers src (f_cache f) \<and>
     (\<forall>t key r. f_pending f t = Some (key, r) \<longrightarrow> answer src key = Some r) \<and>
     (\<forall>key v. (key, v) \<in> set (f_answers f) \<longrightarrow> answer src key = Some v)"

lemma facade_inv_step:
  assumes "facade_step src f f'" "facade_inv src f"
  shows "facade_inv src f'"
  using assms
proof cases
  case (hit t key v c')
  with assms(2) holds_hit [of src "f_cache f" key v c'] show ?thesis by (auto simp: facade_inv_def)
next
  case (run t key loc)
  with assms(2) show ?thesis by (auto simp: facade_inv_def answer_def)
next
  case (store t key r v c')
  with assms(2) holds_store [of src "f_cache f" key r v c'] show ?thesis by (auto simp: facade_inv_def)
next
  case clear
  with assms(2) show ?thesis by (simp add: facade_inv_def holds_clear)
next
  case (resize cap)
  with assms(2) show ?thesis by (simp add: facade_inv_def holds_resize)
qed

lemma facade_inv_init: "facade_inv src facade_init"
  by (simp add: facade_init_def facade_inv_def holds_new)

lemma facade_reachable: "(facade_step src)\<^sup>*\<^sup>* facade_init f \<Longrightarrow> facade_inv src f"
  by (induction rule: rtranclp_induct) (auto intro: facade_inv_init facade_inv_step)

section \<open>Every text is well-formed\<close>

lemma RunPipeline_ok: "utf8_ok (fst (RunPipeline src loc))"
  by (auto simp: RunPipeline_def split: sum.splits prod.splits)

lemma answer_ok: "answer src key = Some v \<Longrightarrow> utf8_ok v"
  by (auto simp: answer_def RunPipeline_ok split: sum.splits option.splits)

text \<open>The source's exceptions carry printable messages.\<close>

definition messages_ok :: "('snap, 'ast) source \<Rightarrow> bool" where
  "messages_ok src \<longleftrightarrow> (\<forall>key what. locate src key = Inl what \<longrightarrow> utf8_ok what)"

definition uncached :: "('snap, 'ast) source \<Rightarrow> bytes \<Rightarrow> bytes + bytes" where
  "uncached src d =
     (case locate src d of
        Inl what \<Rightarrow> Inl what
      | Inr None \<Rightarrow> Inr []
      | Inr (Some loc) \<Rightarrow> Inr (fst (RunPipeline src loc)))"

lemma DecompileMethod_uncached:
  assumes "holds_answers src c" "DecompileMethod src d c = (r, c')"
  shows "holds_answers src c' \<and> r = uncached src d"
proof (cases "cache_hit d c")
  case (Some h)
  then obtain v where v: "cache_hit d c = Some (v, snd h)" by (cases h) auto
  with assms(2) have "r = Inr v" "c' = snd h" by (simp_all add: DecompileMethod_def)
  with holds_hit [OF assms(1) v] show ?thesis
    by (auto simp: answer_def uncached_def split: sum.splits option.splits)
next
  case None
  show ?thesis
  proof (cases "\<exists>loc. locate src d = Inr (Some loc)")
    case True
    then obtain loc where loc: "locate src d = Inr (Some loc)" by blast
    then have "answer src d = Some (fst (RunPipeline src loc))" by (simp add: answer_def)
    moreover obtain v where "cache_store d (fst (RunPipeline src loc)) c = (v, c')" "r = Inr v"
      using assms(2) None loc by (auto simp: DecompileMethod_def split: prod.splits)
    ultimately show ?thesis using holds_store [OF assms(1)] loc by (fastforce simp: uncached_def)
  next
    case False
    with assms None show ?thesis
      by (auto simp: DecompileMethod_def uncached_def split: sum.splits option.splits)
  qed
qed

lemma uncached_ok: "messages_ok src \<Longrightarrow> uncached src d = Inl t \<or> uncached src d = Inr t \<Longrightarrow> utf8_ok t"
  by (auto simp: messages_ok_def uncached_def RunPipeline_ok split: sum.splits option.splits)

lemma utf8_ok_ascii_Cons: "b < 0x80 \<Longrightarrow> utf8_ok (b # s) = utf8_ok s"
  by simp

lemma access_words_ok:
  "list_all utf8_ok (map (access_word AccessFlagsClassesTable) kAccessOrder)"
  "list_all utf8_ok (map (access_word AccessFlagsFieldsTable) kAccessOrder)"
  by (simp_all add: kAccessOrder_def access_word_def AccessFlagsClassesTable_def
      AccessFlagsFieldsTable_def to_string.simps byte_def)

lemma access_lists_ok: "list_all utf8_ok (GetAccessClass a)" "list_all utf8_ok (GetAccessField a)"
  using access_words_ok
  by (auto simp: GetAccessClass_def GetAccessField_def GetAccessImpl_def list_all_iff)

lemma join_ok: "utf8_ok sep \<Longrightarrow> list_all utf8_ok ss \<Longrightarrow> utf8_ok (join sep ss)"
  by (induction sep ss rule: join.induct) (simp_all add: utf8_ok_append)

lemma inner_all_ok: "inner_all ss = Inr xs \<Longrightarrow> list_all utf8_ok xs"
  by (induction ss arbitrary: xs) (auto simp: bind_eq_Inr)

lemma prototype_ok:
  assumes "prototype info name = Inr proto" "utf8_ok name"
  shows "utf8_ok proto"
proof -
  have kw: "utf8_ok (join (lit '' '') (GetAccessClass a))" for a
    by (rule join_ok) (simp_all add: access_lists_ok)
  show ?thesis using assms
    by (auto simp: prototype_def Let_def bind_eq_Inr utf8_ok_append kw [simplified] dest!: inner_all_ok
        intro!: join_ok split: if_splits)
qed

lemma field_line_ok: "utf8_ok (field_line src info i)"
proof -
  have kw: "utf8_ok (concat (map (\<lambda>a. a @ lit '' '') (GetAccessField a)))" for a
    using access_lists_ok(2) [of a]
    by (intro utf8_ok_concat_all) (auto simp: list_all_iff utf8_ok_append)
  show ?thesis by (simp add: field_line_def Let_def utf8_ok_append kw [simplified] comment_ok)
qed

lemma methods_text_ok:
  assumes "messages_ok src"
  shows "holds_answers src c \<Longrightarrow> methods_text src locs c = (t, c') \<Longrightarrow> utf8_ok t \<and> holds_answers src c'"
proof (induction locs arbitrary: c t c')
  case (Cons loc locs)
  obtain r d where d: "DecompileMethod src (method_descriptor src loc) c = (r, d)" by fastforce
  obtain rest e where e: "methods_text src locs d = (rest, e)" by fastforce
  note one = DecompileMethod_uncached [OF Cons.prems(1) d]
  then have "utf8_ok rest \<and> holds_answers src e" using Cons.IH e by blast
  moreover have "utf8_ok x" if "r = Inl x \<or> r = Inr x" for x
    using uncached_ok [OF assms] one that by auto
  ultimately show ?case using Cons.prems(2) d e
    by (auto simp: Let_def utf8_ok_append split: sum.splits)
qed simp

lemma DecompileClass_ok:
  assumes "messages_ok src" "holds_answers src c" "DecompileClass src d c = (Inr t, c')"
  shows "utf8_ok t \<and> holds_answers src c'"
proof (cases "class_info src d")
  case (Some info)
  obtain ms e where ms: "methods_text src (class_methods src d) c = (ms, e)" by fastforce
  have fields: "utf8_ok (concat (map (field_line src info) is))" for "is"
    by (rule utf8_ok_concat_all) (simp add: list_all_iff field_line_ok)
  have name: "utf8_ok (simple_name_of b)" "utf8_ok (package_of b)" for b
    by (simp_all add: simple_name_of_def package_of_def)
  show ?thesis
    using assms(3) Some ms methods_text_ok [OF assms(1,2) ms]
    by (auto simp: DecompileClass_def Let_def utf8_ok_append fields name
        dest!: prototype_ok split: sum.splits)
qed (use assms in \<open>simp add: DecompileClass_def\<close>)

section \<open>Further results\<close>

text \<open>
  Text made safe for a comment is a sequence of code points none of which is a control character,
  a line separator or a backslash.
\<close>

theorem comment_one_line:
  "\<exists>cps. list_all (\<lambda>c. scalar c \<and> comment_char c) cps \<and> CommentSafe (SanitizeUtf8 s) = concat (map utf8_enc cps)"
  by (rule comment_line)

section \<open>Properties\<close>

text \<open>
  C27. On a consistent cache every operation does to the entries what the list specification does, and
  leaves a consistent cache within its capacity.
\<close>

theorem cache_is_lru:
  assumes "cache_ok c"
  shows "map_option (\<lambda>(v, c'). (v, entries c')) (cache_hit key c) = lru_hit key (entries c) \<and>
    (case cache_store key r c of (v, c') \<Rightarrow>
       cache_ok c' \<and> (v, entries c') = lru_store (c_capacity c) key r (entries c)) \<and>
    cache_ok (SetCacheCapacity n c) \<and> entries (SetCacheCapacity n c) = lru_trim n (entries c)"
proof -
  have "cache_pre (c\<lparr>c_capacity := n\<rparr>)" using assms by (simp add: cache_pre_def cache_ok_def)
  from evict_facts [OF this] have "cache_ok (SetCacheCapacity n c) \<and>
      entries (SetCacheCapacity n c) = lru_trim n (entries c)"
    by (simp add: SetCacheCapacity_def entries_def)
  then show ?thesis
    using cache_hit_refines [OF assms] cache_store_refines [OF assms, of key r] by (auto split: prod.splits)
qed

text \<open>
  C28. Every answer given in any interleaving of callers is the uncached one.
\<close>

theorem concurrent_answers:
  assumes "(facade_step src)\<^sup>*\<^sup>* facade_init f"
  shows "cache_ok (f_cache f) \<and> (\<forall>key v. (key, v) \<in> set (f_answers f) \<longrightarrow> uncached src key = Inr v)"
  using facade_reachable [OF assms]
  by (fastforce simp: facade_inv_def holds_answers_def answer_def uncached_def split: sum.splits option.splits)

text \<open>
  C29. The text of a class is well-formed UTF-8 whatever the dex carries, and the cache still holds only
  answers of the pipeline, provided that the messages of the exceptions \<open>LocateMethod\<close> lets out are:
  \<open>DecompileClass\<close> appends \<open>e.what()\<close> without \<open>SanitizeUtf8\<close>.
\<close>

theorem class_text_utf8:
  assumes "messages_ok src" and "holds_answers src c" and "DecompileClass src d c = (Inr t, c')"
  shows "utf8_ok t \<and> holds_answers src c'"
  using assms by (rule DecompileClass_ok)

text \<open>
  C31. Sanitised text is well-formed UTF-8, has exactly the line feeds of the input, and is a fixed
  point of the pass.
\<close>

theorem sanitize_text:
  "utf8_ok (SanitizeUtf8 s) \<and> filter (\<lambda>b. b = 0x0A) (SanitizeUtf8 s) = filter (\<lambda>b. b = 0x0A) s \<and>
   SanitizeUtf8 (SanitizeUtf8 s) = SanitizeUtf8 s"
  by (simp add: sanitized_lines sanitized_fixed)

end
