(* ===== verification/Example_Facade.thy ===== *)
theory Example_Facade
  imports Dad_Util_Laws Decompiler_Facade_Laws
begin

text \<open>
  A data source with one class of one field and one method, on which the theorems about the
  decompiler's text and cache are applied.
\<close>

definition example_key :: bytes where
  "example_key = lit ''La;->f()V''"

definition example_text :: bytes where
  "example_text = [0x66, 0xC3, 0xA9, 0x0A]"

definition example_source :: "(unit, unit) source" where
  "example_source =
     \<lparr>locate = (\<lambda>k. Inr (if k = example_key then Some \<lparr>l_dex_id = 0, l_method_idx = 0\<rparr> else None)),
      class_methods = (\<lambda>_. [\<lparr>l_dex_id = 0, l_method_idx = 0\<rparr>]),
      class_of = (\<lambda>_. lit ''La;''), name_of = (\<lambda>_. lit ''f''), proto_of = (\<lambda>_. lit ''()V''),
      class_info = (\<lambda>_. Some \<lparr>ci_dex_id = 0, ci_access_flags = 1, ci_superclass = [],
        ci_interfaces = [lit ''Lb/c;''], ci_field_ids = [0], ci_field_init_texts = [lit ''1''],
        ci_field_init_comments = [[0x0A]]\<rparr>),
      field_info = (\<lambda>_ _. \<lparr>fi_name = [0xC3, 0xA9], fi_type = lit ''I'', fi_access_flags = 8,
        fi_init_text = []\<rparr>),
      build = (\<lambda>_. Inr ()),
      meta = (\<lambda>_. \<lparr>mm_cls_name = [], mm_name = [], mm_proto = [], mm_ret_type = [],
        mm_params_type = [], mm_access = []\<rparr>),
      process = (\<lambda>_. Inr (example_text, [])), process_ast = (\<lambda>_. Inr ((), []))\<rparr>"

definition example_cache :: cache where
  "example_cache =
     \<lparr>c_list = [(1, [1], [2]), (0, [3], [4])], c_index = [([1], 1), ([3], 0)], c_next = 2, c_capacity = 2\<rparr>"

lemma example_cache_ok: "cache_ok example_cache"
  by (auto simp: cache_ok_def example_cache_def)

lemma example_messages: "messages_ok example_source"
  by (simp add: messages_ok_def example_source_def)

lemma example_sanitized: "SanitizeUtf8 example_text = example_text"
  by (rule sanitized_fixed) (code_simp)

lemma example_class_text:
  "\<exists>t c'. DecompileClass example_source (lit ''La;'') new_cache = (Inr t, c')"
  by (simp add: DecompileClass_def example_source_def prototype_def inner_def Let_def split: prod.splits)

lemma example_steps:
  "\<exists>f. (facade_step example_source)\<^sup>*\<^sup>* facade_init f \<and> f_answers f = [(example_key, example_text)]"
proof -
  let ?loc = "\<lparr>l_dex_id = 0, l_method_idx = 0\<rparr>"
  have ran: "fst (RunPipeline example_source ?loc) = example_text"
    by (simp add: RunPipeline_def example_source_def example_sanitized)
  let ?f = "facade_init\<lparr>f_pending := (f_pending facade_init)(0 \<mapsto> (example_key, example_text))\<rparr>"
  have "facade_step example_source facade_init ?f"
    using facade_step.run [of facade_init 0 example_key example_source ?loc] ran
    by (simp add: facade_init_def new_cache_def cache_hit_def example_source_def)
  moreover obtain v c' where c: "cache_store example_key example_text (f_cache ?f) = (v, c')" by fastforce
  moreover from c have "v = example_text"
    by (simp add: facade_init_def new_cache_def cache_store_def cache_hit_def)
  ultimately have "(facade_step example_source)\<^sup>*\<^sup>* facade_init
      (?f\<lparr>f_cache := c', f_pending := (f_pending ?f)(0 := None),
        f_answers := (example_key, example_text) # f_answers ?f\<rparr>)"
    using facade_step.store [of ?f 0 example_key example_text v c' example_source]
    by (intro rtranclp.rtrancl_into_rtrancl [OF r_into_rtranclp]) simp_all
  then show ?thesis by (auto simp: facade_init_def)
qed

section \<open>Witnesses\<close>

theorem cache_is_lru_witness:
  "cache_ok example_cache \<and> entries (SetCacheCapacity 1 example_cache) = lru_trim 1 (entries example_cache)"
proof -
  from cache_is_lru [OF example_cache_ok] example_cache_ok show ?thesis by blast
qed

theorem concurrent_answers_witness:
  "\<exists>f. (facade_step example_source)\<^sup>*\<^sup>* facade_init f \<and> f_answers f = [(example_key, example_text)] \<and>
     uncached example_source example_key = Inr example_text"
proof -
  obtain f where f: "(facade_step example_source)\<^sup>*\<^sup>* facade_init f" "f_answers f = [(example_key, example_text)]"
    using example_steps by blast
  with concurrent_answers [OF f(1)] show ?thesis by auto
qed

theorem class_text_utf8_witness:
  "\<exists>t c'. DecompileClass example_source (lit ''La;'') new_cache = (Inr t, c') \<and> utf8_ok t"
proof -
  obtain t c' where c: "DecompileClass example_source (lit ''La;'') new_cache = (Inr t, c')"
    using example_class_text by blast
  with class_text_utf8 [OF example_messages holds_new c] show ?thesis by blast
qed

theorem params_roundtrip_witness:
  "ParseParamsType (0x28 # concat [[0x49], [0x5B, 0x49]] @ 0x29 # [0x49]) = [[0x49], [0x5B, 0x49 :: 8 word]]"
proof -
  have "\<exists>im p. str_ok im p \<and> d = cstr im p \<and> IsValidDescriptor im p = Inr True"
    if "d \<in> set ([0x49] # [[0x49], [0x5B, 0x49]])" for d
  proof -
    have "str_ok [0x49, 0] 0 \<and> [0x49] = cstr [0x49, 0] 0 \<and> IsValidDescriptor [0x49, 0] 0 = Inr True"
      by code_simp
    moreover have "str_ok [0x5B, 0x49, 0] 0 \<and> [0x5B, 0x49] = cstr [0x5B, 0x49, 0] 0
        \<and> IsValidDescriptor [0x5B, 0x49, 0] 0 = Inr True" by code_simp
    ultimately show ?thesis using that by auto
  qed
  then show ?thesis using params_roundtrip [of "[0x49]" "[[0x49], [0x5B, 0x49]]"] by blast
qed

theorem type_names_agree_witness: "GetTypeDADFaithful (lit ''[LA;'') 3 = GetType (lit ''[LA;'') 3"
proof (rule type_names_agree)
  have "lit ''[LA;'' \<noteq> replicate k 0x5B @ lit ''Ljava/lang'' @ r" for k r
    by (auto dest: arg_cong [where f = length])
  then show "\<not> (\<exists>k r. lit ''[LA;'' = replicate k 0x5B @ lit ''Ljava/lang'' @ r)" by blast
qed

end
