(* ===== verification/Snapshot_Builder.thy ===== *)
theory Snapshot_Builder
  imports Verifier_Code Dad_Util
begin

text \<open>
  From a code item to a method snapshot (\<open>src/native/dad_cpp/method_snapshot_builder.cpp\<close>,
  \<open>include/method_snapshot.h\<close>): a linear decode, the set of block leaders, the exception table,
  the partition into blocks, and the edges between them.

  \<open>im\<close> is the dex image, the code array starts at the image position \<open>base\<close> and has \<open>n\<close> code
  units, and every raw read is a checked read of the image. The image is mapped at an address
  divisible by four, so that aligning an address aligns the position. A thrown
  \<open>std::runtime_error\<close> is \<open>Inl (Throw what)\<close>. \<open>std::set\<close> is an ascending list without duplicates.
  The map from payloads to their owners is written and never read, and is left out.
\<close>

section \<open>Reading\<close>

definition Align4 :: "nat \<Rightarrow> nat" where
  "Align4 off = (off + 3) div 4 * 4"

definition hex_pad4 :: "nat \<Rightarrow> string" where
  "hex_pad4 v =
     (let digit = (\<lambda>d. if d < 10 then char_of (0x30 + d :: nat) else char_of (0x37 + d));
          digits = (\<lambda>k. map (\<lambda>i. digit (v div 16 ^ i mod 16)) (rev [0..<k]))
      in digits (if v < 16 ^ 4 then 4 else if v < 16 ^ 5 then 5 else if v < 16 ^ 6 then 6
                 else if v < 16 ^ 7 then 7 else 8))"

definition FormatBlockName :: "nat \<Rightarrow> string" where
  "FormatBlockName byte_off = ''B@0x'' @ hex_pad4 byte_off"

text \<open>The two bounded LEB128 readers: the value, and where the cursor ends.\<close>

function ReadUleb128_from :: "image \<Rightarrow> nat \<Rightarrow> nat \<Rightarrow> nat \<Rightarrow> 32 word \<Rightarrow> (32 word \<times> nat) result" where
  "ReadUleb128_from im fin shift p value =
     (if p < fin then
        bind (rd_u1 im p) (\<lambda>b.
          let value' = value OR push_bit shift (ucast (b AND 0x7F)) in
          if b AND 0x80 = 0 \<or> shift + 7 \<ge> 35 then Inr (value', p + 1)
          else ReadUleb128_from im fin (shift + 7) (p + 1) value')
      else Inr (value, p))"
  by pat_completeness auto
termination
  by (relation "measure (\<lambda>(im, fin, shift, p, v). fin - p)") auto

declare ReadUleb128_from.simps [simp del]

definition ReadUleb128 :: "image \<Rightarrow> nat \<Rightarrow> nat \<Rightarrow> (nat \<times> nat) result" where
  "ReadUleb128 im fin p = bind (ReadUleb128_from im fin 0 p 0) (\<lambda>(v, p'). Inr (unat v, p'))"

definition sleb_extend :: "nat \<Rightarrow> 8 word \<Rightarrow> 32 word \<Rightarrow> 32 word" where
  "sleb_extend shift b value =
     (if shift < 32 \<and> b AND 0x40 \<noteq> 0 then value OR - push_bit shift 1 else value)"

function ReadSleb128_from ::
    "image \<Rightarrow> nat \<Rightarrow> nat \<Rightarrow> 8 word \<Rightarrow> nat \<Rightarrow> 32 word \<Rightarrow> (32 word \<times> nat) result" where
  "ReadSleb128_from im fin shift b0 p value =
     (if p < fin then
        bind (rd_u1 im p) (\<lambda>b.
          let value' = value OR push_bit shift (ucast (b AND 0x7F)) in
          if b AND 0x80 = 0 \<or> shift + 7 \<ge> 35 then Inr (sleb_extend (shift + 7) b value', p + 1)
          else ReadSleb128_from im fin (shift + 7) b (p + 1) value')
      else Inr (sleb_extend shift b0 value, p))"
  by pat_completeness auto
termination
  by (relation "measure (\<lambda>(im, fin, shift, b0, p, v). fin - p)") auto

declare ReadSleb128_from.simps [simp del]

definition ReadSleb128 :: "image \<Rightarrow> nat \<Rightarrow> nat \<Rightarrow> (int \<times> nat) result" where
  "ReadSleb128 im fin p = bind (ReadSleb128_from im fin 0 0 p 0) (\<lambda>(v, p'). Inr (sint v, p'))"

section \<open>Opcodes\<close>

definition ExtractBranchOffsetCodeUnits :: "instruction \<Rightarrow> nat \<Rightarrow> int" where
  "ExtractBranchOffsetCodeUnits ins op =
     (case GetFormatFromOpcode op of
        k10t \<Rightarrow> sint (ucast (vA ins) :: 8 word)
      | k20t \<Rightarrow> sint (ucast (vA ins) :: 16 word)
      | k21t \<Rightarrow> sint (ucast (vB ins) :: 16 word)
      | k22t \<Rightarrow> sint (ucast (vC ins) :: 16 word)
      | k30t \<Rightarrow> sint (vA ins)
      | k31t \<Rightarrow> sint (vB ins)
      | _ \<Rightarrow> 0)"

definition IsBranchOpcode :: "nat \<Rightarrow> bool" where
  "IsBranchOpcode op \<longleftrightarrow>
     (op \<ge> 0x28 \<and> op \<le> 0x2A) \<or> (op \<ge> 0x32 \<and> op \<le> 0x3D) \<or> op = 0x2B \<or> op = 0x2C \<or> op = 0x26"

definition IsConditionalBranch :: "nat \<Rightarrow> bool" where
  "IsConditionalBranch op \<longleftrightarrow> op \<ge> 0x32 \<and> op \<le> 0x3D"

definition IsUnconditionalBranch :: "nat \<Rightarrow> bool" where
  "IsUnconditionalBranch op \<longleftrightarrow> op \<ge> 0x28 \<and> op \<le> 0x2A"

definition IsSwitch :: "nat \<Rightarrow> bool" where
  "IsSwitch op \<longleftrightarrow> op = 0x2B \<or> op = 0x2C"

definition IsReturn :: "nat \<Rightarrow> bool" where
  "IsReturn op \<longleftrightarrow> op \<ge> 0x0E \<and> op \<le> 0x11"

definition IsThrow :: "nat \<Rightarrow> bool" where
  "IsThrow op \<longleftrightarrow> op = 0x27"

definition OP_FILL_ARRAY_DATA :: nat where
  "OP_FILL_ARRAY_DATA = 0x26"

definition IsBlockTerminator :: "nat \<Rightarrow> bool" where
  "IsBlockTerminator op \<longleftrightarrow> IsReturn op \<or> IsThrow op \<or> IsUnconditionalBranch op"

definition IsPayloadMarker :: "16 word \<Rightarrow> bool" where
  "IsPayloadMarker u \<longleftrightarrow> u = 0x0100 \<or> u = 0x0200 \<or> u = 0x0300"

definition PayloadHeaderUnits :: "16 word \<Rightarrow> nat" where
  "PayloadHeaderUnits u = (if u = 0x0100 \<or> u = 0x0200 then 2 else if u = 0x0300 then 4 else 1)"

definition SafeWidth :: "image \<Rightarrow> nat \<Rightarrow> nat \<Rightarrow> nat \<Rightarrow> nat result" where
  "SafeWidth im base n i =
     (if i \<ge> n then throw ''malformed dex: truncated instruction/payload header''
      else bind (rd_unit im (base + 2 * i) 0) (\<lambda>u.
        if i + PayloadHeaderUnits u > n
        then throw ''malformed dex: truncated instruction/payload header''
        else bind (GetWidthFromBytecode im (base + 2 * i)) (\<lambda>w.
          if w = 0 \<or> i + w > n then throw ''malformed dex: instruction extends past insns''
          else Inr w)))"

lemma SafeWidth_advances: "SafeWidth im base n i = Inr w \<Longrightarrow> 0 < w \<and> i + w \<le> n \<and> i < n"
  by (auto simp: SafeWidth_def bind_eq_Inr split: if_splits)

section \<open>The data source\<close>

text \<open>\<open>IDexCodeSource\<close> as the builder uses it, for one dex.\<close>

record 'cs pool =
  p_string :: "nat \<Rightarrow> bytes"
  p_type :: "nat \<Rightarrow> bytes"
  p_method :: "nat \<Rightarrow> bytes \<times> bytes \<times> bytes"
  p_field :: "nat \<Rightarrow> bytes \<times> bytes \<times> bytes"
  p_proto :: "nat \<Rightarrow> bytes"
  p_call_site :: "nat \<Rightarrow> 'cs"
  p_method_class :: "nat \<Rightarrow> bytes"
  p_method_name :: "nat \<Rightarrow> bytes"
  p_method_proto :: "nat \<Rightarrow> bytes"
  p_access_flags :: "nat \<Rightarrow> 32 word"
  p_code :: "nat \<Rightarrow> nat option"
  p_image_end :: "nat option"

datatype 'cs const_ref =
  NoConst
  | StringConst bytes nat
  | TypeConst bytes nat
  | MethodConst "bytes \<times> bytes \<times> bytes" nat bytes
  | FieldConst "bytes \<times> bytes \<times> bytes" nat
  | CallSiteConst 'cs nat

definition ResolveConstRef :: "instruction \<Rightarrow> nat \<Rightarrow> 'cs pool \<Rightarrow> 'cs const_ref" where
  "ResolveConstRef decoded op src =
     (let fmt = GetFormatFromOpcode op;
          idx = unat (if fmt = k22c \<or> fmt = k22cs then vC decoded else vB decoded);
          i = unat (vB decoded)
      in case GetIndexTypeFromOpcode op of
        kIndexStringRef \<Rightarrow> StringConst (p_string src idx) idx
      | kIndexTypeRef \<Rightarrow> TypeConst (p_type src idx) idx
      | kIndexMethodRef \<Rightarrow> MethodConst (p_method src idx) idx []
      | kIndexMethodAndProtoRef \<Rightarrow>
          MethodConst (p_method src i) i (p_proto src (unat (arg decoded ! 4)))
      | kIndexFieldRef \<Rightarrow> FieldConst (p_field src idx) idx
      | kIndexCallSiteRef \<Rightarrow> CallSiteConst (p_call_site src i) i
      | _ \<Rightarrow> NoConst)"

section \<open>Payloads\<close>

datatype payload =
  NoPayload
  | FillArray nat nat bytes
  | PackedSwitch int "int list"
  | SparseSwitch "int list" "int list"

definition s4 :: "nat \<Rightarrow> int" where
  "s4 v = sint (word_of_nat v :: 32 word)"

fun rd_s4s :: "image \<Rightarrow> nat \<Rightarrow> nat \<Rightarrow> int list result" where
  "rd_s4s im p 0 = Inr []"
| "rd_s4s im p (Suc k) = bind (rd_u4 im p) (\<lambda>v. bind (rd_s4s im (p + 4) k) (\<lambda>vs. Inr (s4 v # vs)))"

fun rd_bytes :: "image \<Rightarrow> nat \<Rightarrow> nat \<Rightarrow> bytes result" where
  "rd_bytes im p 0 = Inr []"
| "rd_bytes im p (Suc k) = bind (rd_u1 im p) (\<lambda>b. bind (rd_bytes im (p + 1) k) (\<lambda>bs. Inr (b # bs)))"

text \<open>\<open>k\<close> is the payload's code unit in the code array.\<close>

definition ParsePackedSwitchPayload :: "image \<Rightarrow> nat \<Rightarrow> nat \<Rightarrow> nat \<Rightarrow> payload result" where
  "ParsePackedSwitchPayload im base n k =
     (let p = base + 2 * k in
      if k + 4 > n then Inr NoPayload
      else bind (rd_unit im p 1) (\<lambda>sz.
        bind (rd_u4 im (p + 4)) (\<lambda>key.
        bind (rd_s4s im (p + 8) (min (unat sz) ((n - (k + 4)) div 2))) (\<lambda>targets.
          Inr (PackedSwitch (s4 key) targets)))))"

definition ParseSparseSwitchPayload :: "image \<Rightarrow> nat \<Rightarrow> nat \<Rightarrow> nat \<Rightarrow> payload result" where
  "ParseSparseSwitchPayload im base n k =
     (let p = base + 2 * k in
      if k + 4 > n then Inr NoPayload
      else bind (rd_unit im p 1) (\<lambda>sz.
        let cnt = min (unat sz) ((n - (k + 2)) div 2 div 2) in
        bind (rd_s4s im (p + 4) cnt) (\<lambda>keys.
        bind (rd_s4s im (p + 4 + 4 * cnt) cnt) (\<lambda>targets.
          Inr (SparseSwitch keys targets)))))"

definition ParseFillArrayPayload :: "image \<Rightarrow> nat \<Rightarrow> nat \<Rightarrow> nat \<Rightarrow> payload result" where
  "ParseFillArrayPayload im base n k =
     (let p = base + 2 * k in
      if k + 4 > n then Inr NoPayload
      else bind (rd_unit im p 1) (\<lambda>width.
        bind (rd_u4 im (p + 4)) (\<lambda>sz.
        bind (rd_bytes im (p + 8) (min (unat width * sz) ((n - (k + 4)) * 2))) (\<lambda>bs.
          Inr (FillArray (unat width) sz bs)))))"

definition ParsePayloadAt :: "image \<Rightarrow> nat \<Rightarrow> nat \<Rightarrow> nat \<Rightarrow> payload result" where
  "ParsePayloadAt im base n k =
     (if k + 1 > n then Inr NoPayload
      else bind (rd_unit im (base + 2 * k) 0) (\<lambda>u.
        if u = 0x0100 then ParsePackedSwitchPayload im base n k
        else if u = 0x0200 then ParseSparseSwitchPayload im base n k
        else if u = 0x0300 then ParseFillArrayPayload im base n k
        else Inr NoPayload))"

section \<open>The linear decode\<close>

definition UINT32_MAX :: nat where
  "UINT32_MAX = 4294967295"

record 'cs raw_ins =
  ri_byte_off :: nat
  ri_length_bytes :: nat
  ri_opcode :: nat
  ri_decoded :: instruction
  ri_const_ref :: "'cs const_ref"
  ri_branch_target :: nat

text \<open>The first pass only counts, but it is the one that meets malformed code first.\<close>

function count_insns :: "image \<Rightarrow> nat \<Rightarrow> nat \<Rightarrow> nat \<Rightarrow> nat result" where
  "count_insns im base n i =
     (if i < n then
        bind (SafeWidth im base n i) (\<lambda>w.
        bind (rd_unit im (base + 2 * i) 0) (\<lambda>u.
        bind (count_insns im base n (i + w)) (\<lambda>cnt.
          Inr (if IsPayloadMarker u then cnt else Suc cnt))))
      else Inr 0)"
  by pat_completeness auto
termination
  by (relation "measure (\<lambda>(im, base, n, i). n - i)") (auto dest: SafeWidth_advances)

declare count_insns.simps [simp del]

definition cast_u32 :: "int \<Rightarrow> nat" where
  "cast_u32 x = nat (x mod 4294967296)"

text \<open>One instruction, with the payload position it names when it names one.\<close>

definition decode_one :: "image \<Rightarrow> 'cs pool \<Rightarrow> nat \<Rightarrow> nat \<Rightarrow> nat \<Rightarrow> ('cs raw_ins \<times> nat option) result" where
  "decode_one im src base i w =
     bind (DecodeInstruction im (base + 2 * i)) (\<lambda>d.
       let byte_off = u32 (i * 2); op = opcode d;
           target = cast_u32 (int byte_off + ExtractBranchOffsetCodeUnits d op * 2);
           data = IsSwitch op \<or> op = OP_FILL_ARRAY_DATA
       in Inr (\<lparr>ri_byte_off = byte_off, ri_length_bytes = w * 2 mod 65536, ri_opcode = op,
                ri_decoded = d, ri_const_ref = ResolveConstRef d op src,
                ri_branch_target = (if IsBranchOpcode op \<and> \<not> data then target else UINT32_MAX)\<rparr>,
               if IsBranchOpcode op \<and> data then Some target else None))"

function decode_from ::
    "image \<Rightarrow> 'cs pool \<Rightarrow> nat \<Rightarrow> nat \<Rightarrow> nat \<Rightarrow> ('cs raw_ins \<times> nat option) list result" where
  "decode_from im src base n i =
     (if i < n then
        bind (SafeWidth im base n i) (\<lambda>w.
        bind (rd_unit im (base + 2 * i) 0) (\<lambda>u.
          if IsPayloadMarker u then decode_from im src base n (i + w)
          else bind (decode_one im src base i w) (\<lambda>ri.
            bind (decode_from im src base n (i + w)) (\<lambda>rest. Inr (ri # rest)))))
      else Inr [])"
  by pat_completeness auto
termination
  by (relation "measure (\<lambda>(im, src, base, n, i). n - i)") (auto dest: SafeWidth_advances)

declare decode_from.simps [simp del]

record 'cs decode_pass =
  dp_ins :: "'cs raw_ins list"
  dp_owner_to_payload :: "(nat \<times> nat) list"
  dp_insns_byte_size :: nat

definition DecodeAllInsns :: "image \<Rightarrow> 'cs pool \<Rightarrow> nat \<Rightarrow> nat \<Rightarrow> 'cs decode_pass result" where
  "DecodeAllInsns im src base n =
     bind (count_insns im base n 0) (\<lambda>_.
     bind (decode_from im src base n 0) (\<lambda>ris.
       Inr \<lparr>dp_ins = map fst ris,
            dp_owner_to_payload =
              List.map_filter (\<lambda>(ri, t). map_option (\<lambda>t. (ri_byte_off ri, t)) t) ris,
            dp_insns_byte_size = u32 (n * 2)\<rparr>))"

section \<open>Leaders\<close>

fun set_insert :: "nat \<Rightarrow> nat list \<Rightarrow> nat list" where
  "set_insert x [] = [x]"
| "set_insert x (y # ys) =
     (if x < y then x # y # ys else if x = y then y # ys else y # set_insert x ys)"

text \<open>The case targets of a switch that are offsets of the code array.\<close>

definition case_leaders :: "nat \<Rightarrow> nat \<Rightarrow> payload \<Rightarrow> nat list" where
  "case_leaders byte_off sz pv =
     (let in_code = (\<lambda>ts. map nat (filter (\<lambda>t. 0 \<le> t \<and> t < int sz)
                                     (map (\<lambda>off. int byte_off + off * 2) ts)))
      in case pv of PackedSwitch _ ts \<Rightarrow> in_code ts | SparseSwitch _ ts \<Rightarrow> in_code ts | _ \<Rightarrow> [])"

definition ins_leaders ::
    "image \<Rightarrow> nat \<Rightarrow> nat \<Rightarrow> 'cs decode_pass \<Rightarrow> 'cs raw_ins \<Rightarrow> nat option \<Rightarrow> nat list result" where
  "ins_leaders im base n pass ri nxt =
     (let op = ri_opcode ri;
          after = (case nxt of
                     None \<Rightarrow> []
                   | Some off \<Rightarrow>
                       if IsBlockTerminator op \<or> IsConditionalBranch op \<or> IsSwitch op then [off] else []);
          target = (if ri_branch_target ri \<noteq> UINT32_MAX then [ri_branch_target ri] else [])
      in case map_of (dp_owner_to_payload pass) (ri_byte_off ri) of
           None \<Rightarrow> Inr (after @ target)
         | Some off \<Rightarrow>
             if u32 (off + 4) > dp_insns_byte_size pass then Inr (after @ target)
             else bind (ParsePayloadAt im base n (off div 2)) (\<lambda>pv.
               Inr (after @ target @ case_leaders (ri_byte_off ri) (dp_insns_byte_size pass) pv)))"

fun leaders_from ::
    "image \<Rightarrow> nat \<Rightarrow> nat \<Rightarrow> 'cs decode_pass \<Rightarrow> 'cs raw_ins list \<Rightarrow> nat list \<Rightarrow> nat list result" where
  "leaders_from im base n pass [] ls = Inr ls"
| "leaders_from im base n pass (ri # ris) ls =
     bind (ins_leaders im base n pass ri (case ris of [] \<Rightarrow> None | r # _ \<Rightarrow> Some (ri_byte_off r)))
       (\<lambda>new. leaders_from im base n pass ris (fold set_insert new ls))"

definition ComputeLeaders :: "image \<Rightarrow> nat \<Rightarrow> nat \<Rightarrow> 'cs decode_pass \<Rightarrow> nat list result" where
  "ComputeLeaders im base n pass =
     (case dp_ins pass of
        [] \<Rightarrow> Inr []
      | ri # _ \<Rightarrow> leaders_from im base n pass (dp_ins pass) [ri_byte_off ri])"

section \<open>The exception table\<close>

record parsed_handler =
  ph_type :: bytes
  ph_handler_byte_off :: nat

record parsed_try =
  pt_start_byte :: nat
  pt_end_byte :: nat
  pt_handlers :: "parsed_handler list"

fun typed_handlers :: "image \<Rightarrow> 'cs pool \<Rightarrow> nat \<Rightarrow> nat \<Rightarrow> nat \<Rightarrow> (parsed_handler list \<times> nat) result" where
  "typed_handlers im src fin 0 p = Inr ([], p)"
| "typed_handlers im src fin (Suc k) p =
     (if p < fin then
        bind (ReadUleb128 im fin p) (\<lambda>(type_idx, p1).
        bind (ReadUleb128 im fin p1) (\<lambda>(addr, p2).
        bind (typed_handlers im src fin k p2) (\<lambda>(hs, p3).
          Inr (\<lparr>ph_type = p_type src type_idx, ph_handler_byte_off = u32 (addr * 2)\<rparr> # hs, p3))))
      else Inr ([], p))"

definition parse_handlers :: "image \<Rightarrow> 'cs pool \<Rightarrow> nat \<Rightarrow> nat \<Rightarrow> parsed_handler list result" where
  "parse_handlers im src fin p =
     bind (ReadSleb128 im fin p) (\<lambda>(sz, p1).
     bind (typed_handlers im src fin (nat \<bar>sz\<bar>) p1) (\<lambda>(hs, p2).
       if sz \<le> 0
       then bind (ReadUleb128 im fin p2) (\<lambda>(addr, _).
              Inr (hs @ [\<lparr>ph_type = [], ph_handler_byte_off = u32 (addr * 2)\<rparr>]))
       else Inr hs))"

text \<open>The try blocks from number \<open>i\<close> on, \<open>k\<close> of them.\<close>

fun parse_tries ::
    "image \<Rightarrow> 'cs pool \<Rightarrow> nat \<Rightarrow> nat \<Rightarrow> nat \<Rightarrow> nat \<Rightarrow> nat \<Rightarrow> parsed_try list result" where
  "parse_tries im src tries handlers_base fin i 0 = Inr []"
| "parse_tries im src tries handlers_base fin i (Suc k) =
     bind (rd_try_block im (tries + i * sizeof_TryBlock)) (\<lambda>tb.
       let p = handlers_base + handler_off tb in
       if p \<ge> fin then parse_tries im src tries handlers_base fin (Suc i) k
       else bind (parse_handlers im src fin p) (\<lambda>hs.
         bind (parse_tries im src tries handlers_base fin (Suc i) k) (\<lambda>pts.
           Inr (\<lparr>pt_start_byte = u32 (start_addr tb * 2),
                 pt_end_byte = u32 (u32 (start_addr tb + insn_count tb) * 2),
                 pt_handlers = hs\<rparr> # pts))))"

definition ParseExceptions ::
    "image \<Rightarrow> 'cs pool \<Rightarrow> nat \<Rightarrow> nat \<Rightarrow> nat \<Rightarrow> nat option \<Rightarrow> parsed_try list result" where
  "ParseExceptions im src base n n_tries img_end =
     (if n_tries = 0 then Inr []
      else let tries = Align4 (base + 2 * n);
               handlers_base = tries + n_tries * sizeof_TryBlock;
               fin = (case img_end of Some e \<Rightarrow> e | None \<Rightarrow> handlers_base + 65536)
           in if handlers_base > fin then Inr []
              else bind (ReadUleb128 im fin handlers_base) (\<lambda>_.
                parse_tries im src tries handlers_base fin 0 n_tries))"

section \<open>Blocks\<close>

datatype edge_kind = Fallthrough | Branch | BranchFalse | SwitchCase | SwitchDefault

record child_edge =
  ce_kind :: edge_kind
  ce_target :: nat
  ce_label :: int

record catch_info =
  ch_type :: bytes
  ch_block :: nat

record 'cs raw_block =
  rb_name :: string
  rb_start_byte :: nat
  rb_end_byte :: nat
  rb_last_length_bytes :: nat
  rb_ins :: "'cs raw_ins list"
  rb_childs :: "child_edge list"
  rb_exception_handlers :: "catch_info list"
  rb_payloads :: "(nat \<times> payload) list"
  rb_starts_off_instruction :: bool

definition FindBlockIdForByteOff :: "'cs raw_block list \<Rightarrow> nat \<Rightarrow> nat option" where
  "FindBlockIdForByteOff blocks byte_off =
     (let k = length (takeWhile (\<lambda>b. rb_start_byte b \<noteq> byte_off) blocks)
      in if k < length blocks then Some k else None)"

text \<open>The instruction at a leader, and the first one at or after it.\<close>

definition ins_at :: "'cs raw_ins list \<Rightarrow> nat \<Rightarrow> nat option" where
  "ins_at ins start =
     (let k = length (takeWhile (\<lambda>r. ri_byte_off r \<noteq> start) ins)
      in if k < length ins then Some k else None)"

definition ins_after :: "'cs raw_ins list \<Rightarrow> nat \<Rightarrow> nat \<Rightarrow> nat option" where
  "ins_after ins start fin =
     (let k = length (takeWhile (\<lambda>r. ri_byte_off r < start) ins)
      in if k < length ins \<and> ri_byte_off (ins ! k) < fin then Some k else None)"

definition block_span :: "'cs raw_ins list \<Rightarrow> nat option \<Rightarrow> nat \<Rightarrow> 'cs raw_ins list" where
  "block_span ins first_idx fin =
     (case first_idx of
        None \<Rightarrow> []
      | Some k \<Rightarrow>
          take (max 1 (length (takeWhile (\<lambda>r. ri_byte_off r < fin) (drop k ins)))) (drop k ins))"

definition make_block :: "'cs raw_ins list \<Rightarrow> nat \<Rightarrow> nat \<Rightarrow> 'cs raw_block" where
  "make_block ins start fin =
     (let exact = ins_at ins start;
          span = block_span ins (if exact = None then ins_after ins start fin else exact) fin
      in \<lparr>rb_name = FormatBlockName start, rb_start_byte = start, rb_end_byte = fin,
          rb_last_length_bytes = (if span = [] then 0 else ri_length_bytes (last span)),
          rb_ins = span, rb_childs = [], rb_exception_handlers = [], rb_payloads = [],
          rb_starts_off_instruction = (exact = None \<and> ins \<noteq> [])\<rparr>)"

fun SplitIntoBlocks :: "'cs raw_ins list \<Rightarrow> nat list \<Rightarrow> nat \<Rightarrow> 'cs raw_block list" where
  "SplitIntoBlocks ins [] insns_byte_size = []"
| "SplitIntoBlocks ins [start] insns_byte_size = [make_block ins start insns_byte_size]"
| "SplitIntoBlocks ins (start # nxt # ls) insns_byte_size =
     make_block ins start nxt # SplitIntoBlocks ins (nxt # ls) insns_byte_size"

section \<open>Edges\<close>

definition edge :: "edge_kind \<Rightarrow> nat option \<Rightarrow> child_edge list" where
  "edge kind tgt =
     (case tgt of None \<Rightarrow> [] | Some t \<Rightarrow> [\<lparr>ce_kind = kind, ce_target = t, ce_label = 0\<rparr>])"

definition case_edge :: "'cs raw_block list \<Rightarrow> nat \<Rightarrow> int \<times> int \<Rightarrow> child_edge list" where
  "case_edge blocks byte_off lt =
     (case FindBlockIdForByteOff blocks (cast_u32 (int byte_off + snd lt * 2)) of
        None \<Rightarrow> []
      | Some t \<Rightarrow> [\<lparr>ce_kind = SwitchCase, ce_target = t, ce_label = fst lt\<rparr>])"

text \<open>Labels and targets of a switch payload. The label of a packed case is a 32-bit sum.\<close>

definition switch_cases :: "payload \<Rightarrow> (int \<times> int) list option" where
  "switch_cases pv =
     (case pv of
        PackedSwitch first_key ts \<Rightarrow>
          Some (zip (map (\<lambda>k. sint (word_of_int (first_key + int k) :: 32 word)) [0..<length ts]) ts)
      | SparseSwitch keys ts \<Rightarrow> Some (zip keys ts)
      | _ \<Rightarrow> None)"

definition child_edges ::
    "image \<Rightarrow> nat \<Rightarrow> nat \<Rightarrow> 'cs decode_pass \<Rightarrow> nat list \<Rightarrow> 'cs raw_block list \<Rightarrow> 'cs raw_block
       \<Rightarrow> 'cs raw_block result" where
  "child_edges im base n pass handler_offs blocks b =
     (let find = FindBlockIdForByteOff blocks;
          out = (\<lambda>es. Inr (b\<lparr>rb_childs := rb_childs b @ es\<rparr>))
      in if rb_ins b = [] then
           out (if rb_end_byte b > rb_start_byte b \<and> rb_start_byte b \<notin> set handler_offs
                then edge Fallthrough (find (rb_end_byte b)) else [])
         else let l = last (rb_ins b); op = ri_opcode l in
           if IsReturn op \<or> IsThrow op then Inr b
           else if IsUnconditionalBranch op then out (edge Branch (find (ri_branch_target l)))
           else if IsConditionalBranch op
           then out (edge BranchFalse (find (rb_end_byte b)) @ edge Branch (find (ri_branch_target l)))
           else if IsSwitch op then
             (let dflt = edge SwitchDefault (find (rb_end_byte b)) in
              case map_of (dp_owner_to_payload pass) (ri_byte_off l) of
                None \<Rightarrow> out dflt
              | Some off \<Rightarrow>
                  bind (ParsePayloadAt im base n (off div 2)) (\<lambda>pv.
                    case switch_cases pv of
                      None \<Rightarrow> out dflt
                    | Some cs \<Rightarrow>
                        Inr (b\<lparr>rb_childs := rb_childs b @ dflt @ concat (map (case_edge blocks (ri_byte_off l)) cs),
                              rb_payloads := AList.update (ri_byte_off l) pv (rb_payloads b)\<rparr>)))
           else out (edge Fallthrough (find (rb_end_byte b))))"

fun array_payloads ::
    "image \<Rightarrow> nat \<Rightarrow> nat \<Rightarrow> 'cs decode_pass \<Rightarrow> 'cs raw_ins list \<Rightarrow> (nat \<times> payload) list
       \<Rightarrow> (nat \<times> payload) list result" where
  "array_payloads im base n pass [] ps = Inr ps"
| "array_payloads im base n pass (ri # ris) ps =
     (if ri_opcode ri \<noteq> OP_FILL_ARRAY_DATA then array_payloads im base n pass ris ps
      else case map_of (dp_owner_to_payload pass) (ri_byte_off ri) of
        None \<Rightarrow> array_payloads im base n pass ris ps
      | Some off \<Rightarrow>
          bind (ParsePayloadAt im base n (off div 2)) (\<lambda>pv.
            array_payloads im base n pass ris (AList.update (ri_byte_off ri) pv ps)))"

definition attach_arrays ::
    "image \<Rightarrow> nat \<Rightarrow> nat \<Rightarrow> 'cs decode_pass \<Rightarrow> 'cs raw_block \<Rightarrow> 'cs raw_block result" where
  "attach_arrays im base n pass b =
     bind (array_payloads im base n pass (rb_ins b) (rb_payloads b)) (\<lambda>ps. Inr (b\<lparr>rb_payloads := ps\<rparr>))"

fun map_result :: "('a \<Rightarrow> 'e + 'b) \<Rightarrow> 'a list \<Rightarrow> 'e + 'b list" where
  "map_result f [] = Inr []"
| "map_result f (x # xs) = bind (f x) (\<lambda>y. bind (map_result f xs) (\<lambda>ys. Inr (y # ys)))"

text \<open>No block start changes while edges are added, so the lookups see the blocks as split.\<close>

definition ComputeChildEdges ::
    "image \<Rightarrow> nat \<Rightarrow> nat \<Rightarrow> 'cs decode_pass \<Rightarrow> nat list \<Rightarrow> 'cs raw_block list \<Rightarrow> 'cs raw_block list result" where
  "ComputeChildEdges im base n pass handler_offs blocks =
     bind (map_result (child_edges im base n pass handler_offs blocks) blocks) (\<lambda>bs.
       map_result (attach_arrays im base n pass) bs)"

definition catch_infos :: "'cs raw_block list \<Rightarrow> parsed_try \<Rightarrow> catch_info list" where
  "catch_infos blocks pt =
     List.map_filter (\<lambda>ph. map_option (\<lambda>id. \<lparr>ch_type = ph_type ph, ch_block = id\<rparr>)
         (FindBlockIdForByteOff blocks (ph_handler_byte_off ph))) (pt_handlers pt)"

record exception_range =
  er_start_byte :: nat
  er_end_byte :: nat
  er_handlers :: "catch_info list"

definition AttachExceptionHandlers ::
    "parsed_try list \<Rightarrow> 'cs raw_block list \<Rightarrow> 'cs raw_block list \<times> exception_range list" where
  "AttachExceptionHandlers tries blocks =
     (map (\<lambda>b. b\<lparr>rb_exception_handlers := rb_exception_handlers b @
          concat (map (catch_infos blocks)
            (filter (\<lambda>pt. rb_start_byte b \<ge> pt_start_byte pt \<and> rb_start_byte b < pt_end_byte pt) tries))\<rparr>)
        blocks,
      map (\<lambda>pt. \<lparr>er_start_byte = pt_start_byte pt, er_end_byte = pt_end_byte pt,
                er_handlers = catch_infos blocks pt\<rparr>) tries)"

section \<open>Metadata\<close>

record meta_data =
  md_cls_name :: bytes
  md_name :: bytes
  md_proto :: bytes
  md_ret_type :: bytes
  md_params_type :: "bytes list"
  md_lparams :: "int list"
  md_access :: "bytes list"
  md_triple :: "bytes \<times> bytes \<times> bytes"
  md_method_idx :: nat

definition FillMethodMeta :: "'cs pool \<Rightarrow> nat \<Rightarrow> meta_data" where
  "FillMethodMeta src method_idx =
     (let cls = p_method_class src method_idx; name = p_method_name src method_idx;
          proto = p_method_proto src method_idx;
          stripped = (if length cls \<ge> 2 \<and> hd cls = 0x4C \<and> last cls = 0x3B then butlast (tl cls) else cls)
      in \<lparr>md_cls_name = cls, md_name = name, md_proto = proto, md_ret_type = return_type proto,
          md_params_type = ParseParamsType proto, md_lparams = [],
          md_access = GetAccessMethod (p_access_flags src method_idx),
          md_triple = (stripped, name, proto), md_method_idx = method_idx\<rparr>)"

text \<open>The first register of each parameter, wide ones taking two.\<close>

fun param_registers :: "int \<Rightarrow> bytes list \<Rightarrow> int list" where
  "param_registers r [] = []"
| "param_registers r (t # ts) = r # param_registers (r + int (GetTypeSize t)) ts"

definition ComputeLparams :: "meta_data \<Rightarrow> nat \<Rightarrow> nat \<Rightarrow> meta_data" where
  "ComputeLparams m n_regs n_ins =
     (if n_ins = 0 then m
      else let start = int n_regs - int n_ins;
               is_static = lit ''static'' \<in> set (md_access m)
           in m\<lparr>md_lparams :=
                 (if is_static then param_registers start (md_params_type m)
                  else start # param_registers (start + 1) (md_params_type m))\<rparr>)"

section \<open>The snapshot\<close>

record 'cs snapshot =
  sn_meta :: meta_data
  sn_registers_size :: nat
  sn_ins_size :: nat
  sn_code_without_instructions :: bool
  sn_entry_not_at_offset_zero :: bool
  sn_ins_storage :: "'cs raw_ins list"
  sn_blocks :: "'cs raw_block list"
  sn_entry_block_id :: "nat option"
  sn_exceptions :: "exception_range list"

definition empty_snapshot :: "meta_data \<Rightarrow> 'cs snapshot" where
  "empty_snapshot m =
     \<lparr>sn_meta = m, sn_registers_size = 0, sn_ins_size = 0, sn_code_without_instructions = False,
      sn_entry_not_at_offset_zero = False, sn_ins_storage = [], sn_blocks = [],
      sn_entry_block_id = None, sn_exceptions = []\<rparr>"

definition handler_offsets :: "parsed_try list \<Rightarrow> nat list" where
  "handler_offsets tries = concat (map (\<lambda>pt. map ph_handler_byte_off (pt_handlers pt)) tries)"

definition try_leaders :: "parsed_try list \<Rightarrow> nat list" where
  "try_leaders tries =
     concat (map (\<lambda>pt. pt_start_byte pt # map ph_handler_byte_off (pt_handlers pt)) tries)"

definition finish :: "'cs snapshot \<Rightarrow> 'cs snapshot result" where
  "finish sn =
     (case sn_ins_storage sn of
        [] \<Rightarrow> Inr (sn\<lparr>sn_code_without_instructions := True\<rparr>)
      | ri # _ \<Rightarrow>
        (case FindBlockIdForByteOff (sn_blocks sn) (ri_byte_off ri) of
           None \<Rightarrow> throw ''MethodSnapshotBuilder: first instruction starts no block''
         | Some e \<Rightarrow> Inr (sn\<lparr>sn_entry_block_id := Some e,
                            sn_entry_not_at_offset_zero := (ri_byte_off ri \<noteq> 0)\<rparr>)))"

definition build_code ::
    "image \<Rightarrow> 'cs pool \<Rightarrow> meta_data \<Rightarrow> nat \<Rightarrow> code_hdr \<Rightarrow> 'cs snapshot result" where
  "build_code im src m base code =
     (let n = insns_size code in
      bind (DecodeAllInsns im src base n) (\<lambda>pass.
      bind (ComputeLeaders im base n pass) (\<lambda>ls.
      bind (ParseExceptions im src base n (tries_size code) (p_image_end src)) (\<lambda>tries.
        let leaders = fold set_insert (try_leaders tries) ls;
            blocks = SplitIntoBlocks (dp_ins pass) leaders (dp_insns_byte_size pass)
        in bind (ComputeChildEdges im base n pass (handler_offsets tries) blocks) (\<lambda>linked.
          let (bs, excs) = AttachExceptionHandlers tries linked
          in finish (empty_snapshot (ComputeLparams m (registers_size code) (ins_size code))
               \<lparr>sn_registers_size := registers_size code, sn_ins_size := ins_size code,
                sn_ins_storage := dp_ins pass, sn_blocks := bs, sn_exceptions := excs\<rparr>))))))"

definition Build :: "image \<Rightarrow> 'cs pool \<Rightarrow> nat \<Rightarrow> 'cs snapshot result" where
  "Build im src method_idx =
     (let m = FillMethodMeta src method_idx in
      case p_code src method_idx of
        None \<Rightarrow> Inr (empty_snapshot m)
      | Some pos \<Rightarrow>
          bind (rd_code im pos) (\<lambda>code. build_code im src m (pos + sizeof_Code) code))"

end
