(* ===== verification/Snapshot_Laws.thy ===== *)
theory Snapshot_Laws
  imports Snapshot_Builder
begin

text \<open>
  What a snapshot guarantees its consumers: the blocks partition the decoded instructions, edges
  and handlers name blocks that exist, every branch target starts a block, and the entry is the
  block of the first instruction. On code the verifier accepted the builder returns, without
  leaving the image.
\<close>

section \<open>Ascending offsets\<close>

abbreviation offs :: "'cs raw_ins list \<Rightarrow> nat list" where
  "offs ins \<equiv> map ri_byte_off ins"

lemma sorted_takeWhile_filter:
  "sorted (map f xs) \<Longrightarrow> takeWhile (\<lambda>x. f x < (b :: nat)) xs = filter (\<lambda>x. f x < b) xs"
  by (induction xs) (auto simp: filter_empty_conv not_less eq_commute [of "[]"] dest: order.trans)

lemma sorted_dropWhile_filter:
  "sorted (map f xs) \<Longrightarrow> dropWhile (\<lambda>x. f x < (a :: nat)) xs = filter (\<lambda>x. a \<le> f x) xs"
  by (induction xs) (auto simp: not_less intro!: filter_True [symmetric] dest: order.trans)

lemma takeWhile_ne_less:
  "sorted (map f xs) \<Longrightarrow> start \<in> f ` set xs \<Longrightarrow>
     takeWhile (\<lambda>x. f x \<noteq> start) xs = takeWhile (\<lambda>x. f x < (start :: nat)) xs"
  by (induction xs) auto

lemma ins_at_Some:
  assumes "sorted (offs ins)" "ins_at ins start = Some k"
  shows "k = length (takeWhile (\<lambda>r. ri_byte_off r < start) ins)" "k < length ins"
    "ri_byte_off (ins ! k) = start"
proof -
  have k: "k = length (takeWhile (\<lambda>r. ri_byte_off r \<noteq> start) ins)" "k < length ins"
    using assms(2) by (auto simp: ins_at_def Let_def split: if_splits)
  then show at: "k < length ins" "ri_byte_off (ins ! k) = start"
    using nth_length_takeWhile [of "\<lambda>r. ri_byte_off r \<noteq> start" ins] by auto
  then have "start \<in> ri_byte_off ` set ins" by (metis imageI nth_mem)
  with k(1) show "k = length (takeWhile (\<lambda>r. ri_byte_off r < start) ins)"
    by (simp add: takeWhile_ne_less [OF assms(1)])
qed

lemma make_block_ins:
  assumes sorted: "sorted (offs ins)"
    and inside: "start < fin \<or> list_all (\<lambda>r. ri_byte_off r < start) ins"
  shows "rb_ins (make_block ins start fin) = filter (\<lambda>r. start \<le> ri_byte_off r \<and> ri_byte_off r < fin) ins"
proof -
  let ?k = "length (takeWhile (\<lambda>r. ri_byte_off r < start) ins)"
  let ?tail = "drop ?k ins"
  have tail: "?tail = filter (\<lambda>r. start \<le> ri_byte_off r) ins"
    using sorted_dropWhile_filter [OF sorted, of start] by (simp add: dropWhile_eq_drop)
  then have "sorted (offs ?tail)" using sorted by (metis sorted_filter)
  then have whole: "takeWhile (\<lambda>r. ri_byte_off r < fin) ?tail
      = filter (\<lambda>r. start \<le> ri_byte_off r \<and> ri_byte_off r < fin) ins"
    using sorted_takeWhile_filter [of ri_byte_off ?tail fin] tail by (simp add: conj_commute)
  have span: "block_span ins (Some ?k) fin = takeWhile (\<lambda>r. ri_byte_off r < fin) ?tail"
    if "?k < length ins" "ri_byte_off (ins ! ?k) < fin"
  proof -
    have "takeWhile (\<lambda>r. ri_byte_off r < fin) ?tail \<noteq> []"
      using that by (cases ?tail) (auto simp: hd_drop_conv_nth [symmetric])
    then have "max 1 (length (takeWhile (\<lambda>r. ri_byte_off r < fin) ?tail))
        = length (takeWhile (\<lambda>r. ri_byte_off r < fin) ?tail)" by (simp add: Suc_le_eq max_absorb2)
    then show ?thesis by (simp add: block_span_def takeWhile_eq_take [symmetric])
  qed
  show ?thesis
  proof (cases "ins_at ins start")
    case (Some k)
    note k = ins_at_Some [OF sorted Some]
    have "start < fin" using inside k(2,3) by (auto simp: list_all_iff dest: nth_mem)
    with k span Some whole show ?thesis by (simp add: make_block_def Let_def)
  next
    case None
    show ?thesis
    proof (cases "?k < length ins \<and> ri_byte_off (ins ! ?k) < fin")
      case True
      with None span whole show ?thesis by (simp add: make_block_def ins_after_def Let_def)
    next
      case False
      then have "takeWhile (\<lambda>r. ri_byte_off r < fin) ?tail = []"
        by (cases ?tail) (auto simp: hd_drop_conv_nth [symmetric])
      with None False whole show ?thesis by (auto simp: make_block_def ins_after_def block_span_def Let_def)
    qed
  qed
qed

lemma filter_split:
  "sorted (map f xs) \<Longrightarrow> (a :: nat) \<le> b \<Longrightarrow>
     filter (\<lambda>x. a \<le> f x \<and> f x < b) xs @ filter (\<lambda>x. b \<le> f x) xs = filter (\<lambda>x. a \<le> f x) xs"
proof (induction xs)
  case (Cons x xs)
  show ?case
  proof (cases "f x < b")
    case False
    then have "\<forall>y \<in> set xs. b \<le> f y" using Cons.prems by auto
    then have "filter (\<lambda>x. a \<le> f x \<and> f x < b) xs = []" by (auto simp: filter_empty_conv)
    with Cons False show ?thesis by auto
  qed (use Cons in auto)
qed simp

lemma SplitIntoBlocks_ins:
  assumes sorted: "sorted (offs ins)" and small: "list_all (\<lambda>r. ri_byte_off r < sz) ins"
  shows "sorted_wrt (<) (start # ls) \<Longrightarrow>
    concat (map rb_ins (SplitIntoBlocks ins (start # ls) sz)) = filter (\<lambda>r. start \<le> ri_byte_off r) ins"
proof (induction ls arbitrary: start)
  case Nil
  have "start < sz \<or> list_all (\<lambda>r. ri_byte_off r < start) ins"
    using small by (fastforce simp: list_all_iff)
  moreover have "filter (\<lambda>r. start \<le> ri_byte_off r \<and> ri_byte_off r < sz) ins
      = filter (\<lambda>r. start \<le> ri_byte_off r) ins"
    using small by (intro filter_cong) (auto simp: list_all_iff)
  ultimately show ?case using make_block_ins [OF sorted] by simp
next
  case (Cons nxt ls)
  then have "start < nxt" by simp
  with Cons show ?case
    using make_block_ins [OF sorted, of start nxt] filter_split [OF sorted, of start nxt] by simp
qed

section \<open>Leaders\<close>

lemma set_insert_set [simp]: "set (set_insert x ys) = insert x (set ys)"
  by (induction ys) auto

lemma set_insert_sorted: "sorted_wrt (<) ys \<Longrightarrow> sorted_wrt (<) (set_insert x ys)"
  by (induction ys) auto

lemma fold_set_insert:
  "set (fold set_insert xs ys) = set xs \<union> set ys"
  "sorted_wrt (<) ys \<Longrightarrow> sorted_wrt (<) (fold set_insert xs ys)"
  by (induction xs arbitrary: ys) (auto simp: set_insert_sorted)

definition ends_block :: "nat \<Rightarrow> bool" where
  "ends_block op \<longleftrightarrow> IsBlockTerminator op \<or> IsConditionalBranch op \<or> IsSwitch op"

text \<open>Where a block must start: after an instruction that ends one, and at every branch target.\<close>

definition cuts :: "'cs raw_ins list \<Rightarrow> nat list \<Rightarrow> bool" where
  "cuts ins ls \<longleftrightarrow>
     (\<forall>r \<in> set ins. ri_branch_target r \<noteq> UINT32_MAX \<longrightarrow> ri_branch_target r \<in> set ls) \<and>
     (\<forall>i. Suc i < length ins \<longrightarrow> ends_block (ri_opcode (ins ! i)) \<longrightarrow> ri_byte_off (ins ! Suc i) \<in> set ls)"

lemma leaders_from_facts:
  "leaders_from im base n pass ris ls = Inr ls' \<Longrightarrow>
     set ls \<subseteq> set ls' \<and> (sorted_wrt (<) ls \<longrightarrow> sorted_wrt (<) ls') \<and> cuts ris ls'"
proof (induction im base n pass ris ls arbitrary: ls' rule: leaders_from.induct)
  case (2 im base n pass ri ris ls)
  from "2.prems" obtain new where new: "ins_leaders im base n pass ri
      (case ris of [] \<Rightarrow> None | r # _ \<Rightarrow> Some (ri_byte_off r)) = Inr new"
      "leaders_from im base n pass ris (fold set_insert new ls) = Inr ls'"
    by (auto simp: bind_eq_Inr)
  have "ri_branch_target ri \<in> set new" if "ri_branch_target ri \<noteq> UINT32_MAX"
    using new(1) that by (auto simp: ins_leaders_def Let_def bind_eq_Inr split: option.splits if_splits)
  moreover have "ri_byte_off (ris ! 0) \<in> set new" if "length ris = Suc m" "ends_block (ri_opcode ri)" for m
    using new(1) that
    by (cases ris) (auto simp: ins_leaders_def ends_block_def Let_def bind_eq_Inr split: option.splits if_splits)
  ultimately show ?case using "2.IH" [OF new]
    by (auto simp: fold_set_insert cuts_def nth_Cons' gr0_conv_Suc split: if_splits)
qed (simp add: cuts_def)

lemma ComputeLeaders_facts:
  assumes "ComputeLeaders im base n pass = Inr ls" "dp_ins pass \<noteq> []"
  shows "sorted_wrt (<) ls" "ri_byte_off (hd (dp_ins pass)) \<in> set ls" "cuts (dp_ins pass) ls"
  using assms leaders_from_facts [of im base n pass "dp_ins pass" "[ri_byte_off (hd (dp_ins pass))]" ls]
  by (auto simp: ComputeLeaders_def split: list.splits)

lemma cuts_mono: "cuts ins ls \<Longrightarrow> set ls \<subseteq> set ls' \<Longrightarrow> cuts ins ls'"
  by (auto simp: cuts_def)

section \<open>The decode\<close>

lemma decode_from_offsets:
  "n < 2147483648 \<Longrightarrow> decode_from im src base n i = Inr ris \<Longrightarrow>
    sorted_wrt (<) (offs (map fst ris)) \<and>
    list_all (\<lambda>r. i * 2 \<le> ri_byte_off r \<and> ri_byte_off r < n * 2) (map fst ris)"
proof (induction im src base n i arbitrary: ris rule: decode_from.induct)
  case (1 im src base n i)
  show ?case
  proof (cases "i < n")
    case True
    with "1.prems"(2) obtain w u where w: "SafeWidth im base n i = Inr w"
        "rd_unit im (base + 2 * i) 0 = Inr u"
      by (subst (asm) decode_from.simps) (auto simp: bind_eq_Inr)
    then have adv: "0 < w" by (auto dest: SafeWidth_advances)
    have small: "u32 (i * 2) = i * 2"
      unfolding u32_def by (rule mod_less) (use True "1.prems"(1) in linarith)
    show ?thesis
    proof (cases "IsPayloadMarker u")
      case True
      with "1.prems"(2) w \<open>i < n\<close> have "decode_from im src base n (i + w) = Inr ris"
        by (subst (asm) decode_from.simps) simp
      from "1.IH"(1) [OF \<open>i < n\<close> w True "1.prems"(1) this] show ?thesis by (fastforce simp: list_all_iff)
    next
      case False
      with "1.prems"(2) w \<open>i < n\<close> obtain ri rest where ri: "decode_one im src base i w = Inr ri"
          "decode_from im src base n (i + w) = Inr rest" "ris = ri # rest"
        by (subst (asm) decode_from.simps) (auto simp: bind_eq_Inr)
      have "ri_byte_off (fst ri) = i * 2"
        using ri(1) small by (auto simp: decode_one_def bind_eq_Inr Let_def)
      with "1.IH"(2) [OF \<open>i < n\<close> w False ri(1) "1.prems"(1) ri(2)] adv ri(3) \<open>i < n\<close> show ?thesis
        by (auto simp: list_all_iff)
    qed
  qed (use "1.prems" in \<open>simp add: decode_from.simps\<close>)
qed

lemma DecodeAllInsns_offsets:
  assumes "DecodeAllInsns im src base n = Inr pass" "n < 2147483648"
  shows "sorted_wrt (<) (offs (dp_ins pass))" "list_all (\<lambda>r. ri_byte_off r < dp_insns_byte_size pass) (dp_ins pass)"
proof -
  obtain ris where ris: "decode_from im src base n 0 = Inr ris" "dp_ins pass = map fst ris"
      "dp_insns_byte_size pass = u32 (n * 2)"
    using assms(1) by (auto simp: DecodeAllInsns_def bind_eq_Inr)
  have "u32 (n * 2) = n * 2" using assms(2) by (simp add: u32_def)
  with decode_from_offsets [OF assms(2) ris(1)] ris(2,3)
  show "sorted_wrt (<) (offs (dp_ins pass))" "list_all (\<lambda>r. ri_byte_off r < dp_insns_byte_size pass) (dp_ins pass)"
    by (auto simp: list_all_iff)
qed

section \<open>Blocks and edges\<close>

lemma make_block_simps [simp]:
  "rb_start_byte (make_block ins start fin) = start" "rb_end_byte (make_block ins start fin) = fin"
  "rb_childs (make_block ins start fin) = []" "rb_exception_handlers (make_block ins start fin) = []"
  by (simp_all add: make_block_def Let_def)

lemma SplitIntoBlocks_starts: "map rb_start_byte (SplitIntoBlocks ins ls sz) = ls"
  by (induction ins ls sz rule: SplitIntoBlocks.induct) simp_all

lemma FindBlock_Some:
  assumes "FindBlockIdForByteOff blocks off = Some k"
  shows "k < length blocks \<and> rb_start_byte (blocks ! k) = off"
  using assms nth_length_takeWhile [of "\<lambda>b. rb_start_byte b \<noteq> off" blocks]
  by (auto simp: FindBlockIdForByteOff_def Let_def split: if_splits)

lemma FindBlock_None: "FindBlockIdForByteOff blocks off = None \<longleftrightarrow> off \<notin> rb_start_byte ` set blocks"
proof -
  have "length (takeWhile P xs) < length xs \<longleftrightarrow> (\<exists>x \<in> set xs. \<not> P x)" for P :: "'b \<Rightarrow> bool" and xs
    by (induction xs) auto
  then show ?thesis by (auto simp: FindBlockIdForByteOff_def Let_def)
qed

lemma FindBlock_starts:
  "FindBlockIdForByteOff bs off =
     (let k = length (takeWhile (\<lambda>x. x \<noteq> off) (map rb_start_byte bs))
      in if k < length (map rb_start_byte bs) then Some k else None)"
  by (simp add: FindBlockIdForByteOff_def takeWhile_map comp_def)

lemma FindBlock_cong:
  "map rb_start_byte bs = map rb_start_byte bs' \<Longrightarrow> FindBlockIdForByteOff bs off = FindBlockIdForByteOff bs' off"
  unfolding FindBlock_starts by (simp only:)

lemma map_result_Inr:
  "map_result f xs = Inr ys \<Longrightarrow> length ys = length xs \<and> (\<forall>i < length xs. f (xs ! i) = Inr (ys ! i))"
proof (induction xs arbitrary: ys)
  case (Cons x xs)
  then show ?case by (fastforce simp: bind_eq_Inr less_Suc_eq_0_disj)
qed simp

text \<open>What edges and payloads leave alone.\<close>

definition same_block :: "'cs raw_block \<Rightarrow> 'cs raw_block \<Rightarrow> bool" where
  "same_block b b' \<longleftrightarrow> rb_start_byte b' = rb_start_byte b \<and> rb_end_byte b' = rb_end_byte b \<and> rb_ins b' = rb_ins b"

definition edges_in :: "nat \<Rightarrow> 'cs raw_block \<Rightarrow> bool" where
  "edges_in n b \<longleftrightarrow> list_all (\<lambda>e. ce_target e < n) (rb_childs b)
     \<and> list_all (\<lambda>h. ch_block h < n) (rb_exception_handlers b)"

lemma edge_in: "e \<in> set (edge kind (FindBlockIdForByteOff blocks off)) \<Longrightarrow> ce_target e < length blocks"
  by (auto simp: edge_def dest!: FindBlock_Some [OF sym] split: option.splits)

lemma case_edge_in: "e \<in> set (case_edge blocks off lt) \<Longrightarrow> ce_target e < length blocks"
  by (auto simp: case_edge_def dest!: FindBlock_Some [OF sym] split: option.splits)

lemma child_edges_facts:
  assumes "child_edges im base n pass hs blocks b = Inr b'" "edges_in (length blocks) b"
  shows "same_block b b' \<and> edges_in (length blocks) b'"
  using assms
  by (auto simp: child_edges_def Let_def same_block_def edges_in_def list_all_iff bind_eq_Inr
      dest!: edge_in case_edge_in split: if_splits option.splits)

lemma attach_arrays_facts:
  assumes "attach_arrays im base n pass b = Inr b'"
  shows "same_block b b' \<and> rb_childs b' = rb_childs b \<and> rb_exception_handlers b' = rb_exception_handlers b"
  using assms by (auto simp: attach_arrays_def same_block_def bind_eq_Inr)

lemma ComputeChildEdges_facts:
  assumes "ComputeChildEdges im base n pass hs blocks = Inr bs"
    "\<forall>b \<in> set blocks. edges_in (length blocks) b"
  shows "length bs = length blocks"
    "\<forall>i < length blocks. same_block (blocks ! i) (bs ! i) \<and> edges_in (length blocks) (bs ! i) \<and>
      (\<exists>b'. child_edges im base n pass hs blocks (blocks ! i) = Inr b' \<and> rb_childs (bs ! i) = rb_childs b')"
proof -
  obtain mid where mid: "map_result (child_edges im base n pass hs blocks) blocks = Inr mid"
      "map_result (attach_arrays im base n pass) mid = Inr bs"
    using assms(1) by (auto simp: ComputeChildEdges_def bind_eq_Inr)
  note m = map_result_Inr [OF mid(1)] map_result_Inr [OF mid(2)]
  then show "length bs = length blocks" by simp
  show "\<forall>i < length blocks. same_block (blocks ! i) (bs ! i) \<and> edges_in (length blocks) (bs ! i) \<and>
      (\<exists>b'. child_edges im base n pass hs blocks (blocks ! i) = Inr b' \<and> rb_childs (bs ! i) = rb_childs b')"
  proof (intro allI impI)
    fix i assume i: "i < length blocks"
    with m have one: "child_edges im base n pass hs blocks (blocks ! i) = Inr (mid ! i)"
        "attach_arrays im base n pass (mid ! i) = Inr (bs ! i)" by auto
    from child_edges_facts [OF one(1)] attach_arrays_facts [OF one(2)] assms(2) i one(1)
    show "same_block (blocks ! i) (bs ! i) \<and> edges_in (length blocks) (bs ! i) \<and>
      (\<exists>b'. child_edges im base n pass hs blocks (blocks ! i) = Inr b' \<and> rb_childs (bs ! i) = rb_childs b')"
      by (auto simp: same_block_def edges_in_def)
  qed
qed

lemma catch_infos_in: "h \<in> set (catch_infos blocks pt) \<Longrightarrow> ch_block h < length blocks"
  by (auto simp: catch_infos_def List.map_filter_def dest: FindBlock_Some)

lemma AttachExceptionHandlers_facts:
  assumes "AttachExceptionHandlers tries blocks = (bs, excs)" "\<forall>b \<in> set blocks. edges_in (length blocks) b"
  shows "length bs = length blocks"
    "\<forall>i < length blocks. same_block (blocks ! i) (bs ! i) \<and> edges_in (length blocks) (bs ! i)
      \<and> rb_childs (bs ! i) = rb_childs (blocks ! i)"
    "\<forall>er \<in> set excs. list_all (\<lambda>h. ch_block h < length blocks) (er_handlers er)"
proof -
  let ?new = "\<lambda>b. concat (map (catch_infos blocks)
    (filter (\<lambda>pt. rb_start_byte b \<ge> pt_start_byte pt \<and> rb_start_byte b < pt_end_byte pt) tries))"
  have eqs: "bs = map (\<lambda>b. b\<lparr>rb_exception_handlers := rb_exception_handlers b @ ?new b\<rparr>) blocks"
      "excs = map (\<lambda>pt. \<lparr>er_start_byte = pt_start_byte pt, er_end_byte = pt_end_byte pt,
        er_handlers = catch_infos blocks pt\<rparr>) tries"
    using assms(1) by (simp_all add: AttachExceptionHandlers_def)
  have "list_all (\<lambda>h. ch_block h < length blocks) (?new b)" for b :: "'a raw_block"
    by (auto simp: list_all_iff dest: catch_infos_in)
  then show "length bs = length blocks"
    "\<forall>i < length blocks. same_block (blocks ! i) (bs ! i) \<and> edges_in (length blocks) (bs ! i)
      \<and> rb_childs (bs ! i) = rb_childs (blocks ! i)"
    using assms(2) by (simp_all add: eqs(1) same_block_def edges_in_def)
  show "\<forall>er \<in> set excs. list_all (\<lambda>h. ch_block h < length blocks) (er_handlers er)"
    by (auto simp: eqs(2) list_all_iff dest: catch_infos_in)
qed

text \<open>The successors of a block that ends in a conditional branch.\<close>

lemma if_edges:
  assumes "child_edges im base n pass hs blocks b = Inr b'" "rb_childs b = []" "rb_ins b \<noteq> []"
    "IsConditionalBranch (ri_opcode (last (rb_ins b)))"
    "FindBlockIdForByteOff blocks (rb_end_byte b) = Some f"
    "FindBlockIdForByteOff blocks (ri_branch_target (last (rb_ins b))) = Some t"
  shows "rb_childs b' = [\<lparr>ce_kind = BranchFalse, ce_target = f, ce_label = 0\<rparr>,
    \<lparr>ce_kind = Branch, ce_target = t, ce_label = 0\<rparr>]"
  using assms
  by (auto simp: child_edges_def Let_def edge_def IsReturn_def IsThrow_def IsUnconditionalBranch_def
      IsConditionalBranch_def)

lemma SplitIntoBlocks_mem:
  "b \<in> set (SplitIntoBlocks ins ls sz) \<Longrightarrow> \<exists>fin. b = make_block ins (rb_start_byte b) fin"
  by (induction ins ls sz rule: SplitIntoBlocks.induct) auto

lemma first_block:
  assumes "ins \<noteq> []"
  shows "rb_ins (make_block ins (ri_byte_off (hd ins)) fin) \<noteq> [] \<and>
    hd (rb_ins (make_block ins (ri_byte_off (hd ins)) fin)) = hd ins"
  using assms by (cases ins) (auto simp: make_block_def Let_def ins_at_def block_span_def)

lemma strict_sorted: "sorted_wrt (<) xs \<Longrightarrow> sorted (xs :: nat list)"
  by (rule sorted_wrt_mono_rel [of _ "(<)"]) simp_all

lemma hd_least: "sorted_wrt (<) xs \<Longrightarrow> x \<in> set xs \<Longrightarrow> hd xs \<le> (x :: nat)"
  by (cases xs) auto

lemma blocks_partition:
  assumes "sorted_wrt (<) (offs ins)" "list_all (\<lambda>r. ri_byte_off r < sz) ins" "sorted_wrt (<) ls"
    "ins \<noteq> [] \<Longrightarrow> ri_byte_off (hd ins) \<in> set ls"
  shows "concat (map rb_ins (SplitIntoBlocks ins ls sz)) = ins"
proof (cases ls)
  case Nil
  with assms(4) show ?thesis by (cases ins) auto
next
  case (Cons start ls')
  have "\<forall>r \<in> set ins. start \<le> ri_byte_off r"
  proof (cases "ins = []")
    case False
    with assms(3,4) Cons have "start \<le> ri_byte_off (hd ins)" using hd_least by fastforce
    moreover have "\<forall>r \<in> set ins. ri_byte_off (hd ins) \<le> ri_byte_off r"
      using assms(1) by (cases ins) auto
    ultimately show ?thesis by auto
  qed simp
  then show ?thesis
    using SplitIntoBlocks_ins [OF strict_sorted [OF assms(1)] assms(2)] assms(3) Cons
    by (simp add: filter_True)
qed

text \<open>A basic block: control enters at its first instruction only and leaves at its last.\<close>

definition basic_block :: "'cs raw_ins list \<Rightarrow> 'cs raw_block \<Rightarrow> bool" where
  "basic_block ins b \<longleftrightarrow>
     list_all (\<lambda>r. \<not> ends_block (ri_opcode r)) (butlast (rb_ins b)) \<and>
     (\<forall>r \<in> set ins. ri_branch_target r \<noteq> UINT32_MAX \<longrightarrow>
        ri_branch_target r \<notin> ri_byte_off ` set (tl (rb_ins b)))"

lemma SplitIntoBlocks_span:
  "sorted_wrt (<) ls \<Longrightarrow> b \<in> set (SplitIntoBlocks ins ls sz) \<Longrightarrow>
     \<exists>start fin. b = make_block ins start fin \<and> start \<in> set ls \<and> (start < fin \<or> fin = sz) \<and>
       (\<forall>l \<in> set ls. start < l \<longrightarrow> fin \<le> l)"
proof (induction ins ls sz rule: SplitIntoBlocks.induct)
  case (3 ins start nxt ls sz)
  from "3.prems" consider "b = make_block ins start nxt" | "b \<in> set (SplitIntoBlocks ins (nxt # ls) sz)" by auto
  then show ?case
  proof cases
    case 1
    with "3.prems"(1) show ?thesis by (fastforce intro: less_imp_le)
  next
    case 2
    have nxt: "sorted_wrt (<) (nxt # ls)" "start < nxt" using "3.prems"(1) by auto
    from "3.IH" [OF nxt(1) 2] obtain s fin where s: "b = make_block ins s fin" "s \<in> set (nxt # ls)"
        "s < fin \<or> fin = sz" "\<forall>l \<in> set (nxt # ls). s < l \<longrightarrow> fin \<le> l" by blast
    moreover from s(2) nxt have "start < s" by auto
    ultimately show ?thesis by fastforce
  qed
qed auto

lemma only_first_leads:
  assumes "sorted_wrt (<) (offs ins)" "list_all (\<lambda>r. ri_byte_off r < sz) ins" "sorted_wrt (<) ls"
    "b \<in> set (SplitIntoBlocks ins ls sz)" "r \<in> set (tl (rb_ins b))"
  shows "ri_byte_off r \<notin> set ls"
proof
  assume lead: "ri_byte_off r \<in> set ls"
  obtain start fin where b: "b = make_block ins start fin" "start < fin \<or> fin = sz"
      "\<forall>l \<in> set ls. start < l \<longrightarrow> fin \<le> l"
    using SplitIntoBlocks_span [OF assms(3,4)] by blast
  have "start < fin \<or> list_all (\<lambda>r. ri_byte_off r < start) ins"
    using b(2) assms(2) by (fastforce simp: list_all_iff)
  then have ins: "rb_ins b = filter (\<lambda>r. start \<le> ri_byte_off r \<and> ri_byte_off r < fin) ins"
    using make_block_ins [OF strict_sorted [OF assms(1)]] b(1) by simp
  then have "sorted_wrt (<) (offs (rb_ins b))"
    using assms(1) by (simp add: sorted_wrt_map sorted_wrt_filter)
  with assms(5) have "ri_byte_off (hd (rb_ins b)) < ri_byte_off r" by (cases "rb_ins b") auto
  moreover have "hd (rb_ins b) \<in> set (rb_ins b)" using assms(5) by (cases "rb_ins b") auto
  then have "start \<le> ri_byte_off (hd (rb_ins b))" using ins by auto
  moreover have "r \<in> set (rb_ins b)" using assms(5) by (cases "rb_ins b") auto
  then have "ri_byte_off r < fin" using ins by auto
  ultimately show False using b(3) lead by auto
qed

lemma blocks_basic:
  assumes "sorted_wrt (<) (offs ins)" "list_all (\<lambda>r. ri_byte_off r < sz) ins" "sorted_wrt (<) ls"
    "ins \<noteq> [] \<Longrightarrow> ri_byte_off (hd ins) \<in> set ls" "cuts ins ls" "b \<in> set (SplitIntoBlocks ins ls sz)"
  shows "basic_block ins b"
proof -
  note inner = only_first_leads [OF assms(1-3,6)]
  have part: "concat (map rb_ins (SplitIntoBlocks ins ls sz)) = ins" by (rule blocks_partition [OF assms(1-4)])
  obtain before after where "SplitIntoBlocks ins ls sz = before @ b # after"
    using assms(6) by (auto simp: in_set_conv_decomp)
  with part obtain pre post where ins: "ins = pre @ rb_ins b @ post" by auto
  have "\<not> ends_block (ri_opcode (rb_ins b ! j))" if "Suc j < length (rb_ins b)" for j
  proof
    assume "ends_block (ri_opcode (rb_ins b ! j))"
    moreover have "ins ! (length pre + j) = rb_ins b ! j" "ins ! Suc (length pre + j) = rb_ins b ! Suc j"
      using ins that by (simp_all add: nth_append)
    moreover have "Suc (length pre + j) < length ins" using ins that by simp
    ultimately have "ri_byte_off (rb_ins b ! Suc j) \<in> set ls" using assms(5) unfolding cuts_def by metis
    moreover have "rb_ins b ! Suc j \<in> set (tl (rb_ins b))" using that by (cases "rb_ins b") auto
    ultimately show False using inner by blast
  qed
  then have "list_all (\<lambda>r. \<not> ends_block (ri_opcode r)) (butlast (rb_ins b))"
    by (auto simp: list_all_length nth_butlast)
  with inner assms(5) show ?thesis by (fastforce simp: basic_block_def cuts_def)
qed

section \<open>Successors\<close>

text \<open>What the edges of a block must be, from the instruction that ends it.\<close>

definition next_edge :: "edge_kind \<Rightarrow> nat \<Rightarrow> nat \<Rightarrow> child_edge list" where
  "next_edge kind i n = (if Suc i < n then [\<lparr>ce_kind = kind, ce_target = Suc i, ce_label = 0\<rparr>] else [])"

definition jump_edge :: "'cs raw_block list \<Rightarrow> nat \<Rightarrow> child_edge \<Rightarrow> bool" where
  "jump_edge bs off e \<longleftrightarrow> ce_kind e = Branch \<and> ce_label e = 0 \<and> ce_target e < length bs \<and>
     rb_start_byte (bs ! ce_target e) = off"

definition successors_ok :: "'cs raw_block list \<Rightarrow> nat \<Rightarrow> bool" where
  "successors_ok bs i \<longleftrightarrow>
     (let b = bs ! i; n = length bs; l = last (rb_ins b); op = ri_opcode l in
      rb_ins b \<noteq> [] \<longrightarrow>
        (if IsReturn op \<or> IsThrow op then rb_childs b = []
         else if IsUnconditionalBranch op then
           ri_branch_target l \<noteq> UINT32_MAX \<longrightarrow> (\<exists>e. jump_edge bs (ri_branch_target l) e \<and> rb_childs b = [e])
         else if IsConditionalBranch op then
           ri_branch_target l \<noteq> UINT32_MAX \<longrightarrow>
             (\<exists>e. jump_edge bs (ri_branch_target l) e \<and> rb_childs b = next_edge BranchFalse i n @ [e])
         else if IsSwitch op then \<exists>es. rb_childs b = next_edge SwitchDefault i n @ es
         else rb_childs b = next_edge Fallthrough i n))"

lemma SplitIntoBlocks_end:
  "i < length ls \<Longrightarrow> rb_end_byte (SplitIntoBlocks ins ls sz ! i) = (if Suc i < length ls then ls ! Suc i else sz)"
proof (induction ins ls sz arbitrary: i rule: SplitIntoBlocks.induct)
  case (3 ins start nxt ls sz)
  then show ?case by (cases i) auto
qed auto

lemma FindBlock_nth:
  assumes "sorted_wrt (<) (map rb_start_byte bs)" "i < length bs"
  shows "FindBlockIdForByteOff bs (rb_start_byte (bs ! i)) = Some i"
proof -
  have "rb_start_byte (bs ! i) \<in> rb_start_byte ` set bs" using assms(2) by simp
  then obtain k where k: "FindBlockIdForByteOff bs (rb_start_byte (bs ! i)) = Some k"
    using FindBlock_None by fastforce
  from FindBlock_Some [OF k] have "map rb_start_byte bs ! k = map rb_start_byte bs ! i" "k < length bs"
    using assms(2) by auto
  then have "k = i"
    using assms by (metis length_map nat_neq_iff sorted_wrt_nth_less)
  with k show ?thesis by simp
qed

lemma block_before_end:
  assumes "list_all (\<lambda>r. ri_byte_off r < sz) ins" "rb_ins (make_block ins start fin) \<noteq> []"
  shows "start < sz"
proof (cases "ins_at ins start")
  case None
  then obtain k where k: "ins_after ins start fin = Some k"
    using assms(2) by (cases "ins_after ins start fin") (auto simp: make_block_def block_span_def Let_def)
  then have "k < length ins" "\<not> ri_byte_off (ins ! k) < start"
    using nth_length_takeWhile [of "\<lambda>r. ri_byte_off r < start" ins]
    by (auto simp: ins_after_def Let_def split: if_splits)
  with assms(1) show ?thesis by (auto simp: list_all_length)
next
  case (Some k)
  then have "k < length ins" "ri_byte_off (ins ! k) = start"
    using nth_length_takeWhile [of "\<lambda>r. ri_byte_off r \<noteq> start" ins]
    by (auto simp: ins_at_def Let_def split: if_splits)
  with assms(1) show ?thesis by (auto simp: list_all_length)
qed

lemma find_end:
  assumes "list_all (\<lambda>r. ri_byte_off r < sz) ins" "sorted_wrt (<) ls" "i < length ls"
    "rb_ins (SplitIntoBlocks ins ls sz ! i) \<noteq> []"
  shows "edge kind (FindBlockIdForByteOff (SplitIntoBlocks ins ls sz) (rb_end_byte (SplitIntoBlocks ins ls sz ! i)))
    = next_edge kind i (length ls)"
proof -
  let ?bs = "SplitIntoBlocks ins ls sz"
  have starts: "map rb_start_byte ?bs = ls" by (rule SplitIntoBlocks_starts)
  then have len: "length ?bs = length ls" by (metis length_map)
  have nth: "rb_start_byte (?bs ! k) = ls ! k" if "k < length ls" for k
    using starts that len by (metis nth_map)
  show ?thesis
  proof (cases "Suc i < length ls")
    case True
    then have "FindBlockIdForByteOff ?bs (ls ! Suc i) = Some (Suc i)"
      using FindBlock_nth [of ?bs "Suc i"] starts assms(2) nth len by simp
    with True show ?thesis using SplitIntoBlocks_end [OF assms(3), of ins sz] by (simp add: edge_def next_edge_def)
  next
    case False
    have "?bs ! i \<in> set ?bs" using assms(3) len by simp
    from SplitIntoBlocks_mem [OF this] nth [OF assms(3)]
    obtain fin where "?bs ! i = make_block ins (ls ! i) fin" by auto
    with assms(4) have "ls ! i < sz" using block_before_end [OF assms(1)] by simp
    moreover have "l \<le> ls ! i" if "l \<in> set ls" for l
      using that False assms(2,3) by (auto simp: in_set_conv_nth) (metis Suc_lessI less_antisym linorder_not_less nat_less_le not_less_eq sorted_wrt_nth_less)
    ultimately have "sz \<notin> set ls" by fastforce
    then have "FindBlockIdForByteOff ?bs sz = None" using starts FindBlock_None [of ?bs sz] by (metis image_set)
    with False show ?thesis using SplitIntoBlocks_end [OF assms(3), of ins sz] by (simp add: edge_def next_edge_def)
  qed
qed

lemma find_target:
  assumes "off \<in> rb_start_byte ` set bs"
  obtains k where "FindBlockIdForByteOff bs off = Some k" "k < length bs" "rb_start_byte (bs ! k) = off"
  using assms FindBlock_None [of bs off] FindBlock_Some by (metis not_None_eq)

lemma opcode_classes:
  "IsUnconditionalBranch op \<Longrightarrow> \<not> IsConditionalBranch op \<and> \<not> IsSwitch op"
  "IsConditionalBranch op \<Longrightarrow> \<not> IsSwitch op"
  by (auto simp: IsUnconditionalBranch_def IsConditionalBranch_def IsSwitch_def)

lemma child_edges_successors:
  assumes "list_all (\<lambda>r. ri_byte_off r < sz) ins" "sorted_wrt (<) ls" "cuts ins ls" "i < length ls"
    "concat (map rb_ins (SplitIntoBlocks ins ls sz)) = ins"
    "child_edges im base n pass hs (SplitIntoBlocks ins ls sz) (SplitIntoBlocks ins ls sz ! i) = Inr b"
    "map rb_start_byte bs = ls" "rb_ins (bs ! i) = rb_ins (SplitIntoBlocks ins ls sz ! i)"
    "rb_childs (bs ! i) = rb_childs b"
  shows "successors_ok bs i"
proof (cases "rb_ins (SplitIntoBlocks ins ls sz ! i) = []")
  case True
  with assms(8) show ?thesis by (simp add: successors_ok_def)
next
  case False
  let ?bs = "SplitIntoBlocks ins ls sz"
  define l where "l = last (rb_ins (?bs ! i))"
  have len: "length ?bs = length ls" "length bs = length ls"
    using SplitIntoBlocks_starts [of ins ls sz] assms(7) by (metis length_map)+
  have "?bs ! i \<in> set ?bs" using assms(4) len by simp
  moreover from this obtain start fin where "?bs ! i = make_block ins start fin"
    using SplitIntoBlocks_mem by blast
  ultimately have nil: "rb_childs (?bs ! i) = []" by simp
  have "l \<in> set (rb_ins (?bs ! i))" using False by (simp add: l_def)
  with assms(4,5) len have "l \<in> set ins" by (metis UN_I nth_mem set_concat set_map image_eqI)
  then have lead: "ri_branch_target l \<in> set ls" if "ri_branch_target l \<noteq> UINT32_MAX"
    using assms(3) that by (simp add: cuts_def)
  have jump: "\<exists>e. jump_edge bs (ri_branch_target l) e \<and>
      edge Branch (FindBlockIdForByteOff ?bs (ri_branch_target l)) = [e]" if t: "ri_branch_target l \<noteq> UINT32_MAX"
  proof -
    have "FindBlockIdForByteOff ?bs (ri_branch_target l) = FindBlockIdForByteOff bs (ri_branch_target l)"
      using SplitIntoBlocks_starts [of ins ls sz] assms(7) by (intro FindBlock_cong) simp
    moreover have "ri_branch_target l \<in> rb_start_byte ` set bs" using lead [OF t] assms(7) by (metis image_set)
    then obtain k where "FindBlockIdForByteOff bs (ri_branch_target l) = Some k" "k < length bs"
        "rb_start_byte (bs ! k) = ri_branch_target l"
      by (rule find_target)
    ultimately show ?thesis by (simp add: edge_def jump_edge_def)
  qed
  note [simp] = find_end [OF assms(1,2,4) False]
  have b: "if IsReturn (ri_opcode l) \<or> IsThrow (ri_opcode l) then rb_childs b = []
      else if IsUnconditionalBranch (ri_opcode l)
      then rb_childs b = edge Branch (FindBlockIdForByteOff ?bs (ri_branch_target l))
      else if IsConditionalBranch (ri_opcode l)
      then rb_childs b = next_edge BranchFalse i (length ls) @ edge Branch (FindBlockIdForByteOff ?bs (ri_branch_target l))
      else if IsSwitch (ri_opcode l) then \<exists>es. rb_childs b = next_edge SwitchDefault i (length ls) @ es
      else rb_childs b = next_edge Fallthrough i (length ls)"
    using assms(6) False nil
    by (auto simp: child_edges_def Let_def l_def bind_eq_Inr split: if_splits option.splits)
  have same: "rb_ins (bs ! i) = rb_ins (?bs ! i)" "rb_childs (bs ! i) = rb_childs b" using assms(8,9) .
  show ?thesis
    unfolding successors_ok_def Let_def same l_def [symmetric] len(2)
    using b jump by (simp split: if_splits)
qed

section \<open>The snapshot\<close>

text \<open>What every snapshot of a method with code satisfies.\<close>

definition snapshot_ok :: "'cs snapshot \<Rightarrow> bool" where
  "snapshot_ok sn \<longleftrightarrow>
     concat (map rb_ins (sn_blocks sn)) = sn_ins_storage sn \<and>
     sorted_wrt (<) (map rb_start_byte (sn_blocks sn)) \<and>
     list_all (basic_block (sn_ins_storage sn)) (sn_blocks sn) \<and>
     list_all (edges_in (length (sn_blocks sn))) (sn_blocks sn) \<and>
     list_all (successors_ok (sn_blocks sn)) [0..<length (sn_blocks sn)] \<and>
     list_all (\<lambda>er. list_all (\<lambda>h. ch_block h < length (sn_blocks sn)) (er_handlers er)) (sn_exceptions sn) \<and>
     (\<forall>r \<in> set (sn_ins_storage sn). ri_branch_target r \<noteq> UINT32_MAX \<longrightarrow>
        ri_branch_target r \<in> rb_start_byte ` set (sn_blocks sn)) \<and>
     (case sn_entry_block_id sn of
        None \<Rightarrow> sn_ins_storage sn = []
      | Some e \<Rightarrow> e < length (sn_blocks sn) \<and> sn_ins_storage sn \<noteq> [] \<and>
          rb_ins (sn_blocks sn ! e) \<noteq> [] \<and> hd (rb_ins (sn_blocks sn ! e)) = hd (sn_ins_storage sn))"

text \<open>The stages of the builder, with what each contributes.\<close>

lemma build_code_stages:
  assumes "build_code im src m base code = Inr sn" "insns_size code < 2147483648"
  obtains pass leaders tries linked bs excs
  where "DecodeAllInsns im src base (insns_size code) = Inr pass"
    "sorted_wrt (<) leaders"
    "dp_ins pass \<noteq> [] \<longrightarrow> ri_byte_off (hd (dp_ins pass)) \<in> set leaders"
    "cuts (dp_ins pass) leaders"
    "ComputeChildEdges im base (insns_size code) pass (handler_offsets tries)
       (SplitIntoBlocks (dp_ins pass) leaders (dp_insns_byte_size pass)) = Inr linked"
    "AttachExceptionHandlers tries linked = (bs, excs)"
    "finish (empty_snapshot (ComputeLparams m (registers_size code) (ins_size code))
       \<lparr>sn_registers_size := registers_size code, sn_ins_size := ins_size code,
        sn_ins_storage := dp_ins pass, sn_blocks := bs, sn_exceptions := excs\<rparr>) = Inr sn"
proof -
  obtain pass ls tries linked where st:
    "DecodeAllInsns im src base (insns_size code) = Inr pass"
    "ComputeLeaders im base (insns_size code) pass = Inr ls"
    "ComputeChildEdges im base (insns_size code) pass (handler_offsets tries)
       (SplitIntoBlocks (dp_ins pass) (fold set_insert (try_leaders tries) ls) (dp_insns_byte_size pass)) = Inr linked"
    "finish (empty_snapshot (ComputeLparams m (registers_size code) (ins_size code))
       \<lparr>sn_registers_size := registers_size code, sn_ins_size := ins_size code,
        sn_ins_storage := dp_ins pass, sn_blocks := fst (AttachExceptionHandlers tries linked),
        sn_exceptions := snd (AttachExceptionHandlers tries linked)\<rparr>) = Inr sn"
    using assms(1) by (auto simp: build_code_def Let_def bind_eq_Inr case_prod_beta)
  have "sorted_wrt (<) ls"
    using ComputeLeaders_facts(1) [OF st(2)] st(2)
    by (cases "dp_ins pass") (auto simp: ComputeLeaders_def)
  then have "sorted_wrt (<) (fold set_insert (try_leaders tries) ls)" by (rule fold_set_insert(2))
  moreover have "cuts (dp_ins pass) (fold set_insert (try_leaders tries) ls)"
  proof (cases "dp_ins pass = []")
    case True
    then show ?thesis by (simp add: cuts_def)
  next
    case False
    from ComputeLeaders_facts(3) [OF st(2) False] show ?thesis
      by (rule cuts_mono) (simp add: fold_set_insert(1))
  qed
  ultimately show ?thesis using st ComputeLeaders_facts(2) [OF st(2)]
    by (intro that [OF st(1) _ _ _ st(3) _ st(4)]) (auto simp: fold_set_insert(1))
qed

lemma map_nth_eq: "length xs = length ys \<Longrightarrow> (\<And>i. i < length ys \<Longrightarrow> f (xs ! i) = g (ys ! i)) \<Longrightarrow> map f xs = map g ys"
  by (intro nth_equalityI) simp_all

lemma linked_blocks:
  assumes "ComputeChildEdges im base n pass hs (SplitIntoBlocks ins leaders sz) = Inr linked"
    "AttachExceptionHandlers tries linked = (bs, excs)"
  shows "length bs = length (SplitIntoBlocks ins leaders sz)"
    "\<And>i. i < length bs \<Longrightarrow> same_block (SplitIntoBlocks ins leaders sz ! i) (bs ! i)"
    "map rb_start_byte bs = leaders"
    "list_all (edges_in (length bs)) bs"
    "list_all (\<lambda>er. list_all (\<lambda>h. ch_block h < length bs) (er_handlers er)) excs"
    "\<And>i. i < length bs \<Longrightarrow> \<exists>b. child_edges im base n pass hs (SplitIntoBlocks ins leaders sz)
       (SplitIntoBlocks ins leaders sz ! i) = Inr b \<and> rb_childs (bs ! i) = rb_childs b"
proof -
  let ?blocks = "SplitIntoBlocks ins leaders sz"
  have "edges_in (length ?blocks) b" if "b \<in> set ?blocks" for b
  proof -
    from SplitIntoBlocks_mem [OF that] obtain start fin where "b = make_block ins start fin" by blast
    then show ?thesis by (simp add: edges_in_def)
  qed
  then have "\<forall>b \<in> set ?blocks. edges_in (length ?blocks) b" by blast
  note linked = ComputeChildEdges_facts [OF assms(1) this]
  then have "\<forall>b \<in> set linked. edges_in (length linked) b" by (auto simp: in_set_conv_nth)
  note bs = AttachExceptionHandlers_facts [OF assms(2) this]
  show len: "length bs = length ?blocks" using linked(1) bs(1) by simp
  show same: "same_block (?blocks ! i) (bs ! i)" if "i < length bs" for i
    using linked bs(1,2) that by (simp add: same_block_def)
  show "map rb_start_byte bs = leaders"
    using map_nth_eq [OF len, of rb_start_byte rb_start_byte] same len SplitIntoBlocks_starts
    by (metis same_block_def)
  show "list_all (edges_in (length bs)) bs" "list_all (\<lambda>er. list_all (\<lambda>h. ch_block h < length bs) (er_handlers er)) excs"
    using linked(1) bs by (auto simp: list_all_length list_all_iff)
  show "\<exists>b. child_edges im base n pass hs ?blocks (?blocks ! i) = Inr b \<and> rb_childs (bs ! i) = rb_childs b"
    if "i < length bs" for i
    using linked bs(1,2) that by simp
qed

lemma build_code_ok:
  assumes "build_code im src m base code = Inr sn" "insns_size code < 2147483648"
  shows "snapshot_ok sn"
proof -
  from assms obtain pass leaders tries linked bs excs where st:
    "DecodeAllInsns im src base (insns_size code) = Inr pass"
    "sorted_wrt (<) leaders"
    "dp_ins pass \<noteq> [] \<longrightarrow> ri_byte_off (hd (dp_ins pass)) \<in> set leaders"
    "cuts (dp_ins pass) leaders"
    "ComputeChildEdges im base (insns_size code) pass (handler_offsets tries)
       (SplitIntoBlocks (dp_ins pass) leaders (dp_insns_byte_size pass)) = Inr linked"
    "AttachExceptionHandlers tries linked = (bs, excs)"
    "finish (empty_snapshot (ComputeLparams m (registers_size code) (ins_size code))
       \<lparr>sn_registers_size := registers_size code, sn_ins_size := ins_size code,
        sn_ins_storage := dp_ins pass, sn_blocks := bs, sn_exceptions := excs\<rparr>) = Inr sn"
    by (rule build_code_stages)
  let ?blocks = "SplitIntoBlocks (dp_ins pass) leaders (dp_insns_byte_size pass)"
  note offsets = DecodeAllInsns_offsets [OF st(1) assms(2)]
  note blk = linked_blocks [OF st(5,6)]
  note len = blk(1) and same = blk(2) and starts = blk(3)
  have "map rb_ins bs = map rb_ins ?blocks"
    using map_nth_eq [OF len, of rb_ins rb_ins] same len by (simp add: same_block_def)
  then have parts: "concat (map rb_ins bs) = dp_ins pass"
    using blocks_partition [OF offsets st(2) st(3) [rule_format]] by simp
  have basic: "list_all (basic_block (dp_ins pass)) bs"
  proof -
    have "basic_block (dp_ins pass) (bs ! i)" if "i < length bs" for i
      using blocks_basic [OF offsets st(2) st(3) [rule_format] st(4), of "?blocks ! i"] same [OF that] len that
      by (simp add: basic_block_def same_block_def)
    then show ?thesis by (simp add: list_all_length)
  qed
  have targets: "\<forall>r \<in> set (dp_ins pass). ri_branch_target r \<noteq> UINT32_MAX \<longrightarrow>
      ri_branch_target r \<in> rb_start_byte ` set bs"
    using st(4) starts unfolding cuts_def by (metis image_set)
  have succ: "list_all (successors_ok bs) [0..<length bs]"
  proof -
    have "successors_ok bs i" if i: "i < length bs" for i
    proof -
      obtain b where b: "child_edges im base (insns_size code) pass (handler_offsets tries) ?blocks (?blocks ! i) = Inr b"
          "rb_childs (bs ! i) = rb_childs b"
        using blk(6) [OF i] by blast
      have "i < length leaders" using i len SplitIntoBlocks_starts by (metis length_map)
      from child_edges_successors [OF offsets(2) st(2,4) this blocks_partition [OF offsets st(2) st(3) [rule_format]]
          b(1) starts _ b(2)] same [OF i]
      show ?thesis by (simp add: same_block_def)
    qed
    then show ?thesis by (simp add: list_all_iff)
  qed
  show ?thesis
  proof (cases "dp_ins pass")
    case Nil
    with st(7) have "sn_blocks sn = bs" "sn_ins_storage sn = []" "sn_exceptions sn = excs" "sn_entry_block_id sn = None"
      by (auto simp: finish_def empty_snapshot_def)
    with parts basic succ blk(4,5) starts st(2) Nil show ?thesis by (simp add: snapshot_ok_def)
  next
    case (Cons ri ris)
    then obtain e where e: "FindBlockIdForByteOff bs (ri_byte_off ri) = Some e"
      using st(3) starts FindBlock_None [of bs "ri_byte_off ri"] by (cases "FindBlockIdForByteOff bs (ri_byte_off ri)") auto
    with st(7) Cons have sn: "sn_blocks sn = bs" "sn_ins_storage sn = dp_ins pass" "sn_exceptions sn = excs"
        "sn_entry_block_id sn = Some e"
      by (auto simp: finish_def empty_snapshot_def)
    note e = FindBlock_Some [OF e]
    then have eb: "?blocks ! e \<in> set ?blocks" "rb_start_byte (?blocks ! e) = ri_byte_off (hd (dp_ins pass))"
      using len same [of e] Cons by (auto simp: same_block_def)
    obtain fin where "?blocks ! e = make_block (dp_ins pass) (ri_byte_off (hd (dp_ins pass))) fin"
      using SplitIntoBlocks_mem [OF eb(1)] eb(2) by auto
    then have "rb_ins (bs ! e) \<noteq> [] \<and> hd (rb_ins (bs ! e)) = hd (dp_ins pass)"
      using first_block [of "dp_ins pass" fin] same [of e] e len Cons by (simp add: same_block_def)
    with sn parts basic succ blk(4,5) starts targets st(2) e Cons show ?thesis by (simp add: snapshot_ok_def)
  qed
qed

section \<open>The cases of a switch\<close>

text \<open>
  Where the payload of a switch lies, in code units; the label and the relative target of its cases in
  the order of the payload, a packed label counted in 32 bits; and the edges they must give: one to the
  block that starts at the target, none when no block does.
\<close>

definition payload_unit :: "'cs raw_ins \<Rightarrow> nat" where
  "payload_unit l =
     cast_u32 (int (ri_byte_off l) + ExtractBranchOffsetCodeUnits (ri_decoded l) (ri_opcode l) * 2) div 2"

definition payload_cases :: "payload \<Rightarrow> (int \<times> int) list" where
  "payload_cases pv =
     (case pv of
        PackedSwitch first ts \<Rightarrow>
          map (\<lambda>k. (sint (word_of_int (first + int k) :: 32 word), ts ! k)) [0..<length ts]
      | SparseSwitch keys ts \<Rightarrow> map (\<lambda>k. (keys ! k, ts ! k)) [0..<min (length keys) (length ts)]
      | _ \<Rightarrow> [])"

definition case_edge_ok :: "'cs raw_block list \<Rightarrow> nat \<Rightarrow> int \<times> int \<Rightarrow> child_edge list \<Rightarrow> bool" where
  "case_edge_ok bs off c es \<longleftrightarrow>
     (let target = nat ((int off + snd c * 2) mod 2 ^ 32) in
      if \<exists>b \<in> set bs. rb_start_byte b = target
      then \<exists>t < length bs. rb_start_byte (bs ! t) = target \<and> es = [\<lparr>ce_kind = SwitchCase, ce_target = t, ce_label = fst c\<rparr>]
      else es = [])"

definition switch_ok :: "image \<Rightarrow> nat \<Rightarrow> nat \<Rightarrow> 'cs raw_block list \<Rightarrow> nat \<Rightarrow> bool" where
  "switch_ok im base n bs i \<longleftrightarrow>
     (let b = bs ! i; l = last (rb_ins b) in
      rb_ins b \<noteq> [] \<and> IsSwitch (ri_opcode l) \<longrightarrow>
        (\<exists>pv ess. ParsePayloadAt im base n (payload_unit l) = Inr pv \<and>
           list_all2 (case_edge_ok bs (ri_byte_off l)) (payload_cases pv) ess \<and>
           rb_childs b = next_edge SwitchDefault i (length bs) @ concat ess))"

lemma decode_from_owner:
  "decode_from im src base n i = Inr ris \<Longrightarrow> (ri, t) \<in> set ris \<Longrightarrow> IsSwitch (ri_opcode ri) \<Longrightarrow>
     \<exists>p. t = Some p \<and> payload_unit ri = p div 2"
proof (induction im src base n i arbitrary: ris rule: decode_from.induct)
  case (1 im src base n i)
  show ?case
  proof (cases "i < n")
    case True
    then obtain w u where w: "SafeWidth im base n i = Inr w" "rd_unit im (base + 2 * i) 0 = Inr u"
      using "1.prems"(1) by (subst (asm) decode_from.simps) (auto simp: bind_eq_Inr)
    show ?thesis
    proof (cases "IsPayloadMarker u")
      case p: True
      then have "decode_from im src base n (i + w) = Inr ris"
        using "1.prems"(1) w True by (subst (asm) decode_from.simps) simp
      from "1.IH"(1) [OF True w p this "1.prems"(2,3)] show ?thesis .
    next
      case p: False
      then obtain r rest where r: "decode_one im src base i w = Inr r" "decode_from im src base n (i + w) = Inr rest" "ris = r # rest"
        using "1.prems"(1) w True by (subst (asm) decode_from.simps) (auto simp: bind_eq_Inr)
      show ?thesis
      proof (cases "(ri, t) \<in> set rest")
        case True
        from "1.IH"(2) [OF \<open>i < n\<close> w p r(1,2) this "1.prems"(3)] show ?thesis .
      next
        case False
        then have "r = (ri, t)" using "1.prems"(2) r(3) by auto
        then show ?thesis using r(1) "1.prems"(3)
          by (auto simp: decode_one_def bind_eq_Inr Let_def payload_unit_def IsSwitch_def IsBranchOpcode_def)
      qed
    qed
  qed (use "1.prems" in \<open>simp add: decode_from.simps\<close>)
qed

lemma map_of_owner:
  "sorted_wrt (<) (map (ri_byte_off \<circ> fst) ris) \<Longrightarrow> (ri, Some p) \<in> set ris \<Longrightarrow>
     map_of (List.map_filter (\<lambda>(ri, t). map_option (\<lambda>t. (ri_byte_off ri, t)) t) ris) (ri_byte_off ri) = Some p"
proof (induction ris)
  case (Cons x ris)
  obtain r t where x: "x = (r, t)" by fastforce
  show ?case
  proof (cases "x = (ri, Some p)")
    case False
    then have m: "(ri, Some p) \<in> set ris" using Cons.prems(2) by auto
    then have "ri_byte_off r < ri_byte_off ri" using Cons.prems(1) by (force simp: x)
    then show ?thesis using Cons.IH [OF _ m] Cons.prems(1) by (cases t) (simp_all add: x List.map_filter_simps)
  qed (simp add: List.map_filter_simps)
qed simp

lemma DecodeAllInsns_owner:
  assumes "DecodeAllInsns im src base n = Inr pass" "n < 2147483648" "l \<in> set (dp_ins pass)" "IsSwitch (ri_opcode l)"
  shows "\<exists>p. map_of (dp_owner_to_payload pass) (ri_byte_off l) = Some p \<and> payload_unit l = p div 2"
proof -
  obtain ris where ris: "decode_from im src base n 0 = Inr ris" "dp_ins pass = map fst ris"
      "dp_owner_to_payload pass = List.map_filter (\<lambda>(ri, t). map_option (\<lambda>t. (ri_byte_off ri, t)) t) ris"
    using assms(1) by (auto simp: DecodeAllInsns_def bind_eq_Inr)
  from assms(3) obtain t where t: "(l, t) \<in> set ris" by (auto simp: ris(2))
  from decode_from_owner [OF ris(1) t assms(4)] obtain p where p: "t = Some p" "payload_unit l = p div 2" by blast
  have "sorted_wrt (<) (map (ri_byte_off \<circ> fst) ris)"
    using DecodeAllInsns_offsets(1) [OF assms(1,2)] by (simp add: ris(2) o_def)
  from map_of_owner [OF this] t p show ?thesis by (simp add: ris(3))
qed

lemma case_edge_spec:
  assumes "map rb_start_byte bs' = map rb_start_byte bs"
  shows "case_edge_ok bs off c (case_edge bs' off c)"
proof -
  define x where "x = cast_u32 (int off + snd c * 2)"
  have cast: "nat ((int off + snd c * 2) mod 4294967296) = x" by (simp add: x_def cast_u32_def)
  have find: "FindBlockIdForByteOff bs' x = FindBlockIdForByteOff bs x" using assms by (rule FindBlock_cong)
  show ?thesis
  proof (cases "FindBlockIdForByteOff bs x")
    case None
    then have "\<not> (\<exists>b \<in> set bs. rb_start_byte b = x)" using FindBlock_None [of bs x] by force
    with None show ?thesis by (simp add: case_edge_ok_def case_edge_def cast find x_def [symmetric])
  next
    case (Some k)
    note k = FindBlock_Some [OF Some]
    then have "\<exists>b \<in> set bs. rb_start_byte b = x" by (metis nth_mem)
    with k Some show ?thesis by (simp add: case_edge_ok_def case_edge_def cast find x_def [symmetric])
  qed
qed

lemma switch_cases_payload: "payload_cases pv = (case switch_cases pv of None \<Rightarrow> [] | Some cs \<Rightarrow> cs)"
proof (cases pv)
  case (PackedSwitch first ts)
  show ?thesis by (simp add: PackedSwitch payload_cases_def switch_cases_def) (rule nth_equalityI; simp)
next
  case (SparseSwitch keys ts)
  show ?thesis by (simp add: SparseSwitch payload_cases_def switch_cases_def) (rule nth_equalityI; simp)
qed (simp_all add: payload_cases_def switch_cases_def)

lemma child_edges_switch:
  assumes "list_all (\<lambda>r. ri_byte_off r < sz) ins" "sorted_wrt (<) ls" "i < length ls"
    "concat (map rb_ins (SplitIntoBlocks ins ls sz)) = ins"
    "child_edges im base n pass hs (SplitIntoBlocks ins ls sz) (SplitIntoBlocks ins ls sz ! i) = Inr b"
    "map rb_start_byte bs = ls" "rb_ins (bs ! i) = rb_ins (SplitIntoBlocks ins ls sz ! i)"
    "rb_childs (bs ! i) = rb_childs b"
    and owner: "\<And>l. l \<in> set ins \<Longrightarrow> IsSwitch (ri_opcode l) \<Longrightarrow>
       \<exists>p. map_of (dp_owner_to_payload pass) (ri_byte_off l) = Some p \<and> payload_unit l = p div 2"
  shows "switch_ok im base n bs i"
proof -
  let ?bs = "SplitIntoBlocks ins ls sz"
  define l where "l = last (rb_ins (?bs ! i))"
  have len: "length ?bs = length ls" "length bs = length ls"
    using SplitIntoBlocks_starts [of ins ls sz] assms(6) by (metis length_map)+
  have mem: "?bs ! i \<in> set ?bs" using assms(3) len by simp
  then obtain start fin where "?bs ! i = make_block ins start fin" using SplitIntoBlocks_mem by blast
  then have nil: "rb_childs (?bs ! i) = []" by simp
  have "\<exists>pv ess. ParsePayloadAt im base n (payload_unit l) = Inr pv \<and>
           list_all2 (case_edge_ok bs (ri_byte_off l)) (payload_cases pv) ess \<and>
           rb_childs b = next_edge SwitchDefault i (length ls) @ concat ess"
    if ne: "rb_ins (?bs ! i) \<noteq> []" and sw: "IsSwitch (ri_opcode l)"
  proof -
    have "l \<in> set (rb_ins (?bs ! i))" using ne by (simp add: l_def)
    then have "l \<in> set ins" using mem assms(4) by (metis UN_I set_concat set_map image_eqI)
    then obtain p where p: "map_of (dp_owner_to_payload pass) (ri_byte_off l) = Some p" "payload_unit l = p div 2"
      using owner sw by blast
    have other: "\<not> IsReturn (ri_opcode l) \<and> \<not> IsThrow (ri_opcode l) \<and> \<not> IsUnconditionalBranch (ri_opcode l) \<and> \<not> IsConditionalBranch (ri_opcode l)"
      using sw by (auto simp: IsSwitch_def IsReturn_def IsThrow_def IsUnconditionalBranch_def IsConditionalBranch_def)
    note dflt = find_end [OF assms(1-3) ne, of SwitchDefault]
    obtain pv where pv: "ParsePayloadAt im base n (p div 2) = Inr pv"
      using assms(5) ne sw other p by (auto simp: child_edges_def Let_def l_def bind_eq_Inr)
    then have "rb_childs b = next_edge SwitchDefault i (length ls) @
        concat (map (case_edge ?bs (ri_byte_off l)) (payload_cases pv))"
      using assms(5) ne sw other p nil dflt
      by (auto simp: child_edges_def Let_def l_def switch_cases_payload split: option.splits)
    moreover have "list_all2 (case_edge_ok bs off) cs (map (case_edge ?bs off) cs)" for off cs
      unfolding list_all2_map2 using case_edge_spec [of ?bs bs off] assms(6) SplitIntoBlocks_starts [of ins ls sz]
      by (simp add: list.rel_refl_strong)
    ultimately show ?thesis using pv p(2) by metis
  qed
  then show ?thesis unfolding switch_ok_def Let_def assms(7,8) len(2) l_def by blast
qed

lemma build_code_switches:
  assumes "build_code im src m base code = Inr sn" "insns_size code < 2147483648" "i < length (sn_blocks sn)"
  shows "switch_ok im base (insns_size code) (sn_blocks sn) i"
proof -
  from assms(1,2) obtain pass leaders tries linked bs excs where st:
    "DecodeAllInsns im src base (insns_size code) = Inr pass"
    "sorted_wrt (<) leaders"
    "dp_ins pass \<noteq> [] \<longrightarrow> ri_byte_off (hd (dp_ins pass)) \<in> set leaders"
    "cuts (dp_ins pass) leaders"
    "ComputeChildEdges im base (insns_size code) pass (handler_offsets tries)
       (SplitIntoBlocks (dp_ins pass) leaders (dp_insns_byte_size pass)) = Inr linked"
    "AttachExceptionHandlers tries linked = (bs, excs)"
    "finish (empty_snapshot (ComputeLparams m (registers_size code) (ins_size code))
       \<lparr>sn_registers_size := registers_size code, sn_ins_size := ins_size code,
        sn_ins_storage := dp_ins pass, sn_blocks := bs, sn_exceptions := excs\<rparr>) = Inr sn"
    by (rule build_code_stages)
  let ?blocks = "SplitIntoBlocks (dp_ins pass) leaders (dp_insns_byte_size pass)"
  have bs: "sn_blocks sn = bs" using st(7) by (auto simp: finish_def split: list.splits option.splits)
  note offsets = DecodeAllInsns_offsets [OF st(1) assms(2)]
  note blk = linked_blocks [OF st(5,6)]
  have i: "i < length bs" using assms(3) bs by simp
  obtain b where b: "child_edges im base (insns_size code) pass (handler_offsets tries) ?blocks (?blocks ! i) = Inr b"
      "rb_childs (bs ! i) = rb_childs b"
    using blk(6) [OF i] by blast
  have "i < length leaders" using i blk(1) SplitIntoBlocks_starts by (metis length_map)
  moreover have "rb_ins (bs ! i) = rb_ins (?blocks ! i)" using blk(2) [OF i] by (simp add: same_block_def)
  ultimately show ?thesis
    unfolding bs
    using child_edges_switch [OF offsets(2) st(2) _ blocks_partition [OF offsets st(2) st(3) [rule_format]] b(1) blk(3) _ b(2)]
      DecodeAllInsns_owner [OF st(1) assms(2)] by blast
qed

section \<open>Accepted code always builds\<close>

definition returns :: "'e + 'a \<Rightarrow> bool" where
  "returns r \<longleftrightarrow> (\<exists>x. r = Inr x)"

lemma returns_Inr [simp]: "returns (Inr x)"
  by (simp add: returns_def)

lemma returns_bind [intro!]: "returns m \<Longrightarrow> (\<And>x. m = Inr x \<Longrightarrow> returns (f x)) \<Longrightarrow> returns (bind m f)"
  by (auto simp: returns_def)

lemma returns_rd [simp]:
  "returns (rd_u1 im p) \<longleftrightarrow> p < length im" "returns (rd_u4 im p) \<longleftrightarrow> p + 4 \<le> length im"
  "returns (rd_unit im p k) \<longleftrightarrow> p + 2 * k + 2 \<le> length im"
  "returns (rd_try_block im p) \<longleftrightarrow> p + 8 \<le> length im"
  by (auto simp: returns_def rd_u1_def rd_u4_def rd_unit_def rd_u2_def rd_try_block_def layout bind_def)

lemma rd_s4s_returns: "p + 4 * k \<le> length im \<Longrightarrow> returns (rd_s4s im p k)"
  by (induction im p k rule: rd_s4s.induct) auto

lemma rd_bytes_returns: "p + k \<le> length im \<Longrightarrow> returns (rd_bytes im p k)"
  by (induction im p k rule: rd_bytes.induct) auto

lemma ParsePayloadAt_returns:
  assumes "base + 2 * n \<le> length im"
  shows "returns (ParsePayloadAt im base n k)"
proof -
  have fits: "base + 2 * k + 8 \<le> length im" if "\<not> k + 4 > n" using that assms by linarith
  have "returns (ParsePackedSwitchPayload im base n k)"
  proof (cases "k + 4 > n")
    case False
    have "base + 2 * k + 8 + 4 * min s ((n - (k + 4)) div 2) \<le> length im" for s
      using False assms by (simp add: min_def) linarith
    then show ?thesis
      using fits [OF False] False by (auto simp: ParsePackedSwitchPayload_def Let_def intro!: rd_s4s_returns)
  qed (simp add: ParsePackedSwitchPayload_def Let_def)
  moreover have "returns (ParseSparseSwitchPayload im base n k)"
  proof (cases "k + 4 > n")
    case False
    have sizes: "8 * min s ((n - Suc (Suc k)) div 2 div 2) + (base + (2 * k + 4)) \<le> length im"
      "base + 2 * k + 4 + 4 * min s ((n - Suc (Suc k)) div 2 div 2) \<le> length im" for s
      using False assms by (simp_all add: min_def, linarith+)
    then show ?thesis
      using fits [OF False] False
      by (auto simp: ParseSparseSwitchPayload_def Let_def intro!: rd_s4s_returns sizes)
  qed (simp add: ParseSparseSwitchPayload_def Let_def)
  moreover have "returns (ParseFillArrayPayload im base n k)"
  proof (cases "k + 4 > n")
    case False
    have "base + 2 * k + 8 + min s ((n - (k + 4)) * 2) \<le> length im" for s
      using False assms by (simp add: min_def) linarith
    then show ?thesis
      using fits [OF False] False by (auto simp: ParseFillArrayPayload_def Let_def intro!: rd_bytes_returns)
  qed (simp add: ParseFillArrayPayload_def Let_def)
  ultimately show ?thesis using assms by (auto simp: ParsePayloadAt_def)
qed

lemma ReadUleb128_returns: "fin \<le> length im \<Longrightarrow> returns (ReadUleb128 im fin p)"
proof -
  have "fin \<le> length im \<Longrightarrow> returns (ReadUleb128_from im fin sh p v)" for sh p v
  proof (induction im fin sh p v rule: ReadUleb128_from.induct)
    case (1 im fin sh p v)
    then show ?case by (subst ReadUleb128_from.simps) (auto simp: Let_def)
  qed
  then show "fin \<le> length im \<Longrightarrow> returns (ReadUleb128 im fin p)" by (auto simp: ReadUleb128_def)
qed

lemma ReadSleb128_returns: "fin \<le> length im \<Longrightarrow> returns (ReadSleb128 im fin p)"
proof -
  have "fin \<le> length im \<Longrightarrow> returns (ReadSleb128_from im fin sh b p v)" for sh b p v
  proof (induction im fin sh b p v rule: ReadSleb128_from.induct)
    case (1 im fin sh b p v)
    then show ?case by (subst ReadSleb128_from.simps) (auto simp: Let_def)
  qed
  then show "fin \<le> length im \<Longrightarrow> returns (ReadSleb128 im fin p)" by (auto simp: ReadSleb128_def)
qed

lemma parse_handlers_returns: "fin \<le> length im \<Longrightarrow> returns (parse_handlers im src fin p)"
proof -
  assume fin: "fin \<le> length im"
  have "returns (typed_handlers im src fin k q)" for k q
    by (induction k arbitrary: q) (use fin ReadUleb128_returns in auto)
  then show ?thesis
    using fin ReadUleb128_returns ReadSleb128_returns by (auto simp: parse_handlers_def)
qed

lemma parse_tries_returns:
  "fin \<le> length im \<Longrightarrow> tries + (i + k) * 8 \<le> length im \<Longrightarrow> returns (parse_tries im src tries hb fin i k)"
proof (induction k arbitrary: i)
  case (Suc k)
  then have "returns (parse_tries im src tries hb fin (Suc i) k)" by simp
  with Suc.prems parse_handlers_returns [OF Suc.prems(1)] show ?case by (auto simp: Let_def layout)
qed simp

lemma ParseExceptions_returns:
  assumes "fin \<le> length im"
  shows "returns (ParseExceptions im src base n k (Some fin))"
  using assms ReadUleb128_returns [OF assms]
  by (auto simp: ParseExceptions_def Let_def layout intro!: parse_tries_returns)

lemma leaders_from_returns:
  assumes "base + 2 * n \<le> length im"
  shows "returns (leaders_from im base n pass ris ls)"
proof (induction ris arbitrary: ls)
  case (Cons ri ris)
  have "returns (ins_leaders im base n pass ri nxt)" for nxt
    using ParsePayloadAt_returns [OF assms] by (auto simp: ins_leaders_def Let_def split: option.splits)
  with Cons show ?case by auto
qed simp

lemma map_result_returns: "(\<And>x. x \<in> set xs \<Longrightarrow> returns (f x)) \<Longrightarrow> returns (map_result f xs)"
  by (induction xs) auto

lemma ComputeChildEdges_returns:
  assumes "base + 2 * n \<le> length im"
  shows "returns (ComputeChildEdges im base n pass hs blocks)"
proof -
  have "returns (child_edges im base n pass hs blocks b)" for b
    using ParsePayloadAt_returns [OF assms]
    by (auto simp: child_edges_def Let_def split: option.splits)
  moreover have "returns (array_payloads im base n pass ris ps)" for ris ps
    by (induction ris arbitrary: ps) (use ParsePayloadAt_returns [OF assms] in \<open>auto split: option.splits\<close>)
  then have "returns (attach_arrays im base n pass b)" for b by (auto simp: attach_arrays_def)
  ultimately show ?thesis by (auto simp: ComputeChildEdges_def intro!: map_result_returns)
qed

lemma header_within_width:
  "GetWidthFromBytecode im p = Inr w \<Longrightarrow> 0 < w \<Longrightarrow> PayloadHeaderUnits (unit_at im p 0) \<le> w"
  by (auto simp: GetWidthFromBytecode_def bind_eq_Inr PayloadHeaderUnits_def vflag rd_unit_def unit_at_def
      rd_u2_def Let_def split: if_splits)

lemma payload_marker: "IsPayloadMarker u = is_payload u"
  by (simp add: IsPayloadMarker_def is_payload_def vflag)

lemma sound_start:
  assumes "start_sound c base n regs i" "i < n" "base + 2 * n \<le> length (v_img c)"
  obtains w where "GetWidthFromBytecode (v_img c) (base + 2 * i) = Inr w"
    "SafeWidth (v_img c) base n i = Inr w"
    "rd_unit (v_img c) (base + 2 * i) 0 = Inr (unit_at (v_img c) (base + 2 * i) 0)"
    "IsPayloadMarker (unit_at (v_img c) (base + 2 * i) 0) \<or>
       decoded_ok c base n regs i (unit_at (v_img c) (base + 2 * i) 0)"
proof -
  obtain w where w: "GetWidthFromBytecode (v_img c) (base + 2 * i) = Inr w" "0 < w" "i + w \<le> n"
      "IsPayloadMarker (unit_at (v_img c) (base + 2 * i) 0) \<or>
       decoded_ok c base n regs i (unit_at (v_img c) (base + 2 * i) 0)"
    using assms(1) by (auto simp: start_sound_def Let_def payload_marker)
  have rd: "rd_unit (v_img c) (base + 2 * i) 0 = Inr (unit_at (v_img c) (base + 2 * i) 0)"
    using assms(2,3) by (simp add: rd_unit_def rd_u2_def unit_at_def)
  have "SafeWidth (v_img c) base n i = Inr w"
    using header_within_width [OF w(1,2)] w assms(2) by (simp add: SafeWidth_def rd)
  with w rd that show ?thesis by blast
qed

lemma insn_start_after:
  assumes "insn_start im base n (i + w) j" "i < n" "GetWidthFromBytecode im (base + 2 * i) = Inr w"
  shows "insn_start im base n i j"
  using assms
proof (induction rule: insn_start.induct)
  case first
  then show ?case by (intro insn_start.succ [OF insn_start.first])
qed (auto intro: insn_start.intros)

lemma decode_returns:
  assumes img: "base + 2 * n \<le> length (v_img c)"
  shows "(\<And>j. insn_start (v_img c) base n i j \<Longrightarrow> start_sound c base n regs j) \<Longrightarrow>
    returns (count_insns (v_img c) base n i) \<and> returns (decode_from (v_img c) src base n i)"
proof (induction "n - i" arbitrary: i rule: less_induct)
  case less
  show ?case
  proof (cases "i < n")
    case True
    then have "start_sound c base n regs i" using less.prems by (auto intro: insn_start.first)
    then obtain w where w: "GetWidthFromBytecode (v_img c) (base + 2 * i) = Inr w"
      "SafeWidth (v_img c) base n i = Inr w"
      "rd_unit (v_img c) (base + 2 * i) 0 = Inr (unit_at (v_img c) (base + 2 * i) 0)"
      "IsPayloadMarker (unit_at (v_img c) (base + 2 * i) 0) \<or>
         decoded_ok c base n regs i (unit_at (v_img c) (base + 2 * i) 0)"
      using sound_start True img by blast
    have "0 < w" using SafeWidth_advances [OF w(2)] by simp
    then have "n - (i + w) < n - i" using True by linarith
    from less.hyps [OF this] less.prems insn_start_after [OF _ True w(1)]
    have rest: "returns (count_insns (v_img c) base n (i + w))" "returns (decode_from (v_img c) src base n (i + w))"
      by blast+
    have "returns (decode_one (v_img c) src base i w)" if "\<not> IsPayloadMarker (unit_at (v_img c) (base + 2 * i) 0)"
      using w(4) that by (auto simp: decoded_ok_def decode_one_def Let_def)
    with rest w show ?thesis
      by (subst count_insns.simps, subst decode_from.simps) auto
  qed (simp add: count_insns.simps decode_from.simps)
qed

lemma build_code_returns:
  assumes img: "base + 2 * insns_size code \<le> length (v_img c)" "insns_size code < 2147483648"
    and sound: "\<forall>j. insn_start (v_img c) base (insns_size code) 0 j \<longrightarrow> start_sound c base (insns_size code) regs j"
    and fin: "p_image_end src = Some e" "e \<le> length (v_img c)"
  shows "returns (build_code (v_img c) src m base code)"
proof -
  let ?im = "v_img c" and ?n = "insns_size code"
  have "returns (count_insns ?im base ?n 0) \<and> returns (decode_from ?im src base ?n 0)"
    by (rule decode_returns [OF img(1)]) (use sound in blast)
  then have "returns (DecodeAllInsns ?im src base ?n)"
    unfolding DecodeAllInsns_def by (elim conjE, intro returns_bind returns_Inr)
  then obtain pass where pass: "DecodeAllInsns ?im src base ?n = Inr pass" by (auto simp: returns_def)
  have "returns (ComputeLeaders ?im base ?n pass)"
    unfolding ComputeLeaders_def
    by (cases "dp_ins pass") (simp_all only: list.case returns_Inr leaders_from_returns [OF img(1)])
  then obtain ls where ls: "ComputeLeaders ?im base ?n pass = Inr ls" by (auto simp: returns_def)
  obtain tries where tries: "ParseExceptions ?im src base ?n (tries_size code) (Some e) = Inr tries"
    using ParseExceptions_returns [OF fin(2)] unfolding returns_def by blast
  let ?leaders = "fold set_insert (try_leaders tries) ls"
  obtain linked where linked: "ComputeChildEdges ?im base ?n pass (handler_offsets tries)
      (SplitIntoBlocks (dp_ins pass) ?leaders (dp_insns_byte_size pass)) = Inr linked"
    using ComputeChildEdges_returns [OF img(1)] unfolding returns_def by blast
  obtain bs excs where bs: "AttachExceptionHandlers tries linked = (bs, excs)" by fastforce
  have "map rb_start_byte bs = ?leaders" by (rule linked_blocks(3) [OF linked bs])
  then have "ri_byte_off (hd (dp_ins pass)) \<in> rb_start_byte ` set bs" if "dp_ins pass \<noteq> []"
    using ComputeLeaders_facts(2) [OF ls that] fold_set_insert(1) [of "try_leaders tries" ls]
    by (metis UnI2 image_set)
  then have "returns (finish (empty_snapshot (ComputeLparams m (registers_size code) (ins_size code))
      \<lparr>sn_registers_size := registers_size code, sn_ins_size := ins_size code,
       sn_ins_storage := dp_ins pass, sn_blocks := bs, sn_exceptions := excs\<rparr>))"
    using FindBlock_None [of bs "ri_byte_off (hd (dp_ins pass))"]
    by (auto simp: finish_def empty_snapshot_def split: list.splits option.splits)
  then show ?thesis using pass ls tries linked bs fin(1) by (simp add: build_code_def Let_def)
qed

text \<open>A code item the strict verifier accepted.\<close>

lemma accepted_code:
  assumes "vctx_ok c" "v_insns c" "VerifyCodeItem c off = Inr u"
  shows "rd_code (v_img c) (v_begin c + off) = Inr (code_at c off)"
    "insns_at c off + 2 * insns_size (code_at c off) \<le> length (v_img c)"
    "insns_size (code_at c off) < 2147483648"
    "\<forall>j. insn_start (v_img c) (insns_at c off) (insns_size (code_at c off)) 0 j \<longrightarrow>
       start_sound c (insns_at c off) (insns_size (code_at c off)) (registers_size (code_at c off)) j"
proof -
  have ok: "code_item_ok c off" using wp_VerifyCodeItem [OF assms(1), of off] assms(3) by (simp add: wp_Inr)
  then have fits: "insns_at c off + insns_size (code_at c off) * 2 \<le> end_of_file c"
    by (simp add: code_item_ok_def Let_def)
  then show "insns_at c off + 2 * insns_size (code_at c off) \<le> length (v_img c)"
    using vctx_okD [OF assms(1)] by simp
  then show "rd_code (v_img c) (v_begin c + off) = Inr (code_at c off)"
    by (simp add: rd_code_def code_at_def insns_at_def layout Let_def)
  show "insns_size (code_at c off) < 2147483648"
    using fits assms(1) by (auto simp: vctx_ok_def end_of_file_def insns_at_def)
  show "\<forall>j. insn_start (v_img c) (insns_at c off) (insns_size (code_at c off)) 0 j \<longrightarrow>
       start_sound c (insns_at c off) (insns_size (code_at c off)) (registers_size (code_at c off)) j"
    using ok assms(2) by (simp add: code_item_ok_def Let_def)
qed

lemma Build_accepted:
  assumes "vctx_ok c" "v_insns c" "VerifyCodeItem c off = Inr u"
    "p_code src m = Some (v_begin c + off)" "p_image_end src = Some e" "e \<le> length (v_img c)"
  shows "\<exists>sn. Build (v_img c) src m = Inr sn \<and> snapshot_ok sn"
proof -
  note code = accepted_code [OF assms(1-3)]
  have "returns (build_code (v_img c) src (FillMethodMeta src m) (insns_at c off) (code_at c off))"
    using build_code_returns [OF code(2-4)] assms(5,6) by blast
  then obtain sn where sn: "build_code (v_img c) src (FillMethodMeta src m) (insns_at c off) (code_at c off) = Inr sn"
    by (auto simp: returns_def)
  then have "Build (v_img c) src m = Inr sn"
    using assms(4) code(1) by (simp add: Build_def insns_at_def layout Let_def)
  with build_code_ok [OF sn code(3)] show ?thesis by blast
qed

section \<open>Properties\<close>

text \<open>
  C6. Every snapshot of a method with code, verified or not, of fewer than \<open>2 ^ 31\<close> units is well
  formed: its blocks partition the decoded instructions into basic blocks, their edges are the
  successors of their last instructions, every reference names a block, and the entry holds the first
  instruction. A switch has its default edge and then the edges of the cases of its payload.
\<close>

theorem snapshot_well_formed:
  assumes "Build im src m = Inr sn" and "p_code src m = Some pos" and "rd_code im pos = Inr code"
    and "insns_size code < 2147483648"
  shows "snapshot_ok sn \<and>
    (\<forall>i < length (sn_blocks sn). switch_ok im (pos + sizeof_Code) (insns_size code) (sn_blocks sn) i)"
  using assms by (auto simp: Build_def Let_def bind_eq_Inr intro: build_code_ok build_code_switches)

text \<open>
  C7. The builder returns on every code item the strict verifier accepted: no read leaves the image and
  nothing is thrown, and the snapshot is well formed.
\<close>

theorem accepted_code_builds:
  assumes "vctx_ok c" and "v_insns c" and "VerifyCodeItem c off = Inr u"
    and "p_code src m = Some (v_begin c + off)" and "p_image_end src = Some e" and "e \<le> length (v_img c)"
  shows "\<exists>sn. Build (v_img c) src m = Inr sn \<and> snapshot_ok sn"
  using assms by (rule Build_accepted)

end
