(* ===== verification/Example_Snapshot.thy ===== *)
theory Example_Snapshot
  imports Snapshot_Laws Example_Run
begin

text \<open>
  The code of the one method of the example dex, on which the theorems about snapshots are applied.
  The pools name nothing: they only fill in constants.
\<close>

definition example_pool :: "unit pool" where
  "example_pool =
     \<lparr>p_string = (\<lambda>_. []), p_type = (\<lambda>_. lit ''Ljava/lang/Exception;''), p_method = (\<lambda>_. ([], [], [])),
      p_field = (\<lambda>_. ([], [], [])), p_proto = (\<lambda>_. []), p_call_site = (\<lambda>_. ()),
      p_method_class = (\<lambda>_. lit ''La;''), p_method_name = (\<lambda>_. lit ''m''),
      p_method_proto = (\<lambda>_. lit ''()V''), p_access_flags = (\<lambda>_. 9),
      p_code = (\<lambda>_. Some 256), p_image_end = Some 440\<rparr>"

lemma example_pool_simps:
  "p_code example_pool m = Some (v_begin example_ctx + 256)" "p_image_end example_pool = Some 440"
  by (simp_all add: example_pool_def)

lemma example_code_hdr: "rd_code example_dex 256 = Inr (code_at example_ctx 256)"
    "insns_size (code_at example_ctx 256) = 6" "v_insns example_ctx"
  using accepted_code(1) [OF example_ctx_ok _ example_code]
  by (simp_all add: example_ctx_def code_at_def example_reads)

lemma example_built: "\<exists>sn. Build example_dex example_pool 0 = Inr sn"
  using Build_accepted [OF example_ctx_ok example_code_hdr(3) example_code example_pool_simps]
  by (simp add: length_example_dex) blast

section \<open>Witnesses\<close>

theorem snapshot_well_formed_witness:
  "\<exists>sn. Build example_dex example_pool 0 = Inr sn \<and> snapshot_ok sn \<and> insns_size (code_at example_ctx 256) = 6"
proof -
  from example_built obtain sn where sn: "Build example_dex example_pool 0 = Inr sn" by blast
  from snapshot_well_formed [OF sn _ example_code_hdr(1)] sn example_code_hdr(2)
  show ?thesis by (simp add: example_pool_def)
qed

theorem accepted_code_builds_witness:
  "\<exists>sn. Build example_dex example_pool 0 = Inr sn \<and> snapshot_ok sn"
  using accepted_code_builds [OF example_ctx_ok example_code_hdr(3) example_code example_pool_simps]
  by (simp add: length_example_dex)

end
