(* ===== verification/Cfg_Construct.thy ===== *)
theory Cfg_Construct
  imports Cfg_Graph Snapshot_Builder
begin

text \<open>
  From a method snapshot to the graph of the decompiler: \<open>BuildNodeFromBlock\<close> of
  \<open>src/native/dad_cpp/basic_blocks.cpp\<close> and \<open>Construct\<close> of \<open>graph.cpp\<close>. Only blocks the entry
  reaches become nodes, in breadth-first order, exception handlers first; then the edges are
  added, the branches of conditions and the cases of switches are wired, and the nodes are
  numbered.

  The opcode handlers are a parameter: \<open>d_dispatch\<close> is \<open>DispatchInstruction\<close> on the shared state
  \<open>'v\<close> (the register map, the counter of temporaries, and the instruction objects), an absent
  result being the null pointer, and \<open>d_stamp\<close> writes \<open>source_byte_off\<close> into an object. The field
  \<open>off_last_ins\<close> of a condition, which nothing reads, is left out.
\<close>

section \<open>One block\<close>

record ('cs, 'i, 'v) dispatcher =
  d_dispatch :: "'cs raw_ins \<Rightarrow> payload option \<Rightarrow> bytes \<Rightarrow> 'v \<Rightarrow> ('i option \<times> 'v) result"
  d_stamp :: "nat \<Rightarrow> 'i \<Rightarrow> 'v \<Rightarrow> 'v"

definition OP_MONITOR_ENTER :: nat where
  "OP_MONITOR_ENTER = 0x1D"

definition OP_MONITOR_EXIT :: nat where
  "OP_MONITOR_EXIT = 0x1E"

fun build_ins ::
    "('cs, 'i, 'v) dispatcher \<Rightarrow> (nat \<times> payload) list \<Rightarrow> bytes \<Rightarrow> 'cs raw_ins list \<Rightarrow> 'v
       \<Rightarrow> ('i list \<times> 'v) result" where
  "build_ins d payloads exc [] v = Inr ([], v)"
| "build_ins d payloads exc (ri # ris) v =
     (if ri_opcode ri = OP_MONITOR_ENTER \<or> ri_opcode ri = OP_MONITOR_EXIT
      then build_ins d payloads exc ris v
      else bind (d_dispatch d ri (map_of payloads (ri_byte_off ri)) exc v) (\<lambda>(ir, v1).
        case ir of
          None \<Rightarrow> build_ins d payloads exc ris v1
        | Some i \<Rightarrow>
            bind (build_ins d payloads exc ris (d_stamp d (ri_byte_off ri) i v1)) (\<lambda>(lins, v2).
              Inr (i # lins, v2))))"

text \<open>The class of the node, by the last opcode of the block.\<close>

definition typed_block :: "nat \<Rightarrow> string \<Rightarrow> 'i list \<Rightarrow> 'i node" where
  "typed_block last_op name lins =
     (if last_op \<ge> 0x0E \<and> last_op \<le> 0x11 then new_ReturnBlock name lins
      else if last_op = 0x2B \<or> last_op = 0x2C then new_SwitchBlock name lins
      else if last_op \<ge> 0x32 \<and> last_op \<le> 0x3D then new_CondBlock name lins
      else if last_op = 0x27 then new_ThrowBlock name lins
      else if last_op \<ge> 0x28 \<and> last_op \<le> 0x2A then new_StatementBlock name (butlast lins)
      else new_StatementBlock name lins)"

definition BuildNodeFromBlock ::
    "('cs, 'i, 'v) dispatcher \<Rightarrow> 'cs raw_block \<Rightarrow> bytes \<Rightarrow> 'v \<Rightarrow> ('i node \<times> 'v) result" where
  "BuildNodeFromBlock d block exc v =
     bind (build_ins d (rb_payloads block) exc (rb_ins block) v) (\<lambda>(lins, v').
       Inr (typed_block (if rb_ins block = [] then 0 else ri_opcode (last (rb_ins block)))
              (rb_name block) lins, v'))"

section \<open>Building the nodes\<close>

definition exception_types :: "'cs snapshot \<Rightarrow> bytes list" where
  "exception_types sn =
     fold (\<lambda>er ts. fold (\<lambda>ci ts. if ch_block ci < length ts then ts[ch_block ci := ch_type ci] else ts)
                     (er_handlers er) ts)
       (sn_exceptions sn) (replicate (length (sn_blocks sn)) [])"

text \<open>The breadth-first state: what was queued, and which of it first through an exception edge.\<close>

record bfs_marks =
  b_seen :: "bool list"
  b_seed :: "bool list"

fun enqueue :: "bool \<Rightarrow> nat list \<Rightarrow> bfs_marks \<Rightarrow> nat list \<times> bfs_marks" where
  "enqueue exc [] m = ([], m)"
| "enqueue exc (t # ts) m =
     (if t < length (b_seen m) \<and> \<not> b_seen m ! t then
        (case enqueue exc ts (m\<lparr>b_seen := (b_seen m)[t := True],
                               b_seed := (if exc then (b_seed m)[t := True] else b_seed m)\<rparr>) of
           (q, m') \<Rightarrow> (t # q, m'))
      else enqueue exc ts m)"

record ('i, 'v) building =
  bd_nodes :: "nat option list"
  bd_store :: "'i store"
  bd_graph :: "'i graph"
  bd_vars :: 'v
  bd_enters_non_instruction :: bool

definition build_block ::
    "('cs, 'i, 'v) dispatcher \<Rightarrow> 'cs snapshot \<Rightarrow> bytes list \<Rightarrow> bfs_marks \<Rightarrow> nat
       \<Rightarrow> ('i, 'v) building \<Rightarrow> ('i, 'v) building result" where
  "build_block d sn exc m bid st =
     (let rb = sn_blocks sn ! bid in
      bind (BuildNodeFromBlock d rb (exc ! bid) (bd_vars st)) (\<lambda>(x, v).
        let (n, s1, g1) = MakeNode x (bd_store st) (bd_graph st);
            s2 = (if b_seed m ! bid then modify n (\<lambda>y. y\<lparr>n_in_catch := True\<rparr>) s1 else s1)
        in Inr (st\<lparr>bd_nodes := (bd_nodes st)[bid := Some n], bd_store := s2, bd_graph := g1, bd_vars := v,
                   bd_enters_non_instruction :=
                     bd_enters_non_instruction st \<or> rb_starts_off_instruction rb\<rparr>)))"

definition unseen :: "bfs_marks \<Rightarrow> nat" where
  "unseen m = length (filter Not (b_seen m))"

lemma unseen_update:
  "t < length l \<Longrightarrow> \<not> l ! t \<Longrightarrow> Suc (length (filter Not (l[t := True]))) = length (filter Not l)"
proof (induction l arbitrary: t)
  case (Cons x l)
  then show ?case by (cases t) auto
qed simp

lemma enqueue_unseen: "length (fst (enqueue exc ts m)) + unseen (snd (enqueue exc ts m)) = unseen m"
proof (induction exc ts m rule: enqueue.induct)
  case (2 exc t ts m)
  then show ?case using unseen_update [of t "b_seen m"] by (auto simp: unseen_def split: prod.splits)
qed simp

definition visit_block :: "'cs snapshot \<Rightarrow> nat \<Rightarrow> bfs_marks \<Rightarrow> nat list \<times> bfs_marks" where
  "visit_block sn bid m =
     (let rb = sn_blocks sn ! bid;
          (q1, m1) = enqueue True (map ch_block (rb_exception_handlers rb)) m;
          (q2, m2) = enqueue False (map ce_target (rb_childs rb)) m1
      in (q1 @ q2, m2))"

lemma visit_block_unseen: "length (fst (visit_block sn bid m)) + unseen (snd (visit_block sn bid m)) = unseen m"
  using enqueue_unseen [of True "map ch_block (rb_exception_handlers (sn_blocks sn ! bid))" m]
    enqueue_unseen [of False "map ce_target (rb_childs (sn_blocks sn ! bid))"]
  by (auto simp: visit_block_def Let_def split: prod.splits) (metis add.assoc fst_conv snd_conv)

function build_loop ::
    "('cs, 'i, 'v) dispatcher \<Rightarrow> 'cs snapshot \<Rightarrow> bytes list \<Rightarrow> nat list \<Rightarrow> bfs_marks
       \<Rightarrow> ('i, 'v) building \<Rightarrow> ('i, 'v) building result" where
  "build_loop d sn exc [] m st = Inr st"
| "build_loop d sn exc (bid # queue) m st =
     bind (build_block d sn exc m bid st) (\<lambda>st'.
       build_loop d sn exc (queue @ fst (visit_block sn bid m)) (snd (visit_block sn bid m)) st')"
  by pat_completeness auto
termination
  by (relation "measure (\<lambda>(d, sn, exc, queue, m, st). length queue + unseen m)")
    (auto simp: visit_block_unseen less_Suc_eq_le)

declare build_loop.simps(2) [simp del]

section \<open>Wiring the edges\<close>

definition wire_child :: "nat option list \<Rightarrow> nat \<Rightarrow> child_edge \<Rightarrow> 'i store \<times> 'i graph \<Rightarrow> 'i store \<times> 'i graph" where
  "wire_child nodes n e = (\<lambda>(s, g).
     (case (if ce_target e < length nodes then nodes ! ce_target e else None) of
        None \<Rightarrow> (s, g)
      | Some tgt \<Rightarrow>
        let cond = (\<lambda>x. if \<not> is_CondBlock (n_class x) then x
              else if ce_kind e = Branch then x\<lparr>n_true_branch := Some tgt\<rparr>
              else if ce_kind e = BranchFalse then x\<lparr>n_false_branch := Some tgt\<rparr> else x);
            switch = (\<lambda>x. if n_class x \<noteq> SwitchBlock then x
              else if ce_kind e = SwitchCase then
                x\<lparr>n_cases := (if tgt \<in> set (n_cases x) then n_cases x else n_cases x @ [tgt]),
                  n_node_to_case := AList.update tgt
                    ((case map_of (n_node_to_case x) tgt of Some ks \<Rightarrow> ks | None \<Rightarrow> []) @ [ce_label e]) (n_node_to_case x)\<rparr>
              else if ce_kind e = SwitchDefault then x\<lparr>n_default_case := Some tgt\<rparr> else x)
        in (modify n (\<lambda>x. switch (cond x)) s, add_edge n tgt g)))"

definition wire_handler :: "nat option list \<Rightarrow> nat \<Rightarrow> catch_info \<Rightarrow> 'i store \<times> 'i graph \<Rightarrow> 'i store \<times> 'i graph" where
  "wire_handler nodes n ci = (\<lambda>(s, g).
     (case (if ch_block ci < length nodes then nodes ! ch_block ci else None) of
        None \<Rightarrow> (s, g)
      | Some handler \<Rightarrow>
        let t = map (\<lambda>b. char_of (unat b)) (ch_type ci)
        in add_catch_edge n handler (modify handler (set_catch_type t) (modify n (set_catch_type t) s)) g))"

definition default_false :: "nat \<Rightarrow> 'i store \<Rightarrow> 'i store" where
  "default_false n s =
     (let x = heap s n in
      if is_CondBlock (n_class x) \<and> n_true_branch x \<noteq> None \<and> n_false_branch x = None
      then modify n (\<lambda>x. x\<lparr>n_false_branch := n_true_branch x\<rparr>) s else s)"

definition wire_block ::
    "nat option list \<Rightarrow> 'cs raw_block \<times> nat option \<Rightarrow> 'i store \<times> 'i graph \<Rightarrow> 'i store \<times> 'i graph" where
  "wire_block nodes = (\<lambda>(rb, node) (s, g).
     (case node of
        None \<Rightarrow> (s, g)
      | Some n \<Rightarrow>
        let (s1, g1) = fold (wire_child nodes n) (rb_childs rb) (s, g);
            (s2, g2) = fold (wire_handler nodes n) (rb_exception_handlers rb) (s1, g1)
        in (default_false n s2, g2)))"

section \<open>The graph\<close>

text \<open>A node all of whose predecessors with a smaller number are in a catch is in it as well.\<close>

definition mark_in_catch :: "'i graph \<Rightarrow> nat \<Rightarrow> 'i store \<Rightarrow> 'i store" where
  "mark_in_catch g n s =
     (let active = filter (\<lambda>p. n_num (heap s p) < n_num (heap s n)) (all_preds g n) in
      if active \<noteq> [] \<and> (\<forall>p \<in> set active. n_in_catch (heap s p))
      then modify n (\<lambda>x. x\<lparr>n_in_catch := True\<rparr>) s else s)"

text \<open>The only return node, if there is exactly one; a second one ends the search.\<close>

definition only_return :: "'i store \<Rightarrow> nat list \<Rightarrow> nat option" where
  "only_return s ns =
     (case filter (\<lambda>n. is_BasicBlock (n_class (heap s n)) \<and> n_type (heap s n) = TypeReturn) ns of
        [n] \<Rightarrow> Some n | _ \<Rightarrow> None)"

definition no_nodes :: "'cs snapshot \<Rightarrow> 'i store \<Rightarrow> 'v \<Rightarrow> ('i, 'v) building" where
  "no_nodes sn s v =
     \<lparr>bd_nodes = replicate (length (sn_blocks sn)) None, bd_store = s, bd_graph = empty_graph,
      bd_vars = v, bd_enters_non_instruction = False\<rparr>"

definition Construct ::
    "('cs, 'i, 'v) dispatcher \<Rightarrow> 'cs snapshot \<Rightarrow> 'i store \<Rightarrow> 'v \<Rightarrow> ('i, 'v) building result" where
  "Construct d sn s v =
     (case sn_entry_block_id sn of
        None \<Rightarrow> Inr (no_nodes sn s v)
      | Some entry \<Rightarrow>
        if entry \<ge> length (sn_blocks sn) then throw ''Construct: entry_block_id names no block''
        else
          let none = replicate (length (sn_blocks sn)) False;
              marks = \<lparr>b_seen = none[entry := True], b_seed = none\<rparr>
          in bind (build_loop d sn (exception_types sn) [entry] marks (no_nodes sn s v)) (\<lambda>bd.
            let (s1, g1) = fold (wire_block (bd_nodes bd)) (zip (sn_blocks sn) (bd_nodes bd))
                             (bd_store bd, bd_graph bd);
                (s2, g2) = compute_rpo s1 (g1\<lparr>g_entry := bd_nodes bd ! entry\<rparr>);
                s3 = fold (mark_in_catch g2) (g_rpo g2) s2;
                (s4, g3) = number_ins s3 g2
            in Inr (bd\<lparr>bd_store := s4, bd_graph := g3\<lparr>g_exit := only_return s4 (g_nodes g3)\<rparr>\<rparr>)))"

end
