(* ===== verification/Cfg_Construct_Laws.thy ===== *)
theory Cfg_Construct_Laws
  imports Cfg_Construct Cfg_Traversal Snapshot_Laws
begin

text \<open>
  \<open>Construct\<close> builds a copy of the reachable part of the snapshot: one node per block the entry
  reaches, the edges of the graph are the edges of the blocks, and every node of the graph can be
  reached from its entry. Each node has the class its last instruction calls for, and the branches
  of a condition lead where its instruction says.
\<close>

section \<open>Reachable blocks\<close>

definition targets :: "'cs raw_block \<Rightarrow> nat list" where
  "targets rb = map ch_block (rb_exception_handlers rb) @ map ce_target (rb_childs rb)"

definition block_step :: "'cs snapshot \<Rightarrow> nat \<Rightarrow> nat \<Rightarrow> bool" where
  "block_step sn a b \<longleftrightarrow> b \<in> set (targets (sn_blocks sn ! a)) \<and> b < length (sn_blocks sn)"

definition reached :: "'cs snapshot \<Rightarrow> nat \<Rightarrow> bool" where
  "reached sn b \<longleftrightarrow> (\<exists>e. sn_entry_block_id sn = Some e \<and> (block_step sn)\<^sup>*\<^sup>* e b)"

lemma reached_step: "reached sn b \<Longrightarrow> block_step sn b c \<Longrightarrow> reached sn c"
  by (auto simp: reached_def intro: rtranclp.rtrancl_into_rtrancl)

definition seen_set :: "bfs_marks \<Rightarrow> nat set" where
  "seen_set m = {b. b < length (b_seen m) \<and> b_seen m ! b}"

lemma seen_set_insert:
  assumes "t < length (b_seen m)"
  shows "seen_set (m\<lparr>b_seen := (b_seen m)[t := True], b_seed := sd\<rparr>) = insert t (seen_set m)"
  using assms by (auto simp: seen_set_def nth_list_update)

lemma enqueue_facts:
  "enqueue exc ts m = (q, m') \<Longrightarrow>
     length (b_seen m') = length (b_seen m) \<and>
     seen_set m' = seen_set m \<union> {t \<in> set ts. t < length (b_seen m)} \<and>
     distinct q \<and> set q = seen_set m' - seen_set m"
proof (induction exc ts m arbitrary: q m' rule: enqueue.induct)
  case (2 exc t ts m)
  show ?case
  proof (cases "t < length (b_seen m) \<and> \<not> b_seen m ! t")
    case True
    let ?m1 = "m\<lparr>b_seen := (b_seen m)[t := True], b_seed := (if exc then (b_seed m)[t := True] else b_seed m)\<rparr>"
    from "2.prems" True obtain q1 where q: "enqueue exc ts ?m1 = (q1, m')" "q = t # q1"
      by (auto simp: Let_def split: prod.splits)
    have ins: "seen_set ?m1 = insert t (seen_set m)" by (rule seen_set_insert) (use True in simp)
    have len: "length (b_seen ?m1) = length (b_seen m)" by simp
    have new: "t \<notin> seen_set m" using True by (simp add: seen_set_def)
    note IH = "2.IH"(1) [OF True q(1)]
    have "seen_set m' = seen_set m \<union> {x \<in> set (t # ts). x < length (b_seen m)}"
      using IH ins len True by auto
    moreover have "set q = seen_set m' - seen_set m" using IH ins new q(2) by auto
    moreover have "distinct q" using IH ins q(2) by auto
    ultimately show ?thesis using IH len by simp
  next
    case False
    with "2.prems" have "enqueue exc ts m = (q, m')" by (simp split: if_splits)
    note IH = "2.IH"(2) [OF False this]
    have "t \<in> seen_set m \<or> \<not> t < length (b_seen m)" using False by (auto simp: seen_set_def)
    then have "{x \<in> set (t # ts). x < length (b_seen m)} \<union> seen_set m = {x \<in> set ts. x < length (b_seen m)} \<union> seen_set m"
      by auto
    with IH show ?thesis by (simp only: Un_commute)
  qed
qed auto

lemma visit_block_facts:
  assumes "length (b_seen m) = length (sn_blocks sn)" "visit_block sn bid m = (q, m')"
  shows "length (b_seen m') = length (sn_blocks sn)"
    "seen_set m' = seen_set m \<union> {t. block_step sn bid t}"
    "distinct q" "set q = seen_set m' - seen_set m"
proof -
  let ?rb = "sn_blocks sn ! bid"
  obtain q1 m1 q2 where e: "enqueue True (map ch_block (rb_exception_handlers ?rb)) m = (q1, m1)"
      "enqueue False (map ce_target (rb_childs ?rb)) m1 = (q2, m')" "q = q1 @ q2"
    using assms(2) by (auto simp: visit_block_def Let_def split: prod.splits)
  note f1 = enqueue_facts [OF e(1)] and f2 = enqueue_facts [OF e(2)]
  show "length (b_seen m') = length (sn_blocks sn)" using f1 f2 assms(1) by simp
  show seen: "seen_set m' = seen_set m \<union> {t. block_step sn bid t}"
    using f1 f2 assms(1) by (auto simp: block_step_def targets_def)
  show "distinct q" using f1 f2 e(3) by auto
  show "set q = seen_set m' - seen_set m" using f1 f2 e(3) by auto
qed

section \<open>The nodes\<close>

text \<open>What the building state holds: the blocks with a node, and the nodes themselves.\<close>

definition last_op :: "'cs raw_block \<Rightarrow> nat" where
  "last_op rb = (if rb_ins rb = [] then 0 else ri_opcode (last (rb_ins rb)))"

definition block_class :: "nat \<Rightarrow> node_class" where
  "block_class op =
     (if IsReturn op then ReturnBlock else if IsSwitch op then SwitchBlock
      else if IsConditionalBranch op then CondBlock else if IsThrow op then ThrowBlock else StatementBlock)"

definition built :: "('i, 'v) building \<Rightarrow> nat set" where
  "built st = {b. b < length (bd_nodes st) \<and> bd_nodes st ! b \<noteq> None}"

definition nodes_ok :: "'cs snapshot \<Rightarrow> ('i, 'v) building \<Rightarrow> bool" where
  "nodes_ok sn st \<longleftrightarrow>
     length (bd_nodes st) = length (sn_blocks sn) \<and> distinct (g_nodes (bd_graph st)) \<and>
     Some ` set (g_nodes (bd_graph st)) = set (bd_nodes st) - {None} \<and>
     (\<forall>b c. b \<in> built st \<longrightarrow> c < length (bd_nodes st) \<longrightarrow> bd_nodes st ! b = bd_nodes st ! c \<longrightarrow> b = c) \<and>
     (\<forall>n \<in> set (g_nodes (bd_graph st)). n < fresh (bd_store st)) \<and>
     (\<forall>b \<in> built st. \<forall>n. bd_nodes st ! b = Some n \<longrightarrow>
        n_name (heap (bd_store st) n) = rb_name (sn_blocks sn ! b) \<and>
        n_class (heap (bd_store st) n) = block_class (last_op (sn_blocks sn ! b)) \<and>
        n_true_branch (heap (bd_store st) n) = None \<and> n_false_branch (heap (bd_store st) n) = None)"

lemma typed_block_facts:
  "n_name (typed_block op name lins) = name" "n_class (typed_block op name lins) = block_class op"
  "n_true_branch (typed_block op name lins) = None" "n_false_branch (typed_block op name lins) = None"
  by (auto simp: typed_block_def block_class_def new_ReturnBlock_def new_SwitchBlock_def new_CondBlock_def
      new_ThrowBlock_def new_StatementBlock_def new_block_def IsReturn_def IsSwitch_def IsConditionalBranch_def
      IsThrow_def)

definition no_edges :: "'i graph \<Rightarrow> bool" where
  "no_edges g \<longleftrightarrow> g_edges g = [] \<and> g_catch_edges g = [] \<and> g_reverse_edges g = [] \<and> g_reverse_catch_edges g = []"

lemma set_fill:
  "i < length xs \<Longrightarrow> xs ! i = None \<Longrightarrow> set (xs[i := Some y]) - {None} = insert (Some y) (set xs - {None})"
proof (induction xs arbitrary: i)
  case (Cons x xs)
  then show ?case by (cases i) auto
qed simp

lemma build_block_facts:
  assumes "build_block d sn exc m b st = Inr st'" "nodes_ok sn st" "b < length (bd_nodes st)" "b \<notin> built st"
  shows "nodes_ok sn st'" "built st' = insert b (built st)" "no_edges (bd_graph st) \<Longrightarrow> no_edges (bd_graph st')"
proof -
  let ?n = "fresh (bd_store st)"
  obtain lins v where st': "st' = st\<lparr>bd_nodes := (bd_nodes st)[b := Some ?n], bd_store := bd_store st', bd_graph := add_node ?n (bd_graph st),
      bd_vars := v, bd_enters_non_instruction := bd_enters_non_instruction st'\<rparr>"
    and s': "fresh (bd_store st') = Suc ?n"
      "\<And>k. k \<noteq> ?n \<Longrightarrow> heap (bd_store st') k = heap (bd_store st) k"
      "n_name (heap (bd_store st') ?n) = rb_name (sn_blocks sn ! b)"
      "n_class (heap (bd_store st') ?n) = block_class (last_op (sn_blocks sn ! b))"
      "n_true_branch (heap (bd_store st') ?n) = None" "n_false_branch (heap (bd_store st') ?n) = None"
    using assms(1)
    by (auto simp: build_block_def BuildNodeFromBlock_def Let_def bind_eq_Inr MakeNode_def alloc_def
        typed_block_facts last_op_def)
  have nodes: "bd_nodes st' = (bd_nodes st)[b := Some ?n]" "bd_graph st' = add_node ?n (bd_graph st)"
    by (subst st', simp)+
  show built: "built st' = insert b (built st)" using assms(3) by (auto simp: built_def nodes nth_list_update)
  note ok = assms(2) [unfolded nodes_ok_def]
  have new: "?n \<notin> set (g_nodes (bd_graph st))" using ok by blast
  then have new': "Some ?n \<notin> set (bd_nodes st)" using ok by (metis DiffI emptyE imageE insertE option.distinct(1) option.inject)
  have old: "bd_nodes st ! b = None" using assms(3,4) by (simp add: built_def)
  have "set (bd_nodes st') - {None} = insert (Some ?n) (set (bd_nodes st) - {None})"
    unfolding nodes by (rule set_fill [OF assms(3) old])
  then have img: "Some ` set (g_nodes (bd_graph st')) = set (bd_nodes st') - {None}"
    using ok by (simp add: nodes add_node_def)
  have inj: "x = y" if "x \<in> built st'" "y < length (bd_nodes st')" "bd_nodes st' ! x = bd_nodes st' ! y" for x y
  proof (cases "x = b \<or> y = b")
    case True
    have "bd_nodes st ! k \<noteq> Some ?n" if "k < length (bd_nodes st)" for k using new' that nth_mem by metis
    with True that assms(3) show ?thesis
      by (auto simp: nodes nth_list_update built built_def split: if_splits)
  next
    case False
    with that ok built show ?thesis by (auto simp: nodes)
  qed
  have names: "n_name (heap (bd_store st') n) = rb_name (sn_blocks sn ! x) \<and>
      n_class (heap (bd_store st') n) = block_class (last_op (sn_blocks sn ! x)) \<and>
      n_true_branch (heap (bd_store st') n) = None \<and> n_false_branch (heap (bd_store st') n) = None"
    if "x \<in> built st'" "bd_nodes st' ! x = Some n" for x n
  proof (cases "x = b")
    case True
    with that assms(3) s' show ?thesis by (simp add: nodes)
  next
    case False
    with that built have x: "x \<in> built st" "bd_nodes st ! x = Some n" by (auto simp: nodes)
    then have "n \<noteq> ?n" using new' by (auto simp: built_def dest: nth_mem)
    with x s'(2) ok show ?thesis by simp
  qed
  have "length (bd_nodes st') = length (sn_blocks sn)" using ok by (simp add: nodes)
  moreover have "distinct (g_nodes (bd_graph st'))" using ok new by (simp add: nodes add_node_def)
  moreover have "\<forall>n \<in> set (g_nodes (bd_graph st')). n < fresh (bd_store st')"
    using ok s'(1) by (auto simp: nodes add_node_def)
  ultimately show "nodes_ok sn st'" unfolding nodes_ok_def using img inj names by blast
  show "no_edges (bd_graph st) \<Longrightarrow> no_edges (bd_graph st')" by (simp add: no_edges_def nodes add_node_def)
qed

definition build_inv :: "'cs snapshot \<Rightarrow> nat list \<Rightarrow> bfs_marks \<Rightarrow> ('i, 'v) building \<Rightarrow> bool" where
  "build_inv sn queue m st \<longleftrightarrow>
     length (b_seen m) = length (sn_blocks sn) \<and> nodes_ok sn st \<and> no_edges (bd_graph st) \<and>
     distinct queue \<and> built st \<inter> set queue = {} \<and> seen_set m = built st \<union> set queue \<and>
     (\<forall>e. sn_entry_block_id sn = Some e \<longrightarrow> e \<in> seen_set m) \<and>
     (\<forall>b \<in> seen_set m. reached sn b) \<and> (\<forall>b \<in> built st. \<forall>t. block_step sn b t \<longrightarrow> t \<in> seen_set m)"

lemma build_inv_step:
  assumes "build_inv sn (b # queue) m st" "build_block d sn exc m b st = Inr st'"
  shows "build_inv sn (queue @ fst (visit_block sn b m)) (snd (visit_block sn b m)) st'"
proof -
  obtain q m' where v: "visit_block sn b m = (q, m')" by fastforce
  have len: "length (b_seen m) = length (sn_blocks sn)" using assms(1) by (simp add: build_inv_def)
  note vf = visit_block_facts [OF len v]
  have b: "b \<in> seen_set m" "b < length (bd_nodes st)" "b \<notin> built st"
    using assms(1) by (auto simp: build_inv_def nodes_ok_def seen_set_def)
  have "reached sn t" if "block_step sn b t" for t
    using that b(1) assms(1) by (auto simp: build_inv_def reached_def intro: rtranclp.rtrancl_into_rtrancl)
  then have new: "reached sn t" if "t \<in> seen_set m'" for t
    using that vf(2) assms(1) by (auto simp: build_inv_def)
  have inv: "nodes_ok sn st" "no_edges (bd_graph st)" "distinct queue" "b \<notin> set queue" "built st \<inter> set queue = {}"
      "seen_set m = insert b (built st \<union> set queue)" "\<forall>e. sn_entry_block_id sn = Some e \<longrightarrow> e \<in> seen_set m"
      "\<forall>b \<in> built st. \<forall>t. block_step sn b t \<longrightarrow> t \<in> seen_set m"
    using assms(1) by (auto simp: build_inv_def)
  note bf = build_block_facts [OF assms(2) inv(1) b(2,3)]
  have "seen_set m' = built st' \<union> set (queue @ q)" "built st' \<inter> set (queue @ q) = {}" "distinct (queue @ q)"
    using vf inv bf(2) b(3) by auto
  moreover have "\<forall>b \<in> built st'. \<forall>t. block_step sn b t \<longrightarrow> t \<in> seen_set m'"
    using inv(8) vf(2) bf(2) by auto
  moreover have "\<forall>e. sn_entry_block_id sn = Some e \<longrightarrow> e \<in> seen_set m'" using inv(7) vf(2) by auto
  ultimately show ?thesis
    unfolding build_inv_def v fst_conv snd_conv
    using bf(1) bf(3) [OF inv(2)] new vf(1) by blast
qed

lemma build_loop_inv:
  "build_loop d sn exc queue m st = Inr st' \<Longrightarrow> build_inv sn queue m st \<Longrightarrow> \<exists>m'. build_inv sn [] m' st'"
proof (induction d sn exc queue m st rule: build_loop.induct)
  case (2 d sn exc b queue m st)
  from "2.prems"(1) obtain mid where mid: "build_block d sn exc m b st = Inr mid"
      "build_loop d sn exc (queue @ fst (visit_block sn b m)) (snd (visit_block sn b m)) mid = Inr st'"
    by (auto simp: build_loop.simps(2) bind_eq_Inr)
  from "2.IH" [OF mid build_inv_step [OF "2.prems"(2) mid(1)]] show ?case .
qed auto

lemma built_reached:
  assumes "sn_entry_block_id sn = Some e" "e < length (sn_blocks sn)"
    "build_loop d sn exc [e] \<lparr>b_seen = (replicate (length (sn_blocks sn)) False)[e := True], b_seed = sd\<rparr> (no_nodes sn s v) = Inr st"
  shows "nodes_ok sn st" "no_edges (bd_graph st)" "built st = {b. reached sn b}"
proof -
  let ?m = "\<lparr>b_seen = (replicate (length (sn_blocks sn)) False)[e := True], b_seed = sd\<rparr>"
  have seen: "seen_set ?m = {e}" using assms(2) by (auto simp: seen_set_def nth_list_update)
  have "built (no_nodes sn s v) = {}" by (auto simp: built_def no_nodes_def)
  moreover have "nodes_ok sn (no_nodes sn s v)"
    using calculation by (auto simp: nodes_ok_def no_nodes_def empty_graph_def)
  moreover have "no_edges (bd_graph (no_nodes sn s v))" by (simp add: no_edges_def no_nodes_def empty_graph_def)
  moreover have "reached sn e" using assms(1) by (simp add: reached_def)
  ultimately have "build_inv sn [e] ?m (no_nodes sn s v)" using seen assms(1,2) by (simp add: build_inv_def)
  then obtain m' where inv: "build_inv sn [] m' st" using build_loop_inv [OF assms(3)] by blast
  then show "nodes_ok sn st" "no_edges (bd_graph st)" by (simp_all add: build_inv_def)
  have "e \<in> built st" using inv assms(1) by (auto simp: build_inv_def)
  have closed: "t \<in> built st" if "b \<in> built st" "block_step sn b t" for b t
    using inv that by (auto simp: build_inv_def)
  show "built st = {b. reached sn b}"
  proof (intro set_eqI iffI)
    fix b assume "b \<in> {b. reached sn b}"
    then have "(block_step sn)\<^sup>*\<^sup>* e b" using assms(1) by (simp add: reached_def)
    then show "b \<in> built st" by (induction rule: rtranclp_induct) (use \<open>e \<in> built st\<close> closed in auto)
  qed (use inv in \<open>auto simp: build_inv_def\<close>)
qed

section \<open>The edges\<close>

text \<open>The node of a block, if it has one.\<close>

definition node_at :: "nat option list \<Rightarrow> nat \<Rightarrow> nat option" where
  "node_at nodes c = (if c < length nodes then nodes ! c else None)"

definition same_kind :: "'i store \<Rightarrow> 'i store \<Rightarrow> bool" where
  "same_kind s s' \<longleftrightarrow> fresh s' = fresh s \<and>
     (\<forall>k. n_class (heap s' k) = n_class (heap s k) \<and> n_name (heap s' k) = n_name (heap s k) \<and>
        n_ins (heap s' k) = n_ins (heap s k) \<and> n_type (heap s' k) = n_type (heap s k))"

lemma same_kind_refl [simp]: "same_kind s s"
  by (simp add: same_kind_def)

lemma same_kind_trans: "same_kind s t \<Longrightarrow> same_kind t u \<Longrightarrow> same_kind s u"
  by (simp add: same_kind_def)

lemma same_kind_modify:
  assumes "\<And>x. n_class (f x) = n_class x \<and> n_name (f x) = n_name x \<and> n_ins (f x) = n_ins x \<and> n_type (f x) = n_type x"
  shows "same_kind s (modify n f s)"
  using assms by (simp add: same_kind_def)

text \<open>One step of wiring keeps the nodes and adds at most one edge, to one of the two tables.\<close>

definition wired ::
    "'i store \<times> 'i graph \<Rightarrow> 'i store \<times> 'i graph \<Rightarrow> (nat \<times> nat) set \<Rightarrow> (nat \<times> nat) set \<Rightarrow> bool" where
  "wired sg sg' new new_catch \<longleftrightarrow>
     same_kind (fst sg) (fst sg') \<and> g_nodes (snd sg') = g_nodes (snd sg) \<and>
     (\<forall>k v. v \<in> set (GetOrEmpty (g_edges (snd sg')) k) \<longleftrightarrow>
        v \<in> set (GetOrEmpty (g_edges (snd sg)) k) \<or> (k, v) \<in> new) \<and>
     (\<forall>k v. v \<in> set (GetOrEmpty (g_catch_edges (snd sg')) k) \<longleftrightarrow>
        v \<in> set (GetOrEmpty (g_catch_edges (snd sg)) k) \<or> (k, v) \<in> new_catch) \<and>
     (graph_ok (snd sg) \<and> (\<forall>(k, v) \<in> new \<union> new_catch. k \<in> set (g_nodes (snd sg)) \<and> v \<in> set (g_nodes (snd sg))) \<longrightarrow>
        graph_ok (snd sg'))"

lemma wired_refl: "wired sg sg {} {}"
  by (simp add: wired_def)

lemma wired_trans: "wired a b m m' \<Longrightarrow> wired b c n n' \<Longrightarrow> wired a c (m \<union> n) (m' \<union> n')"
  unfolding wired_def by (auto intro: same_kind_trans)

lemma wired_fold:
  assumes "\<And>x sg. wired sg (f x sg) (new x) (newc x)"
  shows "wired sg (fold f xs sg) (\<Union>x \<in> set xs. new x) (\<Union>x \<in> set xs. newc x)"
proof (induction xs arbitrary: sg)
  case (Cons x xs)
  from wired_trans [OF assms Cons.IH] show ?case by simp
qed (simp add: wired_refl)

definition edge_to :: "nat option list \<Rightarrow> nat \<Rightarrow> nat \<Rightarrow> (nat \<times> nat) set" where
  "edge_to nodes n c = (case node_at nodes c of None \<Rightarrow> {} | Some v \<Rightarrow> {(n, v)})"

lemma wired_child: "wired sg (wire_child nodes n e sg) (edge_to nodes n (ce_target e)) {}"
proof (cases sg)
  case (Pair s g)
  show ?thesis
  proof (cases "node_at nodes (ce_target e)")
    case None
    then show ?thesis using Pair by (simp add: wire_child_def edge_to_def node_at_def [symmetric] wired_refl)
  next
    case (Some tgt)
    then obtain f where f: "wire_child nodes n e (s, g) = (modify n f s, add_edge n tgt g)"
        "\<And>x. n_class (f x) = n_class x \<and> n_name (f x) = n_name x \<and> n_ins (f x) = n_ins x \<and> n_type (f x) = n_type x"
      by (simp add: wire_child_def node_at_def [symmetric] Let_def)
    from same_kind_modify [of f, OF f(2)] show ?thesis
      using Some Pair by (auto simp: f(1) wired_def edge_to_def add_edge_def graph_ok_def mirrored_push inside_push)
  qed
qed

lemma catch_edge_graph:
  "snd (add_catch_edge u v s g) =
     g\<lparr>g_catch_edges := push_new u v (g_catch_edges g), g_reverse_catch_edges := push_new v u (g_reverse_catch_edges g)\<rparr>"
  by (simp add: add_catch_edge_def Let_def)

lemma wired_handler: "wired sg (wire_handler nodes n ci sg) {} (edge_to nodes n (ch_block ci))"
proof (cases sg)
  case (Pair s g)
  show ?thesis
  proof (cases "node_at nodes (ch_block ci)")
    case None
    then show ?thesis using Pair by (simp add: wire_handler_def edge_to_def node_at_def [symmetric] wired_refl)
  next
    case (Some h)
    have kind: "same_kind s (modify k (set_catch_type t) s)" for k t and s :: "'a store"
      by (rule same_kind_modify) (simp add: set_catch_type_def)
    have add: "same_kind s (fst (add_catch_edge n h s g))" for s
      by (auto simp: add_catch_edge_def Let_def intro: same_kind_trans [OF kind kind])
    define t where "t = map (\<lambda>b. char_of (unat b) :: char) (ch_type ci)"
    define s2 where "s2 = modify h (set_catch_type t) (modify n (set_catch_type t) s)"
    have w: "wire_handler nodes n ci (s, g) = add_catch_edge n h s2 g"
      using Some by (simp add: wire_handler_def node_at_def [symmetric] Let_def t_def s2_def)
    have "same_kind s (fst (add_catch_edge n h s2 g))"
      unfolding s2_def by (rule same_kind_trans [OF same_kind_trans [OF kind kind] add])
    then show ?thesis unfolding Pair w
      using Some by (auto simp: wired_def edge_to_def catch_edge_graph graph_ok_def mirrored_push inside_push)
  qed
qed

lemma default_false_kind: "same_kind s (default_false n s)"
  by (auto simp: default_false_def Let_def intro!: same_kind_modify)

definition child_pairs :: "nat option list \<Rightarrow> 'cs raw_block \<times> nat option \<Rightarrow> (nat \<times> nat) set" where
  "child_pairs nodes p = (case snd p of None \<Rightarrow> {} | Some n \<Rightarrow> \<Union>e \<in> set (rb_childs (fst p)). edge_to nodes n (ce_target e))"

definition handler_pairs :: "nat option list \<Rightarrow> 'cs raw_block \<times> nat option \<Rightarrow> (nat \<times> nat) set" where
  "handler_pairs nodes p =
     (case snd p of None \<Rightarrow> {} | Some n \<Rightarrow> \<Union>ci \<in> set (rb_exception_handlers (fst p)). edge_to nodes n (ch_block ci))"

lemma wired_block: "wired sg (wire_block nodes p sg) (child_pairs nodes p) (handler_pairs nodes p)"
proof (cases "snd p")
  case None
  then show ?thesis
    by (cases p; cases sg) (simp add: wire_block_def child_pairs_def handler_pairs_def wired_refl)
next
  case (Some n)
  let ?a = "fold (wire_child nodes n) (rb_childs (fst p)) sg"
  let ?b = "fold (wire_handler nodes n) (rb_exception_handlers (fst p)) ?a"
  have "wired sg ?a (\<Union>e \<in> set (rb_childs (fst p)). edge_to nodes n (ce_target e)) (\<Union>e \<in> set (rb_childs (fst p)). {})"
    by (rule wired_fold) (rule wired_child)
  moreover have "wired ?a ?b (\<Union>ci \<in> set (rb_exception_handlers (fst p)). {})
      (\<Union>ci \<in> set (rb_exception_handlers (fst p)). edge_to nodes n (ch_block ci))"
    by (rule wired_fold) (rule wired_handler)
  moreover have "wired ?b (default_false n (fst ?b), snd ?b) {} {}"
    using default_false_kind by (simp add: wired_def)
  moreover have "wire_block nodes p sg = (default_false n (fst ?b), snd ?b)"
    using Some by (cases p; cases sg) (simp add: wire_block_def case_prod_beta Let_def)
  ultimately show ?thesis
    using Some wired_trans [OF wired_trans] by (fastforce simp: child_pairs_def handler_pairs_def)
qed

section \<open>Numbering changes no edge and no kind\<close>

definition same_branches :: "nat \<Rightarrow> 'i store \<Rightarrow> 'i store \<Rightarrow> bool" where
  "same_branches n s s' \<longleftrightarrow> n_true_branch (heap s' n) = n_true_branch (heap s n) \<and>
     n_false_branch (heap s' n) = n_false_branch (heap s n)"

lemma same_branches_trans: "same_branches n s t \<Longrightarrow> same_branches n t u \<Longrightarrow> same_branches n s u"
  by (simp add: same_branches_def)

definition same_wiring :: "'i store \<Rightarrow> 'i store \<Rightarrow> bool" where
  "same_wiring s s' \<longleftrightarrow> same_kind s s' \<and> (\<forall>n. same_branches n s s')"

lemma same_wiring_refl [simp]: "same_wiring s s"
  by (simp add: same_wiring_def same_branches_def)

lemma same_wiring_trans: "same_wiring s t \<Longrightarrow> same_wiring t u \<Longrightarrow> same_wiring s u"
  unfolding same_wiring_def using same_kind_trans same_branches_trans by blast

lemma same_wiring_modify:
  assumes "\<And>x. n_class (f x) = n_class x \<and> n_name (f x) = n_name x \<and> n_ins (f x) = n_ins x \<and>
    n_type (f x) = n_type x \<and> n_true_branch (f x) = n_true_branch x \<and> n_false_branch (f x) = n_false_branch x"
  shows "same_wiring s (modify n f s)"
  using assms by (simp add: same_wiring_def same_kind_def same_branches_def)

lemma fold_same_wiring: "(\<And>x s. same_wiring s (f x s)) \<Longrightarrow> same_wiring s (fold f xs s)"
  by (induction xs arbitrary: s) (auto intro: same_wiring_trans)

lemma assign_po_wiring: "same_wiring s (assign_po ns c s)"
proof (induction ns c s rule: assign_po.induct)
  case (2 n ns cnt s)
  have "same_wiring s (modify n (\<lambda>x. x\<lparr>n_po := cnt\<rparr>) s)" by (rule same_wiring_modify) simp
  from same_wiring_trans [OF this 2] show ?case by simp
qed simp

lemma compute_rpo_wiring:
  assumes "compute_rpo s g = (s', g')"
  shows "same_wiring s s'" "\<exists>r. g' = g\<lparr>g_rpo := r\<rparr>"
proof -
  let ?f = "\<lambda>s. fold (\<lambda>n s. modify n (\<lambda>x. x\<lparr>n_num := int (length (g_nodes g)) + 1 - n_po x\<rparr>) s) (post_order_nodes g) s"
  have "s' = ?f (assign_po (post_order_nodes g) 1 s)"
    using assms by (auto simp: compute_rpo_def post_order_def Let_def)
  moreover have "same_wiring (assign_po (post_order_nodes g) 1 s) (?f (assign_po (post_order_nodes g) 1 s))"
    by (rule fold_same_wiring) (simp add: same_wiring_modify)
  ultimately show "same_wiring s s'" using assign_po_wiring same_wiring_trans by metis
  show "\<exists>r. g' = g\<lparr>g_rpo := r\<rparr>" using assms by (auto simp: compute_rpo_def post_order_def Let_def)
qed

lemma mark_in_catch_wiring: "same_wiring s (mark_in_catch g n s)"
  by (auto simp: mark_in_catch_def Let_def intro!: same_wiring_modify)

lemma number_ins_wiring:
  assumes "number_ins s g = (s', g')"
  shows "same_wiring s s'" "\<exists>a l m. g' = g\<lparr>g_has_loc_indexes := a, g_loc_to_ins := l, g_loc_to_node := m\<rparr>"
proof -
  have "number_ins_from ns num s g = (s', g') \<Longrightarrow>
      same_wiring s s' \<and> (\<exists>l m. g' = g\<lparr>g_loc_to_ins := l, g_loc_to_node := m\<rparr>)" for ns num s s' and g g' :: "'a graph"
  proof (induction ns num s g arbitrary: s' g' rule: number_ins_from.induct)
    case (1 num s g)
    have "g = g\<lparr>g_loc_to_ins := g_loc_to_ins g, g_loc_to_node := g_loc_to_node g\<rparr>" by simp
    moreover from 1 have "s' = s" "g' = g" by simp_all
    ultimately show ?case using same_wiring_refl by blast
  next
    case (2 n ns num s g)
    show ?case
    proof (cases "is_BasicBlock (n_class (heap s n))")
      case False
      with 2 show ?thesis by simp
    next
      case True
      obtain num' x where x: "block_number_ins num (heap s n) = (num', x)" by fastforce
      have kind: "same_wiring s (modify n (\<lambda>_. build_loc_ins x) s)"
        using x by (auto simp: same_wiring_def same_kind_def same_branches_def block_number_ins_def build_loc_ins_def Let_def)
      let ?g = "g\<lparr>g_loc_to_ins := fold (\<lambda>(loc, i) m. AList.update loc i m) (get_loc_with_ins x) (g_loc_to_ins g),
                g_loc_to_node := g_loc_to_node g @ [(num, num' - 1, n)]\<rparr>"
      have "number_ins_from ns num' (modify n (\<lambda>_. build_loc_ins x) s) ?g = (s', g')"
        using 2(3) True x by (simp add: Let_def)
      from 2(2) [OF _ x [symmetric] refl refl refl this] True
      have "same_wiring (modify n (\<lambda>_. build_loc_ins x) s) s'" "\<exists>l m. g' = ?g\<lparr>g_loc_to_ins := l, g_loc_to_node := m\<rparr>"
        by auto
      with kind same_wiring_trans show ?thesis by fastforce
    qed
  qed
  from this [of "g_rpo g" 0 s "g\<lparr>g_has_loc_indexes := True, g_loc_to_ins := [], g_loc_to_node := []\<rparr>" s' g'] assms
  show "same_wiring s s'" "\<exists>a l m. g' = g\<lparr>g_has_loc_indexes := a, g_loc_to_ins := l, g_loc_to_node := m\<rparr>"
    by (auto simp: number_ins_def)
qed

section \<open>The graph of a snapshot\<close>

text \<open>\<open>nodes\<close> is an isomorphism from the reachable blocks to the graph.\<close>

definition mirrors :: "'cs snapshot \<Rightarrow> nat option list \<Rightarrow> 'i store \<Rightarrow> 'i graph \<Rightarrow> bool" where
  "mirrors sn nodes s g \<longleftrightarrow>
     length nodes = length (sn_blocks sn) \<and>
     (\<forall>b. node_at nodes b \<noteq> None \<longleftrightarrow> reached sn b) \<and>
     (\<forall>b c n. node_at nodes b = Some n \<longrightarrow> node_at nodes c = Some n \<longrightarrow> b = c) \<and>
     (\<forall>n. n \<in> set (g_nodes g) \<longleftrightarrow> (\<exists>b. node_at nodes b = Some n)) \<and>
     (\<forall>b n. node_at nodes b = Some n \<longrightarrow>
        n_name (heap s n) = rb_name (sn_blocks sn ! b) \<and>
        n_class (heap s n) = block_class (last_op (sn_blocks sn ! b)) \<and>
        (\<forall>c m. node_at nodes c = Some m \<longrightarrow>
           (m \<in> set (sucs g n) \<longleftrightarrow> c \<in> ce_target ` set (rb_childs (sn_blocks sn ! b))) \<and>
           (m \<in> set (GetOrEmpty (g_catch_edges g) n) \<longleftrightarrow> c \<in> ch_block ` set (rb_exception_handlers (sn_blocks sn ! b)))))"

lemma reached_length: "sn_entry_block_id sn = Some e \<Longrightarrow> e < length (sn_blocks sn) \<Longrightarrow> reached sn b \<Longrightarrow> b < length (sn_blocks sn)"
  by (auto simp: reached_def block_step_def elim: rtranclp.cases)

lemma nodes_ok_at:
  assumes "nodes_ok sn st"
  shows "node_at (bd_nodes st) b = Some n \<Longrightarrow> node_at (bd_nodes st) c = Some n \<Longrightarrow> b = c"
    "n \<in> set (g_nodes (bd_graph st)) \<longleftrightarrow> (\<exists>b. node_at (bd_nodes st) b = Some n)"
    "node_at (bd_nodes st) b = Some n \<Longrightarrow> n_name (heap (bd_store st) n) = rb_name (sn_blocks sn ! b) \<and>
        n_class (heap (bd_store st) n) = block_class (last_op (sn_blocks sn ! b)) \<and>
        n_true_branch (heap (bd_store st) n) = None \<and> n_false_branch (heap (bd_store st) n) = None"
proof -
  have ok: "Some ` set (g_nodes (bd_graph st)) = set (bd_nodes st) - {None}"
     "\<And>b c. b \<in> built st \<Longrightarrow> c < length (bd_nodes st) \<Longrightarrow> bd_nodes st ! b = bd_nodes st ! c \<Longrightarrow> b = c"
     "\<And>b n. b \<in> built st \<Longrightarrow> bd_nodes st ! b = Some n \<Longrightarrow> n_name (heap (bd_store st) n) = rb_name (sn_blocks sn ! b) \<and>
        n_class (heap (bd_store st) n) = block_class (last_op (sn_blocks sn ! b)) \<and>
        n_true_branch (heap (bd_store st) n) = None \<and> n_false_branch (heap (bd_store st) n) = None"
    using assms by (auto simp: nodes_ok_def)
  have at: "node_at (bd_nodes st) b = Some n \<longleftrightarrow> b \<in> built st \<and> bd_nodes st ! b = Some n" for b n
    by (auto simp: node_at_def built_def)
  show "node_at (bd_nodes st) b = Some n \<Longrightarrow> node_at (bd_nodes st) c = Some n \<Longrightarrow> b = c"
    using ok(2) [of b c] by (auto simp: at) (auto simp: built_def)
  show "node_at (bd_nodes st) b = Some n \<Longrightarrow> n_name (heap (bd_store st) n) = rb_name (sn_blocks sn ! b) \<and>
        n_class (heap (bd_store st) n) = block_class (last_op (sn_blocks sn ! b)) \<and>
        n_true_branch (heap (bd_store st) n) = None \<and> n_false_branch (heap (bd_store st) n) = None"
    using ok(3) at by blast
  have "n \<in> set (g_nodes (bd_graph st)) \<longleftrightarrow> Some n \<in> Some ` set (g_nodes (bd_graph st))" by blast
  also have "\<dots> \<longleftrightarrow> Some n \<in> set (bd_nodes st)" unfolding ok(1) by blast
  also have "\<dots> \<longleftrightarrow> (\<exists>b. node_at (bd_nodes st) b = Some n)"
    by (auto simp: in_set_conv_nth node_at_def split: if_splits)
  finally show "n \<in> set (g_nodes (bd_graph st)) \<longleftrightarrow> (\<exists>b. node_at (bd_nodes st) b = Some n)" .
qed

lemma node_image:
  assumes "\<forall>n b c. node_at nodes b = Some n \<longrightarrow> node_at nodes c = Some n \<longrightarrow> b = c"
    "node_at nodes b = Some n" "node_at nodes c = Some m"
  shows "(\<exists>b'. node_at nodes b' = Some n \<and> (\<exists>e \<in> S b'. node_at nodes (t e) = Some m)) \<longleftrightarrow> c \<in> t ` S b"
proof
  assume "\<exists>b'. node_at nodes b' = Some n \<and> (\<exists>e \<in> S b'. node_at nodes (t e) = Some m)"
  then obtain b' e where e: "node_at nodes b' = Some n" "e \<in> S b'" "node_at nodes (t e) = Some m" by blast
  from assms(1) e(1) assms(2) have "b' = b" by blast
  moreover from assms(1) e(3) assms(3) have "t e = c" by blast
  ultimately show "c \<in> t ` S b" using e(2) by blast
next
  assume "c \<in> t ` S b"
  with assms(2,3) show "\<exists>b'. node_at nodes b' = Some n \<and> (\<exists>e \<in> S b'. node_at nodes (t e) = Some m)" by blast
qed

lemma child_pairs_mem:
  "(n, m) \<in> child_pairs nodes p \<longleftrightarrow>
     snd p = Some n \<and> (\<exists>e \<in> set (rb_childs (fst p)). node_at nodes (ce_target e) = Some m)"
  by (auto simp: child_pairs_def edge_to_def split: option.splits)

lemma handler_pairs_mem:
  "(n, m) \<in> handler_pairs nodes p \<longleftrightarrow>
     snd p = Some n \<and> (\<exists>e \<in> set (rb_exception_handlers (fst p)). node_at nodes (ch_block e) = Some m)"
  by (auto simp: handler_pairs_def edge_to_def split: option.splits)

lemma mirrors_wired:
  assumes ok: "nodes_ok sn st" "no_edges (bd_graph st)" "built st = {b. reached sn b}"
    and fold: "fold (wire_block (bd_nodes st)) (zip (sn_blocks sn) (bd_nodes st)) (bd_store st, bd_graph st) = (s, g)"
  shows "mirrors sn (bd_nodes st) s g" "graph_ok g"
proof -
  let ?nodes = "bd_nodes st" and ?z = "zip (sn_blocks sn) (bd_nodes st)"
  have len: "length ?nodes = length (sn_blocks sn)" and dist: "distinct (g_nodes (bd_graph st))"
    using ok(1) by (simp_all add: nodes_ok_def)
  have "wired (bd_store st, bd_graph st) (s, g) (\<Union>p \<in> set ?z. child_pairs ?nodes p) (\<Union>p \<in> set ?z. handler_pairs ?nodes p)"
    unfolding fold [symmetric] by (rule wired_fold) (rule wired_block)
  then have w: "same_kind (bd_store st) s" "g_nodes g = g_nodes (bd_graph st)"
      "\<forall>k v. v \<in> set (GetOrEmpty (g_edges g) k) \<longleftrightarrow>
        v \<in> set (GetOrEmpty (g_edges (bd_graph st)) k) \<or> (k, v) \<in> (\<Union>p \<in> set ?z. child_pairs ?nodes p)"
      "\<forall>k v. v \<in> set (GetOrEmpty (g_catch_edges g) k) \<longleftrightarrow>
        v \<in> set (GetOrEmpty (g_catch_edges (bd_graph st)) k) \<or> (k, v) \<in> (\<Union>p \<in> set ?z. handler_pairs ?nodes p)"
      "graph_ok (bd_graph st) \<Longrightarrow>
        \<forall>(k, v) \<in> (\<Union>p \<in> set ?z. child_pairs ?nodes p) \<union> (\<Union>p \<in> set ?z. handler_pairs ?nodes p).
          k \<in> set (g_nodes (bd_graph st)) \<and> v \<in> set (g_nodes (bd_graph st)) \<Longrightarrow> graph_ok g"
    unfolding wired_def fst_conv snd_conv by blast+
  note at = nodes_ok_at [OF ok(1)]
  have inj: "\<forall>n b c. node_at ?nodes b = Some n \<longrightarrow> node_at ?nodes c = Some n \<longrightarrow> b = c" using at(1) by blast
  have zip: "(rb, Some n) \<in> set ?z \<longleftrightarrow> (\<exists>b. node_at ?nodes b = Some n \<and> rb = sn_blocks sn ! b)" for rb n
    unfolding in_set_zip fst_conv snd_conv node_at_def using len by (metis option.distinct(1))
  have pick: "(\<exists>p \<in> set ?z. snd p = Some n \<and> Q (fst p)) \<longleftrightarrow> (\<exists>b. node_at ?nodes b = Some n \<and> Q (sn_blocks sn ! b))" for n Q
    using zip by (metis fst_conv prod.collapse snd_conv)
  have childs: "(n, m) \<in> (\<Union>p \<in> set ?z. child_pairs ?nodes p) \<longleftrightarrow>
      (\<exists>b. node_at ?nodes b = Some n \<and> (\<exists>e \<in> set (rb_childs (sn_blocks sn ! b)). node_at ?nodes (ce_target e) = Some m))" for n m
    unfolding UN_iff child_pairs_mem by (rule pick)
  have handlers: "(n, m) \<in> (\<Union>p \<in> set ?z. handler_pairs ?nodes p) \<longleftrightarrow>
      (\<exists>b. node_at ?nodes b = Some n \<and> (\<exists>e \<in> set (rb_exception_handlers (sn_blocks sn ! b)). node_at ?nodes (ch_block e) = Some m))" for n m
    unfolding UN_iff handler_pairs_mem by (rule pick)
  have old: "GetOrEmpty (g_edges (bd_graph st)) k = []" "GetOrEmpty (g_catch_edges (bd_graph st)) k = []" for k
    using ok(2) by (simp_all add: no_edges_def)
  have "graph_ok (bd_graph st)" using ok(2) dist by (simp add: graph_ok_def no_edges_def inside_def)
  moreover have "k \<in> set (g_nodes (bd_graph st)) \<and> v \<in> set (g_nodes (bd_graph st))"
    if "(k, v) \<in> (\<Union>p \<in> set ?z. child_pairs ?nodes p) \<union> (\<Union>p \<in> set ?z. handler_pairs ?nodes p)" for k v
    using that unfolding Un_iff childs handlers at(2) by blast
  ultimately show "graph_ok g" using w(5) by blast
  have reached: "node_at ?nodes b \<noteq> None \<longleftrightarrow> reached sn b" for b
    using ok(3) by (auto simp: node_at_def built_def split: if_splits)
  have edges: "m \<in> set (sucs g n) \<longleftrightarrow> c \<in> ce_target ` set (rb_childs (sn_blocks sn ! b))"
      "m \<in> set (GetOrEmpty (g_catch_edges g) n) \<longleftrightarrow> c \<in> ch_block ` set (rb_exception_handlers (sn_blocks sn ! b))"
    if "node_at ?nodes b = Some n" "node_at ?nodes c = Some m" for b c n m
  proof -
    have "m \<in> set (GetOrEmpty (g_edges g) n) \<longleftrightarrow> (n, m) \<in> (\<Union>p \<in> set ?z. child_pairs ?nodes p)"
      "m \<in> set (GetOrEmpty (g_catch_edges g) n) \<longleftrightarrow> (n, m) \<in> (\<Union>p \<in> set ?z. handler_pairs ?nodes p)"
      using w(3,4) by (simp_all only: old list.set empty_iff simp_thms)
    then show "m \<in> set (sucs g n) \<longleftrightarrow> c \<in> ce_target ` set (rb_childs (sn_blocks sn ! b))"
        "m \<in> set (GetOrEmpty (g_catch_edges g) n) \<longleftrightarrow> c \<in> ch_block ` set (rb_exception_handlers (sn_blocks sn ! b))"
      unfolding sucs_def childs handlers using node_image [OF inj that] by simp_all
  qed
  have "n_name (heap s n) = rb_name (sn_blocks sn ! b) \<and> n_class (heap s n) = block_class (last_op (sn_blocks sn ! b))"
    if "node_at ?nodes b = Some n" for b n
    using at(3) [OF that] w(1) by (simp add: same_kind_def)
  then show "mirrors sn ?nodes s g"
    unfolding mirrors_def w(2) at(2) using len reached inj edges by blast
qed

section \<open>Branches of a condition\<close>

lemma fold_same_branches:
  "(\<And>x sg. x \<in> set xs \<Longrightarrow> same_branches n (fst sg) (fst (f x sg))) \<Longrightarrow> same_branches n (fst sg) (fst (fold f xs sg))"
proof (induction xs arbitrary: sg)
  case (Cons x xs)
  have "same_branches n (fst sg) (fst (f x sg))" by (rule Cons.prems) simp
  moreover have "same_branches n (fst (f x sg)) (fst (fold f xs (f x sg)))"
    by (rule Cons.IH) (rule Cons.prems, simp)
  ultimately show ?case using same_branches_trans by simp
qed (simp add: same_branches_def)

lemma wire_child_branches: "n' \<noteq> n \<Longrightarrow> same_branches n (fst sg) (fst (wire_child nodes n' e sg))"
  by (cases sg) (auto simp: wire_child_def same_branches_def Let_def split: option.splits)

lemma wire_handler_branches: "same_branches n (fst sg) (fst (wire_handler nodes n' ci sg))"
  by (cases sg) (auto simp: wire_handler_def add_catch_edge_def same_branches_def set_catch_type_def Let_def
      split: option.splits)

lemma default_false_branches: "n' \<noteq> n \<Longrightarrow> same_branches n s (default_false n' s)"
  by (auto simp: default_false_def same_branches_def Let_def)

lemma wire_block_branches:
  assumes "snd p \<noteq> Some n"
  shows "same_branches n (fst sg) (fst (wire_block nodes p sg))"
proof (cases "snd p")
  case None
  then show ?thesis by (cases p; cases sg) (simp add: wire_block_def same_branches_def)
next
  case (Some n')
  with assms have ne: "n' \<noteq> n" by simp
  let ?a = "fold (wire_child nodes n') (rb_childs (fst p)) sg"
  let ?b = "fold (wire_handler nodes n') (rb_exception_handlers (fst p)) ?a"
  have a: "same_branches n (fst sg) (fst ?a)" by (rule fold_same_branches) (rule wire_child_branches [OF ne])
  have b: "same_branches n (fst ?a) (fst ?b)" by (rule fold_same_branches) (rule wire_handler_branches)
  have "wire_block nodes p sg = (default_false n' (fst ?b), snd ?b)"
    using Some by (cases p; cases sg) (simp add: wire_block_def case_prod_beta Let_def)
  with same_branches_trans [OF same_branches_trans [OF a b] default_false_branches [OF ne]] show ?thesis by simp
qed

text \<open>The branches a condition must get: the block behind it and the one it jumps to.\<close>

definition branches_ok :: "'cs snapshot \<Rightarrow> nat option list \<Rightarrow> 'i store \<Rightarrow> nat \<Rightarrow> nat \<Rightarrow> bool" where
  "branches_ok sn nodes s b n \<longleftrightarrow>
     (\<exists>t m. node_at nodes t = Some m \<and> n_true_branch (heap s n) = Some m \<and>
        rb_start_byte (sn_blocks sn ! t) = ri_branch_target (last (rb_ins (sn_blocks sn ! b))) \<and>
        n_false_branch (heap s n) =
          (if Suc b < length (sn_blocks sn) then node_at nodes (Suc b) else Some m))"

lemma wire_condition:
  assumes "node_at nodes (ce_target e) = Some m" "ce_kind e = Branch" "is_CondBlock (n_class (heap s n))"
    "n_true_branch (heap s n) = None" "n_false_branch (heap s n) = None"
    "f = [] \<or> (\<exists>e' m'. f = [e'] \<and> ce_kind e' = BranchFalse \<and> node_at nodes (ce_target e') = Some m')"
    "rb_childs rb = f @ [e]" "wire_block nodes (rb, Some n) (s, g) = (s', g')"
  shows "n_true_branch (heap s' n) = Some m \<and>
    n_false_branch (heap s' n) = (if f = [] then Some m else node_at nodes (ce_target (hd f)))"
proof -
  obtain s1 g1 where a: "fold (wire_child nodes n) (rb_childs rb) (s, g) = (s1, g1)" by fastforce
  obtain s2 g2 where b: "fold (wire_handler nodes n) (rb_exception_handlers rb) (s1, g1) = (s2, g2)" by fastforce
  have "n_true_branch (heap s1 n) = Some m \<and> is_CondBlock (n_class (heap s1 n)) \<and>
      n_false_branch (heap s1 n) = (if f = [] then None else node_at nodes (ce_target (hd f)))"
    using a assms(1-7) by (auto simp: wire_child_def node_at_def [symmetric] Let_def)
  moreover have "same_branches n s1 s2"
    using fold_same_branches [of "rb_exception_handlers rb" n "wire_handler nodes n" "(s1, g1)"] wire_handler_branches b
    by (metis fst_conv)
  moreover have "same_kind s1 s2"
    using wired_fold [of "wire_handler nodes n", OF wired_handler] b by (metis fst_conv wired_def)
  moreover have "s' = default_false n s2" using assms(8) a b by (simp add: wire_block_def)
  ultimately show ?thesis
    using assms(6) by (auto simp: same_branches_def same_kind_def default_false_def Let_def)
qed

lemma conditional_class: "IsConditionalBranch op \<Longrightarrow> block_class op = CondBlock"
  by (auto simp: block_class_def IsConditionalBranch_def IsReturn_def IsSwitch_def)

lemma conditional_childs:
  assumes "successors_ok bs b" "rb_ins (bs ! b) \<noteq> []"
    "IsConditionalBranch (ri_opcode (last (rb_ins (bs ! b))))" "ri_branch_target (last (rb_ins (bs ! b))) \<noteq> UINT32_MAX"
  obtains e where "jump_edge bs (ri_branch_target (last (rb_ins (bs ! b)))) e"
    "rb_childs (bs ! b) = next_edge BranchFalse b (length bs) @ [e]"
proof -
  have "\<not> IsReturn (ri_opcode (last (rb_ins (bs ! b))))" "\<not> IsThrow (ri_opcode (last (rb_ins (bs ! b))))"
    "\<not> IsUnconditionalBranch (ri_opcode (last (rb_ins (bs ! b))))"
    using assms(3) by (auto simp: IsConditionalBranch_def IsReturn_def IsThrow_def IsUnconditionalBranch_def)
  with assms that show ?thesis by (auto simp: successors_ok_def Let_def)
qed

lemma take_drop_nth:
  "x \<in> set (take b l) \<Longrightarrow> \<exists>i. i < length l \<and> i \<noteq> b \<and> x = l ! i"
  "x \<in> set (drop (Suc b) l) \<Longrightarrow> \<exists>i. i < length l \<and> i \<noteq> b \<and> x = l ! i"
proof -
  assume "x \<in> set (take b l)"
  then obtain i where "i < length l" "i < b" "x = l ! i" by (auto simp: in_set_conv_nth)
  then show "\<exists>i. i < length l \<and> i \<noteq> b \<and> x = l ! i" by blast
next
  assume "x \<in> set (drop (Suc b) l)"
  then obtain i where i: "i < length (drop (Suc b) l)" "drop (Suc b) l ! i = x" unfolding in_set_conv_nth by blast
  then have "Suc b + i < length l" "x = l ! (Suc b + i)" by simp_all
  then show "\<exists>i. i < length l \<and> i \<noteq> b \<and> x = l ! i" by (intro exI [of _ "Suc b + i"]) simp
qed

lemma conditions_wired:
  assumes ok: "nodes_ok sn st" "built st = {b. reached sn b}" "sn_entry_block_id sn = Some e0" "e0 < length (sn_blocks sn)"
    and fold: "fold (wire_block (bd_nodes st)) (zip (sn_blocks sn) (bd_nodes st)) (bd_store st, bd_graph st) = (s, g)"
    and b: "node_at (bd_nodes st) b = Some n" "successors_ok (sn_blocks sn) b" "rb_ins (sn_blocks sn ! b) \<noteq> []"
      "IsConditionalBranch (ri_opcode (last (rb_ins (sn_blocks sn ! b))))"
      "ri_branch_target (last (rb_ins (sn_blocks sn ! b))) \<noteq> UINT32_MAX"
  shows "branches_ok sn (bd_nodes st) s b n"
proof -
  let ?nodes = "bd_nodes st" and ?bs = "sn_blocks sn"
  let ?z = "zip ?bs ?nodes"
  have len: "length ?nodes = length ?bs" using ok(1) by (simp add: nodes_ok_def)
  have lt: "b < length ?bs" "?nodes ! b = Some n" using b(1) len by (auto simp: node_at_def split: if_splits)
  note at = nodes_ok_at [OF ok(1)]
  have built_at: "node_at ?nodes c \<noteq> None" if "reached sn c" for c
    using that ok(2) by (auto simp: node_at_def built_def)
  have "reached sn b" using b(1) ok(2) by (auto simp: node_at_def built_def split: if_splits)
  then have next_reached: "reached sn c" if "c \<in> set (targets (?bs ! b))" "c < length ?bs" for c
    using that reached_step by (auto simp: block_step_def)
  obtain e where e: "jump_edge ?bs (ri_branch_target (last (rb_ins (?bs ! b)))) e"
      "rb_childs (?bs ! b) = next_edge BranchFalse b (length ?bs) @ [e]"
    using conditional_childs [OF b(2-5)] by blast
  then have et: "ce_kind e = Branch" "ce_target e < length ?bs"
      "rb_start_byte (?bs ! ce_target e) = ri_branch_target (last (rb_ins (?bs ! b)))"
    by (simp_all add: jump_edge_def)
  have "reached sn (ce_target e)" using next_reached et(2) e(2) by (simp add: targets_def)
  then obtain m where m: "node_at ?nodes (ce_target e) = Some m" using built_at by blast
  have f: "next_edge BranchFalse b (length ?bs) = [] \<or> (\<exists>e' m'. next_edge BranchFalse b (length ?bs) = [e'] \<and>
      ce_kind e' = BranchFalse \<and> node_at ?nodes (ce_target e') = Some m')"
  proof (cases "Suc b < length ?bs")
    case True
    then have "reached sn (Suc b)" using next_reached e(2) by (simp add: targets_def next_edge_def)
    with built_at True show ?thesis by (fastforce simp: next_edge_def)
  qed (simp add: next_edge_def)
  have split: "?z = take b ?z @ (?bs ! b, Some n) # drop (Suc b) ?z"
    using lt len id_take_nth_drop [of b ?z] by simp
  have other: "snd p \<noteq> Some n" if "p \<in> set (take b ?z) \<union> set (drop (Suc b) ?z)" for p
  proof
    assume p: "snd p = Some n"
    have "\<exists>i. i < length ?z \<and> i \<noteq> b \<and> p = ?z ! i" using that take_drop_nth by (metis UnE)
    then obtain i where i: "i < length ?bs" "i \<noteq> b" "?nodes ! i = Some n" using p len by auto
    then have "node_at ?nodes i = Some n" using len by (simp add: node_at_def)
    from at(1) [OF this b(1)] i(2) show False by blast
  qed
  obtain s1 g1 where pre: "fold (wire_block ?nodes) (take b ?z) (bd_store st, bd_graph st) = (s1, g1)" by fastforce
  obtain s2 g2 where mid: "wire_block ?nodes (?bs ! b, Some n) (s1, g1) = (s2, g2)" by fastforce
  have post: "fold (wire_block ?nodes) (drop (Suc b) ?z) (s2, g2) = (s, g)"
    using fold pre mid by (subst (asm) split) simp
  have "same_branches n (bd_store st) s1"
    using fold_same_branches [of "take b ?z" n "wire_block ?nodes" "(bd_store st, bd_graph st)"]
      wire_block_branches other pre by (metis UnI1 fst_conv)
  moreover have "same_kind (bd_store st) s1"
    using wired_fold [of "wire_block ?nodes", OF wired_block, of "(bd_store st, bd_graph st)" "take b ?z"] pre
    by (simp add: wired_def)
  ultimately have start: "is_CondBlock (n_class (heap s1 n))" "n_true_branch (heap s1 n) = None"
      "n_false_branch (heap s1 n) = None"
    using at(3) [OF b(1)] conditional_class [OF b(4)] b(3)
    by (simp_all add: same_branches_def same_kind_def last_op_def is_CondBlock_def)
  have "n_true_branch (heap s2 n) = Some m \<and>
    n_false_branch (heap s2 n) = (if Suc b < length ?bs then node_at ?nodes (Suc b) else Some m)"
    using wire_condition [OF m et(1) start f e(2) mid] by (simp add: next_edge_def)
  moreover have "same_branches n s2 s"
    using fold_same_branches [of "drop (Suc b) ?z" n "wire_block ?nodes" "(s2, g2)"] wire_block_branches other post
    by (metis UnI2 fst_conv)
  ultimately show ?thesis using m et(3) unfolding branches_ok_def same_branches_def by auto
qed

section \<open>The theorem\<close>

lemma mark_in_catch_num: "n_num (heap (mark_in_catch g n s) k) = n_num (heap s k)"
  by (simp add: mark_in_catch_def Let_def)

lemma number_ins_num:
  assumes "number_ins s g = (s', g')"
  shows "n_num (heap s' k) = n_num (heap s k)"
proof -
  have "n_num (heap (fst (number_ins_from ns num s g)) k) = n_num (heap s k)" for ns num and s :: "'a store" and g
  proof (induction ns num s g rule: number_ins_from.induct)
    case (2 n ns num s g)
    then show ?case by (auto simp: Let_def block_number_ins_def build_loc_ins_def)
  qed simp
  from this [of "g_rpo g" 0 s] assms show ?thesis by (metis fst_conv number_ins_def)
qed

text \<open>The graph is numbered: the nodes in the order of their numbers, which are 1, 2, and so on.\<close>

definition numbered :: "'i store \<Rightarrow> 'i graph \<Rightarrow> bool" where
  "numbered s g \<longleftrightarrow> distinct (g_rpo g) \<and> set (g_rpo g) = set (g_nodes g) \<and>
     (\<forall>i < length (g_rpo g). n_num (heap s (g_rpo g ! i)) = int i + 1)"

lemma reach_blocks:
  assumes "mirrors sn nodes s g" "graph_ok g" "sn_entry_block_id sn = Some e" "node_at nodes e = Some x"
  shows "n \<in> set (g_nodes g) \<longleftrightarrow> reach g x n"
proof
  have steps: "step g a b \<Longrightarrow> block_step sn c d" "block_step sn c d \<Longrightarrow> step g a b"
    if "node_at nodes c = Some a" "node_at nodes d = Some b" for a b c d
    using that assms(1)
    by (auto simp: mirrors_def step_def all_sucs_def sucs_def block_step_def targets_def node_at_def split: if_splits)
  show "reach g x n" if "n \<in> set (g_nodes g)"
  proof -
    from that obtain b where b: "node_at nodes b = Some n" using assms(1) by (auto simp: mirrors_def)
    then have "(block_step sn)\<^sup>*\<^sup>* e b" using assms(1,3) by (auto simp: mirrors_def reached_def)
    then show ?thesis using b
    proof (induction arbitrary: n rule: rtranclp_induct)
      case base
      with assms(4) show ?case by simp
    next
      case (step c d)
      then have "reached sn c" using assms(3) by (simp add: reached_def)
      then obtain a where a: "node_at nodes c = Some a" using assms(1) by (fastforce simp: mirrors_def)
      from step.IH [OF a] steps(2) [OF a step.prems step.hyps(2)] show ?case by simp
    qed
  qed
  show "n \<in> set (g_nodes g)" if "reach g x n"
    using that
  proof (rule reach_closed)
    show "x \<in> set (g_nodes g)" using assms(1,4) by (auto simp: mirrors_def)
    show "v \<in> set (g_nodes g)" if "step g u v" for u v
      using that graph_ok_nodes [OF assms(2)] by (auto simp: step_def)
  qed
qed

lemma mirrors_cong:
  assumes "mirrors sn nodes s g" "same_kind s s'" "g_nodes g' = g_nodes g" "g_edges g' = g_edges g"
    "g_catch_edges g' = g_catch_edges g"
  shows "mirrors sn nodes s' g'"
  using assms unfolding mirrors_def same_kind_def sucs_def by simp

lemma graph_ok_cong:
  assumes "graph_ok g" "g_nodes g' = g_nodes g" "g_edges g' = g_edges g" "g_catch_edges g' = g_catch_edges g"
    "g_reverse_edges g' = g_reverse_edges g" "g_reverse_catch_edges g' = g_reverse_catch_edges g"
  shows "graph_ok g'"
  using assms by (simp add: graph_ok_def)

text \<open>The stages of \<open>Construct\<close> and what each of them keeps.\<close>

lemma Construct_stages:
  fixes bd :: "('i, 'v) building"
  assumes "Construct d sn s v = Inr bd" "sn_entry_block_id sn = Some e"
  obtains st :: "('i, 'v) building" and s1 g1 s2 g2 s3
  where "e < length (sn_blocks sn)"
    "nodes_ok sn st" "no_edges (bd_graph st)" "built st = {b. reached sn b}" "bd_nodes bd = bd_nodes st"
    "fold (wire_block (bd_nodes st)) (zip (sn_blocks sn) (bd_nodes st)) (bd_store st, bd_graph st) = (s1, g1)"
    "compute_rpo s1 (g1\<lparr>g_entry := bd_nodes st ! e\<rparr>) = (s2, g2)"
    "s3 = fold (mark_in_catch g2) (g_rpo g2) s2"
    "\<exists>g3. number_ins s3 g2 = (bd_store bd, g3) \<and> bd_graph bd = g3\<lparr>g_exit := only_return (bd_store bd) (g_nodes g3)\<rparr>"
proof -
  let ?none = "replicate (length (sn_blocks sn)) False"
  have e: "e < length (sn_blocks sn)" using assms by (simp add: Construct_def split: if_splits)
  then obtain st where st: "build_loop d sn (exception_types sn) [e] \<lparr>b_seen = ?none[e := True], b_seed = ?none\<rparr> (no_nodes sn s v) = Inr st"
    using assms by (auto simp: Construct_def Let_def bind_eq_Inr)
  obtain s1 g1 where w: "fold (wire_block (bd_nodes st)) (zip (sn_blocks sn) (bd_nodes st)) (bd_store st, bd_graph st) = (s1, g1)"
    by fastforce
  obtain s2 g2 where r: "compute_rpo s1 (g1\<lparr>g_entry := bd_nodes st ! e\<rparr>) = (s2, g2)" by fastforce
  obtain s4 g3 where n: "number_ins (fold (mark_in_catch g2) (g_rpo g2) s2) g2 = (s4, g3)" by fastforce
  have bd: "bd = st\<lparr>bd_store := s4, bd_graph := g3\<lparr>g_exit := only_return s4 (g_nodes g3)\<rparr>\<rparr>"
    using assms e st w r n by (simp add: Construct_def Let_def)
  show ?thesis
    using that [OF e built_reached [OF assms(2) e st] _ w r refl] by (simp add: bd n)
qed

lemma Construct_facts:
  fixes bd :: "('i, 'v) building"
  assumes "Construct d sn s v = Inr bd" "sn_entry_block_id sn = Some e"
  shows "mirrors sn (bd_nodes bd) (bd_store bd) (bd_graph bd)" "graph_ok (bd_graph bd)"
    "\<exists>x. node_at (bd_nodes bd) e = Some x \<and> g_entry (bd_graph bd) = Some x \<and>
       set (g_nodes (bd_graph bd)) = {n. reach (bd_graph bd) x n}"
    "numbered (bd_store bd) (bd_graph bd)"
    "node_at (bd_nodes bd) b = Some n \<Longrightarrow> successors_ok (sn_blocks sn) b \<Longrightarrow> rb_ins (sn_blocks sn ! b) \<noteq> [] \<Longrightarrow>
       IsConditionalBranch (ri_opcode (last (rb_ins (sn_blocks sn ! b)))) \<Longrightarrow>
       ri_branch_target (last (rb_ins (sn_blocks sn ! b))) \<noteq> UINT32_MAX \<Longrightarrow>
       branches_ok sn (bd_nodes bd) (bd_store bd) b n"
proof -
  from assms obtain st :: "('i, 'v) building" and s1 g1 s2 g2 s3 where st: "e < length (sn_blocks sn)"
    "nodes_ok sn st" "no_edges (bd_graph st)" "built st = {b. reached sn b}" "bd_nodes bd = bd_nodes st"
    "fold (wire_block (bd_nodes st)) (zip (sn_blocks sn) (bd_nodes st)) (bd_store st, bd_graph st) = (s1, g1)"
    "compute_rpo s1 (g1\<lparr>g_entry := bd_nodes st ! e\<rparr>) = (s2, g2)"
    "s3 = fold (mark_in_catch g2) (g_rpo g2) s2"
    "\<exists>g3. number_ins s3 g2 = (bd_store bd, g3) \<and> bd_graph bd = g3\<lparr>g_exit := only_return (bd_store bd) (g_nodes g3)\<rparr>"
    by (rule Construct_stages)
  let ?g = "bd_graph bd" and ?s = "bd_store bd" and ?ge = "g1\<lparr>g_entry := bd_nodes st ! e\<rparr>"
  from st(9) obtain g3 where g3: "number_ins s3 g2 = (?s, g3)" "?g = g3\<lparr>g_exit := only_return ?s (g_nodes g3)\<rparr>" by blast
  obtain r a l m where g2: "g2 = ?ge\<lparr>g_rpo := r\<rparr>" "g3 = g2\<lparr>g_has_loc_indexes := a, g_loc_to_ins := l, g_loc_to_node := m\<rparr>"
    using compute_rpo_wiring(2) [OF st(7)] number_ins_wiring(2) [OF g3(1)] by blast
  note w = mirrors_wired [OF st(2-4,6)]
  have s3: "same_wiring s2 s3" unfolding st(8) by (rule fold_same_wiring) (rule mark_in_catch_wiring)
  have kind: "same_wiring s1 ?s"
    using same_wiring_trans [OF compute_rpo_wiring(1) [OF st(7)] same_wiring_trans [OF s3 number_ins_wiring(1) [OF g3(1)]]] .
  have graph: "g_nodes ?g = g_nodes g1" "g_edges ?g = g_edges g1" "g_catch_edges ?g = g_catch_edges g1"
    "g_reverse_edges ?g = g_reverse_edges g1" "g_reverse_catch_edges ?g = g_reverse_catch_edges g1"
    "g_rpo ?g = r" "g_entry ?g = bd_nodes st ! e"
    by (simp_all add: g3(2) g2)
  show mir: "mirrors sn (bd_nodes bd) ?s ?g"
    unfolding st(5) by (rule mirrors_cong [OF w(1) _ graph(1-3)]) (use kind in \<open>simp add: same_wiring_def\<close>)
  show ok: "graph_ok ?g" by (rule graph_ok_cong [OF w(2) graph(1-5)])
  have "reached sn e" using assms(2) by (simp add: reached_def)
  then obtain x where x: "node_at (bd_nodes bd) e = Some x" using mir by (fastforce simp: mirrors_def)
  then have entry: "g_entry ?g = Some x" "bd_nodes st ! e = Some x" using graph(7) st(1,5) by (auto simp: node_at_def split: if_splits)
  have reach: "set (g_nodes ?g) = {n. reach ?g x n}" using reach_blocks [OF mir ok assms(2) x] by blast
  with x entry show "\<exists>x. node_at (bd_nodes bd) e = Some x \<and> g_entry ?g = Some x \<and> set (g_nodes ?g) = {n. reach ?g x n}"
    by blast
  have step: "step ?ge = step ?g" by (simp add: fun_eq_iff step_def all_sucs_def graph)
  have dist: "distinct (g_nodes ?ge)" using ok graph(1) by (simp add: graph_ok_def)
  have "g_entry ?ge = Some x" using entry(2) by simp
  moreover have "set (g_nodes ?ge) = {n. reach ?ge x n}" using reach graph(1) by (simp add: step)
  ultimately have rpo: "g_rpo g2 = rev (post_order_nodes ?ge)"
      "\<And>i. i < length (g_nodes ?ge) \<Longrightarrow> n_num (heap s2 (g_rpo g2 ! i)) = int i + 1"
    using compute_rpo_rev [OF _ dist _ st(7)] by blast+
  have perm: "g_rpo g2 = sort_key (\<lambda>n. n_num (heap s2 n)) (g_nodes ?ge)"
    using compute_rpo_graph [OF st(7)] by simp
  have num: "n_num (heap ?s k) = n_num (heap s2 k)" for k
  proof -
    have "n_num (heap (fold (mark_in_catch g2) ns t) k) = n_num (heap t k)" for ns t
      by (induction ns arbitrary: t) (simp_all add: mark_in_catch_num)
    with number_ins_num [OF g3(1)] show ?thesis by (simp add: st(8))
  qed
  show "numbered ?s ?g"
  proof -
    have "r = g_rpo g2" by (simp add: g2(1))
    with rpo(2) perm dist show ?thesis by (simp add: numbered_def graph num)
  qed
  show "branches_ok sn (bd_nodes bd) ?s b n"
    if "node_at (bd_nodes bd) b = Some n" "successors_ok (sn_blocks sn) b" "rb_ins (sn_blocks sn ! b) \<noteq> []"
       "IsConditionalBranch (ri_opcode (last (rb_ins (sn_blocks sn ! b))))"
       "ri_branch_target (last (rb_ins (sn_blocks sn ! b))) \<noteq> UINT32_MAX"
    using conditions_wired [OF st(2,4) assms(2) st(1,6), of b n] that kind
    by (simp add: st(5) branches_ok_def same_wiring_def same_branches_def)
qed

text \<open>Only an opcode handler that throws keeps \<open>Construct\<close> from returning.\<close>

definition handlers_return :: "('cs, 'i, 'v) dispatcher \<Rightarrow> bool" where
  "handlers_return d \<longleftrightarrow> (\<forall>ri payload exc v. returns (d_dispatch d ri payload exc v))"

lemma build_ins_returns:
  "handlers_return d \<Longrightarrow> returns (build_ins d payloads exc ris v)"
  by (induction d payloads exc ris v rule: build_ins.induct) (auto simp: handlers_return_def split: option.splits)

lemma build_loop_returns: "handlers_return d \<Longrightarrow> returns (build_loop d sn exc queue m st)"
proof (induction d sn exc queue m st rule: build_loop.induct)
  case (2 d sn exc bid queue m st)
  have "returns (build_block d sn exc m bid st)"
    using build_ins_returns [OF "2.prems"]
    by (auto simp: build_block_def BuildNodeFromBlock_def Let_def split: prod.splits)
  with 2 show ?case by (auto simp: build_loop.simps(2))
qed simp

lemma Construct_returns:
  assumes "handlers_return d" "\<And>e. sn_entry_block_id sn = Some e \<Longrightarrow> e < length (sn_blocks sn)"
  shows "returns (Construct d sn s v)"
proof (cases "sn_entry_block_id sn")
  case None
  then show ?thesis by (simp add: Construct_def)
next
  case (Some e)
  with build_loop_returns [OF assms(1)] assms(2) [OF Some] show ?thesis
    by (auto simp: Construct_def Let_def split: prod.splits)
qed

text \<open>From accepted code to the graph of its method.\<close>

definition graph_of_method :: "'cs snapshot \<Rightarrow> ('i, 'v) building \<Rightarrow> bool" where
  "graph_of_method sn bd \<longleftrightarrow>
     (case sn_entry_block_id sn of
        None \<Rightarrow> sn_ins_storage sn = [] \<and> g_nodes (bd_graph bd) = []
      | Some e \<Rightarrow>
        mirrors sn (bd_nodes bd) (bd_store bd) (bd_graph bd) \<and> graph_ok (bd_graph bd) \<and>
        numbered (bd_store bd) (bd_graph bd) \<and>
        (\<exists>x. node_at (bd_nodes bd) e = Some x \<and> g_entry (bd_graph bd) = Some x \<and>
           set (g_nodes (bd_graph bd)) = {n. reach (bd_graph bd) x n}) \<and>
        (\<forall>b n. node_at (bd_nodes bd) b = Some n \<longrightarrow> rb_ins (sn_blocks sn ! b) \<noteq> [] \<longrightarrow>
           IsConditionalBranch (last_op (sn_blocks sn ! b)) \<longrightarrow>
           ri_branch_target (last (rb_ins (sn_blocks sn ! b))) \<noteq> UINT32_MAX \<longrightarrow>
           branches_ok sn (bd_nodes bd) (bd_store bd) b n))"

lemma snapshot_graph:
  assumes "snapshot_ok sn" "handlers_return d"
  shows "\<exists>bd. Construct d sn s v = Inr bd \<and> graph_of_method sn bd"
proof -
  have "e < length (sn_blocks sn)" if "sn_entry_block_id sn = Some e" for e
    using assms(1) that by (simp add: snapshot_ok_def)
  with Construct_returns [OF assms(2)] obtain bd where bd: "Construct d sn s v = Inr bd"
    unfolding returns_def by blast
  have "graph_of_method sn bd"
  proof (cases "sn_entry_block_id sn")
    case None
    with assms(1) bd show ?thesis
      by (auto simp: graph_of_method_def snapshot_ok_def Construct_def no_nodes_def empty_graph_def)
  next
    case (Some e)
    note f = Construct_facts [OF bd Some]
    have "branches_ok sn (bd_nodes bd) (bd_store bd) b n"
      if "node_at (bd_nodes bd) b = Some n" "rb_ins (sn_blocks sn ! b) \<noteq> []"
        "IsConditionalBranch (last_op (sn_blocks sn ! b))"
        "ri_branch_target (last (rb_ins (sn_blocks sn ! b))) \<noteq> UINT32_MAX" for b n
    proof -
      have "b < length (sn_blocks sn)" using that(1) f(1) by (auto simp: node_at_def mirrors_def split: if_splits)
      then have "successors_ok (sn_blocks sn) b" using assms(1) by (simp add: snapshot_ok_def list_all_iff)
      with f(5) that show ?thesis by (simp add: last_op_def)
    qed
    with f(1-4) Some show ?thesis by (simp add: graph_of_method_def)
  qed
  with bd show ?thesis by blast
qed

section \<open>Properties\<close>

text \<open>
  C8. The graph of a snapshot is a copy of the part its entry reaches; it is well formed, every node of
  it is reachable, and the nodes are numbered consecutively.
\<close>

theorem construct_mirrors:
  assumes "Construct d sn s v = Inr bd" and "sn_entry_block_id sn = Some e"
  shows "mirrors sn (bd_nodes bd) (bd_store bd) (bd_graph bd) \<and> graph_ok (bd_graph bd) \<and>
    (\<exists>x. node_at (bd_nodes bd) e = Some x \<and> g_entry (bd_graph bd) = Some x \<and>
       set (g_nodes (bd_graph bd)) = {n. reach (bd_graph bd) x n}) \<and>
    numbered (bd_store bd) (bd_graph bd)"
  using Construct_facts(1-4) [OF assms] by blast

text \<open>
  C9. From accepted code to the graph of its method nothing throws and nothing leaves the image, and the
  graph is that of the code: the branches of every condition lead where its instruction says.
\<close>

theorem accepted_code_graph:
  assumes "vctx_ok c" and "v_insns c" and "VerifyCodeItem c off = Inr u"
    and "p_code src m = Some (v_begin c + off)" and "p_image_end src = Some e" and "e \<le> length (v_img c)"
    and "handlers_return d"
  shows "\<exists>sn bd. Build (v_img c) src m = Inr sn \<and> Construct d sn s v = Inr bd \<and> graph_of_method sn bd"
  using Build_accepted [OF assms(1-6)] snapshot_graph [OF _ assms(7)] by blast

end
