(* ===== verification/Example_Construct.thy ===== *)
theory Example_Construct
  imports Cfg_Construct_Laws Example_Snapshot
begin

text \<open>
  A snapshot of three blocks, a test and its two arms, and opcode handlers that return the offset
  of the instruction as its object.
\<close>

definition example_handlers :: "(unit, nat, unit) dispatcher" where
  "example_handlers = \<lparr>d_dispatch = (\<lambda>ri _ _ v. Inr (Some (ri_byte_off ri), v)), d_stamp = (\<lambda>_ _ v. v)\<rparr>"

definition example_block :: "nat \<Rightarrow> child_edge list \<Rightarrow> unit raw_block" where
  "example_block off es =
     \<lparr>rb_name = FormatBlockName off, rb_start_byte = off, rb_end_byte = off + 2, rb_last_length_bytes = 0,
      rb_ins = [], rb_childs = es, rb_exception_handlers = [], rb_payloads = [],
      rb_starts_off_instruction = False\<rparr>"

definition example_diamond :: "unit snapshot" where
  "example_diamond = (empty_snapshot (FillMethodMeta example_pool 0))
     \<lparr>sn_blocks := [example_block 0 [\<lparr>ce_kind = Fallthrough, ce_target = 1, ce_label = 0\<rparr>,
                                    \<lparr>ce_kind = Branch, ce_target = 2, ce_label = 0\<rparr>],
                   example_block 2 [\<lparr>ce_kind = Fallthrough, ce_target = 2, ce_label = 0\<rparr>],
                   example_block 4 []],
      sn_entry_block_id := Some 0\<rparr>"

definition example_store :: "nat store" where
  "example_store = \<lparr>heap = (\<lambda>_. new_StatementBlock [] []), fresh = 0\<rparr>"

lemma example_handlers_return: "handlers_return example_handlers"
  by (simp add: handlers_return_def example_handlers_def)

lemma example_entry: "sn_entry_block_id example_diamond = Some 0"
  by (simp add: example_diamond_def)

lemma example_graph: "\<exists>bd. Construct example_handlers example_diamond example_store () = Inr bd"
proof -
  have "returns (Construct example_handlers example_diamond example_store ())"
    by (rule Construct_returns [OF example_handlers_return]) (simp add: example_diamond_def)
  then show ?thesis by (simp add: returns_def)
qed

section \<open>Witnesses\<close>

theorem construct_mirrors_witness:
  "\<exists>bd. Construct example_handlers example_diamond example_store () = Inr bd \<and> graph_ok (bd_graph bd) \<and>
     mirrors example_diamond (bd_nodes bd) (bd_store bd) (bd_graph bd)"
proof -
  obtain bd where bd: "Construct example_handlers example_diamond example_store () = Inr bd"
    using example_graph by blast
  from construct_mirrors [OF bd example_entry] bd show ?thesis by blast
qed

theorem accepted_code_graph_witness:
  "\<exists>sn bd. Build example_dex example_pool 0 = Inr sn \<and> Construct example_handlers sn example_store () = Inr bd \<and>
     graph_of_method sn bd"
  using accepted_code_graph [OF example_ctx_ok example_code_hdr(3) example_code example_pool_simps _ example_handlers_return]
  by (simp add: length_example_dex)

end
