(* ===== verification/Dataflow.thy ===== *)
theory Dataflow
  imports Cfg_Passes Cfg_Structure
begin

text \<open>
  The dataflow analyses of the decompiler (\<open>src/native/dad_cpp/dataflow.cpp\<close>): reaching
  definitions and the def-use chains.

  The analyses read two virtual functions of \<open>IRForm\<close>, a record of functions on the heap of objects
  \<open>'h\<close>. A hash map is an association list, a \<open>std::set\<close> of
  locations a set; \<open>A[n]\<close> and its like, which insert an empty set where there is none, are total
  functions. A loop the source does not bound is a \<open>partial_function\<close>.
\<close>

section \<open>Instruction objects\<close>

record ('i, 'h) ir_ops =
  ir_lhs_id :: "'h \<Rightarrow> 'i \<Rightarrow> string option"
  ir_used_vars :: "'h \<Rightarrow> 'i \<Rightarrow> string list"

definition GetLhsKey :: "('i, 'h) ir_ops \<Rightarrow> 'h \<Rightarrow> 'i \<Rightarrow> string" where
  "GetLhsKey ops h ins = (case ir_lhs_id ops h ins of Some v \<Rightarrow> v | None \<Rightarrow> [])"

definition LocWithIns :: "'i store \<Rightarrow> nat \<Rightarrow> (int \<times> 'i) list" where
  "LocWithIns s n = (if is_BasicBlock (n_class (heap s n)) then get_loc_with_ins (heap s n) else [])"

section \<open>Reaching definitions\<close>

text \<open>\<open>BasicReachDef\<close>: the state, and what its constructor fills in.\<close>

type_synonym reg_locs = "(string \<times> int set) list"

record reach_def =
  rd_A :: "nat \<Rightarrow> int set"
  rd_R :: "nat \<Rightarrow> int set"
  rd_DB :: "nat \<Rightarrow> int set"
  rd_defs :: "nat \<Rightarrow> reg_locs"
  rd_def_to_loc :: reg_locs

definition locs_of :: "reg_locs \<Rightarrow> string \<Rightarrow> int set" where
  "locs_of m r = (case map_of m r of Some S \<Rightarrow> S | None \<Rightarrow> {})"

definition add_loc :: "string \<Rightarrow> int \<Rightarrow> reg_locs \<Rightarrow> reg_locs" where
  "add_loc r loc m = AList.update r (insert loc (locs_of m r)) m"

definition note_def :: "nat \<Rightarrow> string \<Rightarrow> int \<Rightarrow> reach_def \<Rightarrow> reach_def" where
  "note_def n r loc a =
     a\<lparr>rd_defs := (rd_defs a)(n := add_loc r loc (rd_defs a n)),
       rd_def_to_loc := add_loc r loc (rd_def_to_loc a)\<rparr>"

fun seed_params :: "nat \<Rightarrow> int \<Rightarrow> string list \<Rightarrow> reach_def \<Rightarrow> reach_def" where
  "seed_params e loc [] a = a"
| "seed_params e loc (p # ps) a =
     seed_params e (loc - 1) ps (note_def e p loc (a\<lparr>rd_A := (rd_A a)(e := insert loc (rd_A a e))\<rparr>))"

definition node_defs :: "('i, 'h) ir_ops \<Rightarrow> 'h \<Rightarrow> 'i store \<Rightarrow> nat \<Rightarrow> reach_def \<Rightarrow> reach_def" where
  "node_defs ops h s n a =
     (let a1 = fold (\<lambda>(i, ins) a. let kill = GetLhsKey ops h ins in
                 if kill \<noteq> [] then note_def n kill i a else a) (LocWithIns s n) a
      in a1\<lparr>rd_DB := (rd_DB a1)(n := rd_DB a1 n \<union>
             set (map Max (filter (\<lambda>S. S \<noteq> {}) (map snd (rd_defs a1 n)))))\<rparr>)"

definition no_defs :: reach_def where
  "no_defs = \<lparr>rd_A = (\<lambda>_. {}), rd_R = (\<lambda>_. {}), rd_DB = (\<lambda>_. {}), rd_defs = (\<lambda>_. []), rd_def_to_loc = []\<rparr>"

definition BasicReachDef ::
    "('i, 'h) ir_ops \<Rightarrow> 'h \<Rightarrow> 'i store \<Rightarrow> 'i graph \<Rightarrow> string list \<Rightarrow> reach_def" where
  "BasicReachDef ops h s g params =
     fold (node_defs ops h s) (g_rpo g)
       (case g_entry g of None \<Rightarrow> no_defs | Some e \<Rightarrow> seed_params e (- 1) params no_defs)"

text \<open>The worklist.\<close>

definition killed_locs :: "reach_def \<Rightarrow> nat \<Rightarrow> int set" where
  "killed_locs a n = (\<Union>r \<in> set (map fst (rd_defs a n)). locs_of (rd_def_to_loc a) r)"

definition push_sucs :: "nat list \<Rightarrow> nat list \<Rightarrow> nat list" where
  "push_sucs = fold (\<lambda>suc ns. if suc \<in> set ns then ns else ns @ [suc])"

definition reach_step :: "'i graph \<Rightarrow> nat \<Rightarrow> nat list \<Rightarrow> reach_def \<Rightarrow> reach_def \<times> nat list" where
  "reach_step g n nodes a =
     (let newR = (\<Union>p \<in> set (all_preds g n). rd_A a p);
          changedR = (newR \<noteq> {} \<and> newR \<noteq> rd_R a n);
          a1 = (if changedR then a\<lparr>rd_R := (rd_R a)(n := newR)\<rparr> else a);
          nodes1 = (if changedR then push_sucs (all_sucs g n) nodes else nodes);
          newA = (rd_R a1 n - killed_locs a1 n) \<union> rd_DB a1 n
      in if newA \<noteq> rd_A a1 n
         then (a1\<lparr>rd_A := (rd_A a1)(n := newA)\<rparr>, push_sucs (all_sucs g n) nodes1)
         else (a1, nodes1))"

partial_function (option) reach_loop :: "'i graph \<Rightarrow> nat list \<Rightarrow> reach_def \<Rightarrow> reach_def option" where
  "reach_loop g nodes a =
     (case nodes of
        [] \<Rightarrow> Some a
      | n # ns \<Rightarrow> (case reach_step g n ns a of (a', ns') \<Rightarrow> reach_loop g ns' a'))"

definition run :: "'i graph \<Rightarrow> reach_def \<Rightarrow> reach_def option" where
  "run g a = reach_loop g (g_rpo g) a"

text \<open>
  \<open>ReachDefResult\<close>: the analysis runs on the graph with a node in front of the entry, where the
  parameters are defined, and one behind the exit; both are removed afterwards.
\<close>

definition with_dummies :: "'i store \<Rightarrow> 'i graph \<Rightarrow> nat \<times> nat option \<times> 'i store \<times> 'i graph" where
  "with_dummies s g =
     (let (d, s1) = alloc (new_block DummyNode NoType ''entry'' []) s;
          g1 = add_node d g;
          g2 = (case g_entry g of None \<Rightarrow> g1 | Some e \<Rightarrow> add_edge d e g1)\<lparr>g_entry := Some d\<rparr>
      in case g_exit g of
           None \<Rightarrow> (d, None, s1, g2)
         | Some x \<Rightarrow>
           let (d', s2) = alloc (new_block DummyNode NoType ''exit'' []) s1;
               g3 = add_edge x d' (add_node d' g2)
           in (d, Some d', s2, g3\<lparr>g_rpo := g_rpo g3 @ [d']\<rparr>))"

definition ReachDefResult ::
    "('i, 'h) ir_ops \<Rightarrow> 'h \<Rightarrow> 'i store \<Rightarrow> 'i graph \<Rightarrow> string list
       \<Rightarrow> (reach_def \<times> 'i store \<times> 'i graph) option" where
  "ReachDefResult ops h s g params =
     (let (d, d', s', g') = with_dummies s g in
      Option.bind (run g' (BasicReachDef ops h s' g' params)) (\<lambda>a.
        let g1 = remove_node d g';
            g2 = (case d' of None \<Rightarrow> g1 | Some d' \<Rightarrow> remove_node d' g1)
        in Some (a, s', g2\<lparr>g_entry := g_entry g\<rparr>)))"

section \<open>Chains\<close>

type_synonym chain_map = "((string \<times> int) \<times> int list) list"

definition chain_at :: "chain_map \<Rightarrow> string \<times> int \<Rightarrow> int list" where
  "chain_at m k = (case map_of m k of Some l \<Rightarrow> l | None \<Rightarrow> [])"

definition chain_add :: "string \<times> int \<Rightarrow> int list \<Rightarrow> chain_map \<Rightarrow> chain_map" where
  "chain_add k ls m = AList.update k (chain_at m k @ ls) m"

text \<open>The definitions that reach a use of \<open>var\<close> at \<open>i\<close> in node \<open>n\<close>.\<close>

definition use_defs :: "reach_def \<Rightarrow> nat \<Rightarrow> int \<Rightarrow> string \<Rightarrow> int list" where
  "use_defs a n i var =
     (let prior_def = Max (insert (- 1) {v \<in> locs_of (rd_defs a n) var. v < i})
      in if prior_def \<ge> 0 then [prior_def]
         else sorted_list_of_set {v \<in> locs_of (rd_def_to_loc a) var. v \<in> rd_R a n})"

definition chain_uses ::
    "('i, 'h) ir_ops \<Rightarrow> 'h \<Rightarrow> reach_def \<Rightarrow> nat \<Rightarrow> int \<times> 'i \<Rightarrow> chain_map \<Rightarrow> chain_map" where
  "chain_uses ops h a n = (\<lambda>(i, ins).
     fold (\<lambda>var ud. if map_of (rd_def_to_loc a) var = None then ud
                    else chain_add (var, i) (use_defs a n i var) ud) (ir_used_vars ops h ins))"

definition invert_chain :: "chain_map \<Rightarrow> chain_map" where
  "invert_chain ud =
     fold (\<lambda>((var, loc), defs_loc). fold (\<lambda>def_loc. chain_add (var, def_loc) [loc]) defs_loc) ud []"

text \<open>The result is \<open>ud\<close> and \<open>du\<close>.\<close>

definition BuildDefUse ::
    "('i, 'h) ir_ops \<Rightarrow> 'h \<Rightarrow> 'i store \<Rightarrow> 'i graph \<Rightarrow> string list
       \<Rightarrow> ((chain_map \<times> chain_map) \<times> 'i store \<times> 'i graph) option" where
  "BuildDefUse ops h s g lparams =
     Option.bind (ReachDefResult ops h s g lparams) (\<lambda>(a, s', g').
       let ud = fold (\<lambda>n. fold (chain_uses ops h a n) (LocWithIns s' n)) (g_rpo g') []
       in Some ((ud, invert_chain ud), s', g'))"

end
