(* ===== verification/Dataflow_Reach.thy ===== *)
theory Dataflow_Reach
  imports Dataflow Cfg_Construct_Laws
begin

text \<open>
  The worklist of \<open>BasicReachDef\<close> returns, and what it returns is the set of definitions that reach
  each node: \<open>flow_in\<close> and \<open>flow_out\<close> say which locations flow into and out of a node when every node
  adds \<open>DB\<close> and removes what it kills. The analysis is sound at every moment, and complete because
  every node off the worklist is stable.
\<close>

section \<open>The flow\<close>

inductive flow_in :: "'i graph \<Rightarrow> reach_def \<Rightarrow> nat set \<Rightarrow> int \<Rightarrow> nat \<Rightarrow> bool"
  and flow_out :: "'i graph \<Rightarrow> reach_def \<Rightarrow> nat set \<Rightarrow> int \<Rightarrow> nat \<Rightarrow> bool"
  for g a P where
  pred: "flow_out g a P loc p \<Longrightarrow> p \<in> set (all_preds g n) \<Longrightarrow> n \<in> P \<Longrightarrow> flow_in g a P loc n"
| seed: "loc \<in> rd_A a n \<Longrightarrow> n \<notin> P \<Longrightarrow> flow_out g a P loc n"
| gen: "loc \<in> rd_DB a n \<Longrightarrow> n \<in> P \<Longrightarrow> flow_out g a P loc n"
| pass: "flow_in g a P loc n \<Longrightarrow> loc \<notin> killed_locs a n \<Longrightarrow> flow_out g a P loc n"

definition transfer :: "reach_def \<Rightarrow> nat \<Rightarrow> int set" where
  "transfer a n = (rd_R a n - killed_locs a n) \<union> rd_DB a n"

definition incoming :: "'i graph \<Rightarrow> reach_def \<Rightarrow> nat \<Rightarrow> int set" where
  "incoming g a n = (\<Union>p \<in> set (all_preds g n). rd_A a p)"

definition stable :: "'i graph \<Rightarrow> reach_def \<Rightarrow> nat \<Rightarrow> bool" where
  "stable g a n \<longleftrightarrow> rd_R a n = incoming g a n \<and> rd_A a n = transfer a n"

text \<open>The invariant of the loop, from the start \<open>a0\<close>, on the nodes \<open>P\<close> the worklist may hold.\<close>

definition same_defs :: "reach_def \<Rightarrow> reach_def \<Rightarrow> bool" where
  "same_defs a0 a \<longleftrightarrow> rd_DB a = rd_DB a0 \<and> rd_defs a = rd_defs a0 \<and> rd_def_to_loc a = rd_def_to_loc a0"

definition reach_inv :: "'i graph \<Rightarrow> nat set \<Rightarrow> reach_def \<Rightarrow> nat list \<Rightarrow> reach_def \<Rightarrow> bool" where
  "reach_inv g P a0 nodes a \<longleftrightarrow>
     same_defs a0 a \<and> set nodes \<subseteq> P \<and> (\<forall>n. n \<notin> P \<longrightarrow> rd_A a n = rd_A a0 n) \<and>
     (\<forall>n \<in> P. rd_R a n \<subseteq> incoming g a n \<and> rd_A a n \<subseteq> transfer a n) \<and>
     (\<forall>n loc. loc \<in> rd_A a n \<longrightarrow> flow_out g a0 P loc n) \<and> (\<forall>n \<in> P. \<forall>loc \<in> rd_R a n. flow_in g a0 P loc n) \<and>
     (\<forall>n \<in> P - set nodes. stable g a n)"

definition closed_under_sucs :: "'i graph \<Rightarrow> nat set \<Rightarrow> bool" where
  "closed_under_sucs g P \<longleftrightarrow> (\<forall>n \<in> P. set (all_sucs g n) \<subseteq> P)"

lemma killed_same: "same_defs a0 a \<Longrightarrow> killed_locs a n = killed_locs a0 n"
  by (simp add: same_defs_def killed_locs_def)

lemma push_sucs_set [simp]: "set (push_sucs xs ns) = set xs \<union> set ns"
  unfolding push_sucs_def by (induction xs arbitrary: ns) auto

text \<open>One step, as the update of one node.\<close>

lemma reach_step_facts:
  assumes "reach_step g n ns a = (a', ns')" "rd_R a n \<subseteq> incoming g a n"
  shows "same_defs a a'" "rd_R a' = (rd_R a)(n := incoming g a n)" "rd_A a' = (rd_A a)(n := transfer a' n)"
    "set ns \<subseteq> set ns'" "set ns' \<subseteq> set ns \<union> set (all_sucs g n)"
    "rd_A a' n \<noteq> rd_A a n \<or> rd_R a' n \<noteq> rd_R a n \<Longrightarrow> set (all_sucs g n) \<subseteq> set ns'"
    "rd_A a' n = rd_A a n \<Longrightarrow> rd_R a' n = rd_R a n \<Longrightarrow> a' = a \<and> ns' = ns"
proof -
  define a1 where "a1 = (if incoming g a n \<noteq> {} \<and> incoming g a n \<noteq> rd_R a n then a\<lparr>rd_R := (rd_R a)(n := incoming g a n)\<rparr> else a)"
  define ns1 where "ns1 = (if incoming g a n \<noteq> {} \<and> incoming g a n \<noteq> rd_R a n then push_sucs (all_sucs g n) ns else ns)"
  have step: "reach_step g n ns a =
      (if transfer a1 n \<noteq> rd_A a1 n then (a1\<lparr>rd_A := (rd_A a1)(n := transfer a1 n)\<rparr>, push_sucs (all_sucs g n) ns1) else (a1, ns1))"
    by (simp add: reach_step_def Let_def transfer_def incoming_def a1_def ns1_def)
  have R: "rd_R a1 = (rd_R a)(n := incoming g a n)" using assms(2) by (auto simp: a1_def fun_eq_iff)
  have same: "rd_A a1 = rd_A a" "rd_DB a1 = rd_DB a" "rd_defs a1 = rd_defs a" "rd_def_to_loc a1 = rd_def_to_loc a"
    by (simp_all add: a1_def)
  have a': "a' = a1\<lparr>rd_A := (rd_A a)(n := transfer a1 n)\<rparr>"
    using assms(1) step same by (auto split: if_splits)
  have t: "transfer a' n = transfer a1 n" by (simp add: a' transfer_def killed_locs_def)
  show "same_defs a a'" using same by (simp add: a' same_defs_def)
  show R': "rd_R a' = (rd_R a)(n := incoming g a n)" using R by (simp add: a')
  show A': "rd_A a' = (rd_A a)(n := transfer a' n)" unfolding t by (simp add: a')
  show "set ns \<subseteq> set ns'" "set ns' \<subseteq> set ns \<union> set (all_sucs g n)"
    using assms(1) step by (auto simp: ns1_def split: if_splits)
  show "set (all_sucs g n) \<subseteq> set ns'" if "rd_A a' n \<noteq> rd_A a n \<or> rd_R a' n \<noteq> rd_R a n"
    using that assms step same R' A' t by (auto simp: ns1_def split: if_splits)
  show "a' = a \<and> ns' = ns" if "rd_A a' n = rd_A a n" "rd_R a' n = rd_R a n"
  proof -
    have "incoming g a n = rd_R a n" using that(2) R' by simp
    then have "a1 = a" "ns1 = ns" by (simp_all add: a1_def ns1_def)
    moreover have "transfer a1 n = rd_A a1 n" using that(1) A' t same by simp
    ultimately show ?thesis using assms(1) step by simp
  qed
qed

lemma reach_inv_step:
  assumes "reach_inv g P a0 (n # ns) a" "reach_step g n ns a = (a', ns')" "graph_ok g" "closed_under_sucs g P"
  shows "reach_inv g P a0 ns' a'" "rd_A a n \<subseteq> rd_A a' n" "rd_R a n \<subseteq> rd_R a' n" "n \<in> P"
proof -
  have inv: "same_defs a0 a" "n \<in> P" "set ns \<subseteq> P" "\<And>n. n \<notin> P \<Longrightarrow> rd_A a n = rd_A a0 n"
    "\<And>n. n \<in> P \<Longrightarrow> rd_R a n \<subseteq> incoming g a n" "\<And>n. n \<in> P \<Longrightarrow> rd_A a n \<subseteq> transfer a n"
    "\<And>n loc. loc \<in> rd_A a n \<Longrightarrow> flow_out g a0 P loc n" "\<And>n loc. n \<in> P \<Longrightarrow> loc \<in> rd_R a n \<Longrightarrow> flow_in g a0 P loc n"
    "\<And>m. m \<in> P - set (n # ns) \<Longrightarrow> stable g a m"
    using assms(1) by (auto simp: reach_inv_def)
  note f = reach_step_facts [OF assms(2) inv(5) [OF inv(2)]]
  have defs: "same_defs a0 a'" using inv(1) f(1) by (simp add: same_defs_def)
  have kill: "killed_locs a' m = killed_locs a m" and db: "rd_DB a' m = rd_DB a m" for m
    using f(1) by (simp_all add: same_defs_def killed_locs_def)
  show R: "rd_R a n \<subseteq> rd_R a' n" using inv(5) [OF inv(2)] f(2) by simp
  have t: "transfer a n \<subseteq> transfer a' n" using R kill db by (auto simp: transfer_def)
  then show A: "rd_A a n \<subseteq> rd_A a' n" using inv(6) [OF inv(2)] f(3) by auto
  show "n \<in> P" by (rule inv(2))
  have mono: "rd_A a m \<subseteq> rd_A a' m" for m using A f(3) by (cases "m = n") auto
  then have inc: "incoming g a m \<subseteq> incoming g a' m" for m by (auto simp: incoming_def)
  have others: "transfer a' m = transfer a m" if "m \<noteq> n" for m using that f(2) kill db by (simp add: transfer_def)
  have "rd_R a' m \<subseteq> incoming g a' m \<and> rd_A a' m \<subseteq> transfer a' m" if "m \<in> P" for m
    using inv(5,6) [OF that] inc [of m] f(2,3) others [of m] by (cases "m = n") auto
  moreover have flow_R: "flow_in g a0 P loc m" if "m \<in> P" "loc \<in> rd_R a' m" for m loc
  proof (cases "m = n")
    case True
    with that f(2) obtain p where "p \<in> set (all_preds g n)" "loc \<in> rd_A a p" by (auto simp: incoming_def)
    with inv(2,7) True show ?thesis by (auto intro: flow_in_flow_out.pred)
  qed (use that f(2) inv(8) in auto)
  moreover have "flow_out g a0 P loc m" if "loc \<in> rd_A a' m" for loc m
  proof (cases "m = n")
    case True
    with that f(3) consider "loc \<in> rd_R a' n" "loc \<notin> killed_locs a' n" | "loc \<in> rd_DB a' n" by (auto simp: transfer_def)
    then show ?thesis
    proof cases
      case 1
      with flow_R [OF inv(2)] killed_same [OF defs] True show ?thesis by (auto intro: flow_in_flow_out.pass)
    next
      case 2
      with inv(2) defs True show ?thesis by (auto simp: same_defs_def intro: flow_in_flow_out.gen)
    qed
  qed (use that f(3) inv(7) in auto)
  moreover have "stable g a' m" if m: "m \<in> P" "m \<notin> set ns'" for m
  proof (cases "rd_A a' n = rd_A a n \<and> rd_R a' n = rd_R a n")
    case True
    with f(7) have eq: "a' = a" "ns' = ns" by auto
    show ?thesis
    proof (cases "m = n")
      case True
      then show ?thesis using f(2,3) eq by (simp add: stable_def fun_eq_iff) metis
    qed (use m inv(9) eq in auto)
  next
    case False
    then have sub: "set (all_sucs g n) \<subseteq> set ns'" using f(6) by blast
    with m(2) have "m \<notin> set (all_sucs g n)" by blast
    then have "n \<notin> set (all_preds g m)" using graph_ok_preds [OF assms(3)] by blast
    then have same_in: "incoming g a' m = incoming g a m" using f(3) unfolding incoming_def by (intro SUP_cong) auto
    show ?thesis
    proof (cases "m = n")
      case True
      then show ?thesis using f(2,3) same_in by (auto simp: stable_def)
    next
      case False
      with m f(4) inv(9) have "stable g a m" by auto
      with False same_in others f(2,3) show ?thesis by (simp add: stable_def)
    qed
  qed
  moreover have "set ns' \<subseteq> P" using f(5) inv(2,3) assms(4) by (auto simp: closed_under_sucs_def)
  moreover have "rd_A a' m = rd_A a0 m" if "m \<notin> P" for m using that inv(2,4) f(3) by auto
  ultimately show "reach_inv g P a0 ns' a'" using defs unfolding reach_inv_def by blast
qed

section \<open>The worklist empties\<close>

text \<open>
  Every step either drops a node of the worklist and changes nothing, or adds a location to one of
  the sets of a node of \<open>P\<close>: \<open>room\<close> counts what the sets do not hold yet.
\<close>

definition sources :: "nat set \<Rightarrow> reach_def \<Rightarrow> int set" where
  "sources P a = (\<Union>n. rd_A a n) \<union> (\<Union>n \<in> P. rd_DB a n)"

definition room :: "int set \<Rightarrow> nat set \<Rightarrow> reach_def \<Rightarrow> nat" where
  "room U P a = (\<Sum>n \<in> P. card (U - rd_A a n) + card (U - rd_R a n))"

lemma flow_sources:
  shows "flow_in g a P loc n \<Longrightarrow> loc \<in> sources P a" and "flow_out g a P loc n \<Longrightarrow> loc \<in> sources P a"
  by (induction rule: flow_in_flow_out.inducts) (auto simp: sources_def)

lemma room_grows:
  assumes "finite P" "finite U" "n \<in> P" "\<And>m. m \<noteq> n \<Longrightarrow> rd_A a' m = rd_A a m \<and> rd_R a' m = rd_R a m"
    and "rd_A a n \<subseteq> rd_A a' n" "rd_R a n \<subseteq> rd_R a' n" "rd_A a' n \<subseteq> U" "rd_R a' n \<subseteq> U"
    and "rd_A a' n \<noteq> rd_A a n \<or> rd_R a' n \<noteq> rd_R a n"
  shows "room U P a' < room U P a"
proof -
  let ?c = "\<lambda>a m. card (U - rd_A a m) + card (U - rd_R a m)"
  have le: "card (U - rd_A a' n) \<le> card (U - rd_A a n)" "card (U - rd_R a' n) \<le> card (U - rd_R a n)"
    using assms(2,5,6) by (auto intro!: card_mono)
  have "card (U - rd_A a' n) < card (U - rd_A a n) \<or> card (U - rd_R a' n) < card (U - rd_R a n)"
    using assms(9)
  proof
    assume "rd_A a' n \<noteq> rd_A a n"
    with assms(5,7) have "U - rd_A a' n \<subset> U - rd_A a n" by auto
    then show ?thesis using assms(2) by (simp add: psubset_card_mono)
  next
    assume "rd_R a' n \<noteq> rd_R a n"
    with assms(6,8) have "U - rd_R a' n \<subset> U - rd_R a n" by auto
    then show ?thesis using assms(2) by (simp add: psubset_card_mono)
  qed
  with le have lt: "?c a' n < ?c a n" by linarith
  have "?c a' m \<le> ?c a m" for m using assms(4) [of m] lt by (cases "m = n") auto
  with lt assms(1,3) show ?thesis unfolding room_def by (intro sum_strict_mono_ex1) auto
qed

lemma reach_loop_returns:
  assumes "finite P" "finite (sources P a0)" "graph_ok g" "closed_under_sucs g P"
  shows "reach_inv g P a0 nodes a \<Longrightarrow> \<exists>a'. reach_loop g nodes a = Some a' \<and> reach_inv g P a0 [] a'"
proof (induction "(nodes, a)" arbitrary: nodes a rule: wf_induct_rule [OF wf_measures [of "[\<lambda>(nodes, a). room (sources P a0) P a, \<lambda>(nodes, a). length nodes]"]])
  case (1 nodes a)
  show ?case
  proof (cases nodes)
    case Nil
    with 1(2) show ?thesis by (simp add: reach_loop.simps)
  next
    case (Cons n ns)
    obtain a' ns' where step: "reach_step g n ns a = (a', ns')" by fastforce
    note inv = reach_inv_step [OF 1(2) [unfolded Cons] step assms(3,4)]
    have sub: "rd_A a' n \<subseteq> sources P a0" "rd_R a' n \<subseteq> sources P a0"
    proof -
      have "\<And>loc. loc \<in> rd_A a' n \<Longrightarrow> flow_out g a0 P loc n" "\<And>loc. loc \<in> rd_R a' n \<Longrightarrow> flow_in g a0 P loc n"
        using inv(1,4) unfolding reach_inv_def by blast+
      then show "rd_A a' n \<subseteq> sources P a0" "rd_R a' n \<subseteq> sources P a0" using flow_sources by blast+
    qed
    have in_R: "rd_R a n \<subseteq> incoming g a n" using 1(2) Cons by (auto simp: reach_inv_def)
    note f = reach_step_facts [OF step in_R]
    have "((ns', a'), (nodes, a)) \<in> measures [\<lambda>(nodes, a). room (sources P a0) P a, \<lambda>(nodes, a). length nodes]"
    proof (cases "rd_A a' n = rd_A a n \<and> rd_R a' n = rd_R a n")
      case True
      with f(7) Cons show ?thesis by simp
    next
      case False
      have others: "rd_A a' m = rd_A a m \<and> rd_R a' m = rd_R a m" if "m \<noteq> n" for m using f(2,3) that by simp
      show ?thesis using room_grows [OF assms(1,2) inv(4) others inv(2,3) sub] False by auto
    qed
    from 1(1) [OF this inv(1)] show ?thesis
      using step Cons by (simp add: reach_loop.simps [of g "n # ns"])
  qed
qed

lemma all_stable:
  assumes "reach_inv g P a0 [] a" "n \<in> P"
  shows "rd_R a n = incoming g a n" "rd_A a n = transfer a n"
  using assms by (auto simp: reach_inv_def stable_def)

lemma flow_in_inside: "flow_in g a P loc n \<Longrightarrow> n \<in> P"
  by (auto elim: flow_in.cases)

lemma flow_found:
  assumes "reach_inv g P a0 [] a"
  shows "flow_in g a0 P loc n \<Longrightarrow> loc \<in> rd_R a n" and "flow_out g a0 P loc n \<Longrightarrow> loc \<in> rd_A a n"
proof (induction rule: flow_in_flow_out.inducts)
  case (pred loc p n)
  then show ?case using all_stable [OF assms] by (auto simp: incoming_def)
next
  case (seed loc n)
  then show ?case using assms by (simp add: reach_inv_def)
next
  case (gen loc n)
  then show ?case using all_stable [OF assms] assms by (simp add: reach_inv_def same_defs_def transfer_def)
next
  case (pass loc n)
  have "same_defs a0 a" using assms by (simp add: reach_inv_def)
  with pass show ?case
    using all_stable [OF assms flow_in_inside [OF pass(1)]] by (simp add: transfer_def killed_same)
qed

lemma reach_inv_start:
  assumes "\<And>n. n \<in> P \<Longrightarrow> rd_A a n = {} \<and> rd_R a n = {}" "set ns = P"
  shows "reach_inv g P a ns a"
  using assms flow_in_flow_out.seed [of _ a _ P g] by (auto simp: reach_inv_def same_defs_def)

text \<open>The worklist run returns the locations that flow, and nothing else.\<close>

lemma run_exact:
  assumes "finite (sources (set (g_rpo g)) a0)" "graph_ok g" "closed_under_sucs g (set (g_rpo g))"
    and "\<And>n. n \<in> set (g_rpo g) \<Longrightarrow> rd_A a0 n = {} \<and> rd_R a0 n = {}"
  obtains a where "run g a0 = Some a" "same_defs a0 a"
    "\<And>n. n \<in> set (g_rpo g) \<Longrightarrow> rd_R a n = {loc. flow_in g a0 (set (g_rpo g)) loc n}"
    "\<And>n. rd_A a n = {loc. flow_out g a0 (set (g_rpo g)) loc n}"
proof -
  from reach_loop_returns [OF _ assms(1-3) reach_inv_start [OF assms(4) refl]]
  obtain a where a: "run g a0 = Some a" and inv: "reach_inv g (set (g_rpo g)) a0 [] a"
    unfolding run_def by auto
  have same: "same_defs a0 a" using inv by (simp add: reach_inv_def)
  have R: "rd_R a n = {loc. flow_in g a0 (set (g_rpo g)) loc n}" if "n \<in> set (g_rpo g)" for n
    using inv that flow_found(1) [OF inv] unfolding reach_inv_def by blast
  have A: "rd_A a n = {loc. flow_out g a0 (set (g_rpo g)) loc n}" for n
    using inv flow_found(2) [OF inv] unfolding reach_inv_def by blast
  show thesis by (rule that [OF a same R A])
qed

end
