(* ===== verification/Dataflow_Defs.thy ===== *)
theory Dataflow_Defs
  imports Dataflow
begin

text \<open>
  What the constructor of \<open>BasicReachDef\<close> collects, in terms of the instructions of the nodes:
  \<open>def_locs\<close> are the locations where a node defines a register, \<open>param_locs\<close> those of the parameters.
\<close>

section \<open>Locations of a register\<close>

definition defs_in :: "('i, 'h) ir_ops \<Rightarrow> 'h \<Rightarrow> (int \<times> 'i) list \<Rightarrow> string \<Rightarrow> int set" where
  "defs_in ops h l r = fst ` (set l \<inter> {p. GetLhsKey ops h (snd p) = r \<and> r \<noteq> []})"

definition def_locs :: "('i, 'h) ir_ops \<Rightarrow> 'h \<Rightarrow> 'i store \<Rightarrow> nat \<Rightarrow> string \<Rightarrow> int set" where
  "def_locs ops h s n r = defs_in ops h (LocWithIns s n) r"

definition param_locs :: "int \<Rightarrow> string list \<Rightarrow> string \<Rightarrow> int set" where
  "param_locs loc ps r = {loc - int i | i. i < length ps \<and> ps ! i = r}"

definition reg_locs_ok :: "reg_locs \<Rightarrow> bool" where
  "reg_locs_ok m \<longleftrightarrow> distinct (map fst m) \<and> (\<forall>S \<in> snd ` set m. finite S \<and> S \<noteq> {})"

lemma finite_defs_in [simp]: "finite (defs_in ops h l r)"
  by (simp add: defs_in_def)

lemma defs_in_Nil [simp]: "defs_in ops h [] r = {}"
  by (simp add: defs_in_def)

lemma defs_in_Cons: "defs_in ops h ((i, ins) # l) r =
    (if GetLhsKey ops h ins = r \<and> r \<noteq> [] then insert i (defs_in ops h l r) else defs_in ops h l r)"
  by (auto simp: defs_in_def)

lemma def_locs_of: "def_locs ops h s n = defs_in ops h (LocWithIns s n)"
  by (simp add: def_locs_def fun_eq_iff)

lemma param_locs_Nil [simp]: "param_locs loc [] r = {}"
  by (simp add: param_locs_def)

lemma param_locs_Cons:
  "param_locs loc (p # ps) r = (if p = r then insert loc (param_locs (loc - 1) ps r) else param_locs (loc - 1) ps r)"
proof -
  have "x \<in> param_locs loc (p # ps) r \<longleftrightarrow> (p = r \<and> x = loc) \<or> x \<in> param_locs (loc - 1) ps r" for x
  proof
    assume "x \<in> param_locs loc (p # ps) r"
    then obtain i where "x = loc - int i" "i < Suc (length ps)" "(p # ps) ! i = r" by (auto simp: param_locs_def)
    then show "(p = r \<and> x = loc) \<or> x \<in> param_locs (loc - 1) ps r"
      unfolding param_locs_def by (cases i) auto
  next
    assume "(p = r \<and> x = loc) \<or> x \<in> param_locs (loc - 1) ps r"
    then consider "p = r" "x = loc" | i where "x = loc - 1 - int i" "i < length ps" "ps ! i = r"
      by (auto simp: param_locs_def)
    then show "x \<in> param_locs loc (p # ps) r"
    proof cases
      case 1
      then show ?thesis by (auto simp: param_locs_def intro!: exI [of _ 0])
    next
      case 2
      then show ?thesis by (auto simp: param_locs_def intro!: exI [of _ "Suc i"])
    qed
  qed
  then show ?thesis by auto
qed

lemma param_locs_neg: "x \<in> param_locs (- 1) ps r \<Longrightarrow> x < 0"
  by (auto simp: param_locs_def)

lemma param_locs_unique: "x \<in> param_locs loc ps r \<Longrightarrow> x \<in> param_locs loc ps r' \<Longrightarrow> r = r'"
  by (auto simp: param_locs_def)

lemma locs_of_Nil [simp]: "locs_of [] r = {}"
  by (simp add: locs_of_def)

lemma locs_of_add [simp]: "locs_of (add_loc r loc m) r' = (if r' = r then insert loc (locs_of m r) else locs_of m r')"
  by (simp add: add_loc_def locs_of_def update_conv)

lemma reg_locs_ok_Nil [simp]: "reg_locs_ok []"
  by (simp add: reg_locs_ok_def)

lemma locs_of_mem:
  assumes "reg_locs_ok m"
  shows "(r, S) \<in> set m \<longleftrightarrow> locs_of m r = S \<and> S \<noteq> {}"
proof -
  have "distinct (map fst m)" and "\<And>S. (r, S) \<in> set m \<Longrightarrow> S \<noteq> {}"
    using assms by (force simp: reg_locs_ok_def)+
  then show ?thesis
    unfolding locs_of_def by (metis map_of_eq_Some_iff not_Some_eq option.simps(4,5))
qed

lemma locs_of_finite: "reg_locs_ok m \<Longrightarrow> finite (locs_of m r)"
  unfolding reg_locs_ok_def locs_of_def by (force split: option.splits dest: map_of_SomeD)

lemma reg_locs_ok_add:
  assumes "reg_locs_ok m"
  shows "reg_locs_ok (add_loc r loc m)"
proof -
  have "finite (insert loc (locs_of m r))" using locs_of_finite [OF assms] by simp
  moreover have "set (AList.update r S m) \<subseteq> insert (r, S) (set m)" for S
    by (induction m) auto
  ultimately show ?thesis
    using assms unfolding reg_locs_ok_def add_loc_def by (force simp: distinct_update)
qed

lemma keys_of: "reg_locs_ok m \<Longrightarrow> set (map fst m) = {r. locs_of m r \<noteq> {}}"
  using locs_of_mem [of m] by (force simp: image_iff)

lemma max_locs:
  assumes "reg_locs_ok m"
  shows "set (map Max (filter (\<lambda>S. S \<noteq> {}) (map snd m))) = {Max (locs_of m r) | r. locs_of m r \<noteq> {}}"
proof -
  have "x \<in> set (map Max (filter (\<lambda>S. S \<noteq> {}) (map snd m))) \<longleftrightarrow> (\<exists>r S. (r, S) \<in> set m \<and> S \<noteq> {} \<and> x = Max S)" for x
    by force
  then show ?thesis unfolding locs_of_mem [OF assms] by blast
qed

section \<open>What is collected\<close>

definition collects :: "reach_def \<Rightarrow> reach_def \<Rightarrow> nat \<Rightarrow> (string \<Rightarrow> int set) \<Rightarrow> bool" where
  "collects a a' n D \<longleftrightarrow>
     rd_R a' = rd_R a \<and>
     (\<forall>m r. locs_of (rd_defs a' m) r = locs_of (rd_defs a m) r \<union> (if m = n then D r else {})) \<and>
     (\<forall>r. locs_of (rd_def_to_loc a') r = locs_of (rd_def_to_loc a) r \<union> D r) \<and>
     ((\<forall>m. reg_locs_ok (rd_defs a m)) \<and> reg_locs_ok (rd_def_to_loc a) \<longrightarrow>
        (\<forall>m. reg_locs_ok (rd_defs a' m)) \<and> reg_locs_ok (rd_def_to_loc a'))"

lemma collects_refl: "(\<And>r. D r = {}) \<Longrightarrow> collects a a n D"
  by (simp add: collects_def)

lemma collects_note: "collects a (note_def n r loc a) n (\<lambda>r'. if r' = r then {loc} else {})"
  by (auto simp: collects_def note_def_def reg_locs_ok_add)

lemma collects_trans:
  "collects a b n D \<Longrightarrow> collects b c n D' \<Longrightarrow> (\<And>r. D'' r = D r \<union> D' r) \<Longrightarrow> collects a c n D''"
  unfolding collects_def by auto

lemma collects_same: "collects a b n D \<Longrightarrow> rd_R b' = rd_R b \<Longrightarrow> rd_defs b' = rd_defs b \<Longrightarrow>
    rd_def_to_loc b' = rd_def_to_loc b \<Longrightarrow> collects a b' n D"
  by (simp add: collects_def)

lemma note_def_sets [simp]: "rd_A (note_def n r loc a) = rd_A a" "rd_DB (note_def n r loc a) = rd_DB a"
  by (simp_all add: note_def_def)

lemma collects_seed: "collects a (seed_params e loc ps a) e (param_locs loc ps)"
proof (induction ps arbitrary: loc a)
  case (Cons p ps)
  let ?b = "note_def e p loc (a\<lparr>rd_A := (rd_A a)(e := insert loc (rd_A a e))\<rparr>)"
  have "collects a ?b e (\<lambda>r'. if r' = p then {loc} else {})"
    by (rule collects_same [OF collects_note [of a e p loc]]) (simp_all add: note_def_def)
  then have "collects a (seed_params e (loc - 1) ps ?b) e (param_locs loc (p # ps))"
    by (rule collects_trans [OF _ Cons.IH]) (simp add: param_locs_Cons)
  then show ?case by simp
qed (simp add: collects_refl)

lemma seed_sets:
  "rd_A (seed_params e loc ps a) = (rd_A a)(e := rd_A a e \<union> (\<Union>r. param_locs loc ps r))"
  "rd_DB (seed_params e loc ps a) = rd_DB a"
proof (induction ps arbitrary: loc a)
  case (Cons p ps)
  { case 1
    have "(\<Union>r. param_locs loc (p # ps) r) = insert loc (\<Union>r. param_locs (loc - 1) ps r)"
      by (auto simp: param_locs_Cons split: if_splits)
    with Cons.IH(1) show ?case by (simp add: fun_eq_iff) }
  { case 2 show ?case using Cons.IH(2) by simp }
qed auto

definition note_ins :: "('i, 'h) ir_ops \<Rightarrow> 'h \<Rightarrow> nat \<Rightarrow> int \<times> 'i \<Rightarrow> reach_def \<Rightarrow> reach_def" where
  "note_ins ops h n = (\<lambda>(i, ins) a. let kill = GetLhsKey ops h ins in
     if kill \<noteq> [] then note_def n kill i a else a)"

lemma collects_ins:
  "collects a (fold (note_ins ops h n) l a) n (defs_in ops h l)"
  "rd_A (fold (note_ins ops h n) l a) = rd_A a" "rd_DB (fold (note_ins ops h n) l a) = rd_DB a"
proof (induction l arbitrary: a)
  case (Cons p l)
  obtain i ins where p: "p = (i, ins)" by (cases p)
  have one: "collects a (note_ins ops h n p a) n (defs_in ops h [p])" for a
  proof (cases "GetLhsKey ops h ins = []")
    case True
    then show ?thesis by (simp add: p note_ins_def defs_in_Cons collects_refl)
  next
    case False
    have "(\<lambda>r'. if r' = GetLhsKey ops h ins then {i} else {}) = defs_in ops h [p]"
      using False by (auto simp: p defs_in_Cons fun_eq_iff)
    with False collects_note [of a n "GetLhsKey ops h ins" i] show ?thesis
      by (simp add: p note_ins_def Let_def)
  qed
  { case 1
    have "collects a (fold (note_ins ops h n) l (note_ins ops h n p a)) n (defs_in ops h (p # l))"
      by (rule collects_trans [OF one Cons.IH(1)]) (simp add: p defs_in_Cons)
    then show ?case by simp }
  { case 2 show ?case using Cons.IH(2) by (simp add: p note_ins_def Let_def) }
  { case 3 show ?case using Cons.IH(3) by (simp add: p note_ins_def Let_def) }
qed (auto simp: collects_refl)

lemma node_defs_eq: "node_defs ops h s n a =
    (let a1 = fold (note_ins ops h n) (LocWithIns s n) a in
     a1\<lparr>rd_DB := (rd_DB a1)(n := rd_DB a1 n \<union> set (map Max (filter (\<lambda>S. S \<noteq> {}) (map snd (rd_defs a1 n)))))\<rparr>)"
  by (simp add: node_defs_def note_ins_def [abs_def])

lemma node_defs_facts:
  "collects a (node_defs ops h s n a) n (def_locs ops h s n)" "rd_A (node_defs ops h s n a) = rd_A a"
  "m \<noteq> n \<Longrightarrow> rd_DB (node_defs ops h s n a) m = rd_DB a m"
  "\<forall>m. reg_locs_ok (rd_defs a m) \<Longrightarrow> reg_locs_ok (rd_def_to_loc a) \<Longrightarrow>
     rd_DB (node_defs ops h s n a) n = rd_DB a n \<union>
       {Max (locs_of (rd_defs a n) r \<union> def_locs ops h s n r) | r. locs_of (rd_defs a n) r \<union> def_locs ops h s n r \<noteq> {}}"
proof -
  let ?a1 = "fold (note_ins ops h n) (LocWithIns s n) a"
  note c = collects_ins [where a = a and ops = ops and h = h and n = n and l = "LocWithIns s n"]
  show "collects a (node_defs ops h s n a) n (def_locs ops h s n)"
    unfolding def_locs_of by (rule collects_same [OF c(1)]) (simp_all add: node_defs_eq Let_def)
  show "rd_A (node_defs ops h s n a) = rd_A a" using c(2) by (simp add: node_defs_eq Let_def)
  show "rd_DB (node_defs ops h s n a) m = rd_DB a m" if "m \<noteq> n" using that c(3) by (simp add: node_defs_eq Let_def)
  assume ok: "\<forall>m. reg_locs_ok (rd_defs a m)" "reg_locs_ok (rd_def_to_loc a)"
  then have ok1: "reg_locs_ok (rd_defs ?a1 n)" and eq: "locs_of (rd_defs ?a1 n) r = locs_of (rd_defs a n) r \<union> def_locs ops h s n r" for r
    using c(1) by (auto simp: collects_def def_locs_def)
  have "set (map Max (filter (\<lambda>S. S \<noteq> {}) (map snd (rd_defs ?a1 n)))) = {Max (locs_of (rd_defs ?a1 n) r) | r. locs_of (rd_defs ?a1 n) r \<noteq> {}}"
    by (rule max_locs [OF ok1])
  then show "rd_DB (node_defs ops h s n a) n = rd_DB a n \<union>
       {Max (locs_of (rd_defs a n) r \<union> def_locs ops h s n r) | r. locs_of (rd_defs a n) r \<union> def_locs ops h s n r \<noteq> {}}"
    using c(3) by (simp add: node_defs_eq Let_def eq)
qed

section \<open>The constructor\<close>

definition collected :: "('i, 'h) ir_ops \<Rightarrow> 'h \<Rightarrow> 'i store \<Rightarrow> nat list \<Rightarrow> nat option \<Rightarrow> string list \<Rightarrow> reach_def \<Rightarrow> bool" where
  "collected ops h s ns e ps a \<longleftrightarrow>
     rd_R a = (\<lambda>_. {}) \<and>
     rd_A a = (\<lambda>n. if Some n = e then (\<Union>r. param_locs (- 1) ps r) else {}) \<and>
     (\<forall>n r. locs_of (rd_defs a n) r =
        (if n \<in> set ns then def_locs ops h s n r else {}) \<union> (if Some n = e then param_locs (- 1) ps r else {})) \<and>
     (\<forall>r. locs_of (rd_def_to_loc a) r =
        (\<Union>n \<in> set ns. def_locs ops h s n r) \<union> (if e = None then {} else param_locs (- 1) ps r)) \<and>
     (\<forall>n. rd_DB a n = (if n \<in> set ns then {Max (def_locs ops h s n r) | r. def_locs ops h s n r \<noteq> {}} else {})) \<and>
     (\<forall>n. reg_locs_ok (rd_defs a n)) \<and> reg_locs_ok (rd_def_to_loc a)"

lemma collected_start:
  "collected ops h s [] e ps (case e of None \<Rightarrow> no_defs | Some e \<Rightarrow> seed_params e (- 1) ps no_defs)"
proof (cases e)
  case None
  then show ?thesis by (simp add: collected_def no_defs_def)
next
  case (Some e')
  have "collects no_defs (seed_params e' (- 1) ps no_defs) e' (param_locs (- 1) ps)" by (rule collects_seed)
  with Some show ?thesis
    by (auto simp: collected_def collects_def no_defs_def seed_sets fun_eq_iff)
qed

lemma collected_node:
  assumes "collected ops h s ns e ps a" "n \<notin> set ns" "Some n \<noteq> e"
  shows "collected ops h s (ns @ [n]) e ps (node_defs ops h s n a)"
proof -
  note c = node_defs_facts [where a = a and ops = ops and h = h and s = s and n = n]
  have ok: "\<forall>m. reg_locs_ok (rd_defs a m)" "reg_locs_ok (rd_def_to_loc a)" and none: "\<And>r. locs_of (rd_defs a n) r = {}"
    and db: "rd_DB a n = {}"
    using assms by (simp_all add: collected_def)
  have here: "rd_DB (node_defs ops h s n a) n = {Max (def_locs ops h s n r) | r. def_locs ops h s n r \<noteq> {}}"
    using c(4) [OF ok] none db by simp
  have "rd_DB (node_defs ops h s n a) m =
      (if m \<in> set (ns @ [n]) then {Max (def_locs ops h s m r) | r. def_locs ops h s m r \<noteq> {}} else {})" for m
    using c(3) [of m] here assms by (cases "m = n") (auto simp: collected_def)
  moreover have "locs_of (rd_defs (node_defs ops h s n a) m) r =
      (if m \<in> set (ns @ [n]) then def_locs ops h s m r else {}) \<union> (if Some m = e then param_locs (- 1) ps r else {})" for m r
    using c(1) assms by (cases "m = n") (auto simp: collects_def collected_def)
  moreover have "locs_of (rd_def_to_loc (node_defs ops h s n a)) r =
      (\<Union>n \<in> set (ns @ [n]). def_locs ops h s n r) \<union> (if e = None then {} else param_locs (- 1) ps r)" for r
    using c(1) assms(1) by (auto simp: collects_def collected_def)
  moreover have "rd_R (node_defs ops h s n a) = (\<lambda>_. {})" "rd_A (node_defs ops h s n a) = rd_A a"
    using c(1,2) assms(1) by (simp_all add: collects_def collected_def)
  moreover have "(\<forall>m. reg_locs_ok (rd_defs (node_defs ops h s n a) m)) \<and> reg_locs_ok (rd_def_to_loc (node_defs ops h s n a))"
    using c(1) ok unfolding collects_def by blast
  moreover have "rd_A a = (\<lambda>n. if Some n = e then (\<Union>r. param_locs (- 1) ps r) else {})"
    using assms(1) by (simp add: collected_def)
  ultimately show ?thesis unfolding collected_def by simp
qed

lemma BasicReachDef_collected:
  assumes "distinct (g_rpo g)" "\<And>e. g_entry g = Some e \<Longrightarrow> e \<notin> set (g_rpo g)"
  shows "collected ops h s (g_rpo g) (g_entry g) ps (BasicReachDef ops h s g ps)"
proof -
  have "collected ops h s (ns @ ms) e ps (fold (node_defs ops h s) ms a)"
    if "collected ops h s ns e ps a" "distinct (ns @ ms)" "\<forall>m \<in> set ms. Some m \<noteq> e" for ns ms e a
    using that
  proof (induction ms arbitrary: ns a)
    case (Cons m ms)
    have "collected ops h s (ns @ [m]) e ps (node_defs ops h s m a)"
      using Cons.prems by (intro collected_node) auto
    from Cons.IH [OF this] Cons.prems(2,3) show ?case by simp
  qed simp
  moreover have "\<forall>m \<in> set (g_rpo g). Some m \<noteq> g_entry g" using assms(2) by metis
  ultimately show ?thesis
    using collected_start [of ops h s "g_entry g" ps] assms(1) unfolding BasicReachDef_def by (metis append_Nil)
qed

end
