(* ===== verification/Dataflow_Chains.thy ===== *)
theory Dataflow_Chains
  imports Dataflow_Reach Dataflow_Defs
begin

text \<open>
  The reaching definitions and the def-use chains against their definition on the graph:
  \<open>def_reaches\<close> follows the value of a register from the instruction that writes it along the edges
  until a node that writes the register again. The analysis runs on the graph with the two dummy
  nodes; what it answers is about the graph without them, which it gives back.
\<close>

section \<open>The definitions that reach a node\<close>

inductive def_reaches ::
    "('i, 'h) ir_ops \<Rightarrow> 'h \<Rightarrow> 'i store \<Rightarrow> 'i graph \<Rightarrow> string list \<Rightarrow> string \<Rightarrow> int \<Rightarrow> nat \<Rightarrow> bool"
  for ops h s g ps where
  param: "g_entry g = Some e \<Longrightarrow> loc \<in> param_locs (- 1) ps r \<Longrightarrow> def_reaches ops h s g ps r loc e"
| last: "p \<in> set (g_rpo g) \<Longrightarrow> def_locs ops h s p r \<noteq> {} \<Longrightarrow> n \<in> set (all_sucs g p) \<Longrightarrow>
    def_reaches ops h s g ps r (Max (def_locs ops h s p r)) n"
| through: "def_reaches ops h s g ps r loc p \<Longrightarrow> def_locs ops h s p r = {} \<Longrightarrow> n \<in> set (all_sucs g p) \<Longrightarrow>
    def_reaches ops h s g ps r loc n"

text \<open>The graph as \<open>compute_rpo\<close> and \<open>number_ins\<close> leave it: one location, one instruction.\<close>

definition located :: "'i store \<Rightarrow> 'i graph \<Rightarrow> bool" where
  "located s g \<longleftrightarrow>
     graph_ok g \<and> distinct (g_rpo g) \<and> set (g_rpo g) = set (g_nodes g) \<and> (\<forall>n \<in> set (g_nodes g). n < fresh s) \<and>
     (\<forall>e. g_entry g = Some e \<longrightarrow> e \<in> set (g_nodes g)) \<and> (\<forall>x. g_exit g = Some x \<longrightarrow> x \<in> set (g_nodes g)) \<and>
     (\<forall>n \<in> set (g_rpo g). \<forall>m \<in> set (g_rpo g). \<forall>i a b.
        (i, a) \<in> set (LocWithIns s n) \<longrightarrow> (i, b) \<in> set (LocWithIns s m) \<longrightarrow> n = m \<and> a = b \<and> 0 \<le> i)"

lemma def_locs_unique:
  assumes "located s g" "n \<in> set (g_rpo g)" "m \<in> set (g_rpo g)" "loc \<in> def_locs ops h s n r" "loc \<in> def_locs ops h s m r'"
  shows "r = r'" "n = m" "0 \<le> loc"
proof -
  obtain a b where "(loc, a) \<in> set (LocWithIns s n)" "GetLhsKey ops h a = r"
    "(loc, b) \<in> set (LocWithIns s m)" "GetLhsKey ops h b = r'"
    using assms(4,5) by (auto simp: def_locs_def defs_in_def)
  with assms(1-3) show "r = r'" "n = m" "0 \<le> loc" unfolding located_def by blast+
qed

lemma def_reaches_source:
  "def_reaches ops h s g ps r loc n \<Longrightarrow>
     loc \<in> param_locs (- 1) ps r \<or> (\<exists>p \<in> set (g_rpo g). loc \<in> def_locs ops h s p r)"
proof (induction rule: def_reaches.induct)
  case (last p r n)
  then have "Max (def_locs ops h s p r) \<in> def_locs ops h s p r" by (intro Max_in) (auto simp: def_locs_of)
  with last show ?case by blast
qed auto

section \<open>The dummy nodes\<close>

lemma add_edge_sets:
  "set (all_sucs (add_edge u v g) n) = set (all_sucs g n) \<union> (if n = u then {v} else {})"
  "set (all_preds (add_edge u v g) n) = set (all_preds g n) \<union> (if n = v then {u} else {})"
  by (auto simp: add_edge_def all_sucs_def all_preds_def)

lemma add_edge_rest [simp]:
  "g_nodes (add_edge u v g) = g_nodes g" "g_rpo (add_edge u v g) = g_rpo g"
  "g_entry (add_edge u v g) = g_entry g" "g_exit (add_edge u v g) = g_exit g"
  by (simp_all add: add_edge_def)

lemma add_node_rest [simp]:
  "g_nodes (add_node n g) = g_nodes g @ [n]" "g_rpo (add_node n g) = g_rpo g" "g_entry (add_node n g) = g_entry g"
  "g_exit (add_node n g) = g_exit g" "all_sucs (add_node n g) = all_sucs g" "all_preds (add_node n g) = all_preds g"
  by (simp_all add: add_node_def all_sucs_def all_preds_def fun_eq_iff)

lemma marks_only [simp]:
  "all_sucs (g\<lparr>g_entry := e\<rparr>) = all_sucs g" "all_preds (g\<lparr>g_entry := e\<rparr>) = all_preds g"
  "graph_ok (g\<lparr>g_entry := e\<rparr>) = graph_ok g" "all_sucs (g\<lparr>g_rpo := l\<rparr>) = all_sucs g"
  "all_preds (g\<lparr>g_rpo := l\<rparr>) = all_preds g" "graph_ok (g\<lparr>g_rpo := l\<rparr>) = graph_ok g"
  by (simp_all add: all_sucs_def all_preds_def graph_ok_def fun_eq_iff)

lemma no_neighbours:
  assumes "graph_ok g" "n \<notin> set (g_nodes g)"
  shows "all_sucs g n = []" "all_preds g n = []"
  using assms graph_ok_nodes [OF assms(1)] graph_ok_preds [OF assms(1)]
  by (metis all_not_in_conv set_empty)+

text \<open>A node in front of the entry, and one behind a node \<open>x\<close>.\<close>

definition front :: "nat \<Rightarrow> 'i graph \<Rightarrow> 'i graph" where
  "front d g = (case g_entry g of None \<Rightarrow> add_node d g | Some e \<Rightarrow> add_edge d e (add_node d g))\<lparr>g_entry := Some d\<rparr>"

definition behind :: "nat \<Rightarrow> nat \<Rightarrow> 'i graph \<Rightarrow> 'i graph" where
  "behind x d g = (add_edge x d (add_node d g))\<lparr>g_rpo := g_rpo g @ [d]\<rparr>"

lemma front_node_facts:
  assumes "graph_ok g" "d \<notin> set (g_nodes g)" "\<And>e. g_entry g = Some e \<Longrightarrow> e \<in> set (g_nodes g)"
  shows "graph_ok (front d g)" "g_nodes (front d g) = g_nodes g @ [d]" "g_rpo (front d g) = g_rpo g"
    "g_exit (front d g) = g_exit g" "g_entry (front d g) = Some d"
    "set (all_preds (front d g) n) = set (all_preds g n) \<union> (if g_entry g = Some n then {d} else {})"
    "set (all_sucs (front d g) n) = set (all_sucs g n) \<union> (if n = d then set_option (g_entry g) else {})"
proof -
  have "graph_ok (add_node d g)" using assms(1,2) by (rule graph_ok_add_node)
  then show "graph_ok (front d g)"
    using assms(3) by (auto simp: front_def split: option.split intro!: graph_ok_add_edge)
qed (auto simp: front_def add_edge_sets split: option.split)

lemma behind_node_facts:
  assumes "graph_ok g" "d \<notin> set (g_nodes g)" "x \<in> set (g_nodes g)"
  shows "graph_ok (behind x d g)" "g_nodes (behind x d g) = g_nodes g @ [d]" "g_rpo (behind x d g) = g_rpo g @ [d]"
    "g_exit (behind x d g) = g_exit g" "g_entry (behind x d g) = g_entry g"
    "set (all_preds (behind x d g) n) = set (all_preds g n) \<union> (if n = d then {x} else {})"
    "set (all_sucs (behind x d g) n) = set (all_sucs g n) \<union> (if n = x then {d} else {})"
proof -
  have "graph_ok (add_node d g)" using assms(1,2) by (rule graph_ok_add_node)
  then show "graph_ok (behind x d g)" using assms(3) by (simp add: behind_def graph_ok_add_edge)
qed (auto simp: behind_def add_edge_sets)

lemma with_dummies_eq:
  "with_dummies s g =
     (let s1 = s\<lparr>heap := (heap s)(fresh s := new_block DummyNode NoType ''entry'' []), fresh := Suc (fresh s)\<rparr>
      in case g_exit g of
           None \<Rightarrow> (fresh s, None, s1, front (fresh s) g)
         | Some x \<Rightarrow> (fresh s, Some (Suc (fresh s)),
             s1\<lparr>heap := (heap s1)(Suc (fresh s) := new_block DummyNode NoType ''exit'' []), fresh := Suc (Suc (fresh s))\<rparr>,
             behind x (Suc (fresh s)) (front (fresh s) g)))"
  by (auto simp: with_dummies_def alloc_def front_def behind_def Let_def add_edge_def add_node_def split: option.splits)

text \<open>What \<open>with_dummies\<close> adds: \<open>d\<close> before the entry, \<open>d'\<close> behind the exit.\<close>

lemma with_dummies_facts:
  assumes "located s g" "with_dummies s g = (d, d', s', g')"
  shows "graph_ok g'" "g_entry g' = Some d" "d \<notin> set (g_nodes g)"
    "g_rpo g' = g_rpo g @ (case d' of None \<Rightarrow> [] | Some x \<Rightarrow> [x])"
    "g_nodes g' = g_nodes g @ d # (case d' of None \<Rightarrow> [] | Some x \<Rightarrow> [x])"
    "\<And>x. d' = Some x \<Longrightarrow> x \<notin> set (g_nodes g) \<and> x \<noteq> d \<and> LocWithIns s' x = [] \<and> all_sucs g' x = []"
    "LocWithIns s' d = []" "\<And>n. n \<in> set (g_nodes g) \<Longrightarrow> heap s' n = heap s n"
    "\<And>n. n \<in> set (g_nodes g) \<Longrightarrow> set (all_preds g' n) = set (all_preds g n) \<union> (if g_entry g = Some n then {d} else {})"
    "\<And>n. n \<in> set (g_nodes g) \<Longrightarrow> set (all_sucs g' n) = set (all_sucs g n) \<union> (if g_exit g = Some n then set_option d' else {})"
    "set (all_preds g' d) = {}"
proof -
  let ?d = "fresh s" and ?d' = "Suc (fresh s)"
  define s1 where "s1 = s\<lparr>heap := (heap s)(?d := new_block DummyNode NoType ''entry'' []), fresh := ?d'\<rparr>"
  note L = assms(1) [unfolded located_def]
  have new: "?d \<notin> set (g_nodes g)" "?d' \<notin> set (g_nodes g)" using L by (auto dest: Suc_lessD)
  have ok: "graph_ok g" and entry: "\<And>e. g_entry g = Some e \<Longrightarrow> e \<in> set (g_nodes g)"
    and exit: "\<And>x. g_exit g = Some x \<Longrightarrow> x \<in> set (g_nodes g)" and old: "\<And>n. n \<in> set (g_nodes g) \<Longrightarrow> n < ?d"
    using L by auto
  note F = front_node_facts [OF ok new(1) entry]
  note none = no_neighbours [OF ok new(1)] no_neighbours [OF ok new(2)]
  have dummy: "LocWithIns t n = []" if "heap t n = new_block DummyNode NoType nm []" for t :: "'a store" and n nm
    using that by (simp add: LocWithIns_def new_block_def is_BasicBlock_def)
  have cases: "(g_exit g = None \<and> d' = None \<and> s' = s1 \<and> g' = front ?d g) \<or>
      (\<exists>x. g_exit g = Some x \<and> d' = Some ?d' \<and>
        s' = s1\<lparr>heap := (heap s1)(?d' := new_block DummyNode NoType ''exit'' []), fresh := Suc ?d'\<rparr> \<and>
        g' = behind x ?d' (front ?d g))" and d: "d = ?d"
    using assms(2) unfolding with_dummies_eq s1_def by (auto simp: Let_def split: option.splits)
  have new': "?d' \<notin> set (g_nodes (front ?d g))" using new F(2) by simp
  have B: "graph_ok (behind x ?d' (front ?d g)) \<and> x \<noteq> ?d" if "g_exit g = Some x" for x
    using behind_node_facts(1) [OF F(1) new', of x] exit [OF that] new(1) by (auto simp: F(2))
  show "graph_ok g'" using cases F(1) B by auto
  show "g_entry g' = Some d" "d \<notin> set (g_nodes g)" using cases F(5) new(1) d by (auto simp: behind_def)
  show "g_rpo g' = g_rpo g @ (case d' of None \<Rightarrow> [] | Some x \<Rightarrow> [x])"
    "g_nodes g' = g_nodes g @ d # (case d' of None \<Rightarrow> [] | Some x \<Rightarrow> [x])"
    using cases F(2,3) d by (auto simp: behind_def)
  have sets: "all_preds (behind x ?d' (front ?d g)) = all_preds (add_edge x ?d' (front ?d g))"
    "all_sucs (behind x ?d' (front ?d g)) = all_sucs (add_edge x ?d' (front ?d g))" for x
    by (simp_all add: behind_def all_preds_def all_sucs_def add_edge_def add_node_def fun_eq_iff)
  have preds: "set (all_preds g' n) = set (all_preds g n) \<union> (if g_entry g = Some n then {?d} else {})
      \<union> (if Some n = d' then set_option (g_exit g) else {})" for n
    using cases by (elim disjE exE conjE) (simp_all add: sets add_edge_sets F(6))
  have sucs: "set (all_sucs g' n) = set (all_sucs g n) \<union> (if n = ?d then set_option (g_entry g) else {})
      \<union> (if g_exit g = Some n then set_option d' else {})" for n
    using cases by (elim disjE exE conjE) (simp_all add: sets add_edge_sets F(7))
  show "x \<notin> set (g_nodes g) \<and> x \<noteq> d \<and> LocWithIns s' x = [] \<and> all_sucs g' x = []" if x: "d' = Some x" for x
  proof -
    have x': "x = ?d'" using cases x by auto
    have "heap s' x = new_block DummyNode NoType ''exit'' []" using cases x by auto
    moreover have "set (all_sucs g' x) = {}" unfolding sucs using none(3) x' exit new(2) by auto
    ultimately show ?thesis using x' new d dummy by auto
  qed
  have "heap s' d = new_block DummyNode NoType ''entry'' []" using cases d by (auto simp: s1_def)
  then show "LocWithIns s' d = []" by (rule dummy)
  show "heap s' n = heap s n" if "n \<in> set (g_nodes g)" for n
    using cases old [OF that] by (auto simp: s1_def)
  show "set (all_preds g' n) = set (all_preds g n) \<union> (if g_entry g = Some n then {d} else {})" if "n \<in> set (g_nodes g)" for n
    using preds [of n] cases that new d by auto
  show "set (all_sucs g' n) = set (all_sucs g n) \<union> (if g_exit g = Some n then set_option d' else {})" if "n \<in> set (g_nodes g)" for n
    using sucs [of n] that new by auto
  have "d' \<noteq> Some ?d" "g_entry g \<noteq> Some ?d" using cases entry new by auto
  then show "set (all_preds g' d) = {}" using preds [of ?d] none(2) d by auto
qed

section \<open>The flow is the reaching definitions\<close>

definition known_locs :: "('i, 'h) ir_ops \<Rightarrow> 'h \<Rightarrow> 'i store \<Rightarrow> 'i graph \<Rightarrow> string list \<Rightarrow> string \<Rightarrow> int set" where
  "known_locs ops h s g ps r = param_locs (- 1) ps r \<union> (\<Union>p \<in> set (g_rpo g). def_locs ops h s p r)"

lemma known_locs_unique:
  assumes "located s g" "loc \<in> known_locs ops h s g ps r" "loc \<in> known_locs ops h s g ps r'"
  shows "r = r'"
proof -
  have neg: "loc < 0" if "loc \<in> param_locs (- 1) ps q" for q using that by (rule param_locs_neg)
  have pos: "0 \<le> loc" if "p \<in> set (g_rpo g)" "loc \<in> def_locs ops h s p q" for p q
    using def_locs_unique(3) [OF assms(1) that(1) that(1) that(2) that(2)] .
  show ?thesis
  proof (cases "loc < 0")
    case True
    then have "loc \<in> param_locs (- 1) ps r" "loc \<in> param_locs (- 1) ps r'"
      using assms(2,3) pos by (auto simp: known_locs_def dest!: leD)
    then show ?thesis by (rule param_locs_unique)
  next
    case False
    then have no: "loc \<notin> param_locs (- 1) ps q" for q using neg [of q] by blast
    obtain p p' where p: "p \<in> set (g_rpo g)" "p' \<in> set (g_rpo g)" "loc \<in> def_locs ops h s p r" "loc \<in> def_locs ops h s p' r'"
      using assms(2,3) no [of r] no [of r'] by (auto simp only: known_locs_def Un_iff UN_iff)
    show ?thesis by (rule def_locs_unique(1) [OF assms(1) p])
  qed
qed

lemma def_reaches_known: "def_reaches ops h s g ps r loc n \<Longrightarrow> loc \<in> known_locs ops h s g ps r"
  using def_reaches_source by (fastforce simp: known_locs_def)

lemma def_reaches_node:
  "def_reaches ops h s g ps r loc n \<Longrightarrow> located s g \<Longrightarrow> n \<in> set (g_nodes g)"
  by (induction rule: def_reaches.induct) (auto simp: located_def dest: graph_ok_nodes)

lemma start_facts:
  assumes "located s g" "with_dummies s g = (d, d', s', g')" and a_def: "a = BasicReachDef ops h s' g' ps"
  shows "rd_A a n = (if n = d then (\<Union>r. param_locs (- 1) ps r) else {})" "rd_R a n = {}"
    "locs_of (rd_def_to_loc a) r = known_locs ops h s g ps r"
    "n \<in> set (g_nodes g) \<Longrightarrow> locs_of (rd_defs a n) r = def_locs ops h s n r"
    "n \<in> set (g_nodes g) \<Longrightarrow> rd_DB a n = {Max (def_locs ops h s n r) | r. def_locs ops h s n r \<noteq> {}}"
    "n \<in> set (g_rpo g') \<Longrightarrow> n \<notin> set (g_nodes g) \<Longrightarrow> rd_DB a n = {}"
    "n \<in> set (g_nodes g) \<Longrightarrow> killed_locs a n = (\<Union>r \<in> {r. def_locs ops h s n r \<noteq> {}}. known_locs ops h s g ps r)"
    "reg_locs_ok (rd_def_to_loc a)"
proof -
  note W = with_dummies_facts [OF assms(1,2)]
  have rpo: "set (g_rpo g) = set (g_nodes g)" "distinct (g_rpo g)" using assms(1) by (auto simp: located_def)
  have "distinct (g_rpo g')" using rpo W(3,4,6) by (cases d') auto
  moreover have d: "d \<notin> set (g_rpo g')" using rpo W(3,4,6) by (cases d') auto
  ultimately have c: "collected ops h s' (g_rpo g') (Some d) ps a"
    unfolding a_def W(2) [symmetric] using W(2) by (intro BasicReachDef_collected) auto
  have old: "def_locs ops h s' m q = def_locs ops h s m q" if "m \<in> set (g_nodes g)" for m q
    using W(8) [OF that] by (simp add: def_locs_def LocWithIns_def)
  have dummy: "def_locs ops h s' m q = {}" if "m \<in> set (g_rpo g')" "m \<notin> set (g_nodes g)" for m q
    using that W(4,6) rpo by (cases d') (auto simp: def_locs_def)
  have sub: "set (g_nodes g) \<subseteq> set (g_rpo g')" using W(4) rpo by auto
  have "rd_R a = (\<lambda>_. {})" "rd_A a = (\<lambda>n. if Some n = Some d then (\<Union>r. param_locs (- 1) ps r) else {})"
    using c unfolding collected_def by blast+
  then show "rd_A a n = (if n = d then (\<Union>r. param_locs (- 1) ps r) else {})" "rd_R a n = {}" by simp_all
  have "(\<Union>m \<in> set (g_rpo g'). def_locs ops h s' m r) = (\<Union>p \<in> set (g_rpo g). def_locs ops h s p r)" for r
  proof -
    have "(\<Union>m \<in> set (g_rpo g'). def_locs ops h s' m r) = (\<Union>m \<in> set (g_rpo g'). if m \<in> set (g_nodes g) then def_locs ops h s m r else {})"
      by (intro SUP_cong refl) (simp add: old dummy)
    then show ?thesis using sub unfolding rpo(1) by auto
  qed
  moreover have "locs_of (rd_def_to_loc a) r = (\<Union>m \<in> set (g_rpo g'). def_locs ops h s' m r) \<union> param_locs (- 1) ps r" for r
    using c unfolding collected_def by simp
  ultimately show known: "locs_of (rd_def_to_loc a) r = known_locs ops h s g ps r" for r
    unfolding known_locs_def by (simp add: Un_commute)
  have c_defs: "locs_of (rd_defs a n) r = (if n \<in> set (g_rpo g') then def_locs ops h s' n r else {}) \<union>
      (if n = d then param_locs (- 1) ps r else {})" for n r
    using c unfolding collected_def option.inject by (elim conjE) (erule allE, erule allE, assumption)
  have c_db: "rd_DB a n = (if n \<in> set (g_rpo g') then {Max (def_locs ops h s' n r) | r. def_locs ops h s' n r \<noteq> {}} else {})" for n
    using c unfolding collected_def by blast
  have inside: "n \<in> set (g_rpo g')" "n \<noteq> d" if "n \<in> set (g_nodes g)" for n using that sub W(3) by auto
  show defs: "locs_of (rd_defs a n) r = def_locs ops h s n r" if "n \<in> set (g_nodes g)" for r
    using c_defs [of n r] inside [OF that] old [OF that] by simp
  show "rd_DB a n = {Max (def_locs ops h s n r) | r. def_locs ops h s n r \<noteq> {}}" if "n \<in> set (g_nodes g)"
    using c_db [of n] inside [OF that] old [OF that] by simp
  show "rd_DB a n = {}" if "n \<in> set (g_rpo g')" "n \<notin> set (g_nodes g)"
    using c_db [of n] dummy [OF that] by simp
  show "killed_locs a n = (\<Union>r \<in> {r. def_locs ops h s n r \<noteq> {}}. known_locs ops h s g ps r)" if "n \<in> set (g_nodes g)"
  proof -
    have "reg_locs_ok (rd_defs a n)" using c unfolding collected_def by blast
    from keys_of [OF this] show ?thesis by (simp add: killed_locs_def known defs [OF that])
  qed
  show "reg_locs_ok (rd_def_to_loc a)" using c unfolding collected_def by blast
qed

lemma flow_reaches:
  assumes "located s g" "with_dummies s g = (d, d', s', g')" and a_def: "a = BasicReachDef ops h s' g' ps"
    and "n \<in> set (g_nodes g)"
  shows "flow_in g' a (set (g_rpo g')) loc n \<longleftrightarrow> (\<exists>r. def_reaches ops h s g ps r loc n)"
proof
  note W = with_dummies_facts [OF assms(1,2)]
  note S = start_facts [OF assms(1-3)]
  have rpo: "set (g_rpo g) = set (g_nodes g)" and ok: "graph_ok g" using assms(1) by (auto simp: located_def)
  have P: "n \<in> set (g_rpo g')" if "n \<in> set (g_nodes g)" for n using that W(4) rpo by auto
  have d: "d \<notin> set (g_rpo g')" using rpo W(3,4,6) by (cases d') auto
  have survives: "loc \<notin> killed_locs a n \<longleftrightarrow> def_locs ops h s n r = {}"
    if "def_reaches ops h s g ps r loc n" "n \<in> set (g_nodes g)" for r loc n
  proof -
    have "loc \<in> known_locs ops h s g ps q \<longleftrightarrow> q = r" for q
      using def_reaches_known [OF that(1)] known_locs_unique [OF assms(1)] by metis
    then show ?thesis using S(7) [OF that(2)] by auto
  qed
  define out where "out = (\<lambda>loc n. if n = d then (\<exists>r. loc \<in> param_locs (- 1) ps r)
      else n \<in> set (g_nodes g) \<longrightarrow>
        (\<exists>r. def_locs ops h s n r \<noteq> {} \<and> loc = Max (def_locs ops h s n r)) \<or>
        (\<exists>r. def_reaches ops h s g ps r loc n \<and> def_locs ops h s n r = {}))"
  have "(flow_in g' a (set (g_rpo g')) loc n \<longrightarrow> n \<in> set (g_nodes g) \<longrightarrow> (\<exists>r. def_reaches ops h s g ps r loc n)) \<and>
      (flow_out g' a (set (g_rpo g')) loc n \<longrightarrow> out loc n)" for loc n
  proof (induction rule: flow_in_flow_out.induct)
    case (pred loc p n)
    show ?case
    proof
      assume n: "n \<in> set (g_nodes g)"
      from pred(3) W(9) [OF n] consider "p \<in> set (all_preds g n)" | "p = d" "g_entry g = Some n"
        by (auto split: if_splits)
      then show "\<exists>r. def_reaches ops h s g ps r loc n"
      proof cases
        case 1
        then have suc: "n \<in> set (all_sucs g p)" and p: "p \<in> set (g_nodes g)"
          using graph_ok_preds [OF ok] graph_ok_nodes [OF ok] by blast+
        then have "p \<noteq> d" using W(3) by blast
        with pred(2) p consider r where "def_locs ops h s p r \<noteq> {}" "loc = Max (def_locs ops h s p r)"
          | r where "def_reaches ops h s g ps r loc p" "def_locs ops h s p r = {}"
          unfolding out_def by auto
        then show ?thesis using p suc unfolding rpo [symmetric] by cases (blast intro: def_reaches.intros)+
      next
        case 2
        with pred(2) show ?thesis unfolding out_def by (auto intro: def_reaches.param)
      qed
    qed
  next
    case (seed loc n)
    then show ?case unfolding S(1) out_def by (auto split: if_splits)
  next
    case (gen loc n)
    then show ?case using S(5,6) [of n] d unfolding out_def by (cases "n \<in> set (g_nodes g)") auto
  next
    case (pass loc n)
    have "n \<noteq> d" using flow_in_inside [OF pass(1)] d by blast
    moreover have "(\<exists>r. def_reaches ops h s g ps r loc n \<and> def_locs ops h s n r = {})" if "n \<in> set (g_nodes g)"
      using pass(2,3) that survives by blast
    ultimately show ?case by (simp add: out_def)
  qed
  then show "flow_in g' a (set (g_rpo g')) loc n \<Longrightarrow> \<exists>r. def_reaches ops h s g ps r loc n" using assms(4) by blast
  assume "\<exists>r. def_reaches ops h s g ps r loc n"
  then obtain r where "def_reaches ops h s g ps r loc n" ..
  then show "flow_in g' a (set (g_rpo g')) loc n"
  proof (induction rule: def_reaches.induct)
    case (param e loc r)
    then have e: "e \<in> set (g_nodes g)" using assms(1) by (simp add: located_def)
    have "flow_out g' a (set (g_rpo g')) loc d"
      using param(2) d by (intro flow_in_flow_out.seed) (auto simp: S(1))
    moreover have "d \<in> set (all_preds g' e)" using W(9) [OF e] param(1) by simp
    ultimately show ?case using P [OF e] by (rule flow_in_flow_out.pred)
  next
    case (last p r n)
    then have p: "p \<in> set (g_nodes g)" and n: "n \<in> set (g_nodes g)" using rpo graph_ok_nodes [OF ok] by blast+
    have "Max (def_locs ops h s p r) \<in> rd_DB a p" using S(5) [OF p] last(2) by blast
    then have "flow_out g' a (set (g_rpo g')) (Max (def_locs ops h s p r)) p" using P [OF p] by (rule flow_in_flow_out.gen)
    moreover have "p \<in> set (all_preds g' n)" using W(9) [OF n] last(3) graph_ok_preds [OF ok] by blast
    ultimately show ?case using P [OF n] by (rule flow_in_flow_out.pred)
  next
    case (through r loc p n)
    then have p: "p \<in> set (g_nodes g)" and n: "n \<in> set (g_nodes g)" using graph_ok_nodes [OF ok] by blast+
    have "flow_out g' a (set (g_rpo g')) loc p"
      using through(2-4) survives [OF through(1) p] by (intro flow_in_flow_out.pass) auto
    moreover have "p \<in> set (all_preds g' n)" using W(9) [OF n] through graph_ok_preds [OF ok] by blast
    ultimately show ?case using P [OF n] by (rule flow_in_flow_out.pred)
  qed
qed

section \<open>The graph is given back\<close>

definition same_graph :: "'i graph \<Rightarrow> 'i graph \<Rightarrow> bool" where
  "same_graph g h \<longleftrightarrow>
     (\<forall>k. GetOrEmpty (g_edges h) k = GetOrEmpty (g_edges g) k \<and>
        GetOrEmpty (g_reverse_edges h) k = GetOrEmpty (g_reverse_edges g) k \<and>
        GetOrEmpty (g_catch_edges h) k = GetOrEmpty (g_catch_edges g) k \<and>
        GetOrEmpty (g_reverse_catch_edges h) k = GetOrEmpty (g_reverse_catch_edges g) k) \<and>
     g_nodes h = g_nodes g \<and> g_rpo h = g_rpo g \<and> g_entry h = g_entry g \<and> g_exit h = g_exit g \<and>
     g_loc_to_ins h = g_loc_to_ins g \<and> g_loc_to_node h = g_loc_to_node g"

lemma same_graph_nodes:
  assumes "same_graph g h"
  shows "all_sucs h = all_sucs g" "all_preds h = all_preds g" "sucs h = sucs g"
  using assms by (simp_all add: same_graph_def all_sucs_def all_preds_def sucs_def fun_eq_iff)

lemma isolated:
  assumes "graph_ok g" "n \<notin> set (g_nodes g)"
  shows "GetOrEmpty (g_edges g) n = []" "GetOrEmpty (g_catch_edges g) n = []"
    "GetOrEmpty (g_reverse_edges g) n = []" "GetOrEmpty (g_reverse_catch_edges g) n = []"
    "n \<notin> set (GetOrEmpty (g_edges g) k)" "n \<notin> set (GetOrEmpty (g_catch_edges g) k)"
    "n \<notin> set (GetOrEmpty (g_reverse_edges g) k)" "n \<notin> set (GetOrEmpty (g_reverse_catch_edges g) k)"
proof -
  show "GetOrEmpty (g_edges g) n = []" "GetOrEmpty (g_catch_edges g) n = []"
    "GetOrEmpty (g_reverse_edges g) n = []" "GetOrEmpty (g_reverse_catch_edges g) n = []"
    using no_neighbours [OF assms] by (simp_all add: all_sucs_def all_preds_def)
  have "n \<notin> set (all_sucs g k)" "n \<notin> set (all_preds g k)"
    using assms graph_ok_nodes [OF assms(1)] graph_ok_preds [OF assms(1)] by blast+
  then show "n \<notin> set (GetOrEmpty (g_edges g) k)" "n \<notin> set (GetOrEmpty (g_catch_edges g) k)"
    "n \<notin> set (GetOrEmpty (g_reverse_edges g) k)" "n \<notin> set (GetOrEmpty (g_reverse_catch_edges g) k)"
    by (simp_all add: all_sucs_def all_preds_def)
qed

lemma filter_absent: "n \<notin> set l \<Longrightarrow> filter (\<lambda>x. x \<noteq> n) l = l"
  by (simp add: filter_id_conv) blast

lemma remove_node_rest [simp]:
  "g_rpo (remove_node n g) = remove1 n (g_rpo g)" "g_entry (remove_node n g) = g_entry g" "g_exit (remove_node n g) = g_exit g"
  "g_loc_to_ins (remove_node n g) = g_loc_to_ins g" "g_loc_to_node (remove_node n g) = g_loc_to_node g"
  by (simp_all add: remove_node_def Let_def)

text \<open>The tables with the dummy nodes in them, and what is left when they are removed.\<close>

lemma front_behind_rest [simp]:
  "g_catch_edges (front d g) = g_catch_edges g" "g_reverse_catch_edges (front d g) = g_reverse_catch_edges g"
  "g_loc_to_ins (front d g) = g_loc_to_ins g" "g_loc_to_node (front d g) = g_loc_to_node g"
  "g_catch_edges (behind x d g) = g_catch_edges g" "g_reverse_catch_edges (behind x d g) = g_reverse_catch_edges g"
  "g_loc_to_ins (behind x d g) = g_loc_to_ins g" "g_loc_to_node (behind x d g) = g_loc_to_node g"
  by (auto simp: front_def behind_def add_edge_def add_node_def split: option.split)

lemma front_tables:
  assumes "graph_ok g" "d \<notin> set (g_nodes g)" "k \<noteq> d"
  shows "GetOrEmpty (g_edges (front d g)) k = GetOrEmpty (g_edges g) k"
    "GetOrEmpty (g_reverse_edges (front d g)) k = GetOrEmpty (g_reverse_edges g) k @ (if g_entry g = Some k then [d] else [])"
  using assms isolated [OF assms(1,2)] by (auto simp: front_def add_edge_def add_node_def split: option.split)

lemma behind_tables:
  assumes "graph_ok g" "d \<notin> set (g_nodes g)" "k \<noteq> d"
  shows "GetOrEmpty (g_edges (behind x d g)) k = GetOrEmpty (g_edges g) k @ (if x = k then [d] else [])"
    "GetOrEmpty (g_reverse_edges (behind x d g)) k = GetOrEmpty (g_reverse_edges g) k"
  using assms isolated [OF assms(1,2)] by (auto simp: behind_def add_edge_def add_node_def)

lemma remove_front:
  assumes "graph_ok g" "d \<notin> set (g_nodes g)" "d \<notin> set (g_rpo g)" "\<And>e. g_entry g = Some e \<Longrightarrow> e \<in> set (g_nodes g)"
  shows "same_graph g ((remove_node d (front d g))\<lparr>g_entry := g_entry g\<rparr>)"
proof -
  note F = front_node_facts [OF assms(1,2,4)]
  note T = remove_node_tables [OF F(1)]
  note iso = isolated [OF assms(1,2)]
  have "GetOrEmpty (g_edges (remove_node d (front d g))) k = GetOrEmpty (g_edges g) k"
    "GetOrEmpty (g_reverse_edges (remove_node d (front d g))) k = GetOrEmpty (g_reverse_edges g) k"
    "GetOrEmpty (g_catch_edges (remove_node d (front d g))) k = GetOrEmpty (g_catch_edges g) k"
    "GetOrEmpty (g_reverse_catch_edges (remove_node d (front d g))) k = GetOrEmpty (g_reverse_catch_edges g) k" for k
    using iso by (cases "k = d"; simp add: T without_def front_tables [OF assms(1,2)] filter_absent)+
  then show ?thesis
    using assms(2,3) F(2-4)
    by (simp add: same_graph_def remove1_append remove1_idem)
qed

lemma drop_both:
  assumes "d \<notin> set l" "d' \<notin> set l"
  shows "filter (\<lambda>x. x \<noteq> d') (filter (\<lambda>x. x \<noteq> d) l) = l"
    "filter (\<lambda>x. x \<noteq> d') (filter (\<lambda>x. x \<noteq> d) (l @ (if b then [d] else []))) = l"
    "filter (\<lambda>x. x \<noteq> d') (filter (\<lambda>x. x \<noteq> d) (l @ (if b then [d'] else []))) = l"
proof -
  have *: "filter (\<lambda>x. x \<noteq> d') (filter (\<lambda>x. x \<noteq> d) l) = l" unfolding filter_absent [OF assms(1)] by (rule filter_absent [OF assms(2)])
  show "filter (\<lambda>x. x \<noteq> d') (filter (\<lambda>x. x \<noteq> d) l) = l" by (rule *)
  show "filter (\<lambda>x. x \<noteq> d') (filter (\<lambda>x. x \<noteq> d) (l @ (if b then [d] else []))) = l"
    "filter (\<lambda>x. x \<noteq> d') (filter (\<lambda>x. x \<noteq> d) (l @ (if b then [d'] else []))) = l"
    unfolding filter_append * by (cases b; simp)+
qed

lemma remove_both:
  assumes "graph_ok g" "d \<notin> set (g_nodes g)" "d \<notin> set (g_rpo g)" "\<And>e. g_entry g = Some e \<Longrightarrow> e \<in> set (g_nodes g)"
    and "d' \<notin> set (g_nodes g)" "d' \<notin> set (g_rpo g)" "d' \<noteq> d" "x \<in> set (g_nodes g)"
  shows "same_graph g ((remove_node d' (remove_node d (behind x d' (front d g))))\<lparr>g_entry := g_entry g\<rparr>)"
proof -
  note F = front_node_facts [OF assms(1,2,4)]
  have d': "d' \<notin> set (g_nodes (front d g))" "x \<in> set (g_nodes (front d g))" using assms(5,7,8) F(2) by auto
  have ok: "graph_ok (front d g)" by (rule F(1))
  note B = behind_node_facts [OF ok d']
  note T = remove_node_tables [OF B(1)] remove_node_tables [OF graph_ok_remove_node [OF B(1)]]
  note iso = isolated [OF assms(1,2)] isolated [OF assms(1,5)]
  let ?h = "remove_node d' (remove_node d (behind x d' (front d g)))"
  have "GetOrEmpty (g_edges ?h) k = GetOrEmpty (g_edges g) k \<and>
      GetOrEmpty (g_reverse_edges ?h) k = GetOrEmpty (g_reverse_edges g) k \<and>
      GetOrEmpty (g_catch_edges ?h) k = GetOrEmpty (g_catch_edges g) k \<and>
      GetOrEmpty (g_reverse_catch_edges ?h) k = GetOrEmpty (g_reverse_catch_edges g) k" for k
  proof (cases "k = d \<or> k = d'")
    case True
    then show ?thesis using iso by (auto simp: T without_def)
  next
    case False
    then have k: "k \<noteq> d" "k \<noteq> d'" by auto
    show ?thesis
      unfolding T without_def behind_tables [OF ok d'(1) k(2)] front_tables [OF assms(1,2) k(1)] front_behind_rest
      using k by (simp only: if_False drop_both iso not_False_eq_True assms(7) simp_thms)
  qed
  then show ?thesis
    using assms(2,3,5,6,7) F(2-4) B(2-4)
    by (simp add: same_graph_def remove1_append remove1_idem)
qed

text \<open>The analysis with its dummies: it returns, it is exact, and it leaves the graph as it was.\<close>

lemma ReachDefResult_exact:
  assumes "located s g"
  obtains a s' g' where "ReachDefResult ops h s g ps = Some (a, s', g')" "same_graph g g'"
    "\<And>n. n \<in> set (g_nodes g) \<Longrightarrow> heap s' n = heap s n"
    "\<And>n. n \<in> set (g_nodes g) \<Longrightarrow> rd_R a n = {loc. \<exists>r. def_reaches ops h s g ps r loc n}"
    "\<And>r. locs_of (rd_def_to_loc a) r = known_locs ops h s g ps r"
    "\<And>n r. n \<in> set (g_nodes g) \<Longrightarrow> locs_of (rd_defs a n) r = def_locs ops h s n r" "reg_locs_ok (rd_def_to_loc a)"
proof -
  obtain d d' s' g' where w: "with_dummies s g = (d, d', s', g')" by (metis prod_cases4)
  note W = with_dummies_facts [OF assms w]
  define a0 where "a0 = BasicReachDef ops h s' g' ps"
  note S = start_facts [OF assms w a0_def]
  have rpo: "set (g_rpo g) = set (g_nodes g)" and ok: "graph_ok g" and entry: "\<And>e. g_entry g = Some e \<Longrightarrow> e \<in> set (g_nodes g)"
    using assms by (auto simp: located_def)
  have P: "set (g_rpo g') = set (g_nodes g) \<union> set_option d'" using W(4) rpo by (cases d') auto
  have d: "d \<notin> set (g_rpo g')" using P W(3,6) by (cases d') auto
  have fin: "finite (rd_DB a0 n)" if "n \<in> set (g_rpo g')" for n
  proof (cases "n \<in> set (g_nodes g)")
    case True
    have "{Max (def_locs ops h s n r) | r. def_locs ops h s n r \<noteq> {}} \<subseteq> fst ` set (LocWithIns s n)"
    proof
      fix x assume "x \<in> {Max (def_locs ops h s n r) | r. def_locs ops h s n r \<noteq> {}}"
      then obtain r where "x = Max (def_locs ops h s n r)" "def_locs ops h s n r \<noteq> {}" by blast
      then have "x \<in> def_locs ops h s n r" by (simp add: def_locs_of)
      then show "x \<in> fst ` set (LocWithIns s n)" by (auto simp: def_locs_of defs_in_def)
    qed
    then show ?thesis unfolding S(5) [OF True] by (rule finite_subset) simp
  qed (simp add: S(6) [OF that])
  have "(\<Union>r. param_locs (- 1) ps r) \<subseteq> (\<lambda>i. - 1 - int i) ` {..<length ps}" by (auto simp: param_locs_def)
  then have "finite (\<Union>r. param_locs (- 1) ps r)" by (rule finite_subset) simp
  moreover have "sources (set (g_rpo g')) a0 \<subseteq> (\<Union>r. param_locs (- 1) ps r) \<union> (\<Union>n \<in> set (g_rpo g'). rd_DB a0 n)"
    unfolding sources_def S(1) by auto
  ultimately have src: "finite (sources (set (g_rpo g')) a0)" using fin by (auto intro: finite_subset)
  have closed: "closed_under_sucs g' (set (g_rpo g'))"
    unfolding closed_under_sucs_def
  proof
    fix n assume "n \<in> set (g_rpo g')"
    with P consider "n \<in> set (g_nodes g)" | "d' = Some n" by (auto simp: elem_set)
    then show "set (all_sucs g' n) \<subseteq> set (g_rpo g')"
    proof cases
      case 1
      then show ?thesis unfolding W(10) [OF 1] P using graph_ok_nodes [OF ok] by (auto split: if_splits)
    qed (use W(6) in simp)
  qed
  have empty: "rd_A a0 n = {} \<and> rd_R a0 n = {}" if "n \<in> set (g_rpo g')" for n using that d S(1,2) by auto
  obtain a where a: "run g' a0 = Some a" "same_defs a0 a"
    "\<And>n. n \<in> set (g_rpo g') \<Longrightarrow> rd_R a n = {loc. flow_in g' a0 (set (g_rpo g')) loc n}"
    using run_exact [OF src W(1) closed empty] by metis
  have same: "rd_def_to_loc a = rd_def_to_loc a0" "rd_defs a = rd_defs a0" using a(2) by (simp_all add: same_defs_def)
  define gb where "gb = (case d' of None \<Rightarrow> remove_node d g' | Some x \<Rightarrow> remove_node x (remove_node d g'))\<lparr>g_entry := g_entry g\<rparr>"
  have result: "ReachDefResult ops h s g ps = Some (a, s', gb)"
    using w a(1) by (simp add: ReachDefResult_def a0_def gb_def Let_def split: option.split)
  have new: "fresh s \<notin> set (g_nodes g)" "Suc (fresh s) \<notin> set (g_nodes g)"
    using assms unfolding located_def by (auto dest: Suc_lessD)
  then have restored: "same_graph g gb"
    using w remove_front [OF ok new(1) _ entry] remove_both [OF ok new(1) _ entry new(2)] assms
    by (auto simp: with_dummies_eq Let_def gb_def located_def split: option.splits)
  show thesis
  proof (rule that [OF result restored W(8)])
    show "rd_R a n = {loc. \<exists>r. def_reaches ops h s g ps r loc n}" if "n \<in> set (g_nodes g)" for n
      using a(3) [of n] flow_reaches [OF assms w a0_def that] P that by auto
  qed (simp_all add: same S)
qed

section \<open>Properties\<close>

text \<open>
  C13. The worklist of the reaching definitions empties, its answer is the set of definitions that reach
  a node along a path that does not write the register again, and the graph is given back unchanged.
\<close>

theorem reaching_definitions:
  assumes "located s g"
  shows "\<exists>a s' g'. ReachDefResult ops h s g ps = Some (a, s', g') \<and> same_graph g g' \<and>
    (\<forall>n \<in> set (g_nodes g). rd_R a n = {loc. \<exists>r. def_reaches ops h s g ps r loc n})"
  by (rule ReachDefResult_exact [OF assms, of ops h ps]) blast

end
