(* ===== verification/Dataflow_Def_Use.thy ===== *)
theory Dataflow_Def_Use
  imports Dataflow_Chains Cfg_Numbering
begin

text \<open>
  The def-use chains \<open>BuildDefUse\<close> returns: \<open>ud\<close> lists the definitions that reach a use, \<open>du\<close> is its
  converse.
\<close>

section \<open>Filling a chain\<close>

definition adds :: "(chain_map \<Rightarrow> chain_map) \<Rightarrow> (string \<times> int \<Rightarrow> int set) \<Rightarrow> bool" where
  "adds f F \<longleftrightarrow> (\<forall>m k. set (chain_at (f m) k) = set (chain_at m k) \<union> F k) \<and>
     (\<forall>m. distinct (map fst m) \<longrightarrow> distinct (map fst (f m)))"

lemma chain_at_Nil [simp]: "chain_at [] k = []"
  by (simp add: chain_at_def)

lemma chain_at_update [simp]: "chain_at (AList.update k ls m) k' = (if k' = k then ls else chain_at m k')"
  by (simp add: chain_at_def update_conv)

lemma adds_start:
  assumes "adds f F"
  shows "set (chain_at (f []) k) = F k" "distinct (map fst (f []))"
proof -
  have "set (chain_at (f []) k) = set (chain_at [] k) \<union> F k" using assms unfolding adds_def by blast
  then show "set (chain_at (f []) k) = F k" by simp
  show "distinct (map fst (f []))" using assms unfolding adds_def by fastforce
qed

lemma adds_add: "adds (chain_add k ls) (\<lambda>k'. if k' = k then set ls else {})"
  by (simp add: adds_def chain_add_def distinct_update)

lemma adds_fold:
  assumes "\<And>x. x \<in> set xs \<Longrightarrow> adds (f x) (F x)"
  shows "adds (fold f xs) (\<lambda>k. \<Union>x \<in> set xs. F x k)"
  using assms
proof (induction xs)
  case Nil
  then show ?case by (simp add: adds_def)
next
  case (Cons x xs)
  then have "adds (f x) (F x)" "adds (fold f xs) (\<lambda>k. \<Union>x \<in> set xs. F x k)" by simp_all
  then show ?case by (simp add: adds_def Un_assoc)
qed

lemma chain_mem: "distinct (map fst m) \<Longrightarrow> d \<in> set (chain_at m k) \<longleftrightarrow> (\<exists>l. (k, l) \<in> set m \<and> d \<in> set l)"
  unfolding chain_at_def
  by (auto split: option.split dest: map_of_SomeD simp: map_of_eq_None_iff map_of_is_SomeI)

definition inverted :: "(string \<times> int) \<times> int list \<Rightarrow> string \<times> int \<Rightarrow> int set" where
  "inverted e k = (case e of ((var, loc), ds) \<Rightarrow> if fst k = var \<and> snd k \<in> set ds then {loc} else {})"

lemma adds_cong: "adds f F \<Longrightarrow> (\<And>k. F k = G k) \<Longrightarrow> adds f G"
  by (simp add: adds_def)

lemma adds_invert: "adds ((\<lambda>((var, loc), ds). fold (\<lambda>d. chain_add (var, d) [loc]) ds) e) (inverted e)"
proof -
  obtain var loc ds where e: "e = ((var, loc), ds)" by (metis prod.exhaust)
  have "adds (fold (\<lambda>d. chain_add (var, d) [loc]) ds) (\<lambda>k. \<Union>d \<in> set ds. if k = (var, d) then set [loc] else {})"
    by (rule adds_fold) (rule adds_add)
  moreover have "(\<Union>d \<in> set ds. if k = (var, d) then set [loc] else {}) = inverted e k" for k
    by (cases k) (auto simp: inverted_def e split: if_splits)
  ultimately show ?thesis unfolding e prod.case by (rule adds_cong)
qed

lemma invert_chain_converse:
  assumes "distinct (map fst ud)"
  shows "i \<in> set (chain_at (invert_chain ud) (var, d)) \<longleftrightarrow> d \<in> set (chain_at ud (var, i))"
proof -
  have "adds (fold (\<lambda>((var, loc), ds). fold (\<lambda>d. chain_add (var, d) [loc]) ds) ud) (\<lambda>k. \<Union>e \<in> set ud. inverted e k)"
    by (rule adds_fold) (rule adds_invert)
  then have "i \<in> set (chain_at (invert_chain ud) (var, d)) \<longleftrightarrow> (\<exists>e \<in> set ud. i \<in> inverted e (var, d))"
    unfolding adds_def invert_chain_def by simp
  also have "\<dots> \<longleftrightarrow> (\<exists>l. ((var, i), l) \<in> set ud \<and> d \<in> set l)"
  proof -
    have "i \<in> inverted ((v, loc), l) (var, d) \<longleftrightarrow> v = var \<and> loc = i \<and> d \<in> set l" for v loc l
      by (auto simp: inverted_def)
    then have *: "i \<in> inverted e (var, d) \<longleftrightarrow> fst e = (var, i) \<and> d \<in> set (snd e)" for e
      by (cases e; cases "fst e") auto
    show ?thesis unfolding * by force
  qed
  finally show ?thesis unfolding chain_mem [OF assms] .
qed

section \<open>The uses\<close>

text \<open>The definitions of a use: the last one before it in its node, or those that reach the node.\<close>

definition reaching_use :: "('i, 'h) ir_ops \<Rightarrow> 'h \<Rightarrow> 'i store \<Rightarrow> 'i graph \<Rightarrow> string list \<Rightarrow> nat \<Rightarrow> string \<Rightarrow> int \<Rightarrow> int set" where
  "reaching_use ops h s g ps n var i =
     (let before = {d \<in> def_locs ops h s n var. d < i}
      in if before \<noteq> {} then {Max before} else {loc. def_reaches ops h s g ps var loc n})"

lemma adds_uses:
  "adds (chain_uses ops h a n p) (\<lambda>k. \<Union>var \<in> set (ir_used_vars ops h (snd p)).
     if map_of (rd_def_to_loc a) var = None \<or> k \<noteq> (var, fst p) then {} else set (use_defs a n (fst p) var))"
proof -
  obtain i ins where p: "p = (i, ins)" by (cases p)
  have "adds (\<lambda>ud. if map_of (rd_def_to_loc a) var = None then ud else chain_add (var, i) (use_defs a n i var) ud)
      (\<lambda>k. if map_of (rd_def_to_loc a) var = None \<or> k \<noteq> (var, i) then {} else set (use_defs a n i var))" for var
    using adds_add [of "(var, i)" "use_defs a n i var"] by (auto simp: adds_def)
  then show ?thesis unfolding chain_uses_def p prod.case fst_conv snd_conv by (rule adds_fold)
qed

lemma use_defs_reaching:
  assumes "located s g" "n \<in> set (g_nodes g)" "reg_locs_ok (rd_def_to_loc a)"
    and "rd_R a n = {loc. \<exists>r. def_reaches ops h s g ps r loc n}"
    and "locs_of (rd_def_to_loc a) var = known_locs ops h s g ps var"
    and "locs_of (rd_defs a n) var = def_locs ops h s n var"
  shows "set (use_defs a n i var) = reaching_use ops h s g ps n var i"
proof -
  let ?b = "{d \<in> def_locs ops h s n var. d < i}"
  have n: "n \<in> set (g_rpo g)" using assms(1,2) by (simp add: located_def)
  have pos: "0 \<le> d" if "d \<in> ?b" for d
  proof -
    have "d \<in> def_locs ops h s n var" using that by simp
    then show ?thesis using def_locs_unique(3) [OF assms(1) n n] by metis
  qed
  have fin: "finite ?b" by (simp add: def_locs_of)
  have same: "{v \<in> known_locs ops h s g ps var. v \<in> rd_R a n} = {loc. def_reaches ops h s g ps var loc n}"
    (is "?l = ?r")
  proof
    show "?r \<subseteq> ?l" unfolding assms(4) by (auto dest: def_reaches_known)
    show "?l \<subseteq> ?r"
    proof
      fix loc assume "loc \<in> ?l"
      then obtain r where r: "def_reaches ops h s g ps r loc n" and v: "loc \<in> known_locs ops h s g ps var"
        unfolding assms(4) by blast
      have "r = var" by (rule known_locs_unique [OF assms(1) def_reaches_known [OF r] v])
      with r show "loc \<in> ?r" by simp
    qed
  qed
  have "finite (known_locs ops h s g ps var)"
    using locs_of_finite [OF assms(3), of var] by (simp add: assms(5))
  then have "finite {loc. def_reaches ops h s g ps var loc n}" unfolding same [symmetric] by simp
  with same have all: "set (sorted_list_of_set {v \<in> known_locs ops h s g ps var. v \<in> rd_R a n}) = {loc. def_reaches ops h s g ps var loc n}"
    by simp
  show ?thesis
  proof (cases "?b = {}")
    case True
    then have "Max (insert (- 1) ?b) = - 1" unfolding True by simp
    with True all show ?thesis unfolding use_defs_def reaching_use_def assms(5,6) Let_def by simp
  next
    case False
    then have m: "0 \<le> Max ?b" using pos [OF Max_in [OF fin False]] by simp
    then have "Max (insert (- 1) ?b) = Max ?b" using fin False by simp
    with False m show ?thesis unfolding use_defs_def reaching_use_def assms(5,6) Let_def by simp
  qed
qed

lemma BuildDefUse_exact:
  assumes "located s g"
  obtains ud s' g' where "BuildDefUse ops h s g ps = Some ((ud, invert_chain ud), s', g')" "distinct (map fst ud)"
    "same_graph g g'" "\<And>n. n \<in> set (g_nodes g) \<Longrightarrow> heap s' n = heap s n"
    "\<And>n i ins var. n \<in> set (g_rpo g) \<Longrightarrow> (i, ins) \<in> set (LocWithIns s n) \<Longrightarrow> var \<in> set (ir_used_vars ops h ins) \<Longrightarrow>
       set (chain_at ud (var, i)) = reaching_use ops h s g ps n var i"
    "\<And>var i d. d \<in> set (chain_at ud (var, i)) \<Longrightarrow>
       \<exists>n \<in> set (g_rpo g). \<exists>ins. (i, ins) \<in> set (LocWithIns s n) \<and> var \<in> set (ir_used_vars ops h ins)"
proof -
  obtain a s' g' where r: "ReachDefResult ops h s g ps = Some (a, s', g')" "same_graph g g'"
    and old: "\<And>n. n \<in> set (g_nodes g) \<Longrightarrow> heap s' n = heap s n"
    and R: "\<And>n. n \<in> set (g_nodes g) \<Longrightarrow> rd_R a n = {loc. \<exists>r. def_reaches ops h s g ps r loc n}"
    and all: "\<And>r. locs_of (rd_def_to_loc a) r = known_locs ops h s g ps r"
    and own: "\<And>n r. n \<in> set (g_nodes g) \<Longrightarrow> locs_of (rd_defs a n) r = def_locs ops h s n r"
    and ok: "reg_locs_ok (rd_def_to_loc a)"
    by (rule ReachDefResult_exact [OF assms, of ops h ps]) (rule that)
  define ud where "ud = fold (\<lambda>n. fold (chain_uses ops h a n) (LocWithIns s' n)) (g_rpo g') []"
  have rpo: "g_rpo g' = g_rpo g" and nodes: "set (g_rpo g) = set (g_nodes g)"
    using r(2) assms by (simp_all add: same_graph_def located_def)
  have loc: "LocWithIns s' n = LocWithIns s n" if "n \<in> set (g_rpo g)" for n
    using old [of n] that by (simp add: LocWithIns_def nodes)
  have "adds (fold (\<lambda>n. fold (chain_uses ops h a n) (LocWithIns s' n)) (g_rpo g'))
      (\<lambda>k. \<Union>n \<in> set (g_rpo g'). \<Union>p \<in> set (LocWithIns s' n). \<Union>var \<in> set (ir_used_vars ops h (snd p)).
        if map_of (rd_def_to_loc a) var = None \<or> k \<noteq> (var, fst p) then {} else set (use_defs a n (fst p) var))"
    by (intro adds_fold adds_uses)
  then have "adds (fold (\<lambda>n. fold (chain_uses ops h a n) (LocWithIns s' n)) (g_rpo g'))
      (\<lambda>k. \<Union>n \<in> set (g_rpo g). \<Union>p \<in> set (LocWithIns s n). \<Union>var \<in> set (ir_used_vars ops h (snd p)).
        if map_of (rd_def_to_loc a) var = None \<or> k \<noteq> (var, fst p) then {} else set (use_defs a n (fst p) var))"
    by (rule adds_cong) (intro SUP_cong refl; simp add: rpo loc)
  then have at: "set (chain_at ud k) = (\<Union>n \<in> set (g_rpo g). \<Union>p \<in> set (LocWithIns s n). \<Union>var \<in> set (ir_used_vars ops h (snd p)).
      if map_of (rd_def_to_loc a) var = None \<or> k \<noteq> (var, fst p) then {} else set (use_defs a n (fst p) var))"
    and dist: "distinct (map fst ud)" for k
    unfolding ud_def by (rule adds_start)+
  have exact: "set (chain_at ud (var, i)) = reaching_use ops h s g ps n var i"
    if n: "n \<in> set (g_rpo g)" and i: "(i, ins) \<in> set (LocWithIns s n)" and v: "var \<in> set (ir_used_vars ops h ins)" for n i ins var
  proof -
    have use: "set (use_defs a n i var) = reaching_use ops h s g ps n var i"
      using n by (intro use_defs_reaching [OF assms _ ok R all own]) (simp_all add: nodes)
    have only: "m = n \<and> b = ins" if "m \<in> set (g_rpo g)" "(i, b) \<in> set (LocWithIns s m)" for m b
      using assms n i that unfolding located_def by blast
    have "set (chain_at ud (var, i)) = (if map_of (rd_def_to_loc a) var = None then {} else set (use_defs a n i var))"
      (is "?l = ?r")
    proof
      show "?l \<subseteq> ?r" unfolding at using only by (fastforce split: if_splits)
      show "?r \<subseteq> ?l" unfolding at using n i v by (force split: if_splits)
    qed
    moreover have "reaching_use ops h s g ps n var i = {}" if "map_of (rd_def_to_loc a) var = None"
    proof -
      have none: "known_locs ops h s g ps var = {}" using that all [of var] by (simp add: locs_of_def)
      then have "def_locs ops h s n var = {}" using n by (auto simp: known_locs_def)
      moreover have "{loc. def_reaches ops h s g ps var loc n} = {}" using none def_reaches_known by fastforce
      ultimately show ?thesis by (simp add: reaching_use_def)
    qed
    ultimately show ?thesis using use by simp
  qed
  have built: "BuildDefUse ops h s g ps = Some ((ud, invert_chain ud), s', g')"
    by (simp add: BuildDefUse_def r(1) ud_def Let_def)
  have keys: "\<exists>n \<in> set (g_rpo g). \<exists>ins. (i, ins) \<in> set (LocWithIns s n) \<and> var \<in> set (ir_used_vars ops h ins)"
    if "d \<in> set (chain_at ud (var, i))" for var i d
    using that unfolding at by (fastforce split: if_splits)
  show thesis by (rule that [OF built dist r(2) old exact keys])
qed

section \<open>Numbered graphs\<close>

text \<open>The locations \<open>number_ins\<close> writes into the blocks, each of them once.\<close>

lemma number_ins_from_walk:
  assumes "\<forall>n \<in> set ns. is_BasicBlock (n_class (heap s n))" "distinct ns" "number_ins_from ns num s g = (s', g')"
  shows "(\<forall>k < length ns. LocWithIns s' (ns ! k) =
        map (\<lambda>i. (location s ns num k i, n_ins (heap s (ns ! k)) ! i)) [0..<ins_count s (ns ! k)]) \<and>
      (\<forall>m. m \<notin> set ns \<longrightarrow> heap s' m = heap s m) \<and> fresh s' = fresh s \<and>
      (\<exists>li ln. g' = g\<lparr>g_loc_to_ins := li, g_loc_to_node := ln\<rparr>)"
  using assms
proof (induction ns arbitrary: num s g)
  case Nil
  have "g = g\<lparr>g_loc_to_ins := g_loc_to_ins g, g_loc_to_node := g_loc_to_node g\<rparr>" by simp
  then have "\<exists>li ln. g = g\<lparr>g_loc_to_ins := li, g_loc_to_node := ln\<rparr>" by blast
  moreover have "s' = s" "g' = g" using Nil(3) by simp_all
  ultimately show ?case by (simp only: list.size not_less_zero simp_thms)
next
  case (Cons n ns)
  obtain num' x where b: "block_number_ins num (heap s n) = (num', x)" by fastforce
  note N = numbered_block [OF b]
  define s1 where "s1 = modify n (\<lambda>_. build_loc_ins x) s"
  define g1 where "g1 = g\<lparr>g_loc_to_ins := fold (\<lambda>(loc, i) m. AList.update loc i m) (get_loc_with_ins x) (g_loc_to_ins g),
      g_loc_to_node := g_loc_to_node g @ [(num, num' - 1, n)]\<rparr>"
  have rec: "number_ins_from ns num' s1 g1 = (s', g')" using Cons.prems(1,3) b by (simp add: s1_def g1_def Let_def)
  have same: "heap s1 m = heap s m" if "m \<noteq> n" for m using that by (simp add: s1_def)
  have ns: "\<forall>m \<in> set ns. is_BasicBlock (n_class (heap s1 m))" "distinct ns" "n \<notin> set ns"
    using Cons.prems(1,2) by (auto simp: s1_def)
  have IH: "LocWithIns s' (ns ! k) = map (\<lambda>i. (location s1 ns num' k i, n_ins (heap s1 (ns ! k)) ! i)) [0..<ins_count s1 (ns ! k)]"
      if "k < length ns" for k using Cons.IH [OF ns(1,2) rec] that by blast
  have rest: "\<And>m. m \<notin> set ns \<Longrightarrow> heap s' m = heap s1 m" "fresh s' = fresh s1"
      "\<exists>li ln. g' = g1\<lparr>g_loc_to_ins := li, g_loc_to_node := ln\<rparr>"
    using Cons.IH [OF ns(1,2) rec] by blast+
  have cnt: "ins_count s1 = ins_count s" using N(2) by (simp add: ins_count_def s1_def fun_eq_iff)
  have num': "num' = num + int (ins_count s n)" using N(1) by (simp add: ins_count_def)
  have locs: "location s1 ns a k i = location s ns a k i" for a k i by (simp add: location_def cnt)
  have cls: "n_class x = n_class (heap s n)" using b by (auto simp: block_number_ins_def Let_def)
  have first: "LocWithIns s' n = map (\<lambda>i. (num + int i, n_ins (heap s n) ! i)) [0..<ins_count s n]"
    using rest(1) [OF ns(3)] N(3) Cons.prems(1) cls
    by (simp add: LocWithIns_def s1_def build_loc_ins_def ins_count_def get_loc_with_ins_def [of "x\<lparr>n_loc_ins := y\<rparr>" for y])
  have "LocWithIns s' ((n # ns) ! k) =
      map (\<lambda>i. (location s (n # ns) num k i, n_ins (heap s ((n # ns) ! k)) ! i)) [0..<ins_count s ((n # ns) ! k)]"
    if k: "k < length (n # ns)" for k
  proof (cases k)
    case 0
    then show ?thesis using first by (simp add: location_Cons)
  next
    case (Suc j)
    then have "j < length ns" "ns ! j \<noteq> n" using k ns(3) by auto
    with IH [of j] show ?thesis by (simp add: Suc location_Cons locs cnt num' same)
  qed
  moreover have "heap s' m = heap s m" if "m \<notin> set (n # ns)" for m using rest(1) that same by simp
  moreover have "fresh s' = fresh s" using rest(2) by (simp add: s1_def)
  moreover have "\<exists>li ln. g' = g\<lparr>g_loc_to_ins := li, g_loc_to_node := ln\<rparr>" using rest(3) by (auto simp: g1_def)
  ultimately show ?case by blast
qed

lemma number_ins_from_lists:
  assumes "\<forall>n \<in> set ns. is_BasicBlock (n_class (heap s n))" "distinct ns" "number_ins_from ns num s g = (s', g')"
  shows "(\<forall>n \<in> set ns. n_loc_ins (heap s' n) \<noteq> None) \<and> (\<forall>n. n_class (heap s' n) = n_class (heap s n)) \<and>
    (\<forall>loc ins. get_ins_from_loc loc g' = Some ins \<longrightarrow>
       get_ins_from_loc loc g = Some ins \<or> (\<exists>n \<in> set ns. (loc, ins) \<in> set (LocWithIns s' n)))"
  using assms
proof (induction ns arbitrary: num s g)
  case (Cons n ns)
  obtain num' x where b: "block_number_ins num (heap s n) = (num', x)" by fastforce
  define s1 where "s1 = modify n (\<lambda>_. build_loc_ins x) s"
  define g1 where "g1 = g\<lparr>g_loc_to_ins := fold (\<lambda>(loc, i) m. AList.update loc i m) (get_loc_with_ins x) (g_loc_to_ins g),
      g_loc_to_node := g_loc_to_node g @ [(num, num' - 1, n)]\<rparr>"
  have rec: "number_ins_from ns num' s1 g1 = (s', g')" using Cons.prems(1,3) b by (simp add: s1_def g1_def Let_def)
  have cls: "n_class (heap s1 m) = n_class (heap s m)" for m
    using b by (auto simp: s1_def build_loc_ins_def block_number_ins_def Let_def)
  then have ns: "\<forall>m \<in> set ns. is_BasicBlock (n_class (heap s1 m))" "distinct ns" "n \<notin> set ns"
    using Cons.prems(1,2) by simp_all
  note IH = Cons.IH [OF ns(1,2) rec]
  have "heap s' n = build_loc_ins x" using number_ins_from_walk [OF ns(1,2) rec] ns(3) by (simp add: s1_def)
  moreover have "n_class x = n_class (heap s n)" using b by (auto simp: block_number_ins_def Let_def)
  then have basic: "is_BasicBlock (n_class x)" using Cons.prems(1) by simp
  ultimately have built: "n_loc_ins (heap s' n) = Some (get_loc_with_ins x)" "LocWithIns s' n = get_loc_with_ins x"
    using basic by (simp_all add: build_loc_ins_def LocWithIns_def get_loc_with_ins_def [of "x\<lparr>n_loc_ins := y\<rparr>" for y])
  have one: "get_ins_from_loc loc g = Some ins \<or> (loc, ins) \<in> set (get_loc_with_ins x)"
    if "get_ins_from_loc loc g1 = Some ins" for loc ins
  proof -
    have "map_of (fold (\<lambda>(loc, i) m. AList.update loc i m) l m) loc = Some ins \<Longrightarrow> map_of m loc = Some ins \<or> (loc, ins) \<in> set l" for l m
    proof (induction l arbitrary: m)
      case (Cons p l)
      obtain k y where p: "p = (k, y)" by fastforce
      from Cons.IH [of "AList.update k y m"] Cons.prems show ?case by (auto simp: p update_conv' split: if_splits)
    qed simp
    then show ?thesis using that by (simp add: get_ins_from_loc_def g1_def)
  qed
  have "get_ins_from_loc loc g = Some ins \<or> (\<exists>m \<in> set (n # ns). (loc, ins) \<in> set (LocWithIns s' m))"
    if "get_ins_from_loc loc g' = Some ins" for loc ins
    using IH one [of loc ins] that by (auto simp: built(2))
  then show ?case using IH cls built(1) by simp
qed simp

lemma number_ins_from_blocks:
  assumes "\<forall>n \<in> set ns. is_BasicBlock (n_class (heap s n))" "distinct ns" "number_ins_from ns num s g = (s', g')"
  shows "k < length ns \<Longrightarrow> LocWithIns s' (ns ! k) =
      map (\<lambda>i. (location s ns num k i, n_ins (heap s (ns ! k)) ! i)) [0..<ins_count s (ns ! k)]"
    and "m \<notin> set ns \<Longrightarrow> heap s' m = heap s m" and "fresh s' = fresh s"
    and "\<exists>li ln. g' = g\<lparr>g_loc_to_ins := li, g_loc_to_node := ln\<rparr>"
  using number_ins_from_walk [OF assms] by blast+

lemma location_step: "j < k \<Longrightarrow> k \<le> length ns \<Longrightarrow> i < ins_count s (ns ! j) \<Longrightarrow>
    location s ns num j i < location s ns num k 0"
proof (induction ns arbitrary: num j k)
  case (Cons n ns)
  obtain k' where k: "k = Suc k'" using Cons.prems(1) by (cases k) auto
  show ?case
  proof (cases j)
    case 0
    then show ?thesis using Cons.prems(3) location_ge [of "num + int (ins_count s n)" s ns k' 0]
      by (simp add: k location_Cons)
  next
    case (Suc j')
    then show ?thesis using Cons.IH [of j' k' "num + int (ins_count s n)"] Cons.prems by (simp add: k location_Cons)
  qed
qed simp

lemma location_inj:
  assumes "location s ns num k i = location s ns num l j" "k < length ns" "l < length ns"
    "i < ins_count s (ns ! k)" "j < ins_count s (ns ! l)"
  shows "k = l \<and> i = j"
proof -
  have ge: "location s ns num l 0 \<le> location s ns num l j" for l j by (simp add: location_def)
  have "\<not> k < l" using location_step [of k l ns i s num] assms ge [of l j] by linarith
  moreover have "\<not> l < k" using location_step [of l k ns j s num] assms ge [of k i] by linarith
  ultimately have "k = l" by simp
  with assms(1) show ?thesis by (simp add: location_def)
qed

lemma numbered_located:
  assumes "graph_ok g" "distinct (g_rpo g)" "set (g_rpo g) = set (g_nodes g)" "\<forall>n \<in> set (g_nodes g). n < fresh s"
    and "\<forall>e. g_entry g = Some e \<longrightarrow> e \<in> set (g_nodes g)" "\<forall>y. x = Some y \<longrightarrow> y \<in> set (g_nodes g)"
    and "\<forall>n \<in> set (g_nodes g). is_BasicBlock (n_class (heap s n))" and "number_ins s g = (s', g')"
  shows "located s' (g'\<lparr>g_exit := x\<rparr>)"
proof -
  let ?ns = "g_rpo g"
  have run: "number_ins_from ?ns 0 s (g\<lparr>g_has_loc_indexes := True, g_loc_to_ins := [], g_loc_to_node := []\<rparr>) = (s', g')"
    using assms(8) by (simp add: number_ins_def)
  have basic: "\<forall>n \<in> set ?ns. is_BasicBlock (n_class (heap s n))" using assms(3,7) by simp
  note N = number_ins_from_blocks [OF basic assms(2) run]
  obtain li ln where g': "g' = g\<lparr>g_has_loc_indexes := True, g_loc_to_ins := li, g_loc_to_node := ln\<rparr>" using N(4) by auto
  have "n = m \<and> a = b \<and> 0 \<le> i"
    if n: "n \<in> set ?ns" and m: "m \<in> set ?ns" and na: "(i, a) \<in> set (LocWithIns s' n)" and mb: "(i, b) \<in> set (LocWithIns s' m)" for n m i a b
  proof -
    obtain k l where k: "k < length ?ns" "n = ?ns ! k" "l < length ?ns" "m = ?ns ! l" using n m by (metis in_set_conv_nth)
    from na obtain p where p: "p < ins_count s n" "i = location s ?ns 0 k p" "a = n_ins (heap s n) ! p"
      unfolding k(2) N(1) [OF k(1)] by auto
    from mb obtain q where q: "q < ins_count s m" "i = location s ?ns 0 l q" "b = n_ins (heap s m) ! q"
      unfolding k(4) N(1) [OF k(3)] by auto
    have "k = l \<and> p = q" using location_inj [of s ?ns 0 k p l q] p q k by simp
    with p q k location_ge [of 0 s ?ns k p] show ?thesis by simp
  qed
  then show ?thesis using assms N(3) unfolding located_def g' by (auto simp: graph_ok_def)
qed

end
