(* ===== verification/Dataflow_Method.thy ===== *)
theory Dataflow_Method
  imports Dataflow_Def_Use Cfg_Construct_Laws
begin

text \<open>
  The def-use chains of the graph \<open>Construct\<close> returns: the graph is numbered as the analysis needs it.
\<close>

lemma block_class_basic: "is_BasicBlock (block_class op)"
  by (simp add: block_class_def is_BasicBlock_def)

lemma only_return_node: "only_return s ns = Some n \<Longrightarrow> n \<in> set ns"
proof -
  assume a: "only_return s ns = Some n"
  then have "filter (\<lambda>n. is_BasicBlock (n_class (heap s n)) \<and> n_type (heap s n) = TypeReturn) ns = [n]"
    by (auto simp: only_return_def split: list.splits)
  then have "n \<in> set (filter (\<lambda>n. is_BasicBlock (n_class (heap s n)) \<and> n_type (heap s n) = TypeReturn) ns)" by simp
  then show ?thesis by simp
qed

lemma Construct_numbered:
  fixes bd :: "('i, 'v) building"
  assumes "Construct d sn s v = Inr bd" "sn_entry_block_id sn = Some e"
  obtains s3 :: "'i store" and g2 g3 :: "'i graph" where "number_ins s3 g2 = (bd_store bd, g3)"
    "bd_graph bd = g3\<lparr>g_exit := only_return (bd_store bd) (g_nodes g3)\<rparr>"
    "\<forall>n \<in> set (g_rpo g2). is_BasicBlock (n_class (heap s3 n))" "distinct (g_rpo g2)" "located (bd_store bd) (bd_graph bd)"
proof -
  from assms obtain st :: "('i, 'v) building" and s1 g1 s2 g2 s3 where st: "e < length (sn_blocks sn)"
    "nodes_ok sn st" "no_edges (bd_graph st)" "built st = {b. reached sn b}" "bd_nodes bd = bd_nodes st"
    "fold (wire_block (bd_nodes st)) (zip (sn_blocks sn) (bd_nodes st)) (bd_store st, bd_graph st) = (s1, g1)"
    "compute_rpo s1 (g1\<lparr>g_entry := bd_nodes st ! e\<rparr>) = (s2, g2)"
    "s3 = fold (mark_in_catch g2) (g_rpo g2) s2"
    "\<exists>g3. number_ins s3 g2 = (bd_store bd, g3) \<and> bd_graph bd = g3\<lparr>g_exit := only_return (bd_store bd) (g_nodes g3)\<rparr>"
    by (rule Construct_stages)
  from st(9) obtain g3 where g3: "number_ins s3 g2 = (bd_store bd, g3)"
    "bd_graph bd = g3\<lparr>g_exit := only_return (bd_store bd) (g_nodes g3)\<rparr>" by blast
  obtain a l m where g: "g3 = g2\<lparr>g_has_loc_indexes := a, g_loc_to_ins := l, g_loc_to_node := m\<rparr>"
    using number_ins_wiring(2) [OF g3(1)] by blast
  note facts = Construct_facts [OF assms]
  have ok: "graph_ok g2" using facts(2) unfolding g3(2) g by (simp add: graph_ok_def)
  have rpo: "distinct (g_rpo g2)" "set (g_rpo g2) = set (g_nodes g2)"
    using facts(4) unfolding numbered_def g3(2) g by simp_all
  obtain x where x: "g_entry (bd_graph bd) = Some x" "set (g_nodes (bd_graph bd)) = {n. reach (bd_graph bd) x n}"
    using facts(3) by blast
  then have "x \<in> set (g_nodes (bd_graph bd))" by simp
  with x(1) have entry: "\<forall>x. g_entry g2 = Some x \<longrightarrow> x \<in> set (g_nodes g2)" unfolding g3(2) g by simp
  obtain r where g2: "g2 = (g1\<lparr>g_entry := bd_nodes st ! e\<rparr>)\<lparr>g_rpo := r\<rparr>"
    using compute_rpo_wiring(2) [OF st(7)] by blast
  note w = mirrors_wired [OF st(2-4,6)]
  have "wired (bd_store st, bd_graph st) (s1, g1)
      (\<Union>p \<in> set (zip (sn_blocks sn) (bd_nodes st)). child_pairs (bd_nodes st) p)
      (\<Union>p \<in> set (zip (sn_blocks sn) (bd_nodes st)). handler_pairs (bd_nodes st) p)"
    unfolding st(6) [symmetric] by (rule wired_fold) (rule wired_block)
  then have same1: "same_kind (bd_store st) s1" "g_nodes g1 = g_nodes (bd_graph st)" by (simp_all add: wired_def)
  have s3: "same_wiring s2 s3" unfolding st(8) by (rule fold_same_wiring) (rule mark_in_catch_wiring)
  have "same_wiring s1 s3" using same_wiring_trans [OF compute_rpo_wiring(1) [OF st(7)] s3] .
  then have kind: "same_kind (bd_store st) s3" using same_kind_trans [OF same1(1)] by (simp add: same_wiring_def)
  have nodes: "g_nodes g2 = g_nodes (bd_graph st)" unfolding g2 using same1(2) by simp
  have "\<exists>b \<in> built st. bd_nodes st ! b = Some n" if "n \<in> set (g_nodes g2)" for n
  proof -
    have "Some n \<in> set (bd_nodes st)" using st(2) that unfolding nodes nodes_ok_def by blast
    then show ?thesis by (auto simp: built_def in_set_conv_nth)
  qed
  then have basic: "\<forall>n \<in> set (g_nodes g2). is_BasicBlock (n_class (heap s3 n))"
    using st(2) kind block_class_basic unfolding nodes_ok_def same_kind_def by metis
  have fresh: "\<forall>n \<in> set (g_nodes g2). n < fresh s3"
    using st(2) kind unfolding nodes nodes_ok_def same_kind_def by simp
  have exit: "\<forall>y. only_return (bd_store bd) (g_nodes g3) = Some y \<longrightarrow> y \<in> set (g_nodes g2)"
    using only_return_node unfolding g by fastforce
  have "located (bd_store bd) (bd_graph bd)"
    unfolding g3(2) by (rule numbered_located [OF ok rpo fresh entry exit basic g3(1)])
  moreover have "\<forall>n \<in> set (g_rpo g2). is_BasicBlock (n_class (heap s3 n))" using basic rpo(2) by simp
  ultimately show thesis using that g3 rpo(1) by blast
qed

lemma Construct_located:
  fixes bd :: "('i, 'v) building"
  assumes "Construct d sn s v = Inr bd" "sn_entry_block_id sn = Some e"
  shows "located (bd_store bd) (bd_graph bd)"
  using Construct_numbered [OF assms] by blast

section \<open>Properties\<close>

text \<open>
  C10. The def-use chains of the graph of a method: the definitions of a use are the last one before it
  in its block or those that reach the block, and \<open>du\<close> is the converse of \<open>ud\<close>.
\<close>

theorem method_def_use:
  assumes "Construct d sn s v = Inr bd" and "sn_entry_block_id sn = Some e"
  shows "\<exists>ud du s' g'. BuildDefUse ops h (bd_store bd) (bd_graph bd) ps = Some ((ud, du), s', g') \<and>
    same_graph (bd_graph bd) g' \<and>
    (\<forall>n i ins var. n \<in> set (g_rpo (bd_graph bd)) \<and> (i, ins) \<in> set (LocWithIns (bd_store bd) n) \<and> var \<in> set (ir_used_vars ops h ins) \<longrightarrow>
       set (chain_at ud (var, i)) = reaching_use ops h (bd_store bd) (bd_graph bd) ps n var i) \<and>
    (\<forall>var i d. i \<in> set (chain_at du (var, d)) \<longleftrightarrow> d \<in> set (chain_at ud (var, i)))"
proof (rule BuildDefUse_exact [OF Construct_located [OF assms], of ops h ps])
  fix ud s' g'
  assume "BuildDefUse ops h (bd_store bd) (bd_graph bd) ps = Some ((ud, invert_chain ud), s', g')"
    "distinct (map fst ud)" "same_graph (bd_graph bd) g'"
    "\<And>n i ins var. n \<in> set (g_rpo (bd_graph bd)) \<Longrightarrow> (i, ins) \<in> set (LocWithIns (bd_store bd) n) \<Longrightarrow>
       var \<in> set (ir_used_vars ops h ins) \<Longrightarrow>
       set (chain_at ud (var, i)) = reaching_use ops h (bd_store bd) (bd_graph bd) ps n var i"
  then show ?thesis
    using invert_chain_converse by (intro exI [of _ ud] exI [of _ "invert_chain ud"] exI [of _ s'] exI [of _ g']) blast
qed

end
