(* ===== verification/Dataflow_Distinct.thy ===== *)
theory Dataflow_Distinct
  imports Dataflow_Def_Use
begin

text \<open>
  The chains \<open>BuildDefUse\<close> returns have no repetitions when no instruction names a register twice, and
  \<open>du\<close> has no empty entry.
\<close>

section \<open>The uses\<close>

definition no_repeats :: "chain_map \<Rightarrow> bool" where
  "no_repeats m \<longleftrightarrow> (\<forall>k. distinct (chain_at m k))"

lemma no_repeats_Nil [simp]: "no_repeats []"
  by (simp add: no_repeats_def)

lemma chain_at_add [simp]:
  "chain_at (chain_add k ls m) k' = (if k' = k then chain_at m k @ ls else chain_at m k')"
  by (simp add: chain_add_def)

lemma use_defs_distinct: "distinct (use_defs a n i var)"
  by (simp add: use_defs_def Let_def)

lemma chain_uses_distinct:
  assumes "distinct (ir_used_vars ops h ins)" "no_repeats ud" "\<forall>v. chain_at ud (v, i) = []"
  shows "no_repeats (chain_uses ops h a n (i, ins) ud)"
    "j \<noteq> i \<Longrightarrow> chain_at (chain_uses ops h a n (i, ins) ud) (v, j) = chain_at ud (v, j)"
proof -
  let ?f = "\<lambda>var ud. if map_of (rd_def_to_loc a) var = None then ud else chain_add (var, i) (use_defs a n i var) ud"
  have "no_repeats (fold ?f vs ud) \<and> (\<forall>v j. j \<noteq> i \<longrightarrow> chain_at (fold ?f vs ud) (v, j) = chain_at ud (v, j))"
    if "distinct vs" "no_repeats ud" "\<forall>v \<in> set vs. chain_at ud (v, i) = []" for vs ud
    using that
  proof (induction vs arbitrary: ud)
    case (Cons v vs)
    have "no_repeats (?f v ud)" "\<forall>w \<in> set vs. chain_at (?f v ud) (w, i) = []"
      using Cons.prems use_defs_distinct by (auto simp: no_repeats_def)
    moreover have "\<forall>w j. j \<noteq> i \<longrightarrow> chain_at (?f v ud) (w, j) = chain_at ud (w, j)" by simp
    ultimately show ?case using Cons.IH [of "?f v ud"] Cons.prems(1) by simp
  qed simp
  from this [OF assms(1,2)] assms(3) show "no_repeats (chain_uses ops h a n (i, ins) ud)"
    "j \<noteq> i \<Longrightarrow> chain_at (chain_uses ops h a n (i, ins) ud) (v, j) = chain_at ud (v, j)"
    by (simp_all add: chain_uses_def)
qed

lemma node_uses_distinct:
  assumes used: "\<And>ins. distinct (ir_used_vars ops h ins)"
  shows "distinct (map fst ps) \<Longrightarrow> no_repeats ud \<Longrightarrow> \<forall>i \<in> fst ` set ps. \<forall>v. chain_at ud (v, i) = [] \<Longrightarrow>
    no_repeats (fold (chain_uses ops h a n) ps ud) \<and>
    (\<forall>v j. j \<notin> fst ` set ps \<longrightarrow> chain_at (fold (chain_uses ops h a n) ps ud) (v, j) = chain_at ud (v, j))"
proof (induction ps arbitrary: ud)
  case (Cons p ps)
  obtain i ins where p: "p = (i, ins)" by fastforce
  let ?ud = "chain_uses ops h a n (i, ins) ud"
  have free: "\<forall>v. chain_at ud (v, i) = []" using Cons.prems(3) by (simp add: p)
  note one = chain_uses_distinct [OF used Cons.prems(2) free, where a = a and n = n]
  have "i \<notin> fst ` set ps" using Cons.prems(1) by (simp add: p)
  then have "\<forall>j \<in> fst ` set ps. \<forall>v. chain_at ?ud (v, j) = []" using one(2) Cons.prems(3) by (metis insertCI image_insert list.simps(15))
  from Cons.IH [OF _ one(1) this] show ?case using Cons.prems(1) one(2) by (simp add: p)
qed simp

lemma nodes_uses_distinct:
  assumes used: "\<And>ins. distinct (ir_used_vars ops h ins)"
  shows "distinct ns \<Longrightarrow> \<forall>n \<in> set ns. distinct (map fst (L n)) \<Longrightarrow>
    \<forall>n \<in> set ns. \<forall>m \<in> set ns. n \<noteq> m \<longrightarrow> fst ` set (L n) \<inter> fst ` set (L m) = {} \<Longrightarrow>
    no_repeats ud \<Longrightarrow> \<forall>n \<in> set ns. \<forall>i \<in> fst ` set (L n). \<forall>v. chain_at ud (v, i) = [] \<Longrightarrow>
    no_repeats (fold (\<lambda>n. fold (chain_uses ops h a n) (L n)) ns ud)"
proof (induction ns arbitrary: ud)
  case (Cons n ns)
  let ?ud = "fold (chain_uses ops h a n) (L n) ud"
  have here: "distinct (map fst (L n))" "\<forall>i \<in> fst ` set (L n). \<forall>v. chain_at ud (v, i) = []" using Cons.prems by simp_all
  have one: "no_repeats ?ud" "\<And>v j. j \<notin> fst ` set (L n) \<Longrightarrow> chain_at ?ud (v, j) = chain_at ud (v, j)"
    using node_uses_distinct [OF used here(1) Cons.prems(4) here(2), where a = a and n = n] by blast+
  have free: "\<forall>m \<in> set ns. \<forall>i \<in> fst ` set (L m). \<forall>v. chain_at ?ud (v, i) = []"
  proof (intro ballI allI)
    fix m i v assume m: "m \<in> set ns" "i \<in> fst ` set (L m)"
    have "n \<noteq> m" using m(1) Cons.prems(1) by auto
    then have "i \<notin> fst ` set (L n)" using m Cons.prems(3) by (metis disjoint_iff list.set_intros)
    moreover have "chain_at ud (v, i) = []" using m Cons.prems(5) by (metis list.set_intros(2))
    ultimately show "chain_at ?ud (v, i) = []" using one(2) by simp
  qed
  have "distinct ns" "\<forall>n \<in> set ns. distinct (map fst (L n))"
    "\<forall>n \<in> set ns. \<forall>m \<in> set ns. n \<noteq> m \<longrightarrow> fst ` set (L n) \<inter> fst ` set (L m) = {}" using Cons.prems by simp_all
  from Cons.IH [OF this one(1) free] show ?case by simp
qed simp

section \<open>The converse\<close>

lemma invert_entry_distinct:
  "distinct ds \<Longrightarrow> no_repeats m \<Longrightarrow> \<forall>d \<in> set ds. loc \<notin> set (chain_at m (var, d)) \<Longrightarrow>
    no_repeats (fold (\<lambda>d. chain_add (var, d) [loc]) ds m) \<and>
    (\<forall>v d. set (chain_at (fold (\<lambda>d. chain_add (var, d) [loc]) ds m) (v, d)) \<subseteq>
       set (chain_at m (v, d)) \<union> (if v = var then {loc} else {}))"
proof (induction ds arbitrary: m)
  case (Cons d ds)
  have "no_repeats (chain_add (var, d) [loc] m)" "\<forall>x \<in> set ds. loc \<notin> set (chain_at (chain_add (var, d) [loc] m) (var, x))"
    using Cons.prems by (auto simp: no_repeats_def)
  moreover have "distinct ds" using Cons.prems(1) by simp
  ultimately have I: "no_repeats (fold (\<lambda>d. chain_add (var, d) [loc]) ds (chain_add (var, d) [loc] m))"
    "\<And>v x. set (chain_at (fold (\<lambda>d. chain_add (var, d) [loc]) ds (chain_add (var, d) [loc] m)) (v, x)) \<subseteq>
       set (chain_at (chain_add (var, d) [loc] m) (v, x)) \<union> (if v = var then {loc} else {})"
    using Cons.IH [of "chain_add (var, d) [loc] m"] by blast+
  have "set (chain_at (chain_add (var, d) [loc] m) (v, x)) \<subseteq> set (chain_at m (v, x)) \<union> (if v = var then {loc} else {})" for v x
    by auto
  then show ?case using I by (simp only: fold_simps o_apply) blast
qed simp

lemma invert_distinct:
  "distinct (map fst es) \<Longrightarrow> \<forall>ds \<in> snd ` set es. distinct ds \<Longrightarrow> no_repeats m \<Longrightarrow>
    \<forall>(var, loc) \<in> fst ` set es. \<forall>d. loc \<notin> set (chain_at m (var, d)) \<Longrightarrow>
    no_repeats (fold (\<lambda>((var, loc), ds). fold (\<lambda>d. chain_add (var, d) [loc]) ds) es m)"
proof (induction es arbitrary: m)
  case (Cons e es)
  obtain var loc ds where e: "e = ((var, loc), ds)" by (metis prod.exhaust)
  let ?m = "fold (\<lambda>d. chain_add (var, d) [loc]) ds m"
  have ds: "distinct ds" "\<forall>d \<in> set ds. loc \<notin> set (chain_at m (var, d))" using Cons.prems(2,4) by (auto simp: e)
  note one = invert_entry_distinct [OF ds(1) Cons.prems(3) ds(2)]
  have key: "(var, loc) \<notin> fst ` set es" using Cons.prems(1) by (simp add: e)
  have later: "l \<notin> set (chain_at ?m (v, d))" if k: "(v, l) \<in> fst ` set es" for v l d
  proof
    assume l: "l \<in> set (chain_at ?m (v, d))"
    have "(v, l) \<noteq> (var, loc)" using k key by blast
    moreover have "l \<in> set (chain_at m (v, d)) \<union> (if v = var then {loc} else {})" using one l by blast
    ultimately have "l \<in> set (chain_at m (v, d))" by (auto split: if_splits)
    moreover have "(v, l) \<in> fst ` set (e # es)" using k by simp
    ultimately show False using Cons.prems(4) by blast
  qed
  then have "\<forall>(v, l) \<in> fst ` set es. \<forall>d. l \<notin> set (chain_at ?m (v, d))" by blast
  moreover have "distinct (map fst es)" "\<forall>ds \<in> snd ` set es. distinct ds" using Cons.prems(1,2) by simp_all
  ultimately have "no_repeats (fold (\<lambda>((var, loc), ds). fold (\<lambda>d. chain_add (var, d) [loc]) ds) es ?m)"
    using Cons.IH one by blast
  then show ?case by (simp add: e)
qed simp

lemma invert_chain_distinct:
  assumes "distinct (map fst ud)" "no_repeats ud"
  shows "no_repeats (invert_chain ud)"
proof -
  have "distinct ds" if "(k, ds) \<in> set ud" for k ds
  proof -
    have "chain_at ud k = ds" using map_of_is_SomeI [OF assms(1) that] by (simp add: chain_at_def)
    then show ?thesis using assms(2) unfolding no_repeats_def by blast
  qed
  then have "\<forall>ds \<in> snd ` set ud. distinct ds" by auto
  then show ?thesis unfolding invert_chain_def by (intro invert_distinct [OF assms(1)]) auto
qed

lemma invert_chain_nonempty: "map_of (invert_chain ud) k \<noteq> Some []"
proof -
  define full where "full m \<longleftrightarrow> (\<forall>k. map_of m k \<noteq> Some [])" for m :: chain_map
  have add: "full m \<Longrightarrow> full (chain_add k' [x] m)" for k' x m by (simp add: full_def chain_add_def update_conv)
  have one: "full m \<Longrightarrow> full (fold (\<lambda>d. chain_add (var, d) [loc]) ds m)" for var loc ds m
    by (induction ds arbitrary: m) (auto intro: add)
  have "full m \<Longrightarrow> full (fold (\<lambda>((var, loc), ds). fold (\<lambda>d. chain_add (var, d) [loc]) ds) es m)" for es m
  proof (induction es arbitrary: m)
    case (Cons e es)
    obtain var loc ds where e: "e = ((var, loc), ds)" by (metis prod.exhaust)
    show ?case using Cons.IH [OF one [OF Cons.prems]] by (simp add: e)
  qed simp
  moreover have "full []" by (simp add: full_def)
  ultimately have "full (invert_chain ud)" unfolding invert_chain_def by blast
  then show ?thesis unfolding full_def by blast
qed

section \<open>The result\<close>

lemma BuildDefUse_distinct:
  assumes "located s g" "\<And>ins. distinct (ir_used_vars ops h ins)" "\<forall>n \<in> set (g_rpo g). distinct (map fst (LocWithIns s n))"
    and "BuildDefUse ops h s g ps = Some ((ud, du), s', g')" "distinct (map fst ud)"
  shows "no_repeats ud" "no_repeats du" "map_of du k \<noteq> Some []"
proof -
  obtain a s1 g1 where r: "ReachDefResult ops h s g ps = Some (a, s1, g1)" "same_graph g g1"
    and old: "\<And>n. n \<in> set (g_nodes g) \<Longrightarrow> heap s1 n = heap s n"
    by (rule ReachDefResult_exact [OF assms(1), of ops h ps]) (rule that)
  have rpo: "g_rpo g1 = g_rpo g" "set (g_rpo g) = set (g_nodes g)" "distinct (g_rpo g)"
    using r(2) assms(1) by (simp_all add: same_graph_def located_def)
  have ud: "ud = fold (\<lambda>n. fold (chain_uses ops h a n) (LocWithIns s1 n)) (g_rpo g) []" and du: "du = invert_chain ud"
    using assms(4) by (auto simp: BuildDefUse_def r(1) rpo Let_def)
  have loc: "LocWithIns s1 n = LocWithIns s n" if "n \<in> set (g_rpo g)" for n
    using old [of n] that by (simp add: LocWithIns_def rpo)
  have apart: "fst ` set (LocWithIns s1 n) \<inter> fst ` set (LocWithIns s1 m) = {}"
    if "n \<in> set (g_rpo g)" "m \<in> set (g_rpo g)" "n \<noteq> m" for n m
  proof -
    have "n = m" if "(i, x) \<in> set (LocWithIns s n)" "(i, y) \<in> set (LocWithIns s m)" for i x y
      using assms(1) that \<open>n \<in> set (g_rpo g)\<close> \<open>m \<in> set (g_rpo g)\<close> unfolding located_def by blast
    then show ?thesis using that(3) unfolding loc [OF that(1)] loc [OF that(2)] by fastforce
  qed
  show n: "no_repeats ud"
    unfolding ud by (rule nodes_uses_distinct [OF assms(2) rpo(3)]) (use assms(3) loc apart in auto)
  show "no_repeats du" unfolding du by (rule invert_chain_distinct [OF assms(5) n])
  show "map_of du k \<noteq> Some []" unfolding du by (rule invert_chain_nonempty)
qed

end
