(* ===== verification/Dad_Ir.thy ===== *)
theory Dad_Ir
  imports Prelude "HOL-Library.AList"
begin

text \<open>
  The instruction objects of the decompiler (\<open>src/native/dad_cpp/include/instruction.h\<close>,
  \<open>instruction.cpp\<close>). Objects are shared and mutable: a heap maps addresses to objects, \<open>i_form\<close> is
  the dynamic class with its own fields, \<open>i_vmap\<close> is \<open>var_map\<close>, which keys the operands by their
  identifier. A class refers to an operand by such a key.

  The member functions recurse through the operands. A function whose name ends in \<open>_to\<close> follows at
  most the given number of objects; \<open>depth\<close> is more than any chain of distinct objects has, so the
  bound is reached only on a structure with a cycle, where the code recurses without bound. That is
  the error \<open>endless\<close>, never a value.
\<close>

section \<open>Objects\<close>

datatype ir_form =
    Constant string int bool
  | BaseClass string
  | Variable string bool
  | Param string
  | ThisParam string
  | AssignExpression "string option" "nat option"
  | MoveExpression string string
  | MoveResultExpression string string
  | ArrayStoreInstruction string string string
  | StaticInstruction string
  | InstanceInstruction string string
  | NewInstance
  | InvokeInstruction string string string "string list"
  | InvokeStaticInstruction string string string "string list"
  | ReturnInstruction "string option"
  | NopExpression
  | SwitchExpression string
  | CheckCastExpression string
  | ArrayLoadExpression string string
  | ArrayLengthExpression string
  | NewArrayExpression string
  | FilledArrayExpression "string list"
  | FillArrayExpression string
  | MoveExceptionExpression string
  | MonitorEnterExpression string
  | MonitorExitExpression string
  | ThrowExpression string
  | BinaryExpression string string string
  | UnaryExpression string string
  | CastExpression string string
  | ConditionalExpression string string string
  | ConditionalZExpression string string
  | InstanceExpression string string
  | StaticExpression string

text \<open>
  The fields: \<open>Constant\<close> has its identifier, its integer value and whether the encoding stated its
  type; \<open>Variable\<close> its register and \<open>invoke_result\<close>; an invoke its name, return type, base and
  arguments; \<open>InstanceExpression\<close> and \<open>StaticExpression\<close> the type of the field.
\<close>

record ir_obj =
  i_form :: ir_form
  i_type :: string
  i_vmap :: "(string \<times> nat option) list"
  i_name :: string
  i_synthetic :: string

record ir_heap =
  io :: "nat \<Rightarrow> ir_obj"
  io_next :: nat

definition put_obj :: "nat \<Rightarrow> ir_obj \<Rightarrow> ir_heap \<Rightarrow> ir_heap" where
  "put_obj a x h = h\<lparr>io := (io h)(a := x)\<rparr>"

definition new_obj :: "ir_form \<Rightarrow> string \<Rightarrow> (string \<times> nat option) list \<Rightarrow> ir_heap \<Rightarrow> nat \<times> ir_heap" where
  "new_obj f t m h =
     (io_next h, h\<lparr>io := (io h)(io_next h := \<lparr>i_form = f, i_type = t, i_vmap = m, i_name = [], i_synthetic = []\<rparr>),
                   io_next := Suc (io_next h)\<rparr>)"

definition operand :: "ir_obj \<Rightarrow> string \<Rightarrow> nat option" where
  "operand x k = (case map_of (i_vmap x) k of Some (Some a) \<Rightarrow> Some a | _ \<Rightarrow> None)"

definition depth :: "ir_heap \<Rightarrow> nat" where
  "depth h = Suc (io_next h)"

text \<open>A recursion of the code that has no end.\<close>

definition endless :: "'a result" where
  "endless = Inl (Oob 0)"

definition ask :: "ir_obj \<Rightarrow> 'a \<Rightarrow> (nat \<Rightarrow> 'a result) \<Rightarrow> string \<Rightarrow> 'a result" where
  "ask x none f k = (case operand x k of Some b \<Rightarrow> f b | None \<Rightarrow> Inr none)"

fun collect_res :: "('b \<Rightarrow> 'a list result) \<Rightarrow> 'b list \<Rightarrow> 'a list result" where
  "collect_res f [] = Inr []"
| "collect_res f (k # ks) = bind (f k) (\<lambda>vs. bind (collect_res f ks) (\<lambda>ws. Inr (vs @ ws)))"

section \<open>Queries\<close>

definition is_ident :: "ir_heap \<Rightarrow> nat \<Rightarrow> bool" where
  "is_ident h a = (case i_form (io h a) of
     Variable _ _ \<Rightarrow> True | Param _ \<Rightarrow> True | ThisParam _ \<Rightarrow> True | _ \<Rightarrow> False)"

definition Vid :: "ir_heap \<Rightarrow> nat \<Rightarrow> string" where
  "Vid h a = (let x = io h a in
     case i_form x of
       Constant v _ _ \<Rightarrow> if i_synthetic x = [] then v else i_synthetic x
     | BaseClass v \<Rightarrow> if i_synthetic x = [] then v else i_synthetic x
     | Variable v _ \<Rightarrow> v | Param v \<Rightarrow> v | ThisParam v \<Rightarrow> v
     | _ \<Rightarrow> i_synthetic x)"

fun is_const_to :: "nat \<Rightarrow> ir_heap \<Rightarrow> nat \<Rightarrow> bool result" where
  "is_const_to 0 h a = endless"
| "is_const_to (Suc d) h a =
     (let x = io h a in
      case i_form x of
        Constant _ _ _ \<Rightarrow> Inr True | BaseClass _ \<Rightarrow> Inr True | Param _ \<Rightarrow> Inr True | ThisParam _ \<Rightarrow> Inr True
      | CheckCastExpression k \<Rightarrow> ask x False (is_const_to d h) k
      | CastExpression _ k \<Rightarrow> ask x False (is_const_to d h) k
      | _ \<Rightarrow> Inr False)"

fun is_call_to :: "nat \<Rightarrow> ir_heap \<Rightarrow> nat \<Rightarrow> bool result" where
  "is_call_to 0 h a = endless"
| "is_call_to (Suc d) h a =
     (let x = io h a in
      case i_form x of
        AssignExpression _ r \<Rightarrow> (case r of Some b \<Rightarrow> is_call_to d h b | None \<Rightarrow> Inr False)
      | MoveExpression _ k \<Rightarrow> ask x False (is_call_to d h) k
      | MoveResultExpression _ k \<Rightarrow> ask x False (is_call_to d h) k
      | InvokeInstruction _ _ _ _ \<Rightarrow> Inr True | InvokeStaticInstruction _ _ _ _ \<Rightarrow> Inr True
      | _ \<Rightarrow> Inr False)"

fun is_propagable_to :: "nat \<Rightarrow> ir_heap \<Rightarrow> nat \<Rightarrow> bool result" where
  "is_propagable_to 0 h a = endless"
| "is_propagable_to (Suc d) h a =
     (let x = io h a in
      case i_form x of
        AssignExpression _ r \<Rightarrow> (case r of Some b \<Rightarrow> is_propagable_to d h b | None \<Rightarrow> Inr True)
      | MoveResultExpression _ k \<Rightarrow> ask x True (is_propagable_to d h) k
      | NewArrayExpression _ \<Rightarrow> Inr False | FillArrayExpression _ \<Rightarrow> Inr False
      | MoveExceptionExpression _ \<Rightarrow> Inr False | MonitorEnterExpression _ \<Rightarrow> Inr False
      | MonitorExitExpression _ \<Rightarrow> Inr False | ThrowExpression _ \<Rightarrow> Inr False
      | _ \<Rightarrow> Inr True)"

fun has_side_effect_to :: "nat \<Rightarrow> ir_heap \<Rightarrow> nat \<Rightarrow> bool result" where
  "has_side_effect_to 0 h a = endless"
| "has_side_effect_to (Suc d) h a =
     (let x = io h a in
      case i_form x of
        AssignExpression _ r \<Rightarrow> (case r of Some b \<Rightarrow> has_side_effect_to d h b | None \<Rightarrow> Inr False)
      | MoveResultExpression _ k \<Rightarrow> ask x False (has_side_effect_to d h) k
      | ArrayStoreInstruction _ _ _ \<Rightarrow> Inr True | StaticInstruction _ \<Rightarrow> Inr True | InstanceInstruction _ _ \<Rightarrow> Inr True
      | InvokeInstruction _ _ _ _ \<Rightarrow> Inr True | InvokeStaticInstruction _ _ _ _ \<Rightarrow> Inr True
      | MoveExceptionExpression _ \<Rightarrow> Inr True
      | BinaryExpression _ k l \<Rightarrow>
          bind (ask x False (has_side_effect_to d h) k) (\<lambda>e1.
          bind (ask x False (has_side_effect_to d h) l) (\<lambda>e2. Inr (e1 \<or> e2)))
      | _ \<Rightarrow> Inr False)"

text \<open>\<open>at.find('[')\<close> and the erasure of that one character.\<close>

fun drop_bracket :: "string \<Rightarrow> string" where
  "drop_bracket [] = []"
| "drop_bracket (c # cs) = (if c = CHR ''['' then cs else c # drop_bracket cs)"

fun get_type_to :: "nat \<Rightarrow> ir_heap \<Rightarrow> nat \<Rightarrow> string result" where
  "get_type_to 0 h a = endless"
| "get_type_to (Suc d) h a =
     (let x = io h a;
          invoke = (\<lambda>nm rt bs. if nm = ''<init>'' then ask x rt (get_type_to d h) bs else Inr rt) in
      case i_form x of
        InvokeInstruction nm rt bs _ \<Rightarrow> invoke nm rt bs
      | InvokeStaticInstruction nm rt bs _ \<Rightarrow> invoke nm rt bs
      | ArrayLoadExpression k _ \<Rightarrow> bind (ask x [] (get_type_to d h) k) (\<lambda>t. Inr (drop_bracket t))
      | ArrayLengthExpression _ \<Rightarrow> Inr ''I''
      | UnaryExpression _ k \<Rightarrow> ask x [] (get_type_to d h) k
      | InstanceExpression _ t \<Rightarrow> Inr t
      | StaticExpression t \<Rightarrow> Inr t
      | _ \<Rightarrow> Inr (i_type x))"

definition Dedup :: "string list \<Rightarrow> string list" where
  "Dedup src = fold (\<lambda>s out. if s \<in> set out then out else out @ [s]) src []"

text \<open>The operands \<open>get_used_vars\<close> asks, in its order, and the classes that drop the repetitions.\<close>

definition used_keys :: "ir_form \<Rightarrow> string list" where
  "used_keys f = (case f of
     MoveExpression _ k \<Rightarrow> [k] | MoveResultExpression _ k \<Rightarrow> [k]
   | ArrayStoreInstruction r a i \<Rightarrow> [a, i, r]
   | StaticInstruction k \<Rightarrow> [k] | InstanceInstruction l r \<Rightarrow> [l, r]
   | InvokeInstruction _ _ b as \<Rightarrow> as @ [b] | InvokeStaticInstruction _ _ _ as \<Rightarrow> as
   | ReturnInstruction k \<Rightarrow> (case k of Some k \<Rightarrow> [k] | None \<Rightarrow> [])
   | SwitchExpression k \<Rightarrow> [k] | CheckCastExpression k \<Rightarrow> [k]
   | ArrayLoadExpression a i \<Rightarrow> [a, i] | ArrayLengthExpression k \<Rightarrow> [k]
   | NewArrayExpression k \<Rightarrow> [k] | FilledArrayExpression as \<Rightarrow> as | FillArrayExpression k \<Rightarrow> [k]
   | MonitorEnterExpression k \<Rightarrow> [k] | MonitorExitExpression k \<Rightarrow> [k] | ThrowExpression k \<Rightarrow> [k]
   | BinaryExpression _ k l \<Rightarrow> [k, l] | UnaryExpression _ k \<Rightarrow> [k] | CastExpression _ k \<Rightarrow> [k]
   | ConditionalExpression _ k l \<Rightarrow> [k, l] | ConditionalZExpression _ k \<Rightarrow> [k]
   | InstanceExpression k _ \<Rightarrow> [k] | _ \<Rightarrow> [])"

definition dedups :: "ir_form \<Rightarrow> bool" where
  "dedups f = (case f of
     ArrayStoreInstruction _ _ _ \<Rightarrow> True | InstanceInstruction _ _ \<Rightarrow> True
   | InvokeInstruction _ _ _ _ \<Rightarrow> True | InvokeStaticInstruction _ _ _ _ \<Rightarrow> True
   | ArrayLoadExpression _ _ \<Rightarrow> True | FilledArrayExpression _ \<Rightarrow> True
   | BinaryExpression _ _ _ \<Rightarrow> True | ConditionalExpression _ _ _ \<Rightarrow> True | _ \<Rightarrow> False)"

fun get_used_vars_to :: "nat \<Rightarrow> ir_heap \<Rightarrow> nat \<Rightarrow> string list result" where
  "get_used_vars_to 0 h a = endless"
| "get_used_vars_to (Suc d) h a =
     (let x = io h a; f = i_form x in
      case f of
        Variable v _ \<Rightarrow> Inr [v] | Param v \<Rightarrow> Inr [v] | ThisParam v \<Rightarrow> Inr [v]
      | AssignExpression _ r \<Rightarrow> (case r of Some b \<Rightarrow> get_used_vars_to d h b | None \<Rightarrow> Inr [])
      | _ \<Rightarrow>
        bind (collect_res (ask x [] (get_used_vars_to d h)) (used_keys f)) (\<lambda>vs.
          Inr (if dedups f then Dedup vs else vs)))"

definition is_const :: "ir_heap \<Rightarrow> nat \<Rightarrow> bool result" where "is_const h = is_const_to (depth h) h"
definition is_call :: "ir_heap \<Rightarrow> nat \<Rightarrow> bool result" where "is_call h = is_call_to (depth h) h"
definition is_propagable :: "ir_heap \<Rightarrow> nat \<Rightarrow> bool result" where "is_propagable h = is_propagable_to (depth h) h"
definition has_side_effect :: "ir_heap \<Rightarrow> nat \<Rightarrow> bool result" where "has_side_effect h = has_side_effect_to (depth h) h"
definition get_type :: "ir_heap \<Rightarrow> nat \<Rightarrow> string result" where "get_type h = get_type_to (depth h) h"
definition get_used_vars :: "ir_heap \<Rightarrow> nat \<Rightarrow> string list result" where "get_used_vars h = get_used_vars_to (depth h) h"

definition GetLhsId :: "ir_heap \<Rightarrow> nat \<Rightarrow> string option" where
  "GetLhsId h a = (case i_form (io h a) of
     AssignExpression l _ \<Rightarrow> l | MoveExpression l _ \<Rightarrow> Some l | MoveResultExpression l _ \<Rightarrow> Some l
   | MoveExceptionExpression r \<Rightarrow> Some r | _ \<Rightarrow> None)"

definition get_rhs :: "ir_heap \<Rightarrow> nat \<Rightarrow> nat list" where
  "get_rhs h a = (let x = io h a in
     case i_form x of
       AssignExpression _ r \<Rightarrow> (case r of Some b \<Rightarrow> [b] | None \<Rightarrow> [])
     | MoveExpression _ k \<Rightarrow> (case operand x k of Some b \<Rightarrow> [b] | None \<Rightarrow> [])
     | MoveResultExpression _ k \<Rightarrow> (case operand x k of Some b \<Rightarrow> [b] | None \<Rightarrow> [])
     | _ \<Rightarrow> [])"

section \<open>Updates\<close>

definition set_type :: "string \<Rightarrow> nat \<Rightarrow> ir_heap \<Rightarrow> ir_heap" where
  "set_type t a h = put_obj a ((io h a)\<lparr>i_type := t\<rparr>) h"

definition set_synthetic_vid :: "string \<Rightarrow> nat \<Rightarrow> ir_heap \<Rightarrow> ir_heap" where
  "set_synthetic_vid v a h = put_obj a ((io h a)\<lparr>i_synthetic := v\<rparr>) h"

definition set_encoded_type :: "nat \<Rightarrow> ir_heap \<Rightarrow> ir_heap" where
  "set_encoded_type a h =
     (case i_form (io h a) of
        Constant v i _ \<Rightarrow> put_obj a ((io h a)\<lparr>i_form := Constant v i True\<rparr>) h
      | _ \<Rightarrow> h)"

definition remove_defined_var :: "nat \<Rightarrow> ir_heap \<Rightarrow> ir_heap" where
  "remove_defined_var a h =
     (case i_form (io h a) of
        AssignExpression _ r \<Rightarrow> put_obj a ((io h a)\<lparr>i_form := AssignExpression None r\<rparr>) h
      | _ \<Rightarrow> h)"

definition CondsTable :: "(string \<times> string) list" where
  "CondsTable = [(''=='', ''!=''), (''!='', ''==''), (''<'', ''>=''), (''<='', ''>''), (''>='', ''<''), (''>'', ''<='')]"

definition Neg_op :: "string \<Rightarrow> string" where
  "Neg_op p = (case map_of CondsTable p of Some q \<Rightarrow> q | None \<Rightarrow> p)"

definition Neg :: "nat \<Rightarrow> ir_heap \<Rightarrow> ir_heap" where
  "Neg a h =
     (case i_form (io h a) of
        ConditionalExpression p k l \<Rightarrow> put_obj a ((io h a)\<lparr>i_form := ConditionalExpression (Neg_op p) k l\<rparr>) h
      | ConditionalZExpression p k \<Rightarrow> put_obj a ((io h a)\<lparr>i_form := ConditionalZExpression (Neg_op p) k\<rparr>) h
      | _ \<Rightarrow> h)"

text \<open>\<open>var_map[k] = n\<close> and \<open>var_map.erase(k)\<close>.\<close>

definition vmap_set :: "string \<Rightarrow> nat option \<Rightarrow> ir_obj \<Rightarrow> ir_obj" where
  "vmap_set k n x = x\<lparr>i_vmap := AList.update k n (i_vmap x)\<rparr>"

definition vmap_erase :: "string \<Rightarrow> ir_obj \<Rightarrow> ir_obj" where
  "vmap_erase k x = x\<lparr>i_vmap := AList.delete k (i_vmap x)\<rparr>"

definition replace_lhs :: "nat \<Rightarrow> nat option \<Rightarrow> ir_heap \<Rightarrow> ir_heap result" where
  "replace_lhs a new h =
     (let x = io h a;
          move = (\<lambda>con l r.
            let x1 = (if l \<noteq> r then vmap_erase l x else x) in
            Inr (put_obj a (case new of None \<Rightarrow> x1 | Some n \<Rightarrow> vmap_set (Vid h n) (Some n) (x1\<lparr>i_form := con (Vid h n) r\<rparr>)) h))
      in case i_form x of
        AssignExpression _ r \<Rightarrow>
          Inr (put_obj a (case new of
              None \<Rightarrow> x\<lparr>i_form := AssignExpression None r\<rparr>
            | Some n \<Rightarrow> vmap_set (Vid h n) (Some n) (x\<lparr>i_form := AssignExpression (Some (Vid h n)) r\<rparr>)) h)
      | MoveExpression l r \<Rightarrow> move MoveExpression l r
      | MoveResultExpression l r \<Rightarrow> move MoveResultExpression l r
      | MoveExceptionExpression k \<Rightarrow>
          (case new of
             None \<Rightarrow> Inr h
           | Some n \<Rightarrow> Inr (put_obj a (vmap_set (Vid h n) (Some n) ((vmap_erase k x)\<lparr>i_form := MoveExceptionExpression (Vid h n)\<rparr>)) h))
      | _ \<Rightarrow> throw ''replace_lhs not implemented'')"

text \<open>Renaming the keys of the classes with several operands.\<close>

definition rename_keys :: "string \<Rightarrow> string \<Rightarrow> ir_form \<Rightarrow> ir_form" where
  "rename_keys old new f =
     (let r = (\<lambda>k. if k = old then new else k) in
      case f of
        ArrayStoreInstruction k a i \<Rightarrow> ArrayStoreInstruction (r k) (r a) (r i)
      | InstanceInstruction l k \<Rightarrow> InstanceInstruction (r l) (r k)
      | InvokeInstruction nm rt b as \<Rightarrow> InvokeInstruction nm rt (r b) (map r as)
      | InvokeStaticInstruction nm rt b as \<Rightarrow> InvokeStaticInstruction nm rt (r b) (map r as)
      | ArrayLoadExpression a i \<Rightarrow> ArrayLoadExpression (r a) (r i)
      | FilledArrayExpression as \<Rightarrow> FilledArrayExpression (map r as)
      | BinaryExpression p k l \<Rightarrow> BinaryExpression p (r k) (r l)
      | ConditionalExpression p k l \<Rightarrow> ConditionalExpression p (r k) (r l)
      | _ \<Rightarrow> f)"

text \<open>The one operand of the classes that have one.\<close>

definition set_key :: "string \<Rightarrow> ir_form \<Rightarrow> ir_form" where
  "set_key k f = (case f of
     MoveExpression l _ \<Rightarrow> MoveExpression l k | MoveResultExpression l _ \<Rightarrow> MoveResultExpression l k
   | StaticInstruction _ \<Rightarrow> StaticInstruction k | ReturnInstruction _ \<Rightarrow> ReturnInstruction (Some k)
   | SwitchExpression _ \<Rightarrow> SwitchExpression k | CheckCastExpression _ \<Rightarrow> CheckCastExpression k
   | ArrayLengthExpression _ \<Rightarrow> ArrayLengthExpression k | NewArrayExpression _ \<Rightarrow> NewArrayExpression k
   | FillArrayExpression _ \<Rightarrow> FillArrayExpression k
   | MoveExceptionExpression _ \<Rightarrow> MoveExceptionExpression k | MonitorEnterExpression _ \<Rightarrow> MonitorEnterExpression k
   | MonitorExitExpression _ \<Rightarrow> MonitorExitExpression k | ThrowExpression _ \<Rightarrow> ThrowExpression k
   | UnaryExpression p _ \<Rightarrow> UnaryExpression p k | CastExpression p _ \<Rightarrow> CastExpression p k
   | ConditionalZExpression p _ \<Rightarrow> ConditionalZExpression p k
   | InstanceExpression _ t \<Rightarrow> InstanceExpression k t | _ \<Rightarrow> f)"

fun replace_var_to :: "nat \<Rightarrow> nat \<Rightarrow> string \<Rightarrow> nat option \<Rightarrow> ir_heap \<Rightarrow> ir_heap result" where
  "replace_var_to 0 a old new h = endless"
| "replace_var_to (Suc d) a old new h =
     (let x = io h a; f = i_form x;
          new_v = (case new of Some n \<Rightarrow> Vid h n | None \<Rightarrow> []);
          renamed = (let x1 = vmap_erase old (x\<lparr>i_form := rename_keys old new_v f\<rparr>) in
            Inr (put_obj a (case new of None \<Rightarrow> x1 | Some n \<Rightarrow> vmap_set new_v (Some n) x1) h));
          single = (case new of
              None \<Rightarrow> Inr h
            | Some n \<Rightarrow> Inr (put_obj a (vmap_set new_v (Some n) (vmap_erase old (x\<lparr>i_form := set_key new_v f\<rparr>))) h));
          move = (\<lambda>l. let x1 = (if l \<noteq> old then vmap_erase old x else x) in
            Inr (put_obj a (case new of None \<Rightarrow> x1 | Some n \<Rightarrow> vmap_set new_v (Some n) (x1\<lparr>i_form := set_key new_v f\<rparr>)) h))
      in case f of
        AssignExpression _ r \<Rightarrow> (case r of Some b \<Rightarrow> replace_var_to d b old new h | None \<Rightarrow> Inr h)
      | MoveExpression l _ \<Rightarrow> move l | MoveResultExpression l _ \<Rightarrow> move l
      | ArrayStoreInstruction _ _ _ \<Rightarrow> renamed | InstanceInstruction _ _ \<Rightarrow> renamed
      | InvokeInstruction _ _ _ _ \<Rightarrow> renamed | InvokeStaticInstruction _ _ _ _ \<Rightarrow> renamed
      | ArrayLoadExpression _ _ \<Rightarrow> renamed | FilledArrayExpression _ \<Rightarrow> renamed
      | BinaryExpression _ _ _ \<Rightarrow> renamed | ConditionalExpression _ _ _ \<Rightarrow> renamed
      | StaticInstruction _ \<Rightarrow>
          (let x1 = vmap_erase old (x\<lparr>i_form := StaticInstruction new_v\<rparr>) in
           Inr (put_obj a (case new of None \<Rightarrow> x1 | Some n \<Rightarrow> vmap_set new_v (Some n) x1) h))
      | ReturnInstruction _ \<Rightarrow> single | SwitchExpression _ \<Rightarrow> single | CheckCastExpression _ \<Rightarrow> single
      | ArrayLengthExpression _ \<Rightarrow> single | NewArrayExpression _ \<Rightarrow> single | FillArrayExpression _ \<Rightarrow> single
      | MoveExceptionExpression _ \<Rightarrow> single | MonitorEnterExpression _ \<Rightarrow> single
      | MonitorExitExpression _ \<Rightarrow> single | ThrowExpression _ \<Rightarrow> single
      | UnaryExpression _ _ \<Rightarrow> single | CastExpression _ _ \<Rightarrow> single
      | ConditionalZExpression _ _ \<Rightarrow> single | InstanceExpression _ _ \<Rightarrow> single
      | _ \<Rightarrow> throw ''replace_var not implemented'')"

definition replace_var :: "nat \<Rightarrow> string \<Rightarrow> nat option \<Rightarrow> ir_heap \<Rightarrow> ir_heap result" where
  "replace_var a old new h = replace_var_to (depth h) a old new h"

text \<open>
  \<open>replace\<close>: an operand that is neither a constant nor a name is replaced into; otherwise the key is
  pointed at the new name, or the new object put under the old key. \<open>put_name\<close> is that last step,
  with the form the class gives itself; \<open>rec\<close> is the call on an operand.
\<close>

definition put_name :: "nat \<Rightarrow> string \<Rightarrow> nat option \<Rightarrow> (string \<Rightarrow> ir_form) \<Rightarrow> ir_heap \<Rightarrow> ir_heap" where
  "put_name a old new con h =
     (let x = io h a in
      case new of
        Some n \<Rightarrow> if is_ident h n then put_obj a ((vmap_set (Vid h n) (Some n) x)\<lparr>i_form := con (Vid h n)\<rparr>) h
                  else put_obj a (vmap_set old (Some n) x) h
      | None \<Rightarrow> put_obj a (vmap_set old None x) h)"

definition compound :: "ir_heap \<Rightarrow> nat \<Rightarrow> bool result" where
  "compound h b = bind (is_const h b) (\<lambda>c. Inr (\<not> (c \<or> is_ident h b)))"

definition replace_one ::
    "(nat \<Rightarrow> string \<Rightarrow> nat option \<Rightarrow> ir_heap \<Rightarrow> ir_heap result)
       \<Rightarrow> bool \<Rightarrow> nat \<Rightarrow> string \<Rightarrow> string \<Rightarrow> nat option \<Rightarrow> ir_heap \<Rightarrow> ir_heap result" where
  "replace_one rec checked a k old new h =
     (let x = io h a in
      case operand x k of
        None \<Rightarrow> Inr h
      | Some b \<Rightarrow>
        bind (compound h b) (\<lambda>c.
          if c then rec b old new h
          else if checked \<and> map_of (i_vmap x) old = None then Inr h
          else Inr (put_name a old new (\<lambda>k. set_key k (i_form x)) h)))"

fun replace_each ::
    "(nat \<Rightarrow> string \<Rightarrow> nat option \<Rightarrow> ir_heap \<Rightarrow> ir_heap result)
       \<Rightarrow> nat \<Rightarrow> string list \<Rightarrow> string \<Rightarrow> nat option \<Rightarrow> ir_heap \<Rightarrow> ir_heap result" where
  "replace_each rec a [] old new h = Inr h"
| "replace_each rec a (k # ks) old new h =
     (case operand (io h a) k of
        None \<Rightarrow> replace_each rec a ks old new h
      | Some b \<Rightarrow>
        bind (compound h b) (\<lambda>c.
          if c then bind (rec b old new h) (replace_each rec a ks old new)
          else replace_each rec a ks old new h))"

definition replace_many ::
    "(nat \<Rightarrow> string \<Rightarrow> nat option \<Rightarrow> ir_heap \<Rightarrow> ir_heap result)
       \<Rightarrow> nat \<Rightarrow> string list \<Rightarrow> (string \<Rightarrow> ir_form) \<Rightarrow> string \<Rightarrow> nat option \<Rightarrow> ir_heap \<Rightarrow> ir_heap result" where
  "replace_many rec a ks con old new h =
     (case map_of (i_vmap (io h a)) old of
        Some arg \<Rightarrow>
          (case arg of
             Some b \<Rightarrow> bind (compound h b) (\<lambda>c. if c then rec b old new h else Inr (put_name a old new con h))
           | None \<Rightarrow> Inr (put_name a old new con h))
      | None \<Rightarrow> replace_each rec a ks old new h)"

fun replace_to :: "nat \<Rightarrow> nat \<Rightarrow> string \<Rightarrow> nat option \<Rightarrow> ir_heap \<Rightarrow> ir_heap result" where
  "replace_to 0 a old new h = endless"
| "replace_to (Suc d) a old new h =
     (let f = i_form (io h a);
          one = (\<lambda>checked k. replace_one (replace_to d) checked a k old new h);
          many = (\<lambda>ks. replace_many (replace_to d) a ks (\<lambda>k. rename_keys old k f) old new h)
      in case f of
        AssignExpression _ r \<Rightarrow> (case r of Some b \<Rightarrow> replace_to d b old new h | None \<Rightarrow> Inr h)
      | MoveExpression _ k \<Rightarrow> one False k | MoveResultExpression _ k \<Rightarrow> one False k
      | ArrayStoreInstruction r b i \<Rightarrow>
          replace_many (replace_to d) a [b, i, r]
            (\<lambda>k. ArrayStoreInstruction (if r = old then k else r) (if i = old \<or> b = old then k else b) i) old new h
      | InstanceInstruction l r \<Rightarrow> many [l, r]
      | InvokeInstruction _ _ b as \<Rightarrow> many (b # as) | InvokeStaticInstruction _ _ b as \<Rightarrow> many (b # as)
      | ArrayLoadExpression b i \<Rightarrow> many [b, i] | FilledArrayExpression as \<Rightarrow> many as
      | BinaryExpression _ k l \<Rightarrow> many [k, l] | ConditionalExpression _ k l \<Rightarrow> many [k, l]
      | StaticInstruction k \<Rightarrow> one False k
      | ReturnInstruction k \<Rightarrow> (case k of None \<Rightarrow> Inr h | Some k \<Rightarrow> one False k)
      | SwitchExpression k \<Rightarrow> one False k | CheckCastExpression k \<Rightarrow> one False k
      | ArrayLengthExpression k \<Rightarrow> one False k | NewArrayExpression k \<Rightarrow> one False k
      | FillArrayExpression k \<Rightarrow> one False k
      | MoveExceptionExpression k \<Rightarrow> one False k | MonitorEnterExpression k \<Rightarrow> one False k
      | MonitorExitExpression k \<Rightarrow> one False k | ThrowExpression k \<Rightarrow> one False k
      | UnaryExpression _ k \<Rightarrow> one True k | CastExpression _ k \<Rightarrow> one True k
      | ConditionalZExpression _ k \<Rightarrow> one True k | InstanceExpression k _ \<Rightarrow> one True k
      | NewInstance \<Rightarrow> Inr h | StaticExpression _ \<Rightarrow> Inr h
      | _ \<Rightarrow> throw ''replace not implemented'')"

definition replace :: "nat \<Rightarrow> string \<Rightarrow> nat option \<Rightarrow> ir_heap \<Rightarrow> ir_heap result" where
  "replace a old new h = replace_to (depth h) a old new h"

section \<open>Constructors\<close>

text \<open>
  A \<open>double\<close> is given by its text and its truncation. The operands of the constructors are live
  objects unless they are options.
\<close>

datatype constant_value = IntValue int | RealValue string int | StringValue string

fun nat_text :: "nat \<Rightarrow> string" where
  "nat_text n = (if n < 10 then [char_of (48 + n)] else nat_text (n div 10) @ [char_of (48 + n mod 10)])"

declare nat_text.simps [simp del]

definition int_text :: "int \<Rightarrow> string" where
  "int_text i = (if i < 0 then CHR ''-'' # nat_text (nat (- i)) else nat_text (nat i))"

definition PyStrLike :: "constant_value \<Rightarrow> string" where
  "PyStrLike v = (case v of IntValue i \<Rightarrow> int_text i | RealValue t _ \<Rightarrow> t | StringValue t \<Rightarrow> t)"

definition new_Constant :: "constant_value \<Rightarrow> string \<Rightarrow> int option \<Rightarrow> ir_heap \<Rightarrow> nat \<times> ir_heap" where
  "new_Constant v t iv h =
     new_obj (Constant (''c'' @ PyStrLike v)
        (case iv of Some i \<Rightarrow> i | None \<Rightarrow> (case v of IntValue i \<Rightarrow> i | RealValue _ i \<Rightarrow> i | StringValue _ \<Rightarrow> 0)) False) t [] h"

definition new_BaseClass :: "string \<Rightarrow> ir_heap \<Rightarrow> nat \<times> ir_heap" where
  "new_BaseClass nm h = new_obj (BaseClass (''c'' @ nm)) [] [] h"

definition named :: "string \<Rightarrow> nat \<times> ir_heap \<Rightarrow> nat \<times> ir_heap" where
  "named nm r = (fst r, put_obj (fst r) ((io (snd r) (fst r))\<lparr>i_name := nm\<rparr>) (snd r))"

definition new_Variable :: "string \<Rightarrow> ir_heap \<Rightarrow> nat \<times> ir_heap" where
  "new_Variable v h = named v (new_obj (Variable v False) [] [] h)"

definition new_Param :: "string \<Rightarrow> string \<Rightarrow> ir_heap \<Rightarrow> nat \<times> ir_heap" where
  "new_Param v t h = named v (new_obj (Param v) t [] h)"

definition new_ThisParam :: "string \<Rightarrow> string \<Rightarrow> ir_heap \<Rightarrow> nat \<times> ir_heap" where
  "new_ThisParam v t h = named v (new_obj (ThisParam v) t [] h)"

definition vmap_of :: "ir_heap \<Rightarrow> nat list \<Rightarrow> (string \<times> nat option) list" where
  "vmap_of h as = fold (\<lambda>a m. AList.update (Vid h a) (Some a) m) as []"

definition new_AssignExpression :: "nat option \<Rightarrow> nat option \<Rightarrow> ir_heap \<Rightarrow> (nat \<times> ir_heap) result" where
  "new_AssignExpression lhs rhs h =
     (case lhs of
        None \<Rightarrow> Inr (new_obj (AssignExpression None rhs) [] [] h)
      | Some l \<Rightarrow>
        (case rhs of
           None \<Rightarrow> Inl (Oob 0)
         | Some r \<Rightarrow>
           let (a, h1) = new_obj (AssignExpression (Some (Vid h l)) rhs) [] (vmap_of h [l]) h
           in bind (get_type h r) (\<lambda>t. Inr (a, set_type t l h1))))"

definition new_move :: "(string \<Rightarrow> string \<Rightarrow> ir_form) \<Rightarrow> nat option \<Rightarrow> nat option \<Rightarrow> ir_heap \<Rightarrow> (nat \<times> ir_heap) result" where
  "new_move con lhs rhs h =
     (case (lhs, rhs) of
        (Some l, Some r) \<Rightarrow>
          let (a, h1) = new_obj (con (Vid h l) (Vid h r)) [] (vmap_of h [l, r]) h
          in bind (get_type h r) (\<lambda>t. Inr (a, set_type t l h1))
      | _ \<Rightarrow> throw ''malformed bytecode: null operand to MoveExpression'')"

definition new_MoveExpression :: "nat option \<Rightarrow> nat option \<Rightarrow> ir_heap \<Rightarrow> (nat \<times> ir_heap) result" where
  "new_MoveExpression = new_move MoveExpression"

definition new_MoveResultExpression :: "nat option \<Rightarrow> nat option \<Rightarrow> ir_heap \<Rightarrow> (nat \<times> ir_heap) result" where
  "new_MoveResultExpression = new_move MoveResultExpression"

definition new_ArrayStoreInstruction :: "nat \<Rightarrow> nat \<Rightarrow> nat \<Rightarrow> string \<Rightarrow> ir_heap \<Rightarrow> nat \<times> ir_heap" where
  "new_ArrayStoreInstruction rhs array index t h =
     new_obj (ArrayStoreInstruction (Vid h rhs) (Vid h array) (Vid h index)) t (vmap_of h [rhs, array, index]) h"

definition new_StaticInstruction :: "nat \<Rightarrow> ir_heap \<Rightarrow> nat \<times> ir_heap" where
  "new_StaticInstruction rhs h = new_obj (StaticInstruction (Vid h rhs)) [] (vmap_of h [rhs]) h"

definition new_InstanceInstruction :: "nat \<Rightarrow> nat \<Rightarrow> ir_heap \<Rightarrow> nat \<times> ir_heap" where
  "new_InstanceInstruction rhs lhs h =
     new_obj (InstanceInstruction (Vid h lhs) (Vid h rhs)) [] (vmap_of h [lhs, rhs]) h"

definition new_NewInstance :: "string \<Rightarrow> ir_heap \<Rightarrow> nat \<times> ir_heap" where
  "new_NewInstance t h = new_obj NewInstance t [] h"

definition new_InvokeInstruction ::
    "(string \<Rightarrow> string \<Rightarrow> string \<Rightarrow> string list \<Rightarrow> ir_form) \<Rightarrow> string \<Rightarrow> nat \<Rightarrow> string \<Rightarrow> nat list \<Rightarrow> string
       \<Rightarrow> ir_heap \<Rightarrow> (nat \<times> ir_heap) result" where
  "new_InvokeInstruction con nm base rt as triple_name h =
     (if triple_name \<noteq> nm then throw ''InvokeInstruction: triple[1] != name''
      else Inr (new_obj (con nm rt (Vid h base) (map (Vid h) as)) [] (vmap_of h (base # as)) h))"

text \<open>The range form takes its base from the arguments; without any it reads through a null pointer.\<close>

definition new_InvokeRangeInstruction :: "string \<Rightarrow> string \<Rightarrow> nat list \<Rightarrow> string \<Rightarrow> ir_heap \<Rightarrow> (nat \<times> ir_heap) result" where
  "new_InvokeRangeInstruction nm rt as triple_name h =
     (case as of
        [] \<Rightarrow> Inl (Oob 0)
      | b # bs \<Rightarrow> new_InvokeInstruction InvokeInstruction nm b rt bs triple_name h)"

definition new_ReturnInstruction :: "nat option \<Rightarrow> ir_heap \<Rightarrow> nat \<times> ir_heap" where
  "new_ReturnInstruction arg h =
     (case arg of None \<Rightarrow> new_obj (ReturnInstruction None) [] [] h
                | Some a \<Rightarrow> new_obj (ReturnInstruction (Some (Vid h a))) [] (vmap_of h [a]) h)"

text \<open>The expressions with one operand and those with two: the class is \<open>con\<close>, the type it stores \<open>t\<close>.\<close>

definition new_unary :: "(string \<Rightarrow> ir_form) \<Rightarrow> nat \<Rightarrow> string \<Rightarrow> ir_heap \<Rightarrow> nat \<times> ir_heap" where
  "new_unary con a t h = new_obj (con (Vid h a)) t (vmap_of h [a]) h"

definition new_binary :: "(string \<Rightarrow> string \<Rightarrow> ir_form) \<Rightarrow> nat \<Rightarrow> nat \<Rightarrow> string \<Rightarrow> ir_heap \<Rightarrow> nat \<times> ir_heap" where
  "new_binary con a b t h = new_obj (con (Vid h a) (Vid h b)) t (vmap_of h [a, b]) h"

definition new_SwitchExpression :: "nat \<Rightarrow> ir_heap \<Rightarrow> nat \<times> ir_heap" where
  "new_SwitchExpression src = new_unary SwitchExpression src []"

definition new_CheckCastExpression :: "nat \<Rightarrow> string \<Rightarrow> ir_heap \<Rightarrow> nat \<times> ir_heap" where
  "new_CheckCastExpression a descriptor = new_unary CheckCastExpression a descriptor"

definition new_ArrayLoadExpression :: "nat \<Rightarrow> nat \<Rightarrow> string \<Rightarrow> ir_heap \<Rightarrow> nat \<times> ir_heap" where
  "new_ArrayLoadExpression array index t = new_binary ArrayLoadExpression array index t"

definition new_ArrayLengthExpression :: "nat \<Rightarrow> ir_heap \<Rightarrow> nat \<times> ir_heap" where
  "new_ArrayLengthExpression array = new_unary ArrayLengthExpression array []"

definition new_NewArrayExpression :: "nat \<Rightarrow> string \<Rightarrow> ir_heap \<Rightarrow> nat \<times> ir_heap" where
  "new_NewArrayExpression asize t = new_unary NewArrayExpression asize t"

definition new_FilledArrayExpression :: "string \<Rightarrow> nat list \<Rightarrow> ir_heap \<Rightarrow> nat \<times> ir_heap" where
  "new_FilledArrayExpression t as h = new_obj (FilledArrayExpression (map (Vid h) as)) t (vmap_of h as) h"

definition new_FillArrayExpression :: "nat \<Rightarrow> ir_heap \<Rightarrow> nat \<times> ir_heap" where
  "new_FillArrayExpression reg = new_unary FillArrayExpression reg []"

definition new_MoveExceptionExpression :: "nat \<Rightarrow> string \<Rightarrow> ir_heap \<Rightarrow> nat \<times> ir_heap" where
  "new_MoveExceptionExpression ref t h =
     (let (a, h1) = new_unary MoveExceptionExpression ref t h in (a, set_type t ref h1))"

definition new_RefExpression :: "(string \<Rightarrow> ir_form) \<Rightarrow> nat \<Rightarrow> ir_heap \<Rightarrow> nat \<times> ir_heap" where
  "new_RefExpression con ref = new_unary con ref []"

definition new_BinaryExpression :: "string \<Rightarrow> nat \<Rightarrow> nat \<Rightarrow> string \<Rightarrow> ir_heap \<Rightarrow> nat \<times> ir_heap" where
  "new_BinaryExpression p a b t = new_binary (BinaryExpression p) a b t"

definition new_BinaryExpressionLit :: "string \<Rightarrow> nat \<Rightarrow> nat \<Rightarrow> ir_heap \<Rightarrow> nat \<times> ir_heap" where
  "new_BinaryExpressionLit p a b = new_BinaryExpression p a b ''I''"

definition new_UnaryExpression :: "string \<Rightarrow> nat \<Rightarrow> string \<Rightarrow> ir_heap \<Rightarrow> nat \<times> ir_heap" where
  "new_UnaryExpression p a t = new_unary (UnaryExpression p) a t"

definition new_CastExpression :: "string \<Rightarrow> string \<Rightarrow> nat \<Rightarrow> ir_heap \<Rightarrow> nat \<times> ir_heap" where
  "new_CastExpression p t a = new_unary (CastExpression p) a t"

definition new_ConditionalExpression :: "string \<Rightarrow> nat \<Rightarrow> nat \<Rightarrow> ir_heap \<Rightarrow> nat \<times> ir_heap" where
  "new_ConditionalExpression p a b = new_binary (ConditionalExpression p) a b []"

definition new_ConditionalZExpression :: "string \<Rightarrow> nat \<Rightarrow> ir_heap \<Rightarrow> nat \<times> ir_heap" where
  "new_ConditionalZExpression p a = new_unary (ConditionalZExpression p) a []"

definition new_InstanceExpression :: "nat \<Rightarrow> string \<Rightarrow> ir_heap \<Rightarrow> nat \<times> ir_heap" where
  "new_InstanceExpression a ft = new_unary (\<lambda>k. InstanceExpression k ft) a []"

definition new_StaticExpression :: "string \<Rightarrow> ir_heap \<Rightarrow> nat \<times> ir_heap" where
  "new_StaticExpression ft h = new_obj (StaticExpression ft) [] [] h"

section \<open>Constants in a typed position\<close>

datatype const_context = CtxOperand | CtxValue | CtxArgument

datatype const_literal = LitBool int | LitNull int | LitNullCast int | LitFloat int | LitDouble int | LitNarrowCast int char

definition IsBitwiseOp :: "string \<Rightarrow> bool" where
  "IsBitwiseOp p \<longleftrightarrow> p = ''|'' \<or> p = ''&'' \<or> p = ''^''"

definition AsNarrowConst :: "ir_obj option \<Rightarrow> int option" where
  "AsNarrowConst f = (case f of
     None \<Rightarrow> None
   | Some x \<Rightarrow> (case i_form x of
       Constant _ i _ \<Rightarrow> if i_type x \<in> {''I'', ''B'', ''S'', ''C''} then Some i else None
     | _ \<Rightarrow> None))"

definition BitwiseBoolConstant :: "string \<Rightarrow> string \<Rightarrow> ir_obj option \<Rightarrow> bool option" where
  "BitwiseBoolConstant p expr_type f =
     (if \<not> IsBitwiseOp p \<or> expr_type \<noteq> ''Z'' then None
      else case AsNarrowConst f of
        None \<Rightarrow> None
      | Some i \<Rightarrow> if i \<noteq> 0 \<and> i \<noteq> 1 then None else Some (i = 1))"

definition ConstantAt :: "const_context \<Rightarrow> string \<Rightarrow> ir_obj option \<Rightarrow> const_literal option" where
  "ConstantAt ctx pt f = (case f of
     None \<Rightarrow> None
   | Some x \<Rightarrow> (case i_form x of
       Constant _ v enc \<Rightarrow>
         if enc \<or> pt = [] then None
         else if i_type x \<notin> {''I'', ''J'', ''B'', ''S'', ''C''} then None
         else if pt = ''F'' then Some (LitFloat v)
         else if pt = ''D'' then Some (LitDouble v)
         else if ctx = CtxOperand then None
         else if pt = ''Z'' then (if v = 0 \<or> v = 1 then Some (LitBool v) else None)
         else if hd pt = CHR ''L'' \<or> hd pt = CHR ''['' then
           (if v = 0 then Some (if ctx = CtxArgument then LitNullCast v else LitNull v) else None)
         else if ctx = CtxArgument \<and> i_type x = ''I'' \<and>
            (pt = ''B'' \<and> v \<ge> - 128 \<and> v \<le> 127 \<or> pt = ''S'' \<and> v \<ge> - 32768 \<and> v \<le> 32767 \<or> pt = ''C'' \<and> v \<ge> 0 \<and> v \<le> 65535)
         then Some (LitNarrowCast v (hd pt))
         else None
     | _ \<Rightarrow> None))"

definition ArrayStorePositionType :: "string \<Rightarrow> string \<Rightarrow> string" where
  "ArrayStorePositionType kind array_type =
     (let elem = (if length array_type \<ge> 2 \<and> hd array_type = CHR ''['' then tl array_type else []) in
      if kind \<in> {''Z'', ''B'', ''C'', ''S''} then kind
      else if kind = ''O'' then
        (if elem \<noteq> [] \<and> (hd elem = CHR ''L'' \<or> hd elem = CHR ''['') then elem else ''Ljava/lang/Object;'')
      else if elem = ''F'' \<or> elem = ''D'' then elem
      else [])"

end
