(* ===== verification/Dataflow_Passes.thy ===== *)
theory Dataflow_Passes
  imports Dataflow Dad_Ir
begin

text \<open>
  The passes of \<open>dataflow.cpp\<close> that rewrite instructions: dead code, the propagation of registers, and
  the placement of declarations. An instruction is the address of its object.

  The passes share a state: the objects, the nodes, the graph and the two chains. A query that recurses
  without end, on operands with a cycle, ends a pass with \<open>endless\<close>. \<open>UpdateChain\<close> calls itself;
  \<open>UpdateChain_to\<close> bounds the depth, and the entries of \<open>ud\<close> are enough. The loop of
  \<open>RegisterPropagation\<close> has no bound in the source and is a \<open>partial_function\<close>.
\<close>

text \<open>
  For the analyses, which have no errors, an instruction whose operands have a cycle uses nothing;
  what is proved of them together with a pass is about heaps without cycles (\<open>heap_ok\<close>).
\<close>

definition dad_ops :: "(nat, ir_heap) ir_ops" where
  "dad_ops = \<lparr>ir_lhs_id = GetLhsId, ir_used_vars = (\<lambda>h a. case get_used_vars h a of Inr vs \<Rightarrow> vs | Inl e \<Rightarrow> [])\<rparr>"

record passes =
  ps_heap :: ir_heap
  ps_store :: "nat store"
  ps_graph :: "nat graph"
  ps_du :: chain_map
  ps_ud :: chain_map

section \<open>Shared steps\<close>

text \<open>\<open>EraseFirst(m[k], v)\<close>, which makes the entry when it is not there.\<close>

definition chain_erase :: "string \<times> int \<Rightarrow> int \<Rightarrow> chain_map \<Rightarrow> chain_map" where
  "chain_erase k v m = AList.update k (remove1 v (chain_at m k)) m"

definition drop_if_empty :: "string \<times> int \<Rightarrow> chain_map \<Rightarrow> chain_map" where
  "drop_if_empty k m = (if chain_at m k = [] then AList.delete k m else m)"

definition drop_ins :: "int \<Rightarrow> passes \<Rightarrow> passes" where
  "drop_ins loc st =
     (let (s, g) = remove_ins loc (ps_store st) (ps_graph st) in st\<lparr>ps_store := s, ps_graph := g\<rparr>)"

definition forget_def :: "nat \<Rightarrow> passes \<Rightarrow> passes" where
  "forget_def ins st = st\<lparr>ps_heap := remove_defined_var ins (ps_heap st)\<rparr>"

fun fold_res :: "('a \<Rightarrow> 's \<Rightarrow> 's result) \<Rightarrow> 'a list \<Rightarrow> 's \<Rightarrow> 's result" where
  "fold_res f [] s = Inr s"
| "fold_res f (x # xs) s = bind (f x s) (fold_res f xs)"

text \<open>A loop that stops at the first element that fails the test.\<close>

fun all_res :: "('a \<Rightarrow> bool result) \<Rightarrow> 'a list \<Rightarrow> bool result" where
  "all_res f [] = Inr True"
| "all_res f (x # xs) = bind (f x) (\<lambda>b. if b then all_res f xs else Inr False)"

section \<open>Dead code\<close>

text \<open>One definition of a use: the pair leaves both chains, and a definition without uses goes.\<close>

definition update_def ::
    "(int \<Rightarrow> passes \<Rightarrow> passes result) \<Rightarrow> string \<Rightarrow> int \<Rightarrow> int \<Rightarrow> passes \<Rightarrow> passes result" where
  "update_def rec var loc def_loc st =
     (let du1 = chain_erase (var, def_loc) loc (ps_du st);
          ud1 = drop_if_empty (var, loc) (chain_erase (var, loc) def_loc (ps_ud st));
          st1 = st\<lparr>ps_du := du1, ps_ud := ud1\<rparr>
      in if def_loc \<ge> 0 \<and> chain_at du1 (var, def_loc) = [] then
           let st2 = st1\<lparr>ps_du := AList.delete (var, def_loc) du1\<rparr> in
           case get_ins_from_loc def_loc (ps_graph st2) of
             None \<Rightarrow> Inr st2
           | Some def_ins \<Rightarrow>
             bind (is_call (ps_heap st2) def_ins) (\<lambda>call.
               if call then Inr (forget_def def_ins st2)
               else bind (has_side_effect (ps_heap st2) def_ins) (\<lambda>effect.
                 if effect then Inr st2
                 else bind (rec def_loc st2) (\<lambda>st3. Inr (drop_ins def_loc st3))))
         else Inr st1)"

definition update_var ::
    "(int \<Rightarrow> passes \<Rightarrow> passes result) \<Rightarrow> int \<Rightarrow> string \<Rightarrow> passes \<Rightarrow> passes result" where
  "update_var rec loc var st =
     fold_res (update_def rec var loc) (sorted_list_of_set (set (chain_at (ps_ud st) (var, loc)))) st"

fun UpdateChain_to :: "nat \<Rightarrow> int \<Rightarrow> passes \<Rightarrow> passes result" where
  "UpdateChain_to 0 loc st = endless"
| "UpdateChain_to (Suc d) loc st =
     (case get_ins_from_loc loc (ps_graph st) of
        None \<Rightarrow> Inr st
      | Some ins \<Rightarrow>
        bind (get_used_vars (ps_heap st) ins) (\<lambda>vs. fold_res (update_var (UpdateChain_to d) loc) vs st))"

definition chain_size :: "chain_map \<Rightarrow> nat" where
  "chain_size m = sum_list (map (length \<circ> snd) m)"

definition UpdateChain :: "int \<Rightarrow> passes \<Rightarrow> passes result" where
  "UpdateChain loc st = UpdateChain_to (Suc (chain_size (ps_ud st))) loc st"

definition dead_ins :: "int \<times> nat \<Rightarrow> passes \<Rightarrow> passes result" where
  "dead_ins = (\<lambda>(i, ins) st.
     let reg = GetLhsKey dad_ops (ps_heap st) ins in
     if reg = [] then Inr st
     else if map_of (ps_du st) (reg, i) \<noteq> None then Inr st
     else bind (is_call (ps_heap st) ins) (\<lambda>call.
       if call then Inr (forget_def ins st)
       else bind (has_side_effect (ps_heap st) ins) (\<lambda>effect.
         if effect then Inr st
         else bind (UpdateChain i st) (\<lambda>st1. Inr (drop_ins i st1)))))"

definition DeadCodeElimination :: "passes \<Rightarrow> passes result" where
  "DeadCodeElimination st =
     fold_res (\<lambda>n st. fold_res dead_ins (LocWithIns (ps_store st) n) st) (g_rpo (ps_graph st)) st"

section \<open>Propagation\<close>

definition ClearPathNode :: "ir_heap \<Rightarrow> nat graph \<Rightarrow> string \<Rightarrow> int \<Rightarrow> int \<Rightarrow> bool result" where
  "ClearPathNode h g reg loc1 loc2 =
     all_res (\<lambda>loc. case get_ins_from_loc loc g of
         None \<Rightarrow> Inr True
       | Some ins \<Rightarrow>
         if reg \<noteq> [] \<and> GetLhsKey dad_ops h ins = reg then Inr False
         else bind (has_side_effect h ins) (\<lambda>effect. Inr (\<not> effect))) [loc1..loc2 - 1]"

definition block_range :: "nat store \<Rightarrow> nat \<Rightarrow> (int \<times> int) option" where
  "block_range s n = (if is_BasicBlock (n_class (heap s n)) then n_ins_range (heap s n) else None)"

definition ClearPath :: "ir_heap \<Rightarrow> nat store \<Rightarrow> nat graph \<Rightarrow> string \<Rightarrow> int \<Rightarrow> int \<Rightarrow> bool result" where
  "ClearPath h s g reg loc1 loc2 =
     (let node1 = get_node_from_loc loc1 g; node2 = get_node_from_loc loc2 g in
      if node1 = node2 then ClearPathNode h g reg (loc1 + 1) loc2
      else case Option.bind node1 (block_range s) of
          None \<Rightarrow> Inr False
        | Some (lo1, hi1) \<Rightarrow>
          bind (ClearPathNode h g reg (loc1 + 1) hi1) (\<lambda>b.
            if \<not> b then Inr False
            else all_res (\<lambda>p. case block_range s p of
                None \<Rightarrow> Inr True
              | Some (lo, hi) \<Rightarrow>
                ClearPathNode h g reg lo (if lo \<le> loc2 \<and> loc2 \<le> hi then loc2 else hi))
              (case node2 of None \<Rightarrow> [] | Some n2 \<Rightarrow> BuildPath g (the node1) n2)))"

text \<open>Whether the definition at \<open>loc\<close> may take the place of the use of \<open>var\<close> at \<open>i\<close>.\<close>

definition may_propagate :: "passes \<Rightarrow> string \<Rightarrow> int \<Rightarrow> int \<Rightarrow> nat \<Rightarrow> bool result" where
  "may_propagate st var i loc orig_ins =
     (let h = ps_heap st; clear = (\<lambda>reg. ClearPath h (ps_store st) (ps_graph st) reg loc i) in
      bind (is_propagable h orig_ins) (\<lambda>propagable.
        if \<not> propagable then Inr False
        else bind (case get_rhs h orig_ins of [] \<Rightarrow> Inr False | r # _ \<Rightarrow> is_const h r) (\<lambda>rhs_is_const.
          bind (if rhs_is_const then Inr True
                else case map_of (ps_du st) (var, loc) of
                    None \<Rightarrow> Inr False
                  | Some us \<Rightarrow>
                    if length us > 1 then Inr False
                    else bind (get_used_vars h orig_ins) (all_res clear)) (\<lambda>safe.
            if \<not> safe then Inr False
            else bind (has_side_effect h orig_ins) (\<lambda>effect. if effect then clear [] else Inr True)))))"

text \<open>The uses of the definition become uses of the instruction it went into.\<close>

definition move_use :: "int \<Rightarrow> int \<Rightarrow> string \<Rightarrow> chain_map \<times> chain_map \<Rightarrow> chain_map \<times> chain_map" where
  "move_use loc i var2 = (\<lambda>(du, ud).
     case map_of ud (var2, loc) of
       None \<Rightarrow> (du, ud)
     | Some old_ud \<Rightarrow>
       (fold (\<lambda>def_loc du. AList.update (var2, def_loc) (remove1 loc (chain_at du (var2, def_loc)) @ [i]) du) old_ud du,
        AList.delete (var2, loc) (chain_add (var2, i) old_ud ud)))"

definition propagate_def :: "int \<Rightarrow> nat \<Rightarrow> string \<Rightarrow> int \<Rightarrow> nat \<Rightarrow> passes \<Rightarrow> (passes \<times> bool) result" where
  "propagate_def i ins var loc orig_ins st =
     bind (case get_rhs (ps_heap st) orig_ins of [] \<Rightarrow> Inr (ps_heap st) | r # _ \<Rightarrow> replace ins var (Some r) (ps_heap st)) (\<lambda>h.
     bind (get_used_vars h orig_ins) (\<lambda>vs.
       let ud1 = drop_if_empty (var, i) (chain_erase (var, i) loc (ps_ud st));
           (du2, ud2) = fold (move_use loc i) vs (ps_du st, ud1);
           du3 = chain_erase (var, loc) i du2;
           st' = st\<lparr>ps_heap := h, ps_ud := ud2\<rparr>
       in if chain_at du3 (var, loc) = []
          then Inr (drop_ins loc (st'\<lparr>ps_du := AList.delete (var, loc) du3\<rparr>), True)
          else Inr (st'\<lparr>ps_du := du3\<rparr>, False)))"

definition propagate_use :: "int \<Rightarrow> nat \<Rightarrow> string \<Rightarrow> passes \<times> bool \<Rightarrow> (passes \<times> bool) result" where
  "propagate_use i ins var = (\<lambda>(st, change).
     case map_of (ps_ud st) (var, i) of
       Some [loc] \<Rightarrow>
         if loc < 0 \<or> loc = i then Inr (st, change)
         else (case get_ins_from_loc loc (ps_graph st) of
             None \<Rightarrow> Inr (st, change)
           | Some orig_ins \<Rightarrow>
             bind (may_propagate st var i loc orig_ins) (\<lambda>may.
               if may then bind (propagate_def i ins var loc orig_ins st) (\<lambda>(st', c). Inr (st', change \<or> c))
               else Inr (st, change)))
     | _ \<Rightarrow> Inr (st, change))"

definition propagation_pass :: "passes \<Rightarrow> (passes \<times> bool) result" where
  "propagation_pass st =
     fold_res (\<lambda>n a. fold_res (\<lambda>(i, ins) a.
         bind (get_used_vars (ps_heap (fst a)) ins) (\<lambda>vs. fold_res (propagate_use i ins) vs a))
       (LocWithIns (ps_store (fst a)) n) a) (g_rpo (ps_graph st)) (st, False)"

partial_function (option) RegisterPropagation :: "passes \<Rightarrow> passes result option" where
  "RegisterPropagation st =
     (case propagation_pass st of
        Inl e \<Rightarrow> Some (Inl e)
      | Inr (st', change) \<Rightarrow> if change then RegisterPropagation st' else Some (Inr st'))"

section \<open>Declarations\<close>

text \<open>
  The dominator tree is \<open>idom\<close>; the order in which the set of nodes with a definition is folded
  stands for that of the hash set.
\<close>

fun fold_dom :: "nat store \<Rightarrow> idoms \<Rightarrow> nat option \<Rightarrow> nat list \<Rightarrow> nat option option" where
  "fold_dom s idom c [] = Some c"
| "fold_dom s idom c (n # ns) = Option.bind (CommonDom s idom c (Some n)) (\<lambda>c'. fold_dom s idom c' ns)"

definition def_nodes :: "nat store \<Rightarrow> nat graph \<Rightarrow> idoms \<Rightarrow> int list \<Rightarrow> nat list" where
  "def_nodes s g idom locs =
     remdups (filter (\<lambda>n. \<not> n_in_catch (heap s n) \<and> \<not> (map_of idom n = None \<and> g_entry g \<noteq> Some n))
       (List.map_filter (\<lambda>loc. get_node_from_loc loc g) locs))"

definition declare_use :: "(string \<times> nat) list \<Rightarrow> idoms \<Rightarrow> int \<Rightarrow> string \<Rightarrow> passes \<Rightarrow> passes result" where
  "declare_use dvars idom loc var st =
     (let h = ps_heap st; s = ps_store st; g = ps_graph st in
      case map_of dvars var of
        None \<Rightarrow> Inr st
      | Some v \<Rightarrow>
        (case i_form (io h v) of
           Variable _ _ \<Rightarrow>
             (case map_of (ps_ud st) (var, loc) of
                None \<Rightarrow> Inr st
              | Some locs \<Rightarrow>
                (case def_nodes s g idom locs of
                   [] \<Rightarrow> Inr st
                 | n # ns \<Rightarrow>
                   (case fold_dom s idom (Some n) ns of
                      None \<Rightarrow> endless
                    | Some c \<Rightarrow>
                      (case Option.bind c (block_range s) of
                         None \<Rightarrow> Inr st
                       | Some (lo, hi) \<Rightarrow>
                         if list_ex (\<lambda>l. lo \<le> l \<and> l < hi) locs then Inr st
                         else Inr (st\<lparr>ps_store := modify (the c) (add_variable_declaration v) s\<rparr>)))))
         | _ \<Rightarrow> Inr st))"

definition PlaceDeclarations :: "(string \<times> nat) list \<Rightarrow> idoms \<Rightarrow> passes \<Rightarrow> passes result" where
  "PlaceDeclarations dvars idom st =
     (let (order, s) = post_order (ps_store st) (ps_graph st) in
      fold_res (\<lambda>n st. fold_res (\<lambda>(loc, ins) st.
          bind (get_used_vars (ps_heap st) ins) (\<lambda>vs. fold_res (declare_use dvars idom loc) vs st))
        (LocWithIns (ps_store st) n) st) order (st\<lparr>ps_store := s\<rparr>))"

end
