(* ===== verification/Dad_Ir_Laws.thy ===== *)
theory Dad_Ir_Laws
  imports Dad_Ir
begin

text \<open>
  The queries of the instruction objects answer on every heap whose operands have no cycle, and the
  loss of a left-hand side changes none of them.
\<close>

definition children :: "ir_heap \<Rightarrow> nat \<Rightarrow> nat set" where
  "children h a =
     {b. Some b \<in> snd ` set (i_vmap (io h a))} \<union>
     (case i_form (io h a) of AssignExpression _ (Some b) \<Rightarrow> {b} | _ \<Rightarrow> {})"

text \<open>The operands are allocated, and no object is an operand of itself, directly or not.\<close>

definition heap_ok :: "ir_heap \<Rightarrow> bool" where
  "heap_ok h \<longleftrightarrow> (\<forall>a. children h a \<subseteq> {..<io_next h}) \<and> acyclic {(b, a). b \<in> children h a}"

definition answers :: "'a result \<Rightarrow> bool" where
  "answers r \<longleftrightarrow> (\<exists>x. r = Inr x)"

lemma answers_Inr [simp]: "answers (Inr x)"
  by (simp add: answers_def)

lemma answers_bind: "answers m \<Longrightarrow> (\<And>x. answers (f x)) \<Longrightarrow> answers (bind m f)"
  by (auto simp: answers_def)

section \<open>The depth of a heap without cycles\<close>

definition below :: "ir_heap \<Rightarrow> nat \<Rightarrow> nat set" where
  "below h a = {b. (b, a) \<in> {(b, a). b \<in> children h a}\<^sup>+}"

lemma below_child:
  assumes "heap_ok h" "b \<in> children h a"
  shows "card (below h b) < card (below h a)"
proof -
  let ?r = "{(b, a). b \<in> children h a}"
  have dom: "x < io_next h" if "(x, y) \<in> ?r\<^sup>+" for x y
    using that assms(1) by (induction rule: trancl_induct) (auto simp: heap_ok_def)
  then have "below h a \<subseteq> {..<io_next h}" by (auto simp: below_def)
  then have fin: "finite (below h a)" by (rule finite_subset) simp
  have step: "(b, a) \<in> ?r" using assms(2) by simp
  have "b \<in> below h a" using step by (simp add: below_def r_into_trancl)
  moreover have "b \<notin> below h b" using assms(1) by (auto simp: below_def heap_ok_def acyclic_def)
  moreover have "below h b \<subseteq> below h a"
    using trancl_into_trancl [OF _ step] by (auto simp: below_def)
  ultimately show ?thesis using fin by (intro psubset_card_mono) auto
qed

lemma below_depth:
  assumes "heap_ok h"
  shows "card (below h a) < depth h"
proof -
  have "x < io_next h" if "(x, a) \<in> {(b, a). b \<in> children h a}\<^sup>+" for x
    using that assms by (induction rule: converse_trancl_induct) (auto simp: heap_ok_def)
  then have "below h a \<subseteq> {..<io_next h}" by (auto simp: below_def)
  then have "card (below h a) \<le> card {..<io_next h}" by (rule card_mono [rotated]) simp
  then show ?thesis by (simp add: depth_def)
qed

text \<open>A recursion through the operands that can do each step ends within the depth.\<close>

lemma answers_depth:
  assumes "heap_ok h" "\<And>d a. (\<And>b. b \<in> children h a \<Longrightarrow> answers (f d b)) \<Longrightarrow> answers (f (Suc d) a)"
  shows "answers (f (depth h) a)"
proof -
  have "card (below h a) < d \<Longrightarrow> answers (f d a)" for d a
  proof (induction d arbitrary: a)
    case (Suc d)
    show ?case
    proof (rule assms(2))
      fix b assume "b \<in> children h a"
      from below_child [OF assms(1) this] Suc.prems show "answers (f d b)" by (intro Suc.IH) simp
    qed
  qed simp
  then show ?thesis using below_depth [OF assms(1)] by blast
qed

section \<open>The queries answer\<close>

lemma children_operand: "operand (io h a) k = Some b \<Longrightarrow> b \<in> children h a"
  by (force simp: operand_def children_def image_iff dest: map_of_SomeD split: option.splits)

lemma children_assign: "i_form (io h a) = AssignExpression l (Some b) \<Longrightarrow> b \<in> children h a"
  by (simp add: children_def)

lemma answers_ask:
  assumes "\<And>b. b \<in> children h a \<Longrightarrow> answers (f b)"
  shows "answers (ask (io h a) none f k)"
  using assms children_operand by (auto simp: ask_def split: option.split)

lemma answers_assign:
  assumes "\<And>b. b \<in> children h a \<Longrightarrow> answers (f b)" "i_form (io h a) = AssignExpression l r"
  shows "answers (case r of Some b \<Rightarrow> f b | None \<Rightarrow> Inr none)"
  using assms children_assign by (auto split: option.split)

lemma answers_collect: "(\<And>k. answers (f k)) \<Longrightarrow> answers (collect_res f ks)"
  by (induction ks) (auto intro!: answers_bind)

lemma is_const_answers: "heap_ok h \<Longrightarrow> answers (is_const h a)"
  unfolding is_const_def
proof (rule answers_depth [where f = "\<lambda>d. is_const_to d h"])
  fix d a assume "\<And>b. b \<in> children h a \<Longrightarrow> answers (is_const_to d h b)"
  note q = answers_ask [OF this]
  show "answers (is_const_to (Suc d) h a)" by (cases "i_form (io h a)") (auto intro: q)
qed

lemma is_call_answers: "heap_ok h \<Longrightarrow> answers (is_call h a)"
  unfolding is_call_def
proof (rule answers_depth [where f = "\<lambda>d. is_call_to d h"])
  fix d a assume i: "\<And>b. b \<in> children h a \<Longrightarrow> answers (is_call_to d h b)"
  note q = answers_ask [OF i] answers_assign [OF i]
  show "answers (is_call_to (Suc d) h a)" by (cases "i_form (io h a)") (auto intro: q)
qed

lemma is_propagable_answers: "heap_ok h \<Longrightarrow> answers (is_propagable h a)"
  unfolding is_propagable_def
proof (rule answers_depth [where f = "\<lambda>d. is_propagable_to d h"])
  fix d a assume i: "\<And>b. b \<in> children h a \<Longrightarrow> answers (is_propagable_to d h b)"
  note q = answers_ask [OF i] answers_assign [OF i]
  show "answers (is_propagable_to (Suc d) h a)" by (cases "i_form (io h a)") (auto intro: q)
qed

lemma has_side_effect_answers: "heap_ok h \<Longrightarrow> answers (has_side_effect h a)"
  unfolding has_side_effect_def
proof (rule answers_depth [where f = "\<lambda>d. has_side_effect_to d h"])
  fix d a assume i: "\<And>b. b \<in> children h a \<Longrightarrow> answers (has_side_effect_to d h b)"
  note q = answers_ask [OF i] answers_assign [OF i]
  show "answers (has_side_effect_to (Suc d) h a)" by (cases "i_form (io h a)") (auto simp: Let_def intro!: q answers_bind)
qed

lemma get_type_answers: "heap_ok h \<Longrightarrow> answers (get_type h a)"
  unfolding get_type_def
proof (rule answers_depth [where f = "\<lambda>d. get_type_to d h"])
  fix d a assume "\<And>b. b \<in> children h a \<Longrightarrow> answers (get_type_to d h b)"
  note q = answers_ask [OF this]
  show "answers (get_type_to (Suc d) h a)" by (cases "i_form (io h a)") (auto simp: Let_def intro!: q answers_bind)
qed

lemma get_used_vars_answers: "heap_ok h \<Longrightarrow> answers (get_used_vars h a)"
  unfolding get_used_vars_def
proof (rule answers_depth [where f = "\<lambda>d. get_used_vars_to d h"])
  fix d a assume i: "\<And>b. b \<in> children h a \<Longrightarrow> answers (get_used_vars_to d h b)"
  note q = answers_collect [OF answers_ask [OF i]] answers_assign [OF i]
  have c: "answers (bind (collect_res (ask (io h a) [] (get_used_vars_to d h)) ks) (\<lambda>vs. Inr (g vs)))" for ks and g :: "string list \<Rightarrow> string list"
    by (intro answers_bind q(1) answers_Inr)
  show "answers (get_used_vars_to (Suc d) h a)" by (cases "i_form (io h a)") (auto simp: Let_def intro: q(2) c)
qed

lemmas queries_answer = is_call_answers has_side_effect_answers get_used_vars_answers

section \<open>The used variables are distinct\<close>

lemma Dedup_distinct: "distinct (Dedup vs)"
proof -
  have "distinct out \<Longrightarrow> distinct (fold (\<lambda>s out. if s \<in> set out then out else out @ [s]) vs out)" for out
    by (induction vs arbitrary: out) auto
  then show ?thesis by (simp add: Dedup_def)
qed

text \<open>A class that does not drop repetitions has at most one operand.\<close>

lemma used_keys_short: "\<not> dedups f \<Longrightarrow> length (used_keys f) \<le> 1"
  by (cases f) (auto simp: dedups_def used_keys_def split: option.split)

lemma collect_short:
  assumes "length ks \<le> 1" "collect_res f ks = Inr vs"
  shows "vs = [] \<or> (\<exists>k. f k = Inr vs)"
  using assms by (cases ks) (auto simp: bind_eq_Inr)

lemma get_used_vars_to_distinct: "get_used_vars_to d h a = Inr vs \<Longrightarrow> distinct vs"
proof (induction d arbitrary: a vs)
  case (Suc d)
  let ?f = "i_form (io h a)" and ?ask = "ask (io h a) [] (get_used_vars_to d h)"
  have one: "distinct ws" if "?ask k = Inr ws" for k ws
    using that Suc.IH by (auto simp: ask_def split: option.splits)
  have many: "distinct vs" if e: "bind (collect_res ?ask (used_keys ?f)) (\<lambda>vs. Inr (if dedups ?f then Dedup vs else vs)) = Inr vs"
  proof (cases "dedups ?f")
    case True
    then show ?thesis using e Dedup_distinct by (auto simp: bind_eq_Inr)
  next
    case False
    then have "collect_res ?ask (used_keys ?f) = Inr vs" using e by (auto simp: bind_eq_Inr)
    from collect_short [OF used_keys_short [OF False] this] show ?thesis using one by auto
  qed
  show ?case
  proof (cases ?f)
    case (AssignExpression l r)
    then show ?thesis using Suc by (cases r) (auto simp: Let_def)
  qed (use Suc.prems many in \<open>auto simp: Let_def\<close>)
qed (simp add: endless_def)

lemma get_used_vars_distinct: "get_used_vars h a = Inr vs \<Longrightarrow> distinct vs"
  unfolding get_used_vars_def by (rule get_used_vars_to_distinct)

section \<open>The loss of a left-hand side\<close>

lemma remove_defined_var_same:
  "\<not> (a = b \<and> (\<exists>l r. i_form (io h a) = AssignExpression l r)) \<Longrightarrow> io (remove_defined_var b h) a = io h a"
  by (cases "i_form (io h b)") (auto simp: remove_defined_var_def put_obj_def)

lemma remove_defined_var_assign:
  "i_form (io h a) = AssignExpression l r \<Longrightarrow> i_form (io (remove_defined_var a h) a) = AssignExpression None r"
  by (simp add: remove_defined_var_def put_obj_def)

lemma remove_defined_var_acts:
  "is_call_to d (remove_defined_var b h) = is_call_to d h"
  "has_side_effect_to d (remove_defined_var b h) = has_side_effect_to d h"
  "get_used_vars_to d (remove_defined_var b h) = get_used_vars_to d h"
proof -
  let ?h = "remove_defined_var b h"
  have "is_call_to d ?h = is_call_to d h \<and> has_side_effect_to d ?h = has_side_effect_to d h \<and>
    get_used_vars_to d ?h = get_used_vars_to d h"
  proof (induction d)
    case (Suc d)
    then have c: "is_call_to d ?h = is_call_to d h" "has_side_effect_to d ?h = has_side_effect_to d h"
      "get_used_vars_to d ?h = get_used_vars_to d h" by simp_all
    have "is_call_to (Suc d) ?h a = is_call_to (Suc d) h a \<and> has_side_effect_to (Suc d) ?h a = has_side_effect_to (Suc d) h a \<and>
      get_used_vars_to (Suc d) ?h a = get_used_vars_to (Suc d) h a" for a
    proof (cases "a = b \<and> (\<exists>l r. i_form (io h a) = AssignExpression l r)")
      case True
      then obtain l r where f: "i_form (io h b) = AssignExpression l r" and a: "a = b" by blast
      show ?thesis by (simp add: a f c remove_defined_var_assign [OF f] Let_def)
    next
      case False
      show ?thesis
        unfolding is_call_to.simps has_side_effect_to.simps get_used_vars_to.simps remove_defined_var_same [OF False] c by simp
    qed
    then show ?case by blast
  qed (simp add: fun_eq_iff)
  then show "is_call_to d ?h = is_call_to d h" "has_side_effect_to d ?h = has_side_effect_to d h"
    "get_used_vars_to d ?h = get_used_vars_to d h" by blast+
qed

lemma depth_remove_defined_var [simp]: "depth (remove_defined_var b h) = depth h"
  by (cases "i_form (io h b)") (simp_all add: remove_defined_var_def put_obj_def depth_def)

lemma remove_defined_var_queries [simp]:
  "is_call (remove_defined_var b h) = is_call h" "has_side_effect (remove_defined_var b h) = has_side_effect h"
  "get_used_vars (remove_defined_var b h) = get_used_vars h"
  by (simp_all add: is_call_def has_side_effect_def get_used_vars_def remove_defined_var_acts fun_eq_iff)

end
