(* ===== verification/Dataflow_Passes_Laws.thy ===== *)
theory Dataflow_Passes_Laws
  imports Dataflow_Passes Dad_Ir_Laws
begin

text \<open>
  Dead code elimination returns on a heap without cycles, keeps what may not go, and leaves a
  definition only with an instruction that uses it. Register propagation never loops.
\<close>

section \<open>The chains shrink\<close>

lemma chain_size_update:
  "chain_size (AList.update k l m) + length (chain_at m k) = chain_size m + length l"
  by (induction m) (auto simp: chain_size_def chain_at_def)

lemma chain_size_delete: "chain_size (AList.delete k m) \<le> chain_size m"
  by (induction m) (auto simp: chain_size_def)

lemma chain_size_erase: "chain_size (chain_erase k v m) \<le> chain_size m"
  and chain_size_erase_less: "v \<in> set (chain_at m k) \<Longrightarrow> chain_size (chain_erase k v m) < chain_size m"
proof -
  have "length (remove1 v (chain_at m k)) \<le> length (chain_at m k)" by (simp add: length_remove1)
  then show "chain_size (chain_erase k v m) \<le> chain_size m"
    using chain_size_update [of k "remove1 v (chain_at m k)" m] by (simp add: chain_erase_def)
  assume v: "v \<in> set (chain_at m k)"
  then have "0 < length (chain_at m k)" by (cases "chain_at m k") auto
  then have "length (remove1 v (chain_at m k)) < length (chain_at m k)" using v by (simp add: length_remove1)
  then show "chain_size (chain_erase k v m) < chain_size m"
    using chain_size_update [of k "remove1 v (chain_at m k)" m] by (simp add: chain_erase_def)
qed

lemma chain_size_drop: "chain_size (drop_if_empty k m) \<le> chain_size m"
  by (simp add: drop_if_empty_def chain_size_delete)

lemma chain_at_delete [simp]: "chain_at (AList.delete k m) k' = (if k' = k then [] else chain_at m k')"
  by (simp add: chain_at_def delete_conv)

lemma chain_at_drop [simp]: "chain_at (drop_if_empty k m) = chain_at m"
  by (rule ext) (simp add: drop_if_empty_def)

lemma chain_at_updated [simp]: "chain_at (AList.update k l m) k' = (if k' = k then l else chain_at m k')"
  by (simp add: chain_at_def update_conv)

lemma chain_at_erase [simp]:
  "chain_at (chain_erase k v m) k' = (if k' = k then remove1 v (chain_at m k) else chain_at m k')"
  by (simp add: chain_erase_def)

abbreviation ud_size :: "passes \<Rightarrow> nat" where
  "ud_size st \<equiv> chain_size (ps_ud st)"

lemma drop_ins_chains [simp]:
  "ps_ud (drop_ins loc st) = ps_ud st" "ps_du (drop_ins loc st) = ps_du st" "ps_heap (drop_ins loc st) = ps_heap st"
  by (simp_all add: drop_ins_def split: prod.split)

lemma forget_def_chains [simp]:
  "ps_ud (forget_def ins st) = ps_ud st" "ps_du (forget_def ins st) = ps_du st"
  "ps_store (forget_def ins st) = ps_store st" "ps_graph (forget_def ins st) = ps_graph st"
  by (simp_all add: forget_def_def)

section \<open>The recursion of \<open>UpdateChain\<close> ends\<close>

text \<open>
  Where the queries answer, a call that is given more depth than \<open>ud\<close> has entries returns, and \<open>ud\<close>
  does not grow.
\<close>

definition asks :: "passes \<Rightarrow> bool" where
  "asks st \<longleftrightarrow> (\<forall>a. answers (is_call (ps_heap st) a) \<and> answers (has_side_effect (ps_heap st) a) \<and>
     answers (get_used_vars (ps_heap st) a))"

lemma asks_simps [simp]:
  "asks (st\<lparr>ps_ud := ud\<rparr>) = asks st" "asks (st\<lparr>ps_du := du\<rparr>) = asks st" "asks (forget_def ins st) = asks st" "asks (drop_ins loc st) = asks st"
  by (simp_all add: asks_def) (simp add: forget_def_def)

lemma asks_heap_ok: "heap_ok (ps_heap st) \<Longrightarrow> asks st"
  by (simp add: asks_def queries_answer)

lemma asks_queries:
  assumes "asks st"
  obtains c e vs where "is_call (ps_heap st) a = Inr c" "has_side_effect (ps_heap st) a = Inr e"
    "get_used_vars (ps_heap st) a = Inr vs"
  using assms unfolding asks_def answers_def by blast

definition shrinks :: "(passes \<Rightarrow> passes result) \<Rightarrow> nat \<Rightarrow> bool" where
  "shrinks f N \<longleftrightarrow>
     (\<forall>st. asks st \<longrightarrow> ud_size st < N \<longrightarrow> (\<exists>st'. f st = Inr st' \<and> asks st' \<and> ud_size st' \<le> ud_size st))"

lemma shrinks_mono: "shrinks f N \<Longrightarrow> M \<le> N \<Longrightarrow> shrinks f M"
  by (auto simp: shrinks_def)

lemma update_def_shrinks:
  assumes "\<And>x. shrinks (rec x) N" and "d \<in> set (chain_at (ps_ud st) (var, loc)) \<or> ud_size st < N" and "ud_size st \<le> N"
    and ok: "asks st"
  shows "\<exists>st'. update_def rec var loc d st = Inr st' \<and> asks st' \<and> ud_size st' \<le> ud_size st \<and> ud_size st' < N"
proof -
  let ?ud = "drop_if_empty (var, loc) (chain_erase (var, loc) d (ps_ud st))"
  have le: "chain_size ?ud \<le> ud_size st" using chain_size_drop chain_size_erase order_trans by blast
  have less: "chain_size ?ud < N"
    using assms(2)
  proof
    assume "d \<in> set (chain_at (ps_ud st) (var, loc))"
    from chain_size_erase_less [OF this] show ?thesis using chain_size_drop assms(3) by (meson le_less_trans less_le_trans)
  qed (use le in simp)
  let ?st = "st\<lparr>ps_ud := ?ud, ps_du := AList.delete (var, d) (chain_erase (var, d) loc (ps_du st))\<rparr>"
  have "ud_size ?st < N" "asks ?st" using less ok by simp_all
  then obtain st' where st': "rec d ?st = Inr st'" "asks st'" "ud_size st' \<le> ud_size ?st"
    using assms(1) unfolding shrinks_def by blast
  then have size: "ud_size st' \<le> ud_size st \<and> ud_size st' < N" using le less by simp
  show ?thesis
  proof (cases "get_ins_from_loc d (ps_graph st)")
    case None
    with le less ok show ?thesis unfolding update_def_def Let_def by auto
  next
    case (Some a)
    obtain c e vs where q: "is_call (ps_heap st) a = Inr c" "has_side_effect (ps_heap st) a = Inr e"
      by (rule asks_queries [OF ok])
    with Some st' size le less ok show ?thesis unfolding update_def_def Let_def by auto
  qed
qed

lemma update_defs_shrink:
  assumes "\<And>x. shrinks (rec x) N"
  shows "asks st \<Longrightarrow> set ds \<subseteq> set (chain_at (ps_ud st) (var, loc)) \<or> ud_size st < N \<Longrightarrow> ud_size st \<le> N \<Longrightarrow>
    \<exists>st'. fold_res (update_def rec var loc) ds st = Inr st' \<and> asks st' \<and> ud_size st' \<le> ud_size st"
proof (induction ds arbitrary: st)
  case (Cons d ds)
  obtain st1 where st1: "update_def rec var loc d st = Inr st1" "asks st1" "ud_size st1 \<le> ud_size st" "ud_size st1 < N"
    using update_def_shrinks [where rec = rec and N = N and d = d and st = st and var = var and loc = loc] assms Cons.prems by auto
  moreover obtain st2 where "fold_res (update_def rec var loc) ds st1 = Inr st2" "asks st2" "ud_size st2 \<le> ud_size st1"
    using Cons.IH [of st1] st1(2,4) by auto
  ultimately show ?case by auto
qed simp

lemma fold_res_shrinks:
  assumes "\<And>x. shrinks (f x) N"
  shows "shrinks (fold_res f xs) N"
proof (induction xs)
  case (Cons x xs)
  show ?case
    unfolding shrinks_def
  proof (intro allI impI)
    fix st assume st: "asks st" "ud_size st < N"
    with assms obtain st1 where st1: "f x st = Inr st1" "asks st1" "ud_size st1 \<le> ud_size st" unfolding shrinks_def by blast
    with st Cons.IH obtain st2 where "fold_res f xs st1 = Inr st2" "asks st2" "ud_size st2 \<le> ud_size st1"
      unfolding shrinks_def by (meson le_less_trans)
    with st1 show "\<exists>st'. fold_res f (x # xs) st = Inr st' \<and> asks st' \<and> ud_size st' \<le> ud_size st" by auto
  qed
qed (simp add: shrinks_def)

lemma UpdateChain_to_shrinks: "shrinks (UpdateChain_to d loc) d"
proof (induction d arbitrary: loc)
  case (Suc d)
  have "shrinks (update_var (UpdateChain_to d) loc var) (Suc d)" for var
    unfolding shrinks_def
  proof (intro allI impI)
    fix st assume ok: "asks st" and "ud_size st < Suc d"
    then have st: "ud_size st \<le> d" by simp
    have rec: "shrinks (UpdateChain_to d x) (ud_size st)" for x using Suc.IH st by (rule shrinks_mono)
    show "\<exists>st'. update_var (UpdateChain_to d) loc var st = Inr st' \<and> asks st' \<and> ud_size st' \<le> ud_size st"
      unfolding update_var_def by (rule update_defs_shrink [OF rec ok]) simp_all
  qed
  then have vars: "shrinks (fold_res (update_var (UpdateChain_to d) loc) vs) (Suc d)" for vs by (rule fold_res_shrinks)
  show ?case
    unfolding shrinks_def
  proof (intro allI impI)
    fix st assume st: "asks st" "ud_size st < Suc d"
    show "\<exists>st'. UpdateChain_to (Suc d) loc st = Inr st' \<and> asks st' \<and> ud_size st' \<le> ud_size st"
    proof (cases "get_ins_from_loc loc (ps_graph st)")
      case (Some a)
      obtain c e vs where q: "get_used_vars (ps_heap st) a = Inr vs" by (rule asks_queries [OF st(1)])
      with Some vars [of vs] st show ?thesis unfolding shrinks_def by simp
    qed (use st in simp)
  qed
qed (simp add: shrinks_def)

lemma UpdateChain_returns: "asks st \<Longrightarrow> \<exists>st'. UpdateChain loc st = Inr st' \<and> asks st'"
  using UpdateChain_to_shrinks unfolding UpdateChain_def shrinks_def by blast

lemma fold_res_returns:
  assumes "\<And>x st. asks st \<Longrightarrow> \<exists>st'. f x st = Inr st' \<and> asks st'"
  shows "asks st \<Longrightarrow> \<exists>st'. fold_res f xs st = Inr st' \<and> asks st'"
proof (induction xs arbitrary: st)
  case (Cons x xs)
  from assms [OF Cons.prems] obtain st1 where st1: "f x st = Inr st1" "asks st1" by blast
  from Cons.IH [OF st1(2)] st1(1) show ?case by auto
qed simp

lemma dead_ins_returns:
  assumes "asks st"
  shows "\<exists>st'. dead_ins p st = Inr st' \<and> asks st'"
proof -
  obtain i a where p: "p = (i, a)" by fastforce
  obtain c e vs where q: "is_call (ps_heap st) a = Inr c" "has_side_effect (ps_heap st) a = Inr e"
    by (rule asks_queries [OF assms])
  obtain st1 where "UpdateChain i st = Inr st1" "asks st1" using UpdateChain_returns [OF assms] by blast
  with q assms show ?thesis by (auto simp: p dead_ins_def Let_def)
qed

lemma DeadCodeElimination_returns:
  assumes "asks st"
  shows "\<exists>st'. DeadCodeElimination st = Inr st'"
proof -
  have "\<exists>st'. fold_res dead_ins (LocWithIns (ps_store st) n) st = Inr st' \<and> asks st'" if "asks st" for n st
    using dead_ins_returns that by (rule fold_res_returns)
  then have "\<exists>st'. fold_res (\<lambda>n st. fold_res dead_ins (LocWithIns (ps_store st) n) st) (g_rpo (ps_graph st)) st = Inr st' \<and> asks st'"
    using assms by (rule fold_res_returns)
  then show ?thesis unfolding DeadCodeElimination_def by blast
qed

section \<open>Removal of an instruction\<close>

text \<open>The numbered blocks: every instruction of a block is found under its location, once, and
  the table holds no others.\<close>

definition tidy :: "nat set \<Rightarrow> 'i store \<Rightarrow> 'i graph \<Rightarrow> bool" where
  "tidy V s g \<longleftrightarrow>
     (\<forall>n \<in> V. is_BasicBlock (n_class (heap s n)) \<and> (\<exists>l. n_loc_ins (heap s n) = Some l \<and> distinct (map fst l))) \<and>
     (\<forall>n \<in> V. \<forall>i ins. (i, ins) \<in> set (LocWithIns s n) \<longrightarrow>
        get_ins_from_loc i g = Some ins \<and> get_node_from_loc i g = Some n) \<and>
     (\<forall>i ins. get_ins_from_loc i g = Some ins \<longrightarrow> (\<exists>n \<in> V. (i, ins) \<in> set (LocWithIns s n)))"

lemma LocWithIns_some:
  "is_BasicBlock (n_class (heap s n)) \<Longrightarrow> n_loc_ins (heap s n) = Some l \<Longrightarrow> LocWithIns s n = l"
  by (simp add: LocWithIns_def get_loc_with_ins_def)

lemma remove1_loc:
  "distinct (map fst l) \<Longrightarrow> (\<And>x. (loc, x) \<in> set l \<Longrightarrow> x = i) \<Longrightarrow> remove1 (loc, i) l = filter (\<lambda>p. fst p \<noteq> loc) l"
proof (induction l)
  case (Cons p l)
  show ?case
  proof (cases "fst p = loc")
    case True
    with Cons.prems(2) [of "snd p"] have p: "p = (loc, i)" by (cases p) auto
    have "loc \<notin> fst ` set l" using Cons.prems(1) p by auto
    then have "filter (\<lambda>p. fst p \<noteq> loc) l = l" by (auto simp: filter_id_conv)
    with p show ?thesis by simp
  next
    case False
    with Cons show ?thesis by (cases p) auto
  qed
qed simp

lemma remove_ins_facts:
  assumes "tidy V s g" "remove_ins loc s g = (s', g')"
  shows "n \<in> V \<Longrightarrow> LocWithIns s' n = filter (\<lambda>p. fst p \<noteq> loc) (LocWithIns s n)" "tidy V s' g'"
    "get_ins_from_loc l g' = (if l = loc then None else get_ins_from_loc l g)"
    "g_rpo g' = g_rpo g"
proof -
  have V: "is_BasicBlock (n_class (heap s n)) \<and> (\<exists>l. n_loc_ins (heap s n) = Some l \<and> distinct (map fst l))"
    and at: "(i, ins) \<in> set (LocWithIns s n) \<Longrightarrow> get_ins_from_loc i g = Some ins \<and> get_node_from_loc i g = Some n"
    if "n \<in> V" for n i ins using assms(1) that unfolding tidy_def by blast+
  have g': "g' = g\<lparr>g_loc_to_ins := AList.delete loc (g_loc_to_ins g)\<rparr>"
    using assms(2) by (auto simp: remove_ins_def Let_def)
  show get: "get_ins_from_loc l g' = (if l = loc then None else get_ins_from_loc l g)" for l
    by (simp add: g' get_ins_from_loc_def delete_conv)
  show "g_rpo g' = g_rpo g" by (simp add: g')
  have s': "heap s' n = (if get_node_from_loc loc g = Some n \<and> is_BasicBlock (n_class (heap s n))
      then block_remove_ins loc (get_ins_from_loc loc g) (heap s n) else heap s n)" for n
    using assms(2) by (auto simp: remove_ins_def Let_def split: option.splits if_splits)
  have cls: "n_class (heap s' n) = n_class (heap s n)" for n by (simp add: s' block_remove_ins_def split: option.split)
  have loc: "n_loc_ins (heap s' n) = Some (filter (\<lambda>p. fst p \<noteq> loc) (LocWithIns s n))" if n: "n \<in> V" for n
  proof -
    from V [OF n] obtain l where l: "n_loc_ins (heap s n) = Some l" "distinct (map fst l)" by blast
    have L: "LocWithIns s n = l" using V [OF n] l(1) by (simp add: LocWithIns_some)
    have keep: "filter (\<lambda>p. fst p \<noteq> loc) l = l" if "get_node_from_loc loc g \<noteq> Some n \<or> get_ins_from_loc loc g = None"
      using at [OF n] that unfolding L by (force simp: filter_id_conv)
    show ?thesis
    proof (cases "get_node_from_loc loc g = Some n")
      case True
      show ?thesis
      proof (cases "get_ins_from_loc loc g")
        case None
        with keep l(1) show ?thesis by (simp add: s' block_remove_ins_def L)
      next
        case (Some i)
        have "remove1 (loc, i) l = filter (\<lambda>p. fst p \<noteq> loc) l"
          using at [OF n, of loc] Some unfolding L by (intro remove1_loc [OF l(2)]) auto
        with True Some l(1) V [OF n] show ?thesis by (simp add: s' block_remove_ins_def L)
      qed
    next
      case False
      with keep l(1) show ?thesis by (simp add: s' L)
    qed
  qed
  show LW: "LocWithIns s' n = filter (\<lambda>p. fst p \<noteq> loc) (LocWithIns s n)" if "n \<in> V" for n
    using loc [OF that] V [OF that] by (simp add: LocWithIns_some cls)
  show "tidy V s' g'"
    unfolding tidy_def
  proof (intro conjI ballI allI impI)
    fix n assume n: "n \<in> V"
    show "is_BasicBlock (n_class (heap s' n))" using V [OF n] by (simp add: cls)
    obtain l where l: "n_loc_ins (heap s n) = Some l" "distinct (map fst l)" using V [OF n] by blast
    then have "LocWithIns s n = l" using V [OF n] by (simp add: LocWithIns_some)
    then have "distinct (map fst (filter (\<lambda>p. fst p \<noteq> loc) (LocWithIns s n)))" using l(2) by (simp add: distinct_map_filter)
    then show "\<exists>l. n_loc_ins (heap s' n) = Some l \<and> distinct (map fst l)" using loc [OF n] by simp
    fix i ins assume "(i, ins) \<in> set (LocWithIns s' n)"
    then show "get_ins_from_loc i g' = Some ins" "get_node_from_loc i g' = Some n"
      using at [OF n, of i ins] get unfolding LW [OF n] by (auto simp: g' get_node_from_loc_def)
  next
    fix i ins assume "get_ins_from_loc i g' = Some ins"
    then have i: "i \<noteq> loc" "get_ins_from_loc i g = Some ins" using get by (auto split: if_splits)
    then obtain n where n: "n \<in> V" "(i, ins) \<in> set (LocWithIns s n)" using assms(1) unfolding tidy_def by blast
    then show "\<exists>n \<in> V. (i, ins) \<in> set (LocWithIns s' n)" using LW i(1) by (intro bexI [of _ n]) auto
  qed
qed

section \<open>What dead code elimination keeps\<close>

lemma forget_def_acts [simp]:
  "is_call (ps_heap (forget_def b st)) = is_call (ps_heap st)"
  "has_side_effect (ps_heap (forget_def b st)) = has_side_effect (ps_heap st)"
  "get_used_vars (ps_heap (forget_def b st)) = get_used_vars (ps_heap st)"
  by (simp_all add: forget_def_def)

abbreviation lhs_of :: "passes \<Rightarrow> nat \<Rightarrow> string" where
  "lhs_of st \<equiv> GetLhsKey dad_ops (ps_heap st)"

lemma forget_def_lhs: "lhs_of (forget_def b st) a = lhs_of st a \<or> (a = b \<and> lhs_of (forget_def b st) a = [])"
proof (cases "a = b \<and> (\<exists>l r. i_form (io (ps_heap st) a) = AssignExpression l r)")
  case True
  then obtain l r where f: "i_form (io (ps_heap st) b) = AssignExpression l r" and a: "a = b" by blast
  show ?thesis
    by (simp add: a GetLhsKey_def dad_ops_def GetLhsId_def forget_def_def remove_defined_var_assign [OF f])
next
  case False
  show ?thesis
    by (simp add: GetLhsKey_def dad_ops_def GetLhsId_def forget_def_def remove_defined_var_same [OF False])
qed

definition acts :: "passes \<Rightarrow> nat \<Rightarrow> bool" where
  "acts st ins \<longleftrightarrow> is_call (ps_heap st) ins = Inr True \<or> has_side_effect (ps_heap st) ins = Inr True"

text \<open>The instructions that may not go: those that act, and returns, tests and throws, which define nothing.\<close>

definition stays :: "passes \<Rightarrow> nat \<Rightarrow> bool" where
  "stays st ins \<longleftrightarrow> lhs_of st ins = [] \<or> acts st ins"

definition live :: "passes \<Rightarrow> int \<Rightarrow> nat \<Rightarrow> bool" where
  "live st i ins \<longleftrightarrow> stays st ins \<or> map_of (ps_du st) (lhs_of st ins, i) \<noteq> None"

definition code_at :: "passes \<Rightarrow> nat \<Rightarrow> (int \<times> nat) set" where
  "code_at st n = set (LocWithIns (ps_store st) n)"

text \<open>The definition of a register a chain names is one of that register.\<close>

definition justified :: "passes \<Rightarrow> string \<Rightarrow> int \<Rightarrow> bool" where
  "justified st var d \<longleftrightarrow>
     (\<forall>ins. get_ins_from_loc d (ps_graph st) = Some ins \<longrightarrow> acts st ins \<or> lhs_of st ins = var \<and> var \<noteq> [])"

definition chained :: "passes \<Rightarrow> bool" where
  "chained st \<longleftrightarrow> (\<forall>var loc. \<forall>d \<in> set (chain_at (ps_ud st) (var, loc)). justified st var d)"

text \<open>
  \<open>ud\<close> and \<open>du\<close> are converse, without repetitions; a use a chain names is there and reads the register,
  and the definition of an instruction has no empty entry.
\<close>

definition used_at :: "passes \<Rightarrow> string \<Rightarrow> int \<Rightarrow> bool" where
  "used_at st var loc \<longleftrightarrow>
     (\<exists>ins vs. get_ins_from_loc loc (ps_graph st) = Some ins \<and> get_used_vars (ps_heap st) ins = Inr vs \<and> var \<in> set vs)"

definition linked :: "passes \<Rightarrow> bool" where
  "linked st \<longleftrightarrow>
     (\<forall>var d loc. d \<in> set (chain_at (ps_ud st) (var, loc)) \<longleftrightarrow> loc \<in> set (chain_at (ps_du st) (var, d))) \<and>
     (\<forall>k. distinct (chain_at (ps_ud st) k) \<and> distinct (chain_at (ps_du st) k)) \<and>
     (\<forall>var loc. chain_at (ps_ud st) (var, loc) \<noteq> [] \<longrightarrow> used_at st var loc) \<and>
     (\<forall>var d. 0 \<le> d \<longrightarrow> map_of (ps_du st) (var, d) \<noteq> Some [])"

definition unused :: "passes \<Rightarrow> int \<Rightarrow> bool" where
  "unused st loc \<longleftrightarrow> (\<forall>var. chain_at (ps_ud st) (var, loc) = [])"

definition tidy_state :: "nat set \<Rightarrow> passes \<Rightarrow> bool" where
  "tidy_state V st \<longleftrightarrow> tidy V (ps_store st) (ps_graph st) \<and> chained st \<and> linked st"

lemma linked_erase:
  assumes L: "linked st"
    and ud: "ud = drop_if_empty (var, loc) (chain_erase (var, loc) d (ps_ud st))"
    and du: "du = chain_erase (var, d) loc (ps_du st) \<and> (0 \<le> d \<longrightarrow> chain_at du (var, d) \<noteq> []) \<or>
      du = AList.delete (var, d) (chain_erase (var, d) loc (ps_du st)) \<and> remove1 loc (chain_at (ps_du st) (var, d)) = []"
  shows "linked (st\<lparr>ps_ud := ud, ps_du := du\<rparr>)"
proof -
  have udk: "chain_at ud k = (if k = (var, loc) then remove1 d (chain_at (ps_ud st) k) else chain_at (ps_ud st) k)" for k
    by (simp add: ud)
  have duk: "chain_at du k = (if k = (var, d) then remove1 loc (chain_at (ps_du st) k) else chain_at (ps_du st) k)" for k
    using du by auto
  have dist: "distinct (chain_at (ps_ud st) k)" "distinct (chain_at (ps_du st) k)" for k using L unfolding linked_def by blast+
  have conv: "x \<in> set (chain_at (ps_ud st) (v, l)) \<longleftrightarrow> l \<in> set (chain_at (ps_du st) (v, x))" for v x l
    using L unfolding linked_def by blast
  have "x \<in> set (chain_at ud (v, l)) \<longleftrightarrow> l \<in> set (chain_at du (v, x))" for v x l
    by (auto simp: udk duk conv dist set_remove1_eq)
  moreover have "distinct (chain_at ud k) \<and> distinct (chain_at du k)" for k
    by (simp add: udk duk dist)
  moreover have "used_at (st\<lparr>ps_ud := ud, ps_du := du\<rparr>) v l" if "chain_at ud (v, l) \<noteq> []" for v l
  proof -
    have "chain_at (ps_ud st) (v, l) \<noteq> []" using that by (auto simp: udk split: if_splits)
    then have "used_at st v l" using L unfolding linked_def by blast
    then show ?thesis by (simp add: used_at_def)
  qed
  moreover have "map_of du (v, x) \<noteq> Some []" if "0 \<le> x" for v x
    using du
  proof
    assume a: "du = chain_erase (var, d) loc (ps_du st) \<and> (0 \<le> d \<longrightarrow> chain_at du (var, d) \<noteq> [])"
    show ?thesis
    proof (cases "(v, x) = (var, d)")
      case True
      then show ?thesis using a that by (auto simp: chain_at_def split: option.splits)
    next
      case False
      then have "map_of du (v, x) = map_of (ps_du st) (v, x)" using a by (auto simp: chain_erase_def update_conv)
      then show ?thesis using L that unfolding linked_def by metis
    qed
  qed (use L that in \<open>auto simp: chain_erase_def update_conv delete_conv linked_def\<close>)
  ultimately show ?thesis by (simp add: linked_def)
qed

definition trims :: "nat set \<Rightarrow> passes \<Rightarrow> passes \<Rightarrow> bool" where
  "trims V st st' \<longleftrightarrow>
     tidy_state V st' \<and> g_rpo (ps_graph st') = g_rpo (ps_graph st) \<and> (\<forall>a. acts st' a = acts st a) \<and>
     (\<forall>a. stays st' a = stays st a) \<and> (\<forall>var d. justified st var d \<longrightarrow> justified st' var d) \<and>
     (\<forall>k. set (chain_at (ps_ud st') k) \<subseteq> set (chain_at (ps_ud st) k)) \<and>
     (\<forall>n \<in> V. code_at st' n \<subseteq> code_at st n) \<and>
     (\<forall>n \<in> V. \<forall>i ins. (i, ins) \<in> code_at st n \<longrightarrow> stays st ins \<longrightarrow> (i, ins) \<in> code_at st' n) \<and>
     (\<forall>n \<in> V. \<forall>i ins. (i, ins) \<in> code_at st' n \<longrightarrow> live st i ins \<longrightarrow> live st' i ins)"

lemma trims_refl: "tidy_state V st \<Longrightarrow> trims V st st"
  by (simp add: trims_def)

lemma trimsD:
  assumes "trims V st st'"
  shows "tidy_state V st'" "g_rpo (ps_graph st') = g_rpo (ps_graph st)" "acts st' a = acts st a" "stays st' a = stays st a"
    "justified st var d \<Longrightarrow> justified st' var d" "n \<in> V \<Longrightarrow> code_at st' n \<subseteq> code_at st n"
    "n \<in> V \<Longrightarrow> (i, ins) \<in> code_at st n \<Longrightarrow> stays st ins \<Longrightarrow> (i, ins) \<in> code_at st' n"
    "n \<in> V \<Longrightarrow> (i, ins) \<in> code_at st' n \<Longrightarrow> live st i ins \<Longrightarrow> live st' i ins"
    "set (chain_at (ps_ud st') k) \<subseteq> set (chain_at (ps_ud st) k)"
  using assms unfolding trims_def by blast+

lemma trims_unused: "trims V st st' \<Longrightarrow> unused st loc \<Longrightarrow> unused st' loc"
  unfolding unused_def by (metis trimsD(9) set_empty subset_empty)

lemma trims_trans:
  assumes "trims V st st1" "trims V st1 st2"
  shows "trims V st st2"
proof -
  note A = trimsD [OF assms(1)] and B = trimsD [OF assms(2)]
  have live: "live st2 i ins" if "n \<in> V" "(i, ins) \<in> code_at st2 n" "live st i ins" for n i ins
    using B(8) [OF that(1,2)] A(8) [OF that(1) _ that(3)] B(6) [OF that(1)] that(2) by blast
  have kept: "(i, ins) \<in> code_at st2 n" if "n \<in> V" "(i, ins) \<in> code_at st n" "stays st ins" for n i ins
    using B(7) [OF that(1) A(7) [OF that]] A(4) [of ins] that(3) by blast
  have sub: "code_at st2 n \<subseteq> code_at st n" if "n \<in> V" for n using A(6) [OF that] B(6) [OF that] by blast
  have less: "set (chain_at (ps_ud st2) k) \<subseteq> set (chain_at (ps_ud st) k)" for k using A(9) [of k] B(9) [of k] by blast
  have "acts st2 a = acts st a" "stays st2 a = stays st a" for a using A(3,4) [of a] B(3,4) [of a] by simp_all
  moreover have "g_rpo (ps_graph st2) = g_rpo (ps_graph st)" using A(2) B(2) by simp
  ultimately show ?thesis
    unfolding trims_def
    by (intro conjI ballI allI impI) (assumption | rule B(1) B(5) [OF A(5)] less sub live kept | simp)+
qed

text \<open>The three steps: chains change, a left-hand side goes, an instruction goes.\<close>

lemma trims_chains:
  assumes "tidy_state V st" "\<And>k. set (chain_at ud k) \<subseteq> set (chain_at (ps_ud st) k)"
    and linked: "linked (st\<lparr>ps_ud := ud, ps_du := du\<rparr>)"
    and live: "\<And>n i ins. n \<in> V \<Longrightarrow> (i, ins) \<in> code_at st n \<Longrightarrow> live st i ins \<Longrightarrow> live (st\<lparr>ps_ud := ud, ps_du := du\<rparr>) i ins"
  shows "trims V st (st\<lparr>ps_ud := ud, ps_du := du\<rparr>)"
proof -
  let ?st = "st\<lparr>ps_ud := ud, ps_du := du\<rparr>"
  have same: "acts ?st = acts st" "stays ?st = stays st" "justified ?st = justified st" "code_at ?st = code_at st"
    by (simp_all add: acts_def stays_def justified_def code_at_def fun_eq_iff)
  have "chained ?st" using assms(1,2) unfolding tidy_state_def chained_def same by fastforce
  then show ?thesis using assms by (simp add: trims_def tidy_state_def same)
qed

lemma trims_forget:
  assumes "tidy_state V st" "acts st b"
  shows "trims V st (forget_def b st)"
proof -
  let ?st = "forget_def b st"
  have a: "acts ?st = acts st" by (simp add: acts_def fun_eq_iff)
  have l: "lhs_of ?st x = lhs_of st x \<or> acts st x \<and> lhs_of ?st x = []" for x
    using forget_def_lhs [of b st x] assms(2) by blast
  have s: "stays ?st = stays st"
  proof
    fix x show "stays ?st x = stays st x" using l [of x] by (auto simp: stays_def a)
  qed
  have j1: "(acts ?st x \<or> lhs_of ?st x = v \<and> v \<noteq> []) = (acts st x \<or> lhs_of st x = v \<and> v \<noteq> [])" for x v
    using l [of x] by (auto simp: a)
  have j: "justified ?st = justified st"
    by (rule ext, rule ext) (simp only: justified_def j1 forget_def_chains)
  have "live ?st i ins" if "live st i ins" for i ins
    using that l [of ins] by (auto simp: live_def s) (simp add: stays_def)
  moreover have "chained ?st" using assms(1) by (simp add: tidy_state_def chained_def j)
  moreover have "linked ?st" using assms(1) by (simp add: tidy_state_def linked_def used_at_def)
  ultimately show ?thesis using assms(1) by (simp add: trims_def tidy_state_def code_at_def a s j)
qed

lemma drop_ins_facts:
  assumes "tidy_state V st" "unused st loc"
  shows "n \<in> V \<Longrightarrow> code_at (drop_ins loc st) n = {p \<in> code_at st n. fst p \<noteq> loc}" "tidy_state V (drop_ins loc st)"
    "g_rpo (ps_graph (drop_ins loc st)) = g_rpo (ps_graph st)" "acts (drop_ins loc st) = acts st"
    "stays (drop_ins loc st) = stays st" "live (drop_ins loc st) = live st"
    "justified st var d \<Longrightarrow> justified (drop_ins loc st) var d"
proof -
  obtain s g where r: "remove_ins loc (ps_store st) (ps_graph st) = (s, g)" by fastforce
  then have d: "drop_ins loc st = st\<lparr>ps_store := s, ps_graph := g\<rparr>" by (simp add: drop_ins_def)
  have t: "tidy V (ps_store st) (ps_graph st)" "chained st" "linked st" using assms by (simp_all add: tidy_state_def)
  note R = remove_ins_facts [OF t(1) r]
  show a: "acts (drop_ins loc st) = acts st" by (simp add: acts_def fun_eq_iff)
  show s: "stays (drop_ins loc st) = stays st" by (simp add: a stays_def fun_eq_iff)
  show "live (drop_ins loc st) = live st" by (simp add: s live_def fun_eq_iff)
  have j: "justified (drop_ins loc st) var d" if "justified st var d" for var d
    using that unfolding justified_def a by (simp add: d R(3))
  show "justified st var d \<Longrightarrow> justified (drop_ins loc st) var d" by (rule j)
  have c: "chained (drop_ins loc st)" using t(2) j by (simp add: chained_def)
  have "used_at (drop_ins loc st) v l" if "chain_at (ps_ud st) (v, l) \<noteq> []" for v l
  proof -
    have "l \<noteq> loc" using that assms(2) by (auto simp: unused_def)
    moreover have "used_at st v l" using t(3) that unfolding linked_def by blast
    ultimately show ?thesis by (simp add: used_at_def d R(3))
  qed
  then have "linked (drop_ins loc st)" using t(3) by (simp add: linked_def)
  then show "tidy_state V (drop_ins loc st)" using R(2) c by (simp add: tidy_state_def d)
  show "n \<in> V \<Longrightarrow> code_at (drop_ins loc st) n = {p \<in> code_at st n. fst p \<noteq> loc}"
    "g_rpo (ps_graph (drop_ins loc st)) = g_rpo (ps_graph st)"
    using R by (simp_all add: d code_at_def)
qed

lemma trims_drop:
  assumes "tidy_state V st" "unused st loc" "\<And>n ins. n \<in> V \<Longrightarrow> (loc, ins) \<in> code_at st n \<Longrightarrow> \<not> stays st ins"
  shows "trims V st (drop_ins loc st)"
  unfolding trims_def using drop_ins_facts [OF assms(1,2)] assms(3) by auto

text \<open>What a call of \<open>UpdateChain\<close> does: it trims, and no chain is left at its location.\<close>

definition keeps :: "nat set \<Rightarrow> int \<Rightarrow> (passes \<Rightarrow> passes result) \<Rightarrow> bool" where
  "keeps V loc f \<longleftrightarrow> (\<forall>st st'. tidy_state V st \<longrightarrow> f st = Inr st' \<longrightarrow> trims V st st' \<and> unused st' loc)"

lemma keepsD: "keeps V loc f \<Longrightarrow> tidy_state V st \<Longrightarrow> f st = Inr st' \<Longrightarrow> trims V st st' \<and> unused st' loc"
  by (simp add: keeps_def)

lemma trims_tidy: "trims V st st' \<Longrightarrow> tidy_state V st'"
  by (simp add: trims_def)

lemma code_at_unique: "tidy_state V st \<Longrightarrow> n \<in> V \<Longrightarrow> (i, ins) \<in> code_at st n \<Longrightarrow> get_ins_from_loc i (ps_graph st) = Some ins"
  unfolding tidy_state_def tidy_def code_at_def by blast

text \<open>An instruction that does not act may go together with the definition it made live.\<close>

lemma trims_through_drop:
  assumes t: "tidy_state V st"
    and dead: "\<And>n ins. n \<in> V \<Longrightarrow> (d, ins) \<in> code_at st n \<Longrightarrow> \<not> stays st ins"
    and other: "\<And>i ins. i \<noteq> d \<Longrightarrow> live st i ins \<Longrightarrow> live (st\<lparr>ps_ud := ud, ps_du := du\<rparr>) i ins"
    and less: "\<And>k. set (chain_at ud k) \<subseteq> set (chain_at (ps_ud st) k)"
    and rest: "trims V (st\<lparr>ps_ud := ud, ps_du := du\<rparr>) st3" and un: "unused st3 d"
  shows "trims V st (drop_ins d st3)"
proof -
  let ?st2 = "st\<lparr>ps_ud := ud, ps_du := du\<rparr>"
  note D = drop_ins_facts [OF trims_tidy [OF rest] un]
  have same: "code_at ?st2 = code_at st" "acts ?st2 = acts st" "ps_graph ?st2 = ps_graph st"
    "stays ?st2 = stays st" "justified ?st2 = justified st"
    by (simp_all add: code_at_def acts_def stays_def justified_def fun_eq_iff)
  have acts: "acts (drop_ins d st3) a = acts st a" "stays (drop_ins d st3) a = stays st a" for a
    using rest by (simp_all add: D(4,5) trims_def same)
  have just: "justified (drop_ins d st3) var l" if "justified st var l" for var l
    using rest that D(7) unfolding trims_def same by blast
  have sub: "code_at st3 n \<subseteq> code_at st n" if "n \<in> V" for n using rest that unfolding trims_def same by blast
  have kept: "(i, ins) \<in> code_at (drop_ins d st3) n" if "n \<in> V" "(i, ins) \<in> code_at st n" "stays st ins" for n i ins
  proof -
    have "i \<noteq> d" using dead that by blast
    moreover have "(i, ins) \<in> code_at st3 n" using rest that unfolding trims_def same by blast
    ultimately show ?thesis by (simp add: D(1) [OF that(1)])
  qed
  have live: "live (drop_ins d st3) i ins" if "n \<in> V" "(i, ins) \<in> code_at (drop_ins d st3) n" "live st i ins" for n i ins
  proof -
    have i: "i \<noteq> d" "(i, ins) \<in> code_at st3 n" using that(2) by (simp_all add: D(1) [OF that(1)])
    have "live ?st2 i ins" using other i(1) that(3) by blast
    then have "live st3 i ins" using rest that(1) i(2) unfolding trims_def by blast
    then show ?thesis by (simp add: D(6))
  qed
  have "code_at (drop_ins d st3) n \<subseteq> code_at st n" if "n \<in> V" for n using sub [OF that] by (auto simp: D(1) [OF that])
  moreover have "g_rpo (ps_graph (drop_ins d st3)) = g_rpo (ps_graph st)" using rest by (simp add: D(3) trims_def)
  moreover have "set (chain_at (ps_ud (drop_ins d st3)) k) \<subseteq> set (chain_at (ps_ud st) k)" for k
    using trimsD(9) [OF rest, of k] less [of k] by simp
  ultimately show ?thesis using D(2) acts just kept live unfolding trims_def by blast
qed

lemma update_def_trims:
  assumes rec: "\<And>x. keeps V x (rec x)" and t: "tidy_state V st" and j: "justified st var d"
    and r: "update_def rec var loc d st = Inr st'"
  shows "trims V st st' \<and> d \<notin> set (chain_at (ps_ud st') (var, loc))"
proof -
  let ?du1 = "chain_erase (var, d) loc (ps_du st)"
  let ?du2 = "AList.delete (var, d) ?du1"
  let ?ud = "drop_if_empty (var, loc) (chain_erase (var, loc) d (ps_ud st))"
  let ?st2 = "st\<lparr>ps_ud := ?ud, ps_du := ?du2\<rparr>"
  have lk: "linked st" using t by (simp add: tidy_state_def)
  have sub: "set (chain_at ?ud k) \<subseteq> set (chain_at (ps_ud st) k)" for k using set_remove1_subset by (auto dest: subsetD [OF set_remove1_subset])
  have "distinct (chain_at (ps_ud st) (var, loc))" using lk unfolding linked_def by blast
  then have gone: "d \<notin> set (chain_at ?ud (var, loc))" by (simp add: set_remove1_eq)
  have live1: "live (st\<lparr>ps_ud := ?ud, ps_du := ?du1\<rparr>) i ins" if "live st i ins" for i ins
    using that by (auto simp: live_def stays_def acts_def chain_erase_def update_conv)
  have live2: "live ?st2 i ins" if "live st i ins" "i \<noteq> d \<or> stays st ins" for i ins
    using that by (auto simp: live_def stays_def acts_def chain_erase_def update_conv delete_conv)
  have here: "get_ins_from_loc d (ps_graph st) = Some ins" if "n \<in> V" "(d, ins) \<in> code_at st n" for n ins
    using code_at_unique [OF t that] .
  show ?thesis
  proof (cases "d \<ge> 0 \<and> chain_at ?du1 (var, d) = []")
    case False
    then have st': "st' = st\<lparr>ps_ud := ?ud, ps_du := ?du1\<rparr>" using r by (auto simp: update_def_def Let_def)
    have "linked (st\<lparr>ps_ud := ?ud, ps_du := ?du1\<rparr>)" by (rule linked_erase [OF lk refl]) (use False in auto)
    then show ?thesis using trims_chains [OF t sub _ live1] gone st' by simp
  next
    case True
    have lk2: "linked ?st2" by (rule linked_erase [OF lk refl]) (use True in simp)
    have T: "trims V st ?st2" if ok: "\<And>ins. get_ins_from_loc d (ps_graph st) = Some ins \<Longrightarrow> stays st ins"
    proof (rule trims_chains [OF t sub lk2])
      fix n i ins assume "n \<in> V" "(i, ins) \<in> code_at st n" "live st i ins"
      then show "live ?st2 i ins" using live2 here ok by blast
    qed
    show ?thesis
    proof (cases "get_ins_from_loc d (ps_graph st)")
      case None
      then have "st' = ?st2" using r True by (simp add: update_def_def Let_def)
      then show ?thesis using T None gone by simp
    next
      case (Some def_ins)
      show ?thesis
      proof (cases "acts st def_ins")
        case a: True
        then have T2: "trims V st ?st2" using T Some by (simp add: stays_def)
        have "acts ?st2 def_ins" using a by (simp add: acts_def)
        note F = trims_forget [OF trims_tidy [OF T2] this]
        have "st' = forget_def def_ins ?st2 \<or> st' = ?st2"
          using r True Some a by (auto simp: update_def_def Let_def acts_def bind_eq_Inr split: if_splits)
        then have "trims V st st'" "ps_ud st' = ?ud" using T2 trims_trans [OF T2 F] by auto
        then show ?thesis using gone by simp
      next
        case a: False
        then have na: "\<not> stays st def_ins" using j Some by (auto simp: justified_def stays_def)
        from a obtain st3 where st3: "rec d ?st2 = Inr st3" "st' = drop_ins d st3"
          using r True Some by (auto simp: update_def_def Let_def acts_def bind_eq_Inr split: if_splits)
        have "justified ?st2 = justified st" by (simp add: justified_def acts_def fun_eq_iff)
        then have "chained ?st2" using t sub unfolding tidy_state_def chained_def by fastforce
        then have "tidy_state V ?st2" using t lk2 by (simp add: tidy_state_def)
        from keepsD [OF rec this st3(1)] have T3: "trims V ?st2 st3" and un: "unused st3 d" by blast+
        have dead: "\<not> stays st ins" if "n \<in> V" "(d, ins) \<in> code_at st n" for n ins using here [OF that] Some na by simp
        have "trims V st st'" unfolding st3(2) by (rule trims_through_drop [OF t dead live2 sub T3 un]) auto
        moreover have "d \<notin> set (chain_at (ps_ud st') (var, loc))"
          using trimsD(9) [OF T3, of "(var, loc)"] gone unfolding st3(2) by auto
        ultimately show ?thesis by blast
      qed
    qed
  qed
qed

lemma update_defs_trim:
  assumes "\<And>x. keeps V x (rec x)"
  shows "tidy_state V st \<Longrightarrow> \<forall>d \<in> set ds. justified st var d \<Longrightarrow> fold_res (update_def rec var loc) ds st = Inr st' \<Longrightarrow>
    trims V st st' \<and> (\<forall>d \<in> set ds. d \<notin> set (chain_at (ps_ud st') (var, loc)))"
proof (induction ds arbitrary: st)
  case Nil
  then show ?case by (simp add: trims_refl)
next
  case (Cons d ds)
  obtain st1 where st1: "update_def rec var loc d st = Inr st1" "fold_res (update_def rec var loc) ds st1 = Inr st'"
    using Cons.prems(3) by (auto simp: bind_eq_Inr)
  have "justified st var d" using Cons.prems(2) by simp
  from update_def_trims [OF assms Cons.prems(1) this st1(1)]
  have T: "trims V st st1" and d: "d \<notin> set (chain_at (ps_ud st1) (var, loc))" by blast+
  have "\<forall>d \<in> set ds. justified st1 var d" using T Cons.prems(2) by (simp add: trims_def)
  note R = Cons.IH [OF trims_tidy [OF T] this st1(2)]
  then have "d \<notin> set (chain_at (ps_ud st') (var, loc))" using trimsD(9) d by blast
  then show ?case using R trims_trans [OF T] by simp
qed

lemma update_var_trims:
  assumes "\<And>x. keeps V x (rec x)" and t: "tidy_state V st" and r: "update_var rec loc var st = Inr st'"
  shows "trims V st st' \<and> chain_at (ps_ud st') (var, loc) = []"
proof -
  have "\<forall>d \<in> set (sorted_list_of_set (set (chain_at (ps_ud st) (var, loc)))). justified st var d"
    using t by (simp add: tidy_state_def chained_def)
  from update_defs_trim [OF assms(1) t this r [unfolded update_var_def]]
  have T: "trims V st st'" and e: "\<forall>d \<in> set (chain_at (ps_ud st) (var, loc)). d \<notin> set (chain_at (ps_ud st') (var, loc))"
    by simp_all
  have "d \<in> set (chain_at (ps_ud st) (var, loc))" if "d \<in> set (chain_at (ps_ud st') (var, loc))" for d
    using subsetD [OF trimsD(9) [OF T] that] .
  with e have "set (chain_at (ps_ud st') (var, loc)) = {}" by (intro equals0I) metis
  then show ?thesis using T by simp
qed

lemma update_vars_trim:
  assumes "\<And>x. keeps V x (rec x)"
  shows "tidy_state V st \<Longrightarrow> fold_res (update_var rec loc) vs st = Inr st' \<Longrightarrow>
    trims V st st' \<and> (\<forall>var \<in> set vs. chain_at (ps_ud st') (var, loc) = [])"
proof (induction vs arbitrary: st)
  case Nil
  then show ?case by (simp add: trims_refl)
next
  case (Cons v vs)
  obtain st1 where st1: "update_var rec loc v st = Inr st1" "fold_res (update_var rec loc) vs st1 = Inr st'"
    using Cons.prems(2) by (auto simp: bind_eq_Inr)
  from update_var_trims [OF assms Cons.prems(1) st1(1)]
  have T: "trims V st st1" and v: "chain_at (ps_ud st1) (v, loc) = []" by blast+
  note R = Cons.IH [OF trims_tidy [OF T] st1(2)]
  then have "chain_at (ps_ud st') (v, loc) = []" using trimsD(9) [of V st1 st' "(v, loc)"] v by simp
  then show ?case using R trims_trans [OF T] by simp
qed

lemma UpdateChain_to_keeps: "keeps V loc (UpdateChain_to k loc)"
proof (induction k arbitrary: loc)
  case (Suc k)
  have "trims V st st' \<and> unused st' loc" if t: "tidy_state V st" and r: "UpdateChain_to (Suc k) loc st = Inr st'" for st st'
  proof -
    have only: "used_at st var loc" if "chain_at (ps_ud st) (var, loc) \<noteq> []" for var
      using t that unfolding tidy_state_def linked_def by blast
    show ?thesis
    proof (cases "get_ins_from_loc loc (ps_graph st)")
      case None
      then have "unused st loc" using only by (force simp: unused_def used_at_def)
      then show ?thesis using None r trims_refl [OF t] by simp
    next
      case (Some a)
      then obtain vs where vs: "get_used_vars (ps_heap st) a = Inr vs" "fold_res (update_var (UpdateChain_to k) loc) vs st = Inr st'"
        using r by (auto simp: bind_eq_Inr)
      from update_vars_trim [OF Suc.IH t vs(2)] have T: "trims V st st'"
        and e: "\<forall>var \<in> set vs. chain_at (ps_ud st') (var, loc) = []" by blast+
      have "chain_at (ps_ud st') (var, loc) = []" for var
      proof (cases "var \<in> set vs")
        case False
        then have "chain_at (ps_ud st) (var, loc) = []" using only Some vs(1) by (force simp: used_at_def)
        then show ?thesis using trimsD(9) [OF T, of "(var, loc)"] by simp
      qed (use e in blast)
      then show ?thesis using T by (simp add: unused_def)
    qed
  qed
  then show ?case by (simp add: keeps_def)
qed (simp add: keeps_def endless_def)

lemma UpdateChain_keeps: "keeps V loc (UpdateChain loc)"
  using UpdateChain_to_keeps unfolding keeps_def UpdateChain_def by blast

section \<open>Dead code elimination\<close>

text \<open>A pair the loop has met is live or gone.\<close>

definition settled :: "nat set \<Rightarrow> passes \<Rightarrow> int \<times> nat \<Rightarrow> bool" where
  "settled V st p \<longleftrightarrow> (\<forall>n \<in> V. p \<in> code_at st n \<longrightarrow> live st (fst p) (snd p))"

lemma settled_trims: "settled V st p \<Longrightarrow> trims V st st' \<Longrightarrow> settled V st' p"
  unfolding settled_def trims_def by (metis prod.collapse subsetD)

lemma dead_ins_trims:
  assumes t: "tidy_state V st" and r: "dead_ins (i, ins) st = Inr st'"
    and known: "\<And>n x. n \<in> V \<Longrightarrow> (i, x) \<in> code_at st n \<Longrightarrow> x = ins"
  shows "trims V st st' \<and> settled V st' (i, ins)"
proof (cases "live st i ins")
  case True
  have "st' = st \<or> st' = forget_def ins st \<and> acts st ins"
    using r True by (auto simp: dead_ins_def Let_def live_def stays_def acts_def bind_eq_Inr split: if_splits)
  then have "trims V st st'" using trims_refl [OF t] trims_forget [OF t] by blast
  moreover have "settled V st (i, ins)" using True by (simp add: settled_def)
  ultimately show ?thesis using settled_trims by blast
next
  case False
  then obtain st1 where st1: "UpdateChain i st = Inr st1" "st' = drop_ins i st1"
    using r by (auto simp: dead_ins_def Let_def live_def stays_def acts_def bind_eq_Inr split: if_splits)
  from keepsD [OF UpdateChain_keeps t st1(1)] have T: "trims V st st1" and un: "unused st1 i" by blast+
  have na: "\<not> stays st ins" using False by (simp add: live_def)
  have dead: "\<not> stays st1 x" if "n \<in> V" "(i, x) \<in> code_at st1 n" for n x
  proof -
    have "(i, x) \<in> code_at st n" using T that unfolding trims_def by blast
    then have "x = ins" using known that(1) by blast
    then show ?thesis using na T by (simp add: trims_def)
  qed
  have "trims V st1 st'" unfolding st1(2) by (rule trims_drop [OF trims_tidy [OF T] un dead])
  moreover have "settled V st' (i, ins)"
    unfolding settled_def st1(2) using drop_ins_facts(1) [OF trims_tidy [OF T] un] by auto
  ultimately show ?thesis using trims_trans [OF T] by blast
qed

lemma dead_block_trims:
  assumes "tidy_state V st0" "trims V st0 st" "m \<in> V" "set ps \<subseteq> code_at st0 m" "fold_res dead_ins ps st = Inr st'"
  shows "trims V st st' \<and> (\<forall>p \<in> set ps. settled V st' p)"
  using assms(2,4,5)
proof (induction ps arbitrary: st)
  case Nil
  then show ?case using trims_refl [OF trims_tidy] by simp
next
  case (Cons p ps)
  obtain i ins where p: "p = (i, ins)" by fastforce
  obtain st1 where st1: "dead_ins (i, ins) st = Inr st1" "fold_res dead_ins ps st1 = Inr st'"
    using Cons.prems(3) by (auto simp: p bind_eq_Inr)
  have known: "x = ins" if "n \<in> V" "(i, x) \<in> code_at st n" for n x
  proof -
    have "(i, x) \<in> code_at st0 n" using Cons.prems(1) that unfolding trims_def by blast
    moreover have "(i, ins) \<in> code_at st0 m" using Cons.prems(2) by (simp add: p)
    ultimately have "Some x = Some ins" using code_at_unique [OF assms(1)] that(1) assms(3) by metis
    then show ?thesis by simp
  qed
  have one: "trims V st st1 \<and> settled V st1 (i, ins)"
    by (rule dead_ins_trims [OF trims_tidy [OF Cons.prems(1)] st1(1) known])
  have "trims V st1 st' \<and> (\<forall>p \<in> set ps. settled V st' p)"
    using Cons.IH [OF trims_trans [OF Cons.prems(1)] _ st1(2)] one Cons.prems(2) by simp
  then show ?case using one trims_trans settled_trims p by (metis set_ConsD)
qed

lemma dead_blocks_trim:
  assumes "set ns \<subseteq> V" "tidy_state V st" "fold_res (\<lambda>n st. fold_res dead_ins (LocWithIns (ps_store st) n) st) ns st = Inr st'"
  shows "trims V st st' \<and> (\<forall>n \<in> set ns. \<forall>p \<in> code_at st' n. settled V st' p)"
  using assms
proof (induction ns arbitrary: st)
  case Nil
  then show ?case using trims_refl by simp
next
  case (Cons n ns)
  obtain st1 where st1: "fold_res dead_ins (LocWithIns (ps_store st) n) st = Inr st1"
    "fold_res (\<lambda>n st. fold_res dead_ins (LocWithIns (ps_store st) n) st) ns st1 = Inr st'"
    using Cons.prems(3) by (auto simp: bind_eq_Inr)
  have n: "n \<in> V" using Cons.prems(1) by simp
  have one: "trims V st st1 \<and> (\<forall>p \<in> code_at st n. settled V st1 p)"
    using dead_block_trims [OF Cons.prems(2) trims_refl [OF Cons.prems(2)] n _ st1(1)] by (simp add: code_at_def)
  have rest: "trims V st1 st' \<and> (\<forall>n \<in> set ns. \<forall>p \<in> code_at st' n. settled V st' p)"
    using Cons.IH [OF _ _ st1(2)] Cons.prems(1) one trims_tidy by auto
  have T: "trims V st st'" using one rest trims_trans by blast
  have "settled V st' p" if "p \<in> code_at st' n" for p
  proof -
    have "p \<in> code_at st n" using T n that unfolding trims_def by blast
    then show ?thesis using one rest settled_trims by blast
  qed
  then show ?case using T rest by simp
qed

lemma DeadCodeElimination_trims:
  assumes "tidy_state (set (g_rpo (ps_graph st))) st" "DeadCodeElimination st = Inr st'"
  shows "trims (set (g_rpo (ps_graph st))) st st'"
    "n \<in> set (g_rpo (ps_graph st)) \<Longrightarrow> (i, ins) \<in> code_at st' n \<Longrightarrow> live st' i ins"
proof -
  note D = dead_blocks_trim [OF subset_refl assms(1) assms(2) [unfolded DeadCodeElimination_def]]
  show "trims (set (g_rpo (ps_graph st))) st st'" using D by blast
  assume n: "n \<in> set (g_rpo (ps_graph st))" "(i, ins) \<in> code_at st' n"
  then have "settled (set (g_rpo (ps_graph st))) st' (i, ins)" using D by blast
  with n show "live st' i ins" by (auto simp: settled_def)
qed

lemma live_used:
  assumes "tidy_state V st" "live st i ins" "0 \<le> i"
  shows "stays st ins \<or> (\<exists>m \<in> V. \<exists>(j, use) \<in> code_at st m. \<exists>vs. get_used_vars (ps_heap st) use = Inr vs \<and>
    lhs_of st ins \<in> set vs \<and> j \<in> set (chain_at (ps_du st) (lhs_of st ins, i)))"
proof (cases "stays st ins")
  case False
  let ?r = "lhs_of st ins"
  have lk: "linked st" and tidy: "tidy V (ps_store st) (ps_graph st)" using assms(1) by (simp_all add: tidy_state_def)
  have "map_of (ps_du st) (?r, i) \<noteq> None" using assms(2) False by (simp add: live_def)
  moreover have "map_of (ps_du st) (?r, i) \<noteq> Some []" using lk assms(3) unfolding linked_def by blast
  ultimately have "chain_at (ps_du st) (?r, i) \<noteq> []" by (auto simp: chain_at_def)
  then obtain j where j: "j \<in> set (chain_at (ps_du st) (?r, i))" by (meson last_in_set)
  then have "i \<in> set (chain_at (ps_ud st) (?r, j))" using lk unfolding linked_def by blast
  then have "chain_at (ps_ud st) (?r, j) \<noteq> []" by auto
  then have "used_at st ?r j" using lk unfolding linked_def by blast
  then obtain use vs where use: "get_ins_from_loc j (ps_graph st) = Some use" "get_used_vars (ps_heap st) use = Inr vs" "?r \<in> set vs"
    by (auto simp: used_at_def)
  then obtain m where "m \<in> V" "(j, use) \<in> code_at st m" using tidy unfolding tidy_def code_at_def by blast
  then show ?thesis using use j by blast
qed simp

lemma fold_res_invariant:
  assumes "\<And>x s s'. P s \<Longrightarrow> f x s = Inr s' \<Longrightarrow> P s'"
  shows "P s \<Longrightarrow> fold_res f xs s = Inr s' \<Longrightarrow> P s'"
proof (induction xs arbitrary: s)
  case (Cons x xs)
  then obtain s1 where "f x s = Inr s1" "fold_res f xs s1 = Inr s'" by (auto simp: bind_eq_Inr)
  with Cons.IH Cons.prems(1) assms show ?case by blast
qed simp

text \<open>
  The objects answer as before: only a call can lose its left-hand side.
\<close>

definition speaks :: "ir_heap \<Rightarrow> passes \<Rightarrow> bool" where
  "speaks h st \<longleftrightarrow> is_call (ps_heap st) = is_call h \<and> has_side_effect (ps_heap st) = has_side_effect h \<and>
     get_used_vars (ps_heap st) = get_used_vars h \<and>
     (\<forall>a. lhs_of st a = GetLhsKey dad_ops h a \<or> is_call h a = Inr True)"

lemma speaks_simps [simp]:
  "speaks h (st\<lparr>ps_ud := ud\<rparr>) = speaks h st" "speaks h (st\<lparr>ps_du := du\<rparr>) = speaks h st" "speaks h (drop_ins loc st) = speaks h st"
  by (simp_all add: speaks_def)

lemma speaks_forget:
  assumes "speaks h st" "is_call (ps_heap st) b = Inr True"
  shows "speaks h (forget_def b st)"
proof -
  have "lhs_of (forget_def b st) a = GetLhsKey dad_ops h a \<or> is_call h a = Inr True" for a
    using forget_def_lhs [of b st a] assms by (auto simp: speaks_def)
  then show ?thesis using assms(1) by (simp add: speaks_def)
qed

lemma update_def_speaks:
  assumes rec: "\<And>x st st'. speaks h st \<Longrightarrow> rec x st = Inr st' \<Longrightarrow> speaks h st'"
    and st: "speaks h st" and r: "update_def rec var loc d st = Inr st'"
  shows "speaks h st'"
proof -
  let ?du = "chain_erase (var, d) loc (ps_du st)"
  let ?st1 = "st\<lparr>ps_ud := drop_if_empty (var, loc) (chain_erase (var, loc) d (ps_ud st)), ps_du := ?du\<rparr>"
  let ?st2 = "st\<lparr>ps_ud := drop_if_empty (var, loc) (chain_erase (var, loc) d (ps_ud st)), ps_du := AList.delete (var, d) ?du\<rparr>"
  have sp: "speaks h ?st1" "speaks h ?st2" using st by simp_all
  have "st' = ?st1 \<or> st' = ?st2 \<or> (\<exists>a. is_call (ps_heap ?st2) a = Inr True \<and> st' = forget_def a ?st2) \<or>
    (\<exists>st3. rec d ?st2 = Inr st3 \<and> st' = drop_ins d st3)"
    using r unfolding update_def_def Let_def
    by (cases "get_ins_from_loc d (ps_graph st)") (force simp: bind_eq_Inr split: if_split_asm)+
  then show ?thesis using sp rec [OF sp(2)] speaks_forget [OF sp(2)] by auto
qed

lemma UpdateChain_to_speaks: "speaks h st \<Longrightarrow> UpdateChain_to d loc st = Inr st' \<Longrightarrow> speaks h st'"
proof (induction d arbitrary: loc st st')
  case (Suc d)
  have def: "speaks h st'" if "speaks h st" "update_def (UpdateChain_to d) var loc x st = Inr st'" for var x st st'
    using update_def_speaks [OF Suc.IH that] .
  have var: "speaks h st'" if "speaks h st" "update_var (UpdateChain_to d) loc var st = Inr st'" for var st st'
    using that unfolding update_var_def by (rule fold_res_invariant [rotated]) (rule def)
  show ?case
  proof (cases "get_ins_from_loc loc (ps_graph st)")
    case (Some a)
    then obtain vs where "fold_res (update_var (UpdateChain_to d) loc) vs st = Inr st'"
      using Suc.prems(2) by (auto simp: bind_eq_Inr)
    with Suc.prems(1) show ?thesis by (rule fold_res_invariant [rotated]) (rule var)
  qed (use Suc.prems in simp)
qed (simp add: endless_def)

lemma UpdateChain_speaks: "speaks h st \<Longrightarrow> UpdateChain loc st = Inr st' \<Longrightarrow> speaks h st'"
  unfolding UpdateChain_def by (rule UpdateChain_to_speaks)

lemma dead_ins_speaks:
  assumes "speaks h st" "dead_ins p st = Inr st'"
  shows "speaks h st'"
  using assms unfolding dead_ins_def Let_def
  by (auto simp: bind_eq_Inr intro: speaks_forget UpdateChain_speaks split: if_splits prod.splits)

lemma DeadCodeElimination_speaks:
  assumes "DeadCodeElimination st = Inr st'"
  shows "speaks (ps_heap st) st'"
proof -
  have one: "speaks (ps_heap st) b" if "speaks (ps_heap st) a" "fold_res dead_ins ps a = Inr b" for a b ps
    using that by (rule fold_res_invariant [rotated]) (rule dead_ins_speaks)
  have "speaks (ps_heap st) st" by (simp add: speaks_def)
  then show ?thesis using assms unfolding DeadCodeElimination_def
    by (rule fold_res_invariant [rotated]) (rule one)
qed

lemma dead_code_kept:
  assumes "tidy_state (set (g_rpo (ps_graph st))) st" "DeadCodeElimination st = Inr st'" "n \<in> set (g_rpo (ps_graph st))"
  shows "{p \<in> set (LocWithIns (ps_store st) n). stays st (snd p)} \<subseteq> set (LocWithIns (ps_store st') n)"
    "set (LocWithIns (ps_store st') n) \<subseteq> set (LocWithIns (ps_store st) n)"
    "(i, ins) \<in> set (LocWithIns (ps_store st') n) \<Longrightarrow> 0 \<le> i \<Longrightarrow>
       stays st ins \<or> (\<exists>m \<in> set (g_rpo (ps_graph st)). \<exists>(j, use) \<in> set (LocWithIns (ps_store st') m). \<exists>vs.
         get_used_vars (ps_heap st) use = Inr vs \<and> lhs_of st ins \<in> set vs \<and>
         j \<in> set (chain_at (ps_du st) (lhs_of st ins, i)) \<and> j \<in> set (chain_at (ps_du st') (lhs_of st ins, i)))"
proof -
  note D = DeadCodeElimination_trims [OF assms(1,2)]
  note T = trimsD [OF D(1)]
  show "{p \<in> set (LocWithIns (ps_store st) n). stays st (snd p)} \<subseteq> set (LocWithIns (ps_store st') n)"
    using T(7) [OF assms(3)] by (auto simp: code_at_def)
  show "set (LocWithIns (ps_store st') n) \<subseteq> set (LocWithIns (ps_store st) n)"
    using T(6) [OF assms(3)] by (simp add: code_at_def)
  assume i: "(i, ins) \<in> set (LocWithIns (ps_store st') n)" "0 \<le> i"
  then have live: "live st' i ins" using D(2) [OF assms(3)] by (simp add: code_at_def)
  have say: "speaks (ps_heap st) st'" by (rule DeadCodeElimination_speaks [OF assms(2)])
  have same: "lhs_of st' ins = lhs_of st ins" "get_used_vars (ps_heap st') = get_used_vars (ps_heap st)" if "\<not> stays st ins"
    using say that by (auto simp: speaks_def stays_def acts_def)
  have "linked st" "linked st'" using assms(1) T(1) by (simp_all add: tidy_state_def)
  then have old: "j \<in> set (chain_at (ps_du st) (v, i))" if "j \<in> set (chain_at (ps_du st') (v, i))" for j v
    using that T(9) [of "(v, j)"] unfolding linked_def by blast
  show "stays st ins \<or> (\<exists>m \<in> set (g_rpo (ps_graph st)). \<exists>(j, use) \<in> set (LocWithIns (ps_store st') m). \<exists>vs.
         get_used_vars (ps_heap st) use = Inr vs \<and> lhs_of st ins \<in> set vs \<and>
         j \<in> set (chain_at (ps_du st) (lhs_of st ins, i)) \<and> j \<in> set (chain_at (ps_du st') (lhs_of st ins, i)))"
  proof (cases "stays st ins")
    case False
    from live_used [OF T(1) live i(2)] obtain m j use vs where m: "m \<in> set (g_rpo (ps_graph st))" "(j, use) \<in> code_at st' m"
      and u: "get_used_vars (ps_heap st') use = Inr vs" "lhs_of st' ins \<in> set vs" "j \<in> set (chain_at (ps_du st') (lhs_of st' ins, i))"
      using False T(4) by auto
    have u': "get_used_vars (ps_heap st) use = Inr vs" "lhs_of st ins \<in> set vs" "j \<in> set (chain_at (ps_du st') (lhs_of st ins, i))"
      using u unfolding same [OF False] .
    from m(2) have "(j, use) \<in> set (LocWithIns (ps_store st') m)" by (simp add: code_at_def)
    with m(1) u' old [OF u'(3)] show ?thesis by blast
  qed simp
qed

section \<open>Propagation ends\<close>

text \<open>A pass that reports a change has removed an instruction from the location table.\<close>

abbreviation table_size :: "passes \<Rightarrow> nat" where
  "table_size st \<equiv> length (g_loc_to_ins (ps_graph st))"

definition descends :: "passes \<Rightarrow> passes \<times> bool \<Rightarrow> bool" where
  "descends st0 = (\<lambda>(st, change). table_size st \<le> table_size st0 \<and> (change \<longrightarrow> table_size st < table_size st0))"

lemma drop_ins_size:
  assumes "get_ins_from_loc loc (ps_graph st) = Some i"
  shows "table_size (drop_ins loc st) < table_size st"
proof -
  have "(loc, i) \<in> set (g_loc_to_ins (ps_graph st))" using assms by (simp add: get_ins_from_loc_def map_of_SomeD)
  then have "length (AList.delete loc (g_loc_to_ins (ps_graph st))) < table_size st"
    unfolding AList.delete_eq by (intro length_filter_less) auto
  then show ?thesis by (simp add: drop_ins_def remove_ins_def Let_def split: prod.split)
qed

lemma propagate_def_shape:
  assumes "propagate_def i ins var loc o_ins st = Inr (st', c)"
  shows "\<exists>st1. ps_graph st1 = ps_graph st \<and> ((st' = drop_ins loc st1 \<and> c) \<or> (st' = st1 \<and> \<not> c))"
proof -
  obtain h where h: "(case get_rhs (ps_heap st) o_ins of [] \<Rightarrow> Inr (ps_heap st) | r # _ \<Rightarrow> replace ins var (Some r) (ps_heap st)) = Inr h"
    using assms unfolding propagate_def_def bind_eq_Inr by blast
  obtain vs where vs: "get_used_vars h o_ins = Inr vs" using assms unfolding propagate_def_def h bind_Inr bind_eq_Inr by blast
  obtain du ud where d: "fold (move_use loc i) vs
      (ps_du st, drop_if_empty (var, i) (chain_erase (var, i) loc (ps_ud st))) = (du, ud)" by fastforce
  let ?st = "\<lambda>du. st\<lparr>ps_heap := h, ps_ud := ud, ps_du := du\<rparr>"
  have "(st', c) = (drop_ins loc (?st (AList.delete (var, loc) (chain_erase (var, loc) i du))), True) \<or>
    (st', c) = (?st (chain_erase (var, loc) i du), False)"
    using assms unfolding propagate_def_def h bind_Inr vs Let_def d by (auto split: if_splits)
  moreover have "ps_graph (?st x) = ps_graph st" for x by simp
  ultimately show ?thesis by blast
qed

lemma propagate_use_descends:
  assumes "descends st0 a" "propagate_use i ins var a = Inr a'"
  shows "descends st0 a'"
proof -
  obtain st c where a: "a = (st, c)" by fastforce
  show ?thesis
  proof (cases "a' = a")
    case False
    obtain loc o_ins st' c' where at: "get_ins_from_loc loc (ps_graph st) = Some o_ins"
      and step: "propagate_def i ins var loc o_ins st = Inr (st', c')" and a': "a' = (st', c \<or> c')"
      using assms(2) False by (auto simp: a propagate_use_def bind_eq_Inr split: option.splits list.splits if_splits)
    obtain st1 where g: "ps_graph st1 = ps_graph st"
      and r: "(st' = drop_ins loc st1 \<and> c') \<or> (st' = st1 \<and> \<not> c')"
      using propagate_def_shape [OF step] by blast
    have "table_size (drop_ins loc st1) < table_size st1" using drop_ins_size at g by metis
    then show ?thesis using r assms(1) by (auto simp: a a' descends_def g)
  qed (use assms in simp)
qed

lemma propagation_pass_descends:
  assumes "propagation_pass st = Inr (st', change)"
  shows "descends st (st', change)"
proof -
  have ins: "descends st a'" if "descends st a" "fold_res (propagate_use i ins) vs a = Inr a'" for a a' i ins vs
    using that by (rule fold_res_invariant [rotated]) (rule propagate_use_descends)
  have pair: "descends st a'" if d: "descends st a"
    and r: "(\<lambda>(i, ins) a. bind (get_used_vars (ps_heap (fst a)) ins) (\<lambda>vs. fold_res (propagate_use i ins) vs a)) p a = Inr a'" for a a' p
  proof -
    obtain i b where p: "p = (i, b)" by fastforce
    then obtain vs where "fold_res (propagate_use i b) vs a = Inr a'" using r by (auto simp: bind_eq_Inr)
    from ins [OF d this] show ?thesis .
  qed
  have block: "descends st a'" if "descends st a"
    "fold_res (\<lambda>(i, ins) a. bind (get_used_vars (ps_heap (fst a)) ins) (\<lambda>vs. fold_res (propagate_use i ins) vs a)) ps a = Inr a'" for a a' ps
    using that by (rule fold_res_invariant [rotated]) (rule pair)
  have "descends st (st, False)" by (simp add: descends_def)
  then show ?thesis using assms unfolding propagation_pass_def
    by (rule fold_res_invariant [rotated]) (rule block)
qed

lemma RegisterPropagation_ends:
  "\<exists>r. RegisterPropagation st = Some r \<and>
     (case r of
        Inl e \<Rightarrow> \<exists>st1. table_size st1 \<le> table_size st \<and> propagation_pass st1 = Inl e
      | Inr st' \<Rightarrow> table_size st' \<le> table_size st \<and> (\<exists>st1. propagation_pass st1 = Inr (st', False)))"
proof (induction "table_size st" arbitrary: st rule: less_induct)
  case less
  show ?case
  proof (cases "propagation_pass st")
    case (Inl e)
    then have "RegisterPropagation st = Some (Inl e)" by (subst RegisterPropagation.simps) simp
    then show ?thesis using Inl by auto
  next
    case (Inr r)
    obtain st1 change where r: "r = (st1, change)" by fastforce
    then have step: "descends st (st1, change)" using propagation_pass_descends Inr by simp
    show ?thesis
    proof (cases change)
      case True
      then have small: "table_size st1 < table_size st" using step by (simp add: descends_def)
      from less [OF this] obtain q where q: "RegisterPropagation st1 = Some q"
        "case q of Inl e \<Rightarrow> \<exists>st2. table_size st2 \<le> table_size st1 \<and> propagation_pass st2 = Inl e
         | Inr st' \<Rightarrow> table_size st' \<le> table_size st1 \<and> (\<exists>st1. propagation_pass st1 = Inr (st', False))"
        by blast
      have "RegisterPropagation st = Some q"
        using Inr r True q(1) by (subst RegisterPropagation.simps) simp
      then show ?thesis
      proof (cases q)
        case (Inl e)
        with q(2) obtain st2 where "table_size st2 \<le> table_size st1" "propagation_pass st2 = Inl e" by auto
        with small have "\<exists>st2. table_size st2 \<le> table_size st \<and> propagation_pass st2 = Inl e" by (metis le_less_trans less_imp_le_nat)
        with Inl \<open>RegisterPropagation st = Some q\<close> show ?thesis by auto
      next
        case (Inr st')
        with q(2) small \<open>RegisterPropagation st = Some q\<close> show ?thesis by auto
      qed
    next
      case False
      then have "RegisterPropagation st = Some (Inr st1)"
        using Inr r by (subst RegisterPropagation.simps) simp
      moreover have "\<exists>x. propagation_pass x = Inr (st1, False)" using Inr r False by auto
      ultimately show ?thesis using step by (auto simp: descends_def)
    qed
  qed
qed

end
