(* ===== verification/Dataflow_Passes_Method.thy ===== *)
theory Dataflow_Passes_Method
  imports Dataflow_Method Dataflow_Distinct Dataflow_Passes_Laws
begin

text \<open>
  The passes on the graph of a method: \<open>Construct\<close> numbers the blocks as the removal of instructions
  needs it, and every entry of the chains names a definition of its register.
\<close>

section \<open>The numbered graph\<close>

lemma number_ins_lists:
  assumes "\<forall>n \<in> set (g_rpo g). is_BasicBlock (n_class (heap s n))" "distinct (g_rpo g)" "number_ins s g = (s', g')"
  shows "n \<in> set (g_rpo g) \<Longrightarrow> n_loc_ins (heap s' n) = Some (LocWithIns s' n)"
    "n \<in> set (g_rpo g) \<Longrightarrow> is_BasicBlock (n_class (heap s' n))"
    "get_ins_from_loc loc g' = Some ins \<Longrightarrow> \<exists>n \<in> set (g_rpo g). (loc, ins) \<in> set (LocWithIns s' n)"
proof -
  have r: "number_ins_from (g_rpo g) 0 s (g\<lparr>g_has_loc_indexes := True, g_loc_to_ins := [], g_loc_to_node := []\<rparr>) = (s', g')"
    using assms(3) by (simp add: number_ins_def)
  note L = number_ins_from_lists [OF assms(1,2) r]
  show basic: "is_BasicBlock (n_class (heap s' n))" if "n \<in> set (g_rpo g)" using L that assms(1) by simp
  show "n_loc_ins (heap s' n) = Some (LocWithIns s' n)" if "n \<in> set (g_rpo g)"
    using L that basic [OF that] LocWithIns_some by fastforce
  show "\<exists>n \<in> set (g_rpo g). (loc, ins) \<in> set (LocWithIns s' n)" if "get_ins_from_loc loc g' = Some ins"
  proof -
    have "get_ins_from_loc loc (g\<lparr>g_has_loc_indexes := True, g_loc_to_ins := [], g_loc_to_node := []\<rparr>) = None"
      by (simp add: get_ins_from_loc_def)
    then show ?thesis using L that by fastforce
  qed
qed

lemma number_ins_places:
  assumes "\<forall>n \<in> set (g_rpo g). is_BasicBlock (n_class (heap s n))" "distinct (g_rpo g)" "number_ins s g = (s', g')"
    and n: "n \<in> set (g_rpo g)"
  shows "distinct (map fst (LocWithIns s' n))"
    "(i, ins) \<in> set (LocWithIns s' n) \<Longrightarrow> get_ins_from_loc i g' = Some ins \<and> get_node_from_loc i g' = Some n"
proof -
  let ?g = "g\<lparr>g_has_loc_indexes := True, g_loc_to_ins := [], g_loc_to_node := []\<rparr>"
  have r: "number_ins_from (g_rpo g) 0 s ?g = (s', g')" using assms(3) by (simp add: number_ins_def)
  have e: "\<forall>loc \<ge> 0. get_node_from_loc loc ?g = None" by (simp add: get_node_from_loc_def)
  note F = number_ins_from_facts [OF assms(1,2) r e]
  obtain k where k: "k < length (g_rpo g)" "n = g_rpo g ! k" using n by (metis in_set_conv_nth)
  have L: "LocWithIns s' n = map (\<lambda>i. (location s (g_rpo g) 0 k i, n_ins (heap s n) ! i)) [0..<ins_count s n]"
    using number_ins_from_blocks(1) [OF assms(1,2) r k(1)] k(2) by simp
  show "distinct (map fst (LocWithIns s' n))"
    unfolding L by (simp add: distinct_map inj_on_def location_def)
  show "get_ins_from_loc i g' = Some ins \<and> get_node_from_loc i g' = Some n" if at: "(i, ins) \<in> set (LocWithIns s' n)"
  proof -
    obtain j where j: "j < ins_count s n" "i = location s (g_rpo g) 0 k j" "ins = n_ins (heap s n) ! j"
      using at unfolding L by auto
    then show ?thesis using F k by simp
  qed
qed

lemma number_ins_tidy:
  assumes "\<forall>n \<in> set (g_rpo g). is_BasicBlock (n_class (heap s n))" "distinct (g_rpo g)" "number_ins s g = (s', g')"
  shows "tidy (set (g_rpo g)) s' g'"
  unfolding tidy_def using number_ins_lists [OF assms] number_ins_places [OF assms] by blast

section \<open>The chains\<close>

lemma reaching_use_source:
  assumes "n \<in> set (g_rpo g)" "d \<in> reaching_use ops h s g ps n var i" "0 \<le> d"
  shows "\<exists>p \<in> set (g_rpo g). d \<in> def_locs ops h s p var"
proof (cases "{d \<in> def_locs ops h s n var. d < i} = {}")
  case True
  then have "def_reaches ops h s g ps var d n" using assms(2) by (simp add: reaching_use_def)
  from def_reaches_source [OF this] assms(3) show ?thesis by (auto simp: param_locs_def)
next
  case False
  let ?b = "{d \<in> def_locs ops h s n var. d < i}"
  have "finite ?b" by (simp add: def_locs_of)
  then have "Max ?b \<in> ?b" using False by (rule Max_in)
  moreover have "d = Max ?b" using assms(2) False by (simp add: reaching_use_def Let_def split: if_splits)
  ultimately show ?thesis using assms(1) by blast
qed

section \<open>The state of the passes\<close>

text \<open>What \<open>Construct\<close> and \<open>BuildDefUse\<close> leave is a state dead code elimination can start from.\<close>

lemma method_tidy_state:
  fixes bd :: "(nat, 'v) building"
  assumes "Construct d sn s v = Inr bd" "sn_entry_block_id sn = Some e" "heap_ok h"
  obtains ud s' g' where "BuildDefUse dad_ops h (bd_store bd) (bd_graph bd) ps = Some ((ud, invert_chain ud), s', g')"
    "g_rpo g' = g_rpo (bd_graph bd)" "\<And>n. n \<in> set (g_rpo g') \<Longrightarrow> heap s' n = heap (bd_store bd) n"
    "tidy_state (set (g_rpo g')) \<lparr>ps_heap = h, ps_store = s', ps_graph = g', ps_du = invert_chain ud, ps_ud = ud\<rparr>"
proof -
  let ?s = "bd_store bd" and ?g = "bd_graph bd"
  obtain s3 g2 g3 where run: "number_ins s3 g2 = (?s, g3)" "?g = g3\<lparr>g_exit := only_return ?s (g_nodes g3)\<rparr>"
    and basic: "\<forall>n \<in> set (g_rpo g2). is_BasicBlock (n_class (heap s3 n))" and dist: "distinct (g_rpo g2)"
    by (rule Construct_numbered [OF assms(1,2)])
  have loc: "located ?s ?g" by (rule Construct_located [OF assms(1,2)])
  have g3: "g_rpo g3 = g_rpo g2" using number_ins_wiring(2) [OF run(1)] by auto
  have same: "g_rpo ?g = g_rpo g2" "get_ins_from_loc l ?g = get_ins_from_loc l g3"
    "get_node_from_loc l ?g = get_node_from_loc l g3" for l
    by (simp_all add: run(2) g3 get_ins_from_loc_def get_node_from_loc_def)
  have tidy: "tidy (set (g_rpo ?g)) ?s ?g" using number_ins_tidy [OF basic dist run(1)] unfolding tidy_def same .
  obtain ud s' g' where b: "BuildDefUse dad_ops h ?s ?g ps = Some ((ud, invert_chain ud), s', g')" "same_graph ?g g'"
    and dist_ud: "distinct (map fst ud)" and old: "\<And>n. n \<in> set (g_nodes ?g) \<Longrightarrow> heap s' n = heap ?s n"
    and uses: "\<And>n i ins var. n \<in> set (g_rpo ?g) \<Longrightarrow> (i, ins) \<in> set (LocWithIns ?s n) \<Longrightarrow>
       var \<in> set (ir_used_vars dad_ops h ins) \<Longrightarrow> set (chain_at ud (var, i)) = reaching_use dad_ops h ?s ?g ps n var i"
    and keys: "\<And>var i d. d \<in> set (chain_at ud (var, i)) \<Longrightarrow>
       \<exists>n \<in> set (g_rpo ?g). \<exists>ins. (i, ins) \<in> set (LocWithIns ?s n) \<and> var \<in> set (ir_used_vars dad_ops h ins)"
    by (rule BuildDefUse_exact [OF loc, of dad_ops h ps]) (rule that)
  have rpo: "g_rpo g' = g_rpo ?g" "set (g_rpo ?g) = set (g_nodes ?g)"
    and at: "get_ins_from_loc l g' = get_ins_from_loc l ?g" "get_node_from_loc l g' = get_node_from_loc l ?g" for l
    using b(2) loc by (simp_all add: same_graph_def located_def get_ins_from_loc_def get_node_from_loc_def)
  have heap: "heap s' n = heap ?s n" if "n \<in> set (g_rpo g')" for n using that old rpo by simp
  then have list: "LocWithIns s' n = LocWithIns ?s n" if "n \<in> set (g_rpo g')" for n using that by (simp add: LocWithIns_def)
  let ?st = "\<lparr>ps_heap = h, ps_store = s', ps_graph = g', ps_du = invert_chain ud, ps_ud = ud\<rparr>"
  have "justified ?st var x" if x: "x \<in> set (chain_at ud (var, i))" for var i x
    unfolding justified_def
  proof (intro allI impI disjI2)
    fix ins assume "get_ins_from_loc x (ps_graph ?st) = Some ins"
    then have ins: "get_ins_from_loc x g3 = Some ins" by (simp add: at same)
    then obtain m where m: "m \<in> set (g_rpo ?g)" "(x, ins) \<in> set (LocWithIns ?s m)"
      using number_ins_lists(3) [OF basic dist run(1)] same(1) by metis
    have pos: "0 \<le> x" using loc m unfolding located_def by blast
    obtain n use where n: "n \<in> set (g_rpo ?g)" "(i, use) \<in> set (LocWithIns ?s n)" "var \<in> set (ir_used_vars dad_ops h use)"
      using keys [OF x] by blast
    then have "x \<in> reaching_use dad_ops h ?s ?g ps n var i" using uses x by blast
    from reaching_use_source [OF n(1) this pos] obtain p where p: "p \<in> set (g_rpo ?g)" "x \<in> def_locs dad_ops h ?s p var" by blast
    then obtain def_ins where "(x, def_ins) \<in> set (LocWithIns ?s p)" "GetLhsKey dad_ops h def_ins = var" "var \<noteq> []"
      by (auto simp: def_locs_def defs_in_def)
    moreover from this have "def_ins = ins" using tidy p(1) ins unfolding tidy_def same by fastforce
    ultimately show "lhs_of ?st ins = var \<and> var \<noteq> []" by simp
  qed
  then have "chained ?st" by (simp add: chained_def)
  moreover have "tidy (set (g_rpo g')) s' g'"
    using tidy heap list unfolding tidy_def at rpo(1) by simp
  moreover have "linked ?st"
  proof -
    have used: "distinct (ir_used_vars dad_ops h a)" for a
      using get_used_vars_distinct by (auto simp: dad_ops_def split: sum.split)
    have "\<forall>n \<in> set (g_rpo ?g). distinct (map fst (LocWithIns ?s n))" using number_ins_places(1) [OF basic dist run(1)] same(1) by simp
    note D = BuildDefUse_distinct [OF loc used this b(1) dist_ud]
    have "used_at ?st var i" if "chain_at ud (var, i) \<noteq> []" for var i
    proof -
      have "last (chain_at ud (var, i)) \<in> set (chain_at ud (var, i))" using that by simp
      from keys [OF this] obtain n ins where n: "n \<in> set (g_rpo ?g)" "(i, ins) \<in> set (LocWithIns ?s n)" "var \<in> set (ir_used_vars dad_ops h ins)"
        by blast
      then have "get_ins_from_loc i g' = Some ins" using tidy unfolding tidy_def at by blast
      moreover obtain vs where "get_used_vars h ins = Inr vs" using get_used_vars_answers [OF assms(3)] unfolding answers_def by blast
      ultimately show ?thesis using n(3) by (simp add: used_at_def dad_ops_def)
    qed
    then show ?thesis using D invert_chain_converse [OF dist_ud] by (simp add: linked_def no_repeats_def)
  qed
  ultimately have "tidy_state (set (g_rpo g')) ?st" by (simp add: tidy_state_def)
  with b(1) rpo(1) heap that show thesis by blast
qed

section \<open>Properties\<close>

text \<open>
  C11. Dead code elimination on the graph of a method, with its def-use chains and objects whose operands
  form no cycle, returns. No instruction that calls, has a side effect or has no left-hand side is
  removed, none is added or moved, and a definition that is left without acting has a use that is left:
  an instruction that reads its register and stands in its entry of \<open>du\<close>, in the chains of
  \<open>BuildDefUse\<close> and in those after the pass.
\<close>

theorem dead_code_removed:
  fixes bd :: "(nat, 'v) building"
  assumes "Construct d sn s v = Inr bd" and "sn_entry_block_id sn = Some e" and "heap_ok h"
  shows "\<exists>ud du s' g' st'. BuildDefUse dad_ops h (bd_store bd) (bd_graph bd) ps = Some ((ud, du), s', g') \<and>
    DeadCodeElimination \<lparr>ps_heap = h, ps_store = s', ps_graph = g', ps_du = du, ps_ud = ud\<rparr> = Inr st' \<and>
    (\<forall>n \<in> set (g_rpo (bd_graph bd)).
       {p \<in> set (LocWithIns (bd_store bd) n). GetLhsKey dad_ops h (snd p) = [] \<or>
          is_call h (snd p) = Inr True \<or> has_side_effect h (snd p) = Inr True} \<subseteq> set (LocWithIns (ps_store st') n) \<and>
       set (LocWithIns (ps_store st') n) \<subseteq> set (LocWithIns (bd_store bd) n) \<and>
       (\<forall>(i, ins) \<in> set (LocWithIns (ps_store st') n).
          GetLhsKey dad_ops h ins = [] \<or> is_call h ins = Inr True \<or> has_side_effect h ins = Inr True \<or>
          (\<exists>m \<in> set (g_rpo (bd_graph bd)). \<exists>(j, use) \<in> set (LocWithIns (ps_store st') m). \<exists>vs.
             get_used_vars h use = Inr vs \<and> GetLhsKey dad_ops h ins \<in> set vs \<and>
             j \<in> set (chain_at du (GetLhsKey dad_ops h ins, i)) \<and>
             j \<in> set (chain_at (ps_du st') (GetLhsKey dad_ops h ins, i)))))"
proof -
  obtain ud s' g' where b: "BuildDefUse dad_ops h (bd_store bd) (bd_graph bd) ps = Some ((ud, invert_chain ud), s', g')"
    and rpo: "g_rpo g' = g_rpo (bd_graph bd)" and old: "\<And>n. n \<in> set (g_rpo g') \<Longrightarrow> heap s' n = heap (bd_store bd) n"
    and t: "tidy_state (set (g_rpo g')) \<lparr>ps_heap = h, ps_store = s', ps_graph = g', ps_du = invert_chain ud, ps_ud = ud\<rparr>"
    by (rule method_tidy_state [OF assms, of ps]) (rule that)
  let ?st = "\<lparr>ps_heap = h, ps_store = s', ps_graph = g', ps_du = invert_chain ud, ps_ud = ud\<rparr>"
  have "asks ?st" using assms(3) by (intro asks_heap_ok) simp
  then obtain st' where st': "DeadCodeElimination ?st = Inr st'" using DeadCodeElimination_returns by blast
  have t': "tidy_state (set (g_rpo (ps_graph ?st))) ?st" using t by simp
  have "located (bd_store bd) (bd_graph bd)" by (rule Construct_located [OF assms(1,2)])
  then have pos: "0 \<le> i" if "n \<in> set (g_rpo (bd_graph bd))" "(i, ins) \<in> set (LocWithIns (bd_store bd) n)" for n i ins
    using that unfolding located_def by blast
  have same: "LocWithIns s' n = LocWithIns (bd_store bd) n" if "n \<in> set (g_rpo (bd_graph bd))" for n
    using old that by (simp add: LocWithIns_def rpo)
  note kept = dead_code_kept [OF t' st', simplified, unfolded rpo stays_def acts_def, simplified]
  have left: "set (LocWithIns (ps_store st') n) \<subseteq> set (LocWithIns (bd_store bd) n)" if "n \<in> set (g_rpo (bd_graph bd))" for n
    using kept(2) [OF that] same [OF that] by simp
  have stay: "{p \<in> set (LocWithIns (bd_store bd) n). GetLhsKey dad_ops h (snd p) = [] \<or>
      is_call h (snd p) = Inr True \<or> has_side_effect h (snd p) = Inr True} \<subseteq> set (LocWithIns (ps_store st') n)"
    if "n \<in> set (g_rpo (bd_graph bd))" for n
    using kept(1) [OF that] same [OF that] by simp
  have used: "GetLhsKey dad_ops h ins = [] \<or> is_call h ins = Inr True \<or> has_side_effect h ins = Inr True \<or>
      (\<exists>m \<in> set (g_rpo (bd_graph bd)). \<exists>(j, use) \<in> set (LocWithIns (ps_store st') m). \<exists>vs.
         get_used_vars h use = Inr vs \<and> GetLhsKey dad_ops h ins \<in> set vs \<and>
         j \<in> set (chain_at (invert_chain ud) (GetLhsKey dad_ops h ins, i)) \<and>
         j \<in> set (chain_at (ps_du st') (GetLhsKey dad_ops h ins, i)))"
    if "n \<in> set (g_rpo (bd_graph bd))" "(i, ins) \<in> set (LocWithIns (ps_store st') n)" for n i ins
    using kept(3) [OF that pos [OF that(1) subsetD [OF left [OF that(1)] that(2)]]] by simp
  show ?thesis using b st'
    by (intro exI conjI) (assumption | use stay left used in blast)+
qed

text \<open>
  C12. The loop of \<open>RegisterPropagation\<close> runs finitely often on every state: a pass that reports a change
  has removed an instruction. Either the result is that of a pass that reported none, and no
  instruction has been added, or one of the passes ended in an error: \<open>replace\<close> threw, or a query
  recursed without end on operands that form a cycle (\<open>endless\<close>).
\<close>

theorem register_propagation_ends:
  "\<exists>r. RegisterPropagation st = Some r \<and>
     (case r of
        Inl e \<Rightarrow> \<exists>st1. length (g_loc_to_ins (ps_graph st1)) \<le> length (g_loc_to_ins (ps_graph st)) \<and>
          propagation_pass st1 = Inl e
      | Inr st' \<Rightarrow> length (g_loc_to_ins (ps_graph st')) \<le> length (g_loc_to_ins (ps_graph st)) \<and>
          (\<exists>st1. propagation_pass st1 = Inr (st', False)))"
  by (rule RegisterPropagation_ends)

end
