(* ===== verification/Example_Dataflow.thy ===== *)
theory Example_Dataflow
  imports Dataflow_Passes_Method Example_Construct
begin

text \<open>
  Two blocks, the second a loop: the first assigns a register, the second reads it and assigns it
  again. An instruction is the register it assigns with the registers it reads.
\<close>

type_synonym example_ins = "string option \<times> string list"

definition example_ops :: "(example_ins, unit) ir_ops" where
  "example_ops = \<lparr>ir_lhs_id = (\<lambda>_. fst), ir_used_vars = (\<lambda>_. snd)\<rparr>"

text \<open>
  A snapshot with code: two constants are put into \<open>v1\<close> and \<open>v0\<close>, and the next block returns \<open>v0\<close>. The
  objects are the offsets 0, 2 and 4; their operands, a constant and the two registers, are 5, 6 and 7.
\<close>

definition example_step :: "nat \<Rightarrow> nat \<Rightarrow> unit raw_ins" where
  "example_step off op =
     \<lparr>ri_byte_off = off, ri_length_bytes = 2, ri_opcode = op,
      ri_decoded = \<lparr>vA = 0, vB = 0, vB_wide = 0, vC = 0, arg = [], opcode = op\<rparr>,
      ri_const_ref = NoConst, ri_branch_target = 0\<rparr>"

definition example_straight :: "unit snapshot" where
  "example_straight = (empty_snapshot (FillMethodMeta example_pool 0))
     \<lparr>sn_blocks :=
        [(example_block 0 [\<lparr>ce_kind = Fallthrough, ce_target = 1, ce_label = 0\<rparr>])
            \<lparr>rb_ins := [example_step 0 0x12, example_step 2 0x12]\<rparr>,
         (example_block 4 [])\<lparr>rb_ins := [example_step 4 0x0F]\<rparr>],
      sn_entry_block_id := Some 0\<rparr>"

definition example_object :: "nat \<Rightarrow> ir_obj" where
  "example_object a =
     (let obj = (\<lambda>f m. \<lparr>i_form = f, i_type = ''I'', i_vmap = m, i_name = [], i_synthetic = []\<rparr>) in
      if a = 0 then obj (AssignExpression (Some ''v1'') (Some 5)) [(''v1'', Some 7)]
      else if a = 2 then obj (AssignExpression (Some ''v0'') (Some 5)) [(''v0'', Some 6)]
      else if a = 4 then obj (ReturnInstruction (Some ''v0'')) [(''v0'', Some 6)]
      else if a = 6 then obj (Variable ''v0'' False) []
      else if a = 7 then obj (Variable ''v1'' False) []
      else obj (Constant ''c1'' 1 True) [])"

definition example_objects :: ir_heap where
  "example_objects = \<lparr>io = example_object, io_next = 8\<rparr>"

lemma straight_entry: "sn_entry_block_id example_straight = Some 0"
  by (simp add: example_straight_def)

lemma straight_graph:
  "\<exists>bd. Construct example_handlers example_straight example_store () = Inr bd \<and>
     g_rpo (bd_graph bd) = [0, 1] \<and> LocWithIns (bd_store bd) 0 = [(0, 0), (1, 2)] \<and> LocWithIns (bd_store bd) 1 = [(2, 4)] \<and>
     all_sucs (bd_graph bd) 0 = [1] \<and> all_sucs (bd_graph bd) 1 = []"
  by (simp add: Construct_def example_straight_def empty_snapshot_def exception_types_def no_nodes_def build_loop.simps
      build_block_def BuildNodeFromBlock_def example_block_def example_step_def OP_MONITOR_ENTER_def OP_MONITOR_EXIT_def
      example_handlers_def typed_block_def visit_block_def wire_block_def wire_child_def default_false_def MakeNode_def
      Let_def example_store_def new_ReturnBlock_def new_StatementBlock_def new_block_def compute_rpo_def post_order_def
      post_order_nodes_def po_loop.simps mark_in_catch_def number_ins_def all_preds_def all_sucs_def GetOrEmpty_def
      empty_graph_def add_node_def alloc_def modify_def block_number_ins_def only_return_def is_BasicBlock_def
      LocWithIns_def get_loc_with_ins_def is_CondBlock_def add_edge_def push_new_def build_loc_ins_def upt_rec numeral_2_eq_2)

lemma example_objects_ok: "heap_ok example_objects"
proof -
  have child: "a < b \<and> b < 8" if "b \<in> children example_objects a" for a b
    using that by (auto simp: children_def example_objects_def example_object_def Let_def split: if_splits)
  then have "{(b, a). b \<in> children example_objects a} \<subseteq> {(b, a). a < b}" by auto
  moreover have "acyclic {(b, a :: nat). a < b}"
    by (rule acyclicI_order [where f = "\<lambda>x. x"]) simp
  ultimately have "acyclic {(b, a). b \<in> children example_objects a}" by (rule acyclic_subset [rotated])
  then show ?thesis using child by (auto simp: heap_ok_def example_objects_def)
qed

lemma object_facts:
  "GetLhsKey dad_ops example_objects 0 = ''v1''" "GetLhsKey dad_ops example_objects 2 = ''v0''"
  "GetLhsKey dad_ops example_objects 4 = []"
  "is_call example_objects 0 = Inr False" "has_side_effect example_objects 0 = Inr False"
  "get_used_vars example_objects 0 = Inr []" "get_used_vars example_objects 2 = Inr []"
  "get_used_vars example_objects 4 = Inr [''v0'']"
  by (simp_all add: GetLhsKey_def dad_ops_def GetLhsId_def is_call_def has_side_effect_def get_used_vars_def depth_def
      example_objects_def example_object_def eval_nat_numeral used_keys_def dedups_def ask_def operand_def)

lemma straight_use:
  assumes "g_rpo g = [0, 1]" "LocWithIns s 0 = [(0, 0), (1, 2)]" "LocWithIns s 1 = [(2, 4)]" "all_sucs g 0 = [1]" "all_sucs g 1 = []"
  shows "reaching_use dad_ops example_objects s g [] 1 ''v0'' 2 = {1}"
proof -
  have defs: "def_locs dad_ops example_objects s 0 r = (if r = ''v0'' then {1} else if r = ''v1'' then {0} else {})"
    "def_locs dad_ops example_objects s 1 r = {}" for r
    using assms(2,3) by (auto simp: def_locs_def defs_in_def object_facts)
  have "def_reaches dad_ops example_objects s g [] ''v0'' 1 1"
    using def_reaches.last [of 0 g dad_ops example_objects s "''v0''" 1 "[]"] assms(1,4) by (simp add: defs)
  moreover have "loc = 1" if "def_reaches dad_ops example_objects s g [] ''v0'' loc n" for loc n
    using def_reaches_source [OF that] assms(1)
    by (auto simp: param_locs_def defs simp del: One_nat_def split: if_splits)
  ultimately show ?thesis by (auto simp: reaching_use_def defs simp del: One_nat_def)
qed

text \<open>
  The state of the passes on a block that puts the constant into \<open>v0\<close> and returns \<open>v0\<close>, and the objects
  after the constant has taken the place of the register.
\<close>

definition const_numbered :: "nat store \<times> nat graph" where
  "const_numbered = number_ins \<lparr>heap = (\<lambda>_. new_ReturnBlock ''a'' [2, 4]), fresh = 1\<rparr>
     ((add_node 0 empty_graph)\<lparr>g_entry := Some 0, g_rpo := [0]\<rparr>)"

definition const_passes :: passes where
  "const_passes = \<lparr>ps_heap = example_objects, ps_store = fst const_numbered, ps_graph = snd const_numbered,
     ps_du = [((''v0'', 0), [1])], ps_ud = [((''v0'', 1), [0])]\<rparr>"

definition replaced_objects :: ir_heap where
  "replaced_objects = put_obj 4 ((example_object 4)\<lparr>i_vmap := [(''v0'', Some 5)]\<rparr>) example_objects"

definition const_propagated :: passes where
  "const_propagated = (drop_ins 0 const_passes)\<lparr>ps_heap := replaced_objects, ps_du := [], ps_ud := []\<rparr>"

lemma propagation_facts:
  "is_propagable example_objects 2 = Inr True" "is_const example_objects 5 = Inr True" "get_rhs example_objects 2 = [5]"
  "has_side_effect example_objects 2 = Inr False" "replace 4 ''v0'' (Some 5) example_objects = Inr replaced_objects"
  "get_used_vars replaced_objects 2 = Inr []" "get_used_vars replaced_objects 4 = Inr []"
  by (simp_all add: is_propagable_def is_const_def get_rhs_def has_side_effect_def replace_def get_used_vars_def depth_def
      example_objects_def example_object_def replaced_objects_def put_obj_def eval_nat_numeral used_keys_def dedups_def
      ask_def operand_def replace_one_def compound_def is_ident_def put_name_def set_key_def vmap_set_def Let_def)

lemma const_tables:
  "LocWithIns (fst const_numbered) 0 = [(0, 2), (1, 4)]" "get_ins_from_loc 0 (snd const_numbered) = Some 2"
  "g_rpo (snd const_numbered) = [0]"
  by (simp_all add: const_numbered_def number_ins_def empty_graph_def add_node_def is_BasicBlock_def new_ReturnBlock_def
      new_block_def block_number_ins_def LocWithIns_def get_loc_with_ins_def Let_def get_ins_from_loc_def build_loc_ins_def upt_conv_Cons)

lemma const_left:
  "LocWithIns (ps_store (drop_ins 0 const_passes)) 0 = [(1, 4)]" "g_rpo (ps_graph (drop_ins 0 const_passes)) = [0]"
  by (simp_all add: const_passes_def const_numbered_def number_ins_def empty_graph_def add_node_def is_BasicBlock_def
      new_ReturnBlock_def new_block_def block_number_ins_def LocWithIns_def get_loc_with_ins_def Let_def
      get_ins_from_loc_def get_node_from_loc_def drop_ins_def remove_ins_def block_remove_ins_def modify_def build_loc_ins_def upt_conv_Cons)

lemma drop_ins_fields:
  "drop_ins 0 (st\<lparr>ps_heap := h, ps_ud := ud, ps_du := du\<rparr>) = (drop_ins 0 st)\<lparr>ps_heap := h, ps_ud := ud, ps_du := du\<rparr>"
  by (simp add: drop_ins_def split: prod.split)

lemma const_step: "propagate_def 1 4 ''v0'' 0 2 const_passes = Inr (const_propagated, True)"
proof -
  have st: "ps_heap const_passes = example_objects" "ps_ud const_passes = [((''v0'', 1), [0])]"
    "ps_du const_passes = [((''v0'', 0), [1])]"
    by (simp_all add: const_passes_def)
  show ?thesis
    by (simp add: propagate_def_def st propagation_facts Let_def chain_erase_def drop_if_empty_def chain_at_def
        drop_ins_fields const_propagated_def)
qed

lemma const_pass: "propagation_pass const_passes = Inr (const_propagated, True)"
proof -
  have st: "ps_heap const_passes = example_objects" "ps_ud const_passes = [((''v0'', 1), [0])]"
    "ps_store const_passes = fst const_numbered" "ps_graph const_passes = snd const_numbered"
    by (simp_all add: const_passes_def)
  have may: "may_propagate const_passes ''v0'' 1 0 2 = Inr True"
    by (simp add: may_propagate_def st propagation_facts Let_def)
  show ?thesis
    by (simp add: propagation_pass_def st const_tables object_facts propagate_use_def may const_step)
qed

lemma const_pass_last: "propagation_pass const_propagated = Inr (const_propagated, False)"
  by (simp add: propagation_pass_def const_propagated_def const_left propagation_facts)

lemma const_done: "RegisterPropagation const_passes = Some (Inr const_propagated)"
  by (subst RegisterPropagation.simps, simp add: const_pass, subst RegisterPropagation.simps, simp add: const_pass_last)

definition example_blocks :: "example_ins store" where
  "example_blocks = \<lparr>heap = (\<lambda>n. if n = 0 then new_StatementBlock ''a'' [(Some ''v0'', [])]
       else new_StatementBlock ''b'' [(Some ''v0'', [''v0''])]), fresh = 3\<rparr>"

definition example_loop :: "example_ins graph" where
  "example_loop = (add_edge 2 2 (add_edge 0 2 (add_node 2 (add_node 0 empty_graph))))\<lparr>g_entry := Some 0, g_rpo := [0, 2]\<rparr>"

definition example_numbered :: "example_ins store \<times> example_ins graph" where
  "example_numbered = number_ins example_blocks example_loop"

abbreviation loop_store :: "example_ins store" where "loop_store \<equiv> fst example_numbered"
abbreviation loop_graph :: "example_ins graph" where "loop_graph \<equiv> snd example_numbered"

lemma loop_ok: "graph_ok example_loop"
proof -
  have "graph_ok (add_node 2 (add_node 0 (empty_graph :: example_ins graph)))"
    by (intro graph_ok_add_node graph_ok_empty) (simp_all add: empty_graph_def)
  then show ?thesis
    by (simp add: example_loop_def graph_ok_add_edge empty_graph_def)
qed

lemma loop_located: "located loop_store loop_graph"
proof -
  have "\<exists>x. g_exit loop_graph = x \<and> x = None"
    by (simp add: example_numbered_def number_ins_def example_loop_def example_blocks_def empty_graph_def
        add_edge_def add_node_def is_BasicBlock_def new_StatementBlock_def new_block_def block_number_ins_def)
  then have exit: "loop_graph\<lparr>g_exit := None\<rparr> = loop_graph" by auto
  have "located loop_store (loop_graph\<lparr>g_exit := None\<rparr>)"
    by (rule numbered_located [OF loop_ok])
      (auto simp: example_numbered_def example_loop_def example_blocks_def empty_graph_def is_BasicBlock_def
        new_StatementBlock_def new_block_def)
  then show ?thesis unfolding exit .
qed

lemma loop_tables: "g_rpo loop_graph = [0, 2]" "LocWithIns loop_store 0 = [(0, (Some ''v0'', []))]"
  "LocWithIns loop_store 2 = [(1, (Some ''v0'', [''v0'']))]" "all_sucs loop_graph 0 = [2]" "all_sucs loop_graph 2 = [2]"
  "g_nodes loop_graph = [0, 2]"
  by (simp_all add: example_numbered_def number_ins_def example_loop_def example_blocks_def empty_graph_def all_sucs_def
      add_edge_def add_node_def is_BasicBlock_def new_StatementBlock_def new_block_def block_number_ins_def
      push_new_def GetOrEmpty_def LocWithIns_def build_loc_ins_def get_loc_with_ins_def Let_def)

lemma loop_defs: "def_locs example_ops h loop_store 0 r = (if r = ''v0'' then {0} else {})"
  "def_locs example_ops h loop_store 2 r = (if r = ''v0'' then {1} else {})"
  by (auto simp: def_locs_def defs_in_def loop_tables GetLhsKey_def example_ops_def)

lemma loop_reaches: "{loc. \<exists>r. def_reaches example_ops h loop_store loop_graph [] r loc 2} = {0, 1}"
proof -
  have "def_reaches example_ops h loop_store loop_graph [] ''v0'' 0 2"
    using def_reaches.last [of 0 loop_graph example_ops h loop_store "''v0''" 2 "[]"] by (simp add: loop_tables loop_defs)
  moreover have "def_reaches example_ops h loop_store loop_graph [] ''v0'' 1 2"
    using def_reaches.last [of 2 loop_graph example_ops h loop_store "''v0''" 2 "[]"] by (simp add: loop_tables loop_defs)
  moreover have "loc \<in> {0, 1}" if "def_reaches example_ops h loop_store loop_graph [] r loc n" for r loc n
    using def_reaches_source [OF that] by (auto simp: param_locs_def loop_tables loop_defs split: if_splits)
  ultimately show ?thesis by blast
qed

section \<open>Witnesses\<close>

theorem method_def_use_witness:
  "\<exists>bd ud du s' g'. Construct example_handlers example_straight example_store () = Inr bd \<and>
     BuildDefUse dad_ops example_objects (bd_store bd) (bd_graph bd) [] = Some ((ud, du), s', g') \<and>
     same_graph (bd_graph bd) g' \<and> set (chain_at ud (''v0'', 2)) = {1} \<and> 2 \<in> set (chain_at du (''v0'', 1))"
proof -
  obtain bd where bd: "Construct example_handlers example_straight example_store () = Inr bd"
    "g_rpo (bd_graph bd) = [0, 1]" "LocWithIns (bd_store bd) 0 = [(0, 0), (1, 2)]" "LocWithIns (bd_store bd) 1 = [(2, 4)]"
    "all_sucs (bd_graph bd) 0 = [1]" "all_sucs (bd_graph bd) 1 = []"
    using straight_graph by blast
  have used: "''v0'' \<in> set (ir_used_vars dad_ops example_objects 4)" by (simp add: dad_ops_def object_facts)
  from method_def_use [OF bd(1) straight_entry, of dad_ops example_objects "[]"] show ?thesis
  proof (elim exE conjE, goal_cases)
    case (1 ud du s' g')
    have "set (chain_at ud (''v0'', 2)) = {1}"
      using 1(3) [rule_format, of 1 2 4 "''v0''"] straight_use [OF bd(2-6)] bd(2,4) used by simp
    then show ?case using bd(1) 1(1,2,4) by (intro exI conjI) (assumption | simp)+
  qed
qed

theorem dead_code_removed_witness:
  "\<exists>bd ud du s' g' st'. Construct example_handlers example_straight example_store () = Inr bd \<and>
     BuildDefUse dad_ops example_objects (bd_store bd) (bd_graph bd) [] = Some ((ud, du), s', g') \<and>
     DeadCodeElimination \<lparr>ps_heap = example_objects, ps_store = s', ps_graph = g', ps_du = du, ps_ud = ud\<rparr> = Inr st' \<and>
     (0, 0) \<in> set (LocWithIns (bd_store bd) 0) \<and> (0, 0) \<notin> set (LocWithIns (ps_store st') 0) \<and>
     (2, 4) \<in> set (LocWithIns (ps_store st') 1)"
proof -
  obtain bd where bd: "Construct example_handlers example_straight example_store () = Inr bd"
    "g_rpo (bd_graph bd) = [0, 1]" "LocWithIns (bd_store bd) 0 = [(0, 0), (1, 2)]" "LocWithIns (bd_store bd) 1 = [(2, 4)]"
    using straight_graph by blast
  from dead_code_removed [OF bd(1) straight_entry example_objects_ok, of "[]"] show ?thesis
  proof (elim exE conjE, goal_cases)
    case (1 ud du s' g' st')
    have at: "0 \<in> set (g_rpo (bd_graph bd))" "1 \<in> set (g_rpo (bd_graph bd))" by (simp_all add: bd(2))
    note block0 = bspec [OF 1(3) at(1)] and block1 = bspec [OF 1(3) at(2)]
    have "(2, 4) \<in> set (LocWithIns (ps_store st') 1)"
      using subsetD [OF conjunct1 [OF block1], of "(2, 4)"] bd(4) object_facts(3) by simp
    moreover have "(0, 0) \<notin> set (LocWithIns (ps_store st') 0)"
    proof
      assume "(0, 0) \<in> set (LocWithIns (ps_store st') 0)"
      from bspec [OF conjunct2 [OF conjunct2 [OF block0]] this]
      obtain m j use vs where "m \<in> {0, 1}" "(j, use) \<in> set (LocWithIns (ps_store st') m)"
        and vs: "get_used_vars example_objects use = Inr vs" "''v1'' \<in> set vs"
        by (auto simp: object_facts bd(2))
      then have "use = 0 \<or> use = 2 \<or> use = 4"
        using subsetD [OF conjunct1 [OF conjunct2 [OF block0]]] subsetD [OF conjunct1 [OF conjunct2 [OF block1]]]
        unfolding bd(3,4) by auto
      with vs show False by (auto simp: object_facts)
    qed
    ultimately show ?case using bd(1,3) 1(1,2) by (intro exI conjI) (assumption | simp)+
  qed
qed

theorem register_propagation_ends_witness:
  "\<exists>st' st1. RegisterPropagation const_passes = Some (Inr st') \<and> propagation_pass st1 = Inr (st', False) \<and>
     length (g_loc_to_ins (ps_graph st')) \<le> length (g_loc_to_ins (ps_graph const_passes)) \<and>
     LocWithIns (ps_store const_passes) 0 = [(0, 2), (1, 4)] \<and> LocWithIns (ps_store st') 0 = [(1, 4)] \<and>
     get_used_vars (ps_heap const_passes) 4 = Inr [''v0''] \<and> get_used_vars (ps_heap st') 4 = Inr []"
proof -
  obtain st1 where "propagation_pass st1 = Inr (const_propagated, False)"
    "length (g_loc_to_ins (ps_graph const_propagated)) \<le> length (g_loc_to_ins (ps_graph const_passes))"
    using register_propagation_ends [of const_passes] by (auto simp: const_done)
  moreover have "LocWithIns (ps_store const_passes) 0 = [(0, 2), (1, 4)]" "get_used_vars (ps_heap const_passes) 4 = Inr [''v0'']"
    by (simp_all add: const_passes_def const_tables object_facts)
  moreover have "LocWithIns (ps_store const_propagated) 0 = [(1, 4)]" "get_used_vars (ps_heap const_propagated) 4 = Inr []"
    by (simp_all add: const_propagated_def const_left propagation_facts)
  ultimately show ?thesis using const_done by blast
qed

theorem reaching_definitions_witness:
  "\<exists>a s' g'. ReachDefResult example_ops () loop_store loop_graph [] = Some (a, s', g') \<and> rd_R a 2 = {0, 1}"
  using reaching_definitions [OF loop_located, of example_ops "()" "[]"] loop_reaches [of "()"]
  by (auto simp: loop_tables)

end
