(* ===== verification/Spec2Isabelle.thy ===== *)
theory Spec2Isabelle
  imports Example_Run Example_Cfg Example_Facade Example_Snapshot Example_Construct Example_Dataflow
begin

text \<open>
  Verification of the native core of dex-analyzer-for-llm, the program that loads untrusted Android
  DEX images, answers queries about them and decompiles their methods to Java text.

  \<^bold>\<open>The program.\<close> An image first passes the load-time gate (\<open>src/native/core_ext/dex_verifier.cpp\<close>),
  which walks the header, the map, every item and every cross reference, with the instruction
  decoder of the vendored slicer (\<open>dex_bytecode.cc\<close>). Everything after the gate reads the image
  unchecked. To decompile a method, the facade (\<open>src/native/dad_cpp/decompiler.cpp\<close>) asks the data
  source for a snapshot of the method (\<open>method_snapshot_builder.cpp\<close>): the decoded instructions, cut
  into basic blocks. The blocks become the nodes of a graph (\<open>node.cpp\<close>, \<open>basic_blocks.cpp\<close>,
  \<open>graph.cpp\<close>), which is cleaned up, numbered, and structured into loops, conditionals and try
  blocks (\<open>control_flow.cpp\<close>). Names and literals go through the text utilities (\<open>util.cpp\<close>,
  \<open>mutf8.cpp\<close>), the finished text is sanitized and kept in a bounded cache that concurrent callers
  share.

  \<^bold>\<open>Conventions.\<close> A computation that can fail returns \<open>fault + 'a\<close> (\<open>Prelude\<close>): \<open>Reject\<close> is the
  verifier's \<open>Fail\<close>, \<open>Throw\<close> a C++ exception, and \<open>Oob\<close> a read outside the image, which the theorems
  exclude. An image is a list of bytes and a pointer into it a position; a \<open>u4\<close> is a natural number
  reduced by \<open>u32\<close> where the code can wrap, and everything done bit by bit is done on words. The nodes
  of the decompiler's graph are objects in an explicit store, addressed by natural numbers. Hash maps
  are association lists, \<open>std::set\<close> an ascending list.

  \<^bold>\<open>The gate.\<close>
  \<^item> \<open>Dex_Format\<close> has the structures of \<open>dex_format.h\<close> and their checked reads, \<open>Bytecode\<close> the 256-row
    opcode table, the widths and \<open>DecodeInstruction\<close>.
  \<^item> \<open>Descriptors\<close> has the validators of descriptors and member names, \<open>Descriptors_Refine\<close> their
    equivalence with a grammar.
  \<^item> \<open>Verifier_Base\<close>, \<open>Verifier_Header\<close>, \<open>Verifier_Map\<close>, \<open>Verifier_Items\<close>, \<open>Verifier_Values\<close>,
    \<open>Verifier_Annotations\<close>, \<open>Verifier_Insns\<close>, \<open>Verifier_Code\<close>, \<open>Verifier_Class\<close>, \<open>Verifier_Intra\<close> and
    \<open>Verifier_Inter\<close> follow the member functions of \<open>DexVerifier\<close>, each with the predicate its
    acceptance establishes; \<open>Verify_Dex\<close> composes them. Two contracts recur and are locales: a record
    parser driven by a counted loop (\<open>Record_Reader\<close>) and a memoised walk (\<open>Verifier_Annotations\<close>).
    They are interpreted on the parsers and walks of the code.

  The lemmas show that no phase leaves the image, that the gate always gives a verdict, and what an
  accepted image guarantees.

  \<^bold>\<open>The decompiler.\<close>
  \<^item> \<open>Mutf8_Codec\<close> is \<open>mutf8.cpp\<close>; \<open>Mutf8_Spec\<close> and \<open>Mutf8_Roundtrip\<close> relate it to Unicode and show the
    round trips. \<open>Dad_Util\<close> and \<open>Dad_Util_Laws\<close> do the same for \<open>util.cpp\<close>.
  \<^item> \<open>Snapshot_Builder\<close> is \<open>method_snapshot_builder.cpp\<close>; \<open>Snapshot_Laws\<close> shows that the blocks are a
    partition into basic blocks with the right successors, and that the builder accepts all code the
    gate accepted.
  \<^item> \<open>Cfg_Construct\<close> builds the graph of a snapshot; \<open>Cfg_Construct_Laws\<close> shows that it is a copy of the
    part of the snapshot the entry reaches, and composes gate, snapshot and graph.
  \<^item> \<open>Cfg_Node\<close>, \<open>Cfg_Graph\<close>, \<open>Cfg_Passes\<close>, \<open>Cfg_Intervals\<close> and \<open>Cfg_Structure\<close> are the graph and its
    passes. \<open>Cfg_Graph_Laws\<close> has the invariant \<open>graph_ok\<close> of the adjacency tables, \<open>Cfg_Traversal\<close> and
    \<open>Cfg_Numbering\<close> the traversal and the instruction numbers, \<open>Cfg_Passes_Laws\<close> the clean-ups,
    \<open>Interval_Spec\<close> and \<open>Interval_Termination\<close> the derived sequence, \<open>Cfg_Structure_Laws\<close> the
    structuring passes.
  \<^item> \<open>Dataflow\<close> has the reaching definitions and the def-use chains of \<open>dataflow.cpp\<close>.
    \<open>Dataflow_Reach\<close> shows that the worklist empties and computes the flow, \<open>Dataflow_Defs\<close> what the
    constructor collects, \<open>Dataflow_Chains\<close> and \<open>Dataflow_Def_Use\<close> that the answers are the definitions
    that reach a use, \<open>Dataflow_Distinct\<close> that the chains repeat nothing, and \<open>Dataflow_Method\<close> that the graph of a method is numbered as they need it.
  \<^item> \<open>Dad_Ir\<close> has the instruction objects of \<open>instruction.h\<close>: a heap of objects, the dynamic class a
    \<open>datatype\<close>, the shared operands under their keys. \<open>Dad_Ir_Laws\<close> shows that every query answers when the
    operands form no cycle (\<open>heap_ok\<close>). \<open>Dataflow_Passes\<close> has the passes that work on them:
    dead code elimination, register propagation, and the placement of declarations with the dominator
    tree as a parameter. \<open>Dataflow_Passes_Laws\<close> shows that the first returns on such objects and leaves a definition that
    does not act only with a use, and that the loop of the second runs finitely often,
    \<open>Dataflow_Passes_Method\<close> that the chains of the graph of a method are as the passes need them.
  \<^item> \<open>Decompiler_Facade\<close> is \<open>decompiler.cpp\<close>; \<open>Decompiler_Facade_Laws\<close> shows that the cache is a
    least-recently-used map, that its two critical sections tolerate any interleaving, and that the text
    of a class is well-formed UTF-8 when the messages of escaped exceptions are (\<open>DecompileClass\<close> appends
    them as they are).

  The theories named \<open>Example_\<close> hold the concrete image, graphs, data source and code on which the
  theorems with hypotheses are applied.

  \<^bold>\<open>Loops.\<close> Loops bounded by the input are total functions with a measure. The loops the source does
  not bound (\<open>Simplify\<close>, \<open>Intervals\<close>, \<open>DerivedSequenceOf\<close>, the worklist of \<open>BasicReachDef\<close>,
  \<open>RegisterPropagation\<close>) are partial functions, and that they return
  on every well-formed graph is proved. \<open>UpdateChain\<close> calls itself; the entries of \<open>ud\<close> bound the depth. A
  query of an instruction follows its operands no deeper than there are objects: deeper it can only go
  round a cycle, where the code recurses without bound, and the query is the error \<open>endless\<close>, never a
  default. The passes hand that error on. \<open>RegisterPropagation\<close> assumes that an insertion into \<open>ud\<close> leaves
  its iterator valid, which \<open>std::unordered_map\<close> does not promise. The only numeric cap is the program's own, \<open>kMaxIters\<close> of
  \<open>ShortCircuitStruct\<close>, and it is proved unreachable.

  \<^bold>\<open>Not modelled.\<close> The opcode handlers (\<open>opcode_ins.cpp\<close>), which are calls of the constructors of
  \<open>Dad_Ir\<close>, the splitting of variables and the type inference of \<open>dataflow.cpp\<close>, and the writers
  (\<open>writer.cpp\<close>, \<open>dast.cpp\<close>). The graph and the analyses take the instructions as a type parameter and
  what they ask of them as a record of functions, which the passes fill with the queries of \<open>Dad_Ir\<close>.
  \<open>Graph::DomLt\<close> and the visitor hooks of the nodes; the opcode handlers are a parameter of \<open>Construct\<close>. The
  loader and the query layer (\<open>dexkit_ext.cpp\<close>, \<open>dexitem_code_source.cpp\<close>, \<open>analysis.cpp\<close>), which work
  on the objects of the vendored core; the data source they provide is a record of functions. The
  Python bindings and the generated tables.
\<close>

section \<open>Properties\<close>

text \<open>
  C3. For a dex the verifier accepts, decoding any pool string for the caller and encoding it again as
  a query gives the bytes of the pool back, so an enumerated name always resolves.
\<close>

theorem accepted_strings_roundtrip:
  assumes "VerifyDex im ci off st = Inr (r, st')" and "vr_ok r"
  shows "\<exists>c. v_img c = im \<and> data_range_of im (header_at im off) c \<and>
    (\<forall>i < string_ids_size (header_at im off).
       Utf8ToMutf8 (Mutf8ToUtf8 (string_bytes c i)) = string_bytes c i)"
proof -
  obtain c where c: "dex_valid im off ci (vr_deviations r) c" using verify_dex_valid [OF assms] by blast
  then have pre: "inter_pre c" and h: "v_img c = im" "v_hdr c = header_at im off"
      "data_range_of im (header_at im off) c"
    by (simp_all add: dex_valid_def inter_pre_def)
  have "Utf8ToMutf8 (Mutf8ToUtf8 (string_bytes c i)) = string_bytes c i"
    if "i < string_ids_size (header_at im off)" for i
    using StringContent_pre(2) [OF pre, of i] that h(2)
    by (intro mutf8_utf8_mutf8) (simp add: string_bytes_def str_ok_def)
  with h show ?thesis by blast
qed

section \<open>Witnesses\<close>

theorem accepted_strings_roundtrip_witness:
  "\<exists>c. v_img c = example_dex \<and> Utf8ToMutf8 (Mutf8ToUtf8 (string_bytes c 0)) = string_bytes c 0"
proof -
  have "0 < string_ids_size (header_at example_dex 0)" by (simp add: example_header example_hdr_def)
  with accepted_strings_roundtrip [OF example_verify] show ?thesis by auto
qed

end
